(* ===== verification/TT_Prelude.thy ===== *)
theory TT_Prelude
  imports Main "HOL-Library.Word"
begin

text \<open>
  Shared vocabulary of the development: machine integers, Rust results, big-endian byte
  access, buffer writes, and the contract of a fixed-size packet header. Every component
  theory imports this one, directly or through another component.
\<close>

unbundle bit_operations_syntax

section \<open>Machine integers and results\<close>

type_synonym u8 = "8 word"
type_synonym u16 = "16 word"
type_synonym u32 = "32 word"
type_synonym bytes = "8 word list"

text \<open>
  Times are the \<open>Micros\<close> of tailtalk-core (src/tailtalk-core/src/lib.rs). They are natural
  numbers here: a 64-bit microsecond count does not wrap within half a million years, and
  the truncated subtraction of \<open>nat\<close> is Rust's \<open>saturating_sub\<close>.
\<close>

type_synonym micros = nat

text \<open>\<open>Result<T, E>\<close> is \<open>'e + 'a\<close>: \<open>Inl\<close> for \<open>Err\<close>, \<open>Inr\<close> for \<open>Ok\<close>.\<close>

definition is_ok :: "'e + 'a \<Rightarrow> bool" where
  "is_ok r = (case r of Inl _ \<Rightarrow> False | Inr _ \<Rightarrow> True)"

lemma is_ok_simps [simp]: "is_ok (Inr x)" "\<not> is_ok (Inl e)"
  by (simp_all add: is_ok_def)

section \<open>Theorem collections\<close>

named_theorems codec_defs \<open>definitions of the encoders and decoders\<close>
named_theorems byte_simps \<open>how byte accessors undo byte constructors\<close>

lemma bit_u8D: "bit (w :: u8) n \<Longrightarrow> n < 8"
  using bit_imp_le_length [of w n] by simp

lemma bit_u16D: "bit (w :: u16) n \<Longrightarrow> n < 16"
  using bit_imp_le_length [of w n] by simp

lemma bit_u32D: "bit (w :: u32) n \<Longrightarrow> n < 32"
  using bit_imp_le_length [of w n] by simp

lemma bit_u16_shiftD: "bit (w :: u16) (8 + n) \<Longrightarrow> n < 8"
  using bit_u16D [of w "8 + n"] by simp

lemmas bit_lengthD = bit_u8D bit_u16D bit_u32D bit_u16_shiftD

lemma unat_u8_less: "unat (w :: u8) < 256"
  using unsigned_less [of w] by simp

lemma unat_u16_less: "unat (w :: u16) < 65536"
  using unsigned_less [of w] by simp

lemma xor_cancel_right: "x XOR z = y XOR z \<longleftrightarrow> x = y" for x y z :: "'a::len word"
  by (auto simp: bit_eq_iff bit_simps)

lemma xor_cancel_left: "z XOR x = z XOR y \<longleftrightarrow> x = y" for x y z :: "'a::len word"
  by (auto simp: bit_eq_iff bit_simps)

lemma bit_nat_less: "(n :: nat) < 2 ^ k \<Longrightarrow> bit n i \<Longrightarrow> i < k"
proof (rule ccontr)
  assume n: "n < 2 ^ k" and b: "bit n i" and "\<not> i < k"
  then have "(2 :: nat) ^ k \<le> 2 ^ i" by (intro power_increasing) simp_all
  with n have "n < 2 ^ i" by (rule less_le_trans)
  then have "n div 2 ^ i = 0" by (rule div_less)
  with b show False by (simp add: bit_iff_odd)
qed

lemma bit_word_less: "unat w < 2 ^ k \<Longrightarrow> bit w i \<Longrightarrow> i < k" for w :: "'a::len word"
  using bit_nat_less [of "unat w" k i] bit_imp_le_length [of w i] by (simp add: bit_unsigned_iff)

section \<open>Big-endian byte access\<close>

definition be16 :: "u8 \<Rightarrow> u8 \<Rightarrow> u16" where
  "be16 h l = push_bit 8 (ucast h) OR ucast l"

definition hi8 :: "u16 \<Rightarrow> u8" where
  "hi8 w = ucast (drop_bit 8 w)"

definition lo8 :: "u16 \<Rightarrow> u8" where
  "lo8 w = ucast w"

definition be32 :: "u8 \<Rightarrow> u8 \<Rightarrow> u8 \<Rightarrow> u8 \<Rightarrow> u32" where
  "be32 a b c d = push_bit 24 (ucast a) OR push_bit 16 (ucast b) OR push_bit 8 (ucast c) OR ucast d"

definition u16_bytes :: "u16 \<Rightarrow> bytes" where
  "u16_bytes w = [hi8 w, lo8 w]"

definition u32_bytes :: "u32 \<Rightarrow> bytes" where
  "u32_bytes w = [ucast (drop_bit 24 w), ucast (drop_bit 16 w), ucast (drop_bit 8 w), ucast w]"

definition read_u16 :: "bytes \<Rightarrow> nat \<Rightarrow> u16" where
  "read_u16 b i = be16 (b ! i) (b ! (i + 1))"

definition read_u32 :: "bytes \<Rightarrow> nat \<Rightarrow> u32" where
  "read_u32 b i = be32 (b ! i) (b ! (i + 1)) (b ! (i + 2)) (b ! (i + 3))"

lemma be16_hi_lo [byte_simps, simp]: "be16 (hi8 w) (lo8 w) = w"
  by (rule bit_word_eqI) (auto simp: be16_def hi8_def lo8_def bit_simps)

lemma hi8_be16 [byte_simps, simp]: "hi8 (be16 h l) = h"
  by (rule bit_word_eqI) (auto simp: be16_def hi8_def bit_simps dest: bit_imp_le_length)

lemma lo8_be16 [byte_simps, simp]: "lo8 (be16 h l) = l"
  by (rule bit_word_eqI) (auto simp: be16_def lo8_def bit_simps)

lemma be32_bytes [byte_simps, simp]:
  "be32 (ucast (drop_bit 24 w)) (ucast (drop_bit 16 w)) (ucast (drop_bit 8 w)) (ucast w) = w"
proof (rule bit_word_eqI)
  fix n assume n: "n < LENGTH(32)"
  then have "n < 8 \<or> (8 \<le> n \<and> n < 16) \<or> (16 \<le> n \<and> n < 24) \<or> (24 \<le> n \<and> n < 32)" by auto
  then show "bit (be32 (ucast (drop_bit 24 w)) (ucast (drop_bit 16 w)) (ucast (drop_bit 8 w)) (ucast w)) n
    = bit w n"
    by (elim disjE) (auto simp: be32_def bit_simps)
qed

lemma length_u16_bytes [simp]: "length (u16_bytes w) = 2"
  by (simp add: u16_bytes_def)

lemma length_u32_bytes [simp]: "length (u32_bytes w) = 4"
  by (simp add: u32_bytes_def)

section \<open>Writing into a caller's buffer\<close>

text \<open>
  \<open>buf[i..i + d.len()].copy_from_slice(d)\<close> on a buffer long enough to hold it; the
  encoders check the length first, so the slice never panics where \<^const>\<open>take\<close> would fall
  short. Consecutive field writes of a header are one \<open>put\<close> of the concatenated fields.
\<close>

definition put :: "nat \<Rightarrow> bytes \<Rightarrow> bytes \<Rightarrow> bytes" where
  "put i d buf = take i buf @ d @ drop (i + length d) buf"

lemma length_put [simp]: "i + length d \<le> length buf \<Longrightarrow> length (put i d buf) = length buf"
  by (simp add: put_def)

lemma put_append:
  "i + length d \<le> length buf \<Longrightarrow> put (i + length d) e (put i d buf) = put i (d @ e) buf"
  by (simp add: put_def ac_simps)

lemma put_0: "put 0 d buf = d @ drop (length d) buf"
  by (simp add: put_def)

lemma take_put_0 [simp]: "n = length d \<Longrightarrow> take n (put 0 d buf) = d"
  by (simp add: put_0)

lemma drop_put_0 [simp]: "n = length d \<Longrightarrow> drop n (put 0 d buf) = drop n buf"
  by (simp add: put_0)

section \<open>The contract of a packet header\<close>

text \<open>
  What every \<open>parse\<close> / \<open>to_bytes\<close> pair of tailtalk-packets promises its callers: a
  well-formed header encodes to a fixed number of bytes, and parsing that encoding, whatever
  payload follows it, gives the header back. Each packet theory interprets the locale on its
  own encoder and decoder; the facts proved here once (the write into a caller's buffer, the
  unambiguous split of a datagram into header and payload) are then available for each.
\<close>

locale header_codec =
  fixes hlen :: nat
    and enc :: "'p \<Rightarrow> bytes"
    and dec :: "bytes \<Rightarrow> 'e + 'p"
    and wf :: "'p \<Rightarrow> bool"
  assumes enc_length: "wf p \<Longrightarrow> length (enc p) = hlen"
    and dec_enc: "wf p \<Longrightarrow> dec (enc p @ payload) = Inr p"
begin

lemma dec_put:
  assumes "wf p" and "hlen \<le> length buf"
  shows "dec (put 0 (enc p) buf) = Inr p \<and> length (put 0 (enc p) buf) = length buf
    \<and> drop hlen (put 0 (enc p) buf) = drop hlen buf"
  using assms by (simp add: put_0 dec_enc enc_length)

lemma enc_split:
  assumes "wf p" and "wf q" and "enc p @ a = enc q @ b"
  shows "p = q \<and> a = b"
proof -
  from assms(1,3) dec_enc [of q b] assms(2) dec_enc [of p a] have "p = q" by simp
  with assms(3) show ?thesis by simp
qed

lemma enc_inj: "inj_on enc {p. wf p}"
  using enc_split [where a = "[]" and b = "[]"] by (auto simp: inj_on_def)

end

section \<open>Lists\<close>

lemma length_2_iff: "length xs = 2 \<longleftrightarrow> (\<exists>a b. xs = [a, b])"
  by (auto simp: numeral_2_eq_2 length_Suc_conv)

lemma nth_append_drop: "i < length xs \<Longrightarrow> (xs @ ys) ! i = xs ! i"
  by (simp add: nth_append)

text \<open>\<open>slice::chunks\<close>, for a positive size.\<close>

function chunks_of :: "nat \<Rightarrow> 'a list \<Rightarrow> 'a list list" where
  "chunks_of n xs = (if xs = [] \<or> n = 0 then [] else take n xs # chunks_of n (drop n xs))"
  by pat_completeness auto
termination by (relation "measure (length \<circ> snd)") auto

declare chunks_of.simps [simp del]

lemma find_none_iff: "find P xs = None \<longleftrightarrow> (\<forall>x\<in>set xs. \<not> P x)"
  by (induction xs) auto

lemma find_append: "find P (xs @ ys) = (case find P xs of None \<Rightarrow> find P ys | Some x \<Rightarrow> Some x)"
  by (induction xs) auto

end
