(* ===== verification/Ordered_Map.thy ===== *)
theory Ordered_Map
  imports TT_Prelude
begin

text \<open>
  \<open>alloc::collections::BTreeMap\<close> as the machines use it: insert, lookup, remove, and iteration
  in key order. The representation is the list of entries in key order. The locale states the
  map laws the clients rest on; the interpretation discharges them for the list.
\<close>

section \<open>The interface\<close>

locale map_impl =
  fixes lookup :: "'m \<Rightarrow> 'k \<Rightarrow> 'v option"
    and insert :: "'k \<Rightarrow> 'v \<Rightarrow> 'm \<Rightarrow> 'm"
    and remove :: "'k \<Rightarrow> 'm \<Rightarrow> 'm"
    and empty_map :: 'm
    and inv :: "'m \<Rightarrow> bool"
  assumes lookup_empty: "lookup empty_map = Map.empty"
    and lookup_insert: "lookup (insert k v m) = (lookup m)(k \<mapsto> v)"
    and lookup_remove: "lookup (remove k m) = (lookup m)(k := None)"
    and inv_empty: "inv empty_map"
    and inv_insert: "inv m \<Longrightarrow> inv (insert k v m)"
    and inv_remove: "inv m \<Longrightarrow> inv (remove k m)"
begin

lemma dom_insert: "dom (lookup (insert k v m)) = Set.insert k (dom (lookup m))"
  by (simp add: lookup_insert)

lemma dom_remove: "dom (lookup (remove k m)) = dom (lookup m) - {k}"
  by (simp add: lookup_remove)

text \<open>Inserting every pair of a list builds the map of the list, later pairs winning.\<close>

lemma lookup_inserts: "lookup (foldl (\<lambda>m (k, v). insert k v m) m kvs) = lookup m ++ map_of (rev kvs)"
  by (induction kvs arbitrary: m) (auto simp: lookup_insert fun_eq_iff map_add_def split: option.splits)

end

section \<open>Entries in key order\<close>

type_synonym ('k, 'v) omap = "('k \<times> 'v) list"

fun om_insert :: "'k::linorder \<Rightarrow> 'v \<Rightarrow> ('k, 'v) omap \<Rightarrow> ('k, 'v) omap" where
  "om_insert k v [] = [(k, v)]"
| "om_insert k v ((k', v') # m) =
     (if k < k' then (k, v) # (k', v') # m
      else if k = k' then (k, v) # m
      else (k', v') # om_insert k v m)"

definition om_remove :: "'k \<Rightarrow> ('k, 'v) omap \<Rightarrow> ('k, 'v) omap" where
  "om_remove k m = filter (\<lambda>e. fst e \<noteq> k) m"

definition om_wf :: "('k::linorder, 'v) omap \<Rightarrow> bool" where
  "om_wf m \<longleftrightarrow> sorted_wrt (<) (map fst m)"

lemma map_of_om_insert: "map_of (om_insert k v m) = (map_of m)(k \<mapsto> v)"
  by (induction k v m rule: om_insert.induct) (auto simp: fun_eq_iff)

lemma map_of_om_remove: "map_of (om_remove k m) = (map_of m)(k := None)"
  by (induction m) (auto simp: om_remove_def fun_eq_iff)

lemma set_om_insert: "fst ` set (om_insert k v m) = Set.insert k (fst ` set m)"
  by (induction k v m rule: om_insert.induct) auto

lemma om_wf_insert: "om_wf m \<Longrightarrow> om_wf (om_insert k v m)"
proof (induction k v m rule: om_insert.induct)
  case (2 k v k' v' m)
  have "fst ` set (om_insert k v m) = Set.insert k (fst ` set m)" by (rule set_om_insert)
  with 2 show ?case by (auto simp: om_wf_def)
qed (simp add: om_wf_def)

lemma sorted_wrt_filter_map: "sorted_wrt (<) (map f xs) \<Longrightarrow> sorted_wrt (<) (map f (filter P xs))"
  by (induction xs) auto

lemma om_wf_remove: "om_wf m \<Longrightarrow> om_wf (om_remove k m)"
  by (simp add: om_wf_def om_remove_def sorted_wrt_filter_map)

interpretation om: map_impl map_of om_insert om_remove "[]" om_wf
  by unfold_locales (simp_all add: map_of_om_insert map_of_om_remove om_wf_insert om_wf_remove, simp add: om_wf_def)

lemma om_wf_distinct: "om_wf m \<Longrightarrow> distinct (map fst m)"
  by (simp add: om_wf_def strict_sorted_iff)

lemma om_size: "om_wf m \<Longrightarrow> length m = card (dom (map_of m))"
  using om_wf_distinct [of m] by (metis distinct_card dom_map_of_conv_image_fst length_map set_map)

lemma om_remove_absent: "map_of m k = None \<Longrightarrow> om_remove k m = m"
  by (induction m) (auto simp: om_remove_def split: if_splits)

lemma om_lookup_iff: "om_wf m \<Longrightarrow> map_of m k = Some v \<longleftrightarrow> (k, v) \<in> set m"
  by (simp add: om_wf_distinct)

text \<open>The entry list is determined by the map it represents.\<close>

lemma om_unique:
  assumes "om_wf a" and "om_wf b" and "map_of a = map_of b"
  shows "a = b"
proof -
  have "set a = set b"
    using assms om_lookup_iff by (metis (no_types, lifting) subsetI subset_antisym surj_pair)
  moreover have "sorted (map fst a)" "sorted (map fst b)" "distinct (map fst a)" "distinct (map fst b)"
    using assms by (simp_all add: om_wf_def strict_sorted_iff)
  moreover have "inj_on fst (set a \<union> set b)"
    using calculation by (simp add: distinct_map)
  ultimately show ?thesis
    by (metis map_inj_on map_sorted_distinct_set_unique set_map sorted_distinct_set_unique)
qed

end
