(* ===== verification/Hfs_Reader.thy ===== *)
theory Hfs_Reader
  imports Ordered_Map
begin

text \<open>
  The reader of classic HFS disk images of src/hfs-reader/src/lib.rs: the volume header, forks read through
  extents, the walk of the catalog tree, the extents overflow tree and the paths. A panic of the code is an
  error value. Paths are strings with the separator of Unix hosts. The order in which a hash map is
  iterated is a parameter, and so is whether the build checks arithmetic for overflow.
\<close>

section \<open>Errors\<close>

datatype HfsError =
    Dc42TooSmall
  | Dc42Truncated
  | MdbMissing
  | IsHfsPlus
  | IsMfs
  | NotHfs u16
  | ZeroBlockSize
  | ExtentOutOfBounds
  | CatalogTooSmall
  | HfsPanic

type_synonym extent = "u16 \<times> u16"

text \<open>\<open>v.get(a..b)\<close>.\<close>

definition get_range :: "nat \<Rightarrow> nat \<Rightarrow> 'a list \<Rightarrow> 'a list option" where
  "get_range a b v = (if a \<le> b \<and> b \<le> length v then Some (take (b - a) (drop a v)) else None)"

definition read_extent :: "bytes \<Rightarrow> nat \<Rightarrow> extent" where
  "read_extent data o1 = (if o1 + 4 \<le> length data then (read_u16 data o1, read_u16 data (o1 + 2)) else (0, 0))"

definition read_extent_record :: "bytes \<Rightarrow> nat \<Rightarrow> extent list" where
  "read_extent_record data offset = map (\<lambda>i. read_extent data (offset + i * 4)) [0, 1, 2]"

text \<open>MacRoman names: printable ASCII passes, any other byte is an underscore.\<close>

definition mac_char :: "u8 \<Rightarrow> char" where
  "mac_char b = (if 0x20 \<le> b \<and> b < 0x7F then char_of (unat b) else CHR ''_'')"

section \<open>Reading forks\<close>

text \<open>A fork is read extent by extent; both loops end at an empty extent and when there is enough.\<close>

fun read_extents :: "bytes \<Rightarrow> nat \<Rightarrow> nat \<Rightarrow> nat \<Rightarrow> bytes \<Rightarrow> extent list \<Rightarrow> HfsError + bytes" where
  "read_extents img block_size base logical out [] = Inr out"
| "read_extents img block_size base logical out ((start, count) # rest) =
     (if count = 0 then Inr out
      else
        let byte_off = base + unat start * block_size
        in case get_range byte_off (byte_off + unat count * block_size) img of
             None \<Rightarrow> Inl ExtentOutOfBounds
           | Some chunk \<Rightarrow>
               (if length (out @ chunk) \<ge> logical then Inr (out @ chunk)
                else read_extents img block_size base logical (out @ chunk) rest))"

definition read_raw :: "bytes \<Rightarrow> u32 \<Rightarrow> u32 \<Rightarrow> extent list list \<Rightarrow> u32 \<Rightarrow> HfsError + bytes" where
  "read_raw img block_size first_alloc_sector extents logical =
     (if logical = 0 then Inr []
      else case read_extents img (unat block_size) (unat first_alloc_sector * 512) (unat logical) [] (concat extents) of
             Inl e \<Rightarrow> Inl e
           | Inr out \<Rightarrow> Inr (take (unat logical) out))"

section \<open>Records of a node\<close>

definition NODE_SIZE :: nat where "NODE_SIZE = 512"

text \<open>
  The bytes of record \<open>i\<close>: \<open>None\<close> is a record skipped because its pointer or its offset is outside the node. The
  subtraction \<open>node_size - 2 * (i + 1)\<close> of a record past the 256th overflows.
\<close>

definition record_bytes :: "bool \<Rightarrow> bytes \<Rightarrow> nat \<Rightarrow> HfsError + bytes option" where
  "record_bytes checks node i =
     (if NODE_SIZE < 2 * (i + 1) then (if checks then Inl HfsPanic else Inr None)
      else
        let rec_off = unat (read_u16 node (NODE_SIZE - 2 * (i + 1)))
        in Inr (if rec_off \<le> length node then Some (drop rec_off node) else None))"

definition node_at :: "bytes \<Rightarrow> u32 \<Rightarrow> bytes option" where
  "node_at data node_idx = get_range (unat node_idx * NODE_SIZE) (unat node_idx * NODE_SIZE + NODE_SIZE) data"

definition node_records :: "bytes \<Rightarrow> nat" where
  "node_records node = unat (read_u16 node 10)"

definition key_data_off :: "nat \<Rightarrow> nat" where
  "key_data_off key_len = 1 + key_len + (if even key_len then 1 else 0)"

section \<open>The extents overflow tree\<close>

type_synonym overflow = "u32 \<times> u8 \<times> u32 \<Rightarrow> extent list option"

definition overflow_record :: "bytes \<Rightarrow> overflow \<Rightarrow> HfsError + overflow" where
  "overflow_record rec entries =
     (if rec = [] then Inl HfsPanic
      else
        let key_len = unat (rec ! 0)
        in if key_len < 7 \<or> length rec < 1 + key_len + 12 then Inr entries
           else
             let data_off = key_data_off key_len
             in case get_range data_off (data_off + 12) rec of
                  None \<Rightarrow> Inr entries
                | Some ext_data \<Rightarrow>
                    Inr (entries((read_u32 rec 2, rec ! 1, ucast (read_u16 rec 6)) \<mapsto> read_extent_record ext_data 0)))"

fun overflow_records :: "bool \<Rightarrow> bytes \<Rightarrow> nat list \<Rightarrow> overflow \<Rightarrow> HfsError + overflow" where
  "overflow_records checks node [] entries = Inr entries"
| "overflow_records checks node (i # is) entries =
     (case record_bytes checks node i of
        Inl e \<Rightarrow> Inl e
      | Inr None \<Rightarrow> overflow_records checks node is entries
      | Inr (Some rec) \<Rightarrow>
          (case overflow_record rec entries of
             Inl e \<Rightarrow> Inl e
           | Inr entries' \<Rightarrow> overflow_records checks node is entries'))"

text \<open>Each round visits a node index not seen before, so the walks end.\<close>

lemma unvisited_less: "x \<notin> set visited \<Longrightarrow> card (- set (x # visited)) < card (- set visited)" for x :: u32
  by (rule psubset_card_mono) auto

function overflow_leaves :: "bool \<Rightarrow> bytes \<Rightarrow> u32 list \<Rightarrow> u32 \<Rightarrow> overflow \<Rightarrow> HfsError + overflow" where
  "overflow_leaves checks data visited node_idx entries =
     (if node_idx = 0 \<or> node_idx \<in> set visited then Inr entries
      else
        case node_at data node_idx of
          None \<Rightarrow> Inr entries
        | Some node \<Rightarrow>
            (case overflow_records checks node [0..<node_records node] entries of
               Inl e \<Rightarrow> Inl e
             | Inr entries' \<Rightarrow> overflow_leaves checks data (node_idx # visited) (read_u32 node 0) entries'))"
  by pat_completeness auto
termination
  by (relation "measure (\<lambda>(_, _, visited, _, _). card (- set visited))") (simp_all add: unvisited_less del: set_simps)

declare overflow_leaves.simps [simp del]

definition overflow_parse :: "bool \<Rightarrow> bytes \<Rightarrow> HfsError + overflow" where
  "overflow_parse checks data =
     (if length data < NODE_SIZE then Inr Map.empty
      else overflow_leaves checks data [] (read_u32 data 24) Map.empty)"

definition extent_blocks :: "extent list \<Rightarrow> nat" where
  "extent_blocks ext = sum_list (map (\<lambda>e. unat (snd e)) ext)"

text \<open>The loop adds a record only while blocks are missing, and stops at a record with none, so it ends.\<close>

function more_extents :: "overflow \<Rightarrow> u32 \<Rightarrow> u8 \<Rightarrow> nat \<Rightarrow> nat \<Rightarrow> extent list list" where
  "more_extents entries cnid fork_type blocks_needed covered =
     (case entries (cnid, fork_type, word_of_nat covered) of
        None \<Rightarrow> []
      | Some ext \<Rightarrow>
          ext # (let added = extent_blocks ext
                 in if added = 0 \<or> blocks_needed \<le> covered + added then []
                    else more_extents entries cnid fork_type blocks_needed (covered + added)))"
  by pat_completeness auto
termination
  by (relation "measure (\<lambda>(_, _, _, blocks_needed, covered). blocks_needed - covered)") auto

declare more_extents.simps [simp del]

definition get_extents :: "overflow \<Rightarrow> u32 \<Rightarrow> u8 \<Rightarrow> extent list \<Rightarrow> u32 \<Rightarrow> u32 \<Rightarrow> extent list list" where
  "get_extents entries cnid fork_type catalog_ext logical_size block_size =
     (if block_size = 0 then [catalog_ext]
      else
        let blocks_needed = (unat logical_size + unat block_size - 1) div unat block_size
        in if blocks_needed \<le> extent_blocks catalog_ext then [catalog_ext]
           else catalog_ext # more_extents entries cnid fork_type blocks_needed (extent_blocks catalog_ext))"

section \<open>The catalog\<close>

record RawFile =
  rf_cnid :: u32
  rf_parent :: u32
  rf_type :: bytes
  rf_creator :: bytes
  rf_data_logical :: u32
  rf_data_ext :: "extent list"
  rf_rsrc_logical :: u32
  rf_rsrc_ext :: "extent list"

text \<open>What the walk collects: the nodes to visit, the last pushed in front, and the names, parents and files.\<close>

record CatWalk =
  cw_stack :: "u32 list"
  cw_names :: "(u32, string) omap"
  cw_parents :: "(u32, u32) omap"
  cw_files :: "RawFile list"

definition note_entry :: "u32 \<Rightarrow> string \<Rightarrow> u32 \<Rightarrow> CatWalk \<Rightarrow> CatWalk" where
  "note_entry cnid name parent w =
     w\<lparr>cw_names := om_insert cnid name (cw_names w), cw_parents := om_insert cnid parent (cw_parents w)\<rparr>"

definition dir_record :: "bytes \<Rightarrow> string \<Rightarrow> u32 \<Rightarrow> CatWalk \<Rightarrow> CatWalk" where
  "dir_record rec_data name parent w =
     (if length rec_data < 10 then w else note_entry (read_u32 rec_data 6) name parent w)"

definition raw_file :: "bytes \<Rightarrow> u32 \<Rightarrow> RawFile" where
  "raw_file rec_data parent = \<lparr>rf_cnid = read_u32 rec_data 20, rf_parent = parent, rf_type = take 4 (drop 4 rec_data),
     rf_creator = take 4 (drop 8 rec_data), rf_data_logical = read_u32 rec_data 26,
     rf_data_ext = read_extent_record rec_data 74, rf_rsrc_logical = read_u32 rec_data 36,
     rf_rsrc_ext = read_extent_record rec_data 86\<rparr>"

definition file_record :: "bytes \<Rightarrow> string \<Rightarrow> u32 \<Rightarrow> CatWalk \<Rightarrow> CatWalk" where
  "file_record rec_data name parent w =
     (if length rec_data < 98 then w
      else let f = raw_file rec_data parent; w1 = note_entry (rf_cnid f) name parent w
           in w1\<lparr>cw_files := cw_files w1 @ [f]\<rparr>)"

definition leaf_record :: "bytes \<Rightarrow> string \<Rightarrow> u32 \<Rightarrow> CatWalk \<Rightarrow> CatWalk" where
  "leaf_record rec_data name parent w =
     (if length rec_data < 2 then w
      else if take 2 rec_data = [1, 0] then dir_record rec_data name parent w
      else if take 2 rec_data = [2, 0] then file_record rec_data name parent w
      else w)"

definition catalog_record :: "u8 \<Rightarrow> bytes \<Rightarrow> CatWalk \<Rightarrow> HfsError + CatWalk" where
  "catalog_record node_kind rec w =
     (if rec = [] then Inl HfsPanic
      else
        let key_len = unat (rec ! 0)
        in if key_len < 6 \<or> length rec < 1 + key_len then Inr w
           else
             let parent = read_u32 rec 2;
                 name_len = unat (rec ! 6);
                 name = map mac_char (case get_range 7 (7 + name_len) rec of None \<Rightarrow> [] | Some bs \<Rightarrow> bs);
                 data_off = key_data_off key_len
             in if node_kind = 0xFF
                then Inr (case get_range data_off (length rec) rec of
                       None \<Rightarrow> w
                     | Some rec_data \<Rightarrow> leaf_record rec_data name parent w)
                else if node_kind = 0
                then Inr (case get_range data_off (data_off + 4) rec of
                       None \<Rightarrow> w
                     | Some ptr \<Rightarrow> w\<lparr>cw_stack := read_u32 ptr 0 # cw_stack w\<rparr>)
                else Inr w)"

fun catalog_records :: "bool \<Rightarrow> bytes \<Rightarrow> nat list \<Rightarrow> CatWalk \<Rightarrow> HfsError + CatWalk" where
  "catalog_records checks node [] w = Inr w"
| "catalog_records checks node (i # is) w =
     (case record_bytes checks node i of
        Inl e \<Rightarrow> Inl e
      | Inr None \<Rightarrow> catalog_records checks node is w
      | Inr (Some rec) \<Rightarrow>
          (case catalog_record (node ! 8) rec w of
             Inl e \<Rightarrow> Inl e
           | Inr w' \<Rightarrow> catalog_records checks node is w'))"

definition follow_flink :: "bytes \<Rightarrow> CatWalk \<Rightarrow> CatWalk" where
  "follow_flink node w =
     (if (node ! 8 = 0 \<or> node ! 8 = 0xFF) \<and> read_u32 node 0 \<noteq> 0
      then w\<lparr>cw_stack := read_u32 node 0 # cw_stack w\<rparr> else w)"

definition catalog_node :: "bool \<Rightarrow> bytes \<Rightarrow> CatWalk \<Rightarrow> HfsError + CatWalk" where
  "catalog_node checks node w =
     (case catalog_records checks node [0..<node_records node] w of
        Inl e \<Rightarrow> Inl e
      | Inr w' \<Rightarrow> Inr (follow_flink node w'))"

function catalog_walk :: "bool \<Rightarrow> bytes \<Rightarrow> u32 list \<Rightarrow> CatWalk \<Rightarrow> HfsError + (u32 list \<times> CatWalk)" where
  "catalog_walk checks data visited w =
     (case cw_stack w of
        [] \<Rightarrow> Inr (visited, w)
      | node_idx # stack \<Rightarrow>
          (let w0 = w\<lparr>cw_stack := stack\<rparr> in
           if node_idx = 0 \<or> node_idx \<in> set visited then catalog_walk checks data visited w0
           else
             case node_at data node_idx of
               None \<Rightarrow> catalog_walk checks data (node_idx # visited) w0
             | Some node \<Rightarrow>
                 (case catalog_node checks node w0 of
                    Inl e \<Rightarrow> Inl e
                  | Inr w' \<Rightarrow> catalog_walk checks data (node_idx # visited) w')))"
  by pat_completeness auto
termination
  by (relation "measures [\<lambda>(_, _, visited, _). card (- set visited), \<lambda>(_, _, _, w). length (cw_stack w)]")
    (simp_all add: unvisited_less del: set_simps)

declare catalog_walk.simps [simp del]

section \<open>Paths\<close>

text \<open>\<open>PathBuf::push\<close>: an absolute path replaces what is there.\<close>

definition path_push :: "string \<Rightarrow> string \<Rightarrow> string" where
  "path_push path part =
     (if part \<noteq> [] \<and> hd part = CHR ''/'' then part
      else if path = [] \<or> last path = CHR ''/'' then path @ part
      else path @ ''/'' @ part)"

definition path_collect :: "string list \<Rightarrow> string" where
  "path_collect parts = foldl path_push [] parts"

text \<open>The names on the way up, the entry's own first; at most 64 of them.\<close>

fun path_parts :: "(u32, string) omap \<Rightarrow> (u32, u32) omap \<Rightarrow> nat \<Rightarrow> u32 \<Rightarrow> string list" where
  "path_parts names parents 0 cur = []"
| "path_parts names parents (Suc n) cur =
     (case map_of parents cur of
        None \<Rightarrow> []
      | Some parent \<Rightarrow>
          (let here = (case map_of names cur of None \<Rightarrow> [] | Some name \<Rightarrow> (if name \<noteq> [] then [name] else []))
           in if parent \<le> 2 then (if cur \<noteq> 2 then here else [])
              else here @ path_parts names parents n parent))"

definition build_path :: "CatWalk \<Rightarrow> u32 \<Rightarrow> string" where
  "build_path w cnid = path_collect (rev (path_parts (cw_names w) (cw_parents w) 64 cnid))"

definition path_components :: "string \<Rightarrow> string list" where
  "path_components path = foldr (\<lambda>c parts. if c = CHR ''/'' then [] # parts else (c # hd parts) # tl parts) path [[]]"

definition sanitise_path :: "string \<Rightarrow> string" where
  "sanitise_path raw = path_collect (filter (\<lambda>p. p \<notin> {[], ''.'', ''..''}) (path_components raw))"

section \<open>Volumes\<close>

record HfsFileEntry =
  he_path :: string
  he_parent :: u32
  he_type :: bytes
  he_creator :: bytes
  he_data_logical :: u32
  he_data_extents :: "extent list list"
  he_rsrc_logical :: u32
  he_rsrc_extents :: "extent list list"

record HfsVolume =
  hv_img :: bytes
  hv_block_size :: u32
  hv_first_alloc :: u32
  hv_name :: string
  hv_files :: "HfsFileEntry list"
  hv_dirs :: "string list"

definition catalog_start :: "u32 \<Rightarrow> CatWalk" where
  "catalog_start root = \<lparr>cw_stack = [root], cw_names = om_insert 2 [] (om_insert 1 [] []), cw_parents = om_insert 2 1 [], cw_files = []\<rparr>"

text \<open>\<open>hash_order\<close> is the order in which the names are iterated.\<close>

definition catalog_dirs :: "(u32 list \<Rightarrow> u32 list) \<Rightarrow> CatWalk \<Rightarrow> string list" where
  "catalog_dirs hash_order w =
     filter (\<lambda>path. path \<noteq> [])
       (map (build_path w)
         (filter (\<lambda>cnid. cnid > 2 \<and> cnid \<in> snd ` set (cw_parents w)) (hash_order (map fst (cw_names w)))))"

definition file_entry :: "CatWalk \<Rightarrow> overflow \<Rightarrow> u32 \<Rightarrow> RawFile \<Rightarrow> HfsFileEntry" where
  "file_entry w entries block_size f = \<lparr>he_path = build_path w (rf_cnid f), he_parent = rf_parent f, he_type = rf_type f,
     he_creator = rf_creator f, he_data_logical = rf_data_logical f,
     he_data_extents = get_extents entries (rf_cnid f) 0x00 (rf_data_ext f) (rf_data_logical f) block_size,
     he_rsrc_logical = rf_rsrc_logical f,
     he_rsrc_extents = get_extents entries (rf_cnid f) 0xFF (rf_rsrc_ext f) (rf_rsrc_logical f) block_size\<rparr>"

definition catalog_files :: "CatWalk \<Rightarrow> overflow \<Rightarrow> u32 \<Rightarrow> HfsFileEntry list" where
  "catalog_files w entries block_size = filter (\<lambda>e. he_path e \<noteq> []) (map (file_entry w entries block_size) (cw_files w))"

definition parse_catalog ::
  "bool \<Rightarrow> (u32 list \<Rightarrow> u32 list) \<Rightarrow> bytes \<Rightarrow> overflow \<Rightarrow> HfsVolume \<Rightarrow> HfsError + HfsVolume" where
  "parse_catalog checks hash_order cat_data entries vol =
     (if length cat_data < 512 then Inl CatalogTooSmall
      else case catalog_walk checks cat_data [] (catalog_start (read_u32 cat_data 16)) of
             Inl e \<Rightarrow> Inl e
           | Inr (_, w) \<Rightarrow>
               Inr (vol\<lparr>hv_dirs := hv_dirs vol @ catalog_dirs hash_order w,
                        hv_files := hv_files vol @ catalog_files w entries (hv_block_size vol)\<rparr>))"

text \<open>A Disk Copy 4.2 container, recognised by its magic, is stripped to the sectors it holds.\<close>

definition strip_container :: "bytes \<Rightarrow> HfsError + bytes" where
  "strip_container img =
     (if get_range 82 84 img = Some [0x01, 0x00]
      then
        case get_range 64 68 img of
          None \<Rightarrow> Inl Dc42TooSmall
        | Some b \<Rightarrow>
            (case get_range 84 (84 + unat (read_u32 b 0)) img of None \<Rightarrow> Inl Dc42Truncated | Some sectors \<Rightarrow> Inr sectors)
      else Inr img)"

definition check_signature :: "u16 \<Rightarrow> HfsError option" where
  "check_signature sig =
     (if sig \<noteq> 0x4244
      then Some (if sig = 0x482B then IsHfsPlus else if sig = 0xD2D7 then IsMfs else NotHfs sig)
      else None)"

definition volume_header :: "bytes \<Rightarrow> bytes \<Rightarrow> HfsVolume" where
  "volume_header img mdb = \<lparr>hv_img = img, hv_block_size = read_u32 mdb 20, hv_first_alloc = ucast (read_u16 mdb 28),
     hv_name = map mac_char (case get_range 37 (37 + unat (mdb ! 36)) mdb of None \<Rightarrow> [] | Some bs \<Rightarrow> bs),
     hv_files = [], hv_dirs = []\<rparr>"

definition volume_raw :: "HfsVolume \<Rightarrow> extent list list \<Rightarrow> u32 \<Rightarrow> HfsError + bytes" where
  "volume_raw vol = read_raw (hv_img vol) (hv_block_size vol) (hv_first_alloc vol)"

definition hfs_parse :: "bool \<Rightarrow> (u32 list \<Rightarrow> u32 list) \<Rightarrow> bytes \<Rightarrow> HfsError + HfsVolume" where
  "hfs_parse checks hash_order disk =
     (case strip_container disk of
        Inl e \<Rightarrow> Inl e
      | Inr img \<Rightarrow>
          (case get_range 1024 (1024 + 162) img of
             None \<Rightarrow> Inl MdbMissing
           | Some mdb \<Rightarrow>
               (case check_signature (read_u16 mdb 0) of
                  Some e \<Rightarrow> Inl e
                | None \<Rightarrow>
                    (let vol = volume_header img mdb in
                     if hv_block_size vol = 0 then Inl ZeroBlockSize
                     else
                       case volume_raw vol [read_extent_record mdb 134] (read_u32 mdb 130) of
                         Inl e \<Rightarrow> Inl e
                       | Inr ext_data \<Rightarrow>
                           (case overflow_parse checks ext_data of
                              Inl e \<Rightarrow> Inl e
                            | Inr entries \<Rightarrow>
                                (case volume_raw vol [read_extent_record mdb 150] (read_u32 mdb 146) of
                                   Inl e \<Rightarrow> Inl e
                                 | Inr cat_data \<Rightarrow> parse_catalog checks hash_order cat_data entries vol))))))"

definition read_data_fork :: "HfsVolume \<Rightarrow> HfsFileEntry \<Rightarrow> HfsError + bytes" where
  "read_data_fork vol entry = volume_raw vol (he_data_extents entry) (he_data_logical entry)"

definition read_rsrc_fork :: "HfsVolume \<Rightarrow> HfsFileEntry \<Rightarrow> HfsError + bytes" where
  "read_rsrc_fork vol entry = volume_raw vol (he_rsrc_extents entry) (he_rsrc_logical entry)"

end
