(* ===== verification/Hfs_Props.thy ===== *)
theory Hfs_Props
  imports Hfs_Reader
begin

text \<open>
  What the reader of HFS images (src/hfs-reader/src/lib.rs) gives on any image, well-formed or not: the bytes of a fork, the nodes and
  files the catalog walk finds, when it can panic, and what a sanitised path is.
\<close>

section \<open>Forks\<close>

definition extent_bytes :: "bytes \<Rightarrow> nat \<Rightarrow> nat \<Rightarrow> extent \<Rightarrow> bytes" where
  "extent_bytes img block_size base e = take (unat (snd e) * block_size) (drop (base + unat (fst e) * block_size) img)"

definition extent_in :: "bytes \<Rightarrow> nat \<Rightarrow> nat \<Rightarrow> extent \<Rightarrow> bool" where
  "extent_in img block_size base e \<longleftrightarrow> base + unat (fst e) * block_size + unat (snd e) * block_size \<le> length img"

definition used_extents :: "extent list list \<Rightarrow> extent list" where
  "used_extents extents = takeWhile (\<lambda>e. snd e \<noteq> 0) (concat extents)"

lemma get_extent:
  "get_range (base + unat (fst e) * bs) (base + unat (fst e) * bs + unat (snd e) * bs) img =
     (if extent_in img bs base e then Some (extent_bytes img bs base e) else None)"
  by (simp add: get_range_def extent_in_def extent_bytes_def)

lemma read_extents_ok:
  assumes "list_all (extent_in img bs base) (takeWhile (\<lambda>e. snd e \<noteq> 0) exts)" and "length out < logical"
  shows "\<exists>bytes. read_extents img bs base logical out exts = Inr bytes
    \<and> take logical bytes = take logical (out @ concat (map (extent_bytes img bs base) (takeWhile (\<lambda>e. snd e \<noteq> 0) exts)))"
  using assms
proof (induction exts arbitrary: out)
  case (Cons e exts)
  obtain start count where e: "e = (start, count)" by (cases e)
  show ?case
  proof (cases "count = 0")
    case False
    let ?out = "out @ extent_bytes img bs base e"
    have i: "extent_in img bs base e" using Cons.prems(1) e False by simp
    with get_extent [of base e bs img] e have g: "get_range (base + unat start * bs) (base + unat start * bs + unat count * bs) img
      = Some (extent_bytes img bs base e)" by simp
    show ?thesis
    proof (cases "logical \<le> length ?out")
      case True
      with g e False show ?thesis by (simp add: Let_def)
    next
      case less: False
      with Cons.IH [of ?out] Cons.prems(1) e False obtain bytes where
        "read_extents img bs base logical ?out exts = Inr bytes"
        "take logical bytes = take logical (?out @ concat (map (extent_bytes img bs base) (takeWhile (\<lambda>e. snd e \<noteq> 0) exts)))" by auto
      with g e False less show ?thesis by (simp add: Let_def)
    qed
  qed (simp add: e)
qed simp

lemma read_extents_error:
  "read_extents img bs base logical out exts = Inl err \<Longrightarrow>
     err = ExtentOutOfBounds \<and> \<not> list_all (extent_in img bs base) (takeWhile (\<lambda>e. snd e \<noteq> 0) exts)"
proof (induction exts arbitrary: out)
  case (Cons e exts)
  obtain start count where e: "e = (start, count)" by (cases e)
  from get_extent [of base e bs img] e have g: "get_range (base + unat start * bs) (base + unat start * bs + unat count * bs) img
      = (if extent_in img bs base e then Some (extent_bytes img bs base e) else None)" by simp
  show ?case
  proof (cases "extent_in img bs base e")
    case True
    with Cons.prems g e have "count \<noteq> 0" "read_extents img bs base logical (out @ extent_bytes img bs base e) exts = Inl err"
      by (auto simp: Let_def split: if_splits)
    with Cons.IH e show ?thesis by fastforce
  next
    case False
    with Cons.prems g e show ?thesis by (auto simp: Let_def split: if_splits)
  qed
qed simp

text \<open>
Claim C28: Reading a fork gives its logical size of the bytes of its extents in order, up to the first empty extent, or
  all of them when they hold less. It fails only when one of these extents lies outside the image.\<close>

theorem hfs_read_fork:
  "(list_all (extent_in img (unat block_size) (unat first_alloc * 512)) (used_extents extents) \<longrightarrow>
      read_raw img block_size first_alloc extents logical =
        Inr (take (unat logical) (concat (map (extent_bytes img (unat block_size) (unat first_alloc * 512)) (used_extents extents)))))
   \<and> (\<forall>err. read_raw img block_size first_alloc extents logical = Inl err \<longrightarrow>
        err = ExtentOutOfBounds \<and> \<not> list_all (extent_in img (unat block_size) (unat first_alloc * 512)) (used_extents extents))"
proof (cases "logical = 0")
  case False
  then have pos: "length [] < unat logical" by (simp add: unat_gt_0)
  show ?thesis
  proof (intro conjI impI allI)
    assume "list_all (extent_in img (unat block_size) (unat first_alloc * 512)) (used_extents extents)"
    from read_extents_ok [OF this [unfolded used_extents_def] pos] False show "read_raw img block_size first_alloc extents logical =
        Inr (take (unat logical) (concat (map (extent_bytes img (unat block_size) (unat first_alloc * 512)) (used_extents extents))))"
      by (auto simp: read_raw_def used_extents_def)
  next
    fix err assume "read_raw img block_size first_alloc extents logical = Inl err"
    with False have "read_extents img (unat block_size) (unat first_alloc * 512) (unat logical) [] (concat extents) = Inl err"
      by (auto simp: read_raw_def split: sum.splits)
    from read_extents_error [OF this] show "err = ExtentOutOfBounds"
      "\<not> list_all (extent_in img (unat block_size) (unat first_alloc * 512)) (used_extents extents)" by (simp_all add: used_extents_def)
  qed
qed (simp add: read_raw_def)

lemma hfs_read_fork_witness:
  "read_raw [1, 2, 3, 4, 5, 6, 7, 8] 2 0 [[(2, 1), (0, 1), (0, 0)]] 3 = Inr [5, 6, 1]"
proof -
  have u: "used_extents [[(2, 1), (0, 1), (0, 0)]] = [(2, 1), (0, 1)]" by (simp add: used_extents_def)
  have e: "extent_bytes [1, 2, 3, 4, 5, 6, 7, 8] (unat (2 :: u32)) (unat (0 :: u32) * 512) (2, 1) = [5, 6]"
    "extent_bytes [1, 2, 3, 4, 5, 6, 7, 8] (unat (2 :: u32)) (unat (0 :: u32) * 512) (0, 1) = [1, 2]"
    by code_simp+
  have "list_all (extent_in [1, 2, 3, 4, 5, 6, 7, 8] (unat (2 :: u32)) (unat (0 :: u32) * 512)) [(2, 1), (0, 1)]" by code_simp
  with hfs_read_fork [of "[1, 2, 3, 4, 5, 6, 7, 8]" 2 0 "[[(2, 1), (0, 1), (0, 0)]]" 3, THEN conjunct1] u
  have "read_raw [1, 2, 3, 4, 5, 6, 7, 8] 2 0 [[(2, 1), (0, 1), (0, 0)]] 3 = Inr (take (unat (3 :: u32))
      (concat (map (extent_bytes [1, 2, 3, 4, 5, 6, 7, 8] (unat (2 :: u32)) (unat (0 :: u32) * 512)) [(2, 1), (0, 1)])))" by (simp only:)
  also have "\<dots> = Inr [5, 6, 1]" by (simp only: e list.map concat.simps) simp
  finally show ?thesis .
qed

text \<open>The records found by \<open>get_extents\<close> cover the fork, unless the chain of overflow records breaks off.\<close>

lemma more_extents_cover:
  "covered < needed \<Longrightarrow>
     (let total = covered + sum_list (map extent_blocks (more_extents entries cnid fork needed covered))
      in needed \<le> total \<or> entries (cnid, fork, word_of_nat total) = None
         \<or> (\<exists>ext. ext \<in> set (more_extents entries cnid fork needed covered) \<and> extent_blocks ext = 0))"
proof (induction entries cnid fork needed covered rule: more_extents.induct)
  case (1 entries cnid fork needed covered)
  show ?case
  proof (cases "entries (cnid, fork, word_of_nat covered)")
    case None
    then show ?thesis by (simp add: more_extents.simps [of entries cnid fork needed covered])
  next
    case (Some ext)
    show ?thesis
    proof (cases "extent_blocks ext = 0 \<or> needed \<le> covered + extent_blocks ext")
      case True
      with Some show ?thesis by (auto simp: more_extents.simps [of entries cnid fork needed covered] Let_def)
    next
      case False
      with 1(1) [OF Some refl] Some show ?thesis
        by (simp add: more_extents.simps [of entries cnid fork needed covered] Let_def add.assoc) blast
    qed
  qed
qed

section \<open>What a node holds\<close>

text \<open>What a record adds to the walk, whatever has been collected before it.\<close>

datatype CatItem = NoItem | ChildItem u32 | DirItem u32 string u32 | FileItem RawFile string

fun apply_item :: "CatItem \<Rightarrow> CatWalk \<Rightarrow> CatWalk" where
  "apply_item NoItem w = w"
| "apply_item (ChildItem child) w = w\<lparr>cw_stack := child # cw_stack w\<rparr>"
| "apply_item (DirItem cnid name parent) w = note_entry cnid name parent w"
| "apply_item (FileItem f name) w = (let w1 = note_entry (rf_cnid f) name (rf_parent f) w in w1\<lparr>cw_files := cw_files w1 @ [f]\<rparr>)"

definition leaf_item :: "bytes \<Rightarrow> string \<Rightarrow> u32 \<Rightarrow> CatItem" where
  "leaf_item rec_data name parent =
     (if take 2 rec_data = [1, 0] \<and> 10 \<le> length rec_data then DirItem (read_u32 rec_data 6) name parent
      else if take 2 rec_data = [2, 0] \<and> 98 \<le> length rec_data then FileItem (raw_file rec_data parent) name
      else NoItem)"

definition record_item :: "u8 \<Rightarrow> bytes \<Rightarrow> CatItem" where
  "record_item node_kind rec =
     (let key_len = unat (rec ! 0); data_off = key_data_off key_len;
          name = map mac_char (case get_range 7 (7 + unat (rec ! 6)) rec of None \<Rightarrow> [] | Some bs \<Rightarrow> bs)
      in if key_len < 6 \<or> length rec < 1 + key_len then NoItem
         else if node_kind = 0xFF
         then (case get_range data_off (length rec) rec of None \<Rightarrow> NoItem | Some d \<Rightarrow> leaf_item d name (read_u32 rec 2))
         else if node_kind = 0
         then (case get_range data_off (data_off + 4) rec of None \<Rightarrow> NoItem | Some ptr \<Rightarrow> ChildItem (read_u32 ptr 0))
         else NoItem)"

lemma leaf_record_item: "leaf_record rec_data name parent w = apply_item (leaf_item rec_data name parent) w"
proof (cases "length rec_data < 2")
  case True
  then have "length (take 2 rec_data) < 2" by simp
  then have "take 2 rec_data \<noteq> [1, 0]" "take 2 rec_data \<noteq> [2, 0]" by auto
  with True show ?thesis by (simp add: leaf_record_def leaf_item_def)
next
  case False
  then show ?thesis by (auto simp: leaf_record_def leaf_item_def dir_record_def file_record_def Let_def raw_file_def)
qed

lemma catalog_record_item: "rec \<noteq> [] \<Longrightarrow> catalog_record node_kind rec w = Inr (apply_item (record_item node_kind rec) w)"
  by (simp add: catalog_record_def record_item_def Let_def leaf_record_item split: option.split)

text \<open>The items of a node, or the panic of its first bad record.\<close>

fun node_items :: "bool \<Rightarrow> bytes \<Rightarrow> nat list \<Rightarrow> HfsError + CatItem list" where
  "node_items checks node [] = Inr []"
| "node_items checks node (i # is) =
     (case record_bytes checks node i of
        Inl e \<Rightarrow> Inl e
      | Inr None \<Rightarrow> node_items checks node is
      | Inr (Some rec) \<Rightarrow>
          (if rec = [] then Inl HfsPanic
           else case node_items checks node is of
                  Inl e \<Rightarrow> Inl e
                | Inr items \<Rightarrow> Inr (record_item (node ! 8) rec # items)))"

lemma catalog_records_items:
  "catalog_records checks node is w =
     (case node_items checks node is of Inl e \<Rightarrow> Inl e | Inr items \<Rightarrow> Inr (foldl (\<lambda>w item. apply_item item w) w items))"
proof (induction "is" arbitrary: w)
  case (Cons i "is")
  have "catalog_record kind [] w = Inl HfsPanic" for kind by (simp add: catalog_record_def)
  with Cons show ?case by (simp add: catalog_record_item split: sum.split option.split)
qed simp

definition item_children :: "CatItem list \<Rightarrow> u32 list" where
  "item_children items = List.map_filter (\<lambda>item. case item of ChildItem c \<Rightarrow> Some c | _ \<Rightarrow> None) items"

definition item_files :: "CatItem list \<Rightarrow> RawFile list" where
  "item_files items = List.map_filter (\<lambda>item. case item of FileItem f _ \<Rightarrow> Some f | _ \<Rightarrow> None) items"

lemma apply_items:
  "cw_stack (foldl (\<lambda>w item. apply_item item w) w items) = rev (item_children items) @ cw_stack w"
  "cw_files (foldl (\<lambda>w item. apply_item item w) w items) = cw_files w @ item_files items"
proof (induction items arbitrary: w)
  case (Cons item items)
  {
    case 1
    with Cons show ?case by (cases item) (simp_all add: item_children_def map_filter_simps note_entry_def Let_def)
  next
    case 2
    with Cons show ?case by (cases item) (simp_all add: item_files_def map_filter_simps note_entry_def Let_def)
  }
qed (simp_all add: item_children_def item_files_def map_filter_simps)

definition flinks :: "bytes \<Rightarrow> u32 list" where
  "flinks node = (if (node ! 8 = 0 \<or> node ! 8 = 0xFF) \<and> read_u32 node 0 \<noteq> 0 then [read_u32 node 0] else [])"

definition items_of :: "bool \<Rightarrow> bytes \<Rightarrow> u32 \<Rightarrow> CatItem list" where
  "items_of checks data n =
     (case node_at data n of
        None \<Rightarrow> []
      | Some node \<Rightarrow> (case node_items checks node [0..<node_records node] of Inl _ \<Rightarrow> [] | Inr items \<Rightarrow> items))"

definition links_of :: "bool \<Rightarrow> bytes \<Rightarrow> u32 \<Rightarrow> u32 list" where
  "links_of checks data n =
     (case node_at data n of None \<Rightarrow> [] | Some node \<Rightarrow> flinks node @ rev (item_children (items_of checks data n)))"

lemma catalog_node_items:
  assumes "node_at data n = Some node" and "catalog_node checks node w = Inr w'"
  shows "cw_stack w' = links_of checks data n @ cw_stack w \<and> cw_files w' = cw_files w @ item_files (items_of checks data n)"
  using assms
  by (auto simp: catalog_node_def catalog_records_items follow_flink_def links_of_def flinks_def items_of_def apply_items
      split: sum.splits)

section \<open>The walk\<close>

text \<open>The nodes below a node: its children, and its right sibling.\<close>

inductive_set catalog_reach :: "bool \<Rightarrow> bytes \<Rightarrow> u32 \<Rightarrow> u32 set" for checks :: bool and data :: bytes and root :: u32 where
  reach_root: "root \<noteq> 0 \<Longrightarrow> root \<in> catalog_reach checks data root"
| reach_link: "n \<in> catalog_reach checks data root \<Longrightarrow> m \<in> set (links_of checks data n) \<Longrightarrow> m \<noteq> 0 \<Longrightarrow> m \<in> catalog_reach checks data root"

definition walk_inv :: "bool \<Rightarrow> bytes \<Rightarrow> u32 \<Rightarrow> u32 list \<Rightarrow> CatWalk \<Rightarrow> bool" where
  "walk_inv checks data root visited w \<longleftrightarrow> distinct visited \<and> 0 \<notin> set visited
     \<and> set visited \<union> (set (cw_stack w) - {0}) \<subseteq> catalog_reach checks data root
     \<and> (root = 0 \<or> root \<in> set visited \<union> set (cw_stack w))
     \<and> (\<forall>n\<in>set visited. set (links_of checks data n) \<subseteq> set visited \<union> set (cw_stack w) \<union> {0})
     \<and> cw_files w = concat (map (\<lambda>n. item_files (items_of checks data n)) (rev visited))"

lemma walk_inv_skip:
  assumes "walk_inv checks data root visited w" and "cw_stack w = n # stack" and "n = 0 \<or> n \<in> set visited"
  shows "walk_inv checks data root visited (w\<lparr>cw_stack := stack\<rparr>)"
  using assms by (auto simp: walk_inv_def)

lemma walk_inv_visit:
  assumes "walk_inv checks data root visited w" and "cw_stack w = n # stack" and "n \<noteq> 0" and "n \<notin> set visited"
    and "cw_stack w' = links_of checks data n @ stack" and "cw_files w' = cw_files w @ item_files (items_of checks data n)"
  shows "walk_inv checks data root (n # visited) w'"
proof -
  have r: "n \<in> catalog_reach checks data root" using assms(1-3) by (auto simp: walk_inv_def)
  then have "set (links_of checks data n) - {0} \<subseteq> catalog_reach checks data root" by (auto intro: reach_link)
  with assms r show ?thesis by (auto simp: walk_inv_def)
qed

lemma catalog_walk_inv:
  assumes "catalog_walk checks data visited w = Inr (vis, w')" and "walk_inv checks data root visited w"
  shows "walk_inv checks data root vis w' \<and> cw_stack w' = []"
  using assms
proof (induction checks data visited w rule: catalog_walk.induct)
  case (1 checks data visited w)
  note step = catalog_walk.simps [of checks data visited w]
  show ?case
  proof (cases "cw_stack w")
    case Nil
    with 1(4,5) show ?thesis by (simp add: step)
  next
    case (Cons n stack)
    let ?w0 = "w\<lparr>cw_stack := stack\<rparr>"
    show ?thesis
    proof (cases "n = 0 \<or> n \<in> set visited")
      case True
      with 1(4) Cons have "catalog_walk checks data visited ?w0 = Inr (vis, w')" by (simp add: step)
      from 1(1) [OF Cons refl True this walk_inv_skip [OF 1(5) Cons True]] show ?thesis .
    next
      case new: False
      then have nz: "n \<noteq> 0" "n \<notin> set visited" by auto
      show ?thesis
      proof (cases "node_at data n")
        case None
        with 1(4) Cons new have c: "catalog_walk checks data (n # visited) ?w0 = Inr (vis, w')" by (simp add: step)
        have "walk_inv checks data root (n # visited) ?w0"
          by (rule walk_inv_visit [OF 1(5) Cons nz]) (simp_all add: links_of_def items_of_def None item_files_def map_filter_simps)
        from 1(2) [OF Cons refl new None c this] show ?thesis .
      next
        case (Some node)
        with 1(4) Cons new obtain w1 where w1: "catalog_node checks node ?w0 = Inr w1"
          and c: "catalog_walk checks data (n # visited) w1 = Inr (vis, w')" by (auto simp: step split: sum.splits)
        have "walk_inv checks data root (n # visited) w1"
          by (rule walk_inv_visit [OF 1(5) Cons nz]) (use catalog_node_items [OF Some w1] in simp_all)
        from 1(3) [OF Cons refl new Some w1 c this] show ?thesis .
      qed
    qed
  qed
qed

lemma walk_inv_start: "walk_inv checks data root [] (catalog_start root)"
  by (auto simp: walk_inv_def catalog_start_def intro: reach_root)

lemma walk_inv_end:
  assumes "walk_inv checks data root vis w" and "cw_stack w = []"
  shows "set vis = catalog_reach checks data root"
proof
  show "catalog_reach checks data root \<subseteq> set vis"
  proof
    fix n assume "n \<in> catalog_reach checks data root"
    then show "n \<in> set vis" by induction (use assms in \<open>auto simp: walk_inv_def\<close>)
  qed
qed (use assms in \<open>auto simp: walk_inv_def\<close>)

text \<open>
Claim C27: The catalog walk visits every node reachable from the root over child pointers and sibling links exactly once, and
  the files it lists are those of the leaf records of these nodes, in the order of the visits. Loops in the links of the image do
  not matter.\<close>

theorem hfs_catalog_complete:
  "catalog_walk checks data [] (catalog_start root) = Inr (vis, w) \<Longrightarrow>
     distinct vis \<and> set vis = catalog_reach checks data root
     \<and> cw_files w = concat (map (\<lambda>n. item_files (items_of checks data n)) (rev vis))"
proof -
  assume "catalog_walk checks data [] (catalog_start root) = Inr (vis, w)"
  from catalog_walk_inv [OF this walk_inv_start] have i: "walk_inv checks data root vis w" and s: "cw_stack w = []" by auto
  from walk_inv_end [OF i s] i show ?thesis by (simp add: walk_inv_def)
qed

text \<open>A catalog of one leaf whose sibling link is a loop, with one file, \<open>A\<close>, in the root directory.\<close>

definition one_file_node :: bytes where
  "one_file_node = [0, 0, 0, 1, 0, 0, 0, 0, 0xFF, 0, 0, 1, 0, 0] @ [7, 0, 0, 0, 0, 2, 1, 0x41, 2, 0] @ replicate 21 0 @ [17]
     @ replicate 464 0 @ [0, 14]"

lemma one_file_node:
  "node_at (replicate 512 0 @ one_file_node) 1 = Some one_file_node" "[0..<node_records one_file_node] = [0]"
  "record_bytes checks one_file_node 0 = Inr (Some (drop 14 one_file_node))" "one_file_node ! 8 = 0xFF" "read_u32 one_file_node 0 = 1"
  by (simp_all add: one_file_node_def node_at_def get_range_def NODE_SIZE_def node_records_def read_u16_def read_u32_def be16_def be32_def
      record_bytes_def nth_append Let_def)

lemma one_file_record:
  "\<exists>f. catalog_record 0xFF (drop 14 one_file_node) w = Inr (let w1 = note_entry 17 ''A'' 2 w in w1\<lparr>cw_files := cw_files w1 @ [f]\<rparr>)
     \<and> rf_cnid f = 17"
  by (simp add: one_file_node_def catalog_record_def get_range_def key_data_off_def leaf_record_def file_record_def raw_file_def
      read_u32_def be32_def nth_append mac_char_def Let_def char_of_def bit_0) (rule exI, rule conjI, rule refl, simp)

lemma hfs_catalog_complete_witness:
  "\<exists>vis w. catalog_walk True (replicate 512 0 @ one_file_node) [] (catalog_start 1) = Inr (vis, w)
     \<and> {1} = catalog_reach True (replicate 512 0 @ one_file_node) 1 \<and> map rf_cnid (cw_files w) = [17]"
proof -
  let ?data = "replicate 512 0 @ one_file_node"
  let ?w0 = "(catalog_start 1)\<lparr>cw_stack := []\<rparr>"
  from one_file_record [of ?w0] obtain f where f: "catalog_record 0xFF (drop 14 one_file_node) ?w0
      = Inr ((note_entry 17 ''A'' 2 ?w0)\<lparr>cw_files := [f]\<rparr>)" and cnid: "rf_cnid f = 17"
    by (auto simp: Let_def note_entry_def catalog_start_def)
  let ?w1 = "(note_entry 17 ''A'' 2 ?w0)\<lparr>cw_files := [f], cw_stack := [1]\<rparr>"
  have "catalog_node True one_file_node ?w0 = Inr ?w1"
    by (simp add: catalog_node_def one_file_node f follow_flink_def) (simp add: note_entry_def catalog_start_def)
  then have c: "catalog_walk True ?data [] (catalog_start 1) = Inr ([1], ?w1\<lparr>cw_stack := []\<rparr>)"
    by (subst catalog_walk.simps) (simp add: catalog_start_def one_file_node(1), subst catalog_walk.simps, subst catalog_walk.simps, simp)
  from hfs_catalog_complete [OF c] have "set [1] = catalog_reach True ?data 1" by blast
  with c cnid show ?thesis by (intro exI [of _ "[1]"] exI [of _ "?w1\<lparr>cw_stack := []\<rparr>"]) simp
qed

section \<open>Panics\<close>

text \<open>A node whose records cannot make the reader panic: no offset is the node's end, and the table of offsets is within the node.\<close>

definition sound_node :: "bool \<Rightarrow> bytes \<Rightarrow> bool" where
  "sound_node checks node \<longleftrightarrow> (checks \<longrightarrow> node_records node \<le> 256)
     \<and> (\<forall>i < min 256 (node_records node). unat (read_u16 node (NODE_SIZE - 2 * (i + 1))) \<noteq> NODE_SIZE)"

definition sound_nodes :: "bool \<Rightarrow> bytes \<Rightarrow> bool" where
  "sound_nodes checks data \<longleftrightarrow> (\<forall>n node. n \<noteq> 0 \<and> node_at data n = Some node \<longrightarrow> sound_node checks node)"

lemma node_at_length: "node_at data n = Some node \<Longrightarrow> length node = NODE_SIZE"
  by (auto simp: node_at_def get_range_def split: if_splits)

lemma sound_record:
  assumes "sound_node checks node" and "length node = NODE_SIZE" and "i < node_records node"
  shows "\<exists>r. record_bytes checks node i = Inr r \<and> r \<noteq> Some []"
  using assms by (auto simp: record_bytes_def sound_node_def NODE_SIZE_def Let_def)

lemma overflow_record_total: "rec \<noteq> [] \<Longrightarrow> \<exists>e. overflow_record rec entries = Inr e"
  by (auto simp: overflow_record_def Let_def split: option.split)

lemma sound_overflow_records:
  assumes "sound_node checks node" and "length node = NODE_SIZE" and "\<forall>i\<in>set is. i < node_records node"
  shows "\<exists>e. overflow_records checks node is entries = Inr e"
  using assms(3)
proof (induction "is" arbitrary: entries)
  case (Cons i "is")
  from sound_record [OF assms(1,2), of i] Cons.prems obtain r where r: "record_bytes checks node i = Inr r" "r \<noteq> Some []" by auto
  show ?case
  proof (cases r)
    case (Some rec)
    with r have "rec \<noteq> []" by simp
    from overflow_record_total [OF this] obtain e where "overflow_record rec entries = Inr e" ..
    with r Some Cons show ?thesis by simp
  qed (use r Cons in simp)
qed simp

lemma sound_node_items:
  assumes "sound_node checks node" and "length node = NODE_SIZE" and "\<forall>i\<in>set is. i < node_records node"
  shows "\<exists>items. node_items checks node is = Inr items"
  using assms(3)
proof (induction "is")
  case (Cons i "is")
  from sound_record [OF assms(1,2), of i] Cons.prems obtain r where r: "record_bytes checks node i = Inr r" "r \<noteq> Some []" by auto
  from Cons obtain items where "node_items checks node is = Inr items" by auto
  with r show ?case by (auto split: option.split)
qed simp

lemma sound_catalog_walk: "sound_nodes checks data \<Longrightarrow> \<exists>r. catalog_walk checks data visited w = Inr r"
proof (induction checks data visited w rule: catalog_walk.induct)
  case (1 checks data visited w)
  note step = catalog_walk.simps [of checks data visited w]
  show ?case
  proof (cases "cw_stack w")
    case Nil
    then show ?thesis by (simp add: step)
  next
    case (Cons n stack)
    let ?w0 = "w\<lparr>cw_stack := stack\<rparr>"
    show ?thesis
    proof (cases "n = 0 \<or> n \<in> set visited")
      case True
      from 1(1) [OF Cons refl True 1(4)] Cons True show ?thesis by (simp add: step)
    next
      case new: False
      show ?thesis
      proof (cases "node_at data n")
        case None
        from 1(2) [OF Cons refl new None 1(4)] Cons new None show ?thesis by (simp add: step)
      next
        case (Some node)
        from 1(4) Some new have "sound_node checks node" by (auto simp: sound_nodes_def)
        from sound_node_items [OF this node_at_length [OF Some], of "[0..<node_records node]"]
        obtain w1 where w1: "catalog_node checks node ?w0 = Inr w1" by (auto simp: catalog_node_def catalog_records_items)
        from 1(3) [OF Cons refl new Some w1 1(4)] Cons new Some w1 show ?thesis by (simp add: step)
      qed
    qed
  qed
qed

lemma sound_overflow_leaves: "sound_nodes checks data \<Longrightarrow> \<exists>e. overflow_leaves checks data visited n entries = Inr e"
proof (induction checks data visited n entries rule: overflow_leaves.induct)
  case (1 checks data visited n entries)
  note step = overflow_leaves.simps [of checks data visited n entries]
  show ?case
  proof (cases "n = 0 \<or> n \<in> set visited")
    case new: False
    show ?thesis
    proof (cases "node_at data n")
      case (Some node)
      from 1(2) Some new have "sound_node checks node" by (auto simp: sound_nodes_def)
      from sound_overflow_records [OF this node_at_length [OF Some], of "[0..<node_records node]"]
      obtain e where e: "overflow_records checks node [0..<node_records node] entries = Inr e" by auto
      from 1(1) [OF new Some e 1(2)] new Some e show ?thesis by (simp add: step)
    qed (use new in \<open>simp add: step\<close>)
  qed (simp add: step)
qed

text \<open>
A tree whose record offsets all lie inside its nodes is read without a panic: the extents overflow tree gives its
  entries, and the catalog gives its files and directories unless it is too short.\<close>

theorem hfs_no_panic:
  "sound_nodes checks data \<Longrightarrow>
     (\<exists>entries. overflow_parse checks data = Inr entries)
     \<and> parse_catalog checks hash_order data entries vol \<noteq> Inl HfsPanic
     \<and> (parse_catalog checks hash_order data entries vol = Inl CatalogTooSmall \<or> (\<exists>v. parse_catalog checks hash_order data entries vol = Inr v))"
proof -
  assume s: "sound_nodes checks data"
  from sound_overflow_leaves [OF s] have "\<exists>entries. overflow_parse checks data = Inr entries" by (simp add: overflow_parse_def)
  moreover from sound_catalog_walk [OF s, of "[]" "catalog_start (read_u32 data 16)"] obtain vis w where
    "catalog_walk checks data [] (catalog_start (read_u32 data 16)) = Inr (vis, w)" by auto
  ultimately show ?thesis by (simp add: parse_catalog_def)
qed

lemma hfs_no_panic_witness:
  "parse_catalog True id (replicate 512 0) Map.empty (volume_header [] (replicate 162 0)) \<noteq> Inl HfsPanic"
proof -
  have "node_at (replicate 512 0) n = None" if "n \<noteq> 0" for n
    using that unat_gt_0 [of n] by (simp add: node_at_def get_range_def NODE_SIZE_def)
  then have "sound_nodes True (replicate 512 0)" by (fastforce simp: sound_nodes_def)
  from hfs_no_panic [OF this, of id Map.empty "volume_header [] (replicate 162 0)"] show ?thesis by blast
qed

text \<open>A record offset that is the node's size panics the reader: the record is empty, and its first byte is read.\<close>

definition bad_node :: bytes where
  "bad_node = replicate 8 0 @ [0xFF, 0, 0, 1] @ replicate 498 0 @ [2, 0]"

definition bad_tree :: bytes where
  "bad_tree = replicate 16 0 @ [0, 0, 0, 1] @ replicate 4 0 @ [0, 0, 0, 1] @ replicate 484 0 @ bad_node"

lemma bad_tree_node:
  "length bad_tree = 1024" "read_u32 bad_tree 16 = 1" "read_u32 bad_tree 24 = 1" "node_at bad_tree 1 = Some bad_node"
  by (simp_all add: bad_tree_def bad_node_def read_u32_def nth_append node_at_def get_range_def NODE_SIZE_def be32_def)

lemma bad_node_record: "record_bytes checks bad_node 0 = Inr (Some [])" "[0..<node_records bad_node] = [0]"
  by (simp_all add: record_bytes_def bad_node_def NODE_SIZE_def read_u16_def nth_append be16_def Let_def node_records_def)

lemma hfs_offset_panics:
  "overflow_parse checks bad_tree = Inl HfsPanic \<and> parse_catalog checks hash_order bad_tree entries vol = Inl HfsPanic"
proof -
  have "overflow_leaves checks bad_tree [] 1 Map.empty = Inl HfsPanic"
    by (simp add: overflow_leaves.simps [of checks bad_tree "[]" 1] bad_tree_node(4) bad_node_record overflow_record_def)
  moreover have "catalog_walk checks bad_tree [] (catalog_start 1) = Inl HfsPanic"
    by (subst catalog_walk.simps) (simp add: catalog_start_def bad_tree_node(4) catalog_node_def bad_node_record catalog_record_def)
  ultimately show ?thesis by (simp add: overflow_parse_def parse_catalog_def bad_tree_node(1-3) NODE_SIZE_def)
qed

section \<open>Paths\<close>

definition plain_part :: "string \<Rightarrow> bool" where
  "plain_part p \<longleftrightarrow> p \<notin> {[], ''.'', ''..''} \<and> CHR ''/'' \<notin> set p"

lemma path_components_cons: "path_components (c # path) =
   (if c = CHR ''/'' then [] # path_components path else (c # hd (path_components path)) # tl (path_components path))"
  by (simp add: path_components_def)

lemma path_components_ne: "path_components path \<noteq> []"
  by (cases path) (simp_all add: path_components_cons, simp add: path_components_def)

lemma path_components_slash: "p \<in> set (path_components path) \<Longrightarrow> CHR ''/'' \<notin> set p"
proof (induction path arbitrary: p)
  case (Cons c path)
  show ?case
  proof (cases "p \<in> set (path_components path)")
    case True
    then show ?thesis by (rule Cons.IH)
  next
    case False
    have "hd (path_components path) \<in> set (path_components path)" by (simp add: path_components_ne)
    from Cons.IH [OF this] Cons.prems False show ?thesis
      by (auto simp: path_components_cons dest: list.set_sel(2) [OF path_components_ne] split: if_splits)
  qed
qed (simp add: path_components_def)

lemma path_components_part:
  "CHR ''/'' \<notin> set p \<Longrightarrow> path_components (p @ q) = (p @ hd (path_components q)) # tl (path_components q)"
  by (induction p) (auto simp: path_components_cons path_components_ne)

definition path_join :: "string list \<Rightarrow> string" where
  "path_join parts = (case parts of [] \<Rightarrow> [] | p # ps \<Rightarrow> p @ concat (map (\<lambda>p. CHR ''/'' # p) ps))"

lemma path_join_components: "list_all plain_part ps \<Longrightarrow> ps \<noteq> [] \<Longrightarrow> path_components (path_join ps) = ps"
proof -
  have rest: "list_all plain_part ps \<Longrightarrow> path_components (concat (map (\<lambda>p. CHR ''/'' # p) ps)) = [] # ps" for ps
  proof (induction ps)
    case (Cons p ps)
    then have "CHR ''/'' \<notin> set p" by (simp add: plain_part_def)
    with Cons show ?case by (simp add: path_components_cons path_components_part)
  qed (simp add: path_components_def)
  assume "list_all plain_part ps" "ps \<noteq> []"
  then show ?thesis by (cases ps) (simp_all add: path_join_def path_components_part rest plain_part_def)
qed

lemma path_push_join:
  assumes "list_all plain_part (ps @ [p])" and "ps \<noteq> []"
  shows "path_push (path_join ps) p = path_join (ps @ [p])"
proof -
  have p: "p \<noteq> []" "hd p \<noteq> CHR ''/''" using assms(1) by (auto simp: plain_part_def dest: hd_in_set)
  obtain qs q where qs: "ps = qs @ [q]" using assms(2) by (cases ps rule: rev_cases) auto
  then have "q \<noteq> []" "CHR ''/'' \<notin> set q" using assms(1) by (auto simp: plain_part_def)
  then have "path_join ps \<noteq> []" "last (path_join ps) \<noteq> CHR ''/''"
    using qs last_in_set [of q] by (cases qs; auto simp: path_join_def)+
  with p assms(2) show ?thesis by (auto simp: path_push_def path_join_def split: list.split)
qed

lemma path_collect_join: "list_all plain_part ps \<Longrightarrow> path_collect ps = path_join ps"
proof (induction ps rule: rev_induct)
  case (snoc p ps)
  then have "path_collect (ps @ [p]) = path_push (path_join ps) p" by (simp add: path_collect_def)
  moreover have "path_push [] p = p" using snoc.prems by (auto simp: path_push_def plain_part_def)
  ultimately show ?case using path_push_join [OF snoc.prems] by (cases "ps = []") (simp_all add: path_join_def)
qed (simp add: path_collect_def path_join_def)

text \<open>
Claim C29: A sanitised path is relative and has exactly the components of the path that are neither empty nor a dot nor two dots,
  in order; sanitising it again changes nothing.\<close>

theorem hfs_sanitised:
  "(let parts = filter (\<lambda>p. p \<notin> {[], ''.'', ''..''}) (path_components raw); safe = sanitise_path raw
    in path_components safe = (if parts = [] then [[]] else parts) \<and> take 1 safe \<noteq> ''/'' \<and> sanitise_path safe = safe)"
proof -
  define parts where "parts = filter (\<lambda>p. p \<notin> {[], ''.'', ''..''}) (path_components raw)"
  have plain: "list_all plain_part parts" by (auto simp: parts_def list_all_iff plain_part_def dest: path_components_slash)
  have safe: "sanitise_path raw = path_join parts" by (simp only: sanitise_path_def path_collect_join [OF plain] parts_def [symmetric])
  have comps: "path_components (path_join parts) = (if parts = [] then [[]] else parts)"
    using path_join_components [OF plain] by (cases "parts = []") (simp_all, simp add: path_join_def path_components_def)
  have "take 1 (path_join parts) \<noteq> ''/''"
    using plain by (cases parts) (auto simp: path_join_def plain_part_def take_Cons' neq_Nil_conv)
  moreover have "filter (\<lambda>p. p \<notin> {[], ''.'', ''..''}) parts = parts" by (simp add: parts_def)
  then have "sanitise_path (path_join parts) = path_join parts"
    using path_collect_join [OF plain] comps
    by (cases "parts = []") (simp_all add: sanitise_path_def)
  ultimately show ?thesis using comps by (simp only: safe Let_def parts_def [symmetric]) simp
qed

text \<open>The path of an entry is relative to the volume only when no name starts with the host's separator, which HFS allows in names.\<close>

lemma hfs_absolute_path:
  "build_path \<lparr>cw_stack = [], cw_names = [(2, []), (16, ''Docs''), (17, ''/etc/motd'')],
     cw_parents = [(2, 1), (16, 2), (17, 16)], cw_files = []\<rparr> 17 = ''/etc/motd''"
  by code_simp

text \<open>A directory is listed only when something is in it.\<close>

lemma hfs_empty_directory:
  "catalog_dirs id \<lparr>cw_stack = [], cw_names = [(2, []), (16, ''Docs'')], cw_parents = [(2, 1), (16, 2)], cw_files = []\<rparr> = []"
  by code_simp

end
