(* ===== verification/Afp_Types.thy ===== *)
theory Afp_Types
  imports TT_Prelude
begin

text \<open>
  The vocabulary of the Apple Filing Protocol: the types and errors of src/tailtalk-packets/src/afp/types.rs, the bitmaps of
  bitmap.rs, Pascal strings and name mangling of util.rs, and the ProDOS information of prodos.rs. A Rust \<open>String\<close> is the list of
  its UTF-8 bytes. The MacRoman codec is the encoding_rs crate's: a parameter, a pair of functions between such byte lists.
\<close>

section \<open>Text\<close>

definition ascii :: "string \<Rightarrow> bytes" where
  "ascii s = map (\<lambda>c. word_of_nat (of_char c)) s"

record MacRoman =
  mac_encode :: "bytes \<Rightarrow> bytes"
  mac_decode :: "bytes \<Rightarrow> bytes"

text \<open>What is used of the codec: MacRoman is a superset of ASCII.\<close>

definition mac_ascii :: "MacRoman \<Rightarrow> bool" where
  "mac_ascii mr \<longleftrightarrow> (\<forall>s. list_all (\<lambda>b. b < 0x80) s \<longrightarrow> mac_encode mr s = s \<and> mac_decode mr s = s)"

text \<open>\<open>str::to_lowercase\<close>, compared with ASCII strings only: the bytes of other characters are never equal to those.\<close>

definition lower_byte :: "u8 \<Rightarrow> u8" where
  "lower_byte b = (if 0x41 \<le> b \<and> b \<le> 0x5A then b + 0x20 else b)"

section \<open>Errors and enumerations\<close>

datatype AfpError =
    InvalidSize
  | EoFErr
  | BadVersNum
  | BadUam
  | AccessDenied
  | DirNotEmpty
  | BitmapErr
  | FileBusy
  | ItemNotFound
  | LockErr
  | ObjectExists
  | ObjectNotFound
  | ParamError
  | RangeNotLocked
  | RangeOverlap
  | ObjectTypeErr
  | MiscErr

definition afp_error_code :: "AfpError \<Rightarrow> int" where
  "afp_error_code e =
     (case e of
        InvalidSize \<Rightarrow> -1 | EoFErr \<Rightarrow> -39 | BadVersNum \<Rightarrow> -1072 | BadUam \<Rightarrow> -1073 | AccessDenied \<Rightarrow> -5000
      | DirNotEmpty \<Rightarrow> -5007 | BitmapErr \<Rightarrow> -5006 | FileBusy \<Rightarrow> -5010 | ItemNotFound \<Rightarrow> -5012 | LockErr \<Rightarrow> -5013
      | ObjectExists \<Rightarrow> -5017 | ObjectNotFound \<Rightarrow> -5018 | ParamError \<Rightarrow> -5019 | RangeNotLocked \<Rightarrow> -5020
      | RangeOverlap \<Rightarrow> -5021 | ObjectTypeErr \<Rightarrow> -5025 | MiscErr \<Rightarrow> -10000)"

datatype AfpVersion = Version1 | Version1_1 | Version2 | Version2_1

definition version_str :: "AfpVersion \<Rightarrow> bytes" where
  "version_str v =
     ascii (case v of Version1 \<Rightarrow> ''AFPVersion 1.0'' | Version1_1 \<Rightarrow> ''AFPVersion 1.1'' | Version2 \<Rightarrow> ''AFPVersion 2.0''
                    | Version2_1 \<Rightarrow> ''AFPVersion 2.1'')"

definition version_try_from :: "bytes \<Rightarrow> AfpError + AfpVersion" where
  "version_try_from value =
     (if value = ascii ''AFPVersion 1.0'' then Inr Version1
      else if value = ascii ''AFPVersion 1.1'' then Inr Version1_1
      else if value = ascii ''AFPVersion 2.0'' then Inr Version2
      else if value = ascii ''AFPVersion 2.1'' then Inr Version2_1
      else Inl BadVersNum)"

datatype AfpUam = NoUserAuthent | CleartxtPasswrd | RandnumExchange | TwoWayRandnumExchange

definition uam_str :: "AfpUam \<Rightarrow> bytes" where
  "uam_str u =
     ascii (case u of NoUserAuthent \<Rightarrow> ''No User Authent'' | CleartxtPasswrd \<Rightarrow> ''Cleartxt Passwrd''
                    | RandnumExchange \<Rightarrow> ''Randnum Exchange'' | TwoWayRandnumExchange \<Rightarrow> ''2-Way Randnum Exchange'')"

definition uam_try_from :: "bytes \<Rightarrow> AfpError + AfpUam" where
  "uam_try_from value =
     (let value_lower = map lower_byte value
      in if value_lower = ascii ''no user authent'' then Inr NoUserAuthent
         else if value_lower = ascii ''cleartxt passwrd'' then Inr CleartxtPasswrd
         else if value_lower = ascii ''randnum exchange'' then Inr RandnumExchange
         else if value_lower = ascii ''2-way randnum exchange'' then Inr TwoWayRandnumExchange
         else Inl BadUam)"

datatype ForkType = ForkData | ForkResource

definition fork_type_from :: "u8 \<Rightarrow> ForkType" where
  "fork_type_from v = (if v = 0x80 then ForkResource else ForkData)"

datatype PathType = ShortName | LongName

definition path_type_from :: "u8 \<Rightarrow> PathType" where
  "path_type_from v = (if v = 2 then LongName else ShortName)"

datatype CreateFlag = SoftCreate | HardCreate

definition create_flag_from :: "u8 \<Rightarrow> CreateFlag" where
  "create_flag_from v = (if v = 0x80 then HardCreate else SoftCreate)"

section \<open>Finder information\<close>

record FinderInfo =
  fi_type :: bytes
  fi_creator :: bytes
  fi_flags :: u16
  fi_reserved :: bytes

definition IS_INVISIBLE :: u16 where "IS_INVISIBLE = 0x4000"

definition finder_label :: "u16 \<Rightarrow> u8" where
  "finder_label flags = ucast (drop_bit 1 (flags AND 0x000E))"

definition finder_with_label :: "u16 \<Rightarrow> u8 \<Rightarrow> u16" where
  "finder_with_label flags value = (flags AND NOT 0x000E) OR push_bit 1 (ucast value AND 0x7)"

definition finder_default :: FinderInfo where
  "finder_default = \<lparr>fi_type = replicate 4 0, fi_creator = replicate 4 0, fi_flags = 0, fi_reserved = replicate 22 0\<rparr>"

definition finder_from_bytes :: "bytes \<Rightarrow> FinderInfo" where
  "finder_from_bytes raw = \<lparr>fi_type = take 4 raw, fi_creator = take 4 (drop 4 raw), fi_flags = read_u16 raw 8,
     fi_reserved = take 22 (drop 10 raw)\<rparr>"

definition finder_bytes :: "FinderInfo \<Rightarrow> bytes" where
  "finder_bytes info = fi_type info @ fi_creator info @ u16_bytes (fi_flags info) @ fi_reserved info"

definition finder_wf :: "FinderInfo \<Rightarrow> bool" where
  "finder_wf info \<longleftrightarrow> length (fi_type info) = 4 \<and> length (fi_creator info) = 4 \<and> length (fi_reserved info) = 22"

section \<open>Bitmaps\<close>

text \<open>\<open>from_bits_truncate\<close> keeps the bits that have names.\<close>

definition volume_bitmap :: "u16 \<Rightarrow> u16" where "volume_bitmap v = v AND 0x01FF"
definition directory_bitmap :: "u16 \<Rightarrow> u16" where "directory_bitmap v = v AND 0x3FFF"
definition file_bitmap :: "u16 \<Rightarrow> u16" where "file_bitmap v = v AND 0x37FF"
definition file_attributes :: "u16 \<Rightarrow> u16" where "file_attributes v = v AND 0x85FF"
definition access_rights :: "u8 \<Rightarrow> u8" where "access_rights v = v AND 0x87"
definition lock_flags :: "u8 \<Rightarrow> u8" where "lock_flags v = v AND 0x81"

text \<open>The bit numbers the two parameter bitmaps share, and their own.\<close>

definition ATTRIBUTES :: nat where "ATTRIBUTES = 0"
definition PARENT_DIR_ID :: nat where "PARENT_DIR_ID = 1"
definition CREATE_DATE :: nat where "CREATE_DATE = 2"
definition MODIFICATION_DATE :: nat where "MODIFICATION_DATE = 3"
definition BACKUP_DATE :: nat where "BACKUP_DATE = 4"
definition FINDER_INFO :: nat where "FINDER_INFO = 5"
definition LONG_NAME :: nat where "LONG_NAME = 6"
definition SHORT_NAME :: nat where "SHORT_NAME = 7"
definition DIR_ID :: nat where "DIR_ID = 8"
definition FILE_NUMBER :: nat where "FILE_NUMBER = 8"
definition OFFSPRING_COUNT :: nat where "OFFSPRING_COUNT = 9"
definition DATA_FORK_LENGTH :: nat where "DATA_FORK_LENGTH = 9"
definition OWNER_ID :: nat where "OWNER_ID = 10"
definition RESOURCE_FORK_LENGTH :: nat where "RESOURCE_FORK_LENGTH = 10"
definition GROUP_ID :: nat where "GROUP_ID = 11"
definition ACCESS_RIGHTS :: nat where "ACCESS_RIGHTS = 12"
definition PRODOS_INFO :: nat where "PRODOS_INFO = 13"

lemmas bitmap_bits = ATTRIBUTES_def PARENT_DIR_ID_def CREATE_DATE_def MODIFICATION_DATE_def BACKUP_DATE_def FINDER_INFO_def
  LONG_NAME_def SHORT_NAME_def DIR_ID_def FILE_NUMBER_def OFFSPRING_COUNT_def DATA_FORK_LENGTH_def OWNER_ID_def
  RESOURCE_FORK_LENGTH_def GROUP_ID_def ACCESS_RIGHTS_def PRODOS_INFO_def

definition PRODOS_INFO_LEN :: nat where "PRODOS_INFO_LEN = 6"

definition field_len :: "u16 \<Rightarrow> nat \<Rightarrow> nat \<Rightarrow> nat" where
  "field_len bitmap i n = (if bit bitmap i then n else 0)"

definition dir_long_name_offset :: "u16 \<Rightarrow> nat" where
  "dir_long_name_offset b =
     field_len b ATTRIBUTES 2 + field_len b PARENT_DIR_ID 4 + field_len b CREATE_DATE 4 + field_len b MODIFICATION_DATE 4
   + field_len b BACKUP_DATE 4 + field_len b FINDER_INFO 32 + field_len b LONG_NAME 2 + field_len b SHORT_NAME 2
   + field_len b DIR_ID 4 + field_len b OFFSPRING_COUNT 2 + field_len b OWNER_ID 4 + field_len b GROUP_ID 4
   + field_len b ACCESS_RIGHTS 4 + field_len b PRODOS_INFO PRODOS_INFO_LEN"

definition file_long_name_offset :: "u16 \<Rightarrow> nat" where
  "file_long_name_offset b =
     field_len b ATTRIBUTES 2 + field_len b PARENT_DIR_ID 4 + field_len b CREATE_DATE 4 + field_len b MODIFICATION_DATE 4
   + field_len b BACKUP_DATE 4 + field_len b FINDER_INFO 32 + field_len b LONG_NAME 2 + field_len b SHORT_NAME 2
   + field_len b FILE_NUMBER 4 + field_len b DATA_FORK_LENGTH 4 + field_len b RESOURCE_FORK_LENGTH 4
   + field_len b PRODOS_INFO PRODOS_INFO_LEN"

text \<open>Unix mode bits and access rights.\<close>

definition afp_rights_to_mode :: "u8 \<Rightarrow> u32" where
  "afp_rights_to_mode rights =
     (if bit rights 1 then 4 else 0) OR (if bit rights 2 then 2 else 0) OR (if bit rights 0 then 1 else 0)"

definition mode_to_afp_rights :: "u32 \<Rightarrow> u8" where
  "mode_to_afp_rights mode =
     (if mode AND 4 \<noteq> 0 then 0x02 else 0) OR (if mode AND 2 \<noteq> 0 then 0x04 else 0) OR (if mode AND 1 \<noteq> 0 then 0x01 else 0)"

end
