(* ===== verification/Afp_Names.thy ===== *)
theory Afp_Names
  imports Afp_Types
begin

text \<open>
  Names on the wire (src/tailtalk-packets/src/afp/util.rs): MacRoman Pascal strings that remember how many bytes they took, and the
  mangling of names too long for AFP 2. Then the ProDOS information that stands in for Finder information (prodos.rs).
\<close>

section \<open>Mangled names\<close>

definition AFP2_MAX_NAME_LEN :: nat where "AFP2_MAX_NAME_LEN = 31"
definition TILDE_AND_CRC :: nat where "TILDE_AND_CRC = 5"

definition crc16_bit :: "u16 \<Rightarrow> u16" where
  "crc16_bit crc = (if crc AND 0x8000 \<noteq> 0 then push_bit 1 crc XOR 0x1021 else push_bit 1 crc)"

definition crc16_byte :: "u16 \<Rightarrow> u8 \<Rightarrow> u16" where
  "crc16_byte crc b = (crc16_bit ^^ 8) (crc XOR push_bit 8 (ucast b))"

definition crc16_ccitt :: "bytes \<Rightarrow> u16" where
  "crc16_ccitt data = foldl crc16_byte 0xFFFF data"

definition hex_digit :: "u16 \<Rightarrow> u8" where
  "hex_digit d = (if d < 10 then 0x30 + ucast d else 0x41 + ucast (d - 10))"

text \<open>\<open>format!("{:04X}")\<close>.\<close>

definition hex_upper :: "u16 \<Rightarrow> bytes" where
  "hex_upper w = map (\<lambda>n. hex_digit (drop_bit n w AND 0xF)) [12, 8, 4, 0]"

text \<open>\<open>Iterator::rposition\<close>.\<close>

definition rposition :: "('a \<Rightarrow> bool) \<Rightarrow> 'a list \<Rightarrow> nat option" where
  "rposition P xs =
     (let k = length (takeWhile (\<lambda>x. \<not> P x) (rev xs)) in if k = length xs then None else Some (length xs - 1 - k))"

definition DOT :: u8 where "DOT = 0x2E"
definition TILDE :: u8 where "TILDE = 0x7E"

definition mangle_encoded :: "bytes \<Rightarrow> bytes" where
  "mangle_encoded encoded =
     (if length encoded \<le> AFP2_MAX_NAME_LEN then encoded
      else
        let crc_hex = hex_upper (crc16_ccitt encoded);
            fallback = take (AFP2_MAX_NAME_LEN - TILDE_AND_CRC) encoded @ [TILDE] @ crc_hex
        in case rposition (\<lambda>b. b = DOT) encoded of
             None \<Rightarrow> fallback
           | Some dot_pos \<Rightarrow>
               (let ext = drop dot_pos encoded; stem_capacity = AFP2_MAX_NAME_LEN - (TILDE_AND_CRC + length ext)
                in if 1 \<le> stem_capacity then take stem_capacity encoded @ [TILDE] @ crc_hex @ ext else fallback))"

definition mangle_name :: "MacRoman \<Rightarrow> bytes \<Rightarrow> bytes" where
  "mangle_name mr name = mangle_encoded (mac_encode mr name)"

definition dir_response_len :: "MacRoman \<Rightarrow> u16 \<Rightarrow> bytes \<Rightarrow> nat" where
  "dir_response_len mr b name =
     dir_long_name_offset b + (if bit b LONG_NAME then length (mangle_name mr name) + 1 else 0)"

definition file_response_len :: "MacRoman \<Rightarrow> u16 \<Rightarrow> bytes \<Rightarrow> nat" where
  "file_response_len mr b name =
     file_long_name_offset b + (if bit b LONG_NAME then length (mangle_name mr name) + 1 else 0)"

lemma length_hex_upper [simp]: "length (hex_upper w) = 4"
  by (simp add: hex_upper_def)

lemma rposition_last: "P y \<Longrightarrow> \<forall>x\<in>set ys. \<not> P x \<Longrightarrow> rposition P (xs @ y # ys) = Some (length xs)"
  by (simp add: rposition_def takeWhile_append)

lemma rposition_less: "rposition P xs = Some i \<Longrightarrow> i < length xs"
  using length_takeWhile_le [of "\<lambda>x. \<not> P x" "rev xs"] by (auto simp: rposition_def Let_def split: if_splits)

lemma mangle_long:
  assumes "31 < length e"
  shows "\<exists>n ext. mangle_encoded e = take n e @ TILDE # hex_upper (crc16_ccitt e) @ ext \<and> 1 \<le> n \<and> n + length ext = 26
    \<and> drop (length e - length ext) e = ext"
proof -
  define fallback where "fallback = take 26 e @ TILDE # hex_upper (crc16_ccitt e)"
  have f: "\<exists>n ext. fallback = take n e @ TILDE # hex_upper (crc16_ccitt e) @ ext \<and> 1 \<le> n \<and> n + length ext = 26
    \<and> drop (length e - length ext) e = ext"
    by (intro exI [of _ 26] exI [of _ "[]"]) (simp add: fallback_def)
  show ?thesis
  proof (cases "\<exists>i. rposition (\<lambda>b. b = DOT) e = Some i \<and> 1 \<le> 26 - length (drop i e)")
    case True
    then obtain i where i: "rposition (\<lambda>b. b = DOT) e = Some i" "1 \<le> 26 - length (drop i e)" by blast
    have "mangle_encoded e = take (26 - length (drop i e)) e @ TILDE # hex_upper (crc16_ccitt e) @ drop i e"
      using assms i by (simp add: mangle_encoded_def AFP2_MAX_NAME_LEN_def TILDE_AND_CRC_def)
    with i(2) rposition_less [OF i(1)] show ?thesis
      by (intro exI [of _ "26 - length (drop i e)"] exI [of _ "drop i e"]) simp
  next
    case False
    then have "mangle_encoded e = fallback"
      using assms by (auto simp: mangle_encoded_def AFP2_MAX_NAME_LEN_def TILDE_AND_CRC_def fallback_def Let_def split: option.split)
    with f show ?thesis by simp
  qed
qed

lemma mangle_extension:
  assumes "31 < length (stem @ DOT # suffix)" and "DOT \<notin> set suffix" and "length suffix < 25"
  shows "mangle_encoded (stem @ DOT # suffix) =
    take (25 - length suffix) (stem @ DOT # suffix) @ TILDE # hex_upper (crc16_ccitt (stem @ DOT # suffix)) @ DOT # suffix"
proof -
  have "rposition (\<lambda>b. b = DOT) (stem @ DOT # suffix) = Some (length stem)"
    by (rule rposition_last) (use assms(2) in auto)
  moreover have "1 \<le> 25 - length suffix" using assms(3) by simp
  ultimately show ?thesis using assms by (simp add: mangle_encoded_def AFP2_MAX_NAME_LEN_def TILDE_AND_CRC_def Let_def)
qed

text \<open>
A name sent to a client has at most 31 bytes. A name that fits is sent as it is. A longer one has exactly 31 bytes: a stem of
  the name, a tilde, four hex digits of its checksum, and an end of the name, which is the extension behind the last dot
  whenever that leaves room for a stem.\<close>

theorem mangled_name_shape:
  "(let encoded = mac_encode mr name; sent = mangle_name mr name; crc = TILDE # hex_upper (crc16_ccitt encoded)
    in if length encoded \<le> 31 then sent = encoded
       else length sent = 31
         \<and> (\<exists>n ext. 1 \<le> n \<and> sent = take n encoded @ crc @ ext \<and> drop (length encoded - length ext) encoded = ext)
         \<and> (\<forall>stem suffix. encoded = stem @ DOT # suffix \<and> DOT \<notin> set suffix \<and> length suffix < 25 \<longrightarrow>
              sent = take (25 - length suffix) encoded @ crc @ DOT # suffix))"
proof (cases "length (mac_encode mr name) \<le> 31")
  case False
  define e where "e = mac_encode mr name"
  from False have long: "31 < length e" by (simp add: e_def)
  from mangle_long [OF long] obtain n ext where m: "mangle_encoded e = take n e @ TILDE # hex_upper (crc16_ccitt e) @ ext"
    "1 \<le> n" "n + length ext = 26" "drop (length e - length ext) e = ext" by blast
  then have "length (mangle_encoded e) = 31" using long by simp
  moreover have "\<exists>n ext. 1 \<le> n \<and> mangle_encoded e = take n e @ (TILDE # hex_upper (crc16_ccitt e)) @ ext
    \<and> drop (length e - length ext) e = ext" using m by auto
  moreover have "\<forall>stem suffix. e = stem @ DOT # suffix \<and> DOT \<notin> set suffix \<and> length suffix < 25 \<longrightarrow>
    mangle_encoded e = take (25 - length suffix) e @ (TILDE # hex_upper (crc16_ccitt e)) @ DOT # suffix"
    using mangle_extension long by auto
  ultimately show ?thesis using long by (simp add: mangle_name_def Let_def flip: e_def)
qed (simp add: mangle_name_def mangle_encoded_def AFP2_MAX_NAME_LEN_def)

lemma mangled_name_shape_witness:
  "mangle_name \<lparr>mac_encode = id, mac_decode = id\<rparr> (replicate 30 0x61 @ DOT # [0x62, 0x63]) =
     replicate 23 0x61 @ (TILDE # hex_upper (crc16_ccitt (replicate 30 0x61 @ DOT # [0x62, 0x63]))) @ [DOT, 0x62, 0x63]"
proof -
  have "DOT \<notin> set [0x62, 0x63]" by (simp add: DOT_def)
  with mangled_name_shape [of "\<lparr>mac_encode = id, mac_decode = id\<rparr>" "replicate 30 0x61 @ DOT # [0x62, 0x63]"]
  have "mangle_name \<lparr>mac_encode = id, mac_decode = id\<rparr> (replicate 30 0x61 @ DOT # [0x62, 0x63]) =
     take (25 - length [0x62, 0x63 :: u8]) (replicate 30 0x61 @ DOT # [0x62, 0x63])
       @ (TILDE # hex_upper (crc16_ccitt (replicate 30 0x61 @ DOT # [0x62, 0x63]))) @ DOT # [0x62, 0x63]"
    by (simp only: Let_def MacRoman.simps id_apply) (auto simp del: take_append)
  then show ?thesis by (simp add: numeral_eq_Suc [of "num.Bit1 num.One"])
qed

section \<open>Pascal strings\<close>

text \<open>A string read from a packet remembers its length there; one built in memory has none.\<close>

record MacString =
  ms_value :: bytes
  ms_wire_len :: "nat option"

definition ms_new :: "bytes \<Rightarrow> MacString" where
  "ms_new s = \<lparr>ms_value = s, ms_wire_len = None\<rparr>"

definition ms_encoded_len :: "MacRoman \<Rightarrow> MacString \<Rightarrow> nat" where
  "ms_encoded_len mr s = 1 + min (length (mac_encode mr (ms_value s))) 255"

definition ms_byte_len :: "MacRoman \<Rightarrow> MacString \<Rightarrow> nat" where
  "ms_byte_len mr s = (case ms_wire_len s of Some len \<Rightarrow> len | None \<Rightarrow> ms_encoded_len mr s)"

definition ms_bytes :: "MacRoman \<Rightarrow> MacString \<Rightarrow> bytes \<Rightarrow> AfpError + (bytes \<times> nat)" where
  "ms_bytes mr s buf =
     (let encoded = mac_encode mr (ms_value s); len = min (length encoded) 255
      in if length buf < 1 + len then Inl InvalidSize
         else Inr (put 0 (word_of_nat len # take len encoded) buf, 1 + len))"

definition ms_try_from :: "MacRoman \<Rightarrow> bytes \<Rightarrow> AfpError + MacString" where
  "ms_try_from mr buf =
     (if buf = [] then Inl InvalidSize
      else
        let len = unat (buf ! 0)
        in if len = 0 then Inr \<lparr>ms_value = [], ms_wire_len = Some 1\<rparr>
           else if length buf < 1 + len then Inl InvalidSize
           else Inr \<lparr>ms_value = mac_decode mr (take len (drop 1 buf)), ms_wire_len = Some (1 + len)\<rparr>)"

text \<open>Equality is that of the text.\<close>

definition ms_eq :: "MacString \<Rightarrow> MacString \<Rightarrow> bool" where
  "ms_eq a b \<longleftrightarrow> ms_value a = ms_value b"

definition pascal :: "bytes \<Rightarrow> bytes" where
  "pascal s = word_of_nat (length s) # s"

definition is_ascii :: "bytes \<Rightarrow> bool" where
  "is_ascii s \<longleftrightarrow> list_all (\<lambda>b. b < 0x80) s"

lemma mac_ascii_text: "mac_ascii mr \<Longrightarrow> is_ascii s \<Longrightarrow> mac_encode mr s = s \<and> mac_decode mr s = s"
  by (simp add: mac_ascii_def is_ascii_def)

lemma length_pascal [simp]: "length (pascal s) = Suc (length s)"
  by (simp add: pascal_def)

lemma ms_bytes_pascal:
  assumes "length (mac_encode mr (ms_value s)) \<le> 255" and "ms_encoded_len mr s \<le> length buf"
  shows "ms_bytes mr s buf = Inr (pascal (mac_encode mr (ms_value s)) @ drop (ms_encoded_len mr s) buf, ms_encoded_len mr s)"
  using assms by (simp add: ms_bytes_def ms_encoded_len_def put_0 pascal_def Let_def)

lemma ms_try_from_wire:
  assumes "ms_try_from mr buf = Inr s"
  shows "ms_byte_len mr s = 1 + unat (buf ! 0) \<and> ms_byte_len mr s \<le> length buf"
  using assms by (cases buf) (auto simp: ms_try_from_def ms_byte_len_def Let_def split: if_splits)

lemma ms_try_from_pascal:
  assumes "length s \<le> 255" and "mac_decode mr s = t" and "s = [] \<Longrightarrow> t = []"
  shows "ms_try_from mr (pascal s @ rest) = Inr \<lparr>ms_value = t, ms_wire_len = Some (1 + length s)\<rparr>"
proof -
  have "unat (word_of_nat (length s) :: u8) = length s" using assms(1) by (simp add: unsigned_of_nat take_bit_nat_eq_self)
  with assms show ?thesis by (cases s) (auto simp: ms_try_from_def pascal_def Let_def)
qed

section \<open>ProDOS information\<close>

record ProdosInfo =
  pd_file_type :: u8
  pd_aux_type :: u16

definition PDOS_CREATOR :: bytes where "PDOS_CREATOR = ascii ''pdos''"

definition prodos_default :: ProdosInfo where "prodos_default = \<lparr>pd_file_type = 0, pd_aux_type = 0\<rparr>"

definition prodos_directory :: ProdosInfo where "prodos_directory = \<lparr>pd_file_type = 0x0F, pd_aux_type = 0x0200\<rparr>"

definition prodos_bytes :: "ProdosInfo \<Rightarrow> bytes" where
  "prodos_bytes p = [pd_file_type p, 0, lo8 (pd_aux_type p), hi8 (pd_aux_type p), 0, 0]"

definition prodos_from_bytes :: "bytes \<Rightarrow> ProdosInfo" where
  "prodos_from_bytes raw = \<lparr>pd_file_type = raw ! 0, pd_aux_type = be16 (raw ! 3) (raw ! 2)\<rparr>"

text \<open>\<open>char::to_digit(16)\<close>.\<close>

definition hex_value :: "u8 \<Rightarrow> u8 option" where
  "hex_value c =
     (if 0x30 \<le> c \<and> c \<le> 0x39 then Some (c - 0x30)
      else if 0x41 \<le> c \<and> c \<le> 0x46 then Some (c - 0x41 + 10)
      else if 0x61 \<le> c \<and> c \<le> 0x66 then Some (c - 0x61 + 10) else None)"

definition hex_byte :: "u8 \<Rightarrow> u8 \<Rightarrow> u8 option" where
  "hex_byte high low =
     (case hex_value high of
        None \<Rightarrow> None
      | Some h \<Rightarrow> (case hex_value low of None \<Rightarrow> None | Some l \<Rightarrow> Some (push_bit 4 h OR l)))"

definition prodos_from_finder :: "FinderInfo \<Rightarrow> ProdosInfo" where
  "prodos_from_finder info =
     (if fi_type info = ascii ''TEXT'' then \<lparr>pd_file_type = 0x04, pd_aux_type = 0\<rparr>
      else if fi_creator info \<noteq> PDOS_CREATOR then prodos_default
      else if fi_type info = ascii ''PSYS'' then \<lparr>pd_file_type = 0xFF, pd_aux_type = 0\<rparr>
      else if fi_type info = ascii ''PS16'' then \<lparr>pd_file_type = 0xB3, pd_aux_type = 0\<rparr>
      else if fi_type info = ascii ''BINA'' then \<lparr>pd_file_type = 0, pd_aux_type = 0\<rparr>
      else
        case fi_type info of
          [a, b, c, d] \<Rightarrow>
            (if a = 0x70 then \<lparr>pd_file_type = b, pd_aux_type = be16 c d\<rparr>
             else if c = 0x20 \<and> d = 0x20
             then (case hex_byte a b of Some t \<Rightarrow> \<lparr>pd_file_type = t, pd_aux_type = 0\<rparr> | None \<Rightarrow> prodos_default)
             else prodos_default)
        | _ \<Rightarrow> prodos_default)"

definition prodos_to_finder :: "ProdosInfo \<Rightarrow> FinderInfo \<Rightarrow> FinderInfo" where
  "prodos_to_finder p current =
     (let file_type =
        (if pd_file_type p = 0x04 \<and> pd_aux_type p = 0 then ascii ''TEXT''
         else if pd_file_type p = 0xFF then ascii ''PSYS''
         else if pd_file_type p = 0xB3 then ascii ''PS16''
         else if pd_file_type p = 0 then ascii ''BINA''
         else [0x70, pd_file_type p, hi8 (pd_aux_type p), lo8 (pd_aux_type p)])
      in current\<lparr>fi_type := file_type, fi_creator := PDOS_CREATOR\<rparr>)"

lemma ascii_types:
  "ascii ''TEXT'' = [0x54, 0x45, 0x58, 0x54]" "ascii ''PSYS'' = [0x50, 0x53, 0x59, 0x53]" "ascii ''PS16'' = [0x50, 0x53, 0x31, 0x36]"
  "ascii ''BINA'' = [0x42, 0x49, 0x4E, 0x41]"
  by (simp_all add: ascii_def)

text \<open>
The ProDOS type and aux type set on a file are the ones read back, through the Finder type they are kept in and over the
  wire, except that system, 16-bit system and binary files lose their aux type. The other Finder information of the file stays.\<close>

theorem prodos_roundtrip:
  "prodos_from_bytes (prodos_bytes p) = p \<and> length (prodos_bytes p) = PRODOS_INFO_LEN
   \<and> prodos_from_finder (prodos_to_finder p current) =
       (if pd_file_type p \<in> {0xFF, 0xB3, 0} then p\<lparr>pd_aux_type := 0\<rparr> else p)
   \<and> fi_flags (prodos_to_finder p current) = fi_flags current \<and> fi_reserved (prodos_to_finder p current) = fi_reserved current"
  by (cases p) (auto simp: prodos_from_bytes_def prodos_bytes_def PRODOS_INFO_LEN_def prodos_from_finder_def prodos_to_finder_def
      ascii_types Let_def)

end
