(* ===== verification/Afp_Desktop.thy ===== *)
theory Afp_Desktop
  imports Afp_Names Ordered_Map "HOL-Library.List_Lexorder" "HOL-Library.Sublist"
begin

text \<open>
  The desktop database of a volume (src/tailtalk/src/afp/desktop.rs): icons, comments, registered applications and mangled
  names, each a tree of the sled database. The tree is a parameter, a record of its operations; the laws its documentation
  promises of a tree that works are the locale \<open>sled_tree\<close>, and a list in key order is an instance.
\<close>

section \<open>UTF-8\<close>

text \<open>What a leading byte asks of the bytes behind it, and \<open>String::from_utf8\<close>, \<open>from_utf8_lossy\<close>.\<close>

definition in_range :: "u8 \<Rightarrow> u8 \<Rightarrow> u8 \<Rightarrow> bool" where
  "in_range lo hi b \<longleftrightarrow> lo \<le> b \<and> b \<le> hi"

definition utf8_tail :: "u8 \<Rightarrow> (u8 \<Rightarrow> bool) list option" where
  "utf8_tail b =
     (let c = in_range 0x80 0xBF in
      if b < 0x80 then Some []
      else if in_range 0xC2 0xDF b then Some [c]
      else if b = 0xE0 then Some [in_range 0xA0 0xBF, c]
      else if b = 0xED then Some [in_range 0x80 0x9F, c]
      else if in_range 0xE1 0xEF b then Some [c, c]
      else if b = 0xF0 then Some [in_range 0x90 0xBF, c, c]
      else if in_range 0xF1 0xF3 b then Some [c, c, c]
      else if b = 0xF4 then Some [in_range 0x80 0x8F, c, c]
      else None)"

fun tail_len :: "(u8 \<Rightarrow> bool) list \<Rightarrow> bytes \<Rightarrow> nat" where
  "tail_len (p # ps) (b # bs) = (if p b then Suc (tail_len ps bs) else 0)"
| "tail_len _ _ = 0"

text \<open>Whether a character starts here, and the bytes it takes; of a broken one, the bytes one replacement stands for.\<close>

definition utf8_char :: "u8 \<Rightarrow> bytes \<Rightarrow> bool \<times> nat" where
  "utf8_char b bs = (case utf8_tail b of None \<Rightarrow> (False, 0) | Some ps \<Rightarrow> let n = tail_len ps bs in (n = length ps, n))"

lemma length_dropped [termination_simp]: "length (drop n bs) < Suc (length bs)"
  by simp

fun utf8_valid :: "bytes \<Rightarrow> bool" where
  "utf8_valid [] = True"
| "utf8_valid (b # bs) = (fst (utf8_char b bs) \<and> utf8_valid (drop (snd (utf8_char b bs)) bs))"

fun utf8_lossy :: "bytes \<Rightarrow> bytes" where
  "utf8_lossy [] = []"
| "utf8_lossy (b # bs) =
     (let (valid, n) = utf8_char b bs
      in (if valid then b # take n bs else [0xEF, 0xBF, 0xBD]) @ utf8_lossy (drop (snd (utf8_char b bs)) bs))"

lemma utf8_lossy_valid: "utf8_valid s \<Longrightarrow> utf8_lossy s = s"
  by (induction s rule: utf8_valid.induct) (simp_all add: case_prod_beta)

definition string_from_utf8 :: "bytes \<Rightarrow> bytes option" where
  "string_from_utf8 v = (if utf8_valid v then Some v else None)"

section \<open>The database\<close>

record 't SledTree =
  sled_get :: "'t \<Rightarrow> bytes \<Rightarrow> unit + bytes option"
  sled_insert :: "'t \<Rightarrow> bytes \<Rightarrow> bytes \<Rightarrow> (unit + bytes option) \<times> 't"
  sled_remove :: "'t \<Rightarrow> bytes \<Rightarrow> (unit + bytes option) \<times> 't"
  sled_iter :: "'t \<Rightarrow> (unit + bytes \<times> bytes) list"
  sled_scan_prefix :: "'t \<Rightarrow> bytes \<Rightarrow> (unit + bytes \<times> bytes) list"

locale sled_tree =
  fixes ops :: "'t SledTree" and healthy :: "'t \<Rightarrow> bool" and entries :: "'t \<Rightarrow> (bytes, bytes) omap"
  assumes entries_sorted: "healthy t \<Longrightarrow> om_wf (entries t)"
    and get_law: "healthy t \<Longrightarrow> sled_get ops t k = Inr (map_of (entries t) k)"
    and insert_law: "healthy t \<Longrightarrow> \<exists>t'. sled_insert ops t k v = (Inr (map_of (entries t) k), t')
                       \<and> healthy t' \<and> entries t' = om_insert k v (entries t)"
    and remove_law: "healthy t \<Longrightarrow> \<exists>t'. sled_remove ops t k = (Inr (map_of (entries t) k), t')
                       \<and> healthy t' \<and> entries t' = om_remove k (entries t)"
    and iter_law: "healthy t \<Longrightarrow> sled_iter ops t = map Inr (entries t)"
    and scan_law: "healthy t \<Longrightarrow> sled_scan_prefix ops t p = map Inr (filter (\<lambda>e. prefix p (fst e)) (entries t))"

definition om_tree :: "(bytes, bytes) omap SledTree" where
  "om_tree = \<lparr>sled_get = (\<lambda>t k. Inr (map_of t k)), sled_insert = (\<lambda>t k v. (Inr (map_of t k), om_insert k v t)),
     sled_remove = (\<lambda>t k. (Inr (map_of t k), om_remove k t)), sled_iter = map Inr,
     sled_scan_prefix = (\<lambda>t p. map Inr (filter (\<lambda>e. prefix p (fst e)) t))\<rparr>"

interpretation om_sled: sled_tree om_tree om_wf id
  by unfold_locales (simp_all add: om_tree_def om_wf_insert om_wf_remove)

record 't DesktopDatabase =
  dt_ref_num :: u16
  dt_icons :: 't
  dt_comments :: 't
  dt_appls :: 't
  dt_mangle_names :: 't

section \<open>Mangled names and icons\<close>

definition register_mangle :: "'t SledTree \<Rightarrow> bytes \<Rightarrow> bytes \<Rightarrow> 't DesktopDatabase \<Rightarrow> 't DesktopDatabase" where
  "register_mangle ops mangled posix_name db = db\<lparr>dt_mangle_names := snd (sled_insert ops (dt_mangle_names db) mangled posix_name)\<rparr>"

definition lookup_mangle :: "'t SledTree \<Rightarrow> 't DesktopDatabase \<Rightarrow> bytes \<Rightarrow> bytes option" where
  "lookup_mangle ops db mangled =
     (case sled_get ops (dt_mangle_names db) mangled of Inr (Some v) \<Rightarrow> string_from_utf8 v | _ \<Rightarrow> None)"

record IconKey =
  ik_creator :: bytes
  ik_file_type :: bytes
  ik_icon_type :: u8

definition icon_key_bytes :: "IconKey \<Rightarrow> bytes" where
  "icon_key_bytes k = ik_creator k @ ik_file_type k @ [ik_icon_type k]"

definition denied :: "unit + 'a \<Rightarrow> AfpError + unit" where
  "denied r = (case r of Inl _ \<Rightarrow> Inl AccessDenied | Inr _ \<Rightarrow> Inr ())"

definition add_icon :: "'t SledTree \<Rightarrow> bytes \<Rightarrow> bytes \<Rightarrow> u8 \<Rightarrow> bytes \<Rightarrow> 't DesktopDatabase \<Rightarrow> (AfpError + unit) \<times> 't DesktopDatabase" where
  "add_icon ops creator file_type icon_type icon_data db =
     (let key = \<lparr>ik_creator = creator, ik_file_type = file_type, ik_icon_type = icon_type\<rparr>;
          (r, t) = sled_insert ops (dt_icons db) (icon_key_bytes key) icon_data
      in (denied r, db\<lparr>dt_icons := t\<rparr>))"

definition found :: "unit + bytes option \<Rightarrow> AfpError + bytes" where
  "found r = (case r of Inl _ \<Rightarrow> Inl AccessDenied | Inr None \<Rightarrow> Inl ItemNotFound | Inr (Some v) \<Rightarrow> Inr v)"

definition get_icon :: "'t SledTree \<Rightarrow> 't DesktopDatabase \<Rightarrow> bytes \<Rightarrow> bytes \<Rightarrow> u8 \<Rightarrow> u16 \<Rightarrow> AfpError + bytes" where
  "get_icon ops db creator file_type icon_type icon_size =
     found (sled_get ops (dt_icons db)
       (icon_key_bytes \<lparr>ik_creator = creator, ik_file_type = file_type, ik_icon_type = icon_type\<rparr>))"

fun icon_info_scan :: "bytes \<Rightarrow> nat \<Rightarrow> nat \<Rightarrow> (unit + bytes \<times> bytes) list \<Rightarrow> AfpError + u32 \<times> u32 \<times> u16" where
  "icon_info_scan creator target seen [] = Inl ItemNotFound"
| "icon_info_scan creator target seen (Inl e # results) = icon_info_scan creator target seen results"
| "icon_info_scan creator target seen (Inr (key, value) # results) =
     (if length key = 9 \<and> take 4 key = creator
      then if seen = target then Inr (0, read_u32 key 4, word_of_nat (length value))
           else icon_info_scan creator target (Suc seen) results
      else icon_info_scan creator target seen results)"

definition get_icon_info :: "'t SledTree \<Rightarrow> 't DesktopDatabase \<Rightarrow> bytes \<Rightarrow> u16 \<Rightarrow> AfpError + u32 \<times> u32 \<times> u16" where
  "get_icon_info ops db creator index = icon_info_scan creator (unat index - 1) 0 (sled_iter ops (dt_icons db))"

section \<open>Comments\<close>

text \<open>A comment is filed under its path as text (\<open>to_string_lossy\<close>).\<close>

definition set_comment :: "'t SledTree \<Rightarrow> bytes \<Rightarrow> bytes \<Rightarrow> 't DesktopDatabase \<Rightarrow> (AfpError + unit) \<times> 't DesktopDatabase" where
  "set_comment ops rel_path comment db =
     (let (r, t) = sled_insert ops (dt_comments db) (utf8_lossy rel_path) comment in (denied r, db\<lparr>dt_comments := t\<rparr>))"

definition get_comment :: "'t SledTree \<Rightarrow> 't DesktopDatabase \<Rightarrow> bytes \<Rightarrow> AfpError + bytes" where
  "get_comment ops db rel_path = found (sled_get ops (dt_comments db) (utf8_lossy rel_path))"

definition remove_comment :: "'t SledTree \<Rightarrow> bytes \<Rightarrow> 't DesktopDatabase \<Rightarrow> (AfpError + unit) \<times> 't DesktopDatabase" where
  "remove_comment ops rel_path db =
     (let (r, t) = sled_remove ops (dt_comments db) (utf8_lossy rel_path) in (denied r, db\<lparr>dt_comments := t\<rparr>))"

definition move_comment :: "'t SledTree \<Rightarrow> bytes \<Rightarrow> bytes \<Rightarrow> 't DesktopDatabase \<Rightarrow> (AfpError + unit) \<times> 't DesktopDatabase" where
  "move_comment ops old_path new_path db =
     (case sled_remove ops (dt_comments db) (utf8_lossy old_path) of
        (Inl _, t) \<Rightarrow> (Inl AccessDenied, db\<lparr>dt_comments := t\<rparr>)
      | (Inr None, t) \<Rightarrow> (Inr (), db\<lparr>dt_comments := t\<rparr>)
      | (Inr (Some data), t) \<Rightarrow>
          (let (r, t') = sled_insert ops t (utf8_lossy new_path) data in (denied r, db\<lparr>dt_comments := t'\<rparr>)))"

definition copy_comment :: "'t SledTree \<Rightarrow> bytes \<Rightarrow> bytes \<Rightarrow> 't DesktopDatabase \<Rightarrow> (AfpError + unit) \<times> 't DesktopDatabase" where
  "copy_comment ops src_path dst_path db =
     (case sled_get ops (dt_comments db) (utf8_lossy src_path) of
        Inl _ \<Rightarrow> (Inl AccessDenied, db)
      | Inr None \<Rightarrow> (Inr (), db)
      | Inr (Some data) \<Rightarrow>
          (let (r, t) = sled_insert ops (dt_comments db) (utf8_lossy dst_path) data in (denied r, db\<lparr>dt_comments := t\<rparr>)))"

section \<open>Applications\<close>

definition appl_key :: "bytes \<Rightarrow> u32 \<Rightarrow> bytes" where
  "appl_key creator tag = creator @ u32_bytes tag"

definition appl_value :: "u32 \<Rightarrow> bytes \<Rightarrow> bytes" where
  "appl_value dir_id path = u32_bytes dir_id @ [word_of_nat (length path)] @ path"

definition appl_matches :: "u32 \<Rightarrow> bytes \<Rightarrow> bytes \<Rightarrow> bool" where
  "appl_matches dir_id path v \<longleftrightarrow>
     5 \<le> length v \<and> take 4 v = u32_bytes dir_id
     \<and> (let path_len = unat (v ! 4) in 5 + path_len \<le> length v \<and> take path_len (drop 5 v) = path)"

definition appl_matching :: "'t SledTree \<Rightarrow> 't \<Rightarrow> u32 \<Rightarrow> bytes \<Rightarrow> bytes list" where
  "appl_matching ops t dir_id path = [fst e. Inr e \<leftarrow> sled_iter ops t, appl_matches dir_id path (snd e)]"

fun insert_keys :: "'t SledTree \<Rightarrow> bytes \<Rightarrow> bytes list \<Rightarrow> 't \<Rightarrow> (AfpError + unit) \<times> 't" where
  "insert_keys ops value [] t = (Inr (), t)"
| "insert_keys ops value (key # keys) t =
     (case sled_insert ops t key value of (Inl _, t') \<Rightarrow> (Inl AccessDenied, t') | (Inr _, t') \<Rightarrow> insert_keys ops value keys t')"

fun remove_keys :: "'t SledTree \<Rightarrow> bytes list \<Rightarrow> 't \<Rightarrow> (AfpError + unit) \<times> 't" where
  "remove_keys ops [] t = (Inr (), t)"
| "remove_keys ops (key # keys) t =
     (case sled_remove ops t key of (Inl _, t') \<Rightarrow> (Inl AccessDenied, t') | (Inr _, t') \<Rightarrow> remove_keys ops keys t')"

definition move_appl_path :: "'t SledTree \<Rightarrow> bytes \<Rightarrow> bytes \<Rightarrow> u32 \<Rightarrow> u32 \<Rightarrow> 't DesktopDatabase \<Rightarrow> (AfpError + unit) \<times> 't DesktopDatabase" where
  "move_appl_path ops old_path new_path old_dir_id new_dir_id db =
     (let matches = appl_matching ops (dt_appls db) old_dir_id old_path;
          (r, t) = insert_keys ops (appl_value new_dir_id new_path) matches (dt_appls db)
      in (r, db\<lparr>dt_appls := t\<rparr>))"

definition copy_appl :: "'t SledTree \<Rightarrow> bytes \<Rightarrow> bytes \<Rightarrow> u32 \<Rightarrow> u32 \<Rightarrow> 't DesktopDatabase \<Rightarrow> (AfpError + unit) \<times> 't DesktopDatabase" where
  "copy_appl ops src_path dst_path src_dir_id dst_dir_id db =
     (let matches = appl_matching ops (dt_appls db) src_dir_id src_path;
          (r, t) = insert_keys ops (appl_value dst_dir_id dst_path) matches (dt_appls db)
      in (r, db\<lparr>dt_appls := t\<rparr>))"

definition delete_appls_for_path :: "'t SledTree \<Rightarrow> u32 \<Rightarrow> bytes \<Rightarrow> 't DesktopDatabase \<Rightarrow> (AfpError + unit) \<times> 't DesktopDatabase" where
  "delete_appls_for_path ops dir_id path db =
     (let (r, t) = remove_keys ops (appl_matching ops (dt_appls db) dir_id path) (dt_appls db) in (r, db\<lparr>dt_appls := t\<rparr>))"

definition add_appl :: "'t SledTree \<Rightarrow> bytes \<Rightarrow> u32 \<Rightarrow> u32 \<Rightarrow> bytes \<Rightarrow> 't DesktopDatabase \<Rightarrow> (AfpError + unit) \<times> 't DesktopDatabase" where
  "add_appl ops creator tag dir_id path db =
     (if 255 < length path then (Inl ParamError, db)
      else
        let (r, t) = sled_insert ops (dt_appls db) (appl_key creator tag) (appl_value dir_id path)
        in (denied r, db\<lparr>dt_appls := t\<rparr>))"

fun remove_appl_scan :: "'t SledTree \<Rightarrow> u32 \<Rightarrow> bytes \<Rightarrow> (unit + bytes \<times> bytes) list \<Rightarrow> 't \<Rightarrow> (AfpError + unit) \<times> 't" where
  "remove_appl_scan ops dir_id path [] t = (Inl ItemNotFound, t)"
| "remove_appl_scan ops dir_id path (Inl e # results) t = (Inl AccessDenied, t)"
| "remove_appl_scan ops dir_id path (Inr (key, value) # results) t =
     (if appl_matches dir_id path value then let (r, t') = sled_remove ops t key in (denied r, t')
      else remove_appl_scan ops dir_id path results t)"

definition remove_appl :: "'t SledTree \<Rightarrow> bytes \<Rightarrow> u32 \<Rightarrow> bytes \<Rightarrow> 't DesktopDatabase \<Rightarrow> (AfpError + unit) \<times> 't DesktopDatabase" where
  "remove_appl ops creator dir_id path db =
     (let (r, t) = remove_appl_scan ops dir_id path (sled_scan_prefix ops (dt_appls db) creator) (dt_appls db)
      in (r, db\<lparr>dt_appls := t\<rparr>))"

fun get_appl_scan :: "nat \<Rightarrow> (unit + bytes \<times> bytes) list \<Rightarrow> AfpError + u32 \<times> u32 \<times> bytes" where
  "get_appl_scan target [] = Inl ItemNotFound"
| "get_appl_scan target (Inl e # results) = Inl AccessDenied"
| "get_appl_scan (Suc target) (Inr e # results) = get_appl_scan target results"
| "get_appl_scan 0 (Inr (key, value) # results) =
     (if length key < 8 \<or> length value < 5 then Inl ItemNotFound
      else
        let path_len = unat (value ! 4);
            path = (if 5 + path_len \<le> length value then utf8_lossy (take path_len (drop 5 value)) else [])
        in Inr (read_u32 key 4, read_u32 value 0, path))"

definition get_appl :: "'t SledTree \<Rightarrow> 't DesktopDatabase \<Rightarrow> bytes \<Rightarrow> u16 \<Rightarrow> AfpError + u32 \<times> u32 \<times> bytes" where
  "get_appl ops db creator index = get_appl_scan (unat index - 1) (sled_scan_prefix ops (dt_appls db) creator)"

end
