(* ===== verification/Afp_Volume.thy ===== *)
theory Afp_Volume
  imports Afp_Desktop
begin

text \<open>
  The volume of a file server session (src/tailtalk/src/afp/volume.rs): its state, the host it stands on, names and paths, and
  the table of nodes. The host file system is a parameter, a record of the calls the volume makes; the build is the one for
  Unix other than macOS, where a resource fork is a file of its own under .tailtalk/rsrc and Finder information an extended
  attribute.
\<close>

section \<open>The host\<close>

text \<open>A path is its components. Times count nanoseconds from the Unix epoch.\<close>

type_synonym path = "bytes list"

record Metadata =
  md_len :: nat
  md_created :: "int option"
  md_modified :: "int option"

record DirEntry =
  de_name :: bytes
  de_is_dir :: "bool option"

record ('w, 'h) Host =
  h_now :: "'w \<Rightarrow> int"
  h_metadata :: "'w \<Rightarrow> path \<Rightarrow> Metadata option"
  h_read_dir :: "'w \<Rightarrow> path \<Rightarrow> DirEntry option list option"
  h_open :: "'w \<Rightarrow> path \<Rightarrow> 'h option \<times> 'w"
  h_open_create :: "'w \<Rightarrow> path \<Rightarrow> 'h option \<times> 'w"
  h_create :: "'w \<Rightarrow> path \<Rightarrow> bool \<times> 'w"
  h_create_dir :: "'w \<Rightarrow> path \<Rightarrow> bool \<times> 'w"
  h_create_dir_all :: "'w \<Rightarrow> path \<Rightarrow> bool \<times> 'w"
  h_rename :: "'w \<Rightarrow> path \<Rightarrow> path \<Rightarrow> bool \<times> 'w"
  h_copy :: "'w \<Rightarrow> path \<Rightarrow> path \<Rightarrow> bool \<times> 'w"
  h_remove_file :: "'w \<Rightarrow> path \<Rightarrow> bool \<times> 'w"
  h_remove_dir :: "'w \<Rightarrow> path \<Rightarrow> bool \<times> 'w"
  h_xattr_list :: "'w \<Rightarrow> path \<Rightarrow> bytes list"
  h_xattr_get :: "'w \<Rightarrow> path \<Rightarrow> bytes \<Rightarrow> bytes option option"
  h_xattr_set :: "'w \<Rightarrow> path \<Rightarrow> bytes \<Rightarrow> bytes \<Rightarrow> bool \<times> 'w"
  h_mime_type :: "'w \<Rightarrow> path \<Rightarrow> bytes option"
  h_seek :: "'w \<Rightarrow> 'h \<Rightarrow> nat \<Rightarrow> bool \<times> 'w"
  h_read :: "'w \<Rightarrow> 'h \<Rightarrow> nat \<Rightarrow> bytes option \<times> 'w"
  h_write_all :: "'w \<Rightarrow> 'h \<Rightarrow> bytes \<Rightarrow> bool \<times> 'w"
  h_set_len :: "'w \<Rightarrow> 'h \<Rightarrow> nat \<Rightarrow> bool \<times> 'w"
  h_sync_data :: "'w \<Rightarrow> 'h \<Rightarrow> bool \<times> 'w"

section \<open>The state\<close>

record 'h Node =
  nd_id :: u32
  nd_parent_id :: u32
  nd_name :: bytes
  nd_is_dir :: bool
  nd_path :: path
  nd_data_fork :: "'h option"
  nd_resource_fork :: "'h option"

text \<open>\<open>mangle_tree\<close> is another handle on the tree \<open>dt_mangle_names\<close> of the desktop database. The world of the host comes last.\<close>

record ('h, 't, 'w) Volume =
  vo_name :: bytes
  vo_path :: path
  vo_created_at :: u32
  vo_volume_id :: u16
  vo_nodes :: "u32 \<rightharpoonup> 'h Node"
  vo_path_to_id :: "path \<rightharpoonup> u32"
  vo_next_id :: u32
  vo_fork_refs :: "u16 \<rightharpoonup> u32 \<times> ForkType"
  vo_fork_access :: "u16 \<rightharpoonup> u16"
  vo_fork_pos :: "u16 \<rightharpoonup> nat"
  vo_dirty :: "(u32 \<times> ForkType) set"
  vo_next_fork_ref :: u16
  vo_fork_locks :: "u16 \<rightharpoonup> (nat \<times> nat) list"
  vo_enum_cache :: "u32 \<rightharpoonup> (bytes \<times> bool) list"
  vo_desktop :: "'t DesktopDatabase"
  vo_world :: 'w

text \<open>What a volume is given: the codec, the database, the host, and the iteration orders of its hash tables.\<close>

record ('h, 't, 'w) Env =
  ev_mac :: MacRoman
  ev_sled :: "'t SledTree"
  ev_host :: "('w, 'h) Host"
  ev_fork_order :: "(u32 \<times> ForkType) set \<Rightarrow> (u32 \<times> ForkType) list"
  ev_node_order :: "u32 set \<Rightarrow> u32 list"

section \<open>Results\<close>

text \<open>An operation refuses with an AFP error, panics, or returns, and leaves a state behind in each case.\<close>

datatype Fault = Refused AfpError | Panicked

type_synonym ('s, 'a) action = "'s \<Rightarrow> (Fault + 'a) \<times> 's"

definition ret :: "'a \<Rightarrow> ('s, 'a) action" where
  "ret x = (\<lambda>s. (Inr x, s))"

definition refuse :: "AfpError \<Rightarrow> ('s, 'a) action" where
  "refuse e = (\<lambda>s. (Inl (Refused e), s))"

definition bind :: "('s, 'a) action \<Rightarrow> ('a \<Rightarrow> ('s, 'b) action) \<Rightarrow> ('s, 'b) action" where
  "bind m f = (\<lambda>s. case m s of (Inl e, s') \<Rightarrow> (Inl e, s') | (Inr x, s') \<Rightarrow> f x s')"

definition reads :: "('s \<Rightarrow> 'a) \<Rightarrow> ('s, 'a) action" where
  "reads f = (\<lambda>s. (Inr (f s), s))"

definition update :: "('s \<Rightarrow> 's) \<Rightarrow> ('s, unit) action" where
  "update f = (\<lambda>s. (Inr (), f s))"

text \<open>\<open>ok_or\<close> on something looked up in the state.\<close>

definition look :: "('s \<Rightarrow> 'a option) \<Rightarrow> AfpError \<Rightarrow> ('s, 'a) action" where
  "look f e = (\<lambda>s. case f s of None \<Rightarrow> (Inl (Refused e), s) | Some x \<Rightarrow> (Inr x, s))"

definition host :: "('w \<Rightarrow> 'a \<times> 'w) \<Rightarrow> (('h, 't, 'w) Volume, 'a) action" where
  "host f = (\<lambda>v. let (x, w) = f (vo_world v) in (Inr x, v\<lparr>vo_world := w\<rparr>))"

lemmas action_defs = ret_def refuse_def bind_def reads_def update_def look_def host_def

section \<open>Times\<close>

definition AFP_DATE_NEVER :: u32 where "AFP_DATE_NEVER = 0x80000000"
definition AFP_EPOCH_OFFSET :: int where "AFP_EPOCH_OFFSET = 946684800"

definition time_to_afp :: "int \<Rightarrow> u32" where
  "time_to_afp t =
     (let unix_secs = (if 0 \<le> t then t div 10 ^ 9 else - ((- t) div 10 ^ 9))
      in word_of_int (max (- (2 ^ 31)) (min (2 ^ 31 - 1) (unix_secs - AFP_EPOCH_OFFSET))))"

definition afp_to_time :: "u32 \<Rightarrow> int" where
  "afp_to_time date = (sint date + AFP_EPOCH_OFFSET) * 10 ^ 9"

definition creation_time :: "Metadata \<Rightarrow> int" where
  "creation_time m = (case md_created m of Some t \<Rightarrow> t | None \<Rightarrow> (case md_modified m of Some t \<Rightarrow> t | None \<Rightarrow> 0))"

section \<open>Names and paths\<close>

definition SLASH :: u8 where "SLASH = 0x2F"
definition COLON :: u8 where "COLON = 0x3A"

definition replace_byte :: "u8 \<Rightarrow> u8 \<Rightarrow> bytes \<Rightarrow> bytes" where
  "replace_byte a b s = map (\<lambda>c. if c = a then b else c) s"

fun split_at :: "u8 \<Rightarrow> bytes \<Rightarrow> bytes list" where
  "split_at sep [] = [[]]"
| "split_at sep (c # s) =
     (if c = sep then [] # split_at sep s
      else case split_at sep s of [] \<Rightarrow> [[c]] | part # parts \<Rightarrow> (c # part) # parts)"

definition ICON_CR_NAME :: bytes where "ICON_CR_NAME = ascii ''Icon'' @ [0x0D]"
definition icon_cr_on_disk_name :: bytes where "icon_cr_on_disk_name = ICON_CR_NAME"

definition afp_name_to_posix_component :: "bytes \<Rightarrow> bytes" where
  "afp_name_to_posix_component name = (if name = ICON_CR_NAME then icon_cr_on_disk_name else replace_byte SLASH COLON name)"

definition afp_path_to_posix :: "bytes \<Rightarrow> path" where
  "afp_path_to_posix afp_path =
     map afp_name_to_posix_component
       (filter (\<lambda>c. \<not> (c = [] \<or> c = ascii ''.'' \<or> c = ascii ''..'')) (split_at COLON afp_path))"

definition posix_name_to_afp :: "bytes \<Rightarrow> bytes" where
  "posix_name_to_afp name = (if name = icon_cr_on_disk_name then ICON_CR_NAME else replace_byte COLON SLASH name)"

definition afp_path_is_empty :: "path \<Rightarrow> bool" where
  "afp_path_is_empty p \<longleftrightarrow> (case p of [] \<Rightarrow> True | [c] \<Rightarrow> (\<forall>b \<in> set c. b = 0) | _ \<Rightarrow> False)"

text \<open>\<open>Path::new(name) == path\<close> for a path without a root: the components of the name without empty and inner \<open>.\<close> ones.\<close>

definition path_is_name :: "path \<Rightarrow> bytes \<Rightarrow> bool" where
  "path_is_name p name \<longleftrightarrow>
     (case name of
        [] \<Rightarrow> p = []
      | b # _ \<Rightarrow>
          b \<noteq> SLASH \<and>
          (let parts = split_at SLASH name
           in p = filter (\<lambda>c. c \<noteq> []) (hd parts # filter (\<lambda>c. c \<noteq> ascii ''.'') (tl parts))))"

definition rsrc_path :: "path \<Rightarrow> path \<Rightarrow> path" where
  "rsrc_path volume_root relative_path = volume_root @ [ascii ''.tailtalk'', ascii ''rsrc''] @ relative_path"

definition hidden_name :: "bytes \<Rightarrow> bool" where
  "hidden_name name \<longleftrightarrow> name = ascii ''.tailtalk'' \<or> name = ascii ''.AppleDesktop''"

section \<open>The node table\<close>

definition register_mangle_if_needed ::
  "('h, 't, 'w) Env \<Rightarrow> bytes \<Rightarrow> bytes \<Rightarrow> ('h, 't, 'w) Volume \<Rightarrow> ('h, 't, 'w) Volume" where
  "register_mangle_if_needed env afp_name posix_name v =
     (if AFP2_MAX_NAME_LEN < length (mac_encode (ev_mac env) afp_name)
      then v\<lparr>vo_desktop := (vo_desktop v)\<lparr>dt_mangle_names :=
             snd (sled_insert (ev_sled env) (dt_mangle_names (vo_desktop v)) (mangle_name (ev_mac env) afp_name) posix_name)\<rparr>\<rparr>
      else v)"

definition new_node :: "u32 \<Rightarrow> u32 \<Rightarrow> bytes \<Rightarrow> bool \<Rightarrow> path \<Rightarrow> 'h Node" where
  "new_node i parent name is_dir p =
     \<lparr>nd_id = i, nd_parent_id = parent, nd_name = name, nd_is_dir = is_dir, nd_path = p, nd_data_fork = None, nd_resource_fork = None\<rparr>"

text \<open>Taking the next identifier for a new node, as creation, population and enumeration do.\<close>

definition add_node :: "u32 \<Rightarrow> bytes \<Rightarrow> bool \<Rightarrow> path \<Rightarrow> ('h, 't, 'w) Volume \<Rightarrow> ('h, 't, 'w) Volume" where
  "add_node parent name is_dir p v =
     v\<lparr>vo_nodes := (vo_nodes v)(vo_next_id v \<mapsto> new_node (vo_next_id v) parent name is_dir p),
       vo_path_to_id := (vo_path_to_id v)(p \<mapsto> vo_next_id v), vo_next_id := vo_next_id v + 1\<rparr>"

definition volume_new :: "('h, 't, 'w) Env \<Rightarrow> bytes \<Rightarrow> path \<Rightarrow> u16 \<Rightarrow> 't DesktopDatabase \<Rightarrow> 'w \<Rightarrow> ('h, 't, 'w) Volume" where
  "volume_new env name p volume_id db w =
     \<lparr>vo_name = name, vo_path = p, vo_created_at = time_to_afp (h_now (ev_host env) w), vo_volume_id = volume_id,
      vo_nodes = [1 \<mapsto> new_node 1 1 name True [], 2 \<mapsto> new_node 2 1 name True []], vo_path_to_id = [[] \<mapsto> 2], vo_next_id = 3,
      vo_fork_refs = Map.empty, vo_fork_access = Map.empty, vo_fork_pos = Map.empty, vo_dirty = {}, vo_next_fork_ref = 1,
      vo_fork_locks = Map.empty, vo_enum_cache = Map.empty, vo_desktop = db,
      vo_world = snd (h_create_dir_all (ev_host env) w (p @ [ascii ''.tailtalk'']))\<rparr>"

definition get_node_path :: "('h, 't, 'w) Volume \<Rightarrow> u32 \<Rightarrow> path option" where
  "get_node_path v i = map_option nd_path (vo_nodes v i)"

text \<open>A component as the mangled name of an entry of the table, if it is one.\<close>

definition unmangle :: "('h, 't, 'w) Env \<Rightarrow> ('h, 't, 'w) Volume \<Rightarrow> bytes \<Rightarrow> bytes option" where
  "unmangle env v part = lookup_mangle (ev_sled env) (vo_desktop v) (mac_encode (ev_mac env) (utf8_lossy part))"

definition resolve_node :: "('h, 't, 'w) Env \<Rightarrow> ('h, 't, 'w) Volume \<Rightarrow> u32 \<Rightarrow> path \<Rightarrow> AfpError + u32" where
  "resolve_node env v dir_id path_name =
     (let directory_id = (if dir_id = 0 then 2 else dir_id); is_empty = afp_path_is_empty path_name in
      if directory_id = 1 then
        if is_empty then Inr 1
        else if path_is_name path_name (vo_name v) then Inr 2
        else Inl ObjectNotFound
      else if is_empty then if vo_nodes v directory_id \<noteq> None then Inr directory_id else Inl ObjectNotFound
      else
        case get_node_path v directory_id of
          None \<Rightarrow> Inl ObjectNotFound
        | Some base_path \<Rightarrow>
            (case vo_path_to_id v (base_path @ path_name) of
               Some i \<Rightarrow> Inr i
             | None \<Rightarrow>
                 let names = map (unmangle env v) path_name;
                     resolved = map2 (\<lambda>name part. case name of Some original \<Rightarrow> original | None \<Rightarrow> utf8_lossy part) names path_name
                 in if \<exists>name \<in> set names. name \<noteq> None
                    then case vo_path_to_id v (base_path @ resolved) of Some i \<Rightarrow> Inr i | None \<Rightarrow> Inl ObjectNotFound
                    else Inl ObjectNotFound))"

text \<open>The entries of a directory, one after the other; what the first error leaves behind stays.\<close>

fun populate :: "('h, 't, 'w) Env \<Rightarrow> u32 \<Rightarrow> path \<Rightarrow> DirEntry option list \<Rightarrow> ('h, 't, 'w) Volume \<Rightarrow> bool \<times> ('h, 't, 'w) Volume" where
  "populate env dir_id dir_path [] v = (True, v)"
| "populate env dir_id dir_path (None # entries) v = (False, v)"
| "populate env dir_id dir_path (Some entry # entries) v =
     (let name = utf8_lossy (de_name entry) in
      if hidden_name name then populate env dir_id dir_path entries v
      else if vo_path_to_id v (dir_path @ [name]) \<noteq> None then populate env dir_id dir_path entries v
      else
        case de_is_dir entry of
          None \<Rightarrow> (False, v)
        | Some is_dir \<Rightarrow>
            populate env dir_id dir_path entries
              (register_mangle_if_needed env (posix_name_to_afp name) name
                 (add_node dir_id (posix_name_to_afp name) is_dir (dir_path @ [name]) v)))"

definition ensure_dir_populated :: "('h, 't, 'w) Env \<Rightarrow> u32 \<Rightarrow> ('h, 't, 'w) Volume \<Rightarrow> bool \<times> ('h, 't, 'w) Volume" where
  "ensure_dir_populated env dir_id v =
     (case get_node_path v dir_id of
        None \<Rightarrow> (False, v)
      | Some dir_path \<Rightarrow>
          (case h_read_dir (ev_host env) (vo_world v) (vo_path v @ dir_path) of
             None \<Rightarrow> (False, v)
           | Some entries \<Rightarrow> populate env dir_id dir_path entries v))"

definition lift_res :: "AfpError + 'a \<Rightarrow> Fault + 'a" where
  "lift_res r = (case r of Inl e \<Rightarrow> Inl (Refused e) | Inr x \<Rightarrow> Inr x)"

definition resolve_node_lazy :: "('h, 't, 'w) Env \<Rightarrow> u32 \<Rightarrow> path \<Rightarrow> (('h, 't, 'w) Volume, u32) action" where
  "resolve_node_lazy env directory_id path_name v =
     (case resolve_node env v directory_id path_name of
        Inr i \<Rightarrow> (Inr i, v)
      | Inl _ \<Rightarrow>
          let dir_id = (if directory_id = 0 then 2 else directory_id);
              v' = (if 2 \<le> dir_id \<and> \<not> afp_path_is_empty path_name then snd (ensure_dir_populated env dir_id v) else v)
          in (lift_res (resolve_node env v' directory_id path_name), v'))"

end
