(* ===== verification/Afp_Commands.thy ===== *)
theory Afp_Commands
  imports Afp_Names
begin

text \<open>
  The commands of the Apple Filing Protocol (src/tailtalk-packets/src/afp/commands.rs): what a server parses out of a request, and
  the replies it builds that are not made of bitmap parameters. A parser gives the command or an error. Two of the
  parsers slice without a check and can panic; they are options, and \<open>None\<close> is the panic.
\<close>

section \<open>Results\<close>

text \<open>The question mark operator, and \<open>collect\<close> into a \<open>Result\<close>.\<close>

definition try_res :: "'e + 'a \<Rightarrow> ('a \<Rightarrow> 'e + 'b) \<Rightarrow> 'e + 'b" where
  "try_res r f = (case r of Inl e \<Rightarrow> Inl e | Inr x \<Rightarrow> f x)"

lemma try_res_simps [simp]: "try_res (Inl e) f = Inl e" "try_res (Inr x) f = f x"
  by (simp_all add: try_res_def)

lemma try_res_Inr: "try_res r f = Inr y \<longleftrightarrow> (\<exists>x. r = Inr x \<and> f x = Inr y)"
  by (cases r) simp_all

fun collect_res :: "('a \<Rightarrow> 'e + 'b) \<Rightarrow> 'a list \<Rightarrow> 'e + 'b list" where
  "collect_res f [] = Inr []"
| "collect_res f (x # xs) = try_res (f x) (\<lambda>y. try_res (collect_res f xs) (\<lambda>ys. Inr (y # ys)))"

lemma collect_res_map: "(\<And>x. x \<in> set xs \<Longrightarrow> f (g x) = Inr x) \<Longrightarrow> collect_res f (map g xs) = Inr xs"
  by (induction xs) simp_all

section \<open>Log in\<close>

datatype FPLoginAuth = AuthNone | AuthCleartxt MacString bytes

record FPLogin =
  lg_version :: AfpVersion
  lg_auth :: FPLoginAuth

text \<open>A Pascal string at an offset, and the offset behind it.\<close>

definition read_pstr_at :: "MacRoman \<Rightarrow> bytes \<Rightarrow> nat \<Rightarrow> AfpError + (MacString \<times> nat)" where
  "read_pstr_at mr buf offset = try_res (ms_try_from mr (drop offset buf)) (\<lambda>s. Inr (s, offset + ms_byte_len mr s))"

definition login_auth :: "MacRoman \<Rightarrow> bytes \<Rightarrow> AfpUam \<Rightarrow> nat \<Rightarrow> AfpError + FPLoginAuth" where
  "login_auth mr buf uam offset =
     (case uam of
        NoUserAuthent \<Rightarrow> Inr AuthNone
      | CleartxtPasswrd \<Rightarrow>
          try_res (read_pstr_at mr buf offset) (\<lambda>(username, offset).
            if length buf < offset + 8 then Inl InvalidSize
            else Inr (AuthCleartxt username (take 8 (drop offset buf))))
      | _ \<Rightarrow> Inl BadUam)"

definition login_parse :: "MacRoman \<Rightarrow> bytes \<Rightarrow> AfpError + FPLogin" where
  "login_parse mr buf =
     (if length buf < 2 then Inl InvalidSize
      else
        try_res (read_pstr_at mr buf 0) (\<lambda>(version_string, offset).
        try_res (version_try_from (ms_value version_string)) (\<lambda>version.
        try_res (read_pstr_at mr buf offset) (\<lambda>(uam_string, offset).
        try_res (uam_try_from (ms_value uam_string)) (\<lambda>uam.
        try_res (login_auth mr buf uam offset) (\<lambda>auth. Inr \<lparr>lg_version = version, lg_auth = auth\<rparr>))))))"

definition login_to_bytes :: "MacRoman \<Rightarrow> FPLogin \<Rightarrow> AfpError + bytes" where
  "login_to_bytes mr l =
     (let head = pascal (version_str (lg_version l))
      in case lg_auth l of
           AuthNone \<Rightarrow> Inr (head @ pascal (uam_str NoUserAuthent))
         | AuthCleartxt username password \<Rightarrow>
             try_res (ms_bytes mr username (replicate 256 0)) (\<lambda>(username_buf, written).
               Inr (head @ pascal (uam_str CleartxtPasswrd) @ take written username_buf @ password)))"

section \<open>Server information\<close>

record FPGetSrvrInfo =
  si_machine_type :: MacString
  si_versions :: "AfpVersion list"
  si_uams :: "AfpUam list"
  si_icon :: "bytes option"
  si_flags :: u16
  si_server_name :: MacString

definition info_pstr :: "MacRoman \<Rightarrow> bytes \<Rightarrow> nat \<Rightarrow> AfpError + MacString" where
  "info_pstr mr buf offset =
     (if length buf \<le> offset then Inl InvalidSize
      else
        let len = unat (buf ! offset)
        in if length buf < offset + 1 + len then Inl InvalidSize
           else ms_try_from mr (take (1 + len) (drop offset buf)))"

fun info_pstrs :: "MacRoman \<Rightarrow> bytes \<Rightarrow> nat \<Rightarrow> nat \<Rightarrow> AfpError + MacString list" where
  "info_pstrs mr buf current_pos 0 = Inr []"
| "info_pstrs mr buf current_pos (Suc count) =
     (if length buf \<le> current_pos then Inl InvalidSize
      else
        try_res (ms_try_from mr (drop current_pos buf)) (\<lambda>s.
        try_res (info_pstrs mr buf (current_pos + ms_byte_len mr s) count) (\<lambda>strings. Inr (s # strings))))"

definition info_pstr_list :: "MacRoman \<Rightarrow> bytes \<Rightarrow> nat \<Rightarrow> AfpError + MacString list" where
  "info_pstr_list mr buf offset =
     (if length buf \<le> offset then Inl InvalidSize else info_pstrs mr buf (offset + 1) (unat (buf ! offset)))"

definition info_icon :: "bytes \<Rightarrow> nat \<Rightarrow> AfpError + bytes option" where
  "info_icon buf icon_offset =
     (if icon_offset \<noteq> 0
      then if length buf < icon_offset + 256 then Inl InvalidSize else Inr (Some (take 256 (drop icon_offset buf)))
      else Inr None)"

definition srvr_info_parse :: "MacRoman \<Rightarrow> bytes \<Rightarrow> AfpError + FPGetSrvrInfo" where
  "srvr_info_parse mr buf =
     (if length buf < 11 then Inl InvalidSize
      else
        let server_name_len = unat (buf ! 10)
        in if length buf < 10 + 1 + server_name_len then Inl InvalidSize
           else
             try_res (ms_try_from mr (take (1 + server_name_len) (drop 10 buf))) (\<lambda>server_name.
             try_res (info_pstr mr buf (unat (read_u16 buf 0))) (\<lambda>machine_type.
             try_res (info_pstr_list mr buf (unat (read_u16 buf 2))) (\<lambda>version_strings.
             try_res (collect_res (\<lambda>s. version_try_from (ms_value s)) version_strings) (\<lambda>versions.
             try_res (info_pstr_list mr buf (unat (read_u16 buf 4))) (\<lambda>uam_strings.
             try_res (collect_res (\<lambda>s. uam_try_from (ms_value s)) uam_strings) (\<lambda>uams.
             try_res (info_icon buf (unat (read_u16 buf 6))) (\<lambda>icon.
               Inr \<lparr>si_machine_type = machine_type, si_versions = versions, si_uams = uams, si_icon = icon,
                    si_flags = read_u16 buf 8, si_server_name = server_name\<rparr>))))))))"

definition pstr_list :: "bytes list \<Rightarrow> bytes" where
  "pstr_list strings = word_of_nat (length strings) # concat (map pascal strings)"

text \<open>The offsets are \<open>u16\<close>, so they wrap when the data does not fit them.\<close>

definition srvr_info_to_bytes :: "MacRoman \<Rightarrow> FPGetSrvrInfo \<Rightarrow> AfpError + bytes" where
  "srvr_info_to_bytes mr i =
     try_res (ms_bytes mr (si_server_name i) (replicate 256 0)) (\<lambda>(name_buf, written).
       let server_name_len = min (written - 1) 255;
           unpadded = 10 + 1 + server_name_len;
           padding = unpadded mod 2;
           base_offset = unpadded + padding
       in try_res (ms_bytes mr (si_machine_type i) (replicate 256 0)) (\<lambda>(type_buf, written_mt).
            let var1 = take written_mt type_buf;
                var2 = var1 @ pstr_list (map version_str (si_versions i));
                var3 = var2 @ pstr_list (map uam_str (si_uams i));
                ptr = (\<lambda>var. word_of_nat base_offset + word_of_nat (length var) :: u16);
                icon_ptr = (case si_icon i of None \<Rightarrow> 0 | Some icon \<Rightarrow> ptr var3);
                var4 = (case si_icon i of None \<Rightarrow> var3 | Some icon \<Rightarrow> var3 @ icon)
            in Inr (u16_bytes (word_of_nat base_offset) @ u16_bytes (ptr var1) @ u16_bytes (ptr var2) @ u16_bytes icon_ptr
                 @ u16_bytes (si_flags i) @ [word_of_nat server_name_len] @ take server_name_len (drop 1 name_buf)
                 @ replicate padding 0 @ var4)))"

section \<open>Server parameters\<close>

record FPVolume =
  fv_has_password :: bool
  fv_has_config_info :: bool
  fv_name :: MacString

text \<open>The room is reserved by the length of the text in UTF-8, the name is written in MacRoman.\<close>

definition volume_to_bytes :: "MacRoman \<Rightarrow> FPVolume \<Rightarrow> bytes \<Rightarrow> AfpError + (bytes \<times> nat)" where
  "volume_to_bytes mr v buf =
     (let target_size = 2 + length (ms_value (fv_name v))
      in if length buf < target_size then Inl InvalidSize
         else
           let flags = (if fv_has_password v then 0x80 else 0) OR (if fv_has_config_info v then 0x40 else 0);
               target = put 0 [flags, word_of_nat (ms_byte_len mr (fv_name v) - 1)] (take target_size buf)
           in try_res (ms_bytes mr (fv_name v) (drop 1 target)) (\<lambda>(tail, n).
                Inr (take 1 target @ tail @ drop target_size buf, target_size)))"

definition volume_size :: "MacRoman \<Rightarrow> FPVolume \<Rightarrow> nat" where
  "volume_size mr v = 2 + ms_byte_len mr (fv_name v) - 1"

record FPGetSrvrParms =
  sp_server_time :: u32
  sp_volumes :: "FPVolume list"

fun write_volumes :: "MacRoman \<Rightarrow> bytes \<Rightarrow> nat \<Rightarrow> FPVolume list \<Rightarrow> AfpError + bytes" where
  "write_volumes mr target offset [] = Inr target"
| "write_volumes mr target offset (v # vs) =
     try_res (volume_to_bytes mr v (drop offset target)) (\<lambda>(part, n).
       write_volumes mr (take offset target @ part) (offset + n) vs)"

definition srvr_parms_to_bytes :: "MacRoman \<Rightarrow> FPGetSrvrParms \<Rightarrow> bytes \<Rightarrow> AfpError + (bytes \<times> nat)" where
  "srvr_parms_to_bytes mr p buf =
     (let target_size = 5 + sum_list (map (volume_size mr) (sp_volumes p))
      in if length buf < target_size then Inl InvalidSize
         else
           let target = put 0 (u32_bytes (sp_server_time p) @ [word_of_nat (length (sp_volumes p))]) (take target_size buf)
           in try_res (write_volumes mr target 5 (sp_volumes p)) (\<lambda>target. Inr (target @ drop target_size buf, target_size)))"

section \<open>Commands without a path\<close>

record FPByteRangeLock =
  bl_fork_id :: u16
  bl_offset :: int
  bl_length :: u32
  bl_flags :: u8

definition byte_range_lock_parse :: "bytes \<Rightarrow> AfpError + FPByteRangeLock" where
  "byte_range_lock_parse buf =
     (if length buf < 11 then Inl InvalidSize
      else Inr \<lparr>bl_fork_id = read_u16 buf 1, bl_offset = sint (read_u32 buf 3), bl_length = read_u32 buf 7, bl_flags = lock_flags (buf ! 0)\<rparr>)"

record FPCloseFork =
  cf_fork_id :: u16

definition close_fork_parse :: "bytes \<Rightarrow> AfpError + FPCloseFork" where
  "close_fork_parse buf =
     (if length buf < 2 then Inl InvalidSize
      else Inr \<lparr>cf_fork_id = read_u16 buf 0\<rparr>)"

record FPRead =
  rd_fork_id :: u16
  rd_offset :: u32
  rd_req_count :: u32
  rd_newline_mask :: u8
  rd_newline_char :: u8

definition read_parse :: "bytes \<Rightarrow> AfpError + FPRead" where
  "read_parse buf =
     (if length buf < 12 then Inl InvalidSize
      else Inr \<lparr>rd_fork_id = read_u16 buf 0, rd_offset = read_u32 buf 2, rd_req_count = read_u32 buf 6, rd_newline_mask = buf ! 10, rd_newline_char = buf ! 11\<rparr>)"

definition byte_matches_newline :: "FPRead \<Rightarrow> u8 \<Rightarrow> bool" where
  "byte_matches_newline r byte \<longleftrightarrow> byte AND rd_newline_mask r = rd_newline_char r"

record FPFlush =
  fl_volume_id :: u16

definition flush_parse :: "bytes \<Rightarrow> AfpError + FPFlush" where
  "flush_parse buf =
     (if length buf < 2 then Inl InvalidSize
      else Inr \<lparr>fl_volume_id = read_u16 buf 0\<rparr>)"

record FPFlushFork =
  ff_fork_id :: u16

definition flush_fork_parse :: "bytes \<Rightarrow> AfpError + FPFlushFork" where
  "flush_fork_parse buf =
     (if length buf < 2 then Inl InvalidSize
      else Inr \<lparr>ff_fork_id = read_u16 buf 0\<rparr>)"

record FPGetVolParms =
  gv_volume_id :: u16
  gv_bitmap :: u16

definition get_vol_parms_parse :: "bytes \<Rightarrow> AfpError + FPGetVolParms" where
  "get_vol_parms_parse buf =
     (if length buf < 4 then Inl InvalidSize
      else Inr \<lparr>gv_volume_id = read_u16 buf 0, gv_bitmap = volume_bitmap (read_u16 buf 2)\<rparr>)"

record FPAddIcon =
  ai_dt_ref_num :: u16
  ai_file_creator :: bytes
  ai_file_type :: bytes
  ai_icon_type :: u8
  ai_icon_tag :: u32
  ai_size :: u16

definition add_icon_parse :: "bytes \<Rightarrow> AfpError + FPAddIcon" where
  "add_icon_parse buf =
     (if length buf < 18 then Inl InvalidSize
      else Inr \<lparr>ai_dt_ref_num = read_u16 buf 0, ai_file_creator = take 4 (drop 2 buf), ai_file_type = take 4 (drop 6 buf), ai_icon_type = buf ! 10, ai_icon_tag = read_u32 buf 12, ai_size = read_u16 buf 16\<rparr>)"

record FPGetIcon =
  gi_dt_ref_num :: u16
  gi_file_creator :: bytes
  gi_file_type :: bytes
  gi_icon_type :: u8
  gi_size :: u16

definition get_icon_parse :: "bytes \<Rightarrow> AfpError + FPGetIcon" where
  "get_icon_parse buf =
     (if length buf < 14 then Inl InvalidSize
      else Inr \<lparr>gi_dt_ref_num = read_u16 buf 0, gi_file_creator = take 4 (drop 2 buf), gi_file_type = take 4 (drop 6 buf), gi_icon_type = buf ! 10, gi_size = read_u16 buf 12\<rparr>)"

record FPGetIconInfo =
  gn_dt_ref_num :: u16
  gn_file_creator :: bytes
  gn_icon_type :: u16

definition get_icon_info_parse :: "bytes \<Rightarrow> AfpError + FPGetIconInfo" where
  "get_icon_info_parse buf =
     (if length buf < 8 then Inl InvalidSize
      else Inr \<lparr>gn_dt_ref_num = read_u16 buf 0, gn_file_creator = take 4 (drop 2 buf), gn_icon_type = read_u16 buf 6\<rparr>)"

record FPGetAPPL =
  ga_dt_ref_num :: u16
  ga_file_creator :: bytes
  ga_appl_index :: u16

definition get_appl_parse :: "bytes \<Rightarrow> AfpError + FPGetAPPL" where
  "get_appl_parse buf =
     (if length buf < 8 then Inl InvalidSize
      else Inr \<lparr>ga_dt_ref_num = read_u16 buf 0, ga_file_creator = take 4 (drop 2 buf), ga_appl_index = read_u16 buf 6\<rparr>)"

record FPWrite =
  wr_fork_id :: u16
  wr_offset :: u32
  wr_req_count :: u32
  wr_start_end_flag :: bool

definition write_parse :: "bytes \<Rightarrow> AfpError + FPWrite" where
  "write_parse buf =
     (if length buf < 10 then Inl InvalidSize
      else Inr \<lparr>wr_fork_id = read_u16 buf 0, wr_offset = read_u32 buf 2, wr_req_count = read_u32 buf 6 AND 0x7FFFFFFF, wr_start_end_flag = read_u32 buf 6 AND 0x80000000 \<noteq> 0\<rparr>)"

record FPOpenDT =
  od_volume_id :: u16

definition open_dt_parse :: "bytes \<Rightarrow> AfpError + FPOpenDT" where
  "open_dt_parse buf =
     (if length buf < 2 then Inl InvalidSize
      else Inr \<lparr>od_volume_id = read_u16 buf 0\<rparr>)"

record FPGetForkParms =
  gf_fork_id :: u16
  gf_file_bitmap :: u16

definition get_fork_parms_parse :: "bytes \<Rightarrow> AfpError + FPGetForkParms" where
  "get_fork_parms_parse buf =
     (if length buf < 4 then Inl InvalidSize
      else Inr \<lparr>gf_fork_id = read_u16 buf 0, gf_file_bitmap = file_bitmap (read_u16 buf 2)\<rparr>)"

record FPSetForkParms =
  sf_fork_ref_num :: u16
  sf_file_bitmap :: u16
  sf_data_fork_length :: "u32 option"
  sf_resource_fork_length :: "u32 option"

text \<open>A parameter the bitmap announces, and the offset behind it.\<close>

definition opt_param :: "u16 \<Rightarrow> nat \<Rightarrow> nat \<Rightarrow> (nat \<Rightarrow> 'a) \<Rightarrow> bytes \<Rightarrow> nat \<Rightarrow> AfpError + ('a option \<times> nat)" where
  "opt_param bitmap i n read buf offset =
     (if bit bitmap i
      then if length buf < offset + n then Inl InvalidSize else Inr (Some (read offset), offset + n)
      else Inr (None, offset))"

definition set_fork_parms_parse :: "bytes \<Rightarrow> AfpError + FPSetForkParms" where
  "set_fork_parms_parse buf =
     (if length buf < 4 then Inl InvalidSize
      else
        let b = file_bitmap (read_u16 buf 2) in
        try_res (opt_param b DATA_FORK_LENGTH 4 (read_u32 buf) buf 4) (\<lambda>(data_len, offset).
        try_res (opt_param b RESOURCE_FORK_LENGTH 4 (read_u32 buf) buf offset) (\<lambda>(rsrc_len, _).
          Inr \<lparr>sf_fork_ref_num = read_u16 buf 0, sf_file_bitmap = b, sf_data_fork_length = data_len,
               sf_resource_fork_length = rsrc_len\<rparr>)))"

section \<open>Commands with a path\<close>

record FPEnumerate =
  en_volume_id :: u16
  en_directory_id :: u32
  en_file_bitmap :: u16
  en_directory_bitmap :: u16
  en_req_count :: u16
  en_start_index :: u16
  en_max_reply_size :: u16
  en_path :: MacString

definition enumerate_parse :: "MacRoman \<Rightarrow> bytes \<Rightarrow> AfpError + FPEnumerate" where
  "enumerate_parse mr buf =
     (if length buf < 17 then Inl InvalidSize
      else try_res (ms_try_from mr (drop 17 buf)) (\<lambda>path. Inr \<lparr>en_volume_id = read_u16 buf 0, en_directory_id = read_u32 buf 2, en_file_bitmap = file_bitmap (read_u16 buf 6), en_directory_bitmap = directory_bitmap (read_u16 buf 8), en_req_count = read_u16 buf 10, en_start_index = read_u16 buf 12, en_max_reply_size = read_u16 buf 14, en_path = path\<rparr>))"

record FPDelete =
  de_volume_id :: u16
  de_directory_id :: u32
  de_path :: MacString

definition delete_parse :: "MacRoman \<Rightarrow> bytes \<Rightarrow> AfpError + FPDelete" where
  "delete_parse mr buf =
     (if length buf < 7 then Inl InvalidSize
      else try_res (ms_try_from mr (drop 7 buf)) (\<lambda>path. Inr \<lparr>de_volume_id = read_u16 buf 0, de_directory_id = read_u32 buf 2, de_path = path\<rparr>))"

record FPGetComment =
  gc_dt_ref_num :: u16
  gc_directory_id :: u32
  gc_path :: MacString

definition get_comment_parse :: "MacRoman \<Rightarrow> bytes \<Rightarrow> AfpError + FPGetComment" where
  "get_comment_parse mr buf =
     (if length buf < 7 then Inl InvalidSize
      else try_res (ms_try_from mr (drop 7 buf)) (\<lambda>path. Inr \<lparr>gc_dt_ref_num = read_u16 buf 0, gc_directory_id = read_u32 buf 2, gc_path = path\<rparr>))"

record FPRemoveComment =
  rc_directory_id :: u32
  rc_path :: MacString

definition remove_comment_parse :: "MacRoman \<Rightarrow> bytes \<Rightarrow> AfpError + FPRemoveComment" where
  "remove_comment_parse mr buf =
     (if length buf < 6 then Inl InvalidSize
      else try_res (ms_try_from mr (drop 6 buf)) (\<lambda>path. Inr \<lparr>rc_directory_id = read_u32 buf 1, rc_path = path\<rparr>))"

record FPAddAPPL =
  aa_dt_ref_num :: u16
  aa_file_creator :: bytes
  aa_tag :: u32
  aa_directory_id :: u32
  aa_path :: MacString

definition add_appl_parse :: "MacRoman \<Rightarrow> bytes \<Rightarrow> AfpError + FPAddAPPL" where
  "add_appl_parse mr buf =
     (if length buf < 16 then Inl InvalidSize
      else try_res (ms_try_from mr (drop 15 buf)) (\<lambda>path. Inr \<lparr>aa_dt_ref_num = read_u16 buf 0, aa_file_creator = take 4 (drop 2 buf), aa_tag = read_u32 buf 6, aa_directory_id = read_u32 buf 10, aa_path = path\<rparr>))"

record FPRemoveAPPL =
  ra_dt_ref_num :: u16
  ra_file_creator :: bytes
  ra_directory_id :: u32
  ra_path :: MacString

definition remove_appl_parse :: "MacRoman \<Rightarrow> bytes \<Rightarrow> AfpError + FPRemoveAPPL" where
  "remove_appl_parse mr buf =
     (if length buf < 12 then Inl InvalidSize
      else try_res (ms_try_from mr (drop 11 buf)) (\<lambda>path. Inr \<lparr>ra_dt_ref_num = read_u16 buf 0, ra_file_creator = take 4 (drop 2 buf), ra_directory_id = read_u32 buf 6, ra_path = path\<rparr>))"

record FPCreateDir =
  cd_volume_id :: u16
  cd_directory_id :: u32
  cd_path_type :: PathType
  cd_path :: MacString

definition create_dir_parse :: "MacRoman \<Rightarrow> bytes \<Rightarrow> AfpError + FPCreateDir" where
  "create_dir_parse mr buf =
     (if length buf < 8 then Inl InvalidSize
      else try_res (ms_try_from mr (drop 7 buf)) (\<lambda>path. Inr \<lparr>cd_volume_id = read_u16 buf 0, cd_directory_id = read_u32 buf 2, cd_path_type = path_type_from (buf ! 6), cd_path = path\<rparr>))"

record FPCreateFile =
  ci_create_flag :: CreateFlag
  ci_volume_id :: u16
  ci_directory_id :: u32
  ci_path_type :: PathType
  ci_path :: MacString

definition create_file_parse :: "MacRoman \<Rightarrow> bytes \<Rightarrow> AfpError + FPCreateFile" where
  "create_file_parse mr buf =
     (if length buf < 9 then Inl InvalidSize
      else try_res (ms_try_from mr (drop 8 buf)) (\<lambda>path. Inr \<lparr>ci_create_flag = create_flag_from (buf ! 0), ci_volume_id = read_u16 buf 1, ci_directory_id = read_u32 buf 3, ci_path_type = path_type_from (buf ! 7), ci_path = path\<rparr>))"

record FPOpenFork =
  of_volume_id :: u16
  of_directory_id :: u32
  of_file_bitmap :: u16
  of_access_mode :: u16
  of_path_type :: PathType
  of_path :: MacString

definition open_fork_parse :: "MacRoman \<Rightarrow> bytes \<Rightarrow> AfpError + FPOpenFork" where
  "open_fork_parse mr buf =
     (if length buf < 12 then Inl InvalidSize
      else try_res (ms_try_from mr (drop 11 buf)) (\<lambda>path. Inr \<lparr>of_volume_id = read_u16 buf 0, of_directory_id = read_u32 buf 2, of_file_bitmap = file_bitmap (read_u16 buf 6), of_access_mode = read_u16 buf 8, of_path_type = path_type_from (buf ! 10), of_path = path\<rparr>))"

record FPGetFileParms =
  gp_volume_id :: u16
  gp_directory_id :: u32
  gp_file_bitmap :: u16
  gp_path :: MacString

definition get_file_parms_parse :: "MacRoman \<Rightarrow> bytes \<Rightarrow> AfpError + FPGetFileParms" where
  "get_file_parms_parse mr buf =
     (if length buf < 10 then Inl InvalidSize
      else try_res (ms_try_from mr (drop 9 buf)) (\<lambda>path. Inr \<lparr>gp_volume_id = read_u16 buf 0, gp_directory_id = read_u32 buf 2, gp_file_bitmap = file_bitmap (read_u16 buf 6), gp_path = path\<rparr>))"

record FPGetDirParms =
  gd_volume_id :: u16
  gd_directory_id :: u32
  gd_dir_bitmap :: u16
  gd_path :: MacString

definition get_dir_parms_parse :: "MacRoman \<Rightarrow> bytes \<Rightarrow> AfpError + FPGetDirParms" where
  "get_dir_parms_parse mr buf =
     (if length buf < 10 then Inl InvalidSize
      else try_res (ms_try_from mr (drop 9 buf)) (\<lambda>path. Inr \<lparr>gd_volume_id = read_u16 buf 0, gd_directory_id = read_u32 buf 2, gd_dir_bitmap = directory_bitmap (read_u16 buf 6), gd_path = path\<rparr>))"

record FPGetFileDirParms =
  gx_volume_id :: u16
  gx_directory_id :: u32
  gx_file_bitmap :: u16
  gx_dir_bitmap :: u16
  gx_path_type :: PathType
  gx_path :: MacString

definition get_file_dir_parms_parse :: "MacRoman \<Rightarrow> bytes \<Rightarrow> AfpError + FPGetFileDirParms" where
  "get_file_dir_parms_parse mr buf =
     (if length buf < 12 then Inl InvalidSize
      else try_res (ms_try_from mr (drop 11 buf)) (\<lambda>path. Inr \<lparr>gx_volume_id = read_u16 buf 0, gx_directory_id = read_u32 buf 2, gx_file_bitmap = file_bitmap (read_u16 buf 6), gx_dir_bitmap = directory_bitmap (read_u16 buf 8), gx_path_type = path_type_from (buf ! 10), gx_path = path\<rparr>))"

record FPSetDirParms =
  sd_volume_id :: u16
  sd_directory_id :: u32
  sd_dir_bitmap :: u16
  sd_path :: MacString
  sd_attributes :: "u16 option"
  sd_finder_info :: "bytes option"
  sd_owner_id :: "u32 option"
  sd_group_id :: "u32 option"
  sd_owner_access :: "u8 option"
  sd_group_access :: "u8 option"
  sd_everyone_access :: "u8 option"
  sd_user_access :: "u8 option"

definition set_dir_parms_parse :: "MacRoman \<Rightarrow> bytes \<Rightarrow> AfpError + FPSetDirParms" where
  "set_dir_parms_parse mr buf =
     (if length buf < 9 then Inl InvalidSize
      else
        let b = directory_bitmap (read_u16 buf 6) in
        try_res (ms_try_from mr (drop 9 buf)) (\<lambda>path.
        try_res (opt_param b ATTRIBUTES 2 (\<lambda>o1. file_attributes (read_u16 buf o1)) buf (9 + ms_byte_len mr path)) (\<lambda>(attributes, offset).
        try_res (opt_param b FINDER_INFO 32 (\<lambda>o1. take 32 (drop o1 buf)) buf offset) (\<lambda>(info, offset).
        try_res (opt_param b OWNER_ID 4 (read_u32 buf) buf offset) (\<lambda>(owner, offset).
        try_res (opt_param b GROUP_ID 4 (read_u32 buf) buf offset) (\<lambda>(group, offset).
        try_res (opt_param b ACCESS_RIGHTS 4 (\<lambda>o1 i. access_rights (buf ! (o1 + i))) buf offset) (\<lambda>(access, _).
          Inr \<lparr>sd_volume_id = read_u16 buf 0, sd_directory_id = read_u32 buf 2, sd_dir_bitmap = b, sd_path = path,
               sd_attributes = attributes, sd_finder_info = info, sd_owner_id = owner, sd_group_id = group,
               sd_owner_access = map_option (\<lambda>a. a 0) access, sd_group_access = map_option (\<lambda>a. a 1) access,
               sd_everyone_access = map_option (\<lambda>a. a 2) access, sd_user_access = map_option (\<lambda>a. a 3) access\<rparr>)))))))"

record FPAddComment =
  ac_dt_ref_num :: u16
  ac_directory_id :: u32
  ac_path :: MacString
  ac_comment :: bytes

definition add_comment_parse :: "MacRoman \<Rightarrow> bytes \<Rightarrow> AfpError + FPAddComment" where
  "add_comment_parse mr buf =
     (if length buf < 7 then Inl InvalidSize
      else
        try_res (if 7 < length buf then ms_try_from mr (drop 7 buf) else Inr (ms_new [])) (\<lambda>path.
          let end_offset = 7 + ms_byte_len mr path - 1;
              comment_offset = (if odd end_offset then end_offset + 1 else end_offset);
              comment =
                (if comment_offset < length buf
                 then
                   let comment_len = unat (buf ! comment_offset)
                   in if 0 < comment_len \<and> comment_offset + 1 + comment_len \<le> length buf
                      then take comment_len (drop (comment_offset + 1) buf) else []
                 else [])
          in Inr \<lparr>ac_dt_ref_num = read_u16 buf 0, ac_directory_id = read_u32 buf 2, ac_path = path, ac_comment = comment\<rparr>))"

text \<open>\<open>buf[param_offset..]\<close> behind a path padded to an even offset, or the panic of the slice.\<close>

definition params_behind :: "MacRoman \<Rightarrow> bytes \<Rightarrow> MacString \<Rightarrow> bytes option" where
  "params_behind mr buf path =
     (let end_offset = 9 + ms_byte_len mr path;
          param_offset = (if odd end_offset then end_offset + 1 else end_offset)
      in if length buf < param_offset then None else Some (drop param_offset buf))"

record FPSetFileParms =
  sl_volume_id :: u16
  sl_directory_id :: u32
  sl_file_bitmap :: u16
  sl_path :: MacString
  sl_params :: bytes

definition set_file_parms_parse :: "MacRoman \<Rightarrow> bytes \<Rightarrow> (AfpError + FPSetFileParms) option" where
  "set_file_parms_parse mr buf =
     (if length buf < 10 then Some (Inl InvalidSize)
      else
        case ms_try_from mr (drop 9 buf) of
          Inl e \<Rightarrow> Some (Inl e)
        | Inr path \<Rightarrow>
            (case params_behind mr buf path of
               None \<Rightarrow> None
             | Some params \<Rightarrow>
                 Some (Inr \<lparr>sl_volume_id = read_u16 buf 0, sl_directory_id = read_u32 buf 2,
                            sl_file_bitmap = file_bitmap (read_u16 buf 6), sl_path = path, sl_params = params\<rparr>)))"

record FPSetFileDirParms =
  sx_volume_id :: u16
  sx_directory_id :: u32
  sx_file_bitmap :: u16
  sx_path_type :: PathType
  sx_path :: MacString
  sx_params :: bytes

definition set_file_dir_parms_parse :: "MacRoman \<Rightarrow> bytes \<Rightarrow> (AfpError + FPSetFileDirParms) option" where
  "set_file_dir_parms_parse mr buf =
     (if length buf < 10 then Some (Inl InvalidSize)
      else
        case ms_try_from mr (drop 9 buf) of
          Inl e \<Rightarrow> Some (Inl e)
        | Inr path \<Rightarrow>
            (case params_behind mr buf path of
               None \<Rightarrow> None
             | Some params \<Rightarrow>
                 Some (Inr \<lparr>sx_volume_id = read_u16 buf 0, sx_directory_id = read_u32 buf 2,
                            sx_file_bitmap = file_bitmap (read_u16 buf 6), sx_path_type = path_type_from (buf ! 8), sx_path = path,
                            sx_params = params\<rparr>)))"

section \<open>Commands with several paths\<close>

record FPRename =
  rn_volume_id :: u16
  rn_directory_id :: u32
  rn_path_type :: PathType
  rn_path :: MacString
  rn_new_name_path_type :: PathType
  rn_new_name :: MacString

definition rename_parse :: "MacRoman \<Rightarrow> bytes \<Rightarrow> AfpError + FPRename" where
  "rename_parse mr buf =
     (if length buf < 8 then Inl InvalidSize
      else
        try_res (ms_try_from mr (drop 7 buf)) (\<lambda>path.
          let type_offset = 7 + ms_byte_len mr path
          in if length buf \<le> type_offset then Inl InvalidSize
             else
               try_res (ms_try_from mr (drop (type_offset + 1) buf)) (\<lambda>new_name.
                 Inr \<lparr>rn_volume_id = read_u16 buf 0, rn_directory_id = read_u32 buf 2, rn_path_type = path_type_from (buf ! 6),
                      rn_path = path, rn_new_name_path_type = path_type_from (buf ! type_offset), rn_new_name = new_name\<rparr>)))"

text \<open>The optional new name at the end of a copy or a move.\<close>

definition new_name_at :: "MacRoman \<Rightarrow> bytes \<Rightarrow> nat \<Rightarrow> AfpError + (PathType \<times> MacString)" where
  "new_name_at mr buf type_offset =
     (if type_offset < length buf
      then
        let t = path_type_from (buf ! type_offset)
        in if type_offset + 1 < length buf
           then try_res (ms_try_from mr (drop (type_offset + 1) buf)) (\<lambda>name. Inr (t, name))
           else Inr (t, ms_new [])
      else Inr (LongName, ms_new []))"

record FPCopyFile =
  cp_src_volume_id :: u16
  cp_src_directory_id :: u32
  cp_dst_volume_id :: u16
  cp_dst_directory_id :: u32
  cp_src_path_type :: PathType
  cp_src_path :: MacString
  cp_dst_path_type :: PathType
  cp_dst_path :: MacString
  cp_new_name_path_type :: PathType
  cp_new_name :: MacString

definition copy_file_parse :: "MacRoman \<Rightarrow> bytes \<Rightarrow> AfpError + FPCopyFile" where
  "copy_file_parse mr buf =
     (if length buf < 14 then Inl InvalidSize
      else
        try_res (ms_try_from mr (drop 13 buf)) (\<lambda>src_path.
          let dst_offset = 13 + ms_byte_len mr src_path
          in if length buf \<le> dst_offset then Inl InvalidSize
             else
               try_res (ms_try_from mr (drop (dst_offset + 1) buf)) (\<lambda>dst_path.
               try_res (new_name_at mr buf (dst_offset + 1 + ms_byte_len mr dst_path)) (\<lambda>(new_type, new_name).
                 Inr \<lparr>cp_src_volume_id = read_u16 buf 0, cp_src_directory_id = read_u32 buf 2, cp_dst_volume_id = read_u16 buf 6,
                      cp_dst_directory_id = read_u32 buf 8, cp_src_path_type = path_type_from (buf ! 12), cp_src_path = src_path,
                      cp_dst_path_type = path_type_from (buf ! dst_offset), cp_dst_path = dst_path,
                      cp_new_name_path_type = new_type, cp_new_name = new_name\<rparr>))))"

record FPMoveAndRename =
  mv_volume_id :: u16
  mv_src_directory_id :: u32
  mv_dst_directory_id :: u32
  mv_src_path_type :: PathType
  mv_src_path :: MacString
  mv_dst_path_type :: PathType
  mv_dst_path :: MacString
  mv_new_name_path_type :: PathType
  mv_new_name :: MacString

definition move_and_rename_parse :: "MacRoman \<Rightarrow> bytes \<Rightarrow> AfpError + FPMoveAndRename" where
  "move_and_rename_parse mr buf =
     (if length buf < 12 then Inl InvalidSize
      else
        try_res (ms_try_from mr (drop 11 buf)) (\<lambda>src_path.
          let dst_offset = 11 + ms_byte_len mr src_path
          in if length buf \<le> dst_offset then Inl InvalidSize
             else
               try_res (ms_try_from mr (drop (dst_offset + 1) buf)) (\<lambda>dst_path.
               try_res (new_name_at mr buf (dst_offset + 1 + ms_byte_len mr dst_path)) (\<lambda>(new_type, new_name).
                 Inr \<lparr>mv_volume_id = read_u16 buf 0, mv_src_directory_id = read_u32 buf 2, mv_dst_directory_id = read_u32 buf 6,
                      mv_src_path_type = path_type_from (buf ! 10), mv_src_path = src_path,
                      mv_dst_path_type = path_type_from (buf ! dst_offset), mv_dst_path = dst_path,
                      mv_new_name_path_type = new_type, mv_new_name = new_name\<rparr>))))"

end
