(* ===== verification/Afp_Forks.thy ===== *)
theory Afp_Forks
  imports Afp_Volume Afp_Commands
begin

text \<open>
  Open forks (src/tailtalk/src/afp/volume.rs): reading, writing and resizing through a cached position, flushing the forks that
  were written, byte-range locks, and closing.
\<close>

definition node_fork :: "ForkType \<Rightarrow> 'h Node \<Rightarrow> 'h option" where
  "node_fork ft n = (case ft of ForkData \<Rightarrow> nd_data_fork n | ForkResource \<Rightarrow> nd_resource_fork n)"

definition set_node_fork :: "ForkType \<Rightarrow> 'h option \<Rightarrow> 'h Node \<Rightarrow> 'h Node" where
  "set_node_fork ft h n = (case ft of ForkData \<Rightarrow> n\<lparr>nd_data_fork := h\<rparr> | ForkResource \<Rightarrow> n\<lparr>nd_resource_fork := h\<rparr>)"

definition set_pos :: "u16 \<Rightarrow> nat option \<Rightarrow> ('h, 't, 'w) Volume \<Rightarrow> ('h, 't, 'w) Volume" where
  "set_pos fork_id p v = v\<lparr>vo_fork_pos := (vo_fork_pos v)(fork_id := p)\<rparr>"

definition mark_dirty :: "u32 \<times> ForkType \<Rightarrow> ('h, 't, 'w) Volume \<Rightarrow> ('h, 't, 'w) Volume" where
  "mark_dirty key v = v\<lparr>vo_dirty := Set.insert key (vo_dirty v)\<rparr>"

text \<open>The node and handle of a fork, and the seek both directions make when the handle is not known to be in position.\<close>

definition fork_file :: "u16 \<Rightarrow> AfpError \<Rightarrow> AfpError \<Rightarrow> (('h, 't, 'w) Volume, u32 \<times> ForkType \<times> 'h) action" where
  "fork_file fork_id no_fork no_handle =
     bind (look (\<lambda>v. vo_fork_refs v fork_id) no_fork) (\<lambda>(node_id, fork_type).
     bind (look (\<lambda>v. vo_nodes v node_id) ObjectNotFound) (\<lambda>node.
     bind (look (\<lambda>_. node_fork fork_type node) no_handle) (\<lambda>file.
       ret (node_id, fork_type, file))))"

definition seek_fork :: "('h, 't, 'w) Env \<Rightarrow> u16 \<Rightarrow> 'h \<Rightarrow> nat \<Rightarrow> AfpError \<Rightarrow> (('h, 't, 'w) Volume, unit) action" where
  "seek_fork env fork_id file offset e =
     bind (reads (\<lambda>v. vo_fork_pos v fork_id)) (\<lambda>pos.
       if pos = Some offset then ret ()
       else
         bind (host (\<lambda>w. h_seek (ev_host env) w file offset)) (\<lambda>ok.
           if ok then update (set_pos fork_id (Some offset))
           else bind (update (set_pos fork_id None)) (\<lambda>_. refuse e)))"

section \<open>Reading\<close>

text \<open>
  Reading until the buffer is full or the file ends, and reading up to a byte that matches. The result is what the reply takes
  of the buffer, and whether the file ended.
\<close>

definition position :: "('a \<Rightarrow> bool) \<Rightarrow> 'a list \<Rightarrow> nat option" where
  "position P xs = (let k = length (takeWhile (\<lambda>x. \<not> P x) xs) in if k < length xs then Some k else None)"

function read_full :: "('w, 'h) Host \<Rightarrow> 'h \<Rightarrow> nat \<Rightarrow> bytes \<Rightarrow> 'w \<Rightarrow> (bytes \<times> bool) option \<times> 'w" where
  "read_full H file max_bytes got w =
     (if max_bytes \<le> length got then (Some (got, False), w)
      else
        case h_read H w file (max_bytes - length got) of
          (None, w') \<Rightarrow> (None, w')
        | (Some [], w') \<Rightarrow> (Some (got, True), w')
        | (Some (b # bs), w') \<Rightarrow> read_full H file max_bytes (got @ b # bs) w')"
  by pat_completeness auto

termination by (relation "measure (\<lambda>(H, file, max_bytes, got, w). max_bytes - length got)") auto

function read_line :: "('w, 'h) Host \<Rightarrow> 'h \<Rightarrow> (u8 \<Rightarrow> bool) \<Rightarrow> nat \<Rightarrow> bytes \<Rightarrow> 'w \<Rightarrow> (bytes \<times> bool) option \<times> 'w" where
  "read_line H file newline max_bytes got w =
     (if max_bytes \<le> length got then (Some (got, False), w)
      else
        case h_read H w file (max_bytes - length got) of
          (None, w') \<Rightarrow> (None, w')
        | (Some [], w') \<Rightarrow> (Some (got, True), w')
        | (Some (b # bs), w') \<Rightarrow>
            (case position newline (b # bs) of
               Some i \<Rightarrow> (Some (got @ take (i + 1) (b # bs), False), w')
             | None \<Rightarrow> read_line H file newline max_bytes (got @ b # bs) w'))"
  by pat_completeness auto

termination by (relation "measure (\<lambda>(H, file, newline, max_bytes, got, w). max_bytes - length got)") auto

declare read_full.simps [simp del] read_line.simps [simp del]

definition read_fork :: "('h, 't, 'w) Env \<Rightarrow> FPRead \<Rightarrow> nat \<Rightarrow> (('h, 't, 'w) Volume, bytes \<times> bool) action" where
  "read_fork env req output_len =
     (let fork_id = rd_fork_id req; start_offset = unat (rd_offset req);
          max_bytes = min (unat (rd_req_count req)) output_len;
          failed = bind (update (set_pos fork_id None)) (\<lambda>_. refuse AccessDenied)
      in bind (fork_file fork_id ObjectNotFound ObjectNotFound) (\<lambda>(_, _, file).
         bind (seek_fork env fork_id file start_offset AccessDenied) (\<lambda>_.
         bind (if rd_newline_mask req \<noteq> 0
               then
                 bind (host (read_line (ev_host env) file (byte_matches_newline req) max_bytes [])) (\<lambda>r.
                   case r of
                     None \<Rightarrow> failed
                   | Some (data, is_eof) \<Rightarrow>
                       bind (host (\<lambda>w. h_seek (ev_host env) w file (start_offset + length data))) (\<lambda>ok.
                         if ok then ret (data, is_eof) else failed))
               else
                 bind (host (read_full (ev_host env) file max_bytes [])) (\<lambda>r.
                   case r of None \<Rightarrow> failed | Some (data, is_eof) \<Rightarrow> ret (data, is_eof))) (\<lambda>(data, is_eof).
         bind (update (set_pos fork_id (Some (start_offset + length data)))) (\<lambda>_. ret (data, is_eof))))))"

section \<open>Writing and resizing\<close>

definition AFP_ACCESS_WRITE :: u16 where "AFP_ACCESS_WRITE = 0x0002"

definition write_fork :: "('h, 't, 'w) Env \<Rightarrow> u16 \<Rightarrow> nat \<Rightarrow> bytes \<Rightarrow> (('h, 't, 'w) Volume, nat) action" where
  "write_fork env fork_id offset data =
     bind (reads (\<lambda>v. vo_fork_access v fork_id)) (\<lambda>access.
       if (case access of Some mode \<Rightarrow> mode \<noteq> 0 \<and> mode AND AFP_ACCESS_WRITE = 0 | None \<Rightarrow> False) then refuse AccessDenied
       else
         bind (fork_file fork_id AccessDenied AccessDenied) (\<lambda>(node_id, fork_type, file).
         bind (seek_fork env fork_id file offset MiscErr) (\<lambda>_.
         bind (host (\<lambda>w. h_write_all (ev_host env) w file data)) (\<lambda>ok.
         bind (update (mark_dirty (node_id, fork_type))) (\<lambda>_.
           if ok
           then bind (update (set_pos fork_id (Some (offset + length data)))) (\<lambda>_. ret (length data))
           else bind (update (set_pos fork_id None)) (\<lambda>_. refuse MiscErr))))))"

definition set_fork_parms :: "('h, 't, 'w) Env \<Rightarrow> FPSetForkParms \<Rightarrow> (('h, 't, 'w) Volume, unit) action" where
  "set_fork_parms env cmd =
     bind (look (\<lambda>v. vo_fork_refs v (sf_fork_ref_num cmd)) ObjectNotFound) (\<lambda>(node_id, fork_type).
     bind (look (\<lambda>v. vo_nodes v node_id) ObjectNotFound) (\<lambda>node.
       let (own, other) =
             (case fork_type of
                ForkData \<Rightarrow> (sf_data_fork_length cmd, sf_resource_fork_length cmd)
              | ForkResource \<Rightarrow> (sf_resource_fork_length cmd, sf_data_fork_length cmd))
       in if other \<noteq> None then refuse BitmapErr
          else
            case own of
              None \<Rightarrow> ret ()
            | Some len \<Rightarrow>
                bind (look (\<lambda>_. node_fork fork_type node) ObjectNotFound) (\<lambda>file.
                bind (host (\<lambda>w. h_set_len (ev_host env) w file (unat len))) (\<lambda>ok.
                  if ok
                  then bind (update (set_pos (sf_fork_ref_num cmd) None)) (\<lambda>_. update (mark_dirty (node_id, fork_type)))
                  else refuse AccessDenied))))"

section \<open>Flushing\<close>

fun sync_each :: "('h, 't, 'w) Env \<Rightarrow> (u32 \<times> ForkType) list \<Rightarrow> Fault + unit \<Rightarrow> ('h, 't, 'w) Volume \<Rightarrow> (Fault + unit) \<times> ('h, 't, 'w) Volume" where
  "sync_each env [] result v = (result, v)"
| "sync_each env ((node_id, fork_type) # keys) result v =
     (case vo_nodes v node_id of
        None \<Rightarrow> sync_each env keys result v
      | Some node \<Rightarrow>
          (case node_fork fork_type node of
             None \<Rightarrow> sync_each env keys result v
           | Some file \<Rightarrow>
               (let (ok, w) = h_sync_data (ev_host env) (vo_world v) file; v' = v\<lparr>vo_world := w\<rparr>
                in if ok then sync_each env keys result v'
                   else sync_each env keys (Inl (Refused AccessDenied)) (mark_dirty (node_id, fork_type) v'))))"

definition sync_volume :: "('h, 't, 'w) Env \<Rightarrow> (('h, 't, 'w) Volume, unit) action" where
  "sync_volume env v =
     (if vo_dirty v = {} then (Inr (), v)
      else sync_each env (ev_fork_order env (vo_dirty v)) (Inr ()) (v\<lparr>vo_dirty := {}\<rparr>))"

definition sync_fork :: "('h, 't, 'w) Env \<Rightarrow> u16 \<Rightarrow> (('h, 't, 'w) Volume, unit) action" where
  "sync_fork env fork_id =
     bind (reads (\<lambda>v. vo_fork_refs v fork_id)) (\<lambda>entry.
       case entry of
         None \<Rightarrow> ret ()
       | Some (node_id, fork_type) \<Rightarrow>
           bind (look (\<lambda>v. vo_nodes v node_id) ObjectNotFound) (\<lambda>node.
           bind (case node_fork fork_type node of
                   None \<Rightarrow> ret ()
                 | Some file \<Rightarrow> bind (host (\<lambda>w. h_sync_data (ev_host env) w file)) (\<lambda>ok. if ok then ret () else refuse AccessDenied)) (\<lambda>_.
             update (\<lambda>v. v\<lparr>vo_dirty := vo_dirty v - {(node_id, fork_type)}\<rparr>))))"

section \<open>Closing\<close>

definition close_handle :: "('h, 't, 'w) Env \<Rightarrow> u32 \<Rightarrow> ForkType \<Rightarrow> ('h, 't, 'w) Volume \<Rightarrow> ('h, 't, 'w) Volume" where
  "close_handle env node_id fork_type v =
     (case vo_nodes v node_id of
        None \<Rightarrow> v
      | Some node \<Rightarrow>
          (case node_fork fork_type node of
             None \<Rightarrow> v
           | Some file \<Rightarrow>
               v\<lparr>vo_nodes := (vo_nodes v)(node_id \<mapsto> set_node_fork fork_type None node),
                 vo_world := snd (h_sync_data (ev_host env) (vo_world v) file)\<rparr>))"

definition close_fork :: "('h, 't, 'w) Env \<Rightarrow> u16 \<Rightarrow> (('h, 't, 'w) Volume, unit) action" where
  "close_fork env fork_id =
     bind (look (\<lambda>v. vo_fork_refs v fork_id) ObjectNotFound) (\<lambda>(node_id, fork_type).
     bind (look (\<lambda>v. vo_nodes v node_id) ObjectNotFound) (\<lambda>_.
       update (\<lambda>v. (close_handle env node_id fork_type v)
         \<lparr>vo_fork_refs := (vo_fork_refs v)(fork_id := None), vo_fork_access := (vo_fork_access v)(fork_id := None),
          vo_fork_pos := (vo_fork_pos v)(fork_id := None), vo_dirty := vo_dirty v - {(node_id, fork_type)},
          vo_fork_locks := (vo_fork_locks v)(fork_id := None)\<rparr>)))"

section \<open>Byte-range locks\<close>

text \<open>64-bit saturating arithmetic. Negating the least 32-bit offset overflows.\<close>

definition U64_MAX :: nat where "U64_MAX = 2 ^ 64 - 1"

definition sat_add :: "nat \<Rightarrow> nat \<Rightarrow> nat" where
  "sat_add a b = min (a + b) U64_MAX"

definition lock_start :: "bool \<Rightarrow> FPByteRangeLock \<Rightarrow> nat \<Rightarrow> nat option" where
  "lock_start checks req fork_size =
     (if \<not> bit (bl_flags req) 7 then Some (if bl_offset req < 0 then 0 else nat (bl_offset req))
      else if 0 \<le> bl_offset req then Some (sat_add fork_size (nat (bl_offset req)))
      else if bl_offset req = - (2 ^ 31) then (if checks then None else Some (fork_size - (2 ^ 64 - 2 ^ 31)))
      else Some (fork_size - nat (- bl_offset req)))"

fun lock_conflict :: "nat \<Rightarrow> nat \<Rightarrow> (nat \<times> nat) list \<Rightarrow> bool" where
  "lock_conflict lo hi [] = False"
| "lock_conflict lo hi ((off, len) # locks) = (lo < sat_add off len \<and> off < hi \<or> lock_conflict lo hi locks)"

definition byte_range_lock :: "bool \<Rightarrow> ('h, 't, 'w) Env \<Rightarrow> FPByteRangeLock \<Rightarrow> (('h, 't, 'w) Volume, u32) action" where
  "byte_range_lock checks env req =
     bind (look (\<lambda>v. vo_fork_refs v (bl_fork_id req)) ObjectNotFound) (\<lambda>(node_id, _).
     bind (look (\<lambda>v. vo_nodes v node_id) ObjectNotFound) (\<lambda>node.
     bind (look (\<lambda>v. h_metadata (ev_host env) (vo_world v) (vo_path v @ nd_path node)) ObjectNotFound) (\<lambda>metadata.
       case lock_start checks req (md_len metadata) of
         None \<Rightarrow> (\<lambda>v. (Inl Panicked, v))
       | Some start \<Rightarrow>
           (let len = unat (bl_length req); lock_end = sat_add start len in
            bind (reads (\<lambda>v. case vo_fork_locks v (bl_fork_id req) of None \<Rightarrow> [] | Some locks \<Rightarrow> locks)) (\<lambda>locks.
            bind (update (\<lambda>v. v\<lparr>vo_fork_locks := (vo_fork_locks v)(bl_fork_id req \<mapsto> locks)\<rparr>)) (\<lambda>_.
              if \<not> bit (bl_flags req) 0
              then
                if lock_conflict start lock_end locks then refuse RangeOverlap
                else
                  bind (update (\<lambda>v. v\<lparr>vo_fork_locks := (vo_fork_locks v)(bl_fork_id req \<mapsto> locks @ [(start, len)])\<rparr>)) (\<lambda>_.
                    ret (word_of_nat start))
              else if (start, len) \<in> set locks
              then
                bind (update (\<lambda>v. v\<lparr>vo_fork_locks := (vo_fork_locks v)(bl_fork_id req \<mapsto> remove1 (start, len) locks)\<rparr>)) (\<lambda>_. ret 0)
              else refuse RangeNotLocked))))))"

end
