(* ===== verification/Afp_Parms.thy ===== *)
theory Afp_Parms
  imports Afp_Forks "HOL-Library.Product_Lexorder"
begin

text \<open>
  Parameters of files, directories and the volume (src/tailtalk/src/afp/volume.rs): Finder information kept in an extended
  attribute or guessed from the file, the packed replies, setting parameters, opening forks, and listing directories.
\<close>

section \<open>Finder information\<close>

definition FINDER_INFO_XATTR :: bytes where "FINDER_INFO_XATTR = ascii ''user.com.apple.FinderInfo''"

record TypeCreator =
  tc_file_type :: bytes
  tc_creator :: bytes

definition type_creator :: "string \<Rightarrow> string \<Rightarrow> TypeCreator" where
  "type_creator t c = \<lparr>tc_file_type = ascii t, tc_creator = ascii c\<rparr>"

definition mime_types :: "(bytes \<times> TypeCreator) list" where
  "mime_types =
     [(ascii ''text/plain'', type_creator ''TEXT'' ''ttxt''), (ascii ''application/x-stuffit'', type_creator ''SIT!'' ''SIT!''),
      (ascii ''application/x-stuffit-x'', type_creator ''APPL'' ''aust''),
      (ascii ''application/x-dc42-floppy-image'', type_creator ''dImg'' ''dCpy''), (ascii ''application/pdf'', type_creator ''PDF '' ''CARO''),
      (ascii ''application/mac-binhex40'', type_creator ''TEXT'' ''BnHq''), (ascii ''application/mac-binhex'', type_creator ''TEXT'' ''BNHQ''),
      (ascii ''application/x-apple-diskimage'', type_creator ''devi'' ''????''),
      (ascii ''application/x-macbinary'', type_creator ''BINA'' ''PSPT''), (ascii ''application/x-dfont'', type_creator ''dfil'' ''????''),
      (ascii ''application/x-apple-rsr'', type_creator ''rsrc'' ''????''), (ascii ''application/x-appleworks3'', type_creator ''AWWP'' ''pdos''),
      (ascii ''image/jpeg'', type_creator ''JPEG'' ''8BIM''), (ascii ''image/png'', type_creator ''PNGf'' ''ogle''),
      (ascii ''image/x-pict'', type_creator ''PICT'' ''ttxt'')]"

definition infer_type_creator_from_content :: "('w, 'h) Host \<Rightarrow> 'w \<Rightarrow> path \<Rightarrow> TypeCreator option" where
  "infer_type_creator_from_content H w p = (case h_mime_type H w p of None \<Rightarrow> None | Some mime \<Rightarrow> map_of mime_types mime)"

text \<open>\<open>Path::file_stem\<close> and \<open>Path::extension\<close> of the last component; a leading dot does not start an extension.\<close>

definition split_extension :: "bytes \<Rightarrow> bytes \<times> bytes option" where
  "split_extension name =
     (case rposition (\<lambda>b. b = DOT) name of
        None \<Rightarrow> (name, None)
      | Some i \<Rightarrow> if i = 0 \<or> name = ascii ''..'' then (name, None) else (take i name, Some (drop (i + 1) name)))"

definition PI_LETTER :: bytes where "PI_LETTER = [0xCF, 0x80]"

definition infer_type_creator_from_extension :: "path \<Rightarrow> TypeCreator option" where
  "infer_type_creator_from_extension p =
     (if p = [] then None
      else
        let (stem, extension) = split_extension (last p);
            ext = (case extension of None \<Rightarrow> None | Some e \<Rightarrow> if utf8_valid e then Some (map lower_byte e) else None)
        in case ext of
             None \<Rightarrow> None
           | Some e \<Rightarrow>
               if e = PI_LETTER then Some (type_creator ''MPST'' ''MPS '')
               else if e = ascii ''rsrc'' \<and> utf8_valid stem \<and> suffix (DOT # PI_LETTER) stem then Some (type_creator ''rsrc'' ''MPS '')
               else map_of
                 [(ascii ''txt'', type_creator ''TEXT'' ''ttxt''), (ascii ''sit'', type_creator ''SIT!'' ''SIT!''),
                  (ascii ''sea'', type_creator ''APPL'' ''aust''), (ascii ''img'', type_creator ''dImg'' ''dCpy''),
                  (ascii ''dsk'', type_creator ''dImg'' ''dCpy''), (ascii ''pdf'', type_creator ''PDF '' ''CARO''),
                  (ascii ''hqx'', type_creator ''TEXT'' ''BnHq'')] e)"

definition read_finder_info :: "('w, 'h) Host \<Rightarrow> 'w \<Rightarrow> path \<Rightarrow> FinderInfo option" where
  "read_finder_info H w p =
     (case h_xattr_get H w p FINDER_INFO_XATTR of
        None \<Rightarrow> None
      | Some (Some data) \<Rightarrow> Some (if 32 \<le> length data then finder_from_bytes (take 32 data) else finder_default)
      | Some None \<Rightarrow> Some finder_default)"

definition get_finder_info :: "('h, 't, 'w) Env \<Rightarrow> ('h, 't, 'w) Volume \<Rightarrow> 'h Node \<Rightarrow> FinderInfo" where
  "get_finder_info env v node =
     (let H = ev_host env; w = vo_world v; p = vo_path v @ nd_path node;
          stored = (case read_finder_info H w p of None \<Rightarrow> finder_default | Some info \<Rightarrow> info)
      in if stored = finder_default \<and> \<not> nd_is_dir node
         then
           let guess = (case infer_type_creator_from_content H w p of None \<Rightarrow> infer_type_creator_from_extension p | Some tc \<Rightarrow> Some tc)
           in case guess of
                None \<Rightarrow> stored
              | Some tc \<Rightarrow> finder_default\<lparr>fi_type := tc_file_type tc, fi_creator := tc_creator tc\<rparr>
         else stored)"

definition set_finder_info :: "('h, 't, 'w) Env \<Rightarrow> 'h Node \<Rightarrow> FinderInfo \<Rightarrow> (('h, 't, 'w) Volume, unit) action" where
  "set_finder_info env node info =
     bind (reads vo_path) (\<lambda>root.
     bind (host (\<lambda>w. h_xattr_set (ev_host env) w (root @ nd_path node) FINDER_INFO_XATTR (finder_bytes info))) (\<lambda>ok.
       if ok then ret () else refuse AccessDenied))"

definition finder_attributes :: "FinderInfo \<Rightarrow> u16" where
  "finder_attributes info = (if fi_flags info AND IS_INVISIBLE = IS_INVISIBLE then 0x0001 else 0)"

definition set_attributes :: "('h, 't, 'w) Env \<Rightarrow> 'h Node \<Rightarrow> u16 \<Rightarrow> (('h, 't, 'w) Volume, unit) action" where
  "set_attributes env node attributes =
     bind (reads (\<lambda>v. get_finder_info env v node)) (\<lambda>info.
       set_finder_info env node
         (info\<lparr>fi_flags := (if attributes AND 0x0001 \<noteq> 0 then fi_flags info OR IS_INVISIBLE else fi_flags info AND NOT IS_INVISIBLE)\<rparr>))"

section \<open>Packed parameters\<close>

text \<open>
  A reply is a run of fields in bit order. The name is a field of two bytes holding the offset of a Pascal string behind the
  fields. A field whose value cannot be had ends the reply with an error; \<open>fields_left\<close> is what the buffer holds then.
\<close>

datatype parm_field = Plain bytes | Named bytes | Unavailable

fun write_fields :: "nat \<Rightarrow> parm_field list \<Rightarrow> bytes \<Rightarrow> nat \<Rightarrow> nat \<Rightarrow> Fault + bytes \<times> nat" where
  "write_fields name_at [] output offset extra = Inr (output, offset + extra)"
| "write_fields name_at (Plain d # fs) output offset extra =
     (if length output < offset + length d then Inl Panicked
      else write_fields name_at fs (put offset d output) (offset + length d) extra)"
| "write_fields name_at (Named name # fs) output offset extra =
     (if length output < offset + 2 \<or> length output \<le> name_at \<or> length output < name_at + 1 + length name then Inl Panicked
      else write_fields name_at fs
             (put name_at (word_of_nat (length name) # name) (put offset (u16_bytes (word_of_nat name_at)) output))
             (offset + 2) (extra + (length name + 1)))"
| "write_fields name_at (Unavailable # fs) output offset extra = Inl (Refused ObjectNotFound)"

fun fields_left :: "nat \<Rightarrow> parm_field list \<Rightarrow> bytes \<Rightarrow> nat \<Rightarrow> bytes" where
  "fields_left name_at [] output offset = output"
| "fields_left name_at (Plain d # fs) output offset = fields_left name_at fs (put offset d output) (offset + length d)"
| "fields_left name_at (Named name # fs) output offset =
     fields_left name_at fs
       (put name_at (word_of_nat (length name) # name) (put offset (u16_bytes (word_of_nat name_at)) output)) (offset + 2)"
| "fields_left name_at (Unavailable # fs) output offset = output"

definition field_at :: "u16 \<Rightarrow> nat \<Rightarrow> parm_field \<Rightarrow> parm_field list" where
  "field_at bitmap i f = (if bit bitmap i then [f] else [])"

definition clamp_len_u32 :: "nat \<Rightarrow> u32" where
  "clamp_len_u32 len = (if 2 ^ 32 - 1 < len then - 1 else word_of_nat len)"

definition resolve_resource_fork_path :: "('h, 't, 'w) Env \<Rightarrow> ('h, 't, 'w) Volume \<Rightarrow> path \<Rightarrow> path \<times> u32" where
  "resolve_resource_fork_path env v relative_path =
     (let sidecar = rsrc_path (vo_path v) relative_path
      in case h_metadata (ev_host env) (vo_world v) sidecar of
           Some m \<Rightarrow> (sidecar, if 0 < md_len m then clamp_len_u32 (md_len m) else 0)
         | None \<Rightarrow> (sidecar, 0))"

definition file_fields :: "('h, 't, 'w) Env \<Rightarrow> ('h, 't, 'w) Volume \<Rightarrow> 'h Node \<Rightarrow> Metadata \<Rightarrow> u16 \<Rightarrow> parm_field list" where
  "file_fields env v node m b =
     (let info = get_finder_info env v node
      in field_at b ATTRIBUTES (Plain (u16_bytes (finder_attributes info)))
       @ field_at b PARENT_DIR_ID (Plain (u32_bytes (nd_parent_id node)))
       @ field_at b CREATE_DATE (Plain (u32_bytes (time_to_afp (creation_time m))))
       @ field_at b MODIFICATION_DATE (Plain (u32_bytes (time_to_afp (case md_modified m of Some t \<Rightarrow> t | None \<Rightarrow> creation_time m))))
       @ field_at b BACKUP_DATE (Plain (u32_bytes AFP_DATE_NEVER))
       @ field_at b FINDER_INFO (Plain (finder_bytes info))
       @ field_at b LONG_NAME (Named (mangle_name (ev_mac env) (nd_name node)))
       @ field_at b SHORT_NAME (Plain [0, 0])
       @ field_at b FILE_NUMBER (Plain (u32_bytes (nd_id node)))
       @ field_at b DATA_FORK_LENGTH (Plain (u32_bytes (clamp_len_u32 (md_len m))))
       @ field_at b RESOURCE_FORK_LENGTH (Plain (u32_bytes (snd (resolve_resource_fork_path env v (nd_path node)))))
       @ field_at b PRODOS_INFO (Plain (prodos_bytes (prodos_from_finder info))))"

definition node_file_parms :: "('h, 't, 'w) Env \<Rightarrow> ('h, 't, 'w) Volume \<Rightarrow> 'h Node \<Rightarrow> u16 \<Rightarrow> bytes \<Rightarrow> Fault + bytes \<times> nat" where
  "node_file_parms env v node b output =
     (case h_metadata (ev_host env) (vo_world v) (vo_path v @ nd_path node) of
        None \<Rightarrow> Inl (Refused ObjectNotFound)
      | Some m \<Rightarrow> write_fields (file_long_name_offset b) (file_fields env v node m b) output 0 0)"

definition node_at_path :: "('h, 't, 'w) Volume \<Rightarrow> path \<Rightarrow> 'h Node option" where
  "node_at_path v p = (case vo_path_to_id v p of None \<Rightarrow> None | Some i \<Rightarrow> vo_nodes v i)"

definition get_file_parms_resp :: "('h, 't, 'w) Env \<Rightarrow> ('h, 't, 'w) Volume \<Rightarrow> u16 \<Rightarrow> path \<Rightarrow> bytes \<Rightarrow> Fault + bytes \<times> nat" where
  "get_file_parms_resp env v b relative_path output =
     (case node_at_path v relative_path of None \<Rightarrow> Inl (Refused ObjectNotFound) | Some node \<Rightarrow> node_file_parms env v node b output)"

text \<open>The dates of a directory are those of the volume.\<close>

definition get_modified_at :: "('h, 't, 'w) Env \<Rightarrow> ('h, 't, 'w) Volume \<Rightarrow> u32" where
  "get_modified_at env v =
     (case h_metadata (ev_host env) (vo_world v) (vo_path v) of
        None \<Rightarrow> vo_created_at v
      | Some m \<Rightarrow> (case md_modified m of None \<Rightarrow> vo_created_at v | Some t \<Rightarrow> time_to_afp t))"

definition count_directory_entries :: "('h, 't, 'w) Env \<Rightarrow> ('h, 't, 'w) Volume \<Rightarrow> path \<Rightarrow> u16 option" where
  "count_directory_entries env v p =
     (case h_read_dir (ev_host env) (vo_world v) p of
        None \<Rightarrow> None
      | Some entries \<Rightarrow>
          if None \<in> set entries then None
          else Some (word_of_nat (min (2 ^ 16 - 1)
                 (length (filter (\<lambda>e. \<not> hidden_name (utf8_lossy (de_name (the e)))) entries)))))"

definition dir_fields :: "('h, 't, 'w) Env \<Rightarrow> ('h, 't, 'w) Volume \<Rightarrow> 'h Node \<Rightarrow> path \<Rightarrow> u16 \<Rightarrow> parm_field list" where
  "dir_fields env v node relative_path b =
     (let info = get_finder_info env v node
      in field_at b ATTRIBUTES (Plain (u16_bytes (finder_attributes info)))
       @ field_at b PARENT_DIR_ID (Plain (u32_bytes (nd_parent_id node)))
       @ field_at b CREATE_DATE (Plain (u32_bytes (vo_created_at v)))
       @ field_at b MODIFICATION_DATE (Plain (u32_bytes (get_modified_at env v)))
       @ field_at b BACKUP_DATE (Plain (u32_bytes AFP_DATE_NEVER))
       @ field_at b FINDER_INFO (Plain (finder_bytes info))
       @ field_at b LONG_NAME (Named (mangle_name (ev_mac env) (nd_name node)))
       @ field_at b SHORT_NAME (Plain [0, 0])
       @ field_at b DIR_ID (Plain (u32_bytes (nd_id node)))
       @ field_at b OFFSPRING_COUNT
           (case count_directory_entries env v (vo_path v @ relative_path) of None \<Rightarrow> Unavailable | Some n \<Rightarrow> Plain (u16_bytes n))
       @ field_at b OWNER_ID (Plain (u32_bytes 0))
       @ field_at b GROUP_ID (Plain (u32_bytes 0))
       @ field_at b ACCESS_RIGHTS (Plain (u32_bytes 0x87070707))
       @ field_at b PRODOS_INFO (Plain (prodos_bytes prodos_directory)))"

definition get_directory_parms_resp :: "('h, 't, 'w) Env \<Rightarrow> ('h, 't, 'w) Volume \<Rightarrow> u16 \<Rightarrow> path \<Rightarrow> bytes \<Rightarrow> Fault + bytes \<times> nat" where
  "get_directory_parms_resp env v b relative_path output =
     (case node_at_path v relative_path of
        None \<Rightarrow> Inl (Refused ObjectNotFound)
      | Some node \<Rightarrow> write_fields (dir_long_name_offset b) (dir_fields env v node relative_path b) output 0 0)"

definition get_fork_parms :: "('h, 't, 'w) Env \<Rightarrow> ('h, 't, 'w) Volume \<Rightarrow> u16 \<Rightarrow> u16 \<Rightarrow> bytes \<Rightarrow> Fault + bytes \<times> nat" where
  "get_fork_parms env v b fork_id output =
     (case vo_fork_refs v fork_id of
        None \<Rightarrow> Inl (Refused ObjectNotFound)
      | Some (node_id, _) \<Rightarrow>
          (case vo_nodes v node_id of None \<Rightarrow> Inl (Refused ObjectNotFound) | Some node \<Rightarrow> node_file_parms env v node b output))"

definition get_node_parms :: "('h, 't, 'w) Env \<Rightarrow> ('h, 't, 'w) Volume \<Rightarrow> u32 \<Rightarrow> u16 \<Rightarrow> u16 \<Rightarrow> bytes \<Rightarrow> Fault + bool \<times> bytes \<times> nat" where
  "get_node_parms env v node_id file_b dir_b output =
     (case vo_nodes v node_id of
        None \<Rightarrow> Inl (Refused ObjectNotFound)
      | Some node \<Rightarrow>
          if nd_is_dir node
          then try_res (get_directory_parms_resp env v dir_b (nd_path node) output) (\<lambda>r. Inr (True, r))
          else try_res (get_file_parms_resp env v file_b (nd_path node) output) (\<lambda>r. Inr (False, r)))"

section \<open>Setting parameters\<close>

definition take_param :: "bytes \<Rightarrow> nat \<Rightarrow> nat \<Rightarrow> Fault + bytes \<times> nat" where
  "take_param data n offset = (if offset + n \<le> length data then Inr (take n (drop offset data), offset + n) else Inl (Refused ParamError))"

definition pure_res :: "Fault + 'a \<Rightarrow> ('s, 'a) action" where
  "pure_res r = (\<lambda>s. (r, s))"

text \<open>A parameter that is stepped over.\<close>

definition skip_param :: "bool \<Rightarrow> bytes \<Rightarrow> nat \<Rightarrow> nat \<Rightarrow> ('s, nat) action" where
  "skip_param wanted data n offset = (if wanted then bind (pure_res (take_param data n offset)) (\<lambda>(_, offset). ret offset) else ret offset)"

definition set_node_parms :: "('h, 't, 'w) Env \<Rightarrow> u32 \<Rightarrow> u16 \<Rightarrow> u16 \<Rightarrow> bytes \<Rightarrow> (('h, 't, 'w) Volume, unit) action" where
  "set_node_parms env node_id file_b dir_b data =
     (if node_id = 1 then refuse ObjectNotFound
      else
        bind (look (\<lambda>v. vo_nodes v node_id) ObjectNotFound) (\<lambda>node.
        let is_dir = nd_is_dir node; wants = (\<lambda>i. bit (if is_dir then dir_b else file_b) i) in
        bind (if wants ATTRIBUTES
              then bind (pure_res (take_param data 2 0)) (\<lambda>(raw, offset).
                   bind (set_attributes env node (read_u16 raw 0)) (\<lambda>_. ret offset))
              else ret 0) (\<lambda>offset.
        bind (skip_param (wants CREATE_DATE) data 4 offset) (\<lambda>offset.
        bind (skip_param (wants MODIFICATION_DATE) data 4 offset) (\<lambda>offset.
        bind (skip_param (wants BACKUP_DATE) data 4 offset) (\<lambda>offset.
        bind (if wants FINDER_INFO
              then bind (pure_res (take_param data 32 offset)) (\<lambda>(raw, offset).
                   bind (set_finder_info env node (finder_from_bytes raw)) (\<lambda>_. ret offset))
              else ret offset) (\<lambda>offset.
        bind (skip_param (is_dir \<and> bit dir_b OWNER_ID) data 4 offset) (\<lambda>offset.
        bind (skip_param (is_dir \<and> bit dir_b GROUP_ID) data 4 offset) (\<lambda>offset.
        bind (skip_param (is_dir \<and> bit dir_b ACCESS_RIGHTS) data 4 offset) (\<lambda>offset.
          if wants PRODOS_INFO
          then bind (pure_res (take_param data PRODOS_INFO_LEN offset)) (\<lambda>(raw, _).
            let prodos = prodos_from_bytes raw
            in if is_dir
               then if pd_file_type prodos \<noteq> pd_file_type prodos_directory then refuse AccessDenied else ret ()
               else bind (reads (\<lambda>v. get_finder_info env v node)) (\<lambda>current.
                    set_finder_info env node (prodos_to_finder prodos current)))
          else ret ()))))))))))"

section \<open>The volume\<close>

definition get_bitmap_resp :: "('h, 't, 'w) Env \<Rightarrow> ('h, 't, 'w) Volume \<Rightarrow> u16 \<Rightarrow> bytes \<Rightarrow> Fault + bytes \<times> nat" where
  "get_bitmap_resp env v b output =
     (let fixed = u16_bytes b
            @ (if bit b 0 then u16_bytes 0 else [])
            @ (if bit b 1 then u16_bytes 2 else [])
            @ (if bit b 2 then u32_bytes (vo_created_at v) else [])
            @ (if bit b 3 then u32_bytes (get_modified_at env v) else [])
            @ (if bit b 4 then u32_bytes AFP_DATE_NEVER else [])
            @ (if bit b 5 then u16_bytes (vo_volume_id v) else [])
            @ (if bit b 6 then u32_bytes 0x3FFFFFFF else [])
            @ (if bit b 7 then u32_bytes 0x3FFFFFFF else []);
          resp = (if bit b 8
                  then fixed @ u16_bytes (word_of_nat (length fixed)) @ [word_of_nat (length (vo_name v))] @ vo_name v
                  else fixed)
      in if length output < length resp then Inl Panicked else Inr (put 0 resp output, length resp))"

definition get_fp_volume :: "('h, 't, 'w) Volume \<Rightarrow> FPVolume" where
  "get_fp_volume v = \<lparr>fv_has_password = False, fv_has_config_info = False, fv_name = ms_new (vo_name v)\<rparr>"

section \<open>Opening forks\<close>

definition open_handle :: "('h, 't, 'w) Env \<Rightarrow> ForkType \<Rightarrow> 'h Node \<Rightarrow> (('h, 't, 'w) Volume, 'h option) action" where
  "open_handle env fork_type node =
     (case fork_type of
        ForkData \<Rightarrow> bind (reads vo_path) (\<lambda>root. host (\<lambda>w. h_open (ev_host env) w (root @ nd_path node)))
      | ForkResource \<Rightarrow>
          bind (reads (\<lambda>v. fst (resolve_resource_fork_path env v (nd_path node)))) (\<lambda>target.
          bind (if ascii ''..namedfork'' \<in> set target then ret True
                else host (\<lambda>w. h_create_dir_all (ev_host env) w (butlast target))) (\<lambda>ok.
            if ok then host (\<lambda>w. h_open_create (ev_host env) w target) else ret None)))"

text \<open>The next reference number wraps around and steps over zero; whether it is in use is not asked.\<close>

definition take_fork_ref :: "u32 \<times> ForkType \<Rightarrow> u16 \<Rightarrow> (('h, 't, 'w) Volume, u16) action" where
  "take_fork_ref key access_mode =
     bind (reads vo_next_fork_ref) (\<lambda>fork_ref_num.
     bind (update (\<lambda>v. v
       \<lparr>vo_next_fork_ref := (if fork_ref_num + 1 = 0 then 1 else fork_ref_num + 1),
        vo_fork_refs := (vo_fork_refs v)(fork_ref_num \<mapsto> key), vo_fork_access := (vo_fork_access v)(fork_ref_num \<mapsto> access_mode),
        vo_fork_pos := (vo_fork_pos v)(fork_ref_num \<mapsto> 0)\<rparr>)) (\<lambda>_.
       ret fork_ref_num))"

definition open_fork ::
  "('h, 't, 'w) Env \<Rightarrow> ForkType \<Rightarrow> u16 \<Rightarrow> u16 \<Rightarrow> u32 \<Rightarrow> path \<Rightarrow> bytes \<Rightarrow> (('h, 't, 'w) Volume, bytes \<times> nat) action" where
  "open_fork env fork_type b access_mode dir_id relative_path output =
     bind (resolve_node_lazy env dir_id relative_path) (\<lambda>i.
     bind (look (\<lambda>v. vo_nodes v i) ObjectNotFound) (\<lambda>node.
       if node_fork fork_type node \<noteq> None then refuse FileBusy
       else
         bind (open_handle env fork_type node) (\<lambda>handle.
           case handle of
             None \<Rightarrow> refuse AccessDenied
           | Some h \<Rightarrow>
               bind (update (\<lambda>v. v\<lparr>vo_nodes := (vo_nodes v)(i \<mapsto> set_node_fork fork_type (Some h) node)\<rparr>)) (\<lambda>_.
               bind (take_fork_ref (i, fork_type) access_mode) (\<lambda>fork_ref_num.
                 if length output < 4 then pure_res (Inl Panicked)
                 else
                   bind (reads (\<lambda>v. get_file_parms_resp env v b (nd_path node) (drop 4 output))) (\<lambda>r.
                   bind (pure_res r) (\<lambda>(rest, len). ret (u16_bytes b @ u16_bytes fork_ref_num @ rest, 4 + len))))))))"

section \<open>Listing a directory\<close>

definition listing_key :: "bytes \<times> bool \<Rightarrow> bool \<times> bytes" where
  "listing_key e = (\<not> snd e, fst e)"

fun list_entries :: "DirEntry option list \<Rightarrow> (bytes \<times> bool) list option" where
  "list_entries [] = Some []"
| "list_entries (None # entries) = None"
| "list_entries (Some e # entries) =
     (let name = utf8_lossy (de_name e) in
      if hidden_name name then list_entries entries
      else case de_is_dir e of
             None \<Rightarrow> None
           | Some is_dir \<Rightarrow> map_option ((#) (name, is_dir)) (list_entries entries))"

definition dir_snapshot :: "('h, 't, 'w) Env \<Rightarrow> u32 \<Rightarrow> path \<Rightarrow> (('h, 't, 'w) Volume, unit) action" where
  "dir_snapshot env node_id node_path =
     bind (look (\<lambda>v. h_read_dir (ev_host env) (vo_world v) (vo_path v @ node_path)) ObjectNotFound) (\<lambda>entries.
     bind (look (\<lambda>_. list_entries entries) ObjectNotFound) (\<lambda>list.
       update (\<lambda>v. v\<lparr>vo_enum_cache := (vo_enum_cache v)(node_id \<mapsto> sort_key listing_key list)\<rparr>)))"

definition ensure_entry :: "('h, 't, 'w) Env \<Rightarrow> u32 \<Rightarrow> path \<Rightarrow> bytes \<Rightarrow> bool \<Rightarrow> ('h, 't, 'w) Volume \<Rightarrow> ('h, 't, 'w) Volume" where
  "ensure_entry env node_id node_path name is_dir v =
     (if vo_path_to_id v (node_path @ [name]) \<noteq> None then v
      else register_mangle_if_needed env (posix_name_to_afp name) name
             (add_node node_id (posix_name_to_afp name) is_dir (node_path @ [name]) v))"

definition FILE_TYPE_DIRECTORY :: u8 where "FILE_TYPE_DIRECTORY = 0x80"
definition FILE_TYPE_FILE :: u8 where "FILE_TYPE_FILE = 0"

text \<open>
  One entry of a page: it does not fit, its parameters cannot be had and it is left out (its header and the parameters before
  the missing one stay in the buffer, behind the offset the next entry starts at), or it writes a header, its parameters and
  a pad byte.
\<close>

datatype page_step = PageFull | LeftOut bytes | Wrote bytes nat | PageCrash

text \<open>What refused parameters leave in the buffer: those of a file are refused before the first byte is written.\<close>

definition parms_left ::
  "('h, 't, 'w) Env \<Rightarrow> ('h, 't, 'w) Volume \<Rightarrow> FPEnumerate \<Rightarrow> path \<Rightarrow> bool \<Rightarrow> bytes \<Rightarrow> bytes" where
  "parms_left env v cmd p is_dir room =
     (case node_at_path v p of
        None \<Rightarrow> room
      | Some node \<Rightarrow>
          if is_dir
          then fields_left (dir_long_name_offset (en_directory_bitmap cmd)) (dir_fields env v node p (en_directory_bitmap cmd)) room 0
          else room)"

definition page_entry ::
  "('h, 't, 'w) Env \<Rightarrow> FPEnumerate \<Rightarrow> path \<Rightarrow> bytes \<times> bool \<Rightarrow> bytes \<Rightarrow> nat \<Rightarrow> ('h, 't, 'w) Volume \<Rightarrow> page_step" where
  "page_entry env cmd node_path e output offset v =
     (let name = fst e; is_dir = snd e; afp_name = posix_name_to_afp name;
          len = (if is_dir then dir_response_len (ev_mac env) (en_directory_bitmap cmd) afp_name
                 else file_response_len (ev_mac env) (en_file_bitmap cmd) afp_name);
          padded = len + len mod 2
      in if unat (en_max_reply_size cmd) < offset + 2 + padded then PageFull
         else if length output < offset + 2 then PageCrash
         else
           let header = [word_of_nat (padded + 2), if is_dir then FILE_TYPE_DIRECTORY else FILE_TYPE_FILE];
               room = drop (offset + 2) output;
               parms = (if is_dir then get_directory_parms_resp env v (en_directory_bitmap cmd) (node_path @ [name]) room
                        else get_file_parms_resp env v (en_file_bitmap cmd) (node_path @ [name]) room)
           in case parms of
                Inl Panicked \<Rightarrow> PageCrash
              | Inl (Refused _) \<Rightarrow> LeftOut (take offset output @ header @ parms_left env v cmd (node_path @ [name]) is_dir room)
              | Inr (rest, n) \<Rightarrow>
                  (let out = take offset output @ header @ rest; filled = offset + 2 + n
                   in if even len then Wrote out filled
                      else if length out \<le> filled then PageCrash
                      else Wrote (out[filled := 0]) (filled + 1)))"

primrec enumerate_page ::
  "('h, 't, 'w) Env \<Rightarrow> FPEnumerate \<Rightarrow> u32 \<Rightarrow> path \<Rightarrow> (bytes \<times> bool) list \<Rightarrow> bytes \<Rightarrow> nat \<Rightarrow> u16
   \<Rightarrow> (('h, 't, 'w) Volume, bytes \<times> nat \<times> u16) action" where
  "enumerate_page env cmd node_id node_path [] output offset count = ret (output, offset, count)"
| "enumerate_page env cmd node_id node_path (e # entries) output offset count =
     bind (update (ensure_entry env node_id node_path (fst e) (snd e))) (\<lambda>_.
     bind (reads (page_entry env cmd node_path e output offset)) (\<lambda>r.
       case r of
         PageFull \<Rightarrow> ret (output, offset, count)
       | LeftOut out \<Rightarrow> enumerate_page env cmd node_id node_path entries out offset count
       | Wrote out offset' \<Rightarrow> enumerate_page env cmd node_id node_path entries out offset' (count + 1)
       | PageCrash \<Rightarrow> pure_res (Inl Panicked)))"

definition enumerate :: "('h, 't, 'w) Env \<Rightarrow> FPEnumerate \<Rightarrow> bytes \<Rightarrow> (('h, 't, 'w) Volume, bytes \<times> nat) action" where
  "enumerate env cmd output =
     bind (\<lambda>v. (lift_res (resolve_node env v (en_directory_id cmd) (afp_path_to_posix (ms_value (en_path cmd)))), v)) (\<lambda>node_id.
     bind (look (\<lambda>v. vo_nodes v node_id) ObjectNotFound) (\<lambda>node.
     let start_index = unat (en_start_index cmd) in
     if \<not> nd_is_dir node then refuse ObjectTypeErr
     else if start_index = 0 then refuse ObjectNotFound
     else
       bind (reads (\<lambda>v. vo_enum_cache v node_id)) (\<lambda>cached.
       bind (if start_index = 1 \<or> cached = None then dir_snapshot env node_id (nd_path node) else ret ()) (\<lambda>_.
       bind (look (\<lambda>v. vo_enum_cache v node_id) ObjectNotFound) (\<lambda>entries.
         if entries = [] then
           bind (update (\<lambda>v. v\<lparr>vo_enum_cache := (vo_enum_cache v)(node_id := None)\<rparr>)) (\<lambda>_. refuse ObjectNotFound)
         else
           let page = take (unat (en_req_count cmd)) (drop (start_index - 1) entries)
           in bind (enumerate_page env cmd node_id (nd_path node) page output 2 0) (\<lambda>(out, offset, count).
                if length out < 2 then pure_res (Inl Panicked) else ret (put 0 (u16_bytes count) out, offset)))))))"

end
