(* ===== verification/Afp_Forks_Props.thy ===== *)
theory Afp_Forks_Props
  imports Afp_Forks
begin

text \<open>
  What open forks promise over a host whose file calls keep to their documentation (the locale \<open>host_files\<close>): reads return the
  bytes of the file however the host cuts them up and although seeks are skipped, writes replace exactly the range they name,
  a flush that succeeds leaves nothing written unsynced, a read-only fork is not written to, and granted locks do not overlap.
\<close>

section \<open>Files of the host\<close>

text \<open>Writing past the end of a file fills the gap with zeros; resizing cuts the file or fills it with zeros.\<close>

definition resize :: "nat \<Rightarrow> bytes \<Rightarrow> bytes" where
  "resize n c = take n c @ replicate (n - length c) 0"

definition overwrite :: "nat \<Rightarrow> bytes \<Rightarrow> bytes \<Rightarrow> bytes" where
  "overwrite off data c = (if data = [] then c else resize off c @ data @ drop (off + length data) c)"

text \<open>
  \<open>contents\<close> is the file behind a handle, \<open>offset\<close> the position of the handle, and \<open>synced\<close> holds when all that was written
  through the handle is on disk.
\<close>

locale host_files =
  fixes H :: "('w, 'h) Host" and contents :: "'w \<Rightarrow> 'h \<Rightarrow> bytes" and offset :: "'w \<Rightarrow> 'h \<Rightarrow> nat" and synced :: "'w \<Rightarrow> 'h \<Rightarrow> bool"
  assumes seek_frame: "h_seek H w f n = (ok, w') \<Longrightarrow> contents w' f = contents w f \<and> synced w' = synced w \<and> (\<forall>g. g \<noteq> f \<longrightarrow> offset w' g = offset w g)"
    and seek_ok: "h_seek H w f n = (True, w') \<Longrightarrow> offset w' f = n"
    and read_frame: "h_read H w f n = (r, w') \<Longrightarrow> contents w' f = contents w f \<and> synced w' = synced w \<and> (\<forall>g. g \<noteq> f \<longrightarrow> offset w' g = offset w g)"
    and read_ok: "h_read H w f n = (Some d, w') \<Longrightarrow> length d \<le> n \<and> d = take (length d) (drop (offset w f) (contents w f))
                    \<and> offset w' f = offset w f + length d"
    and read_end: "h_read H w f n = (Some [], w') \<Longrightarrow> 0 < n \<Longrightarrow> length (contents w f) \<le> offset w f"
    and write_frame: "h_write_all H w f d = (ok, w') \<Longrightarrow> (\<forall>g. g \<noteq> f \<longrightarrow> synced w' g = synced w g \<and> offset w' g = offset w g)"
    and write_ok: "h_write_all H w f d = (True, w') \<Longrightarrow> contents w' f = overwrite (offset w f) d (contents w f)
                     \<and> offset w' f = offset w f + length d"
    and resize_frame: "h_set_len H w f n = (ok, w') \<Longrightarrow> (\<forall>g. g \<noteq> f \<longrightarrow> synced w' g = synced w g \<and> offset w' g = offset w g)"
    and resize_ok: "h_set_len H w f n = (True, w') \<Longrightarrow> contents w' f = resize n (contents w f)"
    and resize_failed: "h_set_len H w f n = (False, w') \<Longrightarrow> synced w' f = synced w f \<and> offset w' f = offset w f"
    and sync_frame: "h_sync_data H w f = (ok, w') \<Longrightarrow> contents w' f = contents w f \<and> offset w' = offset w \<and> (\<forall>g. synced w g \<longrightarrow> synced w' g)"
    and sync_ok: "h_sync_data H w f = (True, w') \<Longrightarrow> synced w' f"

section \<open>Reading in chunks\<close>

definition up_to :: "('a \<Rightarrow> bool) \<Rightarrow> 'a list \<Rightarrow> 'a list" where
  "up_to P xs = (case position P xs of None \<Rightarrow> xs | Some i \<Rightarrow> take (i + 1) xs)"

lemma position_simps [simp]:
  "position P [] = None" "position P (x # xs) = (if P x then Some 0 else map_option Suc (position P xs))"
  by (simp_all add: position_def Let_def)

lemma position_None: "position P xs = None \<longleftrightarrow> (\<forall>x\<in>set xs. \<not> P x)"
  by (induction xs) auto

lemma position_append:
  "position P (xs @ ys) = (case position P xs of Some i \<Rightarrow> Some i | None \<Rightarrow> map_option (\<lambda>i. length xs + i) (position P ys))"
  by (cases "position P ys"; induction xs) (auto split: option.splits)

lemma position_less: "position P xs = Some i \<Longrightarrow> i < length xs"
  by (induction xs arbitrary: i) (auto split: if_splits)

lemma up_to_absent: "\<forall>x\<in>set xs. \<not> P x \<Longrightarrow> up_to P xs = xs"
  by (simp add: up_to_def flip: position_None)

lemma up_to_here: "\<forall>x\<in>set xs. \<not> P x \<Longrightarrow> position P ys = Some i \<Longrightarrow> up_to P (xs @ ys @ zs) = xs @ take (i + 1) ys"
  using position_less [of P ys i] by (simp add: up_to_def position_append flip: position_None)

definition quiet :: "('w \<Rightarrow> 'h \<Rightarrow> bytes) \<Rightarrow> ('w \<Rightarrow> 'h \<Rightarrow> nat) \<Rightarrow> ('w \<Rightarrow> 'h \<Rightarrow> bool) \<Rightarrow> 'h \<Rightarrow> 'w \<Rightarrow> 'w \<Rightarrow> bool" where
  "quiet contents offset synced f w w' \<longleftrightarrow> contents w' f = contents w f \<and> synced w' = synced w \<and> (\<forall>g. g \<noteq> f \<longrightarrow> offset w' g = offset w g)"

lemma quiet_refl [simp]: "quiet c p s f w w"
  by (simp add: quiet_def)

lemma quiet_trans: "quiet c p s f w w' \<Longrightarrow> quiet c p s f w' w'' \<Longrightarrow> quiet c p s f w w''"
  by (simp add: quiet_def)

context host_files
begin

abbreviation still :: "'h \<Rightarrow> 'w \<Rightarrow> 'w \<Rightarrow> bool" where
  "still \<equiv> quiet contents offset synced"

lemma still_seek: "h_seek H w f n = (ok, w') \<Longrightarrow> still f w w'"
  using seek_frame by (simp add: quiet_def)

lemma still_read: "h_read H w f n = (r, w') \<Longrightarrow> still f w w'"
  using read_frame by (simp add: quiet_def)

text \<open>A chunk that continues what was got so far.\<close>

lemma chunk_extends:
  assumes "h_read H w f (m - length got) = (Some d, w')" and "offset w f = s + length got"
    and "got = take (length got) (drop s (contents w f))" and "length got < m"
  shows "got @ d = take (length (got @ d)) (drop s (contents w' f))" and "offset w' f = s + length (got @ d)"
    and "length (got @ d) \<le> m"
proof -
  note ok = read_ok [OF assms(1)]
  have "contents w' f = contents w f" using read_frame [OF assms(1)] by simp
  moreover have "take (length got + length d) (drop s (contents w f)) = got @ d"
    using ok assms(2,3) by (metis take_add drop_drop add.commute)
  ultimately show "got @ d = take (length (got @ d)) (drop s (contents w' f))" by simp
  show "offset w' f = s + length (got @ d)" "length (got @ d) \<le> m" using ok assms(2,4) by auto
qed

lemma read_full_spec:
  assumes "read_full H f m got w = (r, w')" and "offset w f = s + length got" and "got = take (length got) (drop s (contents w f))"
    and "length got \<le> m"
  shows "still f w w' \<and> (case r of None \<Rightarrow> True | Some (d, eof) \<Rightarrow>
    d = take m (drop s (contents w f)) \<and> (eof \<longleftrightarrow> length d < m) \<and> offset w' f = s + length d)"
  using assms
proof (induction "m - length got" arbitrary: got w rule: less_induct)
  case less
  note step = less.prems(1)
  show ?case
  proof (cases "m \<le> length got")
    case True
    then have "length got = m" using less.prems(4) by simp
    with step less.prems(2,3) show ?thesis by (auto simp: read_full.simps)
  next
    case False
    obtain c w1 where c: "h_read H w f (m - length got) = (c, w1)" by (cases "h_read H w f (m - length got)")
    then have still: "still f w w1" by (rule still_read)
    then have same: "contents w1 f = contents w f" by (simp add: quiet_def)
    consider "c = None" | "c = Some []" | b bs where "c = Some (b # bs)" by (metis list.exhaust option.exhaust)
    then show ?thesis
    proof cases
      case 1
      with step c False still show ?thesis by (auto simp: read_full.simps)
    next
      case 2
      have "length (contents w f) \<le> s + length got" using read_end c 2 less.prems(2) False by (metis zero_less_diff not_le)
      then have "drop s (contents w f) = got" using less.prems(3) by (metis add.commute drop_drop drop_all append_Nil2 append_take_drop_id)
      moreover have "offset w1 f = s + length got" using read_ok c 2 less.prems(2) by fastforce
      ultimately show ?thesis using step c 2 False still by (auto simp: read_full.simps)
    next
      case 3
      have lt: "length got < m" using False by simp
      note ext = chunk_extends [OF c [unfolded 3] less.prems(2,3) lt]
      have run: "read_full H f m (got @ b # bs) w1 = (r, w')" using step c 3 False by (simp add: read_full.simps)
      have "m - length (got @ b # bs) < m - length got" using False by simp
      from less.hyps [OF this run ext(2,1,3)] False still same show ?thesis
        by (auto intro: quiet_trans split: option.splits)
    qed
  qed
qed

lemma read_line_spec:
  assumes "read_line H f P m got w = (r, w')" and "offset w f = s + length got" and "got = take (length got) (drop s (contents w f))"
    and "length got \<le> m" and "\<forall>b\<in>set got. \<not> P b"
  shows "still f w w' \<and> (case r of None \<Rightarrow> True | Some (d, eof) \<Rightarrow>
    (let avail = take m (drop s (contents w f)) in d = up_to P avail \<and> (eof \<longleftrightarrow> length avail < m \<and> position P avail = None)))"
  using assms
proof (induction "m - length got" arbitrary: got w rule: less_induct)
  case less
  note step = less.prems(1)
  show ?case
  proof (cases "m \<le> length got")
    case True
    then have "length got = m" using less.prems(4) by simp
    moreover from this have "take m (drop s (contents w f)) = got" using less.prems(3) by simp
    ultimately show ?thesis using step less.prems(5) by (auto simp: read_line.simps up_to_absent)
  next
    case False
    obtain c w1 where c: "h_read H w f (m - length got) = (c, w1)" by (cases "h_read H w f (m - length got)")
    then have still: "still f w w1" by (rule still_read)
    then have same: "contents w1 f = contents w f" by (simp add: quiet_def)
    consider "c = None" | "c = Some []" | b bs where "c = Some (b # bs)" by (metis list.exhaust option.exhaust)
    then show ?thesis
    proof cases
      case 1
      with step c False still show ?thesis by (auto simp: read_line.simps)
    next
      case 2
      have "length (contents w f) \<le> s + length got" using read_end c 2 less.prems(2) False by (metis zero_less_diff not_le)
      then have "drop s (contents w f) = got" using less.prems(3) by (metis add.commute drop_drop drop_all append_Nil2 append_take_drop_id)
      then show ?thesis using step c 2 False still less.prems(5)
        by (auto simp: read_line.simps up_to_absent Let_def position_None)
    next
      case 3
      have lt: "length got < m" using False by simp
      note ext = chunk_extends [OF c [unfolded 3] less.prems(2,3) lt]
      show ?thesis
      proof (cases "position P (b # bs)")
        case None
        then have none: "\<forall>x\<in>set (got @ b # bs). \<not> P x" using less.prems(5) by (auto simp del: position_simps simp: position_None)
        have run: "read_line H f P m (got @ b # bs) w1 = (r, w')"
          using step c 3 False None by (simp add: read_line.simps del: position_simps)
        have "m - length (got @ b # bs) < m - length got" using False by simp
        from less.hyps [OF this run ext(2,1,3) none] False still same show ?thesis
          by (auto intro: quiet_trans split: option.splits)
      next
        case (Some i)
        have res: "r = Some (got @ take (i + 1) (b # bs), False)" "w' = w1"
          using step c 3 False Some by (simp_all add: read_line.simps del: position_simps)
        define avail where "avail = take m (drop s (contents w f))"
        define k where "k = length (got @ b # bs)"
        have "take k avail = take k (drop s (contents w f))"
          using ext(3) unfolding avail_def k_def by (simp only: take_take min.absorb1)
        also have "\<dots> = got @ b # bs" using ext(1) unfolding k_def same by (rule sym)
        finally have "take k avail = got @ b # bs" .
        then have avail: "avail = got @ (b # bs) @ drop k avail" by (metis append.assoc append_take_drop_id)
        then have line: "up_to P avail = got @ take (i + 1) (b # bs)" using up_to_here [OF less.prems(5) Some] by metis
        have hit: "position P avail \<noteq> None"
        proof -
          have "\<exists>x\<in>set (b # bs). P x" using Some by (metis option.distinct(1) position_None)
          then show ?thesis by (subst avail) (auto simp del: position_simps simp: position_None)
        qed
        show ?thesis using still by (simp add: res line hit Let_def flip: avail_def)
      qed
    qed
  qed
qed

end

section \<open>Open forks of a volume\<close>

definition handle_at :: "('h, 't, 'w) Volume \<Rightarrow> u32 \<times> ForkType \<Rightarrow> 'h option" where
  "handle_at v key = (case vo_nodes v (fst key) of None \<Rightarrow> None | Some node \<Rightarrow> node_fork (snd key) node)"

definition fork_handle :: "('h, 't, 'w) Volume \<Rightarrow> u16 \<Rightarrow> 'h option" where
  "fork_handle v fork_id = (case vo_fork_refs v fork_id of None \<Rightarrow> None | Some key \<Rightarrow> handle_at v key)"

text \<open>
  Handles and reference numbers each stand for one fork, a cached position is the position of the handle, and a fork that is not
  marked as written has nothing unsynced.
\<close>

definition forks_ok :: "('w \<Rightarrow> 'h \<Rightarrow> nat) \<Rightarrow> ('w \<Rightarrow> 'h \<Rightarrow> bool) \<Rightarrow> ('h, 't, 'w) Volume \<Rightarrow> bool" where
  "forks_ok offset synced v \<longleftrightarrow>
     (\<forall>a b f. handle_at v a = Some f \<and> handle_at v b = Some f \<longrightarrow> a = b)
   \<and> (\<forall>i j key. vo_fork_refs v i = Some key \<and> vo_fork_refs v j = Some key \<longrightarrow> i = j)
   \<and> (\<forall>i key f p. vo_fork_refs v i = Some key \<and> handle_at v key = Some f \<and> vo_fork_pos v i = Some p \<longrightarrow> offset (vo_world v) f = p)
   \<and> (\<forall>key f. handle_at v key = Some f \<and> key \<notin> vo_dirty v \<longrightarrow> synced (vo_world v) f)"

lemma handle_at_cong: "vo_nodes v' = vo_nodes v \<Longrightarrow> handle_at v' = handle_at v"
  by (simp add: handle_at_def fun_eq_iff)

lemma handle_at_upd [simp]:
  "handle_at (v\<lparr>vo_dirty := d\<rparr>) = handle_at v" "handle_at (v\<lparr>vo_world := w\<rparr>) = handle_at v"
  by (simp_all add: handle_at_def fun_eq_iff)

lemma forks_ok_pos: "forks_ok offset synced v \<Longrightarrow> vo_fork_refs v i = Some key \<Longrightarrow> handle_at v key = Some f \<Longrightarrow>
    vo_fork_pos v i = Some p \<Longrightarrow> offset (vo_world v) f = p"
  unfolding forks_ok_def by blast

lemma forks_ok_handle: "forks_ok offset synced v \<Longrightarrow> handle_at v a = Some f \<Longrightarrow> handle_at v b = Some f \<Longrightarrow> a = b"
  unfolding forks_ok_def by blast

lemma forks_ok_ref: "forks_ok offset synced v \<Longrightarrow> vo_fork_refs v i = Some key \<Longrightarrow> vo_fork_refs v j = Some key \<Longrightarrow> i = j"
  unfolding forks_ok_def by blast

lemma forks_ok_clean: "forks_ok offset synced v \<Longrightarrow> handle_at v key = Some f \<Longrightarrow> key \<notin> vo_dirty v \<Longrightarrow> synced (vo_world v) f"
  unfolding forks_ok_def by blast

text \<open>A call on one handle: other handles keep their positions, and what is unsynced of others stays so.\<close>

lemma forks_ok_step:
  assumes ok: "forks_ok offset synced v" and ref: "vo_fork_refs v i = Some key" and f: "handle_at v key = Some f"
    and nodes: "vo_nodes v' = vo_nodes v" and refs: "vo_fork_refs v' = vo_fork_refs v"
    and pos: "vo_fork_pos v' = (vo_fork_pos v)(i := p)" "\<And>q. p = Some q \<Longrightarrow> offset (vo_world v') f = q"
    and dirty: "vo_dirty v' = vo_dirty v \<or> vo_dirty v' = Set.insert key (vo_dirty v)"
    and others: "\<And>g. g \<noteq> f \<Longrightarrow> offset (vo_world v') g = offset (vo_world v) g"
      "\<And>g. synced (vo_world v) g \<Longrightarrow> g \<noteq> f \<or> vo_dirty v' \<noteq> Set.insert key (vo_dirty v) \<Longrightarrow> synced (vo_world v') g"
  shows "forks_ok offset synced v'"
proof -
  note at = handle_at_cong [OF nodes]
  have "offset (vo_world v') g = q" if "vo_fork_refs v' j = Some k" "handle_at v' k = Some g" "vo_fork_pos v' j = Some q" for j k g q
  proof (cases "j = i")
    case True
    with that ref f at refs pos show ?thesis by auto
  next
    case False
    then have "k \<noteq> key" using forks_ok_ref [OF ok] that(1) ref refs by metis
    then have "g \<noteq> f" using forks_ok_handle [OF ok] that(2) f at by metis
    then show ?thesis using others(1) forks_ok_pos [OF ok] that False at refs pos(1) by simp
  qed
  moreover have "synced (vo_world v') g" if "handle_at v' k = Some g" "k \<notin> vo_dirty v'" for k g
  proof -
    have "k \<notin> vo_dirty v" using that(2) dirty by auto
    then have "synced (vo_world v) g" using forks_ok_clean [OF ok] that(1) at by simp
    moreover have "g \<noteq> f \<or> vo_dirty v' \<noteq> Set.insert key (vo_dirty v)"
      using forks_ok_handle [OF ok] that f at by (metis insertI1)
    ultimately show ?thesis by (rule others(2))
  qed
  moreover have "\<forall>a b f. handle_at v' a = Some f \<and> handle_at v' b = Some f \<longrightarrow> a = b" using forks_ok_handle [OF ok] at by metis
  moreover have "\<forall>i j key. vo_fork_refs v' i = Some key \<and> vo_fork_refs v' j = Some key \<longrightarrow> i = j"
    using forks_ok_ref [OF ok] refs by metis
  ultimately show ?thesis unfolding forks_ok_def by (intro conjI) (assumption | blast)+
qed

section \<open>Reading through the cached position\<close>

definition touched :: "('w \<Rightarrow> 'h \<Rightarrow> bytes) \<Rightarrow> ('w \<Rightarrow> 'h \<Rightarrow> nat) \<Rightarrow> ('w \<Rightarrow> 'h \<Rightarrow> bool) \<Rightarrow> u16 \<Rightarrow> 'h
    \<Rightarrow> ('h, 't, 'w) Volume \<Rightarrow> ('h, 't, 'w) Volume \<Rightarrow> bool" where
  "touched contents offset synced i f v v' \<longleftrightarrow> quiet contents offset synced f (vo_world v) (vo_world v')
     \<and> vo_nodes v' = vo_nodes v \<and> vo_fork_refs v' = vo_fork_refs v \<and> vo_dirty v' = vo_dirty v
     \<and> (\<exists>p. vo_fork_pos v' = (vo_fork_pos v)(i := p))"

lemma touched_refl: "touched c o' s i f v v"
proof -
  have "vo_fork_pos v = (vo_fork_pos v)(i := vo_fork_pos v i)" by simp
  then show ?thesis unfolding touched_def by (metis quiet_refl)
qed

lemma touched_trans: "touched c o' s i f v v' \<Longrightarrow> touched c o' s i f v' v'' \<Longrightarrow> touched c o' s i f v v''"
  unfolding touched_def by (metis fun_upd_upd quiet_trans)

lemma touched_ok:
  assumes "forks_ok offset synced v" and "vo_fork_refs v i = Some key" and "handle_at v key = Some f"
    and "touched contents offset synced i f v v'" and "\<And>p. vo_fork_pos v' i = Some p \<Longrightarrow> offset (vo_world v') f = p"
  shows "forks_ok offset synced v'"
proof -
  from assms(4) obtain p where p: "vo_fork_pos v' = (vo_fork_pos v)(i := p)" unfolding touched_def by blast
  show ?thesis
    by (rule forks_ok_step [OF assms(1-3) _ _ p]) (use assms(4,5) p in \<open>auto simp: touched_def quiet_def\<close>)
qed

lemma fork_file_eq:
  "fork_file i e1 e2 v =
     (case vo_fork_refs v i of
        None \<Rightarrow> (Inl (Refused e1), v)
      | Some (n, t) \<Rightarrow>
          (case vo_nodes v n of
             None \<Rightarrow> (Inl (Refused ObjectNotFound), v)
           | Some node \<Rightarrow> (case node_fork t node of None \<Rightarrow> (Inl (Refused e2), v) | Some f \<Rightarrow> (Inr (n, t, f), v))))"
  by (simp add: fork_file_def action_defs split: option.splits prod.splits)

lemma fork_file_handle:
  "fork_handle v i = Some f \<Longrightarrow> \<exists>n t. vo_fork_refs v i = Some (n, t) \<and> handle_at v (n, t) = Some f \<and> fork_file i e1 e2 v = (Inr (n, t, f), v)"
  by (auto simp: fork_handle_def handle_at_def fork_file_eq split: option.splits prod.splits)

lemma fork_file_none: "fork_handle v i = None \<Longrightarrow> \<exists>e \<in> {e1, e2, ObjectNotFound}. fork_file i e1 e2 v = (Inl (Refused e), v)"
  by (auto simp: fork_handle_def handle_at_def fork_file_eq split: option.splits prod.splits)

text \<open>What a read returns once the handle is in position.\<close>

definition read_result :: "FPRead \<Rightarrow> nat \<Rightarrow> bytes \<Rightarrow> bytes \<times> bool" where
  "read_result req max_bytes file =
     (let avail = take max_bytes (drop (unat (rd_offset req)) file); eof = length avail < max_bytes
      in if rd_newline_mask req = 0 then (avail, eof)
         else (up_to (byte_matches_newline req) avail, eof \<and> position (byte_matches_newline req) avail = None))"

context host_files
begin

lemma seek_fork_spec:
  assumes "ev_host env = H" and "seek_fork env i f n e v = (r, v')" and "\<And>p. vo_fork_pos v i = Some p \<Longrightarrow> offset (vo_world v) f = p"
  shows "touched contents offset synced i f v v' \<and> (r = Inr () \<and> offset (vo_world v') f = n \<and> vo_fork_pos v' i = Some n
    \<or> r = Inl (Refused e) \<and> vo_fork_pos v' i = None)"
proof (cases "vo_fork_pos v i = Some n")
  case True
  with assms show ?thesis by (auto simp: seek_fork_def action_defs touched_refl)
next
  case False
  obtain ok w' where s: "h_seek H (vo_world v) f n = (ok, w')" by (cases "h_seek H (vo_world v) f n")
  show ?thesis
    using assms(1,2) False s still_seek [OF s] seek_ok [of "vo_world v" f n w']
    by (auto simp: seek_fork_def action_defs set_pos_def touched_def split: if_splits)
qed

end

lemma bind_Inr: "m s = (Inr x, s') \<Longrightarrow> bind m f s = f x s'"
  by (simp add: bind_def)

lemma bind_reads: "bind (reads g) f s = f (g s) s"
  by (simp add: bind_def reads_def)

lemma bind_Inl: "m s = (Inl e, s') \<Longrightarrow> bind m f s = (Inl e, s')"
  by (simp add: bind_def)

context host_files
begin

lemma read_body_spec:
  assumes H: "ev_host env = H" and at: "offset (vo_world v) f = unat (rd_offset req)"
    and run: "(if rd_newline_mask req \<noteq> 0
               then bind (host (read_line (ev_host env) f (byte_matches_newline req) m [])) (\<lambda>r.
                   case r of
                     None \<Rightarrow> bind (update (set_pos i None)) (\<lambda>_. refuse AccessDenied)
                   | Some (data, is_eof) \<Rightarrow>
                       bind (host (\<lambda>w. h_seek (ev_host env) w f (unat (rd_offset req) + length data))) (\<lambda>ok.
                         if ok then ret (data, is_eof) else bind (update (set_pos i None)) (\<lambda>_. refuse AccessDenied)))
               else bind (host (read_full (ev_host env) f m [])) (\<lambda>r.
                   case r of None \<Rightarrow> bind (update (set_pos i None)) (\<lambda>_. refuse AccessDenied)
                   | Some (data, is_eof) \<Rightarrow> ret (data, is_eof))) v = (r, v')"
  shows "touched contents offset synced i f v v' \<and> (case r of
      Inl e \<Rightarrow> e = Refused AccessDenied \<and> vo_fork_pos v' i = None
    | Inr (d, eof) \<Rightarrow> (d, eof) = read_result req m (contents (vo_world v) f)
        \<and> offset (vo_world v') f = unat (rd_offset req) + length d)"
proof (cases "rd_newline_mask req = 0")
  case True
  obtain c w1 where c: "read_full H f m [] (vo_world v) = (c, w1)" by (cases "read_full H f m [] (vo_world v)")
  from read_full_spec [OF c, of "unat (rd_offset req)"] at run True H c show ?thesis
    by (auto simp: action_defs set_pos_def touched_def read_result_def Let_def split: option.splits prod.splits intro: exI [of _ "vo_fork_pos v i"])
next
  case False
  let ?P = "byte_matches_newline req"
  obtain c w1 where c: "read_line H f ?P m [] (vo_world v) = (c, w1)" by (cases "read_line H f ?P m [] (vo_world v)")
  note line = read_line_spec [OF c, of "unat (rd_offset req)"]
  show ?thesis
  proof (cases c)
    case None
    with line at run False H c show ?thesis by (auto simp: action_defs set_pos_def touched_def)
  next
    case (Some de)
    obtain d eof where de: "de = (d, eof)" by (cases de)
    obtain ok w2 where s: "h_seek H w1 f (unat (rd_offset req) + length d) = (ok, w2)"
      by (cases "h_seek H w1 f (unat (rd_offset req) + length d)")
    have still: "still f (vo_world v) w2" using line at Some de still_seek [OF s] by (auto intro: quiet_trans)
    show ?thesis
      using line at run False H c Some de s still seek_ok [of w1 f "unat (rd_offset req) + length d" w2]
      by (auto simp: action_defs set_pos_def touched_def read_result_def Let_def split: if_splits intro: exI [of _ "vo_fork_pos v i"])
  qed
qed

end

context host_files
begin

lemma read_fork_spec:
  fixes v v' :: "('h, 't, 'w) Volume"
  assumes H: "ev_host env = H" and ok: "forks_ok offset synced v" and run: "read_fork env req n v = (r, v')"
  shows "forks_ok offset synced v' \<and> (case fork_handle v (rd_fork_id req) of
      None \<Rightarrow> r = Inl (Refused ObjectNotFound) \<and> v' = v
    | Some f \<Rightarrow> contents (vo_world v') f = contents (vo_world v) f
        \<and> (r = Inl (Refused AccessDenied)
           \<or> r = Inr (read_result req (min (unat (rd_req_count req)) n) (contents (vo_world v) f))))"
proof (cases "fork_handle v (rd_fork_id req)")
  case None
  have "fork_file (rd_fork_id req) ObjectNotFound ObjectNotFound v = (Inl (Refused ObjectNotFound), v)"
    using fork_file_none [OF None, of ObjectNotFound ObjectNotFound] by simp
  with run ok None show ?thesis by (auto simp: read_fork_def Let_def bind_Inl)
next
  case (Some f)
  define i where "i = rd_fork_id req"
  from fork_file_handle [OF Some] obtain k t where
    f: "vo_fork_refs v i = Some (k, t)" "handle_at v (k, t) = Some f" "fork_file i ObjectNotFound ObjectNotFound v = (Inr (k, t, f), v)"
    unfolding i_def by blast
  obtain r1 v1 where s: "seek_fork env i f (unat (rd_offset req)) AccessDenied v = (r1, v1)"
    by (cases "seek_fork env i f (unat (rd_offset req)) AccessDenied v")
  note seek = seek_fork_spec [OF H s forks_ok_pos [OF ok f(1,2)]]
  show ?thesis
  proof (cases r1)
    case (Inl e)
    with seek have "touched contents offset synced i f v v1" "e = Refused AccessDenied" "vo_fork_pos v1 i = None" by auto
    moreover from this have "forks_ok offset synced v1" using touched_ok [OF ok f(1,2), of contents v1] by simp
    ultimately show ?thesis using run f(3) s Inl Some
      by (auto simp: read_fork_def Let_def bind_Inr bind_Inl touched_def quiet_def simp flip: i_def)
  next
    case (Inr u)
    with seek have t: "touched contents offset synced i f v v1" "offset (vo_world v1) f = unat (rd_offset req)" by auto
    define m where "m = min (unat (rd_req_count req)) n"
    define body :: "(('h, 't, 'w) Volume, bytes \<times> bool) action" where "body = (if rd_newline_mask req \<noteq> 0
               then bind (host (read_line (ev_host env) f (byte_matches_newline req) m [])) (\<lambda>r.
                   case r of
                     None \<Rightarrow> bind (update (set_pos i None)) (\<lambda>_. refuse AccessDenied)
                   | Some (data, is_eof) \<Rightarrow>
                       bind (host (\<lambda>w. h_seek (ev_host env) w f (unat (rd_offset req) + length data))) (\<lambda>ok.
                         if ok then ret (data, is_eof) else bind (update (set_pos i None)) (\<lambda>_. refuse AccessDenied)))
               else bind (host (read_full (ev_host env) f m [])) (\<lambda>r.
                   case r of None \<Rightarrow> bind (update (set_pos i None)) (\<lambda>_. refuse AccessDenied)
                   | Some (data, is_eof) \<Rightarrow> ret (data, is_eof)))"
    obtain r2 v2 where b: "body v1 = (r2, v2)" by (cases "body v1")
    have run': "bind body (\<lambda>(data, is_eof). bind (update (set_pos i (Some (unat (rd_offset req) + length data)))) (\<lambda>_. ret (data, is_eof))) v1 = (r, v')"
      using run f(3) s Inr unfolding body_def m_def read_fork_def Let_def i_def [symmetric] by (simp add: bind_Inr split del: if_split)
    note spec = read_body_spec [OF H t(2) b [unfolded body_def]]
    have t2: "touched contents offset synced i f v v2" using t(1) spec by (auto intro: touched_trans)
    have same: "contents (vo_world v1) f = contents (vo_world v) f" using t(1) by (simp add: touched_def quiet_def)
    show ?thesis
    proof (cases r2)
      case (Inl e)
      with spec have "e = Refused AccessDenied" "vo_fork_pos v2 i = None" by auto
      moreover from this have "forks_ok offset synced v2" using touched_ok [OF ok f(1,2) t2] by simp
      ultimately show ?thesis using run' b Inl Some t2 by (auto simp: bind_Inl touched_def quiet_def)
    next
      case (Inr de)
      obtain d eof where de: "de = (d, eof)" by (cases de)
      with spec Inr have d: "(d, eof) = read_result req m (contents (vo_world v) f)" "offset (vo_world v2) f = unat (rd_offset req) + length d"
        using same by auto
      have v': "r = Inr (d, eof)" "v' = set_pos i (Some (unat (rd_offset req) + length d)) v2"
        using run' b Inr de by (simp_all add: bind_Inr action_defs)
      have "touched contents offset synced i f v v'" using t2 by (auto simp: v' set_pos_def touched_def)
      moreover from this have "forks_ok offset synced v'" using touched_ok [OF ok f(1,2), of contents v'] d(2) by (simp add: v' set_pos_def)
      ultimately show ?thesis using Some d(1) v'(1) by (simp add: touched_def quiet_def m_def)
    qed
  qed
qed

end

section \<open>Writing, resizing and flushing\<close>

definition write_denied :: "('h, 't, 'w) Volume \<Rightarrow> u16 \<Rightarrow> bool" where
  "write_denied v i \<longleftrightarrow> (case vo_fork_access v i of Some mode \<Rightarrow> mode \<noteq> 0 \<and> mode AND AFP_ACCESS_WRITE = 0 | None \<Rightarrow> False)"

context host_files
begin

lemma write_fork_spec:
  fixes v v' :: "('h, 't, 'w) Volume"
  assumes H: "ev_host env = H" and ok: "forks_ok offset synced v" and run: "write_fork env i n d v = (r, v')"
  shows "forks_ok offset synced v' \<and> vo_nodes v' = vo_nodes v \<and> vo_fork_refs v' = vo_fork_refs v \<and>
    (if write_denied v i \<or> fork_handle v i = None then (\<exists>e. r = Inl (Refused e)) \<and> v' = v
     else r = Inl (Refused MiscErr) \<or> r = Inr (length d)
       \<and> contents (vo_world v') (the (fork_handle v i)) = overwrite n d (contents (vo_world v) (the (fork_handle v i))))"
proof -
  have access: "write_fork env i n d v =
      (if write_denied v i then (Inl (Refused AccessDenied), v)
       else bind (fork_file i AccessDenied AccessDenied) (\<lambda>(node_id, fork_type, file).
         bind (seek_fork env i file n MiscErr) (\<lambda>_.
         bind (host (\<lambda>w. h_write_all (ev_host env) w file d)) (\<lambda>ok.
         bind (update (mark_dirty (node_id, fork_type))) (\<lambda>_.
           if ok
           then bind (update (set_pos i (Some (n + length d)))) (\<lambda>_. ret (length d))
           else bind (update (set_pos i None)) (\<lambda>_. refuse MiscErr))))) v)"
    unfolding write_fork_def write_denied_def bind_reads by (simp add: refuse_def)
  show ?thesis
  proof (cases "write_denied v i")
    case True
    with access run ok show ?thesis by simp
  next
    case False
    show ?thesis
    proof (cases "fork_handle v i")
      case None
      from fork_file_none [OF this, of AccessDenied AccessDenied] obtain e where "fork_file i AccessDenied AccessDenied v = (Inl (Refused e), v)"
        by blast
      with access run ok False None show ?thesis by (auto simp: bind_Inl)
    next
      case (Some f)
      from fork_file_handle [OF Some] obtain k t where
        f: "vo_fork_refs v i = Some (k, t)" "handle_at v (k, t) = Some f" "fork_file i AccessDenied AccessDenied v = (Inr (k, t, f), v)"
        by blast
      obtain r1 v1 where s: "seek_fork env i f n MiscErr v = (r1, v1)" by (cases "seek_fork env i f n MiscErr v")
      note seek = seek_fork_spec [OF H s forks_ok_pos [OF ok f(1,2)]]
      show ?thesis
      proof (cases r1)
        case (Inl e)
        with seek have t: "touched contents offset synced i f v v1" "e = Refused MiscErr" "vo_fork_pos v1 i = None" by auto
        then have "forks_ok offset synced v1" using touched_ok [OF ok f(1,2), of contents v1] by simp
        with t access run False f(3) s Inl Some show ?thesis by (auto simp: bind_Inr bind_Inl touched_def)
      next
        case (Inr u)
        with seek have t: "touched contents offset synced i f v v1" "offset (vo_world v1) f = n" by auto
        obtain b w2 where w: "h_write_all H (vo_world v1) f d = (b, w2)" by (cases "h_write_all H (vo_world v1) f d")
        have v': "r = (if b then Inr (length d) else Inl (Refused MiscErr))"
          "v' = set_pos i (if b then Some (n + length d) else None) (mark_dirty (k, t) (v1\<lparr>vo_world := w2\<rparr>))"
          using access run False f(3) s Inr w H by (auto simp: bind_Inr action_defs split: if_splits)
        have "forks_ok offset synced v'"
          by (rule forks_ok_step [OF ok f(1,2), of v' "if b then Some (n + length d) else None"])
            (use t w write_frame [OF w] write_ok [of "vo_world v1" f d w2] in
              \<open>auto simp: v' set_pos_def mark_dirty_def touched_def quiet_def split: if_splits\<close>)
        moreover have "contents (vo_world v') f = overwrite n d (contents (vo_world v) f)" if b
          using that w write_ok [of "vo_world v1" f d w2] t by (auto simp: v' set_pos_def mark_dirty_def touched_def quiet_def)
        ultimately show ?thesis using t(1) False Some by (simp add: v' set_pos_def mark_dirty_def touched_def)
      qed
    qed
  qed
qed

lemma set_fork_parms_spec:
  fixes v v' :: "('h, 't, 'w) Volume"
  assumes H: "ev_host env = H" and ok: "forks_ok offset synced v" and run: "set_fork_parms env cmd v = (r, v')"
  shows "forks_ok offset synced v'"
proof -
  let ?i = "sf_fork_ref_num cmd"
  have step: "forks_ok offset synced (if b then mark_dirty (n, t) (set_pos ?i None (v\<lparr>vo_world := w'\<rparr>)) else v\<lparr>vo_world := w'\<rparr>)"
    if "vo_fork_refs v ?i = Some (n, t)" "vo_nodes v n = Some node" "node_fork t node = Some f" "h_set_len H (vo_world v) f len = (b, w')"
    for n t node f len b w'
  proof -
    have f: "handle_at v (n, t) = Some f" using that by (simp add: handle_at_def)
    have failed: "\<not> b \<Longrightarrow> synced w' g = synced (vo_world v) g" for g
      by (cases "g = f") (use that(4) resize_frame [OF that(4)] resize_failed [of "vo_world v" f len w'] in auto)
    show ?thesis
      by (rule forks_ok_step [OF ok that(1) f, where p = "if b then None else vo_fork_pos v ?i"])
        (use that(4) failed resize_frame [OF that(4)] resize_failed [of "vo_world v" f len w'] forks_ok_pos [OF ok that(1) f] in
          \<open>auto simp: set_pos_def mark_dirty_def split: if_splits\<close>)
  qed
  show ?thesis
    using run H step [where b = True] step [where b = False] ok
    by (auto simp: set_fork_parms_def action_defs split: option.splits prod.splits if_splits)
qed

lemma forks_ok_weaken:
  assumes ok: "forks_ok offset synced v" and nodes: "vo_nodes v' = vo_nodes v" and refs: "vo_fork_refs v' = vo_fork_refs v"
    and pos: "vo_fork_pos v' = vo_fork_pos v" and off: "offset (vo_world v') = offset (vo_world v)"
    and keep: "\<And>g. synced (vo_world v) g \<Longrightarrow> synced (vo_world v') g"
    and clean: "\<And>key f. handle_at v key = Some f \<Longrightarrow> key \<in> vo_dirty v \<Longrightarrow> key \<notin> vo_dirty v' \<Longrightarrow> synced (vo_world v') f"
  shows "forks_ok offset synced v'"
proof -
  note at = handle_at_cong [OF nodes]
  have "\<forall>key f. handle_at v' key = Some f \<and> key \<notin> vo_dirty v' \<longrightarrow> synced (vo_world v') f"
    using forks_ok_clean [OF ok] keep clean at by metis
  moreover have "\<forall>i key f p. vo_fork_refs v' i = Some key \<and> handle_at v' key = Some f \<and> vo_fork_pos v' i = Some p \<longrightarrow> offset (vo_world v') f = p"
    using forks_ok_pos [OF ok] at refs pos off by metis
  moreover have "\<forall>a b f. handle_at v' a = Some f \<and> handle_at v' b = Some f \<longrightarrow> a = b" using forks_ok_handle [OF ok] at by metis
  moreover have "\<forall>i j key. vo_fork_refs v' i = Some key \<and> vo_fork_refs v' j = Some key \<longrightarrow> i = j"
    using forks_ok_ref [OF ok] refs by metis
  ultimately show ?thesis unfolding forks_ok_def by (intro conjI) (assumption | blast)+
qed

lemma sync_each_failed: "sync_each env keys result v = (r, v') \<Longrightarrow> isl result \<Longrightarrow> isl r"
proof (induction keys arbitrary: result v)
  case (Cons k keys)
  obtain n t where "k = (n, t)" by (cases k)
  with Cons.prems(1) obtain result' v1 where "sync_each env keys result' v1 = (r, v')" "result' = result \<or> isl result'"
    by (simp add: Let_def case_prod_beta split: option.splits if_splits)
  with Cons show ?case by blast
qed simp

text \<open>Flushing the forks on a list: until they are done they count as written.\<close>

lemma sync_each_spec:
  assumes H: "ev_host env = H" and "sync_each env keys result v = (r, v')"
    and "forks_ok offset synced (v\<lparr>vo_dirty := vo_dirty v \<union> set keys\<rparr>)"
  shows "forks_ok offset synced v' \<and> (r = Inr () \<longrightarrow> vo_dirty v' = vo_dirty v)"
  using assms
proof (induction env keys result v rule: sync_each.induct)
  case (2 env' n t keys result v)
  show ?case
  proof (cases "handle_at v (n, t)")
    case None
    have "forks_ok offset synced (v\<lparr>vo_dirty := vo_dirty v \<union> set keys\<rparr>)"
      by (rule forks_ok_weaken [OF "2.prems"(3)]) (use None in \<open>auto simp: handle_at_def\<close>)
    with "2.IH"(1,2) "2.prems"(1,2) None show ?thesis by (auto simp: handle_at_def split: option.splits)
  next
    case (Some f)
    obtain b w where w: "h_sync_data (ev_host env') (vo_world v) f = (b, w)" by (cases "h_sync_data (ev_host env') (vo_world v) f")
    let ?v = "v\<lparr>vo_world := w\<rparr>"
    have fork: "vo_nodes v n \<noteq> None" "\<And>node. vo_nodes v n = Some node \<Longrightarrow> node_fork t node = Some f"
      using Some by (auto simp: handle_at_def split: option.splits)
    then obtain node where node: "vo_nodes v n = Some node" "node_fork t node = Some f" by blast
    have sync: "offset w = offset (vo_world v)" "\<And>g. synced (vo_world v) g \<Longrightarrow> synced w g" "b \<Longrightarrow> synced w f"
      using w "2.prems"(1) sync_frame [of "vo_world v" f b w] sync_ok [of "vo_world v" f w] by auto
    show ?thesis
    proof (cases b)
      case True
      have "forks_ok offset synced (?v\<lparr>vo_dirty := vo_dirty v \<union> set keys\<rparr>)"
        by (rule forks_ok_weaken [OF "2.prems"(3)]) (use Some sync True in auto)
      with "2.IH"(3) [OF node w [symmetric] refl refl True "2.prems"(1)] "2.prems"(1,2) node w True show ?thesis by auto
    next
      case False
      have "forks_ok offset synced ((mark_dirty (n, t) ?v)\<lparr>vo_dirty := vo_dirty (mark_dirty (n, t) ?v) \<union> set keys\<rparr>)"
        by (rule forks_ok_weaken [OF "2.prems"(3)]) (use sync in \<open>auto simp: mark_dirty_def\<close>)
      moreover have run: "sync_each env' keys (Inl (Refused AccessDenied)) (mark_dirty (n, t) ?v) = (r, v')"
        using "2.prems"(2) node w False by simp
      ultimately have "forks_ok offset synced v'" using "2.IH"(4) [OF node w [symmetric] refl refl False "2.prems"(1)] by blast
      moreover have "isl r" using sync_each_failed [OF run] by simp
      ultimately show ?thesis by auto
    qed
  qed
qed simp

end

section \<open>A host in memory\<close>

text \<open>Each handle is a file with a position and a mark; a read returns at most 512 bytes at a time.\<close>

type_synonym mem_file = "bytes \<times> nat \<times> bool"

definition mem_host :: "(nat \<Rightarrow> mem_file, nat) Host" where
  "mem_host = \<lparr>h_now = (\<lambda>w. 0), h_metadata = (\<lambda>w p. Some \<lparr>md_len = 0, md_created = None, md_modified = None\<rparr>), h_read_dir = (\<lambda>w p. Some []),
     h_open = (\<lambda>w p. (None, w)), h_open_create = (\<lambda>w p. (None, w)), h_create = (\<lambda>w p. (True, w)), h_create_dir = (\<lambda>w p. (True, w)),
     h_create_dir_all = (\<lambda>w p. (True, w)), h_rename = (\<lambda>w p q. (True, w)), h_copy = (\<lambda>w p q. (True, w)), h_remove_file = (\<lambda>w p. (True, w)),
     h_remove_dir = (\<lambda>w p. (True, w)), h_xattr_list = (\<lambda>w p. []), h_xattr_get = (\<lambda>w p a. Some None), h_xattr_set = (\<lambda>w p a x. (True, w)),
     h_mime_type = (\<lambda>w p. None),
     h_seek = (\<lambda>w f n. case w f of (c, p, s) \<Rightarrow> (True, w(f := (c, n, s)))),
     h_read = (\<lambda>w f n. case w f of (c, p, s) \<Rightarrow> let d = take (min n 512) (drop p c) in (Some d, w(f := (c, p + length d, s)))),
     h_write_all = (\<lambda>w f d. case w f of (c, p, s) \<Rightarrow> (True, w(f := (overwrite p d c, p + length d, False)))),
     h_set_len = (\<lambda>w f n. case w f of (c, p, s) \<Rightarrow> (True, w(f := (resize n c, p, False)))),
     h_sync_data = (\<lambda>w f. case w f of (c, p, s) \<Rightarrow> (True, w(f := (c, p, True))))\<rparr>"

definition mem_contents :: "(nat \<Rightarrow> mem_file) \<Rightarrow> nat \<Rightarrow> bytes" where "mem_contents w f = fst (w f)"
definition mem_offset :: "(nat \<Rightarrow> mem_file) \<Rightarrow> nat \<Rightarrow> nat" where "mem_offset w f = fst (snd (w f))"
definition mem_synced :: "(nat \<Rightarrow> mem_file) \<Rightarrow> nat \<Rightarrow> bool" where "mem_synced w f = snd (snd (w f))"

lemma mem_calls:
  "h_seek mem_host w f n = (True, w(f := (mem_contents w f, n, mem_synced w f)))"
  "h_read mem_host w f n = (let d = take (min n 512) (drop (mem_offset w f) (mem_contents w f))
     in (Some d, w(f := (mem_contents w f, mem_offset w f + length d, mem_synced w f))))"
  "h_write_all mem_host w f d = (True, w(f := (overwrite (mem_offset w f) d (mem_contents w f), mem_offset w f + length d, False)))"
  "h_set_len mem_host w f n = (True, w(f := (resize n (mem_contents w f), mem_offset w f, False)))"
  "h_sync_data mem_host w f = (True, w(f := (mem_contents w f, mem_offset w f, True)))"
  by (simp_all add: mem_host_def mem_contents_def mem_offset_def mem_synced_def split: prod.splits)

lemma mem_upd:
  "mem_contents (w(f := (c, p, s))) = (mem_contents w)(f := c)" "mem_offset (w(f := (c, p, s))) = (mem_offset w)(f := p)"
  "mem_synced (w(f := (c, p, s))) = (mem_synced w)(f := s)"
  by (simp_all add: mem_contents_def mem_offset_def mem_synced_def fun_eq_iff)

interpretation mem: host_files mem_host mem_contents mem_offset mem_synced
proof unfold_locales
  fix w f n d w' assume "h_read mem_host w f n = (Some d, w')"
  then show "length d \<le> n \<and> d = take (length d) (drop (mem_offset w f) (mem_contents w f)) \<and> mem_offset w' f = mem_offset w f + length d"
    by (auto simp: mem_calls mem_upd Let_def) (simp add: min_def)
qed (auto simp: mem_calls mem_upd Let_def)

end
