(* ===== verification/Afp_Desktop_Props.thy ===== *)
theory Afp_Desktop_Props
  imports Afp_Desktop
begin

text \<open>
  What the desktop database promises over a tree that works: comments are a map from paths, registered applications a map from
  creator and tag to a file, which clients list by index. Copying an application is shown to move its registration.
\<close>

section \<open>Registrations\<close>

definition appl_entry :: "bytes \<Rightarrow> u32 \<times> bytes" where
  "appl_entry v = (read_u32 v 0, take (unat (v ! 4)) (drop 5 v))"

definition appls_wf :: "(bytes, bytes) omap \<Rightarrow> bool" where
  "appls_wf m \<longleftrightarrow> (\<forall>(k, v) \<in> set m. length k = 8 \<and> (\<exists>d p. length p \<le> 255 \<and> utf8_valid p \<and> v = appl_value d p))"

definition registration :: "(bytes, bytes) omap \<Rightarrow> bytes \<Rightarrow> u32 \<Rightarrow> (u32 \<times> bytes) option" where
  "registration m creator tag = map_option appl_entry (map_of m (appl_key creator tag))"

lemma u32_bytes_inj [simp]: "u32_bytes a = u32_bytes b \<longleftrightarrow> a = b"
proof
  assume "u32_bytes a = u32_bytes b"
  then have "read_u32 (u32_bytes a) 0 = read_u32 (u32_bytes b) 0" by simp
  then show "a = b" by (simp add: read_u32_def u32_bytes_def)
qed simp

lemma unat_of_length: "length p \<le> 255 \<Longrightarrow> unat (word_of_nat (length p) :: u8) = length p"
  by (simp add: unat_of_nat take_bit_eq_mod)

lemma appl_value_parts:
  "length p \<le> 255 \<Longrightarrow> unat (appl_value d p ! 4) = length p" "drop 5 (appl_value d p) = p"
  "take 4 (appl_value d p) = u32_bytes d" "length (appl_value d p) = 5 + length p"
  by (simp_all add: appl_value_def nth_append unat_of_length)

lemma appl_entry_value [simp]: "length p \<le> 255 \<Longrightarrow> appl_entry (appl_value d p) = (d, p)"
  by (simp add: appl_entry_def appl_value_parts) (simp add: appl_value_def read_u32_def u32_bytes_def)

text \<open>The one byte that holds the length of a path keeps its value modulo 256.\<close>

lemma appl_entry_any: "appl_entry (appl_value d p) = (d, take (length p mod 256) p)"
proof -
  have "appl_value d p ! 4 = word_of_nat (length p)" by (simp add: appl_value_def nth_append)
  then have "unat (appl_value d p ! 4) = length p mod 256" by (simp add: unat_of_nat take_bit_eq_mod)
  then show ?thesis by (simp add: appl_entry_def) (simp add: appl_value_def read_u32_def u32_bytes_def)
qed

lemma appl_matches_value: "length q \<le> 255 \<Longrightarrow> appl_matches d p (appl_value d' q) \<longleftrightarrow> d' = d \<and> q = p"
  by (auto simp: appl_matches_def appl_value_parts Let_def)

lemma appls_wf_value:
  assumes "appls_wf m" and "map_of m k = Some v"
  shows "length k = 8" and "\<exists>d p. length p \<le> 255 \<and> utf8_valid p \<and> v = appl_value d p"
  using assms map_of_SomeD [of m k v] by (auto simp: appls_wf_def)

lemma appl_matches_entry: "appls_wf m \<Longrightarrow> map_of m k = Some v \<Longrightarrow> appl_matches d p v \<longleftrightarrow> appl_entry v = (d, p)"
  using appls_wf_value(2) [of m k v] by (auto simp: appl_matches_value)

lemma appls_wf_insert:
  "appls_wf m \<Longrightarrow> length k = 8 \<Longrightarrow> length p \<le> 255 \<Longrightarrow> utf8_valid p \<Longrightarrow> appls_wf (om_insert k (appl_value d p) m)"
  by (induction k "appl_value d p" m rule: om_insert.induct) (auto simp: appls_wf_def)

lemma appls_wf_remove: "appls_wf m \<Longrightarrow> appls_wf (om_remove k m)"
  by (auto simp: appls_wf_def om_remove_def)

section \<open>Inserting and removing several keys\<close>

lemma matching_of_ok: "[fst e. Inr e \<leftarrow> map Inr m, P (snd e)] = map fst (filter (\<lambda>e. P (snd e)) m)"
  by (induction m) auto

context sled_tree
begin

lemma insert_keys_ok:
  "healthy t \<Longrightarrow> \<exists>t'. insert_keys ops v ks t = (Inr (), t') \<and> healthy t' \<and> entries t' = foldl (\<lambda>m k. om_insert k v m) (entries t) ks"
proof (induction ks arbitrary: t)
  case (Cons k ks)
  obtain t1 where t1: "sled_insert ops t k v = (Inr (map_of (entries t) k), t1)" "healthy t1" "entries t1 = om_insert k v (entries t)"
    using insert_law [OF Cons.prems] by blast
  with Cons.IH [OF t1(2)] show ?case by auto
qed auto

lemma remove_keys_ok:
  "healthy t \<Longrightarrow> \<exists>t'. remove_keys ops ks t = (Inr (), t') \<and> healthy t' \<and> entries t' = foldl (\<lambda>m k. om_remove k m) (entries t) ks"
proof (induction ks arbitrary: t)
  case (Cons k ks)
  obtain t1 where t1: "sled_remove ops t k = (Inr (map_of (entries t) k), t1)" "healthy t1" "entries t1 = om_remove k (entries t)"
    using remove_law [OF Cons.prems] by blast
  with Cons.IH [OF t1(2)] show ?case by auto
qed auto

lemma appl_matching_keys:
  "healthy t \<Longrightarrow> appl_matching ops t d p = map fst (filter (\<lambda>e. appl_matches d p (snd e)) (entries t))"
  unfolding appl_matching_def by (simp only: iter_law matching_of_ok)

end

lemma map_of_insert_keys: "map_of (foldl (\<lambda>m k. om_insert k v m) m ks) = (\<lambda>k. if k \<in> set ks then Some v else map_of m k)"
  by (induction ks arbitrary: m) (auto simp: map_of_om_insert fun_eq_iff)

lemma map_of_remove_keys: "map_of (foldl (\<lambda>m k. om_remove k m) m ks) = (\<lambda>k. if k \<in> set ks then None else map_of m k)"
  by (induction ks arbitrary: m) (auto simp: map_of_om_remove fun_eq_iff)

lemma appls_wf_insert_keys:
  "appls_wf m \<Longrightarrow> \<forall>k\<in>set ks. length k = 8 \<Longrightarrow> length p \<le> 255 \<Longrightarrow> utf8_valid p \<Longrightarrow>
   appls_wf (foldl (\<lambda>m k. om_insert k (appl_value d p) m) m ks)"
  by (induction ks arbitrary: m) (simp_all add: appls_wf_insert)

lemma appls_wf_remove_keys: "appls_wf m \<Longrightarrow> appls_wf (foldl (\<lambda>m k. om_remove k m) m ks)"
  by (induction ks arbitrary: m) (simp_all add: appls_wf_remove)

lemma matching_iff:
  assumes "om_wf m" and "appls_wf m"
  shows "k \<in> set (map fst (filter (\<lambda>e. appl_matches d p (snd e)) m)) \<longleftrightarrow> map_option appl_entry (map_of m k) = Some (d, p)"
proof -
  have "k \<in> set (map fst (filter (\<lambda>e. appl_matches d p (snd e)) m)) \<longleftrightarrow> (\<exists>v. (k, v) \<in> set m \<and> appl_matches d p v)" by force
  also have "\<dots> \<longleftrightarrow> (\<exists>v. map_of m k = Some v \<and> appl_entry v = (d, p))"
    using assms appl_matches_entry [OF assms(2)] by (metis om_lookup_iff)
  finally show ?thesis by auto
qed

section \<open>The database as maps\<close>

lemma registration_insert_keys:
  "registration (foldl (\<lambda>m k. om_insert k (appl_value d p) m) m ks) c g =
     (if appl_key c g \<in> set ks then Some (d, take (length p mod 256) p) else registration m c g)"
  by (simp add: registration_def map_of_insert_keys appl_entry_any)

lemma registration_remove_keys:
  "registration (foldl (\<lambda>m k. om_remove k m) m ks) c g = (if appl_key c g \<in> set ks then None else registration m c g)"
  by (simp add: registration_def map_of_remove_keys)

context sled_tree
begin

lemma move_appl_ok:
  assumes "healthy (dt_appls db)" and "appls_wf (entries (dt_appls db))" and "utf8_valid new"
  shows "\<exists>t. move_appl_path ops old new od nd db = (Inr (), db\<lparr>dt_appls := t\<rparr>) \<and> healthy t
    \<and> (length new \<le> 255 \<longrightarrow> appls_wf (entries t))
    \<and> (\<forall>c g. registration (entries t) c g =
          (if registration (entries (dt_appls db)) c g = Some (od, old) then Some (nd, take (length new mod 256) new)
           else registration (entries (dt_appls db)) c g))"
proof -
  let ?m = "entries (dt_appls db)"
  let ?ks = "map fst (filter (\<lambda>e. appl_matches od old (snd e)) ?m)"
  from insert_keys_ok [OF assms(1)] obtain t where
    t: "insert_keys ops (appl_value nd new) ?ks (dt_appls db) = (Inr (), t)" "healthy t"
      "entries t = foldl (\<lambda>m k. om_insert k (appl_value nd new) m) ?m ?ks" by blast
  have "\<forall>k\<in>set ?ks. length k = 8" using assms(2) by (auto simp: appls_wf_def)
  then have "length new \<le> 255 \<longrightarrow> appls_wf (entries t)" unfolding t(3) using assms by (intro impI appls_wf_insert_keys)
  moreover have "registration (entries t) c g =
      (if registration ?m c g = Some (od, old) then Some (nd, take (length new mod 256) new) else registration ?m c g)" for c g
    using matching_iff [OF entries_sorted [OF assms(1)] assms(2), of "appl_key c g" od old]
    unfolding t(3) by (simp only: registration_insert_keys) (simp add: registration_def)
  ultimately show ?thesis
    using t(1,2) by (simp only: move_appl_path_def appl_matching_keys [OF assms(1)] Let_def) auto
qed

lemma delete_appls_ok:
  assumes "healthy (dt_appls db)" and "appls_wf (entries (dt_appls db))"
  shows "\<exists>t. delete_appls_for_path ops d p db = (Inr (), db\<lparr>dt_appls := t\<rparr>) \<and> healthy t \<and> appls_wf (entries t)
    \<and> (\<forall>c g. registration (entries t) c g =
          (if registration (entries (dt_appls db)) c g = Some (d, p) then None else registration (entries (dt_appls db)) c g))"
proof -
  let ?m = "entries (dt_appls db)"
  let ?ks = "map fst (filter (\<lambda>e. appl_matches d p (snd e)) ?m)"
  from remove_keys_ok [OF assms(1)] obtain t where t: "remove_keys ops ?ks (dt_appls db) = (Inr (), t)" "healthy t"
    "entries t = foldl (\<lambda>m k. om_remove k m) ?m ?ks" by blast
  have "appls_wf (entries t)" unfolding t(3) using assms(2) by (rule appls_wf_remove_keys)
  moreover have "registration (entries t) c g = (if registration ?m c g = Some (d, p) then None else registration ?m c g)" for c g
    using matching_iff [OF entries_sorted [OF assms(1)] assms(2), of "appl_key c g" d p]
    unfolding t(3) by (simp only: registration_remove_keys) (simp add: registration_def)
  ultimately show ?thesis
    using t(1,2) by (simp only: delete_appls_for_path_def appl_matching_keys [OF assms(1)] Let_def) auto
qed

lemma add_appl_ok:
  assumes "healthy (dt_appls db)" and "appls_wf (entries (dt_appls db))" and "length c = 4" and "length p \<le> 255" and "utf8_valid p"
  shows "\<exists>t. add_appl ops c g d p db = (Inr (), db\<lparr>dt_appls := t\<rparr>) \<and> healthy t \<and> appls_wf (entries t)
    \<and> (\<forall>c' g'. length c' = 4 \<longrightarrow> registration (entries t) c' g' =
          (if c' = c \<and> g' = g then Some (d, p) else registration (entries (dt_appls db)) c' g'))"
proof -
  from insert_law [OF assms(1), of "appl_key c g" "appl_value d p"] obtain t where
    t: "sled_insert ops (dt_appls db) (appl_key c g) (appl_value d p) = (Inr (map_of (entries (dt_appls db)) (appl_key c g)), t)"
      "healthy t" "entries t = om_insert (appl_key c g) (appl_value d p) (entries (dt_appls db))" by blast
  have "appls_wf (entries t)" unfolding t(3) using assms by (intro appls_wf_insert) (simp_all add: appl_key_def)
  moreover have "appl_key c' g' = appl_key c g \<longleftrightarrow> c' = c \<and> g' = g" if "length c' = 4" for c' g'
    using that assms(3) by (auto simp: appl_key_def)
  ultimately show ?thesis
    using t assms(4) by (auto simp: add_appl_def denied_def registration_def map_of_om_insert)
qed

end

section \<open>Scanning by creator\<close>

lemma remove_scan_ok:
  "remove_appl_scan ops d p (map Inr xs) t =
     (case find (\<lambda>e. appl_matches d p (snd e)) xs of
        None \<Rightarrow> (Inl ItemNotFound, t)
      | Some e \<Rightarrow> let (r, t') = sled_remove ops t (fst e) in (denied r, t'))"
  by (induction xs) (auto simp: case_prod_beta)

definition appl_row :: "bytes \<times> bytes \<Rightarrow> u32 \<times> u32 \<times> bytes" where
  "appl_row e = (read_u32 (fst e) 4, appl_entry (snd e))"

lemma get_scan_ok:
  assumes "appls_wf xs"
  shows "get_appl_scan n (map Inr xs) = (if n < length xs then Inr (appl_row (xs ! n)) else Inl ItemNotFound)"
  using assms
proof (induction n "map Inr xs :: (unit + bytes \<times> bytes) list" arbitrary: xs rule: get_appl_scan.induct)
  case (4 key v results)
  then obtain rest where xs: "xs = (key, v) # rest" by auto
  with "4.prems" obtain d p where v: "length key = 8" "length p \<le> 255" "utf8_valid p" "v = appl_value d p" by (auto simp: appls_wf_def)
  show ?case using v by (simp add: xs appl_row_def appl_value_parts utf8_lossy_valid appl_entry_def)
qed (auto simp: appls_wf_def)

lemma u32_bytes_be32: "u32_bytes (be32 a b c d) = [a, b, c, d]"
proof -
  have "ucast (drop_bit 24 (be32 a b c d)) = a" "ucast (drop_bit 16 (be32 a b c d)) = b" "ucast (drop_bit 8 (be32 a b c d)) = c"
    "ucast (be32 a b c d) = d"
    by (rule bit_word_eqI, auto simp: be32_def bit_simps dest: bit_imp_le_length)+
  then show ?thesis by (simp add: u32_bytes_def)
qed

lemma list_of_four: "length k = 8 \<Longrightarrow> drop 4 k = [k ! 4, k ! 5, k ! 6, k ! 7]"
  by (rule nth_equalityI) (auto simp: less_Suc_eq numeral_eq_Suc)

lemma creator_prefix: "length c = 4 \<Longrightarrow> length k = 8 \<Longrightarrow> prefix c k \<longleftrightarrow> k = appl_key c (read_u32 k 4)"
proof -
  assume c: "length c = 4" and k: "length k = 8"
  have "drop 4 k = u32_bytes (read_u32 k 4)"
    using k by (simp add: read_u32_def u32_bytes_be32 list_of_four)
  then show ?thesis using c k by (metis append_eq_conv_conj append_take_drop_id appl_key_def prefix_def)
qed

lemma u32_bytes_less: "u32_bytes g < u32_bytes h \<longleftrightarrow> g < h"
proof -
  have byte: "unat (ucast (drop_bit n w) :: u8) = unat w div 2 ^ n mod 256" for n and w :: u32
    by (simp only: unsigned_ucast_eq unat_drop_bit_eq take_bit_eq_mod) (simp add: drop_bit_eq_div)
  have byte0: "unat (ucast w :: u8) = unat w mod 256" for w :: u32
    by (simp add: unsigned_ucast_eq take_bit_eq_mod)
  have split: "w = 16777216 * (w div 16777216 mod 256) + 65536 * (w div 65536 mod 256) + 256 * (w div 256 mod 256) + w mod 256"
    if "w < 4294967296" for w :: nat
  proof -
    have "w div 65536 = w div 256 div 256" "w div 16777216 = w div 256 div 256 div 256"
      by (simp_all add: div_mult2_eq [of w 256 256, symmetric] div_mult2_eq [of w 65536 256, symmetric])
    moreover have "w div 256 div 256 div 256 < 256" using that by (simp add: div_mult2_eq [symmetric] div_less_iff_less_mult)
    moreover have "x = 256 * q + r0 \<Longrightarrow> q = 256 * q' + r1 \<Longrightarrow> q' = 256 * q'' + r2 \<Longrightarrow> x = 16777216 * q'' + 65536 * r2 + 256 * r1 + r0"
      for x q q' q'' r0 r1 r2 :: nat by simp
    note this [OF mult_div_mod_eq [symmetric] mult_div_mod_eq [symmetric] mult_div_mod_eq [symmetric], of w]
    ultimately show ?thesis by (simp only: mod_less)
  qed
  define a b c d where "a = unat g div 16777216 mod 256" and "b = unat g div 65536 mod 256" and "c = unat g div 256 mod 256" and "d = unat g mod 256"
  define a' b' c' d' where "a' = unat h div 16777216 mod 256" and "b' = unat h div 65536 mod 256" and "c' = unat h div 256 mod 256" and "d' = unat h mod 256"
  note defs = a_def b_def c_def d_def a'_def b'_def c'_def d'_def
  have lt: "a < 256" "b < 256" "c < 256" "d < 256" "a' < 256" "b' < 256" "c' < 256" "d' < 256" by (simp_all add: defs)
  have g: "unat g = 16777216 * a + 65536 * b + 256 * c + d" and h: "unat h = 16777216 * a' + 65536 * b' + 256 * c' + d'"
    unfolding defs by (rule split, use unsigned_less [of g] unsigned_less [of h] in simp)+
  have "u32_bytes g < u32_bytes h \<longleftrightarrow> a < a' \<or> a = a' \<and> (b < b' \<or> b = b' \<and> (c < c' \<or> c = c' \<and> d < d'))"
    unfolding defs by (simp add: u32_bytes_def word_less_nat_alt word_unat_eq_iff byte byte0 unat_drop_bit_eq) (simp add: drop_bit_eq_div)
  also have "\<dots> \<longleftrightarrow> unat g < unat h" using lt unfolding g h by auto
  finally show ?thesis by (simp add: word_less_nat_alt)
qed

lemma same_prefix_less: "c @ a < c @ b \<longleftrightarrow> a < b" for c :: "'a :: linorder list"
  by (induction c) auto

text \<open>The rows of one creator, in the order of their tags.\<close>

definition creator_rows :: "(bytes, bytes) omap \<Rightarrow> bytes \<Rightarrow> (u32 \<times> u32 \<times> bytes) list" where
  "creator_rows m c = map appl_row (filter (\<lambda>e. prefix c (fst e)) m)"

lemma creator_rows_iff:
  assumes "om_wf m" and "appls_wf m" and "length c = 4"
  shows "(g, d, p) \<in> set (creator_rows m c) \<longleftrightarrow> registration m c g = Some (d, p)"
proof -
  have "(g, d, p) \<in> set (creator_rows m c) \<longleftrightarrow> (\<exists>k v. (k, v) \<in> set m \<and> prefix c k \<and> read_u32 k 4 = g \<and> appl_entry v = (d, p))"
    by (force simp: creator_rows_def appl_row_def)
  also have "\<dots> \<longleftrightarrow> (\<exists>v. (appl_key c g, v) \<in> set m \<and> appl_entry v = (d, p))"
  proof -
    have "read_u32 (appl_key c g) 4 = g" "prefix c (appl_key c g)"
      using assms(3) by (simp_all add: appl_key_def read_u32_def u32_bytes_def nth_append)
    moreover have "length k = 8" if "(k, v) \<in> set m" for k v using that assms(2) by (auto simp: appls_wf_def)
    ultimately show ?thesis using creator_prefix [OF assms(3)] by metis
  qed
  finally show ?thesis using assms(1) by (auto simp: registration_def om_lookup_iff)
qed

lemma creator_rows_sorted:
  assumes "om_wf m" and "appls_wf m" and "length c = 4"
  shows "sorted_wrt (<) (map fst (creator_rows m c))"
proof -
  let ?l = "filter (\<lambda>e. prefix c (fst e)) m"
  have "sorted_wrt (\<lambda>a b. fst a < fst b) ?l" using assms(1) by (simp add: om_wf_def sorted_wrt_map sorted_wrt_filter)
  moreover have "read_u32 (fst a) 4 < read_u32 (fst b) 4" if "a \<in> set ?l" "b \<in> set ?l" "fst a < fst b" for a b
  proof -
    have "length (fst a) = 8" "length (fst b) = 8" using that assms(2) by (auto simp: appls_wf_def)
    then have "fst a = appl_key c (read_u32 (fst a) 4)" "fst b = appl_key c (read_u32 (fst b) 4)"
      using creator_prefix [OF assms(3)] that by auto
    then show ?thesis using that(3) by (metis appl_key_def same_prefix_less u32_bytes_less)
  qed
  ultimately show ?thesis
    unfolding creator_rows_def sorted_wrt_map appl_row_def fst_conv by (rule sorted_wrt_mono_rel [rotated])
qed

context sled_tree
begin

lemma get_appl_ok:
  assumes "healthy (dt_appls db)" and "appls_wf (entries (dt_appls db))"
  shows "get_appl ops db c i =
    (let l = creator_rows (entries (dt_appls db)) c in if unat i - 1 < length l then Inr (l ! (unat i - 1)) else Inl ItemNotFound)"
proof -
  have "appls_wf (filter (\<lambda>e. prefix c (fst e)) (entries (dt_appls db)))" using assms(2) by (auto simp: appls_wf_def)
  then show ?thesis
    unfolding get_appl_def scan_law [OF assms(1)] by (simp only: get_scan_ok) (simp add: creator_rows_def Let_def)
qed

lemma remove_appl_ok:
  assumes ok: "healthy (dt_appls db)" and wf: "appls_wf (entries (dt_appls db))" and c: "length c = 4"
  shows "if \<exists>g. registration (entries (dt_appls db)) c g = Some (d, p)
    then \<exists>g t. registration (entries (dt_appls db)) c g = Some (d, p) \<and> remove_appl ops c d p db = (Inr (), db\<lparr>dt_appls := t\<rparr>)
       \<and> healthy t \<and> appls_wf (entries t)
       \<and> (\<forall>c' g'. length c' = 4 \<longrightarrow> registration (entries t) c' g' =
             (if c' = c \<and> g' = g then None else registration (entries (dt_appls db)) c' g'))
    else remove_appl ops c d p db = (Inl ItemNotFound, db)"
proof -
  let ?m = "entries (dt_appls db)"
  let ?l = "filter (\<lambda>e. prefix c (fst e)) ?m"
  note sorted = entries_sorted [OF ok]
  have run: "remove_appl ops c d p db = (case find (\<lambda>e. appl_matches d p (snd e)) ?l of
      None \<Rightarrow> (Inl ItemNotFound, db)
    | Some e \<Rightarrow> let (r, t') = sled_remove ops (dt_appls db) (fst e) in (denied r, db\<lparr>dt_appls := t'\<rparr>))"
    unfolding remove_appl_def scan_law [OF ok] remove_scan_ok by (auto simp: Let_def case_prod_beta split: option.splits)
  show ?thesis
  proof (cases "find (\<lambda>e. appl_matches d p (snd e)) ?l")
    case None
    then have "\<not> appl_matches d p v" if "(k, v) \<in> set ?m" "prefix c k" for k v using that by (auto simp: find_None_iff)
    then have "registration ?m c g \<noteq> Some (d, p)" for g
      using appl_matches_entry [OF wf] sorted by (auto simp: registration_def appl_key_def om_lookup_iff)
    with run None show ?thesis by simp
  next
    case (Some e)
    then have "e \<in> set ?l \<and> appl_matches d p (snd e)" by (metis find_Some_iff nth_mem)
    then obtain k v where e: "e = (k, v)" "(k, v) \<in> set ?m" "prefix c k" "appl_matches d p v" by (cases e) auto
    then have k8: "length k = 8" using wf by (auto simp: appls_wf_def)
    define g where "g = read_u32 k 4"
    have k: "k = appl_key c g" using creator_prefix [OF c k8] e(3) by (simp add: g_def)
    have reg: "registration ?m c g = Some (d, p)"
      using e appl_matches_entry [OF wf, of k v] sorted by (auto simp add: registration_def om_lookup_iff simp flip: k)
    obtain t where t: "sled_remove ops (dt_appls db) k = (Inr (map_of ?m k), t)" "healthy t" "entries t = om_remove k ?m"
      using remove_law [OF ok] by blast
    have "registration (entries t) c' g' = (if c' = c \<and> g' = g then None else registration ?m c' g')" if "length c' = 4" for c' g'
      using that c by (auto simp: registration_def t(3) map_of_om_remove k appl_key_def)
    with reg run Some e(1) t appls_wf_remove [OF wf] show ?thesis by (auto simp: denied_def intro!: exI [of _ g] exI [of _ t])
  qed
qed

end

section \<open>Properties\<close>

definition desktop_ok :: "('t \<Rightarrow> bool) \<Rightarrow> ('t \<Rightarrow> (bytes, bytes) omap) \<Rightarrow> 't DesktopDatabase \<Rightarrow> bool" where
  "desktop_ok healthy entries db \<longleftrightarrow> healthy (dt_appls db) \<and> healthy (dt_comments db) \<and> appls_wf (entries (dt_appls db))"

definition app :: "('t \<Rightarrow> (bytes, bytes) omap) \<Rightarrow> 't DesktopDatabase \<Rightarrow> bytes \<Rightarrow> u32 \<Rightarrow> (u32 \<times> bytes) option" where
  "app entries db c g = registration (entries (dt_appls db)) c g"

definition comment_at :: "('t \<Rightarrow> (bytes, bytes) omap) \<Rightarrow> 't DesktopDatabase \<Rightarrow> bytes \<Rightarrow> bytes option" where
  "comment_at entries db path = map_of (entries (dt_comments db)) (utf8_lossy path)"

text \<open>
Claim C36: The registered applications are a map from creator and tag to a file. Adding one whose path is longer than 255
  bytes is refused and changes nothing; adding any other changes that entry; deleting a file drops every entry that names
  it; and removing an application drops one entry of its creator that names it or reports that there is none.
  Moving a file renames all of its entries: to the new path if it has at most 255 bytes, but a longer one is not refused,
  and its entries then name its first bytes, as many as its length modulo 256. Nothing else changes.\<close>

theorem desktop_registrations:
  assumes "sled_tree ops healthy entries" and "desktop_ok healthy entries db" and "length c = 4" and "utf8_valid p"
  shows "(if 255 < length p then add_appl ops c g d p db = (Inl ParamError, db)
          else \<exists>db'. add_appl ops c g d p db = (Inr (), db') \<and> desktop_ok healthy entries db'
           \<and> (\<forall>c' g'. length c' = 4 \<longrightarrow> app entries db' c' g' = (if c' = c \<and> g' = g then Some (d, p) else app entries db c' g')))
    \<and> (\<exists>db'. delete_appls_for_path ops d p db = (Inr (), db') \<and> desktop_ok healthy entries db'
           \<and> (\<forall>c' g'. app entries db' c' g' = (if app entries db c' g' = Some (d, p) then None else app entries db c' g')))
    \<and> (\<exists>db'. move_appl_path ops old p od d db = (Inr (), db') \<and> (length p \<le> 255 \<longrightarrow> desktop_ok healthy entries db')
           \<and> (\<forall>c' g'. app entries db' c' g' =
                (if app entries db c' g' = Some (od, old) then Some (d, if length p \<le> 255 then p else take (length p mod 256) p)
                 else app entries db c' g')))
    \<and> (if \<exists>g. app entries db c g = Some (d, p)
         then \<exists>g db'. app entries db c g = Some (d, p) \<and> remove_appl ops c d p db = (Inr (), db') \<and> desktop_ok healthy entries db'
           \<and> (\<forall>c' g'. length c' = 4 \<longrightarrow> app entries db' c' g' = (if c' = c \<and> g' = g then None else app entries db c' g'))
         else remove_appl ops c d p db = (Inl ItemNotFound, db))"
    (is "?add \<and> ?delete \<and> ?move \<and> ?remove")
proof -
  have db: "healthy (dt_appls db)" "healthy (dt_comments db)" "appls_wf (entries (dt_appls db))"
    using assms(2) by (simp_all add: desktop_ok_def)
  note tree = assms(1)
  have keep: "desktop_ok healthy entries (db\<lparr>dt_appls := t\<rparr>)" if "healthy t" "appls_wf (entries t)" for t
    using that db(2) by (simp add: desktop_ok_def)
  have at: "app entries (db\<lparr>dt_appls := t\<rparr>) = registration (entries t)" for t by (simp add: app_def fun_eq_iff)
  have ?add
  proof (cases "255 < length p")
    case True
    then show ?thesis by (simp add: add_appl_def)
  next
    case False
    then have l: "length p \<le> 255" by simp
    from sled_tree.add_appl_ok [OF tree db(1,3) assms(3) l assms(4), of g d] obtain t where
      t: "add_appl ops c g d p db = (Inr (), db\<lparr>dt_appls := t\<rparr>)" "healthy t" "appls_wf (entries t)"
      and r: "\<forall>c' g'. length c' = 4 \<longrightarrow> app entries (db\<lparr>dt_appls := t\<rparr>) c' g' = (if c' = c \<and> g' = g then Some (d, p) else app entries db c' g')"
      unfolding at by (auto simp: app_def)
    with keep [OF t(2,3)] False show ?thesis by (simp only: if_False) blast
  qed
  moreover have ?delete using sled_tree.delete_appls_ok [OF tree db(1,3), of d p] keep at by (metis app_def)
  moreover have ?move
  proof -
    from sled_tree.move_appl_ok [OF tree db(1,3) assms(4), of old od d] obtain t where
      t: "move_appl_path ops old p od d db = (Inr (), db\<lparr>dt_appls := t\<rparr>)" "healthy t" "length p \<le> 255 \<longrightarrow> appls_wf (entries t)"
      and r: "\<forall>c g. registration (entries t) c g = (if app entries db c g = Some (od, d') then Some (d, take (length p mod 256) p)
          else app entries db c g)" if "d' = old" for d'
      by (auto simp: app_def)
    have "length p \<le> 255 \<Longrightarrow> take (length p mod 256) p = p" by simp
    then show ?thesis using t r [OF refl] keep at by (intro exI [of _ "db\<lparr>dt_appls := t\<rparr>"]) simp
  qed
  moreover have ?remove
  proof (cases "\<exists>g. app entries db c g = Some (d, p)")
    case True
    with sled_tree.remove_appl_ok [OF tree db(1,3) assms(3), of d p] obtain g t where
      "app entries db c g = Some (d, p)" "remove_appl ops c d p db = (Inr (), db\<lparr>dt_appls := t\<rparr>)" "healthy t" "appls_wf (entries t)"
      "\<forall>c' g'. length c' = 4 \<longrightarrow> registration (entries t) c' g' = (if c' = c \<and> g' = g then None else app entries db c' g')"
      by (auto simp: app_def)
    with keep at True show ?thesis by (metis (no_types, lifting))
  next
    case False
    with sled_tree.remove_appl_ok [OF tree db(1,3) assms(3), of d p] show ?thesis by (simp add: app_def)
  qed
  ultimately show ?thesis by blast
qed

text \<open>A volume whose database is empty, on the tree of entries in key order.\<close>

definition empty_desktop :: "(bytes, bytes) omap DesktopDatabase" where
  "empty_desktop = \<lparr>dt_ref_num = 1, dt_icons = [], dt_comments = [], dt_appls = [], dt_mangle_names = []\<rparr>"

lemma empty_desktop_ok: "desktop_ok om_wf id empty_desktop"
  by (simp add: desktop_ok_def empty_desktop_def appls_wf_def om_wf_def)

lemma desktop_registrations_witness:
  "\<exists>db'. add_appl om_tree (ascii ''MACS'') 7 2 (ascii ''Finder'') empty_desktop = (Inr (), db')
     \<and> app id db' (ascii ''MACS'') 7 = Some (2, ascii ''Finder'')"
proof -
  have h: "length (ascii ''MACS'') = 4" "length (ascii ''Finder'') \<le> 255" "utf8_valid (ascii ''Finder'')"
    by (simp_all add: ascii_def utf8_char_def utf8_tail_def)
  from desktop_registrations [OF om_sled.sled_tree_axioms empty_desktop_ok h(1,3), THEN conjunct1, of 7 2] h(1,2) show ?thesis
    by (simp only: not_less [symmetric] if_False) metis
qed

text \<open>
A client that walks the index of a creator from 1 sees every file registered for it once, in the order of the tags, and
  is then told that there are no more. Index 0 is index 1.\<close>

theorem desktop_applications_listed:
  assumes "sled_tree ops healthy entries" and "desktop_ok healthy entries db" and "length c = 4"
  shows "\<exists>rows. sorted_wrt (<) (map fst rows) \<and> (\<forall>g d p. (g, d, p) \<in> set rows \<longleftrightarrow> app entries db c g = Some (d, p))
    \<and> (\<forall>i. get_appl ops db c i = (if unat i - 1 < length rows then Inr (rows ! (unat i - 1)) else Inl ItemNotFound))"
proof -
  have db: "healthy (dt_appls db)" "appls_wf (entries (dt_appls db))" using assms(2) by (simp_all add: desktop_ok_def)
  note tree = assms(1)
  note sorted = sled_tree.entries_sorted [OF tree db(1)]
  show ?thesis
    using creator_rows_sorted [OF sorted db(2) assms(3)] creator_rows_iff [OF sorted db(2) assms(3)] sled_tree.get_appl_ok [OF tree db]
    by (intro exI [of _ "creator_rows (entries (dt_appls db)) c"]) (simp add: app_def Let_def)
qed

lemma desktop_applications_listed_witness: "get_appl om_tree empty_desktop (ascii ''MACS'') 1 = Inl ItemNotFound"
proof -
  have "length (ascii ''MACS'') = 4" by (simp add: ascii_def)
  from desktop_applications_listed [OF om_sled.sled_tree_axioms empty_desktop_ok this] obtain rows where
    rows: "\<forall>g d p. (g, d, p) \<in> set rows \<longleftrightarrow> app id empty_desktop (ascii ''MACS'') g = Some (d, p)"
      "\<forall>i. get_appl om_tree empty_desktop (ascii ''MACS'') i = (if unat i - 1 < length rows then Inr (rows ! (unat i - 1)) else Inl ItemNotFound)"
    by blast
  have "app id empty_desktop (ascii ''MACS'') g = None" for g by (simp add: app_def registration_def empty_desktop_def)
  with rows(1) have "rows = []" by (cases rows) auto
  with rows(2) show ?thesis by simp
qed

text \<open>
Copying a file with registered applications does not copy the registrations: it does exactly what moving the file does.
  Afterwards no registration names the original, and every one that did names the copy.\<close>

theorem desktop_copy_moves_registration:
  assumes "sled_tree ops healthy entries" and "desktop_ok healthy entries db" and "length dst \<le> 255" and "utf8_valid dst"
    and "(sd, src) \<noteq> (dd, dst)"
  shows "copy_appl ops src dst sd dd db = move_appl_path ops src dst sd dd db
    \<and> (\<exists>db'. copy_appl ops src dst sd dd db = (Inr (), db') \<and> (\<forall>c g. app entries db' c g \<noteq> Some (sd, src))
         \<and> (\<forall>c g. app entries db c g = Some (sd, src) \<longrightarrow> app entries db' c g = Some (dd, dst)))"
proof -
  have same: "copy_appl ops src dst sd dd db = move_appl_path ops src dst sd dd db" by (simp add: copy_appl_def move_appl_path_def)
  have db: "healthy (dt_appls db)" "appls_wf (entries (dt_appls db))" using assms(2) by (simp_all add: desktop_ok_def)
  have "take (length dst mod 256) dst = dst" using assms(3) by simp
  with sled_tree.move_appl_ok [OF assms(1) db assms(4), of src sd dd] obtain t where
    "move_appl_path ops src dst sd dd db = (Inr (), db\<lparr>dt_appls := t\<rparr>)"
    "\<forall>c g. registration (entries t) c g = (if app entries db c g = Some (sd, src) then Some (dd, dst) else app entries db c g)"
    by (auto simp: app_def)
  with same assms(5) show ?thesis by (auto simp: app_def)
qed

lemma desktop_copy_moves_registration_witness:
  "copy_appl om_tree (ascii ''Finder'') (ascii ''Finder copy'') 2 2 empty_desktop =
   move_appl_path om_tree (ascii ''Finder'') (ascii ''Finder copy'') 2 2 empty_desktop"
proof -
  have "length (ascii ''Finder copy'') \<le> 255" "utf8_valid (ascii ''Finder copy'')" "(2 :: u32, ascii ''Finder'') \<noteq> (2, ascii ''Finder copy'')"
    by (simp_all add: ascii_def utf8_char_def utf8_tail_def)
  from desktop_copy_moves_registration [OF om_sled.sled_tree_axioms empty_desktop_ok this] show ?thesis by blast
qed

text \<open>
Comments are a map from paths. Setting, removing, moving and copying one update that map, moving or copying the comment
  of a file without one changes nothing, and reading returns the comment of the path or reports that there is none.\<close>

theorem desktop_comments:
  assumes "sled_tree ops healthy entries" and "desktop_ok healthy entries db"
  shows "(\<exists>db'. set_comment ops p c db = (Inr (), db') \<and> desktop_ok healthy entries db'
           \<and> (\<forall>q. comment_at entries db' q = (if utf8_lossy q = utf8_lossy p then Some c else comment_at entries db q)))
    \<and> (\<exists>db'. remove_comment ops p db = (Inr (), db') \<and> desktop_ok healthy entries db'
           \<and> (\<forall>q. comment_at entries db' q = (if utf8_lossy q = utf8_lossy p then None else comment_at entries db q)))
    \<and> (\<exists>db'. move_comment ops p r db = (Inr (), db') \<and> desktop_ok healthy entries db'
           \<and> (\<forall>q. comment_at entries db' q =
                (if comment_at entries db p = None then comment_at entries db q
                 else if utf8_lossy q = utf8_lossy r then comment_at entries db p
                 else if utf8_lossy q = utf8_lossy p then None else comment_at entries db q)))
    \<and> (\<exists>db'. copy_comment ops p r db = (Inr (), db') \<and> desktop_ok healthy entries db'
           \<and> (\<forall>q. comment_at entries db' q =
                (if comment_at entries db p \<noteq> None \<and> utf8_lossy q = utf8_lossy r then comment_at entries db p
                 else comment_at entries db q)))
    \<and> get_comment ops db p = (case comment_at entries db p of None \<Rightarrow> Inl ItemNotFound | Some c \<Rightarrow> Inr c)"
    (is "?set \<and> ?remove \<and> ?move \<and> ?copy \<and> ?get")
proof -
  note tree = assms(1)
  have db: "healthy (dt_comments db)" using assms(2) by (simp add: desktop_ok_def)
  have keep: "desktop_ok healthy entries (db\<lparr>dt_comments := t\<rparr>)" if "healthy t" for t
    using that assms(2) by (simp add: desktop_ok_def)
  have ?set using sled_tree.insert_law [OF tree db, of "utf8_lossy p" c] keep
    by (auto simp: set_comment_def denied_def comment_at_def map_of_om_insert)
  moreover have ?remove using sled_tree.remove_law [OF tree db, of "utf8_lossy p"] keep
    by (auto simp: remove_comment_def denied_def comment_at_def map_of_om_remove)
  moreover have ?move
  proof -
    from sled_tree.remove_law [OF tree db, of "utf8_lossy p"] obtain t where
      t: "sled_remove ops (dt_comments db) (utf8_lossy p) = (Inr (comment_at entries db p), t)" "healthy t"
        "entries t = om_remove (utf8_lossy p) (entries (dt_comments db))" by (auto simp: comment_at_def)
    show ?thesis
    proof (cases "comment_at entries db p")
      case None
      then show ?thesis using t keep by (auto simp: move_comment_def comment_at_def map_of_om_remove)
    next
      case (Some c)
      from sled_tree.insert_law [OF tree t(2), of "utf8_lossy r" c] obtain t' where
        t': "sled_insert ops t (utf8_lossy r) c = (Inr (map_of (entries t) (utf8_lossy r)), t')" "healthy t'"
          "entries t' = om_insert (utf8_lossy r) c (entries t)" by blast
      with Some t keep show ?thesis
        by (auto simp: move_comment_def denied_def comment_at_def map_of_om_insert map_of_om_remove)
    qed
  qed
  moreover have ?copy
  proof (cases "comment_at entries db p")
    case None
    then show ?thesis using sled_tree.get_law [OF tree db, of "utf8_lossy p"] assms(2) by (auto simp: copy_comment_def comment_at_def)
  next
    case (Some c)
    with sled_tree.get_law [OF tree db, of "utf8_lossy p"] sled_tree.insert_law [OF tree db, of "utf8_lossy r" c] keep show ?thesis
      by (auto simp: copy_comment_def denied_def comment_at_def map_of_om_insert)
  qed
  moreover have ?get using sled_tree.get_law [OF tree db, of "utf8_lossy p"]
    by (auto simp: get_comment_def found_def comment_at_def split: option.splits)
  ultimately show ?thesis by blast
qed

lemma desktop_comments_witness: "get_comment om_tree empty_desktop (ascii ''note'') = Inl ItemNotFound"
  using desktop_comments [OF om_sled.sled_tree_axioms empty_desktop_ok, of "ascii ''note''"]
  by (simp add: comment_at_def empty_desktop_def)

end
