(* ===== verification/Afp_Fork_Theorems.thy ===== *)
theory Afp_Fork_Theorems
  imports Afp_Forks_Props Afp_Desktop_Props
begin

text \<open>
  The properties of open forks, over any host whose file calls keep to their documentation, and a session on a host in memory
  that meets their hypotheses.
\<close>

section \<open>A host that does not fail\<close>

definition reliable :: "('w, 'h) Host \<Rightarrow> bool" where
  "reliable H \<longleftrightarrow> (\<forall>w f n. fst (h_seek H w f n)) \<and> (\<forall>w f n. fst (h_read H w f n) \<noteq> None) \<and> (\<forall>w f d. fst (h_write_all H w f d))
     \<and> (\<forall>w f n. fst (h_set_len H w f n)) \<and> (\<forall>w f. fst (h_sync_data H w f))"

lemma read_full_total: "reliable H \<Longrightarrow> fst (read_full H f m got w) \<noteq> None"
proof (induction H f m got w rule: read_full.induct)
  case (1 H f m got w)
  have "fst (h_read H w f (m - length got)) \<noteq> None" using 1(2) by (simp add: reliable_def)
  then show ?case using 1 by (subst read_full.simps) (auto split: option.splits list.splits prod.splits)
qed

lemma read_line_total: "reliable H \<Longrightarrow> fst (read_line H f P m got w) \<noteq> None"
proof (induction H f P m got w rule: read_line.induct)
  case (1 H f P m got w)
  have "fst (h_read H w f (m - length got)) \<noteq> None" using 1(2) by (simp add: reliable_def)
  then show ?case using 1 by (subst read_line.simps) (auto split: option.splits list.splits prod.splits simp del: position_simps)
qed

lemma reliable_seek: "reliable H \<Longrightarrow> \<exists>w'. h_seek H w f n = (True, w')"
  unfolding reliable_def by (metis prod.collapse)

lemma reliable_write: "reliable H \<Longrightarrow> \<exists>w'. h_write_all H w f d = (True, w')"
  unfolding reliable_def by (metis prod.collapse)

lemma reliable_resize: "reliable H \<Longrightarrow> \<exists>w'. h_set_len H w f n = (True, w')"
  unfolding reliable_def by (metis prod.collapse)

lemma reliable_sync: "reliable H \<Longrightarrow> \<exists>w'. h_sync_data H w f = (True, w')"
  unfolding reliable_def by (metis prod.collapse)

lemma reliable_read_full: "reliable H \<Longrightarrow> \<exists>x w'. read_full H f m got w = (Some x, w')"
  using read_full_total [of H f m got w] by (metis option.exhaust prod.collapse)

lemma reliable_read_line: "reliable H \<Longrightarrow> \<exists>x w'. read_line H f P m got w = (Some x, w')"
  using read_line_total [of H f P m got w] by (metis option.exhaust prod.collapse)

lemma seek_fork_total: "reliable (ev_host env) \<Longrightarrow> \<exists>v'. seek_fork env i f n e v = (Inr (), v')"
  using reliable_seek [of "ev_host env" "vo_world v" f n] by (auto simp: seek_fork_def action_defs)

lemma read_fork_total:
  assumes "reliable (ev_host env)" and "fork_handle v (rd_fork_id req) = Some f"
  shows "\<exists>x v'. read_fork env req n v = (Inr x, v')"
proof -
  let ?i = "rd_fork_id req" and ?m = "min (unat (rd_req_count req)) n"
  from fork_file_handle [OF assms(2)] obtain k t where f: "fork_file ?i ObjectNotFound ObjectNotFound v = (Inr (k, t, f), v)" by blast
  obtain v1 where s: "seek_fork env ?i f (unat (rd_offset req)) AccessDenied v = (Inr (), v1)" using seek_fork_total [OF assms(1)] by blast
  obtain de w' where full: "read_full (ev_host env) f ?m [] (vo_world v1) = (Some de, w')" using reliable_read_full [OF assms(1)] by blast
  obtain de' w'' where line: "read_line (ev_host env) f (byte_matches_newline req) ?m [] (vo_world v1) = (Some de', w'')"
    using reliable_read_line [OF assms(1)] by blast
  obtain w3 where rew: "h_seek (ev_host env) w'' f (unat (rd_offset req) + length (fst de')) = (True, w3)" using reliable_seek [OF assms(1)] by blast
  show ?thesis using f s full line rew by (simp add: read_fork_def Let_def bind_Inr) (auto simp: action_defs split: prod.splits)
qed

lemma write_fork_total:
  assumes "reliable (ev_host env)" and "fork_handle v i = Some f" and "\<not> write_denied v i"
  shows "\<exists>k v'. write_fork env i n d v = (Inr k, v')"
proof -
  from fork_file_handle [OF assms(2)] obtain k t where f: "fork_file i AccessDenied AccessDenied v = (Inr (k, t, f), v)" by blast
  obtain v1 where s: "seek_fork env i f n MiscErr v = (Inr (), v1)" using seek_fork_total [OF assms(1)] by blast
  obtain w' where w: "h_write_all (ev_host env) (vo_world v1) f d = (True, w')" using reliable_write [OF assms(1)] by blast
  show ?thesis using f s w assms(3)
    by (simp add: write_fork_def bind_reads bind_Inr flip: write_denied_def) (simp add: action_defs)
qed

section \<open>Properties\<close>

text \<open>
Claim C32: A read of an open fork returns the bytes of the file from the offset asked for, as many as asked for, as fit and as there
  are, up to and including the first newline byte when one is given, and tells the end of the file; however the host cuts the file into
  chunks and although the seek is skipped when the handle is known to be in position. It changes neither the file nor the
  bookkeeping's truth, and only a call of the host that fails makes it fail.\<close>

theorem fork_read_exact:
  assumes "host_files (ev_host env) contents offset synced" and "forks_ok offset synced v"
  shows "case read_fork env req n v of (r, v') \<Rightarrow>
    forks_ok offset synced v' \<and>
    (case fork_handle v (rd_fork_id req) of
       None \<Rightarrow> r = Inl (Refused ObjectNotFound) \<and> v' = v
     | Some f \<Rightarrow>
         contents (vo_world v') f = contents (vo_world v) f
       \<and> (r = Inl (Refused AccessDenied) \<or> r = Inr (read_result req (min (unat (rd_req_count req)) n) (contents (vo_world v) f)))
       \<and> (reliable (ev_host env) \<longrightarrow> r \<noteq> Inl (Refused AccessDenied)))"
proof -
  obtain r v' where run: "read_fork env req n v = (r, v')" by (cases "read_fork env req n v")
  show ?thesis
  proof (cases "fork_handle v (rd_fork_id req)")
    case None
    with host_files.read_fork_spec [OF assms(1) refl assms(2) run] run assms(2) show ?thesis by simp
  next
    case (Some f)
    have "r \<noteq> Inl (Refused AccessDenied)" if "reliable (ev_host env)"
      using read_fork_total [OF that Some, of n] run by auto
    with host_files.read_fork_spec [OF assms(1) refl assms(2) run] run Some show ?thesis by auto
  qed
qed

text \<open>
Claim C34: A write to an open fork replaces exactly the range it names, filling a gap behind the end of the file with zeros, and
  reports its length; a write to a fork opened for reading alone, or not open, is refused and changes nothing. Only a call of
  the host that fails makes any other write fail.\<close>

theorem fork_write_exact:
  assumes "host_files (ev_host env) contents offset synced" and "forks_ok offset synced v"
  shows "case write_fork env i n d v of (r, v') \<Rightarrow>
    forks_ok offset synced v' \<and> fork_handle v' i = fork_handle v i \<and>
    (if write_denied v i \<or> fork_handle v i = None then (\<exists>e. r = Inl (Refused e)) \<and> v' = v
     else (r = Inl (Refused MiscErr) \<or> r = Inr (length d)
           \<and> contents (vo_world v') (the (fork_handle v i)) = overwrite n d (contents (vo_world v) (the (fork_handle v i))))
        \<and> (reliable (ev_host env) \<longrightarrow> r = Inr (length d)))"
proof -
  obtain r v' where run: "write_fork env i n d v = (r, v')" by (cases "write_fork env i n d v")
  note spec = host_files.write_fork_spec [OF assms(1) refl assms(2) run]
  have "fork_handle v' i = fork_handle v i"
    using conjunct1 [OF conjunct2 [OF spec]] conjunct1 [OF conjunct2 [OF conjunct2 [OF spec]]]
    by (simp add: fork_handle_def handle_at_def split: option.splits)
  moreover have "r = Inr (length d)" if "reliable (ev_host env)" "\<not> write_denied v i" "fork_handle v i \<noteq> None"
  proof -
    from that(3) obtain f where "fork_handle v i = Some f" by blast
    from write_fork_total [OF that(1) this that(2), of n d] run spec that show ?thesis by auto
  qed
  ultimately show ?thesis using spec run by (auto split: if_splits)
qed

text \<open>
Claim C33: When a flush reports success nothing written through any open fork of the volume is left unsynced, in whatever order the
  forks are taken; and a flush with nothing written since the last makes no call at all.\<close>

theorem flush_leaves_nothing_unsynced:
  assumes "host_files (ev_host env) contents offset synced" and "forks_ok offset synced v"
    and "set (ev_fork_order env (vo_dirty v)) = vo_dirty v"
  shows "case sync_volume env v of (r, v') \<Rightarrow>
    forks_ok offset synced v'
    \<and> (r = Inr () \<longrightarrow> vo_dirty v' = {} \<and> (\<forall>key f. handle_at v' key = Some f \<longrightarrow> synced (vo_world v') f))
    \<and> (vo_dirty v = {} \<longrightarrow> r = Inr () \<and> v' = v)"
proof (cases "vo_dirty v = {}")
  case True
  with assms(2) show ?thesis by (auto simp: sync_volume_def intro: forks_ok_clean)
next
  case False
  obtain r v' where run: "sync_each env (ev_fork_order env (vo_dirty v)) (Inr ()) (v\<lparr>vo_dirty := {}\<rparr>) = (r, v')"
    by (cases "sync_each env (ev_fork_order env (vo_dirty v)) (Inr ()) (v\<lparr>vo_dirty := {}\<rparr>)")
  have "forks_ok offset synced v' \<and> (r = Inr () \<longrightarrow> vo_dirty v' = {})"
    using host_files.sync_each_spec [OF assms(1) refl run] assms(2,3) by simp
  with run False show ?thesis by (auto simp: sync_volume_def intro: forks_ok_clean)
qed

text \<open>
Opening a fork for reading alone does not protect its length: a write to it is refused, but a request to set its length
  cuts or extends the file.\<close>

theorem read_only_fork_resized:
  assumes "host_files (ev_host env) contents offset synced" and "reliable (ev_host env)"
    and "vo_fork_refs v i = Some (k, ForkData)" and "handle_at v (k, ForkData) = Some f" and "vo_fork_access v i = Some 1"
  shows "write_fork env i n d v = (Inl (Refused AccessDenied), v)
    \<and> (\<exists>v'. set_fork_parms env \<lparr>sf_fork_ref_num = i, sf_file_bitmap = 0x0200, sf_data_fork_length = Some len, sf_resource_fork_length = None\<rparr> v
         = (Inr (), v') \<and> contents (vo_world v') f = resize (unat len) (contents (vo_world v) f))"
proof -
  have "write_denied v i" using assms(5) by (simp add: write_denied_def AFP_ACCESS_WRITE_def)
  then have "write_fork env i n d v = (Inl (Refused AccessDenied), v)"
    using assms(5) by (simp add: write_fork_def bind_reads refuse_def write_denied_def)
  moreover obtain w' where w: "h_set_len (ev_host env) (vo_world v) f (unat len) = (True, w')" using reliable_resize [OF assms(2)] by blast
  moreover have "contents w' f = resize (unat len) (contents (vo_world v) f)" using host_files.resize_ok [OF assms(1) w] .
  ultimately show ?thesis using assms(3,4)
    by (auto simp: set_fork_parms_def action_defs handle_at_def set_pos_def mark_dirty_def split: option.splits)
qed

section \<open>Locks\<close>

definition lock_range :: "nat \<times> nat \<Rightarrow> nat set" where
  "lock_range l = {fst l ..< sat_add (fst l) (snd l)}"

definition locks_of :: "('h, 't, 'w) Volume \<Rightarrow> u16 \<Rightarrow> (nat \<times> nat) list" where
  "locks_of v i = (case vo_fork_locks v i of None \<Rightarrow> [] | Some locks \<Rightarrow> locks)"

definition locks_disjoint :: "(nat \<times> nat) list \<Rightarrow> bool" where
  "locks_disjoint locks \<longleftrightarrow> sorted_wrt (\<lambda>a b. lock_range a \<inter> lock_range b = {}) locks"

lemma lock_conflict_iff: "lock_conflict lo hi locks \<longleftrightarrow> (\<exists>l\<in>set locks. lo < sat_add (fst l) (snd l) \<and> fst l < hi)"
  by (induction lo hi locks rule: lock_conflict.induct) auto

lemma no_conflict_disjoint:
  "\<not> lock_conflict start (sat_add start len) locks \<Longrightarrow> l \<in> set locks \<Longrightarrow> lock_range l \<inter> lock_range (start, len) = {}"
  by (force simp: lock_conflict_iff lock_range_def)

lemma conflict_overlap:
  assumes "lock_range (start, len) \<noteq> {}" and "\<forall>l\<in>set locks. lock_range l \<noteq> {}" and "lock_conflict start (sat_add start len) locks"
  shows "\<exists>l\<in>set locks. lock_range l \<inter> lock_range (start, len) \<noteq> {}"
proof -
  from assms(3) obtain l where l: "l \<in> set locks" "start < sat_add (fst l) (snd l)" "fst l < sat_add start len"
    by (auto simp: lock_conflict_iff)
  moreover have "fst l < sat_add (fst l) (snd l)" "start < sat_add start len" using assms(1,2) l(1) by (auto simp: lock_range_def)
  ultimately have "max start (fst l) \<in> lock_range l \<inter> lock_range (start, len)" by (auto simp: lock_range_def)
  with l(1) show ?thesis by blast
qed

lemma remove1_disjoint: "locks_disjoint locks \<Longrightarrow> locks_disjoint (remove1 l locks)"
  unfolding locks_disjoint_def by (induction locks) (auto dest: notin_set_remove1)

text \<open>The one request whose start cannot be computed: the negation of the smallest offset overflows.\<close>

lemma lock_start_none:
  "lock_start checks req n = None \<longleftrightarrow> checks \<and> bit (bl_flags req) 7 \<and> bl_offset req = - (2 ^ 31)"
  by (auto simp: lock_start_def)

text \<open>
Claim C35: The locks held on a fork never come to overlap, whatever is asked. A request for a fork that is not open,
  whose node is gone or whose file has no metadata is refused and changes nothing; with overflow checks, an offset of
  -2147483648 relative to the end of the fork panics and changes nothing. Any other lock is refused, changing no lock,
  exactly when some lock held ends behind its start and starts before its end, and is granted and added otherwise.
  When neither it nor a lock held is of length 0 that is to overlap a lock held; a length of 0 is a point
  that is refused strictly inside a held range. An unlock drops a lock held exactly as given and nothing
  else, and is refused if there is none; and no other fork's locks are touched.\<close>

theorem byte_range_locks_disjoint:
  "case byte_range_lock checks env req v of (r, v') \<Rightarrow>
    let i = bl_fork_id req; locks = locks_of v i; locks' = locks_of v' i;
        found = (case vo_fork_refs v i of
            None \<Rightarrow> None
          | Some (k, t) \<Rightarrow> (case vo_nodes v k of
              None \<Rightarrow> None
            | Some node \<Rightarrow> h_metadata (ev_host env) (vo_world v) (vo_path v @ nd_path node)))
    in (\<forall>j. j \<noteq> i \<longrightarrow> locks_of v' j = locks_of v j)
     \<and> (locks_disjoint locks \<longrightarrow> locks_disjoint locks')
     \<and> (case found of
          None \<Rightarrow> r = Inl (Refused ObjectNotFound) \<and> v' = v
        | Some metadata \<Rightarrow>
            if checks \<and> bit (bl_flags req) 7 \<and> bl_offset req = - (2 ^ 31) then r = Inl Panicked \<and> v' = v
            else
              let start = the (lock_start checks req (md_len metadata)); new = (start, unat (bl_length req));
                  clash = (\<exists>l\<in>set locks. start < sat_add (fst l) (snd l) \<and> fst l < sat_add start (snd new))
              in (if bit (bl_flags req) 0
                  then if new \<in> set locks then r = Inr 0 \<and> locks' = remove1 new locks
                       else r = Inl (Refused RangeNotLocked) \<and> locks' = locks
                  else if clash then r = Inl (Refused RangeOverlap) \<and> locks' = locks
                  else r = Inr (word_of_nat start) \<and> locks' = locks @ [new])
                 \<and> (lock_range new \<noteq> {} \<and> (\<forall>l\<in>set locks. lock_range l \<noteq> {})
                    \<longrightarrow> clash = (\<exists>l\<in>set locks. lock_range l \<inter> lock_range new \<noteq> {})))"
proof -
  define i len locks where "i = bl_fork_id req" and "len = unat (bl_length req)" and "locks = locks_of v i"
  define found where "found = (case vo_fork_refs v i of None \<Rightarrow> None | Some (k, t) \<Rightarrow> (case vo_nodes v k of
      None \<Rightarrow> None | Some node \<Rightarrow> h_metadata (ev_host env) (vo_world v) (vo_path v @ nd_path node)))"
  let ?held = "\<lambda>ls. v\<lparr>vo_fork_locks := (vo_fork_locks v)(i \<mapsto> ls)\<rparr>"
  have run: "byte_range_lock checks env req v =
    (case found of None \<Rightarrow> (Inl (Refused ObjectNotFound), v)
     | Some metadata \<Rightarrow>
       (case lock_start checks req (md_len metadata) of None \<Rightarrow> (Inl Panicked, v)
        | Some start \<Rightarrow>
          (if \<not> bit (bl_flags req) 0
           then if lock_conflict start (sat_add start len) locks then (Inl (Refused RangeOverlap), ?held locks)
                else (Inr (word_of_nat start), ?held (locks @ [(start, len)]))
           else if (start, len) \<in> set locks then (Inr 0, ?held (remove1 (start, len) locks)) else (Inl (Refused RangeNotLocked), ?held locks))))"
    unfolding locks_def len_def i_def found_def
    by (auto simp: byte_range_lock_def action_defs locks_of_def Let_def split: option.split prod.split)
  have held: "locks_of (?held ls) j = (if j = i then ls else locks_of v j)" for ls j by (simp add: locks_of_def)
  have add: "locks_disjoint locks \<Longrightarrow> \<not> lock_conflict start (sat_add start len) locks \<Longrightarrow> locks_disjoint (locks @ [(start, len)])" for start
    using no_conflict_disjoint [of start len locks] unfolding locks_disjoint_def by (simp add: sorted_wrt_append)
  have meets: "lock_range (start, len) \<noteq> {} \<and> (\<forall>l\<in>set locks. lock_range l \<noteq> {})
    \<longrightarrow> lock_conflict start (sat_add start len) locks = (\<exists>l\<in>set locks. lock_range l \<inter> lock_range (start, len) \<noteq> {})" for start
    using no_conflict_disjoint [of start len locks] conflict_overlap [of start len locks] by blast
  show ?thesis
  proof (cases found)
    case None
    then show ?thesis unfolding run by (simp add: Let_def found_def flip: i_def)
  next
    case (Some metadata)
    show ?thesis
    proof (cases "lock_start checks req (md_len metadata)")
      case None
      then have "checks \<and> bit (bl_flags req) 7 \<and> bl_offset req = - (2 ^ 31)" unfolding lock_start_none .
      then show ?thesis unfolding run using Some by (simp add: lock_start_def Let_def flip: i_def found_def)
    next
      case (Some start)
      then have "lock_start checks req (md_len metadata) \<noteq> None" by simp
      then have n: "(checks \<and> bit (bl_flags req) 7 \<and> bl_offset req = - (2 ^ 31)) = False"
        unfolding lock_start_none by (rule iffD2 [OF eq_False])
      have f: "(case vo_fork_refs v i of None \<Rightarrow> None | Some (k, t) \<Rightarrow> (case vo_nodes v k of
          None \<Rightarrow> None | Some node \<Rightarrow> h_metadata (ev_host env) (vo_world v) (vo_path v @ nd_path node))) = Some metadata"
        using \<open>found = Some metadata\<close> found_def by simp
      have c: "(\<exists>l\<in>set locks. start < sat_add (fst l) (snd l) \<and> fst l < sat_add start len) = lock_conflict start (sat_add start len) locks"
        by (simp only: lock_conflict_iff)
      have other: "(\<forall>j. j \<noteq> i \<longrightarrow> locks_of (?held ls) j = locks_of v j) = True" for ls by (simp add: held)
      have mine: "locks_of (?held ls) i = ls" for ls by (simp add: held)
      show ?thesis
        unfolding i_def [symmetric] len_def [symmetric] Let_def f locks_def [symmetric] option.case n if_False snd_conv run \<open>found = Some metadata\<close>
          Some option.sel c
        using add [of start] meets [of start] remove1_disjoint [of locks "(start, len)"]
        by (cases "bit (bl_flags req) 0"; cases "lock_conflict start (sat_add start len) locks"; cases "(start, len) \<in> set locks")
          (simp_all only: other mine prod.case if_True if_False simp_thms, blast+)
    qed
  qed
qed

section \<open>A session in memory\<close>

text \<open>A volume with one file of five bytes, open for reading alone as fork 1.\<close>

definition mem_env :: "(nat, (bytes, bytes) omap, nat \<Rightarrow> mem_file) Env" where
  "mem_env = \<lparr>ev_mac = \<lparr>mac_encode = id, mac_decode = id\<rparr>, ev_sled = om_tree, ev_host = mem_host,
     ev_fork_order = (\<lambda>s. if s = {} then [] else [(3, ForkData)]), ev_node_order = (\<lambda>s. [])\<rparr>"

definition mem_volume :: "(nat, (bytes, bytes) omap, nat \<Rightarrow> mem_file) Volume" where
  "mem_volume = \<lparr>vo_name = ascii ''Share'', vo_path = [], vo_created_at = 0, vo_volume_id = 1234,
     vo_nodes = [3 \<mapsto> (new_node 3 2 (ascii ''note'') False [ascii ''note''])\<lparr>nd_data_fork := Some 0\<rparr>],
     vo_path_to_id = [[ascii ''note''] \<mapsto> 3], vo_next_id = 4, vo_fork_refs = [1 \<mapsto> (3, ForkData)], vo_fork_access = [1 \<mapsto> 1],
     vo_fork_pos = [1 \<mapsto> 0], vo_dirty = {}, vo_next_fork_ref = 2, vo_fork_locks = Map.empty, vo_enum_cache = Map.empty,
     vo_desktop = empty_desktop, vo_world = (\<lambda>f. ([0x68, 0x65, 0x6C, 0x6C, 0x6F], 0, True))\<rparr>"

lemma mem_handle: "handle_at mem_volume key = (if key = (3, ForkData) then Some 0 else None)"
  by (cases key) (auto simp: handle_at_def mem_volume_def node_fork_def new_node_def split: ForkType.splits)

lemma mem_forks_ok: "forks_ok mem_offset mem_synced mem_volume"
  unfolding forks_ok_def mem_handle by (auto simp: mem_volume_def mem_offset_def mem_synced_def split: if_splits)

lemma mem_fork: "fork_handle mem_volume 1 = Some 0"
proof -
  have "vo_fork_refs mem_volume 1 = Some (3, ForkData)" by (simp add: mem_volume_def)
  then show ?thesis by (simp add: fork_handle_def mem_handle)
qed

lemma mem_files: "host_files (ev_host mem_env) mem_contents mem_offset mem_synced"
  using mem.host_files_axioms by (simp add: mem_env_def)

lemma mem_reliable: "reliable (ev_host mem_env)"
  by (simp add: reliable_def mem_env_def mem_calls Let_def)

lemma mem_world: "vo_world mem_volume = (\<lambda>f. ([0x68, 0x65, 0x6C, 0x6C, 0x6F], 0, True))"
  by (simp add: mem_volume_def)

lemma fork_read_exact_witness:
  "fst (read_fork mem_env \<lparr>rd_fork_id = 1, rd_offset = 1, rd_req_count = 3, rd_newline_mask = 0, rd_newline_char = 0\<rparr> 512 mem_volume)
     = Inr ([0x65, 0x6C, 0x6C], False)"
  using fork_read_exact [OF mem_files mem_forks_ok, of "\<lparr>rd_fork_id = 1, rd_offset = 1, rd_req_count = 3, rd_newline_mask = 0, rd_newline_char = 0\<rparr>" 512]
    mem_reliable by (auto simp: mem_fork mem_world mem_contents_def read_result_def Let_def)

lemma fork_write_exact_witness: "isl (fst (write_fork mem_env 1 2 [0x61] mem_volume))"
proof -
  have "write_denied mem_volume 1" by (simp add: write_denied_def mem_volume_def AFP_ACCESS_WRITE_def)
  with fork_write_exact [OF mem_files mem_forks_ok, where i = 1 and n = 2 and d = "[0x61]"] show ?thesis by (auto split: prod.splits)
qed

lemma flush_leaves_nothing_unsynced_witness: "fst (sync_volume mem_env mem_volume) = Inr ()"
proof -
  have "set (ev_fork_order mem_env (vo_dirty mem_volume)) = vo_dirty mem_volume" "vo_dirty mem_volume = {}"
    by (simp_all add: mem_env_def mem_volume_def)
  with flush_leaves_nothing_unsynced [OF mem_files mem_forks_ok] show ?thesis by (auto split: prod.splits)
qed

lemma read_only_fork_resized_witness:
  "\<exists>v'. set_fork_parms mem_env \<lparr>sf_fork_ref_num = 1, sf_file_bitmap = 0x0200, sf_data_fork_length = Some 0, sf_resource_fork_length = None\<rparr>
     mem_volume = (Inr (), v') \<and> mem_contents (vo_world v') 0 = []"
proof -
  have "vo_fork_refs mem_volume 1 = Some (3, ForkData)" "handle_at mem_volume (3, ForkData) = Some 0" "vo_fork_access mem_volume 1 = Some 1"
    by (simp_all add: mem_handle) (simp_all add: mem_volume_def)
  from read_only_fork_resized [OF mem_files mem_reliable this, where n = 0 and d = "[]" and len = 0] show ?thesis
    by (auto simp: resize_def)
qed

lemma byte_range_locks_disjoint_witness:
  "fst (byte_range_lock True mem_env \<lparr>bl_fork_id = 1, bl_offset = 10, bl_length = 5, bl_flags = 0\<rparr> mem_volume) = Inr 10"
proof -
  let ?req = "\<lparr>bl_fork_id = 1, bl_offset = 10, bl_length = 5, bl_flags = 0\<rparr>"
  have h: "vo_fork_refs mem_volume 1 = Some (3, ForkData)"
    "vo_nodes mem_volume 3 = Some ((new_node 3 2 (ascii ''note'') False [ascii ''note''])\<lparr>nd_data_fork := Some 0\<rparr>)"
    "h_metadata (ev_host mem_env) w p = Some \<lparr>md_len = 0, md_created = None, md_modified = None\<rparr>"
    "lock_start True ?req n = Some 10" "locks_of mem_volume 1 = []" for w p n
    by (simp_all add: mem_volume_def mem_env_def mem_host_def lock_start_def locks_of_def)
  from byte_range_locks_disjoint [where checks = True and env = mem_env and req = ?req and v = mem_volume] show ?thesis
    by (simp add: Let_def h split: prod.splits)
qed

end
