(* ===== verification/Afp_Parms_Props.thy ===== *)
theory Afp_Parms_Props
  imports Afp_Parms Afp_Fork_Theorems
begin

text \<open>
  Parameter replies have exactly the length the bitmap announces, with the name where the name field points, and a page of a
  directory listing is a sequence of entries a client can walk, within the size it asked for.
\<close>

section \<open>Writing fields\<close>

definition field_image :: "nat \<Rightarrow> parm_field \<Rightarrow> bytes" where
  "field_image name_at f = (case f of Plain d \<Rightarrow> d | Named name \<Rightarrow> u16_bytes (word_of_nat name_at) | Unavailable \<Rightarrow> [])"

definition fields_image :: "nat \<Rightarrow> parm_field list \<Rightarrow> bytes" where
  "fields_image name_at fs = concat (map (field_image name_at) fs)"

lemma fields_image_simps [simp]:
  "fields_image k [] = []" "fields_image k (f # fs) = field_image k f @ fields_image k fs"
  "fields_image k (fs @ gs) = fields_image k fs @ fields_image k gs"
  by (simp_all add: fields_image_def)

lemma field_image_simps [simp]:
  "field_image k (Plain d) = d" "field_image k (Named s) = u16_bytes (word_of_nat k)" "field_image k Unavailable = []"
  by (simp_all add: field_image_def)

definition all_plain :: "parm_field list \<Rightarrow> bool" where
  "all_plain fs \<longleftrightarrow> (\<forall>f\<in>set fs. \<exists>d. f = Plain d)"

lemma all_plain_simps [simp]:
  "all_plain []" "all_plain (Plain d # fs) = all_plain fs" "\<not> all_plain (Named s # fs)" "\<not> all_plain (Unavailable # fs)"
  "all_plain (fs @ gs) \<longleftrightarrow> all_plain fs \<and> all_plain gs"
  by (auto simp: all_plain_def)

lemma put_put: "i + length a \<le> length buf \<Longrightarrow> put (i + length a) b (put i a buf) = put i (a @ b) buf"
  by (simp add: put_def ac_simps)

lemma write_plain:
  "all_plain fs \<Longrightarrow> o' \<le> length out \<Longrightarrow>
   write_fields k (fs @ gs) out o' ex =
     (if length out < o' + length (fields_image k fs) then Inl Panicked
      else write_fields k gs (put o' (fields_image k fs) out) (o' + length (fields_image k fs)) ex)"
proof (induction fs arbitrary: out o')
  case Nil
  then show ?case by (simp add: put_def)
next
  case (Cons f fs)
  then obtain d where d: "f = Plain d" by (auto simp: all_plain_def)
  with Cons.prems have p: "all_plain fs" by simp
  show ?case
  proof (cases "length out < o' + length d")
    case False
    then have "o' + length d \<le> length (put o' d out)" by simp
    from Cons.IH [OF p this] False show ?thesis by (simp add: d put_put add.assoc)
  qed (simp add: d)
qed

text \<open>Fields with one name among them: the name follows the last field.\<close>

lemma write_named:
  assumes "all_plain pre" and "all_plain post" and "k = length (fields_image k pre) + 2 + length (fields_image k post)"
  shows "write_fields k (pre @ Named s # post) out 0 0 =
    (if length out < k + 1 + length s then Inl Panicked
     else Inr (put 0 (fields_image k (pre @ Named s # post) @ word_of_nat (length s) # s) out, k + (length s + 1)))"
proof -
  let ?p = "fields_image k pre" and ?q = "fields_image k post"
  let ?name = "word_of_nat (length s) # s"
  show ?thesis
  proof (cases "length out < k + 1 + length s")
    case True
    then show ?thesis using write_plain [OF assms(1), of 0 out k "Named s # post" 0] assms(3) by auto
  next
    case False
    define buf where "buf = put k ?name (put (length ?p) (u16_bytes (word_of_nat k)) (put 0 ?p out))"
    have len: "length buf = length out" using False assms(3) by (simp add: buf_def)
    have "write_fields k (pre @ Named s # post) out 0 0 = write_fields k (post @ []) buf (length ?p + 2) (length s + 1)"
      using False assms(3) by (subst write_plain [OF assms(1)]) (simp_all add: buf_def)
    also have "\<dots> = Inr (put (length ?p + 2) ?q buf, k + (length s + 1))"
      using False assms(3) len by (subst write_plain [OF assms(2)]) simp_all
    also have "put (length ?p + 2) ?q buf = put 0 (?p @ u16_bytes (word_of_nat k) @ ?q @ ?name) out"
    proof -
      have "drop (Suc (k + length s)) out = drop (Suc (Suc (Suc (length ?p + (length ?q + length s))))) out"
        by (rule arg_cong [where f = "\<lambda>n. drop n out"]) (use assms(3) in linarith)
      with False assms(3) show ?thesis unfolding buf_def put_def by (simp add: take_Cons' drop_Cons')
    qed
    finally show ?thesis using False by simp
  qed
qed

section \<open>Files and directories\<close>

lemma finder_wf_simps: "finder_wf finder_default" "32 \<le> length data \<Longrightarrow> finder_wf (finder_from_bytes (take 32 data))"
  by (simp_all add: finder_wf_def finder_default_def finder_from_bytes_def min_def)

lemma length_finder_bytes: "finder_wf info \<Longrightarrow> length (finder_bytes info) = 32"
  by (simp add: finder_wf_def finder_bytes_def)

lemma infer_four:
  "infer_type_creator_from_content H w p = Some tc \<Longrightarrow> length (tc_file_type tc) = 4 \<and> length (tc_creator tc) = 4"
  "infer_type_creator_from_extension p = Some tc \<Longrightarrow> length (tc_file_type tc) = 4 \<and> length (tc_creator tc) = 4"
  by (auto simp: infer_type_creator_from_content_def infer_type_creator_from_extension_def mime_types_def type_creator_def ascii_def Let_def
      split: option.splits if_splits prod.splits)

lemma stored_wf: "finder_wf (case read_finder_info H w p of None \<Rightarrow> finder_default | Some info \<Rightarrow> info)"
  by (auto simp: read_finder_info_def finder_wf_simps split: option.splits)

lemma guessed_wf: "length a = 4 \<Longrightarrow> length c = 4 \<Longrightarrow> finder_wf (finder_default\<lparr>fi_type := a, fi_creator := c\<rparr>)"
  by (simp add: finder_wf_def finder_default_def)

lemma get_finder_info_wf: "finder_wf (get_finder_info env v node)"
proof -
  let ?stored = "case read_finder_info (ev_host env) (vo_world v) (vo_path v @ nd_path node) of None \<Rightarrow> finder_default | Some info \<Rightarrow> info"
  have "finder_wf (if ?stored = finder_default \<and> \<not> nd_is_dir node
      then case g of None \<Rightarrow> ?stored | Some tc \<Rightarrow> finder_default\<lparr>fi_type := tc_file_type tc, fi_creator := tc_creator tc\<rparr> else ?stored)"
    if "\<And>tc. g = Some tc \<Longrightarrow> length (tc_file_type tc) = 4 \<and> length (tc_creator tc) = 4" for g
    using stored_wf guessed_wf finder_wf_simps(1) that by (cases g) auto
  note guess = this [of "case infer_type_creator_from_content (ev_host env) (vo_world v) (vo_path v @ nd_path node) of
      None \<Rightarrow> infer_type_creator_from_extension (vo_path v @ nd_path node) | Some tc \<Rightarrow> Some tc"]
  show ?thesis unfolding get_finder_info_def Let_def by (rule guess) (auto dest: infer_four split: option.splits)
qed

lemma field_at_simps:
  "length (fields_image k (field_at b i f)) = (if bit b i then length (field_image k f) else 0)"
  "all_plain (field_at b i (Plain d))"
  by (simp_all add: field_at_def)

definition reply_image :: "nat \<Rightarrow> parm_field list \<Rightarrow> bool \<Rightarrow> bytes \<Rightarrow> bytes" where
  "reply_image k fs named name = fields_image k fs @ (if named then pascal name else [])"

text \<open>Where the field of the name stands: behind the six fields of the lower bits, as far as they were asked for.\<close>

definition name_field_at :: "u16 \<Rightarrow> nat" where
  "name_field_at b = field_len b ATTRIBUTES 2 + field_len b PARENT_DIR_ID 4 + field_len b CREATE_DATE 4
     + field_len b MODIFICATION_DATE 4 + field_len b BACKUP_DATE 4 + field_len b FINDER_INFO 32"

lemma read_name_field:
  assumes "fs = pre @ field_at b i (Named s) @ post" and "bit b i" and "j = length (fields_image k pre)"
  shows "read_u16 (reply_image k fs named name) j = word_of_nat k"
proof -
  have "reply_image k fs named name
      = fields_image k pre @ u16_bytes (word_of_nat k) @ fields_image k post @ (if named then pascal name else [])"
    using assms(1,2) by (simp add: reply_image_def field_at_def)
  then show ?thesis using assms(3) by (simp add: read_u16_def u16_bytes_def nth_append)
qed

text \<open>Fields in which the name, if it is asked for, is the only one that is not plain.\<close>

lemma write_reply:
  assumes "all_plain pre" and "all_plain post" and "k = length (fields_image k (pre @ field_at b i (Named s) @ post))"
  shows "write_fields k (pre @ field_at b i (Named s) @ post) out 0 0 =
    (let img = reply_image k (pre @ field_at b i (Named s) @ post) (bit b i) s
     in if length out < length img then Inl Panicked else Inr (put 0 img out, length img))"
proof (cases "bit b i")
  case True
  then have "k = length (fields_image k pre) + 2 + length (fields_image k post)" using assms(3) by (simp add: field_at_def)
  from write_named [OF assms(1,2) this, of s out] True assms(3) show ?thesis
    by (simp add: field_at_def reply_image_def pascal_def Let_def)
next
  case False
  then show ?thesis using write_plain [of "pre @ post" 0 out k "[]" 0] assms
    by (simp add: field_at_def reply_image_def Let_def)
qed

lemma file_reply:
  assumes "h_metadata (ev_host env) (vo_world v) (vo_path v @ nd_path node) = Some m"
  shows "node_file_parms env v node b out =
    (let img = reply_image (file_long_name_offset b) (file_fields env v node m b) (bit b LONG_NAME) (mangle_name (ev_mac env) (nd_name node))
     in if length out < length img then Inl Panicked else Inr (put 0 img out, length img))"
    and "length (fields_image k (file_fields env v node m b)) = file_long_name_offset b"
    and "bit b LONG_NAME \<Longrightarrow> read_u16 (reply_image k (file_fields env v node m b) named name) (name_field_at b) = word_of_nat k"
proof -
  let ?info = "get_finder_info env v node"
  let ?name = "mangle_name (ev_mac env) (nd_name node)"
  let ?pre = "field_at b ATTRIBUTES (Plain (u16_bytes (finder_attributes ?info)))
       @ field_at b PARENT_DIR_ID (Plain (u32_bytes (nd_parent_id node)))
       @ field_at b CREATE_DATE (Plain (u32_bytes (time_to_afp (creation_time m))))
       @ field_at b MODIFICATION_DATE (Plain (u32_bytes (time_to_afp (case md_modified m of Some t \<Rightarrow> t | None \<Rightarrow> creation_time m))))
       @ field_at b BACKUP_DATE (Plain (u32_bytes AFP_DATE_NEVER))
       @ field_at b FINDER_INFO (Plain (finder_bytes ?info))"
  let ?post = "field_at b SHORT_NAME (Plain [0, 0])
       @ field_at b FILE_NUMBER (Plain (u32_bytes (nd_id node)))
       @ field_at b DATA_FORK_LENGTH (Plain (u32_bytes (clamp_len_u32 (md_len m))))
       @ field_at b RESOURCE_FORK_LENGTH (Plain (u32_bytes (snd (resolve_resource_fork_path env v (nd_path node)))))
       @ field_at b PRODOS_INFO (Plain (prodos_bytes (prodos_from_finder ?info)))"
  have split: "file_fields env v node m b = ?pre @ field_at b LONG_NAME (Named ?name) @ ?post"
    by (simp add: file_fields_def Let_def)
  show len: "length (fields_image k (file_fields env v node m b)) = file_long_name_offset b" for k
    using length_finder_bytes [OF get_finder_info_wf, of env v node]
    by (simp add: split field_at_simps file_long_name_offset_def field_len_def PRODOS_INFO_LEN_def prodos_bytes_def Let_def)
  show "node_file_parms env v node b out =
    (let img = reply_image (file_long_name_offset b) (file_fields env v node m b) (bit b LONG_NAME) ?name
     in if length out < length img then Inl Panicked else Inr (put 0 img out, length img))"
    unfolding node_file_parms_def assms option.case split
    by (rule write_reply) (simp_all only: all_plain_simps field_at_simps split [symmetric] len)
  show "bit b LONG_NAME \<Longrightarrow> read_u16 (reply_image k (file_fields env v node m b) named name) (name_field_at b) = word_of_nat k"
    by (rule read_name_field [OF split])
      (use length_finder_bytes [OF get_finder_info_wf, of env v node] in \<open>simp_all add: field_at_simps name_field_at_def field_len_def\<close>)
qed

lemma dir_reply:
  assumes "node_at_path v p = Some node" and "bit b OFFSPRING_COUNT \<longrightarrow> count_directory_entries env v (vo_path v @ p) \<noteq> None"
  shows "get_directory_parms_resp env v b p out =
    (let img = reply_image (dir_long_name_offset b) (dir_fields env v node p b) (bit b LONG_NAME) (mangle_name (ev_mac env) (nd_name node))
     in if length out < length img then Inl Panicked else Inr (put 0 img out, length img))"
    and "length (fields_image k (dir_fields env v node p b)) = dir_long_name_offset b"
    and "bit b LONG_NAME \<Longrightarrow> read_u16 (reply_image k (dir_fields env v node p b) named name) (name_field_at b) = word_of_nat k"
proof -
  let ?info = "get_finder_info env v node"
  let ?name = "mangle_name (ev_mac env) (nd_name node)"
  let ?count = "case count_directory_entries env v (vo_path v @ p) of None \<Rightarrow> Unavailable | Some n \<Rightarrow> Plain (u16_bytes n)"
  let ?pre = "field_at b ATTRIBUTES (Plain (u16_bytes (finder_attributes ?info)))
       @ field_at b PARENT_DIR_ID (Plain (u32_bytes (nd_parent_id node)))
       @ field_at b CREATE_DATE (Plain (u32_bytes (vo_created_at v)))
       @ field_at b MODIFICATION_DATE (Plain (u32_bytes (get_modified_at env v)))
       @ field_at b BACKUP_DATE (Plain (u32_bytes AFP_DATE_NEVER))
       @ field_at b FINDER_INFO (Plain (finder_bytes ?info))"
  have count: "\<exists>d. field_at b OFFSPRING_COUNT ?count = field_at b OFFSPRING_COUNT (Plain d) \<and> length d = 2"
    using assms(2) by (auto simp: field_at_def intro: exI [of _ "[0, 0]"])
  then obtain d where d: "field_at b OFFSPRING_COUNT ?count = field_at b OFFSPRING_COUNT (Plain d)" "length d = 2" by blast
  let ?post = "field_at b SHORT_NAME (Plain [0, 0])
       @ field_at b DIR_ID (Plain (u32_bytes (nd_id node)))
       @ field_at b OFFSPRING_COUNT (Plain d)
       @ field_at b OWNER_ID (Plain (u32_bytes 0))
       @ field_at b GROUP_ID (Plain (u32_bytes 0))
       @ field_at b ACCESS_RIGHTS (Plain (u32_bytes 0x87070707))
       @ field_at b PRODOS_INFO (Plain (prodos_bytes prodos_directory))"
  have split: "dir_fields env v node p b = ?pre @ field_at b LONG_NAME (Named ?name) @ ?post"
    by (simp only: dir_fields_def Let_def d(1) append_assoc)
  show len: "length (fields_image k (dir_fields env v node p b)) = dir_long_name_offset b" for k
    using length_finder_bytes [OF get_finder_info_wf, of env v node] d(2)
    unfolding split
    by (simp add: field_at_simps dir_long_name_offset_def field_len_def PRODOS_INFO_LEN_def prodos_bytes_def Let_def)
  show "get_directory_parms_resp env v b p out =
    (let img = reply_image (dir_long_name_offset b) (dir_fields env v node p b) (bit b LONG_NAME) ?name
     in if length out < length img then Inl Panicked else Inr (put 0 img out, length img))"
    unfolding get_directory_parms_resp_def assms(1) option.case split
    by (rule write_reply) (simp_all only: all_plain_simps field_at_simps split [symmetric] len)
  show "bit b LONG_NAME \<Longrightarrow> read_u16 (reply_image k (dir_fields env v node p b) named name) (name_field_at b) = word_of_nat k"
    by (rule read_name_field [OF split])
      (use length_finder_bytes [OF get_finder_info_wf, of env v node] in \<open>simp_all add: field_at_simps name_field_at_def field_len_def\<close>)
qed

end
