(* ===== verification/Afp_Table.thy ===== *)
theory Afp_Table
  imports Afp_Volume
begin

text \<open>
  The node table of a volume: every path of the map leads to a node that lies at that path, and every identifier in use is below
  the next one. Reading a directory into the table, as lookups and listings do, keeps that and what the table already said.
\<close>

section \<open>The invariant\<close>

definition table_ok :: "('h, 't, 'w) Volume \<Rightarrow> bool" where
  "table_ok v \<longleftrightarrow>
     (\<forall>p i. vo_path_to_id v p = Some i \<longrightarrow> (\<exists>n. vo_nodes v i = Some n \<and> nd_path n = p)) \<and>
     (\<forall>i n. vo_nodes v i = Some n \<longrightarrow> i < vo_next_id v)"

text \<open>The AFP name of a node is that of the last component of its path.\<close>

definition names_ok :: "('h, 't, 'w) Volume \<Rightarrow> bool" where
  "names_ok v \<longleftrightarrow>
     (\<forall>p i n. vo_path_to_id v p = Some i \<longrightarrow> p \<noteq> [] \<longrightarrow> vo_nodes v i = Some n \<longrightarrow> nd_name n = posix_name_to_afp (last p))"

lemma table_okI:
  assumes "\<And>p i. vo_path_to_id v p = Some i \<Longrightarrow> \<exists>n. vo_nodes v i = Some n \<and> nd_path n = p"
    and "\<And>i n. vo_nodes v i = Some n \<Longrightarrow> i < vo_next_id v"
  shows "table_ok v"
  using assms by (auto simp: table_ok_def)

lemma table_ok_path: "table_ok v \<Longrightarrow> vo_path_to_id v p = Some i \<Longrightarrow> \<exists>n. vo_nodes v i = Some n \<and> nd_path n = p"
  by (simp add: table_ok_def)

lemma table_ok_below: "table_ok v \<Longrightarrow> vo_nodes v i = Some n \<Longrightarrow> i < vo_next_id v"
  by (simp add: table_ok_def)

lemma names_okD: "names_ok v \<Longrightarrow> vo_path_to_id v p = Some i \<Longrightarrow> p \<noteq> [] \<Longrightarrow> vo_nodes v i = Some n \<Longrightarrow> nd_name n = posix_name_to_afp (last p)"
  by (simp add: names_ok_def)

text \<open>A node of the table is known by its path alone.\<close>

lemma table_ok_inj: "table_ok v \<Longrightarrow> vo_path_to_id v p = Some i \<Longrightarrow> vo_path_to_id v q = Some i \<Longrightarrow> p = q"
  using table_ok_path [of v p i] table_ok_path [of v q i] by auto

lemma table_ok_fresh: "table_ok v \<Longrightarrow> vo_nodes v (vo_next_id v) = None"
  by (cases "vo_nodes v (vo_next_id v)") (auto dest: table_ok_below)

lemma table_ok_unused: "table_ok v \<Longrightarrow> vo_path_to_id v p \<noteq> Some (vo_next_id v)"
  using table_ok_fresh table_ok_path by fastforce

text \<open>What the invariants look at.\<close>

definition same_table :: "('h, 't, 'w) Volume \<Rightarrow> ('h, 't, 'w) Volume \<Rightarrow> bool" where
  "same_table v v' \<longleftrightarrow> vo_nodes v' = vo_nodes v \<and> vo_path_to_id v' = vo_path_to_id v \<and> vo_next_id v' = vo_next_id v"

lemma table_ok_cong: "same_table v v' \<Longrightarrow> table_ok v' = table_ok v"
  by (simp add: same_table_def table_ok_def)

lemma names_ok_cong: "same_table v v' \<Longrightarrow> names_ok v' = names_ok v"
  by (simp add: same_table_def names_ok_def)

lemma same_table_simps [simp]:
  "same_table v v" "same_table v (v\<lparr>vo_world := w\<rparr>)" "same_table v (v\<lparr>vo_desktop := d\<rparr>)"
  "same_table v (v\<lparr>vo_enum_cache := c\<rparr>)" "same_table v (register_mangle_if_needed env a n v)"
  by (simp_all add: same_table_def register_mangle_if_needed_def)

lemma same_table_trans: "same_table v v' \<Longrightarrow> same_table v' v'' \<Longrightarrow> same_table v v''"
  by (simp add: same_table_def)

section \<open>Growing\<close>

text \<open>Nothing the table said is lost; the rest of the volume changes in its database of mangled names only.\<close>

definition grown :: "nat \<Rightarrow> ('h, 't, 'w) Volume \<Rightarrow> ('h, 't, 'w) Volume \<Rightarrow> bool" where
  "grown n v v' \<longleftrightarrow>
     vo_nodes v \<subseteq>\<^sub>m vo_nodes v' \<and> vo_path_to_id v \<subseteq>\<^sub>m vo_path_to_id v' \<and>
     unat (vo_next_id v') \<le> unat (vo_next_id v) + n \<and>
     vo_world v' = vo_world v \<and> vo_path v' = vo_path v \<and> vo_created_at v' = vo_created_at v \<and> vo_name v' = vo_name v \<and>
     vo_enum_cache v' = vo_enum_cache v \<and>
     vo_fork_refs v' = vo_fork_refs v \<and> vo_fork_pos v' = vo_fork_pos v \<and> vo_dirty v' = vo_dirty v"

lemma grown_refl [simp]: "grown n v v"
  by (simp add: grown_def)

lemma grown_trans: "grown m v v' \<Longrightarrow> grown n v' v'' \<Longrightarrow> grown (m + n) v v''"
  by (auto simp: grown_def intro: map_le_trans)

lemma grown_mono: "grown m v v' \<Longrightarrow> m \<le> n \<Longrightarrow> grown n v v'"
  by (auto simp: grown_def)

text \<open>A new entry, for a path the table does not know.\<close>

definition enter :: "('h, 't, 'w) Env \<Rightarrow> u32 \<Rightarrow> path \<Rightarrow> bytes \<Rightarrow> bool \<Rightarrow> ('h, 't, 'w) Volume \<Rightarrow> ('h, 't, 'w) Volume" where
  "enter env dir_id dir_path name is_dir v =
     register_mangle_if_needed env (posix_name_to_afp name) name (add_node dir_id (posix_name_to_afp name) is_dir (dir_path @ [name]) v)"

lemma unat_succ: "unat (w :: u32) + 1 < 2 ^ 32 \<Longrightarrow> unat (w + 1) = unat w + 1"
  by (subst unat_add_lem [THEN iffD1]) simp_all

lemma add_node_ok:
  assumes "table_ok v" and "unat (vo_next_id v) + 1 < 2 ^ 32"
  shows "table_ok (add_node parent name is_dir p v)"
proof (rule table_okI)
  have up: "i < vo_next_id v \<Longrightarrow> i < vo_next_id v + 1" "vo_next_id v < vo_next_id v + 1" for i
    using unat_succ [OF assms(2)] by (simp_all add: word_less_nat_alt)
  show "\<exists>n. vo_nodes (add_node parent name is_dir p v) i = Some n \<and> nd_path n = q"
    if "vo_path_to_id (add_node parent name is_dir p v) q = Some i" for q i
  proof (cases "q = p")
    case True
    then show ?thesis using that by (auto simp: add_node_def new_node_def)
  next
    case False
    then have "vo_path_to_id v q = Some i" using that by (simp add: add_node_def)
    with table_ok_path [OF assms(1) this] table_ok_unused [OF assms(1), of q] show ?thesis by (auto simp: add_node_def)
  qed
  show "i < vo_next_id (add_node parent name is_dir p v)" if "vo_nodes (add_node parent name is_dir p v) i = Some n" for i n
    using that up table_ok_below [OF assms(1)] by (auto simp: add_node_def split: if_splits)
qed

lemma enter_spec:
  assumes "table_ok v" and "unat (vo_next_id v) + 1 < 2 ^ 32" and "vo_path_to_id v (dir_path @ [name]) = None"
  shows "table_ok (enter env dir_id dir_path name is_dir v)"
    and "names_ok v \<Longrightarrow> names_ok (enter env dir_id dir_path name is_dir v)"
    and "grown 1 v (enter env dir_id dir_path name is_dir v)"
    and "vo_path_to_id (enter env dir_id dir_path name is_dir v) (dir_path @ [name]) = Some (vo_next_id v)"
    and "vo_nodes (enter env dir_id dir_path name is_dir v) (vo_next_id v)
      = Some (new_node (vo_next_id v) dir_id (posix_name_to_afp name) is_dir (dir_path @ [name]))"
proof -
  let ?w = "add_node dir_id (posix_name_to_afp name) is_dir (dir_path @ [name]) v"
  have same: "same_table ?w (enter env dir_id dir_path name is_dir v)" by (simp add: enter_def)
  show "table_ok (enter env dir_id dir_path name is_dir v)"
    using add_node_ok [OF assms(1,2)] table_ok_cong [OF same] by simp
  have "names_ok ?w" if "names_ok v"
    using that table_ok_unused [OF assms(1)] by (auto simp: names_ok_def add_node_def new_node_def split: if_splits)
  then show "names_ok (enter env dir_id dir_path name is_dir v)" if "names_ok v"
    using that names_ok_cong [OF same] by simp
  show "grown 1 v (enter env dir_id dir_path name is_dir v)"
    using unat_succ [OF assms(2)] assms(3) table_ok_fresh [OF assms(1)]
    by (auto simp: grown_def enter_def register_mangle_if_needed_def add_node_def map_le_def)
qed (simp_all add: enter_def register_mangle_if_needed_def add_node_def)

section \<open>Reading a directory into the table\<close>

lemma populate_spec:
  "table_ok v \<Longrightarrow> unat (vo_next_id v) + length entries < 2 ^ 32 \<Longrightarrow> populate env dir_id dir_path entries v = (ok, v') \<Longrightarrow>
   table_ok v' \<and> (names_ok v \<longrightarrow> names_ok v') \<and> grown (length entries) v v'"
proof (induction env dir_id dir_path entries v arbitrary: ok v' rule: populate.induct)
  case (3 env dir_id dir_path entry entries v)
  let ?name = "utf8_lossy (de_name entry)"
  let ?w = "\<lambda>is_dir. enter env dir_id dir_path ?name is_dir v"
  have less: "grown (length entries) v v' \<Longrightarrow> grown (length (Some entry # entries)) v v'" by (erule grown_mono) simp
  show ?case
  proof (cases "hidden_name ?name \<or> vo_path_to_id v (dir_path @ [?name]) \<noteq> None")
    case True
    then have "populate env dir_id dir_path entries v = (ok, v')"
      using "3.prems"(3) by (cases "hidden_name ?name") (simp_all add: Let_def)
    with True "3.IH"(1,2) "3.prems"(1,2) have "table_ok v' \<and> (names_ok v \<longrightarrow> names_ok v') \<and> grown (length entries) v v'"
      by (cases "hidden_name ?name") simp_all
    with less show ?thesis by blast
  next
    case new: False
    show ?thesis
    proof (cases "de_is_dir entry")
      case None
      then show ?thesis using new "3.prems" by (auto simp: Let_def)
    next
      case (Some is_dir)
      have bound: "unat (vo_next_id v) + 1 < 2 ^ 32" using "3.prems"(2) by simp
      note e = enter_spec [OF "3.prems"(1) bound, of dir_path ?name env dir_id is_dir]
      have g: "grown 1 v (?w is_dir)" using e(3) new by simp
      have "populate env dir_id dir_path entries (?w is_dir) = (ok, v')"
        using new Some "3.prems"(3) by (auto simp: Let_def enter_def)
      moreover have "unat (vo_next_id (?w is_dir)) + length entries < 2 ^ 32" using g "3.prems"(2) by (simp add: grown_def)
      ultimately have "table_ok v' \<and> (names_ok (?w is_dir) \<longrightarrow> names_ok v') \<and> grown (length entries) (?w is_dir) v'"
        using "3.IH"(3) [OF refl _ _ Some, folded enter_def, OF _ _ e(1)] new by simp
      with e(2) new grown_trans [OF g] show ?thesis by auto
    qed
  qed
qed auto

text \<open>The entries the host lists for a directory of the table.\<close>

definition listed :: "('h, 't, 'w) Env \<Rightarrow> ('h, 't, 'w) Volume \<Rightarrow> u32 \<Rightarrow> nat" where
  "listed env v dir_id =
     (case get_node_path v dir_id of
        None \<Rightarrow> 0
      | Some p \<Rightarrow> (case h_read_dir (ev_host env) (vo_world v) (vo_path v @ p) of None \<Rightarrow> 0 | Some es \<Rightarrow> length es))"

lemma ensure_dir_populated_spec:
  assumes "table_ok v" and "unat (vo_next_id v) + listed env v dir_id < 2 ^ 32" and "ensure_dir_populated env dir_id v = (ok, v')"
  shows "table_ok v' \<and> (names_ok v \<longrightarrow> names_ok v') \<and> grown (listed env v dir_id) v v'"
  using assms populate_spec [OF assms(1)]
  by (auto simp: ensure_dir_populated_def listed_def split: option.splits)

definition root_id :: "u32 \<Rightarrow> u32" where
  "root_id i = (if i = 0 then 2 else i)"

lemma resolve_node_known:
  assumes "table_ok v" and "resolve_node env v dir_id p = Inr i" and "vo_nodes v 1 \<noteq> None" and "vo_nodes v 2 \<noteq> None"
  shows "vo_nodes v i \<noteq> None"
  using assms table_ok_path [OF assms(1)]
  by (auto simp: resolve_node_def Let_def split: if_splits option.splits)

lemma resolve_node_lazy_spec:
  assumes "table_ok v" and "unat (vo_next_id v) + listed env v (root_id dir_id) < 2 ^ 32"
    and "resolve_node_lazy env dir_id p v = (r, v')"
  shows "table_ok v' \<and> (names_ok v \<longrightarrow> names_ok v') \<and> grown (listed env v (root_id dir_id)) v v'"
    and "\<And>i. r = Inr i \<Longrightarrow> resolve_node env v' dir_id p = Inr i"
proof -
  show "table_ok v' \<and> (names_ok v \<longrightarrow> names_ok v') \<and> grown (listed env v (root_id dir_id)) v v'"
    using assms ensure_dir_populated_spec [OF assms(1,2)]
    by (cases "ensure_dir_populated env (root_id dir_id) v")
       (auto simp: resolve_node_lazy_def root_id_def [symmetric] Let_def split: sum.splits if_splits)
  show "\<And>i. r = Inr i \<Longrightarrow> resolve_node env v' dir_id p = Inr i"
    using assms(3) by (auto simp: resolve_node_lazy_def lift_res_def Let_def split: sum.splits if_splits)
qed

lemma volume_new_ok: "table_ok (volume_new env name p volume_id db w)" "names_ok (volume_new env name p volume_id db w)"
  by (auto simp: table_ok_def names_ok_def volume_new_def new_node_def split: if_splits)

end
