(* ===== verification/Afp_Packet_Props.thy ===== *)
theory Afp_Packet_Props
  imports Afp_Commands
begin

text \<open>
  What the packets of the file protocol (src/tailtalk-packets/src/afp) promise: log in and server information survive the wire, and
  where a request for parameters panics, a comment is misread and a volume cannot be listed.
\<close>

section \<open>Strings on the wire\<close>

lemma ms_bytes_ascii:
  assumes "mac_ascii mr" and "is_ascii (ms_value s)"
  shows "ms_bytes mr s (replicate 256 0) =
    Inr (pascal (take 255 (ms_value s)) @ replicate (255 - min (length (ms_value s)) 255) 0, 1 + min (length (ms_value s)) 255)"
  using mac_ascii_text [OF assms] by (simp add: ms_bytes_def put_0 pascal_def Let_def min_def)

lemma is_ascii_take [simp]: "is_ascii s \<Longrightarrow> is_ascii (take n s)"
  by (auto simp: is_ascii_def list_all_iff dest: in_set_takeD)

lemma is_ascii_names [simp]: "is_ascii (version_str v)" "is_ascii (uam_str u)"
  by (cases v, simp_all add: version_str_def is_ascii_def ascii_def) (cases u, simp_all add: uam_str_def is_ascii_def ascii_def)

lemma names_nonempty [simp]: "version_str v \<noteq> []" "uam_str u \<noteq> []"
  by (cases v, simp_all add: version_str_def ascii_def) (cases u, simp_all add: uam_str_def ascii_def)

lemma length_names: "length (version_str v) = 14" "length (uam_str u) \<le> 22"
  by (cases v, simp_all add: version_str_def ascii_def) (cases u, simp_all add: uam_str_def ascii_def)

lemma uam_short: "length (uam_str u) \<le> 255"
  using length_names(2) [of u] by simp

lemma version_round [simp]: "version_try_from (version_str v) = Inr v"
  by (cases v) (simp_all add: version_try_from_def version_str_def ascii_def)

lemma uam_round [simp]: "uam_try_from (uam_str u) = Inr u"
  by (cases u) (simp_all add: uam_try_from_def uam_str_def ascii_def lower_byte_def)

definition on_wire :: "bytes \<Rightarrow> MacString" where
  "on_wire s = \<lparr>ms_value = s, ms_wire_len = Some (1 + length s)\<rparr>"

lemma on_wire_simps [simp]: "ms_value (on_wire s) = s" "ms_byte_len mr (on_wire s) = 1 + length s"
  by (simp_all add: on_wire_def ms_byte_len_def)

lemma ms_try_from_ascii:
  assumes "mac_ascii mr" and "is_ascii s" and "length s \<le> 255"
  shows "ms_try_from mr (pascal s @ rest) = Inr (on_wire s)"
  using ms_try_from_pascal [OF assms(3), of mr s rest] mac_ascii_text [OF assms(1,2)] by (simp add: on_wire_def)

lemma read_pstr_here:
  assumes "mac_ascii mr" and "is_ascii s" and "length s \<le> 255" and "k = length pre"
  shows "read_pstr_at mr (pre @ pascal s @ rest) k = Inr (on_wire s, k + 1 + length s)"
  using ms_try_from_ascii [OF assms(1-3), of rest] assms(4) by (simp add: read_pstr_at_def)

section \<open>Log in\<close>

fun auth_eq :: "FPLoginAuth \<Rightarrow> FPLoginAuth \<Rightarrow> bool" where
  "auth_eq AuthNone AuthNone = True"
| "auth_eq (AuthCleartxt u p) (AuthCleartxt v q) = (ms_eq u v \<and> p = q)"
| "auth_eq _ _ = False"

text \<open>A user name is cut at 255 bytes.\<close>

fun auth_cut :: "FPLoginAuth \<Rightarrow> FPLoginAuth" where
  "auth_cut AuthNone = AuthNone"
| "auth_cut (AuthCleartxt u p) = AuthCleartxt (ms_new (take 255 (ms_value u))) p"

fun auth_wf :: "FPLoginAuth \<Rightarrow> bool" where
  "auth_wf AuthNone = True"
| "auth_wf (AuthCleartxt u p) = (is_ascii (ms_value u) \<and> length p = 8)"

text \<open>
A log in request parses back to the version and the credentials it was built from, whatever follows it in the packet; a
  user name longer than 255 bytes is cut there.\<close>

theorem login_roundtrip:
  assumes "mac_ascii mr" and "auth_wf (lg_auth l)"
  shows "\<exists>bytes l'. login_to_bytes mr l = Inr bytes \<and> login_parse mr (bytes @ rest) = Inr l'
    \<and> lg_version l' = lg_version l \<and> auth_eq (lg_auth l') (auth_cut (lg_auth l))"
proof -
  let ?v = "version_str (lg_version l)"
  note here = read_pstr_here [OF assms(1)]
  have v: "read_pstr_at mr (pascal ?v @ tail) 0 = Inr (on_wire ?v, 15)" for tail
    using here [of ?v 0 "[]" tail] by (simp add: length_names)
  have u: "read_pstr_at mr (pascal ?v @ pascal (uam_str u) @ tail) 15 = Inr (on_wire (uam_str u), 16 + length (uam_str u))" for u tail
    using here [of "uam_str u" 15 "pascal ?v" tail] length_names(2) [of u] by (simp add: length_names)
  show ?thesis
  proof (cases "lg_auth l")
    case AuthNone
    then show ?thesis using v u [of NoUserAuthent rest]
      by (simp add: login_to_bytes_def login_parse_def login_auth_def length_names Let_def)
  next
    case (AuthCleartxt user password)
    with assms(2) have user: "is_ascii (ms_value user)" "length password = 8" by simp_all
    let ?name = "take 255 (ms_value user)"
    let ?pre = "pascal ?v @ pascal (uam_str CleartxtPasswrd)"
    have n: "read_pstr_at mr (pascal ?v @ pascal (uam_str CleartxtPasswrd) @ pascal ?name @ tail) 32 = Inr (on_wire ?name, 33 + length ?name)" for tail
      using here [of ?name 32 ?pre tail] user by (simp add: length_names(1)) (simp add: uam_str_def ascii_def)
    have "login_to_bytes mr l = Inr (pascal ?v @ pascal (uam_str CleartxtPasswrd) @ pascal ?name @ password)"
      using AuthCleartxt ms_bytes_ascii [OF assms(1) user(1)] by (simp add: login_to_bytes_def Let_def min_def)
    moreover have "length (uam_str CleartxtPasswrd) = 16" by (simp add: uam_str_def ascii_def)
    ultimately show ?thesis using AuthCleartxt v u [of CleartxtPasswrd "pascal ?name @ password @ rest"] n [of "password @ rest"] user(2)
      by (simp add: login_parse_def login_auth_def length_names ms_eq_def ms_new_def)
  qed
qed

lemma login_roundtrip_witness:
  "\<exists>bytes l'. login_to_bytes \<lparr>mac_encode = id, mac_decode = id\<rparr>
      \<lparr>lg_version = Version2_1, lg_auth = AuthCleartxt (ms_new (ascii ''admin'')) (ascii ''secret12'')\<rparr> = Inr bytes
    \<and> login_parse \<lparr>mac_encode = id, mac_decode = id\<rparr> (bytes @ []) = Inr l' \<and> lg_version l' = Version2_1
    \<and> auth_eq (lg_auth l') (AuthCleartxt (ms_new (ascii ''admin'')) (ascii ''secret12''))"
  using login_roundtrip [of "\<lparr>mac_encode = id, mac_decode = id\<rparr>"
    "\<lparr>lg_version = Version2_1, lg_auth = AuthCleartxt (ms_new (ascii ''admin'')) (ascii ''secret12'')\<rparr>" "[]"]
  by (simp add: mac_ascii_def is_ascii_def ms_new_def ascii_def)

section \<open>Server information\<close>

lemma info_pstr_here:
  assumes "mac_ascii mr" and "is_ascii s" and "length s \<le> 255" and "k = length pre"
  shows "info_pstr mr (pre @ pascal s @ rest) k = Inr (on_wire s)"
proof -
  have "unat (word_of_nat (length s) :: u8) = length s" using assms(3) by (simp add: unsigned_of_nat take_bit_nat_eq_self)
  moreover have "pascal s = pascal s @ []" by simp
  ultimately show ?thesis using ms_try_from_ascii [OF assms(1-3), of "[]"] assms(4)
    by (simp add: info_pstr_def nth_append Let_def) (simp add: pascal_def)
qed

lemma info_pstrs_here:
  assumes "mac_ascii mr" and "\<forall>s\<in>set ss. is_ascii s \<and> length s \<le> 255" and "k = length pre"
  shows "info_pstrs mr (pre @ concat (map pascal ss) @ rest) k (length ss) = Inr (map on_wire ss)"
  using assms(2,3)
proof (induction ss arbitrary: pre k)
  case (Cons s ss)
  from Cons.IH [of "k + 1 + length s" "pre @ pascal s"] Cons.prems
  have "info_pstrs mr (pre @ pascal s @ concat (map pascal ss) @ rest) (k + 1 + length s) (length ss) = Inr (map on_wire ss)" by simp
  with ms_try_from_ascii [OF assms(1), of s "concat (map pascal ss) @ rest"] Cons.prems show ?case by simp
qed simp

lemma info_pstr_list_here:
  assumes "mac_ascii mr" and "\<forall>s\<in>set ss. is_ascii s \<and> length s \<le> 255" and "length ss \<le> 255" and "k = length pre"
  shows "info_pstr_list mr (pre @ pstr_list ss @ rest) k = Inr (map on_wire ss)"
proof -
  have "unat (word_of_nat (length ss) :: u8) = length ss" using assms(3) by (simp add: unsigned_of_nat take_bit_nat_eq_self)
  moreover have "info_pstrs mr ((pre @ [word_of_nat (length ss)]) @ concat (map pascal ss) @ rest) (k + 1) (length ss) = Inr (map on_wire ss)"
    by (rule info_pstrs_here) (use assms in auto)
  ultimately show ?thesis using assms(4) by (simp add: info_pstr_list_def pstr_list_def nth_append)
qed

lemma length_pstr_list: "\<forall>s\<in>set ss. length s \<le> n \<Longrightarrow> length (pstr_list ss) \<le> 1 + length ss * Suc n"
  by (induction ss) (auto simp: pstr_list_def)

definition srvr_info_wf :: "FPGetSrvrInfo \<Rightarrow> bool" where
  "srvr_info_wf i \<longleftrightarrow> is_ascii (ms_value (si_server_name i)) \<and> is_ascii (ms_value (si_machine_type i))
     \<and> length (si_versions i) \<le> 255 \<and> length (si_uams i) \<le> 255 \<and> (\<forall>icon. si_icon i = Some icon \<longrightarrow> length icon = 256)"

lemma srvr_info_bytes:
  assumes "mac_ascii mr" and "srvr_info_wf i"
  shows "let name = take 255 (ms_value (si_server_name i)); mt = take 255 (ms_value (si_machine_type i));
      padding = (11 + length name) mod 2; base = 11 + length name + padding;
      vs = pstr_list (map version_str (si_versions i)); us = pstr_list (map uam_str (si_uams i));
      icon_ptr = (case si_icon i of None \<Rightarrow> 0 | Some icon \<Rightarrow> base + 1 + length mt + length vs + length us)
    in srvr_info_to_bytes mr i = Inr (u16_bytes (word_of_nat base) @ u16_bytes (word_of_nat (base + 1 + length mt))
        @ u16_bytes (word_of_nat (base + 1 + length mt + length vs)) @ u16_bytes (word_of_nat icon_ptr) @ u16_bytes (si_flags i)
        @ pascal name @ replicate padding 0 @ pascal mt @ vs @ us @ (case si_icon i of None \<Rightarrow> [] | Some icon \<Rightarrow> icon))
      \<and> base + 1 + length mt + length vs + length us < 65536"
proof -
  from assms(2) have wf: "is_ascii (ms_value (si_server_name i))" "is_ascii (ms_value (si_machine_type i))"
    "length (si_versions i) \<le> 255" "length (si_uams i) \<le> 255" by (simp_all add: srvr_info_wf_def)
  have "length (pstr_list (map version_str (si_versions i))) \<le> 1 + length (si_versions i) * 15"
    using length_pstr_list [of "map version_str (si_versions i)" 14] by (simp add: length_names)
  moreover have "length (pstr_list (map uam_str (si_uams i))) \<le> 1 + length (si_uams i) * 23"
    using length_pstr_list [of "map uam_str (si_uams i)" 22] by (simp add: length_names)
  ultimately have small: "11 + length (take 255 (ms_value (si_server_name i))) + 1 + 1 + length (take 255 (ms_value (si_machine_type i)))
      + length (pstr_list (map version_str (si_versions i))) + length (pstr_list (map uam_str (si_uams i))) < 65536"
    using wf(3,4) by simp
  show ?thesis
    using ms_bytes_ascii [OF assms(1) wf(1)] ms_bytes_ascii [OF assms(1) wf(2)] small
    by (auto simp: srvr_info_to_bytes_def Let_def pascal_def min_def add.assoc split: option.split)
qed

text \<open>Equality of the packets compares the texts.\<close>

definition srvr_info_eq :: "FPGetSrvrInfo \<Rightarrow> FPGetSrvrInfo \<Rightarrow> bool" where
  "srvr_info_eq a b \<longleftrightarrow> ms_eq (si_machine_type a) (si_machine_type b) \<and> si_versions a = si_versions b \<and> si_uams a = si_uams b
     \<and> si_icon a = si_icon b \<and> si_flags a = si_flags b \<and> ms_eq (si_server_name a) (si_server_name b)"

lemma read_u16_here: "k = length pre \<Longrightarrow> read_u16 (pre @ u16_bytes w @ rest) k = w"
  by (simp add: read_u16_def u16_bytes_def nth_append)

text \<open>
Claim C31: The status a server gives to browsing clients parses back to the machine type, versions, authentication methods, icon,
  flags and server name it was built from, for ASCII names of at most 255 bytes (longer ones are cut, and what the conversion
  to Mac Roman, a parameter, does to other texts is not assumed), at most 255 versions and 255 methods, and an icon of 256 bytes or none: every
  offset in the header then points at its field, whatever the lengths of the names and whether or not a pad byte is needed.\<close>

theorem srvr_info_roundtrip:
  assumes "mac_ascii mr" and "srvr_info_wf i"
    and "length (ms_value (si_server_name i)) \<le> 255" and "length (ms_value (si_machine_type i)) \<le> 255"
  shows "\<exists>bytes j. srvr_info_to_bytes mr i = Inr bytes \<and> srvr_info_parse mr bytes = Inr j \<and> srvr_info_eq j i"
proof -
  define name where "name = ms_value (si_server_name i)"
  define mt where "mt = ms_value (si_machine_type i)"
  define padding where "padding = (11 + length name) mod 2"
  define base where "base = 11 + length name + padding"
  define vs where "vs = pstr_list (map version_str (si_versions i))"
  define us where "us = pstr_list (map uam_str (si_uams i))"
  define icon where "icon = (case si_icon i of None \<Rightarrow> [] | Some icon \<Rightarrow> icon)"
  define icon_ptr where "icon_ptr = (case si_icon i of None \<Rightarrow> 0 | Some icon \<Rightarrow> base + 1 + length mt + length vs + length us)"
  define h where "h = u16_bytes (word_of_nat base) @ u16_bytes (word_of_nat (base + 1 + length mt))
    @ u16_bytes (word_of_nat (base + 1 + length mt + length vs)) @ u16_bytes (word_of_nat icon_ptr) @ u16_bytes (si_flags i)"
  have wf: "is_ascii name" "is_ascii mt" "length (si_versions i) \<le> 255" "length (si_uams i) \<le> 255" "length name \<le> 255" "length mt \<le> 255"
    using assms(2-4) by (simp_all add: srvr_info_wf_def name_def mt_def)
  define body where "body = pascal name @ replicate padding 0 @ pascal mt @ vs @ us @ icon"
  have "srvr_info_to_bytes mr i = Inr (h @ body) \<and> base + 1 + length mt + length vs + length us < 65536"
    using srvr_info_bytes [OF assms(1,2)] wf
    by (cases "si_icon i") (simp_all add: Let_def h_def body_def icon_def icon_ptr_def vs_def us_def padding_def base_def add.assoc flip: name_def mt_def)
  then have bytes: "srvr_info_to_bytes mr i = Inr (h @ body)" and small: "base + 1 + length mt + length vs + length us < 65536" by simp_all
  have h: "length h = 10" by (simp add: h_def)
  have unat16: "unat (word_of_nat n :: u16) = n" if "n < 65536" for n using that by (simp add: unsigned_of_nat take_bit_nat_eq_self)
  have offsets: "unat (read_u16 (h @ body) 0) = base" "unat (read_u16 (h @ body) 2) = base + 1 + length mt"
    "unat (read_u16 (h @ body) 4) = base + 1 + length mt + length vs" "unat (read_u16 (h @ body) 6) = icon_ptr"
    "read_u16 (h @ body) 8 = si_flags i"
    using small by (auto simp: h_def read_u16_def u16_bytes_def unat16 icon_ptr_def simp del: of_nat_add of_nat_Suc split: option.split)
  have len: "1 + length name \<le> length body" "body \<noteq> []" "take (Suc (length name)) body = pascal name"
    by (simp_all add: body_def) (simp add: pascal_def)
  have name: "(h @ body) ! 10 = word_of_nat (length name)" "take (1 + length name) (drop 10 (h @ body)) = pascal name"
    using h by (simp_all add: body_def nth_append) (simp add: pascal_def)
  have name_len: "unat (word_of_nat (length name) :: u8) = length name" using wf(5) by (simp add: unsigned_of_nat take_bit_nat_eq_self)
  have parts: "h @ body = (h @ pascal name @ replicate padding 0) @ pascal mt @ (vs @ us @ icon)"
    "h @ body = (h @ pascal name @ replicate padding 0 @ pascal mt) @ vs @ (us @ icon)"
    "h @ body = (h @ pascal name @ replicate padding 0 @ pascal mt @ vs) @ us @ icon"
    "h @ body = (h @ pascal name @ replicate padding 0 @ pascal mt @ vs @ us) @ icon" by (simp_all add: body_def)
  have p1: "info_pstr mr (h @ body) base = Inr (on_wire mt)"
    unfolding parts(1) by (rule info_pstr_here) (use assms wf h in \<open>simp_all add: base_def\<close>)
  have p2: "info_pstr_list mr (h @ body) (base + 1 + length mt) = Inr (map on_wire (map version_str (si_versions i)))"
    unfolding parts(2) unfolding vs_def by (rule info_pstr_list_here) (use assms wf h in \<open>simp_all add: base_def length_names\<close>)
  have p3: "info_pstr_list mr (h @ body) (base + 1 + length mt + length vs) = Inr (map on_wire (map uam_str (si_uams i)))"
    unfolding parts(3) unfolding us_def
    by (rule info_pstr_list_here) (use assms wf h uam_short in \<open>auto simp: base_def\<close>)
  have p4: "info_icon (h @ body) icon_ptr = Inr (si_icon i)"
    using assms(2) h by (auto simp: parts(4) info_icon_def icon_ptr_def icon_def base_def srvr_info_wf_def split: option.splits)
  have "srvr_info_parse mr (h @ body) = Inr \<lparr>si_machine_type = on_wire mt, si_versions = si_versions i, si_uams = si_uams i,
      si_icon = si_icon i, si_flags = si_flags i, si_server_name = on_wire name\<rparr>"
    using ms_try_from_ascii [OF assms(1) wf(1,5), of "[]"] p1 p2 p3 p4 h len
    by (simp add: srvr_info_parse_def offsets name name_len Let_def collect_res_map comp_def del: append_assoc)
  with bytes show ?thesis by (simp add: srvr_info_eq_def ms_eq_def name_def mt_def)
qed

lemma srvr_info_roundtrip_witness:
  "\<exists>bytes j. srvr_info_to_bytes \<lparr>mac_encode = id, mac_decode = id\<rparr> \<lparr>si_machine_type = ms_new (ascii ''Mac''), si_versions = [Version2],
      si_uams = [NoUserAuthent], si_icon = Some (replicate 256 0xAA), si_flags = 3, si_server_name = ms_new (ascii ''Mini'')\<rparr> = Inr bytes
    \<and> srvr_info_parse \<lparr>mac_encode = id, mac_decode = id\<rparr> bytes = Inr j \<and> si_icon j = Some (replicate 256 0xAA)"
  using srvr_info_roundtrip [of "\<lparr>mac_encode = id, mac_decode = id\<rparr>" "\<lparr>si_machine_type = ms_new (ascii ''Mac''), si_versions = [Version2],
      si_uams = [NoUserAuthent], si_icon = Some (replicate 256 0xAA), si_flags = 3, si_server_name = ms_new (ascii ''Mini'')\<rparr>"]
  by (fastforce simp: mac_ascii_def srvr_info_wf_def is_ascii_def ms_new_def ascii_def srvr_info_eq_def)

section \<open>Where the packets go wrong\<close>

text \<open>
A request to set parameters is never refused with a panic unless its path ends the request at an odd offset; then it always
  is. So a client can take the session down with a request that leaves out its parameters.\<close>

theorem set_parms_panics_iff:
  "(set_file_parms_parse mr buf = None) =
     (10 \<le> length buf \<and> length buf = 10 + unat (buf ! 9) \<and> even (unat (buf ! 9)) = False)
   \<and> (set_file_dir_parms_parse mr buf = None) = (set_file_parms_parse mr buf = None)"
proof (cases "10 \<le> length buf")
  case True
  show ?thesis
  proof (cases "ms_try_from mr (drop 9 buf)")
    case (Inl e)
    with True have "length buf < 10 + unat (buf ! 9)" by (auto simp: ms_try_from_def Let_def split: if_splits)
    with Inl True show ?thesis by (simp add: set_file_parms_parse_def set_file_dir_parms_parse_def)
  next
    case (Inr path)
    from ms_try_from_wire [OF Inr] True have "ms_byte_len mr path = 1 + unat (buf ! 9)" "10 + unat (buf ! 9) \<le> length buf" by auto
    with Inr True show ?thesis
      by (auto simp: set_file_parms_parse_def set_file_dir_parms_parse_def params_behind_def Let_def split: option.split)
  qed
qed (simp add: set_file_parms_parse_def set_file_dir_parms_parse_def)

lemma set_parms_panics: "set_file_parms_parse mr [0, 1, 0, 0, 0, 2, 0, 0x20, 2, 1, 0x61] = None"
  by (simp add: set_file_parms_parse_def ms_try_from_def params_behind_def ms_byte_len_def)

text \<open>
  The comment in a request begins behind the path, at an even offset. For a path of odd length the parser is one place short: it takes
  the last character of the path for the length of the comment.\<close>

lemma comment_misread:
  assumes "odd (length name)" and "length name \<le> 255" and "length head = 7"
  shows "\<exists>c. add_comment_parse mr (head @ pascal name @ [0] @ pascal comment) = Inr c
    \<and> (let n = unat (last name)
       in ac_comment c = (if 0 < n \<and> n \<le> 2 + length comment then take n (0 # pascal comment) else []))"
proof -
  have n: "name \<noteq> []" using assms(1) by auto
  have "ms_try_from mr (pascal name @ [0] @ pascal comment) = Inr \<lparr>ms_value = mac_decode mr name, ms_wire_len = Some (1 + length name)\<rparr>"
    by (rule ms_try_from_pascal) (use assms n in auto)
  moreover have "(head @ pascal name @ [0] @ pascal comment) ! (7 + length name) = last name"
    using assms(3) n by (simp add: nth_append last_conv_nth pascal_def nth_Cons')
  ultimately show ?thesis using assms
    by (simp add: add_comment_parse_def ms_byte_len_def Let_def)
qed

text \<open>With a name of one character and a comment: what comes out is not the comment.\<close>

lemma comment_lost:
  "map_sum id ac_comment (add_comment_parse mr ([0, 1, 0, 0, 0, 2, 2] @ pascal [0x61] @ [0] @ pascal [0x48, 0x69])) = Inr []"
  by (simp add: add_comment_parse_def pascal_def ms_try_from_def ms_byte_len_def Let_def)

text \<open>The reply that lists one volume, as the server sends it.\<close>

definition list_volume :: "MacRoman \<Rightarrow> u32 \<Rightarrow> bytes \<Rightarrow> bytes \<Rightarrow> AfpError + (bytes \<times> nat)" where
  "list_volume mr t name buf = srvr_parms_to_bytes mr
     \<lparr>sp_server_time = t, sp_volumes = [\<lparr>fv_has_password = False, fv_has_config_info = False, fv_name = ms_new name\<rparr>]\<rparr> buf"

lemma volume_bytes:
  assumes "mac_ascii mr" and "is_ascii name" and "length name \<le> 255" and "length buf = 2 + length name"
  shows "volume_to_bytes mr \<lparr>fv_has_password = False, fv_has_config_info = False, fv_name = ms_new name\<rparr> buf =
    Inr ([0] @ pascal name, 2 + length name)"
proof -
  have enc: "mac_encode mr name = name" using mac_ascii_text [OF assms(1,2)] by simp
  have "ms_bytes mr (ms_new name) (drop 1 (put 0 [0, w] buf)) = Inr (pascal name, 1 + length name)" for w
    using ms_bytes_pascal [of mr "ms_new name"] assms(3,4) enc by (simp add: ms_new_def ms_encoded_len_def put_0)
  moreover have "take 1 (put 0 [0, w] buf) = [0]" for w by (simp add: put_0)
  ultimately show ?thesis using assms(4) by (simp add: volume_to_bytes_def Let_def) (simp add: ms_new_def)
qed

text \<open>
Claim C30: A server can list its volume whenever the name is ASCII, and the reply is the time and the volume; but a name that takes
  fewer bytes in MacRoman than in UTF-8, as every accented letter does, makes the reply fail whatever the buffer.\<close>

theorem volume_list_reply:
  "(mac_ascii mr \<and> is_ascii name \<and> length name \<le> 255 \<and> 7 + length name \<le> length buf \<longrightarrow>
       (\<exists>out. list_volume mr t name buf = Inr (out, 7 + length name) \<and> take (7 + length name) out = u32_bytes t @ [1, 0] @ pascal name))
   \<and> (length (mac_encode mr name) < length name \<and> length (mac_encode mr name) \<le> 255 \<longrightarrow> list_volume mr t name buf = Inl InvalidSize)"
proof (intro conjI impI)
  assume a: "mac_ascii mr \<and> is_ascii name \<and> length name \<le> 255 \<and> 7 + length name \<le> length buf"
  then have enc: "mac_encode mr name = name" using mac_ascii_text by blast
  show "\<exists>out. list_volume mr t name buf = Inr (out, 7 + length name) \<and> take (7 + length name) out = u32_bytes t @ [1, 0] @ pascal name"
  proof -
    let ?v = "\<lparr>fv_has_password = False, fv_has_config_info = False, fv_name = ms_new name\<rparr>"
    let ?head = "u32_bytes t @ [1 :: u8]"
    have size: "volume_size mr ?v = 2 + length name"
      using a enc by (simp add: volume_size_def ms_byte_len_def ms_new_def ms_encoded_len_def)
    have "put 0 ?head (take (7 + length name) buf) = ?head @ drop 5 (take (7 + length name) buf)" using a by (simp add: put_0)
    moreover have "volume_to_bytes mr ?v (drop 5 (take (7 + length name) buf)) = Inr ([0] @ pascal name, 2 + length name)"
      by (rule volume_bytes) (use a in auto)
    moreover have "take (3 + length name) (1 # 0 # pascal name @ r) = 1 # 0 # pascal name" for r by (simp add: take_Cons')
    moreover have "\<not> length buf < 7 + length name" using a by simp
    ultimately show ?thesis by (simp add: list_volume_def srvr_parms_to_bytes_def size Let_def)
  qed
next
  assume "length (mac_encode mr name) < length name \<and> length (mac_encode mr name) \<le> 255"
  then show "list_volume mr t name buf = Inl InvalidSize"
    by (simp add: list_volume_def srvr_parms_to_bytes_def volume_size_def ms_byte_len_def ms_new_def ms_encoded_len_def Let_def
        volume_to_bytes_def put_def u32_bytes_def)
qed

text \<open>A codec with one accented letter: two bytes in UTF-8, one in MacRoman.\<close>

lemma volume_list_reply_witness:
  "srvr_parms_to_bytes \<lparr>mac_encode = \<lambda>s. if s = [0xC3, 0xA9] then [0x8E] else s, mac_decode = id\<rparr> \<lparr>sp_server_time = 0,
     sp_volumes = [\<lparr>fv_has_password = False, fv_has_config_info = False, fv_name = ms_new [0xC3, 0xA9]\<rparr>]\<rparr> (replicate 512 0)
     = Inl InvalidSize"
  using volume_list_reply [of "\<lparr>mac_encode = \<lambda>s. if s = [0xC3, 0xA9] then [0x8E] else s, mac_decode = id\<rparr>" "[0xC3, 0xA9]" "replicate 512 0" 0]
  by (simp add: list_volume_def)

end
