(* ===== verification/Afp_Listing.thy ===== *)
theory Afp_Listing
  imports Afp_Parms_Props Afp_Table Afp_Packet_Props
begin

text \<open>
  A page of a directory listing. It is within the size the client asked for, it is written without leaving the buffer, and a
  client that steps by the length bytes finds one row per entry of the page, with the name where the name field points.
\<close>

section \<open>Fields that fit\<close>

lemma write_fields_fits:
  "o' + length (fields_image k fs) \<le> length out \<Longrightarrow> \<forall>s. Named s \<in> set fs \<longrightarrow> k + 1 + length s \<le> length out \<Longrightarrow>
   write_fields k fs out o' ex \<noteq> Inl Panicked"
proof (induction fs arbitrary: out o' ex)
  case (Cons f fs)
  show ?case
  proof (cases f)
    case (Plain d)
    then show ?thesis using Cons.prems Cons.IH [of "o' + length d" "put o' d out" ex] by simp
  next
    case (Named s)
    then have "k + 1 + length s \<le> length out" using Cons.prems(2) by simp
    with Named show ?thesis
      using Cons.prems Cons.IH [of "o' + 2" "put k (word_of_nat (length s) # s) (put o' (u16_bytes (word_of_nat k)) out)" "ex + (length s + 1)"]
      by simp
  qed simp
qed simp

lemma write_fields_unavailable: "Unavailable \<in> set fs \<Longrightarrow> write_fields k fs out o' ex \<noteq> Inr r"
  by (induction k fs out o' ex rule: write_fields.induct) auto

lemma fields_left_length:
  "write_fields k fs out o' ex \<noteq> Inl Panicked \<Longrightarrow> length (fields_left k fs out o') = length out"
proof (induction k fs out o' ex rule: write_fields.induct)
  case (2 k d fs out o' ex)
  then show ?case by (simp split: if_splits)
next
  case (3 k name fs out o' ex)
  then show ?case by (simp split: if_splits)
qed simp_all

section \<open>Rows\<close>

definition entry_bitmap :: "FPEnumerate \<Rightarrow> bytes \<times> bool \<Rightarrow> u16" where
  "entry_bitmap cmd e = (if snd e then en_directory_bitmap cmd else en_file_bitmap cmd)"

definition entry_name_at :: "FPEnumerate \<Rightarrow> bytes \<times> bool \<Rightarrow> nat" where
  "entry_name_at cmd e = (if snd e then dir_long_name_offset (en_directory_bitmap cmd) else file_long_name_offset (en_file_bitmap cmd))"

definition sent_name :: "('h, 't, 'w) Env \<Rightarrow> bytes \<times> bool \<Rightarrow> bytes" where
  "sent_name env e = mangle_name (ev_mac env) (posix_name_to_afp (fst e))"

definition entry_len :: "('h, 't, 'w) Env \<Rightarrow> FPEnumerate \<Rightarrow> bytes \<times> bool \<Rightarrow> nat" where
  "entry_len env cmd e = entry_name_at cmd e + (if bit (entry_bitmap cmd e) LONG_NAME then length (sent_name env e) + 1 else 0)"

text \<open>The Pascal string that the two bytes of the name field point to, counted from the first parameter.\<close>

definition named_in :: "u16 \<Rightarrow> bytes \<Rightarrow> bytes \<Rightarrow> bool" where
  "named_in b parms name \<longleftrightarrow>
     (let at = unat (read_u16 parms (name_field_at b)) in take (length name + 1) (drop at parms) = pascal name)"

text \<open>A row: its own length, the kind of the entry, and the parameters, padded to an even length.\<close>

definition row_ok :: "('h, 't, 'w) Env \<Rightarrow> FPEnumerate \<Rightarrow> bytes \<times> bool \<Rightarrow> bytes \<Rightarrow> bool" where
  "row_ok env cmd e r \<longleftrightarrow>
     (\<exists>parms. length parms = entry_len env cmd e
        \<and> r = word_of_nat (length r) # (if snd e then 0x80 else 0) # parms @ (if even (length parms) then [] else [0])
        \<and> length r < 256
        \<and> (bit (entry_bitmap cmd e) LONG_NAME \<longrightarrow> named_in (entry_bitmap cmd e) parms (sent_name env e)))"

fun walk_rows :: "nat \<Rightarrow> bytes \<Rightarrow> bytes list option" where
  "walk_rows 0 bs = (if bs = [] then Some [] else None)"
| "walk_rows (Suc n) bs =
     (case bs of
        [] \<Rightarrow> None
      | l # _ \<Rightarrow> if l = 0 \<or> length bs < unat l then None
                 else map_option ((#) (take (unat l) bs)) (walk_rows n (drop (unat l) bs)))"

lemma row_ok_head:
  assumes "row_ok env cmd e r"
  shows "\<exists>l rest. r = l # rest \<and> unat l = length r \<and> l \<noteq> 0 \<and> even (length r)"
proof -
  from assms obtain k parms where r: "r = word_of_nat (length r) # k # parms @ (if even (length parms) then [] else [0])"
    and len: "length r < 256"
    unfolding row_ok_def by blast
  have "length r = 2 + length parms + length parms mod 2"
    by (subst r) (simp add: mod2_eq_if)
  then have ev: "even (length r)" and pos: "length r \<noteq> 0" by (simp_all add: mod2_eq_if)
  have u: "unat (word_of_nat (length r) :: u8) = length r" using len by (simp add: unat_of_nat take_bit_eq_mod)
  with pos have "(word_of_nat (length r) :: u8) \<noteq> 0" by auto
  with r u ev show ?thesis by blast
qed

lemma walk_rows_concat: "list_all2 (row_ok env cmd) es rows \<Longrightarrow> walk_rows (length rows) (concat rows) = Some rows"
proof (induction rule: list_all2_induct)
  case (Cons e es r rows)
  from row_ok_head [OF Cons.hyps(1)] obtain l rest where "r = l # rest" "unat l = length r" "l \<noteq> 0" by blast
  with Cons.IH show ?case by simp
qed simp

lemma length_mangle: "length (mangle_name mr name) \<le> 31"
  using mangle_long [of "mac_encode mr name"]
  by (cases "31 < length (mac_encode mr name)") (auto simp: mangle_name_def mangle_encoded_def AFP2_MAX_NAME_LEN_def)

lemma field_len_le: "field_len b i n \<le> n"
  by (simp add: field_len_def)

lemma name_offset_le: "dir_long_name_offset b \<le> 90" "file_long_name_offset b \<le> 90"
proof -
  note le = field_len_le [of b]
  show "dir_long_name_offset b \<le> 90"
    using le [of ATTRIBUTES 2] le [of PARENT_DIR_ID 4] le [of CREATE_DATE 4] le [of MODIFICATION_DATE 4] le [of BACKUP_DATE 4]
      le [of FINDER_INFO 32] le [of LONG_NAME 2] le [of SHORT_NAME 2] le [of DIR_ID 4] le [of OFFSPRING_COUNT 2] le [of OWNER_ID 4]
      le [of GROUP_ID 4] le [of ACCESS_RIGHTS 4] le [of PRODOS_INFO PRODOS_INFO_LEN]
    unfolding dir_long_name_offset_def PRODOS_INFO_LEN_def by linarith
  show "file_long_name_offset b \<le> 90"
    using le [of ATTRIBUTES 2] le [of PARENT_DIR_ID 4] le [of CREATE_DATE 4] le [of MODIFICATION_DATE 4] le [of BACKUP_DATE 4]
      le [of FINDER_INFO 32] le [of LONG_NAME 2] le [of SHORT_NAME 2] le [of FILE_NUMBER 4] le [of DATA_FORK_LENGTH 4]
      le [of RESOURCE_FORK_LENGTH 4] le [of PRODOS_INFO PRODOS_INFO_LEN]
    unfolding file_long_name_offset_def PRODOS_INFO_LEN_def by linarith
qed

lemma entry_name_at_le: "entry_name_at cmd e \<le> 90"
  using name_offset_le by (simp add: entry_name_at_def)

lemma entry_len_le: "entry_len env cmd e \<le> 122"
  using entry_name_at_le [of cmd e] length_mangle [of "ev_mac env" "posix_name_to_afp (fst e)"]
  by (simp add: entry_len_def sent_name_def)

section \<open>One entry\<close>

definition entry_parms ::
  "('h, 't, 'w) Env \<Rightarrow> FPEnumerate \<Rightarrow> path \<Rightarrow> bytes \<times> bool \<Rightarrow> ('h, 't, 'w) Volume \<Rightarrow> bytes \<Rightarrow> Fault + bytes \<times> nat" where
  "entry_parms env cmd p e v room =
     (if snd e then get_directory_parms_resp env v (en_directory_bitmap cmd) (p @ [fst e]) room
      else get_file_parms_resp env v (en_file_bitmap cmd) (p @ [fst e]) room)"

text \<open>The node of an entry of the directory at a path.\<close>

definition entry_known :: "path \<Rightarrow> bytes \<times> bool \<Rightarrow> ('h, 't, 'w) Volume \<Rightarrow> bool" where
  "entry_known p e v \<longleftrightarrow>
     (\<exists>n. node_at_path v (p @ [fst e]) = Some n \<and> nd_path n = p @ [fst e] \<and> nd_name n = posix_name_to_afp (fst e))"

definition parms_ok :: "('h, 't, 'w) Env \<Rightarrow> FPEnumerate \<Rightarrow> bytes \<times> bool \<Rightarrow> bytes \<Rightarrow> bool" where
  "parms_ok env cmd e img \<longleftrightarrow>
     length img = entry_len env cmd e \<and>
     (bit (entry_bitmap cmd e) LONG_NAME \<longrightarrow> named_in (entry_bitmap cmd e) img (sent_name env e))"

lemma reply_image_ok:
  fixes cmd :: FPEnumerate and e :: "bytes \<times> bool"
  defines "k \<equiv> entry_name_at cmd e" and "b \<equiv> entry_bitmap cmd e"
  assumes "length (fields_image k fs) = k"
    and "bit b LONG_NAME \<Longrightarrow> read_u16 (reply_image k fs (bit b LONG_NAME) (sent_name env e)) (name_field_at b) = word_of_nat k"
  shows "parms_ok env cmd e (reply_image k fs (bit b LONG_NAME) (sent_name env e))"
proof -
  have "k < 2 ^ 16" using entry_name_at_le [of cmd e] by (simp add: k_def)
  then have "unat (word_of_nat k :: u16) = k" by (simp add: unat_of_nat take_bit_eq_mod)
  then show ?thesis
    using assms(3,4)
    by (simp add: parms_ok_def named_in_def entry_len_def flip: k_def b_def) (simp add: reply_image_def pascal_def)
qed

lemma dir_fields_no_count:
  assumes "bit b OFFSPRING_COUNT" and "count_directory_entries env v (vo_path v @ p) = None"
  shows "Unavailable \<in> set (dir_fields env v node p b)"
    and "length (fields_image k (dir_fields env v node p b)) \<le> dir_long_name_offset b"
    and "Named s \<in> set (dir_fields env v node p b) \<Longrightarrow> bit b LONG_NAME \<and> s = mangle_name (ev_mac env) (nd_name node)"
proof -
  show "Unavailable \<in> set (dir_fields env v node p b)"
    using assms unfolding dir_fields_def Let_def by (simp add: field_at_def)
  show "length (fields_image k (dir_fields env v node p b)) \<le> dir_long_name_offset b"
    using assms(2) length_finder_bytes [OF get_finder_info_wf, of env v node]
    by (simp add: dir_fields_def Let_def field_at_simps dir_long_name_offset_def field_len_def PRODOS_INFO_LEN_def prodos_bytes_def)
  show "bit b LONG_NAME \<and> s = mangle_name (ev_mac env) (nd_name node)" if "Named s \<in> set (dir_fields env v node p b)"
    using that assms(2) by (simp add: dir_fields_def Let_def) (auto simp: field_at_def split: if_splits)
qed

lemma entry_parms_dir:
  assumes "entry_known p e v" and "entry_len env cmd e \<le> length room" and "snd e"
  shows "entry_parms env cmd p e v room \<noteq> Inl Panicked"
    and "entry_parms env cmd p e v room = Inr r \<Longrightarrow> \<exists>img. parms_ok env cmd e img \<and> r = (put 0 img room, length img)"
proof -
  let ?b = "en_directory_bitmap cmd" and ?p = "p @ [fst e]"
  have b: "entry_bitmap cmd e = ?b" "entry_name_at cmd e = dir_long_name_offset ?b" using assms(3) by (simp_all add: entry_bitmap_def entry_name_at_def)
  obtain n where n: "node_at_path v ?p = Some n" "mangle_name (ev_mac env) (nd_name n) = sent_name env e"
    using assms(1) by (auto simp: entry_known_def sent_name_def)
  have "entry_parms env cmd p e v room \<noteq> Inl Panicked \<and>
    (entry_parms env cmd p e v room = Inr r \<longrightarrow> (\<exists>img. parms_ok env cmd e img \<and> r = (put 0 img room, length img)))" for r
  proof (cases "bit ?b OFFSPRING_COUNT \<and> count_directory_entries env v (vo_path v @ ?p) = None")
    case True
    then have c: "bit ?b OFFSPRING_COUNT" "count_directory_entries env v (vo_path v @ ?p) = None" by simp_all
    have eq: "entry_parms env cmd p e v room = write_fields (dir_long_name_offset ?b) (dir_fields env v n ?p ?b) room 0 0"
      using assms(3) n(1) by (simp add: entry_parms_def get_directory_parms_resp_def)
    note d = dir_fields_no_count [where node = n, OF c]
    have "\<forall>s. Named s \<in> set (dir_fields env v n ?p ?b) \<longrightarrow> dir_long_name_offset ?b + 1 + length s \<le> length room"
      using d(3) assms(2) n(2) b by (auto simp: entry_len_def)
    then have "write_fields (dir_long_name_offset ?b) (dir_fields env v n ?p ?b) room 0 0 \<noteq> Inl Panicked"
      by (rule write_fields_fits [rotated]) (use d(2) [where k = "dir_long_name_offset ?b"] assms(2) b in \<open>simp add: entry_len_def\<close>)
    with write_fields_unavailable [OF d(1)] show ?thesis unfolding eq by blast
  next
    case False
    then have c: "bit ?b OFFSPRING_COUNT \<longrightarrow> count_directory_entries env v (vo_path v @ ?p) \<noteq> None" by simp
    define img where "img = reply_image (entry_name_at cmd e) (dir_fields env v n ?p ?b) (bit (entry_bitmap cmd e) LONG_NAME) (sent_name env e)"
    have ok: "parms_ok env cmd e img"
      unfolding img_def by (rule reply_image_ok) (simp_all add: b dir_reply(2,3) [OF n(1) c])
    moreover have "entry_parms env cmd p e v room = (if length room < length img then Inl Panicked else Inr (put 0 img room, length img))"
      using dir_reply(1) [OF n(1) c, of room] assms(3) n(2) b by (simp add: entry_parms_def img_def Let_def)
    ultimately show ?thesis using assms(2) by (auto simp: parms_ok_def)
  qed
  then show "entry_parms env cmd p e v room \<noteq> Inl Panicked"
    and "entry_parms env cmd p e v room = Inr r \<Longrightarrow> \<exists>img. parms_ok env cmd e img \<and> r = (put 0 img room, length img)" by blast+
qed

lemma entry_parms_file:
  assumes "entry_known p e v" and "entry_len env cmd e \<le> length room" and "\<not> snd e"
  shows "entry_parms env cmd p e v room \<noteq> Inl Panicked"
    and "entry_parms env cmd p e v room = Inr r \<Longrightarrow> \<exists>img. parms_ok env cmd e img \<and> r = (put 0 img room, length img)"
proof -
  let ?b = "en_file_bitmap cmd" and ?p = "p @ [fst e]"
  have b: "entry_bitmap cmd e = ?b" "entry_name_at cmd e = file_long_name_offset ?b" using assms(3) by (simp_all add: entry_bitmap_def entry_name_at_def)
  obtain n where n: "node_at_path v ?p = Some n" "nd_path n = ?p" "mangle_name (ev_mac env) (nd_name n) = sent_name env e"
    using assms(1) by (auto simp: entry_known_def sent_name_def)
  have "entry_parms env cmd p e v room \<noteq> Inl Panicked \<and>
    (entry_parms env cmd p e v room = Inr r \<longrightarrow> (\<exists>img. parms_ok env cmd e img \<and> r = (put 0 img room, length img)))" for r
  proof (cases "h_metadata (ev_host env) (vo_world v) (vo_path v @ nd_path n)")
    case None
    then show ?thesis using assms(3) n(1) by (simp add: entry_parms_def get_file_parms_resp_def node_file_parms_def)
  next
    case (Some m)
    define img where "img = reply_image (entry_name_at cmd e) (file_fields env v n m ?b) (bit (entry_bitmap cmd e) LONG_NAME) (sent_name env e)"
    have ok: "parms_ok env cmd e img"
      unfolding img_def by (rule reply_image_ok) (simp_all add: b file_reply(2,3) [OF Some])
    moreover have "entry_parms env cmd p e v room = (if length room < length img then Inl Panicked else Inr (put 0 img room, length img))"
      using file_reply(1) [OF Some, of ?b room] assms(3) n b by (simp add: entry_parms_def get_file_parms_resp_def img_def Let_def)
    ultimately show ?thesis using assms(2) by (auto simp: parms_ok_def)
  qed
  then show "entry_parms env cmd p e v room \<noteq> Inl Panicked"
    and "entry_parms env cmd p e v room = Inr r \<Longrightarrow> \<exists>img. parms_ok env cmd e img \<and> r = (put 0 img room, length img)" by blast+
qed

lemmas entry_parms_spec = entry_parms_dir entry_parms_file

lemma parms_left_length:
  assumes "entry_parms env cmd p e v room \<noteq> Inl Panicked"
  shows "length (parms_left env v cmd (p @ [fst e]) (snd e) room) = length room"
  using assms fields_left_length
  by (fastforce simp: parms_left_def entry_parms_def get_directory_parms_resp_def split: option.splits)

section \<open>The page\<close>

lemma page_entry_spec:
  assumes "entry_known p e v" and "unat (en_max_reply_size cmd) \<le> length output"
  shows "page_entry env cmd p e output offset v \<noteq> PageCrash"
    and "page_entry env cmd p e output offset v = Wrote out offset' \<Longrightarrow>
      \<exists>row. row_ok env cmd e row \<and> offset' = offset + length row \<and> offset' \<le> unat (en_max_reply_size cmd)
        \<and> out = take offset output @ row @ drop offset' output"
    and "page_entry env cmd p e output offset v = LeftOut out \<Longrightarrow> length out = length output \<and> take offset out = take offset output"
proof -
  let ?len = "entry_len env cmd e"
  let ?padded = "?len + ?len mod 2"
  let ?room = "drop (offset + 2) output"
  have len: "(if snd e then dir_response_len (ev_mac env) (en_directory_bitmap cmd) (posix_name_to_afp (fst e))
      else file_response_len (ev_mac env) (en_file_bitmap cmd) (posix_name_to_afp (fst e))) = ?len"
    by (simp add: entry_len_def entry_name_at_def entry_bitmap_def sent_name_def dir_response_len_def file_response_len_def)
  have step: "page_entry env cmd p e output offset v =
     (if unat (en_max_reply_size cmd) < offset + 2 + ?padded then PageFull
      else if length output < offset + 2 then PageCrash
      else case entry_parms env cmd p e v ?room of
             Inl Panicked \<Rightarrow> PageCrash
           | Inl (Refused _) \<Rightarrow> LeftOut (take offset output @ [word_of_nat (?padded + 2), if snd e then FILE_TYPE_DIRECTORY else FILE_TYPE_FILE]
               @ parms_left env v cmd (p @ [fst e]) (snd e) ?room)
           | Inr (rest, n) \<Rightarrow>
               (let out = take offset output @ [word_of_nat (?padded + 2), if snd e then FILE_TYPE_DIRECTORY else FILE_TYPE_FILE] @ rest;
                    filled = offset + 2 + n
                in if even ?len then Wrote out filled
                   else if length out \<le> filled then PageCrash
                   else Wrote (out[filled := 0]) (filled + 1)))"
    unfolding page_entry_def Let_def len entry_parms_def [symmetric] by (rule refl)
  have "page_entry env cmd p e output offset v \<noteq> PageCrash \<and>
    (page_entry env cmd p e output offset v = Wrote out offset' \<longrightarrow>
      (\<exists>row. row_ok env cmd e row \<and> offset' = offset + length row \<and> offset' \<le> unat (en_max_reply_size cmd)
        \<and> out = take offset output @ row @ drop offset' output)) \<and>
    (page_entry env cmd p e output offset v = LeftOut out \<longrightarrow> length out = length output \<and> take offset out = take offset output)"
  proof (cases "unat (en_max_reply_size cmd) < offset + 2 + ?padded")
    case True
    then show ?thesis by (simp add: step)
  next
    case fits: False
    then have room: "offset + 2 \<le> length output" "?padded \<le> length ?room" "?len \<le> length ?room" using assms(2) by simp_all
    note parms = entry_parms_spec [OF assms(1) room(3)]
    show ?thesis
    proof (cases "entry_parms env cmd p e v ?room")
      case (Inl f)
      then have "f \<noteq> Panicked" using parms(1,3) by auto
      moreover have "length (parms_left env v cmd (p @ [fst e]) (snd e) ?room) = length output - (offset + 2)"
        using parms_left_length [of env cmd p e v ?room] parms(1,3) by auto
      ultimately show ?thesis using fits room(1) Inl by (cases f) (auto simp: step)
    next
      case (Inr r)
      with parms(2,4) obtain img where img: "parms_ok env cmd e img" "r = (put 0 img ?room, length img)" by blast
      then have li: "length img = ?len" by (simp add: parms_ok_def)
      define kind where "kind = (if snd e then FILE_TYPE_DIRECTORY else FILE_TYPE_FILE)"
      define row where "row = word_of_nat (?padded + 2) # kind # img @ (if even ?len then [] else [0])"
      have lr: "length row = ?padded + 2" using li by (simp add: row_def mod2_eq_if)
      have "row_ok env cmd e row"
        unfolding row_ok_def using img(1) li lr entry_len_le [of env cmd e]
        by (intro exI [of _ img]) (auto simp: parms_ok_def row_def kind_def FILE_TYPE_DIRECTORY_def FILE_TYPE_FILE_def mod2_eq_if)
      moreover have "page_entry env cmd p e output offset v =
        Wrote (take offset output @ row @ drop (offset + length row) output) (offset + length row)"
      proof (cases "even ?len")
        case True
        then show ?thesis using fits room Inr img(2) li lr
          by (simp add: step put_def row_def kind_def Let_def add.commute add.left_commute)
      next
        case False
        then have "drop ?len ?room \<noteq> []" using room(2) by (simp add: mod2_eq_if)
        then obtain x xs where x: "drop (offset + 2 + ?len) output = x # xs" by (cases "drop (offset + 2 + ?len) output") (auto simp: add.commute)
        then have xs: "xs = drop (offset + 2 + ?len + 1) output" by (metis drop_Suc_Cons drop0 drop_drop add.commute One_nat_def)
        have "(take offset output @ [word_of_nat (?padded + 2), kind] @ img @ x # xs)[offset + 2 + ?len := 0]
            = take offset output @ [word_of_nat (?padded + 2), kind] @ img @ 0 # xs"
          using room(1) li by (simp add: list_update_append)
        then show ?thesis using fits room Inr img(2) li lr False x xs
          by (simp add: step put_def row_def kind_def [symmetric] Let_def add.commute add.left_commute mod2_eq_if)
      qed
      ultimately show ?thesis using fits lr by (auto simp: add.assoc)
    qed
  qed
  then show "page_entry env cmd p e output offset v \<noteq> PageCrash"
    and "page_entry env cmd p e output offset v = Wrote out offset' \<Longrightarrow>
      \<exists>row. row_ok env cmd e row \<and> offset' = offset + length row \<and> offset' \<le> unat (en_max_reply_size cmd)
        \<and> out = take offset output @ row @ drop offset' output"
    and "page_entry env cmd p e output offset v = LeftOut out \<Longrightarrow> length out = length output \<and> take offset out = take offset output"
    by blast+
qed

lemma ensure_entry_spec:
  assumes "table_ok v" and "names_ok v" and "unat (vo_next_id v) + 1 < 2 ^ 32"
  shows "table_ok (ensure_entry env i p (fst e) (snd e) v) \<and> names_ok (ensure_entry env i p (fst e) (snd e) v)
    \<and> grown 1 v (ensure_entry env i p (fst e) (snd e) v) \<and> entry_known p e (ensure_entry env i p (fst e) (snd e) v)"
proof (cases "vo_path_to_id v (p @ [fst e])")
  case None
  then have eq: "ensure_entry env i p (fst e) (snd e) v = enter env i p (fst e) (snd e) v" by (simp add: ensure_entry_def enter_def)
  show ?thesis
    using enter_spec [OF assms(1,3) None, of env i "snd e"] assms(2)
    unfolding eq by (simp add: entry_known_def node_at_path_def new_node_def)
next
  case (Some j)
  with table_ok_path [OF assms(1) Some] names_okD [OF assms(2) Some] assms(1,2) show ?thesis
    by (auto simp: ensure_entry_def entry_known_def node_at_path_def)
qed

lemma enumerate_page_spec:
  "table_ok v \<Longrightarrow> names_ok v \<Longrightarrow> unat (vo_next_id v) + length entries < 2 ^ 32 \<Longrightarrow>
   unat (en_max_reply_size cmd) \<le> length output \<Longrightarrow> offset \<le> length output \<Longrightarrow>
   \<exists>es rows rest v'. subseq es entries \<and> list_all2 (row_ok env cmd) es rows
     \<and> enumerate_page env cmd i p entries output offset count v
       = (Inr (take offset output @ concat rows @ rest, offset + length (concat rows), count + word_of_nat (length rows)), v')
     \<and> offset + length (concat rows) + length rest = length output
     \<and> offset + length (concat rows) \<le> max offset (unat (en_max_reply_size cmd))
     \<and> table_ok v' \<and> names_ok v' \<and> grown (length entries) v v'"
proof (induction entries arbitrary: "output" offset count v)
  case Nil
  have "enumerate_page env cmd i p [] output offset count v = (Inr (output, offset, count), v)" by (simp add: ret_def)
  with Nil.prems show ?case by (intro exI [of _ "[]"] exI [of _ "drop offset output"] exI [of _ v]) simp
next
  case (Cons e entries)
  define w where "w = ensure_entry env i p (fst e) (snd e) v"
  have "unat (vo_next_id v) + 1 < 2 ^ 32" using Cons.prems(3) by simp
  then have w: "table_ok w" "names_ok w" "grown 1 v w" "entry_known p e w"
    using ensure_entry_spec [OF Cons.prems(1,2), of env i p e] by (simp_all add: w_def)
  have room: "unat (vo_next_id w) + length entries < 2 ^ 32" using w(3) Cons.prems(3) by (simp add: grown_def)
  note entry = page_entry_spec [OF w(4) Cons.prems(4), of env offset]
  have step: "enumerate_page env cmd i p (e # entries) output offset count v =
    (case page_entry env cmd p e output offset w of
       PageFull \<Rightarrow> (Inr (output, offset, count), w)
     | LeftOut out \<Rightarrow> enumerate_page env cmd i p entries out offset count w
     | Wrote out offset' \<Rightarrow> enumerate_page env cmd i p entries out offset' (count + 1) w
     | PageCrash \<Rightarrow> (Inl Panicked, w))"
    by (simp add: action_defs pure_res_def w_def split: page_step.split)
  have grow: "grown (length entries) w v' \<Longrightarrow> grown (length (e # entries)) v v'" for v'
    using grown_trans [OF w(3)] by fastforce
  show ?case
  proof (cases "page_entry env cmd p e output offset w")
    case PageFull
    then have "enumerate_page env cmd i p (e # entries) output offset count v = (Inr (output, offset, count), w)"
      unfolding step by simp
    then show ?thesis using w Cons.prems(5) grown_mono [OF w(3), of "length (e # entries)"]
      by (intro exI [of _ "[]"] exI [of _ "drop offset output"] exI [of _ w]) simp
  next
    case (LeftOut out)
    then have eq: "enumerate_page env cmd i p (e # entries) output offset count v = enumerate_page env cmd i p entries out offset count w"
      unfolding step by simp
    from entry(3) [OF LeftOut] have out: "length out = length output" "take offset out = take offset output" by simp_all
    then have "unat (en_max_reply_size cmd) \<le> length out" "offset \<le> length out" using Cons.prems(4,5) by simp_all
    from Cons.IH [OF w(1,2) room this, of count] show ?thesis
      unfolding eq out by (blast intro: grow list_emb_Cons)
  next
    case (Wrote out offset')
    then obtain row where row: "row_ok env cmd e row" "offset' = offset + length row" "offset' \<le> unat (en_max_reply_size cmd)"
      "out = take offset output @ row @ drop offset' output" using entry(2) by blast
    have lo: "length out = length output" using row(2-4) Cons.prems(4,5) by simp
    have eq: "enumerate_page env cmd i p (e # entries) output offset count v = enumerate_page env cmd i p entries out offset' (count + 1) w"
      unfolding step Wrote by simp
    have "unat (en_max_reply_size cmd) \<le> length out" "offset' \<le> length out" using lo Cons.prems(4) row(3) by simp_all
    from Cons.IH [OF w(1,2) room this, of "count + 1"] obtain es rows rest v' where ih:
      "subseq es entries" "list_all2 (row_ok env cmd) es rows"
      "enumerate_page env cmd i p entries out offset' (count + 1) w
       = (Inr (take offset' out @ concat rows @ rest, offset' + length (concat rows), count + 1 + word_of_nat (length rows)), v')"
      "offset' + length (concat rows) + length rest = length out"
      "offset' + length (concat rows) \<le> max offset' (unat (en_max_reply_size cmd))"
      "table_ok v'" "names_ok v'" "grown (length entries) w v'" by blast
    have "take offset' out = take offset output @ row" using row(2,4) Cons.prems(5) by simp
    then have "enumerate_page env cmd i p (e # entries) output offset count v
       = (Inr (take offset output @ concat (row # rows) @ rest,
              offset + length (concat (row # rows)), count + word_of_nat (length (row # rows))), v')"
      unfolding eq ih(3) by (simp add: row(2) add.assoc add.commute add.left_commute)
    moreover have "list_all2 (row_ok env cmd) (e # es) (row # rows)" "subseq (e # es) (e # entries)" using ih(1,2) row(1) by simp_all
    moreover have "offset + length (concat (row # rows)) \<le> max offset (unat (en_max_reply_size cmd))"
      "offset + length (concat (row # rows)) + length rest = length output" using ih(4,5) row(2,3) lo by simp_all
    ultimately show ?thesis using ih(6,7) grow [OF ih(8)] by blast
  next
    case PageCrash
    with entry(1) show ?thesis by simp
  qed
qed

section \<open>The listing\<close>

text \<open>The snapshot a page is cut from: on the first page the sorted entries of the directory on the host.\<close>

definition snapshot_of :: "('h, 't, 'w) Env \<Rightarrow> FPEnumerate \<Rightarrow> ('h, 't, 'w) Volume \<Rightarrow> u32 \<Rightarrow> (bytes \<times> bool) list \<Rightarrow> bool" where
  "snapshot_of env cmd v i list \<longleftrightarrow>
     (if en_start_index cmd = 1 \<or> vo_enum_cache v i = None
      then Option.bind (vo_nodes v i) (\<lambda>node.
           Option.bind (h_read_dir (ev_host env) (vo_world v) (vo_path v @ nd_path node)) (\<lambda>entries.
           map_option (sort_key listing_key) (list_entries entries))) = Some list
      else vo_enum_cache v i = Some list)"

definition page_of :: "FPEnumerate \<Rightarrow> (bytes \<times> bool) list \<Rightarrow> (bytes \<times> bool) list" where
  "page_of cmd list = take (unat (en_req_count cmd)) (drop (unat (en_start_index cmd) - 1) list)"

lemma start_one: "unat (en_start_index cmd) = Suc 0 \<longleftrightarrow> en_start_index cmd = 1"
  using word_unat_eq_iff [of "en_start_index cmd" 1] by simp

lemma snapshot_spec:
  assumes "dir_snapshot env i p v = (r, w)"
  shows "(\<exists>e. r = Inl (Refused e) \<and> w = v)
    \<or> (\<exists>entries found. r = Inr () \<and> h_read_dir (ev_host env) (vo_world v) (vo_path v @ p) = Some entries \<and> list_entries entries = Some found
        \<and> w = v\<lparr>vo_enum_cache := (vo_enum_cache v)(i \<mapsto> sort_key listing_key found)\<rparr>)"
  using assms by (auto simp: dir_snapshot_def action_defs split: option.splits)

lemma enumerate_steps:
  assumes "enumerate env cmd output v = (r, v')"
  shows "(\<exists>e c. r = Inl (Refused e) \<and> v' = v\<lparr>vo_enum_cache := c\<rparr>)
    \<or> (\<exists>i p list c. resolve_node env v (en_directory_id cmd) (afp_path_to_posix (ms_value (en_path cmd))) = Inr i
        \<and> snapshot_of env cmd v i list \<and> c i = Some list
        \<and> bind (enumerate_page env cmd i p (page_of cmd list) output 2 0)
            (\<lambda>(out, offset, count). if length out < 2 then pure_res (Inl Panicked) else ret (put 0 (u16_bytes count) out, offset))
            (v\<lparr>vo_enum_cache := c\<rparr>) = (r, v'))"
proof (cases "resolve_node env v (en_directory_id cmd) (afp_path_to_posix (ms_value (en_path cmd)))")
  case (Inl e)
  then show ?thesis using assms by (auto simp: enumerate_def action_defs lift_res_def intro: exI [of _ "vo_enum_cache v"])
next
  case (Inr i)
  let ?tail = "\<lambda>p entries. if entries = [] then
           bind (update (\<lambda>v. v\<lparr>vo_enum_cache := (vo_enum_cache v)(i := None)\<rparr>)) (\<lambda>_. refuse ObjectNotFound)
         else bind (enumerate_page env cmd i p (page_of cmd entries) output 2 0) (\<lambda>(out, offset, count).
                if length out < 2 then pure_res (Inl Panicked) else ret (put 0 (u16_bytes count) out, offset))"
  have eq: "enumerate env cmd output v =
    (case vo_nodes v i of
       None \<Rightarrow> (Inl (Refused ObjectNotFound), v)
     | Some node \<Rightarrow>
         if \<not> nd_is_dir node then (Inl (Refused ObjectTypeErr), v)
         else if unat (en_start_index cmd) = 0 then (Inl (Refused ObjectNotFound), v)
         else
           case (if unat (en_start_index cmd) = 1 \<or> vo_enum_cache v i = None then dir_snapshot env i (nd_path node) v else (Inr (), v)) of
             (Inl e, w) \<Rightarrow> (Inl e, w)
           | (Inr _, w) \<Rightarrow> (case vo_enum_cache w i of None \<Rightarrow> (Inl (Refused ObjectNotFound), w) | Some list \<Rightarrow> ?tail (nd_path node) list w))"
    unfolding enumerate_def page_of_def Let_def bind_def [of "\<lambda>v. (lift_res (resolve_node env v (en_directory_id cmd) _), v)"] Inr
    by (simp add: action_defs lift_res_def split: option.split prod.split sum.split)
  have refused: ?thesis if "enumerate env cmd output v = (Inl (Refused e), v)" for e
    using that assms by (intro disjI1 exI [of _ e] exI [of _ "vo_enum_cache v"]) simp
  show ?thesis
  proof (cases "\<exists>node. vo_nodes v i = Some node \<and> nd_is_dir node \<and> unat (en_start_index cmd) \<noteq> 0")
    case False
    then obtain e where "enumerate env cmd output v = (Inl (Refused e), v)"
      unfolding eq by (cases "vo_nodes v i") (simp_all, metis)
    then show ?thesis by (rule refused)
  next
    case True
    then obtain node where node: "vo_nodes v i = Some node" "nd_is_dir node" "unat (en_start_index cmd) \<noteq> 0" by blast
    have tail: ?thesis if "?tail (nd_path node) list (v\<lparr>vo_enum_cache := c\<rparr>) = (r, v')" "snapshot_of env cmd v i list" "c i = Some list" for list c
    proof (cases "list = []")
      case True
      then show ?thesis using that(1) by (auto simp: action_defs)
    next
      case False
      then show ?thesis using that Inr by auto
    qed
    show ?thesis
    proof (cases "unat (en_start_index cmd) = 1 \<or> vo_enum_cache v i = None")
      case fresh: True
      obtain r1 w where s: "dir_snapshot env i (nd_path node) v = (r1, w)" by force
      from snapshot_spec [OF this] show ?thesis
      proof (elim disjE exE conjE)
        fix e assume "r1 = Inl (Refused e)" "w = v"
        with s fresh node have "enumerate env cmd output v = (Inl (Refused e), v)" unfolding eq by simp
        then show ?thesis by (rule refused)
      next
        fix entries found assume r1: "r1 = Inr ()" and found: "h_read_dir (ev_host env) (vo_world v) (vo_path v @ nd_path node) = Some entries"
          "list_entries entries = Some found" and w: "w = v\<lparr>vo_enum_cache := (vo_enum_cache v)(i \<mapsto> sort_key listing_key found)\<rparr>"
        have "snapshot_of env cmd v i (sort_key listing_key found)"
          using fresh found node(1) by (auto simp: snapshot_of_def start_one)
        with tail [of "sort_key listing_key found" "(vo_enum_cache v)(i \<mapsto> sort_key listing_key found)"] assms s fresh node r1 w show ?thesis
          unfolding eq by simp
      qed
    next
      case old: False
      then obtain list where list: "vo_enum_cache v i = Some list" by auto
      with old have "snapshot_of env cmd v i list" by (auto simp: snapshot_of_def start_one)
      with tail [of list "vo_enum_cache v"] assms old node list show ?thesis unfolding eq by simp
    qed
  qed
qed

lemma same_table_cache: "table_ok (v\<lparr>vo_enum_cache := c\<rparr>) = table_ok v" "names_ok (v\<lparr>vo_enum_cache := c\<rparr>) = names_ok v"
  by (rule table_ok_cong names_ok_cong, simp)+

text \<open>
  Claim C37: a page of FPEnumerate never writes outside a reply buffer as large as the size the client asked for, and keeps the
  invariants of the node table. A page that is answered is no longer than that size, unless the client asked for less than two
  bytes: the count takes two all the same. The rows behind its count are exactly what a client finds that steps by the length
  bytes; and they are, in order, rows of entries of the requested slice of the directory's sorted snapshot, each even in length
  and, if the name was asked for, with the entry's name at the place in the parameters that the two bytes of the name field give.
\<close>

theorem listing_page_walks:
  assumes "table_ok v" and "names_ok v" and "unat (vo_next_id v) + unat (en_req_count cmd) < 2 ^ 32"
    and "2 \<le> length output" and "unat (en_max_reply_size cmd) \<le> length output"
  shows "case enumerate env cmd output v of (r, v') \<Rightarrow>
    r \<noteq> Inl Panicked \<and> table_ok v' \<and> names_ok v' \<and>
    (\<forall>out n. r = Inr (out, n) \<longrightarrow>
       length out = length output \<and> (n \<le> unat (en_max_reply_size cmd) \<or> unat (en_max_reply_size cmd) < 2 \<and> n = 2) \<and>
       (\<exists>i list es rows.
          resolve_node env v (en_directory_id cmd) (afp_path_to_posix (ms_value (en_path cmd))) = Inr i
          \<and> snapshot_of env cmd v i list \<and> vo_enum_cache v' i = Some list \<and> subseq es (page_of cmd list)
          \<and> list_all2 (row_ok env cmd) es rows
          \<and> walk_rows (unat (read_u16 out 0)) (drop 2 (take n out)) = Some rows))"
proof -
  obtain r v' where run: "enumerate env cmd output v = (r, v')" by force
  from enumerate_steps [OF this] show ?thesis
  proof (elim disjE exE conjE)
    fix e c assume "r = Inl (Refused e)" "v' = v\<lparr>vo_enum_cache := c\<rparr>"
    with assms(1,2) show ?thesis by (simp add: run same_table_cache)
  next
    fix i p list c
    let ?w = "v\<lparr>vo_enum_cache := c\<rparr>" and ?page = "page_of cmd list"
    assume i: "resolve_node env v (en_directory_id cmd) (afp_path_to_posix (ms_value (en_path cmd))) = Inr i"
      and list: "snapshot_of env cmd v i list" "c i = Some list"
      and rest: "bind (enumerate_page env cmd i p ?page output 2 0)
            (\<lambda>(out, offset, count). if length out < 2 then pure_res (Inl Panicked) else ret (put 0 (u16_bytes count) out, offset)) ?w = (r, v')"
    have page: "length ?page \<le> unat (en_req_count cmd)" by (simp add: page_of_def)
    then have room: "unat (vo_next_id ?w) + length ?page < 2 ^ 32" using assms(3) by simp
    obtain es rows tail w' where ep: "subseq es ?page" "list_all2 (row_ok env cmd) es rows"
      "enumerate_page env cmd i p ?page output 2 0 ?w
       = (Inr (take 2 output @ concat rows @ tail, 2 + length (concat rows), 0 + word_of_nat (length rows)), w')"
      "2 + length (concat rows) \<le> max 2 (unat (en_max_reply_size cmd))" "table_ok w'" "names_ok w'" "grown (length ?page) ?w w'" "2 + length (concat rows) + length tail = length output"
      using enumerate_page_spec [of ?w ?page cmd "output" 2 env i p 0] assms(1,2,4,5) room by (auto simp: same_table_cache)
    let ?out = "u16_bytes (word_of_nat (length rows)) @ concat rows @ tail"
    note lo = ep(8)
    have res: "r = Inr (?out, 2 + length (concat rows))" "v' = w'"
      using rest lo assms(4) by (auto simp: bind_def ep(3) ret_def put_def)
    have "length rows = length es" using ep(2) by (simp add: list_all2_lengthD)
    moreover have "length es \<le> length ?page" using ep(1) by (rule list_emb_length)
    ultimately have "length rows < 2 ^ 16" using page unsigned_less [of "en_req_count cmd", where ?'a = nat] by simp
    then have "unat (word_of_nat (length rows) :: u16) = length rows" by (simp add: unat_of_nat take_bit_eq_mod)
    then have "walk_rows (unat (read_u16 ?out 0)) (drop 2 (take (2 + length (concat rows)) ?out)) = Some rows"
      using walk_rows_concat [OF ep(2)] read_u16_here [of 0 "[]"] by simp
    moreover have "vo_enum_cache w' i = Some list" using ep(7) list(2) by (simp add: grown_def)
    moreover have "2 + length (concat rows) \<le> unat (en_max_reply_size cmd)
        \<or> unat (en_max_reply_size cmd) < 2 \<and> 2 + length (concat rows) = 2" using ep(4) by linarith
    ultimately show ?thesis using i list(1) ep(1,2,5,6) lo unfolding run res by auto
  qed
qed

text \<open>A volume with a file and a folder.\<close>

definition list_env :: "(nat, (bytes, bytes) omap, nat \<Rightarrow> mem_file) Env" where
  "list_env = mem_env\<lparr>ev_host := mem_host\<lparr>h_read_dir := (\<lambda>w p.
     if p = [] then Some [Some \<lparr>de_name = ascii ''note'', de_is_dir = Some False\<rparr>, Some \<lparr>de_name = ascii ''docs'', de_is_dir = Some True\<rparr>]
     else Some [])\<rparr>\<rparr>"

definition list_volume :: "(nat, (bytes, bytes) omap, nat \<Rightarrow> mem_file) Volume" where
  "list_volume = volume_new list_env (ascii ''Share'') [] 1234 empty_desktop (\<lambda>f. ([], 0, True))"

definition list_cmd :: FPEnumerate where
  "list_cmd = \<lparr>en_volume_id = 1234, en_directory_id = 2, en_file_bitmap = 0x0340, en_directory_bitmap = 0x0140, en_req_count = 10,
     en_start_index = 1, en_max_reply_size = 64, en_path = ms_new []\<rparr>"

lemma listing_page_walks_witness:
  "(case enumerate list_env list_cmd (replicate 64 0) list_volume of (r, v') \<Rightarrow> r \<noteq> Inl Panicked \<and> table_ok v')
   \<and> snapshot_of list_env list_cmd list_volume 2 [(ascii ''docs'', True), (ascii ''note'', False)]"
proof -
  have "table_ok list_volume" "names_ok list_volume" unfolding list_volume_def by (rule volume_new_ok)+
  moreover have "unat (vo_next_id list_volume) + unat (en_req_count list_cmd) < 2 ^ 32" "unat (en_max_reply_size list_cmd) \<le> 64"
    by (simp_all add: list_volume_def volume_new_def list_cmd_def)
  ultimately have "case enumerate list_env list_cmd (replicate 64 0) list_volume of (r, v') \<Rightarrow> r \<noteq> Inl Panicked \<and> table_ok v'"
    using listing_page_walks [of list_volume list_cmd "replicate 64 0" list_env] by (auto split: prod.splits)
  moreover have "snapshot_of list_env list_cmd list_volume 2 [(ascii ''docs'', True), (ascii ''note'', False)]"
    by code_simp
  ultimately show ?thesis by simp
qed

end
