(* ===== verification/Afp_Tree.thy ===== *)
theory Afp_Tree
  imports Afp_Parms
begin

text \<open>
  Operations on the tree of a volume (src/tailtalk/src/afp/volume.rs): creating files and directories, moving, renaming, deleting
  and copying, with the resource fork sidecars, the desktop database and the node table kept along, and the comments and
  applications of the volume, and the walk over a whole tree.
\<close>

section \<open>Paths\<close>

text \<open>
  \<open>Path::join\<close> with a name that holds no separator, by the components of the result: an empty name adds none, and
  neither does a lone dot, unless it comes first: the empty path joined with it is the path of the one component dot.
\<close>

definition join_name :: "path \<Rightarrow> bytes \<Rightarrow> path" where
  "join_name p name = (if name = [] \<or> name = ascii ''.'' \<and> p \<noteq> [] then p else p @ [name])"

definition file_name :: "path \<Rightarrow> bytes option" where
  "file_name p = (if p = [] \<or> last p = ascii ''..'' then None else Some (utf8_lossy (last p)))"

text \<open>A path as text, its components with slashes between them.\<close>

fun path_text :: "path \<Rightarrow> bytes" where
  "path_text [] = []"
| "path_text [c] = c"
| "path_text (c # cs) = c @ [SLASH] @ path_text cs"

fun strip_prefix :: "path \<Rightarrow> path \<Rightarrow> path option" where
  "strip_prefix [] p = Some p"
| "strip_prefix (a # as) [] = None"
| "strip_prefix (a # as) (c # cs) = (if a = c then strip_prefix as cs else None)"

section \<open>Steps on the host and the database\<close>

definition absolute :: "('h, 't, 'w) Volume \<Rightarrow> path \<Rightarrow> path" where
  "absolute v p = vo_path v @ p"

text \<open>\<open>Path::exists\<close>.\<close>

definition path_exists :: "('h, 't, 'w) Env \<Rightarrow> ('h, 't, 'w) Volume \<Rightarrow> path \<Rightarrow> bool" where
  "path_exists env v p \<longleftrightarrow> h_metadata (ev_host env) (vo_world v) p \<noteq> None"

definition try_host :: "('w \<Rightarrow> bool \<times> 'w) \<Rightarrow> AfpError \<Rightarrow> (('h, 't, 'w) Volume, unit) action" where
  "try_host f e = bind (host f) (\<lambda>ok. if ok then ret () else refuse e)"

definition desk :: "('t DesktopDatabase \<Rightarrow> 'r \<times> 't DesktopDatabase) \<Rightarrow> (('h, 't, 'w) Volume, 'r) action" where
  "desk f = (\<lambda>v. let (r, d) = f (vo_desktop v) in (Inr r, v\<lparr>vo_desktop := d\<rparr>))"

definition clear_listings :: "('h, 't, 'w) Volume \<Rightarrow> ('h, 't, 'w) Volume" where
  "clear_listings v = v\<lparr>vo_enum_cache := Map.empty\<rparr>"

text \<open>A new node, its name reversible at once, and no snapshot left.\<close>

definition install_node ::
  "('h, 't, 'w) Env \<Rightarrow> u32 \<Rightarrow> bytes \<Rightarrow> bytes \<Rightarrow> bool \<Rightarrow> path \<Rightarrow> (('h, 't, 'w) Volume, u32) action" where
  "install_node env parent afp_name on_disk_name is_dir p =
     bind (reads vo_next_id) (\<lambda>new_id.
     bind (update (add_node parent afp_name is_dir p)) (\<lambda>_.
     bind (update (register_mangle_if_needed env afp_name on_disk_name)) (\<lambda>_.
     bind (update clear_listings) (\<lambda>_. ret new_id))))"

text \<open>The identifier is taken before the name is looked at, and stays taken.\<close>

definition install_named ::
  "('h, 't, 'w) Env \<Rightarrow> u32 \<Rightarrow> path \<Rightarrow> bool \<Rightarrow> path \<Rightarrow> (('h, 't, 'w) Volume, u32) action" where
  "install_named env parent named is_dir p =
     (case file_name named of
        None \<Rightarrow> bind (update (\<lambda>v. v\<lparr>vo_next_id := vo_next_id v + 1\<rparr>)) (\<lambda>_. refuse ObjectNotFound)
      | Some on_disk_name \<Rightarrow> install_node env parent (posix_name_to_afp on_disk_name) on_disk_name is_dir p)"

section \<open>Creating\<close>

definition create_dir :: "('h, 't, 'w) Env \<Rightarrow> u32 \<Rightarrow> path \<Rightarrow> (('h, 't, 'w) Volume, u32) action" where
  "create_dir env directory_id path_name =
     bind (look (\<lambda>v. vo_nodes v directory_id) ObjectNotFound) (\<lambda>parent.
     let full_relative_path = nd_path parent @ path_name in
     bind (reads (\<lambda>v. (absolute v full_relative_path, path_exists env v (absolute v full_relative_path)))) (\<lambda>(absolute_path, exists).
     bind (if exists then ret () else try_host (\<lambda>w. h_create_dir (ev_host env) w absolute_path) AccessDenied) (\<lambda>_.
     bind (reads (\<lambda>v. vo_path_to_id v full_relative_path)) (\<lambda>known.
       case known of
         Some i \<Rightarrow> ret i
       | None \<Rightarrow> install_named env directory_id path_name True full_relative_path))))"

definition create_file :: "('h, 't, 'w) Env \<Rightarrow> CreateFlag \<Rightarrow> u32 \<Rightarrow> path \<Rightarrow> (('h, 't, 'w) Volume, u32) action" where
  "create_file env create_flag directory_id relative_path =
     bind (look (\<lambda>v. vo_nodes v directory_id) ObjectNotFound) (\<lambda>parent.
     let full_relative_path = nd_path parent @ relative_path in
     bind (reads (\<lambda>v. (absolute v full_relative_path, path_exists env v (absolute v full_relative_path)))) (\<lambda>(absolute_path, exists).
     bind (case create_flag of
             SoftCreate \<Rightarrow> if exists then refuse ObjectExists else ret ()
           | HardCreate \<Rightarrow> if exists then try_host (\<lambda>w. h_remove_file (ev_host env) w absolute_path) AccessDenied else ret ()) (\<lambda>_.
     bind (try_host (\<lambda>w. h_create (ev_host env) w absolute_path) AccessDenied) (\<lambda>_.
       install_named env directory_id full_relative_path False full_relative_path))))"

section \<open>Moving and renaming\<close>

text \<open>The nodes below a directory that moves, in the order the hash table gives them.\<close>

definition child_updates ::
  "('h, 't, 'w) Env \<Rightarrow> u32 \<Rightarrow> path \<Rightarrow> path \<Rightarrow> ('h, 't, 'w) Volume \<Rightarrow> (u32 \<times> path \<times> path) list" where
  "child_updates env src_node_id old new v =
     concat (map (\<lambda>i. case vo_nodes v i of
         None \<Rightarrow> []
       | Some node \<Rightarrow> (case strip_prefix old (nd_path node) of
             None \<Rightarrow> []
           | Some below \<Rightarrow> if i = src_node_id then [] else [(i, nd_path node, new @ below)]))
       (ev_node_order env (dom (vo_nodes v))))"

definition rebase_child :: "('h, 't, 'w) Env \<Rightarrow> u32 \<times> path \<times> path \<Rightarrow> ('h, 't, 'w) Volume \<Rightarrow> ('h, 't, 'w) Volume" where
  "rebase_child env change v =
     (case change of (i, old_path, new_child_path) \<Rightarrow>
        v\<lparr>vo_path_to_id := (vo_path_to_id v)(old_path := None, new_child_path \<mapsto> i),
          vo_desktop := snd (move_comment (ev_sled env) (path_text old_path) (path_text new_child_path) (vo_desktop v)),
          vo_nodes := (vo_nodes v)(i := map_option (\<lambda>n. n\<lparr>nd_path := new_child_path\<rparr>) (vo_nodes v i))\<rparr>)"

definition rebase_node :: "u32 \<Rightarrow> path \<Rightarrow> u32 \<Rightarrow> bytes \<Rightarrow> path \<Rightarrow> ('h, 't, 'w) Volume \<Rightarrow> ('h, 't, 'w) Volume" where
  "rebase_node i old parent name new v =
     v\<lparr>vo_path_to_id := (vo_path_to_id v)(old := None, new \<mapsto> i),
       vo_nodes := (vo_nodes v)(i := map_option (\<lambda>n. n\<lparr>nd_parent_id := parent, nd_name := name, nd_path := new\<rparr>) (vo_nodes v i))\<rparr>"

text \<open>The file and its sidecar on the host, the table, the nodes below a directory, and the database, once the move is allowed.\<close>

definition commit_move ::
  "('h, 't, 'w) Env \<Rightarrow> u32 \<Rightarrow> u32 \<Rightarrow> 'h Node \<Rightarrow> u32 \<Rightarrow> bytes \<Rightarrow> bytes \<Rightarrow> path \<Rightarrow> (('h, 't, 'w) Volume, unit) action" where
  "commit_move env src_dir_id src_node_id src dst_node_id afp_name posix_name new =
     bind (reads vo_path) (\<lambda>root.
     let old = nd_path src in
     bind (try_host (\<lambda>w. h_rename (ev_host env) w (root @ old) (root @ new)) AccessDenied) (\<lambda>_.
     bind (reads (\<lambda>v. \<not> nd_is_dir src \<and> path_exists env v (rsrc_path root old))) (\<lambda>sidecar.
     bind (if sidecar then host (\<lambda>w. h_rename (ev_host env) w (rsrc_path root old) (rsrc_path root new)) else ret True) (\<lambda>_.
     bind (update (rebase_node src_node_id old dst_node_id afp_name new)) (\<lambda>_.
     bind (if nd_is_dir src then update (\<lambda>v. fold (rebase_child env) (child_updates env src_node_id old new v) v) else ret ()) (\<lambda>_.
     bind (desk (move_comment (ev_sled env) (path_text old) (path_text new))) (\<lambda>_.
     bind (if nd_is_dir src then ret (Inr ())
           else desk (move_appl_path (ev_sled env) (utf8_lossy (path_text old)) (utf8_lossy (path_text new)) src_dir_id dst_node_id)) (\<lambda>_.
     bind (update (register_mangle_if_needed env afp_name posix_name)) (\<lambda>_.
       update clear_listings)))))))))"

definition move_and_rename ::
  "('h, 't, 'w) Env \<Rightarrow> u32 \<Rightarrow> u32 \<Rightarrow> path \<Rightarrow> path \<Rightarrow> bytes \<Rightarrow> (('h, 't, 'w) Volume, unit) action" where
  "move_and_rename env src_dir_id dst_dir_id src_path dst_path new_name =
     bind (resolve_node_lazy env src_dir_id src_path) (\<lambda>src_node_id.
     if src_node_id \<le> 2 then refuse AccessDenied
     else
       bind (resolve_node_lazy env dst_dir_id dst_path) (\<lambda>dst_node_id.
       bind (look (\<lambda>v. vo_nodes v src_node_id) ObjectNotFound) (\<lambda>src.
       bind (look (\<lambda>v. vo_nodes v dst_node_id) ObjectNotFound) (\<lambda>dst.
       if \<not> nd_is_dir dst then refuse ObjectTypeErr
       else
         let afp_name = (if new_name = [] then nd_name src else new_name);
             posix_name = afp_name_to_posix_component afp_name;
             new = join_name (nd_path dst) posix_name
         in
         bind (reads (\<lambda>v. vo_path_to_id v new)) (\<lambda>taken.
         if new \<noteq> nd_path src \<and> taken \<noteq> None then refuse ObjectExists
         else commit_move env src_dir_id src_node_id src dst_node_id afp_name posix_name new)))))"

definition rename :: "('h, 't, 'w) Env \<Rightarrow> u32 \<Rightarrow> path \<Rightarrow> bytes \<Rightarrow> (('h, 't, 'w) Volume, unit) action" where
  "rename env dir_id src_path new_name = move_and_rename env dir_id dir_id src_path [] new_name"

section \<open>Deleting\<close>

definition delete :: "('h, 't, 'w) Env \<Rightarrow> FPDelete \<Rightarrow> (('h, 't, 'w) Volume, unit) action" where
  "delete env req =
     bind (resolve_node_lazy env (de_directory_id req) (afp_path_to_posix (ms_value (de_path req)))) (\<lambda>node_id.
     if node_id = 2 then refuse AccessDenied
     else
       bind (look (\<lambda>v. vo_nodes v node_id) ObjectNotFound) (\<lambda>node.
       bind (reads vo_path) (\<lambda>root.
       let full_path = root @ nd_path node in
       bind (if \<not> nd_is_dir node
             then if nd_data_fork node \<noteq> None then refuse FileBusy
                  else try_host (\<lambda>w. h_remove_file (ev_host env) w full_path) AccessDenied
             else bind (look (\<lambda>v. h_read_dir (ev_host env) (vo_world v) full_path) ObjectNotFound) (\<lambda>entries.
                  case entries of
                    Some _ # _ \<Rightarrow> refuse DirNotEmpty
                  | _ \<Rightarrow> try_host (\<lambda>w. h_remove_dir (ev_host env) w full_path) AccessDenied)) (\<lambda>_.
       bind (if nd_is_dir node then ret True
             else host (\<lambda>w. h_remove_file (ev_host env) w (rsrc_path root (nd_path node)))) (\<lambda>_.
       bind (desk (remove_comment (ev_sled env) (path_text (nd_path node)))) (\<lambda>_.
       bind (if nd_is_dir node then ret (Inr ())
             else desk (delete_appls_for_path (ev_sled env) (nd_parent_id node) (utf8_lossy (path_text (nd_path node))))) (\<lambda>_.
       bind (update (\<lambda>v. v\<lparr>vo_nodes := (vo_nodes v)(node_id := None), vo_path_to_id := (vo_path_to_id v)(nd_path node := None)\<rparr>)) (\<lambda>_.
         update clear_listings))))))))"

section \<open>Copying\<close>

definition copy_xattr :: "('w, 'h) Host \<Rightarrow> path \<Rightarrow> path \<Rightarrow> bytes \<Rightarrow> 'w \<Rightarrow> 'w" where
  "copy_xattr H src dst attr w = (case h_xattr_get H w src attr of Some (Some val) \<Rightarrow> snd (h_xattr_set H w dst attr val) | _ \<Rightarrow> w)"

definition copy_file ::
  "('h, 't, 'w) Env \<Rightarrow> u32 \<Rightarrow> path \<Rightarrow> u32 \<Rightarrow> path \<Rightarrow> bytes \<Rightarrow> (('h, 't, 'w) Volume, u32) action" where
  "copy_file env src_dir_id src_path dst_dir_id dst_path new_name =
     bind (resolve_node_lazy env src_dir_id src_path) (\<lambda>src_node_id.
     bind (look (\<lambda>v. vo_nodes v src_node_id) ObjectNotFound) (\<lambda>src.
     if nd_is_dir src then refuse ObjectTypeErr
     else
       bind (resolve_node_lazy env dst_dir_id dst_path) (\<lambda>dst_node_id.
       bind (look (\<lambda>v. vo_nodes v dst_node_id) ObjectNotFound) (\<lambda>dst.
       if \<not> nd_is_dir dst then refuse ObjectTypeErr
       else
         let afp_name = (if new_name = [] then nd_name src else new_name);
             posix_name = afp_name_to_posix_component afp_name;
             old = nd_path src; new = join_name (nd_path dst) posix_name
         in
         bind (reads (\<lambda>v. vo_path_to_id v new)) (\<lambda>taken.
         if taken \<noteq> None then refuse ObjectExists
         else
           bind (reads vo_path) (\<lambda>root.
           bind (try_host (\<lambda>w. h_copy (ev_host env) w (root @ old) (root @ new)) AccessDenied) (\<lambda>_.
           bind (update (\<lambda>v. v\<lparr>vo_world := fold (copy_xattr (ev_host env) (root @ old) (root @ new))
                   (h_xattr_list (ev_host env) (vo_world v) (root @ old)) (vo_world v)\<rparr>)) (\<lambda>_.
           bind (reads (\<lambda>v. path_exists env v (rsrc_path root old))) (\<lambda>sidecar.
           bind (if sidecar
                 then bind (host (\<lambda>w. h_create_dir_all (ev_host env) w (butlast (rsrc_path root new)))) (\<lambda>_.
                      host (\<lambda>w. h_copy (ev_host env) w (rsrc_path root old) (rsrc_path root new)))
                 else ret True) (\<lambda>_.
           bind (desk (copy_comment (ev_sled env) (path_text old) (path_text new))) (\<lambda>_.
           bind (desk (copy_appl (ev_sled env) (utf8_lossy (path_text old)) (utf8_lossy (path_text new)) src_dir_id dst_node_id)) (\<lambda>_.
             install_node env dst_node_id afp_name posix_name False new))))))))))))"

section \<open>Comments and applications of the volume\<close>

definition dt_guard :: "u16 \<Rightarrow> (('h, 't, 'w) Volume, 'a) action \<Rightarrow> (('h, 't, 'w) Volume, 'a) action" where
  "dt_guard ref_num act = bind (reads (\<lambda>v. dt_ref_num (vo_desktop v) = ref_num)) (\<lambda>ok. if ok then act else refuse ItemNotFound)"

definition lifted :: "('s, AfpError + 'a) action \<Rightarrow> ('s, 'a) action" where
  "lifted m = bind m (\<lambda>r. pure_res (lift_res r))"

definition vol_add_appl :: "('h, 't, 'w) Env \<Rightarrow> FPAddAPPL \<Rightarrow> (('h, 't, 'w) Volume, unit) action" where
  "vol_add_appl env req =
     dt_guard (aa_dt_ref_num req)
       (lifted (desk (add_appl (ev_sled env) (aa_file_creator req) (aa_tag req) (aa_directory_id req) (ms_value (aa_path req)))))"

definition vol_remove_appl :: "('h, 't, 'w) Env \<Rightarrow> FPRemoveAPPL \<Rightarrow> (('h, 't, 'w) Volume, unit) action" where
  "vol_remove_appl env req =
     dt_guard (ra_dt_ref_num req)
       (lifted (desk (remove_appl (ev_sled env) (ra_file_creator req) (ra_directory_id req) (ms_value (ra_path req)))))"

definition vol_get_appl :: "('h, 't, 'w) Env \<Rightarrow> FPGetAPPL \<Rightarrow> (('h, 't, 'w) Volume, u32 \<times> u32 \<times> bytes) action" where
  "vol_get_appl env req =
     dt_guard (ga_dt_ref_num req)
       (lifted (reads (\<lambda>v. get_appl (ev_sled env) (vo_desktop v) (ga_file_creator req) (ga_appl_index req))))"

text \<open>The path a comment is filed under.\<close>

definition comment_path :: "('h, 't, 'w) Env \<Rightarrow> u32 \<Rightarrow> path \<Rightarrow> (('h, 't, 'w) Volume, bytes) action" where
  "comment_path env directory_id p =
     bind (lifted (reads (\<lambda>v. resolve_node env v directory_id p))) (\<lambda>i.
     bind (look (\<lambda>v. vo_nodes v i) ObjectNotFound) (\<lambda>node. ret (path_text (nd_path node))))"

definition vol_set_comment :: "('h, 't, 'w) Env \<Rightarrow> u32 \<Rightarrow> path \<Rightarrow> bytes \<Rightarrow> (('h, 't, 'w) Volume, unit) action" where
  "vol_set_comment env directory_id p comment =
     bind (comment_path env directory_id p) (\<lambda>rel_path. lifted (desk (set_comment (ev_sled env) rel_path comment)))"

definition vol_get_comment :: "('h, 't, 'w) Env \<Rightarrow> u32 \<Rightarrow> path \<Rightarrow> (('h, 't, 'w) Volume, bytes) action" where
  "vol_get_comment env directory_id p =
     bind (comment_path env directory_id p) (\<lambda>rel_path. lifted (reads (\<lambda>v. get_comment (ev_sled env) (vo_desktop v) rel_path)))"

definition vol_remove_comment :: "('h, 't, 'w) Env \<Rightarrow> u32 \<Rightarrow> path \<Rightarrow> (('h, 't, 'w) Volume, unit) action" where
  "vol_remove_comment env directory_id p =
     bind (comment_path env directory_id p) (\<lambda>rel_path. lifted (desk (remove_comment (ev_sled env) rel_path)))"

definition vol_open_dt :: "('h, 't, 'w) Env \<Rightarrow> (('h, 't, 'w) Volume, u16) action" where
  "vol_open_dt env =
     bind (reads (\<lambda>v. absolute v [ascii ''.AppleDesktop''])) (\<lambda>apple_desktop.
     bind (reads (\<lambda>v. path_exists env v apple_desktop)) (\<lambda>exists.
     bind (if exists then ret True else host (\<lambda>w. h_create_dir (ev_host env) w apple_desktop)) (\<lambda>_.
       reads (\<lambda>v. dt_ref_num (vo_desktop v)))))"

definition vol_add_icon :: "('h, 't, 'w) Env \<Rightarrow> u16 \<Rightarrow> FPAddIcon \<Rightarrow> bytes \<Rightarrow> (('h, 't, 'w) Volume, unit) action" where
  "vol_add_icon env ref_num req data =
     dt_guard ref_num (lifted (desk (add_icon (ev_sled env) (ai_file_creator req) (ai_file_type req) (ai_icon_type req) data)))"

definition vol_get_icon :: "('h, 't, 'w) Env \<Rightarrow> u16 \<Rightarrow> FPGetIcon \<Rightarrow> (('h, 't, 'w) Volume, bytes) action" where
  "vol_get_icon env ref_num req =
     dt_guard ref_num
       (lifted (reads (\<lambda>v. get_icon (ev_sled env) (vo_desktop v) (gi_file_creator req) (gi_file_type req) (gi_icon_type req) (gi_size req))))"

definition vol_get_icon_info :: "('h, 't, 'w) Env \<Rightarrow> u16 \<Rightarrow> FPGetIconInfo \<Rightarrow> (('h, 't, 'w) Volume, u32 \<times> u32 \<times> u16) action" where
  "vol_get_icon_info env ref_num req =
     dt_guard ref_num (lifted (reads (\<lambda>v. get_icon_info (ev_sled env) (vo_desktop v) (gn_file_creator req) (gn_icon_type req))))"

section \<open>Walking the whole tree\<close>

text \<open>
  The entries of one directory: each takes an identifier, known or not, and directories go on the stack. The loop over the stack
  ends when the host's tree of directories does.
\<close>

fun walk_entries ::
  "('h, 't, 'w) Env \<Rightarrow> path \<Rightarrow> u32 \<Rightarrow> DirEntry option list \<Rightarrow> (path \<times> u32) list \<Rightarrow> ('h, 't, 'w) Volume
   \<Rightarrow> bool \<times> (path \<times> u32) list \<times> ('h, 't, 'w) Volume" where
  "walk_entries env current_dir parent_id [] stack v = (True, stack, v)"
| "walk_entries env current_dir parent_id (None # entries) stack v = (False, stack, v)"
| "walk_entries env current_dir parent_id (Some entry # entries) stack v =
     (let name = utf8_lossy (de_name entry); rel_path = current_dir @ [de_name entry]; new_id = vo_next_id v in
      if hidden_name name then walk_entries env current_dir parent_id entries stack v
      else case de_is_dir entry of
             None \<Rightarrow> (False, stack, v\<lparr>vo_next_id := new_id + 1\<rparr>)
           | Some is_dir \<Rightarrow>
               walk_entries env current_dir parent_id entries (if is_dir then (rel_path, new_id) # stack else stack)
                 (register_mangle_if_needed env (posix_name_to_afp name) name
                    (add_node parent_id (posix_name_to_afp name) is_dir rel_path v)))"

partial_function (option) walk_loop ::
  "('h, 't, 'w) Env \<Rightarrow> (path \<times> u32) list \<Rightarrow> ('h, 't, 'w) Volume \<Rightarrow> (bool \<times> ('h, 't, 'w) Volume) option" where
  "walk_loop env stack v =
     (case stack of
        [] \<Rightarrow> Some (True, v)
      | (current_dir, parent_id) # rest \<Rightarrow>
          (case h_read_dir (ev_host env) (vo_world v) (absolute v current_dir) of
             None \<Rightarrow> Some (False, v)
           | Some entries \<Rightarrow>
               (case walk_entries env current_dir parent_id entries rest v of
                  (ok, stack', v') \<Rightarrow> if ok then walk_loop env stack' v' else Some (False, v'))))"

definition walk_dir :: "('h, 't, 'w) Env \<Rightarrow> path \<Rightarrow> ('h, 't, 'w) Volume \<Rightarrow> (bool \<times> ('h, 't, 'w) Volume) option" where
  "walk_dir env relative_path v =
     walk_loop env [(relative_path, case vo_path_to_id v relative_path of Some i \<Rightarrow> i | None \<Rightarrow> 2)] v"

end
