(* ===== verification/Afp_Tree_Props.thy ===== *)
theory Afp_Tree_Props
  imports Afp_Tree Afp_Table
begin

text \<open>
  Every operation on the tree of a volume keeps the node table: whatever it answers, a path of the map leads to a node at that
  path. A move takes the node, its name and the host's file along, and leaves open forks alone.
\<close>

section \<open>Steps and the table\<close>

text \<open>What an operation may have done to the table when it takes at most so many identifiers and the host's listings are bounded.\<close>

definition dir_bound :: "('h, 't, 'w) Env \<Rightarrow> ('h, 't, 'w) Volume \<Rightarrow> nat \<Rightarrow> bool" where
  "dir_bound env v n \<longleftrightarrow> (\<forall>p es. h_read_dir (ev_host env) (vo_world v) p = Some es \<longrightarrow> length es \<le> n)"

lemma dir_bound_listed: "dir_bound env v n \<Longrightarrow> listed env v i \<le> n"
  by (auto simp: dir_bound_def listed_def split: option.splits)

lemma dir_bound_grown: "grown k v w \<Longrightarrow> dir_bound env w n = dir_bound env v n"
  by (simp add: grown_def dir_bound_def)

lemma resolve_keeps:
  assumes "table_ok v" and "dir_bound env v n" and "unat (vo_next_id v) + n + k < 2 ^ 32" and "resolve_node_lazy env i p v = (r, w)"
  shows "table_ok w" and "grown n v w" and "dir_bound env w n" and "unat (vo_next_id w) + k < 2 ^ 32"
proof -
  note l = dir_bound_listed [OF assms(2), of "root_id i"]
  have b: "unat (vo_next_id v) + listed env v (root_id i) < 2 ^ 32" using l assms(3) by simp
  note s = resolve_node_lazy_spec(1) [OF assms(1) b assms(4)]
  then show "table_ok w" and g: "grown n v w" using grown_mono [OF _ l] by blast+
  show "dir_bound env w n" using dir_bound_grown [OF g] assms(2) by simp
  show "unat (vo_next_id w) + k < 2 ^ 32" using g assms(3) by (simp add: grown_def)
qed

text \<open>Steps that leave the table alone.\<close>

definition aside :: "(('h, 't, 'w) Volume, 'a) action \<Rightarrow> bool" where
  "aside m \<longleftrightarrow> (\<forall>v. same_table v (snd (m v)))"

lemma aside_simps [simp]:
  "aside (ret x)" "aside (refuse e)" "aside (reads f)" "aside (look g e)" "aside (host h)" "aside (desk d)"
  by (simp_all add: aside_def action_defs desk_def split: option.split prod.split)

lemma aside_bind: "aside m \<Longrightarrow> (\<And>x. aside (f x)) \<Longrightarrow> aside (bind m f)"
  by (auto simp: aside_def bind_def split: prod.splits sum.splits) (metis same_table_trans snd_conv)+

lemma aside_try_host [simp]: "aside (try_host h e)"
  unfolding try_host_def by (rule aside_bind) (simp_all split: if_split)

lemma aside_update: "(\<And>v. same_table v (f v)) \<Longrightarrow> aside (update f)"
  by (simp add: aside_def update_def)

lemma aside_clear [simp]: "aside (update clear_listings)" "aside (update (register_mangle_if_needed env a n))"
  by (simp_all add: aside_update clear_listings_def)

text \<open>An action that keeps the table when \<open>k\<close> identifiers are left and \<open>P\<close> is known of the nodes.\<close>

definition keeps :: "((u32 \<rightharpoonup> 'h Node) \<Rightarrow> bool) \<Rightarrow> nat \<Rightarrow> (('h, 't, 'w) Volume, 'a) action \<Rightarrow> bool" where
  "keeps P k m \<longleftrightarrow> (\<forall>v. table_ok v \<longrightarrow> P (vo_nodes v) \<longrightarrow> unat (vo_next_id v) + k < 2 ^ 32 \<longrightarrow> table_ok (snd (m v)))"

lemma keepsD: "keeps P k m \<Longrightarrow> table_ok v \<Longrightarrow> P (vo_nodes v) \<Longrightarrow> unat (vo_next_id v) + k < 2 ^ 32 \<Longrightarrow> table_ok (snd (m v))"
  by (simp add: keeps_def)

lemma keepsI: "(\<And>v. table_ok v \<Longrightarrow> P (vo_nodes v) \<Longrightarrow> unat (vo_next_id v) + k < 2 ^ 32 \<Longrightarrow> table_ok (snd (m v))) \<Longrightarrow> keeps P k m"
  by (simp add: keeps_def)

lemma keeps_aside: "aside m \<Longrightarrow> keeps P k m"
  unfolding aside_def keeps_def using table_ok_cong by blast

lemma keeps_update: "(\<And>v. table_ok v \<Longrightarrow> P (vo_nodes v) \<Longrightarrow> unat (vo_next_id v) + k < 2 ^ 32 \<Longrightarrow> table_ok (f v)) \<Longrightarrow> keeps P k (update f)"
  by (simp add: keeps_def update_def)

lemma keeps_bind_aside:
  assumes "aside m" and "\<And>x. keeps P k (f x)"
  shows "keeps P k (bind m f)"
proof (rule keepsI)
  fix v :: "('a, 'b, 'c) Volume" assume v: "table_ok v" "P (vo_nodes v)" "unat (vo_next_id v) + k < 2 ^ 32"
  obtain r w where w: "m v = (r, w)" by force
  then have same: "same_table v w" using assms(1) by (metis aside_def snd_conv)
  then have "table_ok w" "P (vo_nodes w)" "unat (vo_next_id w) + k < 2 ^ 32" using v table_ok_cong by (auto simp: same_table_def)
  then show "table_ok (snd (bind m f v))" using keepsD [OF assms(2)] by (auto simp: bind_def w split: sum.split)
qed

text \<open>A node looked up is known from then on.\<close>

lemma keeps_look:
  assumes "\<And>x. keeps (\<lambda>t. P t \<and> t i = Some x) k (f x)"
  shows "keeps P k (bind (look (\<lambda>v. vo_nodes v i) e) f)"
proof (rule keepsI)
  fix v :: "('a, 'b, 'c) Volume" assume v: "table_ok v" "P (vo_nodes v)" "unat (vo_next_id v) + k < 2 ^ 32"
  show "table_ok (snd (bind (look (\<lambda>v. vo_nodes v i) e) f v))"
  proof (cases "vo_nodes v i")
    case (Some x)
    with v(2) have "P (vo_nodes v) \<and> vo_nodes v i = Some x" by simp
    from keepsD [OF assms [of x] v(1) this v(3)] Some show ?thesis by (simp add: bind_def look_def)
  qed (simp add: bind_def look_def v(1))
qed

text \<open>A change of the table that takes no identifier, with more to come.\<close>

lemma keeps_change:
  assumes "\<And>v. table_ok v \<Longrightarrow> P (vo_nodes v) \<Longrightarrow> table_ok (f v) \<and> vo_next_id (f v) = vo_next_id v" and "\<And>x. keeps (\<lambda>_. True) k (g x)"
  shows "keeps P k (bind (update f) g)"
proof (rule keepsI)
  fix v :: "('a, 'b, 'c) Volume" assume v: "table_ok v" "P (vo_nodes v)" "unat (vo_next_id v) + k < 2 ^ 32"
  with assms(1) have "table_ok (f v)" "unat (vo_next_id (f v)) + k < 2 ^ 32" by simp_all
  then show "table_ok (snd (bind (update f) g v))" using keepsD [OF assms(2)] by (simp add: bind_def update_def)
qed

text \<open>Before steps that leave the table alone, one that keeps it.\<close>

lemma keeps_then_aside: "keeps P k m \<Longrightarrow> (\<And>x. aside (f x)) \<Longrightarrow> keeps P k (bind m f)"
  by (auto simp: keeps_def aside_def bind_def split: prod.splits sum.splits) (metis snd_conv table_ok_cong)+

text \<open>The shapes the operations are built of.\<close>

lemma keeps_shapes:
  "keeps P k a \<Longrightarrow> keeps P k b \<Longrightarrow> keeps P k (if c then a else b)"
  "keeps P k a \<Longrightarrow> (\<And>x. keeps P k (f x)) \<Longrightarrow> keeps P k (case_option a f opt)"
  "(\<And>x y. keeps P k (g x y)) \<Longrightarrow> keeps P k (case_prod g pair)"
  "keeps P k (ret x)" "keeps P k (refuse e)"
  by (simp_all add: keeps_aside split: option.split prod.split)

lemma aside_shapes:
  "aside a \<Longrightarrow> aside b \<Longrightarrow> aside (if c then a else b)"
  "aside a \<Longrightarrow> aside b \<Longrightarrow> aside (case_CreateFlag a b flag)"
  "aside a \<Longrightarrow> (\<And>x. aside (f x)) \<Longrightarrow> aside (case_option a f opt)"
  "aside a \<Longrightarrow> (\<And>x xs. aside (g x xs)) \<Longrightarrow> aside (case_list a g list)"
  by (simp_all split: option.split CreateFlag.split list.split)

lemmas keeping = keeps_look keeps_bind_aside keeps_then_aside keeps_shapes aside_bind aside_shapes aside_simps aside_try_host aside_clear

section \<open>New nodes\<close>

lemma keeps_add_node: "keeps P 1 (update (add_node parent name is_dir p))"
  by (rule keeps_update) (rule add_node_ok)

lemma keeps_install_node: "keeps P 1 (install_node env parent afp_name on_disk is_dir p)"
  unfolding install_node_def by (intro keeping keeps_add_node)

lemma keeps_burn: "keeps P 1 (update (\<lambda>v. v\<lparr>vo_next_id := vo_next_id v + 1\<rparr>))"
proof (rule keeps_update)
  fix v :: "('a, 'b, 'c) Volume" assume v: "table_ok v" "unat (vo_next_id v) + 1 < 2 ^ 32"
  have up: "i < vo_next_id v \<Longrightarrow> i < vo_next_id v + 1" for i using unat_succ [OF v(2)] by (simp add: word_less_nat_alt)
  from v(1) up show "table_ok (v\<lparr>vo_next_id := vo_next_id v + 1\<rparr>)" by (auto simp: table_ok_def)
qed

lemma keeps_install_named: "keeps P 1 (install_named env parent named is_dir p)"
  unfolding install_named_def by (intro keeping keeps_install_node keeps_burn)

lemma create_dir_keeps: "keeps P 1 (create_dir env i p)"
  unfolding create_dir_def Let_def by (intro keeping keeps_install_named)

lemma create_file_keeps: "keeps P 1 (create_file env flag i p)"
  unfolding create_file_def Let_def by (intro keeping keeps_install_named)

section \<open>Paths that change\<close>

lemma rebase_ok:
  assumes "table_ok v" and "vo_nodes v i = Some n" and "nd_path n = old \<or> nd_path n = new" and "nd_path (g n) = new"
    and "vo_nodes w = (vo_nodes v)(i := map_option g (vo_nodes v i))" and "vo_path_to_id w = (vo_path_to_id v)(old := None, new \<mapsto> i)"
    and "vo_next_id w = vo_next_id v"
  shows "table_ok w"
proof (rule table_okI)
  show "\<exists>m. vo_nodes w j = Some m \<and> nd_path m = p" if "vo_path_to_id w p = Some j" for p j
  proof (cases "p = new")
    case True
    then show ?thesis using that assms(2,4,5,6) by auto
  next
    case False
    then have p: "vo_path_to_id v p = Some j" "p \<noteq> old" using that assms(6) by (auto split: if_splits)
    from table_ok_path [OF assms(1) p(1)] obtain m where m: "vo_nodes v j = Some m" "nd_path m = p" by blast
    have "j \<noteq> i" using m p(2) False assms(2,3) by auto
    with m assms(5) show ?thesis by simp
  qed
  show "j < vo_next_id w" if "vo_nodes w j = Some m" for j m
    using that table_ok_below [OF assms(1)] assms(2,5,7) by (auto split: if_splits)
qed

lemma rebase_node_ok:
  assumes "table_ok v" and "vo_nodes v i = Some n" and "nd_path n = old"
  shows "table_ok (rebase_node i old parent name new v)"
  by (rule rebase_ok [OF assms(1,2), where old = old and new = new and g = "\<lambda>n. n\<lparr>nd_parent_id := parent, nd_name := name, nd_path := new\<rparr>"])
     (simp_all add: rebase_node_def assms(3))

text \<open>A list of changes that agrees with the table, done or not yet done.\<close>

definition changes_ok :: "(u32 \<Rightarrow> path) \<Rightarrow> (u32 \<Rightarrow> path) \<Rightarrow> ('h, 't, 'w) Volume \<Rightarrow> bool" where
  "changes_ok old new v \<longleftrightarrow> (\<forall>i n. vo_nodes v i = Some n \<longrightarrow> nd_path n = old i \<or> nd_path n = new i)"

lemma rebase_child_ok:
  assumes "table_ok v" and "changes_ok old new v"
  shows "table_ok (rebase_child env (i, old i, new i) v) \<and> changes_ok old new (rebase_child env (i, old i, new i) v)
     \<or> vo_nodes v i = None"
proof (cases "vo_nodes v i")
  case (Some n)
  have "table_ok (rebase_child env (i, old i, new i) v)"
    by (rule rebase_ok [OF assms(1) Some, where old = "old i" and new = "new i" and g = "\<lambda>n. n\<lparr>nd_path := new i\<rparr>"])
       (use assms(2) Some in \<open>simp_all add: rebase_child_def changes_ok_def\<close>)
  moreover have "changes_ok old new (rebase_child env (i, old i, new i) v)"
    using assms(2) by (auto simp: changes_ok_def rebase_child_def)
  ultimately show ?thesis by simp
qed simp

lemma rebase_child_dom: "dom (vo_nodes (rebase_child env c v)) = dom (vo_nodes v)"
  by (cases c) (auto simp: rebase_child_def split: if_splits)

lemma rebase_children_ok:
  "table_ok v \<Longrightarrow> changes_ok old new v \<Longrightarrow> \<forall>c\<in>set cs. c = (fst c, old (fst c), new (fst c)) \<and> fst c \<in> dom (vo_nodes v) \<Longrightarrow>
   table_ok (fold (rebase_child env) cs v)"
proof (induction cs arbitrary: v)
  case (Cons c cs)
  then have c: "c = (fst c, old (fst c), new (fst c))" "fst c \<in> dom (vo_nodes v)" by simp_all
  let ?w = "rebase_child env (fst c, old (fst c), new (fst c)) v"
  have "table_ok ?w \<and> changes_ok old new ?w" using rebase_child_ok [OF Cons.prems(1,2), of env "fst c"] c(2) by auto
  moreover have "dom (vo_nodes ?w) = dom (vo_nodes v)" by (rule rebase_child_dom)
  ultimately have "table_ok (fold (rebase_child env) cs ?w)" using Cons.prems(3) by (intro Cons.IH) auto
  with c(1) show ?case by simp
qed simp

lemma strip_prefix_self [simp]: "strip_prefix a (a @ q) = Some q"
  by (induction a) simp_all

lemma strip_prefix_Some: "strip_prefix a p = Some q \<longleftrightarrow> p = a @ q"
  by (induction a p rule: strip_prefix.induct) auto

lemma move_children_ok:
  assumes "table_ok v"
  shows "table_ok (fold (rebase_child env) (child_updates env src old new v) v)"
proof -
  let ?old = "\<lambda>i. case vo_nodes v i of None \<Rightarrow> [] | Some n \<Rightarrow> nd_path n"
  let ?new = "\<lambda>i. case strip_prefix old (?old i) of None \<Rightarrow> ?old i | Some below \<Rightarrow> new @ below"
  have "changes_ok ?old ?new v" by (simp add: changes_ok_def)
  moreover have "\<forall>c\<in>set (child_updates env src old new v). c = (fst c, ?old (fst c), ?new (fst c)) \<and> fst c \<in> dom (vo_nodes v)"
    by (auto simp: child_updates_def strip_prefix_Some split: option.splits if_splits)
  ultimately show ?thesis by (rule rebase_children_ok [OF assms])
qed

section \<open>Operations that look nodes up\<close>

text \<open>The host lists at most \<open>n\<close> entries of any directory, so that a lookup takes at most \<open>n\<close> identifiers.\<close>

definition keeps_in :: "('h, 't, 'w) Env \<Rightarrow> nat \<Rightarrow> nat \<Rightarrow> (('h, 't, 'w) Volume, 'a) action \<Rightarrow> bool" where
  "keeps_in env n k m \<longleftrightarrow>
     (\<forall>v. table_ok v \<longrightarrow> dir_bound env v n \<longrightarrow> unat (vo_next_id v) + k < 2 ^ 32 \<longrightarrow> table_ok (snd (m v)))"

lemma keeps_in_resolve:
  assumes "\<And>i. keeps_in env n k (f i)"
  shows "keeps_in env n (n + k) (bind (resolve_node_lazy env dir_id p) f)"
  unfolding keeps_in_def
proof (intro allI impI)
  fix v assume v: "table_ok v" "dir_bound env v n" "unat (vo_next_id v) + (n + k) < 2 ^ 32"
  obtain r w where w: "resolve_node_lazy env dir_id p v = (r, w)" by force
  have "unat (vo_next_id v) + n + k < 2 ^ 32" using v(3) by simp
  note keep = resolve_keeps [OF v(1,2) this w]
  show "table_ok (snd (bind (resolve_node_lazy env dir_id p) f v))"
    using keep assms unfolding bind_def w keeps_in_def by (auto split: sum.split)
qed

lemma keeps_in_keeps: "keeps (\<lambda>_. True) k m \<Longrightarrow> keeps_in env n k m"
  by (simp add: keeps_in_def keeps_def)

lemma keeps_in_shapes:
  "(\<And>x. keeps_in env n k (f x)) \<Longrightarrow> keeps_in env n k (bind (look g e) f)"
  "keeps_in env n k a \<Longrightarrow> keeps_in env n k b \<Longrightarrow> keeps_in env n k (if c then a else b)"
  "keeps_in env n k (refuse e)"
  by (auto simp: keeps_in_def bind_def look_def refuse_def split: option.split)

lemma keeps_rebase_node:
  assumes "nd_path src = old" and "\<And>x. keeps (\<lambda>_. True) k (g x)" and "\<And>t. P t \<Longrightarrow> t i = Some src"
  shows "keeps P k (bind (update (rebase_node i old parent name new)) g)"
proof (rule keeps_change [OF _ assms(2)])
  fix v :: "('a, 'b, 'c) Volume" assume "table_ok v" "P (vo_nodes v)"
  then show "table_ok (rebase_node i old parent name new v) \<and> vo_next_id (rebase_node i old parent name new v) = vo_next_id v"
    using rebase_node_ok [OF _ assms(3) assms(1)] by (simp add: rebase_node_def)
qed

lemma keeps_move_children: "keeps P k (update (\<lambda>v. fold (rebase_child env) (child_updates env i old new v) v))"
  by (rule keeps_update) (rule move_children_ok)

lemma keeps_remove:
  assumes "\<And>t. P t \<Longrightarrow> t i = Some n"
  shows "keeps P k (update (\<lambda>v. v\<lparr>vo_nodes := (vo_nodes v)(i := None), vo_path_to_id := (vo_path_to_id v)(nd_path n := None)\<rparr>))"
proof (rule keeps_update)
  fix v :: "('a, 'b, 'c) Volume" assume v: "table_ok v" "P (vo_nodes v)"
  then have "vo_nodes v i = Some n" using assms by simp
  with v(1) table_ok_path [OF v(1)]
  show "table_ok (v\<lparr>vo_nodes := (vo_nodes v)(i := None), vo_path_to_id := (vo_path_to_id v)(nd_path n := None)\<rparr>)"
    by (fastforce simp: table_ok_def)
qed

lemma move_keeps: "keeps_in env n (n + (n + 0)) (move_and_rename env s d sp dp name)"
  unfolding move_and_rename_def commit_move_def Let_def
  by (intro keeps_in_resolve keeps_in_shapes(2,3) keeps_in_keeps keeping keeps_rebase_node refl keeps_then_aside keeps_move_children) simp_all

lemma delete_keeps: "keeps_in env n (n + 0) (delete env req)"
  unfolding delete_def Let_def
  by (intro keeps_in_resolve keeps_in_shapes(2,3) keeps_in_keeps keeping keeps_remove) simp_all

lemma copy_keeps: "keeps_in env n (n + (n + 1)) (copy_file env s sp d dp name)"
  unfolding copy_file_def Let_def
  apply (intro keeps_in_resolve keeps_in_shapes)
  apply (intro keeps_in_keeps keeping keeps_install_node aside_update)
  by simp_all

section \<open>What a successful move does\<close>

lemma bind_Inr_iff: "bind m f s = (Inr x, s') \<longleftrightarrow> (\<exists>y t. m s = (Inr y, t) \<and> f y t = (Inr x, s'))"
  by (auto simp: bind_def split: prod.splits sum.splits)

lemma simple_Inr_iff:
  "ret y s = (Inr x, s') \<longleftrightarrow> y = x \<and> s' = s" "\<not> (refuse e s = (Inr x, s'))" "reads g s = (Inr x, s') \<longleftrightarrow> x = g s \<and> s' = s"
  "update f s = (Inr u, s') \<longleftrightarrow> s' = f s" "look h e s = (Inr z, s') \<longleftrightarrow> h s = Some z \<and> s' = s"
  by (auto simp: action_defs split: option.splits)

lemma host_Inr_iff: "host c v = (Inr x, v') \<longleftrightarrow> x = fst (c (vo_world v)) \<and> v' = v\<lparr>vo_world := snd (c (vo_world v))\<rparr>"
  by (auto simp: host_def split: prod.splits)

lemma try_host_Inr_iff: "try_host c e v = (Inr u, v') \<longleftrightarrow> fst (c (vo_world v)) \<and> v' = v\<lparr>vo_world := snd (c (vo_world v))\<rparr>"
  by (auto simp: try_host_def bind_Inr_iff host_Inr_iff simple_Inr_iff split: if_splits)

lemma desk_Inr_iff: "desk d v = (Inr x, v') \<longleftrightarrow> x = fst (d (vo_desktop v)) \<and> v' = v\<lparr>vo_desktop := snd (d (vo_desktop v))\<rparr>"
  by (auto simp: desk_def split: prod.splits)

lemmas Inr_iffs = bind_Inr_iff simple_Inr_iff host_Inr_iff try_host_Inr_iff desk_Inr_iff

definition moved_world :: "('h, 't, 'w) Env \<Rightarrow> path \<Rightarrow> 'h Node \<Rightarrow> path \<Rightarrow> 'w \<Rightarrow> 'w" where
  "moved_world env root src new w =
     (let H = ev_host env; w' = snd (h_rename H w (root @ nd_path src) (root @ new));
          sidecar = rsrc_path root (nd_path src)
      in if \<not> nd_is_dir src \<and> h_metadata H w' sidecar \<noteq> None then snd (h_rename H w' sidecar (rsrc_path root new)) else w')"

definition moved_table ::
  "('h, 't, 'w) Env \<Rightarrow> u32 \<Rightarrow> 'h Node \<Rightarrow> u32 \<Rightarrow> bytes \<Rightarrow> path \<Rightarrow> ('h, 't, 'w) Volume \<Rightarrow> ('h, 't, 'w) Volume" where
  "moved_table env i src j afp_name new v =
     (let u = rebase_node i (nd_path src) j afp_name new v
      in if nd_is_dir src then fold (rebase_child env) (child_updates env i (nd_path src) new u) u else u)"

text \<open>All of a volume but its database of comments and names and its snapshots.\<close>

definition same_but_desktop :: "('h, 't, 'w) Volume \<Rightarrow> ('h, 't, 'w) Volume \<Rightarrow> bool" where
  "same_but_desktop v v' \<longleftrightarrow> (\<exists>d c. v' = v\<lparr>vo_desktop := d, vo_enum_cache := c\<rparr>)"

lemma same_but_desktopI: "v\<lparr>vo_desktop := d, vo_enum_cache := c\<rparr> = v' \<Longrightarrow> same_but_desktop v v'"
  by (auto simp: same_but_desktop_def)

lemma register_mangle_desktop: "\<exists>d. register_mangle_if_needed env a n v = v\<lparr>vo_desktop := d\<rparr>"
  by (auto simp: register_mangle_if_needed_def intro: exI [of _ "vo_desktop v"])

lemma commit_move_Inr:
  assumes "commit_move env sd i src j afp_name posix_name new w = (Inr (), v')"
  shows "fst (h_rename (ev_host env) (vo_world w) (vo_path w @ nd_path src) (vo_path w @ new))"
    and "same_but_desktop (moved_table env i src j afp_name new (w\<lparr>vo_world := moved_world env (vo_path w) src new (vo_world w)\<rparr>)) v'"
proof -
  show "fst (h_rename (ev_host env) (vo_world w) (vo_path w @ nd_path src) (vo_path w @ new))"
    using assms unfolding commit_move_def Let_def by (simp add: bind_Inr_iff simple_Inr_iff try_host_Inr_iff)
  let ?m = "moved_table env i src j afp_name new (w\<lparr>vo_world := moved_world env (vo_path w) src new (vo_world w)\<rparr>)"
  obtain d a where "v' = clear_listings (register_mangle_if_needed env a posix_name (?m\<lparr>vo_desktop := d\<rparr>))"
    using assms unfolding commit_move_def Let_def moved_table_def moved_world_def
    by (auto simp: Inr_iffs path_exists_def split: if_splits)
  with register_mangle_desktop [of env a posix_name "?m\<lparr>vo_desktop := d\<rparr>"] show "same_but_desktop ?m v'"
    by (auto simp: clear_listings_def intro: same_but_desktopI)
qed

lemma same_but_desktop_simps:
  assumes "same_but_desktop v v'"
  shows "vo_nodes v' = vo_nodes v" "vo_path_to_id v' = vo_path_to_id v" "vo_world v' = vo_world v" "vo_path v' = vo_path v"
    "vo_fork_refs v' = vo_fork_refs v" "vo_fork_pos v' = vo_fork_pos v" "vo_fork_access v' = vo_fork_access v"
    "vo_fork_locks v' = vo_fork_locks v" "vo_dirty v' = vo_dirty v"
  using assms by (auto simp: same_but_desktop_def)

lemma fold_rebase_simps [simp]:
  "vo_world (fold (rebase_child env) cs v) = vo_world v" "vo_path (fold (rebase_child env) cs v) = vo_path v"
  "vo_fork_refs (fold (rebase_child env) cs v) = vo_fork_refs v"
  by (induction cs arbitrary: v) (auto simp: rebase_child_def split: prod.splits)

lemma moved_table_simps [simp]:
  "vo_world (moved_table env i src j a new v) = vo_world v" "vo_path (moved_table env i src j a new v) = vo_path v"
  "vo_fork_refs (moved_table env i src j a new v) = vo_fork_refs v"
  by (simp_all add: moved_table_def rebase_node_def Let_def)

lemma fold_rebase_nodes:
  "\<forall>c\<in>set cs. snd (snd c) = new (fst c) \<Longrightarrow>
   vo_nodes (fold (rebase_child env) cs v) k
     = (if k \<in> fst ` set cs then map_option (\<lambda>n. n\<lparr>nd_path := new k\<rparr>) (vo_nodes v k) else vo_nodes v k)"
proof (induction cs arbitrary: v k)
  case (Cons c cs)
  obtain i p q where c: "c = (i, p, q)" by (cases c) auto
  with Cons.prems have q: "q = new i" by simp
  have ih: "vo_nodes (fold (rebase_child env) cs w) k
     = (if k \<in> fst ` set cs then map_option (\<lambda>n. n\<lparr>nd_path := new k\<rparr>) (vo_nodes w k) else vo_nodes w k)" for w k
    using Cons by simp
  have "vo_nodes (rebase_child env c v) k = (if k = i then map_option (\<lambda>n. n\<lparr>nd_path := new k\<rparr>) (vo_nodes v k) else vo_nodes v k)"
    by (simp add: rebase_child_def c q)
  then show ?case by (cases "k = i"; cases "vo_nodes v k") (auto simp: ih c)
qed simp

text \<open>The path of another node after the move.\<close>

definition followed :: "'h Node \<Rightarrow> path \<Rightarrow> 'h Node \<Rightarrow> 'h Node" where
  "followed src new n =
     (case strip_prefix (nd_path src) (nd_path n) of
        Some below \<Rightarrow> if nd_is_dir src then n\<lparr>nd_path := new @ below\<rparr> else n
      | None \<Rightarrow> n)"

lemma moved_nodes:
  assumes "vo_nodes v i = Some src" and "set (ev_node_order env (dom (vo_nodes v))) = dom (vo_nodes v)"
  shows "vo_nodes (moved_table env i src j a new v) i = Some (src\<lparr>nd_parent_id := j, nd_name := a, nd_path := new\<rparr>)"
    and "k \<noteq> i \<Longrightarrow> vo_nodes (moved_table env i src j a new v) k = map_option (followed src new) (vo_nodes v k)"
proof -
  define u where "u = rebase_node i (nd_path src) j a new v"
  have ui: "vo_nodes u i = Some (src\<lparr>nd_parent_id := j, nd_name := a, nd_path := new\<rparr>)" and uk: "k \<noteq> i \<Longrightarrow> vo_nodes u k = vo_nodes v k" for k
    using assms(1) by (simp_all add: u_def rebase_node_def)
  have dom: "dom (vo_nodes u) = dom (vo_nodes v)" using assms(1) by (auto simp: u_def rebase_node_def)
  let ?cs = "child_updates env i (nd_path src) new u"
  let ?new = "\<lambda>k. case vo_nodes u k of None \<Rightarrow> [] | Some n \<Rightarrow> (case strip_prefix (nd_path src) (nd_path n) of None \<Rightarrow> [] | Some below \<Rightarrow> new @ below)"
  have cs: "\<forall>c\<in>set ?cs. snd (snd c) = ?new (fst c)"
    by (auto simp: child_updates_def split: option.splits if_splits)
  have mem: "k \<in> fst ` set ?cs \<longleftrightarrow> k \<noteq> i \<and> (\<exists>n below. vo_nodes u k = Some n \<and> strip_prefix (nd_path src) (nd_path n) = Some below)" for k
  proof
    assume "k \<in> fst ` set ?cs"
    then show "k \<noteq> i \<and> (\<exists>n below. vo_nodes u k = Some n \<and> strip_prefix (nd_path src) (nd_path n) = Some below)"
      by (auto simp: child_updates_def split: option.splits if_splits) metis
  next
    assume "k \<noteq> i \<and> (\<exists>n below. vo_nodes u k = Some n \<and> strip_prefix (nd_path src) (nd_path n) = Some below)"
    then obtain n below where k: "k \<noteq> i" "vo_nodes u k = Some n" "strip_prefix (nd_path src) (nd_path n) = Some below" by blast
    then have "k \<in> set (ev_node_order env (dom (vo_nodes u)))" using assms(2) dom by auto
    then have "(k, nd_path n, new @ below) \<in> set ?cs"
      using k by (auto simp: child_updates_def intro!: bexI [of _ k])
    then show "k \<in> fst ` set ?cs" by force
  qed
  note nodes = fold_rebase_nodes [OF cs, of env u]
  show "vo_nodes (moved_table env i src j a new v) i = Some (src\<lparr>nd_parent_id := j, nd_name := a, nd_path := new\<rparr>)"
    using nodes [of i] mem [of i] ui by (simp add: moved_table_def flip: u_def)
  show "vo_nodes (moved_table env i src j a new v) k = map_option (followed src new) (vo_nodes v k)" if "k \<noteq> i"
    using nodes [of k] mem [of k] uk [OF that] that
    by (cases "vo_nodes v k") (auto simp: moved_table_def followed_def Let_def split: option.splits simp flip: u_def)
qed

lemma move_Inr:
  assumes "move_and_rename env sd dd sp dp name v = (Inr (), v')"
  obtains w1 w i j src dst afp_name new where
    "resolve_node_lazy env sd sp v = (Inr i, w1)" "resolve_node_lazy env dd dp w1 = (Inr j, w)" "2 < i"
    "vo_nodes w i = Some src" "vo_nodes w j = Some dst" "nd_is_dir dst"
    "afp_name = (if name = [] then nd_name src else name)" "new = join_name (nd_path dst) (afp_name_to_posix_component afp_name)"
    "new \<noteq> nd_path src \<longrightarrow> vo_path_to_id w new = None"
    "commit_move env sd i src j afp_name (afp_name_to_posix_component afp_name) new w = (Inr (), v')"
  using assms unfolding move_and_rename_def Let_def
  by (auto simp: bind_Inr_iff simple_Inr_iff not_le split: if_splits)

section \<open>The walk ends\<close>

text \<open>The directories among the entries of a directory, and a directory with at most so many levels of directories below it.\<close>

definition subdirs :: "path \<Rightarrow> DirEntry option list \<Rightarrow> path set" where
  "subdirs p es = {p @ [de_name e] |e. Some e \<in> set es \<and> \<not> hidden_name (utf8_lossy (de_name e)) \<and> de_is_dir e = Some True}"

lemma subdirs_Cons: "subdirs p es \<subseteq> subdirs p (x # es)"
  "\<not> hidden_name (utf8_lossy (de_name e)) \<Longrightarrow> de_is_dir e = Some True \<Longrightarrow> p @ [de_name e] \<in> subdirs p (Some e # es)"
  by (auto simp: subdirs_def)

fun shallow :: "('w, 'h) Host \<Rightarrow> 'w \<Rightarrow> path \<Rightarrow> nat \<Rightarrow> path \<Rightarrow> bool" where
  "shallow H w root 0 p \<longleftrightarrow> (\<forall>es. h_read_dir H w (root @ p) = Some es \<longrightarrow> subdirs p es = {})"
| "shallow H w root (Suc d) p \<longleftrightarrow> (\<forall>es. h_read_dir H w (root @ p) = Some es \<longrightarrow> (\<forall>q\<in>subdirs p es. shallow H w root d q))"

lemma walk_entries_stack:
  "walk_entries env p i entries stack v = (ok, stack', v') \<Longrightarrow>
   vo_world v' = vo_world v \<and> vo_path v' = vo_path v \<and> (\<exists>new. stack' = new @ stack \<and> fst ` set new \<subseteq> subdirs p entries)"
proof (induction env p i entries stack v arbitrary: ok stack' v' rule: walk_entries.induct)
  case (3 env p i entry entries stack v)
  let ?name = "utf8_lossy (de_name entry)"
  show ?case
  proof (cases "hidden_name ?name")
    case True
    then have "walk_entries env p i entries stack v = (ok, stack', v')" using "3.prems" by (simp add: Let_def)
    from "3.IH"(1) [OF refl refl refl True this] subdirs_Cons(1) show ?thesis by blast
  next
    case new: False
    show ?thesis
    proof (cases "de_is_dir entry")
      case None
      then show ?thesis using new "3.prems" by (auto simp: Let_def)
    next
      case (Some is_dir)
      let ?more = "if is_dir then [(p @ [de_name entry], vo_next_id v)] else []"
      let ?w = "register_mangle_if_needed env (posix_name_to_afp ?name) ?name (add_node i (posix_name_to_afp ?name) is_dir (p @ [de_name entry]) v)"
      have stack: "(if is_dir then (p @ [de_name entry], vo_next_id v) # stack else stack) = ?more @ stack" by simp
      have "walk_entries env p i entries (?more @ stack) ?w = (ok, stack', v')" using new Some "3.prems" unfolding stack [symmetric] by (simp add: Let_def)
      from "3.IH"(2) [OF refl refl refl new Some, unfolded stack, OF this]
      obtain cs where cs: "vo_world v' = vo_world ?w" "vo_path v' = vo_path ?w" "stack' = (cs @ ?more) @ stack" "fst ` set cs \<subseteq> subdirs p entries"
        by auto
      have w: "vo_world v' = vo_world v" "vo_path v' = vo_path v"
        using cs(1,2) by (simp_all add: register_mangle_if_needed_def add_node_def)
      have "fst ` set (cs @ ?more) \<subseteq> subdirs p (Some entry # entries)"
        using cs(4) subdirs_Cons(1) [of p entries "Some entry"] subdirs_Cons(2) [OF new] Some by auto
      with cs(3) w show ?thesis by blast
    qed
  qed
qed auto

lemma walk_loop_simps:
  "walk_loop env [] v = Some (True, v)"
  "walk_loop env ((p, i) # rest) v =
     (case h_read_dir (ev_host env) (vo_world v) (vo_path v @ p) of
        None \<Rightarrow> Some (False, v)
      | Some entries \<Rightarrow>
          (case walk_entries env p i entries rest v of
             (ok, stack', v') \<Rightarrow> if ok then walk_loop env stack' v' else Some (False, v')))"
  by (simp_all add: walk_loop.simps absolute_def)

lemma walk_loop_step:
  assumes "\<And>es new v'. h_read_dir (ev_host env) (vo_world v) (vo_path v @ p) = Some es \<Longrightarrow> fst ` set new \<subseteq> subdirs p es \<Longrightarrow>
      vo_world v' = vo_world v \<Longrightarrow> vo_path v' = vo_path v \<Longrightarrow> walk_loop env (new @ rest) v' \<noteq> None"
  shows "walk_loop env ((p, i) # rest) v \<noteq> None"
proof (cases "h_read_dir (ev_host env) (vo_world v) (vo_path v @ p)")
  case (Some es)
  obtain ok stack' v' where e: "walk_entries env p i es rest v = (ok, stack', v')" by (cases "walk_entries env p i es rest v") auto
  with walk_entries_stack [OF this] assms [OF Some] have "walk_loop env stack' v' \<noteq> None" by blast
  then show ?thesis using Some e by (cases ok) (simp_all add: walk_loop_simps)
qed (simp add: walk_loop_simps)

text \<open>A walk that ends whatever is below ends with shallow directories on top.\<close>

lemma walk_loop_ends:
  fixes v :: "('a, 'b, 'c) Volume"
  shows "(\<And>v :: ('a, 'b, 'c) Volume. vo_world v = w \<Longrightarrow> vo_path v = root \<Longrightarrow> walk_loop env rest v \<noteq> None) \<Longrightarrow>
   \<forall>c\<in>set stack. shallow (ev_host env) w root d (fst c) \<Longrightarrow> vo_world v = w \<Longrightarrow> vo_path v = root \<Longrightarrow>
   walk_loop env (stack @ rest) v \<noteq> None"
proof (induction d arbitrary: stack rest v)
  case 0
  note ends = 0(1)
  show ?case using 0(2-4)
  proof (induction stack arbitrary: v)
    case (Cons c stack)
    obtain p i where c: "c = (p, i)" by (cases c)
    show ?case unfolding c append_Cons
    proof (rule walk_loop_step)
      fix es and new :: "(path \<times> u32) list" and v' :: "('a, 'b, 'c) Volume" assume "h_read_dir (ev_host env) (vo_world v) (vo_path v @ p) = Some es" "fst ` set new \<subseteq> subdirs p es"
        and v': "vo_world v' = vo_world v" "vo_path v' = vo_path v"
      then have "new = []" using Cons.prems by (simp add: c)
      with Cons.IH [of v'] Cons.prems v' show "walk_loop env (new @ stack @ rest) v' \<noteq> None" by simp
    qed
  qed (simp add: ends)
next
  case (Suc d)
  note ends = Suc.prems(1)
  show ?case using Suc.prems(2-4)
  proof (induction stack arbitrary: v)
    case (Cons c stack)
    obtain p i where c: "c = (p, i)" by (cases c)
    have below: "walk_loop env (stack @ rest) u \<noteq> None" if "vo_world u = w" "vo_path u = root" for u
      using Cons.IH [of u] Cons.prems(1) that by simp
    show ?case unfolding c append_Cons
    proof (rule walk_loop_step)
      fix es and new :: "(path \<times> u32) list" and v' :: "('a, 'b, 'c) Volume" assume es: "h_read_dir (ev_host env) (vo_world v) (vo_path v @ p) = Some es" "fst ` set new \<subseteq> subdirs p es"
        and v': "vo_world v' = vo_world v" "vo_path v' = vo_path v"
      then have "\<forall>c\<in>set new. shallow (ev_host env) w root d (fst c)" using Cons.prems by (auto simp: c)
      then show "walk_loop env (new @ stack @ rest) v' \<noteq> None"
        using Suc.IH [OF below, of new v'] v' Cons.prems by simp
    qed
  qed (simp add: ends)
qed

lemma walk_dir_ends: "shallow (ev_host env) (vo_world v) (vo_path v) d p \<Longrightarrow> walk_dir env p v \<noteq> None"
  using walk_loop_ends [of "vo_world v" "vo_path v" env "[]" "[(p, i)]" d v for i] by (simp add: walk_dir_def walk_loop_simps)

end
