(* ===== verification/Afp_Tree_Theorems.thy ===== *)
theory Afp_Tree_Theorems
  imports Afp_Tree_Props Afp_Fork_Theorems
begin

text \<open>
  Claims on the tree of a volume: the node table is kept by every operation, a move takes the whole subtree along and is one
  rename on the host, and that one rename leaves the resource forks of the files of a moved folder behind.
\<close>

section \<open>The table is kept\<close>

text \<open>
  Claim C38: whatever creating, moving, renaming, copying and deleting in a volume answer, success or error, they leave a node table behind in which
  every path leads to a node at that path and every identifier in use is below the next one, and so does looking a path up. A
  new volume starts that way. The identifiers left must cover what one operation can take, at most two listings of a directory
  and one new node.
\<close>

theorem volume_operations_keep_table:
  assumes "table_ok v" and "dir_bound env v n" and "unat (vo_next_id v) + 2 * n + 1 < 2 ^ 32"
  shows "table_ok (volume_new env vol_name root volume_id db w)
    \<and> table_ok (snd (resolve_node_lazy env dir p v))
    \<and> table_ok (snd (create_dir env dir p v))
    \<and> table_ok (snd (create_file env flag dir p v))
    \<and> table_ok (snd (move_and_rename env dir dir' p p' name v))
    \<and> table_ok (snd (rename env dir p name v))
    \<and> table_ok (snd (copy_file env dir p dir' p' name v))
    \<and> table_ok (snd (delete env req v))"
proof -
  have lookup: "table_ok (snd (resolve_node_lazy env dir p v))"
    using resolve_keeps(1) [OF assms(1,2), of 0 dir p] assms(3) by (cases "resolve_node_lazy env dir p v") simp
  have new: "table_ok (snd (create_dir env dir p v))" "table_ok (snd (create_file env flag dir p v))"
    using keepsD [OF create_dir_keeps [of "\<lambda>_. True"] assms(1)] keepsD [OF create_file_keeps [of "\<lambda>_. True"] assms(1)] assms(3) by simp_all
  have move: "table_ok (snd (move_and_rename env sd dd sp dp name v))" for sd dd sp dp
    using move_keeps [of env n sd dd sp dp name] assms by (simp add: keeps_in_def)
  have copy: "table_ok (snd (copy_file env dir p dir' p' name v))"
    using copy_keeps [of env n dir p dir' p' name] assms by (simp add: keeps_in_def)
  have del: "table_ok (snd (delete env req v))"
    using delete_keeps [of env n req] assms by (simp add: keeps_in_def)
  show ?thesis
    using lookup new move copy del volume_new_ok(1) by (simp add: rename_def)
qed

section \<open>Moves\<close>

text \<open>
  Claim C39: a successful move or rename is one rename on the host, and for a file one of its sidecar where there is one; the
  node keeps its identifier and its open forks and has the new parent, name and path; every other node is as it was, save that
  those below a moved folder have their paths rebased; and the references of open forks are untouched.
\<close>

theorem move_takes_subtree_along:
  assumes "move_and_rename env sd dd sp dp name v = (Inr (), v')"
    and "\<And>ids. set (ev_node_order env ids) = ids"
  shows "\<exists>w1 w i j src dst.
    resolve_node_lazy env sd sp v = (Inr i, w1) \<and> resolve_node_lazy env dd dp w1 = (Inr j, w) \<and> 2 < i
    \<and> vo_nodes w i = Some src \<and> vo_nodes w j = Some dst \<and> nd_is_dir dst
    \<and> (let afp_name = (if name = [] then nd_name src else name); new = join_name (nd_path dst) (afp_name_to_posix_component afp_name)
       in (new \<noteq> nd_path src \<longrightarrow> vo_path_to_id w new = None)
          \<and> vo_world v' = moved_world env (vo_path w) src new (vo_world w)
          \<and> vo_nodes v' i = Some (src\<lparr>nd_parent_id := j, nd_name := afp_name, nd_path := new\<rparr>)
          \<and> (\<forall>k. k \<noteq> i \<longrightarrow> vo_nodes v' k = map_option (followed src new) (vo_nodes w k))
          \<and> (\<not> nd_is_dir src \<longrightarrow> vo_path_to_id v' = (vo_path_to_id w)(nd_path src := None, new \<mapsto> i))
          \<and> vo_fork_refs v' = vo_fork_refs w)"
proof -
  from assms(1) show ?thesis
  proof (cases rule: move_Inr)
    case (1 w1 w i j src dst afp_name new)
    let ?w = "w\<lparr>vo_world := moved_world env (vo_path w) src new (vo_world w)\<rparr>"
    note fin = same_but_desktop_simps [OF commit_move_Inr(2) [OF 1(10)]]
    have "vo_nodes ?w i = Some src" "set (ev_node_order env (dom (vo_nodes ?w))) = dom (vo_nodes ?w)" using 1(4) assms(2) by simp_all
    note nodes = moved_nodes [OF this, where j = j and a = afp_name and new = new]
    have moved: "vo_nodes v' i = Some (src\<lparr>nd_parent_id := j, nd_name := afp_name, nd_path := new\<rparr>)"
      "\<forall>k. k \<noteq> i \<longrightarrow> vo_nodes v' k = map_option (followed src new) (vo_nodes w k)"
      using nodes fin(1) by simp_all
    have one: "vo_path_to_id v' = (vo_path_to_id w)(nd_path src := None, new \<mapsto> i)" if "\<not> nd_is_dir src"
      using that fin(2) by (simp add: moved_table_def rebase_node_def)
    have rest: "vo_world v' = moved_world env (vo_path w) src new (vo_world w)" "vo_fork_refs v' = vo_fork_refs w" using fin(3,5) by simp_all
    show ?thesis
      by (rule exI [of _ w1], rule exI [of _ w], rule exI [of _ i], rule exI [of _ j], rule exI [of _ src], rule exI [of _ dst],
          unfold Let_def 1(7) [symmetric], unfold 1(8) [symmetric]) (use 1(1-6,9) moved one rest in blast)
  qed
qed

section \<open>Resource forks of a moved folder\<close>

text \<open>The host's rename touches what lies at or below its two paths alone.\<close>

definition rename_local :: "('w, 'h) Host \<Rightarrow> bool" where
  "rename_local H \<longleftrightarrow> (\<forall>w a b q. strip_prefix a q = None \<longrightarrow> strip_prefix b q = None \<longrightarrow>
     h_metadata H (snd (h_rename H w a b)) q = h_metadata H w q)"

lemma resolve_known:
  "resolve_node env v dir p = Inr i \<Longrightarrow> resolve_node_lazy env dir p v = (Inr i, v)"
  by (simp add: resolve_node_lazy_def)

lemma strip_prefix_root: "strip_prefix (root @ a) (root @ b) = strip_prefix a b"
  by (induction root) simp_all

text \<open>A path of the volume that is not in the directory of the server's own files.\<close>

definition client_path :: "path \<Rightarrow> bool" where
  "client_path p \<longleftrightarrow> p \<noteq> [] \<and> hd p \<noteq> ascii ''.tailtalk''"

lemma client_path_sidecar: "client_path p \<Longrightarrow> strip_prefix (root @ p) (rsrc_path root q) = None"
  by (cases p) (simp_all add: client_path_def rsrc_path_def strip_prefix_root)

text \<open>
  Claim C40: a folder that is moved or renamed leaves the resource forks of the files in it behind. The files' nodes have their
  paths rebased, but every sidecar is where it was before, so the resource fork of a file at its new path is whatever sidecar
  happened to be at that path, of length zero when there was none.
\<close>

theorem folder_move_strands_resource_forks:
  assumes "rename_local (ev_host env)" and "\<And>ids. set (ev_node_order env ids) = ids"
    and "resolve_node env v sd sp = Inr i" and "vo_nodes v i = Some src" and "nd_is_dir src"
    and "resolve_node env v dd dp = Inr j" and "vo_nodes v j = Some dst"
    and "new = join_name (nd_path dst) (afp_name_to_posix_component (if name = [] then nd_name src else name))"
    and "client_path (nd_path src)" and "client_path new"
    and "move_and_rename env sd dd sp dp name v = (Inr (), v')"
  shows "(\<forall>q. resolve_resource_fork_path env v' q = resolve_resource_fork_path env v q)
    \<and> (\<forall>k n below. k \<noteq> i \<and> vo_nodes v k = Some n \<and> nd_path n = nd_path src @ below \<longrightarrow>
         (\<exists>n'. vo_nodes v' k = Some n' \<and> nd_path n' = new @ below))"
proof -
  from assms(11) show ?thesis
  proof (cases rule: move_Inr)
    case (1 w1 w i' j' src' dst' afp_name new')
    have first: "i' = i" "w1 = v" using 1(1) resolve_known [OF assms(3)] by simp_all
    have second: "j' = j" "w = v" using 1(2) first(2) resolve_known [OF assms(6)] by simp_all
    have same: "i' = i" "j' = j" "w = v" "src' = src" "dst' = dst" using first second 1(4,5) assms(4,7) by simp_all
    have new: "new' = new" using 1(7,8) assms(8) same by simp
    let ?w = "v\<lparr>vo_world := moved_world env (vo_path v) src new (vo_world v)\<rparr>"
    note fin = same_but_desktop_simps [OF commit_move_Inr(2) [OF 1(10) [unfolded same new]]]
    have "vo_nodes ?w i = Some src" "set (ev_node_order env (dom (vo_nodes ?w))) = dom (vo_nodes ?w)" using assms(2,4) by simp_all
    note nodes = moved_nodes [OF this, where j = j and a = afp_name and new = new]
    have "h_metadata (ev_host env) (vo_world v') (rsrc_path (vo_path v) q) = h_metadata (ev_host env) (vo_world v) (rsrc_path (vo_path v) q)" for q
      using assms(1,5) client_path_sidecar [OF assms(9)] client_path_sidecar [OF assms(10)] fin(3)
      by (simp add: moved_world_def rename_local_def Let_def)
    then have "\<forall>q. resolve_resource_fork_path env v' q = resolve_resource_fork_path env v q"
      using fin(4) by (simp add: resolve_resource_fork_path_def Let_def)
    moreover have "\<forall>k n below. k \<noteq> i \<and> vo_nodes v k = Some n \<and> nd_path n = nd_path src @ below \<longrightarrow>
         (\<exists>n'. vo_nodes v' k = Some n' \<and> nd_path n' = new @ below)"
      using nodes(2) fin(1) assms(5) by (auto simp: followed_def)
    ultimately show ?thesis by (rule conjI)
  qed
qed

section \<open>A small tree\<close>

text \<open>A host that knows the lengths of files by path, and a volume with a folder, a file in it, and the file's sidecar.\<close>

definition tree_host :: "(path \<Rightarrow> Metadata option, nat) Host" where
  "tree_host = \<lparr>h_now = (\<lambda>w. 0), h_metadata = (\<lambda>w p. w p), h_read_dir = (\<lambda>w p. Some []),
     h_open = (\<lambda>w p. (None, w)), h_open_create = (\<lambda>w p. (None, w)), h_create = (\<lambda>w p. (True, w)), h_create_dir = (\<lambda>w p. (True, w)),
     h_create_dir_all = (\<lambda>w p. (True, w)),
     h_rename = (\<lambda>w a b. (True, \<lambda>q. case strip_prefix b q of Some r \<Rightarrow> w (a @ r) | None \<Rightarrow> if strip_prefix a q = None then w q else None)),
     h_copy = (\<lambda>w p q. (True, w)), h_remove_file = (\<lambda>w p. (True, w)),
     h_remove_dir = (\<lambda>w p. (True, w)), h_xattr_list = (\<lambda>w p. []), h_xattr_get = (\<lambda>w p a. Some None), h_xattr_set = (\<lambda>w p a x. (True, w)),
     h_mime_type = (\<lambda>w p. None), h_seek = (\<lambda>w f n. (True, w)), h_read = (\<lambda>w f n. (Some [], w)),
     h_write_all = (\<lambda>w f d. (True, w)), h_set_len = (\<lambda>w f n. (True, w)), h_sync_data = (\<lambda>w f. (True, w))\<rparr>"

definition tree_env :: "(nat, (bytes, bytes) omap, path \<Rightarrow> Metadata option) Env" where
  "tree_env = \<lparr>ev_mac = \<lparr>mac_encode = id, mac_decode = id\<rparr>, ev_sled = om_tree, ev_host = tree_host,
     ev_fork_order = (\<lambda>s. []), ev_node_order = (\<lambda>s. sorted_list_of_set s)\<rparr>"

definition tree_volume :: "(nat, (bytes, bytes) omap, path \<Rightarrow> Metadata option) Volume" where
  "tree_volume = (volume_new tree_env (ascii ''Share'') [] 1234 empty_desktop
       [rsrc_path [] [ascii ''docs'', ascii ''note''] \<mapsto> \<lparr>md_len = 10, md_created = None, md_modified = None\<rparr>])
     \<lparr>vo_nodes := [1 \<mapsto> new_node 1 1 (ascii ''Share'') True [], 2 \<mapsto> new_node 2 1 (ascii ''Share'') True [],
        3 \<mapsto> new_node 3 2 (ascii ''docs'') True [ascii ''docs''], 4 \<mapsto> new_node 4 3 (ascii ''note'') False [ascii ''docs'', ascii ''note'']],
      vo_path_to_id := [[] \<mapsto> 2, [ascii ''docs''] \<mapsto> 3, [ascii ''docs'', ascii ''note''] \<mapsto> 4], vo_next_id := 5\<rparr>"

lemma tree_order: "set (ev_node_order tree_env ids) = ids"
  by (simp add: tree_env_def)

lemma tree_rename_local: "rename_local (ev_host tree_env)"
  by (simp add: rename_local_def tree_env_def tree_host_def)

lemma tree_table_ok: "table_ok tree_volume"
  by (auto simp: table_ok_def tree_volume_def new_node_def split: if_splits)

lemma tree_lookups:
  "resolve_node tree_env tree_volume 2 [ascii ''docs''] = Inr 3" "resolve_node tree_env tree_volume 2 [] = Inr 2"
  by code_simp+

lemma tree_move: "fst (move_and_rename tree_env 2 2 [ascii ''docs''] [] (ascii ''texts'') tree_volume) = Inr ()"
proof -
  have nodes: "vo_nodes tree_volume 3 = Some (new_node 3 2 (ascii ''docs'') True [ascii ''docs''])"
    "vo_nodes tree_volume 2 = Some (new_node 2 1 (ascii ''Share'') True [])"
    "vo_path_to_id tree_volume [ascii ''texts''] = None"
    by (simp_all add: tree_volume_def ascii_def)
  have name: "join_name [] (afp_name_to_posix_component (ascii ''texts'')) = [ascii ''texts'']" "ascii ''texts'' \<noteq> []" by code_simp+
  have eq: "move_and_rename tree_env 2 2 [ascii ''docs''] [] (ascii ''texts'') tree_volume
    = commit_move tree_env 2 3 (new_node 3 2 (ascii ''docs'') True [ascii ''docs'']) 2 (ascii ''texts'')
        (afp_name_to_posix_component (ascii ''texts'')) [ascii ''texts''] tree_volume"
    by (simp add: move_and_rename_def bind_def resolve_known [OF tree_lookups(1)] resolve_known [OF tree_lookups(2)] look_def reads_def nodes
        new_node_def name Let_def)
  have host: "fst (h_rename (ev_host tree_env) w a b)" for w a b by (simp add: tree_env_def tree_host_def)
  show ?thesis
    unfolding eq commit_move_def Let_def by (simp add: bind_def reads_def try_host_def host_def host desk_def ret_def update_def new_node_def case_prod_beta)
qed

abbreviation tree_renamed :: "(nat, (bytes, bytes) omap, path \<Rightarrow> Metadata option) Volume" where
  "tree_renamed \<equiv> snd (move_and_rename tree_env 2 2 [ascii ''docs''] [] (ascii ''texts'') tree_volume)"

lemma tree_run: "move_and_rename tree_env 2 2 [ascii ''docs''] [] (ascii ''texts'') tree_volume = (Inr (), tree_renamed)"
  using tree_move by (simp add: prod_eq_iff)

lemma tree_nodes:
  "vo_nodes tree_volume 3 = Some (new_node 3 2 (ascii ''docs'') True [ascii ''docs''])"
  "vo_nodes tree_volume 2 = Some (new_node 2 1 (ascii ''Share'') True [])"
  "vo_nodes tree_volume 4 = Some (new_node 4 3 (ascii ''note'') False [ascii ''docs'', ascii ''note''])"
  by (simp_all add: tree_volume_def)

lemma volume_operations_keep_table_witness: "table_ok tree_renamed"
proof -
  have "dir_bound tree_env tree_volume 0" by (simp add: dir_bound_def tree_env_def tree_host_def)
  moreover have "unat (vo_next_id tree_volume) + 2 * 0 + 1 < 2 ^ 32" by (simp add: tree_volume_def)
  ultimately show ?thesis
    using volume_operations_keep_table [OF tree_table_ok, of tree_env 0 _ _ _ _ _ 2 "[ascii ''docs'']" _ 2 "[]" "ascii ''texts''"] by blast
qed

lemma move_takes_subtree_along_witness: "\<exists>n. vo_nodes tree_renamed 4 = Some n \<and> nd_path n = [ascii ''texts'', ascii ''note'']"
proof -
  have name: "join_name [] (afp_name_to_posix_component (ascii ''texts'')) = [ascii ''texts'']" "ascii ''texts'' \<noteq> []" by code_simp+
  from move_takes_subtree_along [OF tree_run tree_order] name show ?thesis
    by (auto simp: resolve_known [OF tree_lookups(1)] resolve_known [OF tree_lookups(2)] tree_nodes new_node_def Let_def followed_def)
qed

lemma folder_move_strands_resource_forks_witness:
  "snd (resolve_resource_fork_path tree_env tree_volume [ascii ''docs'', ascii ''note'']) = 10
   \<and> (\<exists>n. vo_nodes tree_renamed 4 = Some n \<and> nd_path n = [ascii ''texts'', ascii ''note''])
   \<and> snd (resolve_resource_fork_path tree_env tree_renamed [ascii ''texts'', ascii ''note'']) = 0"
proof -
  have new: "[ascii ''texts''] = join_name (nd_path (new_node 2 1 (ascii ''Share'') True [] :: nat Node))
      (afp_name_to_posix_component (if ascii ''texts'' = [] then nd_name (new_node 3 2 (ascii ''docs'') True [ascii ''docs''] :: nat Node) else ascii ''texts''))"
    by code_simp
  have paths: "nd_is_dir (new_node 3 2 (ascii ''docs'') True [ascii ''docs''])"
    "client_path (nd_path (new_node 3 2 (ascii ''docs'') True [ascii ''docs'']))" "client_path [ascii ''texts'']"
    by (simp_all add: new_node_def client_path_def ascii_def)
  have before: "snd (resolve_resource_fork_path tree_env tree_volume [ascii ''docs'', ascii ''note'']) = 10"
    "snd (resolve_resource_fork_path tree_env tree_volume [ascii ''texts'', ascii ''note'']) = 0"
    by (simp_all add: resolve_resource_fork_path_def tree_volume_def volume_new_def tree_env_def tree_host_def rsrc_path_def clamp_len_u32_def ascii_def Let_def)
  note strand = folder_move_strands_resource_forks
    [OF tree_rename_local tree_order tree_lookups(1) tree_nodes(1) paths(1) tree_lookups(2) tree_nodes(2) new paths(2,3) tree_run]
  have "\<exists>n. vo_nodes tree_renamed 4 = Some n \<and> nd_path n = [ascii ''texts''] @ [ascii ''note'']"
    using strand [THEN conjunct2, rule_format, of 4 _ "[ascii ''note'']"] by (simp add: tree_nodes(3)) (simp add: new_node_def)
  with strand before show ?thesis by simp
qed

end
