(* ===== verification/Timed_Machine.thy ===== *)
theory Timed_Machine
  imports TT_Prelude
begin

text \<open>
  The scheduling contract of the sans-io machines of tailtalk-core (src/tailtalk-core/src/lib.rs):
  \<open>next_deadline\<close> says when \<open>poll\<close> next needs calling. A driver that sleeps until then misses
  nothing, because a poll before the deadline neither emits nor changes anything. Every machine
  with a clock interprets the locale on its own \<open>poll\<close> and \<open>next_deadline\<close>.
\<close>

definition before_deadline :: "micros option \<Rightarrow> micros \<Rightarrow> bool" where
  "before_deadline d now = (case d of None \<Rightarrow> True | Some t \<Rightarrow> now < t)"

text \<open>\<open>Iterator::min\<close> of the pending times.\<close>

definition min_deadline :: "micros list \<Rightarrow> micros option" where
  "min_deadline ts = (if ts = [] then None else Some (Min (set ts)))"

lemma min_deadline_before: "before_deadline (min_deadline ts) now \<longleftrightarrow> (\<forall>t\<in>set ts. now < t)"
  by (simp add: before_deadline_def min_deadline_def)

locale timed_machine =
  fixes deadline :: "'s \<Rightarrow> micros option"
    and poll :: "micros \<Rightarrow> 's \<Rightarrow> 'o \<times> 's"
    and quiet :: 'o
    and inv :: "'s \<Rightarrow> bool"
  assumes early_poll: "inv s \<Longrightarrow> before_deadline (deadline s) now \<Longrightarrow> poll now s = (quiet, s)"
begin

fun polls :: "micros list \<Rightarrow> 's \<Rightarrow> 'o list \<times> 's" where
  "polls [] s = ([], s)"
| "polls (t # ts) s = (let (ev, s1) = poll t s; (evs, s2) = polls ts s1 in (ev # evs, s2))"

lemma polls_early:
  assumes "inv s" and "\<forall>t\<in>set ts. before_deadline (deadline s) t"
  shows "polls ts s = (replicate (length ts) quiet, s)"
  using assms by (induction ts) (simp_all add: early_poll)

text \<open>Sleeping until the deadline and polling once gives what polling all along gives.\<close>

lemma sleep_safe:
  assumes "inv s" and "\<forall>t\<in>set ts. before_deadline (deadline s) t"
  shows "polls (ts @ [now]) s = (replicate (length ts) quiet @ [fst (poll now s)], snd (poll now s))"
  using assms by (induction ts) (simp_all add: early_poll split: prod.splits)

end

end
