(* ===== verification/Pkt_Ddp.thy ===== *)
theory Pkt_Ddp
  imports TT_Prelude
begin

text \<open>
  DDP headers: src/tailtalk-packets/src/ddp.rs, the addresses of aarp.rs, and the datagram
  encoder \<open>encode_ddp\<close> of src/tailtalk-core/src/ddp.rs. A parser takes the byte slice and
  returns \<open>Inl\<close> the error or \<open>Inr\<close> the packet; \<open>to_bytes\<close> takes the caller's buffer and returns
  it written, with the count.
\<close>

section \<open>Addresses\<close>

record AppleTalkAddress =
  network_number :: u16
  node_number :: u8

datatype AddressSource = EtherTalkPhase2 | EtherTalkPhase1 | LocalTalk

text \<open>The argument is a four-byte array.\<close>

definition addr_decode :: "bytes \<Rightarrow> AppleTalkAddress" where
  "addr_decode b = \<lparr>network_number = be16 (b ! 1) (b ! 2), node_number = b ! 3\<rparr>"

definition addr_encode :: "AppleTalkAddress \<Rightarrow> bytes" where
  "addr_encode a = 0 # u16_bytes (network_number a) @ [node_number a]"

definition addr_matches :: "AppleTalkAddress \<Rightarrow> AppleTalkAddress \<Rightarrow> AddressSource \<Rightarrow> bool" where
  "addr_matches a other source =
     (case source of
        LocalTalk \<Rightarrow> node_number a = node_number other
      | EtherTalkPhase1 \<Rightarrow> node_number a = node_number other
      | EtherTalkPhase2 \<Rightarrow> a = other)"

lemma addr_decode_encode [simp]: "addr_decode (addr_encode a) = a"
  by (simp add: addr_decode_def addr_encode_def u16_bytes_def numeral_3_eq_3 numeral_2_eq_2)

lemma length_addr_encode [simp]: "length (addr_encode a) = 4"
  by (simp add: addr_encode_def)

section \<open>Protocol types\<close>

datatype DdpProtocolType =
    RtmpResponse | Nbp | Atp | Aep | RtmpRequest | Zip | Adsp | OtherProto u8

definition proto_from_u8 :: "u8 \<Rightarrow> DdpProtocolType" where
  "proto_from_u8 d =
     (if d = 1 then RtmpResponse else if d = 2 then Nbp else if d = 3 then Atp
      else if d = 4 then Aep else if d = 5 then RtmpRequest else if d = 6 then Zip
      else if d = 7 then Adsp else OtherProto d)"

definition proto_to_u8 :: "DdpProtocolType \<Rightarrow> u8" where
  "proto_to_u8 p =
     (case p of RtmpResponse \<Rightarrow> 1 | Nbp \<Rightarrow> 2 | Atp \<Rightarrow> 3 | Aep \<Rightarrow> 4 | RtmpRequest \<Rightarrow> 5
      | Zip \<Rightarrow> 6 | Adsp \<Rightarrow> 7 | OtherProto v \<Rightarrow> v)"

definition proto_wf :: "DdpProtocolType \<Rightarrow> bool" where
  "proto_wf p = (case p of OtherProto v \<Rightarrow> v \<notin> {1, 2, 3, 4, 5, 6, 7} | _ \<Rightarrow> True)"

lemma proto_to_from [simp]: "proto_to_u8 (proto_from_u8 d) = d"
  by (simp add: proto_to_u8_def proto_from_u8_def)

lemma proto_from_to: "proto_wf p \<Longrightarrow> proto_from_u8 (proto_to_u8 p) = p"
  by (cases p) (auto simp: proto_to_u8_def proto_from_u8_def proto_wf_def)

section \<open>The header\<close>

datatype DdpError =
    DdpInvalidSize (ddp_expected: nat) (ddp_found: nat)
  | DdpUnknownHeader u8

record DdpPacket =
  hop_count :: u8
  ddp_len :: nat
  ddp_chksum :: u16
  dest_network_num :: u16
  src_network_num :: u16
  dest_node_id :: u8
  dest_sock_num :: u8
  src_sock_num :: u8
  src_node_id :: u8
  protocol_typ :: DdpProtocolType

definition DDP_LEN :: nat where "DDP_LEN = 13"

definition ddp_calc_len :: "bytes \<Rightarrow> nat" where
  "ddp_calc_len buf = DDP_LEN + length buf - 1"

text \<open>\<open>u16::rotate_left(1)\<close>.\<close>

definition rotate_left_1 :: "u16 \<Rightarrow> u16" where
  "rotate_left_1 w = push_bit 1 w OR drop_bit 15 w"

fun checksum_loop :: "u16 \<Rightarrow> bytes \<Rightarrow> u16" where
  "checksum_loop csum [] = csum"
| "checksum_loop csum (byte # buf) = checksum_loop (rotate_left_1 (csum + ucast byte)) buf"

definition compute_checksum :: "bytes \<Rightarrow> u16" where
  "compute_checksum buf = (let csum = checksum_loop 0 buf in if csum = 0 then 0xFFFF else csum)"

text \<open>The bit fields of the first word: \<open>hop_count\<close> in bits 13 to 10, the length in bits 9 to 0.\<close>

definition ddp_get_hop :: "u8 \<Rightarrow> u8" where
  "ddp_get_hop b0 = drop_bit 2 (b0 AND 0x3C)"

definition ddp_get_len :: "u16 \<Rightarrow> nat" where
  "ddp_get_len w = unat (w AND 0x3FF)"

definition ddp_hop_field :: "u8 \<Rightarrow> u16" where
  "ddp_hop_field h = push_bit 10 (ucast h AND 0xF)"

definition ddp_len_field :: "nat \<Rightarrow> u16" where
  "ddp_len_field n = word_of_nat n AND 0x3FF"

definition ddp_parse :: "bytes \<Rightarrow> DdpError + DdpPacket" where
  "ddp_parse b =
     (if length b < 13 then Inl (DdpInvalidSize 13 (length b))
      else Inr \<lparr>hop_count = ddp_get_hop (b ! 0),
                ddp_len = ddp_get_len (read_u16 b 0),
                ddp_chksum = read_u16 b 2,
                dest_network_num = read_u16 b 4,
                src_network_num = read_u16 b 6,
                dest_node_id = b ! 8,
                dest_sock_num = b ! 10,
                src_sock_num = b ! 11,
                src_node_id = b ! 9,
                protocol_typ = proto_from_u8 (b ! 12)\<rparr>)"

definition ddp_parse_short :: "bytes \<Rightarrow> u8 \<Rightarrow> u8 \<Rightarrow> DdpError + DdpPacket" where
  "ddp_parse_short b dst_node src_node =
     (if length b < 5 then Inl (DdpInvalidSize 5 (length b))
      else Inr \<lparr>hop_count = 0,
                ddp_len = ddp_get_len (read_u16 b 0),
                ddp_chksum = 0,
                dest_network_num = 0,
                src_network_num = 0,
                dest_node_id = dst_node,
                dest_sock_num = b ! 2,
                src_sock_num = b ! 3,
                src_node_id = src_node,
                protocol_typ = proto_from_u8 (b ! 4)\<rparr>)"

text \<open>The bytes of a header; \<open>to_bytes\<close> writes them at the start of a buffer that can hold them.\<close>

definition ddp_header :: "DdpPacket \<Rightarrow> bytes" where
  "ddp_header p =
     u16_bytes (ddp_hop_field (hop_count p) OR ddp_len_field (ddp_len p))
     @ u16_bytes (ddp_chksum p) @ u16_bytes (dest_network_num p) @ u16_bytes (src_network_num p)
     @ [dest_node_id p, src_node_id p, dest_sock_num p, src_sock_num p, proto_to_u8 (protocol_typ p)]"

definition ddp_to_bytes :: "DdpPacket \<Rightarrow> bytes \<Rightarrow> DdpError + nat \<times> bytes" where
  "ddp_to_bytes p buf =
     (if length buf < 13 then Inl (DdpInvalidSize 13 (length buf))
      else Inr (13, put 0 (ddp_header p) buf))"

definition ddp_short_header :: "DdpPacket \<Rightarrow> bytes" where
  "ddp_short_header p =
     u16_bytes (ddp_len_field (ddp_len p))
     @ [dest_sock_num p, src_sock_num p, proto_to_u8 (protocol_typ p)]"

definition ddp_to_bytes_short :: "DdpPacket \<Rightarrow> bytes \<Rightarrow> DdpError + nat \<times> bytes" where
  "ddp_to_bytes_short p buf =
     (if length buf < 5 then Inl (DdpInvalidSize 5 (length buf))
      else Inr (5, put 0 (ddp_short_header p) buf))"

section \<open>Encoding a datagram\<close>

definition MAX_DDP_PAYLOAD :: nat where "MAX_DDP_PAYLOAD = 586"

definition encode_ddp ::
  "bool \<Rightarrow> AppleTalkAddress \<Rightarrow> u8 \<Rightarrow> AppleTalkAddress \<Rightarrow> u8 \<Rightarrow> DdpProtocolType \<Rightarrow> bytes \<Rightarrow> bytes option" where
  "encode_ddp use_short src src_socket dest dest_socket proto payload =
     (let header_len = (if use_short then 5 else DDP_LEN);
          headers = \<lparr>hop_count = 0, ddp_len = length payload + header_len, ddp_chksum = 0,
            dest_network_num = network_number dest, src_network_num = network_number src,
            dest_node_id = node_number dest, dest_sock_num = dest_socket,
            src_sock_num = src_socket, src_node_id = node_number src, protocol_typ = proto\<rparr>;
          buf = replicate (header_len + length payload) 0
      in if use_short
         then (case ddp_to_bytes_short headers buf of
                 Inl _ \<Rightarrow> None
               | Inr (written, b) \<Rightarrow> Some (put written payload b))
         else (case ddp_to_bytes headers buf of
                 Inl _ \<Rightarrow> None
               | Inr (n, b) \<Rightarrow>
                   (let b1 = (b[2 := 0])[3 := 0];
                        b2 = put n payload b1;
                        chksum = compute_checksum (drop 4 b2)
                    in Some ((b2[2 := ucast (drop_bit 8 chksum)])[3 := ucast (chksum AND 0xFF)]))))"

text \<open>\<open>None\<close> above is the panic of \<open>expect\<close>; it never happens (\<open>encode_ddp_long\<close>, \<open>encode_ddp_short\<close>).\<close>

section \<open>Round trips\<close>

definition ddp_wf :: "DdpPacket \<Rightarrow> bool" where
  "ddp_wf p \<longleftrightarrow> hop_count p < 16 \<and> ddp_len p < 1024 \<and> proto_wf (protocol_typ p)"

lemma bit_and_mask: "bit (w AND mask k) n \<longleftrightarrow> n < k \<and> bit w n" for w :: "'a::len word"
  by (auto simp: bit_simps dest: bit_imp_le_length)

lemma mask_numerals: "0x3FF = (mask 10 :: u16)" "0xF = (mask 4 :: u16)" "0x3C = (push_bit 2 (mask 4) :: u8)"
  by (simp_all add: mask_eq_exp_minus_1)

lemma bit_hop_field: "bit (ddp_hop_field h) n \<longleftrightarrow> 10 \<le> n \<and> n < 14 \<and> bit h (n - 10)"
  unfolding ddp_hop_field_def mask_numerals
  by (subst bit_push_bit_iff) (auto simp only: bit_and_mask bit_ucast_iff, auto dest: bit_lengthD)

lemma bit_len_field: "bit (ddp_len_field l) n \<longleftrightarrow> n < 10 \<and> bit l n"
  unfolding ddp_len_field_def mask_numerals by (auto simp only: bit_and_mask bit_of_nat_iff) simp_all

lemma bit_get_hop: "bit (ddp_get_hop b) n \<longleftrightarrow> n < 4 \<and> bit b (n + 2)"
  unfolding ddp_get_hop_def mask_numerals
  by (auto simp only: bit_drop_bit_eq bit_and_iff bit_push_bit_iff bit_mask_iff comp_def)
    (auto simp: ac_simps dest: bit_lengthD)

lemma get_len_or_hop: "ddp_get_len (ddp_hop_field h OR w) = ddp_get_len w"
proof -
  have "(ddp_hop_field h OR w) AND mask 10 = w AND mask 10"
    by (rule bit_word_eqI) (auto simp only: bit_and_mask bit_or_iff bit_hop_field)
  then show ?thesis by (simp only: ddp_get_len_def mask_numerals)
qed

lemma get_len_field: "n < 1024 \<Longrightarrow> ddp_get_len (ddp_len_field n) = n"
proof -
  assume n: "n < 1024"
  have "ddp_len_field n AND mask 10 = word_of_nat n"
    using n bit_nat_less [of n 10] by (intro bit_word_eqI) (auto simp: bit_and_mask bit_len_field bit_of_nat_iff)
  then show ?thesis unfolding ddp_get_len_def mask_numerals using n by (simp add: unat_of_nat)
qed

lemma nibble_bits: "h < 16 \<Longrightarrow> bit (h :: u8) n \<Longrightarrow> n < 4"
  using bit_word_less [of h 4 n] by (simp add: word_less_nat_alt)

lemma get_hop_field: "h < 16 \<Longrightarrow> ddp_get_hop (hi8 (ddp_hop_field h OR ddp_len_field l)) = h"
  by (rule bit_word_eqI)
    (auto simp: bit_get_hop hi8_def bit_simps bit_hop_field bit_len_field dest: nibble_bits)

lemma read_u16_hit [byte_simps, simp]: "read_u16 (u16_bytes w @ rest) 0 = w"
  by (simp add: read_u16_def u16_bytes_def)

lemma ddp_parse_header:
  assumes "ddp_wf p"
  shows "ddp_parse (ddp_header p @ payload) = Inr p"
  using assms
  by (simp add: ddp_parse_def ddp_header_def u16_bytes_def read_u16_def ddp_wf_def get_hop_field
      get_len_or_hop get_len_field proto_from_to)

lemma length_ddp_header [simp]: "length (ddp_header p) = 13"
  by (simp add: ddp_header_def)

lemma length_ddp_short_header [simp]: "length (ddp_short_header p) = 5"
  by (simp add: ddp_short_header_def)

interpretation ddp_codec: header_codec 13 ddp_header ddp_parse ddp_wf
  by unfold_locales (simp_all add: ddp_parse_header)

text \<open>What the short form keeps of a packet.\<close>

definition ddp_short_wf :: "DdpPacket \<Rightarrow> bool" where
  "ddp_short_wf p \<longleftrightarrow> hop_count p = 0 \<and> ddp_chksum p = 0 \<and> dest_network_num p = 0 \<and> src_network_num p = 0
     \<and> ddp_len p < 1024 \<and> proto_wf (protocol_typ p)"

lemma ddp_parse_short_header:
  assumes "ddp_short_wf p"
  shows "ddp_parse_short (ddp_short_header p @ payload) (dest_node_id p) (src_node_id p) = Inr p"
  using assms
  by (simp add: ddp_parse_short_def ddp_short_header_def u16_bytes_def read_u16_def ddp_short_wf_def
      get_len_field proto_from_to)

section \<open>The encoded datagram\<close>

text \<open>The header \<open>encode_ddp\<close> describes, with a given checksum field.\<close>

definition ddp_out_header ::
  "nat \<Rightarrow> AppleTalkAddress \<Rightarrow> u8 \<Rightarrow> AppleTalkAddress \<Rightarrow> u8 \<Rightarrow> DdpProtocolType \<Rightarrow> u16 \<Rightarrow> DdpPacket" where
  "ddp_out_header len src src_socket dest dest_socket proto chksum =
     \<lparr>hop_count = 0, ddp_len = len, ddp_chksum = chksum, dest_network_num = network_number dest,
      src_network_num = network_number src, dest_node_id = node_number dest,
      dest_sock_num = dest_socket, src_sock_num = src_socket, src_node_id = node_number src,
      protocol_typ = proto\<rparr>"

lemma ddp_header_chksum:
  "((ddp_header (ddp_out_header len src ss dest ds proto 0) @ rest)[2 := ucast (drop_bit 8 c)])[3 := ucast (c AND 0xFF)]
    = ddp_header (ddp_out_header len src ss dest ds proto c) @ rest"
proof -
  have "(0xFF :: u16) = mask 8" by (simp add: mask_eq_exp_minus_1)
  then have "ucast (c AND 0xFF) = lo8 c"
    by (simp only:) (rule bit_word_eqI, simp only: lo8_def bit_ucast_iff bit_and_mask, simp)
  then show ?thesis
    by (simp add: ddp_header_def ddp_out_header_def u16_bytes_def hi8_def numeral_2_eq_2 numeral_3_eq_3)
qed

lemma put_at: "n = length h \<Longrightarrow> length rest = length d \<Longrightarrow> put n d (h @ rest) = h @ d"
  by (simp add: put_def)

lemma encode_ddp_long:
  "encode_ddp False src ss dest ds proto payload =
    (let h = ddp_out_header (length payload + 13) src ss dest ds proto;
         c = compute_checksum (drop 4 (ddp_header (h 0) @ payload))
     in Some (ddp_header (h c) @ payload))"
proof -
  let ?h = "ddp_out_header (length payload + 13) src ss dest ds proto"
  have z: "((ddp_header (?h 0) @ rest)[2 := 0])[3 := 0] = ddp_header (?h 0) @ rest" for rest
    using ddp_header_chksum [of "length payload + 13" src ss dest ds proto rest 0] by simp
  have b: "put 0 (ddp_header (?h 0)) (replicate (13 + length payload) 0)
      = ddp_header (?h 0) @ replicate (length payload) 0"
    by (simp add: put_0)
  have "encode_ddp False src ss dest ds proto payload =
    (let b2 = put 13 payload (((put 0 (ddp_header (?h 0)) (replicate (13 + length payload) 0))[2 := 0])[3 := 0]);
         c = compute_checksum (drop 4 b2)
     in Some ((b2[2 := ucast (drop_bit 8 c)])[3 := ucast (c AND 0xFF)]))"
    by (simp add: encode_ddp_def ddp_to_bytes_def DDP_LEN_def ddp_out_header_def Let_def)
  also have "\<dots> = (let c = compute_checksum (drop 4 (ddp_header (?h 0) @ payload))
     in Some (ddp_header (?h c) @ payload))"
    by (simp only: b z Let_def put_at [of 13 "ddp_header (?h 0)"] length_ddp_header length_replicate
        ddp_header_chksum)
  finally show ?thesis by (simp only: Let_def)
qed

lemma encode_ddp_short:
  "encode_ddp True src ss dest ds proto payload =
    Some (ddp_short_header (ddp_out_header (length payload + 5) src ss dest ds proto 0) @ payload)"
  by (simp add: encode_ddp_def ddp_to_bytes_short_def ddp_out_header_def Let_def put_0 put_at)

lemma drop_4_header: "drop 4 (ddp_header (p\<lparr>ddp_chksum := c\<rparr>) @ r) = drop 4 (ddp_header p @ r)"
  by (simp add: ddp_header_def u16_bytes_def)

section \<open>The checksum\<close>

lemma rotate_left_1_inverse: "drop_bit 1 (rotate_left_1 w) OR push_bit 15 (rotate_left_1 w) = w"
proof (rule bit_word_eqI)
  fix n assume "n < LENGTH(16)"
  then have "n < 15 \<or> n = 15" by auto
  then show "bit (drop_bit 1 (rotate_left_1 w) OR push_bit 15 (rotate_left_1 w)) n = bit w n"
    unfolding rotate_left_1_def bit_or_iff bit_push_bit_iff bit_drop_bit_eq comp_def
    by (elim disjE) (auto dest: bit_u16D)
qed

lemma rotl_inj: "rotate_left_1 x = rotate_left_1 y \<longleftrightarrow> x = y"
proof
  assume eq: "rotate_left_1 x = rotate_left_1 y"
  show "x = y" using rotate_left_1_inverse [of x] unfolding eq rotate_left_1_inverse [of y] ..
qed simp

lemma checksum_loop_append: "checksum_loop c (xs @ ys) = checksum_loop (checksum_loop c xs) ys"
  by (induction c xs rule: checksum_loop.induct) simp_all

lemma checksum_loop_inj: "checksum_loop c xs = checksum_loop d xs \<longleftrightarrow> c = d"
  by (induction xs arbitrary: c d) (simp_all add: rotl_inj)

lemma ucast_u8_inj: "(ucast a :: u16) = ucast b \<longleftrightarrow> a = b" for a b :: u8
  by (auto simp: bit_eq_iff bit_simps dest: bit_u8D)

lemma checksum_loop_byte:
  "checksum_loop c (pre @ [a] @ post) = checksum_loop c (pre @ [b] @ post) \<longleftrightarrow> a = b"
  by (simp add: checksum_loop_append checksum_loop_inj rotl_inj ucast_u8_inj)

lemma compute_checksum_nonzero: "compute_checksum buf \<noteq> 0"
  by (simp add: compute_checksum_def Let_def)

section \<open>Properties\<close>

text \<open>Whatever the caller sends, \<open>encode_ddp\<close> builds a datagram that the receiver's
  parser reads back: with the long header the addresses, sockets, protocol and total length are
  the ones given, the checksum field is never 0 and is the checksum of everything after it, and
  the payload follows untouched; with the short header the sockets, protocol and length are,
  and the nodes are the ones of the link frame.\<close>

theorem encode_ddp_parses:
  assumes "length payload \<le> MAX_DDP_PAYLOAD" and "proto_wf proto"
  shows "\<exists>out p. encode_ddp False src ss dest ds proto payload = Some out \<and> ddp_parse out = Inr p
      \<and> p = ddp_out_header (length out) src ss dest ds proto (compute_checksum (drop 4 out))
      \<and> ddp_chksum p \<noteq> 0 \<and> drop 13 out = payload
      \<and> encode_ddp True src ss dest ds proto payload = Some (take 5 (ddp_short_header (p\<lparr>ddp_len := length payload + 5\<rparr>)) @ payload)
      \<and> ddp_parse_short (ddp_short_header (p\<lparr>ddp_len := length payload + 5\<rparr>) @ payload) (node_number dest) (node_number src)
        = Inr (p\<lparr>ddp_len := length payload + 5, ddp_chksum := 0, dest_network_num := 0, src_network_num := 0\<rparr>)"
proof -
  let ?h = "ddp_out_header (length payload + 13) src ss dest ds proto"
  let ?c = "compute_checksum (drop 4 (ddp_header (?h 0) @ payload))"
  let ?out = "ddp_header (?h ?c) @ payload"
  let ?s = "(?h ?c)\<lparr>ddp_len := length payload + 5, ddp_chksum := 0, dest_network_num := 0, src_network_num := 0\<rparr>"
  have h: "?h ?c = (?h 0)\<lparr>ddp_chksum := ?c\<rparr>" by (simp only: ddp_out_header_def) simp
  have d4: "drop 4 ?out = drop 4 (ddp_header (?h 0) @ payload)" by (subst h) (rule drop_4_header)
  have len: "length ?out = length payload + 13" by simp
  have wf: "ddp_wf (?h ?c)" and swf: "ddp_short_wf ?s"
    using assms by (simp_all add: ddp_wf_def ddp_short_wf_def ddp_out_header_def MAX_DDP_PAYLOAD_def)
  have sh: "ddp_short_header ((?h ?c)\<lparr>ddp_len := length payload + 5\<rparr>) = ddp_short_header ?s"
    "ddp_short_header (ddp_out_header (length payload + 5) src ss dest ds proto 0) = ddp_short_header ?s"
    by (simp_all add: ddp_short_header_def ddp_out_header_def)
  have n: "dest_node_id ?s = node_number dest" "src_node_id ?s = node_number src"
    by (simp_all add: ddp_out_header_def)
  have short: "encode_ddp True src ss dest ds proto payload = Some (take 5 (ddp_short_header ?s) @ payload)"
    by (simp add: encode_ddp_short sh(2))
  show ?thesis
  proof (intro exI conjI)
    show "encode_ddp False src ss dest ds proto payload = Some ?out"
      by (simp only: encode_ddp_long Let_def)
    show "ddp_parse ?out = Inr (?h ?c)" by (rule ddp_parse_header [OF wf])
    show "?h ?c = ddp_out_header (length ?out) src ss dest ds proto (compute_checksum (drop 4 ?out))"
      by (simp only: d4 len)
    show "ddp_chksum (?h ?c) \<noteq> 0" by (simp only: ddp_out_header_def DdpPacket.simps) (rule compute_checksum_nonzero)
    show "drop 13 ?out = payload" by simp
    show "encode_ddp True src ss dest ds proto payload =
      Some (take 5 (ddp_short_header ((?h ?c)\<lparr>ddp_len := length payload + 5\<rparr>)) @ payload)"
      by (simp only: short sh)
    show "ddp_parse_short (ddp_short_header ((?h ?c)\<lparr>ddp_len := length payload + 5\<rparr>) @ payload)
        (node_number dest) (node_number src) = Inr ?s"
      using ddp_parse_short_header [OF swf, of payload] by (simp only: sh n)
  qed
qed

theorem encode_ddp_parses_witness:
  "\<exists>out p. encode_ddp False \<lparr>network_number = 3, node_number = 7\<rparr> 200 \<lparr>network_number = 9, node_number = 1\<rparr> 4 Aep [1, 2] = Some out
    \<and> ddp_parse out = Inr p \<and> dest_node_id p = 1 \<and> ddp_chksum p \<noteq> 0 \<and> drop 13 out = [1, 2]"
proof -
  have "length [1, 2 :: u8] \<le> MAX_DDP_PAYLOAD" "proto_wf Aep"
    by (simp_all add: MAX_DDP_PAYLOAD_def proto_wf_def)
  from encode_ddp_parses [OF this, of "\<lparr>network_number = 3, node_number = 7\<rparr>" 200 "\<lparr>network_number = 9, node_number = 1\<rparr>" 4]
  show ?thesis by (elim exE conjE) (intro exI conjI, assumption+, simp_all add: ddp_out_header_def)
qed

text \<open>The DDP checksum detects the corruption of any single byte, except for the one
  collision the encoding of zero introduces: two data areas that differ in one byte have equal
  checksums only if their raw sums are 0 and 0xFFFF.\<close>

theorem ddp_checksum_single_byte:
  assumes "a \<noteq> b" and "compute_checksum (pre @ [a] @ post) = compute_checksum (pre @ [b] @ post)"
  shows "{checksum_loop 0 (pre @ [a] @ post), checksum_loop 0 (pre @ [b] @ post)} = {0, 0xFFFF}"
  using assms checksum_loop_byte [of 0 pre a post b]
  by (auto simp: compute_checksum_def Let_def split: if_splits)

theorem ddp_checksum_single_byte_witness:
  "compute_checksum ([] @ [0] @ [0xFF, 0xFF]) \<noteq> compute_checksum ([] @ [1] @ [0xFF, 0xFF])"
proof
  assume eq: "compute_checksum ([] @ [0] @ [0xFF, 0xFF]) = compute_checksum ([] @ [1] @ [0xFF, 0xFF])"
  from ddp_checksum_single_byte [OF _ eq] have
    "{checksum_loop 0 ([] @ [0] @ [0xFF, 0xFF]), checksum_loop 0 ([] @ [1] @ [0xFF, 0xFF])} = {0, 0xFFFF}"
    by simp
  then show False
    by (simp add: rotate_left_1_def doubleton_eq_iff)
qed

end
