(* ===== verification/Pkt_Link.thy ===== *)
theory Pkt_Link
  imports Pkt_Ddp
begin

text \<open>
  Link-layer headers of src/tailtalk-packets/src: LocalTalk frames (llap.rs), EtherTalk Phase 2
  frames (ethertalk.rs) and AARP packets (aarp.rs).
\<close>

section \<open>LLAP\<close>

datatype LlapType = DdpShort | DdpLong | Enquiry | Acknowledge | LlapOther u8

definition llap_from_u8 :: "u8 \<Rightarrow> LlapType" where
  "llap_from_u8 orig =
     (if orig = 1 then DdpShort else if orig = 2 then DdpLong else if orig = 0x81 then Enquiry
      else if orig = 0x82 then Acknowledge else LlapOther orig)"

definition llap_to_u8 :: "LlapType \<Rightarrow> u8" where
  "llap_to_u8 t =
     (case t of DdpShort \<Rightarrow> 1 | DdpLong \<Rightarrow> 2 | Enquiry \<Rightarrow> 0x81 | Acknowledge \<Rightarrow> 0x82 | LlapOther n \<Rightarrow> n)"

record LlapPacket =
  llap_dst :: u8
  llap_src :: u8
  llap_typ :: LlapType

datatype LlapError = LlapTooShort

definition llap_parse :: "bytes \<Rightarrow> LlapError + LlapPacket" where
  "llap_parse buf =
     (if length buf < 3 then Inl LlapTooShort
      else Inr \<lparr>llap_dst = buf ! 0, llap_src = buf ! 1, llap_typ = llap_from_u8 (buf ! 2)\<rparr>)"

definition llap_header :: "LlapPacket \<Rightarrow> bytes" where
  "llap_header p = [llap_dst p, llap_src p, llap_to_u8 (llap_typ p)]"

definition llap_to_bytes :: "LlapPacket \<Rightarrow> bytes \<Rightarrow> LlapError + nat \<times> bytes" where
  "llap_to_bytes p buf =
     (if length buf < 3 then Inl LlapTooShort else Inr (3, put 0 (llap_header p) buf))"

definition llap_wf :: "LlapPacket \<Rightarrow> bool" where
  "llap_wf p = (case llap_typ p of LlapOther n \<Rightarrow> n \<notin> {1, 2, 0x81, 0x82} | _ \<Rightarrow> True)"

lemma llap_from_to: "llap_wf p \<Longrightarrow> llap_from_u8 (llap_to_u8 (llap_typ p)) = llap_typ p"
  by (cases "llap_typ p") (auto simp: llap_wf_def llap_from_u8_def llap_to_u8_def)

interpretation llap_codec: header_codec 3 llap_header llap_parse llap_wf
  by unfold_locales (simp_all add: llap_header_def llap_parse_def llap_from_to)

section \<open>EtherTalk Phase 2\<close>

datatype EtherTalkPhase2Type = EtAarp | EtDdp

record EtherTalkPhase2Frame =
  dst_mac :: bytes
  src_mac :: bytes
  et_len :: u16
  et_protocol :: EtherTalkPhase2Type

datatype EtherTalkError = EtInvalidSize nat | EtNotSNAP | EtUnknownHeader

definition LLC_LEN :: nat where "LLC_LEN = 8"
definition FRAME_LEN :: nat where "FRAME_LEN = 22"
definition SNAP_MARKER :: bytes where "SNAP_MARKER = [0xAA, 0xAA, 0x03]"
definition AARP_OUI :: bytes where "AARP_OUI = [0x00, 0x00, 0x00, 0x80, 0xF3]"
definition DDP_OUI :: bytes where "DDP_OUI = [0x08, 0x00, 0x07, 0x80, 0x9B]"

definition et_oui :: "EtherTalkPhase2Type \<Rightarrow> bytes" where
  "et_oui t = (case t of EtAarp \<Rightarrow> AARP_OUI | EtDdp \<Rightarrow> DDP_OUI)"

definition et_header :: "EtherTalkPhase2Frame \<Rightarrow> bytes" where
  "et_header f = dst_mac f @ src_mac f @ u16_bytes (et_len f) @ SNAP_MARKER @ et_oui (et_protocol f)"

definition et_to_bytes :: "EtherTalkPhase2Frame \<Rightarrow> bytes \<Rightarrow> EtherTalkError + nat \<times> bytes" where
  "et_to_bytes f buf =
     (if length buf < FRAME_LEN then Inl (EtInvalidSize (length buf))
      else Inr (FRAME_LEN, put 0 (et_header f) buf))"

text \<open>\<open>buf[off..off + len]\<close>.\<close>

definition slice :: "nat \<Rightarrow> nat \<Rightarrow> 'a list \<Rightarrow> 'a list" where
  "slice off len buf = take len (drop off buf)"

text \<open>The parsed length is the constant 10 of the code, whatever the frame carries.\<close>

definition et_parse :: "bytes \<Rightarrow> EtherTalkError + EtherTalkPhase2Frame" where
  "et_parse buf =
     (if length buf < FRAME_LEN then Inl (EtInvalidSize (length buf))
      else if slice 14 3 buf \<noteq> SNAP_MARKER then Inl EtNotSNAP
      else if slice 17 5 buf = AARP_OUI
      then Inr \<lparr>dst_mac = slice 0 6 buf, src_mac = slice 6 6 buf, et_len = 10, et_protocol = EtAarp\<rparr>
      else if slice 17 5 buf = DDP_OUI
      then Inr \<lparr>dst_mac = slice 0 6 buf, src_mac = slice 6 6 buf, et_len = 10, et_protocol = EtDdp\<rparr>
      else Inl EtUnknownHeader)"

definition et_wf :: "EtherTalkPhase2Frame \<Rightarrow> bool" where
  "et_wf f \<longleftrightarrow> length (dst_mac f) = 6 \<and> length (src_mac f) = 6 \<and> et_len f = 10"

lemma slice_here: "off = length a \<Longrightarrow> len = length b \<Longrightarrow> slice off len (a @ b @ c) = b"
  by (simp add: slice_def)

lemma slice_take: "len = length b \<Longrightarrow> slice 0 len (b @ c) = b"
  by (simp add: slice_def)

lemma et_oui_simps: "et_oui EtAarp = AARP_OUI" "et_oui EtDdp = DDP_OUI"
  by (simp_all add: et_oui_def)

lemma oui_distinct: "DDP_OUI \<noteq> AARP_OUI" "(DDP_OUI = AARP_OUI) = False"
  by (simp_all add: DDP_OUI_def AARP_OUI_def)

lemma length_et_oui: "length (et_oui t) = 5"
  by (cases t) (simp_all add: et_oui_simps AARP_OUI_def DDP_OUI_def)

lemma et_parse_header_len:
  assumes "length (dst_mac f) = 6" and "length (src_mac f) = 6"
  shows "et_parse (et_header f @ rest) = Inr (f\<lparr>et_len := 10\<rparr>)"
proof -
  let ?b = "et_header f @ rest" and ?oui = "et_oui (et_protocol f)"
  have b: "?b = dst_mac f @ src_mac f @ (u16_bytes (et_len f) @ SNAP_MARKER @ ?oui @ rest)"
    "?b = (dst_mac f @ src_mac f @ u16_bytes (et_len f)) @ SNAP_MARKER @ (?oui @ rest)"
    "?b = (dst_mac f @ src_mac f @ u16_bytes (et_len f) @ SNAP_MARKER) @ ?oui @ rest"
    by (simp_all only: et_header_def append_assoc)
  have 1: "slice 14 3 ?b = SNAP_MARKER"
    unfolding b(2) using assms by (intro slice_here) (simp_all add: SNAP_MARKER_def)
  have 2: "slice 17 5 ?b = ?oui"
    unfolding b(3) using assms length_et_oui by (intro slice_here) (simp_all add: SNAP_MARKER_def)
  have 3: "slice 0 6 ?b = dst_mac f" "slice 6 6 ?b = src_mac f"
    unfolding b(1) using assms by (simp_all add: slice_take slice_here)
  have 4: "\<not> length ?b < FRAME_LEN"
    unfolding b(1) using assms length_et_oui by (simp add: SNAP_MARKER_def FRAME_LEN_def)
  have 5: "f\<lparr>et_len := 10\<rparr> = \<lparr>dst_mac = dst_mac f, src_mac = src_mac f, et_len = 10, et_protocol = et_protocol f\<rparr>"
    by (cases f) simp
  show ?thesis
    by (cases "et_protocol f") (simp_all only: et_parse_def 1 2 3 4 5 if_False if_True simp_thms et_oui_simps oui_distinct)
qed

lemma length_et_header:
  "length (dst_mac f) = 6 \<Longrightarrow> length (src_mac f) = 6 \<Longrightarrow> length (et_header f) = FRAME_LEN"
  by (simp add: et_header_def SNAP_MARKER_def et_oui_def AARP_OUI_def DDP_OUI_def FRAME_LEN_def
      split: EtherTalkPhase2Type.splits)

interpretation et_codec: header_codec FRAME_LEN et_header et_parse et_wf
proof unfold_locales
  fix p payload assume "et_wf p"
  then show "length (et_header p) = FRAME_LEN" by (simp add: et_wf_def length_et_header)
  from \<open>et_wf p\<close> show "et_parse (et_header p @ payload) = Inr p"
    by (cases p) (simp add: et_wf_def et_parse_header_len)
qed

section \<open>AARP\<close>

datatype AarpOpcode = AarpRequest | AarpResponse | AarpProbe

definition aarp_opcode_u16 :: "AarpOpcode \<Rightarrow> u16" where
  "aarp_opcode_u16 c = (case c of AarpRequest \<Rightarrow> 1 | AarpResponse \<Rightarrow> 2 | AarpProbe \<Rightarrow> 3)"

datatype AarpError = AarpInvalidSize | AarpUnknownOpcode u16 | AarpUnsupportedHardwareSize u8

record AarpPacket =
  hardware_type :: u16
  protocol_type :: u16
  hardware_size :: u8
  protocol_size :: u8
  aarp_opcode :: AarpOpcode
  sender_addr :: bytes
  sender_protocol :: AppleTalkAddress
  target_addr :: bytes
  target_protocol :: AppleTalkAddress

definition AARP_LEN :: nat where "AARP_LEN = 28"

definition aarp_parse :: "bytes \<Rightarrow> AarpError + AarpPacket" where
  "aarp_parse buf =
     (if length buf < AARP_LEN then Inl AarpInvalidSize
      else
        (case (if read_u16 buf 6 = 1 then Inr AarpRequest
               else if read_u16 buf 6 = 2 then Inr AarpResponse
               else if read_u16 buf 6 = 3 then Inr AarpProbe
               else Inl (AarpUnknownOpcode (read_u16 buf 6))) of
           Inl e \<Rightarrow> Inl e
         | Inr opcode \<Rightarrow>
             (if buf ! 4 \<noteq> 6 then Inl (AarpUnsupportedHardwareSize (buf ! 4))
              else Inr \<lparr>hardware_type = read_u16 buf 0, protocol_type = read_u16 buf 2,
                        hardware_size = buf ! 4, protocol_size = buf ! 5, aarp_opcode = opcode,
                        sender_addr = slice 8 6 buf, sender_protocol = addr_decode (slice 14 4 buf),
                        target_addr = slice 18 6 buf, target_protocol = addr_decode (slice 24 4 buf)\<rparr>)))"

definition aarp_bytes :: "AarpPacket \<Rightarrow> bytes" where
  "aarp_bytes p =
     u16_bytes (hardware_type p) @ u16_bytes (protocol_type p) @ [hardware_size p, protocol_size p]
     @ u16_bytes (aarp_opcode_u16 (aarp_opcode p)) @ sender_addr p @ addr_encode (sender_protocol p)
     @ target_addr p @ addr_encode (target_protocol p)"

text \<open>The code indexes the caller's buffer without a check: \<open>None\<close> is its panic.\<close>

definition aarp_to_bytes :: "AarpPacket \<Rightarrow> bytes \<Rightarrow> (nat \<times> bytes) option" where
  "aarp_to_bytes p buf = (if length buf < AARP_LEN then None else Some (AARP_LEN, put 0 (aarp_bytes p) buf))"

definition aarp_wf :: "AarpPacket \<Rightarrow> bool" where
  "aarp_wf p \<longleftrightarrow> hardware_size p = 6 \<and> length (sender_addr p) = 6 \<and> length (target_addr p) = 6"

lemma length_aarp_bytes: "aarp_wf p \<Longrightarrow> length (aarp_bytes p) = AARP_LEN"
  by (simp add: aarp_bytes_def aarp_wf_def AARP_LEN_def)

lemma aarp_parse_bytes:
  assumes "aarp_wf p"
  shows "aarp_parse (aarp_bytes p @ rest) = Inr p"
proof -
  let ?h = "u16_bytes (hardware_type p) @ u16_bytes (protocol_type p) @ [hardware_size p, protocol_size p]
     @ u16_bytes (aarp_opcode_u16 (aarp_opcode p))"
  let ?b = "aarp_bytes p @ rest"
  have len: "length (sender_addr p) = 6" "length (target_addr p) = 6" "hardware_size p = 6"
    using assms by (simp_all add: aarp_wf_def)
  have b: "?b = ?h @ sender_addr p @ (addr_encode (sender_protocol p) @ target_addr p @ addr_encode (target_protocol p) @ rest)"
    "?b = (?h @ sender_addr p) @ addr_encode (sender_protocol p) @ (target_addr p @ addr_encode (target_protocol p) @ rest)"
    "?b = (?h @ sender_addr p @ addr_encode (sender_protocol p)) @ target_addr p @ (addr_encode (target_protocol p) @ rest)"
    "?b = (?h @ sender_addr p @ addr_encode (sender_protocol p) @ target_addr p) @ addr_encode (target_protocol p) @ rest"
    by (simp_all only: aarp_bytes_def append_assoc)
  have s1: "slice 8 6 ?b = sender_addr p" unfolding b(1) using len by (intro slice_here) simp_all
  have s2: "slice 14 4 ?b = addr_encode (sender_protocol p)"
    unfolding b(2) using len by (intro slice_here) simp_all
  have s3: "slice 18 6 ?b = target_addr p" unfolding b(3) using len by (intro slice_here) simp_all
  have s4: "slice 24 4 ?b = addr_encode (target_protocol p)"
    unfolding b(4) using len by (intro slice_here) simp_all
  have f: "read_u16 ?b 0 = hardware_type p" "read_u16 ?b 2 = protocol_type p" "?b ! 4 = hardware_size p"
    "?b ! 5 = protocol_size p" "read_u16 ?b 6 = aarp_opcode_u16 (aarp_opcode p)"
    by (simp_all add: aarp_bytes_def u16_bytes_def read_u16_def)
  have l: "\<not> length ?b < AARP_LEN" using length_aarp_bytes [OF assms] by simp
  have p: "p = \<lparr>hardware_type = hardware_type p, protocol_type = protocol_type p,
      hardware_size = hardware_size p, protocol_size = protocol_size p, aarp_opcode = aarp_opcode p,
      sender_addr = sender_addr p, sender_protocol = sender_protocol p,
      target_addr = target_addr p, target_protocol = target_protocol p\<rparr>" by (cases p) simp
  have op: "(if aarp_opcode_u16 c = 1 then Inr AarpRequest
      else if aarp_opcode_u16 c = 2 then Inr AarpResponse
      else if aarp_opcode_u16 c = 3 then Inr AarpProbe
      else Inl (AarpUnknownOpcode (aarp_opcode_u16 c))) = Inr c" for c
    by (cases c) (simp_all add: aarp_opcode_u16_def)
  show ?thesis
    by (subst p) (simp only: aarp_parse_def s1 s2 s3 s4 f l len op sum.case if_False simp_thms addr_decode_encode)
qed

interpretation aarp_codec: header_codec AARP_LEN aarp_bytes aarp_parse aarp_wf
  by unfold_locales (simp_all add: length_aarp_bytes aarp_parse_bytes)

end
