(* ===== verification/Pkt_Transport.thy ===== *)
theory Pkt_Transport
  imports Pkt_Link
begin

text \<open>
  Transport headers of src/tailtalk-packets/src: AEP (aep.rs), ATP (atp.rs), ASP (asp.rs), PAP
  (pap.rs) and ADSP (adsp.rs), each with an interpretation of the header contract.
\<close>

section \<open>AEP\<close>

datatype AepFunction = AepRequest | AepReply

datatype AepError = AepUnknownFunction u8 | AepInvalidSize nat nat

definition aep_function_u8 :: "AepFunction \<Rightarrow> u8" where
  "aep_function_u8 f = (case f of AepRequest \<Rightarrow> 1 | AepReply \<Rightarrow> 2)"

definition aep_try_from :: "u8 \<Rightarrow> AepError + AepFunction" where
  "aep_try_from d = (if d = 1 then Inr AepRequest else if d = 2 then Inr AepReply else Inl (AepUnknownFunction d))"

record AepPacket =
  aep_function :: AepFunction

definition aep_parse :: "bytes \<Rightarrow> AepError + AepPacket" where
  "aep_parse data =
     (if data = [] then Inl (AepInvalidSize 0 1)
      else (case aep_try_from (data ! 0) of Inl e \<Rightarrow> Inl e | Inr code \<Rightarrow> Inr \<lparr>aep_function = code\<rparr>))"

definition aep_set_code :: "AepFunction \<Rightarrow> AepPacket \<Rightarrow> AepPacket" where
  "aep_set_code code p = p\<lparr>aep_function := code\<rparr>"

definition aep_to_bytes :: "AepPacket \<Rightarrow> bytes \<Rightarrow> AepError + nat \<times> bytes" where
  "aep_to_bytes p buf =
     (if buf = [] then Inl (AepInvalidSize (length buf) 1)
      else Inr (1, put 0 [aep_function_u8 (aep_function p)] buf))"

definition aep_len :: "AepPacket \<Rightarrow> nat" where "aep_len p = 1"

lemma aep_function_round [simp]: "aep_try_from (aep_function_u8 f) = Inr f"
  by (cases f) (simp_all add: aep_try_from_def aep_function_u8_def)

interpretation aep_codec: header_codec 1 "\<lambda>p. [aep_function_u8 (aep_function p)]" aep_parse "\<lambda>_. True"
  by unfold_locales (simp_all add: aep_parse_def)

section \<open>ATP\<close>

datatype AtpFunction = AtpRequest | AtpResponse | AtpRelease

datatype AtpError = AtpInvalidSize nat nat | AtpUnknownFunction u8

definition atp_function_u8 :: "AtpFunction \<Rightarrow> u8" where
  "atp_function_u8 f = (case f of AtpRequest \<Rightarrow> 1 | AtpResponse \<Rightarrow> 2 | AtpRelease \<Rightarrow> 3)"

definition atp_try_from :: "u8 \<Rightarrow> AtpError + AtpFunction" where
  "atp_try_from v =
     (if v = 1 then Inr AtpRequest else if v = 2 then Inr AtpResponse
      else if v = 3 then Inr AtpRelease else Inl (AtpUnknownFunction v))"

record AtpPacket =
  atp_function :: AtpFunction
  atp_xo :: bool
  atp_eom :: bool
  atp_sts :: bool
  atp_bitmap_seq :: u8
  atp_tid :: u16
  atp_user_bytes :: bytes

definition atp_control :: "AtpPacket \<Rightarrow> u8" where
  "atp_control p =
     push_bit 6 (atp_function_u8 (atp_function p))
     OR (if atp_xo p then 0x20 else 0) OR (if atp_eom p then 0x10 else 0) OR (if atp_sts p then 0x08 else 0)"

definition atp_parse :: "bytes \<Rightarrow> AtpError + AtpPacket" where
  "atp_parse buf =
     (if length buf < 8 then Inl (AtpInvalidSize 8 (length buf))
      else
        let control = buf ! 0 in
        (case atp_try_from (drop_bit 6 control AND 0x03) of
           Inl e \<Rightarrow> Inl e
         | Inr f \<Rightarrow>
             Inr \<lparr>atp_function = f,
                  atp_xo = (control AND 0x20 \<noteq> 0),
                  atp_eom = (control AND 0x10 \<noteq> 0),
                  atp_sts = (control AND 0x08 \<noteq> 0),
                  atp_bitmap_seq = buf ! 1,
                  atp_tid = read_u16 buf 2,
                  atp_user_bytes = slice 4 4 buf\<rparr>))"

definition atp_header :: "AtpPacket \<Rightarrow> bytes" where
  "atp_header p = [atp_control p, atp_bitmap_seq p] @ u16_bytes (atp_tid p) @ atp_user_bytes p"

definition atp_to_bytes :: "AtpPacket \<Rightarrow> bytes \<Rightarrow> AtpError + nat \<times> bytes" where
  "atp_to_bytes p buf =
     (if length buf < 8 then Inl (AtpInvalidSize 8 (length buf)) else Inr (8, put 0 (atp_header p) buf))"

text \<open>\<open>user_bytes\<close> is a four-byte array.\<close>

definition atp_wf :: "AtpPacket \<Rightarrow> bool" where
  "atp_wf p \<longleftrightarrow> length (atp_user_bytes p) = 4"

lemma atp_control_fields:
  "atp_try_from (drop_bit 6 (atp_control p) AND 0x03) = Inr (atp_function p)"
  "(atp_control p AND 0x20 \<noteq> 0) = atp_xo p" "(atp_control p AND 0x10 \<noteq> 0) = atp_eom p"
  "(atp_control p AND 0x08 \<noteq> 0) = atp_sts p"
  by (cases "atp_function p"; cases "atp_xo p"; cases "atp_eom p"; cases "atp_sts p";
      simp add: atp_control_def atp_function_u8_def atp_try_from_def)+

lemma atp_parse_header:
  assumes "atp_wf p"
  shows "atp_parse (atp_header p @ payload) = Inr p"
proof -
  let ?b = "atp_header p @ payload"
  have b: "?b = ([atp_control p, atp_bitmap_seq p] @ u16_bytes (atp_tid p)) @ atp_user_bytes p @ payload"
    by (simp add: atp_header_def)
  have s: "slice 4 4 ?b = atp_user_bytes p"
    unfolding b using assms by (intro slice_here) (simp_all add: atp_wf_def)
  have f: "?b ! 0 = atp_control p" "?b ! 1 = atp_bitmap_seq p" "read_u16 ?b 2 = atp_tid p"
    by (simp_all add: atp_header_def u16_bytes_def read_u16_def)
  have l: "\<not> length ?b < 8" using assms by (simp add: atp_header_def atp_wf_def)
  have p: "p = \<lparr>atp_function = atp_function p, atp_xo = atp_xo p, atp_eom = atp_eom p,
      atp_sts = atp_sts p, atp_bitmap_seq = atp_bitmap_seq p, atp_tid = atp_tid p,
      atp_user_bytes = atp_user_bytes p\<rparr>" by (cases p) simp
  show ?thesis
    by (subst p) (simp only: atp_parse_def Let_def s f l atp_control_fields sum.case if_False)
qed

lemma length_atp_header: "atp_wf p \<Longrightarrow> length (atp_header p) = 8"
  by (simp add: atp_header_def atp_wf_def)

interpretation atp_codec: header_codec 8 atp_header atp_parse atp_wf
  by unfold_locales (simp_all add: length_atp_header atp_parse_header)

section \<open>ASP\<close>

datatype SPFunction = CloseSess | Command | GetStatus | OpenSess | SpTickle | SpWrite | WriteContinue | SpAttention

datatype AspError = AspUnknownFunction u8 | AspInvalidSize nat nat

definition asp_function_u8 :: "SPFunction \<Rightarrow> u8" where
  "asp_function_u8 f =
     (case f of CloseSess \<Rightarrow> 1 | Command \<Rightarrow> 2 | GetStatus \<Rightarrow> 3 | OpenSess \<Rightarrow> 4 | SpTickle \<Rightarrow> 5
      | SpWrite \<Rightarrow> 6 | WriteContinue \<Rightarrow> 7 | SpAttention \<Rightarrow> 8)"

definition asp_try_from :: "u8 \<Rightarrow> AspError + SPFunction" where
  "asp_try_from v =
     (if v = 1 then Inr CloseSess else if v = 2 then Inr Command else if v = 3 then Inr GetStatus
      else if v = 4 then Inr OpenSess else if v = 5 then Inr SpTickle else if v = 6 then Inr SpWrite
      else if v = 7 then Inr WriteContinue else if v = 8 then Inr SpAttention
      else Inl (AspUnknownFunction v))"

record AspHeader =
  asp_function :: SPFunction
  asp_session_id :: u8
  asp_sequence_number :: u16

definition asp_parse :: "bytes \<Rightarrow> AspError + AspHeader" where
  "asp_parse buf =
     (if length buf < 4 then Inl (AspInvalidSize 4 (length buf))
      else (case asp_try_from (buf ! 0) of
              Inl e \<Rightarrow> Inl e
            | Inr f \<Rightarrow> Inr \<lparr>asp_function = f, asp_session_id = buf ! 1,
                             asp_sequence_number = be16 (buf ! 2) (buf ! 3)\<rparr>))"

definition asp_header :: "AspHeader \<Rightarrow> bytes" where
  "asp_header h = [asp_function_u8 (asp_function h), asp_session_id h] @ u16_bytes (asp_sequence_number h)"

definition asp_to_bytes :: "AspHeader \<Rightarrow> bytes \<Rightarrow> AspError + nat \<times> bytes" where
  "asp_to_bytes h buf =
     (if length buf < 4 then Inl (AspInvalidSize 4 (length buf)) else Inr (4, put 0 (asp_header h) buf))"

lemma asp_function_round [simp]: "asp_try_from (asp_function_u8 f) = Inr f"
  by (cases f) (simp_all add: asp_try_from_def asp_function_u8_def)

interpretation asp_codec: header_codec 4 asp_header asp_parse "\<lambda>_. True"
  by unfold_locales (simp_all add: asp_parse_def asp_header_def u16_bytes_def)

section \<open>PAP\<close>

datatype PapFunction =
    OpenConn | OpenConnReply | SendData | PapData | PapTickle | CloseConn | CloseConnReply
  | SendStatus | PapStatus

datatype PapError = PapInvalidSize nat nat | PapUnknownFunction u8

definition pap_function_u8 :: "PapFunction \<Rightarrow> u8" where
  "pap_function_u8 f =
     (case f of OpenConn \<Rightarrow> 1 | OpenConnReply \<Rightarrow> 2 | SendData \<Rightarrow> 3 | PapData \<Rightarrow> 4 | PapTickle \<Rightarrow> 5
      | CloseConn \<Rightarrow> 6 | CloseConnReply \<Rightarrow> 7 | SendStatus \<Rightarrow> 8 | PapStatus \<Rightarrow> 9)"

definition pap_try_from :: "u8 \<Rightarrow> PapError + PapFunction" where
  "pap_try_from v =
     (if v = 1 then Inr OpenConn else if v = 2 then Inr OpenConnReply else if v = 3 then Inr SendData
      else if v = 4 then Inr PapData else if v = 5 then Inr PapTickle else if v = 6 then Inr CloseConn
      else if v = 7 then Inr CloseConnReply else if v = 8 then Inr SendStatus
      else if v = 9 then Inr PapStatus else Inl (PapUnknownFunction v))"

record PapPacket =
  pap_connection_id :: u8
  pap_function :: PapFunction
  pap_sequence_num :: u16
  pap_eof :: bool
  pap_data :: bytes

definition pap_parse :: "bytes \<Rightarrow> PapError + PapPacket" where
  "pap_parse buf =
     (if length buf < 2 then Inl (PapInvalidSize 2 (length buf))
      else
        (case pap_try_from (buf ! 1) of
           Inl e \<Rightarrow> Inl e
         | Inr f \<Rightarrow>
             (if f = SendData \<or> f = PapData
              then (if length buf < 4 then Inl (PapInvalidSize 4 (length buf))
                    else Inr \<lparr>pap_connection_id = buf ! 0, pap_function = f,
                              pap_sequence_num = (if f = SendData then be16 (buf ! 2) (buf ! 3) else 0),
                              pap_eof = (f = PapData \<and> buf ! 2 \<noteq> 0), pap_data = drop 4 buf\<rparr>)
              else Inr \<lparr>pap_connection_id = buf ! 0, pap_function = f, pap_sequence_num = 0,
                        pap_eof = False, pap_data = drop 2 buf\<rparr>)))"

definition bool_u8 :: "bool \<Rightarrow> u8" where
  "bool_u8 b = (if b then 1 else 0)"

definition pap_bytes :: "PapPacket \<Rightarrow> bytes" where
  "pap_bytes p =
     [pap_connection_id p, pap_function_u8 (pap_function p)]
     @ (if pap_function p = PapData then [bool_u8 (pap_eof p), 0]
        else if pap_function p = SendData then [hi8 (pap_sequence_num p), lo8 (pap_sequence_num p)]
        else [])
     @ pap_data p"

definition pap_len :: "PapPacket \<Rightarrow> nat" where
  "pap_len p = (if pap_function p = SendData \<or> pap_function p = PapData then 4 else 2) + length (pap_data p)"

definition pap_to_bytes :: "PapPacket \<Rightarrow> bytes \<Rightarrow> PapError + nat \<times> bytes" where
  "pap_to_bytes p buf =
     (if length buf < pap_len p then Inl (PapInvalidSize (pap_len p) (length buf))
      else Inr (pap_len p, put 0 (pap_bytes p) buf))"

definition pap_to_atp_parts :: "PapPacket \<Rightarrow> bytes \<times> bytes" where
  "pap_to_atp_parts p =
     ([pap_connection_id p, pap_function_u8 (pap_function p)]
      @ (case pap_function p of
           PapData \<Rightarrow> [bool_u8 (pap_eof p), 0]
         | SendData \<Rightarrow> [hi8 (pap_sequence_num p), lo8 (pap_sequence_num p)]
         | _ \<Rightarrow> [0, 0]), pap_data p)"

definition pap_parse_from_atp :: "bytes \<Rightarrow> bytes \<Rightarrow> PapError + PapPacket" where
  "pap_parse_from_atp user_bytes data =
     (case pap_try_from (user_bytes ! 1) of
        Inl e \<Rightarrow> Inl e
      | Inr f \<Rightarrow>
          (let (seq, eof) = (case f of
                 PapData \<Rightarrow> (0, user_bytes ! 2 \<noteq> 0)
               | SendData \<Rightarrow> (be16 (user_bytes ! 2) (user_bytes ! 3), False)
               | _ \<Rightarrow> (0, False))
           in Inr \<lparr>pap_connection_id = user_bytes ! 0, pap_function = f, pap_sequence_num = seq,
                   pap_eof = eof, pap_data = data\<rparr>))"

text \<open>The fields another function does not carry have their defaults.\<close>

definition pap_wf :: "PapPacket \<Rightarrow> bool" where
  "pap_wf p \<longleftrightarrow> (pap_function p \<noteq> SendData \<longrightarrow> pap_sequence_num p = 0)
     \<and> (pap_function p \<noteq> PapData \<longrightarrow> \<not> pap_eof p)"

lemma pap_function_round [simp]: "pap_try_from (pap_function_u8 f) = Inr f"
  by (cases f) (simp_all add: pap_try_from_def pap_function_u8_def)

lemma bool_u8_nonzero [simp]: "bool_u8 b \<noteq> 0 \<longleftrightarrow> b" "bool_u8 b = 0 \<longleftrightarrow> \<not> b"
  by (simp_all add: bool_u8_def)

lemma length_pap_bytes: "length (pap_bytes p) = pap_len p"
  by (simp add: pap_bytes_def pap_len_def)

lemma pap_parse_bytes: "pap_wf p \<Longrightarrow> pap_parse (pap_bytes p) = Inr p"
  by (cases p; cases "pap_function p")
    (simp_all add: pap_wf_def pap_parse_def pap_bytes_def)

lemma pap_atp_round: "pap_wf p \<Longrightarrow> pap_parse_from_atp (fst (pap_to_atp_parts p)) (snd (pap_to_atp_parts p)) = Inr p"
  by (cases p; cases "pap_function p")
    (simp_all add: pap_wf_def pap_parse_from_atp_def pap_to_atp_parts_def)

section \<open>ADSP\<close>

datatype AdspDescriptor =
    DataPacket | ControlPacket | OpenConnRequest | OpenConnAck | OpenConnReqAck | OpenConnDeny
  | CloseAdvice | ForwardReset | ForwardResetAck | RetransmitAdvice

datatype AdspError = AdspInvalidSize nat nat | AdspUnknownDescriptor u8

definition adsp_descriptor_u8 :: "AdspDescriptor \<Rightarrow> u8" where
  "adsp_descriptor_u8 d =
     (case d of DataPacket \<Rightarrow> 0x00 | ControlPacket \<Rightarrow> 0x80 | OpenConnRequest \<Rightarrow> 0x81
      | OpenConnAck \<Rightarrow> 0x82 | OpenConnReqAck \<Rightarrow> 0x83 | OpenConnDeny \<Rightarrow> 0x84 | CloseAdvice \<Rightarrow> 0x85
      | ForwardReset \<Rightarrow> 0x86 | ForwardResetAck \<Rightarrow> 0x87 | RetransmitAdvice \<Rightarrow> 0x88)"

definition adsp_try_from :: "u8 \<Rightarrow> AdspError + AdspDescriptor" where
  "adsp_try_from v =
     (if v AND 0x80 = 0 then Inr DataPacket
      else let c = v AND 0x8F
        in if c = 0x80 then Inr ControlPacket else if c = 0x81 then Inr OpenConnRequest
           else if c = 0x82 then Inr OpenConnAck else if c = 0x83 then Inr OpenConnReqAck
           else if c = 0x84 then Inr OpenConnDeny else if c = 0x85 then Inr CloseAdvice
           else if c = 0x86 then Inr ForwardReset else if c = 0x87 then Inr ForwardResetAck
           else if c = 0x88 then Inr RetransmitAdvice else Inl (AdspUnknownDescriptor v))"

record AdspPacket =
  adsp_descriptor :: AdspDescriptor
  adsp_connection_id :: u16
  adsp_first_byte_seq :: u32
  adsp_next_recv_seq :: u32
  adsp_recv_window :: u16
  adsp_flags :: u8

definition FLAG_CONTROL :: u8 where "FLAG_CONTROL = 0x80"
definition FLAG_ACK :: u8 where "FLAG_ACK = 0x40"
definition FLAG_EOM :: u8 where "FLAG_EOM = 0x20"
definition FLAG_ATTENTION :: u8 where "FLAG_ATTENTION = 0x10"

definition ADSP_HEADER_LEN :: nat where "ADSP_HEADER_LEN = 13"

definition adsp_parse :: "bytes \<Rightarrow> AdspError + AdspPacket" where
  "adsp_parse buf =
     (if length buf < ADSP_HEADER_LEN then Inl (AdspInvalidSize ADSP_HEADER_LEN (length buf))
      else (case adsp_try_from (buf ! 12) of
              Inl e \<Rightarrow> Inl e
            | Inr d \<Rightarrow> Inr \<lparr>adsp_descriptor = d, adsp_connection_id = read_u16 buf 0,
                adsp_first_byte_seq = read_u32 buf 2, adsp_next_recv_seq = read_u32 buf 6,
                adsp_recv_window = read_u16 buf 10, adsp_flags = buf ! 12 AND 0xF0\<rparr>))"

definition adsp_header :: "AdspPacket \<Rightarrow> bytes" where
  "adsp_header p =
     u16_bytes (adsp_connection_id p) @ u32_bytes (adsp_first_byte_seq p)
     @ u32_bytes (adsp_next_recv_seq p) @ u16_bytes (adsp_recv_window p)
     @ [adsp_descriptor_u8 (adsp_descriptor p) OR adsp_flags p]"

definition adsp_to_bytes :: "AdspPacket \<Rightarrow> bytes \<Rightarrow> AdspError + nat \<times> bytes" where
  "adsp_to_bytes p buf =
     (if length buf < ADSP_HEADER_LEN then Inl (AdspInvalidSize ADSP_HEADER_LEN (length buf))
      else Inr (ADSP_HEADER_LEN, put 0 (adsp_header p) buf))"

record AdspAttentionPacket =
  att_header :: AdspPacket
  att_code :: u16
  att_data :: bytes

definition adsp_attention_parse :: "bytes \<Rightarrow> AdspError + AdspAttentionPacket" where
  "adsp_attention_parse buf =
     (case adsp_parse buf of
        Inl e \<Rightarrow> Inl e
      | Inr h \<Rightarrow>
          (if adsp_flags h AND FLAG_ATTENTION = 0 then Inl (AdspUnknownDescriptor (buf ! 0))
           else let payload = drop ADSP_HEADER_LEN buf
             in if length payload < 2 then Inl (AdspInvalidSize (ADSP_HEADER_LEN + 2) (length buf))
                else Inr \<lparr>att_header = h, att_code = read_u16 payload 0, att_data = drop 2 payload\<rparr>))"

definition adsp_attention_write :: "AdspAttentionPacket \<Rightarrow> bytes \<Rightarrow> AdspError + nat \<times> bytes" where
  "adsp_attention_write a buf =
     (if length buf < 2 + length (att_data a) then Inl (AdspInvalidSize (2 + length (att_data a)) (length buf))
      else Inr (2 + length (att_data a), put 0 (u16_bytes (att_code a) @ att_data a) buf))"

text \<open>
  A header in the parser's form: the flags are the high nibble, with the control bit set
  exactly for a control descriptor.
\<close>

definition high_nibbles :: "u8 list" where
  "high_nibbles = [0x00, 0x10, 0x20, 0x30, 0x40, 0x50, 0x60, 0x70, 0x80, 0x90, 0xA0, 0xB0, 0xC0, 0xD0, 0xE0, 0xF0]"

definition adsp_wf :: "AdspPacket \<Rightarrow> bool" where
  "adsp_wf p \<longleftrightarrow> adsp_flags p \<in> set high_nibbles
     \<and> (adsp_flags p AND 0x80 = 0 \<longleftrightarrow> adsp_descriptor p = DataPacket)"

lemma adsp_descriptor_byte:
  assumes "f \<in> set high_nibbles" and "f AND 0x80 = 0 \<longleftrightarrow> d = DataPacket"
  shows "adsp_try_from (adsp_descriptor_u8 d OR f) = Inr d"
    and "(adsp_descriptor_u8 d OR f) AND 0xF0 = f"
  using assms by (cases d; auto simp: high_nibbles_def adsp_descriptor_u8_def adsp_try_from_def)+

lemma length_adsp_header [simp]: "length (adsp_header p) = ADSP_HEADER_LEN"
  by (simp add: adsp_header_def ADSP_HEADER_LEN_def)

lemma read_u32_bytes: "be32 (u32_bytes w ! 0) (u32_bytes w ! 1) (u32_bytes w ! 2) (u32_bytes w ! 3) = w"
  by (simp add: u32_bytes_def)

lemma adsp_parse_header:
  assumes "adsp_wf p"
  shows "adsp_parse (adsp_header p @ payload) = Inr p"
proof -
  let ?b = "adsp_header p @ payload"
  have f: "read_u16 ?b 0 = adsp_connection_id p" "read_u32 ?b 2 = adsp_first_byte_seq p"
    "read_u32 ?b 6 = adsp_next_recv_seq p" "read_u16 ?b 10 = adsp_recv_window p"
    "?b ! 12 = adsp_descriptor_u8 (adsp_descriptor p) OR adsp_flags p"
    by (simp_all add: adsp_header_def u16_bytes_def u32_bytes_def read_u16_def read_u32_def)
  have l: "\<not> length ?b < ADSP_HEADER_LEN" by simp
  have p: "p = \<lparr>adsp_descriptor = adsp_descriptor p, adsp_connection_id = adsp_connection_id p,
      adsp_first_byte_seq = adsp_first_byte_seq p, adsp_next_recv_seq = adsp_next_recv_seq p,
      adsp_recv_window = adsp_recv_window p, adsp_flags = adsp_flags p\<rparr>" by (cases p) simp
  have d: "adsp_try_from (adsp_descriptor_u8 (adsp_descriptor p) OR adsp_flags p) = Inr (adsp_descriptor p)"
    "(adsp_descriptor_u8 (adsp_descriptor p) OR adsp_flags p) AND 0xF0 = adsp_flags p"
    using assms by (auto simp only: adsp_wf_def intro!: adsp_descriptor_byte)
  show ?thesis
    by (subst p) (simp only: adsp_parse_def f l d sum.case if_False)
qed

interpretation adsp_codec: header_codec ADSP_HEADER_LEN adsp_header adsp_parse adsp_wf
  by unfold_locales (simp_all add: adsp_parse_header)

section \<open>Properties\<close>

text \<open>An ATP header written into any buffer that can hold it touches only its eight
  bytes and parses back to the same function, flags, bitmap, transaction and user bytes; a
  shorter buffer is refused untouched.\<close>

theorem atp_header_roundtrip:
  assumes "atp_wf p"
  shows "case atp_to_bytes p buf of
      Inl e \<Rightarrow> length buf < 8 \<and> e = AtpInvalidSize 8 (length buf)
    | Inr (n, out) \<Rightarrow> n = 8 \<and> length out = length buf \<and> drop 8 out = drop 8 buf \<and> atp_parse out = Inr p"
  using assms atp_codec.dec_put [of p buf] by (simp add: atp_to_bytes_def)

theorem atp_header_roundtrip_witness:
  "case atp_to_bytes \<lparr>atp_function = AtpResponse, atp_xo = False, atp_eom = True, atp_sts = False,
      atp_bitmap_seq = 2, atp_tid = 0x1234, atp_user_bytes = [1, 2, 3, 4]\<rparr> (replicate 8 0) of
      Inl e \<Rightarrow> False
    | Inr (n, out) \<Rightarrow> n = 8 \<and> atp_parse out = Inr \<lparr>atp_function = AtpResponse, atp_xo = False,
        atp_eom = True, atp_sts = False, atp_bitmap_seq = 2, atp_tid = 0x1234, atp_user_bytes = [1, 2, 3, 4]\<rparr>"
  using atp_header_roundtrip [of "\<lparr>atp_function = AtpResponse, atp_xo = False, atp_eom = True, atp_sts = False,
      atp_bitmap_seq = 2, atp_tid = 0x1234, atp_user_bytes = [1, 2, 3, 4]\<rparr>" "replicate 8 0"]
  by (auto simp: atp_wf_def split: sum.splits prod.splits)

text \<open>ADSP headers round-trip through any buffer, descriptor and flags sharing one
  byte without interfering, for every descriptor with every consistent set of flags.\<close>

theorem adsp_header_roundtrip:
  assumes "adsp_wf p" and "ADSP_HEADER_LEN \<le> length buf"
  shows "\<exists>out. adsp_to_bytes p buf = Inr (ADSP_HEADER_LEN, out) \<and> adsp_parse out = Inr p
    \<and> drop ADSP_HEADER_LEN out = drop ADSP_HEADER_LEN buf"
  using assms adsp_codec.dec_put [of p buf] by (auto simp: adsp_to_bytes_def)

theorem adsp_header_roundtrip_witness:
  "\<exists>out. adsp_to_bytes \<lparr>adsp_descriptor = OpenConnReqAck, adsp_connection_id = 7, adsp_first_byte_seq = 1,
      adsp_next_recv_seq = 0xFFFFFFFF, adsp_recv_window = 4096, adsp_flags = 0xC0\<rparr> (replicate 20 9)
    = Inr (ADSP_HEADER_LEN, out) \<and> drop ADSP_HEADER_LEN out = drop ADSP_HEADER_LEN (replicate 20 9)"
  using adsp_header_roundtrip [of "\<lparr>adsp_descriptor = OpenConnReqAck, adsp_connection_id = 7, adsp_first_byte_seq = 1,
      adsp_next_recv_seq = 0xFFFFFFFF, adsp_recv_window = 4096, adsp_flags = 0xC0\<rparr>" "replicate 20 9"]
  by (auto simp: adsp_wf_def high_nibbles_def ADSP_HEADER_LEN_def)

text \<open>A PAP packet survives both of its encodings, the flat one and the one split
  between ATP user bytes and data, and the two agree: the user bytes are always four, and for
  the functions with a four-byte header the flat form is their concatenation with the data.\<close>

theorem pap_roundtrip:
  assumes "pap_wf p"
  shows "pap_parse (pap_bytes p) = Inr p
    \<and> pap_parse_from_atp (fst (pap_to_atp_parts p)) (snd (pap_to_atp_parts p)) = Inr p
    \<and> length (fst (pap_to_atp_parts p)) = 4
    \<and> length (pap_bytes p) = pap_len p
    \<and> (pap_len p = 4 + length (pap_data p) \<longrightarrow> pap_bytes p = fst (pap_to_atp_parts p) @ snd (pap_to_atp_parts p))"
  using assms pap_parse_bytes [of p] pap_atp_round [of p] length_pap_bytes [of p]
  by (cases "pap_function p") (auto simp: pap_to_atp_parts_def pap_len_def pap_bytes_def)

theorem pap_roundtrip_witness:
  "pap_parse (pap_bytes \<lparr>pap_connection_id = 3, pap_function = SendData, pap_sequence_num = 258,
     pap_eof = False, pap_data = []\<rparr>) = Inr \<lparr>pap_connection_id = 3, pap_function = SendData,
     pap_sequence_num = 258, pap_eof = False, pap_data = []\<rparr>"
  using pap_roundtrip [of "\<lparr>pap_connection_id = 3, pap_function = SendData, pap_sequence_num = 258,
     pap_eof = False, pap_data = []\<rparr>"] by (simp add: pap_wf_def)

end
