(* ===== verification/Pkt_Nbp.thy ===== *)
theory Pkt_Nbp
  imports Pkt_Ddp
begin

text \<open>
  Name Binding Protocol packets: src/tailtalk-packets/src/nbp.rs, with the bounded MacRoman
  names of limits.rs. A name is its wire bytes (the array beyond \<open>len\<close> is always zero, so
  derived equality is equality of the wire bytes); the conversions to and from UTF-8 belong to
  the encoding_rs crate and are not modelled.
\<close>

section \<open>Names\<close>

definition MAX_NBP_NAME :: nat where "MAX_NBP_NAME = 32"
definition MAX_NBP_TUPLES :: nat where "MAX_NBP_TUPLES = 15"

definition from_wire :: "nat \<Rightarrow> bytes \<Rightarrow> bytes option" where
  "from_wire n bs = (if length bs > n then None else Some bs)"

definition WILDCARD_STAR :: u8 where "WILDCARD_STAR = 0x2A"
definition WILDCARD_EQUALS :: u8 where "WILDCARD_EQUALS = 0x3D"
definition WILDCARD_APPROX :: u8 where "WILDCARD_APPROX = 0xC5"

lemmas wildcards = WILDCARD_STAR_def WILDCARD_EQUALS_def WILDCARD_APPROX_def

datatype NbpError =
    NbpTooShort | OutOfBounds | NameTooLong | TooManyTuples | NbpBufferTooSmall nat nat

record EntityName =
  en_object :: bytes
  en_type :: bytes
  en_zone :: bytes

definition name_from_wire :: "bytes \<Rightarrow> NbpError + bytes" where
  "name_from_wire bs = (case from_wire MAX_NBP_NAME bs of None \<Rightarrow> Inl NameTooLong | Some n \<Rightarrow> Inr n)"

text \<open>One length-prefixed component at \<open>offset\<close>; the code repeats this block three times.\<close>

definition read_component :: "bytes \<Rightarrow> nat \<Rightarrow> NbpError + bytes \<times> nat" where
  "read_component data offset =
     (if offset \<ge> length data then Inl NbpTooShort
      else let len = unat (data ! offset); off = offset + 1
        in if off + len > length data then Inl OutOfBounds
           else (case name_from_wire (take len (drop off data)) of
                   Inl e \<Rightarrow> Inl e
                 | Inr n \<Rightarrow> Inr (n, off + len)))"

definition entity_from_bytes :: "bytes \<Rightarrow> NbpError + EntityName \<times> nat" where
  "entity_from_bytes data =
     (case read_component data 0 of Inl e \<Rightarrow> Inl e | Inr (object, o1) \<Rightarrow>
      (case read_component data o1 of Inl e \<Rightarrow> Inl e | Inr (typ, o2) \<Rightarrow>
       (case read_component data o2 of Inl e \<Rightarrow> Inl e | Inr (zone, o3) \<Rightarrow>
          Inr (\<lparr>en_object = object, en_type = typ, en_zone = zone\<rparr>, o3))))"

definition len_u8 :: "'a list \<Rightarrow> u8" where
  "len_u8 xs = word_of_nat (length xs)"

definition entity_bytes :: "EntityName \<Rightarrow> bytes" where
  "entity_bytes e = (len_u8 (en_object e) # en_object e) @ (len_u8 (en_type e) # en_type e)
     @ (len_u8 (en_zone e) # en_zone e)"

definition entity_to_bytes :: "EntityName \<Rightarrow> bytes \<Rightarrow> NbpError + nat \<times> bytes" where
  "entity_to_bytes e buffer =
     (let calc_size = 1 + length (en_object e) + 1 + length (en_type e) + 1 + length (en_zone e)
      in if length buffer < calc_size then Inl (NbpBufferTooSmall calc_size (length buffer))
         else Inr (calc_size, put 0 (entity_bytes e) buffer))"

section \<open>Matching\<close>

definition ascii_lower :: "u8 \<Rightarrow> u8" where
  "ascii_lower b = (if 0x41 \<le> b \<and> b \<le> 0x5A then b + 0x20 else b)"

definition eq_ignore_ascii_case :: "bytes \<Rightarrow> bytes \<Rightarrow> bool" where
  "eq_ignore_ascii_case a b = (map ascii_lower a = map ascii_lower b)"

definition match_part :: "bytes \<Rightarrow> bytes \<Rightarrow> bool" where
  "match_part concrete pattern =
     (if pattern = [WILDCARD_EQUALS] \<or> pattern = [WILDCARD_APPROX] \<or> pattern = [WILDCARD_STAR] then True
      else if WILDCARD_APPROX \<in> set pattern
      then let prefix = takeWhile (\<lambda>b. b \<noteq> WILDCARD_APPROX) pattern;
               suffix = drop (length prefix + 1) pattern
        in length concrete \<ge> length prefix + length suffix
           \<and> eq_ignore_ascii_case (take (length prefix) concrete) prefix
           \<and> eq_ignore_ascii_case (drop (length concrete - length suffix) concrete) suffix
      else eq_ignore_ascii_case concrete pattern)"

definition entity_matches :: "EntityName \<Rightarrow> EntityName \<Rightarrow> bool" where
  "entity_matches e pattern =
     (match_part (en_object e) (en_object pattern) \<and> match_part (en_type e) (en_type pattern)
      \<and> (en_zone pattern = [] \<or> match_part (en_zone e) (en_zone pattern)))"

definition fully_qualified :: "EntityName \<Rightarrow> bool" where
  "fully_qualified e =
     (\<not> list_ex (\<lambda>f. f \<in> set (en_object e) \<or> f \<in> set (en_type e))
        [WILDCARD_STAR, WILDCARD_EQUALS, WILDCARD_APPROX])"

section \<open>Packets\<close>

datatype NbpOperation = BroadcastRequest | Lookup | LookupReply | ForwardRequest | UnknownOp u8

definition nbp_op_from_u8 :: "u8 \<Rightarrow> NbpOperation" where
  "nbp_op_from_u8 v =
     (if v = 1 then BroadcastRequest else if v = 2 then Lookup else if v = 3 then LookupReply
      else if v = 4 then ForwardRequest else UnknownOp v)"

definition nbp_op_to_u8 :: "NbpOperation \<Rightarrow> u8" where
  "nbp_op_to_u8 op =
     (case op of BroadcastRequest \<Rightarrow> 1 | Lookup \<Rightarrow> 2 | LookupReply \<Rightarrow> 3 | ForwardRequest \<Rightarrow> 4
      | UnknownOp v \<Rightarrow> v)"

record ServiceAddress =
  sa_network :: u16
  sa_node :: u8
  sa_socket :: u8

record NbpTuple =
  tu_network :: u16
  tu_node :: u8
  tu_socket :: u8
  tu_enumerator :: u8
  tu_entity :: EntityName

definition service_address :: "NbpTuple \<Rightarrow> ServiceAddress" where
  "service_address t = \<lparr>sa_network = tu_network t, sa_node = tu_node t, sa_socket = tu_socket t\<rparr>"

record NbpPacket =
  nbp_operation :: NbpOperation
  nbp_transaction_id :: u8
  nbp_tuples :: "NbpTuple list"

text \<open>\<open>for _ in 0..tuple_count\<close>, the tuples pushed so far in \<open>acc\<close>.\<close>

fun nbp_read_tuples :: "bytes \<Rightarrow> nat \<Rightarrow> nat \<Rightarrow> NbpTuple list \<Rightarrow> NbpError + NbpTuple list" where
  "nbp_read_tuples data 0 offset acc = Inr acc"
| "nbp_read_tuples data (Suc n) offset acc =
     (if offset + 5 > length data then Inl NbpTooShort
      else
        (case entity_from_bytes (drop (offset + 5) data) of
           Inl e \<Rightarrow> Inl e
         | Inr (entity, name_length) \<Rightarrow>
             (if length acc \<ge> MAX_NBP_TUPLES then Inl TooManyTuples
              else nbp_read_tuples data n (offset + 5 + name_length)
                (acc @ [\<lparr>tu_network = be16 (data ! offset) (data ! (offset + 1)), tu_node = data ! (offset + 2),
                         tu_socket = data ! (offset + 3), tu_enumerator = data ! (offset + 4),
                         tu_entity = entity\<rparr>]))))"

definition nbp_from_bytes :: "bytes \<Rightarrow> NbpError + NbpPacket" where
  "nbp_from_bytes data =
     (if length data < 2 then Inl NbpTooShort
      else
        let control_byte = data ! 0;
            operation = nbp_op_from_u8 (drop_bit 4 control_byte);
            tuple_count = unat (control_byte AND 0x0F)
        in (case nbp_read_tuples data tuple_count 2 [] of
              Inl e \<Rightarrow> Inl e
            | Inr tuples \<Rightarrow> Inr \<lparr>nbp_operation = operation, nbp_transaction_id = data ! 1, nbp_tuples = tuples\<rparr>))"

definition tuple_head :: "NbpTuple \<Rightarrow> bytes" where
  "tuple_head t = u16_bytes (tu_network t) @ [tu_node t, tu_socket t, tu_enumerator t]"

fun nbp_write_tuples :: "NbpTuple list \<Rightarrow> nat \<Rightarrow> bytes \<Rightarrow> NbpError + nat \<times> bytes" where
  "nbp_write_tuples [] offset buffer = Inr (offset, buffer)"
| "nbp_write_tuples (t # ts) offset buffer =
     (if offset + 5 > length buffer then Inl (NbpBufferTooSmall (offset + 5) (length buffer))
      else
        let buf1 = put offset (tuple_head t) buffer in
        (case entity_to_bytes (tu_entity t) (drop (offset + 5) buf1) of
           Inl e \<Rightarrow> Inl e
         | Inr (n, out) \<Rightarrow> nbp_write_tuples ts (offset + 5 + n) (take (offset + 5) buf1 @ out)))"

definition nbp_control :: "NbpPacket \<Rightarrow> u8" where
  "nbp_control p = push_bit 4 (nbp_op_to_u8 (nbp_operation p)) OR (len_u8 (nbp_tuples p) AND 0x0F)"

definition nbp_to_bytes :: "NbpPacket \<Rightarrow> bytes \<Rightarrow> NbpError + nat \<times> bytes" where
  "nbp_to_bytes p buffer =
     (if length buffer < 2 then Inl (NbpBufferTooSmall 2 (length buffer))
      else nbp_write_tuples (nbp_tuples p) 2 (put 0 [nbp_control p, nbp_transaction_id p] buffer))"

section \<open>Round trip\<close>

definition entity_wf :: "EntityName \<Rightarrow> bool" where
  "entity_wf e \<longleftrightarrow> length (en_object e) \<le> MAX_NBP_NAME \<and> length (en_type e) \<le> MAX_NBP_NAME
     \<and> length (en_zone e) \<le> MAX_NBP_NAME"

lemma unat_len_u8: "length xs < 256 \<Longrightarrow> unat (len_u8 xs) = length xs"
  by (simp add: len_u8_def unat_of_nat)

lemma read_component_hit:
  assumes "length name \<le> MAX_NBP_NAME" and "offset = length pre"
  shows "read_component (pre @ (len_u8 name # name) @ rest) offset = Inr (name, offset + 1 + length name)"
  using assms
  by (simp add: read_component_def unat_len_u8 MAX_NBP_NAME_def name_from_wire_def from_wire_def Let_def nth_append)

lemma entity_from_bytes_hit:
  assumes "entity_wf e"
  shows "entity_from_bytes (entity_bytes e @ rest) = Inr (e, length (entity_bytes e))"
proof -
  let ?o = "en_object e" and ?t = "en_type e" and ?z = "en_zone e"
  let ?b = "entity_bytes e @ rest"
  have wf: "length ?o \<le> MAX_NBP_NAME" "length ?t \<le> MAX_NBP_NAME" "length ?z \<le> MAX_NBP_NAME"
    using assms by (simp_all add: entity_wf_def)
  have b: "?b = [] @ (len_u8 ?o # ?o) @ ((len_u8 ?t # ?t) @ (len_u8 ?z # ?z) @ rest)"
    "?b = (len_u8 ?o # ?o) @ (len_u8 ?t # ?t) @ ((len_u8 ?z # ?z) @ rest)"
    "?b = ((len_u8 ?o # ?o) @ (len_u8 ?t # ?t)) @ (len_u8 ?z # ?z) @ rest"
    by (simp_all add: entity_bytes_def)
  have 1: "read_component ?b 0 = Inr (?o, length (len_u8 ?o # ?o))"
    unfolding b(1) using read_component_hit [OF wf(1), of 0 "[]"] by simp
  have 2: "read_component ?b (length (len_u8 ?o # ?o)) = Inr (?t, length ((len_u8 ?o # ?o) @ (len_u8 ?t # ?t)))"
    unfolding b(2) using read_component_hit [OF wf(2) refl, of "len_u8 ?o # ?o"] by simp
  have 3: "read_component ?b (length ((len_u8 ?o # ?o) @ (len_u8 ?t # ?t))) = Inr (?z, length (entity_bytes e))"
    unfolding b(3) using read_component_hit [OF wf(3) refl, of "(len_u8 ?o # ?o) @ (len_u8 ?t # ?t)"]
    by (simp add: entity_bytes_def)
  have "e = \<lparr>en_object = ?o, en_type = ?t, en_zone = ?z\<rparr>" by (cases e) simp
  then show ?thesis
    by (simp only: entity_from_bytes_def 1 2 3 sum.case prod.case)
qed

lemma length_entity_bytes:
  "length (entity_bytes e) = 1 + length (en_object e) + 1 + length (en_type e) + 1 + length (en_zone e)"
  by (simp add: entity_bytes_def)

lemma entity_to_bytes_eq:
  "entity_to_bytes e buffer =
     (if length buffer < length (entity_bytes e) then Inl (NbpBufferTooSmall (length (entity_bytes e)) (length buffer))
      else Inr (length (entity_bytes e), put 0 (entity_bytes e) buffer))"
  by (simp add: entity_to_bytes_def length_entity_bytes Let_def)

definition tuple_bytes :: "NbpTuple \<Rightarrow> bytes" where
  "tuple_bytes t = tuple_head t @ entity_bytes (tu_entity t)"

definition tuples_bytes :: "NbpTuple list \<Rightarrow> bytes" where
  "tuples_bytes ts = concat (map tuple_bytes ts)"

lemma length_tuple_head [simp]: "length (tuple_head t) = 5"
  by (simp add: tuple_head_def)

lemma nbp_write_tuples_eq:
  assumes "offset = length pre" and "length (tuples_bytes ts) \<le> length rest"
  shows "nbp_write_tuples ts offset (pre @ rest)
    = Inr (offset + length (tuples_bytes ts), pre @ tuples_bytes ts @ drop (length (tuples_bytes ts)) rest)"
  using assms
proof (induction ts arbitrary: offset pre rest)
  case Nil
  then show ?case by (simp add: tuples_bytes_def)
next
  case (Cons t ts)
  let ?e = "entity_bytes (tu_entity t)"
  from Cons.prems(2) have len: "5 + length ?e + length (tuples_bytes ts) \<le> length rest"
    by (simp add: tuples_bytes_def tuple_bytes_def)
  have p: "put offset (tuple_head t) (pre @ rest) = (pre @ tuple_head t) @ drop 5 rest"
    using Cons.prems(1) by (simp add: put_def)
  have e: "entity_to_bytes (tu_entity t) (drop 5 rest) = Inr (length ?e, ?e @ drop (5 + length ?e) rest)"
    using len by (simp add: entity_to_bytes_eq put_0 add.commute)
  have ih: "nbp_write_tuples ts (offset + 5 + length ?e) ((pre @ tuple_head t @ ?e) @ drop (5 + length ?e) rest)
    = Inr (offset + 5 + length ?e + length (tuples_bytes ts), (pre @ tuple_head t @ ?e) @ tuples_bytes ts
        @ drop (length (tuples_bytes ts)) (drop (5 + length ?e) rest))"
    using Cons.prems(1) len by (intro Cons.IH) simp_all
  have "\<not> offset + 5 > length (pre @ rest)" using Cons.prems(1) len by simp
  moreover have "drop (offset + 5) ((pre @ tuple_head t) @ drop 5 rest) = drop 5 rest"
    "take (offset + 5) ((pre @ tuple_head t) @ drop 5 rest) = pre @ tuple_head t"
    using Cons.prems(1) by simp_all
  ultimately have "nbp_write_tuples (t # ts) offset (pre @ rest)
    = nbp_write_tuples ts (offset + 5 + length ?e) ((pre @ tuple_head t @ ?e) @ drop (5 + length ?e) rest)"
    by (simp only: nbp_write_tuples.simps p Let_def if_False e sum.case prod.case append_assoc)
  with ih show ?case
    by (simp add: tuples_bytes_def tuple_bytes_def ac_simps)
qed

lemma nbp_read_tuples_eq:
  assumes "offset = length pre" and "\<forall>t\<in>set ts. entity_wf (tu_entity t)"
    and "length acc + length ts \<le> MAX_NBP_TUPLES"
  shows "nbp_read_tuples (pre @ tuples_bytes ts @ rest) (length ts) offset acc = Inr (acc @ ts)"
  using assms
proof (induction ts arbitrary: offset pre acc)
  case Nil
  then show ?case by simp
next
  case (Cons t ts)
  let ?e = "entity_bytes (tu_entity t)"
  let ?data = "pre @ tuples_bytes (t # ts) @ rest"
  have d: "?data = (pre @ tuple_head t @ ?e) @ tuples_bytes ts @ rest"
    by (simp add: tuples_bytes_def tuple_bytes_def)
  have dr: "drop (offset + 5) ?data = ?e @ (tuples_bytes ts @ rest)"
    unfolding d using Cons.prems(1) by simp
  have e: "entity_from_bytes (drop (offset + 5) ?data) = Inr (tu_entity t, length ?e)"
    unfolding dr using Cons.prems(2) by (intro entity_from_bytes_hit) simp
  have nth: "?data ! (offset + i) = tuple_head t ! i" if "i < 5" for i
    unfolding d using Cons.prems(1) that by (simp add: nth_append)
  have f: "be16 (?data ! offset) (?data ! (offset + 1)) = tu_network t" "?data ! (offset + 2) = tu_node t"
    "?data ! (offset + 3) = tu_socket t" "?data ! (offset + 4) = tu_enumerator t"
    using nth [of 0] nth [of 1] nth [of 2] nth [of 3] nth [of 4] by (simp_all add: tuple_head_def u16_bytes_def)
  have len: "\<not> offset + 5 > length ?data" unfolding d using Cons.prems(1) by simp
  have acc: "\<not> length acc \<ge> MAX_NBP_TUPLES" using Cons.prems(3) by simp
  have t: "\<lparr>tu_network = tu_network t, tu_node = tu_node t, tu_socket = tu_socket t,
      tu_enumerator = tu_enumerator t, tu_entity = tu_entity t\<rparr> = t" by (cases t) simp
  have "nbp_read_tuples ?data (length (t # ts)) offset acc
      = nbp_read_tuples ?data (length ts) (offset + 5 + length ?e) (acc @ [t])"
    by (simp only: length_Cons nbp_read_tuples.simps len if_False e sum.case prod.case acc f t)
  also have "\<dots> = Inr ((acc @ [t]) @ ts)"
    unfolding d using Cons.prems by (intro Cons.IH) simp_all
  finally show ?case by simp
qed

definition nbp_wf :: "NbpPacket \<Rightarrow> bool" where
  "nbp_wf p \<longleftrightarrow> (case nbp_operation p of UnknownOp v \<Rightarrow> v < 16 \<and> v \<notin> {1, 2, 3, 4} | _ \<Rightarrow> True)
     \<and> length (nbp_tuples p) \<le> MAX_NBP_TUPLES \<and> (\<forall>t\<in>set (nbp_tuples p). entity_wf (tu_entity t))"

lemma control_nibbles:
  assumes "v < 16" and "n < 16"
  shows "drop_bit 4 (push_bit 4 v OR (word_of_nat n AND 0x0F)) = (v :: u8)"
    and "unat ((push_bit 4 v OR (word_of_nat n AND 0x0F)) AND (0x0F :: u8)) = n"
proof -
  have m: "(0x0F :: u8) = mask 4" by (simp add: mask_eq_exp_minus_1)
  have v: "bit v i \<Longrightarrow> i < 4" for i
    using assms(1) bit_word_less [of v 4] by (simp add: word_less_nat_alt)
  show "drop_bit 4 (push_bit 4 v OR (word_of_nat n AND 0x0F)) = v"
    unfolding m
    by (rule bit_word_eqI) (auto simp only: bit_drop_bit_eq comp_def bit_or_iff bit_push_bit_iff bit_and_mask,
      auto dest: v)
  have "(push_bit 4 v OR (word_of_nat n AND 0x0F)) AND (0x0F :: u8) = word_of_nat n AND mask 4"
    unfolding m
    by (rule bit_word_eqI) (auto simp only: bit_and_mask bit_or_iff bit_push_bit_iff)
  also have "\<dots> = word_of_nat n"
    using assms(2) bit_nat_less [of n 4] by (intro bit_word_eqI) (auto simp: bit_and_mask bit_of_nat_iff)
  finally show "unat ((push_bit 4 v OR (word_of_nat n AND 0x0F)) AND (0x0F :: u8)) = n"
    using assms(2) by (simp add: unat_of_nat)
qed

lemma nbp_op_round:
  assumes "nbp_wf p"
  shows "nbp_op_to_u8 (nbp_operation p) < 16" and "nbp_op_from_u8 (nbp_op_to_u8 (nbp_operation p)) = nbp_operation p"
  using assms by (cases "nbp_operation p"; auto simp: nbp_wf_def nbp_op_to_u8_def nbp_op_from_u8_def)+

definition nbp_bytes :: "NbpPacket \<Rightarrow> bytes" where
  "nbp_bytes p = [nbp_control p, nbp_transaction_id p] @ tuples_bytes (nbp_tuples p)"

lemma nbp_to_bytes_eq:
  assumes "length (nbp_bytes p) \<le> length buffer"
  shows "nbp_to_bytes p buffer = Inr (length (nbp_bytes p), nbp_bytes p @ drop (length (nbp_bytes p)) buffer)"
proof -
  have "length (tuples_bytes (nbp_tuples p)) \<le> length (drop 2 buffer)" and l: "\<not> length buffer < 2"
    using assms by (simp_all add: nbp_bytes_def)
  from nbp_write_tuples_eq [OF _ this(1), of 2 "[nbp_control p, nbp_transaction_id p]"] l show ?thesis
    by (simp add: nbp_to_bytes_def nbp_bytes_def put_0 numeral_2_eq_2)
qed

lemma nbp_from_bytes_eq:
  assumes "nbp_wf p"
  shows "nbp_from_bytes (nbp_bytes p @ rest) = Inr p"
proof -
  let ?ts = "nbp_tuples p"
  let ?data = "[nbp_control p, nbp_transaction_id p] @ tuples_bytes ?ts @ rest"
  have wf: "length ?ts \<le> MAX_NBP_TUPLES" "\<forall>t\<in>set ?ts. entity_wf (tu_entity t)"
    using assms by (simp_all add: nbp_wf_def)
  then have "length ?ts < 16" by (simp add: MAX_NBP_TUPLES_def)
  note c = control_nibbles [OF nbp_op_round(1) [OF assms] this]
  have c1: "nbp_op_from_u8 (drop_bit 4 (nbp_control p)) = nbp_operation p"
    "unat (nbp_control p AND 0x0F) = length ?ts"
    unfolding nbp_control_def len_u8_def by (simp_all only: c nbp_op_round(2) [OF assms])
  have r: "nbp_read_tuples ?data (length ?ts) 2 [] = Inr ?ts"
    using nbp_read_tuples_eq [of 2 "[nbp_control p, nbp_transaction_id p]" ?ts "[]" rest] wf by simp
  have f: "?data ! 0 = nbp_control p" "?data ! 1 = nbp_transaction_id p" "\<not> length ?data < 2" by simp_all
  have "nbp_from_bytes ?data = Inr \<lparr>nbp_operation = nbp_operation p, nbp_transaction_id = nbp_transaction_id p, nbp_tuples = ?ts\<rparr>"
    by (simp only: nbp_from_bytes_def f if_False Let_def c1 r sum.case)
  then show ?thesis by (cases p) (simp add: nbp_bytes_def)
qed

section \<open>Wildcards\<close>

lemma match_part_approx:
  assumes "WILDCARD_APPROX \<notin> set pre"
  shows "match_part concrete (pre @ WILDCARD_APPROX # suf) \<longleftrightarrow>
    (\<exists>a mid b. concrete = a @ mid @ b \<and> eq_ignore_ascii_case a pre \<and> eq_ignore_ascii_case b suf)"
proof -
  have tw: "takeWhile (\<lambda>b. b \<noteq> WILDCARD_APPROX) (pre @ WILDCARD_APPROX # suf) = pre"
    using assms by (induction pre) auto
  have len: "eq_ignore_ascii_case a b \<Longrightarrow> length a = length b" for a b
    unfolding eq_ignore_ascii_case_def by (metis length_map)
  have nil: "eq_ignore_ascii_case [] []" by (simp add: eq_ignore_ascii_case_def)
  show ?thesis
  proof (cases "pre @ WILDCARD_APPROX # suf = [WILDCARD_APPROX]")
    case True
    then have "pre = []" "suf = []" by (cases pre; auto)+
    then have "match_part concrete (pre @ WILDCARD_APPROX # suf)"
      and "concrete = [] @ concrete @ []" "eq_ignore_ascii_case [] pre" "eq_ignore_ascii_case [] suf"
      using nil by (simp_all add: match_part_def)
    then show ?thesis by blast
  next
    case False
    have ne: "pre @ WILDCARD_APPROX # suf \<noteq> [WILDCARD_EQUALS]" "pre @ WILDCARD_APPROX # suf \<noteq> [WILDCARD_STAR]"
      by (cases pre; simp add: wildcards)+
    have m: "match_part concrete (pre @ WILDCARD_APPROX # suf) \<longleftrightarrow>
      length concrete \<ge> length pre + length suf \<and> eq_ignore_ascii_case (take (length pre) concrete) pre
      \<and> eq_ignore_ascii_case (drop (length concrete - length suf) concrete) suf"
      using False ne by (simp add: match_part_def tw Let_def)
    show ?thesis
    proof
      assume "match_part concrete (pre @ WILDCARD_APPROX # suf)"
      with m have l: "length concrete \<ge> length pre + length suf"
        and e: "eq_ignore_ascii_case (take (length pre) concrete) pre"
          "eq_ignore_ascii_case (drop (length concrete - length suf) concrete) suf" by auto
      have "concrete = take (length pre) concrete @ drop (length pre) (take (length concrete - length suf) concrete)
          @ drop (length concrete - length suf) concrete"
        using l by (metis append_assoc append_take_drop_id min.absorb1 take_take le_diff_conv2 add_leD2)
      with e show "\<exists>a mid b. concrete = a @ mid @ b \<and> eq_ignore_ascii_case a pre \<and> eq_ignore_ascii_case b suf"
        by blast
    next
      assume "\<exists>a mid b. concrete = a @ mid @ b \<and> eq_ignore_ascii_case a pre \<and> eq_ignore_ascii_case b suf"
      then obtain a mid b where c: "concrete = a @ mid @ b" "eq_ignore_ascii_case a pre" "eq_ignore_ascii_case b suf"
        by blast
      with len [OF c(2)] len [OF c(3)] m show "match_part concrete (pre @ WILDCARD_APPROX # suf)" by simp
    qed
  qed
qed

lemma match_part_refl: "match_part n n"
proof (cases "WILDCARD_APPROX \<in> set n")
  case True
  then obtain pre suf where n: "n = pre @ WILDCARD_APPROX # suf" "WILDCARD_APPROX \<notin> set pre"
    by (meson split_list_first)
  have "n = pre @ [WILDCARD_APPROX] @ suf" "eq_ignore_ascii_case pre pre" "eq_ignore_ascii_case suf suf"
    using n by (simp_all add: eq_ignore_ascii_case_def)
  then have "\<exists>a mid b. n = a @ mid @ b \<and> eq_ignore_ascii_case a pre \<and> eq_ignore_ascii_case b suf"
    by blast
  with match_part_approx [OF n(2), of n suf] show ?thesis unfolding n(1) by simp
qed (simp add: match_part_def eq_ignore_ascii_case_def)

section \<open>Properties\<close>

text \<open>Every NBP packet (up to fifteen tuples, names of up to thirty-two bytes) that
  fits the caller's buffer is serialized into exactly its bytes, leaves the rest of the buffer
  alone, and parses back to the same packet, whatever bytes follow.\<close>

theorem nbp_roundtrip:
  assumes "nbp_wf p" and "length (nbp_bytes p) \<le> length buffer"
  shows "\<exists>out. nbp_to_bytes p buffer = Inr (length (nbp_bytes p), out) \<and> length out = length buffer
    \<and> drop (length (nbp_bytes p)) out = drop (length (nbp_bytes p)) buffer
    \<and> nbp_from_bytes out = Inr p \<and> nbp_from_bytes (take (length (nbp_bytes p)) out) = Inr p"
  using nbp_to_bytes_eq [OF assms(2)] nbp_from_bytes_eq [OF assms(1)] nbp_from_bytes_eq [OF assms(1), of "[]"] assms(2)
  by simp

theorem nbp_roundtrip_witness:
  "\<exists>out. nbp_to_bytes \<lparr>nbp_operation = Lookup, nbp_transaction_id = 5, nbp_tuples =
      [\<lparr>tu_network = 1, tu_node = 2, tu_socket = 3, tu_enumerator = 0,
        tu_entity = \<lparr>en_object = [0x3D], en_type = [65], en_zone = [0x2A]\<rparr>\<rparr>]\<rparr> (replicate 100 0) = Inr (13, out)"
  using nbp_roundtrip [of "\<lparr>nbp_operation = Lookup, nbp_transaction_id = 5, nbp_tuples =
      [\<lparr>tu_network = 1, tu_node = 2, tu_socket = 3, tu_enumerator = 0,
        tu_entity = \<lparr>en_object = [0x3D], en_type = [65], en_zone = [0x2A]\<rparr>\<rparr>]\<rparr>" "replicate 100 0"]
  by (auto simp: nbp_wf_def entity_wf_def MAX_NBP_NAME_def MAX_NBP_TUPLES_def nbp_bytes_def tuples_bytes_def
      tuple_bytes_def length_entity_bytes)

text \<open>NBP wildcards: a pattern component with one approximation mark matches exactly the
  names that start with what precedes it and end with what follows it, without overlap and up
  to ASCII case; the three lone wildcards match everything; and every name matches itself.\<close>

theorem nbp_wildcard_match:
  assumes "WILDCARD_APPROX \<notin> set pre"
  shows "(match_part concrete (pre @ WILDCARD_APPROX # suf) \<longleftrightarrow>
      (\<exists>a mid b. concrete = a @ mid @ b \<and> eq_ignore_ascii_case a pre \<and> eq_ignore_ascii_case b suf))
    \<and> match_part concrete [WILDCARD_EQUALS] \<and> match_part concrete [WILDCARD_STAR]
    \<and> match_part concrete [WILDCARD_APPROX]
    \<and> entity_matches e e"
proof -
  have "match_part concrete [WILDCARD_EQUALS]" "match_part concrete [WILDCARD_STAR]"
    "match_part concrete [WILDCARD_APPROX]"
    by (simp_all add: match_part_def)
  moreover have "entity_matches e e" by (simp add: entity_matches_def match_part_refl)
  ultimately show ?thesis using match_part_approx [OF assms, of concrete suf] by blast
qed

theorem nbp_wildcard_match_witness:
  "match_part [67, 99, 50] ([99] @ WILDCARD_APPROX # [50]) \<longleftrightarrow>
    (\<exists>a mid b. [67, 99, 50] = a @ mid @ b \<and> eq_ignore_ascii_case a [99] \<and> eq_ignore_ascii_case b [50])"
  using nbp_wildcard_match [of "[99]" "[67, 99, 50]" "[50]"] by (simp add: WILDCARD_APPROX_def)

end
