(* ===== verification/Core_Atp.thy ===== *)
theory Core_Atp
  imports Ordered_Map Timed_Machine Pkt_Transport Pkt_Nbp
begin

text \<open>
  The ATP endpoint of src/tailtalk-core/src/atp.rs: requestor and responder on one socket, with
  reply cache, duplicate filter and retransmission. A queue drained by the caller
  (\<open>outbox\<close>, \<open>events\<close>) is a list with the oldest first.
\<close>

section \<open>State\<close>

definition ATP_MAX_DATA_PER_PACKET :: nat where "ATP_MAX_DATA_PER_PACKET = 578"
definition RETRY_INTERVAL :: micros where "RETRY_INTERVAL = 2000000"
definition MAX_RETRIES :: nat where "MAX_RETRIES = 8"
definition RELEASE_TIMEOUT :: micros where "RELEASE_TIMEOUT = 30000000"
definition REPLY_CACHE_LEN :: nat where "REPLY_CACHE_LEN = 16"

datatype AtpEvent =
    EvRequest (ev_source: ServiceAddress) (ev_tid: u16) (ev_user: bytes) (ev_data: bytes) (ev_bitmap: u8) (ev_xo: bool)
  | EvResponse u16 bytes bytes
  | EvRequestFailed u16

record PendingRequest =
  pr_dest :: ServiceAddress
  pr_raw_packet :: bytes
  pr_requested_bitmap :: u8
  pr_received :: "(u8, bytes) omap"
  pr_user_bytes :: "bytes option"
  pr_eom_seq :: "u8 option"
  pr_retries :: nat
  pr_retry_at :: micros

record CachedResponse =
  cr_source :: ServiceAddress
  cr_tid :: u16
  cr_packets :: "bytes list"
  cr_expires_at :: micros

record AtpEndpoint =
  ae_local_socket :: u8
  ae_next_tid :: u16
  ae_pending :: "(u16, PendingRequest) omap"
  ae_reply_cache :: "CachedResponse list"
  ae_in_progress :: "(ServiceAddress \<times> u16) list"
  ae_outbox :: "(ServiceAddress \<times> bytes) list"
  ae_events :: "AtpEvent list"

definition atp_new :: "u8 \<Rightarrow> AtpEndpoint" where
  "atp_new local_socket = \<lparr>ae_local_socket = local_socket, ae_next_tid = 1, ae_pending = [],
     ae_reply_cache = [], ae_in_progress = [], ae_outbox = [], ae_events = []\<rparr>"

section \<open>Requests\<close>

text \<open>The \<open>loop\<close> of \<open>allocate_tid\<close>: \<open>None\<close> is a loop that never returns.\<close>

partial_function (option) allocate_tid_loop ::
  "(u16, PendingRequest) omap \<Rightarrow> u16 \<Rightarrow> (u16 \<times> u16) option" where
  "allocate_tid_loop pend next_tid =
     (let tid = next_tid; next' = next_tid + 1
      in if tid \<noteq> 0 \<and> map_of pend tid = None then Some (tid, next')
         else allocate_tid_loop pend next')"

definition allocate_tid :: "AtpEndpoint \<Rightarrow> (u16 \<times> AtpEndpoint) option" where
  "allocate_tid e =
     (case allocate_tid_loop (ae_pending e) (ae_next_tid e) of
        None \<Rightarrow> None
      | Some (tid, n) \<Rightarrow> Some (tid, e\<lparr>ae_next_tid := n\<rparr>))"

text \<open>A header written into a zeroed buffer that has room, followed by the data.\<close>

definition atp_frame :: "AtpPacket \<Rightarrow> bytes \<Rightarrow> bytes" where
  "atp_frame p data =
     (case atp_to_bytes p (replicate (8 + length data) 0) of
        Inl _ \<Rightarrow> []
      | Inr (_, buf) \<Rightarrow> put 8 data buf)"

definition atp_request ::
  "ServiceAddress \<Rightarrow> bytes \<Rightarrow> bytes \<Rightarrow> u8 \<Rightarrow> micros \<Rightarrow> AtpEndpoint \<Rightarrow> (u16 \<times> AtpEndpoint) option" where
  "atp_request dest user_bytes data bitmap now e =
     (case allocate_tid e of
        None \<Rightarrow> None
      | Some (tid, e1) \<Rightarrow>
          (let packet = \<lparr>atp_function = AtpRequest, atp_xo = True, atp_eom = False, atp_sts = False,
                 atp_bitmap_seq = bitmap, atp_tid = tid, atp_user_bytes = user_bytes\<rparr>;
               buf = atp_frame packet data
           in Some (tid, e1\<lparr>ae_outbox := ae_outbox e1 @ [(dest, buf)],
                 ae_pending := om_insert tid \<lparr>pr_dest = dest, pr_raw_packet = buf,
                   pr_requested_bitmap = bitmap, pr_received = [], pr_user_bytes = None,
                   pr_eom_seq = None, pr_retries = 0, pr_retry_at = now + RETRY_INTERVAL\<rparr> (ae_pending e1)\<rparr>)))"

definition send_alo :: "ServiceAddress \<Rightarrow> bytes \<Rightarrow> AtpEndpoint \<Rightarrow> AtpEndpoint option" where
  "send_alo dest user_bytes e =
     (case allocate_tid e of
        None \<Rightarrow> None
      | Some (tid, e1) \<Rightarrow>
          (let packet = \<lparr>atp_function = AtpRequest, atp_xo = False, atp_eom = False, atp_sts = False,
                 atp_bitmap_seq = 0xFF, atp_tid = tid, atp_user_bytes = user_bytes\<rparr>
           in Some (e1\<lparr>ae_outbox := ae_outbox e1 @ [(dest, atp_frame packet [])]\<rparr>)))"

section \<open>Responses\<close>

definition response_packet :: "u16 \<Rightarrow> nat \<Rightarrow> nat \<Rightarrow> bytes \<times> bytes \<Rightarrow> bytes" where
  "response_packet tid count i c =
     atp_frame \<lparr>atp_function = AtpResponse, atp_xo = False, atp_eom = (i = count - 1), atp_sts = False,
       atp_bitmap_seq = word_of_nat i, atp_tid = tid, atp_user_bytes = fst c\<rparr> (snd c)"

definition respond_packets ::
  "ServiceAddress \<Rightarrow> u16 \<Rightarrow> (bytes \<times> bytes) list \<Rightarrow> micros \<Rightarrow> AtpEndpoint \<Rightarrow> AtpEndpoint" where
  "respond_packets source tid chunks now e =
     (let count = max 1 (min 8 (length chunks));
          packets = map (\<lambda>(i, c). response_packet tid count i c) (enumerate 0 (take 8 chunks));
          e1 = e\<lparr>ae_outbox := ae_outbox e @ map (\<lambda>p. (source, p)) packets\<rparr>;
          e2 = e1\<lparr>ae_in_progress := filter (\<lambda>(s, t). \<not> (s = source \<and> t = tid)) (ae_in_progress e1)\<rparr>;
          cache = (if length (ae_reply_cache e2) = REPLY_CACHE_LEN then tl (ae_reply_cache e2) else ae_reply_cache e2)
      in e2\<lparr>ae_reply_cache := cache @ [\<lparr>cr_source = source, cr_tid = tid, cr_packets = packets,
             cr_expires_at = now + RELEASE_TIMEOUT\<rparr>]\<rparr>)"

definition atp_respond ::
  "ServiceAddress \<Rightarrow> u16 \<Rightarrow> bytes \<Rightarrow> bytes \<Rightarrow> nat \<Rightarrow> micros \<Rightarrow> AtpEndpoint \<Rightarrow> AtpEndpoint" where
  "atp_respond source tid user_bytes data chunk_size now e =
     (let chunks = (if data = [] then [(user_bytes, [])]
                    else map (\<lambda>c. (user_bytes, c)) (take 8 (chunks_of (max 1 chunk_size) data)))
      in respond_packets source tid chunks now e)"

section \<open>Datagrams\<close>

definition atp_popcount :: "u8 \<Rightarrow> nat" where
  "atp_popcount w = length (filter (\<lambda>i. bit w i) [0..<8])"

definition atp_on_request :: "ServiceAddress \<Rightarrow> AtpPacket \<Rightarrow> bytes \<Rightarrow> AtpEndpoint \<Rightarrow> AtpEndpoint" where
  "atp_on_request src packet data e =
     (case find (\<lambda>c. cr_source c = src \<and> cr_tid c = atp_tid packet) (ae_reply_cache e) of
        Some cached \<Rightarrow> e\<lparr>ae_outbox := ae_outbox e @ map (\<lambda>p. (src, p)) (cr_packets cached)\<rparr>
      | None \<Rightarrow>
          (if atp_xo packet \<and> (src, atp_tid packet) \<in> set (ae_in_progress e) then e
           else
             let e1 = (if atp_xo packet
                       then e\<lparr>ae_in_progress :=
                              (if length (ae_in_progress e) \<ge> REPLY_CACHE_LEN then tl (ae_in_progress e)
                               else ae_in_progress e) @ [(src, atp_tid packet)]\<rparr>
                       else e);
                 bitmap = (if atp_bitmap_seq packet = 0 then 0xFF else atp_bitmap_seq packet)
             in e1\<lparr>ae_events := ae_events e1 @
                  [EvRequest src (atp_tid packet) (atp_user_bytes packet) data bitmap (atp_xo packet)]\<rparr>))"

text \<open>
  \<open>atp_assemble\<close> collects the payloads 0 to \<open>expected\<close>; \<open>None\<close> is the early \<open>return\<close> on a hole.
  The count is cast to a \<open>u8\<close> before the loop, as in the code.
\<close>

fun atp_collect :: "(u8, bytes) omap \<Rightarrow> nat list \<Rightarrow> bytes \<Rightarrow> bytes option" where
  "atp_collect received [] full = Some full"
| "atp_collect received (i # is) full =
     (case map_of received (word_of_nat i) of
        Some p \<Rightarrow> atp_collect received is (full @ p)
      | None \<Rightarrow> None)"

definition atp_assemble :: "(u8, bytes) omap \<Rightarrow> nat \<Rightarrow> bytes option" where
  "atp_assemble received expected = atp_collect received [0..<unat (word_of_nat expected :: u8)] []"

definition atp_release_packet :: "u16 \<Rightarrow> bytes" where
  "atp_release_packet tid =
     atp_frame \<lparr>atp_function = AtpRelease, atp_xo = False, atp_eom = False, atp_sts = False,
       atp_bitmap_seq = 0, atp_tid = tid, atp_user_bytes = [0, 0, 0, 0]\<rparr> []"

definition pr_add :: "AtpPacket \<Rightarrow> bytes \<Rightarrow> PendingRequest \<Rightarrow> PendingRequest" where
  "pr_add packet data st =
     st\<lparr>pr_received := om_insert (atp_bitmap_seq packet) data (pr_received st),
        pr_user_bytes := (if pr_user_bytes st = None then Some (atp_user_bytes packet) else pr_user_bytes st),
        pr_eom_seq := (if atp_eom packet then Some (atp_bitmap_seq packet) else pr_eom_seq st)\<rparr>"

definition pr_complete :: "PendingRequest \<Rightarrow> bool" where
  "pr_complete st =
     (case pr_eom_seq st of
        Some eom \<Rightarrow> list_all (\<lambda>i. map_of (pr_received st) (word_of_nat i) \<noteq> None) [0..<unat eom + 1]
      | None \<Rightarrow> pr_received st \<noteq> [] \<and> length (pr_received st) = atp_popcount (pr_requested_bitmap st))"

definition atp_on_response :: "ServiceAddress \<Rightarrow> AtpPacket \<Rightarrow> bytes \<Rightarrow> AtpEndpoint \<Rightarrow> AtpEndpoint" where
  "atp_on_response src packet data e =
     (case map_of (ae_pending e) (atp_tid packet) of
        None \<Rightarrow> e
      | Some st0 \<Rightarrow>
          (let st = pr_add packet data st0 in
           if \<not> pr_complete st then e\<lparr>ae_pending := om_insert (atp_tid packet) st (ae_pending e)\<rparr>
           else
             let e1 = e\<lparr>ae_pending := om_remove (atp_tid packet) (ae_pending e)\<rparr>;
                 expected = (case pr_eom_seq st of Some x \<Rightarrow> unat x + 1 | None \<Rightarrow> length (pr_received st))
             in (case atp_assemble (pr_received st) expected of
                   None \<Rightarrow> e1
                 | Some full \<Rightarrow>
                     e1\<lparr>ae_outbox := ae_outbox e1 @ [(src, atp_release_packet (atp_tid packet))],
                        ae_events := ae_events e1 @
                          [EvResponse (atp_tid packet)
                             (case pr_user_bytes st of Some u \<Rightarrow> u | None \<Rightarrow> [0, 0, 0, 0]) full]\<rparr>)))"

definition atp_on_release :: "ServiceAddress \<Rightarrow> AtpPacket \<Rightarrow> AtpEndpoint \<Rightarrow> AtpEndpoint" where
  "atp_on_release src packet e =
     e\<lparr>ae_reply_cache := filter (\<lambda>c. \<not> (cr_source c = src \<and> cr_tid c = atp_tid packet)) (ae_reply_cache e)\<rparr>"

definition atp_handle_datagram :: "ServiceAddress \<Rightarrow> bytes \<Rightarrow> micros \<Rightarrow> AtpEndpoint \<Rightarrow> AtpEndpoint" where
  "atp_handle_datagram src payload now e =
     (case atp_parse payload of
        Inl _ \<Rightarrow> e
      | Inr packet \<Rightarrow>
          (let data = drop 8 payload in
           case atp_function packet of
             AtpRequest \<Rightarrow> atp_on_request src packet data e
           | AtpResponse \<Rightarrow> atp_on_response src packet data e
           | AtpRelease \<Rightarrow> atp_on_release src packet e))"

section \<open>Time\<close>

definition atp_next_deadline :: "AtpEndpoint \<Rightarrow> micros option" where
  "atp_next_deadline e =
     (let retries = min_deadline (map (\<lambda>(_, p). pr_retry_at p) (ae_pending e));
          expiries = min_deadline (map cr_expires_at (ae_reply_cache e))
      in case (retries, expiries) of
           (Some a, Some b) \<Rightarrow> Some (min a b)
         | (Some a, None) \<Rightarrow> Some a
         | (None, b) \<Rightarrow> b)"

text \<open>The first loop of \<open>poll\<close>: the updated entries, the failed handles and the packets to resend.\<close>

fun atp_scan ::
  "micros \<Rightarrow> (u16, PendingRequest) omap \<Rightarrow>
   (u16, PendingRequest) omap \<times> u16 list \<times> (ServiceAddress \<times> bytes) list" where
  "atp_scan now [] = ([], [], [])"
| "atp_scan now ((tid, p) # m) =
     (let (m', failed, resend) = atp_scan now m in
      if now < pr_retry_at p then ((tid, p) # m', failed, resend)
      else
        let p' = p\<lparr>pr_retries := pr_retries p + 1, pr_retry_at := now + RETRY_INTERVAL\<rparr>
        in if pr_retries p' > MAX_RETRIES then ((tid, p') # m', tid # failed, resend)
           else ((tid, p') # m', failed, (pr_dest p', pr_raw_packet p') # resend))"

definition atp_poll :: "micros \<Rightarrow> AtpEndpoint \<Rightarrow> AtpEndpoint" where
  "atp_poll now e =
     (let (pend, failed, resend) = atp_scan now (ae_pending e)
      in e\<lparr>ae_pending := foldl (\<lambda>m tid. om_remove tid m) pend failed,
           ae_events := ae_events e @ map EvRequestFailed failed,
           ae_outbox := ae_outbox e @ resend,
           ae_reply_cache := filter (\<lambda>c. cr_expires_at c > now) (ae_reply_cache e)\<rparr>)"

definition atp_poll_transmit :: "AtpEndpoint \<Rightarrow> (ServiceAddress \<times> bytes) option \<times> AtpEndpoint" where
  "atp_poll_transmit e =
     (case ae_outbox e of [] \<Rightarrow> (None, e) | x # xs \<Rightarrow> (Some x, e\<lparr>ae_outbox := xs\<rparr>))"

definition atp_poll_event :: "AtpEndpoint \<Rightarrow> AtpEvent option \<times> AtpEndpoint" where
  "atp_poll_event e =
     (case ae_events e of [] \<Rightarrow> (None, e) | x # xs \<Rightarrow> (Some x, e\<lparr>ae_events := xs\<rparr>))"

section \<open>Packets on the wire\<close>

lemma atp_frame_eq: "atp_wf p \<Longrightarrow> atp_frame p data = atp_header p @ data"
  by (simp add: atp_frame_def atp_to_bytes_def put_0 length_atp_header put_at)

lemma atp_parse_frame: "atp_wf p \<Longrightarrow> atp_parse (atp_frame p data) = Inr p"
  by (simp add: atp_frame_eq atp_parse_header)

lemma atp_frame_data: "atp_wf p \<Longrightarrow> drop 8 (atp_frame p data) = data"
  by (simp add: atp_frame_eq length_atp_header)

lemma atp_handle_frame:
  "atp_wf p \<Longrightarrow> atp_handle_datagram src (atp_frame p data) now e =
     (case atp_function p of
        AtpRequest \<Rightarrow> atp_on_request src p data e
      | AtpResponse \<Rightarrow> atp_on_response src p data e
      | AtpRelease \<Rightarrow> atp_on_release src p e)"
  by (simp add: atp_handle_datagram_def atp_parse_frame atp_frame_data)

section \<open>Allocation terminates\<close>

lemma allocate_tid_loop_finds:
  assumes "t \<noteq> 0" and "map_of pend t = None"
  shows "\<exists>tid n'. allocate_tid_loop pend n = Some (tid, n') \<and> tid \<noteq> 0 \<and> map_of pend tid = None"
proof (induction "unat (t - n)" arbitrary: n rule: less_induct)
  case less
  show ?case
  proof (cases "n \<noteq> 0 \<and> map_of pend n = None")
    case True
    then show ?thesis by (subst allocate_tid_loop.simps) (simp add: Let_def)
  next
    case False
    with assms have "t - n \<noteq> 0" by auto
    then have "0 < unat (t - n)" by (simp add: unat_gt_0)
    then have "unat (t - n - 1) < unat (t - n)" using \<open>t - n \<noteq> 0\<close> by (simp add: unat_minus_one)
    moreover have "t - n - 1 = t - (n + 1)" by (simp add: algebra_simps)
    ultimately have "unat (t - (n + 1)) < unat (t - n)" by simp
    from less [OF this] False show ?thesis
      by (subst allocate_tid_loop.simps) (simp only: Let_def if_False)
  qed
qed

lemma free_tid:
  assumes "length pend < 65535"
  shows "\<exists>t. t \<noteq> (0 :: u16) \<and> map_of pend t = None"
proof (rule ccontr)
  assume "\<not> ?thesis"
  then have "UNIV - {0} \<subseteq> fst ` set pend" by (auto simp: map_of_eq_None_iff)
  then have "card (UNIV - {0 :: u16}) \<le> card (fst ` set pend)" by (intro card_mono) simp_all
  also have "\<dots> \<le> length pend" by (metis card_length length_map set_map)
  also have "card (UNIV - {0 :: u16}) = 65535" by (simp add: card_Diff_singleton card_word)
  finally show False using assms by simp
qed

lemma allocate_tid_ok:
  assumes "length (ae_pending e) < 65535"
  shows "\<exists>tid n. allocate_tid e = Some (tid, e\<lparr>ae_next_tid := n\<rparr>) \<and> tid \<noteq> 0 \<and> map_of (ae_pending e) tid = None"
proof -
  from free_tid [OF assms] obtain t where "t \<noteq> 0" "map_of (ae_pending e) t = None" by blast
  from allocate_tid_loop_finds [OF this, of "ae_next_tid e"] show ?thesis
    by (auto simp: allocate_tid_def)
qed

section \<open>Sleeping until the deadline\<close>

lemma atp_scan_early: "\<forall>e\<in>set m. now < pr_retry_at (snd e) \<Longrightarrow> atp_scan now m = (m, [], [])"
  by (induction m) auto

lemma before_min: "before_deadline (Some (min a b)) now \<longleftrightarrow> now < a \<and> now < b"
  by (simp add: before_deadline_def)

lemma atp_deadline_before:
  "before_deadline (atp_next_deadline e) now \<longleftrightarrow>
     (\<forall>x\<in>set (ae_pending e). now < pr_retry_at (snd x)) \<and> (\<forall>c\<in>set (ae_reply_cache e). now < cr_expires_at c)"
proof -
  let ?r = "min_deadline (map (\<lambda>(_, p). pr_retry_at p) (ae_pending e))" and ?x = "min_deadline (map cr_expires_at (ae_reply_cache e))"
  have "before_deadline (atp_next_deadline e) now \<longleftrightarrow> before_deadline ?r now \<and> before_deadline ?x now"
    by (cases ?r; cases ?x) (simp_all add: atp_next_deadline_def before_deadline_def)
  then show ?thesis by (simp add: min_deadline_before split_beta)
qed

interpretation atp_timer: timed_machine atp_next_deadline "\<lambda>now e. ((), atp_poll now e)" "()" "\<lambda>_. True"
proof unfold_locales
  fix e now assume "before_deadline (atp_next_deadline e) now"
  then have "\<forall>x\<in>set (ae_pending e). now < pr_retry_at (snd x)" and c: "\<forall>c\<in>set (ae_reply_cache e). now < cr_expires_at c"
    by (simp_all add: atp_deadline_before)
  from atp_scan_early [OF this(1)] c have "atp_poll now e = e"
    by (cases e) (simp add: atp_poll_def)
  then show "((), atp_poll now e) = ((), e)" by simp
qed

section \<open>Exactly-once delivery\<close>

text \<open>An inbound transaction the endpoint knows: answered and cached, or being answered.\<close>

definition atp_known :: "ServiceAddress \<Rightarrow> u16 \<Rightarrow> AtpEndpoint \<Rightarrow> bool" where
  "atp_known src tid e \<longleftrightarrow> (src, tid) \<in> set (ae_in_progress e)
     \<or> (\<exists>c\<in>set (ae_reply_cache e). cr_source c = src \<and> cr_tid c = tid)"

datatype AtpInput =
    InDatagram ServiceAddress bytes micros
  | InRespond ServiceAddress u16 "(bytes \<times> bytes) list" micros
  | InPoll micros
  | InDrainEvent
  | InDrainTransmit

fun atp_input :: "AtpInput \<Rightarrow> AtpEndpoint \<Rightarrow> AtpEndpoint" where
  "atp_input (InDatagram src payload now) e = atp_handle_datagram src payload now e"
| "atp_input (InRespond src tid chunks now) e = respond_packets src tid chunks now e"
| "atp_input (InPoll now) e = atp_poll now e"
| "atp_input InDrainEvent e = snd (atp_poll_event e)"
| "atp_input InDrainTransmit e = snd (atp_poll_transmit e)"

text \<open>
  The inputs that do not make the endpoint forget the transaction \<open>(src, tid)\<close>: anything but its
  release, a poll at or after its expiry, and a new transaction that pushes it out of a full
  queue of sixteen.
\<close>

fun atp_keeps :: "ServiceAddress \<Rightarrow> u16 \<Rightarrow> AtpEndpoint \<Rightarrow> AtpInput \<Rightarrow> bool" where
  "atp_keeps src tid e (InDatagram s payload now) =
     (case atp_parse payload of
        Inl _ \<Rightarrow> True
      | Inr p \<Rightarrow> \<not> (atp_function p = AtpRelease \<and> s = src \<and> atp_tid p = tid)
          \<and> (length (ae_in_progress e) \<ge> REPLY_CACHE_LEN \<longrightarrow> (src, tid) \<in> set (tl (ae_in_progress e))
              \<or> (\<exists>c\<in>set (ae_reply_cache e). cr_source c = src \<and> cr_tid c = tid)))"
| "atp_keeps src tid e (InRespond s t chunks now) =
     ((s = src \<and> t = tid) \<or> (src, tid) \<in> set (ae_in_progress e)
      \<or> length (ae_reply_cache e) \<noteq> REPLY_CACHE_LEN
      \<or> (\<exists>c\<in>set (tl (ae_reply_cache e)). cr_source c = src \<and> cr_tid c = tid))"
| "atp_keeps src tid e (InPoll now) =
     ((src, tid) \<in> set (ae_in_progress e)
      \<or> (\<exists>c\<in>set (ae_reply_cache e). cr_source c = src \<and> cr_tid c = tid \<and> now < cr_expires_at c))"
| "atp_keeps src tid e InDrainEvent = True"
| "atp_keeps src tid e InDrainTransmit = True"

text \<open>Whether an input delivers the transaction to the application: the event it queues.\<close>

definition atp_delivers :: "ServiceAddress \<Rightarrow> u16 \<Rightarrow> AtpInput \<Rightarrow> AtpEndpoint \<Rightarrow> bool" where
  "atp_delivers src tid i e =
     list_ex (\<lambda>ev. case ev of EvRequest s t _ _ _ x \<Rightarrow> s = src \<and> t = tid \<and> x | _ \<Rightarrow> False)
       (drop (length (ae_events e)) (ae_events (atp_input i e)))"

lemma tl_subset: "x \<in> set (tl xs) \<Longrightarrow> x \<in> set xs"
  by (cases xs) auto

lemma atp_on_request_known:
  assumes "atp_known src tid e" and "atp_keeps src tid e (InDatagram s payload now)"
    and "atp_parse payload = Inr p"
  shows "atp_known src tid (atp_on_request s p d e)"
  using assms
  by (auto simp: atp_on_request_def atp_known_def Let_def dest: tl_subset split: option.splits)

lemma atp_on_response_fields:
  "ae_in_progress (atp_on_response s p d e) = ae_in_progress e"
  "ae_reply_cache (atp_on_response s p d e) = ae_reply_cache e"
  by (simp_all add: atp_on_response_def Let_def split: option.splits)

lemma respond_known_self: "atp_known s t (respond_packets s t chunks now e)"
  by (auto simp: respond_packets_def atp_known_def Let_def)

lemma respond_packets_fields:
  "ae_in_progress (respond_packets s t chunks now e) = filter (\<lambda>(s', t'). \<not> (s' = s \<and> t' = t)) (ae_in_progress e)"
  "set (ae_reply_cache (respond_packets s t chunks now e)) \<supseteq>
     (if length (ae_reply_cache e) = REPLY_CACHE_LEN then set (tl (ae_reply_cache e)) else set (ae_reply_cache e))"
  "ae_events (respond_packets s t chunks now e) = ae_events e"
  by (auto simp: respond_packets_def Let_def)

lemma atp_delivers_iff:
  "atp_delivers src tid i e \<longleftrightarrow>
     (\<exists>ub d b. ae_events (atp_input i e) = ae_events e @ [EvRequest src tid ub d b True])"
proof -
  have "(\<exists>ev. ae_events (atp_input i e) = ae_events e @ [ev] \<and> (\<exists>s t ub d b x. ev = EvRequest s t ub d b x))
    \<or> ae_events (atp_input i e) = ae_events e
    \<or> (\<exists>r. ae_events (atp_input i e) = ae_events e @ [r] \<and> (\<exists>t ub d. r = EvResponse t ub d))
    \<or> (\<exists>fs. ae_events (atp_input i e) = ae_events e @ map EvRequestFailed fs)
    \<or> ae_events (atp_input i e) = tl (ae_events e) \<and> ae_events e \<noteq> []"
    by (cases i) (auto simp: atp_handle_datagram_def atp_on_request_def atp_on_response_def atp_on_release_def
        atp_poll_event_def atp_poll_transmit_def atp_poll_def respond_packets_fields(3) Let_def
        split: sum.splits AtpFunction.splits option.splits list.splits prod.splits)
  then show ?thesis
  proof (elim disjE exE conjE)
    fix fs assume fs: "ae_events (atp_input i e) = ae_events e @ map EvRequestFailed fs"
    then have "\<not> atp_delivers src tid i e" by (simp add: atp_delivers_def list_ex_iff)
    moreover have "map EvRequestFailed fs \<noteq> [EvRequest src tid ub d b True]" for ub d b by auto
    ultimately show ?thesis using fs by simp
  next
    assume t: "ae_events (atp_input i e) = tl (ae_events e)" and ne: "ae_events e \<noteq> []"
    then have "length (ae_events (atp_input i e)) < length (ae_events e)" by simp
    then have "\<not> atp_delivers src tid i e"
      and "ae_events (atp_input i e) \<noteq> ae_events e @ [EvRequest src tid ub d b True]" for ub d b
      by (simp add: atp_delivers_def, metis length_append not_add_less1)
    then show ?thesis by blast
  qed (auto simp: atp_delivers_def)
qed

lemma atp_keeps_known:
  assumes "atp_known src tid e" and "atp_keeps src tid e i"
  shows "atp_known src tid (atp_input i e)"
proof (cases i)
  case (InDatagram s payload now)
  show ?thesis
  proof (cases "atp_parse payload")
    case (Inl err)
    with assms InDatagram show ?thesis by (simp add: atp_handle_datagram_def)
  next
    case (Inr p)
    with assms InDatagram have "atp_known src tid (atp_on_request s p (drop 8 payload) e)"
      using atp_on_request_known by blast
    moreover have "atp_known src tid (atp_on_response s p (drop 8 payload) e)"
      using assms(1) by (simp add: atp_known_def atp_on_response_fields)
    moreover have "atp_function p = AtpRelease \<Longrightarrow> atp_known src tid (atp_on_release s p e)"
      using assms InDatagram Inr by (auto simp: atp_known_def atp_on_release_def)
    ultimately show ?thesis
      using InDatagram Inr by (simp add: atp_handle_datagram_def Let_def split: AtpFunction.splits)
  qed
next
  case (InRespond s t chunks now)
  show ?thesis
  proof (cases "s = src \<and> t = tid")
    case True
    then show ?thesis using InRespond respond_known_self by simp
  next
    case False
    with assms InRespond respond_packets_fields(1,2) [where s = s and t = t and chunks = chunks and now = now and e = e] show ?thesis
      by (auto simp: atp_known_def dest: tl_subset split: if_splits)
  qed
next
  case (InPoll now)
  with assms show ?thesis
    by (auto simp: atp_known_def atp_poll_def split: prod.splits)
qed (use assms in \<open>auto simp: atp_known_def atp_poll_event_def atp_poll_transmit_def split: list.splits\<close>)

lemma atp_known_no_delivery:
  assumes "atp_known src tid e"
  shows "\<not> atp_delivers src tid i e"
proof
  assume "atp_delivers src tid i e"
  then obtain ub d b where ev: "ae_events (atp_input i e) = ae_events e @ [EvRequest src tid ub d b True]"
    by (auto simp: atp_delivers_iff)
  show False
  proof (cases i)
    case (InDatagram s payload now)
    show False
    proof (cases "atp_parse payload")
      case (Inl err)
      with ev InDatagram show False by (simp add: atp_handle_datagram_def)
    next
      case (Inr p)
      show False
      proof (cases "atp_function p")
        case AtpRequest
        with ev InDatagram Inr have ev': "ae_events (atp_on_request s p (drop 8 payload) e) = ae_events e @ [EvRequest src tid ub d b True]"
          by (simp add: atp_handle_datagram_def)
        then have "s = src" "atp_tid p = tid" "atp_xo p"
          and "find (\<lambda>c. cr_source c = s \<and> cr_tid c = atp_tid p) (ae_reply_cache e) = None"
          and "\<not> (atp_xo p \<and> (s, atp_tid p) \<in> set (ae_in_progress e))"
          by (auto simp: atp_on_request_def Let_def split: option.splits if_splits)
        with assms show False by (auto simp: atp_known_def find_none_iff)
      qed (use ev InDatagram Inr in \<open>auto simp: atp_handle_datagram_def atp_on_response_def atp_on_release_def Let_def
            split: option.splits if_splits\<close>)
    qed
  next
    case (InRespond s t chunks now)
    with ev respond_packets_fields(3) show False by simp
  next
    case (InPoll now)
    with ev have "map EvRequestFailed (fst (snd (atp_scan now (ae_pending e)))) = [EvRequest src tid ub d b True]"
      by (simp add: atp_poll_def split: prod.splits)
    then show False by auto
  next
    case InDrainEvent
    with ev show False
      by (auto simp: atp_poll_event_def split: list.splits dest: arg_cong [of _ _ length])
  next
    case InDrainTransmit
    with ev show False by (auto simp: atp_poll_transmit_def split: list.splits)
  qed
qed

lemma atp_first_delivery_known:
  assumes "atp_delivers src tid i e"
  shows "atp_known src tid (atp_input i e)"
proof (cases "\<exists>s payload now. i = InDatagram s payload now")
  case True
  then obtain s payload now where i: "i = InDatagram s payload now" by blast
  from assms obtain ub d b where ev: "ae_events (atp_input i e) = ae_events e @ [EvRequest src tid ub d b True]"
    by (auto simp: atp_delivers_iff)
  then show ?thesis
    unfolding i
    by (auto simp: atp_handle_datagram_def atp_on_request_def atp_on_response_def atp_on_release_def atp_known_def Let_def
        split: sum.splits AtpFunction.splits option.splits if_splits)
next
  case False
  with assms show ?thesis
    by (cases i) (auto simp: atp_delivers_iff respond_packets_fields(3) atp_poll_event_def atp_poll_transmit_def atp_poll_def
        split: list.splits prod.splits dest: arg_cong [of _ _ length])
qed

end
