(* ===== verification/Core_Pap.thy ===== *)
theory Core_Pap
  imports Core_Atp "HOL-Library.Monad_Syntax"
begin

text \<open>
  The PAP printer server of src/tailtalk-core/src/pap.rs: one session at a time over two ATP
  endpoints, with pulls gated by sink credit. \<open>None\<close> is an operation that does not return (the
  identifier loop of the ATP endpoint); the lemmas show that it never happens.
\<close>

section \<open>State\<close>

definition PAP_MAX_DATA_PER_PACKET :: nat where "PAP_MAX_DATA_PER_PACKET = 512"
definition FLOW_QUANTUM :: u8 where "FLOW_QUANTUM = 8"
definition PULL_CAPACITY :: nat where "PULL_CAPACITY = unat FLOW_QUANTUM * PAP_MAX_DATA_PER_PACKET"
definition READ_IDLE_ANSWER :: micros where "READ_IDLE_ANSWER = 2000000"
definition TICKLE_INTERVAL :: micros where "TICKLE_INTERVAL = 30000000"
definition INACTIVITY_TIMEOUT :: micros where "INACTIVITY_TIMEOUT = 120000000"
definition READ_REPLY_CACHE_LEN :: nat where "READ_REPLY_CACHE_LEN = 8"

definition next_pap_seq :: "u16 \<Rightarrow> u16" where
  "next_pap_seq s = (if s = 0xFFFF then 1 else s + 1)"

datatype PapEvent =
    PapOpened ServiceAddress
  | ToPrinter bytes
  | JobEof
  | PapClosed

record PapSession =
  ss_conn_id :: u8
  ss_client :: ServiceAddress
  pull_seq :: u16
  outstanding_pull :: "u16 option"
  job_bytes :: nat
  read_seq :: u16
  read_cache :: "(u16 \<times> bytes \<times> bytes) list"
  pending_read :: "(ServiceAddress \<times> u16 \<times> u8 \<times> u16) option"
  stdout :: bytes
  eof_queued :: bool
  last_client_write :: micros
  last_activity :: micros
  next_tickle :: micros

record PapServer =
  ps_listener :: AtpEndpoint
  ps_conn_ep :: AtpEndpoint
  ps_status :: bytes
  ps_session :: "PapSession option"
  sink_credit :: nat
  ps_events :: "PapEvent list"

definition pap_new :: "u8 \<Rightarrow> u8 \<Rightarrow> PapServer" where
  "pap_new listener_socket conn_socket = \<lparr>ps_listener = atp_new listener_socket, ps_conn_ep = atp_new conn_socket,
     ps_status = [], ps_session = None, sink_credit = 0, ps_events = []\<rparr>"

definition pap_busy :: "PapServer \<Rightarrow> bool" where
  "pap_busy s = (ps_session s \<noteq> None)"

definition set_status :: "bytes \<Rightarrow> PapServer \<Rightarrow> PapServer" where
  "set_status status s = s\<lparr>ps_status := take 255 status\<rparr>"

definition status_pascal :: "PapServer \<Rightarrow> bytes" where
  "status_pascal s = word_of_nat (length (ps_status s)) # ps_status s"

definition pap_event :: "PapEvent \<Rightarrow> PapServer \<Rightarrow> PapServer" where
  "pap_event ev s = s\<lparr>ps_events := ps_events s @ [ev]\<rparr>"

definition pap_packet :: "u8 \<Rightarrow> PapFunction \<Rightarrow> u16 \<Rightarrow> bool \<Rightarrow> bytes \<Rightarrow> PapPacket" where
  "pap_packet cid f seq eof payload =
     \<lparr>pap_connection_id = cid, pap_function = f, pap_sequence_num = seq, pap_eof = eof, pap_data = payload\<rparr>"

section \<open>Replies\<close>

definition respond_pap ::
  "bool \<Rightarrow> ServiceAddress \<Rightarrow> u16 \<Rightarrow> PapPacket \<Rightarrow> micros \<Rightarrow> PapServer \<Rightarrow> PapServer" where
  "respond_pap on_listener source tid p now s =
     (let (ub, d) = pap_to_atp_parts p in
      if on_listener
      then s\<lparr>ps_listener := atp_respond source tid ub d PAP_MAX_DATA_PER_PACKET now (ps_listener s)\<rparr>
      else s\<lparr>ps_conn_ep := atp_respond source tid ub d PAP_MAX_DATA_PER_PACKET now (ps_conn_ep s)\<rparr>)"

definition maybe_pull :: "micros \<Rightarrow> PapServer \<Rightarrow> PapServer option" where
  "maybe_pull now s =
     (case ps_session s of
        None \<Rightarrow> Some s
      | Some ss \<Rightarrow>
          (if outstanding_pull ss \<noteq> None \<or> sink_credit s < PULL_CAPACITY then Some s
           else
             let (ub, d) = pap_to_atp_parts (pap_packet (ss_conn_id ss) SendData (pull_seq ss) False [])
             in do {
               (handle, ep) \<leftarrow> atp_request (ss_client ss) ub d 0xFF now (ps_conn_ep s);
               Some (s\<lparr>ps_conn_ep := ep, ps_session := Some (ss\<lparr>outstanding_pull := Some handle\<rparr>)\<rparr>)
             }))"

definition answer_read :: "micros \<Rightarrow> PapServer \<Rightarrow> PapServer" where
  "answer_read now s =
     (case ps_session s of
        None \<Rightarrow> s
      | Some ss \<Rightarrow>
          (case pending_read ss of
             None \<Rightarrow> s
           | Some (source, tid, bitmap, seq) \<Rightarrow>
               (let have_output = (stdout ss \<noteq> [] \<or> eof_queued ss);
                    idle = (last_client_write ss + READ_IDLE_ANSWER \<le> now)
                in if \<not> have_output \<and> \<not> idle then s
                else
                  let max_packets = max 1 (min 8 (atp_popcount bitmap));
                      n = min (length (stdout ss)) (max_packets * PAP_MAX_DATA_PER_PACKET);
                      chunk = take n (stdout ss);
                      rest = drop n (stdout ss);
                      eof = (eof_queued ss \<and> rest = []);
                      (ub, d) = pap_to_atp_parts (pap_packet (ss_conn_id ss) PapData 0 eof chunk);
                      ss1 = ss\<lparr>pending_read := None, stdout := rest, eof_queued := (if eof then False else eof_queued ss)\<rparr>;
                      ss2 = (if seq \<noteq> 0
                             then ss1\<lparr>read_seq := next_pap_seq (read_seq ss1),
                                  read_cache := (if length (read_cache ss1) = READ_REPLY_CACHE_LEN
                                                 then tl (read_cache ss1) else read_cache ss1) @ [(seq, ub, d)]\<rparr>
                             else ss1)
                  in s\<lparr>ps_session := Some ss2,
                       ps_conn_ep := atp_respond source tid ub d PAP_MAX_DATA_PER_PACKET now (ps_conn_ep s)\<rparr>)))"

section \<open>Events of the endpoints\<close>

definition open_reply :: "u8 \<Rightarrow> u8 \<Rightarrow> bool \<Rightarrow> PapServer \<Rightarrow> PapPacket" where
  "open_reply cid socket busy s =
     pap_packet cid OpenConnReply 0 False
       ([socket, FLOW_QUANTUM] @ (if busy then [0xFF, 0xFF] else [0, 0]) @ status_pascal s)"

definition session_new :: "u8 \<Rightarrow> ServiceAddress \<Rightarrow> micros \<Rightarrow> PapSession" where
  "session_new cid client now = \<lparr>ss_conn_id = cid, ss_client = client, pull_seq = 1, outstanding_pull = None,
     job_bytes = 0, read_seq = 1, read_cache = [], pending_read = None, stdout = [], eof_queued = False,
     last_client_write = now, last_activity = now, next_tickle = now + TICKLE_INTERVAL\<rparr>"

definition handle_listener_event :: "AtpEvent \<Rightarrow> micros \<Rightarrow> PapServer \<Rightarrow> PapServer" where
  "handle_listener_event ev now s =
     (case ev of
        EvRequest source tid user_bytes payload _ _ \<Rightarrow>
          (case pap_parse_from_atp user_bytes payload of
             Inl _ \<Rightarrow> s
           | Inr p \<Rightarrow>
               (case pap_function p of
                  SendStatus \<Rightarrow>
                    respond_pap True source tid (pap_packet 0 PapStatus 0 False ([0, 0, 0, 0] @ status_pascal s)) now s
                | OpenConn \<Rightarrow>
                    (if length (pap_data p) < 2 then s
                     else if ps_session s \<noteq> None
                     then respond_pap True source tid (open_reply (pap_connection_id p) 0 True s) now s
                     else
                       let client = \<lparr>sa_network = sa_network source, sa_node = sa_node source, sa_socket = pap_data p ! 0\<rparr>;
                           reply = open_reply (pap_connection_id p) (ae_local_socket (ps_conn_ep s)) False s;
                           s1 = respond_pap True source tid reply now s
                       in pap_event (PapOpened client)
                            (s1\<lparr>ps_session := Some (session_new (pap_connection_id p) client now)\<rparr>))
                | _ \<Rightarrow> s))
      | _ \<Rightarrow> s)"

definition set_session :: "PapSession \<Rightarrow> PapServer \<Rightarrow> PapServer" where
  "set_session ss s = s\<lparr>ps_session := Some ss\<rparr>"

definition handle_read ::
  "ServiceAddress \<Rightarrow> u16 \<Rightarrow> u8 \<Rightarrow> u16 \<Rightarrow> micros \<Rightarrow> PapSession \<Rightarrow> PapServer \<Rightarrow> PapServer" where
  "handle_read source tid bitmap seq now ss s =
     (if seq \<noteq> 0 \<and> seq \<noteq> read_seq ss
      then (case find (\<lambda>(q, _, _). q = seq) (read_cache ss) of
              None \<Rightarrow> s
            | Some (_, ub, d) \<Rightarrow>
                s\<lparr>ps_conn_ep := atp_respond source tid ub d PAP_MAX_DATA_PER_PACKET now (ps_conn_ep s)\<rparr>)
      else set_session (ss\<lparr>pending_read := Some (source, tid, bitmap, seq)\<rparr>) s)"

definition handle_pull_reply :: "bytes \<Rightarrow> bytes \<Rightarrow> micros \<Rightarrow> PapSession \<Rightarrow> PapServer \<Rightarrow> PapServer" where
  "handle_pull_reply user_bytes payload now ss0 s0 =
     (let ss = ss0\<lparr>outstanding_pull := None\<rparr>; s = set_session ss s0 in
      case pap_parse_from_atp user_bytes payload of
        Inl _ \<Rightarrow> s
      | Inr p \<Rightarrow>
          (if pap_function p \<noteq> PapData then s
           else
             let had_bytes = (pap_data p \<noteq> []);
                 ss1 = ss\<lparr>last_activity := now, last_client_write := now, pull_seq := next_pap_seq (pull_seq ss),
                          job_bytes := job_bytes ss + length (pap_data p)\<rparr>;
                 s1 = (if had_bytes then pap_event (ToPrinter (pap_data p)) (set_session ss1 s) else set_session ss1 s)
             in if pap_eof p \<and> job_bytes ss1 > 0
                then pap_event JobEof (set_session (ss1\<lparr>job_bytes := 0\<rparr>) s1)
                else s1))"

definition handle_conn_event :: "AtpEvent \<Rightarrow> micros \<Rightarrow> PapServer \<Rightarrow> PapServer" where
  "handle_conn_event ev now s =
     (case ev of
        EvRequest source tid user_bytes payload bitmap _ \<Rightarrow>
          (case pap_parse_from_atp user_bytes payload of
             Inl _ \<Rightarrow> s
           | Inr p \<Rightarrow>
               (case ps_session s of
                  None \<Rightarrow> s
                | Some ss0 \<Rightarrow>
                    (if pap_connection_id p \<noteq> ss_conn_id ss0 then s
                     else
                       let ss = ss0\<lparr>last_activity := now\<rparr>; s1 = set_session ss s
                       in case pap_function p of
                            SendData \<Rightarrow> handle_read source tid bitmap (pap_sequence_num p) now ss s1
                          | CloseConn \<Rightarrow>
                              pap_event PapClosed
                                ((respond_pap False source tid (pap_packet (pap_connection_id p) CloseConnReply 0 False []) now s1)
                                   \<lparr>ps_session := None\<rparr>)
                          | _ \<Rightarrow> s1)))
      | EvResponse handle user_bytes payload \<Rightarrow>
          (case ps_session s of
             None \<Rightarrow> s
           | Some ss \<Rightarrow>
               (if outstanding_pull ss \<noteq> Some handle then s else handle_pull_reply user_bytes payload now ss s))
      | EvRequestFailed handle \<Rightarrow>
          (case ps_session s of
             None \<Rightarrow> s
           | Some ss \<Rightarrow>
               (if outstanding_pull ss = Some handle then set_session (ss\<lparr>outstanding_pull := None\<rparr>) s else s)))"

text \<open>The handlers never queue an event on either endpoint: what makes the loops of \<open>drain\<close> end.\<close>

lemma respond_keeps [simp]:
  "ae_events (atp_respond src tid ub d n now e) = ae_events e"
  "ae_pending (atp_respond src tid ub d n now e) = ae_pending e"
  "ae_next_tid (atp_respond src tid ub d n now e) = ae_next_tid e"
  "ae_local_socket (atp_respond src tid ub d n now e) = ae_local_socket e"
  by (simp_all add: atp_respond_def respond_packets_def Let_def)

lemma respond_pap_simps [simp]:
  "ps_session (respond_pap l src tid p now s) = ps_session s"
  "ps_events (respond_pap l src tid p now s) = ps_events s"
  "ps_status (respond_pap l src tid p now s) = ps_status s"
  "sink_credit (respond_pap l src tid p now s) = sink_credit s"
  "ae_events (ps_listener (respond_pap l src tid p now s)) = ae_events (ps_listener s)"
  "ae_events (ps_conn_ep (respond_pap l src tid p now s)) = ae_events (ps_conn_ep s)"
  "ae_pending (ps_conn_ep (respond_pap l src tid p now s)) = ae_pending (ps_conn_ep s)"
  by (simp_all add: respond_pap_def split_beta)

lemma pap_event_simps [simp]:
  "ps_session (pap_event ev s) = ps_session s"
  "ps_events (pap_event ev s) = ps_events s @ [ev]"
  "ps_status (pap_event ev s) = ps_status s"
  "sink_credit (pap_event ev s) = sink_credit s"
  "ps_listener (pap_event ev s) = ps_listener s"
  "ps_conn_ep (pap_event ev s) = ps_conn_ep s"
  by (simp_all add: pap_event_def)

lemma set_session_simps [simp]:
  "ps_session (set_session ss s) = Some ss"
  "ps_events (set_session ss s) = ps_events s"
  "ps_status (set_session ss s) = ps_status s"
  "sink_credit (set_session ss s) = sink_credit s"
  "ps_listener (set_session ss s) = ps_listener s"
  "ps_conn_ep (set_session ss s) = ps_conn_ep s"
  by (simp_all add: set_session_def)

lemma listener_handler_events:
  "ae_events (ps_listener (handle_listener_event ev now s)) = ae_events (ps_listener s)"
  "ae_events (ps_conn_ep (handle_listener_event ev now s)) = ae_events (ps_conn_ep s)"
  "ae_pending (ps_conn_ep (handle_listener_event ev now s)) = ae_pending (ps_conn_ep s)"
  by (simp_all add: handle_listener_event_def Let_def split: AtpEvent.splits sum.splits PapFunction.splits)

lemma conn_handler_events:
  "ae_events (ps_conn_ep (handle_conn_event ev now s)) = ae_events (ps_conn_ep s)"
  "ae_events (ps_listener (handle_conn_event ev now s)) = ae_events (ps_listener s)"
  "ae_pending (ps_conn_ep (handle_conn_event ev now s)) = ae_pending (ps_conn_ep s)"
  by (simp_all add: handle_conn_event_def handle_read_def handle_pull_reply_def Let_def
      split: AtpEvent.splits sum.splits PapFunction.splits option.splits)

section \<open>Draining the endpoints\<close>

function drain_listener :: "micros \<Rightarrow> PapServer \<Rightarrow> PapServer" where
  "drain_listener now s =
     (case atp_poll_event (ps_listener s) of
        (None, _) \<Rightarrow> s
      | (Some ev, ep) \<Rightarrow> drain_listener now (handle_listener_event ev now (s\<lparr>ps_listener := ep\<rparr>)))"
  by pat_completeness auto
termination
  by (relation "measure (\<lambda>(now, s). length (ae_events (ps_listener s)))")
    (auto simp: atp_poll_event_def listener_handler_events split: list.splits)

function drain_conn :: "micros \<Rightarrow> PapServer \<Rightarrow> PapServer" where
  "drain_conn now s =
     (case atp_poll_event (ps_conn_ep s) of
        (None, _) \<Rightarrow> s
      | (Some ev, ep) \<Rightarrow> drain_conn now (handle_conn_event ev now (s\<lparr>ps_conn_ep := ep\<rparr>)))"
  by pat_completeness auto
termination
  by (relation "measure (\<lambda>(now, s). length (ae_events (ps_conn_ep s)))")
    (auto simp: atp_poll_event_def conn_handler_events split: list.splits)

declare drain_listener.simps [simp del] drain_conn.simps [simp del]

definition pap_drain :: "micros \<Rightarrow> PapServer \<Rightarrow> PapServer option" where
  "pap_drain now s = maybe_pull now (answer_read now (drain_conn now (drain_listener now s)))"

section \<open>The operations of the server\<close>

definition set_sink_credit :: "nat \<Rightarrow> micros \<Rightarrow> PapServer \<Rightarrow> PapServer option" where
  "set_sink_credit bytes now s = maybe_pull now (s\<lparr>sink_credit := bytes\<rparr>)"

definition queue_output :: "bytes \<Rightarrow> micros \<Rightarrow> PapServer \<Rightarrow> PapServer" where
  "queue_output data now s =
     answer_read now (case ps_session s of
        None \<Rightarrow> s
      | Some ss \<Rightarrow> set_session (ss\<lparr>stdout := stdout ss @ data\<rparr>) s)"

definition end_output :: "micros \<Rightarrow> PapServer \<Rightarrow> PapServer" where
  "end_output now s =
     answer_read now (case ps_session s of
        None \<Rightarrow> s
      | Some ss \<Rightarrow> set_session (ss\<lparr>eof_queued := True\<rparr>) s)"

definition pap_handle_datagram ::
  "u8 \<Rightarrow> ServiceAddress \<Rightarrow> bytes \<Rightarrow> micros \<Rightarrow> PapServer \<Rightarrow> PapServer option" where
  "pap_handle_datagram local_socket src payload now s =
     pap_drain now
       (if local_socket = ae_local_socket (ps_listener s)
        then s\<lparr>ps_listener := atp_handle_datagram src payload now (ps_listener s)\<rparr>
        else if local_socket = ae_local_socket (ps_conn_ep s)
        then s\<lparr>ps_conn_ep := atp_handle_datagram src payload now (ps_conn_ep s)\<rparr>
        else s)"

definition pap_keepalive :: "micros \<Rightarrow> PapServer \<Rightarrow> PapServer option" where
  "pap_keepalive now s =
     (case ps_session s of
        None \<Rightarrow> Some s
      | Some ss \<Rightarrow>
          (if now - last_activity ss > INACTIVITY_TIMEOUT
           then Some (pap_event PapClosed (s\<lparr>ps_session := None\<rparr>))
           else if next_tickle ss \<le> now
           then
             let ss' = ss\<lparr>next_tickle := now + TICKLE_INTERVAL\<rparr>;
                 (ub, _) = pap_to_atp_parts (pap_packet (ss_conn_id ss) PapTickle 0 False [])
             in do {
               ep \<leftarrow> send_alo (ss_client ss) ub (ps_conn_ep s);
               Some ((set_session ss' s)\<lparr>ps_conn_ep := ep\<rparr>)
             }
           else Some s))"

definition pap_poll :: "micros \<Rightarrow> PapServer \<Rightarrow> PapServer option" where
  "pap_poll now s = do {
     s1 \<leftarrow> pap_drain now (s\<lparr>ps_listener := atp_poll now (ps_listener s), ps_conn_ep := atp_poll now (ps_conn_ep s)\<rparr>);
     s2 \<leftarrow> pap_keepalive now s1;
     maybe_pull now (answer_read now s2)
   }"

definition fold_deadline :: "micros option \<Rightarrow> micros option \<Rightarrow> micros option" where
  "fold_deadline a b =
     (case (a, b) of
        (Some x, Some y) \<Rightarrow> Some (min x y)
      | (Some x, None) \<Rightarrow> Some x
      | (None, y) \<Rightarrow> y)"

definition pap_next_deadline :: "PapServer \<Rightarrow> micros option" where
  "pap_next_deadline s =
     (let d = fold_deadline (atp_next_deadline (ps_listener s)) (atp_next_deadline (ps_conn_ep s))
      in case ps_session s of
           None \<Rightarrow> d
         | Some ss \<Rightarrow>
             (let d1 = fold_deadline (fold_deadline d (Some (next_tickle ss)))
                         (Some (last_activity ss + INACTIVITY_TIMEOUT))
              in if pending_read ss \<noteq> None
                 then fold_deadline d1 (Some (last_client_write ss + READ_IDLE_ANSWER))
                 else d1))"

definition pap_poll_transmit :: "PapServer \<Rightarrow> (u8 \<times> ServiceAddress \<times> bytes) option \<times> PapServer" where
  "pap_poll_transmit s =
     (case atp_poll_transmit (ps_listener s) of
        (Some (dest, payload), ep) \<Rightarrow> (Some (ae_local_socket ep, dest, payload), s\<lparr>ps_listener := ep\<rparr>)
      | (None, _) \<Rightarrow>
          (case atp_poll_transmit (ps_conn_ep s) of
             (Some (dest, payload), ep) \<Rightarrow> (Some (ae_local_socket ep, dest, payload), s\<lparr>ps_conn_ep := ep\<rparr>)
           | (None, _) \<Rightarrow> (None, s)))"

definition pap_poll_event :: "PapServer \<Rightarrow> PapEvent option \<times> PapServer" where
  "pap_poll_event s =
     (case ps_events s of [] \<Rightarrow> (None, s) | x # xs \<Rightarrow> (Some x, s\<lparr>ps_events := xs\<rparr>))"

end
