(* ===== verification/Core_Atp_Exchange.thy ===== *)
theory Core_Atp_Exchange
  imports Core_Atp
begin

text \<open>
  What the ATP endpoint of src/tailtalk-core/src/atp.rs promises over a whole transaction:
  requests get a fresh handle, an XO request is delivered once, a duplicate is answered from
  the cache, a response is reassembled from any arrival order, and an unanswered request is
  resent a fixed number of times before it fails.
\<close>

section \<open>Handles\<close>

text \<open>
With fewer than 65535 requests outstanding, \<open>AtpEndpoint::request\<close> returns: the handle is
  nonzero and not in use, one datagram is queued for the destination that parses to an XO request
  with this handle, the caller's bitmap, user bytes and data, and every other outstanding
  request is untouched.\<close>

theorem atp_request_fresh:
  assumes "length (ae_pending e) < 65535" and "length user_bytes = 4"
  shows "\<exists>tid e' pkt. atp_request dest user_bytes data bitmap now e = Some (tid, e')
    \<and> tid \<noteq> 0 \<and> map_of (ae_pending e) tid = None
    \<and> ae_outbox e' = ae_outbox e @ [(dest, pkt)]
    \<and> atp_parse pkt = Inr \<lparr>atp_function = AtpRequest, atp_xo = True, atp_eom = False, atp_sts = False,
         atp_bitmap_seq = bitmap, atp_tid = tid, atp_user_bytes = user_bytes\<rparr>
    \<and> drop 8 pkt = data
    \<and> (\<exists>p. map_of (ae_pending e') = (map_of (ae_pending e))(tid \<mapsto> p) \<and> pr_raw_packet p = pkt \<and> pr_dest p = dest)
    \<and> ae_events e' = ae_events e"
proof -
  from allocate_tid_ok [OF assms(1)] obtain tid n where
    a: "allocate_tid e = Some (tid, e\<lparr>ae_next_tid := n\<rparr>)" and t: "tid \<noteq> 0" "map_of (ae_pending e) tid = None"
    by blast
  let ?h = "\<lparr>atp_function = AtpRequest, atp_xo = True, atp_eom = False, atp_sts = False,
         atp_bitmap_seq = bitmap, atp_tid = tid, atp_user_bytes = user_bytes\<rparr>"
  let ?p = "\<lparr>pr_dest = dest, pr_raw_packet = atp_frame ?h data, pr_requested_bitmap = bitmap, pr_received = [],
     pr_user_bytes = None, pr_eom_seq = None, pr_retries = 0, pr_retry_at = now + RETRY_INTERVAL\<rparr>"
  let ?e = "e\<lparr>ae_next_tid := n, ae_outbox := ae_outbox e @ [(dest, atp_frame ?h data)],
     ae_pending := om_insert tid ?p (ae_pending e)\<rparr>"
  have r: "atp_request dest user_bytes data bitmap now e = Some (tid, ?e)"
    by (simp add: atp_request_def a Let_def)
  have q: "map_of (ae_pending ?e) = (map_of (ae_pending e))(tid \<mapsto> ?p) \<and> pr_raw_packet ?p = atp_frame ?h data \<and> pr_dest ?p = dest"
    by (simp add: map_of_om_insert)
  have w: "atp_parse (atp_frame ?h data) = Inr ?h" "drop 8 (atp_frame ?h data) = data"
    using assms(2) by (simp_all add: atp_parse_frame atp_frame_data atp_wf_def)
  show ?thesis
    by (rule exI [of _ tid], rule exI [of _ ?e], rule exI [of _ "atp_frame ?h data"],
        intro conjI r t w exI [of _ ?p] q) (simp_all add: map_of_om_insert)
qed

definition example_peer :: ServiceAddress where
  "example_peer = \<lparr>sa_network = 1, sa_node = 2, sa_socket = 80\<rparr>"

lemma atp_request_fresh_witness:
  "\<exists>tid e' pkt. atp_request example_peer [1, 2, 3, 4] [5, 6] 0xFF 0 (atp_new 70) = Some (tid, e')
    \<and> tid \<noteq> 0 \<and> ae_outbox e' = [(example_peer, pkt)] \<and> drop 8 pkt = [5, 6]"
  using atp_request_fresh [where e = "atp_new 70" and user_bytes = "[1, 2, 3, 4]" and dest = example_peer
      and data = "[5, 6]" and bitmap = "0xFF" and now = 0]
  by (auto simp: atp_new_def)

section \<open>Exactly once\<close>

fun atp_keeps_all :: "ServiceAddress \<Rightarrow> u16 \<Rightarrow> AtpInput list \<Rightarrow> AtpEndpoint \<Rightarrow> bool" where
  "atp_keeps_all src tid [] e = True"
| "atp_keeps_all src tid (i # is) e = (atp_keeps src tid e i \<and> atp_keeps_all src tid is (atp_input i e))"

fun atp_deliveries :: "ServiceAddress \<Rightarrow> u16 \<Rightarrow> AtpInput list \<Rightarrow> AtpEndpoint \<Rightarrow> nat" where
  "atp_deliveries src tid [] e = 0"
| "atp_deliveries src tid (i # is) e =
     (if atp_delivers src tid i e then 1 else 0) + atp_deliveries src tid is (atp_input i e)"

lemma atp_deliveries_known:
  "atp_known src tid e \<Longrightarrow> atp_keeps_all src tid is e \<Longrightarrow> atp_deliveries src tid is e = 0"
  by (induction "is" arbitrary: e) (simp_all add: atp_known_no_delivery atp_keeps_known)

text \<open>
Claim C1: Exactly-once: when an input delivers the XO transaction \<open>(src, tid)\<close> to the application, no
  sequence of further datagrams (retransmitted and duplicated requests included), answers, polls
  and queue drains delivers it a second time, as long as nothing makes the endpoint forget it:
  its release, the expiry of its cache entry, or sixteen newer transactions.\<close>

theorem atp_exactly_once:
  assumes "atp_delivers src tid i e" and "atp_keeps_all src tid is (atp_input i e)"
  shows "atp_deliveries src tid (i # is) e = 1"
  using assms atp_first_delivery_known atp_deliveries_known by simp

definition example_request :: bytes where
  "example_request = atp_frame \<lparr>atp_function = AtpRequest, atp_xo = True, atp_eom = False, atp_sts = False,
     atp_bitmap_seq = 1, atp_tid = 7, atp_user_bytes = [0, 0, 0, 0]\<rparr> [9]"

lemma example_request_parses:
  "atp_parse example_request = Inr \<lparr>atp_function = AtpRequest, atp_xo = True, atp_eom = False, atp_sts = False,
     atp_bitmap_seq = 1, atp_tid = 7, atp_user_bytes = [0, 0, 0, 0]\<rparr>"
  by (simp add: example_request_def atp_parse_frame atp_wf_def)

lemma atp_exactly_once_witness:
  "atp_deliveries example_peer 7
     [InDatagram example_peer example_request 0, InDatagram example_peer example_request 5,
      InRespond example_peer 7 [([1, 1, 1, 1], [3])] 6, InDatagram example_peer example_request 9,
      InPoll 10] (atp_new 80) = 1"
  by (rule atp_exactly_once)
    (simp_all add: atp_delivers_def atp_handle_datagram_def example_request_parses atp_on_request_def atp_new_def
      REPLY_CACHE_LEN_def respond_packets_def atp_poll_def RELEASE_TIMEOUT_def Let_def)

section \<open>Duplicates are answered from the cache\<close>

lemma respond_cache_find:
  assumes "\<forall>c\<in>set (ae_reply_cache e). \<not> (cr_source c = s \<and> cr_tid c = t)"
  shows "find (\<lambda>c. cr_source c = s \<and> cr_tid c = t) (ae_reply_cache (respond_packets s t chunks now e)) =
     Some \<lparr>cr_source = s, cr_tid = t,
       cr_packets = map (\<lambda>(i, c). response_packet t (max 1 (min 8 (length chunks))) i c) (enumerate 0 (take 8 chunks)),
       cr_expires_at = now + RELEASE_TIMEOUT\<rparr>"
proof -
  have "\<forall>c\<in>set (tl (ae_reply_cache e)). \<not> (cr_source c = s \<and> cr_tid c = t)"
    using assms by (auto dest: tl_subset)
  then have "find (\<lambda>c. cr_source c = s \<and> cr_tid c = t) (tl (ae_reply_cache e)) = None"
    by (simp add: find_none_iff)
  moreover have "find (\<lambda>c. cr_source c = s \<and> cr_tid c = t) (ae_reply_cache e) = None"
    using assms by (simp add: find_none_iff)
  ultimately show ?thesis by (simp add: respond_packets_def Let_def find_append)
qed

text \<open>
A retransmitted request for a transaction that was just answered is not delivered again: the
  endpoint queues exactly the response datagrams that the answer queued, in the same order and
  for the same peer, and changes nothing else.\<close>

theorem atp_duplicate_replays:
  assumes "\<forall>c\<in>set (ae_reply_cache e). \<not> (cr_source c = s \<and> cr_tid c = atp_tid p)"
    and "atp_parse payload = Inr p" and "atp_function p = AtpRequest"
  shows "let e1 = respond_packets s (atp_tid p) chunks now e;
             sent = drop (length (ae_outbox e)) (ae_outbox e1)
         in atp_handle_datagram s payload now' e1 = e1\<lparr>ae_outbox := ae_outbox e1 @ sent\<rparr>
            \<and> length sent = min 8 (length chunks)"
  using assms
  by (simp add: Let_def atp_handle_datagram_def atp_on_request_def respond_cache_find)
    (simp add: respond_packets_def Let_def comp_def)

lemma atp_duplicate_replays_witness:
  "let e1 = respond_packets example_peer 7 [([1, 1, 1, 1], [3])] 6 (atp_new 80);
       sent = drop 0 (ae_outbox e1)
   in atp_handle_datagram example_peer example_request 9 e1 = e1\<lparr>ae_outbox := ae_outbox e1 @ sent\<rparr>
      \<and> length sent = 1"
  using atp_duplicate_replays [where e = "atp_new 80" and s = example_peer and chunks = "[([1, 1, 1, 1], [3])]"
      and now = 6 and now' = 9, OF _ example_request_parses]
  by (simp add: atp_new_def Let_def)

section \<open>Reassembly\<close>

definition response_frames :: "u16 \<Rightarrow> (bytes \<times> bytes) list \<Rightarrow> bytes list" where
  "response_frames tid chunks = map (\<lambda>(i, c). response_packet tid (length chunks) i c) (enumerate 0 chunks)"

lemma respond_sends_frames:
  "0 < length chunks \<Longrightarrow> length chunks \<le> 8 \<Longrightarrow>
     ae_outbox (respond_packets s t chunks now e) = ae_outbox e @ map (Pair s) (response_frames t chunks)"
  by (simp add: respond_packets_def response_frames_def Let_def comp_def split_beta max_absorb2 Suc_le_eq)

text \<open>What a pending request holds after the responses \<open>js\<close> arrived, in this order.\<close>

definition partial_reply :: "(bytes \<times> bytes) list \<Rightarrow> nat list \<Rightarrow> PendingRequest \<Rightarrow> bool" where
  "partial_reply chunks js st \<longleftrightarrow>
     om_wf (pr_received st)
     \<and> map_of (pr_received st) = (\<lambda>k. if unat k \<in> set js then Some (snd (chunks ! unat k)) else None)
     \<and> pr_eom_seq st = (if length chunks - 1 \<in> set js then Some (word_of_nat (length chunks - 1)) else None)
     \<and> pr_user_bytes st = (if js = [] then None else Some (fst (chunks ! hd js)))"

definition response_header :: "u16 \<Rightarrow> (bytes \<times> bytes) list \<Rightarrow> nat \<Rightarrow> AtpPacket" where
  "response_header tid chunks j = \<lparr>atp_function = AtpResponse, atp_xo = False, atp_eom = (j = length chunks - 1),
     atp_sts = False, atp_bitmap_seq = word_of_nat j, atp_tid = tid, atp_user_bytes = fst (chunks ! j)\<rparr>"

lemma response_frames_nth:
  "j < length chunks \<Longrightarrow> response_frames tid chunks ! j = atp_frame (response_header tid chunks j) (snd (chunks ! j))"
  by (simp add: response_frames_def response_packet_def response_header_def split_beta nth_enumerate_eq)

lemma handle_response_frame:
  assumes "j < length chunks" and "\<forall>c\<in>set chunks. length (fst c) = 4"
  shows "atp_handle_datagram src (response_frames tid chunks ! j) now e =
    atp_on_response src (response_header tid chunks j) (snd (chunks ! j)) e"
  using assms by (simp add: response_frames_nth atp_handle_frame response_header_def atp_wf_def)

lemma small_seq: "j < 8 \<Longrightarrow> unat (word_of_nat j :: u8) = j"
  by (simp add: unat_of_nat)

lemma word_seq_iff: "j < 8 \<Longrightarrow> (k = (word_of_nat j :: u8)) = (unat k = j)"
  by (auto simp: small_seq word_eq_iff_unsigned)

lemma partial_reply_add:
  assumes "partial_reply chunks js st" and "j < length chunks" and "length chunks \<le> 8"
  shows "partial_reply chunks (js @ [j]) (pr_add (response_header tid chunks j) (snd (chunks ! j)) st)"
proof -
  have j: "j < 8" using assms by simp
  show ?thesis
    using assms(1)
    by (auto simp: partial_reply_def pr_add_def response_header_def map_of_om_insert om_wf_insert fun_eq_iff
        small_seq [OF j] word_seq_iff [OF j] hd_append)
qed

lemma partial_reply_size:
  assumes "partial_reply chunks js st" and "set js \<subseteq> {..<length chunks}" and "length chunks \<le> 8"
  shows "length (pr_received st) = card (set js)"
proof -
  have "dom (map_of (pr_received st)) = word_of_nat ` set js"
  proof (rule set_eqI)
    fix k :: u8
    have "k \<in> dom (map_of (pr_received st)) \<longleftrightarrow> unat k \<in> set js"
      using assms(1) by (auto simp: partial_reply_def dom_def)
    also have "\<dots> \<longleftrightarrow> k \<in> word_of_nat ` set js"
    proof
      assume "unat k \<in> set js" then show "k \<in> word_of_nat ` set js" by (intro image_eqI [where x = "unat k"]) simp_all
    next
      assume "k \<in> word_of_nat ` set js"
      then obtain j where "j \<in> set js" "k = word_of_nat j" by blast
      moreover have "j < 8" using assms \<open>j \<in> set js\<close> by auto
      ultimately show "unat k \<in> set js" by (simp add: small_seq)
    qed
    finally show "k \<in> dom (map_of (pr_received st)) \<longleftrightarrow> k \<in> word_of_nat ` set js" .
  qed
  moreover have "inj_on (word_of_nat :: nat \<Rightarrow> u8) (set js)"
    by (rule inj_on_inverseI [where g = unat]) (use assms in \<open>auto simp: small_seq\<close>)
  ultimately show ?thesis
    using assms(1) by (simp add: om_size partial_reply_def card_image)
qed

lemma partial_reply_complete:
  assumes p: "partial_reply chunks js st" and js: "js \<noteq> []" "set js \<subseteq> {..<length chunks}" and n: "length chunks \<le> 8"
    and b: "length chunks \<le> atp_popcount (pr_requested_bitmap st)"
  shows "pr_complete st \<longleftrightarrow> set js = {..<length chunks}"
proof (cases "length chunks - 1 \<in> set js")
  case True
  have c: "0 < length chunks" using js by (cases js) auto
  have eom: "pr_eom_seq st = Some (word_of_nat (length chunks - 1))" using p True by (simp add: partial_reply_def)
  have u: "unat (word_of_nat (length chunks - 1) :: u8) + 1 = length chunks"
    using n c by (simp add: unat_of_nat)
  have "pr_complete st \<longleftrightarrow> (\<forall>i<length chunks. map_of (pr_received st) (word_of_nat i) \<noteq> None)"
    unfolding pr_complete_def eom option.case u by (auto simp: list_all_iff)
  also have "\<dots> \<longleftrightarrow> (\<forall>i<length chunks. i \<in> set js)"
    using p n by (auto simp: partial_reply_def small_seq)
  finally show ?thesis using js(2) by auto
next
  case False
  have ne: "set js \<noteq> {..<length chunks}" using False js by (cases js) auto
  then have "set js \<subset> {..<length chunks}" using js(2) by blast
  then have "card (set js) < length chunks" using psubset_card_mono [of "{..<length chunks}" "set js"] by simp
  then have "length (pr_received st) < atp_popcount (pr_requested_bitmap st)"
    using partial_reply_size [OF p js(2) n] b by simp
  then show ?thesis using False p ne by (simp add: pr_complete_def partial_reply_def)
qed

lemma om_remove_insert: "om_remove k (om_insert k v m) = om_remove k m"
  by (induction k v m rule: om_insert.induct) (auto simp: om_remove_def)

definition reply_event :: "u16 \<Rightarrow> (bytes \<times> bytes) list \<Rightarrow> nat \<Rightarrow> AtpEvent" where
  "reply_event tid chunks first = EvResponse tid (fst (chunks ! first)) (concat (map snd chunks))"

definition reply_done :: "ServiceAddress \<Rightarrow> u16 \<Rightarrow> AtpEvent \<Rightarrow> AtpEndpoint \<Rightarrow> AtpEndpoint" where
  "reply_done src tid ev e =
     e\<lparr>ae_pending := om_remove tid (ae_pending e),
       ae_outbox := ae_outbox e @ [(src, atp_release_packet tid)], ae_events := ae_events e @ [ev]\<rparr>"

lemma atp_collect_chunks:
  assumes "map_of received = (\<lambda>k. if unat k < length chunks then Some (snd (chunks ! unat k)) else None)"
    and "m \<le> length chunks" and "length chunks \<le> 8"
  shows "atp_collect received [m..<length chunks] full = Some (full @ concat (map snd (drop m chunks)))"
  using assms(2)
proof (induction "length chunks - m" arbitrary: m full)
  case 0
  then show ?case by simp
next
  case (Suc d)
  then have m: "m < length chunks" by simp
  then have "[m..<length chunks] = m # [Suc m..<length chunks]" by (simp add: upt_conv_Cons)
  moreover have "map_of received (word_of_nat m) = Some (snd (chunks ! m))"
    using assms m by (simp add: small_seq)
  moreover have "drop m chunks = chunks ! m # drop (Suc m) chunks" using m by (simp add: Cons_nth_drop_Suc)
  ultimately show ?case using Suc.hyps(1) [of "Suc m"] Suc.hyps(2) m by simp
qed

lemma atp_response_step:
  assumes st: "map_of (ae_pending e) tid = Some st" and p: "partial_reply chunks js st"
    and js: "set js \<subseteq> {..<length chunks}" and j: "j < length chunks" and n: "length chunks \<le> 8"
    and b: "length chunks \<le> atp_popcount (pr_requested_bitmap st)"
  shows "atp_on_response src (response_header tid chunks j) (snd (chunks ! j)) e =
     (if set (js @ [j]) = {..<length chunks} then reply_done src tid (reply_event tid chunks (hd (js @ [j]))) e
      else e\<lparr>ae_pending := om_insert tid (pr_add (response_header tid chunks j) (snd (chunks ! j)) st) (ae_pending e)\<rparr>)"
proof -
  let ?st = "pr_add (response_header tid chunks j) (snd (chunks ! j)) st"
  have q: "partial_reply chunks (js @ [j]) ?st" by (rule partial_reply_add [OF p j n])
  have bm: "pr_requested_bitmap ?st = pr_requested_bitmap st" by (simp add: pr_add_def)
  have c: "pr_complete ?st \<longleftrightarrow> set (js @ [j]) = {..<length chunks}"
    by (rule partial_reply_complete [OF q]) (use js j n b bm in auto)
  have h: "atp_tid (response_header tid chunks j) = tid" by (simp add: response_header_def)
  show ?thesis
  proof (cases "set (js @ [j]) = {..<length chunks}")
    case False
    with c show ?thesis by (simp add: atp_on_response_def h st Let_def)
  next
    case True
    have c0: "0 < length chunks" using j by linarith
    have eom: "pr_eom_seq ?st = Some (word_of_nat (length chunks - 1))"
      and ub: "pr_user_bytes ?st = Some (fst (chunks ! hd (js @ [j])))"
      and rc: "map_of (pr_received ?st) = (\<lambda>k. if unat k < length chunks then Some (snd (chunks ! unat k)) else None)"
      using q True c0 by (auto simp: partial_reply_def fun_eq_iff)
    have u: "unat (word_of_nat (length chunks - 1) :: u8) + 1 = length chunks"
      using n c0 by (simp add: unat_of_nat)
    have u2: "unat (word_of_nat (length chunks) :: u8) = length chunks"
      using n by (simp add: unat_of_nat)
    have a: "atp_assemble (pr_received ?st) (length chunks) = Some (concat (map snd chunks))"
      unfolding atp_assemble_def u2 using atp_collect_chunks [OF rc, of 0 "[]"] n by simp
    show ?thesis using True c
      by (simp add: atp_on_response_def h st Let_def eom ub u [simplified] a reply_done_def reply_event_def)
  qed
qed

fun atp_receive :: "ServiceAddress \<Rightarrow> micros \<Rightarrow> bytes list \<Rightarrow> AtpEndpoint \<Rightarrow> AtpEndpoint" where
  "atp_receive src now [] e = e"
| "atp_receive src now (p # ps) e = atp_receive src now ps (atp_handle_datagram src p now e)"

lemma atp_receive_gone:
  assumes "map_of (ae_pending e) tid = None" and "set order \<subseteq> {..<length chunks}"
    and "\<forall>c\<in>set chunks. length (fst c) = 4"
  shows "atp_receive src now (map (\<lambda>j. response_frames tid chunks ! j) order) e = e"
  using assms(2)
  by (induction order)
    (use assms(1,3) in \<open>simp_all add: handle_response_frame atp_on_response_def response_header_def\<close>)

lemma atp_receive_reply:
  assumes "map_of (ae_pending e) tid = Some st" and "partial_reply chunks js st"
    and "set js \<subset> {..<length chunks}" and "set js \<union> set order = {..<length chunks}" and "length chunks \<le> 8"
    and "length chunks \<le> atp_popcount (pr_requested_bitmap st)" and "\<forall>c\<in>set chunks. length (fst c) = 4"
  shows "atp_receive src now (map (\<lambda>j. response_frames tid chunks ! j) order) e =
    reply_done src tid (reply_event tid chunks (hd (js @ order))) e"
  using assms
proof (induction order arbitrary: e st js)
  case Nil
  then show ?case by simp
next
  case (Cons j order)
  have j: "j < length chunks" using Cons.prems(4) by auto
  let ?st = "pr_add (response_header tid chunks j) (snd (chunks ! j)) st"
  let ?e = "e\<lparr>ae_pending := om_insert tid ?st (ae_pending e)\<rparr>"
  have step: "atp_handle_datagram src (response_frames tid chunks ! j) now e =
     (if set (js @ [j]) = {..<length chunks} then reply_done src tid (reply_event tid chunks (hd (js @ [j]))) e else ?e)"
    using atp_response_step [OF Cons.prems(1,2) _ j Cons.prems(5,6)] Cons.prems(3,7) j
    by (simp add: handle_response_frame psubset_imp_subset)
  show ?case
  proof (cases "set (js @ [j]) = {..<length chunks}")
    case True
    have "map_of (ae_pending (reply_done src tid ev e)) tid = None" for ev
      by (simp add: reply_done_def map_of_om_remove)
    moreover have "set order \<subseteq> {..<length chunks}" using Cons.prems(4) by auto
    moreover have "hd (js @ j # order) = hd (js @ [j])" by (cases js) simp_all
    ultimately show ?thesis using True step Cons.prems(7) by (simp add: atp_receive_gone)
  next
    case False
    have "atp_receive src now (map (\<lambda>j. response_frames tid chunks ! j) order) ?e =
      reply_done src tid (reply_event tid chunks (hd ((js @ [j]) @ order))) ?e"
    proof (rule Cons.IH)
      show "map_of (ae_pending ?e) tid = Some ?st" by (simp add: map_of_om_insert)
      show "partial_reply chunks (js @ [j]) ?st" by (rule partial_reply_add [OF Cons.prems(2) j Cons.prems(5)])
      show "set (js @ [j]) \<subset> {..<length chunks}" using False Cons.prems(3) j by auto
      show "set (js @ [j]) \<union> set order = {..<length chunks}" using Cons.prems(4) by auto
      show "length chunks \<le> atp_popcount (pr_requested_bitmap ?st)" using Cons.prems(6) by (simp add: pr_add_def)
    qed (use Cons.prems in auto)
    then show ?thesis using False step by (simp add: reply_done_def om_remove_insert)
  qed
qed

text \<open>
Claim C2: Reassembly: let a client issue a request and a server answer it with one to eight chunks, no more
  than the request's bitmap has slots. However the response datagrams reach the client, in any
  order and with any duplicates, as soon as each has arrived at least once the client has exactly
  one response event for its handle, with the user bytes of the datagram that came first and the
  chunks in order, has queued one release, and has forgotten the request; nothing else changed,
  and stragglers change nothing.\<close>

theorem atp_reassembles:
  assumes "atp_request dest ub data bitmap now cl = Some (tid, cl1)"
    and "0 < length chunks" and "length chunks \<le> atp_popcount bitmap" and "length chunks \<le> 8"
    and "\<forall>c\<in>set chunks. length (fst c) = 4" and "set order = {..<length chunks}"
  shows "let sent = map snd (drop (length (ae_outbox sv)) (ae_outbox (respond_packets me tid chunks t sv)))
         in length sent = length chunks
            \<and> atp_receive src now' (map (\<lambda>j. sent ! j) order) cl1 =
              cl1\<lparr>ae_pending := om_remove tid (ae_pending cl1),
                  ae_outbox := ae_outbox cl1 @ [(src, atp_release_packet tid)],
                  ae_events := ae_events cl1 @ [EvResponse tid (fst (chunks ! hd order)) (concat (map snd chunks))]\<rparr>"
proof -
  have s: "map snd (drop (length (ae_outbox sv)) (ae_outbox (respond_packets me tid chunks t sv))) = response_frames tid chunks"
    using assms(2,4) by (simp add: respond_sends_frames comp_def)
  from assms(1) obtain st where st: "map_of (ae_pending cl1) tid = Some st" and bm: "pr_requested_bitmap st = bitmap"
    and p: "partial_reply chunks [] st"
    by (auto simp: atp_request_def Let_def map_of_om_insert partial_reply_def om_wf_def split: option.splits prod.splits)
  have "length (response_frames tid chunks) = length chunks" by (simp add: response_frames_def)
  moreover have "atp_receive src now' (map (\<lambda>j. response_frames tid chunks ! j) order) cl1 =
    reply_done src tid (reply_event tid chunks (hd ([] @ order))) cl1"
    by (rule atp_receive_reply [OF st p]) (use assms bm in auto)
  ultimately show ?thesis unfolding s Let_def by (simp add: reply_done_def reply_event_def)
qed

lemma allocate_tid_first: "allocate_tid (atp_new s) = Some (1, (atp_new s)\<lparr>ae_next_tid := 2\<rparr>)"
  by (simp add: allocate_tid_def atp_new_def allocate_tid_loop.simps [of "[]" 1])

lemma atp_reassembles_witness:
  "\<exists>cl1. atp_request example_peer [0, 0, 0, 0] [] 3 0 (atp_new 70) = Some (1, cl1)
    \<and> ae_events (atp_receive example_peer 9
        (map (\<lambda>j. map snd (ae_outbox (respond_packets example_peer 1 [([1, 1, 1, 1], [10, 11]), ([2, 2, 2, 2], [12])] 5 (atp_new 80))) ! j)
           [1, 1, 0, 1]) cl1) = [EvResponse 1 [2, 2, 2, 2] [10, 11, 12]]"
proof -
  obtain cl1 where r: "atp_request example_peer [0, 0, 0, 0] [] 3 0 (atp_new 70) = Some (1, cl1)"
    and ev: "ae_events cl1 = []"
    by (simp add: atp_request_def allocate_tid_first Let_def) (simp add: atp_new_def)
  have ob: "ae_outbox (atp_new 80) = []" by (simp add: atp_new_def)
  have cc: "concat (map snd [([1 :: u8, 1, 1, 1], [10, 11]), ([2, 2, 2, 2], [12])]) = [10, 11, 12 :: u8]" by simp
  have pc: "atp_popcount 3 = 2" by (simp add: atp_popcount_def upt_rec)
  have "set [1, 1, 0, 1] = {..<length [([1, 1, 1, 1], [10, 11]), ([2, 2, 2, 2], [12 :: u8])]}" by auto
  from atp_reassembles [OF r _ _ _ _ this, where sv = "atp_new 80" and me = example_peer and t = 5 and src = example_peer and now' = 9]
  show ?thesis using r ev pc ob cc by (simp add: Let_def del: atp_receive.simps list.map nth_map)
qed

section \<open>A reply outside the requested slots\<close>

text \<open>
A response whose sequence number is outside the requested slots can end a transaction without
  telling the application: a request for one slot that receives one datagram with a nonzero
  sequence number and no end-of-message flag is forgotten, with no event, no release and no
  retry left.\<close>

theorem atp_stray_reply_loses_request:
  assumes "map_of (ae_pending e) tid = Some st" and "pr_received st = []" and "pr_eom_seq st = None"
    and "atp_popcount (pr_requested_bitmap st) = 1"
    and "atp_parse payload = Inr p" and "atp_function p = AtpResponse" and "atp_tid p = tid"
    and "\<not> atp_eom p" and "atp_bitmap_seq p \<noteq> 0"
  shows "atp_handle_datagram src payload now e = e\<lparr>ae_pending := om_remove tid (ae_pending e)\<rparr>"
  using assms
  by (simp add: atp_handle_datagram_def atp_on_response_def Let_def pr_complete_def pr_add_def atp_assemble_def)

lemma atp_stray_reply_loses_request_witness:
  "\<exists>cl1. atp_request example_peer [0, 0, 0, 0] [] 1 0 (atp_new 70) = Some (1, cl1)
    \<and> atp_handle_datagram example_peer (atp_frame \<lparr>atp_function = AtpResponse, atp_xo = False, atp_eom = False,
        atp_sts = False, atp_bitmap_seq = 3, atp_tid = 1, atp_user_bytes = [0, 0, 0, 0]\<rparr> [5]) 4 cl1
      = cl1\<lparr>ae_pending := []\<rparr> \<and> ae_pending cl1 \<noteq> []"
proof -
  let ?p = "\<lparr>atp_function = AtpResponse, atp_xo = False, atp_eom = False,
        atp_sts = False, atp_bitmap_seq = 3, atp_tid = 1, atp_user_bytes = [0, 0, 0, 0]\<rparr>"
  obtain cl1 st where r: "atp_request example_peer [0, 0, 0, 0] [] 1 0 (atp_new 70) = Some (1, cl1)"
    and p: "ae_pending cl1 = [(1, st)]" "pr_received st = []" "pr_eom_seq st = None" "pr_requested_bitmap st = 1"
    by (simp add: atp_request_def allocate_tid_first Let_def) (simp add: atp_new_def)
  have pc: "atp_popcount 1 = 1" by (simp add: atp_popcount_def upt_rec)
  have pp: "atp_parse (atp_frame ?p [5]) = Inr ?p" by (simp add: atp_parse_frame atp_wf_def)
  from atp_stray_reply_loses_request [where e = cl1 and tid = 1 and st = st, OF _ _ _ _ pp] r p pc
  show ?thesis by (simp add: om_remove_def)
qed

section \<open>Retransmission\<close>

text \<open>
  Polls at any times, and how many of them find a request that is due at \<open>t\<close> due: a poll at
  or after the deadline moves the deadline an interval past it, an earlier one does not count.
\<close>

fun atp_polls :: "micros list \<Rightarrow> AtpEndpoint \<Rightarrow> AtpEndpoint" where
  "atp_polls [] e = e"
| "atp_polls (t # ts) e = atp_polls ts (atp_poll t e)"

fun due_polls :: "micros \<Rightarrow> micros list \<Rightarrow> nat" where
  "due_polls t [] = 0"
| "due_polls t (x # xs) = (if x < t then due_polls t xs else 1 + due_polls (x + RETRY_INTERVAL) xs)"

text \<open>The scan of a poll, entry by entry: what is kept, what fails, what is sent again.\<close>

definition bumped :: "micros \<Rightarrow> PendingRequest \<Rightarrow> PendingRequest" where
  "bumped now p = (if now < pr_retry_at p then p
     else p\<lparr>pr_retries := pr_retries p + 1, pr_retry_at := now + RETRY_INTERVAL\<rparr>)"

definition gives_up :: "micros \<Rightarrow> PendingRequest \<Rightarrow> bool" where
  "gives_up now p \<longleftrightarrow> pr_retry_at p \<le> now \<and> MAX_RETRIES \<le> pr_retries p"

definition resends :: "micros \<Rightarrow> PendingRequest \<Rightarrow> bool" where
  "resends now p \<longleftrightarrow> pr_retry_at p \<le> now \<and> pr_retries p < MAX_RETRIES"

lemma atp_scan_entries:
  "atp_scan now m = (map (\<lambda>(k, p). (k, bumped now p)) m,
     map fst (filter (\<lambda>(k, p). gives_up now p) m),
     map (\<lambda>(k, p). (pr_dest p, pr_raw_packet p)) (filter (\<lambda>(k, p). resends now p) m))"
  by (induction now m rule: atp_scan.induct) (auto simp: Let_def bumped_def gives_up_def resends_def)

lemma foldl_om_remove: "foldl (\<lambda>m k. om_remove k m) m ks = filter (\<lambda>x. fst x \<notin> set ks) m"
  by (induction ks arbitrary: m) (auto simp: om_remove_def intro: filter_cong)

lemma atp_poll_entries:
  "ae_pending (atp_poll now e) = filter (\<lambda>x. fst x \<notin> fst ` set (filter (\<lambda>(k, p). gives_up now p) (ae_pending e)))
     (map (\<lambda>(k, p). (k, bumped now p)) (ae_pending e))"
  "ae_events (atp_poll now e) = ae_events e @ map (EvRequestFailed \<circ> fst) (filter (\<lambda>(k, p). gives_up now p) (ae_pending e))"
  "ae_outbox (atp_poll now e) = ae_outbox e
     @ map (\<lambda>(k, p). (pr_dest p, pr_raw_packet p)) (filter (\<lambda>(k, p). resends now p) (ae_pending e))"
  by (simp_all add: atp_poll_def atp_scan_entries foldl_om_remove)

text \<open>Request \<open>tid\<close> among others, whose packets are not its packet.\<close>

definition alone_in :: "u16 \<Rightarrow> bytes \<Rightarrow> (u16, PendingRequest) omap \<Rightarrow> bool" where
  "alone_in tid raw m \<longleftrightarrow> om_wf m \<and> (\<forall>(k, q)\<in>set m. k \<noteq> tid \<longrightarrow> pr_raw_packet q \<noteq> raw)"

lemma alone_in_poll:
  assumes "alone_in tid raw (ae_pending e)"
  shows "alone_in tid raw (ae_pending (atp_poll now e))"
proof -
  have mf: "map fst (map (\<lambda>(k, p). (k, bumped now p)) m) = map fst m" for m :: "(u16, PendingRequest) omap"
    by (induction m) auto
  have "om_wf (map (\<lambda>(k, p). (k, bumped now p)) (ae_pending e))"
    using assms unfolding alone_in_def om_wf_def mf by blast
  moreover have "pr_raw_packet (bumped now q) = pr_raw_packet q" for q by (simp add: bumped_def)
  ultimately show ?thesis
    using assms unfolding alone_in_def atp_poll_entries om_wf_def
    by (auto simp: sorted_wrt_filter_map)
qed

lemma alone_split:
  assumes "alone_in tid raw m" and "map_of m tid = Some p"
  obtains xs ys where "m = xs @ (tid, p) # ys"
    and "\<forall>(k, q)\<in>set xs \<union> set ys. k \<noteq> tid \<and> pr_raw_packet q \<noteq> raw"
proof -
  have w: "om_wf m" using assms(1) by (simp add: alone_in_def)
  from map_of_SomeD [OF assms(2)] obtain xs ys where m: "m = xs @ (tid, p) # ys" by (auto dest: split_list)
  have "distinct (map fst m)" by (rule om_wf_distinct [OF w])
  then have k: "tid \<notin> fst ` set xs" "tid \<notin> fst ` set ys" by (auto simp: m)
  have "j \<noteq> tid \<and> pr_raw_packet q \<noteq> raw" if "(j, q) \<in> set xs \<union> set ys" for j q
  proof -
    have "j \<noteq> tid" using that k by (metis Un_iff fst_conv image_eqI)
    moreover have "(j, q) \<in> set m" using that m by auto
    ultimately show ?thesis using assms(1) unfolding alone_in_def by blast
  qed
  then have "\<forall>(k, q)\<in>set xs \<union> set ys. k \<noteq> tid \<and> pr_raw_packet q \<noteq> raw" by blast
  then show ?thesis by (rule that [OF m])
qed

text \<open>One poll, seen from the request: counted frames, counted failures, and what is left of it.\<close>

lemma atp_poll_one:
  assumes "alone_in tid (pr_raw_packet p) (ae_pending e)" and "map_of (ae_pending e) tid = Some p"
  shows "count_list (ae_outbox (atp_poll now e)) (pr_dest p, pr_raw_packet p)
      = count_list (ae_outbox e) (pr_dest p, pr_raw_packet p) + (if resends now p then 1 else 0)
    \<and> count_list (ae_events (atp_poll now e)) (EvRequestFailed tid)
      = count_list (ae_events e) (EvRequestFailed tid) + (if gives_up now p then 1 else 0)
    \<and> map_of (ae_pending (atp_poll now e)) tid = (if gives_up now p then None else Some (bumped now p))"
proof -
  from alone_split [OF assms] obtain xs ys where m: "ae_pending e = xs @ (tid, p) # ys"
    and o: "\<forall>(k, q)\<in>set xs \<union> set ys. k \<noteq> tid \<and> pr_raw_packet q \<noteq> pr_raw_packet p" .
  have z: "count_list (map (\<lambda>(k, p). (pr_dest p, pr_raw_packet p)) (filter (\<lambda>(k, p). resends now p) zs)) (pr_dest p, pr_raw_packet p) = 0"
    "count_list (map (EvRequestFailed \<circ> fst) (filter (\<lambda>(k, p). gives_up now p) zs)) (EvRequestFailed tid) = 0"
    if "set zs \<subseteq> set xs \<union> set ys" for zs
    using o that by (fastforce simp: count_list_0_iff)+
  have mo: "map_of (map (\<lambda>(k, p). (k, bumped now p)) zs) tid = None" if "set zs \<subseteq> set xs \<union> set ys" for zs
    using o that by (fastforce simp: map_of_eq_None_iff)
  have fm: "map_of (filter (\<lambda>x. fst x \<notin> K) zs) tid = (if tid \<in> K then None else map_of zs tid)"
    for K and zs :: "(u16, PendingRequest) omap" by (induction zs) auto
  have g: "tid \<in> fst ` set (filter (\<lambda>(k, p). gives_up now p) (ae_pending e)) \<longleftrightarrow> gives_up now p"
    using o by (force simp: m)
  have "map_of (ae_pending (atp_poll now e)) tid = (if gives_up now p then None else Some (bumped now p))"
    unfolding atp_poll_entries(1) fm g by (simp add: m map_add_def mo)
  moreover have "count_list (ae_outbox (atp_poll now e)) (pr_dest p, pr_raw_packet p)
      = count_list (ae_outbox e) (pr_dest p, pr_raw_packet p) + (if resends now p then 1 else 0)"
    using z(1) [of xs] z(1) [of ys] by (simp add: atp_poll_entries(3) m)
  moreover have "count_list (ae_events (atp_poll now e)) (EvRequestFailed tid)
      = count_list (ae_events e) (EvRequestFailed tid) + (if gives_up now p then 1 else 0)"
    using z(2) [of xs] z(2) [of ys] by (simp add: atp_poll_entries(2) m)
  ultimately show ?thesis by blast
qed

lemma atp_polls_gone:
  assumes "alone_in tid raw (ae_pending e)" and "map_of (ae_pending e) tid = None"
  shows "count_list (ae_outbox (atp_polls ts e)) (d, raw) = count_list (ae_outbox e) (d, raw)
    \<and> count_list (ae_events (atp_polls ts e)) (EvRequestFailed tid) = count_list (ae_events e) (EvRequestFailed tid)
    \<and> map_of (ae_pending (atp_polls ts e)) tid = None"
  using assms
proof (induction ts arbitrary: e)
  case (Cons t ts)
  have n: "\<forall>(k, q)\<in>set (ae_pending e). k \<noteq> tid \<and> pr_raw_packet q \<noteq> raw"
    using Cons.prems by (force simp: alone_in_def map_of_eq_None_iff)
  have m: "map_of (ae_pending (atp_poll t e)) tid = None"
    using n unfolding atp_poll_entries(1) map_of_eq_None_iff by fastforce
  have "count_list (ae_outbox (atp_poll t e)) (d, raw) = count_list (ae_outbox e) (d, raw)"
    "count_list (ae_events (atp_poll t e)) (EvRequestFailed tid) = count_list (ae_events e) (EvRequestFailed tid)"
    using n by (fastforce simp: atp_poll_entries(2,3) count_list_0_iff)+
  with Cons.IH [OF alone_in_poll [OF Cons.prems(1)] m] show ?case by simp
qed simp

lemma atp_polls_one:
  assumes "alone_in tid (pr_raw_packet p) (ae_pending e)" and "map_of (ae_pending e) tid = Some p"
    and "pr_retries p \<le> MAX_RETRIES"
  shows "let k = due_polls (pr_retry_at p) ts; left = MAX_RETRIES - pr_retries p; e' = atp_polls ts e
    in count_list (ae_outbox e') (pr_dest p, pr_raw_packet p) = count_list (ae_outbox e) (pr_dest p, pr_raw_packet p) + min k left
     \<and> count_list (ae_events e') (EvRequestFailed tid) = count_list (ae_events e) (EvRequestFailed tid) + (if k \<le> left then 0 else 1)
     \<and> (map_of (ae_pending e') tid \<noteq> None \<longleftrightarrow> k \<le> left)"
  using assms
proof (induction ts arbitrary: e p)
  case Nil
  then show ?case by simp
next
  case (Cons t ts)
  note one = atp_poll_one [OF Cons.prems(1,2), of t] and a = alone_in_poll [OF Cons.prems(1), of t]
  consider (early) "t < pr_retry_at p" | (last) "gives_up t p" | (again) "resends t p"
    by (meson gives_up_def resends_def not_le)
  then show ?case
  proof cases
    case early
    then have "map_of (ae_pending (atp_poll t e)) tid = Some p"
      using one by (simp add: gives_up_def bumped_def)
    from Cons.IH [OF a this Cons.prems(3)] one early show ?thesis by (simp add: Let_def gives_up_def resends_def)
  next
    case last
    then have "map_of (ae_pending (atp_poll t e)) tid = None" using one by simp
    from atp_polls_gone [OF a this, of ts "pr_dest p"] one last Cons.prems(3) show ?thesis
      by (simp add: Let_def gives_up_def resends_def)
  next
    case again
    then have "map_of (ae_pending (atp_poll t e)) tid = Some (bumped t p)" using one by (simp add: gives_up_def resends_def)
    moreover have b: "pr_raw_packet (bumped t p) = pr_raw_packet p" "pr_dest (bumped t p) = pr_dest p"
      "pr_retries (bumped t p) = pr_retries p + 1" "pr_retry_at (bumped t p) = t + RETRY_INTERVAL"
      using again by (simp_all add: bumped_def resends_def)
    ultimately show ?thesis
      using Cons.IH [of "bumped t p" "atp_poll t e"] a one again Cons.prems(3)
      by (auto simp: Let_def gives_up_def resends_def)
  qed
qed

text \<open>
Claim C11: Whatever other requests are outstanding (their packets, which carry other transaction
  identifiers, are different) and at whatever times the endpoint is polled, with nothing but polls in between, an unanswered request is
  resent, unchanged and to the same destination, by each of the first eight polls that find it due, and
  stays outstanding; the ninth such poll fails it with exactly one event, sends nothing for it
  and forgets it, and no later poll sends or fails it again. A poll finds a request due when it comes
  at or after its deadline, which is then an interval past that poll.\<close>

theorem atp_retries_then_fails:
  assumes "om_wf (ae_pending e)" and "map_of (ae_pending e) tid = Some p" and "pr_retries p = 0"
    and "\<forall>(k, q)\<in>set (ae_pending e). k \<noteq> tid \<longrightarrow> pr_raw_packet q \<noteq> pr_raw_packet p"
  shows "let k = due_polls (pr_retry_at p) ts; e' = atp_polls ts e
    in count_list (ae_outbox e') (pr_dest p, pr_raw_packet p) = count_list (ae_outbox e) (pr_dest p, pr_raw_packet p) + min k 8
     \<and> count_list (ae_events e') (EvRequestFailed tid) = count_list (ae_events e) (EvRequestFailed tid) + (if k \<le> 8 then 0 else 1)
     \<and> (map_of (ae_pending e') tid \<noteq> None \<longleftrightarrow> k \<le> 8)"
proof -
  have "alone_in tid (pr_raw_packet p) (ae_pending e)" using assms(1,4) by (simp add: alone_in_def)
  from atp_polls_one [OF this assms(2)] assms(3) show ?thesis by (simp add: MAX_RETRIES_def)
qed

lemma atp_retries_then_fails_witness:
  "\<exists>cl1 cl2. atp_request example_peer [0, 0, 0, 0] [] 1 0 (atp_new 70) = Some (1, cl1)
    \<and> atp_request example_peer [0, 0, 0, 0] [] 1 1000000 cl1 = Some (2, cl2)
    \<and> count_list (ae_events (atp_polls (map (\<lambda>k. (k + 1) * 2000000) [0..<9]) cl2)) (EvRequestFailed 1) = 1"
proof -
  obtain cl1 p where r: "atp_request example_peer [0, 0, 0, 0] [] 1 0 (atp_new 70) = Some (1, cl1)"
    and c: "ae_pending cl1 = [(1, p)]" "ae_next_tid cl1 = 2" "ae_events cl1 = []"
    and m: "pr_retries p = 0" "pr_retry_at p = RETRY_INTERVAL"
      "pr_raw_packet p = atp_frame \<lparr>atp_function = AtpRequest, atp_xo = True, atp_eom = False, atp_sts = False,
        atp_bitmap_seq = 1, atp_tid = 1, atp_user_bytes = [0, 0, 0, 0]\<rparr> []"
    by (simp add: atp_request_def allocate_tid_first Let_def) (simp add: atp_new_def)
  have "allocate_tid cl1 = Some (2, cl1\<lparr>ae_next_tid := 3\<rparr>)"
    by (simp add: allocate_tid_def c allocate_tid_loop.simps)
  then obtain cl2 q where r2: "atp_request example_peer [0, 0, 0, 0] [] 1 1000000 cl1 = Some (2, cl2)"
    and m2: "ae_pending cl2 = [(1, p), (2, q)]" "ae_events cl2 = []"
      "pr_raw_packet q = atp_frame \<lparr>atp_function = AtpRequest, atp_xo = True, atp_eom = False, atp_sts = False,
        atp_bitmap_seq = 1, atp_tid = 2, atp_user_bytes = [0, 0, 0, 0]\<rparr> []"
    by (simp add: atp_request_def Let_def c)
  have ne: "pr_raw_packet q \<noteq> pr_raw_packet p"
  proof
    assume "pr_raw_packet q = pr_raw_packet p"
    then have "atp_parse (pr_raw_packet q) = atp_parse (pr_raw_packet p)" by simp
    then show False unfolding m(3) m2(3) by (subst (asm) (1 2) atp_parse_frame) (simp_all add: atp_wf_def)
  qed
  have d: "due_polls RETRY_INTERVAL (map (\<lambda>k. (k + 1) * 2000000) [0..<9]) = 9"
    by (simp add: RETRY_INTERVAL_def upt_rec)
  have "om_wf (ae_pending cl2)" "map_of (ae_pending cl2) 1 = Some p" by (simp_all add: m2 om_wf_def)
  from atp_retries_then_fails [OF this m(1), of "map (\<lambda>k. (k + 1) * 2000000) [0..<9]"] m m2 ne d r r2
  show ?thesis by (simp add: Let_def)
qed

end
