(* ===== verification/Core_Pap_Props.thy ===== *)
theory Core_Pap_Props
  imports Core_Pap Core_Atp_Exchange
begin

text \<open>
  What the PAP server keeps: its operations return, they leave nothing undone, and the events it
  hands the printer are those of well-formed sessions. The invariant of one operation is proved
  handler by handler as a relation between the state before and after it (\<open>pap_evolves\<close>).
\<close>

section \<open>Inputs and runs\<close>

datatype PapInput =
    PiStatus bytes
  | PiCredit nat micros
  | PiOutput bytes micros
  | PiEndOutput micros
  | PiDatagram u8 ServiceAddress bytes micros
  | PiPoll micros
  | PiDrainEvent
  | PiDrainTransmit

fun pap_input :: "PapInput \<Rightarrow> PapServer \<Rightarrow> PapServer option" where
  "pap_input (PiStatus status) s = Some (set_status status s)"
| "pap_input (PiCredit bytes now) s = set_sink_credit bytes now s"
| "pap_input (PiOutput data now) s = Some (queue_output data now s)"
| "pap_input (PiEndOutput now) s = Some (end_output now s)"
| "pap_input (PiDatagram sock src payload now) s = pap_handle_datagram sock src payload now s"
| "pap_input (PiPoll now) s = pap_poll now s"
| "pap_input PiDrainEvent s = Some (snd (pap_poll_event s))"
| "pap_input PiDrainTransmit s = Some (snd (pap_poll_transmit s))"

text \<open>The events an input hands to the caller.\<close>

fun pap_handed :: "PapInput \<Rightarrow> PapServer \<Rightarrow> PapEvent list" where
  "pap_handed PiDrainEvent s = (case fst (pap_poll_event s) of None \<Rightarrow> [] | Some ev \<Rightarrow> [ev])"
| "pap_handed _ s = []"

fun pap_run :: "PapInput list \<Rightarrow> PapServer \<Rightarrow> (PapServer \<times> PapEvent list) option" where
  "pap_run [] s = Some (s, [])"
| "pap_run (i # is) s = do {
     s1 \<leftarrow> pap_input i s;
     (s2, log) \<leftarrow> pap_run is s1;
     Some (s2, pap_handed i s @ log)
   }"

section \<open>The language of events\<close>

text \<open>
  A session opens, carries bytes in non-empty pieces, marks the end of a job only after bytes of
  that job, and closes. The state is the number of bytes of the current job, \<open>None\<close> between
  sessions; a trace outside the language gives \<open>None\<close>.
\<close>

fun pap_trace :: "nat option \<Rightarrow> PapEvent list \<Rightarrow> nat option option" where
  "pap_trace st [] = Some st"
| "pap_trace None (PapOpened c # evs) = pap_trace (Some 0) evs"
| "pap_trace (Some n) (ToPrinter d # evs) = (if d = [] then None else pap_trace (Some (n + length d)) evs)"
| "pap_trace (Some n) (JobEof # evs) = (if n = 0 then None else pap_trace (Some 0) evs)"
| "pap_trace (Some n) (PapClosed # evs) = pap_trace None evs"
| "pap_trace _ _ = None"

lemma pap_trace_append: "pap_trace st (xs @ ys) = Option.bind (pap_trace st xs) (\<lambda>st'. pap_trace st' ys)"
  by (induction st xs rule: pap_trace.induct) auto

section \<open>What every step keeps\<close>

definition pap_job :: "PapServer \<Rightarrow> nat option" where
  "pap_job s = map_option job_bytes (ps_session s)"

text \<open>
  The reply cache holds the last reads answered: their numbers lead up to the one expected next. A
  waiting read is unsequenced or is the one expected.
\<close>

definition read_chain :: "u16 list \<Rightarrow> bool" where
  "read_chain qs = successively (\<lambda>a b. b = next_pap_seq a) qs"

definition session_ok :: "PapSession \<Rightarrow> bool" where
  "session_ok ss \<longleftrightarrow> pull_seq ss \<noteq> 0 \<and> read_seq ss \<noteq> 0 \<and> length (read_cache ss) \<le> READ_REPLY_CACHE_LEN
     \<and> read_chain (map fst (read_cache ss) @ [read_seq ss])
     \<and> pred_option (\<lambda>(_, _, _, q). q = 0 \<or> q = read_seq ss) (pending_read ss)"

definition pap_wf_state :: "PapServer \<Rightarrow> bool" where
  "pap_wf_state s \<longleftrightarrow> pred_option session_ok (ps_session s) \<and> length (ps_status s) \<le> 255"

definition pending_tids :: "PapServer \<Rightarrow> u16 set" where
  "pending_tids s = fst ` set (ae_pending (ps_conn_ep s))"

definition pap_emits :: "PapServer \<Rightarrow> PapServer \<Rightarrow> bool" where
  "pap_emits s s' \<longleftrightarrow> (\<exists>evs. ps_events s' = ps_events s @ evs \<and> pap_trace (pap_job s) evs = Some (pap_job s'))"

definition pap_evolves :: "PapServer \<Rightarrow> PapServer \<Rightarrow> bool" where
  "pap_evolves s s' \<longleftrightarrow> (pap_wf_state s \<longrightarrow> pap_wf_state s') \<and> pap_emits s s'"

lemma pap_emits_trans: "pap_emits a b \<Longrightarrow> pap_emits b c \<Longrightarrow> pap_emits a c"
  unfolding pap_emits_def by (elim exE conjE) (auto simp: pap_trace_append)

lemma pap_evolves_trans [trans]: "pap_evolves a b \<Longrightarrow> pap_evolves b c \<Longrightarrow> pap_evolves a c"
  using pap_emits_trans by (auto simp: pap_evolves_def)

lemma pap_emits_silent: "ps_events s' = ps_events s \<Longrightarrow> pap_job s' = pap_job s \<Longrightarrow> pap_emits s s'"
  by (simp add: pap_emits_def)

lemma pap_emits_one:
  "ps_events s' = ps_events s @ [ev] \<Longrightarrow> pap_trace (pap_job s) [ev] = Some (pap_job s') \<Longrightarrow> pap_emits s s'"
  by (auto simp: pap_emits_def)

lemma pap_evolves_refl: "pap_evolves s s"
  by (simp add: pap_evolves_def pap_emits_silent)

lemma next_pap_seq_nz: "next_pap_seq q \<noteq> 0"
proof -
  have "q = 0xFFFF" if "q + 1 = 0"
  proof -
    from that have "q = - 1" by (simp add: eq_neg_iff_add_eq_0)
    then show ?thesis by simp
  qed
  then show ?thesis by (auto simp: next_pap_seq_def)
qed

lemma set_session_ep:
  "pap_job (set_session ss s) = Some (job_bytes ss)"
  "pap_wf_state (set_session ss s) \<longleftrightarrow> session_ok ss \<and> length (ps_status s) \<le> 255"
  by (simp_all add: pap_job_def pap_wf_state_def)

lemma set_ep_simps:
  "pap_job (s\<lparr>ps_conn_ep := e\<rparr>) = pap_job s" "pap_job (s\<lparr>ps_listener := e\<rparr>) = pap_job s"
  "pap_wf_state (s\<lparr>ps_conn_ep := e\<rparr>) = pap_wf_state s" "pap_wf_state (s\<lparr>ps_listener := e\<rparr>) = pap_wf_state s"
  by (simp_all add: pap_job_def pap_wf_state_def)

lemma set_ep_evolves:
  "pap_evolves s (s\<lparr>ps_conn_ep := e\<rparr>)" "pap_evolves s (s\<lparr>ps_listener := e\<rparr>)"
  by (simp_all add: pap_evolves_def set_ep_simps pap_emits_silent)

lemma respond_pap_evolves: "pap_evolves s (respond_pap l src tid p now s)"
  by (simp add: pap_evolves_def pap_emits_silent pap_job_def pap_wf_state_def)

lemma session_new_ok: "session_ok (session_new cid client now)" "job_bytes (session_new cid client now) = 0"
  by (simp_all add: session_ok_def session_new_def read_chain_def)

lemma handle_listener_evolves: "pap_evolves s (handle_listener_event ev now s)"
proof -
  have opened: "pap_evolves s (pap_event (PapOpened c) ((respond_pap True src tid p now s)\<lparr>ps_session := Some (session_new cid c now)\<rparr>))"
    if "ps_session s = None" for c src tid p cid
    using that by (auto simp: pap_evolves_def pap_wf_state_def session_new_ok pap_job_def intro!: pap_emits_one)
  show ?thesis
    by (auto simp: handle_listener_event_def Let_def pap_evolves_refl respond_pap_evolves opened
        split: AtpEvent.splits sum.splits PapFunction.splits)
qed

lemma set_session_evolves:
  assumes "ps_session s = Some ss0" and "job_bytes ss = job_bytes ss0" and "session_ok ss0 \<longrightarrow> session_ok ss"
  shows "pap_evolves s (set_session ss s)"
  using assms by (auto simp: pap_evolves_def pap_wf_state_def pap_job_def pap_emits_silent)

lemma handle_read_evolves:
  assumes "ps_session s = Some ss" shows "pap_evolves s (handle_read src tid bm q now ss s)"
  using assms
  by (auto simp: handle_read_def set_ep_evolves pap_evolves_refl session_ok_def
      intro!: set_session_evolves split: option.splits)

lemma handle_pull_reply_evolves:
  assumes "ps_session s = Some ss" shows "pap_evolves s (handle_pull_reply ub d now ss s)"
  using assms
  by (simp add: handle_pull_reply_def Let_def pap_evolves_def pap_wf_state_def pap_job_def session_ok_def next_pap_seq_nz
      pap_emits_def split: sum.split)

lemma handle_conn_evolves: "pap_evolves s (handle_conn_event ev now s)"
proof (cases "ps_session s")
  case None
  then show ?thesis by (auto simp: handle_conn_event_def pap_evolves_refl split: AtpEvent.splits sum.splits)
next
  case (Some ss)
  let ?ss = "ss\<lparr>last_activity := now\<rparr>"
  have a: "pap_evolves s (set_session ?ss s)"
    by (rule set_session_evolves [OF Some]) (simp_all add: session_ok_def)
  have r: "pap_evolves s (handle_read src tid bm q now ?ss (set_session ?ss s))" for src tid bm q
    by (rule pap_evolves_trans [OF a handle_read_evolves]) simp
  have c: "pap_evolves s (pap_event PapClosed ((respond_pap False src tid p now (set_session ?ss s))\<lparr>ps_session := None\<rparr>))" for src tid p
    using Some by (auto simp: pap_evolves_def pap_wf_state_def pap_job_def intro!: pap_emits_one)
  have f: "pap_evolves s (set_session (ss\<lparr>outstanding_pull := None\<rparr>) s)"
    by (rule set_session_evolves [OF Some]) (simp_all add: session_ok_def)
  show ?thesis
    by (auto simp: handle_conn_event_def Some Let_def a r c f pap_evolves_refl handle_pull_reply_evolves [OF Some]
        split: AtpEvent.splits sum.splits PapFunction.splits)
qed

lemma read_chain_snoc:
  "read_chain (qs @ [q]) \<Longrightarrow> read_chain (qs @ [q, next_pap_seq q])"
  "read_chain (map fst rc @ [q]) \<Longrightarrow> read_chain (map fst (tl rc) @ [q, next_pap_seq q])"
proof -
  show a: "read_chain (qs @ [q]) \<Longrightarrow> read_chain (qs @ [q, next_pap_seq q])" for qs
    by (simp add: read_chain_def successively_append_iff)
  have "read_chain (map fst rc @ [q]) \<Longrightarrow> read_chain (map fst (tl rc) @ [q])"
    by (cases rc) (auto simp: read_chain_def successively_Cons)
  then show "read_chain (map fst rc @ [q]) \<Longrightarrow> read_chain (map fst (tl rc) @ [q, next_pap_seq q])"
    by (metis a map_tl)
qed

lemma answer_read_evolves: "pap_evolves s (answer_read now s)"
proof (cases "ps_session s")
  case (Some ss)
  show ?thesis
  proof (cases "pending_read ss")
    case r: (Some r)
    obtain source tid bitmap q where r: "pending_read ss = Some (source, tid, bitmap, q)" using r by (cases r) auto
    show ?thesis
    proof (cases "\<not> (stdout ss \<noteq> [] \<or> eof_queued ss) \<and> \<not> last_client_write ss + READ_IDLE_ANSWER \<le> now")
      case True
      then show ?thesis by (simp add: answer_read_def Some r pap_evolves_refl)
    next
      case False
      then have go: "(\<not> (stdout ss \<noteq> [] \<or> eof_queued ss) \<and> \<not> last_client_write ss + READ_IDLE_ANSWER \<le> now) = False" by simp
      have p: "pap_emits s (answer_read now s)"
        by (rule pap_emits_silent) (simp_all only: answer_read_def Some r option.case prod.case Let_def go if_False split_beta,
          simp_all add: pap_job_def Some)
      have "pap_wf_state (answer_read now s)" if w: "pap_wf_state s"
      proof -
        from w have ok: "session_ok ss" and st: "length (ps_status s) \<le> 255" by (simp_all add: pap_wf_state_def Some)
        show ?thesis
          by (cases "q = 0")
            (use ok r st in \<open>simp_all only: answer_read_def Some option.case prod.case Let_def go if_False split_beta if_True not_not simp_thms,
             auto simp: pap_wf_state_def session_ok_def next_pap_seq_nz READ_REPLY_CACHE_LEN_def read_chain_snoc\<close>)
      qed
      with p show ?thesis by (simp add: pap_evolves_def)
    qed
  qed (simp add: answer_read_def Some pap_evolves_refl)
qed (simp add: answer_read_def pap_evolves_refl)

lemma maybe_pull_evolves: "maybe_pull now s = Some s' \<Longrightarrow> pap_evolves s s'"
  by (auto simp: maybe_pull_def Let_def split_beta pap_evolves_def pap_wf_state_def pap_job_def session_ok_def
      bind_eq_Some_conv intro!: pap_emits_silent split: option.splits if_splits)

lemma drain_listener_evolves: "pap_evolves s (drain_listener now s)"
proof (induction now s rule: drain_listener.induct)
  case (1 now s)
  show ?case
  proof (cases "atp_poll_event (ps_listener s)")
    case (Pair ev ep)
    then show ?thesis
      using 1 [OF Pair [symmetric]] pap_evolves_trans [OF pap_evolves_trans [OF set_ep_evolves(2) handle_listener_evolves]]
      by (cases ev) (simp_all add: drain_listener.simps [of now s] pap_evolves_refl)
  qed
qed

lemma drain_conn_evolves: "pap_evolves s (drain_conn now s)"
proof (induction now s rule: drain_conn.induct)
  case (1 now s)
  show ?case
  proof (cases "atp_poll_event (ps_conn_ep s)")
    case (Pair ev ep)
    then show ?thesis
      using 1 [OF Pair [symmetric]] pap_evolves_trans [OF pap_evolves_trans [OF set_ep_evolves(1) handle_conn_evolves]]
      by (cases ev) (simp_all add: drain_conn.simps [of now s] pap_evolves_refl)
  qed
qed

section \<open>Nothing is left undone\<close>

definition reads_served :: "PapServer \<Rightarrow> bool" where
  "reads_served s \<longleftrightarrow> pred_option (\<lambda>ss. pending_read ss \<noteq> None \<longrightarrow> stdout ss = [] \<and> \<not> eof_queued ss) (ps_session s)"

definition pulls_issued :: "PapServer \<Rightarrow> bool" where
  "pulls_issued s \<longleftrightarrow> pred_option (\<lambda>ss. outstanding_pull ss = None \<longrightarrow> sink_credit s < PULL_CAPACITY) (ps_session s)"

definition endpoints_drained :: "PapServer \<Rightarrow> bool" where
  "endpoints_drained s \<longleftrightarrow> ae_events (ps_listener s) = [] \<and> ae_events (ps_conn_ep s) = []"

definition pap_settled :: "PapServer \<Rightarrow> bool" where
  "pap_settled s \<longleftrightarrow> pap_wf_state s \<and> reads_served s \<and> pulls_issued s \<and> endpoints_drained s"

lemma allocate_tid_fits:
  assumes "card (fst ` set (ae_pending e)) < 65535"
  shows "\<exists>tid n. allocate_tid e = Some (tid, e\<lparr>ae_next_tid := n\<rparr>)"
proof -
  have "\<exists>t. t \<noteq> 0 \<and> map_of (ae_pending e) t = None"
  proof (rule ccontr)
    assume "\<not> ?thesis"
    then have "UNIV - {0} \<subseteq> fst ` set (ae_pending e)" by (auto simp: map_of_eq_None_iff)
    then have "card (UNIV - {0 :: u16}) \<le> card (fst ` set (ae_pending e))" by (intro card_mono) simp_all
    moreover have "card (UNIV - {0 :: u16}) = 65535" by (simp add: card_Diff_singleton card_word)
    ultimately show False using assms by simp
  qed
  then obtain t where "t \<noteq> 0" "map_of (ae_pending e) t = None" by blast
  from allocate_tid_loop_finds [OF this, of "ae_next_tid e"] show ?thesis
    by (auto simp: allocate_tid_def)
qed

lemma atp_request_fits:
  assumes "card (fst ` set (ae_pending e)) < 65535"
  shows "\<exists>tid e'. atp_request dest ub d bm now e = Some (tid, e') \<and> ae_events e' = ae_events e
    \<and> fst ` set (ae_pending e') = insert tid (fst ` set (ae_pending e))"
  using allocate_tid_fits [OF assms] by (auto simp: atp_request_def Let_def set_om_insert)

lemma send_alo_fits:
  assumes "card (fst ` set (ae_pending e)) < 65535"
  shows "\<exists>e'. send_alo dest ub e = Some e' \<and> ae_events e' = ae_events e \<and> ae_pending e' = ae_pending e"
  using allocate_tid_fits [OF assms] by (auto simp: send_alo_def Let_def)

lemma maybe_pull_idle: "pulls_issued s \<Longrightarrow> maybe_pull now s = Some s"
  by (auto simp: pulls_issued_def maybe_pull_def split: option.splits)

lemma maybe_pull_issues:
  assumes "card (pending_tids s) < 65535" and "\<not> pulls_issued s"
  shows "\<exists>ss tid e'. maybe_pull now s = Some (s\<lparr>ps_conn_ep := e', ps_session := Some (ss\<lparr>outstanding_pull := Some tid\<rparr>)\<rparr>)
    \<and> ps_session s = Some ss \<and> ae_events e' = ae_events (ps_conn_ep s) \<and> fst ` set (ae_pending e') = insert tid (pending_tids s)"
proof -
  obtain ss where ss: "ps_session s = Some ss" "outstanding_pull ss = None" "\<not> sink_credit s < PULL_CAPACITY"
    using assms(2) by (cases "ps_session s") (auto simp: pulls_issued_def)
  obtain ub d where p: "pap_to_atp_parts (pap_packet (ss_conn_id ss) SendData (pull_seq ss) False []) = (ub, d)"
    by (meson surj_pair)
  from atp_request_fits [OF assms(1) [unfolded pending_tids_def], of "ss_client ss" ub d "0xFF" now]
  obtain tid e' where r: "atp_request (ss_client ss) ub d 0xFF now (ps_conn_ep s) = Some (tid, e')"
    "ae_events e' = ae_events (ps_conn_ep s)" "fst ` set (ae_pending e') = insert tid (pending_tids s)"
    by (auto simp: pending_tids_def)
  have "maybe_pull now s = Some (s\<lparr>ps_conn_ep := e', ps_session := Some (ss\<lparr>outstanding_pull := Some tid\<rparr>)\<rparr>)"
    using ss p r(1) by (simp add: maybe_pull_def)
  with ss(1) r(2,3) show ?thesis by blast
qed

definition pulls_done :: "PapServer \<Rightarrow> PapServer \<Rightarrow> bool" where
  "pulls_done s s' \<longleftrightarrow> pulls_issued s' \<and> endpoints_drained s' = endpoints_drained s
     \<and> reads_served s' = reads_served s \<and> card (pending_tids s') \<le> card (pending_tids s) + 1"

lemma maybe_pull_total:
  assumes "card (pending_tids s) < 65535"
  shows "\<exists>s'. maybe_pull now s = Some s' \<and> pulls_done s s'"
proof (cases "pulls_issued s")
  case True then show ?thesis by (simp add: maybe_pull_idle pulls_done_def)
next
  case False
  from maybe_pull_issues [OF assms False, of now] obtain ss tid e' where
    m: "maybe_pull now s = Some (s\<lparr>ps_conn_ep := e', ps_session := Some (ss\<lparr>outstanding_pull := Some tid\<rparr>)\<rparr>)"
    and ss: "ps_session s = Some ss" and e: "ae_events e' = ae_events (ps_conn_ep s)"
    and p: "fst ` set (ae_pending e') = insert tid (pending_tids s)" by (elim exE conjE)
  have "card (insert tid (pending_tids s)) \<le> card (pending_tids s) + 1"
    by (simp add: card_insert_if pending_tids_def)
  with ss e p have "pulls_done s (s\<lparr>ps_conn_ep := e', ps_session := Some (ss\<lparr>outstanding_pull := Some tid\<rparr>)\<rparr>)"
    by (simp add: pulls_done_def pulls_issued_def endpoints_drained_def reads_served_def) (simp add: pending_tids_def)
  with m show ?thesis by blast
qed

lemma answer_read_serves:
  "reads_served (answer_read now s)" "pulls_issued (answer_read now s) = pulls_issued s"
  "endpoints_drained (answer_read now s) = endpoints_drained s" "pending_tids (answer_read now s) = pending_tids s"
  by (auto simp: answer_read_def Let_def split_beta reads_served_def pulls_issued_def endpoints_drained_def pending_tids_def
      split: option.splits)

lemma drain_listener_empty:
  "ae_events (ps_listener (drain_listener now s)) = []
   \<and> ae_events (ps_conn_ep (drain_listener now s)) = ae_events (ps_conn_ep s)
   \<and> ae_pending (ps_conn_ep (drain_listener now s)) = ae_pending (ps_conn_ep s)"
proof (induction now s rule: drain_listener.induct)
  case (1 now s)
  show ?case
  proof (cases "atp_poll_event (ps_listener s)")
    case (Pair ev ep)
    then show ?thesis
      using 1 [OF Pair [symmetric]]
      by (cases ev) (auto simp: drain_listener.simps [of now s] listener_handler_events atp_poll_event_def split: list.splits)
  qed
qed

lemma drain_conn_empty:
  "ae_events (ps_conn_ep (drain_conn now s)) = []
   \<and> ae_events (ps_listener (drain_conn now s)) = ae_events (ps_listener s)
   \<and> ae_pending (ps_conn_ep (drain_conn now s)) = ae_pending (ps_conn_ep s)"
proof (induction now s rule: drain_conn.induct)
  case (1 now s)
  show ?case
  proof (cases "atp_poll_event (ps_conn_ep s)")
    case (Pair ev ep)
    then show ?thesis
      using 1 [OF Pair [symmetric]]
      by (cases ev) (auto simp: drain_conn.simps [of now s] conn_handler_events atp_poll_event_def split: list.splits)
  qed
qed

text \<open>An operation that returns, leaves the server settled and adds at most one transaction.\<close>

definition pap_returns :: "PapServer option \<Rightarrow> PapServer \<Rightarrow> bool" where
  "pap_returns r s \<longleftrightarrow> (\<exists>s'. r = Some s' \<and> pap_settled s' \<and> pap_emits s s' \<and> card (pending_tids s') \<le> card (pending_tids s) + 1)"

lemma pap_drain_returns:
  assumes "pap_wf_state s" and "card (pending_tids s) < 65535"
  shows "pap_returns (pap_drain now s) s"
proof -
  let ?a = "drain_conn now (drain_listener now s)" and ?b = "answer_read now (drain_conn now (drain_listener now s))"
  have p: "pending_tids ?b = pending_tids s"
    unfolding answer_read_serves by (simp add: pending_tids_def drain_conn_empty drain_listener_empty)
  have e: "endpoints_drained ?b"
    by (simp add: answer_read_serves) (simp add: endpoints_drained_def drain_conn_empty drain_listener_empty)
  have v: "pap_evolves s ?b"
    by (rule pap_evolves_trans [OF pap_evolves_trans [OF drain_listener_evolves drain_conn_evolves] answer_read_evolves])
  from assms(2) p have "card (pending_tids ?b) < 65535" by simp
  from maybe_pull_total [OF this, of now] obtain s' where s': "maybe_pull now ?b = Some s'" "pulls_done ?b s'" by blast
  have "pap_evolves s s'" by (rule pap_evolves_trans [OF v maybe_pull_evolves [OF s'(1)]])
  with s' e p assms(1) show ?thesis
    by (auto simp: pap_returns_def pap_drain_def pap_settled_def pap_evolves_def pulls_done_def answer_read_serves)
qed

lemma datagram_tids: "fst ` set (ae_pending (atp_handle_datagram src payload now e)) \<subseteq> fst ` set (ae_pending e)"
proof -
  have "fst ` set (ae_pending (atp_on_response src p d e)) \<subseteq> fst ` set (ae_pending e)" for p d
    by (auto simp: atp_on_response_def Let_def set_om_insert om_remove_def map_of_eq_None_iff image_iff
        split: option.splits dest!: map_of_SomeD) force+
  moreover have "ae_pending (atp_on_request src p d e) = ae_pending e" "ae_pending (atp_on_release src p e) = ae_pending e" for p d
    by (auto simp: atp_on_request_def atp_on_release_def Let_def split: option.splits)
  ultimately show ?thesis by (auto simp: atp_handle_datagram_def Let_def split: sum.split AtpFunction.split)
qed

lemma poll_tids: "fst ` set (ae_pending (atp_poll now e)) \<subseteq> fst ` set (ae_pending e)"
proof -
  have "map fst (fst (atp_scan now m)) = map fst m" for m
    by (induction m) (auto simp: Let_def split_beta)
  then have "fst ` set (fst (atp_scan now m)) = fst ` set m" for m
    by (metis list.set_map)
  moreover have "set (foldl (\<lambda>m tid. om_remove tid m) m ts) \<subseteq> set m" for m ts
    by (induction ts arbitrary: m) (simp, force simp: om_remove_def)
  ultimately show ?thesis by (simp add: atp_poll_def split_beta) blast
qed

lemma pap_returns_weaken:
  assumes "pap_returns r s1" and "pap_emits s s1" and "pending_tids s1 \<subseteq> pending_tids s"
  shows "pap_returns r s"
proof -
  have "card (pending_tids s1) \<le> card (pending_tids s)"
    by (rule card_mono [OF _ assms(3)]) (simp add: pending_tids_def)
  with assms(1,2) show ?thesis using pap_emits_trans by (fastforce simp: pap_returns_def)
qed

lemma pap_same_returns:
  "pap_settled s' \<Longrightarrow> pap_emits s s' \<Longrightarrow> pending_tids s' = pending_tids s \<Longrightarrow> pap_returns (Some s') s"
  by (simp add: pap_returns_def)

lemma pap_datagram_returns:
  assumes "pap_settled s" and "card (pending_tids s) < 65535"
  shows "pap_returns (pap_handle_datagram sock src payload now s) s"
proof -
  define s1 where "s1 = (if sock = ae_local_socket (ps_listener s)
        then s\<lparr>ps_listener := atp_handle_datagram src payload now (ps_listener s)\<rparr>
        else if sock = ae_local_socket (ps_conn_ep s)
        then s\<lparr>ps_conn_ep := atp_handle_datagram src payload now (ps_conn_ep s)\<rparr> else s)"
  have e: "pap_evolves s s1" by (simp add: s1_def set_ep_evolves pap_evolves_refl)
  have p: "pending_tids s1 \<subseteq> pending_tids s" using datagram_tids by (simp add: s1_def pending_tids_def)
  then have "card (pending_tids s1) \<le> card (pending_tids s)" by (intro card_mono) (simp_all add: pending_tids_def)
  with assms e have "pap_returns (pap_drain now s1) s1"
    by (intro pap_drain_returns) (auto simp: pap_evolves_def pap_settled_def)
  then show ?thesis using e p
    by (simp add: pap_handle_datagram_def s1_def [symmetric] pap_evolves_def pap_returns_weaken)
qed

lemma keepalive_settled:
  assumes "pap_settled s" and "card (pending_tids s) < 65535"
  shows "\<exists>s'. pap_keepalive now s = Some s' \<and> pap_settled s' \<and> pap_emits s s' \<and> pending_tids s' = pending_tids s"
proof (cases "ps_session s")
  case None then show ?thesis using assms(1) by (simp add: pap_keepalive_def pap_emits_silent)
next
  case (Some ss)
  let ?closed = "pap_event PapClosed (s\<lparr>ps_session := None\<rparr>)"
  have c: "pap_settled ?closed" "pap_emits s ?closed" "pending_tids ?closed = pending_tids s"
    using assms(1) Some
    by (auto simp: pap_settled_def pap_wf_state_def reads_served_def pulls_issued_def endpoints_drained_def pap_job_def pending_tids_def
        intro!: pap_emits_one)
  obtain ub d where p: "pap_to_atp_parts (pap_packet (ss_conn_id ss) PapTickle 0 False []) = (ub, d)" by (meson surj_pair)
  from send_alo_fits [OF assms(2) [unfolded pending_tids_def], of "ss_client ss" ub] obtain e' where
    e: "send_alo (ss_client ss) ub (ps_conn_ep s) = Some e'" "ae_events e' = ae_events (ps_conn_ep s)"
      "ae_pending e' = ae_pending (ps_conn_ep s)" by blast
  let ?t = "(set_session (ss\<lparr>next_tickle := now + TICKLE_INTERVAL\<rparr>) s)\<lparr>ps_conn_ep := e'\<rparr>"
  have t: "pap_settled ?t" "pap_emits s ?t" "pending_tids ?t = pending_tids s"
    using assms(1) Some e(2,3)
    by (auto simp: pap_settled_def pap_wf_state_def reads_served_def pulls_issued_def endpoints_drained_def pap_job_def pending_tids_def
        session_ok_def intro!: pap_emits_silent)
  show ?thesis
    using c t p e(1) Some assms(1) by (simp add: pap_keepalive_def pap_emits_silent Let_def)
qed

lemma pap_poll_returns:
  assumes "pap_settled s" and "card (pending_tids s) < 65534"
  shows "pap_returns (pap_poll now s) s"
proof -
  define s0 where "s0 = s\<lparr>ps_listener := atp_poll now (ps_listener s), ps_conn_ep := atp_poll now (ps_conn_ep s)\<rparr>"
  have e: "pap_evolves s s0" unfolding s0_def by (rule pap_evolves_trans [OF set_ep_evolves(2) set_ep_evolves(1)])
  have p: "pending_tids s0 \<subseteq> pending_tids s" using poll_tids by (simp add: s0_def pending_tids_def)
  then have c0: "card (pending_tids s0) \<le> card (pending_tids s)" by (intro card_mono) (simp_all add: pending_tids_def)
  with assms e have "pap_returns (pap_drain now s0) s0"
    by (intro pap_drain_returns) (auto simp: pap_evolves_def pap_settled_def)
  then obtain s1 where s1: "pap_drain now s0 = Some s1" "pap_settled s1" "pap_emits s0 s1" "card (pending_tids s1) \<le> card (pending_tids s0) + 1"
    by (auto simp: pap_returns_def)
  with assms c0 have "card (pending_tids s1) < 65535" by simp
  from keepalive_settled [OF s1(2) this, of now] obtain s2 where
    s2: "pap_keepalive now s1 = Some s2" "pap_settled s2" "pap_emits s1 s2" "pending_tids s2 = pending_tids s1" by blast
  let ?s3 = "answer_read now s2"
  have "pap_evolves s2 ?s3" by (rule answer_read_evolves)
  with s2(2) have s3: "pap_settled ?s3" "pap_emits s2 ?s3"
    by (simp_all add: pap_settled_def pap_evolves_def answer_read_serves)
  have "pap_poll now s = Some ?s3"
    using s1(1) s2(1) s3(1) by (simp add: pap_poll_def s0_def [symmetric] maybe_pull_idle pap_settled_def)
  moreover have "pap_emits s ?s3"
    using e s1(3) s2(3) s3(2) pap_emits_trans unfolding pap_evolves_def by blast
  moreover have "card (pending_tids ?s3) \<le> card (pending_tids s) + 1"
    using s1(4) s2(4) c0 by (simp add: answer_read_serves)
  ultimately show ?thesis using s3(1) by (simp add: pap_returns_def)
qed

lemma pap_input_returns:
  assumes "pap_settled s" and "card (pending_tids s) < 65534"
  shows "\<exists>s'. pap_input i s = Some s' \<and> pap_settled s' \<and> card (pending_tids s') \<le> card (pending_tids s) + 1
    \<and> (\<exists>evs. pap_handed i s @ ps_events s' = ps_events s @ evs \<and> pap_trace (pap_job s) evs = Some (pap_job s'))"
proof -
  have quiet: ?thesis if "pap_returns (pap_input i s) s" "pap_handed i s = []"
    using that by (auto simp: pap_returns_def pap_emits_def)
  have served: "pap_returns (Some (answer_read now s1)) s"
    if "pap_evolves s s1" "pulls_issued s1" "endpoints_drained s1" "pending_tids s1 = pending_tids s" for now s1
  proof (rule pap_same_returns)
    have "pap_evolves s (answer_read now s1)" by (rule pap_evolves_trans [OF that(1) answer_read_evolves])
    with assms(1) that(2,3) show "pap_settled (answer_read now s1)" "pap_emits s (answer_read now s1)"
      by (auto simp: pap_evolves_def pap_settled_def answer_read_serves)
    show "pending_tids (answer_read now s1) = pending_tids s" by (simp add: answer_read_serves that(4))
  qed
  note unf = pap_settled_def pap_wf_state_def reads_served_def pulls_issued_def endpoints_drained_def pap_job_def pending_tids_def
  have fed: "pap_returns (Some (answer_read now (case ps_session s of None \<Rightarrow> s | Some ss \<Rightarrow> set_session (f ss) s))) s"
    if "\<And>ss. job_bytes (f ss) = job_bytes ss \<and> outstanding_pull (f ss) = outstanding_pull ss \<and> session_ok (f ss) = session_ok ss" for now f
    by (rule served; cases "ps_session s")
      (use that assms(1) in \<open>auto simp: unf pap_evolves_refl intro!: set_session_evolves\<close>)
  show ?thesis
  proof (cases i)
    case (PiStatus st)
    have "pap_returns (Some (set_status st s)) s"
      by (rule pap_same_returns) (use assms(1) in \<open>auto simp: set_status_def unf intro!: pap_emits_silent\<close>)
    then show ?thesis by (intro quiet) (simp_all add: PiStatus)
  next
    case (PiCredit b now)
    have c: "card (pending_tids (s\<lparr>sink_credit := b\<rparr>)) < 65535" using assms(2) by (simp add: pending_tids_def)
    from maybe_pull_total [OF this, of now] obtain s' where
      m: "maybe_pull now (s\<lparr>sink_credit := b\<rparr>) = Some s'" "pulls_done (s\<lparr>sink_credit := b\<rparr>) s'" by blast
    have "pap_evolves s (s\<lparr>sink_credit := b\<rparr>)"
      by (simp add: pap_evolves_def pap_wf_state_def pap_emits_silent pap_job_def)
    from pap_evolves_trans [OF this maybe_pull_evolves [OF m(1)]] assms(1) m(2)
    have "pap_returns (Some s') s"
      by (simp add: pap_returns_def pap_evolves_def pulls_done_def pap_settled_def)
        (simp add: endpoints_drained_def reads_served_def pending_tids_def)
    then show ?thesis by (intro quiet) (simp_all add: PiCredit set_sink_credit_def m(1))
  next
    case (PiOutput d now)
    show ?thesis by (rule quiet) (use fed in \<open>simp_all add: PiOutput queue_output_def session_ok_def\<close>)
  next
    case (PiEndOutput now)
    show ?thesis by (rule quiet) (use fed in \<open>simp_all add: PiEndOutput end_output_def session_ok_def\<close>)
  next
    case (PiDatagram sock src payload now)
    with pap_datagram_returns [OF assms(1)] assms(2) show ?thesis by (intro quiet) simp_all
  next
    case (PiPoll now)
    with pap_poll_returns [OF assms] show ?thesis by (intro quiet) simp_all
  next
    case PiDrainEvent
    then show ?thesis using assms(1)
      by (cases "ps_events s") (simp_all add: pap_poll_event_def unf)
  next
    case PiDrainTransmit
    have "pap_returns (Some (snd (pap_poll_transmit s))) s"
      by (rule pap_same_returns)
        (use assms(1) in \<open>auto simp: pap_poll_transmit_def atp_poll_transmit_def unf intro!: pap_emits_silent split: list.splits\<close>)
    then show ?thesis by (intro quiet) (simp_all add: PiDrainTransmit)
  qed
qed

text \<open>A run of \<open>n\<close> inputs leaves at most \<open>n\<close> transactions pending.\<close>

lemma pap_run_facts:
  assumes "pap_settled s" and "card (pending_tids s) + length inputs < 65535"
  shows "\<exists>s' log. pap_run inputs s = Some (s', log) \<and> pap_settled s'
    \<and> (\<exists>evs. log @ ps_events s' = ps_events s @ evs \<and> pap_trace (pap_job s) evs = Some (pap_job s'))"
  using assms
proof (induction inputs arbitrary: s)
  case Nil
  then show ?case by simp
next
  case (Cons i inputs)
  then have "card (pending_tids s) < 65534" by simp
  from pap_input_returns [OF Cons.prems(1) this, of i] obtain s1 evs where
    s1: "pap_input i s = Some s1" "pap_settled s1" "card (pending_tids s1) \<le> card (pending_tids s) + 1"
      "pap_handed i s @ ps_events s1 = ps_events s @ evs" "pap_trace (pap_job s) evs = Some (pap_job s1)" by blast
  from Cons.IH [OF s1(2)] Cons.prems(2) s1(3) obtain s2 log evs' where
    s2: "pap_run inputs s1 = Some (s2, log)" "pap_settled s2" "log @ ps_events s2 = ps_events s1 @ evs'"
      "pap_trace (pap_job s1) evs' = Some (pap_job s2)" by auto
  have "(pap_handed i s @ log) @ ps_events s2 = ps_events s @ (evs @ evs')"
    using s1(4) s2(3) by (metis append.assoc)
  moreover have "pap_trace (pap_job s) (evs @ evs') = Some (pap_job s2)"
    using s1(5) s2(4) by (simp add: pap_trace_append)
  ultimately show ?case using s1(1) s2(1,2) by auto
qed

lemma pap_new_settled: "pap_settled (pap_new l c)" "pending_tids (pap_new l c) = {}" "pap_job (pap_new l c) = None" "ps_events (pap_new l c) = []"
  by (simp_all add: pap_settled_def pap_wf_state_def reads_served_def pulls_issued_def endpoints_drained_def pap_new_def
      pending_tids_def pap_job_def atp_new_def)

section \<open>Sequence numbers of reads\<close>

definition seq_index :: "u16 \<Rightarrow> nat" where "seq_index q = unat q mod 65535"

lemma seq_index_next: "seq_index (next_pap_seq q) = (seq_index q + 1) mod 65535"
proof (cases "q = 0xFFFF")
  case False
  then have "unat q \<noteq> unat (0xFFFF :: u16)" by (metis word_unat_eq_iff)
  moreover have "unat q < 2 ^ LENGTH(16)" by (rule unsigned_less)
  ultimately have "unat q + 1 < 65536" by simp
  then have "unat (q + 1) = unat q + 1" by (simp add: unat_word_ariths)
  with False show ?thesis by (simp add: seq_index_def next_pap_seq_def mod_Suc_eq)
qed (simp add: seq_index_def next_pap_seq_def)

lemma read_chain_index:
  "read_chain (qs @ [r]) \<Longrightarrow> i < length qs \<Longrightarrow> seq_index r = (seq_index (qs ! i) + (length qs - i)) mod 65535"
proof (induction qs arbitrary: i)
  case (Cons a qs)
  then have tl: "read_chain (qs @ [r])" by (cases qs) (auto simp: read_chain_def)
  show ?case
  proof (cases i)
    case 0
    show ?thesis
    proof (cases qs)
      case Nil
      with Cons.prems 0 show ?thesis by (simp add: read_chain_def seq_index_next)
    next
      case (Cons b bs)
      with Cons.prems have "b = next_pap_seq a" by (simp add: read_chain_def)
      moreover from Cons.IH [OF tl, of 0] Cons have "seq_index r = (seq_index b + length qs) mod 65535" by simp
      ultimately show ?thesis using 0 by (simp add: seq_index_next mod_simps)
    qed
  next
    case (Suc j)
    with Cons.IH [OF tl, of j] Cons.prems(2) show ?thesis by simp
  qed
qed simp

lemma read_chain_fresh:
  assumes "read_chain (qs @ [r])" and "length qs \<le> 8"
  shows "r \<notin> set qs"
proof
  assume "r \<in> set qs"
  then obtain i where i: "i < length qs" "qs ! i = r" by (auto simp: in_set_conv_nth)
  define k where "k = length qs - i"
  have k: "0 < k" "k \<le> 8" and e: "seq_index r = (seq_index r + k) mod 65535"
    using i assms(2) read_chain_index [OF assms(1) i(1)] by (simp_all add: k_def)
  define x where "x = seq_index r"
  have x: "x < 65535" "x = (x + k) mod 65535" using e by (simp_all add: seq_index_def x_def)
  show False
  proof (cases "x + k < 65535")
    case True with x k show False by simp
  next
    case False
    then have "(x + k) mod 65535 = x + k - 65535" using x(1) k by (simp add: mod_if)
    with x k show False by simp
  qed
qed

lemma cached_read_found:
  assumes "session_ok ss"
  shows "find (\<lambda>(q, _, _). q = read_seq ss) ((if b then tl (read_cache ss) else read_cache ss) @ [(read_seq ss, x)]) = Some (read_seq ss, x)"
proof -
  have "read_seq ss \<notin> set (map fst (read_cache ss))"
    using assms by (intro read_chain_fresh) (simp_all add: session_ok_def READ_REPLY_CACHE_LEN_def)
  then have "read_seq ss \<notin> set (map fst (if b then tl (read_cache ss) else read_cache ss))"
    by (cases "read_cache ss") auto
  then have "find (\<lambda>(q, _, _). q = read_seq ss) (if b then tl (read_cache ss) else read_cache ss) = None"
    by (force simp: find_none_iff)
  then show ?thesis by (simp add: find_append)
qed

lemma next_pap_seq_differs: "q \<noteq> 0 \<Longrightarrow> next_pap_seq q \<noteq> q"
  by (auto simp: next_pap_seq_def)

section \<open>Requests reach the handlers\<close>

definition atp_noted :: "ServiceAddress \<Rightarrow> AtpPacket \<Rightarrow> AtpEndpoint \<Rightarrow> AtpEndpoint" where
  "atp_noted src h e =
     (if atp_xo h
      then e\<lparr>ae_in_progress := (if length (ae_in_progress e) \<ge> REPLY_CACHE_LEN then tl (ae_in_progress e)
                               else ae_in_progress e) @ [(src, atp_tid h)]\<rparr>
      else e)"

definition requested_bitmap :: "AtpPacket \<Rightarrow> u8" where
  "requested_bitmap h = (if atp_bitmap_seq h = 0 then 0xFF else atp_bitmap_seq h)"

definition fresh_request :: "ServiceAddress \<Rightarrow> AtpPacket \<Rightarrow> AtpEndpoint \<Rightarrow> bool" where
  "fresh_request src h e \<longleftrightarrow> atp_wf h \<and> atp_function h = AtpRequest \<and> \<not> atp_known src (atp_tid h) e"

lemma atp_noted_simps [simp]:
  "ae_outbox (atp_noted src h e) = ae_outbox e" "ae_events (atp_noted src h e) = ae_events e"
  "ae_pending (atp_noted src h e) = ae_pending e" "ae_reply_cache (atp_noted src h e) = ae_reply_cache e"
  "ae_local_socket (atp_noted src h e) = ae_local_socket e"
  by (simp_all add: atp_noted_def)

lemma fresh_request_event:
  assumes "fresh_request src h e" and "ae_events e = []"
  shows "atp_poll_event (atp_handle_datagram src (atp_frame h data) now e) =
    (Some (EvRequest src (atp_tid h) (atp_user_bytes h) data (requested_bitmap h) (atp_xo h)), atp_noted src h e)"
proof -
  have "find (\<lambda>c. cr_source c = src \<and> cr_tid c = atp_tid h) (ae_reply_cache e) = None"
    using assms(1) by (auto simp: fresh_request_def atp_known_def find_none_iff)
  then show ?thesis
    using assms
    by (cases e) (simp add: fresh_request_def atp_handle_frame atp_on_request_def atp_noted_def atp_known_def
        atp_poll_event_def requested_bitmap_def Let_def)
qed

lemma drain_settled:
  "ae_events (ps_listener s) = [] \<Longrightarrow> drain_listener now s = s"
  "ae_events (ps_conn_ep s) = [] \<Longrightarrow> drain_conn now s = s"
  by (simp_all add: drain_listener.simps drain_conn.simps atp_poll_event_def)

lemma conn_request_step:
  assumes "pap_settled s" and "fresh_request src h (ps_conn_ep s)"
    and "ae_local_socket (ps_listener s) \<noteq> ae_local_socket (ps_conn_ep s)"
  shows "pap_handle_datagram (ae_local_socket (ps_conn_ep s)) src (atp_frame h data) now s =
    maybe_pull now (answer_read now (handle_conn_event
      (EvRequest src (atp_tid h) (atp_user_bytes h) data (requested_bitmap h) (atp_xo h)) now
      (s\<lparr>ps_conn_ep := atp_noted src h (ps_conn_ep s)\<rparr>)))"
proof -
  let ?e = "atp_handle_datagram src (atp_frame h data) now (ps_conn_ep s)"
  let ?s = "handle_conn_event (EvRequest src (atp_tid h) (atp_user_bytes h) data (requested_bitmap h) (atp_xo h)) now
      (s\<lparr>ps_conn_ep := atp_noted src h (ps_conn_ep s)\<rparr>)"
  from assms(1) have q: "ae_events (ps_listener s) = []" "ae_events (ps_conn_ep s) = []"
    by (simp_all add: pap_settled_def endpoints_drained_def)
  have "drain_listener now (s\<lparr>ps_conn_ep := ?e\<rparr>) = s\<lparr>ps_conn_ep := ?e\<rparr>" using q by (simp add: drain_settled)
  moreover have "drain_conn now (s\<lparr>ps_conn_ep := ?e\<rparr>) = drain_conn now ?s"
    by (subst drain_conn.simps) (simp add: fresh_request_event [OF assms(2) q(2)])
  moreover have "drain_conn now ?s = ?s"
    using q by (intro drain_settled) (simp add: conn_handler_events)
  ultimately show ?thesis using assms(3) by (simp add: pap_handle_datagram_def pap_drain_def)
qed

lemma listener_request_step:
  assumes "pap_settled s" and "fresh_request src h (ps_listener s)"
  shows "pap_handle_datagram (ae_local_socket (ps_listener s)) src (atp_frame h data) now s =
    maybe_pull now (answer_read now (handle_listener_event
      (EvRequest src (atp_tid h) (atp_user_bytes h) data (requested_bitmap h) (atp_xo h)) now
      (s\<lparr>ps_listener := atp_noted src h (ps_listener s)\<rparr>)))"
proof -
  let ?e = "atp_handle_datagram src (atp_frame h data) now (ps_listener s)"
  let ?s = "handle_listener_event (EvRequest src (atp_tid h) (atp_user_bytes h) data (requested_bitmap h) (atp_xo h)) now
      (s\<lparr>ps_listener := atp_noted src h (ps_listener s)\<rparr>)"
  from assms(1) have q: "ae_events (ps_listener s) = []" "ae_events (ps_conn_ep s) = []"
    by (simp_all add: pap_settled_def endpoints_drained_def)
  have "drain_listener now (s\<lparr>ps_listener := ?e\<rparr>) = drain_listener now ?s"
    by (subst drain_listener.simps) (simp add: fresh_request_event [OF assms(2) q(1)])
  moreover have "drain_listener now ?s = ?s"
    using q by (intro drain_settled) (simp add: listener_handler_events)
  moreover have "drain_conn now ?s = ?s"
    using q by (intro drain_settled) (simp add: listener_handler_events)
  ultimately show ?thesis by (simp add: pap_handle_datagram_def pap_drain_def)
qed

section \<open>The datagrams of a reply\<close>

definition reply_chunks :: "bytes \<Rightarrow> bytes \<Rightarrow> (bytes \<times> bytes) list" where
  "reply_chunks ub d = (if d = [] then [(ub, [])] else map (Pair ub) (chunks_of PAP_MAX_DATA_PER_PACKET d))"

lemma chunks_of_length: "0 < n \<Longrightarrow> length xs \<le> k * n \<Longrightarrow> length (chunks_of n xs) \<le> k"
proof (induction n xs arbitrary: k rule: chunks_of.induct)
  case (1 n xs)
  show ?case
  proof (cases k)
    case 0
    with 1 show ?thesis by (simp add: chunks_of.simps)
  next
    case (Suc j)
    with 1 show ?thesis by (auto simp: chunks_of.simps [of n xs])
  qed
qed

lemma chunks_of_concat: "0 < n \<Longrightarrow> concat (chunks_of n xs) = xs"
  by (induction n xs rule: chunks_of.induct) (subst chunks_of.simps, simp)

lemma chunks_of_nonempty: "0 < n \<Longrightarrow> xs \<noteq> [] \<Longrightarrow> chunks_of n xs \<noteq> []"
  by (simp add: chunks_of.simps)

lemma reply_chunks_facts:
  assumes "length d \<le> k * PAP_MAX_DATA_PER_PACKET" and "1 \<le> k"
  shows "0 < length (reply_chunks ub d)" "length (reply_chunks ub d) \<le> k" "concat (map snd (reply_chunks ub d)) = d"
    "\<forall>c\<in>set (reply_chunks ub d). fst c = ub"
  using assms chunks_of_length [of PAP_MAX_DATA_PER_PACKET d k]
  by (auto simp: reply_chunks_def PAP_MAX_DATA_PER_PACKET_def chunks_of_nonempty chunks_of_concat comp_def)

lemma atp_respond_frames:
  assumes "length d \<le> 8 * PAP_MAX_DATA_PER_PACKET"
  shows "ae_outbox (atp_respond src tid ub d PAP_MAX_DATA_PER_PACKET now e)
    = ae_outbox e @ map (Pair src) (response_frames tid (reply_chunks ub d))"
proof -
  have "(if d = [] then [(ub, [])] else map (\<lambda>c. (ub, c)) (take 8 (chunks_of (max 1 PAP_MAX_DATA_PER_PACKET) d))) = reply_chunks ub d"
    using chunks_of_length [of PAP_MAX_DATA_PER_PACKET d 8] assms
    by (auto simp: reply_chunks_def PAP_MAX_DATA_PER_PACKET_def)
  with reply_chunks_facts [OF assms, of ub] show ?thesis
    by (simp add: atp_respond_def respond_sends_frames)
qed

section \<open>Reads of the client\<close>

definition read_capacity :: "AtpPacket \<Rightarrow> nat" where
  "read_capacity h = max 1 (min 8 (atp_popcount (requested_bitmap h))) * PAP_MAX_DATA_PER_PACKET"

definition read_reply :: "AtpPacket \<Rightarrow> PapSession \<Rightarrow> PapPacket" where
  "read_reply h ss = pap_packet (ss_conn_id ss) PapData 0
     (eof_queued ss \<and> length (stdout ss) \<le> read_capacity h) (take (read_capacity h) (stdout ss))"

definition read_request :: "AtpPacket \<Rightarrow> bytes \<Rightarrow> u8 \<Rightarrow> u16 \<Rightarrow> bool" where
  "read_request h data cid q \<longleftrightarrow>
     (\<exists>p. pap_parse_from_atp (atp_user_bytes h) data = Inr p \<and> pap_function p = SendData
        \<and> pap_connection_id p = cid \<and> pap_sequence_num p = q)"

definition answered_session :: "AtpPacket \<Rightarrow> micros \<Rightarrow> PapSession \<Rightarrow> PapSession" where
  "answered_session h now ss =
     ss\<lparr>last_activity := now, pending_read := None, stdout := drop (read_capacity h) (stdout ss),
        eof_queued := eof_queued ss \<and> \<not> length (stdout ss) \<le> read_capacity h,
        read_seq := next_pap_seq (read_seq ss),
        read_cache := (if length (read_cache ss) = READ_REPLY_CACHE_LEN then tl (read_cache ss) else read_cache ss)
          @ [(read_seq ss, pap_to_atp_parts (read_reply h ss))]\<rparr>"

lemma take_min_length: "take (min (length xs) n) xs = take n xs" "drop (min (length xs) n) xs = drop n xs"
  by (simp_all add: min_def)

lemma answer_read_output:
  assumes "pending_read ss = Some (src, atp_tid h, requested_bitmap h, read_seq ss)" and "read_seq ss \<noteq> 0"
    and "stdout ss \<noteq> [] \<or> eof_queued ss" and "ps_session s = Some ss" and "last_activity ss = now"
  shows "answer_read now s = s\<lparr>ps_session := Some (answered_session h now ss),
    ps_conn_ep := atp_respond src (atp_tid h) (fst (pap_to_atp_parts (read_reply h ss)))
      (snd (pap_to_atp_parts (read_reply h ss))) PAP_MAX_DATA_PER_PACKET now (ps_conn_ep s)\<rparr>"
proof -
  let ?n = "read_capacity h"
  obtain ub d where p: "pap_to_atp_parts (read_reply h ss) = (ub, d)" by (meson surj_pair)
  have c: "max 1 (min 8 (atp_popcount (requested_bitmap h))) * PAP_MAX_DATA_PER_PACKET = ?n"
    by (simp add: read_capacity_def)
  have e: "drop ?n (stdout ss) = [] \<longleftrightarrow> length (stdout ss) \<le> ?n" by simp
  have r: "pap_to_atp_parts (pap_packet (ss_conn_id ss) PapData 0 (eof_queued ss \<and> length (stdout ss) \<le> ?n) (take ?n (stdout ss))) = (ub, d)"
    using p by (simp add: read_reply_def)
  have f: "\<not> (\<not> (stdout ss \<noteq> [] \<or> eof_queued ss) \<and> x)" for x using assms(3) by blast
  have g: "(if eof_queued ss \<and> x then False else eof_queued ss) = (eof_queued ss \<and> \<not> x)" for x by auto
  have l: "ss\<lparr>last_activity := now\<rparr> = ss" using assms(5) by (cases ss) simp
  have "answer_read now s = s\<lparr>ps_session := Some (answered_session h now ss),
    ps_conn_ep := atp_respond src (atp_tid h) ub d PAP_MAX_DATA_PER_PACKET now (ps_conn_ep s)\<rparr>"
    unfolding answer_read_def assms(4) option.case assms(1) prod.case Let_def c take_min_length e r if_not_P [OF f] if_P [OF assms(2)] g answered_session_def l p
    by simp
  then show ?thesis by (simp add: p)
qed

lemma handle_first_read:
  assumes "ps_session s = Some ss" and "read_request h data (ss_conn_id ss) (read_seq ss)"
  shows "handle_conn_event (EvRequest src (atp_tid h) (atp_user_bytes h) data (requested_bitmap h) xo) now s =
    set_session (ss\<lparr>last_activity := now, pending_read := Some (src, atp_tid h, requested_bitmap h, read_seq ss)\<rparr>) s"
  using assms by (auto simp: handle_conn_event_def read_request_def handle_read_def set_session_def Let_def)

lemma read_request_answered:
  assumes "pap_settled s" and "ps_session s = Some ss"
    and "ae_local_socket (ps_listener s) \<noteq> ae_local_socket (ps_conn_ep s)"
    and "fresh_request src h (ps_conn_ep s)" and "read_request h data (ss_conn_id ss) (read_seq ss)"
    and "stdout ss \<noteq> [] \<or> eof_queued ss"
  shows "pap_handle_datagram (ae_local_socket (ps_conn_ep s)) src (atp_frame h data) now s =
    Some (s\<lparr>ps_session := Some (answered_session h now ss),
      ps_conn_ep := atp_respond src (atp_tid h) (fst (pap_to_atp_parts (read_reply h ss)))
        (snd (pap_to_atp_parts (read_reply h ss))) PAP_MAX_DATA_PER_PACKET now (atp_noted src h (ps_conn_ep s))\<rparr>)"
proof -
  let ?ss = "ss\<lparr>last_activity := now, pending_read := Some (src, atp_tid h, requested_bitmap h, read_seq ss)\<rparr>"
  let ?s = "s\<lparr>ps_conn_ep := atp_noted src h (ps_conn_ep s)\<rparr>"
  have ok: "session_ok ss" using assms(1,2) by (simp add: pap_settled_def pap_wf_state_def)
  then have nz: "read_seq ss \<noteq> 0" by (simp add: session_ok_def)
  have h: "handle_conn_event (EvRequest src (atp_tid h) (atp_user_bytes h) data (requested_bitmap h) (atp_xo h)) now ?s = set_session ?ss ?s"
    by (rule handle_first_read) (use assms(2,5) in simp_all)
  have a: "answered_session h now ?ss = answered_session h now ss" "read_reply h ?ss = read_reply h ss"
    by (simp_all add: answered_session_def read_reply_def)
  let ?r = "s\<lparr>ps_session := Some (answered_session h now ss),
      ps_conn_ep := atp_respond src (atp_tid h) (fst (pap_to_atp_parts (read_reply h ss)))
        (snd (pap_to_atp_parts (read_reply h ss))) PAP_MAX_DATA_PER_PACKET now (atp_noted src h (ps_conn_ep s))\<rparr>"
  have "answer_read now (set_session ?ss ?s) = ?r"
    by (subst answer_read_output [where ss = ?ss and h = h]) (use assms(6) nz in \<open>simp_all add: set_session_def a\<close>)
  moreover have "pulls_issued ?r"
    using assms(1,2) by (simp add: pap_settled_def pulls_issued_def answered_session_def)
  ultimately show ?thesis
    by (simp add: conn_request_step [OF assms(1,4,3)] h maybe_pull_idle)
qed

lemma read_request_repeated:
  assumes "pap_settled s" and "ps_session s = Some ss" and "pending_read ss = None"
    and "ae_local_socket (ps_listener s) \<noteq> ae_local_socket (ps_conn_ep s)"
    and "fresh_request src h (ps_conn_ep s)" and "read_request h data (ss_conn_id ss) q"
    and "q \<noteq> 0" and "q \<noteq> read_seq ss" and "find (\<lambda>(r, _, _). r = q) (read_cache ss) = Some (q, ub, d)"
  shows "pap_handle_datagram (ae_local_socket (ps_conn_ep s)) src (atp_frame h data) now s =
    Some (s\<lparr>ps_session := Some (ss\<lparr>last_activity := now\<rparr>),
      ps_conn_ep := atp_respond src (atp_tid h) ub d PAP_MAX_DATA_PER_PACKET now (atp_noted src h (ps_conn_ep s))\<rparr>)"
proof -
  let ?s = "s\<lparr>ps_conn_ep := atp_noted src h (ps_conn_ep s)\<rparr>"
  let ?r = "s\<lparr>ps_session := Some (ss\<lparr>last_activity := now\<rparr>),
      ps_conn_ep := atp_respond src (atp_tid h) ub d PAP_MAX_DATA_PER_PACKET now (atp_noted src h (ps_conn_ep s))\<rparr>"
  have h: "handle_conn_event (EvRequest src (atp_tid h) (atp_user_bytes h) data (requested_bitmap h) (atp_xo h)) now ?s = ?r"
    using assms(2,6-9) by (auto simp: handle_conn_event_def read_request_def handle_read_def set_session_def Let_def)
  have "answer_read now ?r = ?r" using assms(3) by (simp add: answer_read_def)
  moreover have "pulls_issued ?r" using assms(1,2) by (simp add: pap_settled_def pulls_issued_def)
  ultimately show ?thesis by (simp add: conn_request_step [OF assms(1,5,4)] h maybe_pull_idle)
qed

section \<open>Opening a session\<close>

definition is_pap_reply :: "bytes \<Rightarrow> u16 \<Rightarrow> PapPacket \<Rightarrow> bool" where
  "is_pap_reply frame tid q \<longleftrightarrow>
     (\<exists>h. atp_parse frame = Inr h \<and> atp_function h = AtpResponse \<and> atp_tid h = tid \<and> atp_eom h
        \<and> atp_bitmap_seq h = 0 \<and> pap_parse_from_atp (atp_user_bytes h) (drop 8 frame) = Inr q)"

lemma short_reply:
  assumes "pap_wf q" and "pap_data q \<noteq> []" and "length (pap_data q) \<le> PAP_MAX_DATA_PER_PACKET"
  shows "\<exists>frame. response_frames tid (reply_chunks (fst (pap_to_atp_parts q)) (snd (pap_to_atp_parts q))) = [frame] \<and> is_pap_reply frame tid q"
proof -
  define ub where "ub = fst (pap_to_atp_parts q)"
  have d: "snd (pap_to_atp_parts q) = pap_data q" by (simp add: pap_to_atp_parts_def)
  have u: "length ub = 4" by (simp add: ub_def pap_to_atp_parts_def split: PapFunction.split)
  have r: "reply_chunks ub (pap_data q) = [(ub, pap_data q)]"
    using assms(2,3) by (simp add: reply_chunks_def chunks_of.simps PAP_MAX_DATA_PER_PACKET_def)
  let ?h = "response_header tid [(ub, pap_data q)] 0"
  have w: "atp_wf ?h" by (simp add: atp_wf_def response_header_def u)
  have "response_frames tid [(ub, pap_data q)] = [atp_frame ?h (pap_data q)]"
    by (simp add: response_frames_def response_packet_def response_header_def)
  moreover have "is_pap_reply (atp_frame ?h (pap_data q)) tid q"
    unfolding is_pap_reply_def atp_parse_frame [OF w] atp_frame_data [OF w]
    using pap_atp_round [OF assms(1)] by (intro exI [of _ ?h]) (simp add: response_header_def d ub_def [symmetric])
  ultimately show ?thesis by (simp add: d r ub_def [symmetric])
qed

lemma respond_pap_reply:
  assumes "pap_wf q" and "pap_data q \<noteq> []" and "length (pap_data q) \<le> PAP_MAX_DATA_PER_PACKET"
  shows "\<exists>frame. ae_outbox (ps_listener (respond_pap True src tid q now s)) = ae_outbox (ps_listener s) @ [(src, frame)]
    \<and> is_pap_reply frame tid q"
proof -
  from short_reply [OF assms, of tid] obtain frame where
    f: "response_frames tid (reply_chunks (fst (pap_to_atp_parts q)) (snd (pap_to_atp_parts q))) = [frame]" "is_pap_reply frame tid q" by blast
  have "length (snd (pap_to_atp_parts q)) \<le> 8 * PAP_MAX_DATA_PER_PACKET"
    using assms(3) by (simp add: pap_to_atp_parts_def)
  from atp_respond_frames [OF this, of src tid "fst (pap_to_atp_parts q)" now "ps_listener s"] f show ?thesis
    by (auto simp: respond_pap_def split_beta)
qed

lemma open_reply_wf:
  assumes "length (ps_status s) \<le> 255"
  shows "pap_wf (open_reply cid sock b s)" "pap_data (open_reply cid sock b s) \<noteq> []"
    "length (pap_data (open_reply cid sock b s)) \<le> PAP_MAX_DATA_PER_PACKET"
  using assms by (simp_all add: open_reply_def pap_packet_def pap_wf_def status_pascal_def PAP_MAX_DATA_PER_PACKET_def)

definition open_request :: "AtpPacket \<Rightarrow> bytes \<Rightarrow> u8 \<Rightarrow> bool" where
  "open_request h data cid \<longleftrightarrow> 2 \<le> length data \<and>
     (\<exists>p. pap_parse_from_atp (atp_user_bytes h) data = Inr p \<and> pap_function p = OpenConn \<and> pap_connection_id p = cid)"

lemma open_request_data:
  "pap_parse_from_atp ub data = Inr p \<Longrightarrow> pap_data p = data"
  by (auto simp: pap_parse_from_atp_def Let_def split_beta split: sum.splits)

lemma handle_open_busy:
  assumes "open_request h data cid" and "ps_session s = Some ss"
  shows "handle_listener_event (EvRequest src (atp_tid h) (atp_user_bytes h) data bm xo) now s =
    respond_pap True src (atp_tid h) (open_reply cid 0 True s) now s"
proof -
  from assms(1) obtain p where p: "pap_parse_from_atp (atp_user_bytes h) data = Inr p" "pap_function p = OpenConn"
    "pap_connection_id p = cid" "2 \<le> length data" by (auto simp: open_request_def)
  with open_request_data [OF p(1)] assms(2) show ?thesis by (simp add: handle_listener_event_def)
qed

definition opened_client :: "ServiceAddress \<Rightarrow> bytes \<Rightarrow> ServiceAddress" where
  "opened_client src data = \<lparr>sa_network = sa_network src, sa_node = sa_node src, sa_socket = data ! 0\<rparr>"

lemma handle_open_free:
  assumes "open_request h data cid" and "ps_session s = None"
  shows "handle_listener_event (EvRequest src (atp_tid h) (atp_user_bytes h) data bm xo) now s =
    pap_event (PapOpened (opened_client src data))
      ((respond_pap True src (atp_tid h) (open_reply cid (ae_local_socket (ps_conn_ep s)) False s) now s)
         \<lparr>ps_session := Some (session_new cid (opened_client src data) now)\<rparr>)"
proof -
  from assms(1) obtain p where p: "pap_parse_from_atp (atp_user_bytes h) data = Inr p" "pap_function p = OpenConn"
    "pap_connection_id p = cid" "2 \<le> length data" by (auto simp: open_request_def)
  with open_request_data [OF p(1)] assms(2) show ?thesis by (simp add: handle_listener_event_def opened_client_def Let_def)
qed

lemma respond_pap_listener:
  "ps_conn_ep (respond_pap True src tid p now s) = ps_conn_ep s"
  "respond_pap True src tid p now s = s\<lparr>ps_listener := ps_listener (respond_pap True src tid p now s)\<rparr>"
  by (simp_all add: respond_pap_def split_beta)

lemma open_busy_facts:
  assumes "pap_settled s" and "fresh_request src h (ps_listener s)" and "open_request h data cid"
    and "ps_session s = Some ss"
  shows "\<exists>lis frame. pap_handle_datagram (ae_local_socket (ps_listener s)) src (atp_frame h data) now s =
        Some (answer_read now (s\<lparr>ps_listener := lis\<rparr>))
      \<and> ae_outbox lis = ae_outbox (ps_listener s) @ [(src, frame)]
      \<and> is_pap_reply frame (atp_tid h) (open_reply cid 0 True s)"
proof -
  let ?s = "s\<lparr>ps_listener := atp_noted src h (ps_listener s)\<rparr>"
  have st: "length (ps_status s) \<le> 255" using assms(1) by (simp add: pap_settled_def pap_wf_state_def)
  have o: "open_reply cid 0 True ?s = open_reply cid 0 True s" by (simp add: open_reply_def status_pascal_def)
  from respond_pap_reply [OF open_reply_wf [OF st], of src "atp_tid h" cid 0 True now ?s] obtain frame where
    f: "ae_outbox (ps_listener (respond_pap True src (atp_tid h) (open_reply cid 0 True s) now ?s)) = ae_outbox (ps_listener s) @ [(src, frame)]"
      "is_pap_reply frame (atp_tid h) (open_reply cid 0 True s)" by auto
  let ?t = "respond_pap True src (atp_tid h) (open_reply cid 0 True s) now ?s"
  have t: "?t = s\<lparr>ps_listener := ps_listener ?t\<rparr>"
    by (subst respond_pap_listener(2)) simp
  have "pulls_issued (answer_read now ?t)"
    unfolding answer_read_serves using assms(1) by (simp add: pap_settled_def pulls_issued_def)
  then have "pap_handle_datagram (ae_local_socket (ps_listener s)) src (atp_frame h data) now s = Some (answer_read now ?t)"
    by (simp add: listener_request_step [OF assms(1,2)] handle_open_busy [OF assms(3), where ss = ss] assms(4) o maybe_pull_idle)
  with t f show ?thesis by metis
qed

lemma open_free_facts:
  assumes "pap_settled s" and "fresh_request src h (ps_listener s)" and "open_request h data cid"
    and "ps_session s = None" and "card (pending_tids s) < 65535"
  shows "\<exists>s' ss frame. pap_handle_datagram (ae_local_socket (ps_listener s)) src (atp_frame h data) now s = Some s'
      \<and> ae_outbox (ps_listener s') = ae_outbox (ps_listener s) @ [(src, frame)]
      \<and> is_pap_reply frame (atp_tid h) (open_reply cid (ae_local_socket (ps_conn_ep s)) False s)
      \<and> ps_events s' = ps_events s @ [PapOpened (opened_client src data)]
      \<and> ps_session s' = Some ss \<and> ss\<lparr>outstanding_pull := None\<rparr> = session_new cid (opened_client src data) now
      \<and> (outstanding_pull ss \<noteq> None \<longleftrightarrow> PULL_CAPACITY \<le> sink_credit s)"
proof -
  let ?s = "s\<lparr>ps_listener := atp_noted src h (ps_listener s)\<rparr>"
  let ?q = "open_reply cid (ae_local_socket (ps_conn_ep s)) False s" and ?n = "session_new cid (opened_client src data) now"
  have st: "length (ps_status s) \<le> 255" using assms(1) by (simp add: pap_settled_def pap_wf_state_def)
  have o: "open_reply cid c False ?s = open_reply cid c False s" for c by (simp add: open_reply_def status_pascal_def)
  from respond_pap_reply [OF open_reply_wf [OF st], of src "atp_tid h" cid "ae_local_socket (ps_conn_ep s)" False now ?s] obtain frame where
    f: "ae_outbox (ps_listener (respond_pap True src (atp_tid h) ?q now ?s)) = ae_outbox (ps_listener s) @ [(src, frame)]"
      "is_pap_reply frame (atp_tid h) ?q" by auto
  define t where "t = pap_event (PapOpened (opened_client src data))
      ((respond_pap True src (atp_tid h) ?q now ?s)\<lparr>ps_session := Some ?n\<rparr>)"
  have t: "ps_session t = Some ?n" "ps_events t = ps_events s @ [PapOpened (opened_client src data)]"
    "sink_credit t = sink_credit s" "pending_tids t = pending_tids s"
    "ae_outbox (ps_listener t) = ae_outbox (ps_listener s) @ [(src, frame)]"
    using f(1) by (simp_all add: t_def pending_tids_def)
  have n: "pending_read ?n = None" "outstanding_pull ?n = None" "?n\<lparr>outstanding_pull := None\<rparr> = ?n" by (simp_all add: session_new_def)
  have "answer_read now t = t" by (simp add: answer_read_def t n)
  then have h: "pap_handle_datagram (ae_local_socket (ps_listener s)) src (atp_frame h data) now s = maybe_pull now t"
    by (simp add: listener_request_step [OF assms(1,2)] handle_open_free [OF assms(3)] assms(4) o t_def)
  show ?thesis
  proof (cases "PULL_CAPACITY \<le> sink_credit s")
    case False
    then have "pulls_issued t" using t(1,3) by (simp add: pulls_issued_def)
    then have "maybe_pull now t = Some t" by (rule maybe_pull_idle)
    with False h t f(2) n show ?thesis by auto
  next
    case True
    then have np: "\<not> pulls_issued t" using t(1,3) n by (simp add: pulls_issued_def)
    from maybe_pull_issues [OF _ np, of now] assms(5) t(1,4) obtain tid e' where
      m: "maybe_pull now t = Some (t\<lparr>ps_conn_ep := e', ps_session := Some (?n\<lparr>outstanding_pull := Some tid\<rparr>)\<rparr>)"
      by auto
    show ?thesis unfolding h m
      by (rule exI [of _ "t\<lparr>ps_conn_ep := e', ps_session := Some (?n\<lparr>outstanding_pull := Some tid\<rparr>)\<rparr>"],
          rule exI [of _ "?n\<lparr>outstanding_pull := Some tid\<rparr>"], rule exI [of _ frame])
        (use True t f(2) n in simp)
  qed
qed

section \<open>Properties\<close>

text \<open>
Claim C14: Whatever a PAP server is given, in any order, for fewer than 65535 inputs: it does not hang and
  leaves no work undone. Any such sequence (datagrams on either socket, credit, printer output, polls,
  draining) runs to its end. The bound is that of the transaction identifiers: each input takes at most
  one, and when all 65535 are outstanding the search for a free one does not end. In every state it reaches an open session with credit for a full
  reply has a pull in flight, no client read waits while there is output or an end mark for it, the
  cached replies are those of the at most eight reads before the expected one, and both endpoints
  are drained.\<close>

theorem pap_never_stuck:
  assumes "length inputs < 65535"
  shows "\<exists>s log. pap_run inputs (pap_new listener conn) = Some (s, log) \<and> pap_settled s"
  using pap_run_facts [of "pap_new listener conn" inputs] assms by (auto simp: pap_new_settled)

definition example_client :: ServiceAddress where
  "example_client = \<lparr>sa_network = 0, sa_node = 10, sa_socket = 70\<rparr>"

definition example_open :: AtpPacket where
  "example_open = \<lparr>atp_function = AtpRequest, atp_xo = True, atp_eom = False, atp_sts = False,
     atp_bitmap_seq = 1, atp_tid = 1, atp_user_bytes = [70, 1, 0, 0]\<rparr>"

definition example_inputs :: "PapInput list" where
  "example_inputs = [PiCredit 4096 0, PiDatagram 190 example_client (atp_frame example_open [70, 8, 0, 0]) 5,
     PiPoll 9, PiDrainEvent]"

lemma pap_never_stuck_witness:
  "\<exists>s log. pap_run example_inputs (pap_new 190 191) = Some (s, log) \<and> pap_settled s"
  by (rule pap_never_stuck) (simp add: example_inputs_def)

text \<open>
Claim C15: The events a PAP server hands to the printer, over any run of fewer than 65535 inputs (longer ones may
  run out of transaction identifiers and not return), are those of well-formed sessions: a
  session opens before it carries anything and only when none is open, bytes come in non-empty
  pieces, an end of job is only announced after at least one byte of that job (the empty end marks
  of a client that drains outstanding pulls are swallowed), and it closes at most once. The open
  session's byte count is exactly that of the job in the trace.\<close>

theorem pap_event_language:
  assumes "length inputs < 65535"
  shows "\<exists>s log. pap_run inputs (pap_new listener conn) = Some (s, log)
    \<and> pap_trace None (log @ ps_events s) = Some (map_option job_bytes (ps_session s))"
  using pap_run_facts [of "pap_new listener conn" inputs, unfolded pap_new_settled] assms
  by (auto simp: pap_new_settled pap_job_def)

lemma pap_event_language_witness:
  "\<exists>s log. pap_run example_inputs (pap_new 190 191) = Some (s, log)
    \<and> pap_trace None (log @ ps_events s) = Some (map_option job_bytes (ps_session s))"
  by (rule pap_event_language) (simp add: example_inputs_def)

text \<open>
Claim C17: One session at a time: a settled server answers every new OpenConn in one datagram that echoes
  the connection identifier and carries the status. While a session is open the answer is the
  busy result 0xFFFF and nothing but the reply (and a client read that fell due) changes; when
  none is open the answer accepts and names the connection socket, the session is opened for the socket
  the client named, the printer is told, and the first pull goes out exactly if the sink has room
  for a full reply.\<close>

theorem pap_open_one_session:
  assumes "pap_settled s" and "card (pending_tids s) < 65535"
    and "fresh_request src h (ps_listener s)" and "open_request h data cid"
  shows "\<exists>s' frame q. pap_handle_datagram (ae_local_socket (ps_listener s)) src (atp_frame h data) now s = Some s'
    \<and> ae_outbox (ps_listener s') = ae_outbox (ps_listener s) @ [(src, frame)]
    \<and> is_pap_reply frame (atp_tid h) q \<and> pap_function q = OpenConnReply \<and> pap_connection_id q = cid
    \<and> (case ps_session s of
         Some _ \<Rightarrow> pap_data q = [0, FLOW_QUANTUM, 0xFF, 0xFF] @ status_pascal s
           \<and> s' = answer_read now (s\<lparr>ps_listener := ps_listener s'\<rparr>)
       | None \<Rightarrow> pap_data q = [ae_local_socket (ps_conn_ep s), FLOW_QUANTUM, 0, 0] @ status_pascal s
           \<and> ps_events s' = ps_events s @ [PapOpened (opened_client src data)]
           \<and> (\<exists>ss. ps_session s' = Some ss \<and> ss\<lparr>outstanding_pull := None\<rparr> = session_new cid (opened_client src data) now
                \<and> (outstanding_pull ss \<noteq> None \<longleftrightarrow> PULL_CAPACITY \<le> sink_credit s)))"
proof (cases "ps_session s")
  case None
  from open_free_facts [OF assms(1,3,4) None assms(2), of now] show ?thesis
    by (elim exE conjE) (intro exI conjI, assumption+, auto simp: None open_reply_def pap_packet_def)
next
  case (Some ss)
  have l: "ps_listener (answer_read now t) = ps_listener t" for t
    by (simp add: answer_read_def Let_def split_beta split: option.split)
  from open_busy_facts [OF assms(1,3,4) Some, of now] obtain lis frame where
    b: "pap_handle_datagram (ae_local_socket (ps_listener s)) src (atp_frame h data) now s = Some (answer_read now (s\<lparr>ps_listener := lis\<rparr>))"
      "ae_outbox lis = ae_outbox (ps_listener s) @ [(src, frame)]" "is_pap_reply frame (atp_tid h) (open_reply cid 0 True s)" by blast
  show ?thesis
    by (rule exI [of _ "answer_read now (s\<lparr>ps_listener := lis\<rparr>)"], rule exI [of _ frame], rule exI [of _ "open_reply cid 0 True s"])
      (use b Some l in \<open>simp add: open_reply_def pap_packet_def\<close>)
qed

lemma example_open_request: "open_request example_open [70, 8, 0, 0] 70" "fresh_request example_client example_open (atp_new 190)"
  by (simp_all add: open_request_def example_open_def pap_parse_from_atp_def pap_try_from_def fresh_request_def atp_wf_def
      atp_known_def atp_new_def)

lemma pap_open_one_session_witness:
  "\<exists>s' q frame. pap_handle_datagram 190 example_client (atp_frame example_open [70, 8, 0, 0]) 5 ((pap_new 190 191)\<lparr>sink_credit := 4096\<rparr>) = Some s'
    \<and> ae_outbox (ps_listener s') = [(example_client, frame)] \<and> is_pap_reply frame 1 q \<and> pap_data q = [191, 8, 0, 0, 0]
    \<and> (\<exists>ss. ps_session s' = Some ss \<and> outstanding_pull ss \<noteq> None)"
proof -
  let ?s = "(pap_new 190 191)\<lparr>sink_credit := 4096\<rparr>"
  have "pap_settled ?s" "card (pending_tids ?s) < 65535" "ps_session ?s = None"
    by (simp_all add: pap_settled_def pap_wf_state_def reads_served_def pulls_issued_def endpoints_drained_def pap_new_def
        pending_tids_def atp_new_def)
  moreover have f: "fresh_request example_client example_open (ps_listener ?s)"
    using example_open_request(2) by (simp add: pap_new_def)
  ultimately show ?thesis
    using pap_open_one_session [of ?s example_client example_open "[70, 8, 0, 0]" 70 5] example_open_request(1)
    by (auto simp: pap_new_def atp_new_def FLOW_QUANTUM_def status_pascal_def PULL_CAPACITY_def PAP_MAX_DATA_PER_PACKET_def example_open_def)
qed

lemma read_reply_wf:
  "pap_wf (read_reply h ss)" "snd (pap_to_atp_parts (read_reply h ss)) = take (read_capacity h) (stdout ss)"
  "\<exists>k. 1 \<le> k \<and> k \<le> 8 \<and> k = max 1 (min 8 (atp_popcount (requested_bitmap h)))
     \<and> length (take (read_capacity h) (stdout ss)) \<le> k * PAP_MAX_DATA_PER_PACKET"
  by (simp_all add: read_reply_def pap_packet_def pap_wf_def pap_to_atp_parts_def read_capacity_def)

text \<open>
A read is answered once and repeated exactly: when the client's next read arrives and there is
  output (or an end mark), it is answered in at most as many datagrams as its bitmap asks for, with
  the next bytes of the output, and the end flag exactly when these are the last ones and the end was
  marked; these bytes leave the queue. When the client repeats the read under a new transaction, it gets
  the same datagrams again and no further byte leaves the queue.\<close>

theorem pap_read_repeatable:
  assumes "pap_settled s" and "card (pending_tids s) < 65535" and "ps_session s = Some ss"
    and "ae_local_socket (ps_listener s) \<noteq> ae_local_socket (ps_conn_ep s)"
    and "fresh_request src h (ps_conn_ep s)" and "read_request h data (ss_conn_id ss) (read_seq ss)"
    and "stdout ss \<noteq> [] \<or> eof_queued ss"
  shows "\<exists>s' ss' cs. pap_handle_datagram (ae_local_socket (ps_conn_ep s)) src (atp_frame h data) now s = Some s'
    \<and> ae_outbox (ps_conn_ep s') = ae_outbox (ps_conn_ep s) @ map (Pair src) (response_frames (atp_tid h) cs)
    \<and> 0 < length cs \<and> length cs \<le> max 1 (min 8 (atp_popcount (requested_bitmap h)))
    \<and> (\<forall>c\<in>set cs. pap_parse_from_atp (fst c) (concat (map snd cs)) = Inr (read_reply h ss))
    \<and> ps_session s' = Some ss' \<and> concat (map snd cs) @ stdout ss' = stdout ss
    \<and> (\<forall>src2 h2 data2 now2. fresh_request src2 h2 (ps_conn_ep s') \<longrightarrow> read_request h2 data2 (ss_conn_id ss) (read_seq ss) \<longrightarrow>
         (\<exists>s''. pap_handle_datagram (ae_local_socket (ps_conn_ep s')) src2 (atp_frame h2 data2) now2 s' = Some s''
            \<and> ae_outbox (ps_conn_ep s'') = ae_outbox (ps_conn_ep s') @ map (Pair src2) (response_frames (atp_tid h2) cs)
            \<and> ps_session s'' = Some (ss'\<lparr>last_activity := now2\<rparr>)))"
proof -
  let ?ub = "fst (pap_to_atp_parts (read_reply h ss))" and ?d = "take (read_capacity h) (stdout ss)"
  let ?cs = "reply_chunks ?ub ?d" and ?ss = "answered_session h now ss"
  define s' where "s' = s\<lparr>ps_session := Some ?ss,
      ps_conn_ep := atp_respond src (atp_tid h) ?ub ?d PAP_MAX_DATA_PER_PACKET now (atp_noted src h (ps_conn_ep s))\<rparr>"
  obtain k where k: "1 \<le> k" "k \<le> 8" "k = max 1 (min 8 (atp_popcount (requested_bitmap h)))" "length ?d \<le> k * PAP_MAX_DATA_PER_PACKET"
    using read_reply_wf(3) by blast
  have d8: "length ?d \<le> 8 * PAP_MAX_DATA_PER_PACKET" using k by (meson le_trans mult_le_mono1)
  have e: "pap_handle_datagram (ae_local_socket (ps_conn_ep s)) src (atp_frame h data) now s = Some s'"
    using read_request_answered [OF assms(1,3-7), of now] by (simp add: s'_def read_reply_wf)
  have settled': "pap_settled s'"
    using pap_datagram_returns [OF assms(1,2), of "ae_local_socket (ps_conn_ep s)" src "atp_frame h data" now]
    by (simp add: e pap_returns_def)
  have ok: "session_ok ss" using assms(1,3) by (simp add: pap_settled_def pap_wf_state_def)
  then have q: "read_seq ss \<noteq> 0" "read_seq ss \<noteq> read_seq ?ss"
    using next_pap_seq_differs [of "read_seq ss"] by (auto simp: session_ok_def answered_session_def)
  have "pap_to_atp_parts (read_reply h ss) = (?ub, ?d)" by (simp add: prod_eq_iff read_reply_wf(2))
  then have c: "find (\<lambda>(r, _, _). r = read_seq ss) (read_cache ?ss) = Some (read_seq ss, ?ub, ?d)"
    using cached_read_found [OF ok, of "length (read_cache ss) = READ_REPLY_CACHE_LEN" "(?ub, ?d)"]
    by (simp add: answered_session_def)
  have ss': "ps_session s' = Some ?ss" "pending_read ?ss = None" "ss_conn_id ?ss = ss_conn_id ss"
    "ae_local_socket (ps_listener s') \<noteq> ae_local_socket (ps_conn_ep s')"
    using assms(4) by (simp_all add: s'_def answered_session_def)
  have r: "\<exists>s''. pap_handle_datagram (ae_local_socket (ps_conn_ep s')) src2 (atp_frame h2 data2) now2 s' = Some s''
            \<and> ae_outbox (ps_conn_ep s'') = ae_outbox (ps_conn_ep s') @ map (Pair src2) (response_frames (atp_tid h2) ?cs)
            \<and> ps_session s'' = Some (?ss\<lparr>last_activity := now2\<rparr>)"
    if f: "fresh_request src2 h2 (ps_conn_ep s')" "read_request h2 data2 (ss_conn_id ss) (read_seq ss)" for src2 h2 data2 now2
    using read_request_repeated [OF settled' ss'(1,2,4) f(1) _ q c, of data2 now2] f(2)
      atp_respond_frames [OF d8, of src2 "atp_tid h2" ?ub now2 "atp_noted src2 h2 (ps_conn_ep s')"]
    by (simp add: ss'(3))
  have p: "pap_parse_from_atp ?ub ?d = Inr (read_reply h ss)"
    using pap_atp_round [OF read_reply_wf(1), of h ss] by (simp add: read_reply_wf(2))
  show ?thesis
    by (rule exI [of _ s'], rule exI [of _ ?ss], rule exI [of _ ?cs])
      (use e p r reply_chunks_facts [OF k(4,1), of ?ub] atp_respond_frames [OF d8, of src "atp_tid h" ?ub now "atp_noted src h (ps_conn_ep s)"] k(3)
        in \<open>auto simp: s'_def answered_session_def\<close>)
qed

definition example_read :: "u16 \<Rightarrow> AtpPacket" where
  "example_read tid = \<lparr>atp_function = AtpRequest, atp_xo = True, atp_eom = False, atp_sts = False,
     atp_bitmap_seq = 0xFF, atp_tid = tid, atp_user_bytes = [70, 3, 0, 1]\<rparr>"

definition example_serving :: PapServer where
  "example_serving = (pap_new 190 191)\<lparr>ps_session :=
     Some ((session_new 70 example_client 0)\<lparr>stdout := [1, 2, 3], eof_queued := True\<rparr>)\<rparr>"

lemma pap_read_repeatable_witness:
  "\<exists>s' ss' cs. pap_handle_datagram 191 example_client (atp_frame (example_read 7) []) 5 example_serving = Some s'
    \<and> ae_outbox (ps_conn_ep s') = map (Pair example_client) (response_frames 7 cs)
    \<and> ps_session s' = Some ss' \<and> concat (map snd cs) @ stdout ss' = [1, 2, 3] \<and> length cs \<le> 8
    \<and> (\<forall>c\<in>set cs. pap_parse_from_atp (fst c) (concat (map snd cs)) = Inr (pap_packet 70 PapData 0 True [1, 2, 3]))"
proof -
  let ?ss = "(session_new 70 example_client 0)\<lparr>stdout := [1, 2, 3], eof_queued := True\<rparr>"
  have bm: "atp_popcount (requested_bitmap (example_read 7)) = 8"
    by (simp add: requested_bitmap_def example_read_def atp_popcount_def upt_rec)
  have st: "pap_settled example_serving" "card (pending_tids example_serving) < 65535"
    by (simp_all add: example_serving_def pap_settled_def pap_wf_state_def reads_served_def pulls_issued_def endpoints_drained_def
        pap_new_def pending_tids_def atp_new_def session_ok_def session_new_def read_chain_def PULL_CAPACITY_def
        PAP_MAX_DATA_PER_PACKET_def FLOW_QUANTUM_def)
  have s: "ps_session example_serving = Some ?ss" "ps_conn_ep example_serving = atp_new 191" "ps_listener example_serving = atp_new 190"
    by (simp_all add: example_serving_def pap_new_def)
  have a: "ae_local_socket (atp_new n) = n" "ae_outbox (atp_new n) = []" for n by (simp_all add: atp_new_def)
  have f: "fresh_request example_client (example_read 7) (ps_conn_ep example_serving)"
    by (simp add: s fresh_request_def atp_wf_def example_read_def atp_known_def atp_new_def)
  have r: "read_request (example_read 7) [] (ss_conn_id ?ss) (read_seq ?ss)"
    by (simp add: read_request_def example_read_def pap_parse_from_atp_def pap_try_from_def session_new_def be16_def)
  have q: "read_reply (example_read 7) ?ss = pap_packet 70 PapData 0 True [1, 2, 3]"
    by (simp add: read_reply_def read_capacity_def bm session_new_def PAP_MAX_DATA_PER_PACKET_def)
  have t: "atp_tid (example_read 7) = 7" by (simp add: example_read_def)
  from pap_read_repeatable [OF st s(1) _ f r, of 5] show ?thesis
    by (simp only: s a q t bm) (simp, blast)
qed

end
