(* ===== verification/Core_ImageWriter.thy ===== *)
theory Core_ImageWriter
  imports Core_Pap_Props
begin

text \<open>
  The ImageWriter role of src/tailtalk-core/src/imagewriter.rs over the PAP server: the option
  card's status word, the self ID query that reads the ribbon between jobs, and the rename command
  taken out of the head of a job.
\<close>

section \<open>State\<close>

definition SELF_ID :: bytes where "SELF_ID = [0x1B, 0x3F]"
definition RENAME :: bytes where "RENAME = [0x1B, 0x62]"
definition STATUS_COLOUR_RIBBON :: u16 where "STATUS_COLOUR_RIBBON = 0x0080"
definition SELF_ID_MAX :: nat where "SELF_ID_MAX = 6"
definition SELF_ID_GAP :: micros where "SELF_ID_GAP = 150000"
definition SELF_ID_TIMEOUT :: micros where "SELF_ID_TIMEOUT = 2000000"

datatype Ident = IdentDue | IdentWaiting micros "micros option" | IdentSettled

datatype ImageWriterEvent =
    IwOpened ServiceAddress
  | IwToPrinter bytes
  | IwJobEof
  | IwClosed
  | IwRename bytes

record ImageWriterRole =
  iw_server :: PapServer
  iw_ident :: Ident
  iw_ident_reply :: bytes
  iw_events :: "ImageWriterEvent list"
  colour_ribbon :: bool
  job_start :: bool

definition set_status_bytes :: "u16 \<Rightarrow> ImageWriterRole \<Rightarrow> ImageWriterRole" where
  "set_status_bytes word r = r\<lparr>iw_server := set_status [lo8 word, hi8 word] (iw_server r)\<rparr>"

definition apply_status :: "ImageWriterRole \<Rightarrow> ImageWriterRole" where
  "apply_status r = set_status_bytes (if colour_ribbon r then STATUS_COLOUR_RIBBON else 0) r"

definition iw_new :: "u8 \<Rightarrow> u8 \<Rightarrow> ImageWriterRole" where
  "iw_new listener_socket conn_socket =
     apply_status \<lparr>iw_server = pap_new listener_socket conn_socket, iw_ident = IdentDue, iw_ident_reply = [],
       iw_events = [], colour_ribbon = True, job_start = True\<rparr>"

definition set_colour_ribbon :: "bool \<Rightarrow> ImageWriterRole \<Rightarrow> ImageWriterRole" where
  "set_colour_ribbon colour r = apply_status (r\<lparr>colour_ribbon := colour\<rparr>)"

definition set_status_word :: "u16 \<Rightarrow> ImageWriterRole \<Rightarrow> ImageWriterRole" where
  "set_status_word word r = set_status_bytes word (r\<lparr>colour_ribbon := (word AND STATUS_COLOUR_RIBBON \<noteq> 0)\<rparr>)"

section \<open>The self ID query\<close>

definition settle_ident :: "ImageWriterRole \<Rightarrow> ImageWriterRole" where
  "settle_ident r =
     (let r1 = (if take 2 (iw_ident_reply r) = [0x49, 0x57]
                then apply_status (r\<lparr>colour_ribbon := (0x43 \<in> set (iw_ident_reply r))\<rparr>)
                else r)
      in r1\<lparr>iw_ident_reply := [], iw_ident := IdentSettled\<rparr>)"

fun collect_reply :: "bytes \<Rightarrow> bytes \<Rightarrow> bytes" where
  "collect_reply reply [] = reply"
| "collect_reply reply (b # bs) =
     collect_reply (if length reply < SELF_ID_MAX then reply @ [b] else reply) bs"

definition iw_printer_input :: "bytes \<Rightarrow> micros \<Rightarrow> ImageWriterRole \<Rightarrow> ImageWriterRole" where
  "iw_printer_input data now r =
     (case iw_ident r of
        IdentWaiting since _ \<Rightarrow>
          (let r1 = r\<lparr>iw_ident_reply := collect_reply (iw_ident_reply r) data\<rparr>
           in if length (iw_ident_reply r1) \<ge> SELF_ID_MAX then settle_ident r1
              else r1\<lparr>iw_ident := IdentWaiting since (Some now)\<rparr>)
      | _ \<Rightarrow> r)"

definition poll_ident :: "micros \<Rightarrow> ImageWriterRole \<Rightarrow> ImageWriterRole" where
  "poll_ident now r =
     (case iw_ident r of
        IdentDue \<Rightarrow>
          (if \<not> pap_busy (iw_server r)
           then r\<lparr>iw_ident_reply := [], iw_events := iw_events r @ [IwToPrinter SELF_ID], iw_ident := IdentWaiting now None\<rparr>
           else r)
      | IdentWaiting since last_byte \<Rightarrow>
          (let finished = (case last_byte of None \<Rightarrow> False | Some t \<Rightarrow> now - t \<ge> SELF_ID_GAP)
           in if finished \<or> now - since \<ge> SELF_ID_TIMEOUT then settle_ident r else r)
      | IdentSettled \<Rightarrow> r)"

section \<open>The operations of the role\<close>

definition iw_set_sink_credit :: "nat \<Rightarrow> micros \<Rightarrow> ImageWriterRole \<Rightarrow> ImageWriterRole option" where
  "iw_set_sink_credit bytes now r =
     map_option (\<lambda>s. r\<lparr>iw_server := s\<rparr>) (set_sink_credit bytes now (iw_server r))"

definition iw_handle_datagram ::
  "u8 \<Rightarrow> ServiceAddress \<Rightarrow> bytes \<Rightarrow> micros \<Rightarrow> ImageWriterRole \<Rightarrow> ImageWriterRole option" where
  "iw_handle_datagram local_socket src payload now r =
     map_option (\<lambda>s. r\<lparr>iw_server := s\<rparr>) (pap_handle_datagram local_socket src payload now (iw_server r))"

definition iw_poll :: "micros \<Rightarrow> ImageWriterRole \<Rightarrow> ImageWriterRole option" where
  "iw_poll now r = map_option (\<lambda>s. poll_ident now (r\<lparr>iw_server := s\<rparr>)) (pap_poll now (iw_server r))"

definition ident_deadline :: "ImageWriterRole \<Rightarrow> micros option" where
  "ident_deadline r =
     (case iw_ident r of
        IdentWaiting since last_byte \<Rightarrow>
          Some (case last_byte of
                  Some t \<Rightarrow> min (t + SELF_ID_GAP) (since + SELF_ID_TIMEOUT)
                | None \<Rightarrow> since + SELF_ID_TIMEOUT)
      | IdentDue \<Rightarrow> (if \<not> pap_busy (iw_server r) then Some 0 else None)
      | IdentSettled \<Rightarrow> None)"

definition iw_next_deadline :: "ImageWriterRole \<Rightarrow> micros option" where
  "iw_next_deadline r = fold_deadline (pap_next_deadline (iw_server r)) (ident_deadline r)"

definition iw_poll_transmit :: "ImageWriterRole \<Rightarrow> (u8 \<times> ServiceAddress \<times> bytes) option \<times> ImageWriterRole" where
  "iw_poll_transmit r = (let (t, s) = pap_poll_transmit (iw_server r) in (t, r\<lparr>iw_server := s\<rparr>))"

definition parse_rename :: "bytes \<Rightarrow> bytes option" where
  "parse_rename bs =
     (if take 2 bs \<noteq> RENAME then None
      else case drop 2 bs of
             [] \<Rightarrow> None
           | n # name \<Rightarrow> if n = 0 \<or> length name \<noteq> unat n then None else Some name)"

definition iw_translate :: "PapEvent \<Rightarrow> ImageWriterRole \<Rightarrow> ImageWriterEvent \<times> ImageWriterRole" where
  "iw_translate ev r =
     (case ev of
        PapOpened client \<Rightarrow> (IwOpened client, r\<lparr>job_start := True\<rparr>)
      | JobEof \<Rightarrow> (IwJobEof, r\<lparr>job_start := True\<rparr>)
      | PapClosed \<Rightarrow> (IwClosed, r\<lparr>iw_ident := IdentDue, job_start := True\<rparr>)
      | ToPrinter bs \<Rightarrow>
          (let at_start = job_start r; r1 = r\<lparr>job_start := False\<rparr>
           in case parse_rename bs of
                Some name \<Rightarrow> (if at_start then IwRename name else IwToPrinter bs, r1)
              | None \<Rightarrow> (IwToPrinter bs, r1)))"

definition iw_poll_event :: "ImageWriterRole \<Rightarrow> ImageWriterEvent option \<times> ImageWriterRole" where
  "iw_poll_event r =
     (case iw_events r of
        ev # evs \<Rightarrow> (Some ev, r\<lparr>iw_events := evs\<rparr>)
      | [] \<Rightarrow>
          (case pap_poll_event (iw_server r) of
             (None, _) \<Rightarrow> (None, r)
           | (Some ev, s) \<Rightarrow> (let (out, r') = iw_translate ev (r\<lparr>iw_server := s\<rparr>) in (Some out, r'))))"

section \<open>The ribbon is read from the printer's own answer\<close>

lemma collect_reply_eq: "length reply \<le> SELF_ID_MAX \<Longrightarrow> collect_reply reply data = take SELF_ID_MAX (reply @ data)"
  by (induction reply data rule: collect_reply.induct) (auto simp: take_Cons' Suc_diff_Suc)

fun iw_inputs :: "(bytes \<times> micros) list \<Rightarrow> ImageWriterRole \<Rightarrow> ImageWriterRole" where
  "iw_inputs [] r = r"
| "iw_inputs ((data, now) # ins) r = iw_inputs ins (iw_printer_input data now r)"

text \<open>The ribbon and the status word after an answer.\<close>

definition ribbon_after :: "bytes \<Rightarrow> bool \<Rightarrow> bool" where
  "ribbon_after answer colour = (if take 2 answer = [0x49, 0x57] then 0x43 \<in> set (take SELF_ID_MAX answer) else colour)"

definition status_of_ribbon :: "bool \<Rightarrow> bytes" where
  "status_of_ribbon colour = [if colour then 0x80 else 0, 0]"

definition iw_status_ok :: "ImageWriterRole \<Rightarrow> bool" where
  "iw_status_ok r \<longleftrightarrow> ps_status (iw_server r) = status_of_ribbon (colour_ribbon r)"

lemma apply_status_simps:
  "ps_status (iw_server (apply_status r)) = status_of_ribbon (colour_ribbon r)"
  "colour_ribbon (apply_status r) = colour_ribbon r" "iw_ident (apply_status r) = iw_ident r"
  "iw_ident_reply (apply_status r) = iw_ident_reply r"
  by (simp_all add: apply_status_def set_status_bytes_def set_status_def status_of_ribbon_def STATUS_COLOUR_RIBBON_def
      lo8_def hi8_def drop_bit_eq_div)

lemma settle_ident_result:
  assumes "iw_status_ok r" and "iw_ident_reply r = take SELF_ID_MAX answer"
  shows "iw_ident (settle_ident r) = IdentSettled \<and> colour_ribbon (settle_ident r) = ribbon_after answer (colour_ribbon r)
    \<and> iw_status_ok (settle_ident r)"
proof -
  have "take 2 (take SELF_ID_MAX answer) = take 2 answer" by (simp add: SELF_ID_MAX_def min_def)
  with assms show ?thesis
    by (simp add: settle_ident_def Let_def ribbon_after_def iw_status_ok_def apply_status_simps)
qed

lemma iw_inputs_settled: "iw_ident r = IdentSettled \<Longrightarrow> iw_inputs ins r = r"
  by (induction ins r rule: iw_inputs.induct) (simp_all add: iw_printer_input_def)

lemma iw_inputs_collect:
  assumes "iw_ident r = IdentWaiting since l" and "iw_status_ok r" and "iw_ident_reply r = answer0" and "length answer0 < SELF_ID_MAX"
  shows "let r' = iw_inputs ins r; answer = answer0 @ concat (map fst ins)
    in (if length answer \<ge> SELF_ID_MAX
        then iw_ident r' = IdentSettled \<and> colour_ribbon r' = ribbon_after answer (colour_ribbon r)
        else iw_ident r' = IdentWaiting since (if ins = [] then l else Some (snd (last ins))) \<and> iw_ident_reply r' = answer
          \<and> colour_ribbon r' = colour_ribbon r)
      \<and> iw_status_ok r'"
  using assms
proof (induction ins arbitrary: r answer0 l)
  case Nil
  then show ?case by simp
next
  case (Cons i ins)
  obtain data now where i: "i = (data, now)" by (cases i)
  let ?r1 = "r\<lparr>iw_ident_reply := collect_reply (iw_ident_reply r) data\<rparr>"
  have c: "collect_reply (iw_ident_reply r) data = take SELF_ID_MAX (answer0 @ data)"
    using Cons.prems by (simp add: collect_reply_eq)
  have ok: "iw_status_ok ?r1" using Cons.prems(2) by (simp add: iw_status_ok_def)
  show ?case
  proof (cases "length (answer0 @ data) \<ge> SELF_ID_MAX")
    case True
    then have "iw_printer_input data now r = settle_ident ?r1"
      using Cons.prems c by (simp add: iw_printer_input_def)
    moreover have "iw_ident_reply ?r1 = take SELF_ID_MAX (answer0 @ data @ concat (map fst ins))"
      using True c by simp
    ultimately show ?thesis
      using True settle_ident_result [OF ok, of "answer0 @ data @ concat (map fst ins)"] by (simp add: i iw_inputs_settled)
  next
    case False
    let ?r2 = "?r1\<lparr>iw_ident := IdentWaiting since (Some now)\<rparr>"
    have p: "iw_printer_input data now r = ?r2" using False Cons.prems c by (simp add: iw_printer_input_def)
    have "iw_status_ok ?r2" using ok by (simp add: iw_status_ok_def)
    from Cons.IH [of ?r2 "Some now" "answer0 @ data", OF _ this] False c show ?thesis
      by (simp add: i p Let_def)
  qed
qed

text \<open>
Reading the ribbon: after the self ID query, however the printer's unterminated answer is cut
  into pieces on its way here, the role settles (at the sixth byte, or at a poll 150 ms after the
  last byte or 2 s after the query) on the same reading: the first six bytes are believed only if
  they start with IW, a colour ribbon is reported exactly if they contain a C, silence and noise leave the
  reading as it was, and the status word the card answers with is that of the reading.\<close>

theorem imagewriter_ribbon_reading:
  assumes "iw_ident r = IdentWaiting since None" and "iw_ident_reply r = []" and "iw_status_ok r"
    and "SELF_ID_MAX \<le> length (concat (map fst ins)) \<or> ins \<noteq> [] \<and> SELF_ID_GAP \<le> t - snd (last ins) \<or> SELF_ID_TIMEOUT \<le> t - since"
  shows "let r' = poll_ident t (iw_inputs ins r)
    in iw_ident r' = IdentSettled \<and> colour_ribbon r' = ribbon_after (concat (map fst ins)) (colour_ribbon r)
       \<and> ps_status (iw_server r') = status_of_ribbon (colour_ribbon r')"
proof -
  let ?a = "concat (map fst ins)" and ?r = "iw_inputs ins r"
  have "length ([] :: bytes) < SELF_ID_MAX" by (simp add: SELF_ID_MAX_def)
  from iw_inputs_collect [OF assms(1,3,2) this, of ins] have
    c: "if length ?a \<ge> SELF_ID_MAX
        then iw_ident ?r = IdentSettled \<and> colour_ribbon ?r = ribbon_after ?a (colour_ribbon r)
        else iw_ident ?r = IdentWaiting since (if ins = [] then None else Some (snd (last ins))) \<and> iw_ident_reply ?r = ?a
          \<and> colour_ribbon ?r = colour_ribbon r"
    and ok: "iw_status_ok ?r" by (simp_all add: Let_def)
  show ?thesis
  proof (cases "length ?a \<ge> SELF_ID_MAX")
    case True
    with c ok show ?thesis by (simp add: poll_ident_def Let_def iw_status_ok_def)
  next
    case False
    with c assms(4) have "poll_ident t ?r = settle_ident ?r"
      by (cases ins) (auto simp: poll_ident_def Let_def)
    with settle_ident_result [OF ok, of ?a] c False show ?thesis
      by (simp add: iw_status_ok_def)
  qed
qed

lemma imagewriter_ribbon_reading_witness:
  "let r = poll_ident 0 (iw_new 190 191);
       r' = poll_ident 300000 (iw_inputs [([0x49, 0x57], 50), ([0x31, 0x30], 100)] r)
   in iw_ident r' = IdentSettled \<and> \<not> colour_ribbon r' \<and> ps_status (iw_server r') = [0, 0]"
proof -
  let ?r = "poll_ident 0 (iw_new 190 191)"
  have "iw_ident ?r = IdentWaiting 0 None" "iw_ident_reply ?r = []" "iw_status_ok ?r"
    by (simp_all add: poll_ident_def iw_new_def apply_status_def set_status_bytes_def pap_busy_def pap_new_def
        set_status_def iw_status_ok_def status_of_ribbon_def STATUS_COLOUR_RIBBON_def lo8_def hi8_def drop_bit_eq_div)
  from imagewriter_ribbon_reading [OF this, of "[([0x49, 0x57], 50), ([0x31, 0x30], 100)]" 300000]
  show ?thesis by (simp add: Let_def SELF_ID_GAP_def ribbon_after_def SELF_ID_MAX_def status_of_ribbon_def)
qed

end
