(* ===== verification/Net_Printer.thy ===== *)
theory Net_Printer
  imports Core_ImageWriter
begin

text \<open>
  The printer port of src/tailtalk-net/src/printer.rs: the role behind its trait object, the byte queue in
  front of the port and the credit handed back to the role. The trait is a record of operations,
  with the PAP server and the ImageWriter role as its instances; the law the queue rests on (polling
  hands out the waiting events in order) is the locale \<open>printer_role\<close>. The NBP registration and
  the asynchronous port itself are not modelled: a write is the step that takes bytes and the step
  that ends it.
\<close>

section \<open>Roles\<close>

definition WINDOW :: nat where "WINDOW = PULL_CAPACITY"

datatype PrinterEvent =
    JobStarted
  | PrinterJobEof
  | JobEnded bool
  | PrinterRenamed string
  | RenameRejected
  | FastClockEnable
  | FastClockDisable

datatype RoleEvent =
    RoleToPrinter bytes
  | RoleRename bytes
  | RoleEvent PrinterEvent

record 'r Role =
  role_handle_datagram :: "u8 \<Rightarrow> ServiceAddress \<Rightarrow> bytes \<Rightarrow> micros \<Rightarrow> 'r \<Rightarrow> 'r option"
  role_poll :: "micros \<Rightarrow> 'r \<Rightarrow> 'r option"
  role_set_credit :: "nat \<Rightarrow> micros \<Rightarrow> 'r \<Rightarrow> 'r option"
  role_printer_input :: "bytes \<Rightarrow> micros \<Rightarrow> 'r \<Rightarrow> 'r option"
  role_poll_event :: "'r \<Rightarrow> RoleEvent option \<times> 'r"

definition pap_role_event :: "PapEvent \<Rightarrow> RoleEvent" where
  "pap_role_event ev =
     (case ev of
        PapOpened _ \<Rightarrow> RoleEvent JobStarted
      | ToPrinter bs \<Rightarrow> RoleToPrinter bs
      | JobEof \<Rightarrow> RoleEvent PrinterJobEof
      | PapClosed \<Rightarrow> RoleEvent (JobEnded True))"

definition pap_role :: "PapServer Role" where
  "pap_role = \<lparr>role_handle_datagram = pap_handle_datagram, role_poll = pap_poll, role_set_credit = set_sink_credit,
     role_printer_input = (\<lambda>data now s. Some (queue_output data now s)),
     role_poll_event = (\<lambda>s. let (ev, s') = pap_poll_event s in (map_option pap_role_event ev, s'))\<rparr>"

definition iw_role_event :: "ImageWriterEvent \<Rightarrow> RoleEvent" where
  "iw_role_event ev =
     (case ev of
        IwOpened _ \<Rightarrow> RoleEvent JobStarted
      | IwToPrinter bs \<Rightarrow> RoleToPrinter bs
      | IwJobEof \<Rightarrow> RoleEvent PrinterJobEof
      | IwClosed \<Rightarrow> RoleEvent (JobEnded True)
      | IwRename name \<Rightarrow> RoleRename name)"

definition iw_role :: "ImageWriterRole Role" where
  "iw_role = \<lparr>role_handle_datagram = iw_handle_datagram, role_poll = iw_poll, role_set_credit = iw_set_sink_credit,
     role_printer_input = (\<lambda>data now r. Some (iw_printer_input data now r)),
     role_poll_event = (\<lambda>r. let (ev, r') = iw_poll_event r in (map_option iw_role_event ev, r'))\<rparr>"

section \<open>The port\<close>

datatype PortEvent = PortEvent PrinterEvent | PortRename bytes

record 'r PortState =
  port_role :: 'r
  to_printer :: bytes
  writing :: nat
  queued_total :: nat
  written_total :: nat
  port_events :: "(nat \<times> PortEvent) list"

definition port_note :: "RoleEvent \<Rightarrow> 'r PortState \<Rightarrow> 'r PortState" where
  "port_note ev p =
     (case ev of
        RoleToPrinter bs \<Rightarrow> p\<lparr>queued_total := queued_total p + length bs, to_printer := to_printer p @ bs\<rparr>
      | RoleRename name \<Rightarrow> p\<lparr>port_events := port_events p @ [(queued_total p, PortRename name)]\<rparr>
      | RoleEvent e \<Rightarrow> p\<lparr>port_events := port_events p @ [(queued_total p, PortEvent e)]\<rparr>)"

text \<open>The loop of \<open>settle\<close> ends when the role has no event left: \<open>None\<close> is a role that never runs dry.\<close>

partial_function (option) settle_loop :: "'r Role \<Rightarrow> 'r PortState \<Rightarrow> 'r PortState option" where
  "settle_loop role p =
     (case role_poll_event role (port_role p) of
        (None, r) \<Rightarrow> Some (p\<lparr>port_role := r\<rparr>)
      | (Some ev, r) \<Rightarrow> settle_loop role (port_note ev (p\<lparr>port_role := r\<rparr>)))"

definition port_settle :: "'r Role \<Rightarrow> micros \<Rightarrow> 'r PortState \<Rightarrow> 'r PortState option" where
  "port_settle role now p = do {
     p1 \<leftarrow> settle_loop role p;
     let held = length (to_printer p1) + writing p1;
     r \<leftarrow> role_set_credit role (WINDOW - held) now (port_role p1);
     Some (p1\<lparr>port_role := r\<rparr>)
   }"

definition port_next_event :: "'r PortState \<Rightarrow> PortEvent option \<times> 'r PortState" where
  "port_next_event p =
     (case port_events p of
        (after, e) # evs \<Rightarrow> (if after \<le> written_total p then (Some e, p\<lparr>port_events := evs\<rparr>) else (None, p))
      | [] \<Rightarrow> (None, p))"

definition port_with_role :: "('r \<Rightarrow> 'r option) \<Rightarrow> 'r Role \<Rightarrow> micros \<Rightarrow> 'r PortState \<Rightarrow> 'r PortState option" where
  "port_with_role f role now p = do {
     r \<leftarrow> f (port_role p);
     port_settle role now (p\<lparr>port_role := r\<rparr>)
   }"

definition port_handle_datagram ::
  "'r Role \<Rightarrow> u8 \<Rightarrow> ServiceAddress \<Rightarrow> bytes \<Rightarrow> micros \<Rightarrow> 'r PortState \<Rightarrow> 'r PortState option" where
  "port_handle_datagram role dst src payload now p = port_with_role (role_handle_datagram role dst src payload now) role now p"

definition port_poll :: "'r Role \<Rightarrow> micros \<Rightarrow> 'r PortState \<Rightarrow> 'r PortState option" where
  "port_poll role now p = port_with_role (role_poll role now) role now p"

definition port_input :: "'r Role \<Rightarrow> bytes \<Rightarrow> micros \<Rightarrow> 'r PortState \<Rightarrow> 'r PortState option" where
  "port_input role data now p = port_with_role (role_printer_input role data now) role now p"

text \<open>A write of \<open>run\<close>: the bytes it takes, and the guard that is dropped when it is over.\<close>

definition port_take :: "'r PortState \<Rightarrow> bytes \<times> 'r PortState" where
  "port_take p =
     (let n = min (length (to_printer p)) 256
      in (take n (to_printer p), p\<lparr>to_printer := drop n (to_printer p), writing := writing p + n\<rparr>))"

definition port_write_over :: "'r Role \<Rightarrow> nat \<Rightarrow> micros \<Rightarrow> 'r PortState \<Rightarrow> 'r PortState option" where
  "port_write_over role n now p =
     port_settle role now (p\<lparr>writing := writing p - n, written_total := written_total p + n\<rparr>)"

definition port_new :: "'r \<Rightarrow> 'r PortState" where
  "port_new r = \<lparr>port_role = r, to_printer = [], writing = 0, queued_total = 0, written_total = 0, port_events = []\<rparr>"

section \<open>The stream of a role\<close>

text \<open>What the queue holds of a stream of events: the bytes, and each event with the bytes before it.\<close>

fun stream_bytes :: "RoleEvent list \<Rightarrow> bytes" where
  "stream_bytes [] = []"
| "stream_bytes (RoleToPrinter bs # evs) = bs @ stream_bytes evs"
| "stream_bytes (RoleRename name # evs) = stream_bytes evs"
| "stream_bytes (RoleEvent e # evs) = stream_bytes evs"

fun event_offsets :: "nat \<Rightarrow> RoleEvent list \<Rightarrow> (nat \<times> PortEvent) list" where
  "event_offsets n [] = []"
| "event_offsets n (RoleToPrinter bs # evs) = event_offsets (n + length bs) evs"
| "event_offsets n (RoleRename name # evs) = (n, PortRename name) # event_offsets n evs"
| "event_offsets n (RoleEvent e # evs) = (n, PortEvent e) # event_offsets n evs"

lemma stream_bytes_append: "stream_bytes (xs @ ys) = stream_bytes xs @ stream_bytes ys"
  by (induction xs rule: stream_bytes.induct) simp_all

lemma event_offsets_append: "event_offsets n (xs @ ys) = event_offsets n xs @ event_offsets (n + length (stream_bytes xs)) ys"
  by (induction n xs rule: event_offsets.induct) (simp_all add: add.assoc)

definition port_absorb :: "RoleEvent list \<Rightarrow> 'r PortState \<Rightarrow> 'r PortState" where
  "port_absorb evs p = p\<lparr>to_printer := to_printer p @ stream_bytes evs,
     queued_total := queued_total p + length (stream_bytes evs),
     port_events := port_events p @ event_offsets (queued_total p) evs\<rparr>"

lemma port_absorb_note: "port_absorb evs (port_note ev p) = port_absorb (ev # evs) p"
  by (cases p; cases ev) (simp_all add: port_absorb_def port_note_def)

lemma port_absorb_nil: "port_absorb [] p = p"
  by (simp add: port_absorb_def)

lemma port_absorb_role: "port_absorb evs (p\<lparr>port_role := r\<rparr>) = (port_absorb evs p)\<lparr>port_role := r\<rparr>"
  by (simp add: port_absorb_def)

section \<open>The law of a role\<close>

text \<open>
  \<open>queued r\<close> are the events that polling hands out, in this order. Telling the role its credit does not
  change them.
\<close>

locale printer_role =
  fixes role :: "'r Role" and queued :: "'r \<Rightarrow> RoleEvent list"
  assumes poll_none: "queued r = [] \<Longrightarrow> fst (role_poll_event role r) = None \<and> queued (snd (role_poll_event role r)) = []"
    and poll_some: "queued r = ev # evs \<Longrightarrow> fst (role_poll_event role r) = Some ev \<and> queued (snd (role_poll_event role r)) = evs"
    and credit_keeps: "role_set_credit role n now r = Some r' \<Longrightarrow> queued r' = queued r"
begin

lemma settle_loop_drains:
  "\<exists>r. settle_loop role p = Some ((port_absorb (queued (port_role p)) p)\<lparr>port_role := r\<rparr>) \<and> queued r = []"
proof (induction "queued (port_role p)" arbitrary: p)
  case Nil
  then have "queued (port_role p) = []" by simp
  from poll_none [OF this] Nil show ?case
    by (subst settle_loop.simps) (auto simp: port_absorb_nil split: prod.split)
next
  case (Cons ev evs)
  then have "queued (port_role p) = ev # evs" by simp
  from poll_some [OF this] obtain r where r: "role_poll_event role (port_role p) = (Some ev, r)" "queued r = evs"
    by (cases "role_poll_event role (port_role p)") auto
  let ?p = "port_note ev (p\<lparr>port_role := r\<rparr>)"
  have pr: "port_role ?p = r" by (simp add: port_note_def split: RoleEvent.split)
  from Cons.hyps(1) [of ?p] r(2) pr obtain r' where
    r': "settle_loop role ?p = Some ((port_absorb evs ?p)\<lparr>port_role := r'\<rparr>)" "queued r' = []" by auto
  then show ?case
    by (subst settle_loop.simps) (auto simp: r(1) Cons.hyps(2) [symmetric] port_absorb_note port_absorb_role)
qed

lemma settle_absorbs:
  assumes "port_settle role now p = Some p'"
  shows "\<exists>r. p' = (port_absorb (queued (port_role p)) p)\<lparr>port_role := r\<rparr> \<and> queued r = []"
proof -
  from settle_loop_drains [of p] obtain r where
    "settle_loop role p = Some ((port_absorb (queued (port_role p)) p)\<lparr>port_role := r\<rparr>)" "queued r = []" by blast
  with assms credit_keeps show ?thesis by (auto simp: port_settle_def Let_def bind_eq_Some_conv)
qed

end

section \<open>Runs of a port\<close>

datatype PortAction =
    PaDatagram u8 ServiceAddress bytes micros
  | PaPoll micros
  | PaInput bytes micros
  | PaTake
  | PaWritten micros
  | PaNext

fun port_act :: "'r Role \<Rightarrow> PortAction \<Rightarrow> 'r PortState \<Rightarrow> 'r PortState option" where
  "port_act role (PaDatagram dst src payload now) p = port_handle_datagram role dst src payload now p"
| "port_act role (PaPoll now) p = port_poll role now p"
| "port_act role (PaInput data now) p = port_input role data now p"
| "port_act role PaTake p = Some (snd (port_take p))"
| "port_act role (PaWritten now) p = port_write_over role (writing p) now p"
| "port_act role PaNext p = Some (snd (port_next_event p))"

text \<open>The history of a run: what the role raised, the bytes written out, and each event reported with the
  number of bytes whose write was over by then.\<close>

record PortHistory =
  raised :: "RoleEvent list"
  taken :: bytes
  reported :: "(nat \<times> PortEvent) list"

definition port_raised :: "'r Role \<Rightarrow> ('r \<Rightarrow> RoleEvent list) \<Rightarrow> PortAction \<Rightarrow> 'r PortState \<Rightarrow> RoleEvent list" where
  "port_raised role queued a p =
     (let events = (\<lambda>r. case r of None \<Rightarrow> [] | Some r' \<Rightarrow> queued r') in
      case a of
        PaDatagram dst src payload now \<Rightarrow> events (role_handle_datagram role dst src payload now (port_role p))
      | PaPoll now \<Rightarrow> events (role_poll role now (port_role p))
      | PaInput data now \<Rightarrow> events (role_printer_input role data now (port_role p))
      | PaWritten now \<Rightarrow> queued (port_role p)
      | _ \<Rightarrow> [])"

definition port_history ::
  "'r Role \<Rightarrow> ('r \<Rightarrow> RoleEvent list) \<Rightarrow> PortAction \<Rightarrow> 'r PortState \<Rightarrow> PortHistory \<Rightarrow> PortHistory" where
  "port_history role queued a p h =
     \<lparr>raised = raised h @ port_raised role queued a p,
      taken = taken h @ (if a = PaTake then fst (port_take p) else []),
      reported = reported h @ (case (a, fst (port_next_event p)) of (PaNext, Some e) \<Rightarrow> [(written_total p, e)] | _ \<Rightarrow> [])\<rparr>"

fun port_run ::
  "'r Role \<Rightarrow> ('r \<Rightarrow> RoleEvent list) \<Rightarrow> PortAction list \<Rightarrow> 'r PortState \<Rightarrow> PortHistory \<Rightarrow> ('r PortState \<times> PortHistory) option" where
  "port_run role queued [] p h = Some (p, h)"
| "port_run role queued (a # as) p h = do {
     p' \<leftarrow> port_act role a p;
     port_run role queued as p' (port_history role queued a p h)
   }"

definition history_new :: PortHistory where "history_new = \<lparr>raised = [], taken = [], reported = []\<rparr>"

text \<open>What every run keeps.\<close>

definition port_in_order :: "'r PortState \<Rightarrow> PortHistory \<Rightarrow> bool" where
  "port_in_order p h \<longleftrightarrow>
     taken h @ to_printer p = stream_bytes (raised h)
     \<and> queued_total p = length (stream_bytes (raised h))
     \<and> written_total p + writing p = length (taken h)
     \<and> length (reported h) \<le> length (event_offsets 0 (raised h))
     \<and> map snd (reported h) = map snd (take (length (reported h)) (event_offsets 0 (raised h)))
     \<and> port_events p = drop (length (reported h)) (event_offsets 0 (raised h))
     \<and> list_all (\<lambda>((w, _), (n, _)). n \<le> w \<and> w \<le> written_total p) (zip (reported h) (event_offsets 0 (raised h)))"

lemma zip_take_length: "zip xs (take (length xs) ys) = zip xs ys"
  by (induction xs arbitrary: ys) (simp, case_tac ys, simp_all)

lemma port_in_order_absorb:
  assumes "port_in_order p h"
  shows "port_in_order ((port_absorb evs p)\<lparr>port_role := r\<rparr>) (h\<lparr>raised := raised h @ evs\<rparr>)"
proof -
  let ?o = "event_offsets 0 (raised h)" and ?n = "event_offsets (queued_total p) evs"
  from assms have
    t: "taken h @ to_printer p = stream_bytes (raised h)" and q: "queued_total p = length (stream_bytes (raised h))"
    and w: "written_total p + writing p = length (taken h)"
    and len: "length (reported h) \<le> length ?o" and m: "map snd (reported h) = map snd (take (length (reported h)) ?o)"
    and d: "port_events p = drop (length (reported h)) ?o"
    and l: "list_all (\<lambda>((w, _), (n, _)). n \<le> w \<and> w \<le> written_total p) (zip (reported h) ?o)"
    by (simp_all add: port_in_order_def)
  have o: "event_offsets 0 (raised h @ evs) = ?o @ ?n" by (simp add: event_offsets_append q)
  have z: "zip (reported h) (?o @ ys) = zip (reported h) ?o" for ys using len by (simp add: zip_append2)
  have t': "taken h @ to_printer p @ stream_bytes evs = stream_bytes (raised h) @ stream_bytes evs" using t by simp
  show ?thesis
    using len m by (simp add: port_in_order_def port_absorb_def stream_bytes_append t' q w o z d l)
qed

lemma port_in_order_role: "port_in_order (p\<lparr>port_role := r\<rparr>) h = port_in_order p h"
  by (simp add: port_in_order_def)

lemma port_in_order_take:
  "port_in_order p h \<Longrightarrow> port_in_order (snd (port_take p)) (h\<lparr>taken := taken h @ fst (port_take p)\<rparr>)"
  by (simp add: port_in_order_def port_take_def Let_def)

lemma port_in_order_written:
  assumes "port_in_order p h"
  shows "port_in_order (p\<lparr>writing := 0, written_total := written_total p + writing p\<rparr>) h"
  using assms by (auto simp: port_in_order_def list_all_iff)

lemma port_in_order_next:
  assumes "port_in_order p h"
  shows "port_in_order (snd (port_next_event p))
    (h\<lparr>reported := reported h @ (case fst (port_next_event p) of None \<Rightarrow> [] | Some e \<Rightarrow> [(written_total p, e)])\<rparr>)"
proof (cases "fst (port_next_event p)")
  case None
  then have "snd (port_next_event p) = p" by (simp add: port_next_event_def split: list.splits prod.splits if_splits)
  with assms None show ?thesis by simp
next
  case (Some e)
  then obtain n evs where e: "port_events p = (n, e) # evs" "n \<le> written_total p"
    by (auto simp: port_next_event_def split: list.splits prod.splits if_splits)
  let ?o = "event_offsets 0 (raised h)" and ?k = "length (reported h)"
  from assms have d: "drop ?k ?o = (n, e) # evs" and l: "list_all (\<lambda>((w, _), (n, _)). n \<le> w \<and> w \<le> written_total p) (zip (reported h) ?o)"
    using e by (simp_all add: port_in_order_def)
  have k: "?k < length ?o" using d by (metis drop_all list.distinct(1) not_le)
  have o: "?o = take ?k ?o @ (n, e) # evs" using d by (metis append_take_drop_id)
  have "zip (reported h @ [(written_total p, e)]) ?o = zip (reported h) ?o @ [((written_total p, e), (n, e))]"
  proof -
    have "zip (reported h @ [(written_total p, e)]) (take ?k ?o @ (n, e) # evs)
      = zip (reported h) (take ?k ?o) @ [((written_total p, e), (n, e))]" using k by simp
    moreover have "zip (reported h) (take ?k ?o) = zip (reported h) ?o" by (rule zip_take_length)
    ultimately show ?thesis using o by simp
  qed
  moreover have "drop (Suc ?k) ?o = evs" using d by (metis drop_Suc list.sel(3) tl_drop)
  moreover have "take (Suc ?k) ?o = take ?k ?o @ [(n, e)]" using d k by (metis hd_drop_conv_nth list.sel(1) take_Suc_conv_app_nth)
  moreover have nx: "port_next_event p = (Some e, p\<lparr>port_events := evs\<rparr>)" using e by (simp add: port_next_event_def)
  ultimately show ?thesis
    using assms e(2) l k unfolding nx by (simp add: port_in_order_def)
qed

lemma history_update:
  "h\<lparr>raised := x\<rparr> = \<lparr>raised = x, taken = taken h, reported = reported h\<rparr>"
  "h\<lparr>taken := y\<rparr> = \<lparr>raised = raised h, taken = y, reported = reported h\<rparr>"
  "h\<lparr>reported := z\<rparr> = \<lparr>raised = raised h, taken = taken h, reported = z\<rparr>"
  by (cases h; simp)+

context printer_role
begin

lemma with_role_in_order:
  assumes "port_in_order p h" and "port_with_role f role now p = Some p'"
  shows "port_in_order p' (h\<lparr>raised := raised h @ (case f (port_role p) of None \<Rightarrow> [] | Some r \<Rightarrow> queued r)\<rparr>)"
proof -
  from assms(2) obtain r where f: "f (port_role p) = Some r" and s: "port_settle role now (p\<lparr>port_role := r\<rparr>) = Some p'"
    by (auto simp: port_with_role_def bind_eq_Some_conv)
  from settle_absorbs [OF s] obtain r' where "p' = (port_absorb (queued r) (p\<lparr>port_role := r\<rparr>))\<lparr>port_role := r'\<rparr>" by auto
  with f port_in_order_absorb [OF assms(1), where evs = "queued r" and r = r'] show ?thesis by (simp add: port_absorb_role)
qed

lemma act_in_order:
  assumes "port_in_order p h" and "port_act role a p = Some p'"
  shows "port_in_order p' (port_history role queued a p h)"
proof (cases a)
  case (PaDatagram dst src payload now)
  with assms with_role_in_order [OF assms(1), of "role_handle_datagram role dst src payload now" now p'] show ?thesis
    by (simp add: port_handle_datagram_def port_history_def port_raised_def history_update)
next
  case (PaPoll now)
  with assms with_role_in_order [OF assms(1), of "role_poll role now" now p'] show ?thesis
    by (simp add: port_poll_def port_history_def port_raised_def history_update)
next
  case (PaInput data now)
  with assms with_role_in_order [OF assms(1), of "role_printer_input role data now" now p'] show ?thesis
    by (simp add: port_input_def port_history_def port_raised_def history_update)
next
  case PaTake
  with assms port_in_order_take [OF assms(1)] show ?thesis by (simp add: port_history_def port_raised_def history_update)
next
  case (PaWritten now)
  let ?p = "p\<lparr>writing := 0, written_total := written_total p + writing p\<rparr>"
  from assms(2) PaWritten have "port_settle role now ?p = Some p'" by (simp add: port_write_over_def)
  from settle_absorbs [OF this] obtain r where "p' = (port_absorb (queued (port_role p)) ?p)\<lparr>port_role := r\<rparr>" by auto
  with port_in_order_absorb [OF port_in_order_written [OF assms(1)]] PaWritten show ?thesis
    by (simp add: port_history_def port_raised_def history_update)
next
  case PaNext
  with assms port_in_order_next [OF assms(1)] show ?thesis
    by (cases "fst (port_next_event p)") (simp_all add: port_history_def port_raised_def history_update)
qed

lemma run_in_order:
  assumes "port_in_order p h" and "port_run role queued as p h = Some (p', h')"
  shows "port_in_order p' h'"
  using assms
proof (induction "as" arbitrary: p h)
  case (Cons a as')
  then obtain p1 where "port_act role a p = Some p1" "port_run role queued as' p1 (port_history role queued a p h) = Some (p', h')"
    by (auto simp: bind_eq_Some_conv)
  with Cons act_in_order show ?case by blast
qed simp

end

lemma port_new_in_order: "port_in_order (port_new r) history_new"
  by (simp add: port_in_order_def port_new_def history_new_def)

section \<open>The roles obey the law\<close>

definition pap_queued :: "PapServer \<Rightarrow> RoleEvent list" where
  "pap_queued s = map pap_role_event (ps_events s)"

lemma maybe_pull_events: "maybe_pull now s = Some s' \<Longrightarrow> ps_events s' = ps_events s"
  by (auto simp: maybe_pull_def Let_def split_beta bind_eq_Some_conv split: option.splits if_splits)

interpretation pap_port: printer_role pap_role pap_queued
proof unfold_locales
  show "role_set_credit pap_role n now r = Some r' \<Longrightarrow> pap_queued r' = pap_queued r" for n now r r'
    by (auto simp: pap_role_def set_sink_credit_def pap_queued_def dest!: maybe_pull_events)
qed (auto simp: pap_role_def pap_queued_def pap_poll_event_def)

text \<open>The ImageWriter's own events come first, then the server's, as the role translates them one by one.\<close>

fun iw_outputs :: "PapEvent list \<Rightarrow> ImageWriterRole \<Rightarrow> ImageWriterEvent list" where
  "iw_outputs [] r = []"
| "iw_outputs (ev # evs) r = fst (iw_translate ev r) # iw_outputs evs (snd (iw_translate ev r))"

definition iw_queued :: "ImageWriterRole \<Rightarrow> RoleEvent list" where
  "iw_queued r = map iw_role_event (iw_events r @ iw_outputs (ps_events (iw_server r)) r)"

lemma iw_translate_view:
  "fst (iw_translate ev (r\<lparr>iw_server := s\<rparr>)) = fst (iw_translate ev r)"
  "snd (iw_translate ev (r\<lparr>iw_server := s\<rparr>)) = (snd (iw_translate ev r))\<lparr>iw_server := s\<rparr>"
  "fst (iw_translate ev (r\<lparr>iw_events := es\<rparr>)) = fst (iw_translate ev r)"
  "snd (iw_translate ev (r\<lparr>iw_events := es\<rparr>)) = (snd (iw_translate ev r))\<lparr>iw_events := es\<rparr>"
  "iw_server (snd (iw_translate ev r)) = iw_server r" "iw_events (snd (iw_translate ev r)) = iw_events r"
  by (cases ev; simp add: iw_translate_def Let_def split: option.split)+

lemma iw_outputs_view: "iw_outputs evs (r\<lparr>iw_server := s\<rparr>) = iw_outputs evs r" "iw_outputs evs (r\<lparr>iw_events := es\<rparr>) = iw_outputs evs r"
  by (induction evs arbitrary: r) (simp_all add: iw_translate_view)

interpretation iw_port: printer_role iw_role iw_queued
proof unfold_locales
  show "role_set_credit iw_role n now r = Some r' \<Longrightarrow> iw_queued r' = iw_queued r" for n now r r'
    by (auto simp: iw_role_def iw_set_sink_credit_def set_sink_credit_def iw_queued_def iw_outputs_view dest!: maybe_pull_events)
next
  fix r assume "iw_queued r = []"
  then have "iw_events r = []" "ps_events (iw_server r) = []"
    by (auto simp: iw_queued_def elim: iw_outputs.elims)
  then show "fst (role_poll_event iw_role r) = None \<and> iw_queued (snd (role_poll_event iw_role r)) = []"
    by (simp add: iw_role_def iw_poll_event_def pap_poll_event_def iw_queued_def)
next
  fix r ev evs assume q: "iw_queued r = ev # evs"
  show "fst (role_poll_event iw_role r) = Some ev \<and> iw_queued (snd (role_poll_event iw_role r)) = evs"
  proof (cases "iw_events r")
    case (Cons x xs)
    with q show ?thesis by (auto simp: iw_role_def iw_poll_event_def iw_queued_def iw_outputs_view)
  next
    case Nil
    with q obtain pe pes where p: "ps_events (iw_server r) = pe # pes"
      by (cases "ps_events (iw_server r)") (auto simp: iw_queued_def)
    then show ?thesis using q Nil
      by (auto simp: iw_role_def iw_poll_event_def pap_poll_event_def iw_queued_def iw_outputs_view iw_translate_view
          Let_def split_beta)
  qed
qed

section \<open>Events wait for their bytes\<close>

text \<open>
Claim C19: The port of an ImageWriter keeps bytes and events in order, whatever the interleaving of
  network traffic, printer input, polls, writes and event polls: the bytes handed to the port
  followed by those still queued are exactly the bytes the role raised; the events reported are
  the first ones the role raised; and each was reported only when the write of every byte raised
  before it was over.\<close>

theorem printer_events_after_bytes:
  assumes "port_run iw_role iw_queued acts (port_new r) history_new = Some (p, h)"
  shows "taken h @ to_printer p = stream_bytes (raised h)
    \<and> map snd (reported h) = map snd (take (length (reported h)) (event_offsets 0 (raised h)))
    \<and> (\<forall>i < length (reported h). fst (event_offsets 0 (raised h) ! i) \<le> fst (reported h ! i)
         \<and> fst (reported h ! i) \<le> written_total p)
    \<and> written_total p + writing p = length (taken h)"
proof -
  have o: "port_in_order p h" by (rule iw_port.run_in_order [OF port_new_in_order assms])
  then have len: "length (reported h) \<le> length (event_offsets 0 (raised h))"
    and l: "list_all (\<lambda>((w, _), (n, _)). n \<le> w \<and> w \<le> written_total p) (zip (reported h) (event_offsets 0 (raised h)))"
    by (simp_all add: port_in_order_def)
  have "fst (event_offsets 0 (raised h) ! i) \<le> fst (reported h ! i) \<and> fst (reported h ! i) \<le> written_total p"
    if "i < length (reported h)" for i
    using l len that by (auto simp: list_all_length split_beta)
  with o show ?thesis by (simp add: port_in_order_def)
qed

lemma printer_events_after_bytes_witness:
  "\<exists>p h. port_run iw_role iw_queued [PaPoll 0, PaTake, PaNext] (port_new (iw_new 190 191)) history_new = Some (p, h)
    \<and> taken h @ to_printer p = stream_bytes (raised h) \<and> stream_bytes (raised h) = SELF_ID"
proof -
  let ?s = "set_status [0x80, 0] (pap_new 190 191)"
  have "pap_poll 0 ?s = Some ?s"
    by (simp add: pap_poll_def pap_drain_def pap_keepalive_def drain_listener.simps drain_conn.simps atp_poll_event_def answer_read_def
        maybe_pull_def atp_poll_def pap_new_def atp_new_def set_status_def)
  moreover have n: "iw_new 190 191 = \<lparr>iw_server = ?s, iw_ident = IdentDue, iw_ident_reply = [], iw_events = [], colour_ribbon = True, job_start = True\<rparr>"
    by (simp add: iw_new_def apply_status_def set_status_bytes_def STATUS_COLOUR_RIBBON_def lo8_def hi8_def drop_bit_eq_div)
  ultimately have d: "iw_poll 0 (iw_new 190 191) = Some ((iw_new 190 191)\<lparr>iw_events := [IwToPrinter SELF_ID], iw_ident := IdentWaiting 0 None\<rparr>)"
    by (simp add: iw_poll_def poll_ident_def pap_busy_def pap_new_def set_status_def)
  let ?r = "(iw_new 190 191)\<lparr>iw_events := [IwToPrinter SELF_ID], iw_ident := IdentWaiting 0 None\<rparr>"
  have q: "iw_queued ?r = [RoleToPrinter SELF_ID]" by (simp add: iw_queued_def n iw_role_event_def pap_new_def set_status_def)
  let ?r' = "(iw_new 190 191)\<lparr>iw_ident := IdentWaiting 0 None\<rparr>"
  have e: "role_poll_event iw_role ?r = (Some (RoleToPrinter SELF_ID), ?r')" "role_poll_event iw_role ?r' = (None, ?r')"
    by (simp_all add: iw_role_def iw_poll_event_def n iw_role_event_def pap_poll_event_def pap_new_def set_status_def)
  let ?p = "(port_new (iw_new 190 191))\<lparr>port_role := ?r\<rparr>"
  have "settle_loop iw_role ?p = Some (port_note (RoleToPrinter SELF_ID) (?p\<lparr>port_role := ?r'\<rparr>))"
    by (subst settle_loop.simps, simp add: e, subst settle_loop.simps, simp add: e port_note_def)
  moreover have "iw_set_sink_credit k 0 ?r' = Some (?r'\<lparr>iw_server := ?s\<lparr>sink_credit := k\<rparr>\<rparr>)" for k
    by (simp add: iw_set_sink_credit_def set_sink_credit_def maybe_pull_def n pap_new_def set_status_def)
  ultimately obtain p1 where "port_settle iw_role 0 ?p = Some p1"
    by (simp add: port_settle_def Let_def iw_role_def port_note_def)
  then obtain p h where ph: "port_run iw_role iw_queued [PaPoll 0, PaTake, PaNext] (port_new (iw_new 190 191)) history_new = Some (p, h)"
    and "raised h = [RoleToPrinter SELF_ID]"
    using d q by (simp add: port_poll_def port_with_role_def port_history_def port_raised_def history_new_def port_new_def iw_role_def)
  then show ?thesis using printer_events_after_bytes [OF ph] by auto
qed

section \<open>A pull on credit that is already spent\<close>

lemma pap_settle_loop:
  "settle_loop pap_role p =
     Some ((port_absorb (pap_queued (port_role p)) p)\<lparr>port_role := (port_role p)\<lparr>ps_events := []\<rparr>\<rparr>)"
proof (induction "ps_events (port_role p)" arbitrary: p)
  case Nil
  then have "(port_role p)\<lparr>ps_events := []\<rparr> = port_role p" by (cases "port_role p") simp
  with Nil show ?case
    by (subst settle_loop.simps) (simp add: pap_role_def pap_poll_event_def pap_queued_def port_absorb_nil)
next
  case (Cons ev evs)
  let ?s = "(port_role p)\<lparr>ps_events := evs\<rparr>"
  let ?p = "port_note (pap_role_event ev) (p\<lparr>port_role := ?s\<rparr>)"
  have r: "port_role ?p = ?s" by (simp add: port_note_def split: RoleEvent.split)
  have e: "role_poll_event pap_role (port_role p) = (Some (pap_role_event ev), ?s)"
    by (simp add: pap_role_def pap_poll_event_def Cons.hyps(2) [symmetric])
  from Cons.hyps(1) [of ?p] r have
    "settle_loop pap_role ?p = Some ((port_absorb (map pap_role_event evs) ?p)\<lparr>port_role := (port_role p)\<lparr>ps_events := []\<rparr>\<rparr>)"
    by (simp add: pap_queued_def)
  then show ?case
    by (subst settle_loop.simps)
      (simp add: e port_absorb_note port_absorb_role pap_queued_def Cons.hyps(2) [symmetric])
qed

lemma atp_single_response:
  assumes "atp_wf h" and "atp_function h = AtpResponse" and "atp_bitmap_seq h = 0" and "atp_eom h"
    and "map_of (ae_pending e) (atp_tid h) = Some pr" and "pr_received pr = []" and "pr_user_bytes pr = None"
  shows "atp_handle_datagram src (atp_frame h data) now e =
    e\<lparr>ae_pending := om_remove (atp_tid h) (ae_pending e),
      ae_outbox := ae_outbox e @ [(src, atp_release_packet (atp_tid h))],
      ae_events := ae_events e @ [EvResponse (atp_tid h) (atp_user_bytes h) data]\<rparr>"
  using assms
  by (simp add: atp_handle_frame atp_on_response_def pr_add_def pr_complete_def Let_def atp_assemble_def)

definition data_reply :: "AtpPacket \<Rightarrow> bytes \<Rightarrow> u16 \<Rightarrow> bool" where
  "data_reply h data tid \<longleftrightarrow> atp_wf h \<and> atp_function h = AtpResponse \<and> atp_bitmap_seq h = 0 \<and> atp_eom h \<and> atp_tid h = tid
     \<and> (\<exists>q. pap_parse_from_atp (atp_user_bytes h) data = Inr q \<and> pap_function q = PapData \<and> \<not> pap_eof q)"

definition fresh_pull :: "u16 \<Rightarrow> AtpEndpoint \<Rightarrow> bool" where
  "fresh_pull tid e \<longleftrightarrow> (\<exists>pr. map_of (ae_pending e) tid = Some pr \<and> pr_received pr = [] \<and> pr_user_bytes pr = None)"

text \<open>The server after the reply, before it pulls again.\<close>

definition after_reply :: "PapSession \<Rightarrow> AtpPacket \<Rightarrow> bytes \<Rightarrow> ServiceAddress \<Rightarrow> micros \<Rightarrow> PapServer \<Rightarrow> PapServer" where
  "after_reply ss h data src now s = s\<lparr>
     ps_conn_ep := (ps_conn_ep s)\<lparr>ae_pending := om_remove (atp_tid h) (ae_pending (ps_conn_ep s)),
       ae_outbox := ae_outbox (ps_conn_ep s) @ [(src, atp_release_packet (atp_tid h))]\<rparr>,
     ps_events := ps_events s @ [ToPrinter data],
     ps_session := Some (ss\<lparr>outstanding_pull := None, last_activity := now, last_client_write := now,
       pull_seq := next_pap_seq (pull_seq ss), job_bytes := job_bytes ss + length data\<rparr>)\<rparr>"

lemma reply_step:
  assumes "pap_settled s" and "ps_session s = Some ss" and "outstanding_pull ss = Some tid" and "fresh_pull tid (ps_conn_ep s)"
    and "ae_local_socket (ps_listener s) \<noteq> ae_local_socket (ps_conn_ep s)" and "data_reply h data tid" and "data \<noteq> []"
  shows "pap_handle_datagram (ae_local_socket (ps_conn_ep s)) src (atp_frame h data) now s = maybe_pull now (after_reply ss h data src now s)"
proof -
  from assms(6) obtain q where h: "atp_wf h" "atp_function h = AtpResponse" "atp_bitmap_seq h = 0" "atp_eom h" "atp_tid h = tid"
    and q: "pap_parse_from_atp (atp_user_bytes h) data = Inr q" "pap_function q = PapData" "\<not> pap_eof q" by (auto simp: data_reply_def)
  from q(1) have qd: "pap_data q = data" by (rule open_request_data)
  from assms(4) obtain pr where pr: "map_of (ae_pending (ps_conn_ep s)) (atp_tid h) = Some pr" "pr_received pr = []" "pr_user_bytes pr = None"
    using h(5) by (auto simp: fresh_pull_def)
  let ?e = "(ps_conn_ep s)\<lparr>ae_pending := om_remove (atp_tid h) (ae_pending (ps_conn_ep s)),
       ae_outbox := ae_outbox (ps_conn_ep s) @ [(src, atp_release_packet (atp_tid h))]\<rparr>"
  from assms(1) have ev: "ae_events (ps_listener s) = []" "ae_events (ps_conn_ep s) = []"
    by (simp_all add: pap_settled_def endpoints_drained_def)
  let ?e1 = "?e\<lparr>ae_events := [EvResponse tid (atp_user_bytes h) data]\<rparr>"
  have d: "atp_handle_datagram src (atp_frame h data) now (ps_conn_ep s) = ?e1"
    unfolding atp_single_response [OF h(1-4) pr] using ev h(5) by simp
  have p: "atp_poll_event ?e1 = (Some (EvResponse tid (atp_user_bytes h) data), ?e)"
    using ev by (cases "ps_conn_ep s") (simp add: atp_poll_event_def)
  have hc: "handle_conn_event (EvResponse tid (atp_user_bytes h) data) now (s\<lparr>ps_conn_ep := ?e\<rparr>) = after_reply ss h data src now s"
    using assms(2,3,7) q qd
    by (simp add: handle_conn_event_def handle_pull_reply_def Let_def after_reply_def set_session_def pap_event_def)
  have "drain_conn now (s\<lparr>ps_conn_ep := ?e1\<rparr>) = drain_conn now (handle_conn_event (EvResponse tid (atp_user_bytes h) data) now (s\<lparr>ps_conn_ep := ?e\<rparr>))"
    by (subst drain_conn.simps) (simp add: p)
  also have "\<dots> = after_reply ss h data src now s"
    unfolding hc using ev by (intro drain_settled) (simp add: after_reply_def)
  finally have dc: "drain_conn now (s\<lparr>ps_conn_ep := ?e1\<rparr>) = after_reply ss h data src now s" .
  have dl: "drain_listener now (s\<lparr>ps_conn_ep := ?e1\<rparr>) = s\<lparr>ps_conn_ep := ?e1\<rparr>" using ev by (simp add: drain_settled)
  have "pending_read ss \<noteq> None \<longrightarrow> stdout ss = [] \<and> \<not> eof_queued ss" using assms(1,2) by (simp add: pap_settled_def reads_served_def)
  then have "answer_read now (after_reply ss h data src now s) = after_reply ss h data src now s"
    by (auto simp: answer_read_def after_reply_def READ_IDLE_ANSWER_def split: option.splits)
  then show ?thesis using assms(5) by (simp add: pap_handle_datagram_def pap_drain_def d dl dc)
qed

lemma maybe_pull_sends:
  assumes "card (pending_tids s) < 65535" and "ps_session s = Some ss" and "outstanding_pull ss = None" and "PULL_CAPACITY \<le> sink_credit s"
  shows "\<exists>s' tid pr. maybe_pull now s = Some s' \<and> ps_session s' = Some (ss\<lparr>outstanding_pull := Some tid\<rparr>)
    \<and> map_of (ae_pending (ps_conn_ep s')) tid = Some pr \<and> pr_requested_bitmap pr = 0xFF
    \<and> ps_events s' = ps_events s \<and> sink_credit s' = sink_credit s"
proof -
  obtain ub d where p: "pap_to_atp_parts (pap_packet (ss_conn_id ss) SendData (pull_seq ss) False []) = (ub, d)"
    by (meson surj_pair)
  from atp_request_fits [OF assms(1) [unfolded pending_tids_def], of "ss_client ss" ub d "0xFF" now]
  obtain tid e' where r: "atp_request (ss_client ss) ub d 0xFF now (ps_conn_ep s) = Some (tid, e')" by blast
  then obtain pr where pr: "map_of (ae_pending e') tid = Some pr" "pr_requested_bitmap pr = 0xFF"
    by (auto simp: atp_request_def Let_def map_of_om_insert split: option.splits prod.splits)
  have "maybe_pull now s = Some (s\<lparr>ps_conn_ep := e', ps_session := Some (ss\<lparr>outstanding_pull := Some tid\<rparr>)\<rparr>)"
    using assms(2-4) p r by (simp add: maybe_pull_def)
  with pr show ?thesis
    by (intro exI [of _ "s\<lparr>ps_conn_ep := e', ps_session := Some (ss\<lparr>outstanding_pull := Some tid\<rparr>)\<rparr>"] exI [of _ tid] exI [of _ pr]) simp
qed

text \<open>
Claim C18: A pull can outrun the window: let the port's queue be empty, the whole window have been given
  as credit and a pull be in flight. When its reply brings any bytes at all, the server has the next pull for a full
  quantum in flight before the port can take the new bytes off its credit, so that what is
  queued and what that pull may bring exceed the window.\<close>

theorem pap_pull_outruns_window:
  assumes "pap_settled (port_role p)" and "ps_session (port_role p) = Some ss" and "outstanding_pull ss = Some tid"
    and "fresh_pull tid (ps_conn_ep (port_role p))" and "card (pending_tids (port_role p)) < 65535"
    and "ae_local_socket (ps_listener (port_role p)) \<noteq> ae_local_socket (ps_conn_ep (port_role p))"
    and "ps_events (port_role p) = []" and "sink_credit (port_role p) = WINDOW" and "to_printer p = []" and "writing p = 0"
    and "data_reply h data tid" and "data \<noteq> []"
  shows "\<exists>p' ss' tid' pr. port_handle_datagram pap_role (ae_local_socket (ps_conn_ep (port_role p))) src (atp_frame h data) now p = Some p'
    \<and> to_printer p' = data \<and> ps_session (port_role p') = Some ss' \<and> outstanding_pull ss' = Some tid'
    \<and> map_of (ae_pending (ps_conn_ep (port_role p'))) tid' = Some pr
    \<and> sink_credit (port_role p') < PULL_CAPACITY
    \<and> WINDOW < length (to_printer p') + writing p' + atp_popcount (pr_requested_bitmap pr) * PAP_MAX_DATA_PER_PACKET"
proof -
  let ?s = "port_role p" and ?a = "after_reply ss h data src now (port_role p)"
  let ?ss = "ss\<lparr>outstanding_pull := None, last_activity := now, last_client_write := now,
       pull_seq := next_pap_seq (pull_seq ss), job_bytes := job_bytes ss + length data\<rparr>"
  have "pending_tids ?a \<subseteq> pending_tids ?s" by (auto simp: after_reply_def pending_tids_def om_remove_def)
  then have "card (pending_tids ?a) \<le> card (pending_tids ?s)" by (intro card_mono) (simp_all add: pending_tids_def)
  with assms(5) have c: "card (pending_tids ?a) < 65535" by simp
  have a: "ps_session ?a = Some ?ss" "outstanding_pull ?ss = None" "PULL_CAPACITY \<le> sink_credit ?a" "ps_events ?a = [ToPrinter data]"
    using assms(7,8) by (simp_all add: after_reply_def WINDOW_def)
  from maybe_pull_sends [OF c a(1-3), of now] obtain s' tid' pr where
    m: "maybe_pull now ?a = Some s'" "ps_session s' = Some (?ss\<lparr>outstanding_pull := Some tid'\<rparr>)"
      "map_of (ae_pending (ps_conn_ep s')) tid' = Some pr" "pr_requested_bitmap pr = 0xFF" "ps_events s' = [ToPrinter data]"
    using a(4) by metis
  have st: "pap_handle_datagram (ae_local_socket (ps_conn_ep ?s)) src (atp_frame h data) now ?s = Some s'"
    using reply_step [OF assms(1-4,6,11,12), of src now] m(1) by simp
  let ?p1 = "(port_absorb [RoleToPrinter data] (p\<lparr>port_role := s'\<rparr>))\<lparr>port_role := s'\<lparr>ps_events := []\<rparr>\<rparr>"
  have l: "settle_loop pap_role (p\<lparr>port_role := s'\<rparr>) = Some ?p1"
    by (subst pap_settle_loop) (simp add: pap_queued_def m(5) pap_role_event_def)
  have tp: "to_printer ?p1 = data" "writing ?p1 = 0" using assms(9,10) by (simp_all add: port_absorb_def)
  let ?k = "WINDOW - length data"
  have "maybe_pull now (s'\<lparr>ps_events := [], sink_credit := ?k\<rparr>) = Some (s'\<lparr>ps_events := [], sink_credit := ?k\<rparr>)"
    by (rule maybe_pull_idle) (simp add: pulls_issued_def m(2))
  then have cr: "role_set_credit pap_role ?k now (s'\<lparr>ps_events := []\<rparr>) = Some (s'\<lparr>ps_events := [], sink_credit := ?k\<rparr>)"
    by (simp add: pap_role_def set_sink_credit_def)
  let ?p' = "?p1\<lparr>port_role := s'\<lparr>ps_events := [], sink_credit := ?k\<rparr>\<rparr>"
  have "port_handle_datagram pap_role (ae_local_socket (ps_conn_ep ?s)) src (atp_frame h data) now p = Some ?p'"
    using st l cr tp by (simp add: port_handle_datagram_def port_with_role_def port_settle_def Let_def pap_role_def)
  moreover have "to_printer ?p' = data" using tp by simp
  moreover have "0 < length data" using assms(12) by simp
  then have "?k < PULL_CAPACITY" by (simp add: WINDOW_def PULL_CAPACITY_def FLOW_QUANTUM_def PAP_MAX_DATA_PER_PACKET_def)
  moreover have "atp_popcount 0xFF * PAP_MAX_DATA_PER_PACKET = WINDOW"
    by (simp add: WINDOW_def PULL_CAPACITY_def FLOW_QUANTUM_def PAP_MAX_DATA_PER_PACKET_def atp_popcount_def upt_rec)
  ultimately show ?thesis using m(2-4) assms(12)
    by (intro exI [of _ ?p'] exI [of _ "?ss\<lparr>outstanding_pull := Some tid'\<rparr>"] exI [of _ tid'] exI [of _ pr]) simp
qed

definition example_pulling :: PapServer where
  "example_pulling = (pap_new 190 191)\<lparr>sink_credit := WINDOW,
     ps_conn_ep := (atp_new 191)\<lparr>ae_pending := [(5, \<lparr>pr_dest = example_client, pr_raw_packet = [], pr_requested_bitmap = 0xFF,
       pr_received = [], pr_user_bytes = None, pr_eom_seq = None, pr_retries = 0, pr_retry_at = 9\<rparr>)]\<rparr>,
     ps_session := Some ((session_new 70 example_client 0)\<lparr>outstanding_pull := Some 5\<rparr>)\<rparr>"

definition example_data :: AtpPacket where
  "example_data = \<lparr>atp_function = AtpResponse, atp_xo = False, atp_eom = True, atp_sts = False,
     atp_bitmap_seq = 0, atp_tid = 5, atp_user_bytes = [70, 4, 0, 0]\<rparr>"

lemma pap_pull_outruns_window_witness:
  "\<exists>p' ss' tid' pr. port_handle_datagram pap_role 191 example_client (atp_frame example_data [1, 2]) 3 (port_new example_pulling) = Some p'
    \<and> to_printer p' = [1, 2] \<and> ps_session (port_role p') = Some ss' \<and> outstanding_pull ss' = Some tid'
    \<and> map_of (ae_pending (ps_conn_ep (port_role p'))) tid' = Some pr
    \<and> WINDOW < length (to_printer p') + writing p' + atp_popcount (pr_requested_bitmap pr) * PAP_MAX_DATA_PER_PACKET"
proof -
  let ?p = "port_new example_pulling" and ?ss = "(session_new 70 example_client 0)\<lparr>outstanding_pull := Some 5\<rparr>"
  have p: "port_role ?p = example_pulling" "to_printer ?p = []" "writing ?p = 0" by (simp_all add: port_new_def)
  have s: "pap_settled (port_role ?p)"
    unfolding p by (simp add: example_pulling_def pap_settled_def pap_wf_state_def reads_served_def pulls_issued_def endpoints_drained_def
        pap_new_def atp_new_def session_ok_def session_new_def read_chain_def)
  have f: "fresh_pull 5 (ps_conn_ep (port_role ?p))" unfolding p by (simp add: example_pulling_def fresh_pull_def)
  have c: "card (pending_tids (port_role ?p)) < 65535" unfolding p by (simp add: example_pulling_def pending_tids_def)
  have x: "ps_session (port_role ?p) = Some ?ss" "outstanding_pull ?ss = Some 5" "ps_events (port_role ?p) = []"
    "sink_credit (port_role ?p) = WINDOW" "ae_local_socket (ps_listener (port_role ?p)) = 190" "ae_local_socket (ps_conn_ep (port_role ?p)) = 191"
    unfolding p by (simp_all add: example_pulling_def pap_new_def atp_new_def)
  have d: "data_reply example_data [1, 2] 5"
    by (simp add: data_reply_def example_data_def atp_wf_def pap_parse_from_atp_def pap_try_from_def)
  from pap_pull_outruns_window [OF s x(1,2) f c _ x(3,4) p(2,3) d, of example_client 3] show ?thesis
    unfolding x(5,6) by (simp, blast)
qed

end
