(* ===== verification/Pkt_Routing.thy ===== *)
theory Pkt_Routing
  imports Pkt_Nbp
begin

text \<open>
  The packets nodes exchange with routers: RTMP data and requests (src/tailtalk-packets/src/rtmp.rs)
  and ZIP GetNetInfo (zip.rs), with the capacities of limits.rs. The repository parses RTMP data
  but never builds it, so the parser is checked against the wire format its comments give.
\<close>

section \<open>RTMP\<close>

definition DDP_MAX_PAYLOAD :: nat where "DDP_MAX_PAYLOAD = 586"
definition MAX_RTMP_TUPLES :: nat where "MAX_RTMP_TUPLES = (DDP_MAX_PAYLOAD - 4) div 3"

datatype RtmpError = RtmpTooShort nat nat | UnsupportedIdLength u8 | RtmpUnknownFunction u8 | RtmpTooManyTuples

datatype RtmpFunction = RtmpFnRequest | RouteDataSplitHorizon | RouteDataFull

definition rtmp_function_try_from :: "u8 \<Rightarrow> RtmpError + RtmpFunction" where
  "rtmp_function_try_from v =
     (if v = 1 then Inr RtmpFnRequest else if v = 2 then Inr RouteDataSplitHorizon
      else if v = 3 then Inr RouteDataFull else Inl (RtmpUnknownFunction v))"

datatype RtmpTuple = NonExtended u16 u8 | Extended u16 u8 u16

record RtmpDataPacket =
  router_network :: u16
  router_node_id :: u8
  rtmp_tuples :: "RtmpTuple list"

text \<open>The \<open>while !rest.is_empty()\<close> loop; the match arms in their order.\<close>

function rtmp_read_tuples :: "bytes \<Rightarrow> RtmpTuple list \<Rightarrow> RtmpError + RtmpTuple list" where
  "rtmp_read_tuples rest acc =
     (if rest = [] then Inr acc
      else if 3 \<le> length rest \<and> rest ! 2 \<le> 0x7F
      then (if length acc \<ge> MAX_RTMP_TUPLES then Inl RtmpTooManyTuples
            else rtmp_read_tuples (drop 3 rest) (acc @ [NonExtended (be16 (rest ! 0) (rest ! 1)) (rest ! 2)]))
      else if 6 \<le> length rest
      then (if length acc \<ge> MAX_RTMP_TUPLES then Inl RtmpTooManyTuples
            else rtmp_read_tuples (drop 6 rest)
              (acc @ [Extended (be16 (rest ! 0) (rest ! 1)) (rest ! 2 AND 0x7F) (be16 (rest ! 3) (rest ! 4))]))
      else Inl (RtmpTooShort (if 3 \<le> length rest \<and> rest ! 2 AND 0x80 \<noteq> 0 then 6 else 3) (length rest)))"
  by pat_completeness auto
termination by (relation "measure (length \<circ> fst)") auto

declare rtmp_read_tuples.simps [simp del]

definition rtmp_parse :: "bytes \<Rightarrow> RtmpError + RtmpDataPacket" where
  "rtmp_parse buf =
     (if length buf < 4 then Inl (RtmpTooShort 4 (length buf))
      else if buf ! 2 \<noteq> 8 then Inl (UnsupportedIdLength (buf ! 2))
      else
        (let rest = drop 4 buf;
             rest' = (if take 3 rest = [0x00, 0x00, 0x82] then drop 3 rest else rest)
         in case rtmp_read_tuples rest' [] of
              Inl e \<Rightarrow> Inl e
            | Inr tuples \<Rightarrow> Inr \<lparr>router_network = be16 (buf ! 0) (buf ! 1), router_node_id = buf ! 3,
                                rtmp_tuples = tuples\<rparr>))"

definition rtmp_request_parse :: "bytes \<Rightarrow> RtmpError + RtmpFunction" where
  "rtmp_request_parse buf =
     (if buf = [] then Inl (RtmpTooShort 1 0) else rtmp_function_try_from (buf ! 0))"

text \<open>The wire format: a tuple of either kind, the sender information, the version indicator.\<close>

definition rtmp_tuple_bytes :: "RtmpTuple \<Rightarrow> bytes" where
  "rtmp_tuple_bytes t =
     (case t of
        NonExtended n d \<Rightarrow> u16_bytes n @ [d]
      | Extended s d e \<Rightarrow> u16_bytes s @ [d OR 0x80] @ u16_bytes e @ [0x82])"

definition rtmp_tuple_wf :: "RtmpTuple \<Rightarrow> bool" where
  "rtmp_tuple_wf t = (case t of NonExtended _ d \<Rightarrow> d \<le> 0x7F | Extended _ d _ \<Rightarrow> d \<le> 0x7F)"

definition rtmp_sender :: "RtmpDataPacket \<Rightarrow> bytes" where
  "rtmp_sender p = u16_bytes (router_network p) @ [8, router_node_id p]"

lemma dist_7bit:
  assumes "d \<le> (0x7F :: u8)"
  shows "\<not> d OR 0x80 \<le> 0x7F" and "(d OR 0x80) AND 0x7F = d"
proof -
  have m: "(0x7F :: u8) = mask 7" by (simp add: mask_eq_exp_minus_1)
  have "unat d < 2 ^ 7" using assms by (simp add: word_le_nat_alt)
  then have d: "bit d i \<Longrightarrow> i < 7" for i by (rule bit_word_less)
  show "(d OR 0x80) AND 0x7F = d"
  proof (rule bit_word_eqI)
    fix n assume "n < LENGTH(8)"
    have "(0x80 :: u8) = push_bit 7 1" by simp
    then have "bit (0x80 :: u8) n \<longleftrightarrow> n = 7"
      using \<open>n < LENGTH(8)\<close> by (simp only: bit_push_bit_iff bit_1_iff) auto
    then show "bit ((d OR 0x80) AND 0x7F) n = bit d n"
      unfolding m using d [of n] by (simp only: bit_and_mask bit_or_iff) auto
  qed
  have "(0x80 :: u8) \<le> d OR 0x80" using le_word_or2 [of "0x80 :: u8" d] by (simp only: or.commute)
  then show "\<not> d OR 0x80 \<le> 0x7F" by (simp add: word_le_nat_alt)
qed

lemma rtmp_read_tuples_eq:
  assumes "\<forall>t\<in>set ts. rtmp_tuple_wf t" and "length acc + length ts \<le> MAX_RTMP_TUPLES"
  shows "rtmp_read_tuples (concat (map rtmp_tuple_bytes ts)) acc = Inr (acc @ ts)"
  using assms
proof (induction ts arbitrary: acc)
  case Nil
  then show ?case by (simp add: rtmp_read_tuples.simps)
next
  case (Cons t ts)
  then have cap: "\<not> length acc \<ge> MAX_RTMP_TUPLES" by simp
  have ih: "rtmp_read_tuples (concat (map rtmp_tuple_bytes ts)) (acc @ [t]) = Inr ((acc @ [t]) @ ts)"
    using Cons.prems by (intro Cons.IH) simp_all
  show ?case
  proof (cases t)
    case (NonExtended n d)
    with Cons.prems have "d \<le> 0x7F" by (simp add: rtmp_tuple_wf_def)
    with cap ih NonExtended show ?thesis
      by (subst rtmp_read_tuples.simps) (simp add: rtmp_tuple_bytes_def u16_bytes_def)
  next
    case (Extended s d e)
    with Cons.prems have "d \<le> 0x7F" by (simp add: rtmp_tuple_wf_def)
    note d = dist_7bit [OF this]
    with cap ih Extended show ?thesis
      by (subst rtmp_read_tuples.simps) (simp add: rtmp_tuple_bytes_def u16_bytes_def)
  qed
qed

section \<open>ZIP\<close>

definition MAX_ZONE_LENGTH :: nat where "MAX_ZONE_LENGTH = 32"
definition MAX_MULTICAST_LEN :: nat where "MAX_MULTICAST_LEN = 6"
definition ZIPOP_GNI :: u8 where "ZIPOP_GNI = 5"
definition ZIPOP_GNIREPLY :: u8 where "ZIPOP_GNIREPLY = 6"
definition ZIPOP_NOTIFY :: u8 where "ZIPOP_NOTIFY = 7"
definition ZIPGNI_INVALID :: u8 where "ZIPGNI_INVALID = 0x80"
definition ZIPGNI_USE_BROADCAST :: u8 where "ZIPGNI_USE_BROADCAST = 0x40"
definition ZIPGNI_ONE_ZONE :: u8 where "ZIPGNI_ONE_ZONE = 0x20"

datatype ZipError =
    ZipTooShort nat nat | UnexpectedOp u8 u8 | ZoneTooLong nat | ZipBufferTooSmall nat nat | MulticastTooLong nat

definition read_pbytes :: "bytes \<Rightarrow> nat \<Rightarrow> ZipError + bytes \<times> nat" where
  "read_pbytes buf offset =
     (if offset \<ge> length buf then Inl (ZipTooShort (offset + 1) (length buf))
      else let len = unat (buf ! offset); start = offset + 1; stop = start + len
        in if stop > length buf then Inl (ZipTooShort stop (length buf))
           else Inr (take len (drop start buf), 1 + len))"

definition read_pstring :: "bytes \<Rightarrow> nat \<Rightarrow> ZipError + bytes \<times> nat" where
  "read_pstring buf offset =
     (case read_pbytes buf offset of
        Inl e \<Rightarrow> Inl e
      | Inr (bs, consumed) \<Rightarrow>
          (case from_wire MAX_ZONE_LENGTH bs of
             None \<Rightarrow> Inl (ZoneTooLong (length bs))
           | Some name \<Rightarrow> Inr (name, consumed)))"

definition write_pbytes :: "bytes \<Rightarrow> nat \<Rightarrow> bytes \<Rightarrow> nat \<times> bytes" where
  "write_pbytes buf offset data = (1 + length data, put offset (len_u8 data # data) buf)"

record GetNetInfoRequest =
  gni_zone :: bytes

definition gni_parse :: "bytes \<Rightarrow> ZipError + GetNetInfoRequest" where
  "gni_parse buf =
     (if length buf < 7 then Inl (ZipTooShort 7 (length buf))
      else if buf ! 0 \<noteq> ZIPOP_GNI then Inl (UnexpectedOp ZIPOP_GNI (buf ! 0))
      else (case read_pstring buf 6 of Inl e \<Rightarrow> Inl e | Inr (zone, _) \<Rightarrow> Inr \<lparr>gni_zone = zone\<rparr>))"

definition gni_to_bytes :: "GetNetInfoRequest \<Rightarrow> bytes \<Rightarrow> ZipError + nat \<times> bytes" where
  "gni_to_bytes r buf =
     (let needed = 7 + length (gni_zone r)
      in if length buf < needed then Inl (ZipBufferTooSmall needed (length buf))
         else Inr (needed, snd (write_pbytes (put 0 (ZIPOP_GNI # replicate 5 0) buf) 6 (gni_zone r))))"

record GetNetInfoReply =
  gnr_flags :: u8
  range_start :: u16
  range_end :: u16
  gnr_zone :: bytes
  gnr_multicast :: bytes
  default_zone :: "bytes option"

definition zone_invalid :: "GetNetInfoReply \<Rightarrow> bool" where
  "zone_invalid r = (gnr_flags r AND ZIPGNI_INVALID \<noteq> 0)"

definition use_broadcast :: "GetNetInfoReply \<Rightarrow> bool" where
  "use_broadcast r = (gnr_flags r AND ZIPGNI_USE_BROADCAST \<noteq> 0)"

definition one_zone :: "GetNetInfoReply \<Rightarrow> bool" where
  "one_zone r = (gnr_flags r AND ZIPGNI_ONE_ZONE \<noteq> 0)"

definition gnr_parse :: "bytes \<Rightarrow> ZipError + GetNetInfoReply" where
  "gnr_parse buf =
     (if length buf < 7 then Inl (ZipTooShort 7 (length buf))
      else if buf ! 0 \<noteq> ZIPOP_GNIREPLY then Inl (UnexpectedOp ZIPOP_GNIREPLY (buf ! 0))
      else
        (case read_pstring buf 6 of
           Inl e \<Rightarrow> Inl e
         | Inr (zone, c1) \<Rightarrow>
             (case read_pbytes buf (6 + c1) of
                Inl e \<Rightarrow> Inl e
              | Inr (multicast, c2) \<Rightarrow>
                  (if length multicast > MAX_MULTICAST_LEN then Inl (MulticastTooLong (length multicast))
                   else
                     let offset = 6 + c1 + c2 in
                     (case (if offset < length buf
                            then (case read_pstring buf offset of
                                    Inl e \<Rightarrow> Inl e
                                  | Inr (z, _) \<Rightarrow> Inr (if z = [] then None else Some z))
                            else Inr None) of
                        Inl e \<Rightarrow> Inl e
                      | Inr dz \<Rightarrow>
                          Inr \<lparr>gnr_flags = buf ! 1, range_start = be16 (buf ! 2) (buf ! 3),
                               range_end = be16 (buf ! 4) (buf ! 5), gnr_zone = zone,
                               gnr_multicast = multicast, default_zone = dz\<rparr>)))))"

definition gnr_to_bytes :: "GetNetInfoReply \<Rightarrow> bytes \<Rightarrow> ZipError + nat \<times> bytes" where
  "gnr_to_bytes r buf =
     (let needed = 6 + (1 + length (gnr_zone r)) + (1 + length (gnr_multicast r))
            + (case default_zone r of None \<Rightarrow> 0 | Some z \<Rightarrow> 1 + length z)
      in if length buf < needed then Inl (ZipBufferTooSmall needed (length buf))
         else
           let b0 = put 0 ([ZIPOP_GNIREPLY, gnr_flags r] @ u16_bytes (range_start r) @ u16_bytes (range_end r)) buf;
               (n1, b1) = write_pbytes b0 6 (gnr_zone r);
               (n2, b2) = write_pbytes b1 (6 + n1) (gnr_multicast r)
           in case default_zone r of
                None \<Rightarrow> Inr (6 + n1 + n2, b2)
              | Some z \<Rightarrow> (let (n3, b3) = write_pbytes b2 (6 + n1 + n2) z in Inr (6 + n1 + n2 + n3, b3)))"

definition notify_parse :: "bytes \<Rightarrow> ZipError + u8" where
  "notify_parse buf =
     (if length buf < 2 then Inl (ZipTooShort 2 (length buf))
      else if buf ! 0 \<noteq> ZIPOP_NOTIFY then Inl (UnexpectedOp ZIPOP_NOTIFY (buf ! 0))
      else Inr (buf ! 1))"

text \<open>A reply the parser can give: bounded names and address, no empty default zone.\<close>

definition gnr_wf :: "GetNetInfoReply \<Rightarrow> bool" where
  "gnr_wf r \<longleftrightarrow> length (gnr_zone r) \<le> MAX_ZONE_LENGTH \<and> length (gnr_multicast r) \<le> MAX_MULTICAST_LEN
     \<and> (case default_zone r of None \<Rightarrow> True | Some z \<Rightarrow> z \<noteq> [] \<and> length z \<le> MAX_ZONE_LENGTH)"

lemma read_pbytes_hit:
  assumes "length d < 256" and "offset = length pre"
  shows "read_pbytes (pre @ (len_u8 d # d) @ rest) offset = Inr (d, 1 + length d)"
  using assms by (simp add: read_pbytes_def unat_len_u8 Let_def nth_append)

lemma read_pstring_hit:
  assumes "length d \<le> MAX_ZONE_LENGTH" and "offset = length pre"
  shows "read_pstring (pre @ (len_u8 d # d) @ rest) offset = Inr (d, 1 + length d)"
  using assms read_pbytes_hit [of d offset pre rest]
  by (simp add: read_pstring_def from_wire_def MAX_ZONE_LENGTH_def)

definition pstring :: "bytes \<Rightarrow> bytes" where
  "pstring d = len_u8 d # d"

definition gnr_head :: "GetNetInfoReply \<Rightarrow> bytes" where
  "gnr_head r = [ZIPOP_GNIREPLY, gnr_flags r] @ u16_bytes (range_start r) @ u16_bytes (range_end r)"

definition gnr_bytes :: "GetNetInfoReply \<Rightarrow> bytes" where
  "gnr_bytes r = gnr_head r @ pstring (gnr_zone r) @ pstring (gnr_multicast r)
     @ (case default_zone r of None \<Rightarrow> [] | Some z \<Rightarrow> pstring z)"

lemma length_pstring [simp]: "length (pstring d) = 1 + length d"
  by (simp add: pstring_def)

lemma length_gnr_head [simp]: "length (gnr_head r) = 6"
  by (simp add: gnr_head_def)

lemma write_pbytes_front:
  "offset = length pre \<Longrightarrow> 1 + length d \<le> length rest \<Longrightarrow>
   write_pbytes (pre @ rest) offset d = (1 + length d, (pre @ pstring d) @ drop (1 + length d) rest)"
  by (simp add: write_pbytes_def put_def pstring_def)

lemma gnr_to_bytes_eq:
  assumes "length (gnr_bytes r) \<le> length buf"
  shows "gnr_to_bytes r buf = Inr (length (gnr_bytes r), gnr_bytes r @ drop (length (gnr_bytes r)) buf)"
proof -
  let ?h = "gnr_head r" and ?z = "gnr_zone r" and ?m = "gnr_multicast r"
  have len: "6 + (1 + length ?z) + (1 + length ?m) \<le> length buf"
    using assms by (simp add: gnr_bytes_def)
  have b0: "put 0 ([ZIPOP_GNIREPLY, gnr_flags r] @ u16_bytes (range_start r) @ u16_bytes (range_end r)) buf
      = ?h @ drop 6 buf"
    by (simp add: gnr_head_def put_0)
  have b1: "write_pbytes (?h @ drop 6 buf) 6 ?z = (1 + length ?z, (?h @ pstring ?z) @ drop (1 + length ?z + 6) buf)"
    using len write_pbytes_front [of 6 ?h ?z "drop 6 buf"] by simp
  have b2: "write_pbytes ((?h @ pstring ?z) @ drop (1 + length ?z + 6) buf) (6 + (1 + length ?z)) ?m
      = (1 + length ?m, (?h @ pstring ?z @ pstring ?m) @ drop (1 + length ?m + (1 + length ?z + 6)) buf)"
    using len write_pbytes_front [of "6 + (1 + length ?z)" "?h @ pstring ?z" ?m "drop (1 + length ?z + 6) buf"] by simp
  show ?thesis
  proof (cases "default_zone r")
    case None
    with len show ?thesis
      by (simp only: gnr_to_bytes_def Let_def b0 b1 b2 prod.case option.case) (simp add: gnr_bytes_def add_ac)
  next
    case (Some d)
    with assms have "\<not> length buf < 6 + (1 + length ?z) + (1 + length ?m) + (1 + length d)"
      by (simp add: gnr_bytes_def)
    moreover from this have b3: "write_pbytes ((?h @ pstring ?z @ pstring ?m) @ drop (1 + length ?m + (1 + length ?z + 6)) buf)
        (6 + (1 + length ?z) + (1 + length ?m)) d
      = (1 + length d, (?h @ pstring ?z @ pstring ?m @ pstring d) @ drop (1 + length d + (1 + length ?m + (1 + length ?z + 6))) buf)"
      using write_pbytes_front [of "6 + (1 + length ?z) + (1 + length ?m)" "?h @ pstring ?z @ pstring ?m" d
          "drop (1 + length ?m + (1 + length ?z + 6)) buf"] by simp
    ultimately show ?thesis
      using Some by (simp only: gnr_to_bytes_def Let_def b0 b1 b2 b3 prod.case option.case if_False)
        (simp add: gnr_bytes_def add_ac)
  qed
qed

lemma gnr_parse_eq:
  assumes "gnr_wf r"
  shows "gnr_parse (gnr_bytes r) = Inr r"
proof -
  let ?h = "gnr_head r" and ?z = "gnr_zone r" and ?m = "gnr_multicast r"
  let ?d = "case default_zone r of None \<Rightarrow> [] | Some z \<Rightarrow> pstring z"
  let ?b = "gnr_bytes r"
  have wf: "length ?z \<le> MAX_ZONE_LENGTH" "length ?m < 256" "\<not> length ?m > MAX_MULTICAST_LEN"
    using assms by (simp_all add: gnr_wf_def MAX_MULTICAST_LEN_def)
  have b: "?b = ?h @ (len_u8 ?z # ?z) @ (pstring ?m @ ?d)" "?b = (?h @ pstring ?z) @ (len_u8 ?m # ?m) @ ?d"
    "?b = (?h @ pstring ?z @ pstring ?m) @ ?d"
    by (simp_all add: gnr_bytes_def pstring_def)
  have f: "?b ! 0 = ZIPOP_GNIREPLY" "?b ! 1 = gnr_flags r" "be16 (?b ! 2) (?b ! 3) = range_start r"
    "be16 (?b ! 4) (?b ! 5) = range_end r"
    unfolding b(1) by (simp_all add: gnr_head_def u16_bytes_def)
  have l: "\<not> length ?b < 7" unfolding b(1) by simp
  have 1: "read_pstring ?b 6 = Inr (?z, 1 + length ?z)"
    unfolding b(1) using wf(1) by (intro read_pstring_hit) simp_all
  have 2: "read_pbytes ?b (6 + (1 + length ?z)) = Inr (?m, 1 + length ?m)"
    unfolding b(2) using wf(2) by (intro read_pbytes_hit) simp_all
  have 3: "(if 6 + (1 + length ?z) + (1 + length ?m) < length ?b
      then (case read_pstring ?b (6 + (1 + length ?z) + (1 + length ?m)) of
              Inl e \<Rightarrow> Inl e | Inr (z, _) \<Rightarrow> Inr (if z = [] then None else Some z))
      else Inr None) = Inr (default_zone r)"
  proof (cases "default_zone r")
    case None
    then show ?thesis unfolding b(3) by simp
  next
    case (Some d)
    with assms have d: "d \<noteq> []" "length d \<le> MAX_ZONE_LENGTH" by (simp_all add: gnr_wf_def)
    from Some have b': "?b = (?h @ pstring ?z @ pstring ?m) @ (len_u8 d # d) @ []"
      unfolding b(3) by (simp add: pstring_def)
    have "read_pstring ?b (6 + (1 + length ?z) + (1 + length ?m)) = Inr (d, 1 + length d)"
      unfolding b' using d(2) by (intro read_pstring_hit) simp_all
    moreover have "6 + (1 + length ?z) + (1 + length ?m) < length ?b" unfolding b' by simp
    ultimately show ?thesis using d(1) Some by simp
  qed
  have r: "\<lparr>gnr_flags = gnr_flags r, range_start = range_start r, range_end = range_end r, gnr_zone = ?z,
    gnr_multicast = ?m, default_zone = default_zone r\<rparr> = r" by (cases r) simp
  show ?thesis
    by (simp only: gnr_parse_def l f 1 2 3 sum.case prod.case if_False simp_thms Let_def wf(3) r)
qed

section \<open>Properties\<close>

text \<open>The RTMP parser reads back every routing table in the wire format: with the
  version indicator (non-extended networks) always, and without it whenever the first bytes are
  not the indicator themselves, up to the 194 tuples a datagram can carry.\<close>

theorem rtmp_parse_wire_format:
  assumes "\<forall>t\<in>set (rtmp_tuples p). rtmp_tuple_wf t" and "length (rtmp_tuples p) \<le> MAX_RTMP_TUPLES"
  shows "rtmp_parse (rtmp_sender p @ [0x00, 0x00, 0x82] @ concat (map rtmp_tuple_bytes (rtmp_tuples p))) = Inr p
    \<and> (take 3 (concat (map rtmp_tuple_bytes (rtmp_tuples p))) \<noteq> [0x00, 0x00, 0x82] \<longrightarrow>
        rtmp_parse (rtmp_sender p @ concat (map rtmp_tuple_bytes (rtmp_tuples p))) = Inr p)"
proof -
  have r: "rtmp_read_tuples (concat (map rtmp_tuple_bytes (rtmp_tuples p))) [] = Inr (rtmp_tuples p)"
    using rtmp_read_tuples_eq [of "rtmp_tuples p" "[]"] assms by simp
  show ?thesis
    by (cases p) (use r in \<open>auto simp: rtmp_parse_def rtmp_sender_def u16_bytes_def\<close>)
qed

theorem rtmp_parse_wire_format_witness:
  "rtmp_parse (rtmp_sender \<lparr>router_network = 5, router_node_id = 9, rtmp_tuples = [Extended 1 0 3, NonExtended 7 1]\<rparr>
     @ concat (map rtmp_tuple_bytes [Extended 1 0 3, NonExtended 7 1]))
   = Inr \<lparr>router_network = 5, router_node_id = 9, rtmp_tuples = [Extended 1 0 3, NonExtended 7 1]\<rparr>"
  using rtmp_parse_wire_format [of "\<lparr>router_network = 5, router_node_id = 9, rtmp_tuples = [Extended 1 0 3, NonExtended 7 1]\<rparr>"]
  by (simp add: rtmp_tuple_wf_def MAX_RTMP_TUPLES_def DDP_MAX_PAYLOAD_def rtmp_tuple_bytes_def u16_bytes_def hi8_def lo8_def)

text \<open>A ZIP GetNetInfo reply with bounded names round-trips: serialized into a buffer
  that can hold it, the bytes written parse back to the same flags, range, zone, multicast
  address and optional default zone; a buffer too small is refused.\<close>

theorem zip_reply_roundtrip:
  assumes "gnr_wf r"
  shows "case gnr_to_bytes r buf of
      Inl e \<Rightarrow> length buf < length (gnr_bytes r) \<and> e = ZipBufferTooSmall (length (gnr_bytes r)) (length buf)
    | Inr (n, out) \<Rightarrow> n = length (gnr_bytes r) \<and> length out = length buf \<and> drop n out = drop n buf
        \<and> gnr_parse (take n out) = Inr r"
proof (cases "length (gnr_bytes r) \<le> length buf")
  case True
  then show ?thesis using gnr_to_bytes_eq [OF True] gnr_parse_eq [OF assms] by simp
next
  case False
  have "length (gnr_bytes r) = 6 + (1 + length (gnr_zone r)) + (1 + length (gnr_multicast r))
      + (case default_zone r of None \<Rightarrow> 0 | Some z \<Rightarrow> 1 + length z)"
    by (simp add: gnr_bytes_def split: option.splits)
  with False show ?thesis by (simp add: gnr_to_bytes_def Let_def)
qed

theorem zip_reply_roundtrip_witness:
  "case gnr_to_bytes \<lparr>gnr_flags = 0x80, range_start = 1, range_end = 10, gnr_zone = [65], gnr_multicast = [],
      default_zone = Some [66, 67]\<rparr> (replicate 20 0) of
     Inl e \<Rightarrow> False
   | Inr (n, out) \<Rightarrow> gnr_parse (take n out) = Inr \<lparr>gnr_flags = 0x80, range_start = 1, range_end = 10,
      gnr_zone = [65], gnr_multicast = [], default_zone = Some [66, 67]\<rparr>"
  using zip_reply_roundtrip [of "\<lparr>gnr_flags = 0x80, range_start = 1, range_end = 10, gnr_zone = [65],
      gnr_multicast = [], default_zone = Some [66, 67]\<rparr>" "replicate 20 0"]
  by (auto simp: gnr_wf_def MAX_ZONE_LENGTH_def MAX_MULTICAST_LEN_def gnr_bytes_def split: sum.splits prod.splits)

end
