(* ===== verification/Core_Node.thy ===== *)
theory Core_Node
  imports Timed_Machine Pkt_Transport Pkt_Routing
begin

text \<open>
  The small pieces of tailtalk-core: the xorshift generator of lib.rs, link frames (link.rs),
  node address acquisition (addressing.rs), the echo responder (aep.rs) and the RTMP listener
  (rtmp.rs), all under src/tailtalk-core/src.
\<close>

section \<open>The generator\<close>

type_synonym Rand = u32

definition rand_new :: "u32 \<Rightarrow> Rand" where
  "rand_new seed = (if seed = 0 then 0x12345678 else seed)"

definition next_u32 :: "Rand \<Rightarrow> u32 \<times> Rand" where
  "next_u32 r =
     (let x = r;
          x = x XOR push_bit 13 x;
          x = x XOR drop_bit 17 x;
          x = x XOR push_bit 5 x
      in (x, x))"

definition in_range :: "Rand \<Rightarrow> u8 \<Rightarrow> u8 \<Rightarrow> u8 \<times> Rand" where
  "in_range r lo hi =
     (let span = ucast (hi - lo) + 1; (v, r') = next_u32 r
      in (lo + ucast (v mod span), r'))"

lemma xor_zero_iff: "x XOR y = 0 \<longleftrightarrow> x = y" for x y :: "'a::len word"
  by (auto simp: bit_eq_iff bit_simps)

lemma xor_push_zero:
  assumes "x XOR push_bit k x = (0 :: u32)" and "32 \<le> n * k"
  shows "x = 0"
proof -
  have e: "x = push_bit k x" using assms(1) by (simp only: xor_zero_iff)
  have "x = push_bit (m * k) x" for m
  proof (induction m)
    case (Suc m)
    have "push_bit (Suc m * k) x = push_bit k (push_bit (m * k) x)" by (simp add: push_bit_push_bit)
    also have "\<dots> = x" by (simp only: Suc [symmetric] e [symmetric])
    finally show ?case ..
  qed simp
  from this [of n] have "x = push_bit (n * k) x" .
  also have "\<dots> = 0" by (rule bit_word_eqI) (use assms(2) in \<open>simp add: bit_push_bit_iff\<close>)
  finally show ?thesis .
qed

lemma xor_drop_zero:
  assumes "x XOR drop_bit 17 x = (0 :: u32)"
  shows "x = 0"
proof -
  have e: "x = drop_bit 17 x" using assms by (simp only: xor_zero_iff)
  have b: "bit x n = bit (drop_bit 17 x) n" for n by (rule arg_cong [OF e])
  have "\<not> bit x n" for n
  proof
    assume "bit x n"
    then have "bit x (17 + n)" using b [of n] by (simp add: bit_drop_bit_eq)
    then have "bit x (17 + (17 + n))" using b [of "17 + n"] by (simp add: bit_drop_bit_eq)
    then show False using bit_u32D [of x "17 + (17 + n)"] by simp
  qed
  then show ?thesis by (intro bit_word_eqI) simp
qed

text \<open>The state never becomes zero, where it would stay.\<close>

lemma next_u32_nonzero:
  assumes "r \<noteq> 0"
  shows "snd (next_u32 r) \<noteq> 0"
proof -
  have p13: "x XOR push_bit 13 x \<noteq> 0" if "x \<noteq> (0 :: u32)" for x
    using that xor_push_zero [of x 13 3] by (rule contrapos_nn) simp_all
  have d17: "x XOR drop_bit 17 x \<noteq> 0" if "x \<noteq> (0 :: u32)" for x
    using that by (rule contrapos_nn) (rule xor_drop_zero)
  have p5: "x XOR push_bit 5 x \<noteq> 0" if "x \<noteq> (0 :: u32)" for x
    using that xor_push_zero [of x 5 7] by (rule contrapos_nn) simp_all
  show ?thesis
    unfolding next_u32_def Let_def snd_conv by (intro p5 d17 p13 assms)
qed

lemma rand_new_nonzero: "rand_new seed \<noteq> 0"
  by (simp add: rand_new_def)

lemma in_range_bounds:
  assumes "lo \<le> hi"
  shows "lo \<le> fst (in_range r lo hi) \<and> fst (in_range r lo hi) \<le> hi"
proof -
  let ?span = "ucast (hi - lo) + 1 :: u32"
  let ?v = "fst (next_u32 r) mod ?span"
  have d: "unat (hi - lo) = unat hi - unat lo" using assms by (simp add: unat_sub)
  have s: "unat ?span = unat hi - unat lo + 1"
    using unat_u8_less [of "hi - lo"] by (simp add: unat_word_ariths unsigned_ucast_eq take_bit_eq_mod d)
  then have "unat ?v < unat hi - unat lo + 1" by (simp add: unat_mod)
  then have v: "unat ?v \<le> unat hi - unat lo" by simp
  have h: "unat lo \<le> unat hi" "unat hi < 256" using assms unat_u8_less [of hi] by (simp_all add: word_le_nat_alt)
  with v have "unat (ucast ?v :: u8) = unat ?v" by (simp add: unsigned_ucast_eq take_bit_eq_mod)
  with v h have "unat (lo + ucast ?v) = unat lo + unat ?v" by (simp add: unat_word_ariths)
  moreover have "fst (in_range r lo hi) = lo + ucast ?v"
    by (simp add: in_range_def Let_def split_beta)
  ultimately show ?thesis using v h by (simp add: word_le_nat_alt)
qed

section \<open>Link frames\<close>

record OutFrame =
  of_dst :: u8
  of_src :: u8
  of_kind :: LlapType
  of_payload :: bytes

definition is_control :: "OutFrame \<Rightarrow> bool" where
  "is_control f = (of_kind f = Enquiry \<or> of_kind f = Acknowledge)"

definition out_to_bytes :: "OutFrame \<Rightarrow> bytes" where
  "out_to_bytes f = [of_dst f, of_src f, llap_to_u8 (of_kind f)] @ of_payload f"

section \<open>Address acquisition\<close>

datatype NodeClass = User | Server

definition class_range :: "NodeClass \<Rightarrow> u8 \<times> u8" where
  "class_range c = (case c of User \<Rightarrow> (1, 127) | Server \<Rightarrow> (128, 254))"

datatype AcquireEvent = SendEnq u8 | Claimed u8

record Acquisition =
  acq_rng :: Rand
  acq_class :: NodeClass
  probes_per_candidate :: nat
  probe_interval :: micros
  acq_candidate :: u8
  probes_sent :: nat
  next_action_at :: micros
  acq_done :: bool

definition DEFAULT_PROBES :: nat where "DEFAULT_PROBES = 8"
definition DEFAULT_INTERVAL_US :: micros where "DEFAULT_INTERVAL_US = 200"

definition acq_new :: "NodeClass \<Rightarrow> u32 \<Rightarrow> micros \<Rightarrow> Acquisition" where
  "acq_new c seed now =
     (let rng = rand_new seed; (lo, hi) = class_range c; (candidate, rng') = in_range rng lo hi
      in \<lparr>acq_rng = rng', acq_class = c, probes_per_candidate = DEFAULT_PROBES,
          probe_interval = DEFAULT_INTERVAL_US, acq_candidate = candidate, probes_sent = 0,
          next_action_at = now, acq_done = False\<rparr>)"

definition on_ack :: "u8 \<Rightarrow> micros \<Rightarrow> Acquisition \<Rightarrow> Acquisition" where
  "on_ack src_node now a =
     (if acq_done a \<or> src_node \<noteq> acq_candidate a then a
      else
        (let (lo, hi) = class_range (acq_class a);
             (n, rng') = in_range (acq_rng a) lo hi;
             next = (if n = acq_candidate a then (if n = hi then lo else n + 1) else n)
         in a\<lparr>acq_rng := rng', acq_candidate := next, probes_sent := 0, next_action_at := now\<rparr>))"

definition acq_next_deadline :: "Acquisition \<Rightarrow> micros option" where
  "acq_next_deadline a = (if acq_done a then None else Some (next_action_at a))"

definition acq_poll :: "micros \<Rightarrow> Acquisition \<Rightarrow> AcquireEvent option \<times> Acquisition" where
  "acq_poll now a =
     (if acq_done a \<or> now < next_action_at a then (None, a)
      else if probes_sent a < probes_per_candidate a
      then (Some (SendEnq (acq_candidate a)),
            a\<lparr>probes_sent := probes_sent a + 1, next_action_at := now + probe_interval a\<rparr>)
      else (Some (Claimed (acq_candidate a)), a\<lparr>acq_done := True\<rparr>))"

interpretation acq: timed_machine acq_next_deadline acq_poll None "\<lambda>_. True"
  by unfold_locales (simp add: acq_next_deadline_def acq_poll_def before_deadline_def split: if_splits)

text \<open>The inputs of a run, and its history: each input with the event it produced.\<close>

datatype AcqInput = AckFrom u8 micros | PollAt micros

fun acq_step :: "Acquisition \<Rightarrow> AcqInput \<Rightarrow> AcquireEvent option \<times> Acquisition" where
  "acq_step a (AckFrom src now) = (None, on_ack src now a)"
| "acq_step a (PollAt now) = acq_poll now a"

inductive acq_history :: "Acquisition \<Rightarrow> (AcqInput \<times> AcquireEvent option) list \<Rightarrow> Acquisition \<Rightarrow> bool"
  for s0 where
  start: "acq_history s0 [] s0"
| step: "acq_history s0 h s \<Longrightarrow> acq_step s i = (ev, s') \<Longrightarrow> acq_history s0 (h @ [(i, ev)]) s'"

inductive_cases acq_history_snocE: "acq_history s0 (h @ [x]) s"

definition emitted :: "(AcqInput \<times> AcquireEvent option) list \<Rightarrow> AcquireEvent list" where
  "emitted h = List.map_filter snd h"

definition emit_times :: "(AcqInput \<times> AcquireEvent option) list \<Rightarrow> micros list" where
  "emit_times h = List.map_filter (\<lambda>(i, ev). case (i, ev) of (PollAt t, Some _) \<Rightarrow> Some t | _ \<Rightarrow> None) h"

fun spaced :: "micros \<Rightarrow> micros list \<Rightarrow> bool" where
  "spaced d (s # t # ts) = (s + d \<le> t \<and> spaced d (t # ts))"
| "spaced d ts = True"

lemma spaced_snoc: "spaced d (ts @ [s, t]) \<longleftrightarrow> spaced d (ts @ [s]) \<and> s + d \<le> t"
proof (induction ts)
  case (Cons a ts)
  then show ?case by (cases ts) auto
qed simp

lemma emitted_snoc: "emitted (h @ [(i, ev)]) = emitted h @ (case ev of None \<Rightarrow> [] | Some e \<Rightarrow> [e])"
  by (simp add: emitted_def List.map_filter_def split: option.splits)

lemma emit_times_snoc:
  "emit_times (h @ [(PollAt t, Some e)]) = emit_times h @ [t]"
  "emit_times (h @ [(AckFrom n t, ev)]) = emit_times h"
  "emit_times (h @ [(i, None)]) = emit_times h"
  by (simp_all add: emit_times_def List.map_filter_def split: AcqInput.splits)

definition in_class :: "NodeClass \<Rightarrow> u8 \<Rightarrow> bool" where
  "in_class c n \<longleftrightarrow> fst (class_range c) \<le> n \<and> n \<le> snd (class_range c)"

lemma class_range_ordered: "fst (class_range c) \<le> snd (class_range c)"
  by (cases c) (simp_all add: class_range_def)

lemma in_range_class:
  "class_range c = (lo, hi) \<Longrightarrow> in_range r lo hi = (n, r') \<Longrightarrow> in_class c n"
  using in_range_bounds [of lo hi r] class_range_ordered [of c] by (simp add: in_class_def)

lemma class_succ: "in_class c n \<Longrightarrow> n \<noteq> snd (class_range c) \<Longrightarrow> in_class c (n + 1) \<and> n + 1 \<noteq> n"
  by (cases c) (auto simp: in_class_def class_range_def word_le_nat_alt unat_word_ariths unat_arith_simps
      dest: le_neq_implies_less split: if_splits)

lemma class_bounds_neq: "fst (class_range c) \<noteq> snd (class_range c)"
  by (cases c) (simp_all add: class_range_def)

text \<open>A defended candidate is replaced by another one of the same class.\<close>

lemma on_ack_new_candidate:
  assumes "\<not> acq_done a" and "in_class (acq_class a) (acq_candidate a)"
  shows "acq_candidate (on_ack (acq_candidate a) now a) \<noteq> acq_candidate a
    \<and> in_class (acq_class a) (acq_candidate (on_ack (acq_candidate a) now a))"
proof -
  obtain lo hi where r: "class_range (acq_class a) = (lo, hi)" by (cases "class_range (acq_class a)")
  obtain n r' where n: "in_range (acq_rng a) lo hi = (n, r')" by (cases "in_range (acq_rng a) lo hi")
  have c: "in_class (acq_class a) n" using in_range_class [OF r n] .
  have lo: "in_class (acq_class a) lo" using r class_range_ordered [of "acq_class a"] by (simp add: in_class_def)
  have "lo \<noteq> hi" using class_bounds_neq [of "acq_class a"] r by simp
  with c lo class_succ [OF c] r assms show ?thesis
    by (auto simp: on_ack_def n Let_def)
qed

text \<open>
  The invariant of a run not yet finished: since the candidate was chosen, exactly
  \<open>probes_sent\<close> probes went out for it, spaced by the interval, and no acknowledgement came from it.
\<close>

definition acq_inv :: "NodeClass \<Rightarrow> (AcqInput \<times> AcquireEvent option) list \<Rightarrow> Acquisition \<Rightarrow> bool" where
  "acq_inv c h a \<longleftrightarrow>
     acq_class a = c \<and> probes_per_candidate a = DEFAULT_PROBES \<and> probe_interval a = DEFAULT_INTERVAL_US
     \<and> in_class c (acq_candidate a) \<and> probes_sent a \<le> DEFAULT_PROBES
     \<and> (\<not> acq_done a \<longrightarrow> (\<exists>pre suf. h = pre @ suf
          \<and> emitted suf = replicate (probes_sent a) (SendEnq (acq_candidate a))
          \<and> (\<forall>now ev. (AckFrom (acq_candidate a) now, ev) \<notin> set suf)
          \<and> spaced DEFAULT_INTERVAL_US (emit_times suf)
          \<and> (emit_times suf \<noteq> [] \<longrightarrow> last (emit_times suf) + DEFAULT_INTERVAL_US \<le> next_action_at a)))"

lemma acq_inv_new: "acq_inv c [] (acq_new c seed now)"
proof -
  obtain lo hi where r: "class_range c = (lo, hi)" by (cases "class_range c")
  obtain n r' where n: "in_range (rand_new seed) lo hi = (n, r')" by (cases "in_range (rand_new seed) lo hi")
  show ?thesis
    using in_range_class [OF r n] by (simp add: acq_inv_def acq_new_def r n emitted_def emit_times_def List.map_filter_def)
qed

lemma emitted_nil [simp]: "emitted [] = []" "emit_times [] = []"
  by (simp_all add: emitted_def emit_times_def List.map_filter_def)

lemma acq_inv_ack:
  assumes "acq_inv c h a"
  shows "acq_inv c (h @ [(AckFrom src now, None)]) (on_ack src now a)"
proof (cases "acq_done a \<or> src \<noteq> acq_candidate a")
  case True
  then have same: "on_ack src now a = a" by (simp add: on_ack_def)
  show ?thesis
  proof (cases "acq_done a")
    case False
    with assms obtain pre suf where s: "h = pre @ suf"
      "emitted suf = replicate (probes_sent a) (SendEnq (acq_candidate a))"
      "\<forall>now ev. (AckFrom (acq_candidate a) now, ev) \<notin> set suf"
      "spaced DEFAULT_INTERVAL_US (emit_times suf)"
      "emit_times suf \<noteq> [] \<longrightarrow> last (emit_times suf) + DEFAULT_INTERVAL_US \<le> next_action_at a"
      unfolding acq_inv_def by auto
    have "h @ [(AckFrom src now, None)] = pre @ (suf @ [(AckFrom src now, None)])" using s(1) by simp
    moreover have "emitted (suf @ [(AckFrom src now, None)]) = emitted suf"
      "emit_times (suf @ [(AckFrom src now, None)]) = emit_times suf"
      by (simp_all add: emitted_snoc emit_times_snoc)
    moreover have "\<forall>t ev. (AckFrom (acq_candidate a) t, ev) \<notin> set (suf @ [(AckFrom src now, None)])"
      using s(3) True False by auto
    ultimately show ?thesis
      unfolding same using assms s unfolding acq_inv_def by metis
  qed (use assms same in \<open>simp add: acq_inv_def\<close>)
next
  case False
  then have src: "src = acq_candidate a" "\<not> acq_done a" by auto
  from assms have c: "in_class (acq_class a) (acq_candidate a)" "acq_class a = c" by (auto simp: acq_inv_def)
  have f: "acq_class (on_ack src now a) = acq_class a" "probes_sent (on_ack src now a) = 0"
    "probes_per_candidate (on_ack src now a) = probes_per_candidate a"
    "probe_interval (on_ack src now a) = probe_interval a"
    using src by (simp_all add: on_ack_def Let_def split: prod.splits)
  have "h @ [(AckFrom src now, None)] = (h @ [(AckFrom src now, None)]) @ []" by simp
  with on_ack_new_candidate [OF src(2) c(1), of now] f assms src c show ?thesis
    unfolding acq_inv_def by (metis emitted_nil empty_iff empty_set le0 replicate_0 spaced.simps(2))
qed

lemma acq_inv_poll:
  assumes inv: "acq_inv c h a" and poll: "acq_poll now a = (ev, a')"
  shows "acq_inv c (h @ [(PollAt now, ev)]) a'"
proof (cases "acq_done a")
  case True
  with assms show ?thesis by (auto simp: acq_inv_def acq_poll_def)
next
  case False
  with inv obtain pre suf where s: "h = pre @ suf"
    "emitted suf = replicate (probes_sent a) (SendEnq (acq_candidate a))"
    "\<forall>now ev. (AckFrom (acq_candidate a) now, ev) \<notin> set suf"
    "spaced DEFAULT_INTERVAL_US (emit_times suf)"
    "emit_times suf \<noteq> [] \<longrightarrow> last (emit_times suf) + DEFAULT_INTERVAL_US \<le> next_action_at a"
    unfolding acq_inv_def by auto
  have h: "h @ [(PollAt now, ev)] = pre @ (suf @ [(PollAt now, ev)])" using s(1) by simp
  have p: "probes_per_candidate a = DEFAULT_PROBES" "probe_interval a = DEFAULT_INTERVAL_US"
    using inv by (simp_all add: acq_inv_def)
  consider (early) "now < next_action_at a" "ev = None" "a' = a"
    | (probe) "next_action_at a \<le> now" "probes_sent a < DEFAULT_PROBES" "ev = Some (SendEnq (acq_candidate a))"
        "a' = a\<lparr>probes_sent := probes_sent a + 1, next_action_at := now + DEFAULT_INTERVAL_US\<rparr>"
    | (claim) "a' = a\<lparr>acq_done := True\<rparr>"
    using poll False p by (auto simp: acq_poll_def split: if_splits)
  then show ?thesis
  proof cases
    case early
    have "emitted (suf @ [(PollAt now, None)]) = emitted suf" "emit_times (suf @ [(PollAt now, None)]) = emit_times suf"
      "\<forall>t ev. (AckFrom (acq_candidate a) t, ev) \<notin> set (suf @ [(PollAt now, None)])"
      using s(3) by (auto simp: emitted_snoc emit_times_snoc)
    with inv s h early show ?thesis unfolding acq_inv_def by metis
  next
    case probe
    have 1: "emitted (suf @ [(PollAt now, ev)]) = replicate (probes_sent a + 1) (SendEnq (acq_candidate a))"
      using s(2) probe(3) by (simp add: emitted_snoc replicate_append_same)
    have 2: "emit_times (suf @ [(PollAt now, ev)]) = emit_times suf @ [now]"
      using probe(3) by (simp add: emit_times_snoc)
    have 3: "spaced DEFAULT_INTERVAL_US (emit_times suf @ [now])"
    proof (cases "emit_times suf = []")
      case False
      then have e: "emit_times suf = butlast (emit_times suf) @ [last (emit_times suf)]" by simp
      have "last (emit_times suf) + DEFAULT_INTERVAL_US \<le> now" using False s(5) probe(1) by simp
      then have "spaced DEFAULT_INTERVAL_US (butlast (emit_times suf) @ [last (emit_times suf), now])"
        using s(4) e spaced_snoc by metis
      then show ?thesis using e by (metis append.assoc append_Cons append_Nil)
    qed simp
    have 4: "\<forall>t ev'. (AckFrom (acq_candidate a) t, ev') \<notin> set (suf @ [(PollAt now, ev)])"
      using s(3) by auto
    have ex: "\<exists>pre' suf'. h @ [(PollAt now, ev)] = pre' @ suf'
          \<and> emitted suf' = replicate (probes_sent a') (SendEnq (acq_candidate a'))
          \<and> (\<forall>now ev. (AckFrom (acq_candidate a') now, ev) \<notin> set suf')
          \<and> spaced DEFAULT_INTERVAL_US (emit_times suf')
          \<and> (emit_times suf' \<noteq> [] \<longrightarrow> last (emit_times suf') + DEFAULT_INTERVAL_US \<le> next_action_at a')"
      using h 1 2 3 4 probe(4) by (intro exI [of _ pre] exI [of _ "suf @ [(PollAt now, ev)]"]) simp
    show ?thesis using inv probe(2,4) ex by (simp add: acq_inv_def)
  next
    case claim
    with inv show ?thesis by (simp add: acq_inv_def)
  qed
qed

lemma acq_inv_history: "acq_history (acq_new c seed t0) h a \<Longrightarrow> acq_inv c h a"
proof (induction rule: acq_history.induct)
  case start
  show ?case by (rule acq_inv_new)
next
  case (step h s i ev s')
  then show ?case
    by (cases i) (auto intro: acq_inv_ack acq_inv_poll)
qed

section \<open>Echo and RTMP\<close>

definition AEP_SOCKET :: u8 where "AEP_SOCKET = 4"

definition aep_respond :: "bytes \<Rightarrow> bytes option" where
  "aep_respond payload =
     (case aep_parse payload of
        Inl _ \<Rightarrow> None
      | Inr packet \<Rightarrow>
          (if aep_function packet \<noteq> AepRequest then None
           else Some (payload[0 := aep_function_u8 AepReply])))"

record RtmpObservation =
  obs_router :: AppleTalkAddress
  cable_network :: "u16 option"

definition rtmp_observe :: "bytes \<Rightarrow> u16 \<Rightarrow> u8 \<Rightarrow> RtmpObservation option" where
  "rtmp_observe payload src_network src_nod =
     (case rtmp_parse payload of
        Inl _ \<Rightarrow> None
      | Inr data \<Rightarrow>
          Some \<lparr>obs_router = \<lparr>network_number = (if src_network \<noteq> 0 then src_network else router_network data),
                              node_number = src_nod\<rparr>,
                cable_network = (if router_network data \<noteq> 0 then Some (router_network data) else None)\<rparr>)"

text \<open>An echo reply is the request with its function byte replaced; it is never echoed again.\<close>

lemma aep_respond_echo: "aep_respond (1 # data) = Some (2 # data)"
  by (simp add: aep_respond_def aep_parse_def aep_try_from_def aep_function_u8_def)

lemma aep_no_echo_loop: "aep_respond payload = Some reply \<Longrightarrow> aep_respond reply = None"
  by (cases payload)
    (auto simp: aep_respond_def aep_parse_def aep_function_u8_def aep_try_from_def split: sum.splits if_splits)

section \<open>Properties\<close>

text \<open>Claim C12. Address acquisition is safe: in every run, whatever the interleaving of polls and
  acknowledgements, an address is claimed only after eight probes for it in a row, at least
  200 microseconds apart and the last one at least 200 microseconds old, with no
  acknowledgement from that address since the first of them; and the address lies in the
  range of the node class.\<close>

theorem acquisition_claims_safely:
  assumes "acq_history (acq_new c seed t0) (h @ [(PollAt now, Some (Claimed n))]) a"
  shows "\<exists>pre suf. h = pre @ suf \<and> emitted suf = replicate 8 (SendEnq n)
    \<and> (\<forall>t ev. (AckFrom n t, ev) \<notin> set suf) \<and> spaced 200 (emit_times suf @ [now]) \<and> in_class c n"
proof -
  from assms obtain s where s: "acq_history (acq_new c seed t0) h s" "acq_poll now s = (Some (Claimed n), a)"
    by (auto elim: acq_history_snocE)
  note inv = acq_inv_history [OF s(1)]
  from s(2) have p: "\<not> acq_done s" "next_action_at s \<le> now" "n = acq_candidate s" "\<not> probes_sent s < probes_per_candidate s"
    by (auto simp: acq_poll_def split: if_splits)
  from inv p(1) obtain pre suf where "h = pre @ suf \<and> emitted suf = replicate (probes_sent s) (SendEnq (acq_candidate s))
    \<and> (\<forall>t ev. (AckFrom (acq_candidate s) t, ev) \<notin> set suf) \<and> spaced DEFAULT_INTERVAL_US (emit_times suf)
    \<and> (emit_times suf \<noteq> [] \<longrightarrow> last (emit_times suf) + DEFAULT_INTERVAL_US \<le> next_action_at s)"
    unfolding acq_inv_def by blast
  then have suf: "h = pre @ suf" "emitted suf = replicate (probes_sent s) (SendEnq n)"
    "\<forall>t ev. (AckFrom n t, ev) \<notin> set suf" "spaced DEFAULT_INTERVAL_US (emit_times suf)"
    "emit_times suf \<noteq> [] \<longrightarrow> last (emit_times suf) + DEFAULT_INTERVAL_US \<le> next_action_at s"
    unfolding p(3) by blast+
  have ps: "probes_sent s = 8" using inv p(4) by (simp add: acq_inv_def DEFAULT_PROBES_def)
  have "spaced 200 (emit_times suf @ [now])"
  proof (cases "emit_times suf = []")
    case False
    then have e: "emit_times suf = butlast (emit_times suf) @ [last (emit_times suf)]" by simp
    have "last (emit_times suf) + 200 \<le> now" using False suf(5) p(2) by (simp add: DEFAULT_INTERVAL_US_def)
    then have "spaced 200 (butlast (emit_times suf) @ [last (emit_times suf), now])"
      using suf(4) e spaced_snoc by (metis DEFAULT_INTERVAL_US_def)
    then show ?thesis using e by (metis append.assoc append_Cons append_Nil)
  qed simp
  with suf ps inv p(3) show ?thesis by (metis acq_inv_def)
qed

lemma acq_history_polls:
  "acq_history s0 h s \<Longrightarrow> acq_history s0 (h @ zip (map PollAt ts) (fst (acq.polls ts s))) (snd (acq.polls ts s))"
proof (induction ts arbitrary: h s)
  case (Cons t ts)
  obtain ev s1 where p: "acq_poll t s = (ev, s1)" by (cases "acq_poll t s")
  have "acq_history s0 (h @ [(PollAt t, ev)]) s1"
    using acq_history.step [OF Cons.prems, of "PollAt t"] p by simp
  from Cons.IH [OF this] p show ?case by (simp add: split_beta)
qed simp

theorem acquisition_claims_safely_witness:
  "\<exists>h n a. acq_history (acq_new User 1 0) (h @ [(PollAt 2000, Some (Claimed n))]) a
    \<and> (\<exists>pre suf. h = pre @ suf \<and> emitted suf = replicate 8 (SendEnq n) \<and> in_class User n)"
proof -
  let ?s = "acq_new User 1 0"
  let ?ts = "[0, 200, 400, 600, 800, 1000, 1200, 1400] :: micros list"
  let ?h = "[] @ zip (map PollAt ?ts) (fst (acq.polls ?ts ?s))"
  let ?a = "snd (acq.polls ?ts ?s)" and ?n = "acq_candidate ?s"
  have h: "acq_history ?s ?h ?a" by (rule acq_history_polls [OF acq_history.start])
  have s: "probes_sent ?s = 0" "next_action_at ?s = 0" "\<not> acq_done ?s" "probes_per_candidate ?s = 8" "probe_interval ?s = 200"
    by (simp_all add: acq_new_def Let_def DEFAULT_PROBES_def DEFAULT_INTERVAL_US_def split: prod.splits)
  have "acq_poll 2000 ?a = (Some (Claimed ?n), ?a\<lparr>acq_done := True\<rparr>)"
    using s by (simp add: acq_poll_def)
  then have hist: "acq_history ?s (?h @ [(PollAt 2000, Some (Claimed ?n))]) (?a\<lparr>acq_done := True\<rparr>)"
    using acq_history.step [OF h, of "PollAt 2000"] by simp
  from acquisition_claims_safely [OF hist] hist show ?thesis by blast
qed

end
