(* ===== verification/Core_Adsp.thy ===== *)
theory Core_Adsp
  imports Ordered_Map Timed_Machine Core_Node Pkt_Transport Pkt_Nbp
begin

text \<open>
  The ADSP endpoint of src/tailtalk-core/src/adsp.rs: connection handshake, sequenced data with
  end-of-message marks, window flow control, attentions and close, for all connections of one
  socket. Operations on one connection return the packets they queue; the endpoint operations
  put them in the outbox under the connection's remote address.
\<close>

section \<open>State\<close>

definition ADSP_MAX_DATA :: nat where "ADSP_MAX_DATA = 572"
definition DEFAULT_RECV_WINDOW :: u16 where "DEFAULT_RECV_WINDOW = 1024"
definition RETRANSMIT_TIMEOUT :: micros where "RETRANSMIT_TIMEOUT = 3000000"
definition ADSP_MAX_RETRIES :: nat where "ADSP_MAX_RETRIES = 5"
definition OPEN_RETRY_INTERVAL :: micros where "OPEN_RETRY_INTERVAL = 1000000"
definition MAX_OPEN_RETRIES :: nat where "MAX_OPEN_RETRIES = 5"
definition ATTN_RETRY_INTERVAL :: micros where "ATTN_RETRY_INTERVAL = 1000000"
definition MAX_ATTN_RETRIES :: nat where "MAX_ATTN_RETRIES = 5"

datatype AdspEvent =
    Opened u16 ServiceAddress bool "u16 option"
  | OpenFailed u16
  | AdspData u16 bytes bool
  | Attention u16 u16 bytes
  | AttentionAcked u16
  | AttentionFailed u16
  | AdspClosed u16

datatype AdspCallError = NoSuchConnection | AttentionInFlight

record PendingWrite =
  pw_data :: bytes
  pw_offset :: nat
  pw_eom :: bool

record AttnInFlight =
  ai_seq :: u32
  ai_packet :: bytes
  ai_last_tx :: micros
  ai_retries :: nat

record PendingOpen =
  po_remote :: ServiceAddress
  po_last_tx :: micros
  po_retries :: nat

record Connection =
  our_conn_id :: u16
  cn_remote :: ServiceAddress
  send_seq :: u32
  oldest_unacked_seq :: u32
  recv_seq :: u32
  send_window :: u16
  flight_buffer :: bytes
  pending_writes :: "PendingWrite list"
  cn_last_tx :: micros
  cn_retries :: nat
  attn_send_seq :: u32
  attn_recv_seq :: u32
  attn_in_flight :: "AttnInFlight option"
  writes_submitted :: nat
  writes_completed :: nat

record AdspEndpoint =
  ad_local_socket :: u8
  ad_listening :: bool
  ad_recv_window :: u16
  ad_connections :: "(u16, Connection) omap"
  ad_pending_opens :: "(u16, PendingOpen) omap"
  ad_rng :: Rand
  ad_outbox :: "(ServiceAddress \<times> bytes) list"
  ad_events :: "AdspEvent list"

definition connection_new :: "u16 \<Rightarrow> ServiceAddress \<Rightarrow> u16 \<Rightarrow> micros \<Rightarrow> Connection" where
  "connection_new conn_id remote peer_window now = \<lparr>our_conn_id = conn_id, cn_remote = remote, send_seq = 0,
     oldest_unacked_seq = 0, recv_seq = 0, send_window = peer_window, flight_buffer = [], pending_writes = [],
     cn_last_tx = now, cn_retries = 0, attn_send_seq = 0, attn_recv_seq = 0, attn_in_flight = None,
     writes_submitted = 0, writes_completed = 0\<rparr>"

definition adsp_new :: "u8 \<Rightarrow> u32 \<Rightarrow> AdspEndpoint" where
  "adsp_new local_socket seed = \<lparr>ad_local_socket = local_socket, ad_listening = False,
     ad_recv_window = DEFAULT_RECV_WINDOW, ad_connections = [], ad_pending_opens = [],
     ad_rng = rand_new seed, ad_outbox = [], ad_events = []\<rparr>"

definition remote_of :: "u16 \<Rightarrow> AdspEndpoint \<Rightarrow> ServiceAddress option" where
  "remote_of conn e = map_option cn_remote (map_of (ad_connections e) conn)"

definition set_listening :: "bool \<Rightarrow> AdspEndpoint \<Rightarrow> AdspEndpoint" where
  "set_listening on e = e\<lparr>ad_listening := on\<rparr>"

section \<open>Packets\<close>

text \<open>A header into a zeroed buffer of the right size, followed by the payload bytes.\<close>

definition adsp_frame :: "AdspPacket \<Rightarrow> bytes \<Rightarrow> bytes" where
  "adsp_frame p payload =
     (case adsp_to_bytes p (replicate (ADSP_HEADER_LEN + length payload) 0) of
        Inl _ \<Rightarrow> []
      | Inr (_, buf) \<Rightarrow> put ADSP_HEADER_LEN payload buf)"

definition open_params :: "u16 \<Rightarrow> bytes" where
  "open_params dest_conn_id = u16_bytes 0x0100 @ u16_bytes dest_conn_id @ [0, 0, 0, 0]"

definition open_packet :: "AdspDescriptor \<Rightarrow> u16 \<Rightarrow> u16 \<Rightarrow> u16 \<Rightarrow> bytes" where
  "open_packet descriptor conn_id window dest_conn_id =
     adsp_frame \<lparr>adsp_descriptor = descriptor, adsp_connection_id = conn_id, adsp_first_byte_seq = 0,
       adsp_next_recv_seq = 0, adsp_recv_window = window, adsp_flags = 0\<rparr> (open_params dest_conn_id)"

definition stream_packet :: "AdspDescriptor \<Rightarrow> u8 \<Rightarrow> u32 \<Rightarrow> u16 \<Rightarrow> bytes \<Rightarrow> Connection \<Rightarrow> bytes" where
  "stream_packet descriptor flags seq window payload c =
     adsp_frame \<lparr>adsp_descriptor = descriptor, adsp_connection_id = our_conn_id c, adsp_first_byte_seq = seq,
       adsp_next_recv_seq = recv_seq c, adsp_recv_window = window, adsp_flags = flags\<rparr> payload"

definition build_attention :: "u16 \<Rightarrow> u32 \<Rightarrow> u32 \<Rightarrow> u16 \<Rightarrow> bytes \<Rightarrow> bytes" where
  "build_attention conn_id send_sq recv_sq code payload =
     adsp_frame \<lparr>adsp_descriptor = DataPacket, adsp_connection_id = conn_id, adsp_first_byte_seq = send_sq,
       adsp_next_recv_seq = recv_sq, adsp_recv_window = 0, adsp_flags = FLAG_ACK OR FLAG_ATTENTION\<rparr>
       (u16_bytes code @ payload)"

definition queue_to :: "ServiceAddress \<Rightarrow> bytes list \<Rightarrow> AdspEndpoint \<Rightarrow> AdspEndpoint" where
  "queue_to remote packets e = e\<lparr>ad_outbox := ad_outbox e @ map (Pair remote) packets\<rparr>"

definition emit :: "AdspEvent \<Rightarrow> AdspEndpoint \<Rightarrow> AdspEndpoint" where
  "emit ev e = e\<lparr>ad_events := ad_events e @ [ev]\<rparr>"

definition put_conn :: "u16 \<Rightarrow> Connection \<Rightarrow> AdspEndpoint \<Rightarrow> AdspEndpoint" where
  "put_conn key c e = e\<lparr>ad_connections := om_insert key c (ad_connections e)\<rparr>"

definition send_ack :: "u16 \<Rightarrow> AdspEndpoint \<Rightarrow> AdspEndpoint" where
  "send_ack key e =
     (case map_of (ad_connections e) key of
        None \<Rightarrow> e
      | Some c \<Rightarrow> queue_to (cn_remote c)
          [stream_packet ControlPacket 0 (send_seq c) (ad_recv_window e) [] c] e)"

definition send_open_request :: "u16 \<Rightarrow> ServiceAddress \<Rightarrow> AdspEndpoint \<Rightarrow> AdspEndpoint" where
  "send_open_request conn_id remote e =
     queue_to remote [open_packet OpenConnRequest conn_id (ad_recv_window e) 0] e"

definition send_open_reply :: "AdspDescriptor \<Rightarrow> u16 \<Rightarrow> u16 \<Rightarrow> ServiceAddress \<Rightarrow> AdspEndpoint \<Rightarrow> AdspEndpoint" where
  "send_open_reply descriptor conn_id dest_conn_id remote e =
     queue_to remote [open_packet descriptor conn_id (ad_recv_window e) dest_conn_id] e"

section \<open>Sending stream data\<close>

definition done_write :: "Connection \<Rightarrow> Connection" where
  "done_write c = c\<lparr>pending_writes := tl (pending_writes c), writes_completed := writes_completed c + 1\<rparr>"

definition touch :: "micros option \<Rightarrow> Connection \<Rightarrow> Connection" where
  "touch now c = (case now of None \<Rightarrow> c | Some t \<Rightarrow> c\<lparr>cn_last_tx := t\<rparr>)"

definition available_window :: "Connection \<Rightarrow> nat" where
  "available_window c = unat (send_window c) - unat (send_seq c - oldest_unacked_seq c)"

text \<open>One iteration of the loop of \<open>pump\<close>; \<open>None\<close> is its \<open>return\<close>.\<close>

definition pump_step :: "u16 \<Rightarrow> micros option \<Rightarrow> Connection \<Rightarrow> (bytes list \<times> Connection) option" where
  "pump_step window now c =
     (case pending_writes c of
        [] \<Rightarrow> None
      | front # rest \<Rightarrow>
          (let available = available_window c;
               remaining = length (pw_data front) - pw_offset front
           in if remaining = 0 \<and> pw_eom front
              then Some ([stream_packet DataPacket (FLAG_ACK OR FLAG_EOM) (send_seq c) window [] c],
                         done_write (touch now (c\<lparr>send_seq := send_seq c + 1\<rparr>)))
              else if remaining = 0 then Some ([], done_write c)
              else if available = 0 then None
              else
                let n = min (min remaining available) ADSP_MAX_DATA;
                    is_last_chunk = (n = remaining);
                    eom_flag = (if pw_eom front \<and> is_last_chunk then FLAG_EOM else 0);
                    chunk = take n (drop (pw_offset front) (pw_data front));
                    front' = front\<lparr>pw_offset := pw_offset front + n\<rparr>;
                    finished = (pw_offset front' = length (pw_data front'));
                    pkt = stream_packet DataPacket (FLAG_ACK OR eom_flag) (send_seq c) window chunk c;
                    c1 = c\<lparr>pending_writes := front' # rest, flight_buffer := flight_buffer c @ chunk,
                           send_seq := send_seq c + (word_of_nat (length chunk) + (if eom_flag \<noteq> 0 then 1 else 0))\<rparr>;
                    c2 = touch now c1
                in Some ([pkt], if finished then done_write c2 else c2)))"

definition write_size :: "PendingWrite \<Rightarrow> nat" where
  "write_size w = 1 + (length (pw_data w) - pw_offset w)"

definition pump_size :: "Connection \<Rightarrow> nat" where
  "pump_size c = sum_list (map write_size (pending_writes c))"

lemma touch_fields [simp]:
  "pending_writes (touch now c) = pending_writes c" "send_seq (touch now c) = send_seq c"
  "flight_buffer (touch now c) = flight_buffer c" "oldest_unacked_seq (touch now c) = oldest_unacked_seq c"
  "send_window (touch now c) = send_window c" "recv_seq (touch now c) = recv_seq c"
  "our_conn_id (touch now c) = our_conn_id c" "cn_remote (touch now c) = cn_remote c"
  by (simp_all add: touch_def split: option.splits)

lemma pending_done [simp]: "pending_writes (done_write c) = tl (pending_writes c)"
  by (simp add: done_write_def)

text \<open>The shapes an iteration can take: it pops the front write, or cuts a positive chunk from it.\<close>

lemma pump_step_pending:
  assumes "pump_step window now c = Some (ps, c')"
  shows "\<exists>w ws. pending_writes c = w # ws
    \<and> (pending_writes c' = ws
       \<or> (\<exists>n. 0 < n \<and> n \<le> length (pw_data w) - pw_offset w
            \<and> (pending_writes c' = ws \<or> pending_writes c' = w\<lparr>pw_offset := pw_offset w + n\<rparr> # ws)))"
proof (cases "pending_writes c")
  case Nil
  with assms show ?thesis by (simp add: pump_step_def)
next
  case (Cons w ws)
  let ?r = "length (pw_data w) - pw_offset w" and ?a = "available_window c"
  let ?n = "min (min ?r ?a) ADSP_MAX_DATA"
  show ?thesis
  proof (cases "?r = 0")
    case True
    with assms Cons show ?thesis by (auto simp: pump_step_def Let_def split: if_splits)
  next
    case False
    with assms Cons have a: "?a \<noteq> 0" by (simp add: pump_step_def Let_def split: if_splits)
    have "pending_writes c' = ws \<or> pending_writes c' = w\<lparr>pw_offset := pw_offset w + ?n\<rparr> # ws"
      using assms Cons False a by (simp add: pump_step_def Let_def split: if_splits) auto
    moreover have "0 < ?n" "?n \<le> ?r" using False a by (simp_all add: ADSP_MAX_DATA_def)
    ultimately show ?thesis using Cons by blast
  qed
qed

lemma pump_step_smaller: "pump_step window now c = Some (ps, c') \<Longrightarrow> pump_size c' < pump_size c"
  using pump_step_pending [of window now c ps c']
  by (auto simp: pump_size_def write_size_def)

function pump_loop :: "u16 \<Rightarrow> micros option \<Rightarrow> Connection \<Rightarrow> bytes list \<times> Connection" where
  "pump_loop window now c =
     (case pump_step window now c of
        None \<Rightarrow> ([], c)
      | Some (ps, c') \<Rightarrow> (let (qs, c'') = pump_loop window now c' in (ps @ qs, c'')))"
  by pat_completeness auto
termination by (relation "measure (\<lambda>(_, _, c). pump_size c)") (auto dest: pump_step_smaller)

declare pump_loop.simps [simp del]

definition pump :: "u16 \<Rightarrow> micros option \<Rightarrow> AdspEndpoint \<Rightarrow> AdspEndpoint" where
  "pump key now e =
     (case map_of (ad_connections e) key of
        None \<Rightarrow> e
      | Some c \<Rightarrow> (let (ps, c') = pump_loop (ad_recv_window e) now c
                  in queue_to (cn_remote c) ps (put_conn key c' e)))"

fun resend_chunks :: "u16 \<Rightarrow> Connection \<Rightarrow> nat \<Rightarrow> bytes list \<Rightarrow> bytes list" where
  "resend_chunks window c i [] = []"
| "resend_chunks window c i (chunk # rest) =
     stream_packet DataPacket FLAG_ACK (oldest_unacked_seq c + word_of_nat (i * ADSP_MAX_DATA)) window chunk c
     # resend_chunks window c (i + 1) rest"

definition resend_unacked :: "u16 \<Rightarrow> micros \<Rightarrow> AdspEndpoint \<Rightarrow> AdspEndpoint" where
  "resend_unacked key now e =
     (case map_of (ad_connections e) key of
        None \<Rightarrow> e
      | Some c \<Rightarrow>
          (if flight_buffer c = [] then e
           else queue_to (cn_remote c) (resend_chunks (ad_recv_window e) c 0 (chunks_of ADSP_MAX_DATA (flight_buffer c)))
                  (put_conn key (c\<lparr>cn_last_tx := now\<rparr>) e)))"

definition adsp_send :: "u16 \<Rightarrow> bytes \<Rightarrow> bool \<Rightarrow> AdspEndpoint \<Rightarrow> (AdspCallError + nat) \<times> AdspEndpoint" where
  "adsp_send conn payload eom e =
     (case map_of (ad_connections e) conn of
        None \<Rightarrow> (Inl NoSuchConnection, e)
      | Some c \<Rightarrow>
          (let c' = c\<lparr>writes_submitted := writes_submitted c + 1,
                pending_writes := pending_writes c @ [\<lparr>pw_data = payload, pw_offset = 0, pw_eom = eom\<rparr>]\<rparr>
           in (Inr (writes_submitted c'), pump conn None (put_conn conn c' e))))"

definition tx_backlog :: "u16 \<Rightarrow> AdspEndpoint \<Rightarrow> nat" where
  "tx_backlog conn e =
     (case map_of (ad_connections e) conn of
        None \<Rightarrow> 0
      | Some c \<Rightarrow> length (flight_buffer c)
          + sum_list (map (\<lambda>w. length (pw_data w) - pw_offset w) (pending_writes c)))"

definition writes_completed_of :: "u16 \<Rightarrow> AdspEndpoint \<Rightarrow> nat option" where
  "writes_completed_of conn e = map_option writes_completed (map_of (ad_connections e) conn)"

section \<open>Windows, opens, attentions and close\<close>

definition set_recv_window :: "u16 \<Rightarrow> AdspEndpoint \<Rightarrow> AdspEndpoint" where
  "set_recv_window window e =
     (let reopened = (ad_recv_window e = 0 \<and> window > 0); e' = e\<lparr>ad_recv_window := window\<rparr>
      in if reopened then foldl (\<lambda>s key. send_ack key s) e' (map fst (ad_connections e')) else e')"

text \<open>The loop of \<open>connect\<close>: \<open>None\<close> is a loop that never finds an identifier.\<close>

partial_function (option) conn_id_loop ::
  "(u16, PendingOpen) omap \<Rightarrow> Rand \<Rightarrow> (u16 \<times> Rand) option" where
  "conn_id_loop opens rng =
     (let (x, rng') = next_u32 rng; cid = ucast (x AND 0xFFFF) :: u16
      in if cid \<noteq> 0 \<and> map_of opens cid = None then Some (cid, rng') else conn_id_loop opens rng')"

definition adsp_connect :: "ServiceAddress \<Rightarrow> micros \<Rightarrow> AdspEndpoint \<Rightarrow> (u16 \<times> AdspEndpoint) option" where
  "adsp_connect remote now e =
     (case conn_id_loop (ad_pending_opens e) (ad_rng e) of
        None \<Rightarrow> None
      | Some (conn_id, rng') \<Rightarrow>
          Some (conn_id, send_open_request conn_id remote
            (e\<lparr>ad_rng := rng', ad_pending_opens := om_insert conn_id
                \<lparr>po_remote = remote, po_last_tx = now, po_retries = 0\<rparr> (ad_pending_opens e)\<rparr>)))"

definition send_attention ::
  "u16 \<Rightarrow> u16 \<Rightarrow> bytes \<Rightarrow> micros \<Rightarrow> AdspEndpoint \<Rightarrow> (AdspCallError + unit) \<times> AdspEndpoint" where
  "send_attention conn code payload now e =
     (case map_of (ad_connections e) conn of
        None \<Rightarrow> (Inl NoSuchConnection, e)
      | Some c \<Rightarrow>
          (if attn_in_flight c \<noteq> None then (Inl AttentionInFlight, e)
           else
             let packet = build_attention (our_conn_id c) (attn_send_seq c) (attn_recv_seq c) code payload;
                 c' = c\<lparr>attn_in_flight := Some \<lparr>ai_seq = attn_send_seq c, ai_packet = packet,
                        ai_last_tx = now, ai_retries = 0\<rparr>\<rparr>
             in (Inr (), queue_to (cn_remote c) [packet] (put_conn conn c' e))))"

definition abandon_open :: "u16 \<Rightarrow> AdspEndpoint \<Rightarrow> AdspEndpoint" where
  "abandon_open pending e = e\<lparr>ad_pending_opens := om_remove pending (ad_pending_opens e)\<rparr>"

definition adsp_close :: "u16 \<Rightarrow> AdspEndpoint \<Rightarrow> AdspEndpoint" where
  "adsp_close conn e =
     (case map_of (ad_connections e) conn of
        None \<Rightarrow> e
      | Some c \<Rightarrow> queue_to (cn_remote c) [stream_packet CloseAdvice 0 (send_seq c) 0 [] c]
          (e\<lparr>ad_connections := om_remove conn (ad_connections e)\<rparr>))"

section \<open>Datagrams\<close>

definition handle_open_request :: "ServiceAddress \<Rightarrow> AdspPacket \<Rightarrow> micros \<Rightarrow> AdspEndpoint \<Rightarrow> AdspEndpoint" where
  "handle_open_request src packet now e =
     (if \<not> ad_listening e then e
      else
        let client_conn_id = adsp_connection_id packet in
        (case map_of (ad_connections e) client_conn_id of
           Some c \<Rightarrow> send_open_reply OpenConnReqAck (our_conn_id c) client_conn_id src e
         | None \<Rightarrow>
             (let (x, rng') = next_u32 (ad_rng e);
                  conn_id = (ucast (x AND 0xFFFF) :: u16) OR 1;
                  c = connection_new conn_id src (adsp_recv_window packet) now
              in emit (Opened client_conn_id src True None)
                   (send_open_reply OpenConnReqAck conn_id client_conn_id src
                     (put_conn client_conn_id c (e\<lparr>ad_rng := rng'\<rparr>))))))"

definition handle_open_ack ::
  "ServiceAddress \<Rightarrow> AdspPacket \<Rightarrow> bytes \<Rightarrow> micros \<Rightarrow> AdspEndpoint \<Rightarrow> AdspEndpoint" where
  "handle_open_ack src packet payload now e =
     (let server_conn_id = adsp_connection_id packet;
          conn_id = (if length payload \<ge> 17 then read_u16 payload 15 else server_conn_id);
          is_req_ack = (adsp_descriptor packet = OpenConnReqAck);
          reply = send_open_reply OpenConnAck conn_id server_conn_id src;
          opened = Opened server_conn_id src False (Some conn_id)
      in if map_of (ad_connections e) server_conn_id \<noteq> None
         then (if is_req_ack then reply e else e)
         else if map_of (ad_pending_opens e) conn_id = None
         then
           (case find (\<lambda>(_, c). our_conn_id c = conn_id) (ad_connections e) of
              None \<Rightarrow> e
            | Some (stale, conn) \<Rightarrow>
                emit opened (reply (put_conn server_conn_id conn
                  (e\<lparr>ad_connections := om_remove stale (ad_connections e)\<rparr>))))
         else
           let e1 = e\<lparr>ad_pending_opens := om_remove conn_id (ad_pending_opens e)\<rparr>;
               e2 = put_conn server_conn_id (connection_new conn_id src (adsp_recv_window packet) now) e1;
               e3 = (if is_req_ack then reply e2 else e2)
           in emit opened e3)"

definition handle_attention :: "AdspPacket \<Rightarrow> bytes \<Rightarrow> AdspEndpoint \<Rightarrow> AdspEndpoint" where
  "handle_attention packet payload e =
     (if length payload < 2 then e
      else
        let key = adsp_connection_id packet in
        (case map_of (ad_connections e) key of
           None \<Rightarrow> e
         | Some c0 \<Rightarrow>
             (let code = read_u16 payload 0;
                  fresh = (adsp_first_byte_seq packet = attn_recv_seq c0);
                  c = (if fresh then c0\<lparr>attn_recv_seq := attn_recv_seq c0 + 1\<rparr> else c0);
                  ack = adsp_frame \<lparr>adsp_descriptor = ControlPacket, adsp_connection_id = our_conn_id c,
                          adsp_first_byte_seq = attn_send_seq c, adsp_next_recv_seq = attn_recv_seq c,
                          adsp_recv_window = 0, adsp_flags = FLAG_ATTENTION\<rparr> (u16_bytes code);
                  e1 = queue_to (cn_remote c) [ack] (put_conn key c e)
              in if fresh then emit (Attention key code (drop 2 payload)) e1 else e1)))"

definition handle_attention_ack :: "AdspPacket \<Rightarrow> AdspEndpoint \<Rightarrow> AdspEndpoint" where
  "handle_attention_ack packet e =
     (let key = adsp_connection_id packet in
      case map_of (ad_connections e) key of
        None \<Rightarrow> e
      | Some c \<Rightarrow>
          (case attn_in_flight c of
             None \<Rightarrow> e
           | Some in_flight \<Rightarrow>
               (if adsp_next_recv_seq packet \<noteq> ai_seq in_flight + 1 then e
                else emit (AttentionAcked key)
                  (put_conn key (c\<lparr>attn_in_flight := None, attn_send_seq := attn_send_seq c + 1\<rparr>) e))))"

text \<open>The acknowledgement carried by a packet, on its connection.\<close>

definition ack_conn :: "AdspPacket \<Rightarrow> Connection \<Rightarrow> Connection" where
  "ack_conn packet c0 =
     (let c = c0\<lparr>send_window := adsp_recv_window packet\<rparr>;
          max_valid = unat (send_seq c - oldest_unacked_seq c);
          acked = unat (adsp_next_recv_seq packet - oldest_unacked_seq c)
      in if acked > 0 \<and> acked \<le> max_valid
         then c\<lparr>flight_buffer := drop (min acked (length (flight_buffer c))) (flight_buffer c),
                oldest_unacked_seq := adsp_next_recv_seq packet, cn_retries := 0\<rparr>
         else c)"

definition apply_ack :: "AdspPacket \<Rightarrow> micros \<Rightarrow> AdspEndpoint \<Rightarrow> AdspEndpoint" where
  "apply_ack packet now e =
     (let key = adsp_connection_id packet in
      case map_of (ad_connections e) key of
        None \<Rightarrow> e
      | Some c \<Rightarrow> pump key (Some now) (put_conn key (ack_conn packet c) e))"

text \<open>The stream half of \<open>handle_data\<close>: the connection after the packet and the data delivered.\<close>

definition recv_conn :: "AdspPacket \<Rightarrow> bytes \<Rightarrow> Connection \<Rightarrow> Connection \<times> (bytes \<times> bool) option" where
  "recv_conn packet payload c =
     (let eom = (adsp_flags packet AND FLAG_EOM \<noteq> 0);
          total_len = (word_of_nat (length payload) :: u32) + (if eom then 1 else 0)
      in if total_len > 0
         then
           let diff = recv_seq c - adsp_first_byte_seq packet
           in if sint diff < 0 then (c, None)
              else if diff < total_len
              then
                let skip = min (unat diff) (length payload);
                    fresh = drop skip payload;
                    c' = c\<lparr>recv_seq := adsp_first_byte_seq packet + total_len\<rparr>
                in (c', if fresh \<noteq> [] \<or> eom then Some (fresh, eom) else None)
              else (c, None)
         else (c, None))"

definition handle_data :: "AdspPacket \<Rightarrow> bytes \<Rightarrow> micros \<Rightarrow> AdspEndpoint \<Rightarrow> AdspEndpoint" where
  "handle_data packet payload now e =
     (let key = adsp_connection_id packet in
      case map_of (ad_connections e) key of
        None \<Rightarrow> e
      | Some c \<Rightarrow>
          (let (c', delivered) = recv_conn packet payload c;
               e1 = put_conn key c' e;
               e2 = (case delivered of None \<Rightarrow> e1 | Some (d, eom) \<Rightarrow> emit (AdspData key d eom) e1);
               e3 = apply_ack packet now e2;
               e4 = (if adsp_flags packet AND FLAG_ACK \<noteq> 0 then send_ack key e3 else e3)
           in pump key (Some now) e4))"

definition adsp_handle_datagram :: "ServiceAddress \<Rightarrow> bytes \<Rightarrow> micros \<Rightarrow> AdspEndpoint \<Rightarrow> AdspEndpoint" where
  "adsp_handle_datagram src payload now e =
     (case adsp_parse payload of
        Inl _ \<Rightarrow> e
      | Inr packet \<Rightarrow>
          (let body = drop ADSP_HEADER_LEN payload in
           if adsp_flags packet AND FLAG_ATTENTION \<noteq> 0
           then (if adsp_flags packet AND FLAG_CONTROL \<noteq> 0 \<or> adsp_descriptor packet = ControlPacket
                 then handle_attention_ack packet e
                 else handle_attention packet body e)
           else
             (case adsp_descriptor packet of
                OpenConnRequest \<Rightarrow> handle_open_request src packet now e
              | OpenConnAck \<Rightarrow> handle_open_ack src packet payload now e
              | OpenConnReqAck \<Rightarrow> handle_open_ack src packet payload now e
              | OpenConnDeny \<Rightarrow>
                  (let our_id = (if length payload \<ge> 17 then read_u16 payload 15 else adsp_connection_id packet)
                   in if map_of (ad_pending_opens e) our_id \<noteq> None
                      then emit (OpenFailed our_id) (e\<lparr>ad_pending_opens := om_remove our_id (ad_pending_opens e)\<rparr>)
                      else e)
              | DataPacket \<Rightarrow> handle_data packet body now e
              | ControlPacket \<Rightarrow> handle_data packet body now e
              | RetransmitAdvice \<Rightarrow> resend_unacked (adsp_connection_id packet) now (apply_ack packet now e)
              | CloseAdvice \<Rightarrow>
                  (if map_of (ad_connections e) (adsp_connection_id packet) \<noteq> None
                   then emit (AdspClosed (adsp_connection_id packet))
                          (e\<lparr>ad_connections := om_remove (adsp_connection_id packet) (ad_connections e)\<rparr>)
                   else e)
              | _ \<Rightarrow> e)))"

section \<open>Time\<close>

definition adsp_next_deadline :: "AdspEndpoint \<Rightarrow> micros option" where
  "adsp_next_deadline e =
     (let conns = map snd (ad_connections e);
          retrans = min_deadline (map (\<lambda>c. cn_last_tx c + RETRANSMIT_TIMEOUT) (filter (\<lambda>c. flight_buffer c \<noteq> []) conns));
          opens = min_deadline (map (\<lambda>(_, p). po_last_tx p + OPEN_RETRY_INTERVAL) (ad_pending_opens e));
          attns = min_deadline (map (\<lambda>a. ai_last_tx a + ATTN_RETRY_INTERVAL) (List.map_filter attn_in_flight conns))
      in min_deadline (List.map_filter id [retrans, opens, attns]))"

fun poll_opens ::
  "micros \<Rightarrow> (u16, PendingOpen) omap \<Rightarrow> (u16, PendingOpen) omap \<times> u16 list \<times> (u16 \<times> ServiceAddress) list" where
  "poll_opens now [] = ([], [], [])"
| "poll_opens now ((i, p) # m) =
     (let (m', failed, retry) = poll_opens now m in
      if now - po_last_tx p < OPEN_RETRY_INTERVAL then ((i, p) # m', failed, retry)
      else
        let p1 = p\<lparr>po_retries := po_retries p + 1\<rparr>
        in if po_retries p1 > MAX_OPEN_RETRIES then ((i, p1) # m', i # failed, retry)
           else ((i, p1\<lparr>po_last_tx := now\<rparr>) # m', failed, (i, po_remote p1) # retry))"

definition poll_attention :: "micros \<Rightarrow> u16 \<Rightarrow> AdspEndpoint \<Rightarrow> AdspEndpoint" where
  "poll_attention now key e =
     (case map_of (ad_connections e) key of
        None \<Rightarrow> e
      | Some c \<Rightarrow>
          (case attn_in_flight c of
             None \<Rightarrow> e
           | Some a \<Rightarrow>
               (if now - ai_last_tx a < ATTN_RETRY_INTERVAL then e
                else
                  let a1 = a\<lparr>ai_retries := ai_retries a + 1\<rparr>
                  in if ai_retries a1 > MAX_ATTN_RETRIES
                     then emit (AttentionFailed key) (put_conn key (c\<lparr>attn_in_flight := None\<rparr>) e)
                     else queue_to (cn_remote c) [ai_packet a1]
                            (put_conn key (c\<lparr>attn_in_flight := Some (a1\<lparr>ai_last_tx := now\<rparr>)\<rparr>) e))))"

definition poll_data :: "micros \<Rightarrow> u16 \<Rightarrow> AdspEndpoint \<Rightarrow> AdspEndpoint" where
  "poll_data now key e =
     (case map_of (ad_connections e) key of
        None \<Rightarrow> e
      | Some c \<Rightarrow>
          (if flight_buffer c = [] \<or> now - cn_last_tx c < RETRANSMIT_TIMEOUT then e
           else
             let c1 = c\<lparr>cn_retries := min 255 (cn_retries c + 1)\<rparr>
             in if cn_retries c1 > ADSP_MAX_RETRIES
                then emit (AdspClosed key) (e\<lparr>ad_connections := om_remove key (ad_connections e)\<rparr>)
                else resend_unacked key now (put_conn key c1 e)))"

definition adsp_poll :: "micros \<Rightarrow> AdspEndpoint \<Rightarrow> AdspEndpoint" where
  "adsp_poll now e =
     (let (opens, failed, retry) = poll_opens now (ad_pending_opens e);
          e1 = e\<lparr>ad_pending_opens := opens\<rparr>;
          e2 = foldl (\<lambda>s i. emit (OpenFailed i) (s\<lparr>ad_pending_opens := om_remove i (ad_pending_opens s)\<rparr>)) e1 failed;
          e3 = foldl (\<lambda>s (i, remote). send_open_request i remote s) e2 retry;
          e4 = foldl (\<lambda>s key. poll_attention now key s) e3 (map fst (ad_connections e3))
      in foldl (\<lambda>s key. poll_data now key s) e4 (map fst (ad_connections e4)))"

definition adsp_poll_transmit :: "AdspEndpoint \<Rightarrow> (ServiceAddress \<times> bytes) option \<times> AdspEndpoint" where
  "adsp_poll_transmit e =
     (case ad_outbox e of [] \<Rightarrow> (None, e) | x # xs \<Rightarrow> (Some x, e\<lparr>ad_outbox := xs\<rparr>))"

definition adsp_poll_event :: "AdspEndpoint \<Rightarrow> AdspEvent option \<times> AdspEndpoint" where
  "adsp_poll_event e =
     (case ad_events e of [] \<Rightarrow> (None, e) | x # xs \<Rightarrow> (Some x, e\<lparr>ad_events := xs\<rparr>))"

section \<open>Sleeping until the deadline\<close>

lemma before_all: "before_deadline (min_deadline (List.map_filter id ds)) now \<longleftrightarrow> (\<forall>d\<in>set ds. before_deadline d now)"
  unfolding min_deadline_before by (force simp: before_deadline_def List.map_filter_def split: option.splits)

lemma adsp_deadline_before:
  "before_deadline (adsp_next_deadline e) now \<longleftrightarrow>
     (\<forall>(k, c)\<in>set (ad_connections e). (flight_buffer c \<noteq> [] \<longrightarrow> now < cn_last_tx c + RETRANSMIT_TIMEOUT)
        \<and> (\<forall>a. attn_in_flight c = Some a \<longrightarrow> now < ai_last_tx a + ATTN_RETRY_INTERVAL))
     \<and> (\<forall>(i, p)\<in>set (ad_pending_opens e). now < po_last_tx p + OPEN_RETRY_INTERVAL)"
  unfolding adsp_next_deadline_def Let_def before_all
  by (auto simp: min_deadline_before List.map_filter_def)

lemma poll_opens_early:
  "\<forall>(i, p)\<in>set m. now < po_last_tx p + OPEN_RETRY_INTERVAL \<Longrightarrow> poll_opens now m = (m, [], [])"
  by (induction m) (auto simp: OPEN_RETRY_INTERVAL_def)

lemma poll_attention_early:
  assumes "\<forall>(k, c)\<in>set (ad_connections e). \<forall>a. attn_in_flight c = Some a \<longrightarrow> now < ai_last_tx a + ATTN_RETRY_INTERVAL"
  shows "poll_attention now key e = e"
  using assms
  by (auto simp: poll_attention_def ATTN_RETRY_INTERVAL_def split: option.splits dest!: map_of_SomeD)

lemma poll_data_early:
  assumes "\<forall>(k, c)\<in>set (ad_connections e). flight_buffer c \<noteq> [] \<longrightarrow> now < cn_last_tx c + RETRANSMIT_TIMEOUT"
  shows "poll_data now key e = e"
  using assms
  by (auto simp: poll_data_def RETRANSMIT_TIMEOUT_def split: option.splits dest!: map_of_SomeD)

lemma foldl_fixed: "(\<And>x. f s x = s) \<Longrightarrow> foldl f s xs = s"
  by (induction xs) simp_all

interpretation adsp_timer: timed_machine adsp_next_deadline "\<lambda>now e. ((), adsp_poll now e)" "()" "\<lambda>_. True"
proof unfold_locales
  fix e now assume "before_deadline (adsp_next_deadline e) now"
  then have c: "\<forall>(k, c)\<in>set (ad_connections e). (flight_buffer c \<noteq> [] \<longrightarrow> now < cn_last_tx c + RETRANSMIT_TIMEOUT)
        \<and> (\<forall>a. attn_in_flight c = Some a \<longrightarrow> now < ai_last_tx a + ATTN_RETRY_INTERVAL)"
    and o: "\<forall>(i, p)\<in>set (ad_pending_opens e). now < po_last_tx p + OPEN_RETRY_INTERVAL"
    by (simp_all add: adsp_deadline_before)
  have a: "poll_attention now key e = e" for key by (rule poll_attention_early) (use c in blast)
  have d: "poll_data now key e = e" for key by (rule poll_data_early) (use c in blast)
  have "adsp_poll now e = e"
    using poll_opens_early [OF o] by (simp add: adsp_poll_def foldl_fixed a d)
  then show "((), adsp_poll now e) = ((), e)" by simp
qed

end
