(* ===== verification/Sw_Family.thy ===== *)
theory Sw_Family
  imports TT_Prelude
begin

text \<open>
  What a StyleWriter is and what follows from it: the identify string and submodel, the names it goes by
  (src/tailtalk-core/src/stylewriter.rs), the engine's page area and block sizes (family.rs), the commands
  that set a job up (job.rs) and the faults in its status replies (status.rs of
  src/tailtalk/src/stylewriter/). Names and messages are character strings, what goes over the wire is
  bytes.
\<close>

section \<open>Models and names\<close>

definition QUERY_STATUS :: u8 where "QUERY_STATUS = 0x31"
definition QUERY_RESET :: u8 where "QUERY_RESET = 0x49"

definition COLOR_FAMILY :: bytes where "COLOR_FAMILY = [0x43, 0x53]"

datatype ColorModel = Cs1500 | Cs2200 | Cs2400 | Cs2500 | UnknownModel

definition from_submodel :: "u8 option \<Rightarrow> ColorModel" where
  "from_submodel submodel =
     (if submodel = Some 0x01 then Cs2400
      else if submodel = Some 0x02 then Cs2200
      else if submodel = Some 0x04 then Cs1500
      else if submodel = Some 0x05 then Cs2500
      else UnknownModel)"

definition color_model_name :: "ColorModel \<Rightarrow> string" where
  "color_model_name m =
     (case m of
        Cs1500 \<Rightarrow> ''Apple Color StyleWriter 1500''
      | Cs2200 \<Rightarrow> ''Apple Color StyleWriter 2200''
      | Cs2400 \<Rightarrow> ''Apple Color StyleWriter 2400''
      | Cs2500 \<Rightarrow> ''Apple Color StyleWriter 2500''
      | UnknownModel \<Rightarrow> ''Apple Color StyleWriter'')"

definition model_name :: "bytes \<Rightarrow> u8 option \<Rightarrow> string option" where
  "model_name identity submodel =
     (if identity = [0x49, 0x4A, 0x31, 0x30] then Some ''Apple StyleWriter''
      else if identity = [0x53, 0x57] then Some ''Apple StyleWriter II''
      else if identity = [0x53, 0x57, 0x33] then Some ''Apple StyleWriter 1200''
      else if identity = COLOR_FAMILY then Some (color_model_name (from_submodel submodel))
      else None)"

definition NBP_TYPE :: string where "NBP_TYPE = ''ColorStyleWriter2400AT''"
definition NBP_TYPE_1200 :: string where "NBP_TYPE_1200 = ''StyleWriter1200AT''"

definition nbp_type_for :: "bytes \<Rightarrow> u8 option \<Rightarrow> string" where
  "nbp_type_for identity submodel =
     (if identity \<in> {[0x49, 0x4A, 0x31, 0x30], [0x53, 0x57], [0x53, 0x57, 0x33]} then NBP_TYPE_1200
      else if identity = COLOR_FAMILY \<and> from_submodel submodel = Cs1500 then NBP_TYPE_1200
      else NBP_TYPE)"

definition status_query :: "u8 \<Rightarrow> bytes" where
  "status_query q = [0xFF, 0xFF, 0xFF, q]"

section \<open>The family\<close>

datatype StyleWriterFamily = ColorFamily ColorModel | StyleWriterII | StyleWriter1200 | OriginalSw

definition family_default :: StyleWriterFamily where "family_default = ColorFamily UnknownModel"

record Engine =
  en_width :: nat
  left_margin :: nat
  right_margin :: nat
  top_margin :: nat
  bottom_margin :: nat
  band_rows :: nat
  rect_offset :: u16

definition COLOR_ENGINE :: Engine where
  "COLOR_ENGINE = \<lparr>en_width = 2919, left_margin = 72, right_margin = 72, top_margin = 45, bottom_margin = 99,
     band_rows = 400, rect_offset = 0\<rparr>"

definition ENGINE_1200 :: Engine where
  "ENGINE_1200 = \<lparr>en_width = 2880, left_margin = 72, right_margin = 72, top_margin = 72, bottom_margin = 114,
     band_rows = 800, rect_offset = 16\<rparr>"

definition ORIGINAL_ENGINE :: Engine where
  "ORIGINAL_ENGINE = ENGINE_1200\<lparr>rect_offset := 0\<rparr>"

definition COLOR_BLOCK_ROOM_MONO :: nat where "COLOR_BLOCK_ROOM_MONO = 0x7E77"
definition COLOR_BLOCK_ROOM_COLOR :: nat where "COLOR_BLOCK_ROOM_COLOR = 0x79FA"
definition BLOCK_ROOM_1200 :: nat where "BLOCK_ROOM_1200 = 0x76ED"
definition CS2200_IDLE_MASK :: u8 where "CS2200_IDLE_MASK = 0xA0"

definition family_from_identity :: "bytes \<Rightarrow> u8 option \<Rightarrow> StyleWriterFamily option" where
  "family_from_identity identity submodel =
     (if identity = [0x49, 0x4A, 0x31, 0x30] then Some OriginalSw
      else if identity = [0x53, 0x57] then Some StyleWriterII
      else if identity = [0x53, 0x57, 0x33] then Some StyleWriter1200
      else if identity = COLOR_FAMILY then Some (ColorFamily (from_submodel submodel))
      else None)"

definition identifies_as :: "StyleWriterFamily \<Rightarrow> bytes \<Rightarrow> bool" where
  "identifies_as family identity =
     (case (family, family_from_identity identity None) of
        (ColorFamily _, Some (ColorFamily _)) \<Rightarrow> True
      | (StyleWriterII, Some StyleWriterII) \<Rightarrow> True
      | (StyleWriter1200, Some StyleWriter1200) \<Rightarrow> True
      | (OriginalSw, Some OriginalSw) \<Rightarrow> True
      | _ \<Rightarrow> False)"

definition is_1200_series :: "StyleWriterFamily \<Rightarrow> bool" where
  "is_1200_series family =
     (case family of ColorFamily m \<Rightarrow> m \<notin> {Cs2200, Cs2400, Cs2500, UnknownModel} | _ \<Rightarrow> True)"

definition engine_of :: "StyleWriterFamily \<Rightarrow> Engine" where
  "engine_of family =
     (if family = OriginalSw then ORIGINAL_ENGINE
      else if is_1200_series family then ENGINE_1200
      else COLOR_ENGINE)"

definition print_width :: "StyleWriterFamily \<Rightarrow> nat" where
  "print_width family = en_width (engine_of family)"

definition div_ceil :: "nat \<Rightarrow> nat \<Rightarrow> nat" where
  "div_ceil n d = (n + d - 1) div d"

definition print_rowbytes :: "StyleWriterFamily \<Rightarrow> nat" where
  "print_rowbytes family = div_ceil (en_width (engine_of family)) 8"

definition rect_left :: "StyleWriterFamily \<Rightarrow> u16" where
  "rect_left family = rect_offset (engine_of family)"

definition left_margin_px :: "StyleWriterFamily \<Rightarrow> nat" where
  "left_margin_px family = left_margin (engine_of family)"

definition min_right_margin_px :: "StyleWriterFamily \<Rightarrow> nat" where
  "min_right_margin_px family = right_margin (engine_of family)"

definition top_margin_rows :: "StyleWriterFamily \<Rightarrow> nat" where
  "top_margin_rows family = top_margin (engine_of family)"

definition bottom_margin_rows :: "StyleWriterFamily \<Rightarrow> nat" where
  "bottom_margin_rows family = bottom_margin (engine_of family)"

definition printable_width :: "StyleWriterFamily \<Rightarrow> nat \<Rightarrow> nat" where
  "printable_width family paper_width =
     (let room = paper_width - (left_margin_px family + min_right_margin_px family)
      in if room < print_width family then room else print_width family)"

definition max_band_rows :: "StyleWriterFamily \<Rightarrow> nat" where
  "max_band_rows family = band_rows (engine_of family)"

definition can_print_color :: "StyleWriterFamily \<Rightarrow> bool" where
  "can_print_color family = (case family of ColorFamily _ \<Rightarrow> True | _ \<Rightarrow> False)"

definition can_clean :: "StyleWriterFamily \<Rightarrow> bool" where
  "can_clean family = (family \<noteq> OriginalSw)"

definition delta_rows :: "StyleWriterFamily \<Rightarrow> bool" where
  "delta_rows family = (family \<noteq> OriginalSw)"

definition lightens_transparencies :: "StyleWriterFamily \<Rightarrow> bool" where
  "lightens_transparencies family = (\<not> is_1200_series family)"

definition free_bytes :: "StyleWriterFamily \<Rightarrow> u8 \<Rightarrow> int" where
  "free_bytes family b = uint b * (if family = OriginalSw then 64 else 256) - 2048"

datatype BandKind = Mono | ColorBand

definition band_planes :: "BandKind \<Rightarrow> nat" where
  "band_planes kind = (case kind of Mono \<Rightarrow> 1 | ColorBand \<Rightarrow> 4)"

definition band_tag :: "BandKind \<Rightarrow> u8" where
  "band_tag kind = (case kind of Mono \<Rightarrow> 0x52 | ColorBand \<Rightarrow> 0x63)"

definition block_room :: "StyleWriterFamily \<Rightarrow> BandKind \<Rightarrow> nat \<Rightarrow> nat" where
  "block_room family kind row_bytes =
     (case (is_1200_series family, kind) of
        (True, _) \<Rightarrow> BLOCK_ROOM_1200 - row_bytes * band_planes kind
      | (False, Mono) \<Rightarrow> COLOR_BLOCK_ROOM_MONO
      | (False, ColorBand) \<Rightarrow> COLOR_BLOCK_ROOM_COLOR)"

definition buffer_idle :: "StyleWriterFamily \<Rightarrow> u8 \<Rightarrow> bool \<Rightarrow> bool" where
  "buffer_idle family b color_cartridge =
     (case family of
        ColorFamily Cs2200 \<Rightarrow> b AND CS2200_IDLE_MASK = CS2200_IDLE_MASK
      | ColorFamily UnknownModel \<Rightarrow> b AND CS2200_IDLE_MASK = CS2200_IDLE_MASK
      | ColorFamily Cs1500 \<Rightarrow> b = (if color_cartridge then 0x87 else 0x9F)
      | ColorFamily Cs2500 \<Rightarrow> b = 0x80
      | OriginalSw \<Rightarrow> b = 0xA0
      | _ \<Rightarrow> b = 0xF8)"

section \<open>Job options\<close>

datatype PrintQuality = Draft | NormalQuality | Best
datatype Rendering = BlackAndWhite | Grayscale | RenderColor
datatype PaperType = PlainPaper | Coated | Transparency | BackPrintFilm | Glossy
datatype Cleaning = NoCleaning | Clean | SuperClean
datatype Cartridge = ColorCartridge | BlackCartridge
datatype Halftone = Diffusion | Pattern

definition media_code :: "PaperType \<Rightarrow> ColorModel \<Rightarrow> u8" where
  "media_code paper model =
     (case (paper, model) of
        (PlainPaper, _) \<Rightarrow> 0x32
      | (BackPrintFilm, _) \<Rightarrow> 0x33
      | (Coated, Cs1500) \<Rightarrow> 0x31
      | (Glossy, Cs1500) \<Rightarrow> 0x35
      | _ \<Rightarrow> 0x30)"

definition paper_mirrored :: "PaperType \<Rightarrow> bool" where
  "paper_mirrored paper = (paper = BackPrintFilm)"

definition cleaning_commands :: "Cleaning \<Rightarrow> bytes list" where
  "cleaning_commands c = replicate (case c of NoCleaning \<Rightarrow> 0 | Clean \<Rightarrow> 1 | SuperClean \<Rightarrow> 2) [0x50]"

definition cartridge_from_query :: "u8 \<Rightarrow> ColorModel \<Rightarrow> Cartridge option" where
  "cartridge_from_query h model =
     (if model = Cs1500 then Some (if h AND 0x80 \<noteq> 0 then ColorCartridge else BlackCartridge)
      else if h = 0x81 then Some ColorCartridge
      else if h = 0x01 then Some BlackCartridge
      else None)"

definition page_mode :: "Cartridge \<Rightarrow> bool \<Rightarrow> u8" where
  "page_mode cartridge color = (if cartridge = ColorCartridge \<and> color then 0x48 else 0x42)"

record JobOptions =
  jo_rendering :: Rendering
  jo_quality :: PrintQuality
  jo_paper :: PaperType
  jo_cleaning :: Cleaning
  jo_halftone :: Halftone
  jo_narrow_paper :: bool

definition closing_commands :: "JobOptions \<Rightarrow> bytes list" where
  "closing_commands job = (if jo_narrow_paper job then [[0x46]] else []) @ [[0x41]]"

definition color_commands :: "JobOptions \<Rightarrow> ColorModel \<Rightarrow> Cartridge \<Rightarrow> bytes list" where
  "color_commands job model cartridge =
     [[0x6D, media_code (jo_paper job) model]]
     @ (case (jo_quality job, cartridge, model) of
          (Draft, _, _) \<Rightarrow> [[0x64]]
        | (NormalQuality, _, Cs1500) \<Rightarrow> [[0x5A]]
        | (NormalQuality, ColorCartridge, _) \<Rightarrow> [[0x6E], [0x5A]]
        | (NormalQuality, BlackCartridge, _) \<Rightarrow> [[0x62]]
        | (Best, _, _) \<Rightarrow> [[0x73]])
     @ cleaning_commands (jo_cleaning job) @ closing_commands job"

definition black_commands :: "JobOptions \<Rightarrow> StyleWriterFamily \<Rightarrow> bytes list" where
  "black_commands job family =
     (case family of
        ColorFamily _ \<Rightarrow> []
      | OriginalSw \<Rightarrow> [[0x6E], [0x75], [0x41]]
      | _ \<Rightarrow>
          [[0x75], (case jo_quality job of Draft \<Rightarrow> [0x64] | NormalQuality \<Rightarrow> [0x6E] | Best \<Rightarrow> [0x62]), [0x44]]
          @ cleaning_commands (jo_cleaning job) @ closing_commands job)"

section \<open>Faults\<close>

datatype PrinterFault =
    PrinterFaultError | HardwareError | DoorOpen | WasteInkFull | CartridgeJammed | InkOut | OutOfPaper
  | PaperJam | CheckConnections | CartridgeMissing | PaperTooSmall | Holding | NoResponse

definition from_error_status :: "PrinterFault \<Rightarrow> bool" where
  "from_error_status f = (f \<notin> {PrinterFaultError, HardwareError, DoorOpen, WasteInkFull, Holding, NoResponse})"

definition check_fault :: "bool \<Rightarrow> PrinterFault \<Rightarrow> PrinterFault list \<Rightarrow> PrinterFault list" where
  "check_fault on fault faults = (if on \<and> fault \<notin> set faults then faults @ [fault] else faults)"

definition family_faults :: "StyleWriterFamily \<Rightarrow> u8 option \<Rightarrow> u8 option \<Rightarrow> PrinterFault list" where
  "family_faults family status error =
     (let s = (case status of None \<Rightarrow> 0 | Some b \<Rightarrow> b); e = (case error of None \<Rightarrow> 0 | Some b \<Rightarrow> b);
          f0 = check_fault (status = None \<or> error = None) NoResponse [];
          f1 = (if is_1200_series family
                then
                  check_fault (family = ColorFamily Cs1500 \<and> s AND 0x80 \<noteq> 0) WasteInkFull
                   (check_fault (s AND 0x04 \<noteq> 0) HardwareError
                     (check_fault (s AND 0x02 \<noteq> 0) Holding f0))
                else
                  check_fault (s AND 0x80 \<noteq> 0) WasteInkFull
                   (check_fault (s AND 0x40 \<noteq> 0) DoorOpen
                     (check_fault (s AND 0x04 \<noteq> 0) HardwareError
                       (check_fault (s AND 0x02 \<noteq> 0) PrinterFaultError f0))));
          ink_out = (if is_1200_series family then Holding else InkOut)
      in check_fault (e AND 0x40 \<noteq> 0) PaperTooSmall
          (check_fault (e AND 0x20 \<noteq> 0) CartridgeMissing
            (check_fault (e AND (0x10 OR 0x80) \<noteq> 0) CheckConnections
              (check_fault (e AND 0x08 \<noteq> 0) PaperJam
                (check_fault (e AND 0x04 \<noteq> 0) OutOfPaper
                  (check_fault (e AND 0x02 \<noteq> 0) ink_out
                    (check_fault (e AND 0x01 \<noteq> 0) CartridgeJammed f1)))))))"

record StyleWriterInfo =
  in_identity :: bytes
  in_submodel :: "u8 option"
  in_color_cartridge :: bool
  in_config_raw :: "u8 option"
  in_status_general :: "u8 option"
  in_status_error :: "u8 option"
  in_status_buffer :: "u8 option"

definition info_family :: "StyleWriterInfo \<Rightarrow> StyleWriterFamily option" where
  "info_family i = family_from_identity (in_identity i) (in_submodel i)"

definition info_color_capable :: "StyleWriterInfo \<Rightarrow> bool" where
  "info_color_capable i =
     ((case info_family i of None \<Rightarrow> False | Some f \<Rightarrow> can_print_color f) \<and> in_color_cartridge i)"

definition info_faults :: "StyleWriterInfo \<Rightarrow> PrinterFault list" where
  "info_faults i =
     family_faults (case info_family i of None \<Rightarrow> family_default | Some f \<Rightarrow> f) (in_status_general i) (in_status_error i)"

definition info_out_of_paper :: "StyleWriterInfo \<Rightarrow> bool" where
  "info_out_of_paper i = (OutOfPaper \<in> set (info_faults i))"

definition info_buffer_idle :: "StyleWriterInfo \<Rightarrow> bool option" where
  "info_buffer_idle i =
     (case (in_status_buffer i, info_family i) of
        (Some b, Some f) \<Rightarrow> Some (buffer_idle f b (in_color_cartridge i))
      | _ \<Rightarrow> None)"

section \<open>Facts about the families\<close>

lemma div_ceil_8: "div_ceil n 8 * 8 \<ge> n" "div_ceil n 8 * 8 < n + 8"
  unfolding div_ceil_def by presburger+

lemma div_ceil_mono: "m \<le> n \<Longrightarrow> div_ceil m 8 \<le> div_ceil n 8"
  unfolding div_ceil_def by (rule div_le_mono) simp

lemma print_rowbytes_bound: "print_rowbytes family \<le> 365"
  by (simp add: print_rowbytes_def engine_of_def COLOR_ENGINE_def ENGINE_1200_def ORIGINAL_ENGINE_def div_ceil_def)

text \<open>The families that register as a 1200 on the network are the ones that print like one.\<close>

lemma nbp_type_of_family:
  "family_from_identity identity submodel = Some family \<Longrightarrow>
     (nbp_type_for identity submodel = NBP_TYPE_1200) = is_1200_series family"
  by (auto simp: family_from_identity_def nbp_type_for_def is_1200_series_def NBP_TYPE_def NBP_TYPE_1200_def
      COLOR_FAMILY_def from_submodel_def split: if_splits)

lemma check_fault_set: "set (check_fault on f fs) = set fs \<union> (if on then {f} else {})"
  by (auto simp: check_fault_def)

lemma check_fault_distinct: "distinct fs \<Longrightarrow> distinct (check_fault on f fs)"
  by (auto simp: check_fault_def)

lemma family_faults_distinct: "distinct (family_faults family status error)"
  unfolding family_faults_def Let_def by (cases "is_1200_series family") (simp_all only: if_True if_False check_fault_distinct distinct.simps)

lemma no_response_check: "f \<noteq> NoResponse \<Longrightarrow> NoResponse \<in> set (check_fault on f fs) \<longleftrightarrow> NoResponse \<in> set fs"
  by (auto simp: check_fault_set)

lemma family_faults_answered: "NoResponse \<in> set (family_faults family status error) \<longleftrightarrow> status = None \<or> error = None"
  unfolding family_faults_def Let_def
  by (cases "is_1200_series family") (simp_all only: if_True if_False no_response_check PrinterFault.distinct not_False_eq_True,
      auto simp: check_fault_set)

end
