(* ===== verification/Core_StyleWriter.thy ===== *)
theory Core_StyleWriter
  imports Core_Adsp Sw_Family
begin

text \<open>
  The StyleWriter role of src/tailtalk-core/src/stylewriter.rs over the ADSP endpoint: print requests on
  control connections, the connection called back for a job, the attentions a Mac sends with it, and the
  events for the printer port. The operations are followed by the protocol of the events, which every
  run of the role obeys.
\<close>

section \<open>Attention codes and answers\<close>

definition ATTN_SEND_BREAK :: u16 where "ATTN_SEND_BREAK = 0x0001"
definition ATTN_BREAK_RECEIVED :: u16 where "ATTN_BREAK_RECEIVED = 0x0002"
definition ATTN_SERIAL_CONFIG :: u16 where "ATTN_SERIAL_CONFIG = 0x0003"
definition ATTN_SERIAL_OPTIONS :: u16 where "ATTN_SERIAL_OPTIONS = 0x0004"
definition ATTN_FAST_CLOCK_QUERY :: u16 where "ATTN_FAST_CLOCK_QUERY = 0x0005"
definition ATTN_OUTPUT_DRAINED :: u16 where "ATTN_OUTPUT_DRAINED = 0x0006"
definition ATTN_SERIAL_CONTROL_JF :: u16 where "ATTN_SERIAL_CONTROL_JF = 0x0007"
definition ATTN_SERIAL_CONTROL_LOWER_JF :: u16 where "ATTN_SERIAL_CONTROL_LOWER_JF = 0x0008"
definition ATTN_SET_NAME :: u16 where "ATTN_SET_NAME = 0x0009"
definition ATTN_SET_STATUS :: u16 where "ATTN_SET_STATUS = 0x000A"
definition ATTN_PRINT_REQUEST :: u16 where "ATTN_PRINT_REQUEST = 0x000B"
definition ATTN_WITHDRAW :: u16 where "ATTN_WITHDRAW = 0x000C"
definition ATTN_QUEUE_POSITION :: u16 where "ATTN_QUEUE_POSITION = 0x000D"
definition ATTN_JOB_USER :: u16 where "ATTN_JOB_USER = 0x000E"
definition ATTN_JOB_STATUS :: u16 where "ATTN_JOB_STATUS = 0x0010"
definition ATTN_JOB_COUNT :: u16 where "ATTN_JOB_COUNT = 0x0011"
definition ATTN_END_SESSION :: u16 where "ATTN_END_SESSION = 0x0012"

definition PRINT_REQUEST_LEN :: nat where "PRINT_REQUEST_LEN = 70"
definition USER_NAME_MAX :: nat where "USER_NAME_MAX = 32"
definition JOB_STATUS_TEXT_LEN :: nat where "JOB_STATUS_TEXT_LEN = 255"

definition RESULT_ACCEPTED :: bytes where "RESULT_ACCEPTED = [0x00, 0x00]"
definition RESULT_BUSY :: bytes where "RESULT_BUSY = [0x00, 0x01]"
definition RESULT_REJECTED :: bytes where "RESULT_REJECTED = [0xFF, 0xFF]"
definition OUTPUT_DRAINED :: bytes where "OUTPUT_DRAINED = [0xFF, 0xFF]"
definition OUTPUT_PENDING :: bytes where "OUTPUT_PENDING = [0x00, 0x00]"
definition FAST_CLOCK_UNAVAILABLE :: bytes where "FAST_CLOCK_UNAVAILABLE = [0x00, 0xEF]"
definition SERIAL_CONTROL_REFUSED :: bytes where "SERIAL_CONTROL_REFUSED = u16_bytes (- 17)"

definition PRINTER_RESET :: bytes where "PRINTER_RESET = [0x00, 0xFF, 0xFF, 0xFF, QUERY_RESET]"
definition FAST_CLOCK :: u8 where "FAST_CLOCK = 0x78"
definition FAST_CLOCK_SW :: u8 where "FAST_CLOCK_SW = 0x68"
definition SERIAL_EXTERNAL_CLOCK :: u8 where "SERIAL_EXTERNAL_CLOCK = 0x40"
definition HANDSHAKE_TIMEOUT_US :: micros where "HANDSHAKE_TIMEOUT_US = 15000000"

section \<open>State\<close>

datatype FastClock = ClockSupported | ClockUnsupported

datatype StyleWriterEvent =
    SwJobStarted bytes
  | SwToPrinter bytes
  | SwJobEnded bool
  | SwRename bytes
  | SwFastClockEnable
  | SwFastClockDisable

datatype SwState =
    SwIdle
  | AwaitingCtrlClose u16 ServiceAddress u8
  | SwConnecting u16
  | Piping u16 bool

record StyleWriterRole =
  sw_endpoint :: AdspEndpoint
  sw_state :: SwState
  state_since :: micros
  sw_events :: "StyleWriterEvent list"
  pending_name :: "(u16 \<times> bytes) option"
  job_request :: bytes
  job_status_id :: u16
  job_status :: bytes
  printer_drained :: bool
  data_msg_start :: bool
  fast_clock :: FastClock
  fast_clock_on :: bool

definition sw_new :: "u8 \<Rightarrow> u32 \<Rightarrow> FastClock \<Rightarrow> StyleWriterRole" where
  "sw_new control_socket seed clock = \<lparr>sw_endpoint = set_listening True (adsp_new control_socket seed),
     sw_state = SwIdle, state_since = 0, sw_events = [], pending_name = None,
     job_request = replicate PRINT_REQUEST_LEN 0, job_status_id = 0, job_status = [], printer_drained = True,
     data_msg_start = True, fast_clock = clock, fast_clock_on = False\<rparr>"

definition sw_push :: "StyleWriterEvent \<Rightarrow> StyleWriterRole \<Rightarrow> StyleWriterRole" where
  "sw_push ev r = r\<lparr>sw_events := sw_events r @ [ev]\<rparr>"

definition follow_printer_clock :: "bool \<Rightarrow> StyleWriterRole \<Rightarrow> StyleWriterRole" where
  "follow_printer_clock on r =
     (if on \<noteq> fast_clock_on r
      then sw_push (if on then SwFastClockEnable else SwFastClockDisable) (r\<lparr>fast_clock_on := on\<rparr>) else r)"

definition sw_enter :: "SwState \<Rightarrow> micros \<Rightarrow> StyleWriterRole \<Rightarrow> StyleWriterRole" where
  "sw_enter st now r = r\<lparr>sw_state := st, state_since := now\<rparr>"

definition sw_busy :: "StyleWriterRole \<Rightarrow> bool" where
  "sw_busy r \<longleftrightarrow> sw_state r \<noteq> SwIdle"

definition job_user_reply :: "StyleWriterRole \<Rightarrow> bytes" where
  "job_user_reply r = (if sw_busy r then job_request r else replicate PRINT_REQUEST_LEN 0) @ RESULT_ACCEPTED"

text \<open>\<open>Vec::resize\<close> with zeros.\<close>

definition zero_resized :: "nat \<Rightarrow> bytes \<Rightarrow> bytes" where
  "zero_resized n bs = take n bs @ replicate (n - length bs) 0"

definition job_status_reply :: "StyleWriterRole \<Rightarrow> bytes" where
  "job_status_reply r =
     (let (sid, txt) = (if sw_busy r then (job_status_id r, job_status r) else (0, []))
      in zero_resized (2 + JOB_STATUS_TEXT_LEN) (u16_bytes sid @ [word_of_nat (length txt)] @ txt) @ RESULT_ACCEPTED)"

definition print_request_block :: "bytes \<Rightarrow> bytes" where
  "print_request_block data =
     (let n = min (length data) PRINT_REQUEST_LEN in take n data @ replicate (PRINT_REQUEST_LEN - n) 0)"

definition sw_send :: "u16 \<Rightarrow> bytes \<Rightarrow> StyleWriterRole \<Rightarrow> StyleWriterRole" where
  "sw_send conn reply r = r\<lparr>sw_endpoint := snd (adsp_send conn reply False (sw_endpoint r))\<rparr>"

section \<open>Attentions\<close>

definition sw_print_request :: "u16 \<Rightarrow> bytes \<Rightarrow> micros \<Rightarrow> StyleWriterRole \<Rightarrow> StyleWriterRole" where
  "sw_print_request conn data now r =
     (if length data < 5 then sw_send conn RESULT_REJECTED r
      else if sw_busy r then sw_send conn RESULT_BUSY r
      else
        let data_socket = data ! 3;
            name_len = min (min (unat (data ! 4)) USER_NAME_MAX) (length data - 5);
            user = take name_len (drop 5 data)
        in case remote_of conn (sw_endpoint r) of
             None \<Rightarrow> sw_send conn RESULT_REJECTED r
           | Some remote \<Rightarrow>
               sw_push (SwJobStarted user)
                 (sw_enter (AwaitingCtrlClose conn remote data_socket) now
                   ((sw_send conn RESULT_ACCEPTED r)\<lparr>job_request := print_request_block data,
                      job_status_id := 0, job_status := []\<rparr>)))"

definition sw_withdraw :: "u16 \<Rightarrow> bytes \<Rightarrow> micros \<Rightarrow> StyleWriterRole \<Rightarrow> StyleWriterRole" where
  "sw_withdraw conn data now r =
     (let r1 = sw_send conn RESULT_ACCEPTED r;
          ended = (\<lambda>s. sw_enter SwIdle now (sw_push (SwJobEnded True) s));
          same = (print_request_block data = job_request r1)
      in case sw_state r of
           AwaitingCtrlClose _ _ _ \<Rightarrow> (if same then ended r1 else r1)
         | SwConnecting pending \<Rightarrow>
             (if same then ended (r1\<lparr>sw_endpoint := abandon_open pending (sw_endpoint r1)\<rparr>) else r1)
         | _ \<Rightarrow> r1)"

definition sw_end_session :: "u16 \<Rightarrow> micros \<Rightarrow> StyleWriterRole \<Rightarrow> StyleWriterRole" where
  "sw_end_session conn now r =
     (if (case sw_state r of Piping dc _ \<Rightarrow> conn = dc | _ \<Rightarrow> False)
      then sw_enter (Piping conn True) now (sw_send conn [0xFF, 0xFF] r)
      else
        let r1 = (case pending_name r of
                    None \<Rightarrow> r
                  | Some (c, name) \<Rightarrow> (if c = conn then sw_push (SwRename name) (r\<lparr>pending_name := None\<rparr>) else r))
        in sw_send conn RESULT_ACCEPTED r1)"

definition sw_serial_options :: "u16 \<Rightarrow> bytes \<Rightarrow> StyleWriterRole \<Rightarrow> StyleWriterRole" where
  "sw_serial_options conn data r =
     (let r1 = sw_send conn RESULT_ACCEPTED r in
      if fast_clock r1 = ClockSupported
      then follow_printer_clock (case data of [] \<Rightarrow> False | o1 # _ \<Rightarrow> o1 AND SERIAL_EXTERNAL_CLOCK \<noteq> 0) r1
      else r1)"

definition sw_set_status :: "u16 \<Rightarrow> bytes \<Rightarrow> StyleWriterRole \<Rightarrow> StyleWriterRole" where
  "sw_set_status conn data r =
     (let r1 = (if 2 < length data
                then r\<lparr>job_status_id := be16 (data ! 0) (data ! 1),
                       job_status := take (min (min (unat (data ! 2)) (length data - 3)) (JOB_STATUS_TEXT_LEN - 1)) (drop 3 data)\<rparr>
                else r)
      in sw_send conn RESULT_ACCEPTED r1)"

definition sw_set_name :: "u16 \<Rightarrow> bytes \<Rightarrow> StyleWriterRole \<Rightarrow> StyleWriterRole" where
  "sw_set_name conn data r =
     (let r1 = (case data of
                  [] \<Rightarrow> r
                | len # _ \<Rightarrow>
                    (if len > 0 \<and> length data > unat len
                     then r\<lparr>pending_name := Some (conn, take (unat len) (drop 1 data))\<rparr> else r))
      in sw_send conn RESULT_ACCEPTED r1)"

definition sw_serial_control :: "u16 \<Rightarrow> bytes \<Rightarrow> StyleWriterRole \<Rightarrow> StyleWriterRole" where
  "sw_serial_control conn data r =
     (case fast_clock r of
        ClockSupported \<Rightarrow>
          follow_printer_clock (2 \<le> length data \<and> take 2 data \<noteq> [0, 0]) (sw_send conn RESULT_ACCEPTED r)
      | ClockUnsupported \<Rightarrow> sw_send conn SERIAL_CONTROL_REFUSED r)"

definition sw_handle_attention :: "u16 \<Rightarrow> u16 \<Rightarrow> bytes \<Rightarrow> micros \<Rightarrow> StyleWriterRole \<Rightarrow> StyleWriterRole" where
  "sw_handle_attention conn code data now r =
     (if code = ATTN_PRINT_REQUEST then sw_print_request conn data now r
      else if code = ATTN_WITHDRAW then sw_withdraw conn data now r
      else if code = ATTN_OUTPUT_DRAINED
      then sw_send conn (if printer_drained r then OUTPUT_DRAINED else OUTPUT_PENDING) r
      else if code = ATTN_END_SESSION then sw_end_session conn now r
      else if code = ATTN_JOB_COUNT \<or> code = ATTN_QUEUE_POSITION
      then sw_send conn (u16_bytes (if sw_busy r then 1 else 0)) r
      else if code = ATTN_FAST_CLOCK_QUERY
      then sw_send conn (if fast_clock r = ClockSupported then RESULT_ACCEPTED else FAST_CLOCK_UNAVAILABLE) r
      else if code = ATTN_SERIAL_OPTIONS then sw_serial_options conn data r
      else if code = ATTN_SET_STATUS then sw_set_status conn data r
      else if code = ATTN_JOB_USER then sw_send conn (job_user_reply r) r
      else if code = ATTN_JOB_STATUS then sw_send conn (job_status_reply r) r
      else if code = ATTN_SET_NAME then sw_set_name conn data r
      else if code = ATTN_SERIAL_CONTROL_JF then sw_serial_control conn data r
      else if code = ATTN_SERIAL_CONFIG then follow_printer_clock False (sw_send conn RESULT_ACCEPTED r)
      else sw_send conn RESULT_ACCEPTED r)"

section \<open>Events of the endpoint\<close>

definition sw_opened :: "u16 \<Rightarrow> bool \<Rightarrow> micros \<Rightarrow> StyleWriterRole \<Rightarrow> StyleWriterRole" where
  "sw_opened conn inbound now r =
     (if \<not> inbound \<and> (case sw_state r of SwConnecting _ \<Rightarrow> True | Piping _ _ \<Rightarrow> True | _ \<Rightarrow> False)
      then sw_enter (Piping conn False) now (r\<lparr>data_msg_start := True\<rparr>) else r)"

definition sw_data :: "u16 \<Rightarrow> bytes \<Rightarrow> bool \<Rightarrow> StyleWriterRole \<Rightarrow> StyleWriterRole" where
  "sw_data conn data eom r =
     (case sw_state r of
        Piping dc _ \<Rightarrow>
          (if conn = dc \<and> data \<noteq> []
           then let whole_message = (data_msg_start r \<and> eom); r1 = r\<lparr>data_msg_start := eom\<rparr>
                in if whole_message \<and> (data = [FAST_CLOCK] \<or> data = [FAST_CLOCK_SW]) \<and> fast_clock r = ClockUnsupported
                   then r1 else sw_push (SwToPrinter data) r1
           else r)
      | _ \<Rightarrow> r)"

definition sw_closed :: "u16 \<Rightarrow> micros \<Rightarrow> StyleWriterRole \<Rightarrow> StyleWriterRole option" where
  "sw_closed conn now r0 =
     (let r = (case pending_name r0 of
                 Some (c, _) \<Rightarrow> (if c = conn then r0\<lparr>pending_name := None\<rparr> else r0)
               | None \<Rightarrow> r0)
      in case sw_state r of
           AwaitingCtrlClose ctrl mac_node data_socket \<Rightarrow>
             (if conn = ctrl
              then map_option (\<lambda>(pending, e). sw_enter (SwConnecting pending) now (r\<lparr>sw_endpoint := e\<rparr>))
                     (adsp_connect (mac_node\<lparr>sa_socket := data_socket\<rparr>) now (sw_endpoint r))
              else Some r)
         | Piping dc kill_seen \<Rightarrow>
             (if conn = dc
              then let r1 = (if kill_seen then r else sw_push (SwToPrinter PRINTER_RESET) r)
                   in Some (sw_enter SwIdle now (sw_push (SwJobEnded kill_seen) (follow_printer_clock False r1)))
              else Some r)
         | _ \<Rightarrow> Some r)"

definition sw_open_failed :: "u16 \<Rightarrow> micros \<Rightarrow> StyleWriterRole \<Rightarrow> StyleWriterRole" where
  "sw_open_failed conn now r = (if sw_state r = SwConnecting conn then sw_enter SwIdle now r else r)"

definition sw_handle_adsp_event :: "AdspEvent \<Rightarrow> micros \<Rightarrow> StyleWriterRole \<Rightarrow> StyleWriterRole option" where
  "sw_handle_adsp_event ev now r =
     (case ev of
        Opened conn _ inbound _ \<Rightarrow> Some (sw_opened conn inbound now r)
      | Attention conn code data \<Rightarrow> Some (sw_handle_attention conn code data now r)
      | AdspData conn data eom \<Rightarrow> Some (sw_data conn data eom r)
      | AdspClosed conn \<Rightarrow> sw_closed conn now r
      | AttentionAcked _ \<Rightarrow> Some r
      | AttentionFailed _ \<Rightarrow> Some r
      | OpenFailed conn \<Rightarrow> Some (sw_open_failed conn now r))"


text \<open>What the operations do to the event queue of the endpoint: nothing, so that draining it ends.\<close>

lemma queue_to_events [simp]: "ad_events (queue_to remote ps e) = ad_events e"
  by (simp add: queue_to_def)

lemma put_conn_events [simp]: "ad_events (put_conn k c e) = ad_events e"
  by (simp add: put_conn_def)

lemma pump_events [simp]: "ad_events (pump key now e) = ad_events e"
  by (simp add: pump_def split: option.split prod.split)

lemma adsp_send_events [simp]: "ad_events (snd (adsp_send conn payload eom e)) = ad_events e"
  by (simp add: adsp_send_def Let_def split: option.split)

lemma adsp_connect_events: "adsp_connect remote now e = Some (conn, e') \<Longrightarrow> ad_events e' = ad_events e"
  by (auto simp: adsp_connect_def send_open_request_def split: option.splits)

definition sw_waiting_events :: "StyleWriterRole \<Rightarrow> AdspEvent list" where
  "sw_waiting_events r = ad_events (sw_endpoint r)"

lemma sw_send_waiting [simp]: "sw_waiting_events (sw_send conn reply r) = sw_waiting_events r"
  by (simp add: sw_waiting_events_def sw_send_def)

lemma sw_push_waiting [simp]: "sw_waiting_events (sw_push ev r) = sw_waiting_events r"
  "sw_waiting_events (sw_enter st now r) = sw_waiting_events r"
  "sw_waiting_events (follow_printer_clock on r) = sw_waiting_events r"
  by (simp_all add: sw_waiting_events_def sw_push_def sw_enter_def follow_printer_clock_def)

lemma sw_waiting_updates [simp]:
  "sw_waiting_events (r\<lparr>sw_endpoint := e\<rparr>) = ad_events e" "sw_waiting_events (r\<lparr>job_request := q\<rparr>) = sw_waiting_events r"
  "sw_waiting_events (r\<lparr>job_status_id := i\<rparr>) = sw_waiting_events r" "sw_waiting_events (r\<lparr>job_status := t\<rparr>) = sw_waiting_events r"
  "sw_waiting_events (r\<lparr>pending_name := n\<rparr>) = sw_waiting_events r" "sw_waiting_events (r\<lparr>data_msg_start := b\<rparr>) = sw_waiting_events r"
  by (simp_all add: sw_waiting_events_def)

lemma abandon_open_events [simp]: "ad_events (abandon_open pending e) = ad_events e"
  by (simp add: abandon_open_def)

lemma sw_attention_waiting [simp]: "sw_waiting_events (sw_handle_attention conn code data now r) = sw_waiting_events r"
proof -
  have "ad_events (sw_endpoint (sw_send conn reply s)) = sw_waiting_events s" for reply s
    using sw_send_waiting [of conn reply s] by (simp only: sw_waiting_events_def)
  then have "sw_waiting_events (sw_print_request conn data now r) = sw_waiting_events r"
    "sw_waiting_events (sw_withdraw conn data now r) = sw_waiting_events r"
    "sw_waiting_events (sw_end_session conn now r) = sw_waiting_events r"
    by (simp_all add: sw_print_request_def sw_withdraw_def sw_end_session_def Let_def split: SwState.split option.split prod.split)
  then show ?thesis
    by (simp add: sw_handle_attention_def sw_serial_options_def sw_set_status_def sw_set_name_def sw_serial_control_def Let_def
        split: list.split FastClock.split)
qed

lemma sw_closed_waiting: "sw_closed conn now r = Some r' \<Longrightarrow> sw_waiting_events r' = sw_waiting_events r"
  by (auto simp: sw_closed_def Let_def split: SwState.splits option.splits if_splits dest: adsp_connect_events)
    (auto simp: sw_waiting_events_def dest: adsp_connect_events)

lemma sw_event_waiting: "sw_handle_adsp_event ev now r = Some r' \<Longrightarrow> sw_waiting_events r' = sw_waiting_events r"
  by (cases ev) (auto simp: sw_handle_adsp_event_def sw_opened_def sw_data_def sw_open_failed_def Let_def
      split: SwState.splits if_splits dest: sw_closed_waiting)

function sw_drain :: "micros \<Rightarrow> StyleWriterRole \<Rightarrow> StyleWriterRole option" where
  "sw_drain now r =
     (case adsp_poll_event (sw_endpoint r) of
        (None, e) \<Rightarrow> Some (r\<lparr>sw_endpoint := e\<rparr>)
      | (Some ev, e) \<Rightarrow>
          (case sw_handle_adsp_event ev now (r\<lparr>sw_endpoint := e\<rparr>) of
             None \<Rightarrow> None
           | Some r' \<Rightarrow> sw_drain now r'))"
  by pat_completeness auto
termination
proof (relation "measure (\<lambda>(now, r). length (sw_waiting_events r))", goal_cases)
  case (2 now r x e ev r')
  then have "sw_waiting_events r = ev # ad_events e"
    by (auto simp: sw_waiting_events_def adsp_poll_event_def split: list.splits)
  with sw_event_waiting [OF 2(3)] show ?case by simp
qed simp

declare sw_drain.simps [simp del]

section \<open>The operations of the role\<close>

definition sw_set_printer_credit :: "nat \<Rightarrow> StyleWriterRole \<Rightarrow> StyleWriterRole" where
  "sw_set_printer_credit n r = r\<lparr>sw_endpoint := set_recv_window (word_of_nat (min n 65535)) (sw_endpoint r)\<rparr>"

definition sw_set_printer_drained :: "bool \<Rightarrow> StyleWriterRole \<Rightarrow> StyleWriterRole" where
  "sw_set_printer_drained drained r = r\<lparr>printer_drained := drained\<rparr>"

definition sw_printer_input :: "bytes \<Rightarrow> StyleWriterRole \<Rightarrow> StyleWriterRole" where
  "sw_printer_input data r = (case sw_state r of Piping conn _ \<Rightarrow> sw_send conn data r | _ \<Rightarrow> r)"

definition sw_tx_backlog :: "StyleWriterRole \<Rightarrow> nat" where
  "sw_tx_backlog r = (case sw_state r of Piping conn _ \<Rightarrow> tx_backlog conn (sw_endpoint r) | _ \<Rightarrow> 0)"

definition in_handshake :: "SwState \<Rightarrow> bool" where
  "in_handshake st = (case st of AwaitingCtrlClose _ _ _ \<Rightarrow> True | SwConnecting _ \<Rightarrow> True | _ \<Rightarrow> False)"

definition expire_stalled_handshake :: "micros \<Rightarrow> StyleWriterRole \<Rightarrow> StyleWriterRole" where
  "expire_stalled_handshake now r =
     (if in_handshake (sw_state r) \<and> now - state_since r > HANDSHAKE_TIMEOUT_US
      then sw_enter SwIdle now (sw_push (SwJobEnded False) r) else r)"

definition sw_handle_datagram :: "ServiceAddress \<Rightarrow> bytes \<Rightarrow> micros \<Rightarrow> StyleWriterRole \<Rightarrow> StyleWriterRole option" where
  "sw_handle_datagram src payload now r =
     sw_drain now (r\<lparr>sw_endpoint := adsp_handle_datagram src payload now (sw_endpoint r)\<rparr>)"

definition sw_poll :: "micros \<Rightarrow> StyleWriterRole \<Rightarrow> StyleWriterRole option" where
  "sw_poll now r =
     map_option (expire_stalled_handshake now) (sw_drain now (r\<lparr>sw_endpoint := adsp_poll now (sw_endpoint r)\<rparr>))"

definition sw_next_deadline :: "StyleWriterRole \<Rightarrow> micros option" where
  "sw_next_deadline r =
     (case (adsp_next_deadline (sw_endpoint r),
            if in_handshake (sw_state r) then Some (state_since r + HANDSHAKE_TIMEOUT_US) else None) of
        (Some a, Some b) \<Rightarrow> Some (min a b)
      | (None, b) \<Rightarrow> b
      | (a, None) \<Rightarrow> a)"

definition sw_poll_transmit :: "StyleWriterRole \<Rightarrow> (ServiceAddress \<times> bytes) option \<times> StyleWriterRole" where
  "sw_poll_transmit r = (let (t, e) = adsp_poll_transmit (sw_endpoint r) in (t, r\<lparr>sw_endpoint := e\<rparr>))"

definition sw_poll_event :: "StyleWriterRole \<Rightarrow> StyleWriterEvent option \<times> StyleWriterRole" where
  "sw_poll_event r = (case sw_events r of [] \<Rightarrow> (None, r) | ev # evs \<Rightarrow> (Some ev, r\<lparr>sw_events := evs\<rparr>))"

text \<open>Polling before the deadline changes nothing, provided the endpoint's events have been drained.\<close>

interpretation sw_timer: timed_machine sw_next_deadline "\<lambda>now r. ((), the (sw_poll now r))" "()" "\<lambda>r. sw_waiting_events r = []"
proof unfold_locales
  fix r now assume w: "sw_waiting_events r = []" and d: "before_deadline (sw_next_deadline r) now"
  from d have a: "before_deadline (adsp_next_deadline (sw_endpoint r)) now"
    and b: "in_handshake (sw_state r) \<Longrightarrow> now < state_since r + HANDSHAKE_TIMEOUT_US"
    by (auto simp: sw_next_deadline_def before_deadline_def split: option.splits if_splits)
  from adsp_timer.early_poll [OF _ a] have "adsp_poll now (sw_endpoint r) = sw_endpoint r" by simp
  moreover have "sw_drain now r = Some r"
    using w by (subst sw_drain.simps) (simp add: adsp_poll_event_def sw_waiting_events_def)
  moreover have "expire_stalled_handshake now r = r" using b by (auto simp: expire_stalled_handshake_def)
  ultimately have "sw_poll now r = Some r" by (simp add: sw_poll_def)
  then show "((), the (sw_poll now r)) = ((), r)" by simp
qed

end
