(* ===== verification/Core_StyleWriter_Jobs.thy ===== *)
theory Core_StyleWriter_Jobs
  imports Core_StyleWriter
begin

text \<open>
  What the embedder of the StyleWriter role of src/tailtalk-core/src/stylewriter.rs can rely on: the protocol of its
  events, as a step relation every run follows, and what it gives about the printer at the end of a job;
  the answers to attentions; and the release of a handshake that stalls.
\<close>

section \<open>The protocol of the events\<close>

text \<open>
  Where a job is, as far as the embedder can tell, and whether the port follows the printer's clock.
  \<open>JobPrinting\<close> says whether the client has asked to end the session; \<open>JobResetting\<close> is the moment between the
  reset of a vanished client and the end of its job.
\<close>

datatype JobPhase = NoJob | JobWaiting | JobPrinting bool | JobResetting

inductive sw_step :: "JobPhase \<times> bool \<Rightarrow> StyleWriterEvent list \<Rightarrow> JobPhase \<times> bool \<Rightarrow> bool" where
  accepted: "sw_step (NoJob, c) [SwJobStarted user] (JobWaiting, c)"
| dropped: "sw_step (JobWaiting, c) [SwJobEnded clean] (NoJob, c)"
| unreachable: "sw_step (JobWaiting, c) [] (NoJob, c)"
| called_back: "sw_step (JobWaiting, c) [] (JobPrinting False, c)"
| moved: "sw_step (JobPrinting k, c) [] (JobPrinting False, c)"
| printed: "data \<noteq> [] \<Longrightarrow> sw_step (JobPrinting k, c) [SwToPrinter data] (JobPrinting k, c)"
| ending: "sw_step (JobPrinting k, c) [] (JobPrinting True, c)"
| vanished: "sw_step (JobPrinting False, c) [SwToPrinter PRINTER_RESET] (JobResetting, c)"
| ended: "sw_step (JobPrinting True, False) [SwJobEnded True] (NoJob, False)"
| reset: "sw_step (JobResetting, False) [SwJobEnded False] (NoJob, False)"
| clock_on: "p \<noteq> JobResetting \<Longrightarrow> sw_step (p, False) [SwFastClockEnable] (p, True)"
| clock_off: "sw_step (p, True) [SwFastClockDisable] (p, False)"
| renamed: "p \<noteq> JobResetting \<Longrightarrow> sw_step (p, c) [SwRename name] (p, c)"

inductive_cases sw_step_startedE: "sw_step s [SwJobStarted user] s'"
inductive_cases sw_step_endedE: "sw_step s [SwJobEnded clean] s'"

inductive sw_runs :: "JobPhase \<times> bool \<Rightarrow> StyleWriterEvent list \<Rightarrow> JobPhase \<times> bool \<Rightarrow> bool" where
  runs_refl: "sw_runs s [] s"
| runs_step: "sw_runs s evs s' \<Longrightarrow> sw_step s' e s'' \<Longrightarrow> sw_runs s (evs @ e) s''"

lemma runs_one: "sw_step s e s' \<Longrightarrow> sw_runs s e s'"
  using runs_step [OF runs_refl, of s e s'] by simp

lemma runs_trans: "sw_runs s' evs2 s'' \<Longrightarrow> sw_runs s evs1 s' \<Longrightarrow> sw_runs s (evs1 @ evs2) s''"
  by (induction rule: sw_runs.induct) (auto intro: runs_step simp flip: append_assoc)

fun sw_phase :: "SwState \<Rightarrow> JobPhase" where
  "sw_phase SwIdle = NoJob"
| "sw_phase (AwaitingCtrlClose _ _ _) = JobWaiting"
| "sw_phase (SwConnecting _) = JobWaiting"
| "sw_phase (Piping _ kill_seen) = JobPrinting kill_seen"

definition sw_abs :: "StyleWriterRole \<Rightarrow> JobPhase \<times> bool" where
  "sw_abs r = (sw_phase (sw_state r), fast_clock_on r)"

definition sw_wf :: "StyleWriterRole \<Rightarrow> bool" where
  "sw_wf r \<longleftrightarrow> length (job_request r) = PRINT_REQUEST_LEN \<and> length (job_status r) < JOB_STATUS_TEXT_LEN"

definition sw_evolves :: "StyleWriterRole \<Rightarrow> StyleWriterRole \<Rightarrow> bool" where
  "sw_evolves r r' \<longleftrightarrow> (sw_wf r \<longrightarrow> sw_wf r') \<and> (\<exists>evs. sw_events r' = sw_events r @ evs \<and> sw_runs (sw_abs r) evs (sw_abs r'))"

lemma evolves_trans [trans]: "sw_evolves a b \<Longrightarrow> sw_evolves b c \<Longrightarrow> sw_evolves a c"
  unfolding sw_evolves_def using runs_trans by fastforce

lemma evolves_silent: "sw_events r' = sw_events r \<Longrightarrow> sw_abs r' = sw_abs r \<Longrightarrow> (sw_wf r \<Longrightarrow> sw_wf r') \<Longrightarrow> sw_evolves r r'"
  unfolding sw_evolves_def by (auto intro: runs_refl)

lemma evolves_step: "sw_step (sw_abs r) evs (sw_abs r') \<Longrightarrow> sw_events r' = sw_events r @ evs \<Longrightarrow> (sw_wf r \<Longrightarrow> sw_wf r') \<Longrightarrow> sw_evolves r r'"
  unfolding sw_evolves_def by (auto intro: runs_one)

lemma evolves_refl [simp]: "sw_evolves r r"
  by (rule evolves_silent) simp_all

lemma sw_send_fields [simp]:
  "sw_events (sw_send conn reply r) = sw_events r" "sw_state (sw_send conn reply r) = sw_state r"
  "fast_clock_on (sw_send conn reply r) = fast_clock_on r" "job_request (sw_send conn reply r) = job_request r"
  "job_status (sw_send conn reply r) = job_status r" "fast_clock (sw_send conn reply r) = fast_clock r"
  "pending_name (sw_send conn reply r) = pending_name r"
  by (simp_all add: sw_send_def)

lemma evolves_send: "sw_evolves r (sw_send conn reply r)"
  by (rule evolves_silent) (simp_all add: sw_abs_def sw_wf_def)

lemma evolves_clock: "sw_phase (sw_state r) \<noteq> JobResetting \<Longrightarrow> sw_evolves r (follow_printer_clock on r)"
proof (cases "on = fast_clock_on r")
  case False
  assume p: "sw_phase (sw_state r) \<noteq> JobResetting"
  show ?thesis
    by (rule evolves_step [of r "[if on then SwFastClockEnable else SwFastClockDisable]"])
      (use False p in \<open>auto simp: follow_printer_clock_def sw_push_def sw_abs_def sw_wf_def intro: sw_step.intros\<close>)
qed (simp add: follow_printer_clock_def)

lemma phase_not_resetting [simp]: "sw_phase st \<noteq> JobResetting"
  by (cases st) simp_all

section \<open>Every operation follows the protocol\<close>

lemma evolves_print_request: "sw_evolves r (sw_print_request conn data now r)"
proof (cases "length data < 5 \<or> sw_busy r \<or> remote_of conn (sw_endpoint r) = None")
  case True
  then show ?thesis by (auto simp: sw_print_request_def Let_def evolves_send)
next
  case False
  then obtain remote where f: "\<not> length data < 5" "sw_state r = SwIdle" "remote_of conn (sw_endpoint r) = Some remote"
    by (auto simp: sw_busy_def)
  let ?user = "take (min (min (unat (data ! 4)) USER_NAME_MAX) (length data - 5)) (drop 5 data)"
  show ?thesis
    by (rule evolves_step [of r "[SwJobStarted ?user]"])
      (use f in \<open>simp_all add: sw_print_request_def sw_busy_def sw_push_def sw_enter_def sw_abs_def sw_wf_def
        print_request_block_def Let_def PRINT_REQUEST_LEN_def JOB_STATUS_TEXT_LEN_def sw_step.intros\<close>)
qed

lemma evolves_withdraw: "sw_evolves r (sw_withdraw conn data now r)"
proof -
  let ?s = "sw_send conn RESULT_ACCEPTED r"
  have e: "sw_evolves ?s (sw_enter SwIdle now (sw_push (SwJobEnded True) (?s\<lparr>sw_endpoint := ep\<rparr>)))"
    if "sw_phase (sw_state r) = JobWaiting" for ep
    by (rule evolves_step [of _ "[SwJobEnded True]"])
      (use that in \<open>simp_all add: sw_push_def sw_enter_def sw_abs_def sw_wf_def sw_step.intros\<close>)
  have "sw_evolves ?s (sw_withdraw conn data now r)"
    using e [of "sw_endpoint ?s"] e
    by (cases "sw_state r") (simp_all add: sw_withdraw_def Let_def)
  with evolves_send show ?thesis by (rule evolves_trans)
qed

lemma evolves_end_session: "sw_evolves r (sw_end_session conn now r)"
proof (cases "case sw_state r of Piping dc _ \<Rightarrow> conn = dc | _ \<Rightarrow> False")
  case True
  then obtain k where k: "sw_state r = Piping conn k" by (auto split: SwState.splits)
  have "sw_evolves (sw_send conn [0xFF, 0xFF] r) (sw_enter (Piping conn True) now (sw_send conn [0xFF, 0xFF] r))"
    by (rule evolves_step [of _ "[]"]) (simp_all add: sw_enter_def sw_abs_def k sw_wf_def sw_step.intros)
  with evolves_send [of r conn "[0xFF, 0xFF]"] k show ?thesis by (auto simp: sw_end_session_def intro: evolves_trans)
next
  case False
  let ?r1 = "case pending_name r of None \<Rightarrow> r
      | Some (c, name) \<Rightarrow> (if c = conn then sw_push (SwRename name) (r\<lparr>pending_name := None\<rparr>) else r)"
  have "sw_evolves r ?r1"
  proof (cases "\<exists>name. pending_name r = Some (conn, name)")
    case True
    then obtain name where n: "pending_name r = Some (conn, name)" by blast
    show ?thesis
      by (rule evolves_step [of _ "[SwRename name]"]) (simp_all add: n sw_push_def sw_abs_def sw_wf_def sw_step.intros)
  qed (auto split: option.split)
  then have "sw_evolves r (sw_send conn RESULT_ACCEPTED ?r1)" using evolves_send by (rule evolves_trans)
  with False show ?thesis by (simp only: sw_end_session_def if_False Let_def)
qed

lemma evolves_attention: "sw_evolves r (sw_handle_attention conn code data now r)"
proof -
  have c: "sw_evolves r (follow_printer_clock on (sw_send conn reply r))" for on reply
    using evolves_send evolves_clock by (rule evolves_trans) simp
  have "sw_evolves r (sw_serial_options conn data r)" by (simp add: sw_serial_options_def Let_def c evolves_send)
  moreover have "sw_evolves r (sw_serial_control conn data r)"
    by (simp add: sw_serial_control_def c evolves_send split: FastClock.split)
  moreover have "sw_evolves r (sw_set_status conn data r)"
    unfolding sw_set_status_def Let_def
    by (rule evolves_trans [OF evolves_silent evolves_send]) (auto simp: sw_abs_def sw_wf_def JOB_STATUS_TEXT_LEN_def)
  moreover have "sw_evolves r (sw_set_name conn data r)"
    unfolding sw_set_name_def Let_def
    by (rule evolves_trans [OF evolves_silent evolves_send]) (auto simp: sw_abs_def sw_wf_def split: list.split)
  ultimately show ?thesis
    by (simp add: sw_handle_attention_def evolves_send evolves_print_request evolves_withdraw evolves_end_session c)
qed

lemma evolves_closed:
  assumes "sw_closed conn now r0 = Some r'"
  shows "sw_evolves r0 r'"
proof -
  define r where "r = (case pending_name r0 of Some (c, _) \<Rightarrow> (if c = conn then r0\<lparr>pending_name := None\<rparr> else r0) | None \<Rightarrow> r0)"
  have start: "sw_evolves r0 r" by (rule evolves_silent) (auto simp: r_def sw_abs_def sw_wf_def split: option.split)
  have cl: "(case sw_state r of
      AwaitingCtrlClose ctrl mac_node data_socket \<Rightarrow>
        (if conn = ctrl
         then map_option (\<lambda>(pending, e). sw_enter (SwConnecting pending) now (r\<lparr>sw_endpoint := e\<rparr>))
                (adsp_connect (mac_node\<lparr>sa_socket := data_socket\<rparr>) now (sw_endpoint r))
         else Some r)
    | Piping dc kill_seen \<Rightarrow>
        (if conn = dc
         then Some (sw_enter SwIdle now (sw_push (SwJobEnded kill_seen)
           (follow_printer_clock False (if kill_seen then r else sw_push (SwToPrinter PRINTER_RESET) r))))
         else Some r)
    | _ \<Rightarrow> Some r) = Some r'"
    using assms by (simp only: sw_closed_def Let_def r_def)
  have "sw_evolves r r'"
  proof (cases "sw_state r")
    case (AwaitingCtrlClose ctrl mac_node data_socket)
    with cl show ?thesis
      by (auto simp: sw_enter_def sw_abs_def sw_wf_def intro!: evolves_silent split: if_splits)
  next
    case (Piping dc k)
    show ?thesis
    proof (cases "conn = dc")
      case True
      let ?r1 = "if k then r else sw_push (SwToPrinter PRINTER_RESET) r"
      let ?r2 = "follow_printer_clock False ?r1"
      let ?p = "if k then JobPrinting True else JobResetting"
      from cl Piping True have r': "r' = sw_enter SwIdle now (sw_push (SwJobEnded k) ?r2)"
        by simp
      have a: "sw_runs (sw_abs r) (if k then [] else [SwToPrinter PRINTER_RESET]) (?p, fast_clock_on r)"
        using Piping by (auto simp: sw_abs_def intro: runs_refl runs_one sw_step.intros)
      have b: "sw_runs (?p, fast_clock_on r) (if fast_clock_on r then [SwFastClockDisable] else []) (?p, False)"
        by (auto intro: runs_refl runs_one sw_step.intros)
      have abs': "sw_abs r' = (NoJob, False)"
        by (simp add: r' sw_abs_def sw_enter_def sw_push_def follow_printer_clock_def)
      have c: "sw_runs (?p, False) [SwJobEnded k] (NoJob, False)" by (auto intro: runs_one sw_step.intros)
      have "sw_runs (sw_abs r) (((if k then [] else [SwToPrinter PRINTER_RESET])
          @ (if fast_clock_on r then [SwFastClockDisable] else [])) @ [SwJobEnded k]) (sw_abs r')"
        using runs_trans [OF c runs_trans [OF b a]] by (simp only: abs')
      moreover have "sw_events r' = sw_events r @ ((if k then [] else [SwToPrinter PRINTER_RESET])
          @ (if fast_clock_on r then [SwFastClockDisable] else [])) @ [SwJobEnded k]"
        by (simp add: r' sw_enter_def sw_push_def follow_printer_clock_def)
      moreover have "sw_wf r \<longrightarrow> sw_wf r'" by (simp add: r' sw_enter_def sw_push_def follow_printer_clock_def sw_wf_def)
      ultimately show ?thesis unfolding sw_evolves_def by auto
    qed (use cl Piping in simp)
  qed (use cl in simp_all)
  with start show ?thesis by (rule evolves_trans)
qed

lemma sw_data_cases:
  "sw_data conn data eom r = r \<or> sw_data conn data eom r = r\<lparr>data_msg_start := eom\<rparr>
   \<or> (\<exists>k. sw_state r = Piping conn k \<and> data \<noteq> []
        \<and> sw_data conn data eom r = sw_push (SwToPrinter data) (r\<lparr>data_msg_start := eom\<rparr>))"
proof (cases "\<exists>k. sw_state r = Piping conn k \<and> data \<noteq> []")
  case True
  then obtain k where "sw_state r = Piping conn k" "data \<noteq> []" by blast
  then show ?thesis by (simp add: sw_data_def Let_def)
next
  case False
  then have "sw_data conn data eom r = r" by (auto simp: sw_data_def split: SwState.split)
  then show ?thesis ..
qed

lemma evolves_event:
  assumes "sw_handle_adsp_event ev now r = Some r'"
  shows "sw_evolves r r'"
proof (cases ev)
  case (Opened conn remote inbound ours)
  show ?thesis
  proof (cases "r' = r")
    case False
    with assms Opened have "sw_phase (sw_state r) = JobWaiting \<or> (\<exists>k. sw_phase (sw_state r) = JobPrinting k)"
      and r': "r' = sw_enter (Piping conn False) now (r\<lparr>data_msg_start := True\<rparr>)"
      by (auto simp: sw_handle_adsp_event_def sw_opened_def split: if_splits SwState.splits)
    then show ?thesis
      by (intro evolves_step [of _ "[]"]) (auto simp: r' sw_enter_def sw_abs_def sw_wf_def intro: sw_step.intros)
  qed simp
next
  case (OpenFailed conn)
  show ?thesis
  proof (cases "r' = r")
    case False
    with assms OpenFailed have "sw_phase (sw_state r) = JobWaiting" and r': "r' = sw_enter SwIdle now r"
      by (auto simp: sw_handle_adsp_event_def sw_open_failed_def split: if_splits)
    then show ?thesis
      by (intro evolves_step [of _ "[]"]) (auto simp: r' sw_enter_def sw_abs_def sw_wf_def intro: sw_step.intros)
  qed simp
next
  case (AdspData conn data eom)
  let ?r1 = "r\<lparr>data_msg_start := eom\<rparr>"
  have d: "sw_data conn data eom r = r'" using assms AdspData by (simp add: sw_handle_adsp_event_def)
  from sw_data_cases [of conn data eom r, unfolded d] consider "r' = r" | "r' = ?r1"
    | k where "sw_state r = Piping conn k" "data \<noteq> []" "r' = sw_push (SwToPrinter data) ?r1" by (elim disjE exE conjE)
  then show ?thesis
  proof cases
    case 2
    then show ?thesis by (intro evolves_silent) (simp_all add: sw_abs_def sw_wf_def)
  next
    case (3 k)
    then show ?thesis
      by (intro evolves_step [of _ "[SwToPrinter data]"]) (simp_all add: sw_push_def sw_abs_def sw_wf_def sw_step.intros)
  qed simp
qed (use assms in \<open>auto simp: sw_handle_adsp_event_def evolves_attention intro: evolves_closed\<close>)

lemma evolves_drain: "sw_drain now r = Some r' \<Longrightarrow> sw_evolves r r'"
proof (induction now r rule: sw_drain.induct)
  case (1 now r)
  obtain x e where p: "adsp_poll_event (sw_endpoint r) = (x, e)" by (cases "adsp_poll_event (sw_endpoint r)")
  have s: "sw_evolves r (r\<lparr>sw_endpoint := e\<rparr>)" by (rule evolves_silent) (simp_all add: sw_abs_def sw_wf_def)
  show ?case
  proof (cases x)
    case None
    with 1(2) p s show ?thesis by (simp add: sw_drain.simps [of now r])
  next
    case (Some ev)
    with 1(2) p obtain r1 where r1: "sw_handle_adsp_event ev now (r\<lparr>sw_endpoint := e\<rparr>) = Some r1" "sw_drain now r1 = Some r'"
      by (auto simp: sw_drain.simps [of now r] split: option.splits)
    from s evolves_event [OF r1(1)] have "sw_evolves r r1" by (rule evolves_trans)
    moreover have "sw_evolves r1 r'" by (rule 1(1) [OF p [symmetric] Some r1])
    ultimately show ?thesis by (rule evolves_trans)
  qed
qed

lemma evolves_endpoint: "sw_evolves r (r\<lparr>sw_endpoint := e\<rparr>)"
  by (rule evolves_silent) (simp_all add: sw_abs_def sw_wf_def)

lemma evolves_expire: "sw_evolves r (expire_stalled_handshake now r)"
proof (cases "in_handshake (sw_state r) \<and> now - state_since r > HANDSHAKE_TIMEOUT_US")
  case True
  then have "sw_phase (sw_state r) = JobWaiting" by (auto simp: in_handshake_def split: SwState.splits)
  with True show ?thesis
    by (intro evolves_step [of _ "[SwJobEnded False]"])
      (simp_all add: expire_stalled_handshake_def sw_enter_def sw_push_def sw_abs_def sw_wf_def sw_step.intros)
next
  case False
  then show ?thesis by (simp only: expire_stalled_handshake_def if_False evolves_refl)
qed

section \<open>Runs of the role\<close>

datatype SwInput =
    SwDatagram ServiceAddress bytes micros
  | SwPoll micros
  | SwCredit nat
  | SwDrained bool
  | SwInput bytes
  | SwTakeTransmit
  | SwTakeEvent

text \<open>The role, and the events handed out so far.\<close>

definition sw_apply :: "SwInput \<Rightarrow> StyleWriterEvent list \<times> StyleWriterRole \<Rightarrow> (StyleWriterEvent list \<times> StyleWriterRole) option" where
  "sw_apply i st =
     (let (taken, r) = st in
      case i of
        SwDatagram src payload now \<Rightarrow> map_option (Pair taken) (sw_handle_datagram src payload now r)
      | SwPoll now \<Rightarrow> map_option (Pair taken) (sw_poll now r)
      | SwCredit n \<Rightarrow> Some (taken, sw_set_printer_credit n r)
      | SwDrained b \<Rightarrow> Some (taken, sw_set_printer_drained b r)
      | SwInput data \<Rightarrow> Some (taken, sw_printer_input data r)
      | SwTakeTransmit \<Rightarrow> Some (taken, snd (sw_poll_transmit r))
      | SwTakeEvent \<Rightarrow> (let (ev, r') = sw_poll_event r in Some (taken @ (case ev of None \<Rightarrow> [] | Some e \<Rightarrow> [e]), r')))"

fun sw_run :: "SwInput list \<Rightarrow> StyleWriterEvent list \<times> StyleWriterRole \<Rightarrow> (StyleWriterEvent list \<times> StyleWriterRole) option" where
  "sw_run [] st = Some st"
| "sw_run (i # is) st = (case sw_apply i st of None \<Rightarrow> None | Some st' \<Rightarrow> sw_run is st')"

definition sw_all_events :: "StyleWriterEvent list \<times> StyleWriterRole \<Rightarrow> StyleWriterEvent list" where
  "sw_all_events st = fst st @ sw_events (snd st)"

definition sw_run_ok :: "StyleWriterEvent list \<times> StyleWriterRole \<Rightarrow> bool" where
  "sw_run_ok st \<longleftrightarrow> sw_runs (NoJob, False) (sw_all_events st) (sw_abs (snd st)) \<and> sw_wf (snd st)"

lemma sw_run_ok_evolves: "sw_run_ok (taken, r) \<Longrightarrow> sw_evolves r r' \<Longrightarrow> sw_run_ok (taken, r')"
  unfolding sw_run_ok_def sw_evolves_def sw_all_events_def using runs_trans by fastforce

lemma sw_apply_ok:
  assumes "sw_run_ok st" and "sw_apply i st = Some st'"
  shows "sw_run_ok st'"
proof -
  obtain taken r where st: "st = (taken, r)" by (cases st)
  note ev = sw_run_ok_evolves [OF assms(1) [unfolded st]]
  show ?thesis
  proof (cases i)
    case (SwDatagram src payload now)
    with assms(2) st obtain r' where "sw_handle_datagram src payload now r = Some r'" "st' = (taken, r')" by (auto simp: sw_apply_def)
    with ev evolves_trans [OF evolves_endpoint evolves_drain] show ?thesis by (auto simp: sw_handle_datagram_def)
  next
    case (SwPoll now)
    with assms(2) st obtain r' where r': "sw_poll now r = Some r'" "st' = (taken, r')" by (auto simp: sw_apply_def)
    then obtain r1 where "sw_drain now (r\<lparr>sw_endpoint := adsp_poll now (sw_endpoint r)\<rparr>) = Some r1"
      "r' = expire_stalled_handshake now r1" by (auto simp: sw_poll_def)
    with ev r'(2) evolves_trans [OF evolves_trans [OF evolves_endpoint evolves_drain] evolves_expire] show ?thesis by blast
  next
    case (SwInput data)
    have "sw_evolves r (sw_printer_input data r)" by (simp add: sw_printer_input_def evolves_send split: SwState.split)
    with ev SwInput assms(2) st show ?thesis by (auto simp: sw_apply_def)
  next
    case (SwDrained b)
    have "sw_evolves r (sw_set_printer_drained b r)"
      by (rule evolves_silent) (simp_all add: sw_set_printer_drained_def sw_abs_def sw_wf_def)
    with ev SwDrained assms(2) st show ?thesis by (auto simp: sw_apply_def)
  next
    case SwTakeEvent
    with assms st show ?thesis
      by (auto simp: sw_apply_def sw_poll_event_def sw_run_ok_def sw_all_events_def sw_abs_def sw_wf_def split: list.splits)
  qed (use assms st ev evolves_endpoint in \<open>auto simp: sw_apply_def sw_set_printer_credit_def sw_poll_transmit_def split_beta\<close>)
qed

lemma sw_run_ok: "sw_run is st = Some st' \<Longrightarrow> sw_run_ok st \<Longrightarrow> sw_run_ok st'"
  by (induction "is" st rule: sw_run.induct) (auto split: option.splits dest: sw_apply_ok)

lemma sw_new_ok: "sw_run_ok ([], sw_new socket seed clock)"
  by (simp add: sw_run_ok_def sw_all_events_def sw_new_def sw_abs_def sw_wf_def JOB_STATUS_TEXT_LEN_def runs_refl)

section \<open>The end of a job\<close>

text \<open>Whether the port follows the printer's clock after the events, and whether the job they end in has printed.\<close>

definition clock_after :: "StyleWriterEvent list \<Rightarrow> bool" where
  "clock_after evs = foldl (\<lambda>on ev. case ev of SwFastClockEnable \<Rightarrow> True | SwFastClockDisable \<Rightarrow> False | _ \<Rightarrow> on) False evs"

definition printed_since :: "StyleWriterEvent list \<Rightarrow> bool" where
  "printed_since evs =
     foldl (\<lambda>p ev. case ev of SwToPrinter _ \<Rightarrow> True | SwJobStarted _ \<Rightarrow> False | SwJobEnded _ \<Rightarrow> False | _ \<Rightarrow> p) False evs"

definition reset_last :: "StyleWriterEvent list \<Rightarrow> bool" where
  "reset_last evs \<longleftrightarrow> (\<exists>rest. evs = rest @ [SwToPrinter PRINTER_RESET] \<or> evs = rest @ [SwToPrinter PRINTER_RESET, SwFastClockDisable])"

definition job_end_ok :: "StyleWriterEvent list \<Rightarrow> bool \<Rightarrow> bool" where
  "job_end_ok evs clean \<longleftrightarrow> (printed_since evs \<longrightarrow> \<not> clock_after evs \<and> (clean \<or> reset_last evs))"

definition job_ends_ok :: "StyleWriterEvent list \<Rightarrow> bool" where
  "job_ends_ok evs \<longleftrightarrow> (\<forall>pre clean post. evs = pre @ SwJobEnded clean # post \<longrightarrow> job_end_ok pre clean)"

definition trace_inv :: "StyleWriterEvent list \<Rightarrow> JobPhase \<times> bool \<Rightarrow> bool" where
  "trace_inv evs s \<longleftrightarrow> clock_after evs = snd s \<and> (fst s \<in> {NoJob, JobWaiting} \<longrightarrow> \<not> printed_since evs)
     \<and> (fst s = JobResetting \<longrightarrow> (if snd s then \<exists>rest. evs = rest @ [SwToPrinter PRINTER_RESET] else reset_last evs))
     \<and> job_ends_ok evs"

lemma job_ends_snoc: "job_ends_ok (evs @ [ev]) \<longleftrightarrow> job_ends_ok evs \<and> (\<forall>clean. ev = SwJobEnded clean \<longrightarrow> job_end_ok evs clean)"
proof
  assume l: "job_ends_ok (evs @ [ev])"
  have "job_end_ok pre clean" if "evs = pre @ SwJobEnded clean # post" for pre clean post
    using l [unfolded job_ends_ok_def, rule_format, of pre clean "post @ [ev]"] that by simp
  moreover have "job_end_ok evs clean" if "ev = SwJobEnded clean" for clean
    using l [unfolded job_ends_ok_def, rule_format, of evs clean "[]"] that by simp
  ultimately show "job_ends_ok evs \<and> (\<forall>clean. ev = SwJobEnded clean \<longrightarrow> job_end_ok evs clean)"
    unfolding job_ends_ok_def by blast
next
  assume r: "job_ends_ok evs \<and> (\<forall>clean. ev = SwJobEnded clean \<longrightarrow> job_end_ok evs clean)"
  have "job_end_ok pre clean" if "evs @ [ev] = pre @ SwJobEnded clean # post" for pre clean post
    using that r by (cases post rule: rev_cases) (auto simp: job_ends_ok_def simp flip: append_Cons append_assoc)
  then show "job_ends_ok (evs @ [ev])" unfolding job_ends_ok_def by blast
qed

lemma clock_after_snoc [simp]:
  "clock_after (evs @ [ev]) = (case ev of SwFastClockEnable \<Rightarrow> True | SwFastClockDisable \<Rightarrow> False | _ \<Rightarrow> clock_after evs)"
  by (simp add: clock_after_def split: StyleWriterEvent.split)

lemma printed_since_snoc [simp]:
  "printed_since (evs @ [ev]) =
     (case ev of SwToPrinter _ \<Rightarrow> True | SwJobStarted _ \<Rightarrow> False | SwJobEnded _ \<Rightarrow> False | _ \<Rightarrow> printed_since evs)"
  by (simp add: printed_since_def split: StyleWriterEvent.split)

lemma reset_last_intros:
  "reset_last (rest @ [SwToPrinter PRINTER_RESET])" "reset_last (rest @ [SwToPrinter PRINTER_RESET, SwFastClockDisable])"
  by (auto simp: reset_last_def)

lemma trace_inv_step:
  assumes "sw_step s e s'" and "trace_inv evs s"
  shows "trace_inv (evs @ e) s'"
  using assms
proof (induction rule: sw_step.induct)
  case (clock_off p)
  show ?case
  proof (cases "p = JobResetting")
    case True
    with clock_off obtain rest where "evs = rest @ [SwToPrinter PRINTER_RESET]" by (auto simp: trace_inv_def)
    then have "reset_last (evs @ [SwFastClockDisable])" using reset_last_intros(2) [of rest] by simp
    with clock_off True show ?thesis by (simp add: trace_inv_def job_ends_snoc)
  qed (use clock_off in \<open>simp add: trace_inv_def job_ends_snoc\<close>)
qed (simp_all add: trace_inv_def job_ends_snoc job_end_ok_def reset_last_intros)

lemma trace_inv_runs: "sw_runs s evs s' \<Longrightarrow> s = (NoJob, False) \<Longrightarrow> trace_inv evs s'"
proof (induction rule: sw_runs.induct)
  case (runs_refl s)
  then show ?case by (simp add: trace_inv_def clock_after_def printed_since_def job_ends_ok_def)
qed (use trace_inv_step in blast)

text \<open>
Claim C16: Whatever arrives, and in whatever order, the events of the role follow the protocol: a job is accepted
  before it prints or ends, its bytes come between the call back and its end, a vanished client is
  followed by a reset, the clock of the port is switched on and off in turns and is off whenever a
  printing job ends, and the reset of a printer is never interrupted by other events.\<close>

theorem sw_job_protocol:
  assumes "sw_run is ([], sw_new socket seed clock) = Some st"
  shows "sw_runs (NoJob, False) (sw_all_events st) (sw_abs (snd st))"
  using sw_run_ok [OF assms sw_new_ok] by (simp add: sw_run_ok_def)

text \<open>
When a job that has printed anything ends, the port is back on its own clock, and either the client ended
  the session itself or the last bytes sent to the printer are the reset, which the printer hears
  before the clock changes.\<close>

theorem sw_job_end_safe:
  assumes "sw_run is ([], sw_new socket seed clock) = Some st"
    and "sw_all_events st = pre @ SwJobEnded clean # post" and "printed_since pre"
  shows "\<not> clock_after pre \<and> (clean \<or> reset_last pre)"
proof -
  have "sw_runs (NoJob, False) (sw_all_events st) (sw_abs (snd st))"
    using sw_run_ok [OF assms(1) sw_new_ok] by (simp add: sw_run_ok_def)
  from trace_inv_runs [OF this refl] assms(2,3) show ?thesis by (auto simp: trace_inv_def job_ends_ok_def job_end_ok_def)
qed

section \<open>Attentions are answered\<close>

definition answered :: "u16 \<Rightarrow> bytes \<Rightarrow> AdspEndpoint \<Rightarrow> AdspEndpoint \<Rightarrow> bool" where
  "answered conn reply e e' \<longleftrightarrow> (\<exists>opens. e' = (snd (adsp_send conn reply False e))\<lparr>ad_pending_opens := opens\<rparr>)"

lemma answered_send: "sw_endpoint r = e \<Longrightarrow> answered conn reply e (sw_endpoint (sw_send conn reply r))"
  unfolding answered_def by (rule exI [of _ "ad_pending_opens (snd (adsp_send conn reply False e))"]) (simp add: sw_send_def)

lemma answered_abandon: "answered conn reply e e' \<Longrightarrow> answered conn reply e (abandon_open pending e')"
  by (auto simp: answered_def abandon_open_def)

lemma sw_update_endpoint [simp]:
  "sw_endpoint (sw_push ev r) = sw_endpoint r" "sw_endpoint (sw_enter st now r) = sw_endpoint r"
  "sw_endpoint (follow_printer_clock on r) = sw_endpoint r"
  by (simp_all add: sw_push_def sw_enter_def follow_printer_clock_def)

definition small_reply :: "bytes \<Rightarrow> bool" where
  "small_reply reply \<longleftrightarrow> length reply \<in> {2, 72, 259}"

lemma small_replies [simp]:
  "small_reply RESULT_ACCEPTED" "small_reply RESULT_BUSY" "small_reply RESULT_REJECTED" "small_reply OUTPUT_DRAINED"
  "small_reply OUTPUT_PENDING" "small_reply FAST_CLOCK_UNAVAILABLE" "small_reply SERIAL_CONTROL_REFUSED"
  "small_reply (u16_bytes w)" "small_reply [0xFF, 0xFF]"
  by (simp_all add: small_reply_def RESULT_ACCEPTED_def RESULT_BUSY_def RESULT_REJECTED_def OUTPUT_DRAINED_def OUTPUT_PENDING_def
      FAST_CLOCK_UNAVAILABLE_def SERIAL_CONTROL_REFUSED_def)

lemma small_job_replies: "sw_wf r \<Longrightarrow> small_reply (job_user_reply r) \<and> small_reply (job_status_reply r)"
  by (auto simp: sw_wf_def small_reply_def job_user_reply_def job_status_reply_def RESULT_ACCEPTED_def zero_resized_def
      PRINT_REQUEST_LEN_def JOB_STATUS_TEXT_LEN_def Let_def)

lemma attention_answered:
  assumes "sw_wf r"
  shows "\<exists>reply. small_reply reply \<and> answered conn reply (sw_endpoint r) (sw_endpoint (sw_handle_attention conn code data now r))"
proof -
  let ?ok = "\<lambda>e'. \<exists>reply. small_reply reply \<and> answered conn reply (sw_endpoint r) e'"
  have send: "?ok (sw_endpoint (sw_send conn reply s))" if "small_reply reply" "sw_endpoint s = sw_endpoint r" for reply s
    using that answered_send by blast
  have "?ok (sw_endpoint (sw_print_request conn data now r))"
    by (auto simp: sw_print_request_def Let_def send split: option.split)
  moreover have "?ok (abandon_open pending (sw_endpoint (sw_send conn RESULT_ACCEPTED r)))" for pending
    using answered_abandon [OF answered_send [OF refl]] small_replies(1) by blast
  then have "?ok (sw_endpoint (sw_withdraw conn data now r))"
    by (simp add: sw_withdraw_def Let_def send split: SwState.split)
  moreover have "?ok (sw_endpoint (sw_end_session conn now r))"
    by (auto simp: sw_end_session_def Let_def send split: SwState.split option.split)
  moreover have "?ok (sw_endpoint (sw_serial_options conn data r))" "?ok (sw_endpoint (sw_set_status conn data r))"
    "?ok (sw_endpoint (sw_set_name conn data r))" "?ok (sw_endpoint (sw_serial_control conn data r))"
    by (auto simp: sw_serial_options_def sw_set_status_def sw_set_name_def sw_serial_control_def Let_def send
        split: list.split FastClock.split)
  moreover note small_job_replies [OF assms]
  ultimately show ?thesis by (simp add: sw_handle_attention_def send)
qed

text \<open>
Claim C8: Every attention on an open connection, known or not and whatever its payload, is answered with exactly one
  write on that connection: two bytes, or the 72 and 259 bytes of a job query. Nothing else is sent and
  no other connection changes. The Mac never hangs waiting for a reply.\<close>

theorem sw_attention_answered:
  assumes "sw_run is ([], sw_new socket seed clock) = Some (taken, r)" and "map_of (ad_connections (sw_endpoint r)) conn = Some c"
  shows "\<exists>reply opens. length reply \<in> {2, 72, 259}
    \<and> sw_endpoint (sw_handle_attention conn code data now r)
        = (snd (adsp_send conn reply False (sw_endpoint r)))\<lparr>ad_pending_opens := opens\<rparr>
    \<and> fst (adsp_send conn reply False (sw_endpoint r)) = Inr (writes_submitted c + 1)"
proof -
  from sw_run_ok [OF assms(1) sw_new_ok] have "sw_wf r" by (simp add: sw_run_ok_def)
  from attention_answered [OF this, of conn code data now] assms(2) show ?thesis
    by (auto simp: small_reply_def answered_def adsp_send_def Let_def)
qed

section \<open>Handshakes\<close>

text \<open>A handshake that stalls does not pin the printer: after a poll, a print request not yet called back is at most fifteen seconds old.\<close>

lemma sw_handshake_released:
  assumes "sw_poll now r = Some r'" and "in_handshake (sw_state r')"
  shows "now - state_since r' \<le> HANDSHAKE_TIMEOUT_US"
proof -
  from assms(1) obtain r1 where "r' = expire_stalled_handshake now r1" by (auto simp: sw_poll_def)
  with assms(2) show ?thesis
    by (simp add: expire_stalled_handshake_def sw_enter_def in_handshake_def split: if_splits)
qed

text \<open>A connection back that fails ends the job without an event: the embedder has heard \<open>JobStarted\<close> and hears nothing more.\<close>

lemma sw_open_failed_silent:
  assumes "sw_state r = SwConnecting conn"
  shows "sw_open_failed conn now r = r\<lparr>sw_state := SwIdle, state_since := now\<rparr>"
    and "sw_events (sw_open_failed conn now r) = sw_events r"
  using assms by (simp_all add: sw_open_failed_def sw_enter_def)

section \<open>A job, datagram by datagram\<close>

declare conn_id_loop.simps [code]

definition example_mac :: ServiceAddress where
  "example_mac = \<lparr>sa_network = 0, sa_node = 10, sa_socket = 200\<rparr>"

definition mac_data :: "u16 \<Rightarrow> bytes \<Rightarrow> bytes" where
  "mac_data conn payload = adsp_frame \<lparr>adsp_descriptor = DataPacket, adsp_connection_id = conn, adsp_first_byte_seq = 0,
     adsp_next_recv_seq = 0, adsp_recv_window = 1024, adsp_flags = 0\<rparr> payload"

definition mac_close :: "u16 \<Rightarrow> bytes" where
  "mac_close conn = adsp_frame \<lparr>adsp_descriptor = CloseAdvice, adsp_connection_id = conn, adsp_first_byte_seq = 0,
     adsp_next_recv_seq = 0, adsp_recv_window = 1024, adsp_flags = 0\<rparr> []"

text \<open>A control connection, the print request on it and its close, the call back answered, three bytes, and the client gone.\<close>

definition example_job_inputs :: "u16 \<Rightarrow> SwInput list" where
  "example_job_inputs back = map (\<lambda>bs. SwDatagram example_mac bs 0)
     [open_packet OpenConnRequest 5 1024 0,
      build_attention 5 0 0 ATTN_PRINT_REQUEST [0, 0, 0, 9, 1, 0x41],
      mac_close 5,
      open_packet OpenConnReqAck 77 1024 back,
      mac_data 77 [1, 2, 3],
      mac_close 77]"

lemma example_job_run:
  "map_option sw_all_events (sw_run (example_job_inputs 1537) ([], sw_new 129 1 ClockSupported)) =
     Some [SwJobStarted [0x41], SwToPrinter [1, 2, 3], SwToPrinter PRINTER_RESET, SwJobEnded False]"
  by code_simp

lemma sw_job_protocol_witness:
  "\<exists>s. sw_runs (NoJob, False) [SwJobStarted [0x41], SwToPrinter [1, 2, 3], SwToPrinter PRINTER_RESET, SwJobEnded False] s"
proof -
  from example_job_run obtain st where "sw_run (example_job_inputs 1537) ([], sw_new 129 1 ClockSupported) = Some st"
    and e: "sw_all_events st = [SwJobStarted [0x41], SwToPrinter [1, 2, 3], SwToPrinter PRINTER_RESET, SwJobEnded False]" by auto
  from sw_job_protocol [OF this(1)] show ?thesis unfolding e by blast
qed

lemma sw_job_end_safe_witness:
  "\<not> clock_after [SwJobStarted [0x41], SwToPrinter [1, 2, 3], SwToPrinter PRINTER_RESET]
   \<and> reset_last [SwJobStarted [0x41], SwToPrinter [1, 2, 3], SwToPrinter PRINTER_RESET]"
proof -
  from example_job_run obtain st where r: "sw_run (example_job_inputs 1537) ([], sw_new 129 1 ClockSupported) = Some st"
    and e: "sw_all_events st = [SwJobStarted [0x41], SwToPrinter [1, 2, 3], SwToPrinter PRINTER_RESET] @ SwJobEnded False # []"
    by auto
  have "printed_since [SwJobStarted [0x41], SwToPrinter [1, 2, 3], SwToPrinter PRINTER_RESET]" by (simp add: printed_since_def)
  from sw_job_end_safe [OF r e this] show ?thesis by simp
qed

lemma example_control_run:
  "map_option (\<lambda>st. fst st = [] \<and> map_of (ad_connections (sw_endpoint (snd st))) 5 \<noteq> None)
     (sw_run (take 1 (example_job_inputs 0)) ([], sw_new 129 1 ClockSupported)) = Some True"
  by code_simp

lemma sw_attention_answered_witness:
  "\<exists>r reply opens. sw_run (take 1 (example_job_inputs 0)) ([], sw_new 129 1 ClockSupported) = Some ([], r)
     \<and> length reply \<in> {2, 72, 259}
     \<and> sw_endpoint (sw_handle_attention 5 0x1234 [] 0 r) = (snd (adsp_send 5 reply False (sw_endpoint r)))\<lparr>ad_pending_opens := opens\<rparr>"
proof -
  from example_control_run obtain r c where r: "sw_run (take 1 (example_job_inputs 0)) ([], sw_new 129 1 ClockSupported) = Some ([], r)"
    and c: "map_of (ad_connections (sw_endpoint r)) 5 = Some c" by auto
  from sw_attention_answered [OF r c, of "0x1234" "[]" 0] r show ?thesis by blast
qed

text \<open>A Mac that refuses the call back: the job was announced and is over, and no event says so.\<close>

lemma sw_refused_job_never_ends:
  "map_option (\<lambda>st. (sw_state (snd st), sw_all_events st))
     (sw_run (take 3 (example_job_inputs 0) @ [SwDatagram example_mac (open_packet OpenConnDeny 77 0 1537) 0])
       ([], sw_new 129 1 ClockSupported)) = Some (SwIdle, [SwJobStarted [0x41]])"
  by code_simp

end
