(* ===== verification/Net_StyleWriter.thy ===== *)
theory Net_StyleWriter
  imports Net_Printer Core_StyleWriter_Jobs
begin

text \<open>
  The StyleWriter behind the printer port: its instance of the role trait in src/tailtalk-net/src/printer.rs, which obeys the
  law the byte queue rests on, and what the owner of the port gets from the two together.
\<close>

section \<open>The role\<close>

definition sw_role_event :: "StyleWriterEvent \<Rightarrow> RoleEvent" where
  "sw_role_event ev =
     (case ev of
        SwJobStarted _ \<Rightarrow> RoleEvent JobStarted
      | SwToPrinter bs \<Rightarrow> RoleToPrinter bs
      | SwJobEnded clean \<Rightarrow> RoleEvent (JobEnded clean)
      | SwRename name \<Rightarrow> RoleRename name
      | SwFastClockEnable \<Rightarrow> RoleEvent FastClockEnable
      | SwFastClockDisable \<Rightarrow> RoleEvent FastClockDisable)"

definition sw_set_credit :: "nat \<Rightarrow> StyleWriterRole \<Rightarrow> StyleWriterRole" where
  "sw_set_credit n r = sw_set_printer_drained (WINDOW \<le> n) (sw_set_printer_credit n r)"

definition sw_role :: "StyleWriterRole Role" where
  "sw_role = \<lparr>role_handle_datagram = (\<lambda>dst. sw_handle_datagram), role_poll = sw_poll,
     role_set_credit = (\<lambda>n now r. Some (sw_set_credit n r)),
     role_printer_input = (\<lambda>data now r. Some (sw_printer_input data r)),
     role_poll_event = (\<lambda>r. let (ev, r') = sw_poll_event r in (map_option sw_role_event ev, r'))\<rparr>"

definition sw_queued :: "StyleWriterRole \<Rightarrow> RoleEvent list" where
  "sw_queued r = map sw_role_event (sw_events r)"

interpretation sw_port: printer_role sw_role sw_queued
  by unfold_locales (auto simp: sw_role_def sw_queued_def sw_poll_event_def sw_set_credit_def sw_set_printer_drained_def
      sw_set_printer_credit_def)

lemma sw_settle_loop:
  "settle_loop sw_role p = Some ((port_absorb (sw_queued (port_role p)) p)\<lparr>port_role := (port_role p)\<lparr>sw_events := []\<rparr>\<rparr>)"
proof (induction "sw_events (port_role p)" arbitrary: p)
  case Nil
  then have "(port_role p)\<lparr>sw_events := []\<rparr> = port_role p" by (cases "port_role p") simp
  with Nil show ?case
    by (subst settle_loop.simps) (simp add: sw_role_def sw_poll_event_def sw_queued_def port_absorb_nil)
next
  case (Cons ev evs)
  let ?s = "(port_role p)\<lparr>sw_events := evs\<rparr>"
  let ?p = "port_note (sw_role_event ev) (p\<lparr>port_role := ?s\<rparr>)"
  have r: "port_role ?p = ?s" by (simp add: port_note_def split: RoleEvent.split)
  have e: "role_poll_event sw_role (port_role p) = (Some (sw_role_event ev), ?s)"
    by (simp add: sw_role_def sw_poll_event_def Cons.hyps(2) [symmetric])
  from Cons.hyps(1) [of ?p] r have
    "settle_loop sw_role ?p = Some ((port_absorb (map sw_role_event evs) ?p)\<lparr>port_role := (port_role p)\<lparr>sw_events := []\<rparr>\<rparr>)"
    by (simp add: sw_queued_def)
  then show ?case
    by (subst settle_loop.simps)
      (simp add: e port_absorb_note port_absorb_role sw_queued_def Cons.hyps(2) [symmetric])
qed

text \<open>A settled port has taken the role's events and told it the room that is left.\<close>

lemma sw_port_settle:
  "port_settle sw_role now p =
     Some ((port_absorb (sw_queued (port_role p)) p)\<lparr>port_role :=
       sw_set_credit (WINDOW - (length (to_printer p) + length (stream_bytes (sw_queued (port_role p))) + writing p))
         ((port_role p)\<lparr>sw_events := []\<rparr>)\<rparr>)"
proof -
  let ?a = "port_absorb (sw_queued (port_role p)) p"
  have a: "to_printer ?a = to_printer p @ stream_bytes (sw_queued (port_role p))" "writing ?a = writing p"
    by (simp_all add: port_absorb_def)
  have c: "role_set_credit sw_role n now r = Some (sw_set_credit n r)" for n r by (simp add: sw_role_def)
  show ?thesis unfolding port_settle_def sw_settle_loop by (simp add: Let_def c a)
qed

section \<open>The room in the port\<close>

lemma ack_keeps_window: "ad_recv_window (send_ack key e) = ad_recv_window e"
  by (simp add: send_ack_def queue_to_def split: option.split)

lemma acks_keep_window: "ad_recv_window (foldl (\<lambda>s key. send_ack key s) e keys) = ad_recv_window e"
  by (induction keys arbitrary: e) (simp_all add: ack_keeps_window)

lemma recv_window_set: "ad_recv_window (set_recv_window w e) = w"
  by (simp add: set_recv_window_def Let_def acks_keep_window)

definition port_held :: "'r PortState \<Rightarrow> nat" where
  "port_held p = length (to_printer p) + writing p"

definition window_fits :: "StyleWriterRole PortState \<Rightarrow> bool" where
  "window_fits p \<longleftrightarrow> unat (ad_recv_window (sw_endpoint (port_role p))) \<le> WINDOW - port_held p
     \<and> (printer_drained (port_role p) \<longrightarrow> to_printer p = [] \<and> writing p = 0)"

lemma sw_settle_fits:
  assumes "port_settle sw_role now p = Some p'"
  shows "window_fits p'"
proof -
  let ?n = "WINDOW - port_held p'"
  from assms have p': "p' = (port_absorb (sw_queued (port_role p)) p)\<lparr>port_role :=
       sw_set_credit (WINDOW - (length (to_printer p) + length (stream_bytes (sw_queued (port_role p))) + writing p))
         ((port_role p)\<lparr>sw_events := []\<rparr>)\<rparr>" by (simp add: sw_port_settle)
  then have r: "port_role p' = sw_set_credit ?n ((port_role p)\<lparr>sw_events := []\<rparr>)"
    by (simp add: port_held_def port_absorb_def)
  have "ad_recv_window (sw_endpoint (port_role p')) = word_of_nat (min ?n 65535)"
    by (simp add: r sw_set_credit_def sw_set_printer_drained_def sw_set_printer_credit_def recv_window_set)
  then have "unat (ad_recv_window (sw_endpoint (port_role p'))) = min ?n 65535"
    by (simp add: unat_of_nat take_bit_nat_eq_self)
  moreover have "printer_drained (port_role p') \<longleftrightarrow> WINDOW \<le> ?n"
    by (simp add: r sw_set_credit_def sw_set_printer_drained_def)
  moreover have "0 < WINDOW" by (simp add: WINDOW_def PULL_CAPACITY_def FLOW_QUANTUM_def PAP_MAX_DATA_PER_PACKET_def)
  ultimately have "printer_drained (port_role p') \<Longrightarrow> port_held p' = 0" by linarith
  with \<open>unat _ = _\<close> show ?thesis by (simp add: window_fits_def port_held_def)
qed

section \<open>What every run keeps\<close>

definition sw_port_ok :: "StyleWriterRole PortState \<Rightarrow> PortHistory \<Rightarrow> bool" where
  "sw_port_ok p h \<longleftrightarrow> window_fits p \<and> sw_events (port_role p) = []
     \<and> (\<exists>evs. raised h = map sw_role_event evs \<and> sw_run_ok (evs, port_role p))"

lemma sw_run_ok_credit:
  assumes "sw_run_ok (evs, r)"
  shows "sw_run_ok (evs @ sw_events r, sw_set_credit n (r\<lparr>sw_events := []\<rparr>))"
  using assms by (simp add: sw_run_ok_def sw_all_events_def sw_set_credit_def sw_set_printer_drained_def sw_set_printer_credit_def
      sw_abs_def sw_wf_def)

lemma sw_settle_ok:
  assumes "sw_run_ok (evs, port_role p)" and "raised h = map sw_role_event evs" and "port_settle sw_role now p = Some p'"
  shows "sw_port_ok p' (h\<lparr>raised := raised h @ sw_queued (port_role p)\<rparr>)"
proof -
  let ?evs = "evs @ sw_events (port_role p)"
  from assms(3) obtain n where r: "port_role p' = sw_set_credit n ((port_role p)\<lparr>sw_events := []\<rparr>)"
    by (auto simp: sw_port_settle port_absorb_def)
  have "sw_run_ok (?evs, port_role p')" unfolding r by (rule sw_run_ok_credit [OF assms(1)])
  moreover have "raised (h\<lparr>raised := raised h @ sw_queued (port_role p)\<rparr>) = map sw_role_event ?evs"
    using assms(2) by (simp add: sw_queued_def)
  moreover have "sw_events (port_role p') = []"
    by (simp add: r sw_set_credit_def sw_set_printer_drained_def sw_set_printer_credit_def)
  ultimately show ?thesis using sw_settle_fits [OF assms(3)] unfolding sw_port_ok_def by blast
qed

lemma sw_input_ok:
  assumes "sw_port_ok p h" and "port_with_role f sw_role now p = Some p'"
    and "\<And>evs r. sw_run_ok (evs, port_role p) \<Longrightarrow> f (port_role p) = Some r \<Longrightarrow> sw_run_ok (evs, r)"
  shows "sw_port_ok p' (h\<lparr>raised := raised h @ (case f (port_role p) of None \<Rightarrow> [] | Some r \<Rightarrow> sw_queued r)\<rparr>)"
proof -
  from assms(1) obtain evs where e: "raised h = map sw_role_event evs" "sw_run_ok (evs, port_role p)" by (auto simp: sw_port_ok_def)
  from assms(2) obtain r where r: "f (port_role p) = Some r" "port_settle sw_role now (p\<lparr>port_role := r\<rparr>) = Some p'"
    by (auto simp: port_with_role_def bind_eq_Some_conv)
  from sw_settle_ok [OF _ e(1) r(2)] assms(3) [OF e(2) r(1)] r(1) show ?thesis by simp
qed

lemma sw_apply_keeps:
  assumes "sw_run_ok (evs, r)" and "sw_apply i (evs, r) = Some (evs, r')"
  shows "sw_run_ok (evs, r')"
  using sw_apply_ok [OF assms] .

lemma sw_act_ok:
  assumes "sw_port_ok p h" and "port_act sw_role a p = Some p'"
  shows "sw_port_ok p' (port_history sw_role sw_queued a p h)"
proof (cases a)
  case (PaDatagram dst src payload now)
  have "sw_run_ok (evs, r)" if "sw_run_ok (evs, port_role p)" "sw_handle_datagram src payload now (port_role p) = Some r" for evs r
    using sw_apply_keeps [OF that(1), of "SwDatagram src payload now"] that(2) by (simp add: sw_apply_def)
  with sw_input_ok [OF assms(1), of "sw_handle_datagram src payload now" now p'] assms(2) PaDatagram show ?thesis
    by (simp add: port_handle_datagram_def port_history_def port_raised_def history_update sw_role_def sw_port_ok_def)
next
  case (PaPoll now)
  have "sw_run_ok (evs, r)" if "sw_run_ok (evs, port_role p)" "sw_poll now (port_role p) = Some r" for evs r
    using sw_apply_keeps [OF that(1), of "SwPoll now"] that(2) by (simp add: sw_apply_def)
  with sw_input_ok [OF assms(1), of "sw_poll now" now p'] assms(2) PaPoll show ?thesis
    by (simp add: port_poll_def port_history_def port_raised_def history_update sw_role_def sw_port_ok_def)
next
  case (PaInput data now)
  have "sw_run_ok (evs, r)" if "sw_run_ok (evs, port_role p)" "Some (sw_printer_input data (port_role p)) = Some r" for evs r
    using sw_apply_keeps [OF that(1), of "SwInput data"] that(2) by (simp add: sw_apply_def)
  with sw_input_ok [OF assms(1), of "\<lambda>r. Some (sw_printer_input data r)" now p'] assms(2) PaInput show ?thesis
    by (simp add: port_input_def port_history_def port_raised_def history_update sw_role_def sw_port_ok_def)
next
  case PaTake
  with assms show ?thesis
    by (auto simp: sw_port_ok_def port_take_def Let_def window_fits_def port_held_def port_history_def port_raised_def)
next
  case (PaWritten now)
  let ?p = "p\<lparr>writing := 0, written_total := written_total p + writing p\<rparr>"
  from assms(1) obtain evs where e: "raised h = map sw_role_event evs" "sw_run_ok (evs, port_role p)" by (auto simp: sw_port_ok_def)
  from assms(2) PaWritten have "port_settle sw_role now ?p = Some p'" by (simp add: port_write_over_def)
  from sw_settle_ok [OF _ e(1) this] e(2) PaWritten show ?thesis
    by (simp add: port_history_def port_raised_def history_update sw_port_ok_def)
next
  case PaNext
  with assms show ?thesis
    by (auto simp: sw_port_ok_def port_next_event_def window_fits_def port_held_def port_history_def port_raised_def
        split: list.splits prod.splits if_splits)
qed

lemma sw_port_run_ok:
  assumes "sw_port_ok p h" and "port_run sw_role sw_queued as p h = Some (p', h')"
  shows "sw_port_ok p' h'"
  using assms
proof (induction "as" arbitrary: p h)
  case (Cons a as')
  then obtain p1 where "port_act sw_role a p = Some p1" "port_run sw_role sw_queued as' p1 (port_history sw_role sw_queued a p h) = Some (p', h')"
    by (auto simp: bind_eq_Some_conv)
  with Cons sw_act_ok show ?case by blast
qed simp

lemma sw_port_new_ok: "sw_port_ok (port_new (sw_new socket seed clock)) history_new"
proof -
  have "unat DEFAULT_RECV_WINDOW \<le> WINDOW"
    by (simp add: DEFAULT_RECV_WINDOW_def WINDOW_def PULL_CAPACITY_def FLOW_QUANTUM_def PAP_MAX_DATA_PER_PACKET_def)
  moreover have "sw_run_ok ([], sw_new socket seed clock)" by (rule sw_new_ok)
  ultimately show ?thesis
    by (auto simp: sw_port_ok_def window_fits_def port_held_def port_new_def history_new_def sw_new_def set_listening_def adsp_new_def)
qed

section \<open>What the owner of the port gets\<close>

text \<open>The event reported as number \<open>i\<close>, and the bytes that were raised before it.\<close>

lemma event_offsets_split:
  assumes "i < length (event_offsets n evs)" and "snd (event_offsets n evs ! i) = PortEvent e"
  shows "\<exists>pre post. evs = pre @ RoleEvent e # post \<and> fst (event_offsets n evs ! i) = n + length (stream_bytes pre)"
  using assms
proof (induction n evs arbitrary: i rule: event_offsets.induct)
  case (2 n bs evs)
  from 2(1) [of i] 2(2,3) obtain pre post where
    "evs = pre @ RoleEvent e # post" "fst (event_offsets (n + length bs) evs ! i) = n + length bs + length (stream_bytes pre)" by auto
  then show ?case by (intro exI [of _ "RoleToPrinter bs # pre"] exI [of _ post]) simp
next
  case (3 n name evs)
  then obtain j where j: "i = Suc j" by (cases i) auto
  from 3(1) [of j] 3(2,3) j obtain pre post where
    "evs = pre @ RoleEvent e # post" "fst (event_offsets n evs ! j) = n + length (stream_bytes pre)" by auto
  with j show ?case by (intro exI [of _ "RoleRename name # pre"] exI [of _ post]) simp
next
  case (4 n x evs)
  show ?case
  proof (cases i)
    case 0
    with 4(3) have "x = e" by simp
    then show ?thesis using 0 by (intro exI [of _ "[]"] exI [of _ evs]) simp
  next
    case (Suc j)
    from 4(1) [of j] 4(2,3) Suc obtain pre post where
      "evs = pre @ RoleEvent e # post" "fst (event_offsets n evs ! j) = n + length (stream_bytes pre)" by auto
    with Suc show ?thesis by (intro exI [of _ "RoleEvent x # pre"] exI [of _ post]) simp
  qed
qed simp

text \<open>
Claim C7: The flow control of a StyleWriter port: whatever arrives and however writes and polls interleave, the
  window advertised to the Mac never exceeds the room left in the port, and the answer to
  \<open>ATTN_OUTPUT_DRAINED\<close> is yes only when every byte of the job has been written.\<close>

theorem sw_port_window:
  assumes "port_run sw_role sw_queued acts (port_new (sw_new socket seed clock)) history_new = Some (p, h)"
  shows "unat (ad_recv_window (sw_endpoint (port_role p))) \<le> WINDOW - (length (to_printer p) + writing p)
    \<and> (printer_drained (port_role p) \<longrightarrow> taken h = stream_bytes (raised h) \<and> written_total p = length (stream_bytes (raised h)))"
proof -
  have o: "port_in_order p h" by (rule sw_port.run_in_order [OF port_new_in_order assms])
  have "sw_port_ok p h" by (rule sw_port_run_ok [OF sw_port_new_ok assms])
  then have f: "window_fits p" by (simp add: sw_port_ok_def)
  have "taken h = stream_bytes (raised h) \<and> written_total p = length (stream_bytes (raised h))" if "printer_drained (port_role p)"
    using f o that by (auto simp: window_fits_def port_in_order_def)
  with f show ?thesis by (simp add: window_fits_def port_held_def)
qed

text \<open>
Claim C6: When the owner of a StyleWriter port is told that a job has ended without the client ending it, and the job had printed
  anything, the printer has already been sent its reset: the write of every byte of the job is over, and the last of them
  are the reset command.\<close>

theorem sw_port_job_end:
  assumes "port_run sw_role sw_queued acts (port_new (sw_new socket seed clock)) history_new = Some (p, h)"
    and "i < length (reported h)" and "snd (reported h ! i) = PortEvent (JobEnded False)"
  shows "\<exists>evs post. raised h = map sw_role_event evs @ RoleEvent (JobEnded False) # post
    \<and> length (stream_bytes (map sw_role_event evs)) \<le> fst (reported h ! i) \<and> fst (reported h ! i) \<le> written_total p
    \<and> (printed_since evs \<longrightarrow> (\<exists>b. stream_bytes (map sw_role_event evs) = b @ PRINTER_RESET))"
proof -
  have o: "port_in_order p h" by (rule sw_port.run_in_order [OF port_new_in_order assms(1)])
  let ?o = "event_offsets 0 (raised h)"
  from o assms(2) have i: "i < length ?o" "snd (?o ! i) = PortEvent (JobEnded False)"
    and w: "fst (?o ! i) \<le> fst (reported h ! i)" "fst (reported h ! i) \<le> written_total p"
    using assms(3) by (auto simp: port_in_order_def list_all_length split_beta dest: arg_cong [where f = "\<lambda>xs. xs ! i"])
  from event_offsets_split [OF i] obtain pre post where
    s: "raised h = pre @ RoleEvent (JobEnded False) # post" "fst (?o ! i) = length (stream_bytes pre)" by auto
  have "sw_port_ok p h" by (rule sw_port_run_ok [OF sw_port_new_ok assms(1)])
  then obtain evs where evs: "raised h = map sw_role_event evs" "sw_run_ok (evs, port_role p)" "sw_events (port_role p) = []"
    by (auto simp: sw_port_ok_def)
  from evs(1) s(1) have "map sw_role_event evs = pre @ RoleEvent (JobEnded False) # post" by simp
  then obtain as x bs where a: "evs = as @ x # bs" "pre = map sw_role_event as" "sw_role_event x = RoleEvent (JobEnded False)"
    by (auto simp: map_eq_append_conv map_eq_Cons_conv)
  then have x: "x = SwJobEnded False" by (simp add: sw_role_event_def split: StyleWriterEvent.splits)
  from evs(2,3) have "sw_runs (NoJob, False) evs (sw_abs (port_role p))" by (simp add: sw_run_ok_def sw_all_events_def)
  from trace_inv_runs [OF this refl] have "job_end_ok as False"
    unfolding trace_inv_def job_ends_ok_def using a(1) x by blast
  then have "\<exists>b. stream_bytes pre = b @ PRINTER_RESET" if "printed_since as"
    using that unfolding a(2) by (auto simp: job_end_ok_def reset_last_def stream_bytes_append sw_role_event_def)
  with s w a(2) show ?thesis by (intro exI [of _ as] exI [of _ post]) simp
qed

section \<open>A job at the port\<close>

text \<open>
  The datagrams of a run with the room after each given as literals, so that the run can be evaluated: the numbers of
  bytes held show that the literals are right.
\<close>

definition with_window :: "u16 \<Rightarrow> bool \<Rightarrow> StyleWriterRole \<Rightarrow> StyleWriterRole" where
  "with_window w d r = r\<lparr>sw_endpoint := set_recv_window w (sw_endpoint r), printer_drained := d\<rparr>"

definition credit_is :: "u16 \<times> bool \<Rightarrow> nat \<Rightarrow> bool" where
  "credit_is wd held \<longleftrightarrow> fst wd = word_of_nat (min (WINDOW - held) 65535) \<and> snd wd = (WINDOW \<le> WINDOW - held)"

fun port_steps :: "(bytes \<times> u16 \<times> bool) list \<Rightarrow> StyleWriterRole PortState \<times> PortHistory
    \<Rightarrow> (nat list \<times> StyleWriterRole PortState \<times> PortHistory) option" where
  "port_steps [] ph = Some ([], ph)"
| "port_steps ((bs, w, d) # xs) ph =
     (let (p, h) = ph in
      case sw_handle_datagram example_mac bs 0 (port_role p) of
        None \<Rightarrow> None
      | Some r \<Rightarrow>
          (let p' = (port_absorb (sw_queued r) p)\<lparr>port_role := with_window w d (r\<lparr>sw_events := []\<rparr>)\<rparr>
           in map_option (\<lambda>(hs, ph'). (port_held p' # hs, ph')) (port_steps xs (p', h\<lparr>raised := raised h @ sw_queued r\<rparr>))))"

lemma port_steps_run:
  assumes "port_steps xs (p, h) = Some (hs, p', h')" and "list_all2 credit_is (map snd xs) hs"
  shows "port_run sw_role sw_queued (map (\<lambda>(bs, _). PaDatagram 129 example_mac bs 0) xs @ acts) p h
    = port_run sw_role sw_queued acts p' h'"
  using assms
proof (induction xs arbitrary: p h hs)
  case (Cons x xs)
  obtain bs w d where x: "x = (bs, w, d)" by (rule prod_cases3)
  from Cons.prems(1) x obtain r where r: "sw_handle_datagram example_mac bs 0 (port_role p) = Some r"
    by (auto split: option.splits)
  let ?p = "(port_absorb (sw_queued r) p)\<lparr>port_role := with_window w d (r\<lparr>sw_events := []\<rparr>)\<rparr>"
  let ?h = "h\<lparr>raised := raised h @ sw_queued r\<rparr>"
  from Cons.prems(1) x r obtain hs' where s: "port_steps xs (?p, ?h) = Some (hs', p', h')" "hs = port_held ?p # hs'"
    by (auto simp: Let_def)
  let ?n = "WINDOW - (length (to_printer p) + length (stream_bytes (sw_queued r)) + writing p)"
  have n: "WINDOW - port_held ?p = ?n" by (simp add: port_held_def port_absorb_def)
  from Cons.prems(2) s(2) x have w: "credit_is (w, d) (port_held ?p)" and l: "list_all2 credit_is (map snd xs) hs'" by simp_all
  from w have c: "w = word_of_nat (min ?n 65535)" "d = (WINDOW \<le> ?n)" by (simp_all add: credit_is_def n)
  have "sw_set_credit ?n (r\<lparr>sw_events := []\<rparr>) = with_window w d (r\<lparr>sw_events := []\<rparr>)"
    by (simp add: sw_set_credit_def with_window_def sw_set_printer_drained_def sw_set_printer_credit_def c)
  then have "port_settle sw_role 0 (p\<lparr>port_role := r\<rparr>) = Some ?p" by (simp add: sw_port_settle port_absorb_role)
  then have a: "port_act sw_role (PaDatagram 129 example_mac bs 0) p = Some ?p"
    by (simp add: port_handle_datagram_def port_with_role_def sw_role_def r)
  have "port_history sw_role sw_queued (PaDatagram 129 example_mac bs 0) p h = ?h"
    by (simp add: port_history_def port_raised_def sw_role_def r history_update)
  with a Cons.IH [OF s(1) l] x show ?case by simp
qed simp

definition example_port_steps :: "(bytes \<times> u16 \<times> bool) list" where
  "example_port_steps =
     [(open_packet OpenConnRequest 5 1024 0, 4096, True),
      (build_attention 5 0 0 ATTN_PRINT_REQUEST [0, 0, 0, 9, 1, 0x41], 4096, True),
      (mac_close 5, 4096, True),
      (open_packet OpenConnReqAck 77 1024 1537, 4096, True),
      (mac_data 77 [1, 2, 3], 4093, False),
      (mac_close 77, 4088, False)]"

lemma example_port_stepped:
  "map_option (\<lambda>(hs, p, h). (hs, to_printer p, writing p, written_total p, port_events p, reported h))
     (port_steps example_port_steps (port_new (sw_new 129 1 ClockSupported), history_new)) =
   Some ([0, 0, 0, 0, 3, 8], [1, 2, 3, 0, 0xFF, 0xFF, 0xFF, QUERY_RESET], 0, 0,
     [(0, PortEvent JobStarted), (8, PortEvent (JobEnded False))], [])"
  by code_simp

lemma example_port_run:
  "\<exists>p h. port_run sw_role sw_queued
      (map (\<lambda>(bs, _). PaDatagram 129 example_mac bs 0) example_port_steps @ [PaNext, PaTake, PaWritten 0, PaNext])
      (port_new (sw_new 129 1 ClockSupported)) history_new = Some (p, h)
    \<and> reported h = [(0, PortEvent JobStarted), (8, PortEvent (JobEnded False))]"
proof -
  from example_port_stepped obtain p h where s: "port_steps example_port_steps (port_new (sw_new 129 1 ClockSupported), history_new)
      = Some ([0, 0, 0, 0, 3, 8], p, h)"
    and f: "to_printer p = [1, 2, 3, 0, 0xFF, 0xFF, 0xFF, QUERY_RESET]" "writing p = 0" "written_total p = 0"
      "port_events p = [(0, PortEvent JobStarted), (8, PortEvent (JobEnded False))]" "reported h = []" by auto
  have "list_all2 credit_is (map snd example_port_steps) [0, 0, 0, 0, 3, 8]"
    by (simp add: example_port_steps_def credit_is_def WINDOW_def PULL_CAPACITY_def FLOW_QUANTUM_def PAP_MAX_DATA_PER_PACKET_def)
  from port_steps_run [OF s this, of "[PaNext, PaTake, PaWritten 0, PaNext]"] f show ?thesis
    by (simp add: port_next_event_def port_take_def port_write_over_def sw_port_settle port_absorb_def port_history_def Let_def)
qed

lemma sw_port_window_witness:
  "\<exists>acts p h. port_run sw_role sw_queued acts (port_new (sw_new 129 1 ClockSupported)) history_new = Some (p, h)
    \<and> length (reported h) = 2 \<and> unat (ad_recv_window (sw_endpoint (port_role p))) \<le> WINDOW"
proof -
  from example_port_run obtain p h where r: "port_run sw_role sw_queued
      (map (\<lambda>(bs, _). PaDatagram 129 example_mac bs 0) example_port_steps @ [PaNext, PaTake, PaWritten 0, PaNext])
      (port_new (sw_new 129 1 ClockSupported)) history_new = Some (p, h)"
    and e: "reported h = [(0, PortEvent JobStarted), (8, PortEvent (JobEnded False))]" by blast
  from sw_port_window [OF r] have "unat (ad_recv_window (sw_endpoint (port_role p))) \<le> WINDOW" by linarith
  with r e show ?thesis by fastforce
qed

lemma sw_port_job_end_witness:
  "\<exists>acts p h evs post. port_run sw_role sw_queued acts (port_new (sw_new 129 1 ClockSupported)) history_new = Some (p, h)
    \<and> raised h = map sw_role_event evs @ RoleEvent (JobEnded False) # post \<and> length (stream_bytes (map sw_role_event evs)) \<le> written_total p"
proof -
  from example_port_run obtain p h where r: "port_run sw_role sw_queued
      (map (\<lambda>(bs, _). PaDatagram 129 example_mac bs 0) example_port_steps @ [PaNext, PaTake, PaWritten 0, PaNext])
      (port_new (sw_new 129 1 ClockSupported)) history_new = Some (p, h)"
    and e: "reported h = [(0, PortEvent JobStarted), (8, PortEvent (JobEnded False))]" by blast
  have i: "1 < length (reported h)" "snd (reported h ! 1) = PortEvent (JobEnded False)" by (simp_all add: e)
  from sw_port_job_end [OF r i] r show ?thesis by (meson le_trans)
qed

end
