(* ===== verification/Sw_Encode.thy ===== *)
theory Sw_Encode
  imports Sw_Family
begin

text \<open>
  The raster format of src/tailtalk/src/stylewriter/encode.rs: the run-length code of one plane, the row
  deltas of a band, its rect and its G blocks, and the planes of a chunky scanline. The
  specification is a printer that reads the codes back; it undoes what the encoder did, and no block
  outgrows what the printer takes.
\<close>

section \<open>The run-length code\<close>

definition G_FRAMING :: nat where "G_FRAMING = 4"
definition MAX_RUN :: nat where "MAX_RUN = 0x3E"
definition DATA_WHITE :: u8 where "DATA_WHITE = 0x00"
definition DATA_BLACK :: u8 where "DATA_BLACK = 0xFF"
definition MASK_LITERAL :: u8 where "MASK_LITERAL = 0x00"
definition MASK_REPEAT :: u8 where "MASK_REPEAT = 0x40"
definition MASK_RUNWHT :: u8 where "MASK_RUNWHT = 0x80"
definition MASK_RUNBLK :: u8 where "MASK_RUNBLK = 0xC0"

text \<open>\<open>Vec::resize\<close> with white bytes.\<close>

definition pad_row :: "nat \<Rightarrow> bytes \<Rightarrow> bytes" where
  "pad_row width_bytes src = take width_bytes src @ replicate (width_bytes - length src) DATA_WHITE"

lemma length_pad_row [simp]: "length (pad_row n src) = n"
  by (simp add: pad_row_def)

lemma pad_row_id: "length src = n \<Longrightarrow> pad_row n src = src"
  by (simp add: pad_row_def)

text \<open>The loop that extends a run of \<open>a\<close>, and the loop that extends a literal; \<open>left\<close> is the count still allowed.\<close>

fun run_end :: "bytes \<Rightarrow> u8 \<Rightarrow> nat \<Rightarrow> nat \<Rightarrow> nat" where
  "run_end row a q 0 = q"
| "run_end row a q (Suc left) = (if row ! q = a then run_end row a (q + 1) left else q)"

fun literal_end :: "bytes \<Rightarrow> u8 \<Rightarrow> nat \<Rightarrow> nat \<Rightarrow> nat" where
  "literal_end row prev q 0 = q"
| "literal_end row prev q (Suc left) =
     (let c = row ! q in
      if c \<noteq> prev then literal_end row c (q + 1) left
      else if c = DATA_WHITE \<or> c = DATA_BLACK \<or> (left > 0 \<and> row ! (q + 1) = c) then q + 1 - 2
      else literal_end row prev (q + 1) left)"

lemma run_end_bounds: "q \<le> run_end row a q left \<and> run_end row a q left \<le> q + left"
proof (induction row a q left rule: run_end.induct)
  case (2 row a q left)
  then show ?case by (cases "row ! q = a") auto
qed simp

lemma literal_end_bounds: "q \<le> literal_end row prev q left + 1 \<and> literal_end row prev q left \<le> q + left"
proof (induction row prev q left rule: literal_end.induct)
  case (2 row prev q left)
  show ?case
  proof (cases "row ! q = prev")
    case True
    with 2(2) [of "row ! q"] show ?thesis by (auto simp: Let_def)
  next
    case False
    with 2(1) [of "row ! q"] show ?thesis by (auto simp: Let_def)
  qed
qed simp

text \<open>The code at position \<open>p\<close>, and the position after it; the caller has \<open>p + 1 < length row\<close>.\<close>

definition scan_code :: "bytes \<Rightarrow> nat \<Rightarrow> bytes \<times> nat" where
  "scan_code row p =
     (let remaining = length row - p; a = row ! p; b = row ! (p + 1);
          left = min remaining MAX_RUN - 2
      in if a = b \<and> (a = DATA_WHITE \<or> a = DATA_BLACK)
         then let q = run_end row a (p + 2) left
              in ([(if a = DATA_WHITE then MASK_RUNWHT else MASK_RUNBLK) + word_of_nat (q - p)], q)
         else if a = b \<and> left \<ge> 3 \<and> row ! (p + 2) = b
         then let q = run_end row b (p + 2) left in ([MASK_REPEAT + word_of_nat (q - p), b], q)
         else let q = literal_end row b (p + 2) left
              in ((MASK_LITERAL + word_of_nat (q - p)) # take (q - p) (drop p row), q))"

lemma scan_code_bounds:
  assumes "p + 1 < length row"
  shows "p < snd (scan_code row p)" "snd (scan_code row p) \<le> length row" "snd (scan_code row p) - p \<le> MAX_RUN"
proof -
  define left where "left = min (length row - p) MAX_RUN - 2"
  have l: "p + 2 + left \<le> length row" "2 + left \<le> MAX_RUN"
    using assms by (auto simp: left_def MAX_RUN_def)
  have "\<exists>q. snd (scan_code row p) = q \<and> p + 1 \<le> q \<and> q \<le> p + 2 + left"
    using run_end_bounds [of "p + 2" row "row ! p" left] run_end_bounds [of "p + 2" row "row ! (p + 1)" left]
      literal_end_bounds [of "p + 2" row "row ! (p + 1)" left]
    by (simp add: scan_code_def Let_def left_def [symmetric])
  with l show "p < snd (scan_code row p)" "snd (scan_code row p) \<le> length row" "snd (scan_code row p) - p \<le> MAX_RUN"
    by auto
qed

function scan_loop :: "bytes \<Rightarrow> nat \<Rightarrow> bytes" where
  "scan_loop row p =
     (if p \<ge> length row then []
      else if length row - p = 1 then [MASK_LITERAL + 1, row ! p]
      else (let (code, q) = scan_code row p in code @ scan_loop row q))"
  by pat_completeness auto
termination
proof (relation "measure (\<lambda>(row, p). length row - p)")
  fix row p x code q
  assume "\<not> length row \<le> p" "length row - p \<noteq> 1" "x = scan_code row p" "(code, q) = x"
  then have "p + 1 < length row" "q = snd (scan_code row p)" by (auto dest: sym)
  with scan_code_bounds [of p row] show "((row, q), row, p) \<in> measure (\<lambda>(row, p). length row - p)" by auto
qed simp

declare scan_loop.simps [simp del]

definition scanline :: "bytes \<Rightarrow> nat \<Rightarrow> bytes" where
  "scanline src width_bytes =
     (let row = pad_row width_bytes src
      in if \<forall>b\<in>set row. b = DATA_WHITE then [MASK_RUNWHT] else scan_loop row 0)"

section \<open>Bands\<close>

record RawBand =
  rb_top :: nat
  rb_width :: nat
  rb_kind :: BandKind
  rb_rows :: "bytes list list"

record Band =
  bd_top :: u16
  bd_width :: u16
  bd_kind :: BandKind
  bd_rows :: "bytes list"

definition band_bottom :: "Band \<Rightarrow> u16" where
  "band_bottom b = bd_top b + word_of_nat (length (bd_rows b) - 1)"

definition band_row_bytes :: "Band \<Rightarrow> nat" where
  "band_row_bytes b = div_ceil (unat (bd_width b)) 8"

definition xor_rows :: "bytes \<Rightarrow> bytes \<Rightarrow> bytes" where
  "xor_rows row before = map2 (XOR) row before"

text \<open>\<open>None\<close> is the panic of \<open>last[i]\<close>: a row with more planes than the row before it.\<close>

definition encode_row :: "StyleWriterFamily \<Rightarrow> nat \<Rightarrow> bytes list option \<Rightarrow> bytes list \<Rightarrow> bytes option" where
  "encode_row family row_bytes prior planes =
     (case prior of
        Some prev \<Rightarrow>
          (if delta_rows family
           then if length prev < length planes then None
                else Some (concat (map2 (\<lambda>plane before.
                       scanline (xor_rows (pad_row row_bytes plane) (pad_row row_bytes before)) row_bytes) planes prev))
           else Some (concat (map (\<lambda>plane. scanline (pad_row row_bytes plane) row_bytes) planes)))
      | None \<Rightarrow> Some (concat (map (\<lambda>plane. scanline (pad_row row_bytes plane) row_bytes) planes)))"

fun encode_rows ::
  "StyleWriterFamily \<Rightarrow> nat \<Rightarrow> bytes list option \<Rightarrow> bytes list list \<Rightarrow> bytes list option" where
  "encode_rows family row_bytes prior [] = Some []"
| "encode_rows family row_bytes prior (planes # rows) =
     (case encode_row family row_bytes prior planes of
        None \<Rightarrow> None
      | Some coded \<Rightarrow> map_option ((#) coded) (encode_rows family row_bytes (Some planes) rows))"

definition encode_band :: "RawBand \<Rightarrow> StyleWriterFamily \<Rightarrow> Band option" where
  "encode_band raw family =
     map_option (\<lambda>rows. \<lparr>bd_top = word_of_nat (rb_top raw), bd_width = word_of_nat (rb_width raw),
         bd_kind = rb_kind raw, bd_rows = rows\<rparr>)
       (encode_rows family (div_ceil (rb_width raw) 8) None (rb_rows raw))"

definition u16_le_bytes :: "u16 \<Rightarrow> bytes" where
  "u16_le_bytes w = [lo8 w, hi8 w]"

definition band_rect :: "u8 \<Rightarrow> u16 \<Rightarrow> u16 \<Rightarrow> u16 \<Rightarrow> u16 \<Rightarrow> bytes" where
  "band_rect tag left first_row right last_row = tag # concat (map u16_le_bytes [left, first_row, right, last_row])"

definition g_block :: "bytes \<Rightarrow> bytes" where
  "g_block coded = 0x47 # u16_le_bytes (word_of_nat (length coded)) @ coded @ [0x00]"

fun cut_blocks :: "nat \<Rightarrow> bytes \<Rightarrow> bytes list \<Rightarrow> bytes list" where
  "cut_blocks room block [] = (if block \<noteq> [] then [g_block block] else [])"
| "cut_blocks room block (row # rows) =
     (let block' = block @ row
      in if length block' + G_FRAMING > room then g_block block' # cut_blocks room [] rows
         else cut_blocks room block' rows)"

definition band_blocks :: "Band \<Rightarrow> nat \<Rightarrow> bytes list" where
  "band_blocks band room = cut_blocks room [] (bd_rows band)"

section \<open>Chunky scanlines\<close>

text \<open>Two bits of a plane from a chunky byte: the bit \<open>hi\<close> of its left pixel and \<open>lo\<close> of its right one.\<close>

definition chunk_bits :: "nat \<Rightarrow> u8 \<Rightarrow> u8" where
  "chunk_bits lo b = (drop_bit (lo + 3) b AND 2) OR (drop_bit lo b AND 1)"

definition chunk_plane :: "nat \<Rightarrow> bytes \<Rightarrow> u8" where
  "chunk_plane lo block =
     foldl (\<lambda>acc i. push_bit 2 acc OR chunk_bits lo (if i < length block then block ! i else 0)) 0 [0..<4]"

definition chunky_to_planes :: "bytes \<Rightarrow> bytes list" where
  "chunky_to_planes chunky = map (\<lambda>lo. map (chunk_plane lo) (chunks_of 4 chunky)) [3, 2, 1, 0]"

definition chunky_to_mono_plane :: "bytes \<Rightarrow> bytes" where
  "chunky_to_mono_plane chunky = map (chunk_plane 0) (chunks_of 4 chunky)"

section \<open>Reading the codes back\<close>

text \<open>
  What a printer does with a plane of \<open>w\<close> bytes: it reads codes until the plane is full, and hands back what
  follows. A count beyond the plane, or of zero, is an error, except that a white count of zero
  alone stands for a whole blank plane.
\<close>

definition prepend :: "bytes \<Rightarrow> (bytes \<times> bytes) option \<Rightarrow> (bytes \<times> bytes) option" where
  "prepend xs r = map_option (\<lambda>(out, rest). (xs @ out, rest)) r"

fun read_codes :: "nat \<Rightarrow> bytes \<Rightarrow> (bytes \<times> bytes) option" where
  "read_codes w enc =
     (if w = 0 then Some ([], enc)
      else case enc of
        [] \<Rightarrow> None
      | c # rest \<Rightarrow>
          (let n = unat (c AND 0x3F); kind = c AND 0xC0 in
           if n = 0 \<or> n > w then None
           else if kind = MASK_LITERAL
           then (if length rest < n then None else prepend (take n rest) (read_codes (w - n) (drop n rest)))
           else if kind = MASK_REPEAT
           then (case rest of [] \<Rightarrow> None | b # rest' \<Rightarrow> prepend (replicate n b) (read_codes (w - n) rest'))
           else prepend (replicate n (if kind = MASK_RUNWHT then DATA_WHITE else DATA_BLACK)) (read_codes (w - n) rest)))"

declare read_codes.simps [simp del]

definition read_plane :: "nat \<Rightarrow> bytes \<Rightarrow> (bytes \<times> bytes) option" where
  "read_plane w enc =
     (case enc of
        c # rest \<Rightarrow> (if c = MASK_RUNWHT then Some (replicate w DATA_WHITE, rest) else read_codes w enc)
      | [] \<Rightarrow> None)"

lemma code_byte:
  assumes "n < 64"
  shows "unat ((MASK_LITERAL + word_of_nat n) AND 0x3F) = n" "(MASK_LITERAL + word_of_nat n) AND 0xC0 = MASK_LITERAL"
    "unat ((MASK_REPEAT + word_of_nat n) AND 0x3F) = n" "(MASK_REPEAT + word_of_nat n) AND 0xC0 = MASK_REPEAT"
    "unat ((MASK_RUNWHT + word_of_nat n) AND 0x3F) = n" "(MASK_RUNWHT + word_of_nat n) AND 0xC0 = MASK_RUNWHT"
    "unat ((MASK_RUNBLK + word_of_nat n) AND 0x3F) = n" "(MASK_RUNBLK + word_of_nat n) AND 0xC0 = MASK_RUNBLK"
proof -
  have "\<forall>m\<in>{MASK_LITERAL, MASK_REPEAT, MASK_RUNWHT, MASK_RUNBLK}. \<forall>k\<in>set [0..<64].
    unat ((m + word_of_nat k) AND 0x3F) = k \<and> (m + word_of_nat k) AND 0xC0 = m"
    by code_simp
  moreover from assms have "n \<in> set [0..<64]" by simp
  ultimately show "unat ((MASK_LITERAL + word_of_nat n) AND 0x3F) = n" "(MASK_LITERAL + word_of_nat n) AND 0xC0 = MASK_LITERAL"
    "unat ((MASK_REPEAT + word_of_nat n) AND 0x3F) = n" "(MASK_REPEAT + word_of_nat n) AND 0xC0 = MASK_REPEAT"
    "unat ((MASK_RUNWHT + word_of_nat n) AND 0x3F) = n" "(MASK_RUNWHT + word_of_nat n) AND 0xC0 = MASK_RUNWHT"
    "unat ((MASK_RUNBLK + word_of_nat n) AND 0x3F) = n" "(MASK_RUNBLK + word_of_nat n) AND 0xC0 = MASK_RUNBLK"
    by blast+
qed

lemma masks_distinct:
  "MASK_REPEAT \<noteq> MASK_LITERAL" "MASK_RUNWHT \<noteq> MASK_LITERAL" "MASK_RUNWHT \<noteq> MASK_REPEAT"
  "MASK_RUNBLK \<noteq> MASK_LITERAL" "MASK_RUNBLK \<noteq> MASK_REPEAT" "MASK_RUNBLK \<noteq> MASK_RUNWHT" "DATA_BLACK \<noteq> DATA_WHITE"
  by (simp_all add: MASK_LITERAL_def MASK_REPEAT_def MASK_RUNWHT_def MASK_RUNBLK_def DATA_BLACK_def DATA_WHITE_def)

lemma read_literal:
  assumes "0 < n" "n \<le> w" "n < 64" "length lit = n"
  shows "read_codes w ((MASK_LITERAL + word_of_nat n) # lit @ rest) = prepend lit (read_codes (w - n) rest)"
  using assms by (subst read_codes.simps) (simp add: code_byte [OF assms(3)])

lemma read_repeat:
  assumes "0 < n" "n \<le> w" "n < 64"
  shows "read_codes w ((MASK_REPEAT + word_of_nat n) # b # rest) = prepend (replicate n b) (read_codes (w - n) rest)"
  using assms by (subst read_codes.simps) (simp add: code_byte [OF assms(3)] masks_distinct)

lemma read_run:
  assumes "0 < n" "n \<le> w" "n < 64" and "a = DATA_WHITE \<or> a = DATA_BLACK"
  shows "read_codes w (((if a = DATA_WHITE then MASK_RUNWHT else MASK_RUNBLK) + word_of_nat n) # rest)
    = prepend (replicate n a) (read_codes (w - n) rest)"
  using assms by (subst read_codes.simps) (auto simp: code_byte [OF assms(3)] masks_distinct)

lemma run_end_run: "q \<le> i \<Longrightarrow> i < run_end row a q left \<Longrightarrow> row ! i = a"
proof (induction row a q left rule: run_end.induct)
  case (2 row a q left)
  then show ?case by (cases "i = q") (auto split: if_splits)
qed simp

lemma run_segment:
  assumes "row ! p = a" "row ! (p + 1) = a" "q = run_end row a (p + 2) left" "q \<le> length row"
  shows "take (q - p) (drop p row) = replicate (q - p) a"
proof (rule nth_equalityI)
  show "length (take (q - p) (drop p row)) = length (replicate (q - p) a)" using assms(4) by simp
  fix i assume "i < length (take (q - p) (drop p row))"
  then have i: "i < q - p" by simp
  have "row ! (p + i) = a"
  proof (cases "i < 2")
    case True
    then have "i = 0 \<or> i = 1" by auto
    with assms show ?thesis by auto
  next
    case False
    with i assms(3) run_end_run [of "p + 2" "p + i" row a left] show ?thesis by simp
  qed
  with i assms(4) show "take (q - p) (drop p row) ! i = replicate (q - p) a ! i" by simp
qed

text \<open>One code reads back as the bytes it stands for.\<close>

lemma scan_code_reads:
  assumes p: "p + 1 < length row" and c: "scan_code row p = (code, q)"
  shows "read_codes (length row - p) (code @ rest) = prepend (take (q - p) (drop p row)) (read_codes (length row - q) rest)"
proof -
  let ?left = "min (length row - p) MAX_RUN - 2"
  have b: "p < q" "q \<le> length row" "q - p \<le> MAX_RUN" using scan_code_bounds [OF p] c by auto
  then have n: "0 < q - p" "q - p \<le> length row - p" "q - p < 64" "length row - p - (q - p) = length row - q"
    by (auto simp: MAX_RUN_def)
  have seg: "length (take (q - p) (drop p row)) = q - p" using b by simp
  consider (run) "row ! p = row ! (p + 1)" "row ! p = DATA_WHITE \<or> row ! p = DATA_BLACK"
    | (rep) "row ! p = row ! (p + 1)" "\<not> (row ! p = DATA_WHITE \<or> row ! p = DATA_BLACK)" "?left \<ge> 3" "row ! (p + 2) = row ! (p + 1)"
    | (lit) "\<not> (row ! p = row ! (p + 1) \<and> (row ! p = DATA_WHITE \<or> row ! p = DATA_BLACK))"
        "\<not> (row ! p = row ! (p + 1) \<and> ?left \<ge> 3 \<and> row ! (p + 2) = row ! (p + 1))"
    by blast
  then show ?thesis
  proof cases
    case run
    then have q: "q = run_end row (row ! p) (p + 2) ?left"
      and code: "code = [(if row ! p = DATA_WHITE then MASK_RUNWHT else MASK_RUNBLK) + word_of_nat (q - p)]"
      using c by (auto simp: scan_code_def Let_def)
    from run_segment [OF refl _ q b(2)] run(1) read_run [OF n(1-3) run(2), of rest] n(4) show ?thesis
      unfolding code by simp
  next
    case rep
    then have q: "q = run_end row (row ! (p + 1)) (p + 2) ?left"
      and code: "code = [MASK_REPEAT + word_of_nat (q - p), row ! (p + 1)]"
      using c by (auto simp: scan_code_def Let_def)
    from run_segment [OF rep(1) refl q b(2)] read_repeat [OF n(1-3)] n(4) show ?thesis
      unfolding code by simp
  next
    case lit
    have code: "code = (MASK_LITERAL + word_of_nat (q - p)) # take (q - p) (drop p row)"
      using c unfolding scan_code_def Let_def by (simp only: lit if_False prod.inject) blast
    from read_literal [OF n(1-3) seg, of rest] n(4) show ?thesis
      unfolding code by simp
  qed
qed

lemma scan_loop_reads:
  "p \<le> length row \<Longrightarrow> read_codes (length row - p) (scan_loop row p @ rest) = Some (drop p row, rest)"
proof (induction row p rule: scan_loop.induct)
  case (1 row p)
  consider "length row = p" | "length row - p = 1" "p < length row" | "p + 1 < length row"
    using 1(2) by linarith
  then show ?case
  proof cases
    case 1
    then show ?thesis by (simp add: scan_loop.simps [of row p] read_codes.simps)
  next
    case 2
    have "read_codes 1 ((MASK_LITERAL + word_of_nat 1) # [row ! p] @ rest) = prepend [row ! p] (read_codes (1 - 1) rest)"
      by (rule read_literal) simp_all
    moreover have "drop p row = [row ! p]" using 2 Cons_nth_drop_Suc [of p row] by simp
    ultimately show ?thesis using 2 by (simp add: scan_loop.simps [of row p] prepend_def read_codes.simps [of 0])
  next
    case 3
    obtain code q where c: "scan_code row p = (code, q)" by (cases "scan_code row p")
    then have b: "p < q" "q \<le> length row" using scan_code_bounds [OF 3] by auto
    have "read_codes (length row - q) (scan_loop row q @ rest) = Some (drop q row, rest)"
      using 1(1) [OF _ _ c [symmetric] refl] b 3 by simp
    moreover have "take (q - p) (drop p row) @ drop q row = drop p row"
      using b by (metis append_take_drop_id drop_drop le_add_diff_inverse2 less_imp_le)
    moreover have "length row - p \<noteq> 1" "\<not> length row \<le> p" using 3 by auto
    ultimately show ?thesis
      using scan_code_reads [OF 3 c, of "scan_loop row q @ rest"]
      by (simp add: scan_loop.simps [of row p] c prepend_def)
  qed
qed

lemma read_codes_first:
  "read_codes w (c # enc) = Some r \<Longrightarrow> 0 < w \<Longrightarrow> c \<noteq> MASK_RUNWHT"
  by (subst (asm) read_codes.simps) (auto simp: MASK_RUNWHT_def Let_def)

text \<open>A plane reads back as the padded row, and what follows is left alone.\<close>

lemma scanline_reads: "read_plane n (scanline src n @ rest) = Some (pad_row n src, rest)"
proof (cases "\<forall>b\<in>set (pad_row n src). b = DATA_WHITE")
  case True
  then have "pad_row n src = replicate n DATA_WHITE" by (metis length_pad_row replicate_eqI)
  with True show ?thesis by (simp add: scanline_def read_plane_def)
next
  case False
  then have n: "0 < n" by (cases n) (auto simp: pad_row_def)
  have r: "read_codes n (scan_loop (pad_row n src) 0 @ rest) = Some (pad_row n src, rest)"
    using scan_loop_reads [of 0 "pad_row n src" rest] by simp
  have "scan_loop (pad_row n src) 0 \<noteq> []"
    using n by (subst scan_loop.simps) (auto simp: scan_code_def Let_def split: prod.splits if_splits)
  then obtain c enc where c: "scan_loop (pad_row n src) 0 = c # enc" by (cases "scan_loop (pad_row n src) 0") auto
  with r n read_codes_first [of n c "enc @ rest"] have "c \<noteq> MASK_RUNWHT" by auto
  moreover from False have "scanline src n = c # enc" unfolding scanline_def Let_def c by (simp only: if_False)
  ultimately show ?thesis using r c by (simp add: read_plane_def)
qed

section \<open>How long a row gets\<close>

definition code_saves :: "bytes \<Rightarrow> nat \<Rightarrow> bool" where
  "code_saves row p \<longleftrightarrow> p + 1 < length row \<and> row ! p = row ! (p + 1)
     \<and> (row ! p = DATA_WHITE \<or> row ! p = DATA_BLACK
        \<or> (3 \<le> min (length row - p) MAX_RUN - 2 \<and> row ! (p + 2) = row ! (p + 1)))"

lemma scan_code_length:
  assumes "p + 1 < length row" "scan_code row p = (code, q)"
  shows "if code_saves row p then length code + 1 \<le> q - p
    else q = literal_end row (row ! (p + 1)) (p + 2) (min (length row - p) MAX_RUN - 2) \<and> length code = q - p + 1"
proof -
  define left where "left = min (length row - p) MAX_RUN - 2"
  have b: "q \<le> length row" using scan_code_bounds [OF assms(1)] assms(2) by auto
  have s: "p + 2 \<le> run_end row a (p + 2) left" "row ! (p + 2) = a \<Longrightarrow> 3 \<le> left \<Longrightarrow> p + 3 \<le> run_end row a (p + 2) left" for a
    using run_end_bounds [of "p + 2" row a left] run_end_bounds [of "p + 3" row a "left - 1"]
    by (simp, cases left) (auto simp: numeral_3_eq_3)
  show ?thesis
  proof (cases "code_saves row p")
    case True
    with assms(2) s [of "row ! (p + 1)"] have "length code + 1 \<le> q - p"
      by (auto simp: scan_code_def Let_def left_def [symmetric] code_saves_def split: if_splits)
    with True show ?thesis by simp
  next
    case False
    then have n: "\<not> (row ! p = row ! (p + 1) \<and> (row ! p = DATA_WHITE \<or> row ! p = DATA_BLACK))"
      "\<not> (row ! p = row ! (p + 1) \<and> left \<ge> 3 \<and> row ! (p + 2) = row ! (p + 1))"
      using assms(1) by (auto simp: code_saves_def left_def)
    have "code = (MASK_LITERAL + word_of_nat (q - p)) # take (q - p) (drop p row)
      \<and> q = literal_end row (row ! (p + 1)) (p + 2) left"
      using assms(2) unfolding scan_code_def Let_def left_def [symmetric] by (simp only: n if_False prod.inject) blast
    with False b show ?thesis by (simp add: left_def)
  qed
qed

lemma scan_loop_doubles: "p \<le> length row \<Longrightarrow> length (scan_loop row p) \<le> 2 * (length row - p)"
proof (induction row p rule: scan_loop.induct)
  case (1 row p)
  show ?case
  proof (cases "p + 1 < length row")
    case False
    with 1(2) show ?thesis by (subst scan_loop.simps) auto
  next
    case True
    obtain code q where c: "scan_code row p = (code, q)" by (cases "scan_code row p")
    then have b: "p < q" "q \<le> length row" using scan_code_bounds [OF True] by auto
    have "length (scan_loop row q) \<le> 2 * (length row - q)" using 1(1) [OF _ _ c [symmetric] refl] b True by simp
    moreover have "1 \<le> q - p" using b by simp
    then have "length code \<le> 2 * (q - p)" using scan_code_length [OF True c] by (cases "code_saves row p") simp_all
    moreover have "length row - p \<noteq> 1" "\<not> length row \<le> p" using True by auto
    ultimately show ?thesis using b by (subst scan_loop.simps) (simp add: c)
  qed
qed

text \<open>A literal stops at the end of what its count allows, or where a shorter code begins.\<close>

lemma literal_end_stop:
  assumes "1 \<le> q0" "prev = row ! (q0 - 1)"
  shows "let q = literal_end row prev q0 left in q = q0 + left
    \<or> (row ! q = row ! (q + 1) \<and> q + 1 < q0 + left
       \<and> (row ! q = DATA_WHITE \<or> row ! q = DATA_BLACK \<or> (row ! (q + 2) = row ! (q + 1) \<and> q + 2 < q0 + left)))"
  using assms
proof (induction left arbitrary: prev q0)
  case (Suc left)
  show ?case
  proof (cases "row ! q0 = prev")
    case False
    then have "literal_end row prev q0 (Suc left) = literal_end row (row ! q0) (q0 + 1) left" by (simp add: Let_def)
    with Suc.IH [of "q0 + 1" "row ! q0"] show ?thesis by (simp only: add_diff_cancel_right') simp
  next
    case True
    show ?thesis
    proof (cases "row ! q0 = DATA_WHITE \<or> row ! q0 = DATA_BLACK \<or> (left > 0 \<and> row ! (q0 + 1) = row ! q0)")
      case stop: True
      with True have q: "literal_end row prev q0 (Suc left) = q0 - 1" by (simp add: Let_def)
      obtain r where r: "q0 = Suc r" using Suc.prems(1) by (cases q0) auto
      from True Suc.prems(2) r have "row ! r = row ! Suc r" by simp
      with stop show ?thesis unfolding q by (auto simp: r Let_def)
    next
      case go: False
      with True have "literal_end row prev q0 (Suc left) = literal_end row prev (q0 + 1) left" by (auto simp: Let_def)
      with True Suc.IH [of "q0 + 1" "row ! q0"] show ?thesis by (simp only: add_diff_cancel_right') simp
    qed
  qed
qed simp

lemma scan_loop_length:
  assumes "p \<le> length row"
  shows "length (scan_loop row p) + (if code_saves row p then 1 else 0) \<le> (length row - p) + (length row - p) div 62 + 5"
  using assms
proof (induction row p rule: scan_loop.induct)
  case (1 row p)
  let ?m = "length row - p"
  show ?case
  proof (cases "p + 1 < length row")
    case False
    with 1(2) show ?thesis by (subst scan_loop.simps) (auto simp: code_saves_def)
  next
    case True
    obtain code q where c: "scan_code row p = (code, q)" by (cases "scan_code row p")
    have b: "p < q" "q \<le> length row" "q - p \<le> 62" using scan_code_bounds [OF True] c by (auto simp: MAX_RUN_def)
    have IH: "length (scan_loop row q) + (if code_saves row q then 1 else 0) \<le> (length row - q) + (length row - q) div 62 + 5"
      using 1(1) [OF _ _ c [symmetric] refl] b True by simp
    have "length row - p \<noteq> 1" "\<not> length row \<le> p" using True by auto
    then have len: "length (scan_loop row p) = length code + length (scan_loop row q)"
      by (subst scan_loop.simps) (simp add: c)
    have sum: "length row - q + (q - p) = ?m" using b by simp
    have IH1: "length (scan_loop row q) \<le> (length row - q) + (length row - q) div 62 + 5" using IH by (simp split: if_splits)
    have div: "(length row - q) div 62 \<le> ?m div 62" using b by (intro div_le_mono) simp
    show ?thesis
    proof (cases "code_saves row p")
      case saves: True
      with scan_code_length [OF True c] have "length code + 1 \<le> q - p" by simp
      with len IH1 sum div have "length (scan_loop row p) + 1 \<le> ?m + ?m div 62 + 5" by linarith
      with saves show ?thesis by simp
    next
      case lit: False
      with scan_code_length [OF True c] have k: "length code = q - p + 1"
        and q: "q = literal_end row (row ! (p + 1)) (p + 2) (min ?m MAX_RUN - 2)" by simp_all
      have l: "p + 2 + (min ?m MAX_RUN - 2) = p + min ?m MAX_RUN" using True by (simp add: MAX_RUN_def)
      have "1 \<le> p + 2" "row ! (p + 1) = row ! (p + 2 - 1)" by simp_all
      from literal_end_stop [OF this, of "min ?m MAX_RUN - 2"] have
        "q = p + min ?m MAX_RUN \<or> (row ! q = row ! (q + 1) \<and> q + 1 < p + min ?m MAX_RUN
           \<and> (row ! q = DATA_WHITE \<or> row ! q = DATA_BLACK \<or> (row ! (q + 2) = row ! (q + 1) \<and> q + 2 < p + min ?m MAX_RUN)))"
        by (simp only: Let_def q [symmetric] l)
      then consider (full) "q - p = 62" "62 \<le> ?m" | (row_end) "q = length row"
        | (saves_next) "code_saves row q" | (short) "length row - q \<le> 4"
        using True b by (fastforce simp: MAX_RUN_def code_saves_def min_def split: if_splits)
      then show ?thesis
      proof cases
        case full
        then have "?m div 62 = (length row - q) div 62 + 1" using b sum by (simp add: le_div_geq)
        with len IH1 k sum full(1) have "length (scan_loop row p) \<le> ?m + ?m div 62 + 5" by linarith
        with lit show ?thesis by simp
      next
        case row_end
        then have "length (scan_loop row q) = 0" by (subst scan_loop.simps) simp
        with len k sum have "length (scan_loop row p) \<le> ?m + ?m div 62 + 5" by linarith
        with lit show ?thesis by simp
      next
        case saves_next
        with IH have "length (scan_loop row q) + 1 \<le> (length row - q) + (length row - q) div 62 + 5" by simp
        with len k sum div have "length (scan_loop row p) \<le> ?m + ?m div 62 + 5" by linarith
        with lit show ?thesis by simp
      next
        case short
        with len k sum scan_loop_doubles [OF b(2)] have "length (scan_loop row p) \<le> ?m + ?m div 62 + 5" by linarith
        with lit show ?thesis by simp
      qed
    qed
  qed
qed

lemma scanline_length: "length (scanline src n) \<le> n + n div 62 + 5"
  using scan_loop_length [of 0 "pad_row n src"] by (simp add: scanline_def Let_def split: if_splits)

section \<open>A printer that undoes a band\<close>

fun read_planes :: "nat \<Rightarrow> nat \<Rightarrow> bytes \<Rightarrow> (bytes list \<times> bytes) option" where
  "read_planes w 0 enc = Some ([], enc)"
| "read_planes w (Suc k) enc =
     (case read_plane w enc of
        None \<Rightarrow> None
      | Some (plane, rest) \<Rightarrow> map_option (\<lambda>(planes, rest'). (plane # planes, rest')) (read_planes w k rest))"

text \<open>The rows it prints from a stream of coded rows: each but the first is the difference to the row before, except
  on the original StyleWriter.\<close>

fun print_rows :: "StyleWriterFamily \<Rightarrow> nat \<Rightarrow> nat \<Rightarrow> bytes list option \<Rightarrow> nat \<Rightarrow> bytes \<Rightarrow> bytes list list option" where
  "print_rows family w k prior 0 enc = (if enc = [] then Some [] else None)"
| "print_rows family w k prior (Suc n) enc =
     (case read_planes w k enc of
        None \<Rightarrow> None
      | Some (planes, rest) \<Rightarrow>
          (let row = (case prior of
                        Some before \<Rightarrow> (if delta_rows family then map2 xor_rows planes before else planes)
                      | None \<Rightarrow> planes)
           in map_option ((#) row) (print_rows family w k (Some row) n rest)))"

definition read_block :: "bytes \<Rightarrow> bytes option" where
  "read_block b =
     (if 4 \<le> length b \<and> b ! 0 = 0x47 \<and> length b = unat (be16 (b ! 2) (b ! 1)) + 4 \<and> b ! (length b - 1) = 0
      then Some (take (length b - 4) (drop 3 b)) else None)"

lemma length_xor_rows [simp]: "length (xor_rows a b) = min (length a) (length b)"
  by (simp add: xor_rows_def)

lemma xor_rows_undo: "length a = length b \<Longrightarrow> xor_rows (xor_rows a b) b = a"
  by (auto simp: xor_rows_def list_eq_iff_nth_eq xor.assoc)

lemma read_planes_scan:
  "read_planes w (length xs) (concat (map (\<lambda>x. scanline x w) xs) @ rest) = Some (map (pad_row w) xs, rest)"
  by (induction xs) (simp_all add: scanline_reads)

lemma encode_row_reads:
  assumes "length planes = k" and "\<forall>prev. prior = Some prev \<longrightarrow> length prev = k"
  shows "\<exists>coded planes'. encode_row family w prior planes = Some coded
    \<and> read_planes w k (coded @ rest) = Some (planes', rest)
    \<and> (case map_option (map (pad_row w)) prior of
         Some before \<Rightarrow> (if delta_rows family then map2 xor_rows planes' before else planes')
       | None \<Rightarrow> planes') = map (pad_row w) planes
    \<and> length coded \<le> k * (w + w div 62 + 5)"
proof -
  have len: "length (concat (map (\<lambda>x. scanline x w) xs)) \<le> length xs * (w + w div 62 + 5)" for xs
    by (induction xs) (auto intro: add_mono scanline_length)
  have whole: "concat (map (\<lambda>plane. scanline (pad_row w plane) w) planes) = concat (map (\<lambda>x. scanline x w) (map (pad_row w) planes))"
    by (simp add: comp_def)
  show ?thesis
  proof (cases "\<exists>prev. prior = Some prev \<and> delta_rows family")
    case False
    then have "encode_row family w prior planes = Some (concat (map (\<lambda>x. scanline x w) (map (pad_row w) planes)))"
      using whole by (auto simp: encode_row_def split: option.splits)
    with False assms(1) read_planes_scan [of w "map (pad_row w) planes" rest] len [of "map (pad_row w) planes"] show ?thesis
      by (auto simp: pad_row_id comp_def split: option.split)
  next
    case True
    then obtain prev where prev: "prior = Some prev" "delta_rows family" by blast
    with assms(2) have lp: "length prev = k" by simp
    define xs where "xs = map2 (\<lambda>plane before. xor_rows (pad_row w plane) (pad_row w before)) planes prev"
    have e: "encode_row family w prior planes = Some (concat (map (\<lambda>x. scanline x w) xs))"
      using prev lp assms(1) by (simp add: encode_row_def comp_def case_prod_unfold xs_def)
    have x: "length xs = k" using lp assms(1) by (simp add: xs_def)
    have m: "map (pad_row w) xs = xs" by (auto simp: pad_row_id xs_def)
    have u: "map2 xor_rows xs (map (pad_row w) prev) = map (pad_row w) planes"
      using lp assms(1) by (intro nth_equalityI) (simp_all add: xor_rows_undo xs_def)
    have "read_planes w k (concat (map (\<lambda>x. scanline x w) xs) @ rest) = Some (xs, rest)"
      using read_planes_scan [of w xs rest] by (simp only: x m)
    with prev e u len [of xs] x show ?thesis by simp
  qed
qed

lemma encode_rows_print:
  assumes "\<forall>planes\<in>set rows. length planes = k" and "\<forall>prev. prior = Some prev \<longrightarrow> length prev = k"
  shows "\<exists>coded. encode_rows family w prior rows = Some coded
    \<and> print_rows family w k (map_option (map (pad_row w)) prior) (length rows) (concat coded) = Some (map (map (pad_row w)) rows)
    \<and> (\<forall>row\<in>set coded. length row \<le> k * (w + w div 62 + 5))"
  using assms
proof (induction rows arbitrary: prior)
  case (Cons planes rows)
  then obtain coded where IH: "encode_rows family w (Some planes) rows = Some coded"
    "print_rows family w k (Some (map (pad_row w) planes)) (length rows) (concat coded) = Some (map (map (pad_row w)) rows)"
    "\<forall>row\<in>set coded. length row \<le> k * (w + w div 62 + 5)"
    using Cons.IH [of "Some planes"] by auto
  from Cons.prems encode_row_reads [of planes k prior family w "concat coded"] obtain c planes' where
    "encode_row family w prior planes = Some c" "read_planes w k (c @ concat coded) = Some (planes', concat coded)"
    "(case map_option (map (pad_row w)) prior of
         Some before \<Rightarrow> (if delta_rows family then map2 xor_rows planes' before else planes')
       | None \<Rightarrow> planes') = map (pad_row w) planes" "length c \<le> k * (w + w div 62 + 5)" by auto
  with IH show ?case by (simp add: Let_def)
qed simp

section \<open>Blocks\<close>

lemma cut_blocks_fit:
  assumes "\<forall>row\<in>set rows. length row \<le> m" and "block \<noteq> [] \<longrightarrow> length block + G_FRAMING \<le> room" and "b \<in> set (cut_blocks room block rows)"
  shows "\<exists>coded. b = g_block coded \<and> length coded + G_FRAMING \<le> max room G_FRAMING + m"
  using assms
proof (induction room block rows rule: cut_blocks.induct)
  case (1 room block)
  then show ?case by (auto split: if_splits intro!: exI [of _ block])
next
  case (2 room block row rows)
  have "length (block @ row) + G_FRAMING \<le> max room G_FRAMING + m" using 2(3,4) by (cases "block = []") auto
  with 2 show ?case by (auto simp: Let_def split: if_splits)
qed

lemma length_g_block: "length (g_block coded) = length coded + G_FRAMING"
  by (simp add: g_block_def u16_le_bytes_def G_FRAMING_def)

lemma read_g_block: "length coded < 65536 \<Longrightarrow> read_block (g_block coded) = Some coded"
  by (simp add: read_block_def g_block_def u16_le_bytes_def nth_append unat_of_nat take_bit_nat_eq_self)

lemma cut_blocks_content:
  assumes "\<forall>b\<in>set (cut_blocks room block rows). length b \<le> 65535"
  shows "those (map read_block (cut_blocks room block rows)) \<noteq> None
    \<and> concat (the (those (map read_block (cut_blocks room block rows)))) = block @ concat rows"
  using assms
proof (induction room block rows rule: cut_blocks.induct)
  case (1 room block)
  show ?case
  proof (cases "block = []")
    case False
    with 1 have "length block < 65536" by (simp add: length_g_block G_FRAMING_def)
    with False show ?thesis by (simp add: read_g_block)
  qed simp
next
  case (2 room block row rows)
  show ?case
  proof (cases "length (block @ row) + G_FRAMING > room")
    case True
    with 2(3) have "length (block @ row) < 65536" by (simp add: length_g_block G_FRAMING_def)
    with True 2(1) [OF refl True] 2(3) show ?thesis by (auto simp: Let_def read_g_block)
  next
    case False
    with 2(2) [OF refl] 2(3) show ?thesis by (simp add: Let_def)
  qed
qed

section \<open>What the printer gets\<close>

text \<open>
The run-length code of a plane reads back to exactly that plane, padded or cut to the row's
  width, whatever follows it in the stream, and takes at most five bytes and one byte in 62 more than the plane.\<close>

theorem scanline_reads_back:
  "read_plane width_bytes (scanline src width_bytes @ rest) = Some (pad_row width_bytes src, rest)
   \<and> length (scanline src width_bytes) \<le> width_bytes + width_bytes div 62 + 5"
  by (simp add: scanline_reads scanline_length)

lemma family_room:
  assumes "w \<le> 365"
  shows "max (block_room family kind w') G_FRAMING + band_planes kind * (w + w div 62 + 5) \<le> 0x8000"
proof -
  have "w div 62 \<le> 5" using div_le_mono [OF assms, of 62] by simp
  with assms have m: "w + w div 62 + 5 \<le> 375" by simp
  have "block_room family kind w' \<le> (case kind of Mono \<Rightarrow> 0x7E77 | ColorBand \<Rightarrow> 0x79FA)"
    by (auto simp: block_room_def COLOR_BLOCK_ROOM_MONO_def COLOR_BLOCK_ROOM_COLOR_def BLOCK_ROOM_1200_def
        split: bool.split BandKind.split)
  with m show ?thesis by (cases kind) (simp_all add: band_planes_def G_FRAMING_def)
qed

lemma band_prints:
  assumes "\<forall>planes\<in>set (rb_rows raw). length planes = band_planes (rb_kind raw)" and "rb_width raw \<le> print_width family"
  shows "\<exists>band stream. encode_band raw family = Some band
    \<and> (\<forall>blk\<in>set (band_blocks band (block_room family (rb_kind raw) (band_row_bytes band))). length blk \<le> 0x8000)
    \<and> those (map read_block (band_blocks band (block_room family (rb_kind raw) (band_row_bytes band)))) = Some stream
    \<and> print_rows family (div_ceil (rb_width raw) 8) (band_planes (rb_kind raw)) None (length (rb_rows raw)) (concat stream)
      = Some (map (map (pad_row (div_ceil (rb_width raw) 8))) (rb_rows raw))"
proof -
  let ?w = "div_ceil (rb_width raw) 8" and ?k = "band_planes (rb_kind raw)"
  have w: "?w \<le> 365" using div_ceil_mono [OF assms(2)] print_rowbytes_bound [of family]
    by (simp add: print_width_def print_rowbytes_def)
  from encode_rows_print [OF assms(1), of None family ?w] obtain coded where
    c: "encode_rows family ?w None (rb_rows raw) = Some coded"
    and p: "print_rows family ?w ?k None (length (rb_rows raw)) (concat coded) = Some (map (map (pad_row ?w)) (rb_rows raw))"
    and l: "\<forall>row\<in>set coded. length row \<le> ?k * (?w + ?w div 62 + 5)" by auto
  let ?band = "\<lparr>bd_top = word_of_nat (rb_top raw), bd_width = word_of_nat (rb_width raw), bd_kind = rb_kind raw, bd_rows = coded\<rparr>"
  let ?blocks = "cut_blocks (block_room family (rb_kind raw) (band_row_bytes ?band)) [] coded"
  have e: "encode_band raw family = Some ?band" by (simp add: encode_band_def c)
  have small: "length blk \<le> 0x8000" if b: "blk \<in> set ?blocks" for blk
  proof -
    from cut_blocks_fit [OF l _ b] obtain x where "blk = g_block x"
      "length x + G_FRAMING \<le> max (block_room family (rb_kind raw) (band_row_bytes ?band)) G_FRAMING + ?k * (?w + ?w div 62 + 5)"
      by blast
    with family_room [OF w, of family "rb_kind raw" "band_row_bytes ?band"] show ?thesis by (simp add: length_g_block)
  qed
  then have "\<forall>blk\<in>set ?blocks. length blk \<le> 65535" by fastforce
  from cut_blocks_content [OF this] obtain stream where "those (map read_block ?blocks) = Some stream" "concat stream = concat coded"
    by auto
  with e small p show ?thesis
    by (intro exI [of _ ?band] exI [of _ stream]) (simp add: band_blocks_def)
qed

text \<open>
A band no wider than the printable area goes out in G blocks of at most 0x8000 bytes each, the
  most a Color StyleWriter takes, and a printer that unframes the blocks, reads the codes of every
  plane of every row and undoes the deltas its family uses gets back exactly the band's rows, padded
  with white to whole bytes of the width.\<close>

theorem band_prints_back:
  assumes "\<forall>planes\<in>set (rb_rows raw). length planes = band_planes (rb_kind raw)" and "rb_width raw \<le> print_width family"
  shows "\<exists>band stream. encode_band raw family = Some band
    \<and> (\<forall>blk\<in>set (band_blocks band (block_room family (rb_kind raw) (band_row_bytes band))). length blk \<le> 0x8000)
    \<and> those (map read_block (band_blocks band (block_room family (rb_kind raw) (band_row_bytes band)))) = Some stream
    \<and> print_rows family (div_ceil (rb_width raw) 8) (band_planes (rb_kind raw)) None (length (rb_rows raw)) (concat stream)
      = Some (map (map (pad_row (div_ceil (rb_width raw) 8))) (rb_rows raw))"
  using assms by (rule band_prints)

definition example_band :: RawBand where
  "example_band = \<lparr>rb_top = 10, rb_width = 20, rb_kind = Mono, rb_rows = [[[0x11, 0x22]], [[0x11, 0xFF, 0xFF]]]\<rparr>"

lemma band_prints_back_witness:
  "\<exists>band stream. encode_band example_band (ColorFamily Cs2200) = Some band
    \<and> print_rows (ColorFamily Cs2200) 3 1 None 2 (concat stream) = Some [[[0x11, 0x22, 0]], [[0x11, 0xFF, 0xFF]]]"
proof -
  have h: "\<forall>planes\<in>set (rb_rows example_band). length planes = band_planes (rb_kind example_band)"
    "rb_width example_band \<le> print_width (ColorFamily Cs2200)"
    by (simp_all add: example_band_def band_planes_def print_width_def engine_of_def is_1200_series_def COLOR_ENGINE_def)
  from band_prints_back [OF this] obtain band stream where b: "encode_band example_band (ColorFamily Cs2200) = Some band"
    and p: "print_rows (ColorFamily Cs2200) (div_ceil (rb_width example_band) 8) (band_planes (rb_kind example_band)) None
      (length (rb_rows example_band)) (concat stream)
      = Some (map (map (pad_row (div_ceil (rb_width example_band) 8))) (rb_rows example_band))" by blast
  have "div_ceil (rb_width example_band) 8 = 3" "band_planes (rb_kind example_band) = 1" "length (rb_rows example_band) = 2"
    "map (map (pad_row 3)) (rb_rows example_band) = [[[0x11, 0x22, 0]], [[0x11, 0xFF, 0xFF]]]"
    by (simp_all add: example_band_def div_ceil_def band_planes_def pad_row_def DATA_WHITE_def)
  with p b show ?thesis by (simp only:) blast
qed

section \<open>The planes of a chunky scanline\<close>

text \<open>A byte of a plane holds its ink's bit of eight pixels, the left pixel of the first chunky byte in front.\<close>

lemma chunk_plane_bits:
  assumes "lo < 4"
  shows "bit (chunk_plane lo [b0, b1, b2, b3]) n \<longleftrightarrow>
    (n = 7 \<and> bit b0 (lo + 4)) \<or> (n = 6 \<and> bit b0 lo) \<or> (n = 5 \<and> bit b1 (lo + 4)) \<or> (n = 4 \<and> bit b1 lo)
    \<or> (n = 3 \<and> bit b2 (lo + 4)) \<or> (n = 2 \<and> bit b2 lo) \<or> (n = 1 \<and> bit b3 (lo + 4)) \<or> (n = 0 \<and> bit b3 lo)"
proof -
  have two: "bit (2 :: u8) k \<longleftrightarrow> k = 1" for k
    using bit_exp_iff [of 1 k, where 'a = u8] by (auto simp: possible_bit_def)
  have cb: "bit (chunk_bits lo b) k \<longleftrightarrow> (k = 1 \<and> bit b (lo + 4)) \<or> (k = 0 \<and> bit b lo)" for b k
    using assms by (auto simp: chunk_bits_def bit_simps two add.commute [of 4 lo])
  have "chunk_plane lo [b0, b1, b2, b3] = push_bit 2 (push_bit 2 (push_bit 2 (push_bit 2 0 OR chunk_bits lo b0)
    OR chunk_bits lo b1) OR chunk_bits lo b2) OR chunk_bits lo b3"
    by (simp add: chunk_plane_def upt_rec)
  moreover have push: "bit (push_bit 2 a OR chunk_bits lo b) k \<longleftrightarrow>
      (k = 1 \<and> bit b (lo + 4)) \<or> (k = 0 \<and> bit b lo) \<or> (2 \<le> k \<and> k < 8 \<and> bit a (k - 2))" for a b :: u8 and k
    by (auto simp: bit_simps cb)
  moreover consider "n = 0" | "n = 1" | "n = 2" | "n = 3" | "n = 4" | "n = 5" | "n = 6" | "n = 7" | "8 \<le> n" by linarith
  then have "bit (push_bit 2 (push_bit 2 (push_bit 2 (push_bit 2 0 OR chunk_bits lo b0)
      OR chunk_bits lo b1) OR chunk_bits lo b2) OR chunk_bits lo b3) n \<longleftrightarrow>
    (n = 7 \<and> bit b0 (lo + 4)) \<or> (n = 6 \<and> bit b0 lo) \<or> (n = 5 \<and> bit b1 (lo + 4)) \<or> (n = 4 \<and> bit b1 lo)
    \<or> (n = 3 \<and> bit b2 (lo + 4)) \<or> (n = 2 \<and> bit b2 lo) \<or> (n = 1 \<and> bit b3 (lo + 4)) \<or> (n = 0 \<and> bit b3 lo)"
    unfolding push by cases simp_all
  ultimately show ?thesis by simp
qed

end
