(* ===== verification/Sw_Raster.thy ===== *)
theory Sw_Raster
  imports Sw_Encode
begin

text \<open>
  Turning a page into bands (src/tailtalk/src/stylewriter/raster.rs): tone curves and the halftone
  pattern, colour separation, the random scattering with its carried errors, the packing and
  mirroring of 1-bit rows, and the loop that cuts a page into bands. Pixels are triples, inks lists of four
  amounts, and the \<open>i32\<close> arithmetic of the scattering is on \<open>int\<close> with the wraps of its narrower
  stores written out; the bounds proved below keep every intermediate value far inside 32 bits.
  A row read past the end of a page's pixels is the panic of the slice: \<open>None\<close>.
\<close>

section \<open>Tables\<close>

definition TONE_PATTERN_2200 :: bytes where
  "TONE_PATTERN_2200 = [
     0x00, 0x03, 0x06, 0x09, 0x0C, 0x0F, 0x12, 0x15, 0x18, 0x1B, 0x1E, 0x21, 0x24, 0x27, 0x2A, 0x2D,
     0x30, 0x30, 0x31, 0x32, 0x33, 0x34, 0x35, 0x36, 0x37, 0x38, 0x39, 0x3A, 0x3A, 0x3B, 0x3C, 0x3D,
     0x3E, 0x3F, 0x40, 0x41, 0x42, 0x43, 0x44, 0x45, 0x45, 0x46, 0x47, 0x48, 0x49, 0x4A, 0x4B, 0x4C,
     0x4D, 0x4E, 0x4F, 0x4F, 0x50, 0x51, 0x52, 0x53, 0x54, 0x55, 0x56, 0x57, 0x58, 0x59, 0x5A, 0x5A,
     0x5B, 0x5D, 0x5E, 0x5F, 0x60, 0x61, 0x62, 0x63, 0x64, 0x65, 0x66, 0x67, 0x68, 0x69, 0x6A, 0x6B,
     0x6D, 0x6E, 0x6F, 0x70, 0x71, 0x72, 0x73, 0x74, 0x75, 0x76, 0x77, 0x78, 0x79, 0x7A, 0x7B, 0x7C,
     0x7E, 0x7F, 0x80, 0x81, 0x82, 0x83, 0x84, 0x85, 0x86, 0x87, 0x88, 0x89, 0x8A, 0x8B, 0x8C, 0x8D,
     0x8F, 0x90, 0x91, 0x92, 0x93, 0x94, 0x95, 0x96, 0x97, 0x98, 0x99, 0x9A, 0x9B, 0x9C, 0x9D, 0x9E,
     0xA0, 0xA0, 0xA1, 0xA2, 0xA3, 0xA3, 0xA4, 0xA5, 0xA6, 0xA7, 0xA7, 0xA8, 0xA9, 0xAA, 0xAA, 0xAB,
     0xAC, 0xAD, 0xAE, 0xAE, 0xAF, 0xB0, 0xB1, 0xB1, 0xB2, 0xB3, 0xB4, 0xB5, 0xB5, 0xB6, 0xB7, 0xB8,
     0xB9, 0xB9, 0xBA, 0xBB, 0xBC, 0xBC, 0xBD, 0xBE, 0xBF, 0xC0, 0xC0, 0xC1, 0xC2, 0xC3, 0xC3, 0xC4,
     0xC5, 0xC6, 0xC7, 0xC7, 0xC8, 0xC9, 0xCA, 0xCA, 0xCB, 0xCC, 0xCD, 0xCE, 0xCE, 0xCF, 0xD0, 0xD1,
     0xD2, 0xD2, 0xD3, 0xD4, 0xD4, 0xD5, 0xD6, 0xD7, 0xD7, 0xD8, 0xD9, 0xD9, 0xDA, 0xDB, 0xDC, 0xDC,
     0xDD, 0xDE, 0xDF, 0xDF, 0xE0, 0xE1, 0xE1, 0xE2, 0xE3, 0xE4, 0xE4, 0xE5, 0xE6, 0xE6, 0xE7, 0xE8,
     0xE9, 0xE9, 0xEA, 0xEB, 0xEC, 0xEC, 0xED, 0xEE, 0xEE, 0xEF, 0xF0, 0xF1, 0xF1, 0xF2, 0xF3, 0xF3,
     0xF4, 0xF5, 0xF6, 0xF7, 0xF8, 0xF9, 0xFA, 0xFB, 0xFB, 0xFC, 0xFD, 0xFD, 0xFE, 0xFF, 0xFF, 0xFF]"

definition TONE_DIFFUSION_2200 :: bytes where
  "TONE_DIFFUSION_2200 = [
     0x00, 0x03, 0x06, 0x09, 0x0C, 0x0F, 0x12, 0x15, 0x18, 0x1B, 0x1E, 0x21, 0x24, 0x27, 0x2A, 0x2D,
     0x30, 0x32, 0x35, 0x38, 0x3B, 0x3D, 0x40, 0x43, 0x46, 0x48, 0x4B, 0x4E, 0x51, 0x53, 0x56, 0x59,
     0x5C, 0x5D, 0x5E, 0x5F, 0x60, 0x61, 0x63, 0x64, 0x65, 0x66, 0x67, 0x69, 0x6A, 0x6B, 0x6C, 0x6D,
     0x6F, 0x70, 0x71, 0x72, 0x73, 0x74, 0x76, 0x77, 0x78, 0x79, 0x7A, 0x7C, 0x7D, 0x7E, 0x7F, 0x80,
     0x82, 0x82, 0x83, 0x84, 0x85, 0x86, 0x87, 0x88, 0x89, 0x8A, 0x8B, 0x8C, 0x8D, 0x8E, 0x8F, 0x90,
     0x91, 0x91, 0x92, 0x93, 0x94, 0x95, 0x96, 0x97, 0x98, 0x99, 0x9A, 0x9B, 0x9C, 0x9D, 0x9E, 0x9F,
     0xA0, 0xA1, 0xA2, 0xA3, 0xA4, 0xA5, 0xA6, 0xA7, 0xA8, 0xA9, 0xAA, 0xAB, 0xAC, 0xAD, 0xAE, 0xAF,
     0xB0, 0xB1, 0xB2, 0xB3, 0xB4, 0xB5, 0xB6, 0xB7, 0xB8, 0xB9, 0xBA, 0xBB, 0xBC, 0xBD, 0xBE, 0xBF,
     0xC0, 0xC0, 0xC1, 0xC1, 0xC2, 0xC2, 0xC3, 0xC4, 0xC4, 0xC5, 0xC5, 0xC6, 0xC7, 0xC7, 0xC8, 0xC8,
     0xC9, 0xCA, 0xCA, 0xCB, 0xCB, 0xCC, 0xCD, 0xCD, 0xCE, 0xCE, 0xCF, 0xD0, 0xD0, 0xD1, 0xD1, 0xD2,
     0xD3, 0xD3, 0xD4, 0xD4, 0xD5, 0xD5, 0xD6, 0xD7, 0xD7, 0xD8, 0xD8, 0xD9, 0xDA, 0xDA, 0xDB, 0xDB,
     0xDC, 0xDD, 0xDD, 0xDE, 0xDE, 0xDF, 0xE0, 0xE0, 0xE1, 0xE1, 0xE2, 0xE3, 0xE3, 0xE4, 0xE4, 0xE5,
     0xE6, 0xE6, 0xE6, 0xE7, 0xE7, 0xE8, 0xE8, 0xE8, 0xE9, 0xE9, 0xEA, 0xEA, 0xEA, 0xEB, 0xEB, 0xEC,
     0xEC, 0xEC, 0xED, 0xED, 0xEE, 0xEE, 0xEE, 0xEF, 0xEF, 0xF0, 0xF0, 0xF0, 0xF1, 0xF1, 0xF2, 0xF2,
     0xF2, 0xF3, 0xF3, 0xF4, 0xF4, 0xF4, 0xF5, 0xF5, 0xF6, 0xF6, 0xF6, 0xF7, 0xF7, 0xF8, 0xF8, 0xF8,
     0xF9, 0xF9, 0xFA, 0xFA, 0xFA, 0xFB, 0xFB, 0xFC, 0xFC, 0xFC, 0xFD, 0xFD, 0xFD, 0xFF, 0xFF, 0xFF]"

definition TONE_PATTERN_1500 :: bytes where
  "TONE_PATTERN_1500 = [
     0x00, 0x04, 0x06, 0x09, 0x0B, 0x0D, 0x0F, 0x11, 0x13, 0x15, 0x17, 0x19, 0x1B, 0x1C, 0x1E, 0x20,
     0x22, 0x23, 0x25, 0x27, 0x28, 0x2A, 0x2C, 0x2D, 0x2F, 0x30, 0x32, 0x33, 0x35, 0x36, 0x38, 0x39,
     0x3B, 0x3C, 0x3E, 0x3F, 0x40, 0x42, 0x43, 0x44, 0x45, 0x47, 0x48, 0x49, 0x4A, 0x4C, 0x4D, 0x4E,
     0x50, 0x51, 0x52, 0x53, 0x55, 0x56, 0x57, 0x58, 0x5A, 0x5B, 0x5C, 0x5D, 0x5F, 0x60, 0x61, 0x62,
     0x63, 0x64, 0x66, 0x67, 0x68, 0x69, 0x6A, 0x6B, 0x6C, 0x6E, 0x6F, 0x70, 0x71, 0x72, 0x73, 0x74,
     0x75, 0x76, 0x77, 0x78, 0x79, 0x7B, 0x7C, 0x7D, 0x7E, 0x7F, 0x80, 0x81, 0x82, 0x83, 0x84, 0x85,
     0x86, 0x87, 0x88, 0x89, 0x8A, 0x8B, 0x8C, 0x8D, 0x8E, 0x8F, 0x90, 0x91, 0x92, 0x93, 0x94, 0x95,
     0x96, 0x97, 0x98, 0x99, 0x9A, 0x9A, 0x9B, 0x9C, 0x9D, 0x9E, 0x9F, 0xA0, 0xA1, 0xA2, 0xA3, 0xA4,
     0xA5, 0xA5, 0xA6, 0xA7, 0xA8, 0xA9, 0xAA, 0xAB, 0xAB, 0xAC, 0xAD, 0xAE, 0xAF, 0xB0, 0xB1, 0xB2,
     0xB2, 0xB3, 0xB4, 0xB5, 0xB6, 0xB7, 0xB8, 0xB9, 0xB9, 0xBA, 0xBB, 0xBC, 0xBD, 0xBE, 0xBE, 0xBF,
     0xC0, 0xC1, 0xC1, 0xC2, 0xC3, 0xC3, 0xC4, 0xC5, 0xC5, 0xC6, 0xC7, 0xC8, 0xC8, 0xC9, 0xCA, 0xCA,
     0xCB, 0xCC, 0xCD, 0xCD, 0xCE, 0xCF, 0xCF, 0xD0, 0xD1, 0xD1, 0xD2, 0xD3, 0xD3, 0xD4, 0xD5, 0xD6,
     0xD6, 0xD7, 0xD8, 0xD8, 0xD9, 0xDA, 0xDA, 0xDB, 0xDC, 0xDC, 0xDD, 0xDE, 0xDE, 0xDF, 0xE0, 0xE1,
     0xE1, 0xE2, 0xE3, 0xE4, 0xE4, 0xE5, 0xE6, 0xE6, 0xE7, 0xE8, 0xE8, 0xE9, 0xEA, 0xEB, 0xEB, 0xEC,
     0xED, 0xED, 0xEE, 0xEE, 0xEF, 0xF0, 0xF0, 0xF1, 0xF2, 0xF2, 0xF3, 0xF3, 0xF4, 0xF5, 0xF5, 0xF6,
     0xF6, 0xF7, 0xF7, 0xF8, 0xF8, 0xF9, 0xF9, 0xFA, 0xFA, 0xFB, 0xFB, 0xFC, 0xFD, 0xFE, 0xFE, 0xFF]"

definition TONE_DIFFUSION_1500 :: bytes where
  "TONE_DIFFUSION_1500 = [
     0x00, 0x06, 0x0A, 0x0D, 0x10, 0x13, 0x16, 0x18, 0x1B, 0x1E, 0x20, 0x23, 0x25, 0x27, 0x2A, 0x2C,
     0x2E, 0x30, 0x33, 0x35, 0x37, 0x39, 0x3B, 0x3D, 0x3F, 0x41, 0x43, 0x45, 0x47, 0x48, 0x4A, 0x4C,
     0x4E, 0x50, 0x51, 0x53, 0x55, 0x57, 0x58, 0x5A, 0x5C, 0x5D, 0x5F, 0x60, 0x62, 0x64, 0x65, 0x67,
     0x68, 0x6A, 0x6C, 0x6D, 0x6F, 0x70, 0x72, 0x73, 0x75, 0x76, 0x77, 0x79, 0x7A, 0x7C, 0x7D, 0x7F,
     0x80, 0x81, 0x82, 0x83, 0x85, 0x86, 0x87, 0x89, 0x8A, 0x8B, 0x8C, 0x8D, 0x8F, 0x90, 0x91, 0x92,
     0x93, 0x94, 0x95, 0x96, 0x97, 0x98, 0x99, 0x9A, 0x9C, 0x9D, 0x9E, 0x9F, 0xA0, 0xA1, 0xA2, 0xA3,
     0xA4, 0xA5, 0xA6, 0xA7, 0xA8, 0xA9, 0xAA, 0xAB, 0xAB, 0xAC, 0xAD, 0xAE, 0xAF, 0xAF, 0xB0, 0xB1,
     0xB2, 0xB2, 0xB3, 0xB4, 0xB5, 0xB5, 0xB6, 0xB7, 0xB8, 0xB8, 0xB9, 0xBA, 0xBA, 0xBB, 0xBC, 0xBD,
     0xBD, 0xBE, 0xBF, 0xC0, 0xC0, 0xC1, 0xC2, 0xC3, 0xC3, 0xC4, 0xC5, 0xC5, 0xC6, 0xC7, 0xC7, 0xC8,
     0xC9, 0xC9, 0xCA, 0xCB, 0xCC, 0xCC, 0xCD, 0xCE, 0xCE, 0xCF, 0xD0, 0xD0, 0xD1, 0xD2, 0xD2, 0xD3,
     0xD3, 0xD4, 0xD5, 0xD5, 0xD6, 0xD6, 0xD7, 0xD8, 0xD8, 0xD9, 0xD9, 0xDA, 0xDB, 0xDB, 0xDC, 0xDC,
     0xDD, 0xDD, 0xDE, 0xDF, 0xDF, 0xE0, 0xE0, 0xE1, 0xE1, 0xE2, 0xE3, 0xE3, 0xE4, 0xE4, 0xE5, 0xE5,
     0xE6, 0xE6, 0xE7, 0xE7, 0xE7, 0xE8, 0xE8, 0xE8, 0xE9, 0xE9, 0xEA, 0xEA, 0xEA, 0xEB, 0xEB, 0xEB,
     0xEC, 0xEC, 0xEC, 0xED, 0xED, 0xEE, 0xEE, 0xEE, 0xEF, 0xEF, 0xEF, 0xF0, 0xF0, 0xF1, 0xF1, 0xF1,
     0xF2, 0xF2, 0xF2, 0xF3, 0xF3, 0xF4, 0xF4, 0xF4, 0xF5, 0xF5, 0xF5, 0xF6, 0xF6, 0xF6, 0xF7, 0xF7,
     0xF8, 0xF8, 0xF8, 0xF9, 0xF9, 0xF9, 0xFA, 0xFA, 0xFB, 0xFB, 0xFC, 0xFC, 0xFD, 0xFD, 0xFE, 0xFF]"

definition HALFTONE_PATTERN :: bytes where
  "HALFTONE_PATTERN = [
     0x23, 0x6B, 0x9B, 0xA4, 0xDC, 0x94, 0x61, 0x59, 0x21, 0x69, 0x99, 0xA6, 0xDE, 0x96, 0x63, 0x5B,
     0xB3, 0x8B, 0x7C, 0x34, 0x4C, 0x74, 0x84, 0xC9, 0xB1, 0x89, 0x7E, 0x36, 0x4E, 0x76, 0x86, 0xCB,
     0xF3, 0xC4, 0x44, 0x14, 0x0C, 0x3C, 0xBC, 0xEC, 0xF1, 0xC6, 0x46, 0x16, 0x0E, 0x3E, 0xBE, 0xEE,
     0xF8, 0xAC, 0x2C, 0x1C, 0x05, 0x54, 0xD4, 0xE4, 0xFA, 0xAE, 0x2E, 0x1E, 0x07, 0x56, 0xD6, 0xE6,
     0xD8, 0x90, 0x64, 0x5C, 0x24, 0x6C, 0x9C, 0xA2, 0xDA, 0x92, 0x66, 0x5E, 0x26, 0x6E, 0x9E, 0xA0,
     0x48, 0x70, 0x80, 0xCC, 0xB4, 0x8C, 0x7A, 0x32, 0x4A, 0x72, 0x82, 0xCE, 0xB6, 0x8E, 0x78, 0x30,
     0x08, 0x38, 0xB8, 0xE8, 0xF4, 0xC2, 0x42, 0x12, 0x0A, 0x3A, 0xBA, 0xEA, 0xF6, 0xC0, 0x40, 0x10,
     0x01, 0x50, 0xD0, 0xE0, 0xFC, 0xAA, 0x2A, 0x1A, 0x03, 0x52, 0xD2, 0xE2, 0xFE, 0xA8, 0x28, 0x18,
     0x20, 0x68, 0x98, 0xA7, 0xDF, 0x97, 0x62, 0x5A, 0x22, 0x6A, 0x9A, 0xA5, 0xDD, 0x95, 0x60, 0x58,
     0xB0, 0x87, 0x7F, 0x37, 0x4F, 0x77, 0x87, 0xCA, 0xB2, 0x8A, 0x7D, 0x35, 0x4D, 0x75, 0x85, 0xC8,
     0xF0, 0xC7, 0x47, 0x17, 0x0F, 0x3F, 0xBF, 0xEF, 0xF2, 0xC5, 0x45, 0x15, 0x0D, 0x3D, 0xBD, 0xED,
     0xFA, 0xAF, 0x2F, 0x1F, 0x07, 0x57, 0xD7, 0xE7, 0xF8, 0xAD, 0x2D, 0x1D, 0x05, 0x55, 0xD5, 0xE5,
     0xDB, 0x93, 0x67, 0x5F, 0x27, 0x6F, 0x9F, 0xA1, 0xD9, 0x91, 0x65, 0x5D, 0x25, 0x6D, 0x9D, 0xA3,
     0x4B, 0x73, 0x83, 0xCF, 0xB7, 0x8F, 0x79, 0x31, 0x49, 0x71, 0x81, 0xCD, 0xB5, 0x8D, 0x7B, 0x33,
     0x0B, 0x3B, 0xBB, 0xEB, 0xF7, 0xC1, 0x41, 0x11, 0x09, 0x39, 0xB9, 0xE9, 0xF5, 0xC3, 0x43, 0x13,
     0x03, 0x53, 0xD3, 0xE3, 0xFE, 0xA9, 0x29, 0x19, 0x01, 0x51, 0xD1, 0xE1, 0xFC, 0xAB, 0x2B, 0x1B]"

definition HALFTONE_SIZE :: nat where "HALFTONE_SIZE = 16"
definition HALFTONE_MAX :: u8 where "HALFTONE_MAX = 254"
definition SCATTER_ROWS :: nat where "SCATTER_ROWS = 5"
definition SCATTER_SPLIT :: int where "SCATTER_SPLIT = 0x2FF"
definition SCATTER_SPLIT_DRAFT :: int where "SCATTER_SPLIT_DRAFT = 0x175"

definition tone_curve :: "StyleWriterFamily \<Rightarrow> Halftone \<Rightarrow> bytes" where
  "tone_curve family halftone =
     (case (is_1200_series family, halftone) of
        (False, Pattern) \<Rightarrow> TONE_PATTERN_2200
      | (False, Diffusion) \<Rightarrow> TONE_DIFFUSION_2200
      | (True, Pattern) \<Rightarrow> TONE_PATTERN_1500
      | (True, Diffusion) \<Rightarrow> TONE_DIFFUSION_1500)"

section \<open>Pixels\<close>

type_synonym rgb = "u8 \<times> u8 \<times> u8"
type_synonym ink = bytes

definition WHITE :: rgb where "WHITE = (0xFF, 0xFF, 0xFF)"
definition BLACK :: rgb where "BLACK = (0, 0, 0)"
definition NO_INK :: ink where "NO_INK = [0, 0, 0, 0]"

definition separate :: "rgb \<Rightarrow> bytes \<Rightarrow> ink" where
  "separate px tone =
     (if px = WHITE then NO_INK
      else
        let (r0, g0, b0) = px; r = tone ! unat r0; g = tone ! unat g0; b = tone ! unat b0; m = max (max r g) b
        in [m - r, m - g, m - b, 255 - m])"

definition lighten :: "rgb \<Rightarrow> rgb" where
  "lighten px =
     (let (r, g, b) = px; m = max (max r g) b; lift = word_of_nat (unat (255 - m) * 10 div 100)
      in (r + lift, g + lift, b + lift))"

definition luma :: "rgb \<Rightarrow> u8" where
  "luma px = (let (r, g, b) = px in word_of_nat ((unat r * 30 + unat g * 59 + unat b * 11) div 100))"

datatype Pixels = PixBlackAndWhite bytes | PixGray bytes | PixRgb bytes

record Page =
  pg_width :: nat
  pg_height :: nat
  pg_pixels :: Pixels

datatype SourceRow = RowGray bytes | RowRgb "rgb list"

text \<open>\<open>&v[a..b]\<close>, which panics past the end.\<close>

definition subslice :: "nat \<Rightarrow> nat \<Rightarrow> 'a list \<Rightarrow> 'a list option" where
  "subslice a b v = (if a \<le> b \<and> b \<le> length v then Some (take (b - a) (drop a v)) else None)"

fun rgb_chunks :: "bytes \<Rightarrow> rgb list" where
  "rgb_chunks (r # g # b # rest) = (r, g, b) # rgb_chunks rest"
| "rgb_chunks _ = []"

section \<open>1-bit rows\<close>

definition dot_mask :: "nat \<Rightarrow> u8" where
  "dot_mask x = drop_bit (x mod 8) 0x80"

definition get_dot :: "bytes \<Rightarrow> nat \<Rightarrow> bool" where
  "get_dot row x = (row ! (x div 8) AND dot_mask x \<noteq> 0)"

definition pack_dot :: "bytes \<Rightarrow> nat \<times> bool \<Rightarrow> bytes" where
  "pack_dot row xd =
     (let (x, dot) = xd; row' = (if x mod 8 = 0 then row @ [0] else row)
      in if dot then row'[length row' - 1 := row' ! (length row' - 1) OR dot_mask x] else row')"

definition pack :: "bool list \<Rightarrow> bytes" where
  "pack dots = foldl pack_dot [] (enumerate 0 dots)"

definition mirror_dot :: "nat \<Rightarrow> bytes \<Rightarrow> nat \<Rightarrow> bytes" where
  "mirror_dot width row x =
     (let y = width - 1 - x in
      if get_dot row x \<noteq> get_dot row y
      then let row1 = row[x div 8 := row ! (x div 8) XOR dot_mask x]
           in row1[y div 8 := row1 ! (y div 8) XOR dot_mask y]
      else row)"

definition mirror_bits :: "bytes \<Rightarrow> nat \<Rightarrow> bytes" where
  "mirror_bits row width = foldl (mirror_dot width) row [0..<width div 2]"

definition row_blank :: "SourceRow \<Rightarrow> bool" where
  "row_blank row =
     (case row of RowGray ps \<Rightarrow> \<forall>g\<in>set ps. g = 0xFF | RowRgb ps \<Rightarrow> \<forall>px\<in>set ps. px = WHITE)"

definition needs_depth :: "SourceRow \<Rightarrow> bool" where
  "needs_depth row =
     (case row of
        RowGray ps \<Rightarrow> \<exists>g\<in>set ps. g \<noteq> 0 \<and> g \<noteq> 0xFF
      | RowRgb ps \<Rightarrow> \<exists>px\<in>set ps. px \<noteq> BLACK \<and> px \<noteq> WHITE)"

definition black_bits :: "SourceRow \<Rightarrow> bytes" where
  "black_bits row =
     (case row of RowGray ps \<Rightarrow> pack (map (\<lambda>g. g = 0) ps) | RowRgb ps \<Rightarrow> pack (map (\<lambda>px. px = BLACK) ps))"

section \<open>The scattering\<close>

definition rand_step :: "u32 \<Rightarrow> u32 \<times> u32" where
  "rand_step s = (let s' = s * 1103515245 + 12345 in (drop_bit 16 s' AND 0x7FFF, s'))"

record Scatter =
  sc_carry :: "int list"
  sc_backward :: bool
  sc_down :: "int list list"

definition scatter_new :: "nat \<Rightarrow> Scatter" where
  "scatter_new n = \<lparr>sc_carry = replicate n 0, sc_backward = False, sc_down = []\<rparr>"

definition scatter_fit :: "nat \<Rightarrow> nat \<Rightarrow> Scatter \<Rightarrow> Scatter" where
  "scatter_fit n width s =
     (if length (sc_down s) < width
      then \<lparr>sc_carry = replicate n 0, sc_backward = False, sc_down = replicate width (replicate n 0)\<rparr> else s)"

text \<open>The dot, and the new carry, error going down and random number.\<close>

definition scatter_step :: "u8 \<Rightarrow> int \<Rightarrow> int \<Rightarrow> u32 \<Rightarrow> int \<Rightarrow> bool \<times> int \<times> int \<times> u32" where
  "scatter_step value carry down lcg split =
     (let v0 = carry + uint value + down; lcg' = lcg * 513 + 1; r = uint (drop_bit 24 lcg');
          reached = (drop_bit 3 r + 0x6F < v0);
          v = (if reached then v0 - 0xFF else v0);
          carry' = drop_bit 10 ((split - r) * v)
      in (reached, carry', signed_take_bit 7 (v - carry'), lcg'))"

text \<open>One pixel: its inks in the order of the row's direction. The state is the inks, the carries, the column's
  errors and the random number.\<close>

fun scatter_channels ::
  "int \<Rightarrow> nat list \<Rightarrow> ink \<times> int list \<times> int list \<times> u32 \<Rightarrow> ink \<times> int list \<times> int list \<times> u32" where
  "scatter_channels split [] st = st"
| "scatter_channels split (ch # chs) (inks, carry, down, lcg) =
     (let (dot, c, d, lcg') = scatter_step (inks ! ch) (carry ! ch) (down ! ch) lcg split
      in scatter_channels split chs (inks[ch := (if dot then 0xFF else 0)], carry[ch := c], down[ch := d], lcg'))"

definition scatter_pixel_color ::
  "int \<Rightarrow> nat \<Rightarrow> ink list \<times> Scatter \<times> u32 \<Rightarrow> ink list \<times> Scatter \<times> u32" where
  "scatter_pixel_color split i st =
     (let (row, s, lcg) = st; x = (if sc_backward s then length row - 1 - i else i) in
      if row ! x = NO_INK
      then (row, s\<lparr>sc_carry := [0, 0, 0, 0], sc_down := (sc_down s)[x := [0, 0, 0, 0]]\<rparr>, lcg)
      else
        let (inks, carry, down, lcg') =
              scatter_channels split (if sc_backward s then [3, 2, 1, 0] else [0, 1, 2, 3])
                (row ! x, sc_carry s, sc_down s ! x, lcg)
        in (row[x := inks], s\<lparr>sc_carry := carry, sc_down := (sc_down s)[x := down]\<rparr>, lcg'))"

definition scatter_row_color :: "int \<Rightarrow> ink list \<Rightarrow> Scatter \<Rightarrow> u32 \<Rightarrow> ink list \<times> Scatter \<times> u32" where
  "scatter_row_color split row s lcg =
     (let (row', s', lcg') = fold (scatter_pixel_color split) [0..<length row] (row, s, lcg)
      in (row', s'\<lparr>sc_backward := \<not> sc_backward s'\<rparr>, lcg'))"

fun scatter_rows_color :: "int \<Rightarrow> ink list list \<Rightarrow> Scatter \<Rightarrow> u32 \<Rightarrow> ink list list \<times> Scatter" where
  "scatter_rows_color split [] s lcg = ([], s)"
| "scatter_rows_color split (row # rows) s lcg =
     (let (row', s', lcg') = scatter_row_color split row s lcg; (rows', s'') = scatter_rows_color split rows s' lcg'
      in (row' # rows', s''))"

text \<open>Between stretches: \<open>(carry << 17) >> 17\<close> for cyan, \<open>as i16\<close> for the others.\<close>

definition settle_color :: "int list \<Rightarrow> int list" where
  "settle_color carry =
     (case carry of
        [] \<Rightarrow> []
      | c # cs \<Rightarrow> drop_bit 17 (signed_take_bit 31 (push_bit 17 c)) # map (signed_take_bit 15) cs)"

fun scatter_stretches_color :: "int \<Rightarrow> ink list list list \<Rightarrow> Scatter \<Rightarrow> u32 \<Rightarrow> ink list list \<times> Scatter \<times> u32" where
  "scatter_stretches_color split [] s rand = ([], s, rand)"
| "scatter_stretches_color split (stretch # rest) s rand =
     (let (x, rand') = rand_step rand;
          (rows, s') = scatter_rows_color split stretch s (push_bit 16 x);
          (rows', s'', rand'') = scatter_stretches_color split rest (s'\<lparr>sc_carry := settle_color (sc_carry s')\<rparr>) rand'
      in (rows @ rows', s'', rand''))"

definition scatter_color :: "int \<Rightarrow> ink list list \<Rightarrow> Scatter \<Rightarrow> u32 \<Rightarrow> ink list list \<times> Scatter \<times> u32" where
  "scatter_color split rows s rand =
     scatter_stretches_color split (chunks_of SCATTER_ROWS rows)
       (scatter_fit 4 (case rows of [] \<Rightarrow> 0 | row # _ \<Rightarrow> length row) s) rand"

definition scatter_pixel_gray ::
  "int \<Rightarrow> nat \<Rightarrow> bytes \<times> Scatter \<times> u32 \<Rightarrow> bytes \<times> Scatter \<times> u32" where
  "scatter_pixel_gray split i st =
     (let (row, s, lcg) = st; x = (if sc_backward s then length row - 1 - i else i) in
      if row ! x = 0xFF
      then (row[x := 0], s\<lparr>sc_carry := [0], sc_down := (sc_down s)[x := [0]]\<rparr>, lcg)
      else
        let (white, c, d, lcg') = scatter_step (row ! x) (sc_carry s ! 0) (sc_down s ! x ! 0) lcg split
        in (row[x := (if white then 0 else 0xFF)],
            s\<lparr>sc_carry := (sc_carry s)[0 := c], sc_down := (sc_down s)[x := (sc_down s ! x)[0 := d]]\<rparr>, lcg'))"

definition scatter_row_gray :: "int \<Rightarrow> bytes \<Rightarrow> Scatter \<Rightarrow> u32 \<Rightarrow> bytes \<times> Scatter \<times> u32" where
  "scatter_row_gray split row s lcg =
     (let (row', s', lcg') = fold (scatter_pixel_gray split) [0..<length row] (row, s, lcg)
      in (row', s'\<lparr>sc_backward := \<not> sc_backward s'\<rparr>, lcg'))"

fun scatter_rows_gray :: "int \<Rightarrow> bytes list \<Rightarrow> Scatter \<Rightarrow> u32 \<Rightarrow> bytes list \<times> Scatter" where
  "scatter_rows_gray split [] s lcg = ([], s)"
| "scatter_rows_gray split (row # rows) s lcg =
     (let (row', s', lcg') = scatter_row_gray split row s lcg; (rows', s'') = scatter_rows_gray split rows s' lcg'
      in (row' # rows', s''))"

fun scatter_stretches_gray :: "int \<Rightarrow> bytes list list \<Rightarrow> Scatter \<Rightarrow> u32 \<Rightarrow> bytes list \<times> Scatter \<times> u32" where
  "scatter_stretches_gray split [] s rand = ([], s, rand)"
| "scatter_stretches_gray split (stretch # rest) s rand =
     (let (x, rand') = rand_step rand;
          (rows, s') = scatter_rows_gray split stretch s (push_bit 16 x);
          (rows', s'', rand'') = scatter_stretches_gray split rest
             (s'\<lparr>sc_carry := (sc_carry s')[0 := signed_take_bit 15 (sc_carry s' ! 0)]\<rparr>) rand'
      in (rows @ rows', s'', rand''))"

definition scatter_gray :: "int \<Rightarrow> bytes list \<Rightarrow> Scatter \<Rightarrow> u32 \<Rightarrow> bytes list \<times> Scatter \<times> u32" where
  "scatter_gray split rows s rand =
     scatter_stretches_gray split (chunks_of SCATTER_ROWS rows)
       (scatter_fit 1 (case rows of [] \<Rightarrow> 0 | row # _ \<Rightarrow> length row) s) rand"

section \<open>Dots of a 1-bit row\<close>

lemma dot_mask_exp: "dot_mask x = push_bit (7 - x mod 8) 1"
proof -
  have "\<forall>k\<in>set [0..<8]. drop_bit k (0x80 :: u8) = push_bit (7 - k) 1" by code_simp
  moreover have "x mod 8 \<in> set [0..<8]" by simp
  ultimately show ?thesis unfolding dot_mask_def by blast
qed

lemma bit_dot_mask: "bit (dot_mask x) n \<longleftrightarrow> n = 7 - x mod 8"
  by (auto simp: dot_mask_exp bit_simps)

lemma get_dot_bit: "get_dot row x = bit (row ! (x div 8)) (7 - x mod 8)"
proof
  assume "get_dot row x"
  then obtain n where "bit (row ! (x div 8) AND dot_mask x) n"
    by (metis get_dot_def bit_eq_iff bit_0_eq bot_apply bot_bool_def)
  then show "bit (row ! (x div 8)) (7 - x mod 8)" by (auto simp: bit_simps bit_dot_mask)
next
  assume "bit (row ! (x div 8)) (7 - x mod 8)"
  then have "bit (row ! (x div 8) AND dot_mask x) (7 - x mod 8)" by (simp add: bit_simps bit_dot_mask)
  then show "get_dot row x" by (auto simp: get_dot_def)
qed

lemma same_dot: "x div 8 = y div 8 \<Longrightarrow> 7 - x mod 8 = 7 - y mod 8 \<longleftrightarrow> x = y" for x y :: nat
proof
  assume d: "x div 8 = y div 8" and "7 - x mod 8 = 7 - y mod 8"
  moreover have "x mod 8 < 8" "y mod 8 < 8" by simp_all
  ultimately have "x mod 8 = y mod 8" by linarith
  with d show "x = y" by (metis div_mod_decomp)
qed simp

lemma get_dot_or:
  assumes "y div 8 < length row"
  shows "get_dot (row[y div 8 := row ! (y div 8) OR dot_mask y]) x \<longleftrightarrow> get_dot row x \<or> x = y"
  using assms same_dot [of x y]
  by (cases "x div 8 = y div 8") (auto simp: get_dot_bit bit_simps bit_dot_mask)

lemma get_dot_xor:
  assumes "y div 8 < length row"
  shows "get_dot (row[y div 8 := row ! (y div 8) XOR dot_mask y]) x \<longleftrightarrow> get_dot row x \<noteq> (x = y)"
  using assms same_dot [of x y]
  by (cases "x div 8 = y div 8") (auto simp: get_dot_bit bit_simps bit_dot_mask)

lemma pack_snoc: "pack (dots @ [d]) = pack_dot (pack dots) (length dots, d)"
  by (simp add: pack_def enumerate_append_eq)

lemma div_ceil_eq: "div_ceil n 8 = n div 8 + (if n mod 8 = 0 then 0 else 1)"
proof -
  obtain k m where k: "k = n div 8" and m: "m = n mod 8" by blast
  then have n: "n + 8 - 1 = m + 7 + k * 8" by simp
  have "(m + 7 + k * 8) div 8 = k + (m + 7) div 8" by (rule div_mult_self1) simp
  then have "div_ceil n 8 = n div 8 + (n mod 8 + 7) div 8" unfolding div_ceil_def n by (simp only: k m)
  moreover have "n mod 8 < 8" by simp
  then have "(n mod 8 + 7) div 8 = (if n mod 8 = 0 then 0 else 1)" by (cases "n mod 8 = 0") (simp_all add: le_div_geq)
  ultimately show ?thesis by simp
qed

lemma div_ceil_Suc: "div_ceil (Suc n) 8 = div_ceil n 8 + (if n mod 8 = 0 then 1 else 0)"
  by (simp add: div_ceil_eq div_Suc mod_Suc)

lemma length_pack [simp]: "length (pack dots) = div_ceil (length dots) 8"
proof (induction dots rule: rev_induct)
  case Nil
  show ?case by (simp add: pack_def div_ceil_def)
next
  case (snoc d dots)
  have "length (pack (dots @ [d])) = length (pack dots) + (if length dots mod 8 = 0 then 1 else 0)"
    by (simp add: pack_snoc pack_dot_def Let_def)
  with snoc show ?case by (simp add: div_ceil_Suc)
qed

lemma get_dot_pack: "x < 8 * length (pack dots) \<Longrightarrow> get_dot (pack dots) x \<longleftrightarrow> x < length dots \<and> dots ! x"
proof (induction dots arbitrary: x rule: rev_induct)
  case Nil
  then show ?case by (simp add: div_ceil_def)
next
  case (snoc d dots)
  let ?n = "length dots" and ?row = "if length dots mod 8 = 0 then pack dots @ [0] else pack dots"
  have len: "length ?row = Suc (?n div 8)"
    by (simp add: div_ceil_eq)
  have row: "get_dot ?row x \<longleftrightarrow> x < ?n \<and> dots ! x" if "x < 8 * length ?row" for x
  proof (cases "x < 8 * length (pack dots)")
    case True
    then have "?row ! (x div 8) = pack dots ! (x div 8)" by (simp add: nth_append) linarith
    with snoc.IH [OF True] show ?thesis by (simp add: get_dot_def)
  next
    case False
    with that len have m: "?n mod 8 = 0" by (auto split: if_splits)
    then have "8 * length (pack dots) = ?n" by (auto simp: div_ceil_eq)
    with False that m have "x div 8 = length (pack dots)" "?n \<le> x" by (auto simp: len)
    then show ?thesis using m by (simp add: get_dot_bit nth_append)
  qed
  have packed: "pack (dots @ [d]) = (if d then ?row[?n div 8 := ?row ! (?n div 8) OR dot_mask ?n] else ?row)"
    using len by (simp add: pack_snoc pack_dot_def Let_def)
  then have "length (pack (dots @ [d])) = length ?row" by (simp only: length_list_update split: if_split) simp
  with snoc.prems have x: "x < 8 * length ?row" by simp
  have "get_dot (pack (dots @ [d])) x \<longleftrightarrow> get_dot ?row x \<or> (d \<and> x = ?n)"
    unfolding packed using get_dot_or [of ?n ?row x] len by (simp split: if_splits)
  with row [OF x] show ?case by (auto simp: nth_append less_Suc_eq)
qed

section \<open>Mirrored rows\<close>

lemma length_mirror_dot [simp]: "length (mirror_dot width row x) = length row"
  by (simp add: mirror_dot_def Let_def)

lemma mirror_dot_swaps:
  assumes "x < width div 2" and "width \<le> 8 * length row"
  shows "get_dot (mirror_dot width row x) z =
    (if z = x then get_dot row (width - 1 - x) else if z = width - 1 - x then get_dot row x else get_dot row z)"
proof -
  let ?y = "width - 1 - x"
  have "x < length row * 8" "?y < length row * 8" using assms by linarith+
  then have b: "x div 8 < length row" "?y div 8 < length row" by (simp_all only: less_mult_imp_div_less)
  have xy: "x \<noteq> ?y" using assms(1) by linarith
  let ?row1 = "row[x div 8 := row ! (x div 8) XOR dot_mask x]"
  have "get_dot ?row1 v \<longleftrightarrow> get_dot row v \<noteq> (v = x)" for v by (rule get_dot_xor) (rule b)
  moreover have "get_dot (?row1[?y div 8 := ?row1 ! (?y div 8) XOR dot_mask ?y]) z \<longleftrightarrow> get_dot ?row1 z \<noteq> (z = ?y)"
    by (rule get_dot_xor) (use b in simp)
  ultimately have "get_dot (?row1[?y div 8 := ?row1 ! (?y div 8) XOR dot_mask ?y]) z \<longleftrightarrow> (get_dot row z \<noteq> (z = x)) \<noteq> (z = ?y)" by blast
  then show ?thesis using xy by (auto simp: mirror_dot_def Let_def simp del: One_nat_def)
qed

lemma mirror_prefix:
  assumes "k \<le> width div 2" and "width \<le> 8 * length row"
  shows "length (foldl (mirror_dot width) row [0..<k]) = length row
    \<and> get_dot (foldl (mirror_dot width) row [0..<k]) z =
      (if z < k \<or> (z < width \<and> width - 1 - z < k) then get_dot row (width - 1 - z) else get_dot row z)"
  using assms(1)
proof (induction k arbitrary: z)
  case (Suc k)
  let ?r = "foldl (mirror_dot width) row [0..<k]"
  have IH: "length ?r = length row"
    "get_dot ?r v = (if v < k \<or> (v < width \<and> width - 1 - v < k) then get_dot row (width - 1 - v) else get_dot row v)" for v
    using Suc.IH Suc.prems by auto
  have k: "k < width div 2" using Suc.prems by simp
  have "get_dot (mirror_dot width ?r k) z =
    (if z = k then get_dot ?r (width - 1 - k) else if z = width - 1 - k then get_dot ?r k else get_dot ?r z)"
    by (rule mirror_dot_swaps) (use k IH(1) assms(2) in simp_all)
  then show ?case using k by (auto simp: IH)
qed simp

lemma length_mirror_bits: "width \<le> 8 * length row \<Longrightarrow> length (mirror_bits row width) = length row"
  unfolding mirror_bits_def using mirror_prefix [of "width div 2" width row] by simp

lemma get_dot_mirror:
  assumes "width \<le> 8 * length row"
  shows "get_dot (mirror_bits row width) z = (if z < width then get_dot row (width - 1 - z) else get_dot row z)"
proof -
  have "z < width div 2 \<or> (z < width \<and> width - 1 - z < width div 2) \<Longrightarrow> z < width" by auto
  moreover have "z < width \<Longrightarrow> \<not> (z < width div 2 \<or> width - 1 - z < width div 2) \<Longrightarrow> width - 1 - z = z" by linarith
  ultimately show ?thesis
    unfolding mirror_bits_def using mirror_prefix [of "width div 2" width row z] assms by auto
qed

section \<open>Colour\<close>

lemma length_separate [simp]: "length (separate px tone) = 4"
  by (simp add: separate_def NO_INK_def Let_def split: prod.splits)

lemma unat_max: "unat (max a b) = max (unat a) (unat b)" for a b :: u8
  by (simp add: max_def word_le_nat_alt)

lemma unat_sub_below: "b \<le> a \<Longrightarrow> unat (a - b) = unat a - unat b" for a b :: u8
  by (rule unat_sub)

text \<open>Full black generation: the ink amounts take no more than the curve's tone from each primary, and
  one of the three colours is always absent.\<close>

lemma separate_inks:
  assumes "px \<noteq> WHITE" and "px = (r, g, b)"
  shows "separate px tone ! 0 + tone ! unat r = 255 - separate px tone ! 3
    \<and> separate px tone ! 1 + tone ! unat g = 255 - separate px tone ! 3
    \<and> separate px tone ! 2 + tone ! unat b = 255 - separate px tone ! 3
    \<and> 0 \<in> {separate px tone ! 0, separate px tone ! 1, separate px tone ! 2}"
proof -
  let ?r = "tone ! unat r" and ?g = "tone ! unat g" and ?b = "tone ! unat b"
  have "max (max ?r ?g) ?b \<in> {?r, ?g, ?b}" by (auto simp: max_def)
  with assms show ?thesis by (auto simp: separate_def Let_def)
qed

text \<open>The amounts fit a byte without wrapping.\<close>

lemma separate_no_wrap:
  assumes "px \<noteq> WHITE" and "px = (r, g, b)"
  shows "unat (separate px tone ! 0) = unat (max (max (tone ! unat r) (tone ! unat g)) (tone ! unat b)) - unat (tone ! unat r)"
  using assms by (simp add: separate_def Let_def unat_sub_below le_max_iff_disj)

lemma lighten_no_wrap:
  assumes "lighten (r, g, b) = (r', g', b')"
  shows "unat r' = unat r + (255 - max (max (unat r) (unat g)) (unat b)) * 10 div 100
    \<and> unat g' = unat g + (255 - max (max (unat r) (unat g)) (unat b)) * 10 div 100
    \<and> unat b' = unat b + (255 - max (max (unat r) (unat g)) (unat b)) * 10 div 100"
proof -
  let ?m = "max (max r g) b"
  let ?l = "unat (255 - ?m) * 10 div 100"
  have m: "unat (255 - ?m) = 255 - max (max (unat r) (unat g)) (unat b)"
    by (subst unat_sub_below) (simp_all add: unat_max word_le_nat_alt unat_u8_less less_Suc_eq_le [symmetric])
  have le: "unat r \<le> max (max (unat r) (unat g)) (unat b)" "unat g \<le> max (max (unat r) (unat g)) (unat b)"
    "unat b \<le> max (max (unat r) (unat g)) (unat b)" "max (max (unat r) (unat g)) (unat b) < 256"
    by (auto simp: unat_u8_less)
  have add: "unat (v + word_of_nat ?l) = unat v + ?l" if "unat v \<le> max (max (unat r) (unat g)) (unat b)" for v :: u8
  proof -
    have "?l \<le> unat (255 - ?m)" by linarith
    then have "unat v + ?l < 256" using that le(4) m by linarith
    moreover from this have "unat (word_of_nat ?l :: u8) = ?l" by (simp add: unat_of_nat take_bit_nat_eq_self)
    ultimately show ?thesis by (subst unat_word_ariths) simp
  qed
  from assms show ?thesis using add le(1-3) by (auto simp: lighten_def Let_def m)
qed

section \<open>The scattering stays small\<close>

definition carry_ok :: "int \<Rightarrow> bool" where "carry_ok c \<longleftrightarrow> -400 \<le> c \<and> c \<le> 400"
definition down_ok :: "int \<Rightarrow> bool" where "down_ok d \<longleftrightarrow> -128 \<le> d \<and> d \<le> 127"
definition split_ok :: "int \<Rightarrow> bool" where "split_ok split \<longleftrightarrow> split = SCATTER_SPLIT \<or> split = SCATTER_SPLIT_DRAFT"

lemma down_wraps: "down_ok (signed_take_bit 7 (x :: int))"
  using signed_take_bit_int_greater_eq_minus_exp [of 7 x] signed_take_bit_int_less_exp [of 7 x] by (simp add: down_ok_def)

lemma scatter_product:
  fixes s v :: int
  assumes "0 \<le> s" "s \<le> 767" "-528 \<le> v" "v \<le> 527"
  shows "-404976 \<le> s * v \<and> s * v \<le> 404209"
proof (cases "0 \<le> v")
  case True
  have "s * v \<le> 767 * 527" by (rule mult_mono) (use assms True in simp_all)
  moreover have "0 \<le> s * v" using True assms by simp
  ultimately show ?thesis by simp
next
  case False
  have "s * (- v) \<le> 767 * 528" by (rule mult_mono) (use assms False in simp_all)
  moreover have "s * v \<le> 0" using False assms by (intro mult_nonneg_nonpos) simp_all
  ultimately show ?thesis by simp
qed

lemma scatter_step_ok:
  assumes "split_ok split" and "carry_ok carry" and "down_ok down" and "scatter_step value carry down lcg split = (dot, c, d, lcg')"
  shows "carry_ok c \<and> down_ok d
    \<and> (\<exists>k. uint value + carry + down = (if dot then 255 else 0) + c + d + 256 * k)
    \<and> \<bar>(split - uint (drop_bit 24 lcg')) * (carry + uint value + down - (if dot then 255 else 0))\<bar> < 2 ^ 20"
proof -
  define r where "r = uint (drop_bit 24 (lcg * 513 + 1) :: u32)"
  define v0 where "v0 = carry + uint value + down"
  define v where "v = (if drop_bit 3 r + 0x6F < v0 then v0 - 0xFF else v0)"
  have r: "0 \<le> r" "r \<le> 255"
  proof -
    have "r = uint (lcg * 513 + 1) div 2 ^ 24" by (simp add: r_def drop_bit_eq_div uint_div)
    moreover have "0 \<le> uint (lcg * 513 + 1)" "uint (lcg * 513 + 1) < 2 ^ 32" using uint_bounded [of "lcg * 513 + 1"] by simp_all
    ultimately show "0 \<le> r" "r \<le> 255" by (simp_all add: pos_imp_zdiv_nonneg_iff)
  qed
  have u: "0 \<le> uint value" "uint value \<le> 255" using uint_bounded [of "value"] by simp_all
  have dr: "0 \<le> drop_bit 3 r" "drop_bit 3 r \<le> 31" using r by (simp_all add: drop_bit_eq_div)
  have c: "-400 \<le> carry" "carry \<le> 400" "-128 \<le> down" "down \<le> 127"
    using assms(2,3) by (simp_all add: carry_ok_def down_ok_def)
  have "v = v0 - 0xFF \<and> drop_bit 3 r + 0x6F < v0 \<or> v = v0 \<and> v0 \<le> drop_bit 3 r + 0x6F" by (simp add: v_def)
  then have v: "-528 \<le> v" "v \<le> 527" using c u dr v0_def by linarith+
  have s: "0 \<le> split - r" "split - r \<le> 767"
    using assms(1) r by (auto simp: split_ok_def SCATTER_SPLIT_def SCATTER_SPLIT_DRAFT_def)
  note p = scatter_product [OF s v]
  have step: "dot = (drop_bit 3 r + 0x6F < v0)" "c = drop_bit 10 ((split - r) * v)" "d = signed_take_bit 7 (v - c)" "lcg' = lcg * 513 + 1"
    using assms(4) by (auto simp: scatter_step_def Let_def r_def v_def v0_def)
  have "(-409600) div 1024 \<le> (split - r) * v div 1024" "(split - r) * v div 1024 \<le> 409600 div 1024"
    by (rule zdiv_mono1; use p in linarith)+
  then have "carry_ok c" by (simp add: step carry_ok_def drop_bit_eq_div)
  moreover have "down_ok d" by (simp add: step down_wraps)
  moreover have "\<exists>k. v - c = d + 256 * k"
  proof -
    have "(v - c) mod 256 = d mod 256"
      unfolding step(3) using take_bit_signed_take_bit [of 8 7 "v - c"] by (simp add: take_bit_eq_mod)
    then show ?thesis by (metis mod_eqE)
  qed
  then have "\<exists>k. uint value + carry + down = (if dot then 255 else 0) + c + d + 256 * k"
    by (auto simp: v_def v0_def step(1) algebra_simps split: if_splits)
  moreover have "v = carry + uint value + down - (if dot then 255 else 0)" by (simp add: v_def v0_def step(1))
  then have "\<bar>(split - uint (drop_bit 24 lcg')) * (carry + uint value + down - (if dot then 255 else 0))\<bar> < 2 ^ 20"
  proof -
    assume v': "v = carry + uint value + down - (if dot then 255 else 0)"
    have "\<bar>(split - r) * v\<bar> < 2 ^ 20" using p by (simp add: abs_less_iff)
    then show ?thesis unfolding step(4) r_def [symmetric] v' .
  qed
  ultimately show ?thesis by blast
qed

definition scatter_ok :: "nat \<Rightarrow> Scatter \<Rightarrow> bool" where
  "scatter_ok n s \<longleftrightarrow> length (sc_carry s) = n \<and> list_all carry_ok (sc_carry s)
     \<and> list_all (\<lambda>d. length d = n \<and> list_all down_ok d) (sc_down s)"

lemma list_all_update: "list_all P xs \<Longrightarrow> P x \<Longrightarrow> list_all P (xs[i := x])"
  unfolding list_all_iff using set_update_subset_insert [of xs i x] by blast

lemma list_all_nthD: "list_all P xs \<Longrightarrow> i < length xs \<Longrightarrow> P (xs ! i)"
  by (simp add: list_all_length)

lemma scatter_new_ok: "scatter_ok n (scatter_new n)"
  by (simp add: scatter_ok_def scatter_new_def list_all_iff carry_ok_def)

lemma scatter_fit_ok: "scatter_ok n s \<Longrightarrow> scatter_ok n (scatter_fit n w s) \<and> w \<le> length (sc_down (scatter_fit n w s))"
  by (simp add: scatter_ok_def scatter_fit_def list_all_iff carry_ok_def down_ok_def)

lemma scatter_channels_ok:
  assumes "split_ok split" and "\<forall>ch\<in>set chs. ch < n"
    and "length inks = n" and "length carry = n" "list_all carry_ok carry" and "length down = n" "list_all down_ok down"
    and "scatter_channels split chs (inks, carry, down, lcg) = (inks', carry', down', lcg')"
  shows "length inks' = n \<and> length carry' = n \<and> list_all carry_ok carry' \<and> length down' = n \<and> list_all down_ok down'"
  using assms(2-)
proof (induction chs arbitrary: inks carry down lcg)
  case (Cons ch chs)
  obtain dot c d l where s: "scatter_step (inks ! ch) (carry ! ch) (down ! ch) lcg split = (dot, c, d, l)"
    using prod_cases4 by blast
  from Cons.prems have "ch < n" by simp
  with Cons.prems have "carry_ok (carry ! ch)" "down_ok (down ! ch)" by (simp_all add: list_all_nthD)
  from scatter_step_ok [OF assms(1) this s] have "carry_ok c" "down_ok d" by blast+
  with Cons.prems s show ?case by (intro Cons.IH) (auto intro!: list_all_update)
qed simp

definition color_inv :: "nat \<Rightarrow> ink list \<times> Scatter \<times> u32 \<Rightarrow> bool" where
  "color_inv w st \<longleftrightarrow> (case st of (row, s, lcg) \<Rightarrow>
     length row = w \<and> list_all (\<lambda>ink. length ink = 4) row \<and> scatter_ok 4 s \<and> w \<le> length (sc_down s))"

lemma scatter_pixel_color_inv:
  assumes "split_ok split" and "i < w" and "color_inv w st"
  shows "color_inv w (scatter_pixel_color split i st)"
proof -
  obtain row s lcg where st: "st = (row, s, lcg)" by (rule prod_cases3)
  from assms(3) have inv: "length row = w" "list_all (\<lambda>ink. length ink = 4) row" "length (sc_carry s) = 4"
    "list_all carry_ok (sc_carry s)" "list_all (\<lambda>d. length d = 4 \<and> list_all down_ok d) (sc_down s)" "w \<le> length (sc_down s)"
    by (simp_all add: color_inv_def st scatter_ok_def)
  define x where "x = (if sc_backward s then length row - 1 - i else i)"
  have x: "x < w" using assms(2) inv(1) by (auto simp: x_def)
  have px: "length (row ! x) = 4" "length (sc_down s ! x) = 4" "list_all down_ok (sc_down s ! x)"
    using inv x list_all_nthD [OF inv(5), of x] list_all_nthD [OF inv(2), of x] by auto
  let ?order = "if sc_backward s then [3, 2, 1, 0 :: nat] else [0, 1, 2, 3]"
  have o: "\<forall>ch\<in>set ?order. ch < 4" by auto
  obtain inks carry down l where c: "scatter_channels split ?order (row ! x, sc_carry s, sc_down s ! x, lcg) = (inks, carry, down, l)"
    using prod_cases4 by blast
  from scatter_channels_ok [OF assms(1) o px(1) inv(3,4) px(2,3) c] inv show ?thesis
    by (auto simp: scatter_pixel_color_def st x_def [symmetric] c Let_def color_inv_def scatter_ok_def carry_ok_def down_ok_def
        intro!: list_all_update)
qed

lemma scatter_row_color_ok:
  assumes "split_ok split" and "list_all (\<lambda>ink. length ink = 4) row" and "scatter_ok 4 s" and "length row \<le> length (sc_down s)"
    and "scatter_row_color split row s lcg = (row', s', lcg')"
  shows "length row' = length row \<and> list_all (\<lambda>ink. length ink = 4) row' \<and> scatter_ok 4 s' \<and> length row \<le> length (sc_down s')"
proof -
  have "color_inv (length row) (fold (scatter_pixel_color split) [0..<length row] (row, s, lcg))"
    by (rule fold_invariant [where Q = "\<lambda>i. i < length row" and P = "color_inv (length row)"])
      (use assms in \<open>auto simp: color_inv_def [of _ "(row, s, lcg)"] intro: scatter_pixel_color_inv\<close>)
  with assms(5) show ?thesis
    by (auto simp: scatter_row_color_def Let_def color_inv_def scatter_ok_def split: prod.splits)
qed

definition ink_rows :: "nat \<Rightarrow> ink list list \<Rightarrow> bool" where
  "ink_rows w rows \<longleftrightarrow> list_all (\<lambda>row. length row = w \<and> list_all (\<lambda>ink. length ink = 4) row) rows"

lemma scatter_rows_color_ok:
  assumes "split_ok split" and "ink_rows w rows" and "scatter_ok 4 s" and "w \<le> length (sc_down s)"
    and "scatter_rows_color split rows s lcg = (rows', s')"
  shows "length rows' = length rows \<and> ink_rows w rows' \<and> scatter_ok 4 s' \<and> w \<le> length (sc_down s')"
  using assms(2-)
proof (induction rows arbitrary: s lcg rows' s')
  case Nil
  then show ?case by simp
next
  case (Cons row rows)
  obtain row1 s1 l1 where r: "scatter_row_color split row s lcg = (row1, s1, l1)" by (rule prod_cases3)
  obtain rows2 s2 where rs: "scatter_rows_color split rows s1 l1 = (rows2, s2)" by (cases "scatter_rows_color split rows s1 l1")
  from Cons.prems have row: "length row = w" "list_all (\<lambda>ink. length ink = 4) row" "ink_rows w rows" by (simp_all add: ink_rows_def)
  with scatter_row_color_ok [OF assms(1) row(2) Cons.prems(2) _ r] Cons.prems(3) have
    s1: "length row1 = w" "list_all (\<lambda>ink. length ink = 4) row1" "scatter_ok 4 s1" "w \<le> length (sc_down s1)" by auto
  from Cons.IH [OF row(3) s1(3,4) rs] s1 r rs Cons.prems(4) show ?case by (auto simp: ink_rows_def)
qed

text \<open>Between stretches the narrowing of the carries changes nothing.\<close>

lemma signed_take_bit_small:
  fixes c :: int
  assumes "- (2 ^ n) \<le> c" "c < 2 ^ n"
  shows "signed_take_bit n c = c"
  using assms by (simp add: signed_take_bit_int_eq_self)

lemma settle_color_id: "list_all carry_ok carry \<Longrightarrow> settle_color carry = carry"
proof (cases carry)
  case (Cons c cs)
  assume a: "list_all carry_ok carry"
  have s: "map (signed_take_bit 15) xs = xs" if "list_all carry_ok xs" for xs
    using that by (induction xs) (auto simp: carry_ok_def intro!: signed_take_bit_small)
  have "signed_take_bit 31 (push_bit 17 c) = push_bit 17 c"
    using a Cons by (intro signed_take_bit_small) (auto simp: carry_ok_def push_bit_eq_mult)
  then have "drop_bit 17 (signed_take_bit 31 (push_bit 17 c)) = c" by (simp add: drop_bit_eq_div push_bit_eq_mult)
  with s [of cs] a Cons show ?thesis by (simp add: settle_color_def)
qed (simp add: settle_color_def)

lemma scatter_stretches_color_ok:
  assumes "split_ok split" and "list_all (ink_rows w) stretches" and "scatter_ok 4 s" and "w \<le> length (sc_down s)"
    and "scatter_stretches_color split stretches s rand = (rows', s', rand')"
  shows "length rows' = length (concat stretches) \<and> ink_rows w rows' \<and> scatter_ok 4 s'"
  using assms(2-)
proof (induction stretches arbitrary: s rand rows' s' rand')
  case Nil
  then show ?case by (simp add: ink_rows_def)
next
  case (Cons stretch rest)
  obtain x rand1 where x: "rand_step rand = (x, rand1)" by (cases "rand_step rand")
  obtain rows1 s1 where r: "scatter_rows_color split stretch s (push_bit 16 x) = (rows1, s1)"
    by (cases "scatter_rows_color split stretch s (push_bit 16 x)")
  from Cons.prems have i: "ink_rows w stretch" "list_all (ink_rows w) rest" by simp_all
  from scatter_rows_color_ok [OF assms(1) i(1) Cons.prems(2,3) r] have
    s1: "length rows1 = length stretch" "ink_rows w rows1" "scatter_ok 4 s1" "w \<le> length (sc_down s1)" by blast+
  then have id: "s1\<lparr>sc_carry := settle_color (sc_carry s1)\<rparr> = s1" by (simp add: settle_color_id scatter_ok_def)
  obtain rows2 s2 rand2 where r2: "scatter_stretches_color split rest s1 rand1 = (rows2, s2, rand2)" by (rule prod_cases3)
  from Cons.IH [OF i(2) s1(3,4) r2] s1 Cons.prems(4) x r r2 id show ?case by (auto simp: ink_rows_def Let_def)
qed

lemma concat_chunks_of: "0 < n \<Longrightarrow> concat (chunks_of n xs) = xs"
proof (induction n xs rule: chunks_of.induct)
  case (1 n xs)
  then show ?case by (subst chunks_of.simps) (auto simp: append_take_drop_id)
qed

lemma chunks_of_all: "list_all P xs \<Longrightarrow> list_all (list_all P) (chunks_of n xs)"
proof (induction n xs rule: chunks_of.induct)
  case (1 n xs)
  show ?case
  proof (cases "xs = [] \<or> n = 0")
    case True
    then show ?thesis by (subst chunks_of.simps) simp
  next
    case False
    with 1 have "list_all P (take n xs)" "list_all (list_all P) (chunks_of n (drop n xs))"
      by (auto simp: list_all_iff dest: in_set_takeD in_set_dropD)
    with False show ?thesis by (subst chunks_of.simps) simp
  qed
qed

lemma scatter_color_ok:
  assumes "split_ok split" and "ink_rows w rows" and "scatter_ok 4 s" and "scatter_color split rows s rand = (rows', s', rand')"
  shows "length rows' = length rows \<and> ink_rows w rows' \<and> scatter_ok 4 s'"
proof (cases rows)
  case Nil
  with assms show ?thesis by (auto simp: scatter_color_def chunks_of.simps ink_rows_def scatter_fit_def)
next
  case (Cons row rest)
  with assms(2) have "length row = w" by (simp add: ink_rows_def)
  with assms(4) Cons have "scatter_stretches_color split (chunks_of SCATTER_ROWS rows) (scatter_fit 4 w s) rand = (rows', s', rand')"
    by (simp add: scatter_color_def)
  moreover have "list_all (ink_rows w) (chunks_of SCATTER_ROWS rows)"
    using assms(2) unfolding ink_rows_def by (rule chunks_of_all)
  ultimately show ?thesis
    using scatter_stretches_color_ok [OF assms(1)] scatter_fit_ok [OF assms(3), of w]
    by (metis SCATTER_ROWS_def concat_chunks_of zero_less_numeral)
qed

definition gray_inv :: "nat \<Rightarrow> bytes \<times> Scatter \<times> u32 \<Rightarrow> bool" where
  "gray_inv w st \<longleftrightarrow> (case st of (row, s, lcg) \<Rightarrow> length row = w \<and> scatter_ok 1 s \<and> w \<le> length (sc_down s))"

lemma scatter_pixel_gray_inv:
  assumes "split_ok split" and "i < w" and "gray_inv w st"
  shows "gray_inv w (scatter_pixel_gray split i st)"
proof -
  obtain row s lcg where st: "st = (row, s, lcg)" by (rule prod_cases3)
  from assms(3) have inv: "length row = w" "length (sc_carry s) = 1" "list_all carry_ok (sc_carry s)"
    "list_all (\<lambda>d. length d = 1 \<and> list_all down_ok d) (sc_down s)" "w \<le> length (sc_down s)"
    by (simp_all add: gray_inv_def st scatter_ok_def)
  define x where "x = (if sc_backward s then length row - 1 - i else i)"
  have x: "x < w" using assms(2) inv(1) by (auto simp: x_def)
  have d: "length (sc_down s ! x) = 1" "list_all down_ok (sc_down s ! x)"
    using inv x list_all_nthD [OF inv(4), of x] by auto
  obtain dot c e l where step: "scatter_step (row ! x) (sc_carry s ! 0) (sc_down s ! x ! 0) lcg split = (dot, c, e, l)"
    using prod_cases4 by blast
  have "carry_ok (sc_carry s ! 0)" "down_ok (sc_down s ! x ! 0)" using inv d by (auto simp: list_all_nthD)
  from scatter_step_ok [OF assms(1) this step] have "carry_ok c" "down_ok e" by blast+
  with inv d step show ?thesis
    by (auto simp: scatter_pixel_gray_def st x_def [symmetric] Let_def gray_inv_def scatter_ok_def carry_ok_def down_ok_def
        intro!: list_all_update)
qed

lemma scatter_row_gray_ok:
  assumes "split_ok split" and "scatter_ok 1 s" and "length row \<le> length (sc_down s)"
    and "scatter_row_gray split row s lcg = (row', s', lcg')"
  shows "length row' = length row \<and> scatter_ok 1 s' \<and> length row \<le> length (sc_down s')"
proof -
  have "gray_inv (length row) (fold (scatter_pixel_gray split) [0..<length row] (row, s, lcg))"
    by (rule fold_invariant [where Q = "\<lambda>i. i < length row" and P = "gray_inv (length row)"])
      (use assms in \<open>auto simp: gray_inv_def [of _ "(row, s, lcg)"] intro: scatter_pixel_gray_inv\<close>)
  with assms(4) show ?thesis
    by (auto simp: scatter_row_gray_def Let_def gray_inv_def scatter_ok_def split: prod.splits)
qed

definition gray_rows :: "nat \<Rightarrow> bytes list \<Rightarrow> bool" where
  "gray_rows w rows \<longleftrightarrow> list_all (\<lambda>row. length row = w) rows"

lemma scatter_rows_gray_ok:
  assumes "split_ok split" and "gray_rows w rows" and "scatter_ok 1 s" and "w \<le> length (sc_down s)"
    and "scatter_rows_gray split rows s lcg = (rows', s')"
  shows "length rows' = length rows \<and> gray_rows w rows' \<and> scatter_ok 1 s' \<and> w \<le> length (sc_down s')"
  using assms(2-)
proof (induction rows arbitrary: s lcg rows' s')
  case Nil
  then show ?case by simp
next
  case (Cons row rows)
  obtain row1 s1 l1 where r: "scatter_row_gray split row s lcg = (row1, s1, l1)" by (rule prod_cases3)
  obtain rows2 s2 where rs: "scatter_rows_gray split rows s1 l1 = (rows2, s2)" by (cases "scatter_rows_gray split rows s1 l1")
  from Cons.prems have row: "length row = w" "gray_rows w rows" by (simp_all add: gray_rows_def)
  with scatter_row_gray_ok [OF assms(1) Cons.prems(2) _ r] Cons.prems(3) have
    s1: "length row1 = w" "scatter_ok 1 s1" "w \<le> length (sc_down s1)" by auto
  from Cons.IH [OF row(2) s1(2,3) rs] s1 r rs Cons.prems(4) show ?case by (auto simp: gray_rows_def)
qed

lemma scatter_stretches_gray_ok:
  assumes "split_ok split" and "list_all (gray_rows w) stretches" and "scatter_ok 1 s" and "w \<le> length (sc_down s)"
    and "scatter_stretches_gray split stretches s rand = (rows', s', rand')"
  shows "length rows' = length (concat stretches) \<and> gray_rows w rows' \<and> scatter_ok 1 s'"
  using assms(2-)
proof (induction stretches arbitrary: s rand rows' s' rand')
  case Nil
  then show ?case by (simp add: gray_rows_def)
next
  case (Cons stretch rest)
  obtain x rand1 where x: "rand_step rand = (x, rand1)" by (cases "rand_step rand")
  obtain rows1 s1 where r: "scatter_rows_gray split stretch s (push_bit 16 x) = (rows1, s1)"
    by (cases "scatter_rows_gray split stretch s (push_bit 16 x)")
  from Cons.prems have i: "gray_rows w stretch" "list_all (gray_rows w) rest" by simp_all
  from scatter_rows_gray_ok [OF assms(1) i(1) Cons.prems(2,3) r] have
    s1: "length rows1 = length stretch" "gray_rows w rows1" "scatter_ok 1 s1" "w \<le> length (sc_down s1)" by blast+
  then obtain c where c: "sc_carry s1 = [c]" "carry_ok c" by (auto simp: scatter_ok_def length_Suc_conv)
  then have "signed_take_bit 15 c = c" by (intro signed_take_bit_small) (auto simp: carry_ok_def)
  with c have id: "s1\<lparr>sc_carry := (sc_carry s1)[0 := signed_take_bit 15 (sc_carry s1 ! 0)]\<rparr> = s1" by simp
  obtain rows2 s2 rand2 where r2: "scatter_stretches_gray split rest s1 rand1 = (rows2, s2, rand2)" by (rule prod_cases3)
  from Cons.IH [OF i(2) s1(3,4) r2] s1 Cons.prems(4) x r r2 id show ?case by (auto simp: gray_rows_def Let_def)
qed

lemma scatter_gray_ok:
  assumes "split_ok split" and "gray_rows w rows" and "scatter_ok 1 s" and "scatter_gray split rows s rand = (rows', s', rand')"
  shows "length rows' = length rows \<and> gray_rows w rows' \<and> scatter_ok 1 s'"
proof (cases rows)
  case Nil
  with assms show ?thesis by (auto simp: scatter_gray_def chunks_of.simps gray_rows_def scatter_fit_def)
next
  case (Cons row rest)
  with assms(2) have "length row = w" by (simp add: gray_rows_def)
  with assms(4) Cons have "scatter_stretches_gray split (chunks_of SCATTER_ROWS rows) (scatter_fit 1 w s) rand = (rows', s', rand')"
    by (simp add: scatter_gray_def)
  moreover have "list_all (gray_rows w) (chunks_of SCATTER_ROWS rows)"
    using assms(2) unfolding gray_rows_def by (rule chunks_of_all)
  ultimately show ?thesis
    using scatter_stretches_gray_ok [OF assms(1)] scatter_fit_ok [OF assms(3), of w]
    by (metis SCATTER_ROWS_def concat_chunks_of zero_less_numeral)
qed

text \<open>
One dot of the scattering, for either split: from a carried error of at most 400 and any error
  from the row above, no product leaves 20 bits, the errors passed on are again within 400 and within a byte, and
  nothing is lost: the amount and the errors that came in are the dot's 255 and the errors that go out, up to the wrap
  of the byte that goes down.\<close>

theorem scatter_step_conserves:
  assumes "split = SCATTER_SPLIT \<or> split = SCATTER_SPLIT_DRAFT" and "\<bar>carry\<bar> \<le> 400" and "-128 \<le> down" "down \<le> 127"
    and "scatter_step value carry down lcg split = (dot, c, d, lcg')"
  shows "\<bar>c\<bar> \<le> 400 \<and> -128 \<le> d \<and> d \<le> 127
    \<and> (uint value + carry + down - (if dot then 255 else 0) - c - d) mod 256 = 0
    \<and> \<bar>(split - uint (drop_bit 24 lcg')) * (carry + uint value + down - (if dot then 255 else 0))\<bar> < 2 ^ 20
    \<and> signed_take_bit 15 c = c \<and> drop_bit 17 (signed_take_bit 31 (push_bit 17 c)) = c"
proof -
  have "split_ok split" "carry_ok carry" "down_ok down" using assms by (auto simp: split_ok_def carry_ok_def down_ok_def)
  from scatter_step_ok [OF this assms(5)] obtain k where r: "carry_ok c" "down_ok d"
    "uint value + carry + down = (if dot then 255 else 0) + c + d + 256 * k"
    "\<bar>(split - uint (drop_bit 24 lcg')) * (carry + uint value + down - (if dot then 255 else 0))\<bar> < 2 ^ 20" by blast
  have "uint value + carry + down - (if dot then 255 else 0) - c - d = 256 * k" using r(3) by linarith
  then have "(uint value + carry + down - (if dot then 255 else 0) - c - d) mod 256 = 0" by (simp only: mod_mult_self1_is_0)
  moreover have "signed_take_bit 15 c = c" using r(1) by (intro signed_take_bit_small) (auto simp: carry_ok_def)
  moreover have "drop_bit 17 (signed_take_bit 31 (push_bit 17 c)) = c"
    using settle_color_id [of "[c]"] r(1) by (simp add: settle_color_def)
  ultimately show ?thesis using r by (simp add: carry_ok_def down_ok_def abs_le_iff)
qed

lemma scatter_step_conserves_witness:
  "\<exists>dot c d lcg'. scatter_step 200 (-100) 27 7 SCATTER_SPLIT = (dot, c, d, lcg') \<and> \<bar>c\<bar> \<le> 400
    \<and> (uint (200 :: u8) + (-100) + 27 - (if dot then 255 else 0) - c - d) mod 256 = 0"
proof -
  obtain dot c d lcg' where s: "scatter_step 200 (-100) 27 7 SCATTER_SPLIT = (dot, c, d, lcg')" using prod_cases4 by blast
  have h: "SCATTER_SPLIT = SCATTER_SPLIT \<or> SCATTER_SPLIT = SCATTER_SPLIT_DRAFT" "\<bar>-100 :: int\<bar> \<le> 400" "-128 \<le> (27 :: int)" "(27 :: int) \<le> 127"
    by simp_all
  from scatter_step_conserves [OF h s] s show ?thesis
    by (intro exI [of _ dot] exI [of _ c] exI [of _ d] exI [of _ lcg'] conjI) (elim conjE, assumption)+
qed

end
