(* ===== verification/Sw_Imager.thy ===== *)
theory Sw_Imager
  imports Sw_Raster
begin

text \<open>
  The imager of src/tailtalk/src/stylewriter/raster.rs: rows drawn from a page's pixels, bands at the
  page's depth or at 1 bit, and the loop that skips blank rows and cuts the page into bands. The lemmas show
  that the bands are in order, cover every row with something on it, and hold planes of exactly the
  width the encoder expects.
\<close>

section \<open>The imager\<close>

record Imager =
  im_family :: StyleWriterFamily
  im_rendering :: Rendering
  im_halftone :: Halftone
  im_tone :: bytes
  im_mirrored :: bool
  im_lighten :: bool
  im_split :: int
  im_rand :: u32
  im_color :: Scatter
  im_gray :: Scatter
  im_pattern_rows :: nat

definition imager_new :: "StyleWriterFamily \<Rightarrow> JobOptions \<Rightarrow> Imager" where
  "imager_new family job = \<lparr>im_family = family, im_rendering = jo_rendering job, im_halftone = jo_halftone job,
     im_tone = tone_curve family (jo_halftone job), im_mirrored = paper_mirrored (jo_paper job),
     im_lighten = (lightens_transparencies family \<and> jo_rendering job = RenderColor
       \<and> jo_quality job = NormalQuality \<and> jo_paper job = Transparency),
     im_split = (if jo_quality job = Draft then SCATTER_SPLIT_DRAFT else SCATTER_SPLIT), im_rand = 1,
     im_color = scatter_new 4, im_gray = scatter_new 1, im_pattern_rows = 0\<rparr>"

section \<open>Rows of a page\<close>

definition draw_row :: "Imager \<Rightarrow> Page \<Rightarrow> nat \<Rightarrow> SourceRow option" where
  "draw_row im page y =
     (let w = pg_width page; row_bytes = div_ceil w 8 in
      case pg_pixels page of
        PixRgb v \<Rightarrow>
          map_option (\<lambda>r. if im_rendering im = RenderColor then RowRgb (rgb_chunks r) else RowGray (map luma (rgb_chunks r)))
            (subslice (y * w * 3) ((y + 1) * w * 3) v)
      | PixGray v \<Rightarrow>
          map_option (\<lambda>r. if im_rendering im = RenderColor then RowRgb (map (\<lambda>g. (g, g, g)) r) else RowGray r)
            (subslice (y * w) ((y + 1) * w) v)
      | PixBlackAndWhite bits \<Rightarrow>
          map_option (\<lambda>r. RowGray (map (\<lambda>x. if get_dot r x then 0 else 0xFF) [0..<w]))
            (subslice (y * row_bytes) ((y + 1) * row_bytes) bits))"

definition reverse_row :: "SourceRow \<Rightarrow> SourceRow" where
  "reverse_row row = (case row of RowGray ps \<Rightarrow> RowGray (rev ps) | RowRgb ps \<Rightarrow> RowRgb (rev ps))"

definition source_row :: "Imager \<Rightarrow> Page \<Rightarrow> nat \<Rightarrow> SourceRow option" where
  "source_row im page y = map_option (\<lambda>r. if im_mirrored im then reverse_row r else r) (draw_row im page y)"

definition set_dot :: "bytes \<Rightarrow> nat \<Rightarrow> bytes" where
  "set_dot plane x = plane[x div 8 := plane ! (x div 8) OR dot_mask x]"

definition dark_bits :: "nat \<Rightarrow> bytes \<Rightarrow> bytes" where
  "dark_bits width gray =
     foldl (\<lambda>bits (x, g). if g < 0x80 then set_dot bits x else bits) (replicate (div_ceil width 8) 0) (enumerate 0 gray)"

definition dark_row :: "nat \<Rightarrow> SourceRow \<Rightarrow> bytes" where
  "dark_row width row =
     (case row of RowGray gray \<Rightarrow> dark_bits width gray | RowRgb _ \<Rightarrow> replicate (div_ceil width 8) 0)"

definition black_and_white_row :: "Imager \<Rightarrow> Page \<Rightarrow> nat \<Rightarrow> bytes option" where
  "black_and_white_row im page y =
     (case pg_pixels page of
        PixBlackAndWhite bits \<Rightarrow>
          (let row_bytes = div_ceil (pg_width page) 8 in
           map_option (\<lambda>row. if im_mirrored im then mirror_bits row (pg_width page) else row)
             (subslice (y * row_bytes) ((y + 1) * row_bytes) bits))
      | _ \<Rightarrow> map_option (dark_row (pg_width page)) (source_row im page y))"

section \<open>Halftoned rows\<close>

definition toned_color :: "Imager \<Rightarrow> rgb \<Rightarrow> rgb" where
  "toned_color im px = (if im_lighten im then lighten px else px)"

definition next_pattern_row :: "Imager \<Rightarrow> nat \<times> Imager" where
  "next_pattern_row im =
     (let n = im_pattern_rows im + 1 in ((n mod HALFTONE_SIZE) * HALFTONE_SIZE, im\<lparr>im_pattern_rows := n\<rparr>))"

definition pattern_pixel :: "nat \<Rightarrow> bytes list \<Rightarrow> nat \<times> ink \<Rightarrow> bytes list" where
  "pattern_pixel base planes xi =
     (let (x, ink) = xi in
      if ink = NO_INK then planes
      else
        let threshold = HALFTONE_PATTERN ! (base + x mod HALFTONE_SIZE);
            prints = (\<lambda>ch. if ch < 3 then threshold < ink ! ch else HALFTONE_MAX - threshold < ink ! ch)
        in map (\<lambda>ch. if prints ch then set_dot (planes ! ch) x else planes ! ch) [0, 1, 2, 3])"

definition pattern_color :: "Imager \<Rightarrow> ink list \<Rightarrow> bytes list \<times> Imager" where
  "pattern_color im row =
     (let (base, im') = next_pattern_row im
      in (foldl (pattern_pixel base) (replicate 4 (replicate (div_ceil (length row) 8) 0)) (enumerate 0 row), im'))"

definition pattern_gray :: "Imager \<Rightarrow> bytes \<Rightarrow> bytes \<times> Imager" where
  "pattern_gray im row =
     (let (base, im') = next_pattern_row im
      in (pack (map (\<lambda>(x, light). light < HALFTONE_PATTERN ! (base + x mod HALFTONE_SIZE)) (enumerate 0 row)), im'))"

definition row_dots :: "Imager \<Rightarrow> ink list \<Rightarrow> bytes list \<times> Imager" where
  "row_dots im row =
     (let (_, im') = next_pattern_row im
      in (map (\<lambda>ch. pack (map (\<lambda>ink. ink ! ch \<noteq> 0) row)) [0, 1, 2, 3], im'))"

definition gray_dots :: "Imager \<Rightarrow> bytes \<Rightarrow> bytes list \<times> Imager" where
  "gray_dots im row = (let (_, im') = next_pattern_row im in ([pack (map (\<lambda>dot. dot \<noteq> 0) row)], im'))"

text \<open>\<open>rows.iter().map(f).collect()\<close> for a row function that advances the imager.\<close>

fun each_row :: "(Imager \<Rightarrow> 'a \<Rightarrow> 'b \<times> Imager) \<Rightarrow> Imager \<Rightarrow> 'a list \<Rightarrow> 'b list \<times> Imager" where
  "each_row f im [] = ([], im)"
| "each_row f im (x # xs) = (let (y, im1) = f im x; (ys, im2) = each_row f im1 xs in (y # ys, im2))"

section \<open>Bands\<close>

definition row_inks :: "Imager \<Rightarrow> SourceRow \<Rightarrow> ink list" where
  "row_inks im row =
     (let ink = (\<lambda>px. separate (toned_color im px) (im_tone im)) in
      case row of RowRgb ps \<Rightarrow> map ink ps | RowGray ps \<Rightarrow> map (\<lambda>g. ink (g, g, g)) ps)"

definition row_lightness :: "Imager \<Rightarrow> SourceRow \<Rightarrow> bytes" where
  "row_lightness im row =
     (case row of
        RowGray ps \<Rightarrow> map (\<lambda>g. im_tone im ! unat g) ps
      | RowRgb ps \<Rightarrow> map (\<lambda>px. im_tone im ! unat (luma px)) ps)"

definition deep_band :: "Imager \<Rightarrow> nat \<Rightarrow> nat \<Rightarrow> SourceRow list \<Rightarrow> RawBand \<times> Imager" where
  "deep_band im first width rows =
     (if im_rendering im = RenderColor
      then
        let inks = map (row_inks im) rows;
            (planes, im') = (case im_halftone im of
                Pattern \<Rightarrow> each_row pattern_color im inks
              | Diffusion \<Rightarrow>
                  (let (inks', s, rand) = scatter_color (im_split im) inks (im_color im) (im_rand im)
                   in each_row row_dots (im\<lparr>im_color := s, im_rand := rand\<rparr>) inks'))
        in (\<lparr>rb_top = first, rb_width = width, rb_kind = ColorBand, rb_rows = planes\<rparr>, im')
      else
        let light = map (row_lightness im) rows;
            (planes, im') = (case im_halftone im of
                Pattern \<Rightarrow> (let (ps, im1) = each_row pattern_gray im light in (map (\<lambda>p. [p]) ps, im1))
              | Diffusion \<Rightarrow>
                  (let (light', s, rand) = scatter_gray (im_split im) light (im_gray im) (im_rand im)
                   in each_row gray_dots (im\<lparr>im_gray := s, im_rand := rand\<rparr>) light'))
        in (\<lparr>rb_top = first, rb_width = width, rb_kind = Mono, rb_rows = planes\<rparr>, im'))"

definition lightened_band :: "Imager \<Rightarrow> nat \<Rightarrow> nat \<Rightarrow> SourceRow list \<Rightarrow> RawBand \<times> Imager" where
  "lightened_band im first width rows =
     (let rows' = map (\<lambda>row. case row of RowRgb ps \<Rightarrow> RowGray (map (\<lambda>px. luma (lighten px)) ps) | gray \<Rightarrow> gray) rows;
          (band, im') = deep_band (im\<lparr>im_rendering := Grayscale\<rparr>) first width rows'
      in (band, im'\<lparr>im_rendering := im_rendering im\<rparr>))"

definition image_band :: "Imager \<Rightarrow> nat \<Rightarrow> nat \<Rightarrow> SourceRow list \<Rightarrow> RawBand \<times> Imager" where
  "image_band im first width rows =
     (if \<exists>row\<in>set rows. needs_depth row then deep_band im first width rows
      else if im_lighten im then lightened_band im first width rows
      else (\<lparr>rb_top = first, rb_width = width, rb_kind = Mono, rb_rows = map (\<lambda>row. [black_bits row]) rows\<rparr>, im))"

definition rows_from :: "(nat \<Rightarrow> 'a option) \<Rightarrow> nat \<Rightarrow> nat \<Rightarrow> 'a list option" where
  "rows_from f a b = those (map f [a..<b])"

text \<open>The two loops of \<open>bands\<close>. An engine takes at least one row a band, so both end.\<close>

lemma max_band_rows_pos: "0 < max_band_rows family"
  by (simp add: max_band_rows_def engine_of_def COLOR_ENGINE_def ENGINE_1200_def ORIGINAL_ENGINE_def)

definition band_end :: "StyleWriterFamily \<Rightarrow> Page \<Rightarrow> nat \<Rightarrow> nat" where
  "band_end family page first = min (first + max_band_rows family) (pg_height page)"

lemma band_end_later: "first < pg_height page \<Longrightarrow> first < band_end family page first \<and> band_end family page first \<le> pg_height page"
  by (simp add: band_end_def max_band_rows_pos)

function bands_bw :: "StyleWriterFamily \<Rightarrow> Imager \<Rightarrow> Page \<Rightarrow> nat \<Rightarrow> RawBand list option" where
  "bands_bw family im page first =
     (if first < pg_height page
      then
        (case rows_from (black_and_white_row im page) first (band_end family page first) of
           None \<Rightarrow> None
         | Some rows \<Rightarrow>
             map_option ((#) \<lparr>rb_top = first, rb_width = pg_width page, rb_kind = Mono, rb_rows = map (\<lambda>r. [r]) rows\<rparr>)
               (bands_bw family im page (band_end family page first)))
      else Some [])"
  by pat_completeness auto
termination
proof (relation "measure (\<lambda>(family, im, page, first). pg_height page - first)")
  fix family first rows and im :: Imager and page :: Page assume "first < pg_height page"
  from band_end_later [OF this, of family] show "((family, im, page, band_end family page first), family, im, page, first)
    \<in> measure (\<lambda>(family, im, page, first). pg_height page - first)" by auto
qed simp

function bands_deep :: "StyleWriterFamily \<Rightarrow> Imager \<Rightarrow> Page \<Rightarrow> nat \<Rightarrow> (RawBand list \<times> Imager) option" where
  "bands_deep family im page first =
     (if first < pg_height page
      then
        (case source_row im page first of
           None \<Rightarrow> None
         | Some row0 \<Rightarrow>
             (if row_blank row0 then bands_deep family im page (first + 1)
              else
                (case rows_from (source_row im page) (first + 1) (band_end family page first) of
                   None \<Rightarrow> None
                 | Some rows \<Rightarrow>
                     (let (band, im') = image_band im first (pg_width page) (row0 # rows)
                      in map_option (\<lambda>(bands, im''). (band # bands, im''))
                           (bands_deep family im' page (band_end family page first))))))
      else Some ([], im))"
  by pat_completeness auto
termination
proof (relation "measure (\<lambda>(family, im, page, first). pg_height page - first)")
  fix family first rows x band and row0 :: SourceRow and im im' :: Imager and page :: Page assume "first < pg_height page"
  from band_end_later [OF this, of family] show "((family, im', page, band_end family page first), family, im, page, first)
    \<in> measure (\<lambda>(family, im, page, first). pg_height page - first)" by auto
qed auto

declare bands_bw.simps [simp del] bands_deep.simps [simp del]

definition imager_bands :: "Imager \<Rightarrow> Page \<Rightarrow> (RawBand list \<times> Imager) option" where
  "imager_bands im page =
     (let im0 = im\<lparr>im_pattern_rows := 0\<rparr> in
      if im_rendering im = BlackAndWhite
      then map_option (\<lambda>bands. (bands, im0)) (bands_bw (im_family im) im0 page 0)
      else bands_deep (im_family im) im0 page 0)"

section \<open>Rows and planes have the page's width\<close>

definition row_width :: "nat \<Rightarrow> SourceRow \<Rightarrow> bool" where
  "row_width w row = (case row of RowGray ps \<Rightarrow> length ps = w | RowRgb ps \<Rightarrow> length ps = w)"

lemma length_rgb_chunks: "length (rgb_chunks xs) = length xs div 3"
  by (induction xs rule: rgb_chunks.induct) simp_all

lemma subslice_length: "subslice a b xs = Some ys \<Longrightarrow> length ys = b - a"
  by (auto simp: subslice_def split: if_splits)

lemma draw_row_width: "draw_row im page y = Some row \<Longrightarrow> row_width (pg_width page) row"
  by (auto simp: draw_row_def Let_def row_width_def length_rgb_chunks add_mult_distrib dest!: subslice_length
      split: Pixels.splits if_splits)

lemma source_row_width: "source_row im page y = Some row \<Longrightarrow> row_width (pg_width page) row"
  using draw_row_width [of im page y]
  by (auto simp: source_row_def row_width_def reverse_row_def split: SourceRow.splits if_splits)

lemma length_set_dot [simp]: "length (set_dot plane x) = length plane"
  by (simp add: set_dot_def)

lemma foldl_length_inv: "(\<And>bits x. length (f bits x) = length bits) \<Longrightarrow> length (foldl f bits xs) = length bits"
  by (induction xs arbitrary: bits) simp_all

lemma length_dark_bits [simp]: "length (dark_bits w gray) = div_ceil w 8"
  unfolding dark_bits_def by (subst foldl_length_inv) (auto split: prod.splits)

lemma length_dark_row [simp]: "length (dark_row w row) = div_ceil w 8"
  by (simp add: dark_row_def split: SourceRow.split)

lemma black_and_white_row_length:
  "black_and_white_row im page y = Some row \<Longrightarrow> length row = div_ceil (pg_width page) 8"
  using div_ceil_8(1) [of "pg_width page"]
  by (auto simp: black_and_white_row_def Let_def length_mirror_bits add_mult_distrib mult.commute dest!: subslice_length
      split: Pixels.splits if_splits)

definition planes_ok :: "nat \<Rightarrow> nat \<Rightarrow> bytes list \<Rightarrow> bool" where
  "planes_ok w k planes \<longleftrightarrow> length planes = k \<and> list_all (\<lambda>p. length p = div_ceil w 8) planes"

lemma pattern_pixel_planes:
  assumes "planes_ok w 4 planes"
  shows "planes_ok w 4 (pattern_pixel base planes xi)"
proof -
  have "length (planes ! ch) = div_ceil w 8" if "ch < 4" for ch
    using assms that by (auto simp: planes_ok_def list_all_length)
  with assms show ?thesis by (cases xi) (simp add: pattern_pixel_def Let_def planes_ok_def)
qed

lemma pattern_color_planes:
  assumes "pattern_color im row = (planes, im')"
  shows "planes_ok (length row) 4 planes"
proof -
  have "planes_ok (length row) 4 (foldl (pattern_pixel base) planes xs)" if "planes_ok (length row) 4 planes" for base planes xs
    using that by (induction xs arbitrary: planes) (simp_all add: pattern_pixel_planes)
  moreover have "planes_ok (length row) 4 (replicate 4 (replicate (div_ceil (length row) 8) 0))"
    by (simp add: planes_ok_def list_all_iff)
  ultimately show ?thesis using assms by (auto simp: pattern_color_def Let_def split: prod.splits)
qed

section \<open>What imaging keeps\<close>

definition imager_ok :: "Imager \<Rightarrow> bool" where
  "imager_ok im \<longleftrightarrow> split_ok (im_split im) \<and> scatter_ok 4 (im_color im) \<and> scatter_ok 1 (im_gray im)"

definition same_job :: "Imager \<Rightarrow> Imager \<Rightarrow> bool" where
  "same_job im im' \<longleftrightarrow> im_family im' = im_family im \<and> im_rendering im' = im_rendering im \<and> im_halftone im' = im_halftone im
     \<and> im_tone im' = im_tone im \<and> im_mirrored im' = im_mirrored im \<and> im_lighten im' = im_lighten im"

lemma same_job_refl [simp]: "same_job im im"
  by (simp add: same_job_def)

lemma same_job_trans: "same_job im im1 \<Longrightarrow> same_job im1 im2 \<Longrightarrow> same_job im im2"
  by (simp add: same_job_def)

lemma imager_new_ok: "imager_ok (imager_new family job)"
  by (simp add: imager_ok_def imager_new_def scatter_new_ok split_ok_def)

lemma next_pattern_row_keeps: "next_pattern_row im = (base, im') \<Longrightarrow> imager_ok im \<Longrightarrow> imager_ok im' \<and> same_job im im'"
  by (auto simp: next_pattern_row_def Let_def imager_ok_def same_job_def)

lemma row_functions_keep:
  "pattern_color im row = (a, im') \<Longrightarrow> imager_ok im \<Longrightarrow> imager_ok im' \<and> same_job im im'"
  "pattern_gray im row1 = (b, im') \<Longrightarrow> imager_ok im \<Longrightarrow> imager_ok im' \<and> same_job im im'"
  "row_dots im row = (c, im') \<Longrightarrow> imager_ok im \<Longrightarrow> imager_ok im' \<and> same_job im im'"
  "gray_dots im row1 = (d, im') \<Longrightarrow> imager_ok im \<Longrightarrow> imager_ok im' \<and> same_job im im'"
  by (auto simp: pattern_color_def pattern_gray_def row_dots_def gray_dots_def Let_def dest: next_pattern_row_keeps split: prod.splits)

lemma each_row_keeps:
  assumes "\<And>im x y im'. imager_ok im \<Longrightarrow> P x \<Longrightarrow> f im x = (y, im') \<Longrightarrow> imager_ok im' \<and> same_job im im' \<and> Q y"
    and "imager_ok im" and "list_all P xs" and "each_row f im xs = (ys, im')"
  shows "imager_ok im' \<and> same_job im im' \<and> list_all Q ys \<and> length ys = length xs"
  using assms(2-)
proof (induction xs arbitrary: im ys im')
  case Nil
  then show ?case by simp
next
  case (Cons x xs)
  obtain y im1 where f: "f im x = (y, im1)" by (cases "f im x")
  obtain ys2 im2 where r: "each_row f im1 xs = (ys2, im2)" by (cases "each_row f im1 xs")
  from assms(1) [OF Cons.prems(1) _ f] Cons.prems(2) have k: "imager_ok im1" "same_job im im1" "Q y" by auto
  from Cons.IH [OF k(1) _ r] Cons.prems(2,3) f r k show ?case by (auto intro: same_job_trans)
qed

definition band_ok :: "nat \<Rightarrow> nat \<Rightarrow> nat \<Rightarrow> RawBand \<Rightarrow> bool" where
  "band_ok w first n b \<longleftrightarrow> rb_top b = first \<and> rb_width b = w \<and> length (rb_rows b) = n
     \<and> list_all (planes_ok w (band_planes (rb_kind b))) (rb_rows b)"

lemma ink_rows_inks: "list_all (row_width w) rows \<Longrightarrow> ink_rows w (map (row_inks im) rows)"
  by (auto simp: ink_rows_def list_all_iff row_width_def row_inks_def Let_def split: SourceRow.splits)

lemma gray_rows_lightness: "list_all (row_width w) rows \<Longrightarrow> gray_rows w (map (row_lightness im) rows)"
  by (auto simp: gray_rows_def list_all_iff row_width_def row_lightness_def split: SourceRow.splits)

lemma deep_band_ok:
  assumes "imager_ok im" and "list_all (row_width w) rows" and "deep_band im first w rows = (band, im')"
  shows "band_ok w first (length rows) band \<and> imager_ok im' \<and> same_job im im'"
proof (cases "im_rendering im = RenderColor")
  case True
  let ?inks = "map (row_inks im) rows"
  have ir: "ink_rows w ?inks" using assms(2) by (rule ink_rows_inks)
  show ?thesis
  proof (cases "im_halftone im")
    case Pattern
    obtain planes im1 where e: "each_row pattern_color im ?inks = (planes, im1)" by (cases "each_row pattern_color im ?inks")
    have "imager_ok im1 \<and> same_job im im1 \<and> list_all (planes_ok w 4) planes \<and> length planes = length ?inks"
      by (rule each_row_keeps [OF _ assms(1) _ e, where P = "\<lambda>row. length row = w"])
        (use ir in \<open>auto simp: ink_rows_def list_all_iff dest: row_functions_keep(1) pattern_color_planes\<close>)
    with assms(3) True Pattern e show ?thesis by (auto simp: deep_band_def Let_def band_ok_def band_planes_def)
  next
    case Diffusion
    obtain inks' s rand where sc: "scatter_color (im_split im) ?inks (im_color im) (im_rand im) = (inks', s, rand)"
      by (rule prod_cases3)
    let ?im = "im\<lparr>im_color := s, im_rand := rand\<rparr>"
    obtain planes im1 where e: "each_row row_dots ?im inks' = (planes, im1)" by (cases "each_row row_dots ?im inks'")
    from scatter_color_ok [OF _ ir _ sc] assms(1) have o: "length inks' = length rows" "ink_rows w inks'" "imager_ok ?im"
      by (simp_all add: imager_ok_def)
    have "imager_ok im1 \<and> same_job ?im im1 \<and> list_all (planes_ok w 4) planes \<and> length planes = length inks'"
      by (rule each_row_keeps [OF _ o(3) _ e, where P = "\<lambda>row. length row = w"])
        (use o(2) in \<open>auto simp: ink_rows_def list_all_iff row_dots_def planes_ok_def Let_def dest: next_pattern_row_keeps split: prod.splits\<close>)
    with assms(3) True Diffusion e sc o(1) show ?thesis
      by (auto simp: deep_band_def Let_def band_ok_def band_planes_def same_job_def)
  qed
next
  case False
  let ?light = "map (row_lightness im) rows"
  have gr: "gray_rows w ?light" using assms(2) by (rule gray_rows_lightness)
  show ?thesis
  proof (cases "im_halftone im")
    case Pattern
    obtain planes im1 where e: "each_row pattern_gray im ?light = (planes, im1)" by (cases "each_row pattern_gray im ?light")
    have "imager_ok im1 \<and> same_job im im1 \<and> list_all (\<lambda>p. length p = div_ceil w 8) planes \<and> length planes = length ?light"
      by (rule each_row_keeps [OF _ assms(1) _ e, where P = "\<lambda>row. length row = w"])
        (use gr in \<open>auto simp: gray_rows_def list_all_iff pattern_gray_def Let_def dest: next_pattern_row_keeps split: prod.splits\<close>)
    with assms(3) False Pattern e show ?thesis
      by (auto simp: deep_band_def Let_def band_ok_def band_planes_def planes_ok_def list_all_iff)
  next
    case Diffusion
    obtain light' s rand where sc: "scatter_gray (im_split im) ?light (im_gray im) (im_rand im) = (light', s, rand)"
      by (rule prod_cases3)
    let ?im = "im\<lparr>im_gray := s, im_rand := rand\<rparr>"
    obtain planes im1 where e: "each_row gray_dots ?im light' = (planes, im1)" by (cases "each_row gray_dots ?im light'")
    from scatter_gray_ok [OF _ gr _ sc] assms(1) have o: "length light' = length rows" "gray_rows w light'" "imager_ok ?im"
      by (simp_all add: imager_ok_def)
    have "imager_ok im1 \<and> same_job ?im im1 \<and> list_all (planes_ok w 1) planes \<and> length planes = length light'"
      by (rule each_row_keeps [OF _ o(3) _ e, where P = "\<lambda>row. length row = w"])
        (use o(2) in \<open>auto simp: gray_rows_def list_all_iff gray_dots_def planes_ok_def Let_def dest: next_pattern_row_keeps split: prod.splits\<close>)
    with assms(3) False Diffusion e sc o(1) show ?thesis
      by (auto simp: deep_band_def Let_def band_ok_def band_planes_def same_job_def)
  qed
qed

lemma lightened_band_ok:
  assumes "imager_ok im" and "list_all (row_width w) rows" and "lightened_band im first w rows = (band, im')"
  shows "band_ok w first (length rows) band \<and> imager_ok im' \<and> same_job im im'"
proof -
  let ?im = "im\<lparr>im_rendering := Grayscale\<rparr>"
  let ?rows = "map (\<lambda>row. case row of RowRgb ps \<Rightarrow> RowGray (map (\<lambda>px. luma (lighten px)) ps) | gray \<Rightarrow> gray) rows"
  obtain b im1 where d: "deep_band ?im first w ?rows = (b, im1)" by (cases "deep_band ?im first w ?rows")
  have o: "imager_ok ?im" using assms(1) by (simp add: imager_ok_def)
  have "list_all (row_width w) ?rows"
    using assms(2) by (auto simp: list_all_iff row_width_def split: SourceRow.splits)
  from deep_band_ok [OF o this d] d assms(3) show ?thesis
    by (auto simp: lightened_band_def Let_def imager_ok_def same_job_def)
qed

lemma length_black_bits: "row_width w row \<Longrightarrow> length (black_bits row) = div_ceil w 8"
  by (auto simp: black_bits_def row_width_def split: SourceRow.splits)

lemma image_band_ok:
  assumes "imager_ok im" and "list_all (row_width w) rows" and "image_band im first w rows = (band, im')"
  shows "band_ok w first (length rows) band \<and> imager_ok im' \<and> same_job im im'"
proof (cases "\<exists>row\<in>set rows. needs_depth row")
  case True
  with assms(3) have "deep_band im first w rows = (band, im')" by (simp only: image_band_def if_True)
  with assms(1,2) show ?thesis by (rule deep_band_ok)
next
  case plain: False
  show ?thesis
  proof (cases "im_lighten im")
    case True
    with plain assms(3) have "lightened_band im first w rows = (band, im')" by (simp only: image_band_def if_True if_False)
    with assms(1,2) show ?thesis by (rule lightened_band_ok)
  next
    case False
    with plain assms(3) have "band = \<lparr>rb_top = first, rb_width = w, rb_kind = Mono, rb_rows = map (\<lambda>row. [black_bits row]) rows\<rparr>"
      "im' = im" by (simp_all only: image_band_def if_False prod.inject)
    with assms(1,2) show ?thesis
      by (simp add: band_ok_def band_planes_def planes_ok_def list_all_iff length_black_bits)
  qed
qed

section \<open>The bands of a page\<close>

text \<open>Bands in order, each within the page and no taller than the engine takes.\<close>

fun bands_tile :: "nat \<Rightarrow> nat \<Rightarrow> nat \<Rightarrow> RawBand list \<Rightarrow> bool" where
  "bands_tile n lo hi [] = True"
| "bands_tile n lo hi (b # bs) =
     (lo \<le> rb_top b \<and> 0 < length (rb_rows b) \<and> length (rb_rows b) \<le> n \<and> rb_top b + length (rb_rows b) \<le> hi
      \<and> bands_tile n (rb_top b + length (rb_rows b)) hi bs)"

definition in_band :: "nat \<Rightarrow> RawBand \<Rightarrow> bool" where
  "in_band y b \<longleftrightarrow> rb_top b \<le> y \<and> y < rb_top b + length (rb_rows b)"

lemma bands_tile_lower: "bands_tile n lo hi bs \<Longrightarrow> lo' \<le> lo \<Longrightarrow> bands_tile n lo' hi bs"
  by (cases bs) auto

definition page_ok :: "Page \<Rightarrow> bool" where
  "page_ok page =
     (case pg_pixels page of
        PixBlackAndWhite bits \<Rightarrow> pg_height page * div_ceil (pg_width page) 8 \<le> length bits
      | PixGray v \<Rightarrow> pg_height page * pg_width page \<le> length v
      | PixRgb v \<Rightarrow> pg_height page * (pg_width page * 3) \<le> length v)"

lemma subslice_row: "n * k \<le> length xs \<Longrightarrow> y < n \<Longrightarrow> subslice (y * k) ((y + 1) * k) xs = Some (take k (drop (y * k) xs))"
  using mult_le_mono1 [of "y + 1" n k] by (simp add: subslice_def)

lemma draw_row_some:
  assumes "page_ok page" and "y < pg_height page"
  shows "\<exists>row. draw_row im page y = Some row"
proof (cases "pg_pixels page")
  case (PixRgb v)
  have "y * pg_width page * 3 = y * (pg_width page * 3)" "(y + 1) * pg_width page * 3 = (y + 1) * (pg_width page * 3)"
    by (simp_all only: mult.assoc)
  with PixRgb assms subslice_row [of "pg_height page" "pg_width page * 3" v y] show ?thesis
    by (simp only: draw_row_def Let_def page_ok_def Pixels.case option.map) blast
next
  case (PixGray v)
  with assms subslice_row [of "pg_height page" "pg_width page" v y] show ?thesis
    by (simp only: draw_row_def Let_def page_ok_def Pixels.case option.map) blast
next
  case (PixBlackAndWhite v)
  with assms subslice_row [of "pg_height page" "div_ceil (pg_width page) 8" v y] show ?thesis
    by (simp only: draw_row_def Let_def page_ok_def Pixels.case option.map) blast
qed

lemma source_row_some: "page_ok page \<Longrightarrow> y < pg_height page \<Longrightarrow> \<exists>row. source_row im page y = Some row"
  using draw_row_some by (fastforce simp: source_row_def)

lemma black_and_white_row_some:
  assumes "page_ok page" and "y < pg_height page"
  shows "\<exists>row. black_and_white_row im page y = Some row"
proof (cases "pg_pixels page")
  case (PixBlackAndWhite v)
  with assms subslice_row [of "pg_height page" "div_ceil (pg_width page) 8" v y] show ?thesis
    by (simp only: black_and_white_row_def Let_def page_ok_def Pixels.case option.map) blast
qed (use source_row_some [OF assms, of im] in \<open>auto simp: black_and_white_row_def\<close>)

lemma source_row_same:
  assumes "same_job im im'"
  shows "source_row im' page y = source_row im page y"
proof -
  from assms have "im_rendering im' = im_rendering im" "im_mirrored im' = im_mirrored im" by (simp_all add: same_job_def)
  then show ?thesis by (simp add: source_row_def draw_row_def Let_def split: Pixels.split)
qed

lemma those_map_some:
  assumes "\<And>x. x \<in> set xs \<Longrightarrow> f x = Some (g x)"
  shows "those (map f xs) = Some (map g xs)"
  using assms by (induction xs) simp_all

lemma rows_from_some:
  assumes "\<And>y. a \<le> y \<Longrightarrow> y < b \<Longrightarrow> \<exists>row. f y = Some row"
  shows "\<exists>rows. rows_from f a b = Some rows \<and> length rows = b - a \<and> (\<forall>i < b - a. f (a + i) = Some (rows ! i))"
proof -
  have "rows_from f a b = Some (map (\<lambda>y. the (f y)) [a..<b])"
    unfolding rows_from_def by (rule those_map_some) (use assms in fastforce)
  moreover have "f (a + i) = Some (the (f (a + i)))" if "i < b - a" for i using assms [of "a + i"] that by auto
  ultimately show ?thesis by (intro exI [of _ "map (\<lambda>y. the (f y)) [a..<b]"]) simp
qed

lemma bands_deep_ok:
  assumes "imager_ok im" and "page_ok page"
  shows "\<exists>bands im'. bands_deep family im page first = Some (bands, im') \<and> imager_ok im' \<and> same_job im im'
    \<and> bands_tile (max_band_rows family) first (pg_height page) bands
    \<and> (\<forall>b\<in>set bands. band_ok (pg_width page) (rb_top b) (length (rb_rows b)) b)
    \<and> (\<forall>y row. first \<le> y \<and> y < pg_height page \<and> source_row im page y = Some row \<and> \<not> row_blank row \<longrightarrow> (\<exists>b\<in>set bands. in_band y b))"
  using assms(1)
proof (induction "pg_height page - first" arbitrary: first im rule: less_induct)
  case less
  show ?case
  proof (cases "first < pg_height page")
    case False
    with less.prems show ?thesis by (subst bands_deep.simps) simp
  next
    case True
    from source_row_some [OF assms(2) True] obtain row0 where row0: "source_row im page first = Some row0" by blast
    show ?thesis
    proof (cases "row_blank row0")
      case blank: True
      have "pg_height page - Suc first < pg_height page - first" using True by simp
      from less.hyps [OF this less.prems] obtain bands im' where IH: "bands_deep family im page (Suc first) = Some (bands, im')"
        "imager_ok im'" "same_job im im'" "bands_tile (max_band_rows family) (Suc first) (pg_height page) bands"
        "\<forall>b\<in>set bands. band_ok (pg_width page) (rb_top b) (length (rb_rows b)) b"
        "\<forall>y row. Suc first \<le> y \<and> y < pg_height page \<and> source_row im page y = Some row \<and> \<not> row_blank row \<longrightarrow> (\<exists>b\<in>set bands. in_band y b)"
        by blast
      have "bands_deep family im page first = Some (bands, im')" using True row0 blank IH(1) by (subst bands_deep.simps) simp
      moreover have "bands_tile (max_band_rows family) first (pg_height page) bands" using IH(4) by (rule bands_tile_lower) simp
      moreover have "\<exists>b\<in>set bands. in_band y b"
        if "first \<le> y" "y < pg_height page" "source_row im page y = Some row" "\<not> row_blank row" for y row
        using that IH(6) row0 blank by (cases "y = first") auto
      ultimately show ?thesis using IH(2,3,5) by blast
    next
      case ink: False
      let ?e = "band_end family page first"
      from band_end_later [OF True, of family] have e: "first < ?e" "?e \<le> pg_height page" by auto
      from rows_from_some [of "first + 1" ?e "source_row im page"] source_row_some [OF assms(2)] e obtain rows where
        rows: "rows_from (source_row im page) (first + 1) ?e = Some rows" "length rows = ?e - (first + 1)"
        "\<forall>i < ?e - (first + 1). source_row im page (first + 1 + i) = Some (rows ! i)" by auto
      have "row_width (pg_width page) (rows ! i)" if "i < length rows" for i
        using that rows(2,3) by (intro source_row_width [of im page "first + 1 + i"]) simp
      with source_row_width [OF row0] have w: "list_all (row_width (pg_width page)) (row0 # rows)"
        by (simp add: list_all_length nth_Cons')
      obtain band im1 where b: "image_band im first (pg_width page) (row0 # rows) = (band, im1)"
        by (cases "image_band im first (pg_width page) (row0 # rows)")
      have "length (row0 # rows) = ?e - first" using rows(2) e by simp
      with image_band_ok [OF less.prems w b] have
        k: "band_ok (pg_width page) first (?e - first) band" "imager_ok im1" "same_job im im1" by simp_all
      have "pg_height page - ?e < pg_height page - first" using e by simp
      from less.hyps [OF this k(2)] obtain bands im' where IH: "bands_deep family im1 page ?e = Some (bands, im')"
        "imager_ok im'" "same_job im1 im'" "bands_tile (max_band_rows family) ?e (pg_height page) bands"
        "\<forall>b\<in>set bands. band_ok (pg_width page) (rb_top b) (length (rb_rows b)) b"
        "\<forall>y row. ?e \<le> y \<and> y < pg_height page \<and> source_row im1 page y = Some row \<and> \<not> row_blank row \<longrightarrow> (\<exists>b\<in>set bands. in_band y b)"
        by blast
      have "bands_deep family im page first = Some (band # bands, im')"
        using True row0 ink rows(1) b IH(1) by (subst bands_deep.simps) simp
      moreover have "bands_tile (max_band_rows family) first (pg_height page) (band # bands)"
        using k(1) e IH(4) by (simp add: band_ok_def band_end_def)
      moreover have "\<forall>b\<in>set (band # bands). band_ok (pg_width page) (rb_top b) (length (rb_rows b)) b"
        using k(1) IH(5) by (auto simp: band_ok_def)
      moreover have "\<exists>b\<in>set (band # bands). in_band y b"
        if "first \<le> y" "y < pg_height page" "source_row im page y = Some row" "\<not> row_blank row" for y row
        using that IH(6) source_row_same [OF k(3)] k(1) e by (cases "y < ?e") (auto simp: in_band_def band_ok_def)
      ultimately show ?thesis using IH(2) same_job_trans [OF k(3) IH(3)] by blast
    qed
  qed
qed

section \<open>The bands of a black-and-white page\<close>

definition bw_band :: "Imager \<Rightarrow> Page \<Rightarrow> RawBand \<Rightarrow> bool" where
  "bw_band im page b \<longleftrightarrow>
     (\<forall>i < length (rb_rows b). \<exists>r. black_and_white_row im page (rb_top b + i) = Some r \<and> rb_rows b ! i = [r])"

lemma bands_bw_ok:
  assumes "page_ok page"
  shows "\<exists>bands. bands_bw family im page first = Some bands
    \<and> bands_tile (max_band_rows family) first (pg_height page) bands
    \<and> (\<forall>b\<in>set bands. band_ok (pg_width page) (rb_top b) (length (rb_rows b)) b \<and> bw_band im page b)
    \<and> (\<forall>y. first \<le> y \<and> y < pg_height page \<longrightarrow> (\<exists>b\<in>set bands. in_band y b))"
proof (induction "pg_height page - first" arbitrary: first rule: less_induct)
  case less
  show ?case
  proof (cases "first < pg_height page")
    case False
    then show ?thesis by (subst bands_bw.simps) simp
  next
    case True
    let ?e = "band_end family page first"
    from band_end_later [OF True, of family] have e: "first < ?e" "?e \<le> pg_height page" by auto
    from rows_from_some [of first ?e "black_and_white_row im page"] black_and_white_row_some [OF assms] e obtain rows where
      rows: "rows_from (black_and_white_row im page) first ?e = Some rows" "length rows = ?e - first"
      "\<forall>i < ?e - first. black_and_white_row im page (first + i) = Some (rows ! i)" by auto
    let ?b = "\<lparr>rb_top = first, rb_width = pg_width page, rb_kind = Mono, rb_rows = map (\<lambda>r. [r]) rows\<rparr>"
    have "length (rows ! i) = div_ceil (pg_width page) 8" if "i < length rows" for i
      using that rows(2,3) by (intro black_and_white_row_length [of im page "first + i"]) simp
    then have k: "band_ok (pg_width page) first (?e - first) ?b" "bw_band im page ?b"
      using rows(2,3) by (simp_all add: band_ok_def band_planes_def planes_ok_def list_all_length bw_band_def)
    have "pg_height page - ?e < pg_height page - first" using e by simp
    from less.hyps [OF this] obtain bands where IH: "bands_bw family im page ?e = Some bands"
      "bands_tile (max_band_rows family) ?e (pg_height page) bands"
      "\<forall>b\<in>set bands. band_ok (pg_width page) (rb_top b) (length (rb_rows b)) b \<and> bw_band im page b"
      "\<forall>y. ?e \<le> y \<and> y < pg_height page \<longrightarrow> (\<exists>b\<in>set bands. in_band y b)"
      by blast
    have "bands_bw family im page first = Some (?b # bands)" using True rows(1) IH(1) by (subst bands_bw.simps) simp
    moreover have "bands_tile (max_band_rows family) first (pg_height page) (?b # bands)"
      using k(1) e IH(2) by (simp add: band_ok_def band_end_def)
    moreover have "\<forall>b\<in>set (?b # bands). band_ok (pg_width page) (rb_top b) (length (rb_rows b)) b \<and> bw_band im page b"
      using k IH(3) by (auto simp: band_ok_def)
    moreover have "\<exists>b\<in>set (?b # bands). in_band y b" if "first \<le> y" "y < pg_height page" for y
      using that IH(4) k(1) e by (cases "y < ?e") (auto simp: in_band_def band_ok_def)
    ultimately show ?thesis by blast
  qed
qed

section \<open>A page on paper\<close>

text \<open>What the printer lays down for a band: the host's encoding, its G blocks, and the printer's reading of them.\<close>

definition printed_band :: "StyleWriterFamily \<Rightarrow> RawBand \<Rightarrow> bytes list list option" where
  "printed_band family raw =
     (case encode_band raw family of
        None \<Rightarrow> None
      | Some band \<Rightarrow>
          (case those (map read_block (band_blocks band (block_room family (rb_kind raw) (band_row_bytes band)))) of
             None \<Rightarrow> None
           | Some stream \<Rightarrow> print_rows family (div_ceil (rb_width raw) 8) (band_planes (rb_kind raw)) None
               (length (rb_rows raw)) (concat stream)))"

lemma band_ok_prints:
  assumes "band_ok w first n b" and "w \<le> print_width family"
  shows "printed_band family b = Some (rb_rows b)"
proof -
  from assms(1) have r: "rb_width b = w" "\<forall>planes\<in>set (rb_rows b). planes_ok w (band_planes (rb_kind b)) planes"
    by (simp_all add: band_ok_def list_all_iff)
  then have "map (map (pad_row (div_ceil w 8))) (rb_rows b) = rb_rows b"
    by (auto simp: planes_ok_def list_all_iff pad_row_id intro!: map_idI)
  with band_prints [of b family] assms(2) r show ?thesis by (auto simp: planes_ok_def printed_band_def)
qed

lemma imager_bands_deep:
  "im_rendering im \<noteq> BlackAndWhite \<Longrightarrow> imager_bands im page = bands_deep (im_family im) (im\<lparr>im_pattern_rows := 0\<rparr>) page 0"
  by (simp add: imager_bands_def Let_def)

lemma imager_restart: "imager_ok (im\<lparr>im_pattern_rows := n\<rparr>) = imager_ok im" "same_job im (im\<lparr>im_pattern_rows := n\<rparr>)"
  "source_row (im\<lparr>im_pattern_rows := n\<rparr>) = source_row im" "black_and_white_row (im\<lparr>im_pattern_rows := n\<rparr>) = black_and_white_row im"
  by (simp_all add: imager_ok_def same_job_def fun_eq_iff source_row_def draw_row_def black_and_white_row_def Let_def split: Pixels.split)

text \<open>
Claim C4: Imaging a whole page no wider than the printable area never runs off its pixels. The bands come out in
  order, none overlapping another or taller than the engine takes, and every row with anything on it is in
  one of them. A printer that reads the encoded G blocks of each band gets exactly the rows the imager
  drew, and the imager is ready for the next page of the job.\<close>

theorem page_prints_back:
  assumes "page_ok page" and "imager_ok im" and "pg_width page \<le> print_width (im_family im)"
  shows "\<exists>bands im'. imager_bands im page = Some (bands, im') \<and> imager_ok im' \<and> same_job im im'
    \<and> bands_tile (max_band_rows (im_family im)) 0 (pg_height page) bands
    \<and> (\<forall>b\<in>set bands. rb_width b = pg_width page \<and> printed_band (im_family im) b = Some (rb_rows b))
    \<and> (\<forall>y row. y < pg_height page \<and> source_row im page y = Some row \<and> \<not> row_blank row \<longrightarrow> (\<exists>b\<in>set bands. in_band y b))"
proof (cases "im_rendering im = BlackAndWhite")
  case True
  from bands_bw_ok [OF assms(1), of "im_family im" "im\<lparr>im_pattern_rows := 0\<rparr>" 0] obtain bands where
    b: "bands_bw (im_family im) (im\<lparr>im_pattern_rows := 0\<rparr>) page 0 = Some bands"
    "bands_tile (max_band_rows (im_family im)) 0 (pg_height page) bands"
    "\<forall>b\<in>set bands. band_ok (pg_width page) (rb_top b) (length (rb_rows b)) b \<and> bw_band (im\<lparr>im_pattern_rows := 0\<rparr>) page b"
    "\<forall>y. 0 \<le> y \<and> y < pg_height page \<longrightarrow> (\<exists>b\<in>set bands. in_band y b)" by (elim exE conjE)
  have "imager_bands im page = Some (bands, im\<lparr>im_pattern_rows := 0\<rparr>)" using b(1) True by (simp add: imager_bands_def Let_def)
  moreover have "\<forall>b\<in>set bands. rb_width b = pg_width page \<and> printed_band (im_family im) b = Some (rb_rows b)"
    using b(3) band_ok_prints [OF _ assms(3)] by (simp add: band_ok_def)
  moreover have "imager_ok (im\<lparr>im_pattern_rows := 0\<rparr>)" "same_job im (im\<lparr>im_pattern_rows := 0\<rparr>)"
    using assms(2) by (simp_all add: imager_restart)
  ultimately show ?thesis using b(2,4)
    by (intro exI [of _ bands] exI [of _ "im\<lparr>im_pattern_rows := 0\<rparr>"]) simp
next
  case False
  have ok: "imager_ok (im\<lparr>im_pattern_rows := 0\<rparr>)" using assms(2) by (simp add: imager_restart)
  from bands_deep_ok [OF ok assms(1), of "im_family im" 0] obtain bands im' where
    b: "bands_deep (im_family im) (im\<lparr>im_pattern_rows := 0\<rparr>) page 0 = Some (bands, im')" "imager_ok im'"
    "same_job (im\<lparr>im_pattern_rows := 0\<rparr>) im'" "bands_tile (max_band_rows (im_family im)) 0 (pg_height page) bands"
    "\<forall>b\<in>set bands. band_ok (pg_width page) (rb_top b) (length (rb_rows b)) b"
    "\<forall>y row. y < pg_height page \<and> source_row im page y = Some row \<and> \<not> row_blank row \<longrightarrow> (\<exists>b\<in>set bands. in_band y b)"
    unfolding imager_restart by auto
  have "\<forall>b\<in>set bands. rb_width b = pg_width page \<and> printed_band (im_family im) b = Some (rb_rows b)"
    using b(5) band_ok_prints [OF _ assms(3)] by (simp add: band_ok_def)
  with b imager_bands_deep [OF False] same_job_trans [OF imager_restart(2) b(3)] show ?thesis by (metis (no_types, lifting))
qed

definition example_job :: JobOptions where
  "example_job = \<lparr>jo_rendering = Grayscale, jo_quality = NormalQuality, jo_paper = BackPrintFilm, jo_cleaning = NoCleaning,
     jo_halftone = Pattern, jo_narrow_paper = False\<rparr>"

definition example_page :: Page where
  "example_page = \<lparr>pg_width = 3, pg_height = 2, pg_pixels = PixGray [0xFF, 0xFF, 0xFF, 0x00, 0x40, 0xC0]\<rparr>"

lemma page_prints_back_witness:
  "\<exists>bands im' b. imager_bands (imager_new (ColorFamily Cs2200) example_job) example_page = Some (bands, im') \<and> b \<in> set bands
     \<and> in_band 1 b \<and> printed_band (ColorFamily Cs2200) b = Some (rb_rows b)"
proof -
  let ?im = "imager_new (ColorFamily Cs2200) example_job"
  have p: "page_ok example_page" by (simp add: page_ok_def example_page_def)
  have f: "im_family ?im = ColorFamily Cs2200" by (simp add: imager_new_def)
  have w: "pg_width example_page \<le> print_width (im_family ?im)"
    by (simp add: example_page_def f print_width_def engine_of_def is_1200_series_def COLOR_ENGINE_def)
  from page_prints_back [OF p imager_new_ok w] obtain bands im' where b: "imager_bands ?im example_page = Some (bands, im')"
    "\<forall>b\<in>set bands. rb_width b = pg_width example_page \<and> printed_band (im_family ?im) b = Some (rb_rows b)"
    and c: "\<forall>y row. y < pg_height example_page \<and> source_row ?im example_page y = Some row \<and> \<not> row_blank row \<longrightarrow> (\<exists>b\<in>set bands. in_band y b)"
    by blast
  have "im_rendering ?im = Grayscale" "im_mirrored ?im"
    by (simp_all add: imager_new_def example_job_def paper_mirrored_def)
  then have "source_row ?im example_page 1 = Some (RowGray [0xC0, 0x40, 0x00])"
    by (simp add: source_row_def draw_row_def example_page_def subslice_def reverse_row_def)
  moreover have "\<not> row_blank (RowGray [0xC0, 0x40, 0x00])" by (simp add: row_blank_def)
  moreover have "1 < pg_height example_page" by (simp add: example_page_def)
  ultimately obtain band where "band \<in> set bands" "in_band 1 band" using c by blast
  with b f show ?thesis by auto
qed

section \<open>The dots of a black-and-white page\<close>

text \<open>A pixel prints black when it is black on the page, or darker than middle gray.\<close>

definition page_dark :: "Page \<Rightarrow> nat \<Rightarrow> nat \<Rightarrow> bool" where
  "page_dark page x y =
     (let i = y * pg_width page + x in
      case pg_pixels page of
        PixBlackAndWhite bits \<Rightarrow> get_dot (drop (y * div_ceil (pg_width page) 8) bits) x
      | PixGray v \<Rightarrow> v ! i < 0x80
      | PixRgb v \<Rightarrow> luma (v ! (3 * i), v ! (3 * i + 1), v ! (3 * i + 2)) < 0x80)"

lemma rgb_chunks_nth:
  "i < length xs div 3 \<Longrightarrow> rgb_chunks xs ! i = (xs ! (3 * i), xs ! (3 * i + 1), xs ! (3 * i + 2))"
proof (induction xs arbitrary: i rule: rgb_chunks.induct)
  case (1 r g b rest)
  then show ?case by (cases i) simp_all
qed simp_all

lemma dot_div_ceil:
  assumes "x < w"
  shows "x div 8 < div_ceil w 8"
proof -
  have "x div 8 * 8 \<le> x" by simp
  with assms div_ceil_8(1) [of w] have "x div 8 * 8 < div_ceil w 8 * 8" by linarith
  then show ?thesis by simp
qed

lemma get_dot_set: "y div 8 < length row \<Longrightarrow> get_dot (set_dot row y) x \<longleftrightarrow> get_dot row x \<or> x = y"
  by (simp add: set_dot_def get_dot_or)

lemma get_dot_dark:
  assumes "length gray \<le> w" and "x < w"
  shows "get_dot (dark_bits w gray) x \<longleftrightarrow> x < length gray \<and> gray ! x < 0x80"
  using assms(1)
proof (induction gray rule: rev_induct)
  case Nil
  show ?case using dot_div_ceil [OF assms(2)] by (simp add: dark_bits_def get_dot_def)
next
  case (snoc g gray)
  have "dark_bits w (gray @ [g]) = (if g < 0x80 then set_dot (dark_bits w gray) (length gray) else dark_bits w gray)"
    by (simp add: dark_bits_def enumerate_append_eq)
  moreover have "length gray div 8 < length (dark_bits w gray)" using snoc.prems dot_div_ceil [of "length gray" w] by simp
  ultimately show ?case using snoc by (auto simp: get_dot_set nth_append)
qed

lemma get_dot_take: "x div 8 < k \<Longrightarrow> get_dot (take k row) x = get_dot row x"
  by (simp add: get_dot_def)

definition dark_gray_row :: "Page \<Rightarrow> nat \<Rightarrow> SourceRow \<Rightarrow> bool" where
  "dark_gray_row page y row =
     (case row of
        RowGray gray \<Rightarrow> length gray = pg_width page \<and> (\<forall>x < pg_width page. gray ! x < 0x80 \<longleftrightarrow> page_dark page x y)
      | RowRgb _ \<Rightarrow> False)"

lemma row_index:
  assumes "x < w" and "y < h"
  shows "y * w + x < h * (w::nat)"
proof -
  have "y * w + x < (y + 1) * w" using assms(1) by simp
  also have "\<dots> \<le> h * w" using assms(2) by (intro mult_le_mono1) simp
  finally show ?thesis .
qed

lemma draw_row_dark:
  assumes "page_ok page" and "y < pg_height page" and "im_rendering im \<noteq> RenderColor" and "draw_row im page y = Some row"
    and "\<not> (\<exists>bits. pg_pixels page = PixBlackAndWhite bits)"
  shows "dark_gray_row page y row"
proof (cases "pg_pixels page")
  case (PixGray v)
  let ?w = "pg_width page"
  from PixGray assms(1,2) subslice_row [of "pg_height page" ?w v y] have
    s: "subslice (y * ?w) ((y + 1) * ?w) v = Some (take ?w (drop (y * ?w) v))"
    and len: "length (take ?w (drop (y * ?w) v)) = ?w" and n: "y * ?w \<le> length v"
    using mult_le_mono1 [of "Suc y" "pg_height page" ?w] by (simp_all add: page_ok_def)
  from s len n assms(3,4) PixGray show ?thesis
    by (auto simp: draw_row_def Let_def dark_gray_row_def page_dark_def simp del: mult_Suc add_Suc length_take)
next
  case (PixRgb v)
  let ?w = "pg_width page" and ?r = "take (pg_width page * 3) (drop (y * (pg_width page * 3)) v)"
  have eq: "y * ?w * 3 = y * (?w * 3)" "(y + 1) * ?w * 3 = (y + 1) * (?w * 3)" by (simp_all only: mult.assoc)
  from PixRgb assms(1,2) subslice_row [of "pg_height page" "?w * 3" v y] have
    s: "subslice (y * ?w * 3) ((y + 1) * ?w * 3) v = Some ?r"
    and len: "length ?r = ?w * 3" and n: "y * (?w * 3) \<le> length v"
    using mult_le_mono1 [of "Suc y" "pg_height page" "?w * 3"] unfolding eq by (simp_all add: page_ok_def)
  have "luma (rgb_chunks ?r ! x) < 0x80 \<longleftrightarrow> page_dark page x y" if "x < ?w" for x
  proof -
    have c: "rgb_chunks ?r ! x = (?r ! (3 * x), ?r ! (3 * x + 1), ?r ! (3 * x + 2))"
      by (rule rgb_chunks_nth) (use that len in simp)
    have e: "?r ! (3 * x + k) = v ! (3 * (y * ?w + x) + k)" if "k < 3" for k
    proof -
      have i: "y * (?w * 3) + (3 * x + k) = 3 * (y * ?w + x) + k" by (simp add: algebra_simps)
      have "3 * x + k < ?w * 3" using that \<open>x < ?w\<close> by linarith
      then show ?thesis using n by (simp only: nth_take nth_drop i)
    qed
    from e [of 0] e [of 1] e [of 2] have "?r ! (3 * x) = v ! (3 * (y * ?w + x))"
      "?r ! (3 * x + 1) = v ! (3 * (y * ?w + x) + 1)" "?r ! (3 * x + 2) = v ! (3 * (y * ?w + x) + 2)"
      by (simp_all del: nth_take nth_drop)
    with c PixRgb show ?thesis by (simp only: page_dark_def Let_def Pixels.case)
  qed
  with s len assms(3,4) PixRgb show ?thesis
    by (auto simp: draw_row_def Let_def dark_gray_row_def length_rgb_chunks simp del: mult_Suc add_Suc length_take)
qed (use assms(5) in simp)

lemma dark_row_dots:
  assumes "dark_gray_row page y row0" and "x < pg_width page" and "row = (if mirrored then reverse_row row0 else row0)"
  shows "get_dot (dark_row (pg_width page) row) x \<longleftrightarrow> page_dark page (if mirrored then pg_width page - 1 - x else x) y"
proof -
  from assms(1) obtain gray where g: "row0 = RowGray gray" "length gray = pg_width page"
    "\<forall>x < pg_width page. gray ! x < 0x80 \<longleftrightarrow> page_dark page x y"
    by (auto simp: dark_gray_row_def split: SourceRow.splits)
  with assms(2,3) show ?thesis by (simp add: dark_row_def reverse_row_def get_dot_dark rev_nth)
qed

text \<open>The dot of column \<open>x\<close>, which back-print film has at the mirrored column.\<close>

lemma black_and_white_row_dots:
  assumes "page_ok page" and "y < pg_height page" and "im_rendering im = BlackAndWhite" and "x < pg_width page"
    and "black_and_white_row im page y = Some r"
  shows "get_dot r x \<longleftrightarrow> page_dark page (if im_mirrored im then pg_width page - 1 - x else x) y"
proof (cases "pg_pixels page")
  case (PixBlackAndWhite bits)
  let ?w = "pg_width page" and ?k = "div_ceil (pg_width page) 8"
  let ?r = "take ?k (drop (y * ?k) bits)"
  from PixBlackAndWhite assms(1,2) subslice_row [of "pg_height page" ?k bits y]
  have s: "subslice (y * ?k) ((y + 1) * ?k) bits = Some ?r" by (simp add: page_ok_def)
  with subslice_length [OF s] have "?w \<le> 8 * length ?r" using div_ceil_8(1) [of ?w] by simp
  moreover from s assms(5) PixBlackAndWhite have "r = (if im_mirrored im then mirror_bits ?r ?w else ?r)"
    by (simp only: black_and_white_row_def Pixels.case Let_def option.map option.inject)
  moreover have "get_dot ?r z = page_dark page z y" if "z < ?w" for z
    using PixBlackAndWhite dot_div_ceil [OF that] by (simp add: page_dark_def Let_def get_dot_take)
  ultimately show ?thesis using assms(4) by (simp add: get_dot_mirror)
next
  case (PixGray v)
  with assms(5) obtain row0 where "draw_row im page y = Some row0"
    "r = dark_row (pg_width page) (if im_mirrored im then reverse_row row0 else row0)"
    by (auto simp: black_and_white_row_def source_row_def)
  with draw_row_dark [OF assms(1,2), of im] PixGray assms(3,4) show ?thesis by (simp add: dark_row_dots)
next
  case (PixRgb v)
  with assms(5) obtain row0 where "draw_row im page y = Some row0"
    "r = dark_row (pg_width page) (if im_mirrored im then reverse_row row0 else row0)"
    by (auto simp: black_and_white_row_def source_row_def)
  with draw_row_dark [OF assms(1,2), of im] PixRgb assms(3,4) show ?thesis by (simp add: dark_row_dots)
qed

text \<open>
Claim C5: On paper, a black-and-white page is its dark pixels and nothing else: whatever the page's depth, every
  pixel of every row lies in a band whose encoded form the printer lays down with a black dot exactly where
  the page is black (or darker than middle gray), with the columns reversed on back-print film.\<close>

theorem black_and_white_page_dots:
  assumes "page_ok page" and "im_rendering im = BlackAndWhite" and "pg_width page \<le> print_width (im_family im)"
    and "x < pg_width page" and "y < pg_height page"
  shows "\<exists>bands im' b paper. imager_bands im page = Some (bands, im') \<and> b \<in> set bands \<and> in_band y b
    \<and> printed_band (im_family im) b = Some paper
    \<and> (get_dot (paper ! (y - rb_top b) ! 0) x \<longleftrightarrow> page_dark page (if im_mirrored im then pg_width page - 1 - x else x) y)"
proof -
  let ?im = "im\<lparr>im_pattern_rows := 0\<rparr>"
  from bands_bw_ok [OF assms(1), of "im_family im" ?im 0] obtain bands where
    b: "bands_bw (im_family im) ?im page 0 = Some bands"
    "\<forall>b\<in>set bands. band_ok (pg_width page) (rb_top b) (length (rb_rows b)) b \<and> bw_band ?im page b"
    "\<forall>y. 0 \<le> y \<and> y < pg_height page \<longrightarrow> (\<exists>b\<in>set bands. in_band y b)" by (elim exE conjE)
  have "\<exists>b\<in>set bands. in_band y b" using b(3) assms(5) by simp
  then obtain band where band: "band \<in> set bands" "in_band y band" by (rule bexE)
  with b(2) have ok: "band_ok (pg_width page) (rb_top band) (length (rb_rows band)) band" "bw_band ?im page band" by simp_all
  have "imager_bands im page = Some (bands, ?im)" using b(1) assms(2) by (simp add: imager_bands_def Let_def)
  moreover have "printed_band (im_family im) band = Some (rb_rows band)" by (rule band_ok_prints [OF ok(1) assms(3)])
  moreover have i: "y - rb_top band < length (rb_rows band)" "rb_top band + (y - rb_top band) = y"
    using band(2) by (auto simp: in_band_def)
  from ok(2) [unfolded bw_band_def imager_restart, rule_format, OF i(1)] i(2) obtain r where
    "black_and_white_row im page y = Some r" "rb_rows band ! (y - rb_top band) = [r]" by auto
  ultimately show ?thesis using band black_and_white_row_dots [OF assms(1,5,2,4)]
    by (intro exI [of _ bands] exI [of _ ?im] exI [of _ band] exI [of _ "rb_rows band"]) simp
qed

lemma black_and_white_page_dots_witness:
  "\<exists>bands im' b paper. imager_bands (imager_new (ColorFamily Cs2200) (example_job\<lparr>jo_rendering := BlackAndWhite\<rparr>)) example_page
      = Some (bands, im') \<and> b \<in> set bands \<and> printed_band (ColorFamily Cs2200) b = Some paper
    \<and> get_dot (paper ! (1 - rb_top b) ! 0) 1"
proof -
  let ?im = "imager_new (ColorFamily Cs2200) (example_job\<lparr>jo_rendering := BlackAndWhite\<rparr>)"
  have p: "page_ok example_page" "im_rendering ?im = BlackAndWhite" "im_family ?im = ColorFamily Cs2200" "im_mirrored ?im"
    by (simp_all add: page_ok_def example_page_def imager_new_def example_job_def paper_mirrored_def)
  have w: "pg_width example_page \<le> print_width (im_family ?im)" "1 < pg_width example_page" "1 < pg_height example_page"
    by (simp_all add: example_page_def p print_width_def engine_of_def is_1200_series_def COLOR_ENGINE_def)
  have "page_dark example_page 1 1" by (simp add: page_dark_def example_page_def)
  moreover have "pg_width example_page - 1 - 1 = 1" by (simp add: example_page_def)
  ultimately show ?thesis using black_and_white_page_dots [OF p(1,2) w] p(3,4) by (simp only: if_True) blast
qed

end
