(* ===== verification/Frame_Check.thy ===== *)
theory Frame_Check
  imports TT_Prelude
begin

text \<open>
  The interface of a streaming frame check sequence, as the frame layers use it: a register
  fed byte by byte, two trailing bytes, and an acceptance test over the whole frame. The
  laws are those of a CRC: a byte step is injective in the register, two steps are injective
  in their bytes, the trailing bytes are accepted and acceptance pins the register.
\<close>

locale frame_check =
  fixes step :: "'r \<Rightarrow> u8 \<Rightarrow> 'r"
    and feed :: "'r \<Rightarrow> bytes \<Rightarrow> 'r"
    and init :: 'r
    and accept :: "'r \<Rightarrow> bool"
    and fcs :: "bytes \<Rightarrow> bytes"
  assumes feed_Nil: "feed r [] = r"
    and feed_Cons: "feed r (b # bs) = feed (step r b) bs"
    and step_inj: "step r b = step s b \<Longrightarrow> r = s"
    and two_steps_inj: "step (step r a) b = step (step r a') b' \<Longrightarrow> a = a' \<and> b = b'"
    and fcs_length: "length (fcs d) = 2"
    and fcs_accept: "accept (feed init (d @ fcs d))"
    and accept_unique: "accept r \<Longrightarrow> accept s \<Longrightarrow> r = s"
begin

lemma feed_append: "feed r (xs @ ys) = feed (feed r xs) ys"
  by (induction xs arbitrary: r) (simp_all add: feed_Nil feed_Cons)

lemma feed_inj: "feed r xs = feed s xs \<Longrightarrow> r = s"
  by (induction xs arbitrary: r s) (auto simp: feed_Nil feed_Cons dest: step_inj)

lemma feed_two: "feed r [a, b] = step (step r a) b"
  by (simp add: feed_Nil feed_Cons)

text \<open>The trailing bytes are the only two that make a body acceptable.\<close>

lemma trailer_unique:
  assumes "length t = 2"
  shows "accept (feed init (d @ t)) \<longleftrightarrow> t = fcs d"
proof
  assume acc: "accept (feed init (d @ t))"
  from assms obtain a b where t: "t = [a, b]"
    by (auto simp: length_2_iff)
  from fcs_length have "\<exists>c e. fcs d = [c, e]"
    by (simp only: length_2_iff [symmetric])
  then obtain c e where f: "fcs d = [c, e]"
    by blast
  from accept_unique [OF acc fcs_accept [of d]]
  have "step (step (feed init d) a) b = step (step (feed init d) c) e"
    by (simp add: feed_append feed_two t f)
  from two_steps_inj [OF this] show "t = fcs d"
    by (simp add: t f)
next
  assume "t = fcs d"
  then show "accept (feed init (d @ t))"
    by (simp add: fcs_accept)
qed

text \<open>Any corruption confined to two adjacent bytes of an accepted frame is detected.\<close>

lemma adjacent_error_detected:
  assumes ok: "accept (feed init (pre @ [a, b] @ post))"
    and diff: "(a, b) \<noteq> (c, d)"
  shows "\<not> accept (feed init (pre @ [c, d] @ post))"
proof
  assume bad: "accept (feed init (pre @ [c, d] @ post))"
  have "feed (step (step (feed init pre) a) b) post = feed (step (step (feed init pre) c) d) post"
    using accept_unique [OF ok bad] by (simp add: feed_append feed_Cons)
  then have "step (step (feed init pre) a) b = step (step (feed init pre) c) d"
    by (rule feed_inj)
  with diff show False by (auto dest: two_steps_inj)
qed

text \<open>A corrupted byte of an accepted frame is detected, the last one included.\<close>

lemma byte_error_detected:
  assumes ok: "accept (feed init (pre @ [a] @ post))" and diff: "a \<noteq> c"
  shows "\<not> accept (feed init (pre @ [c] @ post))"
proof
  assume bad: "accept (feed init (pre @ [c] @ post))"
  have "feed (step (feed init pre) a) post = feed (step (feed init pre) c) post"
    using accept_unique [OF ok bad] by (simp add: feed_append feed_Cons feed_Nil)
  then have "step (feed init pre) a = step (feed init pre) c"
    by (rule feed_inj)
  then have "step (step (feed init pre) a) 0 = step (step (feed init pre) c) 0"
    by simp
  with diff show False by (auto dest: two_steps_inj)
qed

end

end
