(* ===== verification/LT_Crc.thy ===== *)
theory LT_Crc
  imports Frame_Check
begin

text \<open>
  The LocalTalk frame check sequence of src/InkTalk/firmware/localtalk/src/crc.rs: the
  table-driven CRC-16 register, the two trailing bytes and the residue test, proved equal
  to the bit-serial CRC-16/CCITT register it tabulates. The locale \<open>frame_check\<close> is what
  the frame layers rely on; it is interpreted on this calculator here and on the tashtalk
  crate's copy of it in Tash_Codec.
\<close>

section \<open>The calculator\<close>

definition LT_CRC_LUT :: "u16 list" where
  "LT_CRC_LUT = [
    0x0000, 0x1189, 0x2312, 0x329B, 0x4624, 0x57AD, 0x6536, 0x74BF,
    0x8C48, 0x9DC1, 0xAF5A, 0xBED3, 0xCA6C, 0xDBE5, 0xE97E, 0xF8F7,
    0x1081, 0x0108, 0x3393, 0x221A, 0x56A5, 0x472C, 0x75B7, 0x643E,
    0x9CC9, 0x8D40, 0xBFDB, 0xAE52, 0xDAED, 0xCB64, 0xF9FF, 0xE876,
    0x2102, 0x308B, 0x0210, 0x1399, 0x6726, 0x76AF, 0x4434, 0x55BD,
    0xAD4A, 0xBCC3, 0x8E58, 0x9FD1, 0xEB6E, 0xFAE7, 0xC87C, 0xD9F5,
    0x3183, 0x200A, 0x1291, 0x0318, 0x77A7, 0x662E, 0x54B5, 0x453C,
    0xBDCB, 0xAC42, 0x9ED9, 0x8F50, 0xFBEF, 0xEA66, 0xD8FD, 0xC974,
    0x4204, 0x538D, 0x6116, 0x709F, 0x0420, 0x15A9, 0x2732, 0x36BB,
    0xCE4C, 0xDFC5, 0xED5E, 0xFCD7, 0x8868, 0x99E1, 0xAB7A, 0xBAF3,
    0x5285, 0x430C, 0x7197, 0x601E, 0x14A1, 0x0528, 0x37B3, 0x263A,
    0xDECD, 0xCF44, 0xFDDF, 0xEC56, 0x98E9, 0x8960, 0xBBFB, 0xAA72,
    0x6306, 0x728F, 0x4014, 0x519D, 0x2522, 0x34AB, 0x0630, 0x17B9,
    0xEF4E, 0xFEC7, 0xCC5C, 0xDDD5, 0xA96A, 0xB8E3, 0x8A78, 0x9BF1,
    0x7387, 0x620E, 0x5095, 0x411C, 0x35A3, 0x242A, 0x16B1, 0x0738,
    0xFFCF, 0xEE46, 0xDCDD, 0xCD54, 0xB9EB, 0xA862, 0x9AF9, 0x8B70,
    0x8408, 0x9581, 0xA71A, 0xB693, 0xC22C, 0xD3A5, 0xE13E, 0xF0B7,
    0x0840, 0x19C9, 0x2B52, 0x3ADB, 0x4E64, 0x5FED, 0x6D76, 0x7CFF,
    0x9489, 0x8500, 0xB79B, 0xA612, 0xD2AD, 0xC324, 0xF1BF, 0xE036,
    0x18C1, 0x0948, 0x3BD3, 0x2A5A, 0x5EE5, 0x4F6C, 0x7DF7, 0x6C7E,
    0xA50A, 0xB483, 0x8618, 0x9791, 0xE32E, 0xF2A7, 0xC03C, 0xD1B5,
    0x2942, 0x38CB, 0x0A50, 0x1BD9, 0x6F66, 0x7EEF, 0x4C74, 0x5DFD,
    0xB58B, 0xA402, 0x9699, 0x8710, 0xF3AF, 0xE226, 0xD0BD, 0xC134,
    0x39C3, 0x284A, 0x1AD1, 0x0B58, 0x7FE7, 0x6E6E, 0x5CF5, 0x4D7C,
    0xC60C, 0xD785, 0xE51E, 0xF497, 0x8028, 0x91A1, 0xA33A, 0xB2B3,
    0x4A44, 0x5BCD, 0x6956, 0x78DF, 0x0C60, 0x1DE9, 0x2F72, 0x3EFB,
    0xD68D, 0xC704, 0xF59F, 0xE416, 0x90A9, 0x8120, 0xB3BB, 0xA232,
    0x5AC5, 0x4B4C, 0x79D7, 0x685E, 0x1CE1, 0x0D68, 0x3FF3, 0x2E7A,
    0xE70E, 0xF687, 0xC41C, 0xD595, 0xA12A, 0xB0A3, 0x8238, 0x93B1,
    0x6B46, 0x7ACF, 0x4854, 0x59DD, 0x2D62, 0x3CEB, 0x0E70, 0x1FF9,
    0xF78F, 0xE606, 0xD49D, 0xC514, 0xB1AB, 0xA022, 0x92B9, 0x8330,
    0x7BC7, 0x6A4E, 0x58D5, 0x495C, 0x3DE3, 0x2C6A, 0x1EF1, 0x0F78
  ]"

definition POST_FRAME_RESIDUE :: u16 where
  "POST_FRAME_RESIDUE = 0xF0B8"

record CrcCalculator =
  crc_reg :: u16

definition crc_new :: CrcCalculator where
  "crc_new = \<lparr>crc_reg = 0xFFFF\<rparr>"

definition crc_reset :: "CrcCalculator \<Rightarrow> CrcCalculator" where
  "crc_reset c = c\<lparr>crc_reg := 0xFFFF\<rparr>"

definition crc_feed_byte :: "CrcCalculator \<Rightarrow> u8 \<Rightarrow> CrcCalculator" where
  "crc_feed_byte c byte =
     (let index = ucast (crc_reg c) XOR byte
      in c\<lparr>crc_reg := LT_CRC_LUT ! unat (index :: u8) XOR drop_bit 8 (crc_reg c)\<rparr>)"

fun crc_feed :: "CrcCalculator \<Rightarrow> bytes \<Rightarrow> CrcCalculator" where
  "crc_feed c [] = c"
| "crc_feed c (b # bs) = crc_feed (crc_feed_byte c b) bs"

definition crc_byte1 :: "CrcCalculator \<Rightarrow> u8" where
  "crc_byte1 c = ucast (crc_reg c) XOR 0xFF"

definition crc_byte2 :: "CrcCalculator \<Rightarrow> u8" where
  "crc_byte2 c = ucast (drop_bit 8 (crc_reg c)) XOR 0xFF"

definition crc_is_ok :: "CrcCalculator \<Rightarrow> bool" where
  "crc_is_ok c \<longleftrightarrow> crc_reg c = POST_FRAME_RESIDUE"

definition lt_crc :: "bytes \<Rightarrow> bytes" where
  "lt_crc data = (let calc = crc_feed crc_new data in [crc_byte1 calc, crc_byte2 calc])"

section \<open>The bit-serial register\<close>

text \<open>
  The reference: the reflected polynomial 0x1021 (0x8408 with the low bit first), one shift
  per data bit, eight per byte.
\<close>

definition crc_shift :: "u16 \<Rightarrow> u16" where
  "crc_shift r = (if bit r 0 then drop_bit 1 r XOR 0x8408 else drop_bit 1 r)"

definition crc_serial :: "u16 \<Rightarrow> u16" where
  "crc_serial r = (crc_shift ^^ 8) r"

definition crc_ref_byte :: "u16 \<Rightarrow> u8 \<Rightarrow> u16" where
  "crc_ref_byte r b = crc_serial (r XOR ucast b)"

lemma crc_serial_unfold:
  "crc_serial r = crc_shift (crc_shift (crc_shift (crc_shift
     (crc_shift (crc_shift (crc_shift (crc_shift r)))))))"
  by (simp add: crc_serial_def eval_nat_numeral)

fun lut_matches :: "u16 \<Rightarrow> u16 list \<Rightarrow> bool" where
  "lut_matches i [] = True"
| "lut_matches i (x # xs) = (x = crc_serial i \<and> lut_matches (i + 1) xs)"

lemma lut_matches_nth:
  "lut_matches s xs \<Longrightarrow> i < length xs \<Longrightarrow> xs ! i = crc_serial (s + word_of_nat i)"
proof (induction xs arbitrary: s i)
  case (Cons x xs)
  then show ?case by (cases i) (auto simp: ac_simps)
qed simp

text \<open>Every entry of the table, by evaluation in the kernel.\<close>

lemma lut_table: "lut_matches 0 LT_CRC_LUT"
  by (simp add: LT_CRC_LUT_def crc_serial_unfold crc_shift_def)

lemma length_lut: "length LT_CRC_LUT = 256"
  by (simp add: LT_CRC_LUT_def)

lemma lut_nth: "LT_CRC_LUT ! unat (i :: u8) = crc_serial (ucast i)"
proof -
  from unat_u8_less [of i] have "LT_CRC_LUT ! unat i = crc_serial (0 + word_of_nat (unat i))"
    by (intro lut_matches_nth [OF lut_table]) (simp add: length_lut)
  also have "(word_of_nat (unat i) :: u16) = ucast i"
    by (simp add: unsigned_ucast_eq word_eq_iff_unsigned)
  finally show ?thesis by simp
qed

lemma crc_shift_xor: "crc_shift (x XOR y) = crc_shift x XOR crc_shift y"
  by (simp add: crc_shift_def bit_simps ac_simps)

lemma crc_serial_xor: "crc_serial (x XOR y) = crc_serial x XOR crc_serial y"
  by (simp add: crc_serial_unfold crc_shift_xor)

lemma crc_shift_even: "\<not> bit x 0 \<Longrightarrow> crc_shift x = drop_bit 1 x"
  by (simp add: crc_shift_def)

lemma crc_serial_high: "(\<And>n. n < 8 \<Longrightarrow> \<not> bit x n) \<Longrightarrow> crc_serial x = drop_bit 8 x"
  by (simp add: crc_serial_unfold crc_shift_even bit_simps eval_nat_numeral)

lemma crc_shift_zero: "crc_shift z = 0 \<Longrightarrow> z = 0"
proof (rule ccontr)
  assume z: "crc_shift z = 0" and nz: "z \<noteq> 0"
  have top: "bit (crc_shift z) 15 = bit z 0"
    by (auto simp: crc_shift_def bit_simps dest: bit_lengthD)
  with z have even: "\<not> bit z 0" by simp
  with z have "drop_bit 1 z = 0" by (simp add: crc_shift_even)
  then have "\<not> bit (drop_bit 1 z) n" for n by simp
  then have "\<not> bit z (Suc n)" for n by (simp add: bit_simps)
  with even have "\<not> bit z n" for n by (cases n) auto
  with nz show False by (simp add: bit_eq_iff)
qed

lemma crc_shift_inj: "crc_shift x = crc_shift y \<longleftrightarrow> x = y"
proof
  assume "crc_shift x = crc_shift y"
  then have "crc_shift (x XOR y) = 0" by (simp add: crc_shift_xor)
  then have "x XOR y = 0" by (rule crc_shift_zero)
  then show "x = y" by (simp add: bit_eq_iff bit_simps)
qed simp

lemma crc_serial_inj: "crc_serial x = crc_serial y \<longleftrightarrow> x = y"
  by (simp add: crc_serial_unfold crc_shift_inj)

lemma ucast_xor_split: "r XOR ucast (ucast r XOR b :: u8) = push_bit 8 (drop_bit 8 r) XOR ucast b"
  for r :: u16 and b :: u8
  by (rule bit_word_eqI) (auto simp: bit_simps dest: bit_lengthD)

text \<open>The table step is eight serial shifts.\<close>

lemma crc_feed_byte_serial: "crc_reg (crc_feed_byte c b) = crc_ref_byte (crc_reg c) b"
proof -
  let ?r = "crc_reg c" and ?i = "ucast (crc_reg c) XOR b :: u8"
  have split: "?r XOR ucast b = ucast ?i XOR push_bit 8 (drop_bit 8 ?r)"
    by (rule bit_word_eqI) (auto simp: bit_simps dest: bit_lengthD)
  have "crc_serial (push_bit 8 (drop_bit 8 ?r)) = drop_bit 8 ?r"
    by (subst crc_serial_high) (auto simp: bit_simps intro!: bit_word_eqI dest: bit_lengthD)
  with split show ?thesis
    by (simp add: crc_feed_byte_def crc_ref_byte_def Let_def lut_nth crc_serial_xor)
qed

lemma crc_ref_byte_inj_reg: "crc_ref_byte r b = crc_ref_byte s b \<longleftrightarrow> r = s"
  by (simp add: crc_ref_byte_def crc_serial_inj xor_cancel_right)

text \<open>Two byte steps are sixteen shifts of the register with both bytes added at once.\<close>

lemma crc_ref_two_bytes:
  "crc_ref_byte (crc_ref_byte r a) b
    = crc_serial (crc_serial (r XOR (ucast a OR push_bit 8 (ucast b))))"
proof -
  have high: "crc_serial (push_bit 8 (ucast b)) = (ucast b :: u16)"
    by (subst crc_serial_high) (auto simp: bit_simps intro!: bit_word_eqI dest: bit_lengthD)
  have split: "r XOR (ucast a OR push_bit 8 (ucast b)) = (r XOR ucast a) XOR push_bit 8 (ucast b)"
    by (rule bit_word_eqI) (auto simp: bit_simps dest: bit_lengthD)
  show ?thesis
    by (simp only: crc_ref_byte_def split crc_serial_xor high)
qed

lemma two_bytes_inj:
  "(ucast a OR push_bit 8 (ucast b) :: u16) = ucast c OR push_bit 8 (ucast d) \<longleftrightarrow> a = c \<and> b = d"
  for a b c d :: u8
proof
  assume eq: "(ucast a OR push_bit 8 (ucast b) :: u16) = ucast c OR push_bit 8 (ucast d)"
  have "be16 b a = be16 d c"
    using eq by (simp add: be16_def ac_simps)
  then show "a = c \<and> b = d"
    by (metis hi8_be16 lo8_be16)
qed simp

lemma crc_ref_two_bytes_inj:
  "crc_ref_byte (crc_ref_byte r a) b = crc_ref_byte (crc_ref_byte r c) d \<longleftrightarrow> a = c \<and> b = d"
  by (simp only: crc_ref_two_bytes crc_serial_inj xor_cancel_left two_bytes_inj)

section \<open>The calculator as a frame check\<close>

lemma crc_feed_byte_eq: "crc_feed_byte c b = \<lparr>crc_reg = crc_ref_byte (crc_reg c) b\<rparr>"
  by (rule CrcCalculator.equality) (simp_all add: crc_feed_byte_serial)

text \<open>
  The two trailing bytes cancel the register, whatever it holds: the low byte leaves the
  index 0xFF, the high byte then leaves the index 0x87.
\<close>

lemma crc_trailer_residue:
  "crc_reg (crc_feed_byte (crc_feed_byte c (crc_byte1 c)) (crc_byte2 c)) = POST_FRAME_RESIDUE"
proof -
  let ?r = "crc_reg c"
  have ones: "(0xFF :: u8) = - 1" "(0xFFFF :: u16) = - 1" by simp_all
  have "ucast (ucast ?r XOR 0xFF :: u8) OR push_bit 8 (ucast (ucast (drop_bit 8 ?r) XOR 0xFF :: u8))
      = ?r XOR 0xFFFF"
    unfolding ones by (rule bit_word_eqI) (auto simp: bit_simps)
  then have "crc_ref_byte (crc_ref_byte ?r (crc_byte1 c)) (crc_byte2 c)
      = crc_serial (crc_serial (?r XOR (?r XOR 0xFFFF)))"
    by (simp only: crc_ref_two_bytes crc_byte1_def crc_byte2_def)
  also have "?r XOR (?r XOR 0xFFFF) = 0xFFFF"
    by (auto simp: bit_eq_iff bit_simps)
  also have "crc_serial (crc_serial 0xFFFF) = POST_FRAME_RESIDUE"
    by (simp add: crc_serial_unfold crc_shift_def POST_FRAME_RESIDUE_def)
  finally show ?thesis by (simp add: crc_feed_byte_eq)
qed

lemma crc_feed_append: "crc_feed c (xs @ ys) = crc_feed (crc_feed c xs) ys"
  by (induction xs arbitrary: c) simp_all

interpretation lt_fcs: frame_check crc_feed_byte crc_feed crc_new crc_is_ok lt_crc
proof unfold_locales
  show "crc_feed_byte r b = crc_feed_byte s b \<Longrightarrow> r = s" for r s b
    by (cases r, cases s) (simp add: crc_feed_byte_eq crc_ref_byte_inj_reg)
  show "crc_feed_byte (crc_feed_byte r a) b = crc_feed_byte (crc_feed_byte r c) d
      \<Longrightarrow> a = c \<and> b = d" for r a b c d
    by (simp add: crc_feed_byte_eq crc_ref_two_bytes_inj)
  show "crc_is_ok (crc_feed crc_new (d @ lt_crc d))" for d
    by (simp add: crc_is_ok_def lt_crc_def Let_def crc_feed_append crc_trailer_residue)
  show "crc_is_ok r \<Longrightarrow> crc_is_ok s \<Longrightarrow> r = s" for r s
    by (cases r, cases s) (simp add: crc_is_ok_def)
qed (simp_all add: lt_crc_def Let_def)

section \<open>Properties\<close>

text \<open>Claim C25. The table-driven register of the firmware is the bit-serial CRC-16/CCITT
  register: feeding any data from any register is the fold of eight serial shifts per byte.\<close>

theorem crc_feed_bit_serial: "crc_reg (crc_feed c data) = foldl crc_ref_byte (crc_reg c) data"
  by (induction data arbitrary: c) (simp_all add: crc_feed_byte_serial)

text \<open>The receiver's residue test accepts a body with two trailing bytes exactly when
  they are the ones the transmitter appends.\<close>

theorem lt_crc_accepted_iff: "crc_is_ok (crc_feed crc_new (data @ [b1, b2])) \<longleftrightarrow> [b1, b2] = lt_crc data"
  by (rule lt_fcs.trailer_unique) simp

text \<open>Any error confined to two adjacent bytes of a frame the receiver would accept,
  trailer included, is rejected by the residue test.\<close>

theorem crc_detects_adjacent_errors:
  assumes "crc_is_ok (crc_feed crc_new (pre @ [a, b] @ post))" and "(a, b) \<noteq> (a', b')"
  shows "\<not> crc_is_ok (crc_feed crc_new (pre @ [a', b'] @ post))"
  using assms by (rule lt_fcs.adjacent_error_detected)

lemma lt_crc_ack: "lt_crc [1, 1, 0x82] = [0xD2, 0x22]"
  by (simp add: lt_crc_def Let_def crc_byte1_def crc_byte2_def crc_feed_byte_eq crc_ref_byte_def
    crc_serial_unfold crc_shift_def crc_new_def)

theorem crc_detects_adjacent_errors_witness:
  "\<not> crc_is_ok (crc_feed crc_new ([1] @ [1, 0x83] @ [0xD2, 0x22]))"
proof (rule crc_detects_adjacent_errors)
  show "crc_is_ok (crc_feed crc_new ([1] @ [1, 0x82] @ [0xD2, 0x22]))"
    using lt_fcs.fcs_accept [of "[1, 1, 0x82]"] by (simp add: lt_crc_ack)
qed simp

end
