(* ===== verification/LT_Bitstuff.thy ===== *)
theory LT_Bitstuff
  imports TT_Prelude
begin

text \<open>
  SDLC bit stuffing: src/InkTalk/firmware/localtalk/src/bitstuff.rs. A bit is a \<open>u8\<close> with
  value 0 or 1, as in the code. \<open>stuff_list\<close> is the reference the byte-packing \<open>stuff\<close> here
  and the framing loop of LT_Hdlc are both reduced to; the unstuffer is proved to undo it.
\<close>

section \<open>Constants and bits\<close>

text \<open>\<open>MAX_FRAME_LEN\<close> of src/InkTalk/firmware/localtalk/src/lib.rs.\<close>

definition MAX_FRAME_LEN :: nat where
  "MAX_FRAME_LEN = 605"

definition FLAG :: u8 where
  "FLAG = 0x7E"

text \<open>\<open>(byte >> i) & 1\<close> for \<open>i\<close> from \<open>lo\<close> to 7.\<close>

definition byte_bits_from :: "nat \<Rightarrow> u8 \<Rightarrow> u8 list" where
  "byte_bits_from lo byte = map (\<lambda>i. drop_bit i byte AND 1) [lo..<8]"

abbreviation byte_bits :: "u8 \<Rightarrow> u8 list" where
  "byte_bits \<equiv> byte_bits_from 0"

definition bits_of :: "bytes \<Rightarrow> u8 list" where
  "bits_of bs = concat (map byte_bits bs)"

section \<open>The bit-packed writer and \<open>stuff\<close>\<close>

record BitWriter =
  bw_buf :: bytes
  bw_cur :: u8
  bw_pos :: nat

definition bw_new :: BitWriter where
  "bw_new = \<lparr>bw_buf = [], bw_cur = 0, bw_pos = 0\<rparr>"

text \<open>\<open>None\<close> is the panic of \<open>self.buf.push(..).unwrap()\<close> on a full \<open>heapless::Vec\<close>.\<close>

definition bw_push :: "BitWriter \<Rightarrow> u8 \<Rightarrow> BitWriter option" where
  "bw_push w b =
     (let cur = bw_cur w OR push_bit (bw_pos w) b; pos = bw_pos w + 1
      in if pos = 8
         then (if length (bw_buf w) < MAX_FRAME_LEN * 2
               then Some \<lparr>bw_buf = bw_buf w @ [cur], bw_cur = 0, bw_pos = 0\<rparr> else None)
         else Some (w\<lparr>bw_cur := cur, bw_pos := pos\<rparr>))"

definition bw_finish :: "BitWriter \<Rightarrow> bytes option" where
  "bw_finish w =
     (if bw_pos w > 0
      then (if length (bw_buf w) < MAX_FRAME_LEN * 2 then Some (bw_buf w @ [bw_cur w]) else None)
      else Some (bw_buf w))"

fun stuff_bits :: "BitWriter \<Rightarrow> nat \<Rightarrow> u8 list \<Rightarrow> (BitWriter \<times> nat) option" where
  "stuff_bits w ones [] = Some (w, ones)"
| "stuff_bits w ones (b # bits) =
     (case bw_push w b of
        None \<Rightarrow> None
      | Some w1 \<Rightarrow>
          (if b = 1
           then (if ones + 1 = 5
                 then (case bw_push w1 0 of None \<Rightarrow> None | Some w2 \<Rightarrow> stuff_bits w2 0 bits)
                 else stuff_bits w1 (ones + 1) bits)
           else stuff_bits w1 0 bits))"

fun stuff_bytes :: "BitWriter \<Rightarrow> nat \<Rightarrow> bytes \<Rightarrow> BitWriter option" where
  "stuff_bytes w ones [] = Some w"
| "stuff_bytes w ones (byte # input) =
     (case stuff_bits w ones (byte_bits byte) of
        None \<Rightarrow> None
      | Some (w', ones') \<Rightarrow> stuff_bytes w' ones' input)"

definition stuff :: "bytes \<Rightarrow> bytes option" where
  "stuff input = (case stuff_bytes bw_new 0 input of None \<Rightarrow> None | Some w \<Rightarrow> bw_finish w)"

section \<open>The unstuffer\<close>

datatype UnstuffEvent = UByte u8 | UFlag | UAbort | UNone

record BitUnstuffer =
  bu_bit_pos :: nat
  bu_accum :: u8
  bu_ones :: nat

definition bu_new :: BitUnstuffer where
  "bu_new = \<lparr>bu_bit_pos = 0, bu_accum = 0, bu_ones = 0\<rparr>"

definition bu_reset :: "BitUnstuffer \<Rightarrow> BitUnstuffer" where
  "bu_reset u = u\<lparr>bu_bit_pos := 0, bu_accum := 0, bu_ones := 0\<rparr>"

definition feed_bit :: "BitUnstuffer \<Rightarrow> u8 \<Rightarrow> UnstuffEvent \<times> BitUnstuffer" where
  "feed_bit u b =
     (if bu_ones u = 5
      then (if b = 0 then (UNone, u\<lparr>bu_ones := 0\<rparr>) else (UNone, u\<lparr>bu_ones := 6\<rparr>))
      else if bu_ones u = 6
      then (let u' = u\<lparr>bu_ones := 0, bu_bit_pos := 0, bu_accum := 0\<rparr>
            in if b = 0 then (UFlag, u') else (UAbort, u'))
      else
        (let accum = bu_accum u OR push_bit (bu_bit_pos u) b;
             pos = bu_bit_pos u + 1;
             ones = (if b = 1 then bu_ones u + 1 else 0)
         in if pos = 8
            then (UByte accum, \<lparr>bu_bit_pos = 0, bu_accum = 0, bu_ones = ones\<rparr>)
            else (UNone, \<lparr>bu_bit_pos = pos, bu_accum = accum, bu_ones = ones\<rparr>)))"

text \<open>The receive loop over a bit stream, keeping the events other than \<open>None\<close>.\<close>

fun feed_bits :: "BitUnstuffer \<Rightarrow> u8 list \<Rightarrow> UnstuffEvent list \<times> BitUnstuffer" where
  "feed_bits u [] = ([], u)"
| "feed_bits u (b # bs) =
     (let (ev, u1) = feed_bit u b; (evs, u2) = feed_bits u1 bs
      in (if ev = UNone then evs else ev # evs, u2))"

section \<open>The reference stuffing\<close>

fun stuff_list :: "nat \<Rightarrow> u8 list \<Rightarrow> u8 list" where
  "stuff_list ones [] = []"
| "stuff_list ones (b # bs) =
     (if b = 1
      then (if ones + 1 = 5 then 1 # 0 # stuff_list 0 bs else 1 # stuff_list (ones + 1) bs)
      else b # stuff_list 0 bs)"

fun ones_after :: "nat \<Rightarrow> u8 list \<Rightarrow> nat" where
  "ones_after ones [] = ones"
| "ones_after ones (b # bs) =
     ones_after (if b = 1 then (if ones + 1 = 5 then 0 else ones + 1) else 0) bs"

lemma stuff_list_append:
  "stuff_list k (xs @ ys) = stuff_list k xs @ stuff_list (ones_after k xs) ys"
  by (induction k xs rule: stuff_list.induct) auto

lemma ones_after_append: "ones_after k (xs @ ys) = ones_after (ones_after k xs) ys"
  by (induction k xs rule: ones_after.induct) auto

lemma ones_after_less: "k < 5 \<Longrightarrow> ones_after k bs < 5"
  by (induction k bs rule: ones_after.induct) auto

lemma length_stuff_list: "length (stuff_list k bs) \<le> length bs + (length bs + k) div 5"
proof (induction k bs rule: stuff_list.induct)
  case (2 ones b bs)
  then show ?case by (auto simp: Let_def)
qed simp

lemma set_stuff_list: "set bs \<subseteq> {0, 1} \<Longrightarrow> set (stuff_list k bs) \<subseteq> {0, 1}"
  by (induction k bs rule: stuff_list.induct) auto

lemma and_one_bit: "(x :: u8) AND 1 = (if bit x 0 then 1 else 0)"
proof (rule bit_word_eqI)
  show "bit (x AND 1) n = bit (if bit x 0 then 1 else 0 :: u8) n" for n
    by (cases n) (auto simp: bit_simps)
qed

lemma set_byte_bits: "set (byte_bits_from lo b) \<subseteq> {0, 1}"
  by (auto simp: byte_bits_from_def and_one_bit)

lemma length_byte_bits [simp]: "length (byte_bits_from lo b) = 8 - lo"
  by (simp add: byte_bits_from_def)

lemma set_bits_of: "set (bits_of bs) \<subseteq> {0, 1}"
  using set_byte_bits by (fastforce simp: bits_of_def)

lemma length_bits_of [simp]: "length (bits_of bs) = 8 * length bs"
  by (induction bs) (simp_all add: bits_of_def)

lemma bits_of_Cons: "bits_of (b # bs) = byte_bits b @ bits_of bs"
  by (simp add: bits_of_def)

lemma bits_of_Nil [simp]: "bits_of [] = []"
  by (simp add: bits_of_def)

section \<open>Unstuffing undoes stuffing\<close>

lemma feed_bits_append:
  "feed_bits u (xs @ ys) =
     (let (e1, u1) = feed_bits u xs; (e2, u2) = feed_bits u1 ys in (e1 @ e2, u2))"
  by (induction xs arbitrary: u) (simp_all add: Let_def split: prod.splits)

text \<open>An unstuffer inside the payload: fewer than five ones seen.\<close>

abbreviation aligned :: "nat \<Rightarrow> u8 \<Rightarrow> nat \<Rightarrow> BitUnstuffer" where
  "aligned p a k \<equiv> \<lparr>bu_bit_pos = p, bu_accum = a, bu_ones = k\<rparr>"

lemma feed_stuffed_bit:
  assumes "k < 5" and "b = 0 \<or> b = 1"
  shows "feed_bits (aligned p a k) (stuff_list k [b]) =
    (if p + 1 = 8 then ([UByte (a OR push_bit p b)], aligned 0 0 (ones_after k [b]))
     else ([], aligned (p + 1) (a OR push_bit p b) (ones_after k [b])))"
  using assms by (auto simp: feed_bit_def Let_def)

lemma byte_bits_from_Cons:
  "p < 8 \<Longrightarrow> byte_bits_from p byte = (drop_bit p byte AND 1) # byte_bits_from (Suc p) byte"
  by (simp add: byte_bits_from_def upt_conv_Cons)

lemma take_bit_step: "take_bit p byte OR push_bit p (drop_bit p byte AND 1) = take_bit (Suc p) byte"
  for byte :: u8
  by (rule bit_word_eqI) (auto simp: bit_simps and_one_bit less_Suc_eq)

lemma feed_stuffed_byte_from:
  assumes "p < 8" and "k < 5"
  shows "feed_bits (aligned p (take_bit p byte) k) (stuff_list k (byte_bits_from p byte))
    = ([UByte byte], aligned 0 0 (ones_after k (byte_bits_from p byte)))"
  using assms
proof (induction "7 - p" arbitrary: p k)
  case 0
  then have p: "p = 7" by simp
  have last: "byte_bits_from 7 byte = [drop_bit 7 byte AND 1]"
    by (simp add: byte_bits_from_Cons byte_bits_from_def)
  have "take_bit 8 byte = byte"
    by (simp add: take_bit_word_eq_self)
  with take_bit_step [of 7 byte] have full: "take_bit 7 byte OR push_bit 7 (drop_bit 7 byte AND 1) = byte"
    by simp
  have "drop_bit 7 byte AND 1 = 0 \<or> drop_bit 7 byte AND 1 = 1"
    by (simp add: and_one_bit)
  from feed_stuffed_bit [OF 0(3) this, of 7 "take_bit 7 byte"] show ?case
    by (simp only: p last full) simp
next
  case (Suc n)
  let ?b = "drop_bit p byte AND 1"
  from Suc.hyps(2) have p: "p + 1 < 8" by simp
  have b: "?b = 0 \<or> ?b = 1" by (simp add: and_one_bit)
  have bits: "byte_bits_from p byte = [?b] @ byte_bits_from (Suc p) byte"
    using p by (simp add: byte_bits_from_Cons)
  have k': "ones_after k [?b] < 5"
    using Suc.prems(2) by (rule ones_after_less)
  have step: "feed_bits (aligned p (take_bit p byte) k) (stuff_list k [?b])
      = ([], aligned (Suc p) (take_bit (Suc p) byte) (ones_after k [?b]))"
    using feed_stuffed_bit [OF Suc.prems(2) b, of p "take_bit p byte", unfolded take_bit_step] p
    by (simp del: stuff_list.simps ones_after.simps)
  have "feed_bits (aligned (Suc p) (take_bit (Suc p) byte) (ones_after k [?b]))
      (stuff_list (ones_after k [?b]) (byte_bits_from (Suc p) byte))
    = ([UByte byte], aligned 0 0 (ones_after (ones_after k [?b]) (byte_bits_from (Suc p) byte)))"
    using Suc.hyps(2) p k' by (intro Suc.hyps(1)) simp_all
  with step show ?case
    by (simp only: bits stuff_list_append ones_after_append feed_bits_append) simp
qed

lemma feed_stuffed_bytes:
  assumes "k < 5"
  shows "feed_bits (aligned 0 0 k) (stuff_list k (bits_of bs))
    = (map UByte bs, aligned 0 0 (ones_after k (bits_of bs)))"
  using assms
proof (induction bs arbitrary: k)
  case (Cons b bs)
  have "feed_bits (aligned 0 0 k) (stuff_list k (byte_bits b))
      = ([UByte b], aligned 0 0 (ones_after k (byte_bits b)))"
    using feed_stuffed_byte_from [of 0 k b] Cons.prems by simp
  with Cons.IH [OF ones_after_less [OF Cons.prems]] show ?case
    by (simp add: bits_of_Cons stuff_list_append ones_after_append feed_bits_append)
qed (simp add: bits_of_def)

text \<open>A flag is recognised from any byte-aligned point of the payload, and resets the unstuffer.\<close>

lemma flag_bits: "byte_bits FLAG = [0, 1, 1, 1, 1, 1, 1, 0]"
  by (simp add: byte_bits_from_def FLAG_def upt_rec)

lemma feed_flag_bits: "k < 5 \<Longrightarrow> feed_bits (aligned 0 0 k) (byte_bits FLAG) = ([UFlag], aligned 0 0 0)"
  by (simp add: flag_bits feed_bit_def Let_def)

section \<open>No flag and no abort inside stuffed data\<close>

text \<open>\<open>no_six k xs\<close>: no six ones in a row, counting the \<open>k\<close> that came before.\<close>

fun no_six :: "nat \<Rightarrow> u8 list \<Rightarrow> bool" where
  "no_six k [] = (k < 6)"
| "no_six k (x # xs) = (k < 6 \<and> no_six (if x = 1 then k + 1 else 0) xs)"

lemma no_six_stuff_list: "k < 5 \<Longrightarrow> no_six k (stuff_list k bs)"
  by (induction k bs rule: stuff_list.induct) auto

lemma no_six_mono: "no_six k xs \<Longrightarrow> j \<le> k \<Longrightarrow> no_six j xs"
  by (induction k xs arbitrary: j rule: no_six.induct) (auto split: if_splits)

lemma no_six_replicate: "no_six k (replicate n 1 @ post) \<Longrightarrow> k + n < 6"
proof (induction n arbitrary: k)
  case 0
  then show ?case by (cases post) auto
next
  case (Suc n)
  then have "k + 1 + n < 6" by (intro Suc.IH) simp
  then show ?case by simp
qed

lemma no_six_append: "no_six k (pre @ xs) \<Longrightarrow> no_six 0 xs"
proof (induction pre arbitrary: k)
  case Nil
  then show ?case by (auto intro: no_six_mono)
qed (auto split: if_splits)

lemma no_six_run: "no_six 0 xs \<Longrightarrow> xs \<noteq> pre @ replicate 6 1 @ post"
  using no_six_append no_six_replicate by fastforce

section \<open>The packing writer\<close>

text \<open>
  \<open>bw_bits w\<close> is the bit stream a writer holds: the full bytes low bit first, then the
  pending bits of the current byte. A push appends to it.
\<close>

definition bw_wf :: "BitWriter \<Rightarrow> bool" where
  "bw_wf w \<longleftrightarrow> bw_pos w < 8 \<and> take_bit (bw_pos w) (bw_cur w) = bw_cur w"

definition bw_bits :: "BitWriter \<Rightarrow> u8 list" where
  "bw_bits w = bits_of (bw_buf w) @ take (bw_pos w) (byte_bits (bw_cur w))"

lemma bits_of_append: "bits_of (xs @ ys) = bits_of xs @ bits_of ys"
  by (simp add: bits_of_def)

lemma take_byte_bits: "p \<le> 8 \<Longrightarrow> take p (byte_bits b) = map (\<lambda>i. drop_bit i b AND 1) [0..<p]"
  by (simp add: byte_bits_from_def take_map)

lemma bit_of_take_bit: "take_bit p b = b \<Longrightarrow> p \<le> n \<Longrightarrow> \<not> bit b n" for b :: u8
  by (metis bit_take_bit_iff not_le)

lemma push_bits:
  assumes "take_bit p cur = cur" and "p < 8" and "b = 0 \<or> b = 1"
  shows "take (Suc p) (byte_bits (cur OR push_bit p b)) = take p (byte_bits cur) @ [b]"
    and "take_bit (Suc p) (cur OR push_bit p b) = cur OR push_bit p b"
proof -
  have lt: "drop_bit i (cur OR push_bit p b) AND 1 = drop_bit i cur AND 1" if "i < p" for i
    using that by (auto simp: and_one_bit bit_simps)
  have eq: "drop_bit p (cur OR push_bit p b) AND 1 = b"
    using assms bit_of_take_bit [OF assms(1), of p] by (auto simp: and_one_bit bit_simps)
  show "take (Suc p) (byte_bits (cur OR push_bit p b)) = take p (byte_bits cur) @ [b]"
    using assms(2) lt eq by (simp add: take_byte_bits)
  show "take_bit (Suc p) (cur OR push_bit p b) = cur OR push_bit p b"
    using assms bit_of_take_bit [OF assms(1)]
    by (intro bit_word_eqI) (auto simp: bit_simps le_Suc_eq not_less_eq split: if_splits)
qed

lemma bw_push_bits:
  assumes "bw_wf w" and "b = 0 \<or> b = 1" and "bw_push w b = Some w'"
  shows "bw_wf w' \<and> bw_bits w' = bw_bits w @ [b]"
proof (cases "bw_pos w = 7")
  case True
  from push_bits(1) [of 7 "bw_cur w" b] assms True
  have "byte_bits (bw_cur w OR push_bit 7 b) = take 7 (byte_bits (bw_cur w)) @ [b]"
    by (simp add: bw_wf_def)
  with assms True show ?thesis
    by (auto simp: bw_push_def bw_bits_def bw_wf_def bits_of_append bits_of_Cons Let_def split: if_splits)
next
  case False
  with assms push_bits [of "bw_pos w" "bw_cur w" b] show ?thesis
    by (auto simp: bw_push_def bw_bits_def bw_wf_def Let_def split: if_splits)
qed

lemma length_bw_bits: "bw_wf w \<Longrightarrow> length (bw_bits w) = 8 * length (bw_buf w) + bw_pos w"
  by (simp add: bw_bits_def bw_wf_def)

lemma bw_push_room:
  assumes "bw_wf w" and "length (bw_bits w) < 8 * (MAX_FRAME_LEN * 2)"
  shows "\<exists>w'. bw_push w b = Some w'"
  using assms by (auto simp: bw_push_def Let_def length_bw_bits)

lemma bw_push_step:
  assumes "bw_wf w" and "b = 0 \<or> b = 1" and "length (bw_bits w) < 8 * (MAX_FRAME_LEN * 2)"
  shows "\<exists>w'. bw_push w b = Some w' \<and> bw_wf w' \<and> bw_bits w' = bw_bits w @ [b]"
  using bw_push_room [OF assms(1,3), of b] bw_push_bits [OF assms(1,2)] by blast

lemma stuff_bits_ok:
  assumes "bw_wf w" and "set bits \<subseteq> {0, 1}"
    and "length (bw_bits w) + length (stuff_list ones bits) \<le> 8 * (MAX_FRAME_LEN * 2)"
  shows "\<exists>w'. stuff_bits w ones bits = Some (w', ones_after ones bits) \<and> bw_wf w'
    \<and> bw_bits w' = bw_bits w @ stuff_list ones bits"
  using assms
proof (induction bits arbitrary: w ones)
  case (Cons b bits)
  then have b: "b = 0 \<or> b = 1" by auto
  from Cons.prems have "length (bw_bits w) < 8 * (MAX_FRAME_LEN * 2)"
    by (auto split: if_splits)
  from bw_push_step [OF Cons.prems(1) b this] obtain w1 where
    w1: "bw_push w b = Some w1" "bw_wf w1" "bw_bits w1 = bw_bits w @ [b]" by blast
  show ?case
  proof (cases "b = 1 \<and> ones + 1 = 5")
    case True
    with Cons.prems w1(3) have "length (bw_bits w1) < 8 * (MAX_FRAME_LEN * 2)" by simp
    from bw_push_step [OF w1(2) _ this, of 0] obtain w2 where
      w2: "bw_push w1 0 = Some w2" "bw_wf w2" "bw_bits w2 = bw_bits w1 @ [0]" by blast
    from Cons.IH [OF w2(2), of 0] Cons.prems True w1 w2 show ?thesis by simp
  next
    case False
    with Cons.IH [OF w1(2), of "if b = 1 then ones + 1 else 0"] Cons.prems w1 show ?thesis by auto
  qed
qed simp

lemma stuff_bytes_ok:
  assumes "bw_wf w"
    and "length (bw_bits w) + length (stuff_list ones (bits_of input)) \<le> 8 * (MAX_FRAME_LEN * 2)"
  shows "\<exists>w'. stuff_bytes w ones input = Some w' \<and> bw_wf w'
    \<and> bw_bits w' = bw_bits w @ stuff_list ones (bits_of input)"
  using assms
proof (induction input arbitrary: w ones)
  case (Cons byte input)
  from Cons.prems have "length (bw_bits w) + length (stuff_list ones (byte_bits byte)) \<le> 8 * (MAX_FRAME_LEN * 2)"
    by (simp add: bits_of_Cons stuff_list_append)
  from stuff_bits_ok [OF Cons.prems(1) set_byte_bits this] obtain w1 where
    w1: "stuff_bits w ones (byte_bits byte) = Some (w1, ones_after ones (byte_bits byte))"
      "bw_wf w1" "bw_bits w1 = bw_bits w @ stuff_list ones (byte_bits byte)" by blast
  with Cons.IH [OF w1(2), of "ones_after ones (byte_bits byte)"] Cons.prems(2) show ?case
    by (simp add: bits_of_Cons stuff_list_append)
qed simp

lemma bw_finish_bits:
  assumes "bw_wf w" and "length (bw_bits w) \<le> 8 * (MAX_FRAME_LEN * 2)"
  shows "\<exists>out n. bw_finish w = Some out \<and> n < 8 \<and> bits_of out = bw_bits w @ replicate n 0"
proof (cases "bw_pos w = 0")
  case True
  then have "bw_finish w = Some (bw_buf w) \<and> bits_of (bw_buf w) = bw_bits w @ replicate 0 0"
    by (simp add: bw_finish_def bw_bits_def)
  then show ?thesis by (metis zero_less_numeral)
next
  case False
  let ?p = "bw_pos w" and ?c = "bw_cur w"
  from assms(1) have p: "?p < 8" and c: "take_bit ?p ?c = ?c" by (simp_all add: bw_wf_def)
  have "drop ?p (byte_bits ?c) = map (\<lambda>i. 0) [?p..<8]"
    using bit_of_take_bit [OF c] by (simp add: byte_bits_from_def drop_map and_one_bit bit_simps)
  then have "byte_bits ?c = take ?p (byte_bits ?c) @ replicate (8 - ?p) 0"
    by (metis append_take_drop_id length_upt map_replicate_const)
  moreover have "length (bw_buf w) < MAX_FRAME_LEN * 2"
    using assms False by (simp add: length_bw_bits)
  ultimately show ?thesis
    using False by (intro exI [of _ "bw_buf w @ [?c]"] exI [of _ "8 - ?p"])
      (simp add: bw_finish_def bw_bits_def bits_of_append bits_of_Cons)
qed

lemma bw_new_facts: "bw_wf bw_new" "bw_bits bw_new = []"
  by (simp_all add: bw_wf_def bw_new_def bw_bits_def)

lemma stuff_spec:
  assumes "length input \<le> MAX_FRAME_LEN"
  shows "\<exists>out n. stuff input = Some out \<and> n < 8
    \<and> bits_of out = stuff_list 0 (bits_of input) @ replicate n 0"
proof -
  have "length (stuff_list 0 (bits_of input)) \<le> 8 * (MAX_FRAME_LEN * 2)"
    using length_stuff_list [of 0 "bits_of input"] assms by simp
  with stuff_bytes_ok [OF bw_new_facts(1), of 0 input] obtain w where
    w: "stuff_bytes bw_new 0 input = Some w" "bw_wf w" "bw_bits w = stuff_list 0 (bits_of input)"
    by (auto simp: bw_new_facts)
  have "length (bw_bits w) \<le> 8 * (MAX_FRAME_LEN * 2)"
    using w(3) \<open>length (stuff_list 0 (bits_of input)) \<le> _\<close> by simp
  from bw_finish_bits [OF w(2) this] w show ?thesis
    by (auto simp: stuff_def)
qed

lemma feed_zeros: "n + p < 8 \<Longrightarrow> k < 5 \<Longrightarrow> fst (feed_bits (aligned p a k) (replicate n 0)) = []"
  by (induction n arbitrary: p k a) (auto simp: feed_bit_def Let_def split: prod.splits)

section \<open>Properties\<close>

text \<open>Stuffing any input of at most \<open>MAX_FRAME_LEN\<close> bytes never overruns the fixed
  output buffer (no panic), and the streaming unstuffer fed the packed output delivers exactly
  the input bytes, with no flag and no abort.\<close>

theorem unstuff_stuff:
  assumes "length input \<le> MAX_FRAME_LEN"
  shows "\<exists>out. stuff input = Some out \<and> fst (feed_bits bu_new (bits_of out)) = map UByte input"
proof -
  from stuff_spec [OF assms] obtain out n where
    out: "stuff input = Some out" "n < 8" "bits_of out = stuff_list 0 (bits_of input) @ replicate n 0"
    by blast
  let ?k = "ones_after 0 (bits_of input)"
  have "fst (feed_bits (aligned 0 0 ?k) (replicate n 0)) = []"
    using out(2) ones_after_less [of 0] by (intro feed_zeros) simp_all
  with feed_stuffed_bytes [of 0 input] out show ?thesis
    by (auto simp: bu_new_def feed_bits_append split: prod.splits)
qed

theorem unstuff_stuff_witness:
  "\<exists>out. stuff [0xFF, 0x7E] = Some out \<and> fst (feed_bits bu_new (bits_of out)) = [UByte 0xFF, UByte 0x7E]"
  using unstuff_stuff [of "[0xFF, 0x7E]"] by (simp add: MAX_FRAME_LEN_def)

end
