(* ===== verification/LT_Llap.thy ===== *)
theory LT_Llap
  imports LT_Crc LT_Bitstuff
begin

text \<open>
  LLAP frames on the wire: src/InkTalk/firmware/localtalk/src/llap.rs. The composed control
  frames, the autoresponder's decision and the streaming frame assembler.
\<close>

section \<open>Control frames\<close>

definition ENQ :: u8 where "ENQ = 0x81"
definition ACK :: u8 where "ACK = 0x82"
definition RTS :: u8 where "RTS = 0x84"
definition CTS :: u8 where "CTS = 0x85"

lemmas llap_types = ENQ_def ACK_def RTS_def CTS_def

definition frame_crc_ok :: "bytes \<Rightarrow> bool" where
  "frame_crc_ok frame = (if length frame < 5 then False else crc_is_ok (crc_feed crc_new frame))"

definition with_crc :: "bytes \<Rightarrow> bytes" where
  "with_crc f = f @ lt_crc f"

definition compose_ack :: "u8 \<Rightarrow> bytes" where
  "compose_ack node = (let f = [node, node, ACK] in f @ lt_crc f)"

definition compose_cts :: "u8 \<Rightarrow> u8 \<Rightarrow> bytes" where
  "compose_cts requester our_node = (let f = [requester, our_node, CTS] in f @ lt_crc f)"

definition compose_rts :: "u8 \<Rightarrow> u8 \<Rightarrow> bytes" where
  "compose_rts dest src = (let f = [dest, src, RTS] in f @ lt_crc f)"

definition cts_matches_pending :: "bytes \<Rightarrow> u8 \<Rightarrow> u8 \<Rightarrow> bool" where
  "cts_matches_pending frame our_src their_dest =
     (length frame \<ge> 5 \<and> frame ! 0 = our_src \<and> frame ! 1 = their_dest \<and> frame ! 2 = CTS
      \<and> frame_crc_ok frame)"

section \<open>The autoresponder\<close>

datatype AutoReply = NoReply | AckReply (ar_node: u8) | CtsReply (ar_requester: u8) (ar_our_node: u8)

definition into_frame :: "AutoReply \<Rightarrow> bytes option" where
  "into_frame r =
     (case r of NoReply \<Rightarrow> None
      | AckReply node \<Rightarrow> Some (compose_ack node)
      | CtsReply requester our_node \<Rightarrow> Some (compose_cts requester our_node))"

definition auto_reply :: "bytes \<Rightarrow> u8 \<Rightarrow> AutoReply" where
  "auto_reply frame our_node =
     (if \<not> frame_crc_ok frame then NoReply
      else if length frame < 5 then NoReply
      else let dest = frame ! 0; src = frame ! 1; llap_type = frame ! 2
        in if dest \<noteq> our_node then NoReply
           else if llap_type AND 0x80 = 0 then NoReply
           else if llap_type = ENQ then AckReply dest
           else if llap_type = RTS then CtsReply src dest
           else NoReply)"

section \<open>The frame assembler\<close>

datatype AsmState = AsmIdle | InFrame

datatype AsmEvent = FrameEnd | Aborted

record FrameAssembler =
  fa_state :: AsmState
  fa_current :: bytes

definition fa_new :: FrameAssembler where
  "fa_new = \<lparr>fa_state = AsmIdle, fa_current = []\<rparr>"

definition fa_reset :: "FrameAssembler \<Rightarrow> FrameAssembler" where
  "fa_reset a = a\<lparr>fa_state := AsmIdle, fa_current := []\<rparr>"

text \<open>The push into the 605-byte vector ignores a full vector.\<close>

definition fa_feed_byte :: "FrameAssembler \<Rightarrow> u8 \<Rightarrow> AsmEvent option \<times> FrameAssembler" where
  "fa_feed_byte a byte =
     (None, if fa_state a = InFrame
            then a\<lparr>fa_current := (if length (fa_current a) < MAX_FRAME_LEN then fa_current a @ [byte]
                                 else fa_current a)\<rparr>
            else a)"

definition fa_feed_flag :: "FrameAssembler \<Rightarrow> AsmEvent option \<times> FrameAssembler" where
  "fa_feed_flag a =
     (case fa_state a of
        AsmIdle \<Rightarrow> (None, a\<lparr>fa_state := InFrame, fa_current := []\<rparr>)
      | InFrame \<Rightarrow> (if fa_current a = [] then (None, a) else (Some FrameEnd, a)))"

definition fa_ack_frame_end :: "FrameAssembler \<Rightarrow> FrameAssembler" where
  "fa_ack_frame_end a = a\<lparr>fa_current := []\<rparr>"

definition fa_feed_abort :: "FrameAssembler \<Rightarrow> AsmEvent option \<times> FrameAssembler" where
  "fa_feed_abort a =
     (if fa_current a \<noteq> [] then Some Aborted else None, a\<lparr>fa_current := [], fa_state := AsmIdle\<rparr>)"

section \<open>The frame check sequence\<close>

lemma frame_crc_ok_iff:
  "frame_crc_ok frame \<longleftrightarrow> (\<exists>body. 3 \<le> length body \<and> frame = with_crc body)"
proof
  assume ok: "frame_crc_ok frame"
  then have len: "5 \<le> length frame" by (simp add: frame_crc_ok_def split: if_splits)
  let ?n = "length frame - 2"
  have split: "take ?n frame @ drop ?n frame = frame" by simp
  from ok have "crc_is_ok (crc_feed crc_new (take ?n frame @ drop ?n frame))"
    by (simp only: split) (simp add: frame_crc_ok_def split: if_splits)
  then have "drop ?n frame = lt_crc (take ?n frame)"
    using len by (subst (asm) lt_fcs.trailer_unique) simp_all
  with split have "frame = with_crc (take ?n frame)" by (simp add: with_crc_def)
  with len show "\<exists>body. 3 \<le> length body \<and> frame = with_crc body"
    by (intro exI [of _ "take ?n frame"]) simp
next
  assume "\<exists>body. 3 \<le> length body \<and> frame = with_crc body"
  then show "frame_crc_ok frame"
    by (auto simp: frame_crc_ok_def with_crc_def lt_fcs.fcs_accept lt_fcs.fcs_length)
qed

lemma length_with_crc [simp]: "length (with_crc f) = length f + 2"
  by (simp add: with_crc_def lt_fcs.fcs_length)

lemma compose_with_crc:
  "compose_ack n = with_crc [n, n, ACK]" "compose_cts r n = with_crc [r, n, CTS]"
  "compose_rts d s = with_crc [d, s, RTS]"
  by (simp_all add: compose_ack_def compose_cts_def compose_rts_def with_crc_def Let_def)

lemma frame_crc_ok_with_crc [simp]: "3 \<le> length f \<Longrightarrow> frame_crc_ok (with_crc f)"
  by (auto simp: frame_crc_ok_iff)

lemma with_crc_nth [simp]: "i < length f \<Longrightarrow> with_crc f ! i = f ! i"
  by (simp add: with_crc_def nth_append)

lemma with_crc_inj: "with_crc f = with_crc g \<longleftrightarrow> f = g"
  by (auto simp: with_crc_def lt_fcs.fcs_length dest: append_eq_append_conv [THEN iffD1, rotated])

section \<open>Properties\<close>

text \<open>The autoresponder answers exactly a CRC-valid ENQ or RTS addressed to this
  node: an ENQ with an ACK claiming the node, an RTS with a CTS back to the requester, and
  nothing else; a corrupted, foreign, data or other control frame is never answered.\<close>

theorem auto_reply_spec:
  "into_frame (auto_reply frame our_node) =
     (if \<exists>src rest. frame = with_crc ([our_node, src, ENQ] @ rest)
      then Some (with_crc [our_node, our_node, ACK])
      else if \<exists>src rest. frame = with_crc ([our_node, src, RTS] @ rest)
      then Some (with_crc [frame ! 1, our_node, CTS])
      else None)"
proof (cases "frame_crc_ok frame")
  case True
  then obtain body where body: "3 \<le> length body" "frame = with_crc body"
    by (auto simp: frame_crc_ok_iff)
  from body(1) obtain d s t rest where b: "body = [d, s, t] @ rest"
    by (cases body; cases "tl body"; cases "tl (tl body)") auto
  have "ENQ AND 0x80 \<noteq> 0" "RTS AND 0x80 \<noteq> 0" "ENQ \<noteq> RTS"
    by (simp_all add: llap_types)
  then show ?thesis
    using body b True
    by (auto simp: auto_reply_def into_frame_def compose_with_crc with_crc_inj Let_def)
next
  case False
  then have "\<nexists>body. 3 \<le> length body \<and> frame = with_crc body" by (simp add: frame_crc_ok_iff)
  then have "frame \<noteq> with_crc ([our_node, src, t] @ rest)" for src t rest
    by (metis append_Cons append_Nil le_add1 length_append length_Cons list.size(3) numeral_3_eq_3)
  with False show ?thesis
    by (simp add: auto_reply_def into_frame_def)
qed

text \<open>The RTS/CTS handshake closes: the CTS a node composes in reply to a request
  matches the requester's pending RTS, and no other pending pair.\<close>

theorem rts_cts_handshake:
  "\<exists>cts. into_frame (auto_reply (compose_rts dest src) dest) = Some cts
    \<and> (\<forall>our their. cts_matches_pending cts our their \<longleftrightarrow> our = src \<and> their = dest)"
proof -
  have "into_frame (auto_reply (compose_rts dest src) dest) = Some (with_crc [src, dest, CTS])"
    by (simp add: auto_reply_def into_frame_def compose_with_crc llap_types)
  then show ?thesis
    by (auto simp: cts_matches_pending_def)
qed

end
