(* ===== verification/LT_Fm0.thy ===== *)
theory LT_Fm0
  imports LT_Bitstuff
begin

text \<open>
  FM-0 line coding: src/InkTalk/firmware/localtalk/src/fm0.rs. The encoder toggles the line
  at every cell boundary and once more inside a 0; the decoder times the samples between
  transitions. The lemmas follow the decoder cell by cell, for any hold time of three to five
  samples per half cell (nominal four), so the recovery is proved with sampling jitter.
\<close>

section \<open>Encoder\<close>

record Fm0Encoder =
  fe_level :: bool

definition fm0_enc_new :: Fm0Encoder where
  "fm0_enc_new = \<lparr>fe_level = False\<rparr>"

definition level_u8 :: "bool \<Rightarrow> u8" where
  "level_u8 l = (if l then 1 else 0)"

definition encode_bit :: "Fm0Encoder \<Rightarrow> u8 \<Rightarrow> (u8 \<times> u8) \<times> Fm0Encoder" where
  "encode_bit e b =
     (let l1 = \<not> fe_level e;
          boundary = level_u8 l1;
          l2 = (if b = 0 then \<not> l1 else l1);
          mid = level_u8 l2
      in ((boundary, mid), e\<lparr>fe_level := l2\<rparr>))"

definition MAX_FM0_SYMBOLS :: nat where
  "MAX_FM0_SYMBOLS = 16384"

text \<open>\<open>let _ = out.push(x)\<close> on a \<open>heapless::Vec\<close>: a full vector drops the element.\<close>

definition push_cap :: "nat \<Rightarrow> 'a list \<Rightarrow> 'a \<Rightarrow> 'a list" where
  "push_cap cap xs x = (if length xs < cap then xs @ [x] else xs)"

fun encode_bits :: "Fm0Encoder \<Rightarrow> u8 list \<Rightarrow> u8 list \<Rightarrow> u8 list \<times> Fm0Encoder" where
  "encode_bits e [] out = (out, e)"
| "encode_bits e (b # bs) out =
     (let ((x, y), e') = encode_bit e b
      in encode_bits e' bs (push_cap MAX_FM0_SYMBOLS (push_cap MAX_FM0_SYMBOLS out x) y))"

section \<open>Decoder\<close>

datatype Fm0Event = FByte u8 | FFlag | FAbort

definition MIN_INTERVAL :: nat where "MIN_INTERVAL = 2"
definition SHORT_MAX :: nat where "SHORT_MAX = 4"
definition LONG_MAX :: nat where "LONG_MAX = 11"

lemmas interval_defs = MIN_INTERVAL_def SHORT_MAX_def LONG_MAX_def

record Fm0Decoder =
  fd_prev_sample :: "u8 option"
  fd_seen_first_edge :: bool
  fd_since_edge :: nat
  fd_half_pending :: bool
  fd_unstuffer :: BitUnstuffer

definition fm0_dec_new :: Fm0Decoder where
  "fm0_dec_new = \<lparr>fd_prev_sample = None, fd_seen_first_edge = False, fd_since_edge = 0,
     fd_half_pending = False, fd_unstuffer = bu_new\<rparr>"

definition drop_sync :: "Fm0Decoder \<Rightarrow> Fm0Decoder" where
  "drop_sync d = d\<lparr>fd_seen_first_edge := False, fd_half_pending := False, fd_since_edge := 0,
     fd_unstuffer := bu_reset (fd_unstuffer d)\<rparr>"

definition resync :: "Fm0Decoder \<Rightarrow> Fm0Event option \<times> Fm0Decoder" where
  "resync d = (Some FAbort, drop_sync d)"

definition emit_bit :: "Fm0Decoder \<Rightarrow> u8 \<Rightarrow> Fm0Event option \<times> Fm0Decoder" where
  "emit_bit d b =
     (let (ev, u) = feed_bit (fd_unstuffer d) b; d' = d\<lparr>fd_unstuffer := u\<rparr>
      in case ev of
           UByte x \<Rightarrow> (Some (FByte x), d')
         | UFlag \<Rightarrow> (Some FFlag, d')
         | UAbort \<Rightarrow> (Some FAbort, drop_sync d')
         | UNone \<Rightarrow> (None, d'))"

text \<open>\<open>since_edge\<close> is a \<open>u16\<close> counted with \<open>saturating_add\<close>.\<close>

definition feed_sample :: "Fm0Decoder \<Rightarrow> u8 \<Rightarrow> Fm0Event option \<times> Fm0Decoder" where
  "feed_sample d0 sample =
     (case fd_prev_sample d0 of
        None \<Rightarrow> (None, d0\<lparr>fd_prev_sample := Some sample\<rparr>)
      | Some prev \<Rightarrow>
          (let d = d0\<lparr>fd_prev_sample := Some sample\<rparr> in
           if sample = prev
           then (let d1 = d\<lparr>fd_since_edge := min 65535 (fd_since_edge d + 1)\<rparr>
                 in if fd_seen_first_edge d1 \<and> fd_since_edge d1 > LONG_MAX
                    then resync d1 else (None, d1))
           else
             (let interval = fd_since_edge d; d1 = d\<lparr>fd_since_edge := 0\<rparr> in
              if \<not> fd_seen_first_edge d1
              then (None, d1\<lparr>fd_seen_first_edge := True, fd_half_pending := False\<rparr>)
              else if interval < MIN_INTERVAL then resync d1
              else if interval \<le> SHORT_MAX
              then (if fd_half_pending d1 then emit_bit (d1\<lparr>fd_half_pending := False\<rparr>) 0
                    else (None, d1\<lparr>fd_half_pending := True\<rparr>))
              else if interval \<le> LONG_MAX
              then (if fd_half_pending d1 then resync d1 else emit_bit d1 1)
              else resync d1)))"

fun feed_samples :: "Fm0Decoder \<Rightarrow> u8 list \<Rightarrow> Fm0Event list \<times> Fm0Decoder" where
  "feed_samples d [] = ([], d)"
| "feed_samples d (s # ss) =
     (let (ev, d1) = feed_sample d s; (evs, d2) = feed_samples d1 ss
      in ((case ev of None \<Rightarrow> evs | Some e \<Rightarrow> e # evs), d2))"

lemma feed_samples_append:
  "feed_samples d (xs @ ys) =
     (let (e1, d1) = feed_samples d xs; (e2, d2) = feed_samples d1 ys in (e1 @ e2, d2))"
  by (induction xs arbitrary: d) (simp_all add: Let_def split: prod.splits option.splits)

lemma feed_samples_comp:
  "feed_samples d xs = (e1, d1) \<Longrightarrow> feed_samples d1 ys = (e2, d2) \<Longrightarrow>
   feed_samples d (xs @ ys) = (e1 @ e2, d2)"
  by (simp add: feed_samples_append)

section \<open>The encoder's symbols\<close>

text \<open>The symbol list without the capacity of the output vector.\<close>

fun cells :: "bool \<Rightarrow> u8 list \<Rightarrow> (bool \<times> bool) list" where
  "cells l [] = []"
| "cells l (b # bs) = (let l2 = (if b = 0 then l else \<not> l) in (\<not> l, l2) # cells l2 bs)"

definition symbols :: "(bool \<times> bool) list \<Rightarrow> u8 list" where
  "symbols cs = concat (map (\<lambda>(x, y). [level_u8 x, level_u8 y]) cs)"

lemma length_cells [simp]: "length (cells l bs) = length bs"
  by (induction bs arbitrary: l) (simp_all add: Let_def)

lemma length_symbols [simp]: "length (symbols cs) = 2 * length cs"
  by (induction cs) (auto simp: symbols_def)

lemma encode_bits_symbols:
  "length out + 2 * length bs \<le> MAX_FM0_SYMBOLS \<Longrightarrow>
   fst (encode_bits e bs out) = out @ symbols (cells (fe_level e) bs)"
  by (induction e bs out rule: encode_bits.induct)
    (auto simp: encode_bit_def push_cap_def symbols_def Let_def)

section \<open>The decoder, cell by cell\<close>

text \<open>The samples taken of a symbol list whose \<open>i\<close>-th symbol lasts \<open>ks ! i\<close> samples.\<close>

fun hold :: "u8 list \<Rightarrow> nat list \<Rightarrow> u8 list" where
  "hold (s # ss) (k # ks) = replicate k s @ hold ss ks"
| "hold ss ks = []"

text \<open>Decoder states: synchronised or hunting at level \<open>l\<close>, \<open>n\<close> samples after the last edge.\<close>

abbreviation fm0_state :: "bool \<Rightarrow> bool \<Rightarrow> bool \<Rightarrow> nat \<Rightarrow> BitUnstuffer \<Rightarrow> Fm0Decoder" where
  "fm0_state seen l h n u \<equiv> \<lparr>fd_prev_sample = Some (level_u8 l), fd_seen_first_edge = seen,
     fd_since_edge = n, fd_half_pending = h, fd_unstuffer = u\<rparr>"

abbreviation synced :: "bool \<Rightarrow> bool \<Rightarrow> nat \<Rightarrow> BitUnstuffer \<Rightarrow> Fm0Decoder" where
  "synced \<equiv> fm0_state True"

abbreviation hunting :: "bool \<Rightarrow> nat \<Rightarrow> BitUnstuffer \<Rightarrow> Fm0Decoder" where
  "hunting l n u \<equiv> fm0_state False l False n u"

text \<open>
  \<open>pending d l b\<close>: the decoder has seen the whole of a cell carrying \<open>b\<close>, the line is at \<open>l\<close>,
  and the next boundary edge will deliver \<open>b\<close>.
\<close>

definition pending :: "bool \<Rightarrow> u8 \<Rightarrow> BitUnstuffer \<Rightarrow> Fm0Decoder \<Rightarrow> bool" where
  "pending l b u d \<longleftrightarrow>
     (\<exists>n. (b = 0 \<and> 2 \<le> n \<and> n \<le> 4 \<and> d = synced l True n u) \<or>
          (b = 1 \<and> 5 \<le> n \<and> n \<le> 9 \<and> d = synced l False n u))"

lemma feed_sample_same:
  "n < LONG_MAX \<Longrightarrow> feed_sample (synced l h n u) (level_u8 l) = (None, synced l h (n + 1) u)"
  by (simp add: feed_sample_def LONG_MAX_def)

lemma feed_same:
  "n + k \<le> LONG_MAX \<Longrightarrow>
   feed_samples (synced l h n u) (replicate k (level_u8 l)) = ([], synced l h (n + k) u)"
  by (induction k arbitrary: n) (simp_all add: feed_sample_same)

lemma feed_idle:
  "\<exists>m. feed_samples (hunting l n u) (replicate k (level_u8 l)) = ([], hunting l m u)"
proof (induction k arbitrary: n)
  case (Suc k)
  have "feed_sample (hunting l n u) (level_u8 l) = (None, hunting l (min 65535 (n + 1)) u)"
    by (simp add: feed_sample_def)
  with Suc [of "min 65535 (n + 1)"] show ?case by auto
qed simp

lemma level_u8_neq [simp]:
  "level_u8 (\<not> l) \<noteq> level_u8 l" "level_u8 l \<noteq> level_u8 (\<not> l)" "level_u8 False = 0" "level_u8 True = 1"
  by (simp_all add: level_u8_def)

text \<open>A boundary edge delivers the pending bit, or is taken as the first edge.\<close>

definition Fm0_ev :: "UnstuffEvent \<Rightarrow> Fm0Event list" where
  "Fm0_ev ev = (case ev of UByte x \<Rightarrow> [FByte x] | UFlag \<Rightarrow> [FFlag] | UAbort \<Rightarrow> [FAbort] | UNone \<Rightarrow> [])"

lemma Fm0_ev_UNone [simp]: "Fm0_ev UNone = []"
  by (simp add: Fm0_ev_def)

lemma boundary_edge:
  assumes "pending l b u d"
  shows "feed_samples d [level_u8 (\<not> l)] =
    (Fm0_ev (fst (feed_bit u b)),
     if fst (feed_bit u b) = UAbort then hunting (\<not> l) 0 (bu_reset (snd (feed_bit u b)))
     else synced (\<not> l) False 0 (snd (feed_bit u b)))"
  using assms
  by (auto simp: pending_def feed_sample_def interval_defs emit_bit_def drop_sync_def Fm0_ev_def Let_def
      split: prod.splits UnstuffEvent.splits)

lemma first_edge:
  "feed_samples (hunting l n u) [level_u8 (\<not> l)] = ([], synced (\<not> l) False 0 u)"
  by (simp add: feed_sample_def)

text \<open>The rest of a cell after its boundary edge.\<close>

abbreviation hold_ok :: "nat \<Rightarrow> bool" where
  "hold_ok k \<equiv> 3 \<le> k \<and> k \<le> 5"

definition cell_level :: "bool \<Rightarrow> u8 \<Rightarrow> bool" where
  "cell_level l b = (if b = 0 then l else \<not> l)"

lemma mid_edge:
  "2 \<le> n \<Longrightarrow> n \<le> 4 \<Longrightarrow>
   feed_samples (synced (\<not> l) False n u) [level_u8 l] = ([], synced l True 0 u)"
  by (simp add: feed_sample_def interval_defs)

lemma rest_of_cell:
  assumes "hold_ok m" and "hold_ok n" and "b = 0 \<or> b = 1"
  shows "\<exists>d'. feed_samples (synced (\<not> l) False 0 u)
      (replicate (m - 1) (level_u8 (\<not> l)) @ replicate n (level_u8 (cell_level l b))) = ([], d')
    \<and> pending (cell_level l b) b u d'"
proof (cases "b = 0")
  case True
  have n: "replicate n (level_u8 l) = [level_u8 l] @ replicate (n - 1) (level_u8 l)"
    using assms(2) by (cases n) auto
  have 1: "feed_samples (synced (\<not> l) False 0 u) (replicate (m - 1) (level_u8 (\<not> l)))
      = ([], synced (\<not> l) False (m - 1) u)"
    using assms(1) feed_same [of 0 "m - 1" "\<not> l" False u] by (auto simp: LONG_MAX_def)
  have 2: "feed_samples (synced (\<not> l) False (m - 1) u) [level_u8 l] = ([], synced l True 0 u)"
    using assms(1) by (intro mid_edge) auto
  have 3: "feed_samples (synced l True 0 u) (replicate (n - 1) (level_u8 l)) = ([], synced l True (n - 1) u)"
    using assms(2) feed_same [of 0 "n - 1" l True u] by (auto simp: LONG_MAX_def)
  have "feed_samples (synced (\<not> l) False 0 u)
      (replicate (m - 1) (level_u8 (\<not> l)) @ replicate n (level_u8 l)) = ([], synced l True (n - 1) u)"
    using feed_samples_comp [OF 1 feed_samples_comp [OF 2 3]] by (simp only: n append_Nil)
  with True assms(2) show ?thesis by (auto simp: cell_level_def pending_def)
next
  case False
  have "replicate (m - 1) (level_u8 (\<not> l)) @ replicate n (level_u8 (\<not> l))
      = replicate (m - 1 + n) (level_u8 (\<not> l))"
    by (simp only: replicate_add)
  moreover have "feed_samples (synced (\<not> l) False 0 u) (replicate (m - 1 + n) (level_u8 (\<not> l)))
      = ([], synced (\<not> l) False (m - 1 + n) u)"
    using assms(1,2) feed_same [of 0 "m - 1 + n" "\<not> l" False u] by (auto simp: LONG_MAX_def)
  ultimately show ?thesis
    using False assms by (auto simp: cell_level_def pending_def)
qed

abbreviation cell_samples :: "bool \<Rightarrow> u8 \<Rightarrow> nat \<Rightarrow> nat \<Rightarrow> u8 list" where
  "cell_samples l b m n \<equiv> replicate m (level_u8 (\<not> l)) @ replicate n (level_u8 (cell_level l b))"

lemma cell_split:
  "hold_ok m \<Longrightarrow> cell_samples l b m n = [level_u8 (\<not> l)] @
     (replicate (m - 1) (level_u8 (\<not> l)) @ replicate n (level_u8 (cell_level l b)))"
  by (cases m) auto

lemma cell_step:
  assumes "pending l b0 u d" and "hold_ok m" and "hold_ok n" and "b = 0 \<or> b = 1"
    and "fst (feed_bit u b0) \<noteq> UAbort"
  shows "\<exists>d'. feed_samples d (cell_samples l b m n) = (Fm0_ev (fst (feed_bit u b0)), d')
    \<and> pending (cell_level l b) b (snd (feed_bit u b0)) d'"
proof -
  have "feed_samples d [level_u8 (\<not> l)]
      = (Fm0_ev (fst (feed_bit u b0)), synced (\<not> l) False 0 (snd (feed_bit u b0)))"
    using boundary_edge [OF assms(1)] assms(5) by (simp only: if_False)
  from feed_samples_comp [OF this] rest_of_cell [OF assms(2-4), of l "snd (feed_bit u b0)"]
  show ?thesis unfolding cell_split [OF assms(2)] by (metis append_Nil2)
qed

lemma cell_first:
  assumes "hold_ok m" and "hold_ok n" and "b = 0 \<or> b = 1"
  shows "\<exists>d'. feed_samples (hunting l k u) (cell_samples l b m n) = ([], d')
    \<and> pending (cell_level l b) b u d'"
  using feed_samples_comp [OF first_edge] rest_of_cell [OF assms, of l u]
  unfolding cell_split [OF assms(1)] by (metis append_Nil2)

section \<open>Runs of cells\<close>

text \<open>The line level after a list of bits.\<close>

definition line_level :: "bool \<Rightarrow> u8 list \<Rightarrow> bool" where
  "line_level l bs = foldl cell_level l bs"

fun wire :: "bool \<Rightarrow> u8 list \<Rightarrow> nat list \<Rightarrow> u8 list" where
  "wire l (b # bs) (m # n # ks) = cell_samples l b m n @ wire (cell_level l b) bs ks"
| "wire l bs ks = []"

lemma hold_cells: "hold (symbols (cells l bs)) ks = wire l bs ks" if "length ks = 2 * length bs"
  using that
proof (induction l bs ks rule: wire.induct)
  case (1 l b bs m n ks)
  then show ?case by (simp add: symbols_def cell_level_def Let_def)
qed (simp_all add: symbols_def)

lemma two_holds:
  assumes "length ks = 2 * length (b # bs)"
  obtains m n ks' where "ks = m # n # ks'" and "length ks' = 2 * length bs"
proof (cases ks)
  case (Cons m ks1)
  with assms that show thesis by (cases ks1) auto
qed (use assms in simp)

lemma run_step:
  "feed_bits u (b # bs) = (case feed_bits (snd (feed_bit u b)) bs of (evs, u') \<Rightarrow>
     ((if fst (feed_bit u b) = UNone then [] else [fst (feed_bit u b)]) @ evs, u'))"
  by (simp split: prod.splits)

text \<open>
  The bits of a run reach the unstuffer one cell late: feeding the cells of \<open>bs\<close> with \<open>b0\<close>
  pending delivers the events of \<open>b0 # butlast bs\<close> and leaves the last bit pending.
\<close>

lemma run_cells:
  assumes "pending l b0 u d" and "length ks = 2 * length bs" and "set ks \<subseteq> {3..5}"
    and "set bs \<subseteq> {0, 1}" and "UAbort \<notin> set (fst (feed_bits u (butlast (b0 # bs))))"
  shows "\<exists>d'. feed_samples d (wire l bs ks)
      = (concat (map Fm0_ev (fst (feed_bits u (butlast (b0 # bs))))), d')
    \<and> pending (line_level l bs) (last (b0 # bs)) (snd (feed_bits u (butlast (b0 # bs)))) d'"
  using assms
proof (induction bs arbitrary: l b0 u d ks)
  case Nil
  then show ?case by (simp add: line_level_def)
next
  case (Cons b bs)
  from two_holds [OF Cons.prems(2)] obtain m n ks' where
    ks: "ks = m # n # ks'" "length ks' = 2 * length bs" .
  from Cons.prems(3,4) ks have h: "hold_ok m" "hold_ok n" "b = 0 \<or> b = 1"
    "set ks' \<subseteq> {3..5}" "set bs \<subseteq> {0, 1}" by auto
  have bl: "butlast (b0 # b # bs) = b0 # butlast (b # bs)" by simp
  let ?u = "snd (feed_bit u b0)"
  have na: "fst (feed_bit u b0) \<noteq> UAbort" "UAbort \<notin> set (fst (feed_bits ?u (butlast (b # bs))))"
    using Cons.prems(5) unfolding bl run_step by (auto split: prod.splits if_splits)
  from cell_step [OF Cons.prems(1) h(1,2,3) na(1)] obtain d1 where
    d1: "feed_samples d (cell_samples l b m n) = (Fm0_ev (fst (feed_bit u b0)), d1)"
      "pending (cell_level l b) b ?u d1" by blast
  from Cons.IH [OF d1(2) ks(2) h(4,5) na(2)] obtain d2 where
    d2: "feed_samples d1 (wire (cell_level l b) bs ks')
        = (concat (map Fm0_ev (fst (feed_bits ?u (butlast (b # bs))))), d2)"
      "pending (line_level (cell_level l b) bs) (last (b # bs)) (snd (feed_bits ?u (butlast (b # bs)))) d2"
    by blast
  from feed_samples_comp [OF d1(1) d2(1)] d2(2) ks(1) show ?case
    unfolding bl run_step
    by (auto simp: line_level_def split: prod.splits)
qed

lemma first_run:
  assumes "length ks = 2 * length (b # bs)" and "set ks \<subseteq> {3..5}"
    and "set (b # bs) \<subseteq> {0, 1}" and "UAbort \<notin> set (fst (feed_bits u (butlast (b # bs))))"
  shows "\<exists>d'. feed_samples (hunting l k u) (wire l (b # bs) ks)
      = (concat (map Fm0_ev (fst (feed_bits u (butlast (b # bs))))), d')
    \<and> pending (line_level l (b # bs)) (last (b # bs)) (snd (feed_bits u (butlast (b # bs)))) d'"
proof -
  from two_holds [OF assms(1)] obtain m n ks' where
    ks: "ks = m # n # ks'" "length ks' = 2 * length bs" .
  from assms(2,3) ks have h: "hold_ok m" "hold_ok n" "b = 0 \<or> b = 1"
    "set ks' \<subseteq> {3..5}" "set bs \<subseteq> {0, 1}" by auto
  from cell_first [OF h(1-3), of l k u] obtain d1 where
    d1: "feed_samples (hunting l k u) (cell_samples l b m n) = ([], d1)" "pending (cell_level l b) b u d1"
    by blast
  from run_cells [OF d1(2) ks(2) h(4,5) assms(4)] obtain d2 where
    d2: "feed_samples d1 (wire (cell_level l b) bs ks')
        = (concat (map Fm0_ev (fst (feed_bits u (butlast (b # bs))))), d2)"
      "pending (line_level (cell_level l b) bs) (last (b # bs)) (snd (feed_bits u (butlast (b # bs)))) d2"
    by blast
  from feed_samples_comp [OF d1(1) d2(1)] d2(2) ks(1) show ?thesis
    by (simp add: line_level_def)
qed

text \<open>The edge after an aborting bit loses the sync; the next cell is taken as a first one.\<close>

lemma cell_abort:
  assumes "pending l b0 u d" and "hold_ok m" and "hold_ok n"
    and "fst (feed_bit u b0) = UAbort"
  shows "\<exists>k. feed_samples d (cell_samples l 1 m n)
    = ([FAbort], hunting (\<not> l) k (bu_reset (snd (feed_bit u b0))))"
proof -
  have 1: "feed_samples d [level_u8 (\<not> l)]
      = ([FAbort], hunting (\<not> l) 0 (bu_reset (snd (feed_bit u b0))))"
    using boundary_edge [OF assms(1)] assms(4) by (simp add: Fm0_ev_def)
  have "replicate (m - 1) (level_u8 (\<not> l)) @ replicate n (level_u8 (cell_level l 1))
      = replicate (m - 1 + n) (level_u8 (\<not> l))"
    by (simp add: cell_level_def replicate_add)
  with feed_idle [of "\<not> l" 0 "bu_reset (snd (feed_bit u b0))" "m - 1 + n"] feed_samples_comp [OF 1]
  show ?thesis unfolding cell_split [OF assms(2)] by fastforce
qed

section \<open>Properties\<close>

text \<open>A bit stream encoded as FM-0 and sampled with three to five samples per half
  cell, after any number (at least one) of idle samples, reaches the receiver's unstuffer bit
  for bit: the decoder delivers exactly the events the unstuffer produces on the bits sent, up
  to the last bit, which is still waiting for its closing edge. Every byte and every flag is
  recovered whatever the jitter.\<close>

theorem fm0_decodes_encoding:
  assumes "set bits \<subseteq> {0, 1}" and "2 * length bits \<le> MAX_FM0_SYMBOLS" and "0 < idle"
    and "length ks = 2 * length bits" and "set ks \<subseteq> {3..5}"
    and "UAbort \<notin> set (fst (feed_bits bu_new (butlast bits)))"
  shows "fst (feed_samples fm0_dec_new (replicate idle 0 @ hold (fst (encode_bits fm0_enc_new bits [])) ks))
    = concat (map Fm0_ev (fst (feed_bits bu_new (butlast bits))))"
proof -
  from assms(3) obtain i where i: "idle = Suc i" by (cases idle) auto
  have start: "feed_samples fm0_dec_new [0] = ([], hunting False 0 bu_new)"
    by (simp add: feed_sample_def fm0_dec_new_def)
  from feed_samples_comp [OF start] feed_idle [of False 0 bu_new i] obtain k where
    idle: "feed_samples fm0_dec_new (replicate idle 0) = ([], hunting False k bu_new)"
    unfolding i by fastforce
  have w: "hold (fst (encode_bits fm0_enc_new bits [])) ks = wire False bits ks"
    using assms(2,4) by (simp add: encode_bits_symbols hold_cells fm0_enc_new_def)
  show ?thesis
  proof (cases bits)
    case Nil
    with assms(4) idle w show ?thesis by simp
  next
    case (Cons b bs)
    from first_run [of ks b bs bu_new False k] assms idle Cons w show ?thesis
      by (auto dest: feed_samples_comp)
  qed
qed

lemma flag_then_one: "fst (feed_bits bu_new (butlast (byte_bits FLAG @ [1]))) = [UFlag]"
  using feed_flag_bits [of 0] by (simp add: bu_new_def butlast_append)

theorem fm0_decodes_encoding_witness:
  "fst (feed_samples fm0_dec_new (replicate 2 0 @ hold (fst (encode_bits fm0_enc_new
     (byte_bits FLAG @ [1]) [])) (concat (replicate 9 [3, 5])))) = [FFlag]"
proof -
  let ?bits = "byte_bits FLAG @ [1]"
  have bits: "set ?bits \<subseteq> {0, 1}" "length ?bits = 9"
    using set_byte_bits by auto
  have cap: "2 * length ?bits \<le> MAX_FM0_SYMBOLS" by (simp add: MAX_FM0_SYMBOLS_def)
  have ks: "length (concat (replicate 9 [3, 5::nat])) = 2 * length ?bits"
    "set (concat (replicate 9 [3, 5::nat])) \<subseteq> {3..5}"
    by (simp_all add: numeral_eq_Suc)
  have na: "UAbort \<notin> set (fst (feed_bits bu_new (butlast ?bits)))"
    by (simp only: flag_then_one) simp
  show ?thesis
    using fm0_decodes_encoding [OF bits(1) cap _ ks na, of 2]
    by (simp only: flag_then_one) (simp add: Fm0_ev_def)
qed

end
