(* ===== verification/LT_Hdlc.thy ===== *)
theory LT_Hdlc
  imports LT_Fm0
begin

text \<open>
  HDLC framing of the transmit path: src/InkTalk/firmware/localtalk/src/hdlc.rs. The loops push
  into fixed-capacity vectors and ignore a failed push; the lemmas show that no frame that
  passes the length guard ever reaches a capacity, so the bit stream is exactly two flags, the
  stuffed frame, a flag and sixteen ones.
\<close>

section \<open>Operations\<close>

definition NUM_OPENING_FLAGS :: nat where "NUM_OPENING_FLAGS = 2"
definition NUM_ABORT_BITS :: nat where "NUM_ABORT_BITS = 16"
definition MAX_HDLC_BITS :: nat where "MAX_HDLC_BITS = 8192"

lemmas hdlc_caps = NUM_OPENING_FLAGS_def NUM_ABORT_BITS_def MAX_HDLC_BITS_def MAX_FRAME_LEN_def
  MAX_FM0_SYMBOLS_def

definition push_byte_as_bits :: "u8 list \<Rightarrow> u8 \<Rightarrow> u8 list" where
  "push_byte_as_bits bits byte =
     foldl (\<lambda>bs i. push_cap MAX_HDLC_BITS bs (drop_bit i byte AND 1)) bits [0..<8]"

fun hdlc_push_bits :: "u8 list \<Rightarrow> nat \<Rightarrow> u8 list \<Rightarrow> u8 list \<times> nat" where
  "hdlc_push_bits bits ones [] = (bits, ones)"
| "hdlc_push_bits bits ones (b # bs) =
     (let bits1 = push_cap MAX_HDLC_BITS bits b
      in if b = 1
         then (if ones + 1 = 5 then hdlc_push_bits (push_cap MAX_HDLC_BITS bits1 0) 0 bs
               else hdlc_push_bits bits1 (ones + 1) bs)
         else hdlc_push_bits bits1 0 bs)"

fun hdlc_push_bytes :: "u8 list \<Rightarrow> nat \<Rightarrow> bytes \<Rightarrow> u8 list \<times> nat" where
  "hdlc_push_bytes bits ones [] = (bits, ones)"
| "hdlc_push_bytes bits ones (byte # frame) =
     (let (bits', ones') = hdlc_push_bits bits ones (byte_bits byte)
      in hdlc_push_bytes bits' ones' frame)"

text \<open>The caller's vector is cleared only once the length guard has passed.\<close>

definition build_hdlc_bitstream_into :: "bytes \<Rightarrow> u8 list \<Rightarrow> nat option \<times> u8 list" where
  "build_hdlc_bitstream_into frame bits =
     (if length frame < 5 \<or> length frame > MAX_FRAME_LEN then (None, bits)
      else
        (let b1 = foldl push_byte_as_bits [] (replicate NUM_OPENING_FLAGS FLAG);
             b2 = fst (hdlc_push_bytes b1 0 frame);
             b3 = push_byte_as_bits b2 FLAG;
             b4 = foldl (push_cap MAX_HDLC_BITS) b3 (replicate NUM_ABORT_BITS 1)
         in (Some (length b4), b4)))"

definition build_hdlc_bitstream :: "bytes \<Rightarrow> u8 list option" where
  "build_hdlc_bitstream frame =
     (case build_hdlc_bitstream_into frame [] of (None, _) \<Rightarrow> None | (Some _, bits) \<Rightarrow> Some bits)"

definition build_tx_buffer_into ::
  "bytes \<Rightarrow> u8 list \<Rightarrow> u8 list \<Rightarrow> nat option \<times> u8 list \<times> u8 list" where
  "build_tx_buffer_into frame hdlc_scratch fm0 =
     (case build_hdlc_bitstream_into frame hdlc_scratch of
        (None, scratch) \<Rightarrow> (None, scratch, [])
      | (Some _, scratch) \<Rightarrow>
          (let fm0' = fst (encode_bits fm0_enc_new scratch []) in (Some (length fm0'), scratch, fm0')))"

definition build_tx_buffer :: "bytes \<Rightarrow> u8 list option" where
  "build_tx_buffer frame =
     (case build_tx_buffer_into frame [] [] of (None, _) \<Rightarrow> None | (Some _, _, fm0) \<Rightarrow> Some fm0)"

definition build_immediate_tx_buffer :: "bytes \<Rightarrow> u8 list option" where
  "build_immediate_tx_buffer frame = build_tx_buffer frame"

section \<open>No push is dropped\<close>

lemma foldl_push_cap: "length bits + length xs \<le> cap \<Longrightarrow> foldl (push_cap cap) bits xs = bits @ xs"
  by (induction xs arbitrary: bits) (simp_all add: push_cap_def)

lemma push_byte_as_bits_eq:
  assumes "length bits + 8 \<le> MAX_HDLC_BITS"
  shows "push_byte_as_bits bits byte = bits @ byte_bits byte"
proof -
  have "push_byte_as_bits bits byte = foldl (push_cap MAX_HDLC_BITS) bits (byte_bits byte)"
    by (simp only: push_byte_as_bits_def byte_bits_from_def foldl_map)
  with assms show ?thesis by (simp add: foldl_push_cap)
qed

lemma hdlc_push_bits_eq:
  "length bits + length (stuff_list ones bs) \<le> MAX_HDLC_BITS \<Longrightarrow>
   hdlc_push_bits bits ones bs = (bits @ stuff_list ones bs, ones_after ones bs)"
  by (induction bits ones bs rule: hdlc_push_bits.induct) (auto simp: push_cap_def Let_def)

lemma hdlc_push_bytes_eq:
  "length bits + length (stuff_list ones (bits_of frame)) \<le> MAX_HDLC_BITS \<Longrightarrow>
   hdlc_push_bytes bits ones frame = (bits @ stuff_list ones (bits_of frame), ones_after ones (bits_of frame))"
proof (induction frame arbitrary: bits ones)
  case (Cons byte frame)
  then show ?case
    by (simp add: bits_of_Cons stuff_list_append ones_after_append hdlc_push_bits_eq)
qed simp

text \<open>The bit stream of a frame.\<close>

definition hdlc_bits :: "bytes \<Rightarrow> u8 list" where
  "hdlc_bits frame = byte_bits FLAG @ byte_bits FLAG @ stuff_list 0 (bits_of frame)
     @ byte_bits FLAG @ replicate 16 1"

lemma length_hdlc_bits:
  assumes "length frame \<le> MAX_FRAME_LEN"
  shows "length (hdlc_bits frame) \<le> 5848"
  using length_stuff_list [of 0 "bits_of frame"] assms
  by (simp add: hdlc_bits_def MAX_FRAME_LEN_def)

lemma build_hdlc_bitstream_into_eq:
  assumes "5 \<le> length frame" and "length frame \<le> MAX_FRAME_LEN"
  shows "build_hdlc_bitstream_into frame bits = (Some (length (hdlc_bits frame)), hdlc_bits frame)"
proof -
  let ?b1 = "byte_bits FLAG @ byte_bits FLAG"
  let ?s = "stuff_list 0 (bits_of frame)"
  have len: "length ?s \<le> 5808"
    using length_stuff_list [of 0 "bits_of frame"] assms(2) by (simp add: MAX_FRAME_LEN_def)
  have b1: "foldl push_byte_as_bits [] (replicate NUM_OPENING_FLAGS FLAG) = ?b1"
    by (simp add: NUM_OPENING_FLAGS_def numeral_2_eq_2 push_byte_as_bits_eq MAX_HDLC_BITS_def)
  have b2: "fst (hdlc_push_bytes ?b1 0 frame) = ?b1 @ ?s"
    using len by (subst hdlc_push_bytes_eq) (simp_all add: MAX_HDLC_BITS_def)
  have b3: "push_byte_as_bits (?b1 @ ?s) FLAG = ?b1 @ ?s @ byte_bits FLAG"
    using len by (subst push_byte_as_bits_eq) (simp_all add: MAX_HDLC_BITS_def)
  have b4: "foldl (push_cap MAX_HDLC_BITS) (?b1 @ ?s @ byte_bits FLAG) (replicate NUM_ABORT_BITS 1)
      = hdlc_bits frame"
    using len by (subst foldl_push_cap) (simp_all add: hdlc_caps hdlc_bits_def)
  show ?thesis
    using assms b4 unfolding build_hdlc_bitstream_into_def Let_def b1 b2
    by (simp only: append_assoc b3 [simplified append_assoc] b4 [simplified append_assoc]) simp
qed

lemma build_hdlc_bitstream_eq:
  "build_hdlc_bitstream frame =
     (if 5 \<le> length frame \<and> length frame \<le> MAX_FRAME_LEN then Some (hdlc_bits frame) else None)"
  by (auto simp: build_hdlc_bitstream_def build_hdlc_bitstream_into_eq)
    (simp_all add: build_hdlc_bitstream_into_def)

lemma set_hdlc_bits: "set (hdlc_bits frame) \<subseteq> {0, 1}"
  using set_stuff_list [OF set_bits_of, of 0 frame] set_byte_bits [of 0 FLAG] by (auto simp: hdlc_bits_def)

lemma build_tx_buffer_eq:
  "build_tx_buffer frame =
     (if 5 \<le> length frame \<and> length frame \<le> MAX_FRAME_LEN
      then Some (fst (encode_bits fm0_enc_new (hdlc_bits frame) [])) else None)"
  by (auto simp: build_tx_buffer_def build_tx_buffer_into_def build_hdlc_bitstream_into_eq Let_def)
    (simp_all add: build_hdlc_bitstream_into_def)

lemma length_build_tx_buffer:
  assumes "build_tx_buffer frame = Some syms"
  shows "length syms = 2 * length (hdlc_bits frame) \<and> length syms \<le> 11696"
  using assms length_hdlc_bits [of frame]
  by (auto simp: build_tx_buffer_eq encode_bits_symbols MAX_FM0_SYMBOLS_def split: if_splits)

section \<open>Properties\<close>

text \<open>The framer accepts exactly the frames of 5 to 605 bytes; for those no push into
  the 8192-bit or the 16384-symbol vector is dropped: the stream is two flags, the stuffed
  frame with no six ones in a row, a flag and the abort run, and the symbol buffer has two
  symbols per bit, at most 11696.\<close>

theorem hdlc_framing_exact:
  "case build_hdlc_bitstream frame of
     None \<Rightarrow> (length frame < 5 \<or> MAX_FRAME_LEN < length frame) \<and> build_tx_buffer frame = None
   | Some bits \<Rightarrow>
       (\<exists>body syms. bits = byte_bits FLAG @ byte_bits FLAG @ body @ byte_bits FLAG @ replicate 16 1
         \<and> body = stuff_list 0 (bits_of frame)
         \<and> \<not> (\<exists>pre post. body = pre @ replicate 6 1 @ post)
         \<and> length bits \<le> 5848
         \<and> build_tx_buffer frame = Some syms \<and> length syms = 2 * length bits)"
proof (cases "5 \<le> length frame \<and> length frame \<le> MAX_FRAME_LEN")
  case True
  obtain syms where syms: "build_tx_buffer frame = Some syms"
    using True by (simp add: build_tx_buffer_eq)
  have "stuff_list 0 (bits_of frame) \<noteq> pre @ replicate 6 1 @ post" for pre post
    by (rule no_six_run) (simp add: no_six_stuff_list)
  with True syms length_hdlc_bits [of frame] length_build_tx_buffer [OF syms] show ?thesis
    by (simp add: build_hdlc_bitstream_eq) (simp add: hdlc_bits_def)
next
  case False
  then show ?thesis by (auto simp: build_hdlc_bitstream_eq build_tx_buffer_eq)
qed

end
