(* ===== verification/LT_RxEngine.thy ===== *)
theory LT_RxEngine
  imports LT_Llap LT_Hdlc
begin

text \<open>
  The receive engine of the InkTalk wire core: \<open>RxEngine\<close> of
  src/InkTalk/firmware/src/core1.rs. It turns the words of the PIO ring into frames, checks
  them, queues them for the other core, and holds one automatic reply until the line goes
  quiet. The ring of received frames is the list of its occupied slots, oldest first; the time
  is an argument, one reading per word; starting the DMA is appending the reply to the list of
  frames sent.
\<close>

section \<open>State\<close>

definition FRAME_END_MARKER :: u32 where "FRAME_END_MARKER = 0xFFFFFFFF"
definition RX_SLOT_COUNT :: nat where "RX_SLOT_COUNT = 4"
definition REPLY_WINDOW_US :: nat where "REPLY_WINDOW_US = 200"

record RxSlot =
  slot_frame :: bytes
  slot_crc_ok :: bool

record RxEngine =
  rx_unstuffer :: BitUnstuffer
  rx_assembler :: FrameAssembler
  rx_our_node :: u8
  rx_frames_seen :: u32
  rx_pending :: "(bytes \<times> micros) option"
  rx_slots :: "RxSlot list"
  rx_sent :: "bytes list"
  RX_DROP_COUNT :: u32
  ECHO_SKIP_COUNT :: u32
  DIRECTED_RX_COUNT :: u32
  GOOD_CRC_COUNT :: u32
  BAD_CRC_COUNT :: u32
  BAD_REAL_COUNT :: u32
  AUTOREPLY_COUNT :: u32
  AUTOREPLY_LATE :: u32

definition rx_new :: RxEngine where
  "rx_new = \<lparr>rx_unstuffer = bu_new, rx_assembler = fa_new, rx_our_node = 0, rx_frames_seen = 0,
     rx_pending = None, rx_slots = [], rx_sent = [], RX_DROP_COUNT = 0, ECHO_SKIP_COUNT = 0,
     DIRECTED_RX_COUNT = 0, GOOD_CRC_COUNT = 0, BAD_CRC_COUNT = 0, BAD_REAL_COUNT = 0,
     AUTOREPLY_COUNT = 0, AUTOREPLY_LATE = 0\<rparr>"

section \<open>Operations\<close>

definition push_rx :: "RxEngine \<Rightarrow> bytes \<Rightarrow> bool \<Rightarrow> RxEngine" where
  "push_rx e frame crc_ok =
     (if length (rx_slots e) \<ge> RX_SLOT_COUNT then e\<lparr>RX_DROP_COUNT := RX_DROP_COUNT e + 1\<rparr>
      else e\<lparr>rx_slots := rx_slots e @
        [\<lparr>slot_frame = take (min (length frame) MAX_FRAME_LEN) frame, slot_crc_ok = crc_ok\<rparr>]\<rparr>)"

definition rx_frame_end :: "bool \<Rightarrow> micros \<Rightarrow> RxEngine \<Rightarrow> RxEngine" where
  "rx_frame_end analyzer now e0 =
     (let our_node = rx_our_node e0;
          e = e0\<lparr>rx_frames_seen := rx_frames_seen e0 + 1\<rparr>;
          frame = fa_current (rx_assembler e);
          crc_ok = frame_crc_ok frame;
          is_echo = (length frame \<ge> 2 \<and> frame ! 1 = our_node \<and> our_node \<noteq> 0)
      in if is_echo \<and> \<not> analyzer then e\<lparr>ECHO_SKIP_COUNT := ECHO_SKIP_COUNT e + 1\<rparr>
      else
        let e1 = (if frame \<noteq> [] \<and> frame ! 0 = our_node \<and> our_node \<noteq> 0
                  then e\<lparr>DIRECTED_RX_COUNT := DIRECTED_RX_COUNT e + 1\<rparr> else e);
            e2 = (if crc_ok then e1\<lparr>GOOD_CRC_COUNT := GOOD_CRC_COUNT e1 + 1\<rparr>
                  else e1\<lparr>BAD_CRC_COUNT := BAD_CRC_COUNT e1 + 1,
                          BAD_REAL_COUNT := (if length frame > 5 then BAD_REAL_COUNT e1 + 1
                                             else BAD_REAL_COUNT e1)\<rparr>);
            reply = (if crc_ok then into_frame (auto_reply frame our_node) else None);
            e3 = (if crc_ok \<or> analyzer then push_rx e2 frame crc_ok else e2)
        in (case reply of None \<Rightarrow> e3 | Some reply_frame \<Rightarrow> e3\<lparr>rx_pending := Some (reply_frame, now)\<rparr>))"

definition rx_send_pending :: "micros \<Rightarrow> RxEngine \<Rightarrow> RxEngine" where
  "rx_send_pending now e =
     (case rx_pending e of
        None \<Rightarrow> e
      | Some (frame, since) \<Rightarrow>
          (let e' = e\<lparr>rx_pending := None\<rparr>
           in if now - since > REPLY_WINDOW_US then e'\<lparr>AUTOREPLY_LATE := AUTOREPLY_LATE e' + 1\<rparr>
              else e'\<lparr>rx_sent := rx_sent e' @ [frame], AUTOREPLY_COUNT := AUTOREPLY_COUNT e' + 1\<rparr>))"

definition rx_expire_pending :: "micros \<Rightarrow> RxEngine \<Rightarrow> RxEngine" where
  "rx_expire_pending now e =
     (case rx_pending e of
        None \<Rightarrow> e
      | Some (frame, since) \<Rightarrow>
          (if now - since > REPLY_WINDOW_US
           then e\<lparr>rx_pending := None, AUTOREPLY_LATE := AUTOREPLY_LATE e + 1\<rparr> else e))"

definition rx_flag :: "bool \<Rightarrow> micros \<Rightarrow> RxEngine \<Rightarrow> RxEngine" where
  "rx_flag analyzer now e =
     (case fa_feed_flag (rx_assembler e) of
        (Some FrameEnd, a) \<Rightarrow>
          (let e' = rx_frame_end analyzer now (e\<lparr>rx_assembler := a\<rparr>)
           in e'\<lparr>rx_assembler := fa_ack_frame_end (rx_assembler e')\<rparr>)
      | (_, a) \<Rightarrow> e\<lparr>rx_assembler := a\<rparr>)"

definition rx_feed_bit :: "bool \<Rightarrow> micros \<Rightarrow> RxEngine \<Rightarrow> u8 \<Rightarrow> RxEngine" where
  "rx_feed_bit analyzer now e b =
     (case feed_bit (rx_unstuffer e) b of
        (ev, u) \<Rightarrow>
          (let e1 = e\<lparr>rx_unstuffer := u\<rparr> in
           case ev of
             UByte x \<Rightarrow> e1\<lparr>rx_assembler := snd (fa_feed_byte (rx_assembler e1) x)\<rparr>
           | UFlag \<Rightarrow> rx_flag analyzer now e1
           | UAbort \<Rightarrow> e1\<lparr>rx_assembler := snd (fa_feed_abort (rx_assembler e1)),
                        rx_unstuffer := bu_reset (rx_unstuffer e1)\<rparr>
           | UNone \<Rightarrow> e1))"

definition rx_feed :: "bool \<Rightarrow> RxEngine \<Rightarrow> micros \<times> u32 \<Rightarrow> RxEngine" where
  "rx_feed analyzer e nw =
     (let (now, word) = nw in
      if word = FRAME_END_MARKER
      then
        (let e1 = rx_flag analyzer now e;
             e2 = e1\<lparr>rx_unstuffer := bu_reset (rx_unstuffer e1),
                     rx_assembler := snd (fa_feed_abort (rx_assembler e1))\<rparr>
         in rx_send_pending now e2)
      else foldl (rx_feed_bit analyzer now) e (byte_bits (ucast (drop_bit 24 word AND 0xFF))))"

definition rx_service :: "bool \<Rightarrow> RxEngine \<Rightarrow> (micros \<times> u32) list \<Rightarrow> micros \<Rightarrow> RxEngine" where
  "rx_service analyzer e words now = rx_expire_pending now (foldl (rx_feed analyzer) e words)"

section \<open>The bits of a PIO byte\<close>

text \<open>The word the PIO pushes for eight decoded bits.\<close>

definition pio_word :: "u8 \<Rightarrow> u32" where
  "pio_word b = push_bit 24 (ucast b)"

lemma pio_word_marker: "pio_word b \<noteq> FRAME_END_MARKER"
proof
  assume "pio_word b = FRAME_END_MARKER"
  then have "bit (pio_word b) 0 = bit FRAME_END_MARKER 0" by simp
  then show False by (simp add: pio_word_def FRAME_END_MARKER_def bit_simps)
qed

lemma pio_word_byte: "ucast (drop_bit 24 (pio_word b) AND 0xFF) = b"
proof (rule bit_word_eqI)
  fix n assume "n < LENGTH(8)"
  then have "bit (0xFF :: u32) n" by (auto simp: less_Suc_eq numeral_eq_Suc)
  with \<open>n < LENGTH(8)\<close> show "bit (ucast (drop_bit 24 (pio_word b) AND 0xFF) :: u8) n = bit b n"
    by (simp add: pio_word_def bit_simps)
qed

lemma rx_feed_pio:
  "rx_feed an e (now, pio_word b) = foldl (rx_feed_bit an now) e (byte_bits b)"
  by (simp add: rx_feed_def pio_word_marker pio_word_byte)

lemma rx_feed_bytes:
  "foldl (rx_feed an) e (map (\<lambda>b. (now, pio_word b)) bs) = foldl (rx_feed_bit an now) e (bits_of bs)"
  by (induction bs arbitrary: e) (simp_all add: rx_feed_pio bits_of_Cons)

section \<open>The engine follows the unstuffer\<close>

text \<open>What the engine does with one event, the unstuffer apart.\<close>

definition rx_event :: "bool \<Rightarrow> micros \<Rightarrow> RxEngine \<Rightarrow> UnstuffEvent \<Rightarrow> RxEngine" where
  "rx_event an now e ev =
     (case ev of
        UByte x \<Rightarrow> e\<lparr>rx_assembler := snd (fa_feed_byte (rx_assembler e) x)\<rparr>
      | UFlag \<Rightarrow> rx_flag an now e
      | UAbort \<Rightarrow> e\<lparr>rx_assembler := snd (fa_feed_abort (rx_assembler e))\<rparr>
      | UNone \<Rightarrow> e)"

lemma push_rx_unstuffer [simp]:
  "push_rx (e\<lparr>rx_unstuffer := u\<rparr>) f ok = (push_rx e f ok)\<lparr>rx_unstuffer := u\<rparr>"
  "rx_unstuffer (push_rx e f ok) = rx_unstuffer e"
  by (simp_all add: push_rx_def)

lemma rx_frame_end_unstuffer [simp]:
  "rx_frame_end an now (e\<lparr>rx_unstuffer := u\<rparr>) = (rx_frame_end an now e)\<lparr>rx_unstuffer := u\<rparr>"
proof (cases "into_frame (auto_reply (fa_current (rx_assembler e)) (rx_our_node e))")
  case None
  then show ?thesis by (cases "frame_crc_ok (fa_current (rx_assembler e))")
      (simp_all add: rx_frame_end_def push_rx_def Let_def)
next
  case (Some r)
  then show ?thesis by (cases "frame_crc_ok (fa_current (rx_assembler e))")
      (simp_all add: rx_frame_end_def push_rx_def Let_def)
qed

lemma rx_upd_unstuffer [simp]:
  "rx_flag an now (e\<lparr>rx_unstuffer := u\<rparr>) = (rx_flag an now e)\<lparr>rx_unstuffer := u\<rparr>"
proof -
  have swap: "e\<lparr>rx_unstuffer := u, rx_assembler := a\<rparr> = e\<lparr>rx_assembler := a, rx_unstuffer := u\<rparr>" for a
    by simp
  show ?thesis
    by (cases "fa_feed_flag (rx_assembler e)")
      (simp add: rx_flag_def swap Let_def split: option.splits AsmEvent.splits)
qed

lemma rx_event_unstuffer:
  "rx_event an now (e\<lparr>rx_unstuffer := u\<rparr>) ev = (rx_event an now e ev)\<lparr>rx_unstuffer := u\<rparr>"
  by (simp add: rx_event_def split: UnstuffEvent.splits)

lemma rx_flag_unstuffer [simp]: "rx_unstuffer (rx_flag an now e) = rx_unstuffer e"
proof -
  have "e\<lparr>rx_unstuffer := rx_unstuffer e\<rparr> = e" by (cases e) simp
  with rx_upd_unstuffer [of an now "rx_unstuffer e" e]
  have "rx_unstuffer (rx_flag an now e) = rx_unstuffer ((rx_flag an now e)\<lparr>rx_unstuffer := rx_unstuffer e\<rparr>)"
    by simp
  then show ?thesis by simp
qed

lemma feed_bit_abort_reset: "feed_bit u b = (UAbort, u') \<Longrightarrow> bu_reset u' = u'"
  by (auto simp: feed_bit_def bu_reset_def Let_def split: if_splits)

text \<open>The reset after an abort does nothing: the unstuffer has already reset itself.\<close>

lemma rx_feed_bit_event:
  "rx_feed_bit an now e b =
    (rx_event an now e (fst (feed_bit (rx_unstuffer e) b)))\<lparr>rx_unstuffer := snd (feed_bit (rx_unstuffer e) b)\<rparr>"
proof (cases "feed_bit (rx_unstuffer e) b")
  case (Pair ev u)
  with feed_bit_abort_reset [of "rx_unstuffer e" b u] show ?thesis
    by (cases ev) (simp_all add: rx_feed_bit_def rx_event_def Let_def)
qed

lemma rx_event_UNone [simp]: "rx_event an now e UNone = e"
  by (simp add: rx_event_def)

lemma rx_unstuffer_event: "rx_unstuffer (rx_event an now e ev) = rx_unstuffer e"
  by (simp add: rx_event_def rx_flag_unstuffer split: UnstuffEvent.splits)

lemma rx_fold_event_unstuffer:
  "foldl (rx_event an now) (e\<lparr>rx_unstuffer := u\<rparr>) evs = (foldl (rx_event an now) e evs)\<lparr>rx_unstuffer := u\<rparr>"
  by (induction evs arbitrary: e) (simp_all add: rx_event_unstuffer)

lemma rx_feed_bits_events:
  "foldl (rx_feed_bit an now) e bs =
    (foldl (rx_event an now) e (fst (feed_bits (rx_unstuffer e) bs)))
      \<lparr>rx_unstuffer := snd (feed_bits (rx_unstuffer e) bs)\<rparr>"
proof (induction bs arbitrary: e)
  case (Cons b bs)
  let ?e = "rx_event an now e (fst (feed_bit (rx_unstuffer e) b))" and ?u = "snd (feed_bit (rx_unstuffer e) b)"
  from Cons [of "?e\<lparr>rx_unstuffer := ?u\<rparr>"] show ?case
    by (simp add: rx_feed_bit_event rx_fold_event_unstuffer split: prod.splits)
qed simp

section \<open>One frame through the engine\<close>

text \<open>What follows the body of a frame: the closing flag and the abort run, cut anywhere.\<close>

definition frame_tail :: "nat \<Rightarrow> u8 list" where
  "frame_tail k = take k (byte_bits FLAG @ replicate 16 1)"

lemma feed_zero: "j < 5 \<Longrightarrow> feed_bit (aligned 0 0 j) 0 = (UNone, aligned 1 0 0)"
  by (simp add: feed_bit_def)

lemma feed_flag_rest:
  "k < 7 \<Longrightarrow> fst (feed_bits (aligned 1 0 0) (take k [1, 1, 1, 1, 1, 1, 0])) = []"
  by (simp add: less_Suc_eq numeral_eq_Suc, elim disjE) (simp_all add: feed_bit_def Let_def)

lemma feed_ones:
  "k \<le> 16 \<Longrightarrow> fst (feed_bits (aligned 0 0 0) (replicate k 1)) \<in> {[], [UAbort], [UAbort, UAbort]}"
  by (simp add: le_Suc_eq numeral_eq_Suc, elim disjE) (simp_all add: feed_bit_def Let_def)

lemma frame_tail_split:
  "k \<le> 24 \<Longrightarrow> frame_tail k = (if k < 8 then take k (byte_bits FLAG) else byte_bits FLAG @ replicate (k - 8) 1)"
  by (auto simp: frame_tail_def)

lemma feed_frame_tail:
  assumes "k \<le> 24" and "j < 5"
  shows "fst (feed_bits (aligned 0 0 j) (frame_tail k)) \<in> {[], [UFlag], [UFlag, UAbort], [UFlag, UAbort, UAbort]}"
proof (cases "k < 8")
  case True
  show ?thesis
  proof (cases k)
    case (Suc k')
    from True have "frame_tail k = take k (byte_bits FLAG)" by (simp add: frame_tail_def)
    with Suc have "frame_tail k = 0 # take k' [1, 1, 1, 1, 1, 1, 0]" by (simp add: flag_bits)
    with feed_flag_rest [of k'] True Suc feed_zero [OF assms(2)] show ?thesis
      by (auto split: prod.splits)
  qed (simp add: frame_tail_def)
next
  case False
  with assms(1) have "k - 8 \<le> 16" by simp
  with feed_ones [OF this] feed_flag_bits [OF assms(2)] False assms(1) show ?thesis
    by (auto simp: frame_tail_split feed_bits_append split: prod.splits)
qed

lemma rx_events_bytes:
  assumes "fa_state (rx_assembler e) = InFrame"
    and "length (fa_current (rx_assembler e)) + length bs \<le> MAX_FRAME_LEN"
  shows "foldl (rx_event an now) e (map UByte bs)
    = e\<lparr>rx_assembler := \<lparr>fa_state = InFrame, fa_current = fa_current (rx_assembler e) @ bs\<rparr>\<rparr>"
  using assms
proof (induction bs arbitrary: e)
  case Nil
  then show ?case by (cases e; cases "rx_assembler e") simp
next
  case (Cons b bs)
  then show ?case by (simp add: rx_event_def fa_feed_byte_def)
qed

lemma rx_flag_open:
  "rx_assembler e = fa_new \<Longrightarrow> rx_flag an now e = e\<lparr>rx_assembler := \<lparr>fa_state = InFrame, fa_current = []\<rparr>\<rparr>"
  by (simp add: rx_flag_def fa_feed_flag_def fa_new_def)

lemma rx_flag_again:
  "rx_assembler e = \<lparr>fa_state = InFrame, fa_current = []\<rparr> \<Longrightarrow> rx_flag an now e = e"
  by (cases e) (simp add: rx_flag_def fa_feed_flag_def)

lemma rx_flag_close:
  assumes "rx_assembler e = \<lparr>fa_state = InFrame, fa_current = f\<rparr>" and "f \<noteq> []"
  shows "rx_flag an now e = (rx_frame_end an now e)\<lparr>rx_assembler := fa_ack_frame_end (rx_assembler (rx_frame_end an now e))\<rparr>"
  using assms by (cases e) (simp add: rx_flag_def fa_feed_flag_def Let_def)

lemma push_rx_fields [simp]:
  "rx_pending (push_rx e f ok) = rx_pending e" "rx_sent (push_rx e f ok) = rx_sent e"
  "rx_assembler (push_rx e f ok) = rx_assembler e"
  by (simp_all add: push_rx_def)

text \<open>The effect of a frame end that the rest of the system sees.\<close>

definition echo :: "RxEngine \<Rightarrow> bytes \<Rightarrow> bool" where
  "echo e f \<longleftrightarrow> f ! 1 = rx_our_node e \<and> rx_our_node e \<noteq> 0"

definition accepted :: "RxEngine \<Rightarrow> bytes \<Rightarrow> RxSlot list" where
  "accepted e f = (if frame_crc_ok f \<and> \<not> echo e f then [\<lparr>slot_frame = f, slot_crc_ok = True\<rparr>] else [])"

definition answer :: "RxEngine \<Rightarrow> bytes \<Rightarrow> bytes option" where
  "answer e f = (if echo e f then None else into_frame (auto_reply f (rx_our_node e)))"

lemma reply_crc: "\<not> frame_crc_ok f \<Longrightarrow> into_frame (auto_reply f n) = None"
  by (simp add: auto_reply_def into_frame_def)

lemma rx_frame_end_effect:
  assumes "rx_assembler e = \<lparr>fa_state = InFrame, fa_current = f\<rparr>" and "5 \<le> length f"
    and "length f \<le> MAX_FRAME_LEN" and "length (rx_slots e) < RX_SLOT_COUNT"
  shows "rx_slots (rx_frame_end False now e) = rx_slots e @ accepted e f"
    and "rx_pending (rx_frame_end False now e)
      = (case answer e f of None \<Rightarrow> rx_pending e | Some r \<Rightarrow> Some (r, now))"
    and "rx_sent (rx_frame_end False now e) = rx_sent e"
    and "rx_assembler (rx_frame_end False now e) = rx_assembler e"
proof -
  have f: "fa_current (rx_assembler e) = f" "f \<noteq> []" "2 \<le> length f" using assms(1,2) by auto
  note defs = rx_frame_end_def Let_def f accepted_def answer_def echo_def
  show "rx_sent (rx_frame_end False now e) = rx_sent e"
    by (simp add: defs split: option.splits)
  show "rx_assembler (rx_frame_end False now e) = rx_assembler e"
    by (simp add: defs split: option.splits)
  show "rx_pending (rx_frame_end False now e)
      = (case answer e f of None \<Rightarrow> rx_pending e | Some r \<Rightarrow> Some (r, now))"
    using reply_crc [of f "rx_our_node e"] by (simp add: defs split: option.splits)
  show "rx_slots (rx_frame_end False now e) = rx_slots e @ accepted e f"
    using assms(3,4) reply_crc [of f "rx_our_node e"] by (simp add: defs push_rx_def split: option.splits)
qed

lemma abort_new: "snd (fa_feed_abort a) = fa_new"
  by (cases a) (simp add: fa_feed_abort_def fa_new_def)

lemma reset_new: "bu_reset u = bu_new"
  by (cases u) (simp add: bu_reset_def bu_new_def)

lemma rx_abort: "rx_event an now e UAbort = e\<lparr>rx_assembler := fa_new\<rparr>"
  by (simp add: rx_event_def abort_new)

text \<open>The marker that the PIO pushes when the line goes quiet, after the frame's events.\<close>

definition rx_marker :: "micros \<Rightarrow> RxEngine \<Rightarrow> RxEngine" where
  "rx_marker now e = rx_feed False e (now, FRAME_END_MARKER)"

lemma rx_marker_eq:
  "rx_marker now e = rx_send_pending now
     ((rx_flag False now e)\<lparr>rx_unstuffer := bu_new, rx_assembler := fa_new\<rparr>)"
  by (simp add: rx_marker_def rx_feed_def abort_new reset_new)

lemma rx_marker_quiet:
  assumes "fa_current (rx_assembler e) = []"
  shows "rx_marker now e = rx_send_pending now (e\<lparr>rx_unstuffer := bu_new, rx_assembler := fa_new\<rparr>)"
proof -
  have "e = e\<lparr>rx_assembler := rx_assembler e\<rparr>" by (cases e) simp
  then have "\<exists>a. e = e\<lparr>rx_assembler := a\<rparr>" by (rule exI)
  then have "\<exists>a. rx_flag False now e = e\<lparr>rx_assembler := a\<rparr>"
    using assms by (auto simp: rx_flag_def fa_feed_flag_def split: AsmState.splits)
  then obtain a where "rx_flag False now e = e\<lparr>rx_assembler := a\<rparr>" ..
  then show ?thesis by (simp add: rx_marker_eq)
qed

lemma rx_send_pending_effect:
  "rx_slots (rx_send_pending now e) = rx_slots e"
  "rx_pending (rx_send_pending now e) = None"
  "rx_assembler (rx_send_pending now e) = rx_assembler e"
  "rx_unstuffer (rx_send_pending now e) = rx_unstuffer e"
  "rx_sent (rx_send_pending now e) = rx_sent e @
     (case rx_pending e of Some (r, since) \<Rightarrow> if now - since \<le> REPLY_WINDOW_US then [r] else [] | None \<Rightarrow> [])"
  by (auto simp: rx_send_pending_def Let_def split: option.splits)

lemma rx_tail:
  assumes close: "rx_flag False t e = E\<lparr>rx_assembler := \<lparr>fa_state = InFrame, fa_current = []\<rparr>\<rparr>"
    and tail: "tail = [UFlag] \<or> tail = [UFlag, UAbort] \<or> tail = [UFlag, UAbort, UAbort]"
  shows "\<exists>a. fa_current a = [] \<and> foldl (rx_event False t) e tail = E\<lparr>rx_assembler := a\<rparr>"
proof -
  have flag: "rx_event False t e UFlag = E\<lparr>rx_assembler := \<lparr>fa_state = InFrame, fa_current = []\<rparr>\<rparr>"
    using close by (simp add: rx_event_def)
  show ?thesis
  proof (cases "tail = [UFlag]")
    case True
    with flag show ?thesis
      by (intro exI [of _ "\<lparr>fa_state = InFrame, fa_current = []\<rparr>"]) simp
  next
    case False
    with tail have "tail = [UFlag, UAbort] \<or> tail = [UFlag, UAbort, UAbort]" by blast
    with flag have "foldl (rx_event False t) e tail = E\<lparr>rx_assembler := fa_new\<rparr>"
      by (elim disjE) (simp_all add: rx_abort)
    then show ?thesis by (intro exI [of _ fa_new]) (simp add: fa_new_def)
  qed
qed

text \<open>The events of one framed frame, from an idle engine to the marker.\<close>

lemma rx_events_frame:
  assumes "rx_assembler e = fa_new" and "rx_pending e = None" and "5 \<le> length f"
    and "length f \<le> MAX_FRAME_LEN" and "length (rx_slots e) < RX_SLOT_COUNT"
    and "t2 - t1 \<le> REPLY_WINDOW_US"
    and tail: "tail \<in> {[], [UFlag], [UFlag, UAbort], [UFlag, UAbort, UAbort]}"
    and e': "e' = rx_marker t2 ((foldl (rx_event False t1) e ([UFlag, UFlag] @ map UByte f @ tail))\<lparr>rx_unstuffer := u\<rparr>)"
  shows "rx_slots e' = rx_slots e @ accepted e f"
    and "rx_sent e' = rx_sent e @ (case answer e f of None \<Rightarrow> [] | Some r \<Rightarrow> [r])"
    and "rx_pending e' = None \<and> rx_assembler e' = fa_new \<and> rx_unstuffer e' = bu_new"
proof -
  let ?e1 = "e\<lparr>rx_assembler := \<lparr>fa_state = InFrame, fa_current = f\<rparr>\<rparr>"
  have open_: "foldl (rx_event False t1) e ([UFlag, UFlag] @ map UByte f) = ?e1"
    using assms(1,4) by (simp add: rx_event_def [of _ _ _ UFlag] rx_flag_open rx_flag_again rx_events_bytes)
  have acc: "accepted ?e1 f = accepted e f" "answer ?e1 f = answer e f"
    by (simp_all add: accepted_def answer_def echo_def)
  have fe: "rx_slots (rx_frame_end False t ?e1) = rx_slots e @ accepted e f"
    "rx_pending (rx_frame_end False t ?e1) = (case answer e f of None \<Rightarrow> None | Some r \<Rightarrow> Some (r, t))"
    "rx_sent (rx_frame_end False t ?e1) = rx_sent e"
    "fa_ack_frame_end (rx_assembler (rx_frame_end False t ?e1)) = \<lparr>fa_state = InFrame, fa_current = []\<rparr>" for t
    using rx_frame_end_effect [of ?e1 f t] assms(2-5) acc
    by (auto simp: fa_ack_frame_end_def split: option.splits)
  have close: "rx_flag False t ?e1 = (rx_frame_end False t ?e1)\<lparr>rx_assembler := \<lparr>fa_state = InFrame, fa_current = []\<rparr>\<rparr>" for t
    proof -
    have "f \<noteq> []" using assms(3) by auto
    with rx_flag_close [of ?e1 f False t] fe(4) [of t] show ?thesis by simp
  qed
  let ?fin = "\<lambda>t. rx_send_pending t2 ((rx_frame_end False t ?e1)\<lparr>rx_unstuffer := bu_new, rx_assembler := fa_new\<rparr>)"
  have "\<exists>t. (t = t1 \<or> t = t2) \<and> e' = ?fin t"
  proof (cases "tail = []")
    case True
    then have "e' = rx_marker t2 (?e1\<lparr>rx_unstuffer := u\<rparr>)" using e' open_ by simp
    then have "e' = rx_send_pending t2 ((rx_frame_end False t2 ?e1)\<lparr>rx_unstuffer := bu_new, rx_assembler := fa_new\<rparr>)"
      by (simp only: rx_marker_eq rx_upd_unstuffer close) simp
    then show ?thesis by (intro exI [of _ t2] conjI disjI2 refl)
  next
    case False
    let ?e2 = "foldl (rx_event False t1) ?e1 tail"
    from tail False have "tail = [UFlag] \<or> tail = [UFlag, UAbort] \<or> tail = [UFlag, UAbort, UAbort]"
      by simp
    from rx_tail [OF close [of t1] this] obtain a where
      a: "fa_current a = []" "?e2 = (rx_frame_end False t1 ?e1)\<lparr>rx_assembler := a\<rparr>"
      by (elim exE conjE) (rule that)
    have "e' = rx_marker t2 (?e2\<lparr>rx_unstuffer := u\<rparr>)"
      by (simp only: e' append_assoc [symmetric] foldl_append) (simp only: open_ [simplified foldl_append] foldl_append)
    with a have "e' = rx_send_pending t2 ((rx_frame_end False t1 ?e1)\<lparr>rx_unstuffer := bu_new, rx_assembler := fa_new\<rparr>)"
      by (simp add: rx_marker_quiet)
    then show ?thesis by (intro exI [of _ t1] conjI disjI1 refl)
  qed
  then obtain t where t: "t = t1 \<or> t = t2" "e' = ?fin t"
    by (elim exE conjE) (rule that)
  have "t2 - t \<le> REPLY_WINDOW_US" using t(1) assms(6) by auto
  then show "rx_slots e' = rx_slots e @ accepted e f"
    and "rx_sent e' = rx_sent e @ (case answer e f of None \<Rightarrow> [] | Some r \<Rightarrow> [r])"
    and "rx_pending e' = None \<and> rx_assembler e' = fa_new \<and> rx_unstuffer e' = bu_new"
    using fe [of t] unfolding t(2) by (simp_all add: rx_send_pending_effect split: option.splits)
qed

section \<open>Properties\<close>

text \<open>Claim C22. Receive path end to end: when the PIO words carry a frame as the framer sends
  it, with the closing flag and abort run cut anywhere (even before the closing flag is
  complete), and the end-of-frame marker follows, the engine queues exactly that frame once if
  its FCS is valid and it is not this node's own echo, sends exactly the automatic reply the
  frame calls for provided the line fell quiet within the reply window, and is idle again.\<close>

theorem rx_engine_delivers_frame:
  assumes "bits_of ws = byte_bits FLAG @ byte_bits FLAG @ stuff_list 0 (bits_of frame) @ frame_tail k"
    and "k \<le> 24" and "5 \<le> length frame" and "length frame \<le> MAX_FRAME_LEN"
    and "rx_unstuffer e = bu_new" and "rx_assembler e = fa_new" and "rx_pending e = None"
    and "length (rx_slots e) < RX_SLOT_COUNT" and "t2 - t1 \<le> REPLY_WINDOW_US"
    and "e' = foldl (rx_feed False) e (map (\<lambda>b. (t1, pio_word b)) ws @ [(t2, FRAME_END_MARKER)])"
  shows "rx_slots e' = rx_slots e @ accepted e frame
    \<and> rx_sent e' = rx_sent e @ (case answer e frame of None \<Rightarrow> [] | Some r \<Rightarrow> [r])
    \<and> rx_pending e' = None \<and> rx_assembler e' = fa_new \<and> rx_unstuffer e' = bu_new"
proof -
  let ?j = "ones_after 0 (bits_of frame)"
  obtain tail u where tail: "feed_bits (aligned 0 0 ?j) (frame_tail k) = (tail, u)"
    by (cases "feed_bits (aligned 0 0 ?j) (frame_tail k)")
  have t: "tail \<in> {[], [UFlag], [UFlag, UAbort], [UFlag, UAbort, UAbort]}"
    using feed_frame_tail [OF assms(2) ones_after_less [of 0 "bits_of frame"]] tail by simp
  have "feed_bits bu_new (bits_of ws) = ([UFlag, UFlag] @ map UByte frame @ tail, u)"
    using assms(1) tail feed_stuffed_bytes [of 0 frame] feed_flag_bits [of 0]
    by (simp add: feed_bits_append bu_new_def)
  note ev = this
  have foldw: "foldl (rx_feed False) e (map (\<lambda>b. (t1, pio_word b)) ws)
      = (foldl (rx_event False t1) e ([UFlag, UFlag] @ map UByte frame @ tail))\<lparr>rx_unstuffer := u\<rparr>"
    by (simp only: rx_feed_bytes rx_feed_bits_events assms(5) ev fst_conv snd_conv)
  have "e' = rx_marker t2
      ((foldl (rx_event False t1) e ([UFlag, UFlag] @ map UByte frame @ tail))\<lparr>rx_unstuffer := u\<rparr>)"
    by (simp only: assms(10) foldl_append foldw rx_marker_def foldl.simps)
  from rx_events_frame [OF assms(6,7,3,4,8,9) t this] show ?thesis by blast
qed

definition sample_enq :: bytes where
  "sample_enq = [1, 2, 0x81, 0x21, 0x3A]"

lemma sample_enq_bits: "stuff_list 0 (bits_of sample_enq) = bits_of sample_enq"
  by (simp add: sample_enq_def bits_of_def byte_bits_from_def upt_rec)

lemma sample_enq_words:
  "bits_of ([FLAG, FLAG] @ sample_enq @ [FLAG]) =
     byte_bits FLAG @ byte_bits FLAG @ stuff_list 0 (bits_of sample_enq) @ frame_tail 8"
  unfolding sample_enq_bits by (simp add: bits_of_def frame_tail_def)

lemma sample_enq_with_crc: "sample_enq = with_crc [1, 2, ENQ]"
  by (simp add: sample_enq_def with_crc_def lt_crc_def Let_def crc_byte1_def crc_byte2_def
    crc_feed_byte_eq crc_ref_byte_def crc_serial_unfold crc_shift_def crc_new_def ENQ_def)

theorem rx_engine_delivers_frame_witness:
  "rx_slots (foldl (rx_feed False) (rx_new\<lparr>rx_our_node := 1\<rparr>)
     (map (\<lambda>b. (10, pio_word b)) ([FLAG, FLAG] @ sample_enq @ [FLAG]) @ [(90, FRAME_END_MARKER)]))
   = [\<lparr>slot_frame = sample_enq, slot_crc_ok = True\<rparr>]
   \<and> rx_sent (foldl (rx_feed False) (rx_new\<lparr>rx_our_node := 1\<rparr>)
     (map (\<lambda>b. (10, pio_word b)) ([FLAG, FLAG] @ sample_enq @ [FLAG]) @ [(90, FRAME_END_MARKER)]))
   = [with_crc [1, 1, ACK]]"
proof -
  let ?e = "rx_new\<lparr>rx_our_node := 1\<rparr>"
  have crc: "frame_crc_ok sample_enq"
    by (simp add: sample_enq_with_crc)
  have acc: "accepted ?e sample_enq = [\<lparr>slot_frame = sample_enq, slot_crc_ok = True\<rparr>]"
    by (simp add: accepted_def echo_def crc) (simp add: sample_enq_def rx_new_def)
  have ans: "answer ?e sample_enq = Some (with_crc [1, 1, ACK])"
    using crc by (simp add: answer_def echo_def auto_reply_def into_frame_def compose_with_crc)
      (simp add: sample_enq_def rx_new_def ENQ_def into_frame_def compose_with_crc)
  have len: "5 \<le> length sample_enq" "length sample_enq \<le> MAX_FRAME_LEN"
    by (simp_all add: sample_enq_def MAX_FRAME_LEN_def)
  have init: "rx_unstuffer ?e = bu_new" "rx_assembler ?e = fa_new" "rx_pending ?e = None"
    "length (rx_slots ?e) < RX_SLOT_COUNT" "rx_slots ?e = []" "rx_sent ?e = []"
    by (simp_all add: rx_new_def RX_SLOT_COUNT_def)
  have "8 \<le> (24 :: nat)" "(90 :: micros) - 10 \<le> REPLY_WINDOW_US"
    by (simp_all add: REPLY_WINDOW_US_def)
  from rx_engine_delivers_frame [OF sample_enq_words this(1) len init(1-4) this(2) refl]
  show ?thesis by (simp only: acc ans init option.case append_Nil simp_thms)
qed

end
