(* ===== verification/LT_Phy.thy ===== *)
theory LT_Phy
  imports LT_Hdlc LT_Llap
begin

text \<open>
  The transmit pipeline against the software receive pipeline of the localtalk crate: a frame
  is framed (hdlc.rs), FM-0 encoded and sampled with jitter (fm0.rs), then decoded back to
  events. The trailing ones are followed through both losses of synchronisation they cause.
\<close>

lemma wire_append:
  "length ks1 = 2 * length bs1 \<Longrightarrow>
   wire l (bs1 @ bs2) (ks1 @ ks2) = wire l bs1 ks1 @ wire (line_level l bs1) bs2 ks2"
  by (induction l bs1 ks1 rule: wire.induct) (simp_all add: line_level_def)

text \<open>A run of eight ones ends in an abort, when the run's start finds the unstuffer reset.\<close>

abbreviation ones :: "nat \<Rightarrow> u8 list" where
  "ones n \<equiv> replicate n 1"

lemma ones_events: "fst (feed_bits (aligned 0 0 0) (ones 6)) = []"
  "fst (feed_bit (snd (feed_bits (aligned 0 0 0) (ones 6))) 1) = UAbort"
  by (simp_all add: numeral_eq_Suc feed_bit_def Let_def)

lemma bu_reset_eq: "bu_reset u = aligned 0 0 0"
  by (cases u) (simp add: bu_reset_def)

lemma split_ks:
  assumes "length ks = 2 * (m + n)" and "set ks \<subseteq> {3..5}"
  obtains ks1 ks2 where "ks = ks1 @ ks2" "length ks1 = 2 * m" "length ks2 = 2 * n"
    "set ks1 \<subseteq> {3..5}" "set ks2 \<subseteq> {3..5}"
  using assms that [of "take (2 * m) ks" "drop (2 * m) ks"]
  by (auto dest: in_set_takeD in_set_dropD)

text \<open>The abort cell after a pending sixth-plus one.\<close>

lemma abort_cell:
  assumes "pending l 1 u d" and "length ks = 2 * 1" and "set ks \<subseteq> {3..5}"
    and "fst (feed_bit u 1) = UAbort"
  shows "\<exists>k. feed_samples d (wire l (ones 1) ks) = ([FAbort], hunting (line_level l (ones 1)) k (aligned 0 0 0))"
proof -
  from assms(2) have len: "length ks = 2 * length [1 :: u8]" by simp
  from two_holds [OF len] obtain m n ks' where "ks = m # n # ks'" "length ks' = 2 * length ([] :: u8 list)" .
  then have ks: "ks = [m, n]" by simp
  with assms(3) have h: "hold_ok m" "hold_ok n" by auto
  from cell_abort [OF assms(1) h assms(4)] show ?thesis
    by (simp add: ks line_level_def cell_level_def bu_reset_eq)
qed

text \<open>From a hunting receiver, bits whose unstuffing ends aligned, then eight ones.\<close>

lemma run_then_abort:
  assumes ev: "feed_bits u bits = (evs, aligned 0 0 0)" and na: "UAbort \<notin> set evs"
    and bits: "set bits \<subseteq> {0, 1}"
    and ks: "length ks = 2 * (length bits + 8)" "set ks \<subseteq> {3..5}"
  shows "\<exists>k. feed_samples (hunting l j u) (wire l (bits @ ones 8) ks)
    = (concat (map Fm0_ev evs) @ [FAbort], hunting (line_level l (bits @ ones 8)) k (aligned 0 0 0))"
proof -
  have all: "bits @ ones 8 = (bits @ ones 7) @ ones 1"
    by (simp only: append_assoc replicate_add [symmetric]) simp
  have "length ks = 2 * (length (bits @ ones 7) + 1)" using ks(1) by simp
  from split_ks [OF this ks(2)] obtain ks1 ks2 where
    k: "ks = ks1 @ ks2" "length ks1 = 2 * length (bits @ ones 7)" "length ks2 = 2 * 1"
      "set ks1 \<subseteq> {3..5}" "set ks2 \<subseteq> {3..5}" .
  have seven: "ones 7 = ones 6 @ [1]" by (simp add: numeral_eq_Suc)
  have bl: "butlast (bits @ ones 7) = bits @ ones 6" "last (bits @ ones 7) = 1"
    unfolding seven by (simp_all add: butlast_append)
  let ?u = "snd (feed_bits (aligned 0 0 0) (ones 6))"
  have fb: "feed_bits u (butlast (bits @ ones 7)) = (evs, ?u)"
    unfolding bl using ev ones_events(1)
    by (cases "feed_bits (aligned 0 0 0) (ones 6)") (simp add: feed_bits_append)
  obtain b bs where bb: "bits @ ones 7 = b # bs" by (cases "bits @ ones 7") auto
  have "set (bits @ ones 7) \<subseteq> {0, 1}" using bits by auto
  with k(2,4) na fb have pre: "length ks1 = 2 * length (b # bs)" "set ks1 \<subseteq> {3..5}" "set (b # bs) \<subseteq> {0, 1}"
    "UAbort \<notin> set (fst (feed_bits u (butlast (b # bs))))"
    unfolding bb by simp_all
  from first_run [OF pre, of l j] fb bl(2) obtain d1 where
    d1: "feed_samples (hunting l j u) (wire l (bits @ ones 7) ks1) = (concat (map Fm0_ev evs), d1)"
      "pending (line_level l (bits @ ones 7)) 1 ?u d1"
    unfolding bb by auto
  from abort_cell [OF d1(2) k(3,5) ones_events(2)] obtain n where
    d2: "feed_samples d1 (wire (line_level l (bits @ ones 7)) (ones 1) ks2)
      = ([FAbort], hunting (line_level (line_level l (bits @ ones 7)) (ones 1)) n (aligned 0 0 0))" by blast
  have lvl: "line_level (line_level l xs) ys = line_level l (xs @ ys)" for l xs ys
    by (simp add: line_level_def)
  from feed_samples_comp [OF d1(1) d2] show ?thesis
    unfolding k(1) all wire_append [OF k(2)] lvl by blast
qed

lemma hdlc_events:
  assumes "5 \<le> length frame"
  shows "feed_bits (aligned 0 0 0) (byte_bits FLAG @ byte_bits FLAG @ stuff_list 0 (bits_of frame) @ byte_bits FLAG)
    = ([UFlag, UFlag] @ map UByte frame @ [UFlag], aligned 0 0 0)"
  using feed_stuffed_bytes [of 0 frame] feed_flag_bits [of 0]
    feed_flag_bits [OF ones_after_less [of 0 "bits_of frame"]]
  by (simp add: feed_bits_append)

section \<open>Properties\<close>

text \<open>Claim C23. Physical layer round trip: every frame of 5 to 605 bytes that the transmit
  pipeline accepts, held on the line for three to five samples per half cell after an idle
  line, comes out of the receiver as two flags, exactly the frame's bytes, the closing flag and
  the two aborts of the abort run; nothing is lost, duplicated or invented.\<close>

theorem phy_roundtrip:
  assumes "build_tx_buffer frame = Some syms" and "0 < idle"
    and "length ks = length syms" and "set ks \<subseteq> {3..5}"
  shows "fst (feed_samples fm0_dec_new (replicate idle 0 @ hold syms ks))
    = [FFlag, FFlag] @ map FByte frame @ [FFlag, FAbort, FAbort]"
proof -
  let ?bits = "byte_bits FLAG @ byte_bits FLAG @ stuff_list 0 (bits_of frame) @ byte_bits FLAG"
  from assms(1) have f: "5 \<le> length frame" "length frame \<le> MAX_FRAME_LEN"
    by (auto simp: build_tx_buffer_eq split: if_splits)
  have h: "hdlc_bits frame = (?bits @ ones 8) @ ([] @ ones 8)"
    by (simp only: hdlc_bits_def append_assoc append_Nil replicate_add [symmetric]) simp
  have cap: "2 * length (hdlc_bits frame) \<le> MAX_FM0_SYMBOLS"
    using length_hdlc_bits [OF f(2)] by (simp add: MAX_FM0_SYMBOLS_def)
  have syms: "syms = symbols (cells False (hdlc_bits frame))"
    using assms(1) f cap by (simp add: build_tx_buffer_eq encode_bits_symbols fm0_enc_new_def)
  have len: "length ks = 2 * length (hdlc_bits frame)" using assms(3) syms by simp
  then have "length ks = 2 * (length (?bits @ ones 8) + 8)" unfolding h by simp
  from split_ks [OF this assms(4)] obtain ks1 ks2 where
    k: "ks = ks1 @ ks2" "length ks1 = 2 * length (?bits @ ones 8)" "length ks2 = 2 * 8"
      "set ks1 \<subseteq> {3..5}" "set ks2 \<subseteq> {3..5}" .
  have set: "set ?bits \<subseteq> {0, 1}" using set_hdlc_bits [of frame] by (auto simp: h)
  from assms(2) obtain i where i: "idle = Suc i" by (cases idle) auto
  have start: "feed_samples fm0_dec_new [0] = ([], hunting False 0 (aligned 0 0 0))"
    by (simp add: feed_sample_def fm0_dec_new_def bu_new_def)
  from feed_samples_comp [OF start] feed_idle [of False 0 "aligned 0 0 0" i] obtain j where
    idle: "feed_samples fm0_dec_new (replicate idle 0) = ([], hunting False j (aligned 0 0 0))"
    unfolding i by fastforce
  have na: "UAbort \<notin> set ([UFlag, UFlag] @ map UByte frame @ [UFlag])" by auto
  have "length ks1 = 2 * (length ?bits + 8)" using k(2) by (simp only: length_append length_replicate)
  from run_then_abort [OF hdlc_events [OF f(1)] na set this k(4), of False j] obtain n where
    r1: "feed_samples (hunting False j (aligned 0 0 0)) (wire False (?bits @ ones 8) ks1)
      = (concat (map Fm0_ev ([UFlag, UFlag] @ map UByte frame @ [UFlag])) @ [FAbort],
         hunting (line_level False (?bits @ ones 8)) n (aligned 0 0 0))"
    by (elim exE) (rule that)
  let ?l = "line_level False (?bits @ ones 8)"
  have "feed_bits (aligned 0 0 0) [] = ([], aligned 0 0 0)" "UAbort \<notin> set []" "set [] \<subseteq> {0, 1 :: u8}"
    "length ks2 = 2 * (length ([] :: u8 list) + 8)"
    using k(3) by simp_all
  from run_then_abort [OF this k(5), of ?l n] obtain m where
    r2: "feed_samples (hunting ?l n (aligned 0 0 0)) (wire ?l ([] @ ones 8) ks2)
      = (concat (map Fm0_ev []) @ [FAbort], hunting (line_level ?l ([] @ ones 8)) m (aligned 0 0 0))"
    by (elim exE) (rule that)
  have w: "hold syms ks = wire False (?bits @ ones 8) ks1 @ wire ?l ([] @ ones 8) ks2"
    by (simp only: syms hold_cells [OF len]) (simp only: h k(1) wire_append [OF k(2)])
  have ev: "concat (map Fm0_ev (map UByte frame)) = map FByte frame"
    by (induction frame) (simp_all add: Fm0_ev_def)
  from feed_samples_comp [OF idle feed_samples_comp [OF r1 r2]] show ?thesis
    by (simp only: w fst_conv map_append concat_append ev) (simp add: Fm0_ev_def)
qed

theorem phy_roundtrip_witness:
  "fst (feed_samples fm0_dec_new (replicate 1 0 @
     hold (the (build_tx_buffer [1, 2, 3, 4, 5]))
       (replicate (length (the (build_tx_buffer [1, 2, 3, 4, 5]))) 5)))
   = [FFlag, FFlag] @ map FByte [1, 2, 3, 4, 5] @ [FFlag, FAbort, FAbort]"
proof (rule phy_roundtrip)
  have "\<exists>syms. build_tx_buffer [1, 2, 3, 4, 5] = Some syms"
    by (simp add: build_tx_buffer_eq MAX_FRAME_LEN_def)
  then show "build_tx_buffer [1, 2, 3, 4, 5] = Some (the (build_tx_buffer [1, 2, 3, 4, 5]))"
    by auto
qed auto

end
