(* ===== verification/LT_Backoff.thy ===== *)
theory LT_Backoff
  imports TT_Prelude
begin

text \<open>
  The CSMA/CA backoff state of src/InkTalk/firmware/localtalk/src/backoff.rs: masks, the two
  eight-bit history registers and the attempt counter, with a step relation over the
  operations a transmitter performs and the invariant all of them keep.
\<close>

section \<open>State and operations\<close>

definition IDG_UNITS :: u8 where "IDG_UNITS = 4"
definition MAX_BACKOFF_MASK :: u8 where "MAX_BACKOFF_MASK = 0x0F"
definition MAX_ATTEMPTS :: u8 where "MAX_ATTEMPTS = 32"

lemmas backoff_consts = IDG_UNITS_def MAX_BACKOFF_MASK_def MAX_ATTEMPTS_def

record BackoffState =
  global_mask :: u8
  local_mask :: u8
  col_history :: u8
  def_history :: u8
  attempts :: u8

definition backoff_new :: BackoffState where
  "backoff_new = \<lparr>global_mask = 0, local_mask = 0, col_history = 0, def_history = 0,
     attempts = MAX_ATTEMPTS\<rparr>"

text \<open>\<open>u8::count_ones\<close>.\<close>

definition count_ones :: "u8 \<Rightarrow> nat" where
  "count_ones w = length (filter (\<lambda>i. bit w i) [0..<8])"

text \<open>\<open>((mask << 1) | 1) & MAX_BACKOFF_MASK\<close>.\<close>

definition grow_mask :: "u8 \<Rightarrow> u8" where
  "grow_mask m = (push_bit 1 m OR 1) AND MAX_BACKOFF_MASK"

definition prep_for_next_frame :: "BackoffState \<Rightarrow> BackoffState" where
  "prep_for_next_frame s =
     (let col_count = count_ones (col_history s);
          def_count = count_ones (def_history s);
          s1 = (if col_count > 2
                then s\<lparr>global_mask := grow_mask (global_mask s), col_history := 0\<rparr> else s);
          s2 = (if def_count < 2
                then s1\<lparr>global_mask := drop_bit 1 (global_mask s1), def_history := 0xFF\<rparr> else s1)
      in s2\<lparr>col_history := push_bit 1 (col_history s2), def_history := push_bit 1 (def_history s2),
            local_mask := global_mask s2 OR 0x03, attempts := MAX_ATTEMPTS\<rparr>)"

definition saturating_add_u8 :: "u8 \<Rightarrow> u8 \<Rightarrow> u8" where
  "saturating_add_u8 x y = (if unat x + unat y < 256 then x + y else 0xFF)"

definition next_backoff_units :: "BackoffState \<Rightarrow> u8 \<Rightarrow> u8" where
  "next_backoff_units s entropy = saturating_add_u8 (entropy AND local_mask s) IDG_UNITS"

definition record_collision :: "BackoffState \<Rightarrow> BackoffState" where
  "record_collision s = s\<lparr>col_history := col_history s OR 1, local_mask := grow_mask (local_mask s)\<rparr>"

definition record_deferral :: "BackoffState \<Rightarrow> BackoffState" where
  "record_deferral s = s\<lparr>def_history := def_history s OR 1, local_mask := local_mask s OR 1\<rparr>"

definition consume_attempt :: "BackoffState \<Rightarrow> u8 \<times> BackoffState" where
  "consume_attempt s =
     (attempts s, if attempts s > 0 then s\<lparr>attempts := attempts s - 1\<rparr> else s)"

definition backoff_exhausted :: "BackoffState \<Rightarrow> bool" where
  "backoff_exhausted s = (attempts s = 0)"

section \<open>The transmitter's steps\<close>

text \<open>Every operation that changes the state, in any order.\<close>

inductive backoff_step :: "BackoffState \<Rightarrow> BackoffState \<Rightarrow> bool" where
  prep: "backoff_step s (prep_for_next_frame s)"
| collision: "backoff_step s (record_collision s)"
| deferral: "backoff_step s (record_deferral s)"
| attempt: "backoff_step s (snd (consume_attempt s))"

inductive backoff_reach :: "BackoffState \<Rightarrow> bool" where
  init: "backoff_reach backoff_new"
| step: "backoff_reach s \<Longrightarrow> backoff_step s t \<Longrightarrow> backoff_reach t"

inductive_cases backoff_stepE: "backoff_step s t"

text \<open>A mask is a run of ones: 0, 1, 3, 7 or 15.\<close>

definition mask_wf :: "u8 \<Rightarrow> bool" where
  "mask_wf m \<longleftrightarrow> m \<in> {0, 1, 3, 7, 15}"

definition backoff_inv :: "BackoffState \<Rightarrow> bool" where
  "backoff_inv s \<longleftrightarrow> mask_wf (global_mask s) \<and> mask_wf (local_mask s) \<and> attempts s \<le> MAX_ATTEMPTS"

lemma mask_grow: "mask_wf m \<Longrightarrow> mask_wf (grow_mask m)"
  by (auto simp: mask_wf_def grow_mask_def MAX_BACKOFF_MASK_def)

lemma mask_shrink: "mask_wf m \<Longrightarrow> mask_wf (drop_bit (Suc 0) m)"
  by (auto simp: mask_wf_def)

lemma mask_or: "mask_wf m \<Longrightarrow> mask_wf (m OR 1)" "mask_wf m \<Longrightarrow> mask_wf (m OR 3)"
  by (auto simp: mask_wf_def)

lemmas mask_rules = mask_grow mask_shrink mask_or

lemma backoff_inv_new: "backoff_inv backoff_new"
  by (simp add: backoff_inv_def backoff_new_def mask_wf_def)

lemma backoff_inv_prep: "backoff_inv s \<Longrightarrow> backoff_inv (prep_for_next_frame s)"
  by (auto simp: backoff_inv_def prep_for_next_frame_def Let_def intro: mask_rules)

lemma backoff_inv_collision: "backoff_inv s \<Longrightarrow> backoff_inv (record_collision s)"
  by (auto simp: backoff_inv_def record_collision_def intro: mask_rules)

lemma backoff_inv_deferral: "backoff_inv s \<Longrightarrow> backoff_inv (record_deferral s)"
  by (auto simp: backoff_inv_def record_deferral_def intro: mask_rules)

lemma word_pred_le: "x > 0 \<Longrightarrow> x \<le> m \<Longrightarrow> x - 1 \<le> m" for x m :: u8
  by (simp add: word_le_nat_alt word_gt_0 unat_minus_one)

lemma backoff_inv_attempt: "backoff_inv s \<Longrightarrow> backoff_inv (snd (consume_attempt s))"
  by (auto simp: backoff_inv_def consume_attempt_def intro: word_pred_le)

lemma backoff_inv_step: "backoff_step s t \<Longrightarrow> backoff_inv s \<Longrightarrow> backoff_inv t"
  by (elim backoff_stepE) (simp_all add: backoff_inv_prep backoff_inv_collision backoff_inv_deferral
      backoff_inv_attempt)

lemma backoff_inv_reach: "backoff_reach s \<Longrightarrow> backoff_inv s"
  by (induction rule: backoff_reach.induct) (auto intro: backoff_inv_new backoff_inv_step)

section \<open>The wait\<close>

lemma and_le_right: "x AND m \<le> m" for x m :: u8
  by (simp add: word_and_le1)

lemma next_backoff_bounds:
  assumes "mask_wf (local_mask s)"
  shows "unat (next_backoff_units s e) = 4 + unat (e AND local_mask s)"
    and "unat (next_backoff_units s e) \<le> 4 + unat (local_mask s)"
    and "unat (local_mask s) \<le> 15"
proof -
  have m: "unat (local_mask s) \<le> 15"
    using assms by (auto simp: mask_wf_def)
  have e: "unat (e AND local_mask s) \<le> unat (local_mask s)"
    using and_le_right [of e "local_mask s"] by (simp add: word_le_nat_alt)
  have "unat ((e AND local_mask s) + 4) = unat (e AND local_mask s) + 4"
    using m e by (subst unat_add_lem [THEN iffD1]) simp_all
  with m e show eq: "unat (next_backoff_units s e) = 4 + unat (e AND local_mask s)"
    by (simp add: next_backoff_units_def saturating_add_u8_def IDG_UNITS_def)
  with e show "unat (next_backoff_units s e) \<le> 4 + unat (local_mask s)" by simp
  show "unat (local_mask s) \<le> 15" by (rule m)
qed

text \<open>After a number of consumed attempts.\<close>

fun consume_n :: "nat \<Rightarrow> BackoffState \<Rightarrow> BackoffState" where
  "consume_n 0 s = s"
| "consume_n (Suc n) s = consume_n n (snd (consume_attempt s))"

lemma consume_attempts: "unat (attempts (snd (consume_attempt s))) = unat (attempts s) - 1"
  by (cases "attempts s = 0") (auto simp: consume_attempt_def word_gt_0 unat_minus_one)

lemma consume_n_attempts: "unat (attempts (consume_n n s)) = unat (attempts s) - n"
  by (induction n s rule: consume_n.induct) (simp_all add: consume_attempts)

section \<open>Properties\<close>

text \<open>Whatever sequence of collisions, deferrals, new frames and attempts the
  transmitter goes through, its masks are runs of at most four ones, so the random wait is
  never below the 400 microsecond gap and never above 1.9 ms, and the saturating addition
  never saturates.\<close>

theorem backoff_wait_bounded:
  assumes "backoff_reach s"
  shows "4 \<le> unat (next_backoff_units s e) \<and> unat (next_backoff_units s e) \<le> 19
    \<and> next_backoff_units s e = (e AND local_mask s) + IDG_UNITS"
proof -
  from backoff_inv_reach [OF assms] have m: "mask_wf (local_mask s)"
    by (simp add: backoff_inv_def)
  note b = next_backoff_bounds(1) [OF m, of e] next_backoff_bounds(2) [OF m, of e]
    next_backoff_bounds(3) [OF m]
  then have "unat (e AND local_mask s) + unat IDG_UNITS < 256" by (simp add: IDG_UNITS_def)
  then have "next_backoff_units s e = (e AND local_mask s) + IDG_UNITS"
    by (simp add: next_backoff_units_def saturating_add_u8_def)
  with b show ?thesis by simp
qed

theorem backoff_wait_bounded_witness:
  "unat (next_backoff_units (record_collision (prep_for_next_frame backoff_new)) 0xFF) \<le> 19"
proof -
  have "backoff_reach (record_collision (prep_for_next_frame backoff_new))"
    by (meson backoff_reach.intros backoff_step.intros)
  from backoff_wait_bounded [OF this] show ?thesis by blast
qed

text \<open>A prepared frame gets 32 attempts: the transmitter is exhausted after
  consuming exactly that many and not before, whatever its history, and every prepared frame
  has at least two bits of randomness above the gap.\<close>

theorem backoff_attempts_exact:
  "(backoff_exhausted (consume_n n (prep_for_next_frame s)) \<longleftrightarrow> 32 \<le> n)
   \<and> 3 AND local_mask (prep_for_next_frame s) = 3"
proof -
  have "unat (attempts (prep_for_next_frame s)) = 32"
    by (simp add: prep_for_next_frame_def Let_def MAX_ATTEMPTS_def)
  with consume_n_attempts [of n "prep_for_next_frame s"]
  have "attempts (consume_n n (prep_for_next_frame s)) = 0 \<longleftrightarrow> 32 \<le> n"
    by (simp add: unat_eq_zero [symmetric] del: unat_eq_zero)
  moreover have "3 AND local_mask (prep_for_next_frame s) = 3"
    unfolding prep_for_next_frame_def Let_def BackoffState.simps
    by (rule bit_word_eqI) (auto simp: bit_simps)
  ultimately show ?thesis by (simp add: backoff_exhausted_def)
qed

end
