(* ===== verification/Tash_Codec.thy ===== *)
theory Tash_Codec
  imports LT_Crc
begin

text \<open>
  The TashTalk serial codec: src/tashtalk/src/codec.rs, crc.rs and the feature byte of lib.rs.
  The receive buffer (\<open>BytesMut\<close>) is a byte list the decoder takes from the front; \<open>tash_drain\<close>
  and \<open>tash_feed\<close> are the framed stream around it, which tokio_util drives: append what
  arrived, decode until \<open>None\<close>.
\<close>

section \<open>The frame check sequence\<close>

definition TASH_CRC_LUT :: "u16 list" where
  "TASH_CRC_LUT = [
    0x0000, 0x1189, 0x2312, 0x329B, 0x4624, 0x57AD, 0x6536, 0x74BF,
    0x8C48, 0x9DC1, 0xAF5A, 0xBED3, 0xCA6C, 0xDBE5, 0xE97E, 0xF8F7,
    0x1081, 0x0108, 0x3393, 0x221A, 0x56A5, 0x472C, 0x75B7, 0x643E,
    0x9CC9, 0x8D40, 0xBFDB, 0xAE52, 0xDAED, 0xCB64, 0xF9FF, 0xE876,
    0x2102, 0x308B, 0x0210, 0x1399, 0x6726, 0x76AF, 0x4434, 0x55BD,
    0xAD4A, 0xBCC3, 0x8E58, 0x9FD1, 0xEB6E, 0xFAE7, 0xC87C, 0xD9F5,
    0x3183, 0x200A, 0x1291, 0x0318, 0x77A7, 0x662E, 0x54B5, 0x453C,
    0xBDCB, 0xAC42, 0x9ED9, 0x8F50, 0xFBEF, 0xEA66, 0xD8FD, 0xC974,
    0x4204, 0x538D, 0x6116, 0x709F, 0x0420, 0x15A9, 0x2732, 0x36BB,
    0xCE4C, 0xDFC5, 0xED5E, 0xFCD7, 0x8868, 0x99E1, 0xAB7A, 0xBAF3,
    0x5285, 0x430C, 0x7197, 0x601E, 0x14A1, 0x0528, 0x37B3, 0x263A,
    0xDECD, 0xCF44, 0xFDDF, 0xEC56, 0x98E9, 0x8960, 0xBBFB, 0xAA72,
    0x6306, 0x728F, 0x4014, 0x519D, 0x2522, 0x34AB, 0x0630, 0x17B9,
    0xEF4E, 0xFEC7, 0xCC5C, 0xDDD5, 0xA96A, 0xB8E3, 0x8A78, 0x9BF1,
    0x7387, 0x620E, 0x5095, 0x411C, 0x35A3, 0x242A, 0x16B1, 0x0738,
    0xFFCF, 0xEE46, 0xDCDD, 0xCD54, 0xB9EB, 0xA862, 0x9AF9, 0x8B70,
    0x8408, 0x9581, 0xA71A, 0xB693, 0xC22C, 0xD3A5, 0xE13E, 0xF0B7,
    0x0840, 0x19C9, 0x2B52, 0x3ADB, 0x4E64, 0x5FED, 0x6D76, 0x7CFF,
    0x9489, 0x8500, 0xB79B, 0xA612, 0xD2AD, 0xC324, 0xF1BF, 0xE036,
    0x18C1, 0x0948, 0x3BD3, 0x2A5A, 0x5EE5, 0x4F6C, 0x7DF7, 0x6C7E,
    0xA50A, 0xB483, 0x8618, 0x9791, 0xE32E, 0xF2A7, 0xC03C, 0xD1B5,
    0x2942, 0x38CB, 0x0A50, 0x1BD9, 0x6F66, 0x7EEF, 0x4C74, 0x5DFD,
    0xB58B, 0xA402, 0x9699, 0x8710, 0xF3AF, 0xE226, 0xD0BD, 0xC134,
    0x39C3, 0x284A, 0x1AD1, 0x0B58, 0x7FE7, 0x6E6E, 0x5CF5, 0x4D7C,
    0xC60C, 0xD785, 0xE51E, 0xF497, 0x8028, 0x91A1, 0xA33A, 0xB2B3,
    0x4A44, 0x5BCD, 0x6956, 0x78DF, 0x0C60, 0x1DE9, 0x2F72, 0x3EFB,
    0xD68D, 0xC704, 0xF59F, 0xE416, 0x90A9, 0x8120, 0xB3BB, 0xA232,
    0x5AC5, 0x4B4C, 0x79D7, 0x685E, 0x1CE1, 0x0D68, 0x3FF3, 0x2E7A,
    0xE70E, 0xF687, 0xC41C, 0xD595, 0xA12A, 0xB0A3, 0x8238, 0x93B1,
    0x6B46, 0x7ACF, 0x4854, 0x59DD, 0x2D62, 0x3CEB, 0x0E70, 0x1FF9,
    0xF78F, 0xE606, 0xD49D, 0xC514, 0xB1AB, 0xA022, 0x92B9, 0x8330,
    0x7BC7, 0x6A4E, 0x58D5, 0x495C, 0x3DE3, 0x2C6A, 0x1EF1, 0x0F78
  ]"

record TashCrc =
  tash_reg :: u16

definition tash_crc_new :: TashCrc where
  "tash_crc_new = \<lparr>tash_reg = 0xFFFF\<rparr>"

definition tash_crc_reset :: "TashCrc \<Rightarrow> TashCrc" where
  "tash_crc_reset c = c\<lparr>tash_reg := 0xFFFF\<rparr>"

definition tash_crc_feed_byte :: "TashCrc \<Rightarrow> u8 \<Rightarrow> TashCrc" where
  "tash_crc_feed_byte c b =
     (let index = ucast (tash_reg c) XOR b
      in c\<lparr>tash_reg := TASH_CRC_LUT ! unat index XOR drop_bit 8 (tash_reg c)\<rparr>)"

fun tash_crc_feed :: "TashCrc \<Rightarrow> bytes \<Rightarrow> TashCrc" where
  "tash_crc_feed c [] = c"
| "tash_crc_feed c (b # bs) = tash_crc_feed (tash_crc_feed_byte c b) bs"

definition tash_crc_byte1 :: "TashCrc \<Rightarrow> u8" where
  "tash_crc_byte1 c = ucast (tash_reg c) XOR 0xFF"

definition tash_crc_byte2 :: "TashCrc \<Rightarrow> u8" where
  "tash_crc_byte2 c = ucast (drop_bit 8 (tash_reg c)) XOR 0xFF"

definition tash_crc_is_okay :: "TashCrc \<Rightarrow> bool" where
  "tash_crc_is_okay c = (tash_reg c = 61624)"

definition tash_lt_crc :: "bytes \<Rightarrow> bytes" where
  "tash_lt_crc data = (let c = tash_crc_feed tash_crc_new data in [tash_crc_byte1 c, tash_crc_byte2 c])"

text \<open>The host and the firmware carry their own copies of the table and the register; they agree.\<close>

definition as_lt :: "TashCrc \<Rightarrow> CrcCalculator" where
  "as_lt c = \<lparr>crc_reg = tash_reg c\<rparr>"

lemma tash_lut: "TASH_CRC_LUT = LT_CRC_LUT"
  by (simp only: TASH_CRC_LUT_def LT_CRC_LUT_def)

lemma as_lt_reg: "crc_reg (as_lt c) = tash_reg c"
  by (simp add: as_lt_def)

lemma as_lt_inj: "as_lt c = as_lt d \<longleftrightarrow> c = d"
  by (cases c; cases d) (simp add: as_lt_def)

lemma as_lt_feed_byte: "as_lt (tash_crc_feed_byte c b) = crc_feed_byte (as_lt c) b"
  by (simp add: as_lt_def tash_crc_feed_byte_def crc_feed_byte_def tash_lut)

lemma as_lt_feed: "as_lt (tash_crc_feed c bs) = crc_feed (as_lt c) bs"
  by (induction c bs rule: tash_crc_feed.induct) (simp_all add: as_lt_feed_byte)

lemma as_lt_new: "as_lt tash_crc_new = crc_new"
  by (simp add: as_lt_def tash_crc_new_def crc_new_def)

lemma as_lt_okay: "tash_crc_is_okay c = crc_is_ok (as_lt c)"
  by (simp add: as_lt_def tash_crc_is_okay_def crc_is_ok_def POST_FRAME_RESIDUE_def)

lemma tash_lt_crc_eq: "tash_lt_crc data = lt_crc data"
proof -
  have r: "tash_reg (tash_crc_feed tash_crc_new data) = crc_reg (crc_feed crc_new data)"
    using arg_cong [OF as_lt_feed [of tash_crc_new data], of crc_reg] by (simp add: as_lt_new as_lt_reg)
  show ?thesis
    by (simp add: tash_lt_crc_def lt_crc_def Let_def tash_crc_byte1_def tash_crc_byte2_def
        crc_byte1_def crc_byte2_def r)
qed

interpretation tash_fcs: frame_check tash_crc_feed_byte tash_crc_feed tash_crc_new tash_crc_is_okay tash_lt_crc
proof unfold_locales
  show "tash_crc_feed r [] = r" "tash_crc_feed r (b # bs) = tash_crc_feed (tash_crc_feed_byte r b) bs" for r b bs
    by simp_all
  show "r = s" if "tash_crc_feed_byte r b = tash_crc_feed_byte s b" for r s b
    using lt_fcs.step_inj [of "as_lt r" b "as_lt s"] that as_lt_feed_byte [of r b] as_lt_feed_byte [of s b]
    by (simp add: as_lt_inj)
  show "a = a' \<and> b = b'"
    if "tash_crc_feed_byte (tash_crc_feed_byte r a) b = tash_crc_feed_byte (tash_crc_feed_byte r a') b'" for r a b a' b'
    using lt_fcs.two_steps_inj [of "as_lt r" a b a' b'] arg_cong [OF that, of as_lt]
    by (simp add: as_lt_feed_byte)
  show "length (tash_lt_crc d) = 2" for d
    by (simp add: tash_lt_crc_eq lt_fcs.fcs_length)
  show "tash_crc_is_okay (tash_crc_feed tash_crc_new (d @ tash_lt_crc d))" for d
    by (simp add: as_lt_okay as_lt_feed as_lt_new tash_lt_crc_eq lt_fcs.fcs_accept)
  show "r = s" if "tash_crc_is_okay r" "tash_crc_is_okay s" for r s
    using that by (cases r; cases s) (simp add: tash_crc_is_okay_def)
qed

section \<open>Commands\<close>

datatype TashTalkCommand = Noop | TransmitFrame bytes | SetNodeIds bytes | SetFeatures u8

definition tash_encode :: "TashTalkCommand \<Rightarrow> bytes \<Rightarrow> bytes" where
  "tash_encode item dst =
     (case item of
        Noop \<Rightarrow> dst @ [0x00]
      | TransmitFrame frame \<Rightarrow> dst @ [0x01] @ frame
      | SetNodeIds nodes \<Rightarrow> dst @ [0x02] @ nodes
      | SetFeatures features \<Rightarrow> dst @ [0x03, features])"

record TashTalkFeatures =
  crc_calculation :: bool
  crc_checking :: bool

definition features_new :: TashTalkFeatures where
  "features_new = \<lparr>crc_calculation = False, crc_checking = False\<rparr>"

definition with_crc_calculation :: "TashTalkFeatures \<Rightarrow> TashTalkFeatures" where
  "with_crc_calculation f = f\<lparr>crc_calculation := True\<rparr>"

definition with_crc_checking :: "TashTalkFeatures \<Rightarrow> TashTalkFeatures" where
  "with_crc_checking f = f\<lparr>crc_checking := True\<rparr>"

definition features_with_crc :: "TashTalkFeatures \<Rightarrow> TashTalkFeatures" where
  "features_with_crc f = with_crc_checking (with_crc_calculation f)"

definition features_u8 :: "TashTalkFeatures \<Rightarrow> u8" where
  "features_u8 f =
     (let val = 0; val = (if crc_calculation f then val OR 0x80 else val)
      in if crc_checking f then val OR 0x40 else val)"

section \<open>The decoder\<close>

datatype FrameError = FramingError | FrameAborted | CrcCheckFailed | UnknownEscape u8

datatype TashTalkEvent = TashFrame bytes | TashError FrameError

definition MIN_FRAME_LEN :: nat where "MIN_FRAME_LEN = 5"

fun unescape :: "bytes \<Rightarrow> bytes" where
  "unescape [] = []"
| "unescape [b] = [b]"
| "unescape (b # c # rest) = (if b = 0x00 then 0x00 # unescape rest else b # unescape (c # rest))"

definition tash_crc_ok :: "bytes \<Rightarrow> bool" where
  "tash_crc_ok frame = tash_crc_is_okay (tash_crc_feed tash_crc_new frame)"

text \<open>
  The scan of \<open>decode\<close>: from index \<open>i\<close>, the position and argument of the first escape that is
  not a literal zero; \<open>None\<close> where the loop runs out or waits for the argument byte.
\<close>

fun tash_scan :: "nat \<Rightarrow> bytes \<Rightarrow> (nat \<times> u8) option" where
  "tash_scan i [] = None"
| "tash_scan i [b] = None"
| "tash_scan i (b # c # rest) =
     (if b \<noteq> 0x00 then tash_scan (i + 1) (c # rest)
      else if c = 0xFF then tash_scan (i + 2) rest
      else Some (i, c))"

definition tash_decode :: "bytes \<Rightarrow> TashTalkEvent option \<times> bytes" where
  "tash_decode src =
     (case tash_scan 0 src of
        None \<Rightarrow> (None, src)
      | Some (i, marker) \<Rightarrow>
          (if marker = 0xFD
           then (let frame = unescape (take i src); src' = drop (i + 2) src
                 in if length frame < MIN_FRAME_LEN \<or> \<not> tash_crc_ok frame
                    then (Some (TashError CrcCheckFailed), src')
                    else (Some (TashFrame frame), src'))
           else if marker = 0xFE \<or> marker = 0xFA \<or> marker = 0xFC
           then (Some (TashError (if marker = 0xFE then FramingError
                                  else if marker = 0xFA then FrameAborted else CrcCheckFailed)), drop (i + 2) src)
           else (Some (TashError (UnknownEscape marker)), drop (i + 2) src)))"

definition frame_with_crc :: "bytes \<Rightarrow> bytes" where
  "frame_with_crc frame = frame @ tash_lt_crc frame"

text \<open>Decode until \<open>None\<close>: the loop of the framed stream on what is buffered.\<close>

lemma tash_scan_bound: "tash_scan i src = Some (j, m) \<Longrightarrow> j + 2 \<le> i + length src"
  by (induction i src rule: tash_scan.induct) (auto split: if_splits)

lemma tash_decode_shrinks: "tash_decode src = (Some ev, src') \<Longrightarrow> length src' < length src"
  using tash_scan_bound [of 0 src]
  by (auto simp: tash_decode_def Let_def split: option.splits if_splits)

function tash_drain :: "bytes \<Rightarrow> TashTalkEvent list \<times> bytes" where
  "tash_drain src =
     (case tash_decode src of
        (None, src') \<Rightarrow> ([], src')
      | (Some ev, src') \<Rightarrow> (let (evs, rest) = tash_drain src' in (ev # evs, rest)))"
  by pat_completeness auto
termination by (relation "measure length") (auto dest: tash_decode_shrinks [OF sym])

declare tash_drain.simps [simp del]

text \<open>The stream: chunks as the serial port delivers them.\<close>

fun tash_feed :: "bytes \<Rightarrow> bytes list \<Rightarrow> TashTalkEvent list \<times> bytes" where
  "tash_feed buf [] = ([], buf)"
| "tash_feed buf (chunk # chunks) =
     (let (evs, buf') = tash_drain (buf @ chunk); (evs', buf'') = tash_feed buf' chunks
      in (evs @ evs', buf''))"

section \<open>Chunk independence\<close>

lemma tash_scan_more: "tash_scan i src = Some r \<Longrightarrow> tash_scan i (src @ extra) = Some r"
  by (induction i src rule: tash_scan.induct) (auto split: if_splits)

lemma tash_decode_more: "tash_decode src = (Some ev, src') \<Longrightarrow> tash_decode (src @ extra) = (Some ev, src' @ extra)"
  using tash_scan_bound [of 0 src] tash_scan_more [of 0 src _ extra]
  by (auto simp: tash_decode_def Let_def split: option.splits if_splits)

lemma tash_decode_None: "tash_decode src = (None, src') \<Longrightarrow> src' = src"
  by (auto simp: tash_decode_def Let_def split: option.splits if_splits)

lemma tash_drain_append:
  "tash_drain (xs @ ys) =
     (let (e1, r1) = tash_drain xs; (e2, r2) = tash_drain (r1 @ ys) in (e1 @ e2, r2))"
proof (induction xs rule: tash_drain.induct)
  case (1 src)
  show ?case
  proof (cases "tash_decode src")
    case (Pair o_ev src')
    show ?thesis
    proof (cases o_ev)
      case None
      with Pair have "tash_drain src = ([], src)"
        using tash_decode_None [of src src'] by (simp add: tash_drain.simps [of src])
      then show ?thesis by simp
    next
      case (Some ev)
      with Pair have d: "tash_decode src = (Some ev, src')" by simp
      have l: "tash_drain (src @ ys) = (let (evs, rest) = tash_drain (src' @ ys) in (ev # evs, rest))"
        using tash_decode_more [OF d, of ys] by (simp add: tash_drain.simps [of "src @ ys"])
      have r: "tash_drain src = (let (evs, rest) = tash_drain src' in (ev # evs, rest))"
        using d by (simp add: tash_drain.simps [of src])
      from 1 [OF d [symmetric] refl] show ?thesis
        unfolding l r by (simp split: prod.splits)
    qed
  qed
qed

lemma tash_feed_concat: "tash_feed buf chunks = tash_drain (buf @ concat chunks) \<or> chunks = []"
proof (induction chunks arbitrary: buf)
  case (Cons c cs)
  show ?case
  proof (cases "tash_drain (buf @ c)")
    case (Pair e1 r1)
    have drained: "tash_drain r1 = ([], r1)"
      using tash_drain_append [of "buf @ c" "[]"] Pair by (auto split: prod.splits)
    have "tash_feed r1 cs = tash_drain (r1 @ concat cs)"
      using Cons [of r1] drained by auto
    with Pair tash_drain_append [of "buf @ c" "concat cs"] show ?thesis
      by (simp split: prod.splits)
  qed
qed simp

section \<open>What the device sends\<close>

definition tash_escape :: "bytes \<Rightarrow> bytes" where
  "tash_escape f = concat (map (\<lambda>b. if b = 0x00 then [0x00, 0xFF] else [b]) f)"

lemma tash_escape_simps [simp]:
  "tash_escape [] = []" "tash_escape (b # f) = (if b = 0 then [0, 0xFF] else [b]) @ tash_escape f"
  by (simp_all add: tash_escape_def)

lemma tash_scan_skip: "b \<noteq> 0 \<Longrightarrow> tash_scan i (b # rest) = tash_scan (i + 1) rest"
  by (cases rest) simp_all

lemma tash_scan_escape: "tash_scan i (tash_escape f @ rest) = tash_scan (i + length (tash_escape f)) rest"
  by (induction f arbitrary: i) (simp_all add: tash_scan_skip)

lemma unescape_escape: "unescape (tash_escape f) = f"
proof (induction f)
  case (Cons b f)
  show ?case
  proof (cases "b = 0")
    case False
    have "unescape (b # xs) = b # unescape xs" for xs using False by (cases xs) simp_all
    with False Cons show ?thesis by simp
  qed (use Cons in simp)
qed simp

lemma tash_decode_marker:
  assumes "m \<noteq> 0xFF"
  shows "tash_decode (tash_escape f @ [0, m] @ rest) =
    (Some (if m = 0xFD then (if length f < MIN_FRAME_LEN \<or> \<not> tash_crc_ok f then TashError CrcCheckFailed else TashFrame f)
           else if m = 0xFE then TashError FramingError else if m = 0xFA then TashError FrameAborted
           else if m = 0xFC then TashError CrcCheckFailed else TashError (UnknownEscape m)), rest)"
proof -
  have "tash_scan 0 (tash_escape f @ [0, m] @ rest) = Some (length (tash_escape f), m)"
    using assms by (simp only: tash_scan_escape) simp
  then show ?thesis
    by (simp add: tash_decode_def unescape_escape Let_def)
qed

text \<open>A frame as the device reports it, and the event for it.\<close>

definition tash_wire :: "bytes \<times> u8 \<Rightarrow> bytes" where
  "tash_wire fm = tash_escape (fst fm) @ [0, snd fm]"

definition tash_event :: "bytes \<times> u8 \<Rightarrow> TashTalkEvent" where
  "tash_event fm =
     (let (f, m) = fm in
      if m = 0xFD then (if length f < MIN_FRAME_LEN \<or> \<not> tash_crc_ok f then TashError CrcCheckFailed else TashFrame f)
      else if m = 0xFE then TashError FramingError else if m = 0xFA then TashError FrameAborted
      else if m = 0xFC then TashError CrcCheckFailed else TashError (UnknownEscape m))"

lemma tash_drain_wire:
  assumes "\<forall>fm\<in>set fms. snd fm \<noteq> 0xFF"
  shows "tash_drain (concat (map tash_wire fms) @ rest) =
    (let (evs, r) = tash_drain rest in (map tash_event fms @ evs, r))"
  using assms
proof (induction fms)
  case (Cons fm fms)
  obtain f m where fm: "fm = (f, m)" by (cases fm)
  have d: "tash_decode (tash_wire fm @ concat (map tash_wire fms) @ rest)
      = (Some (tash_event fm), concat (map tash_wire fms) @ rest)"
    using Cons.prems tash_decode_marker [of m f] by (simp add: fm tash_wire_def tash_event_def)
  have "tash_drain (tash_wire fm @ concat (map tash_wire fms) @ rest)
      = (let (evs, r) = tash_drain (concat (map tash_wire fms) @ rest) in (tash_event fm # evs, r))"
    using d by (subst tash_drain.simps) simp
  with Cons show ?case by (simp split: prod.splits)
qed simp

lemma tash_crc_ok_with_crc: "tash_crc_ok (frame_with_crc d)"
  by (simp add: tash_crc_ok_def frame_with_crc_def tash_fcs.fcs_accept)

lemma length_frame_with_crc [simp]: "length (frame_with_crc d) = length d + 2"
  by (simp add: frame_with_crc_def tash_fcs.fcs_length)

section \<open>Properties\<close>

text \<open>However the serial port splits the stream, the TashTalk decoder delivers, in
  order, exactly one event per reported frame: the frame itself, zero bytes and all, for every
  frame sent with its CRC and closed by the done marker, and an error for every other marker;
  after an error the next frame is delivered normally. What remains buffered is the
  unfinished tail.\<close>

theorem tash_stream_events:
  assumes "\<forall>fm\<in>set fms. snd fm \<noteq> 0xFF" and "chunks \<noteq> []"
    and "concat chunks = concat (map tash_wire fms) @ tash_escape tail"
  shows "tash_feed [] chunks = (map tash_event fms, tash_escape tail)
    \<and> (\<forall>d. 3 \<le> length d \<longrightarrow> tash_event (frame_with_crc d, 0xFD) = TashFrame (frame_with_crc d))"
proof -
  have "tash_scan 0 (tash_escape tail @ []) = None" by (simp only: tash_scan_escape) simp
  then have "tash_drain (tash_escape tail) = ([], tash_escape tail)"
    by (subst tash_drain.simps) (simp add: tash_decode_def)
  with tash_drain_wire [OF assms(1), of "tash_escape tail"] assms(2,3) tash_feed_concat [of "[]" chunks]
  have "tash_feed [] chunks = (map tash_event fms, tash_escape tail)" by auto
  moreover have "tash_event (frame_with_crc d, 0xFD) = TashFrame (frame_with_crc d)" if "3 \<le> length d" for d
    using that by (simp add: tash_event_def tash_crc_ok_with_crc MIN_FRAME_LEN_def)
  ultimately show ?thesis by blast
qed

theorem tash_stream_events_witness:
  "tash_feed [] [[1, 0], [0xFF, 0, 0xFE, 7], [0, 0xFA, 9]] = ([TashError FramingError, TashError FrameAborted], [9])"
proof -
  have "tash_feed [] [[1, 0], [0xFF, 0, 0xFE, 7], [0, 0xFA, 9]]
    = (map tash_event [([1, 0], 0xFE), ([7], 0xFA)], tash_escape [9])"
    using tash_stream_events [of "[([1, 0], 0xFE), ([7], 0xFA)]" "[[1, 0], [0xFF, 0, 0xFE, 7], [0, 0xFA, 9]]" "[9]"]
    by (simp add: tash_wire_def del: tash_feed.simps)
  then show ?thesis by (simp add: tash_event_def del: tash_feed.simps)
qed

end
