(* ===== verification/Pkt_Headers.thy ===== *)
theory Pkt_Headers
  imports Pkt_Transport
begin

text \<open>
  Whole EtherTalk frames: \<open>AppleTalkHeaders\<close> of src/tailtalk-packets/src/headers.rs, which
  stacks the link, network and transport headers. The encoder is total except for the AARP
  writer, which panics on a short buffer; that panic is \<open>None\<close>.
\<close>

datatype NetHeader = NetAarp AarpPacket | NetDdp DdpPacket

datatype TransportHeader = TransAep AepPacket | TransAtp AtpPacket

record AppleTalkHeaders =
  ah_link :: EtherTalkPhase2Frame
  ah_net :: NetHeader
  ah_transport :: "TransportHeader option"
  ah_payload :: "bytes option"

datatype AppleTalkError =
    AtkInvalidSize nat nat | ExceededMax | LinkHeaderError EtherTalkError | DdpHeaderError DdpError
  | AarpHeaderError AarpError | AepHeaderError AepError | AtpHeaderError AtpError

section \<open>Encoding\<close>

definition net_size :: "NetHeader \<Rightarrow> nat" where
  "net_size n = (case n of NetDdp _ \<Rightarrow> DDP_LEN | NetAarp _ \<Rightarrow> AARP_LEN)"

definition transport_size :: "TransportHeader option \<Rightarrow> nat" where
  "transport_size t = (case t of Some (TransAep p) \<Rightarrow> aep_len p | Some (TransAtp _) \<Rightarrow> 8 | None \<Rightarrow> 0)"

text \<open>
  \<open>write_at pos w buffer\<close>: run a writer on \<open>&mut buffer[pos..]\<close> and advance by what it wrote.
  \<open>map_err\<close> is the argument \<open>f\<close>.
\<close>

definition write_at ::
  "('x \<Rightarrow> 'e) \<Rightarrow> (bytes \<Rightarrow> 'x + nat \<times> bytes) \<Rightarrow> nat \<times> bytes \<Rightarrow> 'e + nat \<times> bytes" where
  "write_at f w pb =
     (let (pos, buffer) = pb in
      case w (drop pos buffer) of
        Inl e \<Rightarrow> Inl (f e)
      | Inr (n, out) \<Rightarrow> Inr (pos + n, take pos buffer @ out))"

definition encode_net :: "NetHeader \<Rightarrow> nat \<times> bytes \<Rightarrow> (AppleTalkError + nat \<times> bytes) option" where
  "encode_net net pb =
     (case net of
        NetAarp pkt \<Rightarrow>
          (case aarp_to_bytes pkt (drop (fst pb) (snd pb)) of
             None \<Rightarrow> None
           | Some (n, out) \<Rightarrow> Some (Inr (fst pb + n, take (fst pb) (snd pb) @ out)))
      | NetDdp pkt \<Rightarrow> Some (write_at DdpHeaderError (ddp_to_bytes pkt) pb))"

definition encode_transport :: "TransportHeader option \<Rightarrow> nat \<times> bytes \<Rightarrow> AppleTalkError + nat \<times> bytes" where
  "encode_transport t pb =
     (case t of
        Some (TransAep pkt) \<Rightarrow> write_at AepHeaderError (aep_to_bytes pkt) pb
      | Some (TransAtp pkt) \<Rightarrow> write_at AtpHeaderError (atp_to_bytes pkt) pb
      | None \<Rightarrow> Inr pb)"

definition encode_payload :: "bytes option \<Rightarrow> nat \<times> bytes \<Rightarrow> AppleTalkError + nat \<times> bytes" where
  "encode_payload payload pb =
     (case payload of
        None \<Rightarrow> Inr pb
      | Some d \<Rightarrow>
          (if length (snd pb) - fst pb < length d
           then Inl (AtkInvalidSize (fst pb + length d) (length (snd pb)))
           else Inr (fst pb + length d, put (fst pb) d (snd pb))))"

definition headers_encode :: "AppleTalkHeaders \<Rightarrow> bytes \<Rightarrow> (AppleTalkError + nat \<times> bytes) option" where
  "headers_encode h buffer =
     (let total_len = LLC_LEN + net_size (ah_net h) + transport_size (ah_transport h)
            + (case ah_payload h of None \<Rightarrow> 0 | Some p \<Rightarrow> length p)
      in if total_len \<ge> 65535 then Some (Inl ExceededMax)
      else
        (case write_at LinkHeaderError (et_to_bytes ((ah_link h)\<lparr>et_len := word_of_nat total_len\<rparr>)) (0, buffer) of
           Inl e \<Rightarrow> Some (Inl e)
         | Inr pb \<Rightarrow>
             (case encode_net (ah_net h) pb of
                None \<Rightarrow> None
              | Some (Inl e) \<Rightarrow> Some (Inl e)
              | Some (Inr pb1) \<Rightarrow>
                  (case encode_transport (ah_transport h) pb1 of
                     Inl e \<Rightarrow> Some (Inl e)
                   | Inr pb2 \<Rightarrow> Some (encode_payload (ah_payload h) pb2)))))"

section \<open>Decoding\<close>

definition decode_net :: "EtherTalkPhase2Frame \<Rightarrow> bytes \<Rightarrow> AppleTalkError + NetHeader" where
  "decode_net link pkt =
     (case et_protocol link of
        EtDdp \<Rightarrow> (case ddp_parse (drop FRAME_LEN pkt) of Inl e \<Rightarrow> Inl (DdpHeaderError e) | Inr p \<Rightarrow> Inr (NetDdp p))
      | EtAarp \<Rightarrow> (case aarp_parse (drop FRAME_LEN pkt) of Inl e \<Rightarrow> Inl (AarpHeaderError e) | Inr p \<Rightarrow> Inr (NetAarp p)))"

definition decode_transport ::
  "NetHeader \<Rightarrow> bytes \<Rightarrow> AppleTalkError + TransportHeader option \<times> bytes option" where
  "decode_transport net pkt =
     (case net of
        NetAarp _ \<Rightarrow> Inr (None, None)
      | NetDdp ddp \<Rightarrow>
          (case protocol_typ ddp of
             Aep \<Rightarrow> (case aep_parse (drop (FRAME_LEN + DDP_LEN) pkt) of
                      Inl e \<Rightarrow> Inl (AepHeaderError e)
                    | Inr p \<Rightarrow> Inr (Some (TransAep p), None))
           | Atp \<Rightarrow> (let offset = FRAME_LEN + DDP_LEN in
                    case atp_parse (drop offset pkt) of
                      Inl e \<Rightarrow> Inl (AtpHeaderError e)
                    | Inr p \<Rightarrow> (let payload_offset = offset + 8
                               in Inr (Some (TransAtp p),
                                  if payload_offset < length pkt then Some (drop payload_offset pkt) else None)))
           | _ \<Rightarrow> Inr (None, None)))"

definition headers_decode :: "bytes \<Rightarrow> AppleTalkError + AppleTalkHeaders" where
  "headers_decode pkt =
     (case et_parse pkt of
        Inl e \<Rightarrow> Inl (LinkHeaderError e)
      | Inr link \<Rightarrow>
          (case decode_net link pkt of
             Inl e \<Rightarrow> Inl e
           | Inr net \<Rightarrow>
               (case decode_transport net pkt of
                  Inl e \<Rightarrow> Inl e
                | Inr (transport, payload) \<Rightarrow>
                    Inr \<lparr>ah_link = link, ah_net = net, ah_transport = transport, ah_payload = payload\<rparr>)))"

section \<open>Round trip\<close>

text \<open>
  The frames the decoder keeps whole: the link protocol matches the network header, the
  transport header matches the DDP type, and only ATP carries a (nonempty) payload.
\<close>

definition net_bytes :: "NetHeader \<Rightarrow> bytes" where
  "net_bytes n = (case n of NetDdp p \<Rightarrow> ddp_header p | NetAarp p \<Rightarrow> aarp_bytes p)"

definition transport_bytes :: "TransportHeader option \<Rightarrow> bytes" where
  "transport_bytes t = (case t of None \<Rightarrow> [] | Some (TransAep p) \<Rightarrow> [aep_function_u8 (aep_function p)]
     | Some (TransAtp p) \<Rightarrow> atp_header p)"

definition payload_bytes :: "bytes option \<Rightarrow> bytes" where
  "payload_bytes p = (case p of None \<Rightarrow> [] | Some d \<Rightarrow> d)"

definition net_ok :: "AppleTalkHeaders \<Rightarrow> bool" where
  "net_ok h = (case ah_net h of
     NetAarp p \<Rightarrow> aarp_wf p \<and> et_protocol (ah_link h) = EtAarp \<and> ah_transport h = None \<and> ah_payload h = None
   | NetDdp p \<Rightarrow> ddp_wf p \<and> et_protocol (ah_link h) = EtDdp \<and>
       (case protocol_typ p of
          Aep \<Rightarrow> (\<exists>q. ah_transport h = Some (TransAep q)) \<and> ah_payload h = None
        | Atp \<Rightarrow> (\<exists>q. ah_transport h = Some (TransAtp q) \<and> atp_wf q) \<and> ah_payload h \<noteq> Some []
        | _ \<Rightarrow> ah_transport h = None \<and> ah_payload h = None))"

definition headers_wf :: "AppleTalkHeaders \<Rightarrow> bool" where
  "headers_wf h \<longleftrightarrow> length (dst_mac (ah_link h)) = 6 \<and> length (src_mac (ah_link h)) = 6 \<and> net_ok h"

definition headers_total :: "AppleTalkHeaders \<Rightarrow> nat" where
  "headers_total h = LLC_LEN + net_size (ah_net h) + transport_size (ah_transport h) + length (payload_bytes (ah_payload h))"

definition headers_bytes :: "AppleTalkHeaders \<Rightarrow> bytes" where
  "headers_bytes h = et_header ((ah_link h)\<lparr>et_len := word_of_nat (headers_total h)\<rparr>)
     @ net_bytes (ah_net h) @ transport_bytes (ah_transport h) @ payload_bytes (ah_payload h)"

text \<open>A writer that writes \<open>d\<close> at the front of any buffer long enough, used at position \<open>pos\<close>.\<close>

lemma write_at_put:
  assumes "\<And>b. w b = (if length b < length d then Inl (err b) else Inr (length d, put 0 d b))"
    and "length pre = pos" and "length d \<le> length rest"
  shows "write_at f w (pos, pre @ rest) = Inr (pos + length d, (pre @ d) @ drop (length d) rest)"
  using assms(2,3) by (simp add: write_at_def assms(1) put_0)

lemma ddp_to_bytes_put:
  "ddp_to_bytes p b = (if length b < length (ddp_header p) then Inl (DdpInvalidSize 13 (length b))
     else Inr (length (ddp_header p), put 0 (ddp_header p) b))"
  by (simp add: ddp_to_bytes_def)

lemma aep_to_bytes_put:
  "aep_to_bytes p b = (if length b < length [aep_function_u8 (aep_function p)] then Inl (AepInvalidSize (length b) 1)
     else Inr (length [aep_function_u8 (aep_function p)], put 0 [aep_function_u8 (aep_function p)] b))"
  by (simp add: aep_to_bytes_def)

lemma atp_to_bytes_put:
  "atp_wf p \<Longrightarrow> atp_to_bytes p b = (if length b < length (atp_header p) then Inl (AtpInvalidSize 8 (length b))
     else Inr (length (atp_header p), put 0 (atp_header p) b))"
  by (simp add: atp_to_bytes_def length_atp_header)

lemma et_to_bytes_put:
  "length (dst_mac p) = 6 \<Longrightarrow> length (src_mac p) = 6 \<Longrightarrow>
   et_to_bytes p b = (if length b < length (et_header p) then Inl (EtInvalidSize (length b))
     else Inr (length (et_header p), put 0 (et_header p) b))"
  by (simp add: et_to_bytes_def length_et_header)

lemma encode_net_put:
  assumes "case n of NetAarp p \<Rightarrow> aarp_wf p | NetDdp p \<Rightarrow> ddp_wf p"
    and "length pre = pos" and "length (net_bytes n) \<le> length rest"
  shows "encode_net n (pos, pre @ rest)
    = Some (Inr (pos + length (net_bytes n), (pre @ net_bytes n) @ drop (length (net_bytes n)) rest))"
proof (cases n)
  case (NetAarp p)
  with assms show ?thesis
    by (simp add: encode_net_def aarp_to_bytes_def net_bytes_def length_aarp_bytes put_0)
next
  case (NetDdp p)
  then have "length (ddp_header p) \<le> length rest" using assms(3) by (simp add: net_bytes_def)
  from write_at_put [of "ddp_to_bytes p" _ _ _ _ _ DdpHeaderError, OF ddp_to_bytes_put assms(2) this] NetDdp show ?thesis
    by (simp only: encode_net_def net_bytes_def NetHeader.case)
qed

lemma encode_transport_put:
  assumes "case t of Some (TransAtp p) \<Rightarrow> atp_wf p | _ \<Rightarrow> True"
    and "length pre = pos" and "length (transport_bytes t) \<le> length rest"
  shows "encode_transport t (pos, pre @ rest)
    = Inr (pos + length (transport_bytes t), (pre @ transport_bytes t) @ drop (length (transport_bytes t)) rest)"
proof (cases t)
  case None
  then show ?thesis by (simp add: encode_transport_def transport_bytes_def)
next
  case (Some th)
  show ?thesis
  proof (cases th)
    case (TransAep p)
    then have "length [aep_function_u8 (aep_function p)] \<le> length rest"
      using assms(3) Some by (simp add: transport_bytes_def)
    from write_at_put [of "aep_to_bytes p" _ _ _ _ _ AepHeaderError, OF aep_to_bytes_put assms(2) this] show ?thesis
      by (simp only: Some TransAep encode_transport_def transport_bytes_def option.case TransportHeader.case)
  next
    case (TransAtp p)
    then have "length (atp_header p) \<le> length rest" and wf: "atp_wf p"
      using assms(1,3) Some by (simp_all add: transport_bytes_def)
    from write_at_put [of "atp_to_bytes p" _ _ _ _ _ AtpHeaderError, OF atp_to_bytes_put [OF wf] assms(2) this(1)] show ?thesis
      by (simp only: Some TransAtp encode_transport_def transport_bytes_def option.case TransportHeader.case)
  qed
qed

lemma encode_payload_put:
  assumes "length pre = pos" and "length (payload_bytes p) \<le> length rest"
  shows "encode_payload p (pos, pre @ rest)
    = Inr (pos + length (payload_bytes p), (pre @ payload_bytes p) @ drop (length (payload_bytes p)) rest)"
  using assms by (auto simp: encode_payload_def payload_bytes_def put_def split: option.splits)

lemma length_net_bytes: "net_ok h \<Longrightarrow> length (net_bytes (ah_net h)) = net_size (ah_net h)"
  by (cases "ah_net h") (auto simp: net_ok_def net_bytes_def net_size_def length_aarp_bytes DDP_LEN_def)

lemma net_ok_wf: "net_ok h \<Longrightarrow> (case ah_net h of NetAarp p \<Rightarrow> aarp_wf p | NetDdp p \<Rightarrow> ddp_wf p)"
  by (cases "ah_net h") (auto simp: net_ok_def)

lemma transport_ok_wf: "net_ok h \<Longrightarrow> (case ah_transport h of Some (TransAtp p) \<Rightarrow> atp_wf p | _ \<Rightarrow> True)"
  by (cases "ah_net h"; cases "ah_transport h")
    (auto simp: net_ok_def split: DdpProtocolType.splits TransportHeader.splits)

lemma length_headers_bytes:
  assumes "headers_wf h"
  shows "length (headers_bytes h) = FRAME_LEN + length (net_bytes (ah_net h) @ transport_bytes (ah_transport h) @ payload_bytes (ah_payload h))"
  using assms by (simp add: headers_wf_def headers_bytes_def length_et_header)

lemma headers_encode_eq:
  assumes wf: "headers_wf h" and "headers_total h < 65535" and room: "length (headers_bytes h) \<le> length buffer"
  shows "headers_encode h buffer = Some (Inr (length (headers_bytes h),
    headers_bytes h @ drop (length (headers_bytes h)) buffer))"
proof -
  let ?link = "(ah_link h)\<lparr>et_len := word_of_nat (headers_total h)\<rparr>"
  let ?e = "et_header ?link" and ?n = "net_bytes (ah_net h)" and ?t = "transport_bytes (ah_transport h)"
    and ?p = "payload_bytes (ah_payload h)"
  have mac: "length (dst_mac ?link) = 6" "length (src_mac ?link) = 6" and ok: "net_ok h"
    using wf by (simp_all add: headers_wf_def)
  have total: "LLC_LEN + net_size (ah_net h) + transport_size (ah_transport h)
      + (case ah_payload h of None \<Rightarrow> 0 | Some p \<Rightarrow> length p) = headers_total h"
    by (cases "ah_payload h") (simp_all add: headers_total_def payload_bytes_def)
  have room': "length ?e + length ?n + length ?t + length ?p \<le> length buffer"
    using room by (simp add: headers_bytes_def)
  have e: "write_at LinkHeaderError (et_to_bytes ?link) (0, buffer) = Inr (length ?e, ?e @ drop (length ?e) buffer)"
    using write_at_put [of "et_to_bytes ?link", OF et_to_bytes_put [OF mac], of "[]" 0 buffer] room' by simp
  have n: "encode_net (ah_net h) (length ?e, ?e @ drop (length ?e) buffer)
      = Some (Inr (length ?e + length ?n, (?e @ ?n) @ drop (length ?e + length ?n) buffer))"
    using encode_net_put [OF net_ok_wf [OF ok], of ?e "length ?e" "drop (length ?e) buffer"] room'
    by (simp add: add.commute)
  have t: "encode_transport (ah_transport h) (length ?e + length ?n, (?e @ ?n) @ drop (length ?e + length ?n) buffer)
      = Inr (length ?e + length ?n + length ?t, (?e @ ?n @ ?t) @ drop (length ?e + length ?n + length ?t) buffer)"
    using encode_transport_put [OF transport_ok_wf [OF ok], of "?e @ ?n" "length ?e + length ?n"
        "drop (length ?e + length ?n) buffer"] room' by (simp add: ac_simps)
  have p: "encode_payload (ah_payload h) (length ?e + length ?n + length ?t, (?e @ ?n @ ?t) @ drop (length ?e + length ?n + length ?t) buffer)
      = Inr (length ?e + length ?n + length ?t + length ?p, (?e @ ?n @ ?t @ ?p) @ drop (length ?e + length ?n + length ?t + length ?p) buffer)"
    using encode_payload_put [of "?e @ ?n @ ?t" "length ?e + length ?n + length ?t" "ah_payload h"
        "drop (length ?e + length ?n + length ?t) buffer"] room' by (simp add: ac_simps)
  have "\<not> headers_total h \<ge> 65535" using assms(2) by simp
  then have "headers_encode h buffer = Some (Inr (length ?e + length ?n + length ?t + length ?p,
      (?e @ ?n @ ?t @ ?p) @ drop (length ?e + length ?n + length ?t + length ?p) buffer))"
    by (simp only: headers_encode_def total Let_def if_False e sum.case n option.case t p)
  then show ?thesis by (simp add: headers_bytes_def ac_simps)
qed

lemma headers_decode_eq:
  assumes "headers_wf h"
  shows "headers_decode (headers_bytes h) = Inr (h\<lparr>ah_link := (ah_link h)\<lparr>et_len := 10\<rparr>\<rparr>)"
proof -
  let ?link = "(ah_link h)\<lparr>et_len := word_of_nat (headers_total h)\<rparr>"
  let ?n = "net_bytes (ah_net h)" and ?t = "transport_bytes (ah_transport h)"
    and ?p = "payload_bytes (ah_payload h)"
  let ?pkt = "headers_bytes h"
  have mac: "length (dst_mac ?link) = 6" "length (src_mac ?link) = 6" and ok: "net_ok h"
    using assms by (simp_all add: headers_wf_def)
  have link: "et_parse ?pkt = Inr ((ah_link h)\<lparr>et_len := 10\<rparr>)"
    using et_parse_header_len [OF mac, of "?n @ ?t @ ?p"] by (simp add: headers_bytes_def)
  have d: "drop FRAME_LEN ?pkt = ?n @ ?t @ ?p"
    using length_et_header [OF mac] by (simp add: headers_bytes_def)
  have net: "decode_net ((ah_link h)\<lparr>et_len := 10\<rparr>) ?pkt = Inr (ah_net h)"
    using ok by (cases "ah_net h")
      (auto simp: net_ok_def decode_net_def d net_bytes_def ddp_parse_header aarp_parse_bytes)
  have trans: "decode_transport (ah_net h) ?pkt = Inr (ah_transport h, ah_payload h)"
  proof (cases "ah_net h")
    case (NetAarp p)
    with ok show ?thesis by (simp add: net_ok_def decode_transport_def)
  next
    case (NetDdp p)
    have "drop (FRAME_LEN + DDP_LEN) ?pkt = drop DDP_LEN (drop FRAME_LEN ?pkt)" by (simp add: add.commute)
    also have "\<dots> = ?t @ ?p" unfolding d using NetDdp by (simp add: net_bytes_def DDP_LEN_def)
    finally have d2: "drop (FRAME_LEN + DDP_LEN) ?pkt = ?t @ ?p" .
    have d3: "drop (FRAME_LEN + DDP_LEN + 8) ?pkt = drop 8 (?t @ ?p)"
      unfolding d2 [symmetric] by (simp add: add.commute)
    have l3: "length ?pkt = FRAME_LEN + DDP_LEN + length (?t @ ?p)"
      using length_headers_bytes [OF assms] NetDdp by (simp add: net_bytes_def DDP_LEN_def)
    show ?thesis
    proof (cases "protocol_typ p")
      case Aep
      with ok NetDdp obtain q where q: "ah_transport h = Some (TransAep q)" "ah_payload h = None"
        by (auto simp: net_ok_def)
      have "aep_parse (?t @ ?p) = Inr q"
        using aep_codec.dec_enc [of q] q(1) by (simp add: transport_bytes_def)
      with Aep NetDdp q d2 show ?thesis by (simp add: decode_transport_def)
    next
      case Atp
      with ok NetDdp obtain q where q: "ah_transport h = Some (TransAtp q)" "atp_wf q" "ah_payload h \<noteq> Some []"
        by (auto simp: net_ok_def)
      have parse: "atp_parse (?t @ ?p) = Inr q"
        using atp_codec.dec_enc [of q] q(1,2) by (simp add: transport_bytes_def)
      have len: "length ?t = 8" "drop 8 (?t @ ?p) = ?p"
        using q length_atp_header by (simp_all add: transport_bytes_def)
      have pl: "(if FRAME_LEN + DDP_LEN + 8 < length ?pkt then Some (drop (FRAME_LEN + DDP_LEN + 8) ?pkt) else None) = ah_payload h"
        unfolding l3 d3 len(2) using q(3) len(1) by (cases "ah_payload h") (auto simp: payload_bytes_def)
      show ?thesis
        using Atp NetDdp by (simp only: decode_transport_def NetHeader.case DdpProtocolType.case Let_def d2 parse sum.case pl)
          (simp only: q(1))
    qed (use ok NetDdp in \<open>simp_all add: net_ok_def decode_transport_def\<close>)
  qed
  show ?thesis
    by (cases h) (use link net trans in \<open>simp add: headers_decode_def\<close>)
qed

section \<open>Properties\<close>

text \<open>An EtherTalk frame built from a well-formed stack of headers (AARP, or DDP
  with AEP, ATP and its payload, or another protocol) fits exactly the bytes counted, leaves the
  rest of the buffer alone, and decodes to the same stack; only the link length is replaced by
  the constant the parser reports.\<close>

theorem headers_roundtrip:
  assumes "headers_wf h" and "headers_total h < 65535" and "FRAME_LEN + headers_total h \<le> LLC_LEN + length buffer"
  shows "\<exists>n out. headers_encode h buffer = Some (Inr (n, out)) \<and> n = length (headers_bytes h)
    \<and> length out = length buffer \<and> drop n out = drop n buffer
    \<and> headers_decode (take n out) = Inr (h\<lparr>ah_link := (ah_link h)\<lparr>et_len := 10\<rparr>\<rparr>)"
proof -
  have ok: "net_ok h" using assms(1) by (simp add: headers_wf_def)
  have "length (transport_bytes (ah_transport h)) = transport_size (ah_transport h)"
    using transport_ok_wf [OF ok]
    by (auto simp: transport_bytes_def transport_size_def length_atp_header aep_len_def
        split: option.splits TransportHeader.splits)
  then have "length (headers_bytes h) \<le> length buffer"
    using length_headers_bytes [OF assms(1)] length_net_bytes [OF ok] assms(3)
    by (simp add: headers_total_def)
  from headers_encode_eq [OF assms(1,2) this] this headers_decode_eq [OF assms(1)] show ?thesis
    by auto
qed

definition sample_headers :: AppleTalkHeaders where
  "sample_headers = \<lparr>ah_link = \<lparr>dst_mac = replicate 6 9, src_mac = replicate 6 7, et_len = 0, et_protocol = EtDdp\<rparr>,
     ah_net = NetDdp \<lparr>hop_count = 0, ddp_len = 14, ddp_chksum = 0, dest_network_num = 1, src_network_num = 2,
       dest_node_id = 3, dest_sock_num = 4, src_sock_num = 5, src_node_id = 6, protocol_typ = Aep\<rparr>,
     ah_transport = Some (TransAep \<lparr>aep_function = AepRequest\<rparr>), ah_payload = None\<rparr>"

theorem headers_roundtrip_witness:
  "\<exists>n out. headers_encode sample_headers (replicate 100 0) = Some (Inr (n, out))
    \<and> n = length (headers_bytes sample_headers) \<and> length out = 100
    \<and> headers_decode (take n out) = Inr (sample_headers\<lparr>ah_link := (ah_link sample_headers)\<lparr>et_len := 10\<rparr>\<rparr>)"
proof -
  have wf: "headers_wf sample_headers"
    by (simp add: headers_wf_def net_ok_def sample_headers_def ddp_wf_def proto_wf_def)
  have t: "headers_total sample_headers = 22"
    by (simp add: headers_total_def sample_headers_def LLC_LEN_def net_size_def DDP_LEN_def
        transport_size_def aep_len_def payload_bytes_def)
  have "headers_total sample_headers < 65535" "FRAME_LEN + headers_total sample_headers \<le> LLC_LEN + length (replicate 100 (0::u8))"
    by (simp_all add: t FRAME_LEN_def)
  from headers_roundtrip [OF wf this] show ?thesis by auto
qed

end
