(* ===== verification/Core_Nbp.thy ===== *)
theory Core_Nbp
  imports Pkt_Nbp
begin

text \<open>
  The NBP registry of src/tailtalk-core/src/nbp.rs: registration, removal, and the answer to a
  lookup, which is checked against the list of matching registrations.
\<close>

section \<open>Registry\<close>

definition ZONE_WILDCARD :: bytes where "ZONE_WILDCARD = [0x2A]"
definition NBP_SOCKET :: u8 where "NBP_SOCKET = 2"

record RegisteredName =
  rn_name :: EntityName
  rn_socket :: u8

datatype RegisterError = ContainsWildcards | AlreadyRegistered

type_synonym NbpRegistry = "RegisteredName list"

definition nbp_registry_new :: NbpRegistry where
  "nbp_registry_new = []"

definition nbp_register :: "EntityName \<Rightarrow> u8 \<Rightarrow> NbpRegistry \<Rightarrow> (RegisterError + unit) \<times> NbpRegistry" where
  "nbp_register name socket reg =
     (if \<not> fully_qualified name then (Inl ContainsWildcards, reg)
      else let entry = \<lparr>rn_name = name, rn_socket = socket\<rparr>
        in if entry \<in> set reg then (Inl AlreadyRegistered, reg) else (Inr (), reg @ [entry]))"

definition nbp_unregister :: "EntityName \<Rightarrow> u8 \<Rightarrow> NbpRegistry \<Rightarrow> bool \<times> NbpRegistry" where
  "nbp_unregister name socket reg =
     (let before = length reg;
          reg' = filter (\<lambda>n. \<not> (rn_name n = name \<and> rn_socket n = socket)) reg
      in (length reg' < before, reg'))"

section \<open>Lookups\<close>

record NbpReply =
  nr_dest :: AppleTalkAddress
  nr_dest_socket :: u8
  nr_payload :: bytes

definition reply_tuple :: "AppleTalkAddress \<Rightarrow> bytes \<Rightarrow> RegisteredName \<Rightarrow> NbpTuple" where
  "reply_tuple our zone n =
     \<lparr>tu_network = network_number our, tu_node = node_number our, tu_socket = rn_socket n, tu_enumerator = 0,
      tu_entity = \<lparr>en_object = en_object (rn_name n), en_type = en_type (rn_name n), en_zone = zone\<rparr>\<rparr>"

text \<open>The inner loop over the names; the boolean is \<open>break 'outer\<close> on a full tuple vector.\<close>

fun nbp_inner ::
  "AppleTalkAddress \<Rightarrow> bytes \<Rightarrow> EntityName \<Rightarrow> NbpRegistry \<Rightarrow> NbpTuple list \<Rightarrow> NbpTuple list \<times> bool" where
  "nbp_inner our zone req [] acc = (acc, False)"
| "nbp_inner our zone req (n # names) acc =
     (if entity_matches (rn_name n) req
      then (if length acc \<ge> MAX_NBP_TUPLES then (acc, True)
            else nbp_inner our zone req names (acc @ [reply_tuple our zone n]))
      else nbp_inner our zone req names acc)"

fun nbp_outer ::
  "AppleTalkAddress \<Rightarrow> bytes \<Rightarrow> NbpRegistry \<Rightarrow> NbpTuple list \<Rightarrow> NbpTuple list \<Rightarrow> NbpTuple list" where
  "nbp_outer our zone names [] acc = acc"
| "nbp_outer our zone names (req # reqs) acc =
     (let (acc', broke) = nbp_inner our zone (tu_entity req) names acc
      in if broke then acc' else nbp_outer our zone names reqs acc')"

definition nbp_handle_packet :: "NbpRegistry \<Rightarrow> bytes \<Rightarrow> AppleTalkAddress \<Rightarrow> NbpReply option" where
  "nbp_handle_packet reg payload our_addr =
     (case nbp_from_bytes payload of
        Inl _ \<Rightarrow> None
      | Inr packet \<Rightarrow>
          (if nbp_operation packet \<noteq> Lookup then None
           else
             (case from_wire MAX_NBP_NAME ZONE_WILDCARD of
                None \<Rightarrow> None
              | Some zone \<Rightarrow>
                  (let tuples = nbp_outer our_addr zone reg (nbp_tuples packet) [] in
                   if tuples = [] then None
                   else
                     (case nbp_tuples packet of
                        [] \<Rightarrow> None
                      | req_tuple # _ \<Rightarrow>
                          (let reply = \<lparr>nbp_operation = LookupReply,
                                        nbp_transaction_id = nbp_transaction_id packet, nbp_tuples = tuples\<rparr>
                           in case nbp_to_bytes reply (replicate 600 0) of
                                Inl _ \<Rightarrow> None
                              | Inr (sz, buf) \<Rightarrow>
                                  Some \<lparr>nr_dest = \<lparr>network_number = tu_network req_tuple, node_number = tu_node req_tuple\<rparr>,
                                        nr_dest_socket = tu_socket req_tuple,
                                        nr_payload = take sz buf\<rparr>))))))"

section \<open>The registry's invariant\<close>

definition registry_wf :: "NbpRegistry \<Rightarrow> bool" where
  "registry_wf reg \<longleftrightarrow> distinct reg \<and> (\<forall>n\<in>set reg. fully_qualified (rn_name n) \<and> entity_wf (rn_name n))"

lemma registry_wf_new: "registry_wf nbp_registry_new"
  by (simp add: registry_wf_def nbp_registry_new_def)

lemma registry_wf_register:
  "registry_wf reg \<Longrightarrow> entity_wf name \<Longrightarrow> registry_wf (snd (nbp_register name socket reg))"
  by (auto simp: registry_wf_def nbp_register_def Let_def)

lemma registry_wf_unregister: "registry_wf reg \<Longrightarrow> registry_wf (snd (nbp_unregister name socket reg))"
  by (auto simp: registry_wf_def nbp_unregister_def Let_def)

section \<open>What a lookup finds\<close>

text \<open>Every registration matching a requested tuple, in request order then registration order.\<close>

definition lookup_hits :: "NbpRegistry \<Rightarrow> NbpTuple list \<Rightarrow> RegisteredName list" where
  "lookup_hits reg reqs = concat (map (\<lambda>req. filter (\<lambda>n. entity_matches (rn_name n) (tu_entity req)) reg) reqs)"

lemma nbp_inner_eq:
  assumes "length acc \<le> MAX_NBP_TUPLES"
  shows "nbp_inner our zone req names acc =
    (let hits = map (reply_tuple our zone) (filter (\<lambda>n. entity_matches (rn_name n) req) names)
     in (take MAX_NBP_TUPLES (acc @ hits), MAX_NBP_TUPLES < length (acc @ hits)))"
  using assms
  by (induction our zone req names acc rule: nbp_inner.induct) (auto simp: Let_def)

lemma nbp_outer_eq:
  assumes "length acc \<le> MAX_NBP_TUPLES"
  shows "nbp_outer our zone names reqs acc =
    take MAX_NBP_TUPLES (acc @ map (reply_tuple our zone) (lookup_hits names reqs))"
  using assms
proof (induction reqs arbitrary: acc)
  case Nil
  then show ?case by (simp add: lookup_hits_def)
next
  case (Cons req reqs)
  let ?hits = "map (reply_tuple our zone) (filter (\<lambda>n. entity_matches (rn_name n) (tu_entity req)) names)"
  have inner: "nbp_inner our zone (tu_entity req) names acc
      = (take MAX_NBP_TUPLES (acc @ ?hits), MAX_NBP_TUPLES < length (acc @ ?hits))"
    using nbp_inner_eq [OF Cons.prems] by (simp only: Let_def)
  have hits: "map (reply_tuple our zone) (lookup_hits names (req # reqs))
      = ?hits @ map (reply_tuple our zone) (lookup_hits names reqs)"
    by (simp add: lookup_hits_def)
  show ?case
  proof (cases "MAX_NBP_TUPLES < length (acc @ ?hits)")
    case True
    then have "take MAX_NBP_TUPLES ((acc @ ?hits) @ rest) = take MAX_NBP_TUPLES (acc @ ?hits)" for rest
      by simp
    then show ?thesis using True inner unfolding hits nbp_outer.simps append_assoc by simp
  next
    case False
    then have t: "take MAX_NBP_TUPLES (acc @ ?hits) = acc @ ?hits" by simp
    have "nbp_outer our zone names (req # reqs) acc = nbp_outer our zone names reqs (acc @ ?hits)"
      using False by (simp only: nbp_outer.simps inner Let_def prod.case t if_False)
    also have "\<dots> = take MAX_NBP_TUPLES ((acc @ ?hits) @ map (reply_tuple our zone) (lookup_hits names reqs))"
      using False by (intro Cons.IH) simp
    finally show ?thesis unfolding hits by simp
  qed
qed

lemma set_lookup_hits: "set (lookup_hits reg reqs) \<subseteq> set reg"
  by (auto simp: lookup_hits_def)

text \<open>The packet a lookup is answered with.\<close>

definition lookup_reply :: "NbpRegistry \<Rightarrow> NbpPacket \<Rightarrow> AppleTalkAddress \<Rightarrow> NbpPacket" where
  "lookup_reply reg packet our =
     \<lparr>nbp_operation = LookupReply, nbp_transaction_id = nbp_transaction_id packet,
      nbp_tuples = take MAX_NBP_TUPLES (map (reply_tuple our ZONE_WILDCARD) (lookup_hits reg (nbp_tuples packet)))\<rparr>"

lemma lookup_reply_wf:
  assumes "registry_wf reg"
  shows "nbp_wf (lookup_reply reg packet our)"
proof -
  have "entity_wf (tu_entity t)" if "t \<in> set (nbp_tuples (lookup_reply reg packet our))" for t
  proof -
    from that obtain n where n: "n \<in> set (lookup_hits reg (nbp_tuples packet))" "t = reply_tuple our ZONE_WILDCARD n"
      by (auto simp: lookup_reply_def dest!: in_set_takeD)
    then have "entity_wf (rn_name n)"
      using assms set_lookup_hits by (force simp: registry_wf_def)
    with n(2) show ?thesis
      by (simp add: reply_tuple_def entity_wf_def ZONE_WILDCARD_def MAX_NBP_NAME_def)
  qed
  then show ?thesis by (simp add: nbp_wf_def lookup_reply_def)
qed

lemma nbp_write_tuples_size:
  "nbp_write_tuples ts offset buffer = Inr (n, out) \<Longrightarrow> offset \<le> length buffer \<Longrightarrow>
   n = offset + length (tuples_bytes ts) \<and> n \<le> length buffer"
proof (induction ts arbitrary: offset buffer)
  case Nil
  then show ?case by (simp add: tuples_bytes_def)
next
  case (Cons t ts)
  let ?b = "put offset (tuple_head t) buffer"
  from Cons.prems have l: "offset + 5 \<le> length buffer" by (simp split: if_splits)
  then have lb: "length ?b = length buffer" by simp
  from Cons.prems(1) l obtain k o1 where e: "entity_to_bytes (tu_entity t) (drop (offset + 5) ?b) = Inr (k, o1)"
    and w: "nbp_write_tuples ts (offset + 5 + k) (take (offset + 5) ?b @ o1) = Inr (n, out)"
    by (auto simp: Let_def split: if_splits sum.splits prod.splits)
  from e lb l have k: "k = length (entity_bytes (tu_entity t))" "offset + 5 + k \<le> length buffer" "length o1 = length buffer - (offset + 5)"
    by (auto simp: entity_to_bytes_eq put_0 split: if_splits)
  with lb l have "length (take (offset + 5) ?b @ o1) = length buffer" by simp
  with Cons.IH [OF w] k show ?case by (simp add: tuples_bytes_def tuple_bytes_def)
qed

lemma nbp_to_bytes_overflow:
  assumes "length buffer < length (nbp_bytes p)"
  shows "\<exists>e. nbp_to_bytes p buffer = Inl e"
proof (cases "nbp_to_bytes p buffer")
  case (Inr r)
  obtain n out where r: "r = (n, out)" by (cases r)
  with Inr have l: "2 \<le> length buffer"
    and w: "nbp_write_tuples (nbp_tuples p) 2 (put 0 [nbp_control p, nbp_transaction_id p] buffer) = Inr (n, out)"
    by (auto simp: nbp_to_bytes_def split: if_splits)
  from nbp_write_tuples_size [OF w] l assms show ?thesis by (simp add: nbp_bytes_def)
qed blast

section \<open>Properties\<close>

text \<open>Claim C24. A lookup is answered exactly when some registration matches one of its tuples
  and the reply fits 600 bytes; the answer goes to the address in the first request tuple,
  carries the request's transaction id, and lists, with our address and each name's socket, the
  matching registrations in request order then registration order, the first fifteen of them.
  When the reply does not fit, nothing is sent at all.\<close>

theorem nbp_lookup_answer:
  assumes "registry_wf reg" and "nbp_wf packet" and "nbp_operation packet = Lookup"
    and "nbp_tuples packet = req # reqs"
  shows "case nbp_handle_packet reg (nbp_bytes packet) our of
      None \<Rightarrow> lookup_hits reg (nbp_tuples packet) = [] \<or> 600 < length (nbp_bytes (lookup_reply reg packet our))
    | Some r \<Rightarrow> lookup_hits reg (nbp_tuples packet) \<noteq> []
        \<and> nr_dest r = \<lparr>network_number = tu_network req, node_number = tu_node req\<rparr>
        \<and> nr_dest_socket r = tu_socket req
        \<and> nbp_from_bytes (nr_payload r) = Inr (lookup_reply reg packet our)
        \<and> length (nbp_bytes (lookup_reply reg packet our)) \<le> 600"
proof -
  let ?reply = "lookup_reply reg packet our"
  have p: "nbp_from_bytes (nbp_bytes packet) = Inr packet"
    using nbp_from_bytes_eq [OF assms(2), of "[]"] by simp
  have z: "from_wire MAX_NBP_NAME ZONE_WILDCARD = Some ZONE_WILDCARD"
    by (simp add: from_wire_def MAX_NBP_NAME_def ZONE_WILDCARD_def)
  have o1: "nbp_outer our ZONE_WILDCARD reg (nbp_tuples packet) [] = nbp_tuples ?reply"
    using nbp_outer_eq [of "[]"] by (simp add: lookup_reply_def)
  have r: "\<lparr>nbp_operation = LookupReply, nbp_transaction_id = nbp_transaction_id packet, nbp_tuples = nbp_tuples ?reply\<rparr> = ?reply"
    by (simp add: lookup_reply_def)
  have e: "nbp_tuples ?reply = [] \<longleftrightarrow> lookup_hits reg (nbp_tuples packet) = []"
    by (simp add: lookup_reply_def MAX_NBP_TUPLES_def)
  have h: "nbp_handle_packet reg (nbp_bytes packet) our =
    (if lookup_hits reg (nbp_tuples packet) = [] then None
     else case nbp_to_bytes ?reply (replicate 600 0) of
        Inl _ \<Rightarrow> None
      | Inr (sz, buf) \<Rightarrow> Some \<lparr>nr_dest = \<lparr>network_number = tu_network req, node_number = tu_node req\<rparr>,
          nr_dest_socket = tu_socket req, nr_payload = take sz buf\<rparr>)"
    by (simp add: nbp_handle_packet_def p assms(3) z o1 e Let_def) (simp add: assms(4) r)
  show ?thesis
  proof (cases "length (nbp_bytes ?reply) \<le> 600")
    case True
    then have "length (nbp_bytes ?reply) \<le> length (replicate 600 (0 :: u8))" by simp
    from nbp_to_bytes_eq [OF this] True nbp_from_bytes_eq [OF lookup_reply_wf [OF assms(1)], of packet our "[]"]
    show ?thesis by (simp add: h)
  next
    case False
    then have "length (replicate 600 (0 :: u8)) < length (nbp_bytes ?reply)" by simp
    from nbp_to_bytes_overflow [OF this] False show ?thesis by (auto simp: h)
  qed
qed

definition sample_printer :: EntityName where
  "sample_printer = \<lparr>en_object = [80], en_type = [76], en_zone = [0x2A]\<rparr>"

definition sample_lookup :: NbpPacket where
  "sample_lookup = \<lparr>nbp_operation = Lookup, nbp_transaction_id = 9, nbp_tuples =
     [\<lparr>tu_network = 0, tu_node = 42, tu_socket = 253, tu_enumerator = 0,
       tu_entity = \<lparr>en_object = [0x3D], en_type = [76], en_zone = [0x2A]\<rparr>\<rparr>]\<rparr>"

theorem nbp_lookup_answer_witness:
  "\<exists>r. nbp_handle_packet [\<lparr>rn_name = sample_printer, rn_socket = 130\<rparr>] (nbp_bytes sample_lookup)
      \<lparr>network_number = 0, node_number = 7\<rparr> = Some r \<and> node_number (nr_dest r) = 42"
proof -
  let ?reg = "[\<lparr>rn_name = sample_printer, rn_socket = 130\<rparr>]" and ?our = "\<lparr>network_number = 0, node_number = 7\<rparr>"
  have reg: "registry_wf ?reg"
    by (simp add: registry_wf_def sample_printer_def fully_qualified_def entity_wf_def MAX_NBP_NAME_def wildcards)
  have wf: "nbp_wf sample_lookup" "nbp_operation sample_lookup = Lookup"
    by (simp_all add: nbp_wf_def sample_lookup_def entity_wf_def MAX_NBP_NAME_def MAX_NBP_TUPLES_def)
  have tu: "nbp_tuples sample_lookup = [hd (nbp_tuples sample_lookup)]"
    by (simp add: sample_lookup_def)
  have hits: "lookup_hits ?reg (nbp_tuples sample_lookup) = ?reg"
    by (simp add: lookup_hits_def sample_lookup_def sample_printer_def entity_matches_def match_part_def
        eq_ignore_ascii_case_def wildcards)
  have len: "\<not> 600 < length (nbp_bytes (lookup_reply ?reg sample_lookup ?our))"
    unfolding lookup_reply_def hits
    by (simp add: nbp_bytes_def tuples_bytes_def tuple_bytes_def length_entity_bytes reply_tuple_def
        sample_printer_def ZONE_WILDCARD_def MAX_NBP_TUPLES_def)
  from nbp_lookup_answer [OF reg wf tu, of ?our] hits len show ?thesis
    by (auto simp: sample_lookup_def split: option.splits)
qed

text \<open>Registration keeps the registry duplicate-free and wildcard-free: a name is
  added exactly when it has no wildcard and is not registered on that socket, it is then in
  the registry, and unregistering it reports and undoes exactly that.\<close>

theorem nbp_register_unregister:
  assumes "registry_wf reg" and "entity_wf name"
  shows "case nbp_register name socket reg of
      (Inl ContainsWildcards, reg') \<Rightarrow> \<not> fully_qualified name \<and> reg' = reg
    | (Inl AlreadyRegistered, reg') \<Rightarrow> \<lparr>rn_name = name, rn_socket = socket\<rparr> \<in> set reg \<and> reg' = reg
        \<and> fst (nbp_unregister name socket reg')
    | (Inr _, reg') \<Rightarrow> registry_wf reg' \<and> set reg' = insert \<lparr>rn_name = name, rn_socket = socket\<rparr> (set reg)
        \<and> nbp_unregister name socket reg' = (True, reg) \<and> fst (nbp_unregister name socket reg) = False"
proof -
  let ?x = "\<lparr>rn_name = name, rn_socket = socket\<rparr>"
  have eq: "(rn_name n = name \<and> rn_socket n = socket) \<longleftrightarrow> n = ?x" for n :: RegisteredName
    by (cases n) auto
  have un: "nbp_unregister name socket xs = (length (filter (\<lambda>n. n \<noteq> ?x) xs) < length xs, filter (\<lambda>n. n \<noteq> ?x) xs)" for xs
    by (simp only: nbp_unregister_def Let_def eq)
  have out: "?x \<notin> set xs \<Longrightarrow> filter (\<lambda>n. n \<noteq> ?x) xs = xs" for xs
    by (induction xs) auto
  have hit: "?x \<in> set xs \<Longrightarrow> length (filter (\<lambda>n. n \<noteq> ?x) xs) < length xs" for xs
    by (rule length_filter_less [of ?x]) simp_all
  have wf: "registry_wf (snd (nbp_register name socket reg))"
    using registry_wf_register [OF assms] .
  show ?thesis
  proof (cases "fully_qualified name")
    case False
    then show ?thesis by (simp add: nbp_register_def)
  next
    case fq: True
    show ?thesis
    proof (cases "?x \<in> set reg")
      case True
      with fq hit [OF True] show ?thesis by (simp add: nbp_register_def un)
    next
      case False
      with fq wf out [OF False] show ?thesis by (simp add: nbp_register_def un)
    qed
  qed
qed

theorem nbp_register_unregister_witness:
  "nbp_unregister sample_printer 130 (snd (nbp_register sample_printer 130 [])) = (True, [])"
proof -
  have "registry_wf []" "entity_wf sample_printer" "fully_qualified sample_printer"
    by (simp_all add: registry_wf_def sample_printer_def fully_qualified_def entity_wf_def MAX_NBP_NAME_def wildcards)
  with nbp_register_unregister [of "[]" sample_printer 130] show ?thesis
    by (simp add: nbp_register_def)
qed

end
