(* ===== verification/Core_Stack.thy ===== *)
theory Core_Stack
  imports Core_Node Core_Nbp
begin

text \<open>
  The LocalTalk stack of src/tailtalk-core/src/stack.rs: address acquisition, framing, socket
  dispatch and the always-on responders put together. The \<open>BTreeSet\<close> of sockets is a set.
\<close>

section \<open>State\<close>

definition RTMP_SOCKET :: u8 where "RTMP_SOCKET = 1"
definition DYNAMIC_SOCKET_LO :: u8 where "DYNAMIC_SOCKET_LO = 64"
definition DYNAMIC_SOCKET_HI :: u8 where "DYNAMIC_SOCKET_HI = 254"

record Datagram =
  dg_src :: AppleTalkAddress
  dg_src_socket :: u8
  dg_dst_socket :: u8
  dg_proto :: DdpProtocolType
  dg_payload :: bytes

record StackConfig =
  cfg_node_class :: NodeClass
  cfg_seed :: u32
  cfg_auto_ack_enq :: bool

datatype StackEvent =
    AddressAcquired AppleTalkAddress
  | NetworkNumberChanged u16
  | DatagramArrived Datagram

datatype SendError = NoAddress | TooLarge
datatype SocketError = InUse | Exhausted

record Stack =
  auto_ack_enq :: bool
  st_acquire :: "Acquisition option"
  st_node :: "u8 option"
  st_network :: u16
  st_router :: "AppleTalkAddress option"
  st_nbp :: NbpRegistry
  st_sockets :: "u8 set"
  st_rng :: Rand
  st_outbox :: "OutFrame list"
  st_events :: "StackEvent list"

definition stack_new :: "StackConfig \<Rightarrow> micros \<Rightarrow> Stack" where
  "stack_new cfg now = \<lparr>auto_ack_enq = cfg_auto_ack_enq cfg,
     st_acquire = Some (acq_new (cfg_node_class cfg) (cfg_seed cfg) now), st_node = None, st_network = 0,
     st_router = None, st_nbp = nbp_registry_new, st_sockets = {},
     st_rng = rand_new (cfg_seed cfg XOR 0xA5A55A5A), st_outbox = [], st_events = []\<rparr>"

definition our_address :: "Stack \<Rightarrow> AppleTalkAddress option" where
  "our_address s = map_option (\<lambda>n. \<lparr>network_number = st_network s, node_number = n\<rparr>) (st_node s)"

definition next_random :: "Stack \<Rightarrow> u32 \<times> Stack" where
  "next_random s = (let (v, r) = next_u32 (st_rng s) in (v, s\<lparr>st_rng := r\<rparr>))"

definition router_seen :: "Stack \<Rightarrow> bool" where
  "router_seen s = (st_router s \<noteq> None)"

definition stack_next_deadline :: "Stack \<Rightarrow> micros option" where
  "stack_next_deadline s = (case st_acquire s of None \<Rightarrow> None | Some a \<Rightarrow> acq_next_deadline a)"

definition push_out :: "OutFrame \<Rightarrow> Stack \<Rightarrow> Stack" where
  "push_out f s = s\<lparr>st_outbox := st_outbox s @ [f]\<rparr>"

definition push_event :: "StackEvent \<Rightarrow> Stack \<Rightarrow> Stack" where
  "push_event ev s = s\<lparr>st_events := st_events s @ [ev]\<rparr>"

section \<open>Timers\<close>

text \<open>The loop of \<open>poll\<close>: \<open>None\<close> is an acquisition that never stops probing.\<close>

partial_function (option) stack_poll :: "micros \<Rightarrow> Stack \<Rightarrow> Stack option" where
  "stack_poll now s =
     (case st_acquire s of
        None \<Rightarrow> Some s
      | Some a \<Rightarrow>
          (case acq_poll now a of
             (None, a') \<Rightarrow> Some (s\<lparr>st_acquire := Some a'\<rparr>)
           | (Some (SendEnq candidate), a') \<Rightarrow>
               stack_poll now (push_out \<lparr>of_dst = candidate, of_src = candidate, of_kind = Enquiry, of_payload = []\<rparr>
                 (s\<lparr>st_acquire := Some a'\<rparr>))
           | (Some (Claimed node), a') \<Rightarrow>
               Some (push_event (AddressAcquired \<lparr>network_number = st_network s, node_number = node\<rparr>)
                 (s\<lparr>st_node := Some node, st_acquire := None\<rparr>))))"

section \<open>Sending\<close>

text \<open>\<open>encode_ddp\<close> never fails (\<open>ddp_body_encodes\<close>).\<close>

definition ddp_body ::
  "bool \<Rightarrow> AppleTalkAddress \<Rightarrow> u8 \<Rightarrow> AppleTalkAddress \<Rightarrow> u8 \<Rightarrow> DdpProtocolType \<Rightarrow> bytes \<Rightarrow> bytes" where
  "ddp_body use_short src src_socket dest dest_socket proto payload =
     (case encode_ddp use_short src src_socket dest dest_socket proto payload of None \<Rightarrow> [] | Some b \<Rightarrow> b)"

definition send_ddp ::
  "AppleTalkAddress \<Rightarrow> u8 \<Rightarrow> u8 \<Rightarrow> DdpProtocolType \<Rightarrow> bytes \<Rightarrow> Stack \<Rightarrow> (SendError + unit) \<times> Stack" where
  "send_ddp dest dest_socket src_socket proto payload s =
     (case our_address s of
        None \<Rightarrow> (Inl NoAddress, s)
      | Some our \<Rightarrow>
          (if length payload > MAX_DDP_PAYLOAD then (Inl TooLarge, s)
           else
             let on_cable = (network_number dest = 0 \<or> network_number dest = st_network s)
             in if node_number dest = node_number our \<and> on_cable
                then (Inr (), if dest_socket \<in> st_sockets s
                  then push_event (DatagramArrived \<lparr>dg_src = our, dg_src_socket = src_socket, dg_dst_socket = dest_socket,
                         dg_proto = proto, dg_payload = payload\<rparr>) s
                  else s)
                else
                  let use_short = (st_router s = None);
                      body = ddp_body use_short our src_socket dest dest_socket proto payload;
                      llap_dest = (if node_number dest = 255 then 0xFF
                                  else case st_router s of
                                    Some router \<Rightarrow> (if \<not> on_cable then node_number router else node_number dest)
                                  | None \<Rightarrow> node_number dest)
                  in (Inr (), push_out \<lparr>of_dst = llap_dest, of_src = node_number our,
                        of_kind = (if use_short then DdpShort else DdpLong), of_payload = body\<rparr> s)))"

section \<open>Receiving\<close>

definition stack_handle_rtmp :: "bytes \<Rightarrow> AppleTalkAddress \<Rightarrow> Stack \<Rightarrow> Stack" where
  "stack_handle_rtmp payload src s =
     (case rtmp_observe payload (network_number src) (node_number src) of
        None \<Rightarrow> s
      | Some obs \<Rightarrow>
          (let s1 = s\<lparr>st_router := Some (obs_router obs)\<rparr>
           in case cable_network obs of
                Some net \<Rightarrow> (if net \<noteq> st_network s1
                             then push_event (NetworkNumberChanged net) (s1\<lparr>st_network := net\<rparr>) else s1)
              | None \<Rightarrow> s1))"

definition dispatch :: "DdpPacket \<Rightarrow> bytes \<Rightarrow> Stack \<Rightarrow> Stack" where
  "dispatch headers payload s =
     (case st_node s of
        None \<Rightarrow> s
      | Some node \<Rightarrow>
          (if \<not> (dest_node_id headers = 255 \<or> dest_node_id headers = node) then s
           else
             let src = \<lparr>network_number = src_network_num headers, node_number = src_node_id headers\<rparr>;
                 sock = dest_sock_num headers
             in if sock = RTMP_SOCKET then stack_handle_rtmp payload src s
                else if sock = NBP_SOCKET
                then (case our_address s of
                        None \<Rightarrow> s
                      | Some our \<Rightarrow>
                          (case nbp_handle_packet (st_nbp s) payload our of
                             None \<Rightarrow> s
                           | Some reply \<Rightarrow> snd (send_ddp (nr_dest reply) (nr_dest_socket reply) NBP_SOCKET Nbp (nr_payload reply) s)))
                else if sock = AEP_SOCKET
                then (case aep_respond payload of
                        None \<Rightarrow> s
                      | Some reply \<Rightarrow> snd (send_ddp src (src_sock_num headers) AEP_SOCKET Aep reply s))
                else if sock \<in> st_sockets s
                then push_event (DatagramArrived \<lparr>dg_src = src, dg_src_socket = src_sock_num headers, dg_dst_socket = sock,
                       dg_proto = protocol_typ headers, dg_payload = payload\<rparr>) s
                else s))"

definition handle_frame :: "bytes \<Rightarrow> micros \<Rightarrow> Stack \<Rightarrow> Stack" where
  "handle_frame data now s =
     (case llap_parse data of
        Inl _ \<Rightarrow> s
      | Inr llap \<Rightarrow>
          (if st_node s = Some (llap_src llap) \<and> llap_typ llap \<noteq> Acknowledge then s
           else
             (case llap_typ llap of
                Acknowledge \<Rightarrow> s\<lparr>st_acquire := map_option (on_ack (llap_src llap) now) (st_acquire s)\<rparr>
              | Enquiry \<Rightarrow>
                  (case st_node s of
                     Some node \<Rightarrow>
                       (if auto_ack_enq s \<and> llap_dst llap = node \<and> st_acquire s = None
                        then push_out \<lparr>of_dst = node, of_src = node, of_kind = Acknowledge, of_payload = []\<rparr> s else s)
                   | None \<Rightarrow> s)
              | DdpShort \<Rightarrow>
                  (case ddp_parse_short (drop 3 data) (llap_dst llap) (llap_src llap) of
                     Inl _ \<Rightarrow> s
                   | Inr headers \<Rightarrow>
                       (let end = min (3 + ddp_len headers) (length data)
                        in if end \<ge> 8 then dispatch headers (drop 8 (take end data)) s else s))
              | DdpLong \<Rightarrow>
                  (case ddp_parse (drop 3 data) of
                     Inl _ \<Rightarrow> s
                   | Inr headers \<Rightarrow>
                       (let end = min (3 + ddp_len headers) (length data)
                        in if end \<ge> 3 + DDP_LEN then dispatch headers (drop (3 + DDP_LEN) (take end data)) s else s))
              | LlapOther _ \<Rightarrow> s)))"

section \<open>Sockets and names\<close>

fun open_dynamic :: "nat \<Rightarrow> Stack \<Rightarrow> (SocketError + u8) \<times> Stack" where
  "open_dynamic 0 s = (Inl Exhausted, s)"
| "open_dynamic (Suc k) s =
     (let (n, r) = in_range (st_rng s) DYNAMIC_SOCKET_LO DYNAMIC_SOCKET_HI; s1 = s\<lparr>st_rng := r\<rparr>
      in if n \<in> st_sockets s1 then open_dynamic k s1
         else (Inr n, s1\<lparr>st_sockets := insert n (st_sockets s1)\<rparr>))"

definition open_socket :: "u8 option \<Rightarrow> Stack \<Rightarrow> (SocketError + u8) \<times> Stack" where
  "open_socket socket s =
     (case socket of
        Some n \<Rightarrow>
          (if n \<in> {RTMP_SOCKET, NBP_SOCKET, AEP_SOCKET} \<or> n \<in> st_sockets s then (Inl InUse, s)
           else (Inr n, s\<lparr>st_sockets := insert n (st_sockets s)\<rparr>))
      | None \<Rightarrow> open_dynamic (unat (DYNAMIC_SOCKET_HI - DYNAMIC_SOCKET_LO) * 2 + 1) s)"

definition close_socket :: "u8 \<Rightarrow> Stack \<Rightarrow> Stack" where
  "close_socket socket s = s\<lparr>st_sockets := st_sockets s - {socket}\<rparr>"

definition stack_nbp_register :: "EntityName \<Rightarrow> u8 \<Rightarrow> Stack \<Rightarrow> (RegisterError + unit) \<times> Stack" where
  "stack_nbp_register name socket s =
     (let (r, reg) = nbp_register name socket (st_nbp s) in (r, s\<lparr>st_nbp := reg\<rparr>))"

definition stack_nbp_unregister :: "EntityName \<Rightarrow> u8 \<Rightarrow> Stack \<Rightarrow> bool \<times> Stack" where
  "stack_nbp_unregister name socket s =
     (let (r, reg) = nbp_unregister name socket (st_nbp s) in (r, s\<lparr>st_nbp := reg\<rparr>))"

definition stack_poll_transmit :: "Stack \<Rightarrow> OutFrame option \<times> Stack" where
  "stack_poll_transmit s = (case st_outbox s of [] \<Rightarrow> (None, s) | f # fs \<Rightarrow> (Some f, s\<lparr>st_outbox := fs\<rparr>))"

definition stack_poll_event :: "Stack \<Rightarrow> StackEvent option \<times> Stack" where
  "stack_poll_event s = (case st_events s of [] \<Rightarrow> (None, s) | e # es \<Rightarrow> (Some e, s\<lparr>st_events := es\<rparr>))"

section \<open>Frames between stacks\<close>

lemma ddp_body_long:
  "ddp_body False src ss dest ds proto payload =
     ddp_header (ddp_out_header (length payload + 13) src ss dest ds proto
       (compute_checksum (drop 4 (ddp_header (ddp_out_header (length payload + 13) src ss dest ds proto 0) @ payload)))) @ payload"
  by (simp only: ddp_body_def encode_ddp_long Let_def option.case)

lemma ddp_body_short:
  "ddp_body True src ss dest ds proto payload =
     ddp_short_header (ddp_out_header (length payload + 5) src ss dest ds proto 0) @ payload"
  by (simp only: ddp_body_def encode_ddp_short option.case)

lemma ddp_body_encodes: "encode_ddp b src ss dest ds proto payload = Some (ddp_body b src ss dest ds proto payload)"
  by (cases b) (simp_all only: ddp_body_def encode_ddp_long encode_ddp_short Let_def option.case)

lemma length_ddp_body: "length (ddp_body b src ss dest ds proto payload) = (if b then 5 else 13) + length payload"
  by (cases b) (simp_all only: ddp_body_long ddp_body_short length_append length_ddp_header length_ddp_short_header if_True if_False)

lemma handle_short_frame:
  assumes "length payload \<le> MAX_DDP_PAYLOAD" and "proto_wf proto" and "st_node s \<noteq> Some (node_number src)"
  shows "handle_frame (out_to_bytes \<lparr>of_dst = node_number dest, of_src = node_number src, of_kind = DdpShort,
      of_payload = ddp_body True src ss dest ds proto payload\<rparr>) now s =
    dispatch ((ddp_out_header (length payload + 5) src ss dest ds proto 0)\<lparr>dest_network_num := 0, src_network_num := 0\<rparr>) payload s"
proof -
  let ?h = "(ddp_out_header (length payload + 5) src ss dest ds proto 0)\<lparr>dest_network_num := 0, src_network_num := 0\<rparr>"
  have e: "ddp_body True src ss dest ds proto payload = ddp_short_header ?h @ payload"
    by (simp add: ddp_body_short) (simp add: ddp_short_header_def ddp_out_header_def)
  have "ddp_short_wf ?h" using assms(1,2) by (simp add: ddp_short_wf_def ddp_out_header_def MAX_DDP_PAYLOAD_def)
  from ddp_parse_short_header [OF this, of payload] have
    "ddp_parse_short (ddp_short_header ?h @ payload) (node_number dest) (node_number src) = Inr ?h"
    by (simp add: ddp_out_header_def)
  moreover have "ddp_len ?h = length payload + 5" by (simp add: ddp_out_header_def)
  ultimately show ?thesis
    using assms(3) length_ddp_short_header [of ?h]
    by (simp add: handle_frame_def out_to_bytes_def llap_parse_def llap_to_u8_def llap_from_u8_def e Let_def)
qed

lemma handle_long_frame:
  assumes "length payload \<le> MAX_DDP_PAYLOAD" and "proto_wf proto" and "st_node s \<noteq> Some lsrc"
  shows "\<exists>c. handle_frame (out_to_bytes \<lparr>of_dst = ldst, of_src = lsrc, of_kind = DdpLong,
      of_payload = ddp_body False src ss dest ds proto payload\<rparr>) now s =
    dispatch (ddp_out_header (length payload + 13) src ss dest ds proto c) payload s"
proof -
  obtain c where e: "ddp_body False src ss dest ds proto payload = ddp_header (ddp_out_header (length payload + 13) src ss dest ds proto c) @ payload"
    using ddp_body_long by blast
  let ?h = "ddp_out_header (length payload + 13) src ss dest ds proto c"
  have "ddp_wf ?h" using assms(1,2) by (simp add: ddp_wf_def ddp_out_header_def MAX_DDP_PAYLOAD_def)
  from ddp_parse_header [OF this, of payload] have "ddp_parse (ddp_header ?h @ payload) = Inr ?h" .
  moreover have "ddp_len ?h = length payload + 13" by (simp add: ddp_out_header_def)
  ultimately show ?thesis
    using assms(3) length_ddp_header [of ?h]
    by (intro exI [of _ c]) (simp add: handle_frame_def out_to_bytes_def llap_parse_def llap_to_u8_def llap_from_u8_def e Let_def DDP_LEN_def)
qed

text \<open>The network number a receiver sees: the short header carries none.\<close>

definition seen_address :: "Stack \<Rightarrow> u8 \<Rightarrow> AppleTalkAddress" where
  "seen_address s n = \<lparr>network_number = (if st_router s = None then 0 else st_network s), node_number = n\<rparr>"

definition on_cable :: "AppleTalkAddress \<Rightarrow> Stack \<Rightarrow> bool" where
  "on_cable dest s \<longleftrightarrow> network_number dest = 0 \<or> network_number dest = st_network s"

lemma send_reaches:
  assumes "st_node s = Some a" and "node_number dest \<noteq> a" and "on_cable dest s"
    and "length payload \<le> MAX_DDP_PAYLOAD" and "proto_wf proto"
  shows "\<exists>f. send_ddp dest ds ss proto payload s = (Inr (), push_out f s) \<and> of_src f = a \<and> length (out_to_bytes f) \<le> 602
    \<and> (\<forall>r now. st_node r \<noteq> Some a \<longrightarrow> (\<exists>h. handle_frame (out_to_bytes f) now r = dispatch h payload r
          \<and> dest_node_id h = node_number dest \<and> dest_sock_num h = ds \<and> src_sock_num h = ss \<and> protocol_typ h = proto
          \<and> \<lparr>network_number = src_network_num h, node_number = src_node_id h\<rparr> = seen_address s a))"
proof -
  let ?our = "\<lparr>network_number = st_network s, node_number = a\<rparr>"
  let ?b = "ddp_body (st_router s = None) ?our ss dest ds proto payload"
  define f where "f = \<lparr>of_dst = node_number dest, of_src = a,
    of_kind = (if st_router s = None then DdpShort else DdpLong), of_payload = ?b\<rparr>"
  have "(if node_number dest = 255 then 0xFF else case st_router s of
      Some router \<Rightarrow> (if \<not> (network_number dest = 0 \<or> network_number dest = st_network s) then node_number router else node_number dest)
    | None \<Rightarrow> node_number dest) = node_number dest"
    using assms(3) by (auto simp: on_cable_def split: option.split)
  then have s: "send_ddp dest ds ss proto payload s = (Inr (), push_out f s)"
    using assms(1,2,4) by (simp add: send_ddp_def our_address_def Let_def f_def)
  have l: "length (out_to_bytes f) \<le> 602"
    using assms(4) by (simp add: out_to_bytes_def f_def length_ddp_body MAX_DDP_PAYLOAD_def)
  have "\<exists>h. handle_frame (out_to_bytes f) now r = dispatch h payload r
          \<and> dest_node_id h = node_number dest \<and> dest_sock_num h = ds \<and> src_sock_num h = ss \<and> protocol_typ h = proto
          \<and> \<lparr>network_number = src_network_num h, node_number = src_node_id h\<rparr> = seen_address s a"
    if r: "st_node r \<noteq> Some a" for r now
  proof (cases "st_router s")
    case None
    with handle_short_frame [OF assms(4,5), of r ?our dest ss ds now] r show ?thesis
      by (intro exI [of _ "(ddp_out_header (length payload + 5) ?our ss dest ds proto 0)\<lparr>dest_network_num := 0, src_network_num := 0\<rparr>"])
        (simp add: f_def, simp add: ddp_out_header_def seen_address_def)
  next
    case (Some x)
    from handle_long_frame [OF assms(4,5) r, of "node_number dest" ?our ss dest ds now] obtain c where
      "handle_frame (out_to_bytes f) now r = dispatch (ddp_out_header (length payload + 13) ?our ss dest ds proto c) payload r"
      using Some by (auto simp: f_def)
    with Some show ?thesis
      by (intro exI [of _ "ddp_out_header (length payload + 13) ?our ss dest ds proto c"])
        (simp add: ddp_out_header_def seen_address_def)
  qed
  with s l show ?thesis by (intro exI [of _ f]) (simp add: f_def)
qed

lemma dispatch_to_socket:
  assumes "st_node r = Some b" and "ds \<notin> {RTMP_SOCKET, NBP_SOCKET, AEP_SOCKET}" and "dest_sock_num h = ds"
  shows "dispatch h payload r =
    (if (dest_node_id h = b \<or> dest_node_id h = 255) \<and> ds \<in> st_sockets r
     then push_event (DatagramArrived \<lparr>dg_src = \<lparr>network_number = src_network_num h, node_number = src_node_id h\<rparr>,
       dg_src_socket = src_sock_num h, dg_dst_socket = ds, dg_proto = protocol_typ h, dg_payload = payload\<rparr>) r
     else r)"
  using assms by (auto simp: dispatch_def Let_def)

lemma dispatch_echo:
  assumes "st_node r = Some b" and "dest_node_id h = b" and "dest_sock_num h = AEP_SOCKET"
  shows "dispatch h (1 # data) r = snd (send_ddp \<lparr>network_number = src_network_num h, node_number = src_node_id h\<rparr>
    (src_sock_num h) AEP_SOCKET Aep (2 # data) r)"
  using assms by (simp add: dispatch_def Let_def AEP_SOCKET_def RTMP_SOCKET_def NBP_SOCKET_def aep_respond_echo)

section \<open>What a stack puts on the wire\<close>

datatype StackInput =
    SiPoll micros
  | SiFrame bytes micros
  | SiOpen "u8 option"
  | SiClose u8
  | SiRegister EntityName u8
  | SiUnregister EntityName u8
  | SiSend AppleTalkAddress u8 u8 DdpProtocolType bytes
  | SiRandom
  | SiDrainTransmit
  | SiDrainEvent

fun stack_input :: "StackInput \<Rightarrow> Stack \<Rightarrow> Stack option" where
  "stack_input (SiPoll now) s = stack_poll now s"
| "stack_input (SiFrame data now) s = Some (handle_frame data now s)"
| "stack_input (SiOpen socket) s = Some (snd (open_socket socket s))"
| "stack_input (SiClose socket) s = Some (close_socket socket s)"
| "stack_input (SiRegister name socket) s = Some (snd (stack_nbp_register name socket s))"
| "stack_input (SiUnregister name socket) s = Some (snd (stack_nbp_unregister name socket s))"
| "stack_input (SiSend dest ds ss proto payload) s = Some (snd (send_ddp dest ds ss proto payload s))"
| "stack_input SiRandom s = Some (snd (next_random s))"
| "stack_input SiDrainTransmit s = Some (snd (stack_poll_transmit s))"
| "stack_input SiDrainEvent s = Some (snd (stack_poll_event s))"

fun stack_run :: "StackInput list \<Rightarrow> Stack \<Rightarrow> Stack option" where
  "stack_run [] s = Some s"
| "stack_run (i # is) s = Option.bind (stack_input i s) (stack_run is)"

text \<open>
  The two kinds of frames: a probe for an address of the class, and a frame of an address: an
  empty acknowledgement or a datagram of at most 599 bytes. A queue may hold probes, and, once
  there is an address, frames of it; what is queued while there is an address is a frame of it.
\<close>

definition probe_frame :: "NodeClass \<Rightarrow> OutFrame \<Rightarrow> bool" where
  "probe_frame c f \<longleftrightarrow> of_kind f = Enquiry \<and> of_src f = of_dst f \<and> in_class c (of_src f) \<and> of_payload f = []"

definition own_frame :: "u8 \<Rightarrow> OutFrame \<Rightarrow> bool" where
  "own_frame node f \<longleftrightarrow> of_src f = node \<and>
     (of_kind f = Acknowledge \<and> of_dst f = node \<and> of_payload f = []
      \<or> of_kind f \<in> {DdpShort, DdpLong} \<and> length (of_payload f) \<le> 599)"

definition frame_ok :: "NodeClass \<Rightarrow> u8 option \<Rightarrow> OutFrame \<Rightarrow> bool" where
  "frame_ok c node f \<longleftrightarrow> probe_frame c f \<or> (\<exists>n. node = Some n \<and> own_frame n f)"

lemmas frame_defs = frame_ok_def probe_frame_def own_frame_def

text \<open>What one input adds to the queue of a stack.\<close>

definition queues :: "NodeClass \<Rightarrow> Stack \<Rightarrow> OutFrame list \<Rightarrow> Stack \<Rightarrow> bool" where
  "queues c s fs s' \<longleftrightarrow> st_outbox s' = st_outbox s @ fs
     \<and> (case st_node s of
          None \<Rightarrow> list_all (probe_frame c) fs
        | Some n \<Rightarrow> list_all (own_frame n) fs \<and> st_node s' = Some n)"

definition acq_ok :: "NodeClass \<Rightarrow> Acquisition \<Rightarrow> bool" where
  "acq_ok c a \<longleftrightarrow> acq_class a = c \<and> in_class c (acq_candidate a) \<and> probe_interval a = DEFAULT_INTERVAL_US"

definition stack_ok :: "NodeClass \<Rightarrow> Stack \<Rightarrow> bool" where
  "stack_ok c s \<longleftrightarrow>
     (st_node s = None \<longleftrightarrow> st_acquire s \<noteq> None) \<and> pred_option (acq_ok c) (st_acquire s) \<and> pred_option (in_class c) (st_node s)
     \<and> (st_router s = None \<longrightarrow> st_network s = 0)
     \<and> st_sockets s \<inter> {RTMP_SOCKET, NBP_SOCKET, AEP_SOCKET} = {}
     \<and> (\<forall>f\<in>set (st_outbox s). frame_ok c (st_node s) f)"

lemma push_event_ok [simp]: "stack_ok c (push_event e s) = stack_ok c s"
  by (simp add: stack_ok_def push_event_def)

lemma push_out_ok: "stack_ok c s \<Longrightarrow> frame_ok c (st_node s) f \<Longrightarrow> stack_ok c (push_out f s)"
  by (auto simp: stack_ok_def push_out_def)

lemma send_ddp_ok: "stack_ok c s \<Longrightarrow> stack_ok c (snd (send_ddp dest ds ss proto payload s))"
  by (auto simp: send_ddp_def our_address_def Let_def frame_defs length_ddp_body MAX_DDP_PAYLOAD_def
      intro!: push_out_ok split: option.splits)

lemma handle_rtmp_ok: "stack_ok c s \<Longrightarrow> stack_ok c (stack_handle_rtmp payload src s)"
  by (auto simp: stack_handle_rtmp_def Let_def stack_ok_def push_event_def split: option.splits)

lemma dispatch_ok: "stack_ok c s \<Longrightarrow> stack_ok c (dispatch h payload s)"
  by (simp add: dispatch_def Let_def handle_rtmp_ok send_ddp_ok split: option.split)

lemma on_ack_ok: "acq_ok c a \<Longrightarrow> acq_ok c (on_ack n now a)"
proof (cases "acq_done a \<or> n \<noteq> acq_candidate a")
  case False
  then show "acq_ok c a \<Longrightarrow> acq_ok c (on_ack n now a)"
    using on_ack_new_candidate [of a now]
    by (auto simp: acq_ok_def on_ack_def Let_def split: prod.splits if_splits)
qed (simp add: on_ack_def)

lemma handle_frame_ok: "stack_ok c s \<Longrightarrow> stack_ok c (handle_frame data now s)"
proof -
  assume s: "stack_ok c s"
  have a: "stack_ok c (s\<lparr>st_acquire := map_option (on_ack n now) (st_acquire s)\<rparr>)" for n
    using s on_ack_ok by (cases "st_acquire s") (auto simp: stack_ok_def)
  have e: "stack_ok c (push_out \<lparr>of_dst = node, of_src = node, of_kind = Acknowledge, of_payload = []\<rparr> s)"
    if "st_node s = Some node" for node
    using s that by (intro push_out_ok) (simp_all add: frame_defs)
  show ?thesis
    using s a e by (simp add: handle_frame_def Let_def dispatch_ok split: sum.split LlapType.split option.split)
qed

lemma open_dynamic_ok:
  assumes "stack_ok c s"
  shows "stack_ok c (snd (open_dynamic k s))
    \<and> (\<forall>n. fst (open_dynamic k s) = Inr n \<longrightarrow> DYNAMIC_SOCKET_LO \<le> n \<and> n \<le> DYNAMIC_SOCKET_HI \<and> n \<notin> st_sockets s)"
  using assms
proof (induction k arbitrary: s)
  case (Suc k)
  obtain n r where n: "in_range (st_rng s) DYNAMIC_SOCKET_LO DYNAMIC_SOCKET_HI = (n, r)" by (meson surj_pair)
  have b: "DYNAMIC_SOCKET_LO \<le> n" "n \<le> DYNAMIC_SOCKET_HI"
    using in_range_bounds [of DYNAMIC_SOCKET_LO DYNAMIC_SOCKET_HI "st_rng s"] n
    by (simp_all add: DYNAMIC_SOCKET_LO_def DYNAMIC_SOCKET_HI_def)
  have "n \<notin> {RTMP_SOCKET, NBP_SOCKET, AEP_SOCKET}"
    using b(1) by (auto simp: DYNAMIC_SOCKET_LO_def RTMP_SOCKET_def NBP_SOCKET_def AEP_SOCKET_def word_le_nat_alt)
  moreover have "stack_ok c (s\<lparr>st_rng := r\<rparr>)" using Suc.prems by (simp add: stack_ok_def)
  ultimately show ?case using Suc.IH [of "s\<lparr>st_rng := r\<rparr>"] Suc.prems b
    by (auto simp: n Let_def stack_ok_def)
qed simp

lemma open_socket_ok: "stack_ok c s \<Longrightarrow> stack_ok c (snd (open_socket socket s))"
proof (cases socket)
  case None
  then show "stack_ok c s \<Longrightarrow> ?thesis" using open_dynamic_ok [of c s] by (simp add: open_socket_def del: open_dynamic.simps)
qed (auto simp: open_socket_def stack_ok_def)

lemma stack_poll_ok:
  assumes "stack_ok c s"
  shows "\<exists>s'. stack_poll now s = Some s' \<and> stack_ok c s'"
proof -
  have none: ?thesis if "st_acquire s = None" using assms that by (subst stack_poll.simps) simp
  have claimed: "\<exists>s'. stack_poll now s = Some s' \<and> stack_ok c s'"
    if "stack_ok c s" "st_acquire s = Some a" "acq_poll now a = (Some (Claimed n), a')" for s a a' n
  proof -
    have "in_class c n" using that by (auto simp: stack_ok_def acq_ok_def acq_poll_def split: if_splits)
    then have "stack_ok c (s\<lparr>st_node := Some n, st_acquire := None\<rparr>)"
      using that(1,2) by (auto simp: stack_ok_def frame_defs)
    then show ?thesis using that(2,3) by (subst stack_poll.simps) simp
  qed
  have idle: "stack_poll now s = Some s" if "st_acquire s = Some a" "fst (acq_poll now a) = None" for s a
    using that by (subst stack_poll.simps) (cases s, auto simp: acq_poll_def split: if_splits)
  show ?thesis
  proof (cases "st_acquire s")
    case None then show ?thesis by (rule none)
  next
    case (Some a)
    obtain ev a' where p: "acq_poll now a = (ev, a')" by (meson surj_pair)
    show ?thesis
    proof (cases ev)
      case None with p Some idle [of s a] assms show ?thesis by simp
    next
      case (Some e)
      show ?thesis
      proof (cases e)
        case (Claimed n) with p Some claimed [OF assms \<open>st_acquire s = Some a\<close>] show ?thesis by simp
      next
        case (SendEnq n)
        have ok: "acq_ok c a" using assms \<open>st_acquire s = Some a\<close> by (simp add: stack_ok_def)
        have a': "n = acq_candidate a" "a' = a\<lparr>probes_sent := probes_sent a + 1, next_action_at := now + probe_interval a\<rparr>"
          using p Some SendEnq by (auto simp: acq_poll_def split: if_splits)
        let ?s = "push_out \<lparr>of_dst = n, of_src = n, of_kind = Enquiry, of_payload = []\<rparr> (s\<lparr>st_acquire := Some a'\<rparr>)"
        have "stack_ok c (s\<lparr>st_acquire := Some a'\<rparr>)"
          using assms \<open>st_acquire s = Some a\<close> by (auto simp: stack_ok_def acq_ok_def a'(2))
        then have s': "stack_ok c ?s"
          using ok by (intro push_out_ok) (simp_all add: frame_defs acq_ok_def a'(1))
        have "fst (acq_poll now a') = None" using ok by (simp add: acq_poll_def a'(2) acq_ok_def DEFAULT_INTERVAL_US_def)
        then have "stack_poll now ?s = Some ?s" by (intro idle [of _ a']) (simp_all add: push_out_def)
        then show ?thesis using s' p Some SendEnq \<open>st_acquire s = Some a\<close> by (subst stack_poll.simps) simp
      qed
    qed
  qed
qed

lemma stack_input_ok:
  assumes "stack_ok c s" shows "\<exists>s'. stack_input i s = Some s' \<and> stack_ok c s'"
proof (cases i)
  case (SiPoll now) with stack_poll_ok [OF assms] show ?thesis by simp
next
  case SiDrainTransmit then show ?thesis using assms by (cases "st_outbox s") (simp_all add: stack_poll_transmit_def stack_ok_def)
next
  case SiDrainEvent then show ?thesis using assms by (cases "st_events s") (simp_all add: stack_poll_event_def stack_ok_def)
qed (use assms in \<open>simp_all add: handle_frame_ok open_socket_ok send_ddp_ok\<close>,
    auto simp: stack_ok_def close_socket_def stack_nbp_register_def stack_nbp_unregister_def next_random_def split_beta Let_def)

lemma stack_run_ok: "stack_ok c s \<Longrightarrow> \<exists>s'. stack_run is s = Some s' \<and> stack_ok c s'"
proof (induction "is" arbitrary: s)
  case (Cons i "is")
  from stack_input_ok [OF Cons.prems, of i] obtain s1 where "stack_input i s = Some s1" "stack_ok c s1" by blast
  with Cons.IH [of s1] show ?case by simp
qed simp

subsection \<open>What an input queues\<close>

lemma queues_same: "st_outbox s' = st_outbox s \<Longrightarrow> st_node s' = st_node s \<Longrightarrow> \<exists>fs. queues c s fs s'"
  by (intro exI [of _ "[]"]) (simp add: queues_def split: option.split)

lemma queues_one:
  "st_node s = Some n \<Longrightarrow> own_frame n f \<Longrightarrow> \<exists>fs. queues c s fs (push_out f s)"
  by (intro exI [of _ "[f]"]) (simp add: queues_def push_out_def)

lemma send_ddp_queues: "\<exists>fs. queues c s fs (snd (send_ddp dest ds ss proto payload s))"
proof (cases "st_node s")
  case None
  then show ?thesis by (simp add: send_ddp_def our_address_def queues_same)
next
  case (Some n)
  have one: "own_frame n f \<Longrightarrow> \<exists>fs. queues c s fs (push_out f s)" for f by (rule queues_one [OF Some])
  have ev: "\<exists>fs. queues c s fs (push_event e s)" for e by (simp add: queues_same push_event_def)
  have nop: "\<exists>fs. queues c s fs s" by (simp add: queues_same)
  show ?thesis
    using Some by (simp add: send_ddp_def our_address_def Let_def one ev nop own_frame_def length_ddp_body MAX_DDP_PAYLOAD_def)
qed

lemma dispatch_queues: "\<exists>fs. queues c s fs (dispatch h payload s)"
  by (auto simp: dispatch_def Let_def send_ddp_queues stack_handle_rtmp_def push_event_def
      intro!: queues_same split: option.split)

lemma handle_frame_queues: "\<exists>fs. queues c s fs (handle_frame data now s)"
proof -
  have a: "\<exists>fs. queues c s fs (push_out \<lparr>of_dst = node, of_src = node, of_kind = Acknowledge, of_payload = []\<rparr> s)"
    if "st_node s = Some node" for node using that by (intro queues_one) (simp_all add: own_frame_def)
  show ?thesis
    by (auto simp: handle_frame_def Let_def dispatch_queues a
        intro!: queues_same split: sum.split LlapType.split option.split)
qed

lemma open_dynamic_queues: "st_outbox (snd (open_dynamic k s)) = st_outbox s \<and> st_node (snd (open_dynamic k s)) = st_node s"
  by (induction k arbitrary: s) (simp_all add: Let_def split_beta)

lemma stack_poll_queues:
  assumes "stack_ok c s" and "stack_poll now s = Some s'"
  shows "\<exists>fs. queues c s fs s'"
proof (cases "st_acquire s")
  case None
  then have "s' = s" using assms(2) by (subst (asm) stack_poll.simps) simp
  then show ?thesis by (simp add: queues_same)
next
  case (Some a)
  then have n: "st_node s = None" and ok: "acq_ok c a" using assms(1) by (auto simp: stack_ok_def)
  have stop: "st_outbox t = st_outbox x" if "stack_poll now x = Some t" "st_acquire x = Some b"
    "fst (acq_poll now b) = None \<or> (\<exists>k. fst (acq_poll now b) = Some (Claimed k))" for x t b
    using that by (subst (asm) stack_poll.simps) (cases "acq_poll now b", auto simp: push_event_def)
  show ?thesis
  proof (cases "\<exists>k. fst (acq_poll now a) = Some (SendEnq k)")
    case False
    then have "fst (acq_poll now a) = None \<or> (\<exists>k. fst (acq_poll now a) = Some (Claimed k))"
      by (cases "fst (acq_poll now a)") (auto, metis AcquireEvent.exhaust)
    from stop [OF assms(2) Some this] n show ?thesis by (intro exI [of _ "[]"]) (simp add: queues_def)
  next
    case True
    then obtain k a' where p: "acq_poll now a = (Some (SendEnq k), a')" by (metis prod.collapse)
    then have a': "k = acq_candidate a" "a' = a\<lparr>probes_sent := probes_sent a + 1, next_action_at := now + probe_interval a\<rparr>"
      by (auto simp: acq_poll_def split: if_splits)
    let ?f = "\<lparr>of_dst = k, of_src = k, of_kind = Enquiry, of_payload = []\<rparr>"
    have "stack_poll now (push_out ?f (s\<lparr>st_acquire := Some a'\<rparr>)) = Some s'"
      using assms(2) Some p by (subst (asm) stack_poll.simps) simp
    moreover have "fst (acq_poll now a') = None" using ok by (simp add: acq_poll_def a'(2) acq_ok_def DEFAULT_INTERVAL_US_def)
    ultimately have "st_outbox s' = st_outbox s @ [?f]" using stop by (fastforce simp: push_out_def)
    moreover have "probe_frame c ?f" using ok by (simp add: probe_frame_def a'(1) acq_ok_def)
    ultimately show ?thesis using n by (intro exI [of _ "[?f]"]) (simp add: queues_def)
  qed
qed

lemma stack_input_queues:
  assumes "stack_ok c s"
  shows "\<exists>s'. stack_input i s = Some s'
    \<and> (if i = SiDrainTransmit then st_outbox s' = tl (st_outbox s) \<and> st_node s' = st_node s else \<exists>fs. queues c s fs s')"
proof (cases i)
  case (SiPoll now)
  then show ?thesis using stack_poll_ok [OF assms] stack_poll_queues [OF assms] by fastforce
next
  case SiDrainTransmit
  then show ?thesis by (simp add: stack_poll_transmit_def split: list.split)
qed (auto simp: handle_frame_queues send_ddp_queues open_socket_def open_dynamic_queues close_socket_def
    stack_nbp_register_def stack_nbp_unregister_def next_random_def stack_poll_event_def split_beta Let_def
    intro!: queues_same split: option.split list.split)

lemma stack_new_ok: "stack_ok (cfg_node_class cfg) (stack_new cfg now)"
  using acq_inv_new [of "cfg_node_class cfg" "cfg_seed cfg" now]
  by (simp add: stack_ok_def stack_new_def acq_ok_def acq_inv_def)

section \<open>Properties\<close>

text \<open>
Claim C9: A datagram crosses the cable: when one stack sends at most 586 bytes to a node of its cable (or
  to all of them), exactly one frame of at most 602 bytes goes out, and any other stack that
  receives it hands exactly that payload, with the sender's address and both sockets, to the socket it has open,
  if the datagram is for it, and is left as it was otherwise. The short and the long header agree but
  for the network number the short one cannot carry.\<close>

theorem stack_datagram_delivered:
  assumes "st_node s = Some a" and "st_node r = Some b" and "a \<noteq> b" and "node_number dest \<noteq> a" and "on_cable dest s"
    and "length payload \<le> MAX_DDP_PAYLOAD" and "proto_wf proto" and "ds \<notin> {RTMP_SOCKET, NBP_SOCKET, AEP_SOCKET}"
  shows "\<exists>f. send_ddp dest ds ss proto payload s = (Inr (), s\<lparr>st_outbox := st_outbox s @ [f]\<rparr>)
    \<and> length (out_to_bytes f) \<le> 602
    \<and> handle_frame (out_to_bytes f) now r =
       (if (node_number dest = b \<or> node_number dest = 255) \<and> ds \<in> st_sockets r
        then r\<lparr>st_events := st_events r @ [DatagramArrived \<lparr>dg_src = seen_address s a, dg_src_socket = ss,
               dg_dst_socket = ds, dg_proto = proto, dg_payload = payload\<rparr>]\<rparr>
        else r)"
proof -
  from send_reaches [OF assms(1,4,5,6,7), of ds ss] obtain f where
    f: "send_ddp dest ds ss proto payload s = (Inr (), push_out f s)" "length (out_to_bytes f) \<le> 602"
    and d: "st_node r \<noteq> Some a \<Longrightarrow> \<exists>h. handle_frame (out_to_bytes f) now r = dispatch h payload r
          \<and> dest_node_id h = node_number dest \<and> dest_sock_num h = ds \<and> src_sock_num h = ss \<and> protocol_typ h = proto
          \<and> \<lparr>network_number = src_network_num h, node_number = src_node_id h\<rparr> = seen_address s a" by blast
  from d assms(2,3) obtain h where h: "handle_frame (out_to_bytes f) now r = dispatch h payload r"
    "dest_node_id h = node_number dest" "dest_sock_num h = ds" "src_sock_num h = ss" "protocol_typ h = proto"
    "\<lparr>network_number = src_network_num h, node_number = src_node_id h\<rparr> = seen_address s a" by auto
  show ?thesis
    using f h(1) dispatch_to_socket [OF assms(2,8) h(3), of payload] h(2-6)
    by (intro exI [of _ f]) (simp add: push_out_def push_event_def)
qed

definition example_stack :: "u8 \<Rightarrow> u8 set \<Rightarrow> Stack" where
  "example_stack n socks = (stack_new \<lparr>cfg_node_class = User, cfg_seed = 1, cfg_auto_ack_enq = False\<rparr> 0)
     \<lparr>st_acquire := None, st_node := Some n, st_sockets := socks\<rparr>"

lemma stack_datagram_delivered_witness:
  "\<exists>f. send_ddp \<lparr>network_number = 0, node_number = 20\<rparr> 80 70 Atp [1, 2, 3] (example_stack 10 {70})
      = (Inr (), (example_stack 10 {70})\<lparr>st_outbox := [f]\<rparr>)
    \<and> st_events (handle_frame (out_to_bytes f) 5 (example_stack 20 {80})) =
       [DatagramArrived \<lparr>dg_src = \<lparr>network_number = 0, node_number = 10\<rparr>, dg_src_socket = 70, dg_dst_socket = 80,
          dg_proto = Atp, dg_payload = [1, 2, 3]\<rparr>]"
proof -
  let ?s = "example_stack 10 {70}" and ?r = "example_stack 20 {80}" and ?d = "\<lparr>network_number = 0, node_number = 20\<rparr>"
  have "st_node ?s = Some 10" "st_node ?r = Some 20" "on_cable ?d ?s" "length [1, 2, 3 :: u8] \<le> MAX_DDP_PAYLOAD" "proto_wf Atp"
    "(80 :: u8) \<notin> {RTMP_SOCKET, NBP_SOCKET, AEP_SOCKET}"
    by (simp_all add: example_stack_def on_cable_def MAX_DDP_PAYLOAD_def proto_wf_def RTMP_SOCKET_def NBP_SOCKET_def AEP_SOCKET_def)
  from stack_datagram_delivered [OF this(1,2) _ _ this(3-6), of 70 5] show ?thesis
    by (auto simp: example_stack_def seen_address_def stack_new_def)
qed

text \<open>
An echo comes back: an echo request sent to the echo socket of another node of the cable makes that
  node queue exactly one frame, and when that frame returns, the socket that asked gets the request's
  bytes with the reply function in front, and nothing else of either stack has changed.\<close>

theorem stack_echo_returns:
  assumes "st_node s = Some a" and "st_node r = Some b" and "a \<noteq> b" and "on_cable \<lparr>network_number = n, node_number = b\<rparr> s"
    and "on_cable (seen_address s a) r" and "length data < MAX_DDP_PAYLOAD"
    and "ss \<notin> {RTMP_SOCKET, NBP_SOCKET, AEP_SOCKET}" and "ss \<in> st_sockets s"
  shows "\<exists>f g. send_ddp \<lparr>network_number = n, node_number = b\<rparr> AEP_SOCKET ss Aep (1 # data) s = (Inr (), push_out f s)
    \<and> handle_frame (out_to_bytes f) now r = push_out g r
    \<and> handle_frame (out_to_bytes g) now' (push_out f s) =
        push_event (DatagramArrived \<lparr>dg_src = seen_address r b, dg_src_socket = AEP_SOCKET, dg_dst_socket = ss,
          dg_proto = Aep, dg_payload = 2 # data\<rparr>) (push_out f s)"
proof -
  have l: "length (1 # data :: bytes) \<le> MAX_DDP_PAYLOAD" "length (2 # data :: bytes) \<le> MAX_DDP_PAYLOAD" "proto_wf Aep"
    using assms(6) by (simp_all add: proto_wf_def)
  have nb: "node_number \<lparr>network_number = n, node_number = b\<rparr> \<noteq> a" using assms(3) by simp
  from send_reaches [OF assms(1) nb assms(4) l(1,3), of AEP_SOCKET ss] obtain f where
    f: "send_ddp \<lparr>network_number = n, node_number = b\<rparr> AEP_SOCKET ss Aep (1 # data) s = (Inr (), push_out f s)"
    and d: "st_node r \<noteq> Some a \<Longrightarrow> \<exists>h. handle_frame (out_to_bytes f) now r = dispatch h (1 # data) r
          \<and> dest_node_id h = b \<and> dest_sock_num h = AEP_SOCKET \<and> src_sock_num h = ss \<and> protocol_typ h = Aep
          \<and> \<lparr>network_number = src_network_num h, node_number = src_node_id h\<rparr> = seen_address s a" by auto
  from d assms(2,3) obtain h where h: "handle_frame (out_to_bytes f) now r = dispatch h (1 # data) r"
    "dest_node_id h = b" "dest_sock_num h = AEP_SOCKET" "src_sock_num h = ss"
    "\<lparr>network_number = src_network_num h, node_number = src_node_id h\<rparr> = seen_address s a" by auto
  have na: "node_number (seen_address s a) \<noteq> b" using assms(3) by (simp add: seen_address_def)
  from send_reaches [OF assms(2) na assms(5) l(2,3), of ss AEP_SOCKET] obtain g where
    g: "send_ddp (seen_address s a) ss AEP_SOCKET Aep (2 # data) r = (Inr (), push_out g r)"
    and d2: "\<And>x t. st_node x \<noteq> Some b \<Longrightarrow> \<exists>h. handle_frame (out_to_bytes g) t x = dispatch h (2 # data) x
          \<and> dest_node_id h = node_number (seen_address s a) \<and> dest_sock_num h = ss \<and> src_sock_num h = AEP_SOCKET \<and> protocol_typ h = Aep
          \<and> \<lparr>network_number = src_network_num h, node_number = src_node_id h\<rparr> = seen_address r b" by blast
  have r: "handle_frame (out_to_bytes f) now r = push_out g r"
    using h(1) dispatch_echo [OF assms(2) h(2,3), of data] h(4,5) g by simp
  let ?s = "push_out f s"
  have ps: "st_node ?s = Some a" "st_sockets ?s = st_sockets s" using assms(1) by (simp_all add: push_out_def)
  then have "st_node ?s \<noteq> Some b" using assms(3) by simp
  from d2 [OF this, of now'] obtain k where k: "handle_frame (out_to_bytes g) now' ?s = dispatch k (2 # data) ?s"
    "dest_node_id k = a" "dest_sock_num k = ss" "src_sock_num k = AEP_SOCKET" "protocol_typ k = Aep"
    "\<lparr>network_number = src_network_num k, node_number = src_node_id k\<rparr> = seen_address r b"
    by (auto simp: seen_address_def)
  show ?thesis
    using f r k(1) dispatch_to_socket [OF ps(1) assms(7) k(3), of "2 # data"] k(2,4-6) ps(2) assms(8)
    by (intro exI [of _ f] exI [of _ g]) simp
qed

lemma stack_echo_returns_witness:
  "\<exists>f g. handle_frame (out_to_bytes f) 5 (example_stack 20 {}) = push_out g (example_stack 20 {})
    \<and> st_events (handle_frame (out_to_bytes g) 9 (push_out f (example_stack 10 {70}))) =
       [DatagramArrived \<lparr>dg_src = \<lparr>network_number = 0, node_number = 20\<rparr>, dg_src_socket = 4, dg_dst_socket = 70,
          dg_proto = Aep, dg_payload = [2, 7, 8]\<rparr>]"
proof -
  let ?s = "example_stack 10 {70}" and ?r = "example_stack 20 {}"
  have "st_node ?s = Some 10" "st_node ?r = Some 20" "on_cable \<lparr>network_number = 0, node_number = 20\<rparr> ?s"
    "on_cable (seen_address ?s 10) ?r" "length [7, 8 :: u8] < MAX_DDP_PAYLOAD"
    "(70 :: u8) \<notin> {RTMP_SOCKET, NBP_SOCKET, AEP_SOCKET}" "70 \<in> st_sockets ?s"
    by (simp_all add: example_stack_def on_cable_def seen_address_def stack_new_def MAX_DDP_PAYLOAD_def RTMP_SOCKET_def
        NBP_SOCKET_def AEP_SOCKET_def)
  from stack_echo_returns [OF this(1,2) _ this(3-7), of 5 9] obtain f g where
    "handle_frame (out_to_bytes f) 5 ?r = push_out g ?r"
    "handle_frame (out_to_bytes g) 9 (push_out f ?s) = push_event (DatagramArrived \<lparr>dg_src = seen_address ?r 20,
       dg_src_socket = AEP_SOCKET, dg_dst_socket = 70, dg_proto = Aep, dg_payload = [2, 7, 8]\<rparr>) (push_out f ?s)" by auto
  moreover have "st_events (push_event e (push_out f ?s)) = [e]" for e
    by (simp add: example_stack_def stack_new_def push_event_def push_out_def)
  moreover have "seen_address ?r 20 = \<lparr>network_number = 0, node_number = 20\<rparr>"
    by (simp add: example_stack_def stack_new_def seen_address_def)
  ultimately show ?thesis by (intro exI [of _ f] exI [of _ g]) (simp add: AEP_SOCKET_def)
qed

text \<open>
Claim C10: A stack speaks only for itself: every run of any inputs returns, and from the state it reaches
  every further input returns too. What that input adds to the queue of frames, if it does not take the
  front one off, are probes of the node class as long as no address is claimed; once one is claimed it
  stays, and whatever is added bears it: the empty acknowledgement of a probe for it, or a datagram
  of at most 586 bytes with its header, and never another probe. Acquisition stops exactly when an
  address is claimed, the address is one of the class, the network number is only ever learned with
  a router, and the responders' own sockets are never given away.\<close>

theorem stack_speaks_for_itself:
  "\<exists>s. stack_run inputs (stack_new cfg now) = Some s \<and> stack_ok (cfg_node_class cfg) s
    \<and> (\<exists>s'. stack_input i s = Some s'
        \<and> (if i = SiDrainTransmit then st_outbox s' = tl (st_outbox s) \<and> st_node s' = st_node s
           else \<exists>fs. st_outbox s' = st_outbox s @ fs
             \<and> (case st_node s of
                  None \<Rightarrow> list_all (probe_frame (cfg_node_class cfg)) fs
                | Some n \<Rightarrow> list_all (own_frame n) fs \<and> st_node s' = Some n)))"
proof -
  from stack_run_ok [OF stack_new_ok] obtain s where
    "stack_run inputs (stack_new cfg now) = Some s" and ok: "stack_ok (cfg_node_class cfg) s" by blast
  with stack_input_queues [OF ok, of i] show ?thesis unfolding queues_def by blast
qed

end
