(* ===== verification/Core_Adsp_Stream.thy ===== *)
theory Core_Adsp_Stream
  imports Core_Adsp
begin

text \<open>
  The data stream of one ADSP connection (src/tailtalk-core/src/adsp.rs) against its
  specification. The stream is a list of items, a byte or an end-of-message mark, and every item
  takes one sequence number. The sender cuts the written items into packets, the network loses,
  duplicates and reorders them, and the receiver delivers a prefix of the items.
\<close>

section \<open>Items\<close>

type_synonym items = "u8 option list"

definition packet_items :: "bytes \<Rightarrow> bool \<Rightarrow> items" where
  "packet_items payload eom = map Some payload @ (if eom then [None] else [])"

definition write_items :: "PendingWrite \<Rightarrow> items" where
  "write_items w = packet_items (drop (pw_offset w) (pw_data w)) (pw_eom w)"

definition queue_items :: "PendingWrite list \<Rightarrow> items" where
  "queue_items ws = concat (map write_items ws)"

definition delivered_items :: "(bytes \<times> bool) option \<Rightarrow> items" where
  "delivered_items d = (case d of None \<Rightarrow> [] | Some (payload, eom) \<Rightarrow> packet_items payload eom)"

definition segment :: "items \<Rightarrow> nat \<Rightarrow> items \<Rightarrow> bool" where
  "segment S i xs \<longleftrightarrow> i + length xs \<le> length S \<and> take (length xs) (drop i S) = xs"

lemma length_packet_items: "length (packet_items payload eom) = length payload + (if eom then 1 else 0)"
  by (simp add: packet_items_def)

lemma segment_append: "segment S i xs \<Longrightarrow> segment (S @ T) i xs"
  by (auto simp: segment_def)

lemma segment_drop:
  assumes "segment S i xs" and "i \<le> r" and "r \<le> i + length xs"
  shows "drop (r - i) xs = take (i + length xs - r) (drop r S)"
proof -
  have "drop (r - i) xs = drop (r - i) (take (length xs) (drop i S))" using assms(1) by (simp add: segment_def)
  also have "\<dots> = take (length xs - (r - i)) (drop (r - i + i) S)" by (simp add: drop_take)
  finally show ?thesis using assms(2) by (simp add: add.commute)
qed

lemma segment_prefix:
  assumes "drop n S = xs @ ys" and "n \<le> length S"
  shows "segment S n xs"
proof -
  have "length S - n = length xs + length ys" using arg_cong [OF assms(1), of length] by simp
  then show ?thesis using assms by (simp add: segment_def)
qed

section \<open>Sequence arithmetic below half the number space\<close>

lemma sint_seq_diff:
  assumes "r < 2 ^ 31" and "i < 2 ^ 31"
  shows "sint (word_of_nat r - word_of_nat i :: u32) = int r - int i"
proof -
  have "- (2 ^ 31) \<le> int r - int i" "int r - int i < 2 ^ 31" using assms by auto
  then have "signed_take_bit 31 (int r - int i) = int r - int i"
    by (rule signed_take_bit_int_eq_self)
  moreover have "(word_of_nat r - word_of_nat i :: u32) = word_of_int (int r - int i)" by simp
  ultimately show ?thesis by (simp only: signed_of_int) simp
qed

lemma unat_seq_diff:
  assumes "r < 2 ^ 32" and "i \<le> r"
  shows "unat (word_of_nat r - word_of_nat i :: u32) = r - i"
proof -
  have "(word_of_nat r - word_of_nat i :: u32) = word_of_nat (r - i)" using assms(2) by (simp add: of_nat_diff)
  then show ?thesis using assms(1) by (simp add: unat_of_nat)
qed

lemma unat_seq: "n < 2 ^ 32 \<Longrightarrow> unat (word_of_nat n :: u32) = n"
  by (simp add: unat_of_nat)

section \<open>The receiver\<close>

text \<open>What one packet of the stream does to a receiver that has \<open>r\<close> items.\<close>

lemma recv_conn_segment:
  assumes S: "segment S i (packet_items payload eom)" "length S < 2 ^ 31"
    and r: "recv_seq c = word_of_nat r" "r \<le> length S"
    and p: "adsp_first_byte_seq p = word_of_nat i" "adsp_flags p AND FLAG_EOM \<noteq> 0 \<longleftrightarrow> eom"
  shows "\<exists>n d. recv_conn p payload c = (c\<lparr>recv_seq := word_of_nat n\<rparr>, d) \<and> r \<le> n \<and> n \<le> length S
    \<and> delivered_items d = take (n - r) (drop r S)
    \<and> (i \<le> r \<longrightarrow> n = max r (i + length (packet_items payload eom)))"
proof -
  let ?xs = "packet_items payload eom"
  let ?t = "(word_of_nat (length payload) :: u32) + (if eom then 1 else 0)"
  have len: "i + length ?xs \<le> length S" using S(1) by (simp add: segment_def)
  have t: "?t = word_of_nat (length ?xs)" by (simp add: length_packet_items)
  have tz: "?t > 0 \<longleftrightarrow> ?xs \<noteq> []"
  proof -
    have "unat ?t = length ?xs" unfolding t by (rule unat_seq) (use len S(2) in simp)
    then show ?thesis by (metis length_greater_0_conv unat_gt_0 word_gt_0)
  qed
  have c: "c\<lparr>recv_seq := word_of_nat r\<rparr> = c" using r(1) by simp
  have R: "recv_conn p payload c = (if ?t > 0 then
      if sint (recv_seq c - adsp_first_byte_seq p) < 0 then (c, None)
      else if recv_seq c - adsp_first_byte_seq p < ?t
      then (c\<lparr>recv_seq := adsp_first_byte_seq p + ?t\<rparr>,
        if drop (min (unat (recv_seq c - adsp_first_byte_seq p)) (length payload)) payload \<noteq> [] \<or> eom
        then Some (drop (min (unat (recv_seq c - adsp_first_byte_seq p)) (length payload)) payload, eom) else None)
      else (c, None) else (c, None))"
    using p(2) by (cases eom) (simp_all add: recv_conn_def Let_def)
  have sd: "sint (recv_seq c - adsp_first_byte_seq p) = int r - int i"
    unfolding r(1) p(1) by (rule sint_seq_diff) (use len S(2) r(2) in auto)
  consider "?xs = []" | "?xs \<noteq> []" "r < i" | "?xs \<noteq> []" "i \<le> r" "i + length ?xs \<le> r"
    | "?xs \<noteq> []" "i \<le> r" "r < i + length ?xs" by linarith
  then show ?thesis
  proof cases
    case 1
    with tz have "recv_conn p payload c = (c, None)" unfolding R by simp
    then show ?thesis using 1 r(2) c by (intro exI [of _ r] exI [of _ None]) (simp add: delivered_items_def)
  next
    case 2
    with sd have "recv_conn p payload c = (c, None)" unfolding R by simp
    then show ?thesis using 2 r(2) c by (intro exI [of _ r] exI [of _ None]) (simp add: delivered_items_def)
  next
    case 3
    have ud: "unat (recv_seq c - adsp_first_byte_seq p) = r - i"
      unfolding r(1) p(1) by (rule unat_seq_diff) (use 3 r(2) S(2) in auto)
    have "\<not> recv_seq c - adsp_first_byte_seq p < ?t"
      unfolding t word_less_nat_alt ud using 3 len S(2) by (simp add: unat_seq)
    then have "recv_conn p payload c = (c, None)" unfolding R by simp
    then show ?thesis using 3 r(2) c by (intro exI [of _ r] exI [of _ None]) (simp add: delivered_items_def)
  next
    case 4
    have ud: "unat (recv_seq c - adsp_first_byte_seq p) = r - i"
      unfolding r(1) p(1) by (rule unat_seq_diff) (use 4 r(2) S(2) in auto)
    have lt: "recv_seq c - adsp_first_byte_seq p < ?t"
      unfolding t word_less_nat_alt ud using 4 len S(2) by (simp add: unat_seq)
    have ns: "\<not> sint (recv_seq c - adsp_first_byte_seq p) < 0" using 4 by (simp add: sd)
    let ?f = "drop (min (r - i) (length payload)) payload"
    have adv: "adsp_first_byte_seq p + ?t = word_of_nat (i + length ?xs)" unfolding p(1) t by simp
    have D: "recv_conn p payload c = (c\<lparr>recv_seq := word_of_nat (i + length ?xs)\<rparr>,
        if ?f \<noteq> [] \<or> eom then Some (?f, eom) else None)"
      unfolding R adv ud using 4(1) tz lt ns by simp
    have "delivered_items (if ?f \<noteq> [] \<or> eom then Some (?f, eom) else None) = drop (r - i) ?xs"
      using 4 by (auto simp: delivered_items_def packet_items_def drop_map min_def)
    also have "\<dots> = take (i + length ?xs - r) (drop r S)"
      by (rule segment_drop [OF S(1)]) (use 4 in auto)
    finally show ?thesis
      by (intro exI [of _ "i + length ?xs"] exI [of _ "if ?f \<noteq> [] \<or> eom then Some (?f, eom) else None"] conjI D)
        (use 4 len in auto)
  qed
qed

section \<open>Reading a packet of the stream\<close>

text \<open>The connection, sequence number and items of a stream data packet.\<close>

definition data_part :: "bytes \<Rightarrow> (u16 \<times> u32 \<times> items) option" where
  "data_part pkt =
     (case adsp_parse pkt of
        Inl _ \<Rightarrow> None
      | Inr h \<Rightarrow>
          (if adsp_descriptor h = DataPacket \<and> adsp_flags h AND FLAG_ATTENTION = 0
           then Some (adsp_connection_id h, adsp_first_byte_seq h,
                      packet_items (drop ADSP_HEADER_LEN pkt) (adsp_flags h AND FLAG_EOM \<noteq> 0))
           else None))"

lemma adsp_frame_eq: "adsp_frame p payload = adsp_header p @ payload"
  by (simp add: adsp_frame_def adsp_to_bytes_def put_0) (simp add: put_def)

lemma adsp_parse_frame: "adsp_wf p \<Longrightarrow> adsp_parse (adsp_frame p payload) = Inr p"
  by (simp add: adsp_frame_eq adsp_parse_header)

lemma adsp_frame_payload: "drop ADSP_HEADER_LEN (adsp_frame p payload) = payload"
  by (simp add: adsp_frame_eq)

definition data_flags :: "bool \<Rightarrow> u8" where
  "data_flags eom = FLAG_ACK OR (if eom then FLAG_EOM else 0)"

lemma data_flags_bits:
  "data_flags eom \<in> set high_nibbles" "data_flags eom AND 0x80 = 0"
  "data_flags eom AND FLAG_ATTENTION = 0" "data_flags eom AND FLAG_EOM \<noteq> 0 \<longleftrightarrow> eom"
  by (simp_all add: data_flags_def FLAG_ACK_def FLAG_EOM_def FLAG_ATTENTION_def high_nibbles_def)

lemma data_part_stream:
  "data_part (stream_packet DataPacket (data_flags eom) seq window payload c) =
     Some (our_conn_id c, seq, packet_items payload eom)"
proof -
  let ?h = "\<lparr>adsp_descriptor = DataPacket, adsp_connection_id = our_conn_id c, adsp_first_byte_seq = seq,
       adsp_next_recv_seq = recv_seq c, adsp_recv_window = window, adsp_flags = data_flags eom\<rparr>"
  have "adsp_wf ?h" by (simp add: adsp_wf_def data_flags_bits)
  from adsp_parse_frame [OF this, of payload] show ?thesis
    by (simp add: data_part_def stream_packet_def adsp_frame_payload data_flags_bits)
qed

section \<open>The sender\<close>

definition items_bytes :: "items \<Rightarrow> bytes" where
  "items_bytes xs = concat (map (\<lambda>x. case x of None \<Rightarrow> [] | Some b \<Rightarrow> [b]) xs)"

lemma items_bytes_packet [simp]: "items_bytes (packet_items payload eom) = payload"
proof -
  have "concat (map ((\<lambda>x. case x of None \<Rightarrow> [] | Some b \<Rightarrow> [b]) \<circ> Some) payload) = payload"
    by (induction payload) simp_all
  then show ?thesis by (simp add: items_bytes_def packet_items_def)
qed

lemma items_bytes_append [simp]: "items_bytes (xs @ ys) = items_bytes xs @ items_bytes ys"
  by (simp add: items_bytes_def)

lemma items_bytes_simps [simp]: "items_bytes [] = []" "items_bytes (Some b # xs) = b # items_bytes xs" "items_bytes (None # xs) = items_bytes xs"
  by (simp_all add: items_bytes_def)

lemma map_Some_items_bytes: "None \<notin> set xs \<Longrightarrow> map Some (items_bytes xs) = xs"
  by (induction xs) (auto simp: items_bytes_def split: option.splits, metis option.exhaust)

text \<open>Consecutive packets, the first at sequence number \<open>s\<close>.\<close>

fun cut_parts :: "u16 \<Rightarrow> u32 \<Rightarrow> items list \<Rightarrow> (u16 \<times> u32 \<times> items) list" where
  "cut_parts cid s [] = []"
| "cut_parts cid s (xs # xss) = (cid, s, xs) # cut_parts cid (s + word_of_nat (length xs)) xss"

lemma pump_step_items:
  assumes "pump_step window now c = Some (ps, c')"
  shows "\<exists>xss. queue_items (pending_writes c) = concat xss @ queue_items (pending_writes c')
    \<and> map data_part ps = map Some (cut_parts (our_conn_id c) (send_seq c) xss)
    \<and> send_seq c' = send_seq c + word_of_nat (length (concat xss))
    \<and> flight_buffer c' = flight_buffer c @ items_bytes (concat xss)
    \<and> our_conn_id c' = our_conn_id c \<and> oldest_unacked_seq c' = oldest_unacked_seq c
    \<and> send_window c' = send_window c \<and> recv_seq c' = recv_seq c
    \<and> (\<forall>xs\<in>set xss. length (items_bytes xs) \<le> min (available_window c) ADSP_MAX_DATA)
    \<and> length xss \<le> 1"
proof (cases "pending_writes c")
  case Nil
  with assms show ?thesis by (simp add: pump_step_def)
next
  case (Cons w ws)
  let ?r = "length (pw_data w) - pw_offset w" and ?a = "available_window c"
  let ?n = "min (min ?r ?a) ADSP_MAX_DATA"
  have dw: "our_conn_id (done_write x) = our_conn_id x" "oldest_unacked_seq (done_write x) = oldest_unacked_seq x"
    "send_window (done_write x) = send_window x" "recv_seq (done_write x) = recv_seq x"
    "send_seq (done_write x) = send_seq x" "flight_buffer (done_write x) = flight_buffer x" for x
    by (simp_all add: done_write_def)
  consider (eom) "?r = 0" "pw_eom w" | (skip) "?r = 0" "\<not> pw_eom w" | (cut) "?r \<noteq> 0" by blast
  then show ?thesis
  proof cases
    case eom
    then have "drop (pw_offset w) (pw_data w) = []" by simp
    then have w: "write_items w = packet_items [] True" using eom by (simp add: write_items_def)
    have f: "FLAG_ACK OR FLAG_EOM = data_flags True" by (simp add: data_flags_def)
    from assms eom have ps: "ps = [stream_packet DataPacket (data_flags True) (send_seq c) window [] c]"
      and c': "c' = done_write (touch now (c\<lparr>send_seq := send_seq c + 1\<rparr>))"
      by (simp_all add: pump_step_def Cons f Let_def)
    show ?thesis
      by (rule exI [of _ "[packet_items [] True]"])
        (simp add: ps c' Cons dw data_part_stream queue_items_def w, simp add: packet_items_def)
  next
    case skip
    then have "write_items w = []" by (simp add: write_items_def packet_items_def)
    with assms skip show ?thesis
      by (intro exI [of _ "[]"]) (auto simp: pump_step_def Cons Let_def dw queue_items_def)
  next
    case cut
    from assms cut Cons have a: "?a \<noteq> 0" by (simp add: pump_step_def Let_def split: if_splits)
    have n: "0 < ?n" "?n \<le> ?r" "?n \<le> min ?a ADSP_MAX_DATA" using cut a by (simp_all add: ADSP_MAX_DATA_def)
    let ?chunk = "take ?n (drop (pw_offset w) (pw_data w))" and ?eom = "pw_eom w \<and> ?n = ?r"
    let ?c1 = "c\<lparr>pending_writes := w\<lparr>pw_offset := pw_offset w + ?n\<rparr> # ws, flight_buffer := flight_buffer c @ ?chunk,
        send_seq := send_seq c + (word_of_nat (length ?chunk) + (if ?eom then 1 else 0))\<rparr>"
    have lc: "length ?chunk = ?n" using n by simp
    have fin: "pw_offset w + ?n = length (pw_data w) \<longleftrightarrow> ?n = ?r" using n cut by auto
    have ne: "FLAG_EOM \<noteq> 0" by (simp add: FLAG_EOM_def)
    have fl: "FLAG_ACK OR (if ?eom then FLAG_EOM else 0) = data_flags ?eom" by (simp add: data_flags_def)
    have st: "pump_step window now c = Some ([stream_packet DataPacket (data_flags ?eom) (send_seq c) window ?chunk c],
       if ?n = ?r then done_write (touch now ?c1) else touch now ?c1)"
    proof -
      have e: "(if pw_eom w \<and> ?n = ?r then FLAG_EOM else 0) \<noteq> 0 \<longleftrightarrow> ?eom" by (simp add: ne)
      have g: "(?r = 0 \<and> pw_eom w) = False" "(?r = 0) = False" "(?a = 0) = False" using cut a by simp_all
      have o: "pw_offset (w\<lparr>pw_offset := pw_offset w + ?n\<rparr>) = pw_offset w + ?n"
        "pw_data (w\<lparr>pw_offset := pw_offset w + ?n\<rparr>) = pw_data w" by simp_all
      show ?thesis by (simp only: pump_step_def Cons list.case Let_def g if_False simp_thms e fl o fin)
    qed
    have q: "write_items w = packet_items ?chunk ?eom @ (if ?n = ?r then [] else write_items (w\<lparr>pw_offset := pw_offset w + ?n\<rparr>))"
    proof (cases "?n = ?r")
      case True
      then have "?chunk = drop (pw_offset w) (pw_data w)" by simp
      then show ?thesis using True by (simp add: write_items_def)
    next
      case False
      have "drop (pw_offset w) (pw_data w) = ?chunk @ drop ?n (drop (pw_offset w) (pw_data w))"
        by (simp only: append_take_drop_id)
      then show ?thesis using False by (simp add: write_items_def packet_items_def add.commute flip: map_append)
    qed
    have ps: "ps = [stream_packet DataPacket (data_flags ?eom) (send_seq c) window ?chunk c]"
      and c': "c' = (if ?n = ?r then done_write (touch now ?c1) else touch now ?c1)"
      using st assms by simp_all
    have pend: "queue_items (pending_writes c') = (if ?n = ?r then [] else write_items (w\<lparr>pw_offset := pw_offset w + ?n\<rparr>)) @ queue_items ws"
      by (simp add: c' queue_items_def)
    show ?thesis
    proof (intro exI [of _ "[packet_items ?chunk ?eom]"] conjI)
      show "queue_items (pending_writes c) = concat [packet_items ?chunk ?eom] @ queue_items (pending_writes c')"
        unfolding pend using q by (simp add: Cons queue_items_def)
      show "map data_part ps = map Some (cut_parts (our_conn_id c) (send_seq c) [packet_items ?chunk ?eom])"
        by (simp add: ps data_part_stream)
      show "send_seq c' = send_seq c + word_of_nat (length (concat [packet_items ?chunk ?eom]))"
        unfolding c' by (simp add: dw length_packet_items)
      show "flight_buffer c' = flight_buffer c @ items_bytes (concat [packet_items ?chunk ?eom])"
        unfolding c' by (simp add: dw)
      show "\<forall>xs\<in>set [packet_items ?chunk ?eom]. length (items_bytes xs) \<le> min (available_window c) ADSP_MAX_DATA"
        using n(3) lc by simp
    qed (simp_all add: c' dw)
  qed
qed

end
