(* ===== verification/Core_Adsp_Reliable.thy ===== *)
theory Core_Adsp_Reliable
  imports Core_Adsp_Stream
begin

text \<open>
  The properties of the ADSP data stream (src/tailtalk-core/src/adsp.rs): what \<open>pump\<close> cuts, that
  the receiver delivers a prefix of what was written whatever the network does, and where an
  end-of-message mark breaks the sender's bookkeeping.
\<close>

section \<open>Cutting\<close>

lemma cut_parts_append:
  "cut_parts cid s (xss @ yss) = cut_parts cid s xss @ cut_parts cid (s + word_of_nat (length (concat xss))) yss"
  by (induction cid s xss rule: cut_parts.induct) (simp_all add: algebra_simps)

text \<open>The items of a packet at sequence \<open>s\<close> end inside the window that opens at \<open>oldest\<close>.\<close>

definition in_window :: "u32 \<Rightarrow> u16 \<Rightarrow> bytes \<Rightarrow> bool" where
  "in_window oldest window pkt =
     (case data_part pkt of
        None \<Rightarrow> False
      | Some (_, s, xs) \<Rightarrow> items_bytes xs = []
          \<or> unat (s - oldest) + length (items_bytes xs) \<le> unat window \<and> length (items_bytes xs) \<le> ADSP_MAX_DATA)"

definition pump_blocked :: "Connection \<Rightarrow> bool" where
  "pump_blocked c =
     (case pending_writes c of
        [] \<Rightarrow> True
      | w # _ \<Rightarrow> pw_offset w < length (pw_data w) \<and> unat (send_window c) \<le> unat (send_seq c - oldest_unacked_seq c))"

lemma pump_step_none: "pump_step window now c = None \<Longrightarrow> pump_blocked c"
  by (auto simp: pump_step_def pump_blocked_def available_window_def Let_def split: list.splits if_splits)

lemma pump_step_window:
  assumes "pump_step window now c = Some (ps, c')"
  shows "\<forall>p\<in>set ps. in_window (oldest_unacked_seq c) (send_window c) p"
proof
  fix p assume p: "p \<in> set ps"
  from pump_step_items [OF assms] obtain xss where
    m: "map data_part ps = map Some (cut_parts (our_conn_id c) (send_seq c) xss)"
    and b: "\<forall>xs\<in>set xss. length (items_bytes xs) \<le> min (available_window c) ADSP_MAX_DATA"
    and l: "length xss \<le> 1" by blast
  from p have "data_part p \<in> set (map data_part ps)" by simp
  with m l obtain xs where xs: "xss = [xs]" and d: "data_part p = Some (our_conn_id c, send_seq c, xs)"
    by (cases xss) auto
  have "length (items_bytes xs) \<le> available_window c" "length (items_bytes xs) \<le> ADSP_MAX_DATA"
    using b xs by simp_all
  moreover have "items_bytes xs = [] \<or> 0 < length (items_bytes xs)" by simp
  ultimately show "in_window (oldest_unacked_seq c) (send_window c) p"
    unfolding in_window_def d available_window_def option.case prod.case by linarith
qed

lemma pump_loop_facts:
  "case pump_loop window now c of (ps, c') \<Rightarrow>
     (\<exists>xss. queue_items (pending_writes c) = concat xss @ queue_items (pending_writes c')
        \<and> map data_part ps = map Some (cut_parts (our_conn_id c) (send_seq c) xss)
        \<and> send_seq c' = send_seq c + word_of_nat (length (concat xss))
        \<and> flight_buffer c' = flight_buffer c @ items_bytes (concat xss))
     \<and> our_conn_id c' = our_conn_id c \<and> oldest_unacked_seq c' = oldest_unacked_seq c
     \<and> send_window c' = send_window c \<and> recv_seq c' = recv_seq c
     \<and> list_all (in_window (oldest_unacked_seq c) (send_window c)) ps
     \<and> pump_blocked c'"
proof (induction window now c rule: pump_loop.induct)
  case (1 window now c)
  show ?case
  proof (cases "pump_step window now c")
    case None
    then show ?thesis
      by (subst pump_loop.simps) (auto simp: pump_step_none intro!: exI [of _ "[]"])
  next
    case (Some r)
    obtain ps c1 where s: "pump_step window now c = Some (ps, c1)" using Some by (cases r) simp
    obtain qs c2 where l: "pump_loop window now c1 = (qs, c2)" by fastforce
    have u: "pump_loop window now c = (ps @ qs, c2)" by (subst pump_loop.simps) (simp add: s l)
    from pump_step_items [OF s] obtain xss where
      x: "queue_items (pending_writes c) = concat xss @ queue_items (pending_writes c1)"
        "map data_part ps = map Some (cut_parts (our_conn_id c) (send_seq c) xss)"
        "send_seq c1 = send_seq c + word_of_nat (length (concat xss))"
        "flight_buffer c1 = flight_buffer c @ items_bytes (concat xss)"
      and k: "our_conn_id c1 = our_conn_id c" "oldest_unacked_seq c1 = oldest_unacked_seq c"
        "send_window c1 = send_window c" "recv_seq c1 = recv_seq c" by blast
    from "1.IH" [OF s refl] l obtain yss where
      y: "queue_items (pending_writes c1) = concat yss @ queue_items (pending_writes c2)"
        "map data_part qs = map Some (cut_parts (our_conn_id c1) (send_seq c1) yss)"
        "send_seq c2 = send_seq c1 + word_of_nat (length (concat yss))"
        "flight_buffer c2 = flight_buffer c1 @ items_bytes (concat yss)"
      and k2: "our_conn_id c2 = our_conn_id c1" "oldest_unacked_seq c2 = oldest_unacked_seq c1"
        "send_window c2 = send_window c1" "recv_seq c2 = recv_seq c1"
      and w: "list_all (in_window (oldest_unacked_seq c1) (send_window c1)) qs" and b: "pump_blocked c2"
      by auto
    have e: "\<exists>xss. queue_items (pending_writes c) = concat xss @ queue_items (pending_writes c2)
        \<and> map data_part (ps @ qs) = map Some (cut_parts (our_conn_id c) (send_seq c) xss)
        \<and> send_seq c2 = send_seq c + word_of_nat (length (concat xss))
        \<and> flight_buffer c2 = flight_buffer c @ items_bytes (concat xss)"
      by (rule exI [of _ "xss @ yss"]) (use x y k in \<open>simp add: cut_parts_append add.assoc\<close>)
    have "list_all (in_window (oldest_unacked_seq c) (send_window c)) (ps @ qs)"
      using w pump_step_window [OF s] k unfolding list_all_iff by auto
    then show ?thesis unfolding u prod.case using e k k2 b by simp
  qed
qed


section \<open>Runs of the sender\<close>

text \<open>
  Everything that touches the sending side of a connection: a write, an acknowledgement, a
  received packet, and the retransmission of what is unacknowledged. The run records the items
  written so far, the packets queued so far, and two observations that no operation reads.
  \<open>tidy\<close>: since the connection was last idle no byte was sent behind an end-of-message
  mark that was still unacknowledged. \<open>safe\<close>: every retransmission so far was made at a
  tidy moment.
\<close>

definition in_flight :: "items \<Rightarrow> Connection \<Rightarrow> items" where
  "in_flight S c = take (unat (send_seq c - oldest_unacked_seq c)) (drop (unat (oldest_unacked_seq c)) S)"

definition marks_last :: "items \<Rightarrow> bool" where
  "marks_last xs = list_all (\<lambda>x. x = None) (dropWhile (\<lambda>x. x \<noteq> None) xs)"

inductive tx_run :: "u16 \<Rightarrow> Connection \<Rightarrow> items \<Rightarrow> bytes list \<Rightarrow> bool \<Rightarrow> bool \<Rightarrow> bool" for cid where
  tx_start: "our_conn_id c = cid \<Longrightarrow> send_seq c = 0 \<Longrightarrow> oldest_unacked_seq c = 0 \<Longrightarrow> flight_buffer c = []
     \<Longrightarrow> pending_writes c = [] \<Longrightarrow> tx_run cid c [] [] True True"
| tx_write: "tx_run cid c S ps tidy safe
     \<Longrightarrow> pump_loop w now (c\<lparr>writes_submitted := k,
           pending_writes := pending_writes c @ [\<lparr>pw_data = d, pw_offset = 0, pw_eom = eom\<rparr>]\<rparr>) = (qs, c')
     \<Longrightarrow> tx_run cid c' (S @ packet_items d eom) (ps @ qs)
           (tidy \<and> marks_last (in_flight (S @ packet_items d eom) c')) safe"
| tx_ack: "tx_run cid c S ps tidy safe \<Longrightarrow> c1 = ack_conn p c \<Longrightarrow> pump_loop w now c1 = (qs, c')
     \<Longrightarrow> tx_run cid c' S (ps @ qs)
           ((tidy \<or> send_seq c1 = oldest_unacked_seq c1) \<and> marks_last (in_flight S c')) safe"
| tx_recv: "tx_run cid c S ps tidy safe \<Longrightarrow> recv_conn p d c = (c', del) \<Longrightarrow> tx_run cid c' S ps tidy safe"
| tx_resend: "tx_run cid c S ps tidy safe
     \<Longrightarrow> tx_run cid (c\<lparr>cn_retries := k, cn_last_tx := t\<rparr>) S
           (ps @ resend_chunks w c 0 (chunks_of ADSP_MAX_DATA (flight_buffer c))) tidy (safe \<and> tidy)"

lemma marks_last_split: "marks_last xs \<Longrightarrow> \<exists>k. xs = map Some (items_bytes xs) @ replicate k None"
proof -
  assume m: "marks_last xs"
  let ?l = "takeWhile (\<lambda>x. x \<noteq> None) xs" and ?r = "dropWhile (\<lambda>x. x \<noteq> None) xs"
  have "\<forall>y\<in>set ?r. y = None" using m unfolding marks_last_def list_all_iff .
  then have "replicate (length ?r) None = ?r" by (rule replicate_length_same)
  then obtain k where r: "?r = replicate k None" by (rule that [OF sym])
  have "None \<notin> set ?l" by (auto dest: set_takeWhileD)
  then have l: "map Some (items_bytes ?l) = ?l" by (rule map_Some_items_bytes)
  have z: "items_bytes (replicate k None) = []" by (induction k) simp_all
  have "xs = ?l @ replicate k None" unfolding r [symmetric] by simp
  then have "items_bytes xs = items_bytes ?l" by (metis items_bytes_append z append_Nil2)
  then show ?thesis using l r by (metis takeWhile_dropWhile_id)
qed

lemma marks_last_drop:
  assumes "marks_last xs"
  shows "marks_last (drop a xs)" and "items_bytes (drop a xs) = drop a (items_bytes xs)"
proof -
  obtain F k where F: "F = items_bytes xs" and "xs = map Some F @ replicate k None"
    using marks_last_split [OF assms] by blast
  then have e: "drop a xs = map Some (drop a F) @ replicate (k - (a - length F)) None"
    by (simp add: drop_map)
  have "dropWhile (\<lambda>x. x \<noteq> None) (map Some ys @ replicate j None) = dropWhile (\<lambda>x. x \<noteq> None) (replicate j None)"
    for ys :: bytes and j by (rule dropWhile_append2) auto
  moreover have "dropWhile (\<lambda>x. x \<noteq> None) (replicate j None) = (replicate j None :: items)" for j
    by (cases j) simp_all
  ultimately have l: "dropWhile (\<lambda>x. x \<noteq> None) (map Some ys @ replicate j None) = replicate j None" for ys :: bytes and j
    by metis
  show "marks_last (drop a xs)" unfolding e marks_last_def l by (simp add: list_all_iff)
  have z: "items_bytes (replicate j None) = []" for j by (induction j) simp_all
  have y: "items_bytes (map Some ys) = ys" for ys by (induction ys) simp_all
  show "items_bytes (drop a xs) = drop a (items_bytes xs)" unfolding e F [symmetric] by (simp add: z y)
qed

lemma items_bytes_length: "length (items_bytes xs) \<le> length xs"
proof (induction xs)
  case (Cons x xs)
  then show ?case by (cases x) simp_all
qed simp

text \<open>
  Packets that are segments of the stream, none starting beyond what the packets before it
  cover: a receiver at \<open>r\<close> that gets them in this order ends at \<open>r'\<close>.
\<close>

fun flow :: "u16 \<Rightarrow> items \<Rightarrow> nat \<Rightarrow> bytes list \<Rightarrow> nat \<Rightarrow> bool" where
  "flow cid S r [] r' = (r = r')"
| "flow cid S r (p # ps) r' =
     (\<exists>i xs. data_part p = Some (cid, word_of_nat i, xs) \<and> segment S i xs \<and> i \<le> r
        \<and> flow cid S (max r (i + length xs)) ps r')"

lemma flow_append: "flow cid S r (ps @ qs) r' \<longleftrightarrow> (\<exists>m. flow cid S r ps m \<and> flow cid S m qs r')"
proof (induction ps arbitrary: r)
  case (Cons p ps)
  show ?case unfolding append_Cons flow.simps Cons.IH by blast
qed simp

lemma flow_more: "flow cid S r ps r' \<Longrightarrow> flow cid (S @ T) r ps r'"
  by (induction ps arbitrary: r) (auto intro: segment_append)

lemma flow_part:
  "flow cid S r ps r' \<Longrightarrow> p \<in> set ps \<Longrightarrow> \<exists>i xs. data_part p = Some (cid, word_of_nat i, xs) \<and> segment S i xs"
  by (induction ps arbitrary: r) auto

lemma flow_cut:
  assumes "map data_part ps = map Some (cut_parts cid (word_of_nat n) xss)"
    and "drop n S = concat xss @ ys" and "n \<le> length S"
  shows "flow cid S n ps (n + length (concat xss))"
  using assms
proof (induction xss arbitrary: n ps)
  case Nil
  then show ?case by simp
next
  case (Cons xs xss)
  then obtain p qs where ps: "ps = p # qs" and p: "data_part p = Some (cid, word_of_nat n, xs)"
    and q: "map data_part qs = map Some (cut_parts cid (word_of_nat (n + length xs)) xss)"
    by (cases ps) auto
  have seg: "segment S n xs" by (rule segment_prefix [where ys = "concat xss @ ys"]) (use Cons.prems in auto)
  have "drop (n + length xs) S = drop (length xs) (drop n S)" by (simp add: add.commute)
  also have "\<dots> = concat xss @ ys" using Cons.prems(2) by simp
  finally have "flow cid S (n + length xs) qs (n + length xs + length (concat xss))"
    using Cons.IH [OF q] seg by (simp add: segment_def)
  then show ?case using p seg by (auto simp: ps add.assoc intro!: exI [of _ n])
qed

definition tx_inv :: "u16 \<Rightarrow> Connection \<Rightarrow> items \<Rightarrow> bytes list \<Rightarrow> bool \<Rightarrow> bool \<Rightarrow> nat \<Rightarrow> nat \<Rightarrow> bool" where
  "tx_inv cid c S ps tidy safe n u \<longleftrightarrow>
     our_conn_id c = cid \<and> send_seq c = word_of_nat n \<and> oldest_unacked_seq c = word_of_nat u
     \<and> u \<le> n \<and> n \<le> length S \<and> drop n S = queue_items (pending_writes c)
     \<and> (safe \<longrightarrow> flow cid S 0 ps n)
     \<and> length (flight_buffer c) \<le> n - u
     \<and> (tidy \<longrightarrow> marks_last (take (n - u) (drop u S)) \<and> flight_buffer c = items_bytes (take (n - u) (drop u S)))"

lemma in_flight_at:
  assumes "tx_inv cid c S ps tidy safe n u" and "length S < 2 ^ 31"
  shows "in_flight S c = take (n - u) (drop u S)"
proof -
  have "unat (oldest_unacked_seq c) = u" "unat (send_seq c - oldest_unacked_seq c) = n - u"
    using assms unat_seq_diff [of n u] unat_seq [of u] by (simp_all add: tx_inv_def)
  then show ?thesis by (simp add: in_flight_def)
qed

lemma tx_inv_pump:
  assumes "tx_inv cid c S ps tidy safe n u" and "length S < 2 ^ 31" and "pump_loop w now c = (qs, c')"
  shows "\<exists>m. tx_inv cid c' S (ps @ qs) (tidy \<and> marks_last (in_flight S c')) safe m u"
proof -
  from pump_loop_facts [where window = w and now = now and c = c] assms(3) obtain xss where
    q: "queue_items (pending_writes c) = concat xss @ queue_items (pending_writes c')"
    and p: "map data_part qs = map Some (cut_parts (our_conn_id c) (send_seq c) xss)"
    and s: "send_seq c' = send_seq c + word_of_nat (length (concat xss))"
    and f: "flight_buffer c' = flight_buffer c @ items_bytes (concat xss)"
    and k: "our_conn_id c' = our_conn_id c" "oldest_unacked_seq c' = oldest_unacked_seq c"
    by auto
  let ?k = "length (concat xss)"
  from assms(1) have i: "our_conn_id c = cid" "send_seq c = word_of_nat n" "oldest_unacked_seq c = word_of_nat u"
    "u \<le> n" "n \<le> length S" "drop n S = queue_items (pending_writes c)"
    and fw: "safe \<Longrightarrow> flow cid S 0 ps n" and fb: "length (flight_buffer c) \<le> n - u"
    and fl: "tidy \<Longrightarrow> flight_buffer c = items_bytes (take (n - u) (drop u S))"
    by (auto simp: tx_inv_def)
  have d: "drop n S = concat xss @ queue_items (pending_writes c')" using i q by simp
  have seg: "segment S n (concat xss)" by (rule segment_prefix [OF d i(5)])
  have flow: "safe \<Longrightarrow> flow cid S 0 (ps @ qs) (n + ?k)"
    using flow_cut [OF p [unfolded i(1,2)] d i(5)] fw by (auto simp: flow_append)
  have d2: "drop (n + ?k) S = queue_items (pending_writes c')"
  proof -
    have "drop (n + ?k) S = drop ?k (drop n S)" by (simp only: drop_drop add.commute)
    then show ?thesis by (simp only: d) simp
  qed
  have it: "take (n + ?k - u) (drop u S) = take (n - u) (drop u S) @ concat xss"
  proof -
    have "concat xss = take ?k (drop (n - u) (drop u S))"
      using seg i(4) by (simp add: segment_def)
    then show ?thesis using i(4) take_add [of "n - u" ?k "drop u S"] by simp
  qed
  have base: "tx_inv cid c' S (ps @ qs) False safe (n + ?k) u"
    using i k s d2 flow seg fb f items_bytes_length [of "concat xss"] by (simp add: tx_inv_def segment_def)
  then have "tx_inv cid c' S (ps @ qs) (tidy \<and> marks_last (in_flight S c')) safe (n + ?k) u"
    using in_flight_at [OF base assms(2)] fl by (auto simp: tx_inv_def f it)
  then show ?thesis by blast
qed

lemma tx_inv_ack:
  assumes "tx_inv cid c S ps tidy safe n u" and "length S < 2 ^ 31"
  shows "\<exists>v. tx_inv cid (ack_conn p c) S ps
    (tidy \<or> send_seq (ack_conn p c) = oldest_unacked_seq (ack_conn p c)) safe n v"
proof -
  have idle: "tx_inv cid x S ps tidy safe n v
      \<Longrightarrow> tx_inv cid x S ps (tidy \<or> send_seq x = oldest_unacked_seq x) safe n v" for x v
  proof -
    assume i: "tx_inv cid x S ps tidy safe n v"
    have "unat (send_seq x - oldest_unacked_seq x) = n - v"
      using i assms(2) unat_seq_diff [of n v] by (simp add: tx_inv_def)
    then have "send_seq x = oldest_unacked_seq x \<Longrightarrow> n - v = 0" by simp
    then show ?thesis using i by (auto simp: tx_inv_def marks_last_def)
  qed
  let ?a = "unat (adsp_next_recv_seq p - oldest_unacked_seq c)" and ?m = "unat (send_seq c - oldest_unacked_seq c)"
  have m: "?m = n - u"
    using assms unat_seq_diff [of n u] by (simp add: tx_inv_def)
  show ?thesis
  proof (cases "?a > 0 \<and> ?a \<le> ?m")
    case False
    then have "ack_conn p c = c\<lparr>send_window := adsp_recv_window p\<rparr>" by (auto simp: ack_conn_def Let_def)
    then have "tx_inv cid (ack_conn p c) S ps tidy safe n u" using assms(1) by (simp add: tx_inv_def)
    from idle [OF this] show ?thesis by blast
  next
    case True
    have "word_of_nat ?a = adsp_next_recv_seq p - oldest_unacked_seq c" by simp
    then have nx: "adsp_next_recv_seq p = word_of_nat (u + ?a)"
      using assms(1) by (simp add: tx_inv_def)
    have e: "ack_conn p c = c\<lparr>send_window := adsp_recv_window p,
       flight_buffer := drop ?a (flight_buffer c),
       oldest_unacked_seq := adsp_next_recv_seq p, cn_retries := 0\<rparr>"
      using True by (cases "?a \<le> length (flight_buffer c)") (simp_all add: ack_conn_def Let_def min_def)
    have t: "take (n - (u + ?a)) (drop (u + ?a) S) = drop ?a (take (n - u) (drop u S))"
      by (simp add: drop_take add.commute)
    from assms(1) have i: "our_conn_id c = cid" "send_seq c = word_of_nat n" "u \<le> n" "n \<le> length S"
      "drop n S = queue_items (pending_writes c)" "safe \<longrightarrow> flow cid S 0 ps n" "length (flight_buffer c) \<le> n - u"
      and td: "tidy \<Longrightarrow> marks_last (take (n - u) (drop u S)) \<and> flight_buffer c = items_bytes (take (n - u) (drop u S))"
      by (simp_all add: tx_inv_def)
    have k: "u + ?a \<le> n" using True m i(3) by linarith
    have "length (flight_buffer c) - ?a \<le> n - (u + ?a)" using i(7) by linarith
    then have "tx_inv cid (ack_conn p c) S ps tidy safe n (u + ?a)"
      unfolding e tx_inv_def t using i k nx td marks_last_drop [of "take (n - u) (drop u S)" ?a]
      by (simp del: drop_drop drop_take)
    from idle [OF this] show ?thesis by blast
  qed
qed

lemma tx_inv_recv:
  "tx_inv cid c S ps tidy safe n u \<Longrightarrow> recv_conn p d c = (c', del) \<Longrightarrow> tx_inv cid c' S ps tidy safe n u"
  by (auto simp: tx_inv_def recv_conn_def Let_def split: if_splits)

lemma tx_inv_write:
  assumes "tx_inv cid c S ps tidy safe n u"
  shows "tx_inv cid (c\<lparr>writes_submitted := k,
     pending_writes := pending_writes c @ [\<lparr>pw_data = d, pw_offset = 0, pw_eom = eom\<rparr>]\<rparr>)
     (S @ packet_items d eom) ps tidy safe n u"
  using assms by (auto simp: tx_inv_def queue_items_def write_items_def flow_more)

lemma resend_flow:
  assumes "map Some F = take (length F) (drop u S)" and "u + length F \<le> n" and "n \<le> length S"
    and "oldest_unacked_seq c = word_of_nat u" and "our_conn_id c = cid"
    and "F' = drop (k * ADSP_MAX_DATA) F"
  shows "flow cid S n (resend_chunks w c k (chunks_of ADSP_MAX_DATA F')) n"
  using assms(6)
proof (induction ADSP_MAX_DATA F' arbitrary: k rule: chunks_of.induct)
  case (1 F')
  show ?case
  proof (cases "F' = []")
    case True
    then show ?thesis by (subst chunks_of.simps) simp
  next
    case False
    have mx: "ADSP_MAX_DATA \<noteq> 0" by (simp add: ADSP_MAX_DATA_def)
    let ?i = "k * ADSP_MAX_DATA" and ?chunk = "take ADSP_MAX_DATA F'"
    have ki: "?i < length F" using False 1(2) by simp
    have part: "data_part (stream_packet DataPacket FLAG_ACK (oldest_unacked_seq c + word_of_nat ?i) w ?chunk c)
        = Some (cid, word_of_nat (u + ?i), packet_items ?chunk False)"
      using data_part_stream [of False] assms(4,5) by (simp add: data_flags_def)
    have "take (length ?chunk) F' = ?chunk" by (cases "length F' \<le> ADSP_MAX_DATA") (simp_all add: min_def)
    then have "packet_items ?chunk False = map Some (take (length ?chunk) F')" by (simp add: packet_items_def)
    also have "\<dots> = take (length ?chunk) (drop ?i (map Some F))"
      by (simp only: 1(2) take_map drop_map)
    also have "\<dots> = take (length ?chunk) (drop ?i (take (length F) (drop u S)))"
      using assms(1) by simp
    also have "\<dots> = take (length ?chunk) (drop (u + ?i) S)"
      using 1(2) by (simp add: drop_take min_def add.commute)
    finally have seg: "segment S (u + ?i) (packet_items ?chunk False)"
      using assms(2,3) 1(2) ki by (simp add: segment_def length_packet_items)
    have le: "u + ?i + length (packet_items ?chunk False) \<le> n" "u + ?i \<le> n"
      using assms(2) 1(2) ki by (simp_all add: length_packet_items)
    have rest: "flow cid S n (resend_chunks w c (k + 1) (chunks_of ADSP_MAX_DATA (drop ADSP_MAX_DATA F'))) n"
      by (rule 1(1)) (use False mx 1(2) in \<open>simp_all add: add.commute\<close>)
    have ch: "chunks_of ADSP_MAX_DATA F' = ?chunk # chunks_of ADSP_MAX_DATA (drop ADSP_MAX_DATA F')"
      using False mx by (subst chunks_of.simps) simp
    show ?thesis
      unfolding ch resend_chunks.simps flow.simps part
      using seg le rest by (intro exI [of _ "u + ?i"] exI [of _ "packet_items ?chunk False"]) (simp add: max_absorb1)
  qed
qed

lemma tx_inv_resend:
  assumes "tx_inv cid c S ps tidy safe n u"
  shows "tx_inv cid (c\<lparr>cn_retries := k, cn_last_tx := t\<rparr>) S
     (ps @ resend_chunks w c 0 (chunks_of ADSP_MAX_DATA (flight_buffer c))) tidy (safe \<and> tidy) n u"
proof -
  let ?F = "flight_buffer c"
  have "flow cid S n (resend_chunks w c 0 (chunks_of ADSP_MAX_DATA ?F)) n" if tidy
  proof -
    from that assms obtain j where "take (n - u) (drop u S) = map Some ?F @ replicate j None"
      using marks_last_split by (auto simp: tx_inv_def)
    from arg_cong [OF this, of "take (length ?F)"] have "map Some ?F = take (length ?F) (drop u S)"
      using assms by (simp add: tx_inv_def min_absorb1)
    then show ?thesis
      by (rule resend_flow [where F = ?F and u = u]) (use assms in \<open>auto simp: tx_inv_def\<close>)
  qed
  then show ?thesis using assms by (auto simp: tx_inv_def flow_append)
qed

lemma tx_run_inv:
  assumes "tx_run cid c S ps tidy safe" and "length S < 2 ^ 31"
  shows "\<exists>n u. tx_inv cid c S ps tidy safe n u"
  using assms
proof (induction rule: tx_run.induct)
  case (tx_start c)
  then show ?case by (intro exI [of _ 0]) (simp add: tx_inv_def queue_items_def marks_last_def)
next
  case (tx_write c S ps tidy safe w now k d eom qs c')
  then obtain n u where "tx_inv cid c S ps tidy safe n u" by auto
  from tx_inv_pump [OF tx_inv_write [OF this] tx_write.prems tx_write.hyps(2)] show ?case by blast
next
  case (tx_ack c S ps tidy safe c1 p w now qs c')
  then obtain n u where "tx_inv cid c S ps tidy safe n u" by auto
  from tx_inv_ack [OF this tx_ack.prems] tx_ack.hyps(2) obtain v where
    "tx_inv cid c1 S ps (tidy \<or> send_seq c1 = oldest_unacked_seq c1) safe n v" by blast
  from tx_inv_pump [OF this tx_ack.prems tx_ack.hyps(3)] show ?case by blast
next
  case (tx_recv c S ps tidy safe p d c' del)
  then show ?case using tx_inv_recv by blast
next
  case (tx_resend c S ps tidy safe k t w)
  then show ?case using tx_inv_resend by blast
qed

section \<open>The receiving endpoint\<close>

fun adsp_receive :: "ServiceAddress \<Rightarrow> micros \<Rightarrow> bytes list \<Rightarrow> AdspEndpoint \<Rightarrow> AdspEndpoint" where
  "adsp_receive src now [] e = e"
| "adsp_receive src now (p # ps) e = adsp_receive src now ps (adsp_handle_datagram src p now e)"

text \<open>The items the data events of one connection carry.\<close>

fun event_items :: "u16 \<Rightarrow> AdspEvent list \<Rightarrow> items" where
  "event_items key [] = []"
| "event_items key (AdspData k d eom # evs) = (if k = key then packet_items d eom else []) @ event_items key evs"
| "event_items key (_ # evs) = event_items key evs"

lemma event_items_append: "event_items key (xs @ ys) = event_items key xs @ event_items key ys"
  by (induction key xs rule: event_items.induct) simp_all

text \<open>What the transmit side leaves alone: the receive sequence of every connection and the events.\<close>

definition rx_same :: "AdspEndpoint \<Rightarrow> AdspEndpoint \<Rightarrow> bool" where
  "rx_same e e' \<longleftrightarrow> ad_events e' = ad_events e
     \<and> (\<forall>key. map_option recv_seq (map_of (ad_connections e') key) = map_option recv_seq (map_of (ad_connections e) key))"

lemma rx_same_trans: "rx_same a b \<Longrightarrow> rx_same b c \<Longrightarrow> rx_same a c"
  by (simp add: rx_same_def)

lemma rx_same_put:
  "map_of (ad_connections e) key = Some c \<Longrightarrow> recv_seq c' = recv_seq c \<Longrightarrow> rx_same e (put_conn key c' e)"
  by (auto simp: rx_same_def put_conn_def map_of_om_insert)

lemma rx_same_queue: "rx_same e (queue_to r ps e)"
  by (simp add: rx_same_def queue_to_def)

lemma rx_same_pump: "rx_same e (pump key now e)"
proof (cases "map_of (ad_connections e) key")
  case None
  then show ?thesis by (simp add: pump_def rx_same_def)
next
  case (Some c)
  obtain ps c' where l: "pump_loop (ad_recv_window e) now c = (ps, c')" by fastforce
  with pump_loop_facts [where window = "ad_recv_window e" and now = now and c = c] have "recv_seq c' = recv_seq c" by simp
  then show ?thesis using Some l rx_same_trans [OF rx_same_put rx_same_queue]
    by (simp add: pump_def)
qed

lemma rx_same_send_ack: "rx_same e (send_ack key e)"
  by (simp add: send_ack_def rx_same_queue split: option.splits) (simp add: rx_same_def)

lemma rx_same_apply_ack: "rx_same e (apply_ack p now e)"
proof (cases "map_of (ad_connections e) (adsp_connection_id p)")
  case None
  then show ?thesis by (simp add: apply_ack_def rx_same_def)
next
  case (Some c)
  then have "rx_same e (put_conn (adsp_connection_id p) (ack_conn p c) e)"
    by (rule rx_same_put) (simp add: ack_conn_def Let_def)
  from rx_same_trans [OF this rx_same_pump] Some show ?thesis by (simp add: apply_ack_def Let_def)
qed

text \<open>A receiver that has the first \<open>r\<close> items of \<open>S\<close>.\<close>

definition rx_at :: "u16 \<Rightarrow> items \<Rightarrow> nat \<Rightarrow> AdspEndpoint \<Rightarrow> bool" where
  "rx_at key S r e \<longleftrightarrow> map_option recv_seq (map_of (ad_connections e) key) = Some (word_of_nat r)
     \<and> r \<le> length S \<and> event_items key (ad_events e) = take r S"

lemma rx_at_same: "rx_at key S r e \<Longrightarrow> rx_same e e' \<Longrightarrow> rx_at key S r e'"
  by (simp add: rx_at_def rx_same_def)

lemma rx_at_step:
  assumes "rx_at key S r e" and "length S < 2 ^ 31"
    and "data_part pkt = Some (key, word_of_nat i, xs)" and "segment S i xs"
  shows "\<exists>n. rx_at key S n (adsp_handle_datagram src pkt now e) \<and> r \<le> n \<and> (i \<le> r \<longrightarrow> n = max r (i + length xs))"
proof -
  from assms(3) obtain h where h: "adsp_parse pkt = Inr h" "adsp_descriptor h = DataPacket"
    "adsp_flags h AND FLAG_ATTENTION = 0" "adsp_connection_id h = key" "adsp_first_byte_seq h = word_of_nat i"
    and xs: "xs = packet_items (drop ADSP_HEADER_LEN pkt) (adsp_flags h AND FLAG_EOM \<noteq> 0)"
    by (auto simp: data_part_def split: sum.splits if_splits)
  from assms(1) obtain c where c: "map_of (ad_connections e) key = Some c" "recv_seq c = word_of_nat r"
    "r \<le> length S" "event_items key (ad_events e) = take r S"
    by (auto simp: rx_at_def)
  from recv_conn_segment [OF assms(4) [unfolded xs] assms(2) c(2,3) h(5) refl] obtain n d where
    n: "recv_conn h (drop ADSP_HEADER_LEN pkt) c = (c\<lparr>recv_seq := word_of_nat n\<rparr>, d)" "r \<le> n" "n \<le> length S"
      "delivered_items d = take (n - r) (drop r S)" "i \<le> r \<longrightarrow> n = max r (i + length xs)"
    unfolding xs by blast
  let ?e1 = "put_conn key (c\<lparr>recv_seq := word_of_nat n\<rparr>) e"
  let ?e2 = "case d of None \<Rightarrow> ?e1 | Some (x, eom) \<Rightarrow> emit (AdspData key x eom) ?e1"
  have "take r S @ take (n - r) (drop r S) = take n S"
    using n(2) by (metis le_add_diff_inverse take_add)
  then have "rx_at key S n ?e2"
    using c n(3,4) by (auto simp: rx_at_def put_conn_def emit_def map_of_om_insert event_items_append delivered_items_def
        split: option.splits)
  moreover have "rx_same ?e2 (adsp_handle_datagram src pkt now e)"
  proof -
    have a: "rx_same ?e2 (apply_ack h now ?e2)" by (rule rx_same_apply_ack)
    have b: "rx_same x (if t then send_ack key x else x)" for x t
      using rx_same_send_ack [of x key] by (simp add: rx_same_def)
    have "adsp_handle_datagram src pkt now e = pump key (Some now)
       (if adsp_flags h AND FLAG_ACK \<noteq> 0 then send_ack key (apply_ack h now ?e2) else apply_ack h now ?e2)"
      using h(1-4) c(1) n(1) by (simp add: adsp_handle_datagram_def handle_data_def Let_def)
    then show ?thesis using rx_same_trans [OF rx_same_trans [OF a b] rx_same_pump] by simp
  qed
  ultimately show ?thesis using n rx_at_same by blast
qed

lemma rx_at_parts:
  assumes "rx_at key S r e" and "length S < 2 ^ 31"
    and "\<forall>p\<in>set ps. \<exists>i xs. data_part p = Some (key, word_of_nat i, xs) \<and> segment S i xs"
  shows "\<exists>n. rx_at key S n (adsp_receive src now ps e)"
  using assms(1,3)
proof (induction ps arbitrary: e r)
  case Nil
  then show ?case by auto
next
  case (Cons p ps)
  then obtain i xs where "data_part p = Some (key, word_of_nat i, xs)" "segment S i xs" by auto
  from rx_at_step [OF Cons.prems(1) assms(2) this] obtain n where "rx_at key S n (adsp_handle_datagram src p now e)" by blast
  from Cons.IH [OF this] Cons.prems(2) show ?case by simp
qed

lemma rx_at_flow:
  assumes "rx_at key S r e" and "length S < 2 ^ 31" and "flow key S r ps n"
  shows "rx_at key S n (adsp_receive src now ps e)"
  using assms(1,3)
proof (induction ps arbitrary: e r)
  case Nil
  then show ?case by simp
next
  case (Cons p ps)
  then obtain i xs where p: "data_part p = Some (key, word_of_nat i, xs)" "segment S i xs" "i \<le> r"
    and f: "flow key S (max r (i + length xs)) ps n" by auto
  from rx_at_step [OF Cons.prems(1) assms(2) p(1,2)] p(3)
  have "rx_at key S (max r (i + length xs)) (adsp_handle_datagram src p now e)" by blast
  from Cons.IH [OF this f] show ?case by simp
qed

text \<open>
Claim C3: Reliable delivery: let a connection be written to (fewer than 2147483648 bytes and marks,
  half the sequence number space), acknowledged, and retransmitted on in any interleaving, with
  any windows, such that once a byte was sent behind a still unacknowledged end-of-message mark nothing
  is retransmitted until everything sent is acknowledged; what a retransmission does then is the
  subject of \<open>adsp_eom_ack_loses_byte\<close>. A receiving endpoint that gets any of the queued packets, in any
  order, with any losses and duplicates, delivers to its application a prefix of what was written,
  every byte and every mark exactly once and in order; and if it gets them all in the order they
  were queued, it delivers all that the sender has sent.\<close>

theorem adsp_delivers_prefix:
  assumes "tx_run cid c S ps tidy True" and "length S < 2 ^ 31"
    and "map_of (ad_connections e) cid = Some d" and "recv_seq d = 0" and "ad_events e = []"
    and "set qs \<subseteq> set ps"
  shows "(\<exists>r\<le>length S. event_items cid (ad_events (adsp_receive src now qs e)) = take r S)
    \<and> event_items cid (ad_events (adsp_receive src now ps e)) = take (unat (send_seq c)) S
    \<and> drop (unat (send_seq c)) S = queue_items (pending_writes c)"
proof -
  from tx_run_inv [OF assms(1,2)] obtain n u where i: "tx_inv cid c S ps tidy True n u" by blast
  then have f: "flow cid S 0 ps n" and n: "send_seq c = word_of_nat n" "n \<le> length S"
    and q: "drop n S = queue_items (pending_writes c)" by (auto simp: tx_inv_def)
  have u: "unat (send_seq c) = n" unfolding n(1) by (rule unat_seq) (use n(2) assms(2) in simp)
  have z: "rx_at cid S 0 e" using assms(3-5) by (simp add: rx_at_def)
  have "\<forall>p\<in>set qs. \<exists>i xs. data_part p = Some (cid, word_of_nat i, xs) \<and> segment S i xs"
    using flow_part [OF f] assms(6) by blast
  from rx_at_parts [OF z assms(2) this] have "\<exists>r\<le>length S. event_items cid (ad_events (adsp_receive src now qs e)) = take r S"
    by (auto simp: rx_at_def)
  moreover from rx_at_flow [OF z assms(2) f] have "event_items cid (ad_events (adsp_receive src now ps e)) = take n S"
    by (simp add: rx_at_def)
  ultimately show ?thesis using u q by simp
qed

section \<open>The operations of the endpoint are steps of the run\<close>

lemma adsp_send_step:
  assumes "map_of (ad_connections e) key = Some c" and "tx_run cid c S ps tidy safe"
  shows "\<exists>c' qs. map_of (ad_connections (snd (adsp_send key d eom e))) key = Some c'
    \<and> tx_run cid c' (S @ packet_items d eom) (ps @ qs)
        (tidy \<and> marks_last (in_flight (S @ packet_items d eom) c')) safe
    \<and> ad_outbox (snd (adsp_send key d eom e)) = ad_outbox e @ map (Pair (cn_remote c)) qs"
proof -
  let ?c = "c\<lparr>writes_submitted := writes_submitted c + 1,
      pending_writes := pending_writes c @ [\<lparr>pw_data = d, pw_offset = 0, pw_eom = eom\<rparr>]\<rparr>"
  obtain qs c' where l: "pump_loop (ad_recv_window e) None ?c = (qs, c')" by fastforce
  have "snd (adsp_send key d eom e) = queue_to (cn_remote c) qs (put_conn key c' (put_conn key ?c e))"
    using assms(1) l by (simp add: adsp_send_def Let_def pump_def put_conn_def map_of_om_insert)
  with tx_write [OF assms(2) l] show ?thesis
    by (intro exI [of _ c'] exI [of _ qs]) (simp add: queue_to_def put_conn_def map_of_om_insert)
qed

lemma apply_ack_step:
  assumes "map_of (ad_connections e) (adsp_connection_id p) = Some c" and "tx_run cid c S ps tidy safe"
  shows "\<exists>c' qs. map_of (ad_connections (apply_ack p now e)) (adsp_connection_id p) = Some c'
    \<and> tx_run cid c' S (ps @ qs)
        ((tidy \<or> send_seq (ack_conn p c) = oldest_unacked_seq (ack_conn p c)) \<and> marks_last (in_flight S c')) safe
    \<and> ad_outbox (apply_ack p now e) = ad_outbox e @ map (Pair (cn_remote (ack_conn p c))) qs"
proof -
  let ?k = "adsp_connection_id p"
  obtain qs c' where l: "pump_loop (ad_recv_window e) (Some now) (ack_conn p c) = (qs, c')" by fastforce
  have "apply_ack p now e = queue_to (cn_remote (ack_conn p c)) qs (put_conn ?k c' (put_conn ?k (ack_conn p c) e))"
    using assms(1) l by (simp add: apply_ack_def Let_def pump_def put_conn_def map_of_om_insert)
  with tx_ack [OF assms(2) refl l] show ?thesis
    by (intro exI [of _ c'] exI [of _ qs]) (simp add: queue_to_def put_conn_def map_of_om_insert)
qed

lemma resend_step:
  assumes "map_of (ad_connections e) key = Some c" and "tx_run cid c S ps tidy safe"
  shows "\<exists>c' qs. map_of (ad_connections (resend_unacked key now e)) key = Some c'
    \<and> tx_run cid c' S (ps @ qs) tidy (safe \<and> tidy)
    \<and> ad_outbox (resend_unacked key now e) = ad_outbox e @ map (Pair (cn_remote c)) qs"
proof (cases "flight_buffer c = []")
  case True
  then have "chunks_of ADSP_MAX_DATA (flight_buffer c) = []" by (subst chunks_of.simps) simp
  with tx_resend [OF assms(2), where k = "cn_retries c" and t = "cn_last_tx c" and w = 0]
  have "tx_run cid c S (ps @ []) tidy (safe \<and> tidy)" by simp
  then show ?thesis using assms True by (intro exI [of _ c] exI [of _ "[]"]) (simp add: resend_unacked_def)
next
  case False
  from tx_resend [OF assms(2), where k = "cn_retries c" and t = now and w = "ad_recv_window e"] assms(1) False
  show ?thesis
    by (intro exI [of _ "c\<lparr>cn_last_tx := now\<rparr>"] exI [of _ "resend_chunks (ad_recv_window e) c 0 (chunks_of ADSP_MAX_DATA (flight_buffer c))"])
      (simp add: resend_unacked_def queue_to_def put_conn_def map_of_om_insert)
qed

section \<open>End-of-message marks and retransmission\<close>

text \<open>A write to a connection with an empty queue whose window takes it all: one packet.\<close>

lemma pump_one:
  assumes "pending_writes c = [\<lparr>pw_data = d, pw_offset = 0, pw_eom = eom\<rparr>]"
    and "unat (send_seq c - oldest_unacked_seq c) + length d \<le> unat (send_window c)"
    and "length d \<le> ADSP_MAX_DATA" and "d \<noteq> [] \<or> eom"
  shows "\<exists>c'. pump_loop w now c = ([stream_packet DataPacket (data_flags eom) (send_seq c) w d c], c')
    \<and> pending_writes c' = [] \<and> send_seq c' = send_seq c + word_of_nat (length (packet_items d eom))
    \<and> flight_buffer c' = flight_buffer c @ d \<and> oldest_unacked_seq c' = oldest_unacked_seq c
    \<and> our_conn_id c' = our_conn_id c \<and> send_window c' = send_window c \<and> cn_remote c' = cn_remote c"
proof -
  have ne: "FLAG_EOM \<noteq> 0" by (simp add: FLAG_EOM_def)
  have "\<exists>c'. pump_step w now c = Some ([stream_packet DataPacket (data_flags eom) (send_seq c) w d c], c')
    \<and> pending_writes c' = [] \<and> send_seq c' = send_seq c + word_of_nat (length (packet_items d eom))
    \<and> flight_buffer c' = flight_buffer c @ d \<and> oldest_unacked_seq c' = oldest_unacked_seq c
    \<and> our_conn_id c' = our_conn_id c \<and> send_window c' = send_window c \<and> cn_remote c' = cn_remote c"
  proof (cases "d = []")
    case True
    then show ?thesis using assms(1,4)
      by (simp add: pump_step_def Let_def data_flags_def length_packet_items done_write_def touch_def split: option.split)
  next
    case False
    then have "length d \<ge> 1" by (cases d) simp_all
    then have av: "0 < available_window c" "min (length d) (available_window c) = length d"
      using assms(2) unfolding available_window_def by linarith+
    then show ?thesis using assms(1,3) False ne
      by (cases eom) (simp_all add: pump_step_def Let_def data_flags_def length_packet_items done_write_def touch_def
          split: option.split)
  qed
  then obtain c' where s: "pump_step w now c = Some ([stream_packet DataPacket (data_flags eom) (send_seq c) w d c], c')"
    and p: "pending_writes c' = []" and r: "send_seq c' = send_seq c + word_of_nat (length (packet_items d eom))"
      "flight_buffer c' = flight_buffer c @ d" "oldest_unacked_seq c' = oldest_unacked_seq c"
      "our_conn_id c' = our_conn_id c" "send_window c' = send_window c" "cn_remote c' = cn_remote c" by blast
  have "pump_step w now c' = None" using p by (simp add: pump_step_def)
  then have "pump_loop w now c' = ([], c')" by (subst pump_loop.simps) simp
  then have "pump_loop w now c = ([stream_packet DataPacket (data_flags eom) (send_seq c) w d c], c')"
    by (subst pump_loop.simps) (simp only: s option.case prod.case Let_def append_Nil2)
  with p r show ?thesis by blast
qed

lemma pump_idle: "pending_writes c = [] \<Longrightarrow> pump_loop w now c = ([], c)"
  by (subst pump_loop.simps) (simp add: pump_step_def)

lemma adsp_send_one:
  assumes "map_of (ad_connections e) key = Some c" and "pending_writes c = []"
    and "unat (send_seq c - oldest_unacked_seq c) + length d \<le> unat (send_window c)"
    and "length d \<le> ADSP_MAX_DATA" and "d \<noteq> [] \<or> eom"
  shows "\<exists>c' pkt. map_of (ad_connections (snd (adsp_send key d eom e))) key = Some c'
    \<and> ad_outbox (snd (adsp_send key d eom e)) = ad_outbox e @ [(cn_remote c, pkt)]
    \<and> data_part pkt = Some (our_conn_id c, send_seq c, packet_items d eom)
    \<and> pending_writes c' = [] \<and> send_seq c' = send_seq c + word_of_nat (length (packet_items d eom))
    \<and> flight_buffer c' = flight_buffer c @ d \<and> oldest_unacked_seq c' = oldest_unacked_seq c
    \<and> our_conn_id c' = our_conn_id c \<and> send_window c' = send_window c \<and> cn_remote c' = cn_remote c"
proof -
  let ?c = "c\<lparr>writes_submitted := writes_submitted c + 1,
      pending_writes := pending_writes c @ [\<lparr>pw_data = d, pw_offset = 0, pw_eom = eom\<rparr>]\<rparr>"
  from pump_one [of ?c d eom "ad_recv_window e" None] assms(2-5) obtain c' where
    l: "pump_loop (ad_recv_window e) None ?c
      = ([stream_packet DataPacket (data_flags eom) (send_seq c) (ad_recv_window e) d ?c], c')"
    and f: "pending_writes c' = []" "send_seq c' = send_seq c + word_of_nat (length (packet_items d eom))"
      "flight_buffer c' = flight_buffer c @ d" "oldest_unacked_seq c' = oldest_unacked_seq c"
      "our_conn_id c' = our_conn_id c" "send_window c' = send_window c" "cn_remote c' = cn_remote c"
    by auto
  have "snd (adsp_send key d eom e) = queue_to (cn_remote c)
      [stream_packet DataPacket (data_flags eom) (send_seq c) (ad_recv_window e) d ?c] (put_conn key c' (put_conn key ?c e))"
    using assms(1) l by (simp add: adsp_send_def Let_def pump_def put_conn_def map_of_om_insert)
  with f show ?thesis
    by (intro exI [of _ c'] exI [of _ "stream_packet DataPacket (data_flags eom) (send_seq c) (ad_recv_window e) d ?c"])
      (simp add: queue_to_def put_conn_def map_of_om_insert data_part_stream)
qed

text \<open>
Claim C21: An end-of-message mark takes a sequence number but no byte of the retransmission buffer,
  and the acknowledgement of a mark drains the buffer by sequence numbers. An idle connection
  (in the first half of the sequence numbers) whose window is wide enough is given a message \<open>a\<close> with its mark and then two or more bytes
  \<open>b\<close>, each short enough for one packet; the peer acknowledges the message; and the bytes behind
  it are retransmitted. The retransmission sends \<open>b\<close> without its first byte, at the sequence
  number of that byte. A receiver that gets the message and, the packet of \<open>b\<close> having been lost,
  the retransmission, delivers the message, its mark, and then \<open>b\<close> less its first byte.\<close>

theorem adsp_eom_ack_loses_byte:
  assumes "map_of (ad_connections e) key = Some c" and "pending_writes c = []" and "flight_buffer c = []"
    and "oldest_unacked_seq c = send_seq c" and "length a + 1 + length b \<le> unat (send_window c)"
    and "length a \<le> ADSP_MAX_DATA" and "length b \<le> ADSP_MAX_DATA" and "1 < length b"
    and "adsp_connection_id p = key" and "adsp_next_recv_seq p = send_seq c + word_of_nat (length a + 1)"
    and "send_seq c = word_of_nat (length T)" and "length T + length a + 1 + length b < 2 ^ 31"
    and "map_of (ad_connections f) (our_conn_id c) = Some d" and "recv_seq d = send_seq c"
    and "event_items (our_conn_id c) (ad_events f) = T"
  shows "let e1 = snd (adsp_send key a True e);
             e2 = snd (adsp_send key b False e1);
             e3 = apply_ack p now e2;
             e4 = resend_unacked key later e3
    in \<exists>pa pb pr. ad_outbox e4 = ad_outbox e @ [(cn_remote c, pa), (cn_remote c, pb), (cn_remote c, pr)]
       \<and> data_part pa = Some (our_conn_id c, send_seq c, packet_items a True)
       \<and> data_part pb = Some (our_conn_id c, send_seq c + word_of_nat (length a + 1), packet_items b False)
       \<and> data_part pr = Some (our_conn_id c, send_seq c + word_of_nat (length a + 1), packet_items (tl b) False)
       \<and> event_items (our_conn_id c) (ad_events (adsp_receive src at [pa, pr] f))
           = T @ packet_items a True @ packet_items (tl b) False"
proof -
  let ?e1 = "snd (adsp_send key a True e)" and ?k = "our_conn_id c"
  let ?e2 = "snd (adsp_send key b False ?e1)"
  let ?e3 = "apply_ack p now ?e2"
  from adsp_send_one [OF assms(1,2), of a True] assms(4-6) obtain c1 pa where
    e1: "map_of (ad_connections ?e1) key = Some c1" "ad_outbox ?e1 = ad_outbox e @ [(cn_remote c, pa)]"
    and pa: "data_part pa = Some (?k, send_seq c, packet_items a True)"
    and c1: "pending_writes c1 = []" "send_seq c1 = send_seq c + word_of_nat (length a + 1)" "flight_buffer c1 = a"
      "oldest_unacked_seq c1 = send_seq c" "our_conn_id c1 = ?k" "send_window c1 = send_window c" "cn_remote c1 = cn_remote c"
    using assms(3) by (auto simp: length_packet_items)
  have w1: "unat (send_seq c1 - oldest_unacked_seq c1) = length a + 1"
    unfolding c1(2,4) using unat_seq [of "length a + 1"] assms(12) by simp
  have "b \<noteq> []" "unat (send_seq c1 - oldest_unacked_seq c1) + length b \<le> unat (send_window c1)"
    using assms(5,8) w1 c1(6) by auto
  with adsp_send_one [OF e1(1) c1(1), of b False] assms(7) obtain c2 pb where
    e2: "map_of (ad_connections ?e2) key = Some c2" "ad_outbox ?e2 = ad_outbox e @ [(cn_remote c, pa), (cn_remote c, pb)]"
    and pb: "data_part pb = Some (?k, send_seq c + word_of_nat (length a + 1), packet_items b False)"
    and c2: "pending_writes c2 = []" "send_seq c2 = send_seq c1 + word_of_nat (length b)" "flight_buffer c2 = a @ b"
      "oldest_unacked_seq c2 = send_seq c" "our_conn_id c2 = ?k" "cn_remote c2 = cn_remote c"
    using e1(2) c1 by (auto simp: length_packet_items)
  have "send_seq c2 - oldest_unacked_seq c2 = word_of_nat (length a + 1 + length b)"
    unfolding c2(2,4) c1(2) by simp
  then have w2: "unat (send_seq c2 - oldest_unacked_seq c2) = length a + 1 + length b"
    using unat_seq [of "length a + 1 + length b"] assms(12) by simp
  have w3: "unat (adsp_next_recv_seq p - oldest_unacked_seq c2) = length a + 1"
    unfolding assms(10) c2(4) using unat_seq [of "length a + 1"] assms(12) by simp
  have ack: "ack_conn p c2 = c2\<lparr>send_window := adsp_recv_window p, flight_buffer := tl b,
     oldest_unacked_seq := adsp_next_recv_seq p, cn_retries := 0\<rparr>" (is "_ = ?c3")
    using assms(8) by (simp add: ack_conn_def Let_def w2 w3 c2(3) min_def drop_Suc)
  have e3: "map_of (ad_connections ?e3) key = Some ?c3" "ad_outbox ?e3 = ad_outbox ?e2"
    using e2(1) assms(9) c2(1) by (simp_all add: apply_ack_def Let_def pump_def put_conn_def map_of_om_insert ack pump_idle queue_to_def)
  have tb: "tl b \<noteq> []" "length (tl b) \<le> ADSP_MAX_DATA" using assms(7,8) by (cases b; auto)+
  then have ch: "chunks_of ADSP_MAX_DATA (tl b) = [tl b]"
    by (subst chunks_of.simps, subst chunks_of.simps) (simp add: ADSP_MAX_DATA_def)
  let ?pr = "stream_packet DataPacket FLAG_ACK (adsp_next_recv_seq p) (ad_recv_window ?e3) (tl b) ?c3"
  have e4: "ad_outbox (resend_unacked key later ?e3) = ad_outbox e @ [(cn_remote c, pa), (cn_remote c, pb), (cn_remote c, ?pr)]"
    using e3 e2(2) tb(1) c2(6) by (simp add: resend_unacked_def queue_to_def put_conn_def ch)
  have pr: "data_part ?pr = Some (?k, send_seq c + word_of_nat (length a + 1), packet_items (tl b) False)"
    using data_part_stream [of False "adsp_next_recv_seq p" "ad_recv_window ?e3" "tl b" ?c3] c2(5) assms(10)
    by (simp add: data_flags_def)
  let ?S = "T @ packet_items a True @ packet_items (tl b) False"
  have z: "rx_at ?k ?S (length T) f" using assms(11,13-15) by (simp add: rx_at_def)
  have "flow ?k ?S (length T) [pa, ?pr] (length ?S)"
    unfolding flow.simps
    by (intro exI [of _ "length T"] exI [of _ "packet_items a True"] conjI exI [of _ "length T + (length a + 1)"]
        exI [of _ "packet_items (tl b) False"]) (use pa pr assms(11) in \<open>simp_all add: segment_def length_packet_items\<close>)
  from rx_at_flow [OF z _ this, of src at] assms(12)
  have "event_items ?k (ad_events (adsp_receive src at [pa, ?pr] f)) = ?S"
    by (simp add: rx_at_def length_packet_items)
  then show ?thesis unfolding Let_def using e4 pa pb pr by blast
qed

section \<open>Witnesses\<close>

definition example_conn :: Connection where
  "example_conn = connection_new 5 \<lparr>sa_network = 1, sa_node = 2, sa_socket = 80\<rparr> 10 0"

lemma example_write:
  "\<exists>qs c'. pump_loop 64 None (example_conn\<lparr>writes_submitted := 1,
      pending_writes := pending_writes example_conn @ [\<lparr>pw_data = [1, 2], pw_offset = 0, pw_eom = True\<rparr>]\<rparr>) = (qs, c')
     \<and> send_seq c' = 3 \<and> pending_writes c' = []"
proof -
  let ?c = "example_conn\<lparr>writes_submitted := 1,
      pending_writes := pending_writes example_conn @ [\<lparr>pw_data = [1, 2], pw_offset = 0, pw_eom = True\<rparr>]\<rparr>"
  obtain ps c1 where s: "pump_step 64 None ?c = Some (ps, c1)" and c1: "send_seq c1 = 3" "pending_writes c1 = []"
    by (simp add: pump_step_def Let_def example_conn_def connection_new_def available_window_def ADSP_MAX_DATA_def
        FLAG_EOM_def done_write_def touch_def)
  have "pump_step 64 None c1 = None" using c1 by (simp add: pump_step_def)
  then have "pump_loop 64 None c1 = ([], c1)" by (subst pump_loop.simps) simp
  then have "pump_loop 64 None ?c = (ps, c1)"
    by (subst pump_loop.simps) (simp only: s option.case prod.case Let_def append_Nil2)
  then show ?thesis using c1 by blast
qed

lemma adsp_delivers_prefix_witness:
  "\<exists>c ps tidy. tx_run 5 c [Some 1, Some 2, None] ps tidy True
    \<and> event_items 5 (ad_events (adsp_receive (cn_remote example_conn) 9 ps (put_conn 5 example_conn (adsp_new 80 1))))
        = [Some 1, Some 2, None]"
proof -
  from example_write obtain qs c' where l: "pump_loop 64 None (example_conn\<lparr>writes_submitted := 1,
      pending_writes := pending_writes example_conn @ [\<lparr>pw_data = [1, 2], pw_offset = 0, pw_eom = True\<rparr>]\<rparr>) = (qs, c')"
    and c': "send_seq c' = 3" by blast
  have "tx_run 5 example_conn [] [] True True"
    by (rule tx_start) (simp_all add: example_conn_def connection_new_def)
  from tx_write [OF this l] obtain tidy where t: "tx_run 5 c' [Some 1, Some 2, None] qs tidy True"
    by (auto simp: packet_items_def)
  have "map_of (ad_connections (put_conn 5 example_conn (adsp_new 80 1))) 5 = Some example_conn"
    "recv_seq example_conn = 0" "ad_events (put_conn 5 example_conn (adsp_new 80 1)) = []"
    by (simp_all add: put_conn_def adsp_new_def example_conn_def connection_new_def)
  from adsp_delivers_prefix [OF t _ this order.refl, where src = "cn_remote example_conn" and now = 9] t c'
  show ?thesis by (intro exI [of _ c'] exI [of _ qs] exI [of _ tidy]) simp
qed

definition example_end :: AdspEndpoint where
  "example_end = put_conn 5 example_conn (adsp_new 80 1)"

definition example_ack :: AdspPacket where
  "example_ack = \<lparr>adsp_descriptor = ControlPacket, adsp_connection_id = 5, adsp_first_byte_seq = 0,
     adsp_next_recv_seq = 3, adsp_recv_window = 10, adsp_flags = 0\<rparr>"

lemma adsp_eom_ack_loses_byte_witness:
  "\<exists>r pa pb pr. ad_outbox (resend_unacked 5 9 (apply_ack example_ack 8
      (snd (adsp_send 5 [3, 4] False (snd (adsp_send 5 [1, 2] True example_end)))))) = [(r, pa), (r, pb), (r, pr)]
     \<and> event_items 5 (ad_events (adsp_receive r 10 [pa, pr] example_end)) = [Some 1, Some 2, None, Some 4]"
proof -
  let ?e = example_end and ?p = example_ack
  have c: "map_of (ad_connections ?e) 5 = Some example_conn" "ad_outbox ?e = []" "ad_events ?e = []"
    "pending_writes example_conn = []" "flight_buffer example_conn = []"
    "oldest_unacked_seq example_conn = send_seq example_conn" "send_seq example_conn = word_of_nat (length ([] :: items))"
    "recv_seq example_conn = send_seq example_conn" "our_conn_id example_conn = 5" "unat (send_window example_conn) = 10"
    "adsp_next_recv_seq ?p = send_seq example_conn + word_of_nat (length [1, 2 :: u8] + 1)" "adsp_connection_id ?p = 5"
    by (simp_all add: example_end_def example_ack_def put_conn_def adsp_new_def example_conn_def connection_new_def)
  have m: "map_of (ad_connections ?e) (our_conn_id example_conn) = Some example_conn"
    "event_items (our_conn_id example_conn) (ad_events ?e) = []" using c by simp_all
  show ?thesis
    using adsp_eom_ack_loses_byte [OF c(1,4,5,6) _ _ _ _ c(12,11,7) _ m(1) c(8) m(2), of "[3, 4]" 8 9 "cn_remote example_conn" 10]
    by (auto simp: Let_def c ADSP_MAX_DATA_def packet_items_def)
qed

end
