(* ===== verification/Core_Adsp_Session.thy ===== *)
theory Core_Adsp_Session
  imports Core_Adsp_Stream
begin

text \<open>
  The sessions of the ADSP endpoint (src/tailtalk-core/src/adsp.rs): the three-way handshake
  between a client and a listener, and the stop-and-wait exchange of attention messages.
\<close>

section \<open>Parsing control packets\<close>

lemma adsp_control_byte: "d \<noteq> DataPacket \<Longrightarrow> adsp_descriptor_u8 d OR 0x80 = adsp_descriptor_u8 d"
  by (cases d) (simp_all add: adsp_descriptor_u8_def)

lemma adsp_header_control:
  assumes "adsp_descriptor p \<noteq> DataPacket"
  shows "adsp_header p = adsp_header (p\<lparr>adsp_flags := adsp_flags p OR 0x80\<rparr>)"
proof -
  have "adsp_descriptor_u8 (adsp_descriptor p) OR (adsp_flags p OR 0x80)
    = (adsp_descriptor_u8 (adsp_descriptor p) OR 0x80) OR adsp_flags p"
    by (simp only: or.assoc or.commute or.left_commute)
  then show ?thesis
    using adsp_control_byte [OF assms] by (simp add: adsp_header_def)
qed

lemma adsp_parse_control:
  assumes "adsp_descriptor p \<noteq> DataPacket" and "adsp_flags p = 0 \<or> adsp_flags p = FLAG_ATTENTION"
  shows "adsp_parse (adsp_frame p payload) = Inr (p\<lparr>adsp_flags := adsp_flags p OR 0x80\<rparr>)"
proof -
  have "adsp_wf (p\<lparr>adsp_flags := adsp_flags p OR 0x80\<rparr>)"
    using assms by (auto simp: adsp_wf_def high_nibbles_def FLAG_ATTENTION_def)
  then show ?thesis
    by (simp only: adsp_frame_eq adsp_header_control [OF assms(1)] adsp_parse_header)
qed

lemma length_adsp_frame: "length (adsp_frame p payload) = ADSP_HEADER_LEN + length payload"
  by (simp add: adsp_frame_eq)

lemma open_params_dest: "read_u16 (adsp_frame p (open_params d)) 15 = d"
proof -
  have "adsp_frame p (open_params d) ! 15 = open_params d ! 2" "adsp_frame p (open_params d) ! 16 = open_params d ! 3"
    by (simp_all add: adsp_frame_eq nth_append ADSP_HEADER_LEN_def)
  then show ?thesis by (simp add: read_u16_def open_params_def u16_bytes_def)
qed

lemma length_open_params [simp]: "length (open_params d) = 8"
  by (simp add: open_params_def)

text \<open>How an endpoint reads an open packet.\<close>

lemma handle_open_packet:
  assumes "d \<in> {OpenConnRequest, OpenConnAck, OpenConnReqAck}"
  shows "adsp_handle_datagram src (open_packet d cid w dest) now e =
    (let h = \<lparr>adsp_descriptor = d, adsp_connection_id = cid, adsp_first_byte_seq = 0,
         adsp_next_recv_seq = 0, adsp_recv_window = w, adsp_flags = 0x80\<rparr>
     in if d = OpenConnRequest then handle_open_request src h now e
        else handle_open_ack src h (open_packet d cid w dest) now e)"
proof -
  have p: "adsp_parse (open_packet d cid w dest) = Inr \<lparr>adsp_descriptor = d, adsp_connection_id = cid,
      adsp_first_byte_seq = 0, adsp_next_recv_seq = 0, adsp_recv_window = w, adsp_flags = 0x80\<rparr>"
    unfolding open_packet_def by (subst adsp_parse_control) (use assms in auto)
  have a: "(0x80 :: u8) AND FLAG_ATTENTION = 0" by (simp add: FLAG_ATTENTION_def)
  show ?thesis unfolding adsp_handle_datagram_def p using assms a by (auto simp: Let_def)
qed

lemma open_packet_dest: "length (open_packet d cid w dest) \<ge> 17" "read_u16 (open_packet d cid w dest) 15 = dest"
  by (simp_all add: open_packet_def length_adsp_frame ADSP_HEADER_LEN_def open_params_dest)

section \<open>The handshake\<close>

definition server_conn_id :: "AdspEndpoint \<Rightarrow> u16" where
  "server_conn_id e = ucast (fst (next_u32 (ad_rng e)) AND 0xFFFF) OR 1"

text \<open>
Claim C26: The three-way handshake: a client's open request makes a listening server open exactly one
  connection and answer once; the answer makes the client open exactly one connection, keyed by
  the server's identifier, and complete the handshake once; the completing packet changes nothing
  at the server and is not answered. Each end holds the other's identifier, address and window,
  and each application gets exactly one event.\<close>

theorem adsp_handshake:
  assumes "adsp_connect sv_addr t0 cl = Some (cid, cl1)"
    and "ad_listening sv" and "map_of (ad_connections sv) cid = None"
    and "map_of (ad_connections cl) (server_conn_id sv) = None"
  shows "\<exists>req rep ack sv1 cl2. let sid = server_conn_id sv in
      ad_outbox cl1 = ad_outbox cl @ [(sv_addr, req)]
    \<and> sv1 = adsp_handle_datagram cl_addr req t1 sv
    \<and> ad_outbox sv1 = ad_outbox sv @ [(cl_addr, rep)]
    \<and> cl2 = adsp_handle_datagram sv_addr rep t2 cl1
    \<and> ad_outbox cl2 = ad_outbox cl1 @ [(sv_addr, ack)]
    \<and> adsp_handle_datagram cl_addr ack t3 sv1 = sv1
    \<and> map_of (ad_connections sv1) = (map_of (ad_connections sv))(cid \<mapsto> connection_new sid cl_addr (ad_recv_window cl) t1)
    \<and> map_of (ad_connections cl2) = (map_of (ad_connections cl))(sid \<mapsto> connection_new cid sv_addr (ad_recv_window sv) t2)
    \<and> ad_events sv1 = ad_events sv @ [Opened cid cl_addr True None]
    \<and> ad_events cl2 = ad_events cl @ [Opened sid sv_addr False (Some cid)]
    \<and> map_of (ad_pending_opens cl2) cid = None"
proof -
  let ?sid = "server_conn_id sv"
  let ?req = "open_packet OpenConnRequest cid (ad_recv_window cl) 0"
  let ?rep = "open_packet OpenConnReqAck ?sid (ad_recv_window sv) cid"
  let ?ack = "open_packet OpenConnAck cid (ad_recv_window cl) ?sid"
  let ?sc = "connection_new ?sid cl_addr (ad_recv_window cl) t1"
  let ?cc = "connection_new cid sv_addr (ad_recv_window sv) t2"
  let ?sv1 = "sv\<lparr>ad_rng := snd (next_u32 (ad_rng sv)), ad_connections := om_insert cid ?sc (ad_connections sv),
     ad_outbox := ad_outbox sv @ [(cl_addr, ?rep)], ad_events := ad_events sv @ [Opened cid cl_addr True None]\<rparr>"
  let ?cl2 = "cl1\<lparr>ad_pending_opens := om_remove cid (ad_pending_opens cl1),
     ad_connections := om_insert ?sid ?cc (ad_connections cl1),
     ad_outbox := ad_outbox cl1 @ [(sv_addr, ?ack)], ad_events := ad_events cl1 @ [Opened ?sid sv_addr False (Some cid)]\<rparr>"
  from assms(1) have cl1: "ad_outbox cl1 = ad_outbox cl @ [(sv_addr, ?req)]" "ad_connections cl1 = ad_connections cl"
    "ad_recv_window cl1 = ad_recv_window cl" "ad_events cl1 = ad_events cl"
    and "map_of (ad_pending_opens cl1) cid \<noteq> None"
    by (auto simp: adsp_connect_def send_open_request_def queue_to_def map_of_om_insert split: option.splits prod.splits)
  then obtain po where po: "map_of (ad_pending_opens cl1) cid = Some po" by blast
  have s1: "adsp_handle_datagram cl_addr ?req t1 sv = ?sv1"
    using assms(2,3)
    by (subst handle_open_packet)
      (simp_all add: handle_open_request_def Let_def server_conn_id_def send_open_reply_def queue_to_def put_conn_def emit_def split_beta)
  have c2: "adsp_handle_datagram sv_addr ?rep t2 cl1 = ?cl2"
    using assms(4) cl1 po
    by (subst handle_open_packet)
      (simp_all add: handle_open_ack_def Let_def open_packet_dest send_open_reply_def queue_to_def put_conn_def emit_def)
  have s3: "adsp_handle_datagram cl_addr ?ack t3 ?sv1 = ?sv1"
    by (subst handle_open_packet) (simp_all add: handle_open_ack_def Let_def map_of_om_insert)
  show ?thesis
    by (rule exI [of _ ?req], rule exI [of _ ?rep], rule exI [of _ ?ack], rule exI [of _ ?sv1], rule exI [of _ ?cl2])
      (simp add: Let_def s1 c2 s3 cl1 map_of_om_insert map_of_om_remove)
qed

lemma conn_id_loop_first:
  "conn_id_loop [] 1 = Some (ucast (fst (next_u32 1) AND 0xFFFF), snd (next_u32 1))"
  by (subst conn_id_loop.simps) (simp add: next_u32_def Let_def)

lemma adsp_handshake_witness:
  "\<exists>cid cl1 (sv1 :: AdspEndpoint). adsp_connect \<lparr>sa_network = 1, sa_node = 9, sa_socket = 80\<rparr> 0 (adsp_new 70 1) = Some (cid, cl1)
    \<and> map_of (ad_connections sv1) cid \<noteq> None
    \<and> ad_events sv1 = [Opened cid \<lparr>sa_network = 1, sa_node = 2, sa_socket = 70\<rparr> True None]"
proof -
  let ?sv = "set_listening True (adsp_new 80 2)" and ?a = "\<lparr>sa_network = 1, sa_node = 9, sa_socket = 80\<rparr>"
  let ?b = "\<lparr>sa_network = 1, sa_node = 2, sa_socket = 70\<rparr>"
  have r: "rand_new 1 = 1" by (simp add: rand_new_def)
  obtain cid cl1 where c: "adsp_connect ?a 0 (adsp_new 70 1) = Some (cid, cl1)"
    by (simp add: adsp_connect_def adsp_new_def r conn_id_loop_first)
  have "ad_listening ?sv" "map_of (ad_connections ?sv) cid = None"
    "map_of (ad_connections (adsp_new 70 1)) (server_conn_id ?sv) = None"
    by (simp_all add: set_listening_def adsp_new_def)
  from adsp_handshake [OF c this, where cl_addr = ?b and ?t1.0 = 0 and ?t2.0 = 0 and ?t3.0 = 0]
  have "\<exists>sv1 :: AdspEndpoint. map_of (ad_connections sv1) = (map_of (ad_connections ?sv))(cid \<mapsto>
      connection_new (server_conn_id ?sv) ?b (ad_recv_window (adsp_new 70 1)) 0)
    \<and> ad_events sv1 = ad_events ?sv @ [Opened cid ?b True None]"
    unfolding Let_def by (elim exE conjE) (intro exI conjI, assumption+)
  then obtain sv1 :: AdspEndpoint where
    m: "map_of (ad_connections sv1) = (map_of (ad_connections ?sv))(cid \<mapsto>
      connection_new (server_conn_id ?sv) ?b (ad_recv_window (adsp_new 70 1)) 0)"
    and ev: "ad_events sv1 = ad_events ?sv @ [Opened cid ?b True None]" by blast
  from m have "map_of (ad_connections sv1) cid \<noteq> None" by simp
  moreover from ev have "ad_events sv1 = [Opened cid ?b True None]" by (simp add: set_listening_def adsp_new_def)
  ultimately show ?thesis using c by blast
qed

definition example_server :: ServiceAddress where
  "example_server = \<lparr>sa_network = 1, sa_node = 9, sa_socket = 80\<rparr>"

definition example_client :: ServiceAddress where
  "example_client = \<lparr>sa_network = 1, sa_node = 2, sa_socket = 70\<rparr>"

section \<open>Attention messages\<close>

fun adsp_deliver :: "ServiceAddress \<Rightarrow> micros \<Rightarrow> nat \<Rightarrow> bytes \<Rightarrow> AdspEndpoint \<Rightarrow> AdspEndpoint" where
  "adsp_deliver src now 0 pkt e = e"
| "adsp_deliver src now (Suc n) pkt e = adsp_deliver src now n pkt (adsp_handle_datagram src pkt now e)"

definition attention_ack :: "u16 \<Rightarrow> u32 \<Rightarrow> u32 \<Rightarrow> u16 \<Rightarrow> bytes" where
  "attention_ack cid send_sq recv_sq code =
     adsp_frame \<lparr>adsp_descriptor = ControlPacket, adsp_connection_id = cid, adsp_first_byte_seq = send_sq,
       adsp_next_recv_seq = recv_sq, adsp_recv_window = 0, adsp_flags = FLAG_ATTENTION\<rparr> (u16_bytes code)"

lemma attention_flags:
  "(FLAG_ACK OR FLAG_ATTENTION) AND FLAG_ATTENTION \<noteq> 0" "(FLAG_ACK OR FLAG_ATTENTION) AND FLAG_CONTROL = 0"
  "(FLAG_ATTENTION OR 0x80) AND FLAG_ATTENTION \<noteq> 0" "(FLAG_ATTENTION OR 0x80) AND FLAG_CONTROL \<noteq> 0"
  "FLAG_ACK OR FLAG_ATTENTION \<in> set high_nibbles" "(FLAG_ACK OR FLAG_ATTENTION) AND 0x80 = 0"
  by (simp_all add: FLAG_ACK_def FLAG_ATTENTION_def FLAG_CONTROL_def high_nibbles_def)

lemma handle_attention_packet:
  assumes "map_of (ad_connections e) cid = Some c"
  shows "adsp_handle_datagram src (build_attention cid s r code payload) now e =
    (let fresh = (s = attn_recv_seq c);
         c' = (if fresh then c\<lparr>attn_recv_seq := attn_recv_seq c + 1\<rparr> else c);
         e1 = queue_to (cn_remote c) [attention_ack (our_conn_id c) (attn_send_seq c) (attn_recv_seq c') code] (put_conn cid c' e)
     in if fresh then emit (Attention cid code payload) e1 else e1)"
proof -
  let ?h = "\<lparr>adsp_descriptor = DataPacket, adsp_connection_id = cid, adsp_first_byte_seq = s,
       adsp_next_recv_seq = r, adsp_recv_window = 0, adsp_flags = FLAG_ACK OR FLAG_ATTENTION\<rparr>"
  have "adsp_wf ?h" using attention_flags by (simp add: adsp_wf_def)
  then have p: "adsp_parse (build_attention cid s r code payload) = Inr ?h"
    "drop ADSP_HEADER_LEN (build_attention cid s r code payload) = u16_bytes code @ payload"
    by (simp_all add: build_attention_def adsp_parse_frame adsp_frame_payload)
  have c: "read_u16 (u16_bytes code @ payload) 0 = code" by (simp add: read_u16_def u16_bytes_def)
  show ?thesis
    using assms attention_flags(1,2)
    by (simp add: adsp_handle_datagram_def p handle_attention_def c attention_ack_def Let_def)
qed

lemma handle_ack_packet:
  assumes "map_of (ad_connections e) cid = Some c"
  shows "adsp_handle_datagram src (attention_ack cid s r code) now e =
    (case attn_in_flight c of
       None \<Rightarrow> e
     | Some a \<Rightarrow> if r \<noteq> ai_seq a + 1 then e
         else emit (AttentionAcked cid) (put_conn cid (c\<lparr>attn_in_flight := None, attn_send_seq := attn_send_seq c + 1\<rparr>) e))"
proof -
  have "adsp_parse (attention_ack cid s r code) = Inr \<lparr>adsp_descriptor = ControlPacket, adsp_connection_id = cid,
      adsp_first_byte_seq = s, adsp_next_recv_seq = r, adsp_recv_window = 0, adsp_flags = FLAG_ATTENTION OR 0x80\<rparr>"
    unfolding attention_ack_def by (subst adsp_parse_control) simp_all
  then show ?thesis
    using assms attention_flags(3) by (simp add: adsp_handle_datagram_def handle_attention_ack_def Let_def split: option.split)
qed

lemma deliver_stale_attention:
  assumes "map_of (ad_connections e) cid = Some c" and "s \<noteq> attn_recv_seq c"
  shows "\<exists>e'. adsp_deliver src now n (build_attention cid s r code payload) e = e'
    \<and> ad_events e' = ad_events e \<and> map_of (ad_connections e') = map_of (ad_connections e)
    \<and> ad_outbox e' = ad_outbox e @ replicate n (cn_remote c, attention_ack (our_conn_id c) (attn_send_seq c) (attn_recv_seq c) code)"
  using assms(1)
proof (induction n arbitrary: e)
  case 0
  then show ?case by simp
next
  case (Suc n)
  let ?e = "adsp_handle_datagram src (build_attention cid s r code payload) now e"
  have e: "?e = queue_to (cn_remote c) [attention_ack (our_conn_id c) (attn_send_seq c) (attn_recv_seq c) code] (put_conn cid c e)"
    using handle_attention_packet [OF Suc.prems] assms(2) by (simp add: Let_def)
  then have m: "map_of (ad_connections ?e) = map_of (ad_connections e)"
    using Suc.prems by (auto simp: queue_to_def put_conn_def map_of_om_insert)
  from Suc.IH [of ?e] m Suc.prems show ?case by (simp add: e queue_to_def put_conn_def)
qed

lemma deliver_spent_ack:
  assumes "map_of (ad_connections e) cid = Some c" and "attn_in_flight c = None"
  shows "adsp_deliver src now n (attention_ack cid s r code) e = e"
  using assms handle_ack_packet [OF assms(1)] by (induction n) simp_all

text \<open>
An attention message is delivered exactly once and reported acknowledged exactly once. Let two
  connected ends agree on the attention sequence with nothing outstanding. However often the
  message arrives, the peer's application gets one event with its code and data, and every copy
  is answered by the same acknowledgement; however often that arrives, the sender gets one event,
  has nothing outstanding, and the two ends agree again.\<close>

theorem adsp_attention_once:
  assumes "map_of (ad_connections a) ka = Some ca" and "our_conn_id ca = kb" and "attn_in_flight ca = None"
    and "map_of (ad_connections b) kb = Some cb" and "our_conn_id cb = ka"
    and "attn_send_seq ca = attn_recv_seq cb"
  shows "\<exists>pkt ack a1 b1 a2 ca2 cb1.
      send_attention ka code payload now a = (Inr (), a1) \<and> ad_outbox a1 = ad_outbox a @ [(cn_remote ca, pkt)]
    \<and> b1 = adsp_deliver srca t (Suc m) pkt b
    \<and> ad_events b1 = ad_events b @ [Attention kb code payload]
    \<and> ad_outbox b1 = ad_outbox b @ replicate (Suc m) (cn_remote cb, ack)
    \<and> a2 = adsp_deliver srcb t' (Suc n) ack a1
    \<and> ad_events a2 = ad_events a @ [AttentionAcked ka]
    \<and> map_of (ad_connections a2) ka = Some ca2 \<and> map_of (ad_connections b1) kb = Some cb1
    \<and> attn_in_flight ca2 = None \<and> attn_send_seq ca2 = attn_recv_seq cb1"
proof -
  let ?pkt = "build_attention kb (attn_send_seq ca) (attn_recv_seq ca) code payload"
  let ?ca1 = "ca\<lparr>attn_in_flight := Some \<lparr>ai_seq = attn_send_seq ca, ai_packet = ?pkt, ai_last_tx = now, ai_retries = 0\<rparr>\<rparr>"
  let ?a1 = "queue_to (cn_remote ca) [?pkt] (put_conn ka ?ca1 a)"
  let ?cb1 = "cb\<lparr>attn_recv_seq := attn_recv_seq cb + 1\<rparr>"
  let ?ack = "attention_ack ka (attn_send_seq cb) (attn_recv_seq cb + 1) code"
  let ?b0 = "adsp_handle_datagram srca ?pkt t b"
  let ?ca2 = "ca\<lparr>attn_in_flight := None, attn_send_seq := attn_send_seq ca + 1\<rparr>"
  have s: "send_attention ka code payload now a = (Inr (), ?a1)"
    using assms(1-3) by (simp add: send_attention_def Let_def)
  have b0: "?b0 = emit (Attention kb code payload) (queue_to (cn_remote cb) [?ack] (put_conn kb ?cb1 b))"
    using handle_attention_packet [OF assms(4)] assms(5,6) by (simp add: Let_def)
  then have b0c: "map_of (ad_connections ?b0) kb = Some ?cb1"
    by (simp add: emit_def queue_to_def put_conn_def map_of_om_insert)
  have ne: "attn_send_seq ca \<noteq> attn_recv_seq ?cb1" using assms(6) by simp
  from deliver_stale_attention [OF b0c ne, where src = srca and now = t and n = m and r = "attn_recv_seq ca" and code = code and payload = payload]
  have b1: "ad_events (adsp_deliver srca t m ?pkt ?b0) = ad_events ?b0"
    "map_of (ad_connections (adsp_deliver srca t m ?pkt ?b0)) = map_of (ad_connections ?b0)"
    "ad_outbox (adsp_deliver srca t m ?pkt ?b0) = ad_outbox ?b0 @ replicate m (cn_remote cb, ?ack)"
    using assms(5) by simp_all
  have a1c: "map_of (ad_connections ?a1) ka = Some ?ca1" by (simp add: queue_to_def put_conn_def map_of_om_insert)
  have a2: "adsp_handle_datagram srcb ?ack t' ?a1 = emit (AttentionAcked ka) (put_conn ka ?ca2 ?a1)"
    using handle_ack_packet [OF a1c] assms(6) by simp
  then have a2c: "map_of (ad_connections (adsp_handle_datagram srcb ?ack t' ?a1)) ka = Some ?ca2"
    by (simp add: emit_def queue_to_def put_conn_def map_of_om_insert)
  have a3: "adsp_deliver srcb t' n ?ack (adsp_handle_datagram srcb ?ack t' ?a1) = adsp_handle_datagram srcb ?ack t' ?a1"
    by (rule deliver_spent_ack [OF a2c]) simp
  have bs: "adsp_deliver srca t (Suc m) ?pkt b = adsp_deliver srca t m ?pkt ?b0" by simp
  have be: "ad_events (adsp_deliver srca t (Suc m) ?pkt b) = ad_events b @ [Attention kb code payload]"
    unfolding bs b1(1) by (simp add: b0 emit_def queue_to_def put_conn_def)
  have bo: "ad_outbox (adsp_deliver srca t (Suc m) ?pkt b) = ad_outbox b @ replicate (Suc m) (cn_remote cb, ?ack)"
    unfolding bs b1(3) by (simp add: b0 emit_def queue_to_def put_conn_def)
  have bc: "map_of (ad_connections (adsp_deliver srca t (Suc m) ?pkt b)) kb = Some ?cb1"
    unfolding bs b1(2) by (rule b0c)
  have as: "adsp_deliver srcb t' (Suc n) ?ack ?a1 = adsp_handle_datagram srcb ?ack t' ?a1"
    by (simp only: adsp_deliver.simps a3)
  have ae: "ad_events (adsp_deliver srcb t' (Suc n) ?ack ?a1) = ad_events a @ [AttentionAcked ka]"
    unfolding as a2 by (simp add: emit_def queue_to_def put_conn_def)
  have ac: "map_of (ad_connections (adsp_deliver srcb t' (Suc n) ?ack ?a1)) ka = Some ?ca2"
    unfolding as by (rule a2c)
  have ao: "ad_outbox ?a1 = ad_outbox a @ [(cn_remote ca, ?pkt)]" by (simp add: queue_to_def put_conn_def)
  have "attn_in_flight ?ca2 = None \<and> attn_send_seq ?ca2 = attn_recv_seq ?cb1" using assms(6) by simp
  with s ao be bo ae ac bc show ?thesis by blast
qed

lemma adsp_attention_once_witness:
  "\<exists>pkt ack a1. send_attention 6 3 [9] 0 (put_conn 6 (connection_new 5 example_server 64 0) (adsp_new 70 1)) = (Inr (), a1)
    \<and> ad_outbox a1 = [(example_server, pkt)]
    \<and> ad_events (adsp_deliver example_client 1 2 pkt (put_conn 5 (connection_new 6 example_client 64 0) (adsp_new 80 2)))
        = [Attention 5 3 [9]]
    \<and> ad_events (adsp_deliver example_server 2 3 ack a1) = [AttentionAcked 6]"
proof -
  let ?ca = "connection_new 5 example_server 64 0" and ?cb = "connection_new 6 example_client 64 0"
  let ?a = "put_conn 6 ?ca (adsp_new 70 1)" and ?b = "put_conn 5 ?cb (adsp_new 80 2)"
  have "map_of (ad_connections ?a) 6 = Some ?ca" "our_conn_id ?ca = 5" "attn_in_flight ?ca = None"
    "map_of (ad_connections ?b) 5 = Some ?cb" "our_conn_id ?cb = 6" "attn_send_seq ?ca = attn_recv_seq ?cb"
    by (simp_all add: put_conn_def adsp_new_def connection_new_def)
  from adsp_attention_once [OF this, where code = 3 and payload = "[9]" and now = 0 and srca = example_client
      and t = 1 and m = 1 and srcb = example_server and t' = 2 and n = 2]
  have "\<exists>pkt ack a1 (b1 :: AdspEndpoint) (a2 :: AdspEndpoint). send_attention 6 3 [9] 0 ?a = (Inr (), a1)
    \<and> ad_outbox a1 = ad_outbox ?a @ [(cn_remote ?ca, pkt)]
    \<and> b1 = adsp_deliver example_client 1 (Suc 1) pkt ?b \<and> ad_events b1 = ad_events ?b @ [Attention 5 3 [9]]
    \<and> a2 = adsp_deliver example_server 2 (Suc 2) ack a1 \<and> ad_events a2 = ad_events ?a @ [AttentionAcked 6]"
    by (elim exE conjE) (intro exI conjI, assumption+)
  then obtain pkt ack a1 where "send_attention 6 3 [9] 0 ?a = (Inr (), a1)" "ad_outbox a1 = ad_outbox ?a @ [(cn_remote ?ca, pkt)]"
    "ad_events (adsp_deliver example_client 1 (Suc 1) pkt ?b) = ad_events ?b @ [Attention 5 3 [9]]"
    "ad_events (adsp_deliver example_server 2 (Suc 2) ack a1) = ad_events ?a @ [AttentionAcked 6]"
    by blast
  then show ?thesis
    by (intro exI [of _ pkt] exI [of _ ack] exI [of _ a1]) (simp add: put_conn_def adsp_new_def connection_new_def numeral_2_eq_2 numeral_3_eq_3 del: adsp_deliver.simps)
qed

end
