(* ===== verification/Route_Table.thy ===== *)
theory Route_Table
  imports Ordered_Map Pkt_Ddp Pkt_Routing "HOL-Library.AList"
begin

text \<open>
  The routing table of src/tailtalk/src/route_table.rs and the functions of
  src/tailtalk/src/rtmp.rs that feed it from RTMP broadcasts. The table is behind a lock, so every
  operation is one step on the inner state; the clock reading is an argument. A \<open>HashMap\<close> is an
  association list (its iteration order is unspecified; here it is the order of insertion), and
  the publisher is the list of the changes sent so far.
\<close>

section \<open>Types\<close>

definition RTMP_ROUTE_TTL :: micros where "RTMP_ROUTE_TTL = 60000000"

datatype LearningMode = Dynamic | Static

datatype Interface = IfEtherTalk | IfLocalTalk

definition interface_from :: "AddressSource \<Rightarrow> Interface" where
  "interface_from src = (case src of LocalTalk \<Rightarrow> IfLocalTalk | EtherTalkPhase1 \<Rightarrow> IfEtherTalk | EtherTalkPhase2 \<Rightarrow> IfEtherTalk)"

datatype NextHop = HopLocal Interface | HopVia AppleTalkAddress Interface

datatype NbpZone = ZoneLocal | ZoneAll | ZoneNamed string

datatype NbpDispatch = LocalBroadcast | RouterBroadcast "AppleTalkAddress list" | ZoneUnknown

record RtmpEntry =
  range_lo :: u16
  range_hi :: u16
  hop_count :: u8
  next_hop :: AppleTalkAddress
  re_interface :: Interface
  expires_at :: "micros option"

definition lapsed :: "micros option \<Rightarrow> micros \<Rightarrow> bool" where
  "lapsed at now = (case at of None \<Rightarrow> False | Some t \<Rightarrow> t \<le> now)"

definition entry_expired :: "RtmpEntry \<Rightarrow> micros \<Rightarrow> bool" where
  "entry_expired e now = lapsed (expires_at e) now"

record DefaultRouter =
  dr_addr :: AppleTalkAddress
  dr_interface :: Interface
  dr_expires_at :: "micros option"

definition router_expired :: "DefaultRouter \<Rightarrow> micros \<Rightarrow> bool" where
  "router_expired r now = lapsed (dr_expires_at r) now"

section \<open>RTMP table\<close>

text \<open>\<open>partition_point\<close> of a slice sorted by the predicate.\<close>

definition partition_point :: "('a \<Rightarrow> bool) \<Rightarrow> 'a list \<Rightarrow> nat" where
  "partition_point P xs = length (takeWhile P xs)"

definition rt_lookup :: "RtmpEntry list \<Rightarrow> u16 \<Rightarrow> micros \<Rightarrow> RtmpEntry option" where
  "rt_lookup entries net now =
     (let idx = partition_point (\<lambda>e. range_lo e \<le> net) entries
      in if idx = 0 then None
         else let e = entries ! (idx - 1)
              in if net \<le> range_hi e \<and> \<not> entry_expired e now then Some e else None)"

definition rt_insert ::
  "u16 \<Rightarrow> u16 \<Rightarrow> AppleTalkAddress \<Rightarrow> u8 \<Rightarrow> Interface \<Rightarrow> micros option \<Rightarrow> RtmpEntry list \<Rightarrow> bool \<times> RtmpEntry list" where
  "rt_insert lo hi hop hops iface expiry entries =
     (let refresh = list_ex (\<lambda>e. range_lo e = lo \<and> range_hi e = hi \<and> next_hop e = hop) entries;
          kept = filter (\<lambda>e. range_hi e < lo \<or> range_lo e > hi) entries;
          pos = partition_point (\<lambda>e. range_lo e < lo) kept;
          e = \<lparr>range_lo = lo, range_hi = hi, hop_count = hops, next_hop = hop, re_interface = iface, expires_at = expiry\<rparr>
      in (\<not> refresh, take pos kept @ e # drop pos kept))"

definition rt_remove :: "u16 \<Rightarrow> u16 \<Rightarrow> RtmpEntry list \<Rightarrow> RtmpEntry list" where
  "rt_remove lo hi entries = filter (\<lambda>e. \<not> (range_lo e = lo \<and> range_hi e = hi)) entries"

text \<open>The \<open>seen.insert(x).then_some(x)\<close> filter: the first occurrence of every value.\<close>

fun dedup :: "'a list \<Rightarrow> 'a list \<Rightarrow> 'a list" where
  "dedup seen [] = []"
| "dedup seen (x # xs) = (if x \<in> set seen then dedup seen xs else x # dedup (x # seen) xs)"

definition all_next_hops_deduped :: "RtmpEntry list \<Rightarrow> micros \<Rightarrow> AppleTalkAddress list" where
  "all_next_hops_deduped entries now = dedup [] (map next_hop (filter (\<lambda>e. \<not> entry_expired e now) entries))"

definition rt_purge_expired :: "micros \<Rightarrow> RtmpEntry list \<Rightarrow> nat \<times> RtmpEntry list" where
  "rt_purge_expired now entries =
     (let kept = filter (\<lambda>e. \<not> entry_expired e now) entries in (length entries - length kept, kept))"

section \<open>ZIP table\<close>

type_synonym CableRange = "u16 \<times> u16"

record ZipTable =
  range_to_zones :: "(CableRange \<times> string list) list"
  zone_to_ranges :: "(string \<times> CableRange list) list"

definition zip_new :: ZipTable where
  "zip_new = \<lparr>range_to_zones = [], zone_to_ranges = []\<rparr>"

text \<open>\<open>entry(k).or_default()\<close> followed by a push of a value that is not there yet.\<close>

definition push_new :: "'k \<Rightarrow> 'v \<Rightarrow> ('k \<times> 'v list) list \<Rightarrow> ('k \<times> 'v list) list" where
  "push_new k v m =
     (let old = (case map_of m k of None \<Rightarrow> [] | Some vs \<Rightarrow> vs)
      in AList.update k (if v \<in> set old then old else old @ [v]) m)"

definition insert_zone_range :: "string \<Rightarrow> CableRange \<Rightarrow> ZipTable \<Rightarrow> ZipTable" where
  "insert_zone_range zone cable z =
     z\<lparr>range_to_zones := push_new cable zone (range_to_zones z),
       zone_to_ranges := push_new zone cable (zone_to_ranges z)\<rparr>"

definition drop_zone_at :: "string \<Rightarrow> CableRange \<Rightarrow> (CableRange \<times> string list) list \<Rightarrow> (CableRange \<times> string list) list" where
  "drop_zone_at zone cable m =
     (case map_of m cable of
        None \<Rightarrow> m
      | Some zones \<Rightarrow>
          (let kept = filter (\<lambda>z. z \<noteq> zone) zones
           in if kept = [] then AList.delete cable m else AList.update cable kept m))"

definition zip_remove_zone :: "string \<Rightarrow> ZipTable \<Rightarrow> ZipTable" where
  "zip_remove_zone zone z =
     (case map_of (zone_to_ranges z) zone of
        None \<Rightarrow> z
      | Some ranges \<Rightarrow> z\<lparr>zone_to_ranges := AList.delete zone (zone_to_ranges z),
          range_to_zones := foldl (\<lambda>m r. drop_zone_at zone r m) (range_to_zones z) ranges\<rparr>)"

definition ranges_for_zone :: "string \<Rightarrow> ZipTable \<Rightarrow> CableRange list" where
  "ranges_for_zone zone z = (case map_of (zone_to_ranges z) zone of None \<Rightarrow> [] | Some rs \<Rightarrow> rs)"

section \<open>Inner state\<close>

datatype RouteChange =
    SetLocalRange CableRange
  | InsertRoute u16 u16 AppleTalkAddress "Interface option"
  | RemoveRoute u16 u16
  | InsertZone string "CableRange list"
  | RemoveZone string

record RouteSnapshot =
  rs_local_range :: "CableRange option"
  rs_routes :: "(u16 \<times> u16 \<times> AppleTalkAddress \<times> Interface option) list"
  rs_zones :: "(string \<times> CableRange list) list"

record LocalRange =
  lr_interface :: Interface
  lr_range :: CableRange

record RouteInner =
  ri_mode :: LearningMode
  local_ranges :: "LocalRange list"
  rtmp_entries :: "RtmpEntry list"
  default_router :: "DefaultRouter option"
  zip_table :: ZipTable
  publisher :: "RouteChange list option"

definition route_table_new :: "LearningMode \<Rightarrow> RouteInner" where
  "route_table_new mode = \<lparr>ri_mode = mode, local_ranges = [], rtmp_entries = [], default_router = None,
     zip_table = zip_new, publisher = None\<rparr>"

definition publish :: "RouteChange \<Rightarrow> RouteInner \<Rightarrow> RouteInner" where
  "publish change s = s\<lparr>publisher := map_option (\<lambda>sent. sent @ [change]) (publisher s)\<rparr>"

fun upsert_range :: "Interface \<Rightarrow> CableRange \<Rightarrow> LocalRange list \<Rightarrow> bool \<times> LocalRange list" where
  "upsert_range iface cable [] = (True, [\<lparr>lr_interface = iface, lr_range = cable\<rparr>])"
| "upsert_range iface cable (r # rs) =
     (if lr_interface r = iface
      then (if lr_range r = cable then (False, r # rs) else (True, r\<lparr>lr_range := cable\<rparr> # rs))
      else (let (changed, rs') = upsert_range iface cable rs in (changed, r # rs')))"

definition covers :: "u16 \<Rightarrow> LocalRange \<Rightarrow> bool" where
  "covers net r \<longleftrightarrow> fst (lr_range r) \<le> net \<and> net \<le> snd (lr_range r)"

definition local_range_for :: "u16 \<Rightarrow> RouteInner \<Rightarrow> LocalRange option" where
  "local_range_for net s = find (covers net) (local_ranges s)"

definition is_local :: "u16 \<Rightarrow> RouteInner \<Rightarrow> bool" where
  "is_local net s = (local_range_for net s \<noteq> None)"

definition live_default_router :: "micros \<Rightarrow> RouteInner \<Rightarrow> DefaultRouter option" where
  "live_default_router now s =
     (case default_router s of None \<Rightarrow> None | Some r \<Rightarrow> if router_expired r now then None else Some r)"

definition inner_route_for :: "u16 \<Rightarrow> micros \<Rightarrow> RouteInner \<Rightarrow> NextHop option" where
  "inner_route_for net now s =
     (case local_range_for net s of
        Some local \<Rightarrow> Some (HopLocal (lr_interface local))
      | None \<Rightarrow>
          (case rt_lookup (rtmp_entries s) net now of
             Some e \<Rightarrow> Some (HopVia (next_hop e) (re_interface e))
           | None \<Rightarrow> map_option (\<lambda>r. HopVia (dr_addr r) (dr_interface r)) (live_default_router now s)))"

definition interface_for_net :: "u16 \<Rightarrow> micros \<Rightarrow> RouteInner \<Rightarrow> Interface option" where
  "interface_for_net net now s =
     map_option (\<lambda>hop. case hop of HopLocal i \<Rightarrow> i | HopVia _ i \<Rightarrow> i) (inner_route_for net now s)"

definition has_router :: "micros \<Rightarrow> RouteInner \<Rightarrow> bool" where
  "has_router now s \<longleftrightarrow> list_ex (\<lambda>e. \<not> entry_expired e now) (rtmp_entries s) \<or> live_default_router now s \<noteq> None"

definition all_routers :: "micros \<Rightarrow> RouteInner \<Rightarrow> AppleTalkAddress list" where
  "all_routers now s =
     (let routers = all_next_hops_deduped (rtmp_entries s) now
      in case live_default_router now s of
           None \<Rightarrow> routers
         | Some r \<Rightarrow> if dr_addr r \<in> set routers then routers else routers @ [dr_addr r])"

definition routers_for_zone :: "string \<Rightarrow> micros \<Rightarrow> RouteInner \<Rightarrow> AppleTalkAddress list" where
  "routers_for_zone zone now s =
     dedup [] (map next_hop
       (List.map_filter (\<lambda>r. rt_lookup (rtmp_entries s) (fst r) now) (ranges_for_zone zone (zip_table s))))"

definition nbp_dispatch :: "NbpZone \<Rightarrow> micros \<Rightarrow> RouteInner \<Rightarrow> NbpDispatch" where
  "nbp_dispatch zone now s =
     (case zone of
        ZoneLocal \<Rightarrow> LocalBroadcast
      | ZoneAll \<Rightarrow>
          (let routers = all_routers now s in if routers = [] then LocalBroadcast else RouterBroadcast routers)
      | ZoneNamed name \<Rightarrow>
          (let routers = routers_for_zone name now s
           in if routers \<noteq> [] then RouterBroadcast routers
              else let any = all_routers now s in if any = [] then ZoneUnknown else RouterBroadcast any))"

section \<open>Operations of the shared table\<close>

definition set_local_range_for :: "Interface \<Rightarrow> u16 \<Rightarrow> u16 \<Rightarrow> RouteInner \<Rightarrow> RouteInner" where
  "set_local_range_for iface lo hi s =
     (let (changed, rs) = upsert_range iface (lo, hi) (local_ranges s); s' = s\<lparr>local_ranges := rs\<rparr>
      in if changed then publish (SetLocalRange (lo, hi)) s' else s')"

definition set_publisher :: "RouteInner \<Rightarrow> RouteInner" where
  "set_publisher s = s\<lparr>publisher := Some []\<rparr>"

definition insert_route :: "u16 \<Rightarrow> u16 \<Rightarrow> AppleTalkAddress \<Rightarrow> Interface \<Rightarrow> RouteInner \<Rightarrow> RouteInner" where
  "insert_route lo hi hop iface s =
     (let (new, entries) = rt_insert lo hi hop 0 iface None (rtmp_entries s); s' = s\<lparr>rtmp_entries := entries\<rparr>
      in if new then publish (InsertRoute lo hi hop (Some iface)) s' else s')"

definition remove_route :: "u16 \<Rightarrow> u16 \<Rightarrow> RouteInner \<Rightarrow> RouteInner" where
  "remove_route lo hi s = publish (RemoveRoute lo hi) (s\<lparr>rtmp_entries := rt_remove lo hi (rtmp_entries s)\<rparr>)"

definition insert_zone :: "string \<Rightarrow> CableRange list \<Rightarrow> RouteInner \<Rightarrow> RouteInner" where
  "insert_zone zone ranges s =
     publish (InsertZone zone ranges)
       (s\<lparr>zip_table := foldl (\<lambda>z r. insert_zone_range zone r z) (zip_table s) ranges\<rparr>)"

definition remove_zone :: "string \<Rightarrow> RouteInner \<Rightarrow> RouteInner" where
  "remove_zone zone s = publish (RemoveZone zone) (s\<lparr>zip_table := zip_remove_zone zone (zip_table s)\<rparr>)"

definition replace_contents :: "RouteSnapshot \<Rightarrow> RouteInner \<Rightarrow> RouteInner" where
  "replace_contents snap s =
     s\<lparr>local_ranges := (case rs_local_range snap of None \<Rightarrow> [] | Some r \<Rightarrow> [\<lparr>lr_interface = IfEtherTalk, lr_range = r\<rparr>]),
       default_router := None,
       rtmp_entries := foldl (\<lambda>es (lo, hi, hop, iface).
           snd (rt_insert lo hi hop 0 (case iface of None \<Rightarrow> IfEtherTalk | Some i \<Rightarrow> i) None es)) [] (rs_routes snap),
       zip_table := foldl (\<lambda>z (zone, ranges). foldl (\<lambda>z r. insert_zone_range zone r z) z ranges) zip_new (rs_zones snap)\<rparr>"

definition snapshot :: "micros \<Rightarrow> RouteInner \<Rightarrow> RouteSnapshot" where
  "snapshot now s =
     \<lparr>rs_local_range = (case local_ranges s of [] \<Rightarrow> None | r # _ \<Rightarrow> Some (lr_range r)),
      rs_routes = map (\<lambda>e. (range_lo e, range_hi e, next_hop e, Some (re_interface e)))
        (filter (\<lambda>e. \<not> entry_expired e now) (rtmp_entries s)),
      rs_zones = zone_to_ranges (zip_table s)\<rparr>"

fun learn_tuples ::
  "AppleTalkAddress \<Rightarrow> Interface \<Rightarrow> micros \<Rightarrow> (u16 \<times> u16 \<times> u8) list \<Rightarrow> RouteInner \<Rightarrow> RouteInner" where
  "learn_tuples src iface expiry [] s = s"
| "learn_tuples src iface expiry ((lo, hi, hops) # ts) s =
     (let (new, entries) = rt_insert lo hi src hops iface (Some expiry) (rtmp_entries s);
          s' = s\<lparr>rtmp_entries := entries\<rparr>
      in learn_tuples src iface expiry ts (if new then publish (InsertRoute lo hi src (Some iface)) s' else s'))"

definition handle_rtmp ::
  "AppleTalkAddress \<Rightarrow> Interface \<Rightarrow> (u16 \<times> u16 \<times> u8) list \<Rightarrow> micros \<Rightarrow> RouteInner \<Rightarrow> RouteInner" where
  "handle_rtmp src iface tuples now s =
     (if ri_mode s = Static then s else learn_tuples src iface (now + RTMP_ROUTE_TTL) tuples s)"

definition note_router :: "AppleTalkAddress \<Rightarrow> Interface \<Rightarrow> micros \<Rightarrow> RouteInner \<Rightarrow> RouteInner" where
  "note_router router iface now s =
     (if ri_mode s = Static then s
      else s\<lparr>default_router := Some \<lparr>dr_addr = router, dr_interface = iface, dr_expires_at = Some (now + RTMP_ROUTE_TTL)\<rparr>\<rparr>)"

definition purge_expired :: "micros \<Rightarrow> RouteInner \<Rightarrow> RouteInner" where
  "purge_expired now s =
     (let (purged, entries) = rt_purge_expired now (rtmp_entries s)
      in s\<lparr>rtmp_entries := entries,
           default_router := (case default_router s of
             Some r \<Rightarrow> if router_expired r now then None else Some r | None \<Rightarrow> None)\<rparr>)"

definition handle_zip_reply :: "CableRange \<Rightarrow> string list \<Rightarrow> RouteInner \<Rightarrow> RouteInner" where
  "handle_zip_reply cable zones s =
     (if ri_mode s = Static then s
      else s\<lparr>zip_table := foldl (\<lambda>z zone. insert_zone_range zone cable z) (zip_table s) zones\<rparr>)"

definition resolve :: "u16 \<Rightarrow> micros \<Rightarrow> RouteInner \<Rightarrow> NextHop option" where
  "resolve net now s = inner_route_for net now s"

definition route_for :: "u16 \<Rightarrow> micros \<Rightarrow> RouteInner \<Rightarrow> AppleTalkAddress option" where
  "route_for net now s = (case resolve net now s of Some (HopVia router _) \<Rightarrow> Some router | _ \<Rightarrow> None)"

definition zones_on :: "Interface \<Rightarrow> RouteInner \<Rightarrow> string list" where
  "zones_on iface s =
     concat (List.map_filter (\<lambda>r. map_of (range_to_zones (zip_table s)) (lr_range r))
       (filter (\<lambda>r. lr_interface r = iface) (local_ranges s)))"

section \<open>RTMP broadcasts\<close>

definition RTMP_DISTANCE_UNREACHABLE :: u8 where "RTMP_DISTANCE_UNREACHABLE = 31"

definition local_cable_range :: "Interface \<Rightarrow> RtmpDataPacket \<Rightarrow> CableRange option" where
  "local_cable_range iface p =
     (let header = (if router_network p \<noteq> 0 then Some (router_network p, router_network p) else None) in
      case rtmp_tuples p of
        Extended lo distance hi # _ \<Rightarrow>
          (if iface = IfEtherTalk \<and> distance = 0 then (if lo \<noteq> 0 then Some (lo, hi) else None) else header)
      | _ \<Rightarrow> header)"

definition saturating_inc :: "u8 \<Rightarrow> u8" where
  "saturating_inc w = (if w = 0xFF then 0xFF else w + 1)"

fun tuples_for_route_table :: "RtmpTuple list \<Rightarrow> (u16 \<times> u16 \<times> u8) list \<times> (u16 \<times> u16) list" where
  "tuples_for_route_table [] = ([], [])"
| "tuples_for_route_table (t # ts) =
     (let (routes, poisoned) = tuples_for_route_table ts;
          (lo, hi, distance) = (case t of NonExtended n d \<Rightarrow> (n, n, d) | Extended s d e \<Rightarrow> (s, e, d))
      in if distance \<ge> RTMP_DISTANCE_UNREACHABLE then (routes, (lo, hi) # poisoned)
         else ((lo, hi, saturating_inc distance) # routes, poisoned))"

text \<open>
  What the listener does outside the table: adopt a LocalTalk network number, ask ZIP again.
  The current LocalTalk address is an argument, \<open>None\<close> where there is no LocalTalk or its actor
  does not answer; the refresh goes to the ZIP actor where there is one.
\<close>

datatype RtmpAction = AdoptAddress AppleTalkAddress | RefreshZip

record RtmpListener =
  rl_table :: RouteInner
  rl_seen :: "Interface list"

definition learn_local_cable ::
  "Interface \<Rightarrow> RtmpDataPacket \<Rightarrow> AppleTalkAddress option \<Rightarrow> RouteInner \<Rightarrow> RtmpAction list \<times> RouteInner" where
  "learn_local_cable iface p lt s =
     (case local_cable_range iface p of
        None \<Rightarrow> ([], s)
      | Some (lo, hi) \<Rightarrow>
          ((case lt of
              Some cur \<Rightarrow> if iface = IfLocalTalk \<and> network_number cur \<noteq> lo
                          then [AdoptAddress \<lparr>network_number = lo, node_number = node_number cur\<rparr>] else []
            | None \<Rightarrow> []),
           set_local_range_for iface lo hi s))"

definition rtmp_handle_packet ::
  "AddressSource \<Rightarrow> u16 \<Rightarrow> u8 \<Rightarrow> bytes \<Rightarrow> AppleTalkAddress option \<Rightarrow> micros \<Rightarrow> RtmpListener \<Rightarrow> RtmpAction list \<times> RtmpListener" where
  "rtmp_handle_packet source src_net src_node payload lt now l =
     (case rtmp_parse payload of
        Inl _ \<Rightarrow> ([], l)
      | Inr p \<Rightarrow>
          (let iface = interface_from source;
               router = \<lparr>network_number = (if src_net \<noteq> 0 then src_net else router_network p), node_number = src_node\<rparr>;
               (acts, t1) = learn_local_cable iface p lt (rl_table l);
               t2 = note_router router iface now t1;
               first = (iface \<notin> set (rl_seen l));
               (tuples, poisoned) = tuples_for_route_table (rtmp_tuples p);
               t3 = foldl (\<lambda>t (lo, hi). remove_route lo hi t) t2 poisoned;
               t4 = (if tuples \<noteq> [] then handle_rtmp router iface tuples now t3 else t3)
           in (acts @ (if first then [RefreshZip] else []),
               \<lparr>rl_table = t4, rl_seen = (if first then iface # rl_seen l else rl_seen l)\<rparr>)))"

end
