(* ===== verification/Route_Table_Props.thy ===== *)
theory Route_Table_Props
  imports Route_Table
begin

text \<open>
  The routing table (src/tailtalk/src/route_table.rs) keeps its cable ranges sorted and disjoint
  and its two zone maps inverse to each other; the binary search then agrees with a linear one, an
  insertion is an update of an abstract map from networks to routes, and purging is invisible.
\<close>

section \<open>The RTMP table\<close>

definition rt_wf :: "RtmpEntry list \<Rightarrow> bool" where
  "rt_wf entries \<longleftrightarrow> sorted_wrt (\<lambda>a b. range_hi a < range_lo b) entries \<and> (\<forall>e\<in>set entries. range_lo e \<le> range_hi e)"

definition entry_covers :: "u16 \<Rightarrow> RtmpEntry \<Rightarrow> bool" where
  "entry_covers net e \<longleftrightarrow> range_lo e \<le> net \<and> net \<le> range_hi e"

lemma rt_wf_filter: "rt_wf entries \<Longrightarrow> rt_wf (filter P entries)"
  by (simp add: rt_wf_def sorted_wrt_filter)

lemma rt_wf_append:
  "rt_wf (xs @ ys) \<longleftrightarrow> rt_wf xs \<and> rt_wf ys \<and> (\<forall>a\<in>set xs. \<forall>b\<in>set ys. range_hi a < range_lo b)"
  by (auto simp: rt_wf_def sorted_wrt_append)

lemma rt_wf_Nil [simp]: "rt_wf []"
  by (simp add: rt_wf_def)

lemma rt_wf_Cons:
  "rt_wf (e # ys) \<longleftrightarrow> range_lo e \<le> range_hi e \<and> rt_wf ys \<and> (\<forall>b\<in>set ys. range_hi e < range_lo b)"
  by (auto simp: rt_wf_def)

text \<open>A table split at a network: everything behind the split starts above it.\<close>

lemma dropWhile_above:
  assumes "rt_wf entries" and "\<And>e e'. range_lo e \<le> range_lo e' \<Longrightarrow> P e' \<Longrightarrow> P e"
  shows "\<forall>e\<in>set (dropWhile P entries). \<not> P e"
proof (cases "dropWhile P entries")
  case (Cons d ds)
  then have d: "\<not> P d" by (metis hd_dropWhile list.distinct(1) list.sel(1))
  have "rt_wf (takeWhile P entries @ dropWhile P entries)" using assms(1) by simp
  then have "rt_wf (d # ds)" unfolding Cons rt_wf_append by blast
  then have "\<forall>e\<in>set ds. range_lo d \<le> range_lo e"
    unfolding rt_wf_Cons by (meson le_less_trans less_imp_le)
  then show ?thesis using d assms(2) Cons by auto
next
  case Nil
  then show ?thesis unfolding Nil by simp
qed

lemma rt_lookup_find:
  assumes "rt_wf entries"
  shows "rt_lookup entries net now = find (\<lambda>e. entry_covers net e \<and> \<not> entry_expired e now) entries"
proof -
  let ?P = "\<lambda>e. range_lo e \<le> net" and ?C = "\<lambda>e. entry_covers net e \<and> \<not> entry_expired e now"
  obtain xs ys where xs: "takeWhile ?P entries = xs" and ys: "dropWhile ?P entries = ys" by blast
  have e: "entries = xs @ ys" using takeWhile_dropWhile_id [of ?P entries] xs ys by simp
  have up: "\<forall>e\<in>set ys. \<not> ?P e" unfolding ys [symmetric] by (rule dropWhile_above [OF assms]) simp
  then have fy: "find ?C ys = None" by (simp add: find_none_iff entry_covers_def)
  have pp: "partition_point ?P entries = length xs" by (simp add: partition_point_def xs)
  show ?thesis
  proof (cases xs rule: rev_cases)
    case Nil
    then have "find ?C entries = None" using fy by (simp add: e)
    then show ?thesis using Nil by (simp add: rt_lookup_def pp)
  next
    case (snoc zs x)
    have w: "rt_wf (zs @ [x])" using assms by (simp add: e snoc rt_wf_append rt_wf_Cons)
    have "x \<in> set (takeWhile ?P entries)" by (simp add: xs snoc)
    then have x: "range_lo x \<le> net" by (rule set_takeWhileD [THEN conjunct2])
    have "\<forall>z\<in>set zs. range_hi z < range_lo x" using w by (simp add: rt_wf_append)
    then have "\<forall>z\<in>set zs. \<not> net \<le> range_hi z" using x by (meson le_less_trans not_le less_le_trans)
    then have fz: "find ?C zs = None" by (simp add: find_none_iff entry_covers_def)
    have "find ?C entries = (if ?C x then Some x else None)"
      using fz fy by (simp add: e snoc find_append)
    moreover have "entries ! (length xs - 1) = x" by (simp add: e snoc nth_append)
    ultimately show ?thesis using snoc x by (simp add: rt_lookup_def pp Let_def entry_covers_def)
  qed
qed

lemma rt_wf_insert:
  assumes "rt_wf entries" and "lo \<le> hi"
  shows "rt_wf (snd (rt_insert lo hi hop hops iface expiry entries))"
proof -
  let ?Q = "\<lambda>e. range_lo e < lo"
  obtain k where kd: "filter (\<lambda>e. range_hi e < lo \<or> range_lo e > hi) entries = k" by blast
  obtain xs ys where xs: "takeWhile ?Q k = xs" and ys: "dropWhile ?Q k = ys" by blast
  have k: "k = xs @ ys" using takeWhile_dropWhile_id [of ?Q k] xs ys by simp
  have wk: "rt_wf k" using rt_wf_filter [OF assms(1)] kd by blast
  have mk: "\<forall>e\<in>set k. range_hi e < lo \<or> range_lo e > hi" using kd by auto
  have up: "\<forall>e\<in>set ys. \<not> ?Q e" unfolding ys [symmetric] by (rule dropWhile_above [OF wk]) simp
  have lo: "range_hi a < lo" if "a \<in> set xs" for a
  proof -
    have "range_lo a < lo" using that set_takeWhileD [of a ?Q k] xs by simp
    then have "\<not> range_lo a > hi" using assms(2) by (meson le_less_trans less_le_not_le less_imp_le)
    then show ?thesis using mk that k by auto
  qed
  have hi: "hi < range_lo b" if "b \<in> set ys" for b
  proof -
    have "range_lo b \<le> range_hi b" using wk that by (simp add: k rt_wf_def)
    moreover have "\<not> range_lo b < lo" using up that by blast
    ultimately have "\<not> range_hi b < lo" by (meson le_less_trans)
    then show ?thesis using mk that k by auto
  qed
  have eq: "snd (rt_insert lo hi hop hops iface expiry entries) = xs @
     \<lparr>range_lo = lo, range_hi = hi, hop_count = hops, next_hop = hop, re_interface = iface, expires_at = expiry\<rparr> # ys"
    by (simp add: rt_insert_def Let_def partition_point_def kd xs) (simp add: k)
  have "range_hi a < range_lo b" if "a \<in> set xs" "b \<in> set ys" for a b
    using wk that by (simp add: k rt_wf_append)
  then show ?thesis unfolding eq
    using wk lo hi assms(2) by (simp add: k rt_wf_append rt_wf_Cons)
qed

text \<open>The routes as a map from networks; the ranges of a well-formed table are disjoint.\<close>

definition rt_abs :: "RtmpEntry list \<Rightarrow> u16 \<Rightarrow> RtmpEntry option" where
  "rt_abs entries net = find (entry_covers net) entries"

lemma rt_abs_iff:
  assumes "rt_wf entries"
  shows "rt_abs entries net = Some e \<longleftrightarrow> e \<in> set entries \<and> entry_covers net e"
proof
  assume "rt_abs entries net = Some e"
  then show "e \<in> set entries \<and> entry_covers net e" by (auto simp: rt_abs_def find_Some_iff)
next
  assume "e \<in> set entries \<and> entry_covers net e"
  then obtain xs ys where e: "entries = xs @ e # ys" "entry_covers net e" by (auto dest: split_list)
  then have "\<forall>x\<in>set xs. \<not> entry_covers net x"
    using assms by (auto simp: rt_wf_append rt_wf_Cons entry_covers_def dest: less_le_trans)
  then have "find (entry_covers net) xs = None" by (simp add: find_none_iff)
  then show "rt_abs entries net = Some e" using e by (simp add: rt_abs_def find_append)
qed

lemma rt_insert_set:
  "set (snd (rt_insert lo hi hop hops iface expiry entries)) =
     insert \<lparr>range_lo = lo, range_hi = hi, hop_count = hops, next_hop = hop, re_interface = iface, expires_at = expiry\<rparr>
       {e \<in> set entries. range_hi e < lo \<or> range_lo e > hi}"
proof -
  let ?k = "filter (\<lambda>e. range_hi e < lo \<or> range_lo e > hi) entries"
  have "set (take n ?k @ x # drop n ?k) = insert x (set ?k)" for n x
  proof -
    have "set (take n ?k) \<union> set (drop n ?k) = set ?k"
      by (metis append_take_drop_id set_append)
    then show ?thesis by (simp only: set_append list.set) blast
  qed
  then show ?thesis by (simp add: rt_insert_def Let_def)
qed

section \<open>The zone maps\<close>

definition zones_for_range :: "CableRange \<Rightarrow> ZipTable \<Rightarrow> string list" where
  "zones_for_range cable z = (case map_of (range_to_zones z) cable of None \<Rightarrow> [] | Some zs \<Rightarrow> zs)"

definition zip_wf :: "ZipTable \<Rightarrow> bool" where
  "zip_wf z \<longleftrightarrow> (\<forall>zone cable. cable \<in> set (ranges_for_zone zone z) \<longleftrightarrow> zone \<in> set (zones_for_range cable z))
     \<and> (\<forall>zone. distinct (ranges_for_zone zone z)) \<and> (\<forall>cable. distinct (zones_for_range cable z))"

definition values_at :: "'k \<Rightarrow> ('k \<times> 'v list) list \<Rightarrow> 'v list" where
  "values_at k m = (case map_of m k of None \<Rightarrow> [] | Some vs \<Rightarrow> vs)"

lemma zip_values:
  "ranges_for_zone zone z = values_at zone (zone_to_ranges z)"
  "zones_for_range cable z = values_at cable (range_to_zones z)"
  by (simp_all add: ranges_for_zone_def zones_for_range_def values_at_def)

lemma values_push_new:
  "values_at k' (push_new k v m) =
     (if k' = k then (if v \<in> set (values_at k m) then values_at k m else values_at k m @ [v]) else values_at k' m)"
  by (cases "map_of m k") (auto simp: push_new_def values_at_def Let_def AList.update_conv)

lemma zip_wf_insert: "zip_wf z \<Longrightarrow> zip_wf (insert_zone_range zone cable z)"
  by (auto simp: zip_wf_def insert_zone_range_def zip_values values_push_new)

lemma zip_wf_new: "zip_wf zip_new"
  by (simp add: zip_wf_def zip_new_def zip_values values_at_def)

lemma values_drop_zone:
  "values_at c (drop_zone_at zone cable m) =
     (if c = cable then filter (\<lambda>z. z \<noteq> zone) (values_at c m) else values_at c m)"
  by (auto simp: drop_zone_at_def values_at_def Let_def AList.update_conv AList.delete_conv split: option.splits)

lemma values_drop_zones:
  "values_at c (foldl (\<lambda>m r. drop_zone_at zone r m) m rs) =
     (if c \<in> set rs then filter (\<lambda>z. z \<noteq> zone) (values_at c m) else values_at c m)"
  by (induction rs arbitrary: m) (auto simp: values_drop_zone)

lemma zip_remove_values:
  assumes "zip_wf z"
  shows "ranges_for_zone z' (zip_remove_zone zone z) = (if z' = zone then [] else ranges_for_zone z' z)"
    and "zones_for_range c (zip_remove_zone zone z) = filter (\<lambda>n. n \<noteq> zone) (zones_for_range c z)"
proof -
  have absent: "filter (\<lambda>n. n \<noteq> zone) (zones_for_range c z) = zones_for_range c z" if "c \<notin> set (ranges_for_zone zone z)" for c
  proof -
    have "zone \<notin> set (zones_for_range c z)" using that assms unfolding zip_wf_def by blast
    then show ?thesis by (auto simp: filter_id_conv)
  qed
  show "ranges_for_zone z' (zip_remove_zone zone z) = (if z' = zone then [] else ranges_for_zone z' z)"
    by (auto simp: zip_remove_zone_def ranges_for_zone_def AList.delete_conv split: option.splits)
  show "zones_for_range c (zip_remove_zone zone z) = filter (\<lambda>n. n \<noteq> zone) (zones_for_range c z)"
  proof (cases "map_of (zone_to_ranges z) zone")
    case None
    then have "c \<notin> set (ranges_for_zone zone z)" by (simp add: ranges_for_zone_def)
    from absent [OF this] None show ?thesis by (simp add: zip_remove_zone_def)
  next
    case (Some rs)
    then have "ranges_for_zone zone z = rs" by (simp add: ranges_for_zone_def)
    then show ?thesis using Some absent [of c]
      by (simp add: zip_remove_zone_def zip_values values_drop_zones)
  qed
qed

lemma zip_wf_remove:
  assumes "zip_wf z"
  shows "zip_wf (zip_remove_zone zone z)"
  using assms by (auto simp: zip_wf_def zip_remove_values [OF assms])

lemma zip_wf_foldl_ranges: "zip_wf z \<Longrightarrow> zip_wf (foldl (\<lambda>z r. insert_zone_range zone r z) z rs)"
  by (induction rs arbitrary: z) (simp_all add: zip_wf_insert)

lemma zip_wf_foldl_zones: "zip_wf z \<Longrightarrow> zip_wf (foldl (\<lambda>z zone. insert_zone_range zone c z) z zones)"
  by (induction zones arbitrary: z) (simp_all add: zip_wf_insert)

lemma zip_wf_foldl_both:
  "zip_wf z \<Longrightarrow> zip_wf (foldl (\<lambda>z (zone, ranges). foldl (\<lambda>z r. insert_zone_range zone r z) z ranges) z zs)"
  by (induction zs arbitrary: z) (auto simp: zip_wf_foldl_ranges)

section \<open>Reachable tables\<close>

text \<open>
  Every operation that changes the table, with any arguments. The flag of a step says whether the
  cable ranges it was given for routes are in order; nothing in the code checks that. The flag of
  a run says so of all of its steps.
\<close>

inductive route_step :: "bool \<Rightarrow> RouteInner \<Rightarrow> RouteInner \<Rightarrow> bool" where
  "route_step True s (set_local_range_for iface lo hi s)"
| "route_step True s (set_publisher s)"
| "ordered = (lo \<le> hi) \<Longrightarrow> route_step ordered s (insert_route lo hi hop iface s)"
| "route_step True s (remove_route lo hi s)"
| "route_step True s (insert_zone zone ranges s)"
| "route_step True s (remove_zone zone s)"
| "ordered = (\<forall>(lo, hi, x)\<in>set (rs_routes snap). lo \<le> hi) \<Longrightarrow> route_step ordered s (replace_contents snap s)"
| "ordered = (\<forall>(lo, hi, x)\<in>set tuples. lo \<le> hi) \<Longrightarrow> route_step ordered s (handle_rtmp src iface tuples now s)"
| "route_step True s (note_router router iface now s)"
| "route_step True s (purge_expired now s)"
| "route_step True s (handle_zip_reply cable zones s)"

inductive route_run :: "LearningMode \<Rightarrow> bool \<Rightarrow> RouteInner \<Rightarrow> bool" for mode where
  route_start: "route_run mode True (route_table_new mode)"
| route_more: "route_run mode ordered s \<Longrightarrow> route_step o' s s' \<Longrightarrow> all = (ordered \<and> o') \<Longrightarrow> route_run mode all s'"

abbreviation route_reachable :: "LearningMode \<Rightarrow> RouteInner \<Rightarrow> bool" where
  "route_reachable mode s \<equiv> route_run mode True s"

definition route_inv :: "RouteInner \<Rightarrow> bool" where
  "route_inv s \<longleftrightarrow> rt_wf (rtmp_entries s) \<and> zip_wf (zip_table s) \<and> distinct (map lr_interface (local_ranges s))"

lemma publish_fields [simp]:
  "rtmp_entries (publish c s) = rtmp_entries s" "zip_table (publish c s) = zip_table s"
  "local_ranges (publish c s) = local_ranges s" "ri_mode (publish c s) = ri_mode s"
  "default_router (publish c s) = default_router s"
  by (simp_all add: publish_def)

lemma upsert_interfaces:
  "map lr_interface (snd (upsert_range iface cable rs)) =
     (if iface \<in> lr_interface ` set rs then map lr_interface rs else map lr_interface rs @ [iface])"
  by (induction rs) (auto split: prod.splits)

lemma learn_tuples_fields:
  "zip_table (learn_tuples src iface expiry ts s) = zip_table s"
  "local_ranges (learn_tuples src iface expiry ts s) = local_ranges s"
  by (induction src iface expiry ts s rule: learn_tuples.induct) (simp_all add: Let_def split: prod.splits)

lemma learn_tuples_wf:
  assumes "rt_wf (rtmp_entries s)" and "\<forall>(lo, hi, x)\<in>set ts. lo \<le> hi"
  shows "rt_wf (rtmp_entries (learn_tuples src iface expiry ts s))"
  using assms
proof (induction src iface expiry ts s rule: learn_tuples.induct)
  case (2 src iface expiry lo hi hops ts s)
  obtain new es where e: "rt_insert lo hi src hops iface (Some expiry) (rtmp_entries s) = (new, es)" by fastforce
  then have "rt_wf es"
    using rt_wf_insert [OF 2(2), of lo hi src hops iface "Some expiry"] 2(3) by simp
  then show ?case using 2(1) [OF e [symmetric] refl] 2(3) by (simp add: e Let_def)
qed simp

lemma replace_routes_wf:
  assumes "rt_wf es" and "\<forall>(lo, hi, x)\<in>set rs. lo \<le> hi"
  shows "rt_wf (foldl (\<lambda>es (lo, hi, hop, iface). snd (rt_insert lo hi hop 0 (f iface) None es)) es rs)"
  using assms by (induction rs arbitrary: es) (auto simp: rt_wf_insert)

lemma route_step_inv:
  assumes "route_step ordered s s'"
  shows "(ordered \<and> rt_wf (rtmp_entries s) \<longrightarrow> rt_wf (rtmp_entries s'))
    \<and> (zip_wf (zip_table s) \<longrightarrow> zip_wf (zip_table s'))
    \<and> (distinct (map lr_interface (local_ranges s)) \<longrightarrow> distinct (map lr_interface (local_ranges s')))"
  using assms
proof (induction rule: route_step.induct)
  case (1 s iface lo hi)
  then show ?case
    using upsert_interfaces [of iface "(lo, hi)" "local_ranges s"]
    by (auto simp: set_local_range_for_def Let_def split: prod.splits)
next
  case (3 ordered lo hi s hop iface)
  then show ?case
    using rt_wf_insert [of "rtmp_entries s" lo hi hop 0 iface None]
    by (auto simp: insert_route_def Let_def split: prod.splits)
next
  case (7 ordered snap s)
  have "ordered \<longrightarrow> rt_wf (rtmp_entries (replace_contents snap s))"
    unfolding replace_contents_def using 7 by (simp add: replace_routes_wf)
  moreover have "distinct (map lr_interface (local_ranges (replace_contents snap s)))
      \<or> local_ranges (replace_contents snap s) = local_ranges s"
    by (simp add: replace_contents_def split: option.split)
  moreover have "zip_wf (zip_table (replace_contents snap s))"
    by (simp add: replace_contents_def zip_wf_new zip_wf_foldl_both)
  ultimately show ?case by auto
next
  case (8 ordered tuples s src iface now)
  then show ?case by (simp add: handle_rtmp_def learn_tuples_wf learn_tuples_fields)
qed (auto simp: set_publisher_def remove_route_def rt_remove_def rt_wf_filter insert_zone_def
      zip_wf_foldl_ranges remove_zone_def zip_wf_remove note_router_def purge_expired_def rt_purge_expired_def
      handle_zip_reply_def zip_wf_foldl_zones Let_def)

lemma route_run_inv:
  "route_run mode ordered s \<Longrightarrow> (ordered \<longrightarrow> rt_wf (rtmp_entries s)) \<and> zip_wf (zip_table s)
    \<and> distinct (map lr_interface (local_ranges s))"
proof (induction rule: route_run.induct)
  case route_start
  then show ?case by (simp add: route_table_new_def rt_wf_def zip_wf_new)
next
  case (route_more ordered s o' s' all)
  from route_step_inv [OF route_more.hyps(2)] route_more.IH route_more.hyps(3) show ?case by blast
qed

lemma route_reachable_inv: "route_reachable mode s \<Longrightarrow> route_inv s"
  using route_run_inv by (auto simp: route_inv_def)

text \<open>
Claim C13: Every table reachable by any sequence of operations with any arguments has its two zone maps
  inverse to each other and free of duplicates, and at most one local range for each interface; and
  as long as every cable range given to \<open>insert\<close>, received in an RTMP packet or loaded from
  a snapshot was in order, which neither the parser nor the table checks, its routes are sorted
  and disjoint. What a range out of order does is the subject of \<open>inverted_range_hides_route\<close>.\<close>

theorem route_table_invariant:
  assumes "route_run mode ordered s"
  shows "(ordered \<longrightarrow> sorted_wrt (\<lambda>a b. range_hi a < range_lo b) (rtmp_entries s)
        \<and> list_all (\<lambda>e. range_lo e \<le> range_hi e) (rtmp_entries s))
    \<and> (\<forall>zone cable. cable \<in> set (ranges_for_zone zone (zip_table s)) \<longleftrightarrow> zone \<in> set (zones_for_range cable (zip_table s)))
    \<and> (\<forall>zone. distinct (ranges_for_zone zone (zip_table s)))
    \<and> distinct (map lr_interface (local_ranges s))"
  using route_run_inv [OF assms] by (simp add: rt_wf_def zip_wf_def list_all_iff)

definition example_router :: AppleTalkAddress where
  "example_router = \<lparr>network_number = 2, node_number = 254\<rparr>"

lemma route_table_invariant_witness:
  "sorted_wrt (\<lambda>a b. range_hi a < range_lo b)
     (rtmp_entries (handle_rtmp example_router IfLocalTalk [(9, 12, 1), (3, 5, 1)] 0 (route_table_new Dynamic)))"
proof -
  have "route_reachable Dynamic (handle_rtmp example_router IfLocalTalk [(9, 12, 1), (3, 5, 1)] 0 (route_table_new Dynamic))"
    by (rule route_more [OF route_start route_step.intros(8) [OF refl]]) simp
  from route_table_invariant [OF this] show ?thesis by simp
qed

section \<open>Lookups\<close>

text \<open>
In every reachable table the binary search of a lookup finds what a linear search for a live
  route covering the network finds, and adding a route is an update of the map from networks to
  routes: networks in the new range get the new route, networks outside it keep theirs unless it
  overlaps the new range, in which case they lose it.\<close>

theorem route_table_refines_map:
  assumes "route_reachable mode s" and "lo \<le> hi"
  shows "rt_lookup (rtmp_entries s) net now = find (\<lambda>e. entry_covers net e \<and> \<not> entry_expired e now) (rtmp_entries s)
    \<and> rt_abs (snd (rt_insert lo hi hop hops iface expiry (rtmp_entries s))) net =
       (if lo \<le> net \<and> net \<le> hi
        then Some \<lparr>range_lo = lo, range_hi = hi, hop_count = hops, next_hop = hop, re_interface = iface, expires_at = expiry\<rparr>
        else case rt_abs (rtmp_entries s) net of
               None \<Rightarrow> None
             | Some e \<Rightarrow> if range_hi e < lo \<or> range_lo e > hi then Some e else None)"
proof -
  let ?new = "\<lparr>range_lo = lo, range_hi = hi, hop_count = hops, next_hop = hop, re_interface = iface, expires_at = expiry\<rparr>"
  let ?es = "rtmp_entries s" and ?es' = "snd (rt_insert lo hi hop hops iface expiry (rtmp_entries s))"
  have w: "rt_wf ?es" using route_reachable_inv [OF assms(1)] by (simp add: route_inv_def)
  have w': "rt_wf ?es'" by (rule rt_wf_insert [OF w assms(2)])
  have iff: "rt_abs ?es' net = Some e \<longleftrightarrow>
      e = ?new \<and> lo \<le> net \<and> net \<le> hi \<or> (rt_abs ?es net = Some e \<and> (range_hi e < lo \<or> range_lo e > hi))" for e
    unfolding rt_abs_iff [OF w'] rt_abs_iff [OF w] rt_insert_set by (auto simp: entry_covers_def)
  have out: "\<not> (rt_abs ?es net = Some e \<and> (range_hi e < lo \<or> range_lo e > hi))" if "lo \<le> net" "net \<le> hi" for e
    using that rt_abs_iff [OF w] by (auto simp: entry_covers_def dest: less_le_trans)
  have "rt_abs ?es' net = (if lo \<le> net \<and> net \<le> hi then Some ?new
      else case rt_abs ?es net of None \<Rightarrow> None | Some e \<Rightarrow> if range_hi e < lo \<or> range_lo e > hi then Some e else None)"
  proof (cases "lo \<le> net \<and> net \<le> hi")
    case True
    then show ?thesis using iff [of ?new] by simp
  next
    case False
    show ?thesis
    proof (cases "rt_abs ?es' net")
      case None
      then have "\<not> (rt_abs ?es net = Some e \<and> (range_hi e < lo \<or> range_lo e > hi))" for e using iff [of e] by simp
      then show ?thesis using False None by (auto split: option.splits)
    next
      case (Some e)
      then have "rt_abs ?es net = Some e \<and> (range_hi e < lo \<or> range_lo e > hi)" using iff [of e] False by simp
      then show ?thesis using False Some by auto
    qed
  qed
  then show ?thesis using rt_lookup_find [OF w] by blast
qed

lemma route_table_refines_map_witness:
  "rt_abs (snd (rt_insert 10 20 example_router 1 IfLocalTalk None [])) 15 =
     Some \<lparr>range_lo = 10, range_hi = 20, hop_count = 1, next_hop = example_router, re_interface = IfLocalTalk, expires_at = None\<rparr>"
  using route_table_refines_map [OF route_start [of Dynamic], where lo = 10 and hi = 20 and net = 15
      and hop = example_router and hops = 1 and iface = IfLocalTalk and expiry = None and now = 0]
  by (simp add: route_table_new_def)

section \<open>Expiry\<close>

lemma find_filter: "(\<And>x. P x \<Longrightarrow> Q x) \<Longrightarrow> find P (filter Q xs) = find P xs"
  by (induction xs) auto

lemma lapsed_later: "lapsed at now \<Longrightarrow> now \<le> t \<Longrightarrow> lapsed at t"
  by (auto simp: lapsed_def split: option.splits)

lemma purge_lookup:
  assumes "rt_wf entries" and "now \<le> t"
  shows "rt_lookup (filter (\<lambda>e. \<not> entry_expired e now) entries) net t = rt_lookup entries net t"
  unfolding rt_lookup_find [OF assms(1)] rt_lookup_find [OF rt_wf_filter [OF assms(1)]]
  by (rule find_filter) (use assms(2) lapsed_later in \<open>auto simp: entry_expired_def\<close>)

text \<open>
Purging expired routes is invisible: at every later time a reachable table and its purged copy
  resolve every network alike, agree on whether a router is known, and dispatch every name
  lookup alike.\<close>

theorem purge_invisible:
  assumes "route_reachable mode s" and "now \<le> t"
  shows "resolve net t (purge_expired now s) = resolve net t s
    \<and> interface_for_net net t (purge_expired now s) = interface_for_net net t s
    \<and> has_router t (purge_expired now s) = has_router t s
    \<and> nbp_dispatch zone t (purge_expired now s) = nbp_dispatch zone t s"
proof -
  have w: "rt_wf (rtmp_entries s)" using route_reachable_inv [OF assms(1)] by (simp add: route_inv_def)
  let ?p = "purge_expired now s"
  have pe: "rtmp_entries ?p = filter (\<lambda>e. \<not> entry_expired e now) (rtmp_entries s)"
    "local_ranges ?p = local_ranges s" "zip_table ?p = zip_table s"
    by (simp_all add: purge_expired_def rt_purge_expired_def Let_def)
  have l: "rt_lookup (rtmp_entries ?p) n t = rt_lookup (rtmp_entries s) n t" for n
    unfolding pe by (rule purge_lookup [OF w assms(2)])
  have ne: "\<not> entry_expired e t \<Longrightarrow> \<not> entry_expired e now" for e
    using assms(2) lapsed_later by (auto simp: entry_expired_def)
  have d: "live_default_router t ?p = live_default_router t s"
    using assms(2) lapsed_later
    by (auto simp: live_default_router_def purge_expired_def rt_purge_expired_def router_expired_def Let_def split: option.splits)
  have f: "filter (\<lambda>e. \<not> entry_expired e t) (rtmp_entries ?p) = filter (\<lambda>e. \<not> entry_expired e t) (rtmp_entries s)"
    unfolding pe using ne by (auto intro: filter_cong)
  have r: "inner_route_for n t ?p = inner_route_for n t s" for n
    by (simp only: inner_route_for_def local_range_for_def l d pe(2))
  have h: "has_router t ?p = has_router t s"
  proof -
    have "list_ex (\<lambda>e. \<not> entry_expired e t) es = (filter (\<lambda>e. \<not> entry_expired e t) es \<noteq> [])" for es
      by (induction es) auto
    then show ?thesis by (simp only: has_router_def d f)
  qed
  have a: "all_routers t ?p = all_routers t s"
    by (simp only: all_routers_def all_next_hops_deduped_def d f)
  have z: "routers_for_zone n t ?p = routers_for_zone n t s" for n
    by (simp only: routers_for_zone_def l pe(3))
  have "nbp_dispatch zone t ?p = nbp_dispatch zone t s"
    by (simp only: nbp_dispatch_def a z)
  then show ?thesis using r h by (simp add: resolve_def interface_for_net_def)
qed

lemma purge_invisible_witness:
  "resolve 4 99 (purge_expired 70 (handle_rtmp example_router IfLocalTalk [(3, 5, 1)] 0 (route_table_new Dynamic)))
     = resolve 4 99 (handle_rtmp example_router IfLocalTalk [(3, 5, 1)] 0 (route_table_new Dynamic))"
proof -
  have "route_reachable Dynamic (handle_rtmp example_router IfLocalTalk [(3, 5, 1)] 0 (route_table_new Dynamic))"
    by (rule route_more [OF route_start route_step.intros(8) [OF refl]]) simp
  from purge_invisible [OF this, of 70 99 4 ZoneAll] show ?thesis by simp
qed

section \<open>Ranges out of order\<close>

text \<open>
The table does not check that a learned range is in order. A tuple whose start lies inside a known
  range and whose end lies below it leaves that route in the table but hides it: no network from
  the tuple's start to the end of the known range resolves to the route any more.\<close>

theorem inverted_range_hides_route:
  assumes "route_reachable mode s" and "e \<in> set (rtmp_entries s)"
    and "range_lo e < lo" and "lo \<le> net" and "net \<le> range_hi e" and "hi < range_lo e"
  shows "let entries = snd (rt_insert lo hi hop hops iface expiry (rtmp_entries s))
    in e \<in> set entries \<and> rt_lookup entries net now = None"
proof -
  have w: "rt_wf (rtmp_entries s)" using route_reachable_inv [OF assms(1)] by (simp add: route_inv_def)
  let ?Q = "\<lambda>x. range_lo x < lo"
  obtain k where kd: "filter (\<lambda>x. range_hi x < lo \<or> range_lo x > hi) (rtmp_entries s) = k" by blast
  obtain xs ys where xs: "takeWhile ?Q k = xs" and ys: "dropWhile ?Q k = ys" by blast
  have k: "k = xs @ ys" using takeWhile_dropWhile_id [of ?Q k] xs ys by simp
  have wk: "rt_wf k" using rt_wf_filter [OF w] kd by blast
  let ?new = "\<lparr>range_lo = lo, range_hi = hi, hop_count = hops, next_hop = hop, re_interface = iface, expires_at = expiry\<rparr>"
  have eq: "snd (rt_insert lo hi hop hops iface expiry (rtmp_entries s)) = xs @ ?new # ys"
    by (simp add: rt_insert_def Let_def partition_point_def kd xs) (simp add: k)
  have ek: "e \<in> set k" using assms(2,6) kd by auto
  have "\<forall>x\<in>set ys. \<not> ?Q x" unfolding ys [symmetric] by (rule dropWhile_above [OF wk]) simp
  then have ex: "e \<in> set xs" using ek k assms(3) by auto
  have above: "net < range_lo y" if "y \<in> set ys" for y
  proof -
    have "range_hi e < range_lo y" using wk ex that by (simp add: k rt_wf_append)
    then show ?thesis using assms(5) by (rule le_less_trans [rotated])
  qed
  have below: "range_lo x \<le> net" if "x \<in> set xs" for x
  proof -
    have "range_lo x < lo" using that set_takeWhileD [of x ?Q k] xs by simp
    then show ?thesis using assms(4) by simp
  qed
  have "takeWhile (\<lambda>x. range_lo x \<le> net) (xs @ ?new # ys) = xs @ [?new]"
    using below above assms(4) by (cases ys) (auto simp: takeWhile_append2 not_le)
  then have pp: "partition_point (\<lambda>x. range_lo x \<le> net) (xs @ ?new # ys) = length xs + 1"
    by (simp add: partition_point_def)
  have "\<not> net \<le> hi" using assms(3,4,6) by (meson less_le_trans not_le less_trans)
  then have "rt_lookup (xs @ ?new # ys) net now = None"
    by (simp add: rt_lookup_def pp Let_def nth_append)
  then show ?thesis unfolding eq Let_def using ek k by simp
qed

lemma inverted_range_hides_route_witness:
  "rt_lookup (snd (rt_insert 20 10 example_router 1 IfLocalTalk None
      (rtmp_entries (insert_route 15 30 example_router IfLocalTalk (route_table_new Static))))) 25 0 = None"
proof -
  let ?s = "insert_route 15 30 example_router IfLocalTalk (route_table_new Static)"
  let ?e = "\<lparr>range_lo = 15, range_hi = 30, hop_count = 0, next_hop = example_router, re_interface = IfLocalTalk, expires_at = None\<rparr>"
  have r: "route_reachable Static ?s" by (rule route_more [OF route_start route_step.intros(3) [OF refl]]) simp
  have "?e \<in> set (rtmp_entries ?s)"
    by (simp add: insert_route_def route_table_new_def rt_insert_def Let_def partition_point_def)
  from inverted_range_hides_route [OF r this, where lo = 20 and hi = 10 and net = 25 and hop = example_router and hops = 1
      and iface = IfLocalTalk and expiry = None and now = 0]
  show ?thesis by (simp add: Let_def)
qed

section \<open>Name dispatch\<close>

lemma dedup_set: "set (dedup seen xs) = set xs - set seen"
  by (induction seen xs rule: dedup.induct) auto

lemma dedup_distinct: "distinct (dedup seen xs)"
  by (induction seen xs rule: dedup.induct) (auto simp: dedup_set)

lemma rt_lookup_live: "rt_lookup es net now = Some e \<Longrightarrow> e \<in> set es \<and> \<not> entry_expired e now"
proof -
  assume a: "rt_lookup es net now = Some e"
  let ?i = "partition_point (\<lambda>e. range_lo e \<le> net) es"
  from a have "?i \<noteq> 0" "es ! (?i - 1) = e" "\<not> entry_expired e now"
    by (simp_all add: rt_lookup_def Let_def split: if_splits)
  moreover have "?i \<le> length es" by (simp add: partition_point_def length_takeWhile_le)
  ultimately show ?thesis using nth_mem [of "?i - 1" es] by auto
qed

definition live_routers :: "micros \<Rightarrow> RouteInner \<Rightarrow> AppleTalkAddress set" where
  "live_routers now s = next_hop ` {e \<in> set (rtmp_entries s). \<not> entry_expired e now}
     \<union> {a. \<exists>r. live_default_router now s = Some r \<and> dr_addr r = a}"

lemma all_routers_set: "set (all_routers now s) = live_routers now s"
  by (auto simp: all_routers_def all_next_hops_deduped_def live_routers_def dedup_set Let_def split: option.splits)

text \<open>
A lookup is sent to the whole segment exactly when it names the local zone, or all zones while no
  live router is known; otherwise it goes to routers that are all live and distinct, and a named
  zone is unknown exactly when no live router is known.\<close>

theorem nbp_dispatch_spec:
  "case nbp_dispatch zone now s of
     LocalBroadcast \<Rightarrow> zone = ZoneLocal \<or> (zone = ZoneAll \<and> \<not> has_router now s)
   | RouterBroadcast routers \<Rightarrow> zone \<noteq> ZoneLocal \<and> routers \<noteq> [] \<and> distinct routers \<and> set routers \<subseteq> live_routers now s
   | ZoneUnknown \<Rightarrow> (\<exists>name. zone = ZoneNamed name) \<and> \<not> has_router now s"
proof -
  have hr: "has_router now s \<longleftrightarrow> live_routers now s \<noteq> {}"
    by (auto simp: has_router_def live_routers_def list_ex_iff)
  have ar: "all_routers now s = [] \<longleftrightarrow> \<not> has_router now s"
    using all_routers_set [of now s] hr by (metis set_empty2)
  have ad: "distinct (all_routers now s)"
    by (auto simp: all_routers_def all_next_hops_deduped_def dedup_distinct Let_def split: option.splits)
  have zd: "distinct (routers_for_zone n now s)" for n by (simp add: routers_for_zone_def dedup_distinct)
  have zs: "set (routers_for_zone n now s) \<subseteq> live_routers now s" for n
    by (auto simp: routers_for_zone_def dedup_set live_routers_def List.map_filter_def dest: rt_lookup_live)
  show ?thesis
    using ar ad zd zs all_routers_set [of now s]
    by (cases zone) (simp_all add: nbp_dispatch_def Let_def)
qed

end
