(* ===== verification/Spec2Isabelle.thy ===== *)
theory Spec2Isabelle
  imports Hfs_Props Afp_Listing Afp_Desktop_Props Afp_Tree_Theorems Net_StyleWriter Sw_Imager LT_RxEngine LT_Phy LT_Backoff Tash_Codec Pkt_Headers Pkt_Routing Core_Stack Core_Atp_Exchange Core_Adsp_Reliable Core_Adsp_Session Route_Table_Props Net_Printer
begin

text \<open>
  A verification development for TailTalk, an AppleTalk implementation in Rust: packets and link layers, the poll-driven
  protocol machines of an AppleTalk node, the printer roles of the InkTalk print server, the StyleWriter raster encoder, the file
  protocol of the file server, and the reader of HFS disk images. Every definition is translated from the sources under src/; its
  lines are in the manifest beside this development.

  \<^bold>\<open>How the parts fit together.\<close> A frame comes from the wire (LT_, Tash_), is a LocalTalk or EtherTalk frame with a DDP
  datagram in it (Pkt_), and is given to the stack of a node (Core_Stack), which acquires the node's address, answers the
  always-on protocols and hands other datagrams to sockets. On the sockets sit machines without input or output of their own
  (Core_Atp, Core_Adsp, Core_Nbp, Core_Pap): a datagram or a clock reading goes in, packets and events come out of queues, and
  \<open>next_deadline\<close> says when to poll again. The printer roles (Core_Pap, Core_ImageWriter, Core_StyleWriter) turn the events of the
  machines into bytes for a printer, and the printer port (Net_Printer, Net_StyleWriter) queues the bytes and hands credit back.
  The host side encodes a page for a StyleWriter (Sw_), keeps a routing table (Route_), serves files (Afp_), and reads disk
  images (Hfs_).

  \<^bold>\<open>Shared theories.\<close>
  \<^item> TT_Prelude: machine integers as words, \<open>Result\<close> as a sum, big-endian access, buffer writes, the locale \<open>header_codec\<close>.
  \<^item> Ordered_Map: \<open>BTreeMap\<close> as a sorted association list, with the map laws as the locale \<open>map_impl\<close>.
  \<^item> Timed_Machine: the contract of \<open>poll\<close> and \<open>next_deadline\<close> as the locale \<open>timed_machine\<close>, interpreted by every machine with a clock.
  \<^item> Frame_Check: the contract of a frame check sequence as the locale \<open>frame_check\<close>, interpreted by both implementations.

  \<^bold>\<open>Link layers\<close> (src/InkTalk/firmware/localtalk, src/tashtalk, src/InkTalk/firmware/src/core1.rs).
  \<^item> LT_Crc, LT_Bitstuff, LT_Fm0, LT_Hdlc, LT_Llap, LT_Backoff: crc.rs, bitstuff.rs, fm0.rs, hdlc.rs, llap.rs, backoff.rs, one
    theory per module. The table-driven register is the bit-serial one, unstuffing undoes stuffing, the decoder recovers the bits of
    a signal sampled with jitter, framing never reaches a capacity, and the backoff registers keep their masks.
  \<^item> LT_Phy: a frame sent through all of these comes back as the events of the same frame.
  \<^item> LT_RxEngine: the receive engine, from the words of the PIO ring to queued frames and the one automatic reply.
  \<^item> Tash_Codec: the serial codec of a TashTalk adapter; the frames decoded do not depend on how the bytes arrive.

  \<^bold>\<open>Packets\<close> (src/tailtalk-packets/src).
  \<^item> Pkt_Ddp, Pkt_Link, Pkt_Transport, Pkt_Headers: DDP, LLAP, EtherTalk and AARP, the transport headers, and the header stack.
    Each codec interprets \<open>header_codec\<close>.
  \<^item> Pkt_Nbp, Pkt_Routing: NBP names and tuples, RTMP and ZIP.

  \<^bold>\<open>The node\<close> (src/tailtalk-core/src).
  \<^item> Core_Node: the generator, link frames, address acquisition, echo responder, RTMP listener. Core_Stack: all of them in one stack.
  \<^item> Core_Atp and Core_Atp_Exchange: one endpoint, and whole transactions: retransmission, duplicates, reassembly in any order.
  \<^item> Core_Adsp, Core_Adsp_Stream, Core_Adsp_Reliable, Core_Adsp_Session: one endpoint; the stream as a list of bytes and
    end-of-message marks; delivery of a prefix of what was written whatever the network does, for fewer than 2^31 items if
    nothing is retransmitted after bytes went behind an unacknowledged mark, and the lost byte otherwise; handshake and attentions.
  \<^item> Core_Nbp: the registry against the list of matching registrations; a reply over 600 bytes is not sent.
  \<^item> Core_Pap and Core_Pap_Props: the printer server; in a run of fewer than 65535 inputs every operation returns, the events follow the
    language of sessions, replies can be repeated. The bound is the number of transaction identifiers.

  \<^bold>\<open>Printers\<close> (src/tailtalk-core/src, src/tailtalk-net/src, src/tailtalk/src/stylewriter).
  \<^item> Core_ImageWriter, Core_StyleWriter, Core_StyleWriter_Jobs: the two other roles; the job protocol is a step relation every run
    of the role follows.
  \<^item> Net_Printer, Net_StyleWriter: the port. The trait of the roles is a record of operations, and the law its queue rests on is the
    locale \<open>printer_role\<close>, interpreted by all three roles.
  \<^item> Sw_Family, Sw_Encode, Sw_Raster, Sw_Imager: engines and job commands, the run-length code and its bands, halftones, whole pages.
    The specification is a printer that reads the codes back.

  \<^bold>\<open>Routing, files and disk images.\<close>
  \<^item> Route_Table, Route_Table_Props: src/tailtalk/src/route_table.rs and rtmp.rs. As long as the ranges given are in order, which
    the code does not check, the binary search agrees with a linear one and the table implements an abstract map from networks to routes.
  \<^item> Hfs_Reader, Hfs_Props: src/hfs-reader/src/lib.rs. The walk visits exactly the reachable nodes of any image.
  \<^bold>\<open>The file protocol\<close> (src/tailtalk-packets/src/afp, src/tailtalk/src/afp).
  \<^item> Afp_Types, Afp_Names: types.rs, bitmap.rs, util.rs, prodos.rs. Mangled names have 31 bytes, ProDOS information of a \<open>pdos\<close> file
    round-trips.
  \<^item> Afp_Commands, Afp_Packet_Props: commands.rs, every parser and the replies built there. Log in and server status round-trip;
    which requests panic and which volumes cannot be listed is stated exactly.
  \<^item> Afp_Desktop, Afp_Desktop_Props: desktop.rs, the desktop database. The registered applications are a map that the
    operations update entry by entry, paths of 255 bytes and less; copying an application moves its registration.
  \<^item> Afp_Volume, Afp_Table: volume.rs, the state of a volume, names and paths, and the table of nodes with its invariant: a path
    leads to a node at that path and identifiers in use are below the next one.
  \<^item> Afp_Forks, Afp_Forks_Props, Afp_Fork_Theorems: volume.rs, open forks over the host's files (locale \<open>host_files\<close>). Reads and
    writes are exact although seeks are skipped, a flush that succeeds leaves nothing unsynced, locks never overlap.
  \<^item> Afp_Parms, Afp_Parms_Props, Afp_Listing: volume.rs, Finder information, packed parameters, opening forks, listings. A page of
    a listing stays within the size asked for, but for its two bytes of count, and reads back row by row, names included.
  \<^item> Afp_Tree, Afp_Tree_Props, Afp_Tree_Theorems: volume.rs, creating, moving, renaming, deleting, copying, comments, and the walk
    over a whole tree. All of them keep the table; a move takes the subtree along but leaves resource forks of a folder behind.

  \<^bold>\<open>Loops, bounds and fuel.\<close> Loops over data are structural recursion or \<open>function\<close> with a measure (unvisited node indices, bytes
  left, blocks still missing). Loops the code does not bound are \<open>partial_function (option)\<close>, where \<open>None\<close> is not returning:
  the search for a free transaction identifier (\<open>allocate_tid_loop\<close>), for a free connection identifier (\<open>conn_id_loop\<close>), settling
  the printer port (\<open>settle_loop\<close>), the poll of the stack (\<open>stack_poll\<close>) and the walk of a volume (\<open>walk_loop\<close>). That they
  return is proved: for the PAP server on every run of fewer than 65535 inputs, for the stack on every run, for the port as part of its properties, for the walk when
  directories nest to a bounded depth. No definition uses fuel. Machine integers keep their width; times
  are natural numbers, since a 64-bit count of microseconds does not wrap in practice.

  \<^bold>\<open>Panics and errors.\<close> An \<open>Err\<close> is \<open>Inl\<close>. A panic (a slice out of range, an overflow the build checks) is a value of its own:
  \<open>None\<close>, or an error constructor where a function has both. The properties say when it cannot happen, and the findings where it can.

  \<^bold>\<open>Parameters.\<close> The iteration order of a hash map (\<open>hash_order\<close>), whether the build checks arithmetic (\<open>checks\<close>), the clock,
  and random numbers where the code draws them from outside are arguments. The MacRoman
  codec of encoding_rs is a record of two functions (\<open>MacRoman\<close>), of which proofs use only that ASCII is encoded as itself.
  The sled database is a record of tree operations (\<open>SledTree\<close>) with its laws in locale \<open>sled_tree\<close>, interpreted on ordered
  association lists; the host file system is a record of calls (\<open>Host\<close>) with the laws of files in locale \<open>host_files\<close>, interpreted
  on files in memory; the iteration orders of the volume's hash tables are functions of the environment (\<open>Env\<close>).

  \<^bold>\<open>Not modelled.\<close>
  \<^item> The asynchronous layers: the handles of tailtalk-net and the actors of the tailtalk crate drive the machines above, or repeat
    them, over tokio and embassy tasks, channels and wakers, whose scheduling is not in the sources.
  \<^item> The desktop application, the daemon, the firmware tasks over peripherals, generated protobuf types and the examples: user
    interface, hardware access and calls of the library.
  \<^item> Log output, texts of error messages, and the conversion of names between MacRoman and UTF-8, which is the encoding_rs crate's.
  \<^item> The handlers of the AFP server (src/tailtalk/src/afp/server.rs): tokio code over the session service, around the parsers and
    the volume. The volume is modelled as built for Unix other than macOS.
\<close>

end
